(* ===== verification/Prelude.thy ===== *)
theory Prelude
  imports Complex_Main "HOL-Library.AList" "HOL-Library.Char_ord" "HOL-Library.List_Lexorder"
    "HOL-Library.Product_Lexorder" "HOL-Library.Multiset"
begin

text \<open>
  What every component of the model shares: the exceptions the services raise and the result type
  that carries them, the Python containers and sorts the code relies on, and the rounding function
  \<open>ROUND_HALF_EVEN\<close> on exact values, together with the lemmas about them that the component
  theories use.

  Conventions. A Python \<open>int\<close> is an \<open>int\<close>, a \<open>Fraction\<close> is a \<open>rat\<close>, a \<open>datetime\<close> is the
  \<open>int\<close> count of microseconds from the epoch (the resolution Python keeps), a \<open>dict\<close> is an
  association list in insertion order (\<open>AList.update\<close> replaces a key in place and appends a new
  one, which is what \<open>d[k] = v\<close> does), a \<open>str\<close> is a \<open>string\<close> ordered lexicographically.
\<close>

section \<open>Exceptions and results\<close>

datatype exc =
    ValidationError string
  | ConflictError string
  | NotFound string
  | ValueError string
  | TypeError string
  | ArithmeticError string
  | KeyError string
  | IndexError
  | AssertionError string
  | RuntimeError string
  | MultipleResultsFound
  | NoResultFound
  | IntegrityError string
  | StockAssignmentRefused "(nat \<times> string) list"
  | StockAssignmentPropertyMismatch "(nat \<times> (string \<times> string) list) list"
  | StockDemandDeadlineExceeded
  | LocationTrackerWebhookAuthError

type_synonym 'a result = "exc + 'a"

named_theorems result_simps \<open>unfolding of the error-passing combinators\<close>

definition rbind :: "'a result \<Rightarrow> ('a \<Rightarrow> 'b result) \<Rightarrow> 'b result" where
  "rbind m f = (case m of Inl e \<Rightarrow> Inl e | Inr x \<Rightarrow> f x)"

lemma rbind_evaluation [code_unfold]:
  \<comment> \<open>evaluation enters a continuation only with a value\<close>
  "rbind m f = (case m of Inl e \<Rightarrow> Inl e | Inr x \<Rightarrow> f x)"
  by (rule rbind_def)

definition rguard :: "bool \<Rightarrow> exc \<Rightarrow> unit result" where
  \<comment> \<open>\<open>if not ok: raise e\<close>\<close>
  "rguard ok e = (if ok then Inr () else Inl e)"

definition is_ok :: "'a result \<Rightarrow> bool" where
  "is_ok r \<longleftrightarrow> (case r of Inl _ \<Rightarrow> False | Inr _ \<Rightarrow> True)"

text \<open>A loop that calls a raising function on every element and collects the results.\<close>

fun rmap :: "('a \<Rightarrow> 'b result) \<Rightarrow> 'a list \<Rightarrow> 'b list result" where
  "rmap f [] = Inr []"
| "rmap f (x # xs) = rbind (f x) (\<lambda>y. rbind (rmap f xs) (\<lambda>ys. Inr (y # ys)))"

text \<open>A loop that threads a state through a raising step.\<close>

fun rfold :: "('s \<Rightarrow> 'a \<Rightarrow> 's result) \<Rightarrow> 's \<Rightarrow> 'a list \<Rightarrow> 's result" where
  "rfold f s [] = Inr s"
| "rfold f s (x # xs) = rbind (f s x) (\<lambda>s'. rfold f s' xs)"

lemma rbind_Inl [simp, result_simps]: "rbind (Inl e) f = Inl e"
  by (simp add: rbind_def)

lemma rbind_Inr [simp, result_simps]: "rbind (Inr x) f = f x"
  by (simp add: rbind_def)

lemma rbind_cong [fundef_cong]:
  "m = m' \<Longrightarrow> (\<And>x. m' = Inr x \<Longrightarrow> f x = g x) \<Longrightarrow> rbind m f = rbind m' g"
  by (cases m') (simp_all add: rbind_def)

lemma rbind_eq_Inr [simp]: "rbind m f = Inr y \<longleftrightarrow> (\<exists>x. m = Inr x \<and> f x = Inr y)"
  by (auto simp: rbind_def split: sum.splits)

lemma rbind_eq_Inl: "rbind m f = Inl e \<longleftrightarrow> m = Inl e \<or> (\<exists>x. m = Inr x \<and> f x = Inl e)"
  by (auto simp: rbind_def split: sum.splits)

lemma rguard_eq_Inr [simp]: "rguard ok e = Inr u \<longleftrightarrow> ok"
  by (simp add: rguard_def)

lemma rguard_eq_Inl [simp]: "rguard ok e = Inl e' \<longleftrightarrow> \<not> ok \<and> e' = e"
  by (auto simp: rguard_def)

lemma rguard_True [simp, result_simps]: "rguard True e = Inr ()"
  by (simp add: rguard_def)

lemma rguard_False [simp, result_simps]: "rguard False e = Inl e"
  by (simp add: rguard_def)

lemma is_ok_simps [simp, result_simps]: "is_ok (Inr x)" "\<not> is_ok (Inl e)"
  by (simp_all add: is_ok_def)

lemma is_ok_iff: "is_ok r \<longleftrightarrow> (\<exists>x. r = Inr x)"
  by (cases r) (auto simp: is_ok_def)

lemma is_ok_rbindI: "is_ok m \<Longrightarrow> (\<And>x. m = Inr x \<Longrightarrow> is_ok (f x)) \<Longrightarrow> is_ok (rbind m f)"
  by (cases m) simp_all

lemma is_ok_rguard [simp]: "is_ok (rguard ok e) \<longleftrightarrow> ok"
  by (simp add: rguard_def)

lemma is_ok_rbind_rguard [simp]: "is_ok (rbind (rguard ok e) f) \<longleftrightarrow> ok \<and> is_ok (f ())"
  by (simp add: rguard_def)

lemma rfold_invariant:
  assumes "rfold f s xs = Inr s'" "P s" "\<And>s x s''. x \<in> set xs \<Longrightarrow> P s \<Longrightarrow> f s x = Inr s'' \<Longrightarrow> P s''"
  shows "P s'"
  using assms
proof (induction xs arbitrary: s)
  case (Cons x xs)
  from Cons.prems(1) obtain s1 where s1: "f s x = Inr s1" "rfold f s1 xs = Inr s'" by auto
  show ?case
    using Cons.IH [OF s1(2)] Cons.prems(2) Cons.prems(3) s1(1) by (metis list.set_intros)
qed simp

lemma rmap_total: "(\<And>x. x \<in> set xs \<Longrightarrow> \<exists>y. f x = Inr y) \<Longrightarrow> \<exists>ys. rmap f xs = Inr ys"
  by (induction xs) force+

lemma rmap_Inr_length: "rmap f xs = Inr ys \<Longrightarrow> length ys = length xs"
  by (induction xs arbitrary: ys) auto

lemma rmap_Inr_iff: "rmap f xs = Inr ys \<longleftrightarrow> list_all2 (\<lambda>x y. f x = Inr y) xs ys"
  by (induction xs arbitrary: ys) (auto simp: list_all2_Cons1)

text \<open>
  \<open>result.scalar_one_or_none()\<close>: the single row of a query, none when there is no row, and SQLAlchemy's
  \<open>MultipleResultsFound\<close> when there are several. A table is the list of its rows, and a query is a
  \<open>filter\<close> of it; \<open>result.first()\<close> is the head of that filter, and since the order of the rows of a
  table is left open by the model, it stands for whichever row the database returns first.
\<close>

definition scalar_one_or_none :: "'a list \<Rightarrow> 'a option result" where
  "scalar_one_or_none rows =
     (case rows of [] \<Rightarrow> Inr None | [r] \<Rightarrow> Inr (Some r) | _ \<Rightarrow> Inl MultipleResultsFound)"

definition scalar_one :: "'a list \<Rightarrow> 'a result" where
  \<comment> \<open>\<open>result.one()\<close>\<close>
  "scalar_one rows = (case rows of [] \<Rightarrow> Inl NoResultFound | [r] \<Rightarrow> Inr r | _ \<Rightarrow> Inl MultipleResultsFound)"

definition scalar_or_raise :: "exc \<Rightarrow> 'a list \<Rightarrow> 'a result" where
  \<comment> \<open>\<open>row = result.scalar_one_or_none(); if row is None: raise e\<close>\<close>
  "scalar_or_raise e rows =
     rbind (scalar_one_or_none rows) (\<lambda>r. case r of None \<Rightarrow> Inl e | Some x \<Rightarrow> Inr x)"

lemma scalar_one_or_none_simps [simp, result_simps]:
  "scalar_one_or_none [] = Inr None"
  "scalar_one_or_none [r] = Inr (Some r)"
  "scalar_one_or_none (r # r' # rs) = Inl MultipleResultsFound"
  by (simp_all add: scalar_one_or_none_def)

lemma scalar_one_or_none_Some [simp]: "scalar_one_or_none rows = Inr (Some x) \<longleftrightarrow> rows = [x]"
  by (auto simp: scalar_one_or_none_def split: list.splits)

lemma scalar_one_or_none_None [simp]: "scalar_one_or_none rows = Inr None \<longleftrightarrow> rows = []"
  by (auto simp: scalar_one_or_none_def split: list.splits)

lemma scalar_or_raise_Inr [simp]: "scalar_or_raise e rows = Inr x \<longleftrightarrow> rows = [x]"
  by (auto simp: scalar_or_raise_def scalar_one_or_none_def split: list.splits)

lemma scalar_or_raise_simps [simp, result_simps]:
  "scalar_or_raise e [] = Inl e"
  "scalar_or_raise e (r # r' # rs) = Inl MultipleResultsFound"
  by (simp_all add: scalar_or_raise_def)

lemma scalar_one_Inr [simp]: "scalar_one rows = Inr x \<longleftrightarrow> rows = [x]"
  by (auto simp: scalar_one_def split: list.splits)

lemma scalar_one_single [simp, result_simps]: "scalar_one [x] = Inr x"
  by simp

lemma filter_eq_singletonD: "filter P xs = [x] \<Longrightarrow> x \<in> set xs \<and> P x"
  by (drule arg_cong [of _ _ set]) auto

section \<open>Tables\<close>

text \<open>A table update: the row with the key of the given one is replaced by it.\<close>

definition put_row :: "('r \<Rightarrow> 'k) \<Rightarrow> 'r \<Rightarrow> 'r list \<Rightarrow> 'r list" where
  "put_row key row = map (\<lambda>r. if key r = key row then row else r)"

lemma keys_put_row [simp]: "map key (put_row key row rows) = map key rows"
  by (simp add: put_row_def)

lemma put_row_Nil [simp]: "put_row key row [] = []"
  by (simp add: put_row_def)

lemma put_row_absent: "key row \<notin> key ` set rows \<Longrightarrow> put_row key row rows = rows"
  unfolding put_row_def by (rule map_idI) (auto simp: image_iff)

lemma set_put_row:
  "distinct (map key rows) \<Longrightarrow> set (put_row key row rows) =
     (if key row \<in> key ` set rows then insert row {r \<in> set rows. key r \<noteq> key row} else set rows)"
  by (auto simp: put_row_def image_iff)

lemma put_row_in [simp]: "row \<in> set (put_row key row rows) \<longleftrightarrow> key row \<in> key ` set rows"
proof
  assume "row \<in> set (put_row key row rows)"
  then show "key row \<in> key ` set rows"
    by (metis image_eqI keys_put_row set_map)
next
  assume "key row \<in> key ` set rows"
  then obtain r where "r \<in> set rows" "key r = key row" by auto
  then show "row \<in> set (put_row key row rows)"
    unfolding put_row_def set_map by (intro image_eqI [of _ _ r]) auto
qed

lemma put_row_mem: "r \<in> set (put_row key row rows) \<Longrightarrow> r = row \<or> r \<in> set rows \<and> key r \<noteq> key row"
  by (auto simp: put_row_def split: if_splits)

lemma put_row_other: "r \<in> set rows \<Longrightarrow> key r \<noteq> key row \<Longrightarrow> r \<in> set (put_row key row rows)"
  by (force simp: put_row_def image_iff)

text \<open>A query by key: with unique keys it returns the row itself.\<close>

lemma filter_key_unique:
  "distinct (map key rows) \<Longrightarrow> r \<in> set rows \<Longrightarrow> P r \<Longrightarrow> filter (\<lambda>x. key x = key r \<and> P x) rows = [r]"
proof (induction rows)
  case (Cons x xs)
  have "filter (\<lambda>y. key y = key r \<and> P y) xs = []" if "x = r"
    using that Cons.prems(1) by (auto simp: filter_empty_conv image_iff)
  moreover have "key x \<noteq> key r" if "x \<noteq> r"
    using that Cons.prems(1,2) by (auto simp: image_iff)
  ultimately show ?case using Cons by (cases "x = r") auto
qed simp

text \<open>The total of a column over the rows that satisfy a condition, and what one write does to it.\<close>

definition column_total :: "('r \<Rightarrow> int) \<Rightarrow> ('r \<Rightarrow> bool) \<Rightarrow> 'r list \<Rightarrow> int" where
  \<comment> \<open>\<open>SELECT coalesce(sum(column), 0) WHERE P\<close>\<close>
  "column_total column P rows = sum_list (map column (filter P rows))"

definition row_share :: "('r \<Rightarrow> int) \<Rightarrow> ('r \<Rightarrow> bool) \<Rightarrow> 'r \<Rightarrow> int" where
  "row_share column P r = (if P r then column r else 0)"

lemma column_total_simps [simp]:
  "column_total column P [] = 0"
  "column_total column P (r # rs) = row_share column P r + column_total column P rs"
  "column_total column P (rs @ rs') = column_total column P rs + column_total column P rs'"
  by (simp_all add: column_total_def row_share_def)

lemma column_total_put_row:
  "distinct (map key rows) \<Longrightarrow> r \<in> set rows \<Longrightarrow> key r = key row \<Longrightarrow>
     column_total column P (put_row key row rows) = column_total column P rows - row_share column P r + row_share column P row"
proof (induction rows)
  case (Cons x rows)
  show ?case
  proof (cases "x = r")
    case True
    then have "put_row key row rows = rows"
      using Cons.prems by (intro put_row_absent) auto
    then show ?thesis using True Cons.prems by (simp add: put_row_def)
  next
    case False
    then have "key x \<noteq> key row" using Cons.prems by (metis distinct.simps(2) image_eqI list.map(2) list.set_map set_ConsD)
    then show ?thesis using Cons False by (simp add: put_row_def)
  qed
qed simp

lemma column_total_nonneg: "(\<And>r. r \<in> set rows \<Longrightarrow> P r \<Longrightarrow> 0 \<le> column r) \<Longrightarrow> 0 \<le> column_total column P rows"
  by (induction rows) (auto simp: row_share_def)

lemma column_total_ge_share:
  "r \<in> set rows \<Longrightarrow> (\<And>r. r \<in> set rows \<Longrightarrow> P r \<Longrightarrow> 0 \<le> column r) \<Longrightarrow> row_share column P r \<le> column_total column P rows"
proof (induction rows)
  case (Cons x rows)
  have nonneg: "0 \<le> row_share column P x" "0 \<le> column_total column P rows"
    using Cons.prems(2) by (auto simp: row_share_def intro: column_total_nonneg)
  show ?case
  proof (cases "r = x")
    case False
    then have "row_share column P r \<le> column_total column P rows" using Cons by simp
    then show ?thesis using nonneg by simp
  qed (use nonneg in simp)
qed simp

section \<open>Containers\<close>

text \<open>\<open>sorted(xs, key=f, reverse=True)\<close>: Python keeps equal elements in their original order.\<close>

definition sort_key_reverse :: "('a \<Rightarrow> 'k::linorder) \<Rightarrow> 'a list \<Rightarrow> 'a list" where
  "sort_key_reverse f xs = rev (sort_key f (rev xs))"

lemma set_sort_key_reverse [simp]: "set (sort_key_reverse f xs) = set xs"
  by (simp add: sort_key_reverse_def)

lemma mset_sort_key_reverse [simp]: "mset (sort_key_reverse f xs) = mset xs"
  by (simp add: sort_key_reverse_def)

lemma sort_key_reverse_Nil_iff [simp]: "sort_key_reverse f xs = [] \<longleftrightarrow> xs = []"
  using set_sort_key_reverse [of f xs] by (metis set_empty)

lemma sorted_sort_key_reverse: "sorted (rev (map f (sort_key_reverse f xs)))"
  by (simp add: sort_key_reverse_def rev_map [symmetric])

text \<open>\<open>list(dict.fromkeys(xs))\<close>: the first occurrence of each element, in order.\<close>

definition dedupe :: "'a list \<Rightarrow> 'a list" where
  "dedupe xs = rev (remdups (rev xs))"

lemma set_dedupe [simp]: "set (dedupe xs) = set xs"
  by (simp add: dedupe_def)

lemma distinct_dedupe [simp]: "distinct (dedupe xs)"
  by (simp add: dedupe_def)

lemma dedupe_id: "distinct xs \<Longrightarrow> dedupe xs = xs"
  by (simp add: dedupe_def distinct_remdups_id)

lemma dedupe_Nil [simp]: "dedupe [] = []"
  by (simp add: dedupe_def)

lemma dedupe_snoc: "dedupe (xs @ [x]) = (if x \<in> set xs then dedupe xs else dedupe xs @ [x])"
  by (simp add: dedupe_def)

text \<open>\<open>d = defaultdict(list); for x in xs: d[key(x)].append(x)\<close>, and the same with \<open>d.setdefault(key(x), [])\<close>.\<close>

definition group_by :: "('a \<Rightarrow> 'k) \<Rightarrow> 'a list \<Rightarrow> ('k \<times> 'a list) list" where
  "group_by key xs = map (\<lambda>k. (k, filter (\<lambda>x. key x = k) xs)) (dedupe (map key xs))"

lemma group_by_keys [simp]: "map fst (group_by key xs) = dedupe (map key xs)"
  by (simp add: group_by_def comp_def)

lemma group_by_lookup: "map_of (group_by key xs) k = (let g = filter (\<lambda>x. key x = k) xs in if g = [] then None else Some g)"
  by (auto simp: group_by_def map_of_map_restrict restrict_map_def Let_def filter_empty_conv)

lemma mset_group_by: "mset (concat (map snd (group_by key xs))) = mset xs"
proof -
  have "mset (concat (map (\<lambda>k. filter (\<lambda>x. key x = k) ys) ks)) = mset (filter (\<lambda>x. key x \<in> set ks) ys)" if "distinct ks" for ks ys
    using that
  proof (induction ks)
    case (Cons k ks)
    have "mset (filter (\<lambda>x. key x \<in> set (k # ks)) ys)
        = mset (filter (\<lambda>x. key x = k) ys) + mset (filter (\<lambda>x. key x \<in> set ks) ys)"
      using Cons.prems by (induction ys) auto
    with Cons show ?case by simp
  qed simp
  from this [of "dedupe (map key xs)" xs] show ?thesis
    by (simp add: group_by_def comp_def cong: filter_cong)
qed

lemma group_by_partition:
  "sum_list (map (\<lambda>(k, g). sum_list (map f g)) (group_by key xs)) = (sum_list (map f xs) :: 'n::comm_monoid_add)"
proof -
  have "sum_list (map (\<lambda>(k, g). sum_list (map f g)) kgs) = sum_list (map f (concat (map snd kgs)))" for kgs
    by (induction kgs) auto
  also have "sum_list (map f (concat (map snd (group_by key xs)))) = sum_list (map f xs)"
    using mset_group_by [of key xs] by (metis mset_map sum_mset_sum_list)
  finally show ?thesis .
qed

text \<open>\<open>xs[:n]\<close>, where a negative \<open>n\<close> counts from the end.\<close>

definition py_prefix :: "int \<Rightarrow> 'a list \<Rightarrow> 'a list" where
  "py_prefix n xs = (if 0 \<le> n then take (nat n) xs else take (length xs - nat (- n)) xs)"

text \<open>A dict comprehension, \<open>d.update(e)\<close> and \<open>d[k] += v\<close> on association lists.\<close>

definition dict_update :: "('k \<times> 'v) list \<Rightarrow> ('k \<times> 'v) list \<Rightarrow> ('k \<times> 'v) list" where
  "dict_update d e = foldl (\<lambda>d (k, v). AList.update k v d) d e"

definition dict_of :: "('k \<times> 'v) list \<Rightarrow> ('k \<times> 'v) list" where
  "dict_of e = dict_update [] e"

definition dict_add :: "'k \<Rightarrow> int \<Rightarrow> ('k \<times> int) list \<Rightarrow> ('k \<times> int) list" where
  "dict_add k v d = map (\<lambda>(k', x). (k', if k' = k then x + v else x)) d"

definition dict_sum :: "('k \<times> int) list \<Rightarrow> int" where
  "dict_sum d = sum_list (map snd d)"

lemma dict_update_new:
  "distinct (map fst e) \<Longrightarrow> set (map fst e) \<inter> set (map fst d) = {} \<Longrightarrow> dict_update d e = d @ e"
proof (induction e arbitrary: d)
  case (Cons x e)
  obtain k v where x: "x = (k, v)" by (cases x)
  have u: "AList.update k v d = d @ [(k, v)]" if "k \<notin> fst ` set d"
    using that by (induction d) auto
  have "dict_update d (x # e) = dict_update (d @ [(k, v)]) e"
    using Cons.prems by (simp add: dict_update_def x u image_iff)
  also have "\<dots> = (d @ [(k, v)]) @ e"
    using Cons.prems by (intro Cons.IH) (auto simp: x)
  finally show ?case by (simp add: x)
qed (simp add: dict_update_def)

lemma dict_of_distinct: "distinct (map fst e) \<Longrightarrow> dict_of e = e"
  by (simp add: dict_of_def dict_update_new)

lemma dict_add_keys [simp]: "map fst (dict_add k v d) = map fst d"
  by (induction d) (auto simp: dict_add_def)

lemma dict_add_absent: "k \<notin> set (map fst d) \<Longrightarrow> dict_add k v d = d"
  by (induction d) (auto simp: dict_add_def)

lemma dict_sum_add:
  "distinct (map fst d) \<Longrightarrow> k \<in> set (map fst d) \<Longrightarrow> dict_sum (dict_add k v d) = dict_sum d + v"
proof (induction d)
  case (Cons x d)
  obtain k' n where x: "x = (k', n)" by (cases x)
  have cons: "dict_sum (dict_add k v (x # d)) = (if k' = k then n + v else n) + dict_sum (dict_add k v d)"
    by (simp add: dict_add_def dict_sum_def x)
  show ?case
    using Cons dict_add_absent [of k d v] unfolding cons by (auto simp: x dict_sum_def)
qed simp

lemma dict_sum_append [simp]: "dict_sum (d @ e) = dict_sum d + dict_sum e"
  by (simp add: dict_sum_def)

text \<open>Truthiness of a string, and \<open>str.strip()\<close> on the ASCII whitespace Python strips.\<close>

definition is_space :: "char \<Rightarrow> bool" where
  "is_space c \<longleftrightarrow> (let n = of_char c :: nat in n = 32 \<or> (9 \<le> n \<and> n \<le> 13) \<or> (28 \<le> n \<and> n \<le> 31))"

definition strip :: "string \<Rightarrow> string" where
  "strip s = rev (dropWhile is_space (rev (dropWhile is_space s)))"

definition lower_char :: "char \<Rightarrow> char" where
  "lower_char c = (let n = of_char c :: nat in if 65 \<le> n \<and> n \<le> 90 then char_of (n + 32) else c)"

definition lower :: "string \<Rightarrow> string" where
  "lower s = map lower_char s"

definition starts_with :: "string \<Rightarrow> string \<Rightarrow> bool" where
  "starts_with s p \<longleftrightarrow> take (length p) s = p"

lemma strip_Nil [simp]: "strip [] = []"
  by (simp add: strip_def)

lemma starts_with_iff: "starts_with s p \<longleftrightarrow> (\<exists>t. s = p @ t)"
  by (auto simp: starts_with_def) (metis append_take_drop_id)

text \<open>\<open>sep.join(parts)\<close>.\<close>

fun intercalate :: "string \<Rightarrow> string list \<Rightarrow> string" where
  "intercalate sep [] = []"
| "intercalate sep [x] = x"
| "intercalate sep (x # y # ys) = x @ sep @ intercalate sep (y # ys)"

end
