(* ===== verification/PyDecimal.thy ===== *)
theory PyDecimal
  imports Prelude
begin

text \<open>
  The part of Python's \<open>decimal\<close> module the item-economics code computes with: finite decimals as
  a signed coefficient and an exponent, a context precision \<open>p\<close> (28 by default, 50 inside the
  calculator's \<open>localcontext\<close> blocks), correct rounding to \<open>p\<close> digits with
  \<open>ROUND_HALF_EVEN\<close>, multiplication, division, addition, subtraction, \<open>quantize\<close>, \<open>scaleb\<close> and
  \<open>int()\<close>. The algorithms follow the module's own (in particular the division algorithm with its
  sticky last digit and its ideal exponent). Left out: NaN and infinities, the sign of a zero, and
  the exponent limits (plus or minus 999999), none of which the modelled code can observe on the
  values its database columns store.

  The lemmas relate every operation to exact rational arithmetic: \<open>quantize\<close> is
  round-half-even of the exact value, and every operation is exact whenever its exact result has
  a representation with at most \<open>p\<close> digits.
\<close>

section \<open>Round half to even\<close>

definition rhe :: "rat \<Rightarrow> int" where
  "rhe x = (let q = \<lfloor>x\<rfloor>; f = x - of_int q
            in if f > 1/2 \<or> (f = 1/2 \<and> odd q) then q + 1 else q)"

definition rhe_div :: "int \<Rightarrow> int \<Rightarrow> int" where
  "rhe_div a b = (let q = a div b; r = a mod b
                  in if 2 * r > b \<or> (2 * r = b \<and> odd q) then q + 1 else q)"

lemma rhe_div_eq:
  assumes b: "0 < b"
  shows "rhe_div a b = rhe (of_int a / of_int b)"
proof -
  have "(of_int a :: rat) = of_int (b * (a div b) + a mod b)"
    by simp
  then have "(of_int a :: rat) = of_int b * of_int (a div b) + of_int (a mod b)"
    by (simp only: of_int_add of_int_mult)
  with b have f: "(of_int a / of_int b :: rat) - of_int (a div b) = of_int (a mod b) / of_int b"
    by (simp add: field_simps)
  have fl: "\<lfloor>(of_int a / of_int b :: rat)\<rfloor> = a div b"
    by (rule floor_divide_of_int_eq)
  have "((of_int (a mod b) :: rat) / of_int b > 1/2) = (2 * (a mod b) > b)"
  proof -
    have "((of_int (a mod b) :: rat) / of_int b > 1/2) = (of_int (2 * (a mod b)) > (of_int b :: rat))"
      using b by (simp add: field_simps)
    then show ?thesis by (simp only: of_int_less_iff)
  qed
  moreover have "((of_int (a mod b) :: rat) / of_int b = 1/2) = (2 * (a mod b) = b)"
  proof -
    have "((of_int (a mod b) :: rat) / of_int b = 1/2) = (of_int (2 * (a mod b)) = (of_int b :: rat))"
      using b by (auto simp: field_simps)
    then show ?thesis by (simp only: of_int_eq_iff)
  qed
  ultimately show ?thesis
    unfolding rhe_def rhe_div_def Let_def fl f by simp
qed

lemma rhe_of_int [simp]: "rhe (of_int n) = n"
  by (simp add: rhe_def Let_def)

lemma rhe_0 [simp]: "rhe 0 = 0"
  using rhe_of_int [of 0] by simp

text \<open>The result is a nearest integer, and an even one when two are equally near.\<close>

lemma rhe_cases:
  obtains (down) "rhe x = \<lfloor>x\<rfloor>" "of_int \<lfloor>x\<rfloor> \<le> x" "x - of_int \<lfloor>x\<rfloor> \<le> 1/2"
      "x - of_int \<lfloor>x\<rfloor> = 1/2 \<longrightarrow> even \<lfloor>x\<rfloor>"
    | (up) "rhe x = \<lfloor>x\<rfloor> + 1" "x < of_int \<lfloor>x\<rfloor> + 1" "1/2 \<le> x - of_int \<lfloor>x\<rfloor>"
      "x - of_int \<lfloor>x\<rfloor> = 1/2 \<longrightarrow> odd \<lfloor>x\<rfloor>"
proof (cases "x - of_int \<lfloor>x\<rfloor> > 1/2 \<or> (x - of_int \<lfloor>x\<rfloor> = 1/2 \<and> odd \<lfloor>x\<rfloor>)")
  case True
  then have "rhe x = \<lfloor>x\<rfloor> + 1" by (simp add: rhe_def Let_def)
  moreover have "x < of_int \<lfloor>x\<rfloor> + 1" by linarith
  ultimately show ?thesis using True by (intro up) auto
next
  case False
  then have "rhe x = \<lfloor>x\<rfloor>" by (simp add: rhe_def Let_def)
  moreover have "of_int \<lfloor>x\<rfloor> \<le> x" by linarith
  ultimately show ?thesis using False by (intro down) auto
qed

lemma rhe_near: "\<bar>of_int (rhe x) - x\<bar> \<le> 1/2"
  by (cases x rule: rhe_cases) (simp_all only: abs_le_iff of_int_add of_int_1, linarith+)

lemma rhe_abs: "\<bar>of_int (rhe x)\<bar> \<le> \<bar>x\<bar> + 1/2"
  using rhe_near [of x] by linarith

lemma rhe_tie_even:
  assumes "\<bar>of_int (rhe x) - x\<bar> = 1/2"
  shows "even (rhe x)"
proof (cases x rule: rhe_cases)
  case down
  with assms have "x - of_int \<lfloor>x\<rfloor> = 1/2" by simp
  with down show ?thesis by simp
next
  case up
  with assms have "x - of_int \<lfloor>x\<rfloor> = 1/2" by simp
  with up show ?thesis by simp
qed

text \<open>These two facts determine it.\<close>

lemma rhe_unique_near:
  assumes "\<bar>of_int n - x\<bar> < 1/2"
  shows "rhe x = n"
proof -
  have "\<bar>of_int (rhe x) - of_int n :: rat\<bar> < 1"
    using rhe_near [of x] assms by linarith
  then have "\<bar>rhe x - n\<bar> < 1" by linarith
  then show ?thesis by simp
qed

lemma rhe_unique_tie:
  assumes "\<bar>of_int n - x\<bar> = 1/2" "even n"
  shows "rhe x = n"
proof (rule ccontr)
  assume ne: "rhe x \<noteq> n"
  have "\<bar>of_int (rhe x) - of_int n :: rat\<bar> \<le> 1"
    using rhe_near [of x] assms(1) by linarith
  then have "\<bar>rhe x - n\<bar> \<le> 1" by linarith
  with ne have d: "rhe x = n + 1 \<or> rhe x = n - 1" by linarith
  then have dr: "of_int (rhe x) = (of_int n + 1 :: rat) \<or> of_int (rhe x) = (of_int n - 1 :: rat)"
    by auto
  then have "\<bar>of_int (rhe x) - x\<bar> = 1/2"
    using rhe_near [of x] assms(1) by linarith
  then have "even (rhe x)" by (rule rhe_tie_even)
  with d assms(2) show False by auto
qed

lemma rhe_cong_near:
  assumes "\<bar>of_int n - y\<bar> = \<bar>of_int (rhe x) - x\<bar>" "even n = even (rhe x)"
  shows "rhe y = n"
proof (cases "\<bar>of_int (rhe x) - x\<bar> = 1/2")
  case True
  with assms rhe_tie_even [OF True] show ?thesis by (intro rhe_unique_tie) simp_all
next
  case False
  with rhe_near [of x] assms(1) have "\<bar>of_int n - y\<bar> < 1/2" by linarith
  then show ?thesis by (rule rhe_unique_near)
qed

lemma rhe_minus: "rhe (- x) = - rhe x"
  by (rule rhe_cong_near [where x = x], unfold of_int_minus, linarith, simp)

lemma rhe_add_even: "even n \<Longrightarrow> rhe (x + of_int n) = rhe x + n"
  by (rule rhe_cong_near [where x = x]) simp_all

lemma rhe_mono:
  assumes le: "x \<le> y"
  shows "rhe x \<le> rhe y"
proof (rule ccontr)
  assume "\<not> rhe x \<le> rhe y"
  then have gt: "of_int (rhe y) + 1 \<le> (of_int (rhe x) :: rat)" by linarith
  have near: "of_int (rhe x) \<le> x + 1/2" "y - 1/2 \<le> of_int (rhe y)"
    using rhe_near [of x] rhe_near [of y] by linarith+
  with le gt have e: "of_int (rhe x) - x = 1/2" "of_int (rhe y) - y = - (1/2)"
    "of_int (rhe x) = (of_int (rhe y) + 1 :: rat)"
    by linarith+
  have "\<bar>of_int (rhe x) - x\<bar> = 1/2" "\<bar>of_int (rhe y) - y\<bar> = 1/2"
    using e(1,2) by linarith+
  then have "even (rhe x)" "even (rhe y)" by (auto intro: rhe_tie_even)
  moreover have "rhe x = rhe y + 1" using e(3) by linarith
  ultimately show False by simp
qed

lemma rhe_nonneg: "0 \<le> x \<Longrightarrow> 0 \<le> rhe x"
  using rhe_mono [of 0 x] by simp

section \<open>Decimals\<close>

datatype decimal = Dec (dec_coef: int) (dec_exp: int)

definition pow10 :: "int \<Rightarrow> rat" where
  "pow10 e = (if 0 \<le> e then 10 ^ nat e else 1 / 10 ^ nat (- e))"

definition dval :: "decimal \<Rightarrow> rat" where
  "dval d = of_int (dec_coef d) * pow10 (dec_exp d)"

text \<open>\<open>len(str(n))\<close> for a coefficient \<open>n\<close>, sign dropped.\<close>

function ndigits :: "int \<Rightarrow> int" where
  "ndigits n = (if \<bar>n\<bar> < 10 then 1 else 1 + ndigits (\<bar>n\<bar> div 10))"
  by pat_completeness auto
termination
  by (relation "measure (\<lambda>n. nat \<bar>n\<bar>)") auto

declare ndigits.simps [simp del]

definition dec_of_int :: "int \<Rightarrow> decimal" where
  "dec_of_int n = Dec n 0"

text \<open>A coefficient rounded to a multiple of \<open>10 ^ k\<close>, in units of \<open>10 ^ k\<close>.\<close>

definition round_coef :: "int \<Rightarrow> int \<Rightarrow> int" where
  "round_coef c k = sgn c * rhe_div \<bar>c\<bar> (10 ^ nat k)"

definition dec_fix :: "int \<Rightarrow> decimal \<Rightarrow> decimal" where
  "dec_fix p d =
     (let drop = ndigits (dec_coef d) - p
      in if dec_coef d = 0 \<or> drop \<le> 0 then d
         else let q = round_coef (dec_coef d) drop
              in if ndigits q > p then Dec (sgn q * (\<bar>q\<bar> div 10)) (dec_exp d + drop + 1)
                 else Dec q (dec_exp d + drop))"

definition dec_mul :: "int \<Rightarrow> decimal \<Rightarrow> decimal \<Rightarrow> decimal" where
  "dec_mul p a b = dec_fix p (Dec (dec_coef a * dec_coef b) (dec_exp a + dec_exp b))"

definition dec_add :: "int \<Rightarrow> decimal \<Rightarrow> decimal \<Rightarrow> decimal" where
  "dec_add p a b =
     (let e = min (dec_exp a) (dec_exp b)
      in dec_fix p (Dec (dec_coef a * 10 ^ nat (dec_exp a - e) + dec_coef b * 10 ^ nat (dec_exp b - e)) e))"

definition dec_sub :: "int \<Rightarrow> decimal \<Rightarrow> decimal \<Rightarrow> decimal" where
  "dec_sub p a b = dec_add p a (Dec (- dec_coef b) (dec_exp b))"

text \<open>Trailing zeros are dropped down to the ideal exponent of an exact quotient.\<close>

function dec_strip :: "int \<Rightarrow> int \<Rightarrow> int \<Rightarrow> decimal" where
  "dec_strip ideal c e =
     (if e < ideal \<and> c mod 10 = 0 then dec_strip ideal (c div 10) (e + 1) else Dec c e)"
  by pat_completeness auto
termination
  by (relation "measure (\<lambda>(ideal, c, e). nat (ideal - e))") auto

declare dec_strip.simps [simp del]

text \<open>The operands of a division, scaled by \<open>10 ^ sh\<close>.\<close>

definition div_num :: "int \<Rightarrow> int \<Rightarrow> int" where
  "div_num sh ca = (if 0 \<le> sh then ca * 10 ^ nat sh else ca)"

definition div_den :: "int \<Rightarrow> int \<Rightarrow> int" where
  "div_den sh cb = (if 0 \<le> sh then cb else cb * 10 ^ nat (- sh))"

definition dec_div :: "int \<Rightarrow> decimal \<Rightarrow> decimal \<Rightarrow> decimal result" where
  "dec_div p a b =
     (let ca = \<bar>dec_coef a\<bar>; cb = \<bar>dec_coef b\<bar>; s = sgn (dec_coef a) * sgn (dec_coef b);
          ideal = dec_exp a - dec_exp b
      in if cb = 0 then
           Inl (ArithmeticError (if ca = 0 then ''DivisionUndefined'' else ''DivisionByZero''))
         else if ca = 0 then Inr (dec_fix p (Dec 0 ideal))
         else let shift = ndigits cb - ndigits ca + p + 1;
                  e = ideal - shift;
                  num = div_num shift ca;
                  den = div_den shift cb;
                  q = num div den
              in if num mod den \<noteq> 0
                 then Inr (dec_fix p (Dec (s * (if q mod 5 = 0 then q + 1 else q)) e))
                 else let d = dec_strip ideal q e
                      in Inr (dec_fix p (Dec (s * dec_coef d) (dec_exp d))))"

text \<open>\<open>d.quantize(Decimal("1E<e>"), rounding=ROUND_HALF_EVEN)\<close>.\<close>

definition dec_rescale :: "decimal \<Rightarrow> int \<Rightarrow> decimal" where
  "dec_rescale d e =
     (if dec_coef d = 0 then Dec 0 e
      else if e \<le> dec_exp d then Dec (dec_coef d * 10 ^ nat (dec_exp d - e)) e
      else Dec (round_coef (dec_coef d) (e - dec_exp d)) e)"

definition dec_quantize :: "int \<Rightarrow> decimal \<Rightarrow> int \<Rightarrow> decimal result" where
  "dec_quantize p d e =
     (if dec_coef d = 0 then Inr (Dec 0 e)
      else if ndigits (dec_coef d) + dec_exp d - e > p then Inl (ArithmeticError ''InvalidOperation'')
      else let r = dec_rescale d e
           in if ndigits (dec_coef r) > p then Inl (ArithmeticError ''InvalidOperation'') else Inr r)"

definition dec_scaleb :: "int \<Rightarrow> decimal \<Rightarrow> int \<Rightarrow> decimal" where
  "dec_scaleb p d k = dec_fix p (Dec (dec_coef d) (dec_exp d + k))"

definition dec_to_int :: "decimal \<Rightarrow> int" where
  "dec_to_int d =
     (if 0 \<le> dec_exp d then dec_coef d * 10 ^ nat (dec_exp d)
      else sgn (dec_coef d) * (\<bar>dec_coef d\<bar> div 10 ^ nat (- dec_exp d)))"

text \<open>Comparisons are exact, whatever the exponents.\<close>

definition dec_eq :: "decimal \<Rightarrow> decimal \<Rightarrow> bool" where
  "dec_eq a b \<longleftrightarrow> dval a = dval b"

definition dec_less :: "decimal \<Rightarrow> decimal \<Rightarrow> bool" where
  "dec_less a b \<longleftrightarrow> dval a < dval b"

definition dec_le :: "decimal \<Rightarrow> decimal \<Rightarrow> bool" where
  "dec_le a b \<longleftrightarrow> dval a \<le> dval b"

section \<open>Exactness and rounding of the operations\<close>

subsection \<open>Powers of ten and digit counts\<close>

lemma pow10_powi: "pow10 e = 10 powi e"
  by (simp add: pow10_def power_int_def field_simps)

lemma pow10_pos [simp]: "0 < pow10 e"
  by (simp add: pow10_def)

lemma pow10_nonzero [simp]: "pow10 e \<noteq> 0"
  using pow10_pos [of e] by linarith

lemma pow10_nonneg [simp]: "0 \<le> pow10 e"
  using pow10_pos [of e] by linarith

lemma abs_pow10 [simp]: "\<bar>pow10 e\<bar> = pow10 e"
  by simp

lemma pow10_0 [simp]: "pow10 0 = 1"
  by (simp add: pow10_def)

lemma pow10_add: "pow10 (a + b) = pow10 a * pow10 b"
  by (simp add: pow10_powi power_int_add)

lemma pow10_diff: "pow10 (a - b) = pow10 a / pow10 b"
  by (simp add: pow10_powi power_int_diff)

lemma pow10_nat: "0 \<le> e \<Longrightarrow> pow10 e = 10 ^ nat e"
  by (simp add: pow10_def)

lemma of_int_pow10: "0 \<le> e \<Longrightarrow> of_int (10 ^ nat e) = pow10 e"
  by (simp add: pow10_nat)

lemma pow10_mono: "a < b \<Longrightarrow> pow10 a < pow10 b"
  by (simp add: pow10_powi power_int_strict_increasing)

lemma pow10_less_iff [simp]: "pow10 a < pow10 b \<longleftrightarrow> a < b"
  using pow10_mono [of a b] pow10_mono [of b a] by (metis less_asym linorder_neqE)

lemma pow10_le_iff [simp]: "pow10 a \<le> pow10 b \<longleftrightarrow> a \<le> b"
  using pow10_less_iff [of b a] by (simp only: not_less [symmetric])

lemma ndigits_0 [simp]: "ndigits 0 = 1"
  by (subst ndigits.simps) simp

lemma ndigits_pos: "1 \<le> ndigits n"
proof (induction n rule: ndigits.induct)
  case (1 n)
  then show ?case by (subst ndigits.simps) auto
qed

lemma ndigits_upper: "of_int \<bar>n\<bar> < pow10 (ndigits n)"
proof (induction n rule: ndigits.induct)
  case (1 n)
  show ?case
  proof (cases "\<bar>n\<bar> < 10")
    case True
    then have "ndigits n = 1" by (subst ndigits.simps) simp
    moreover have "(of_int \<bar>n\<bar> :: rat) < of_int 10" using True by (simp only: of_int_less_iff)
    ultimately show ?thesis by (simp add: pow10_def)
  next
    case False
    with 1 have "(of_int (\<bar>n\<bar> div 10) :: rat) < of_int (10 ^ nat (ndigits (\<bar>n\<bar> div 10)))"
      using ndigits_pos [of "\<bar>n\<bar> div 10"] by (simp add: pow10_nat)
    then have "\<bar>n\<bar> div 10 < 10 ^ nat (ndigits (\<bar>n\<bar> div 10))" by (simp only: of_int_less_iff)
    then have "\<bar>n\<bar> < 10 * 10 ^ nat (ndigits (\<bar>n\<bar> div 10))" by linarith
    then have "(of_int \<bar>n\<bar> :: rat) < of_int (10 * 10 ^ nat (ndigits (\<bar>n\<bar> div 10)))"
      by (simp only: of_int_less_iff)
    also have "\<dots> = pow10 (1 + ndigits (\<bar>n\<bar> div 10))"
      using ndigits_pos [of "\<bar>n\<bar> div 10"] by (simp add: pow10_nat nat_add_distrib)
    finally show ?thesis using False by (subst ndigits.simps) simp
  qed
qed

lemma ndigits_lower: "n \<noteq> 0 \<Longrightarrow> pow10 (ndigits n - 1) \<le> of_int \<bar>n\<bar>"
proof (induction n rule: ndigits.induct)
  case (1 n)
  show ?case
  proof (cases "\<bar>n\<bar> < 10")
    case True
    moreover have "(of_int 1 :: rat) \<le> of_int \<bar>n\<bar>"
      using "1.prems" by (simp only: of_int_le_iff)
    moreover have "ndigits n = 1" using \<open>\<bar>n\<bar> < 10\<close> by (subst ndigits.simps) simp
    ultimately show ?thesis by simp
  next
    case False
    let ?m = "\<bar>n\<bar> div 10"
    from False have m: "?m \<noteq> 0" "0 \<le> ?m" by auto
    with 1 False have "pow10 (ndigits ?m - 1) \<le> of_int ?m" by simp
    then have "(of_int (10 ^ nat (ndigits ?m - 1)) :: rat) \<le> of_int ?m"
      using ndigits_pos [of ?m] by (simp add: pow10_nat)
    then have "10 ^ nat (ndigits ?m - 1) \<le> ?m" by (simp only: of_int_le_iff)
    then have "10 * 10 ^ nat (ndigits ?m - 1) \<le> \<bar>n\<bar>" by linarith
    then have "(of_int (10 * 10 ^ nat (ndigits ?m - 1)) :: rat) \<le> of_int \<bar>n\<bar>"
      by (simp only: of_int_le_iff)
    moreover have "of_int (10 * 10 ^ nat (ndigits ?m - 1)) = pow10 (ndigits ?m)"
      using ndigits_pos [of ?m] pow10_add [of 1 "ndigits ?m - 1"] by (simp add: pow10_nat)
    ultimately have "pow10 (ndigits ?m) \<le> of_int \<bar>n\<bar>" by simp
    with False show ?thesis by (subst ndigits.simps) simp
  qed
qed

lemma ndigits_le_iff: "n \<noteq> 0 \<Longrightarrow> ndigits n \<le> p \<longleftrightarrow> of_int \<bar>n\<bar> < pow10 p"
proof -
  assume n: "n \<noteq> 0"
  have "ndigits n \<le> p \<Longrightarrow> of_int \<bar>n\<bar> < pow10 p"
    using ndigits_upper [of n] pow10_le_iff [of "ndigits n" p] by (meson less_le_trans)
  moreover have "of_int \<bar>n\<bar> < pow10 p \<Longrightarrow> ndigits n \<le> p"
    using ndigits_lower [OF n] pow10_less_iff [of "ndigits n - 1" p] by (meson le_less_trans zle_diff1_eq not_less le_less_linear)
  ultimately show ?thesis by blast
qed

subsection \<open>Rounding a coefficient\<close>

lemma ndigits_eqI: "10 ^ k \<le> n \<Longrightarrow> n < 10 ^ Suc k \<Longrightarrow> ndigits n = int k + 1"
proof -
  assume n: "10 ^ k \<le> n" "n < 10 ^ Suc k"
  then have pos: "0 < n" by (meson less_le_trans zero_less_numeral zero_less_power)
  have "of_int n < (of_int (10 ^ Suc k) :: rat)" "of_int (10 ^ k) \<le> (of_int n :: rat)"
    using n by (simp_all only: of_int_less_iff of_int_le_iff)
  then have "of_int \<bar>n\<bar> < pow10 (int k + 1)" "\<not> of_int \<bar>n\<bar> < pow10 (int k)"
    using pos by (simp_all add: pow10_nat nat_add_distrib)
  then have "ndigits n \<le> int k + 1" "\<not> ndigits n \<le> int k"
    using ndigits_le_iff [of n] pos by simp_all
  then show ?thesis by simp
qed

lemma round_coef_eq:
  assumes k: "0 \<le> k"
  shows "round_coef c k = rhe (of_int c / pow10 k)"
proof -
  have "rhe_div \<bar>c\<bar> (10 ^ nat k) = rhe (of_int \<bar>c\<bar> / pow10 k)"
    using k by (simp add: rhe_div_eq pow10_nat)
  moreover have "rhe (of_int c / pow10 k) = - rhe (of_int \<bar>c\<bar> / pow10 k)" if "c < 0"
    using that rhe_minus [of "of_int \<bar>c\<bar> / pow10 k"] by simp
  ultimately show ?thesis
    by (cases c "0 :: int" rule: linorder_cases) (simp_all add: round_coef_def)
qed

lemma round_coef_exact: "0 \<le> k \<Longrightarrow> of_int c = of_int n * pow10 k \<Longrightarrow> round_coef c k = n"
  by (simp add: round_coef_eq)

text \<open>A value that some coefficient of at most \<open>p\<close> digits represents.\<close>

definition fits :: "int \<Rightarrow> rat \<Rightarrow> bool" where
  "fits p x \<longleftrightarrow> (\<exists>m e. x = of_int m * pow10 e \<and> of_int \<bar>m\<bar> < pow10 p)"

lemma fitsI: "x = of_int m * pow10 e \<Longrightarrow> of_int \<bar>m\<bar> < pow10 p \<Longrightarrow> fits p x"
  by (auto simp: fits_def)

lemma dval_Dec: "dval (Dec c e) = of_int c * pow10 e"
  by (simp add: dval_def)

lemma dval_of_int [simp]: "dval (dec_of_int n) = of_int n"
  by (simp add: dec_of_int_def dval_Dec)

lemma dval_0_iff [simp]: "dval d = 0 \<longleftrightarrow> dec_coef d = 0"
  by (simp add: dval_def)

lemma coef_multiple_of_dropped:
  assumes c: "c \<noteq> 0" and x: "of_int c * pow10 e = of_int m * pow10 k" and m: "of_int \<bar>m\<bar> < pow10 p"
  shows "e + (ndigits c - p) \<le> k"
proof -
  have eq: "of_int \<bar>c\<bar> * pow10 e = of_int \<bar>m\<bar> * pow10 k"
    using arg_cong [OF x, of abs] by (simp add: abs_mult)
  have "pow10 (ndigits c - 1 + e) \<le> of_int \<bar>c\<bar> * pow10 e"
    using ndigits_lower [OF c] by (simp add: pow10_add mult_right_mono less_imp_le)
  also have "\<dots> < pow10 (p + k)"
    using m unfolding eq by (simp add: pow10_add)
  finally have "ndigits c - 1 + e < p + k" by simp
  then show ?thesis by simp
qed

lemma dval_fix_exact:
  assumes "fits p (dval d)"
  shows "dval (dec_fix p d) = dval d"
proof (cases "dec_coef d = 0 \<or> ndigits (dec_coef d) - p \<le> 0")
  case True
  then show ?thesis by (auto simp: dec_fix_def Let_def)
next
  case False
  let ?c = "dec_coef d" and ?e = "dec_exp d" and ?k = "ndigits (dec_coef d) - p"
  from False have c: "?c \<noteq> 0" and k: "0 \<le> ?k" by auto
  from assms obtain m k' where x: "of_int ?c * pow10 ?e = of_int m * pow10 k'"
    and m: "of_int \<bar>m\<bar> < pow10 p" by (auto simp: fits_def dval_def)
  let ?n = "m * 10 ^ nat (k' - ?e - ?k)"
  have le: "?e + ?k \<le> k'" by (rule coef_multiple_of_dropped [OF c x m])
  have "of_int ?c = of_int m * pow10 (k' - ?e)"
    using x by (simp add: pow10_diff field_simps)
  also have "\<dots> = of_int ?n * pow10 ?k"
    using le pow10_add [of "k' - ?e - ?k" ?k] by (simp add: pow10_nat)
  finally have n: "of_int ?c = of_int ?n * pow10 ?k" .
  then have q: "round_coef ?c ?k = ?n" by (rule round_coef_exact [OF k])
  have "of_int \<bar>?n\<bar> * pow10 ?k < pow10 p * pow10 ?k"
    using arg_cong [OF n, of abs] ndigits_upper [of ?c] pow10_add [of p ?k]
    by (simp add: abs_mult)
  then have "of_int \<bar>?n\<bar> < pow10 p" by (rule mult_right_less_imp_less) simp
  moreover have "?n \<noteq> 0" using n c by auto
  ultimately have "ndigits ?n \<le> p" by (simp add: ndigits_le_iff)
  then have "dec_fix p d = Dec ?n (?e + ?k)"
    using False q by (simp add: dec_fix_def Let_def)
  then show ?thesis using n by (simp add: dval_def pow10_add)
qed

text \<open>In general \<open>dec_fix\<close> moves a value by at most half a unit of its last kept digit.\<close>

lemma dval_fix_error:
  assumes p: "1 \<le> p"
  shows "\<bar>dval (dec_fix p d) - dval d\<bar> \<le> \<bar>dval d\<bar> * pow10 (1 - p) / 2"
proof (cases "dec_coef d = 0 \<or> ndigits (dec_coef d) - p \<le> 0")
  case True
  then show ?thesis by (auto simp: dec_fix_def Let_def)
next
  case False
  let ?c = "dec_coef d" and ?e = "dec_exp d" and ?k = "ndigits (dec_coef d) - p"
  let ?q = "round_coef ?c ?k"
  from False have c: "?c \<noteq> 0" and k: "0 \<le> ?k" by auto
  have q: "?q = rhe (of_int ?c / pow10 ?k)" by (rule round_coef_eq [OF k])
  have val: "dval (dec_fix p d) = of_int ?q * pow10 (?e + ?k)"
  proof (cases "ndigits ?q > p")
    case True
    then have q0: "?q \<noteq> 0" using p by auto
    then have "pow10 p \<le> of_int \<bar>?q\<bar>" using True ndigits_le_iff [of ?q p] by (simp add: not_less)
    then have ge: "10 ^ nat p \<le> \<bar>?q\<bar>"
      using of_int_pow10 [of p] p by (metis of_int_le_iff order_trans zero_le_one)
    have "\<bar>of_int ?c / pow10 ?k\<bar> < pow10 p"
      using ndigits_upper [of ?c] pow10_add [of p ?k] by (simp add: abs_divide field_simps)
    then have "of_int \<bar>?q\<bar> < pow10 p + 1"
      using rhe_abs [of "of_int ?c / pow10 ?k"] unfolding q of_int_abs by linarith
    then have "of_int \<bar>?q\<bar> < (of_int (10 ^ nat p + 1) :: rat)"
      using of_int_pow10 [of p] p by simp
    then have "\<bar>?q\<bar> < 10 ^ nat p + 1" by (simp only: of_int_less_iff)
    with ge have eq: "\<bar>?q\<bar> = 10 ^ nat p" by simp
    have "nat p = Suc (nat (p - 1))" using p by simp
    then have div: "\<bar>?q\<bar> div 10 * 10 = \<bar>?q\<bar>" unfolding eq by simp
    have "of_int (sgn ?q * (\<bar>?q\<bar> div 10)) * pow10 (?e + ?k + 1)
        = of_int (sgn ?q * (\<bar>?q\<bar> div 10 * 10)) * pow10 (?e + ?k)"
      using pow10_add [of "?e + ?k" 1] by (simp add: pow10_def)
    also have "\<dots> = of_int ?q * pow10 (?e + ?k)"
      unfolding div by (simp add: sgn_mult_abs)
    finally show ?thesis using True False by (simp add: dec_fix_def Let_def dval_Dec)
  next
    case False
    with \<open>\<not> (dec_coef d = 0 \<or> ndigits (dec_coef d) - p \<le> 0)\<close> show ?thesis
      by (simp add: dec_fix_def Let_def dval_Dec)
  qed
  have "dval (dec_fix p d) - dval d = (of_int ?q - of_int ?c / pow10 ?k) * pow10 (?e + ?k)"
    unfolding val by (simp add: dval_def pow10_add left_diff_distrib)
  then have "\<bar>dval (dec_fix p d) - dval d\<bar> \<le> 1/2 * pow10 (?e + ?k)"
    using rhe_near [of "of_int ?c / pow10 ?k"] unfolding q
    by (simp add: abs_mult mult_right_mono less_imp_le)
  also have "pow10 (?e + ?k) \<le> \<bar>dval d\<bar> * pow10 (1 - p)"
  proof -
    have "pow10 (?e + ?k) = pow10 (ndigits ?c - 1) * pow10 ?e * pow10 (1 - p)"
      by (simp add: pow10_add [symmetric] algebra_simps)
    also have "\<dots> \<le> of_int \<bar>?c\<bar> * pow10 ?e * pow10 (1 - p)"
      using ndigits_lower [OF c] by (intro mult_right_mono) (simp_all add: less_imp_le)
    finally show ?thesis by (simp add: dval_def abs_mult)
  qed
  finally show ?thesis by simp
qed

subsection \<open>Multiplication, addition and division\<close>

lemma dec_mul_exact: "fits p (dval a * dval b) \<Longrightarrow> dval (dec_mul p a b) = dval a * dval b"
  unfolding dec_mul_def
  by (subst dval_fix_exact) (simp_all add: dval_def pow10_add mult.assoc mult.left_commute)

lemma dec_mul_error:
  "1 \<le> p \<Longrightarrow> \<bar>dval (dec_mul p a b) - dval a * dval b\<bar> \<le> \<bar>dval a * dval b\<bar> * pow10 (1 - p) / 2"
  using dval_fix_error [of p "Dec (dec_coef a * dec_coef b) (dec_exp a + dec_exp b)"]
  by (simp add: dec_mul_def dval_def pow10_add mult.assoc mult.left_commute)

lemma dec_add_exact:
  assumes "fits p (dval a + dval b)"
  shows "dval (dec_add p a b) = dval a + dval b"
proof -
  have rescale: "of_int (dec_coef d * 10 ^ nat (dec_exp d - e)) * pow10 e = dval d"
    if "e \<le> dec_exp d" for d e
    using that pow10_add [of "dec_exp d - e" e] by (simp add: dval_def pow10_nat)
  let ?e = "min (dec_exp a) (dec_exp b)"
  have "dval (Dec (dec_coef a * 10 ^ nat (dec_exp a - ?e) + dec_coef b * 10 ^ nat (dec_exp b - ?e)) ?e)
      = dval a + dval b"
    using rescale [of ?e a] rescale [of ?e b] unfolding dval_Dec of_int_add distrib_right by simp
  with assms show ?thesis by (simp add: dec_add_def Let_def dval_fix_exact)
qed

lemma dec_sub_exact: "fits p (dval a - dval b) \<Longrightarrow> dval (dec_sub p a b) = dval a - dval b"
  using dec_add_exact [of p a "Dec (- dec_coef b) (dec_exp b)"] by (simp add: dec_sub_def dval_def)

lemma dval_strip: "dval (dec_strip i c e) = dval (Dec c e)"
proof (induction i c e rule: dec_strip.induct)
  case (1 i c e)
  note IH = this
  show ?case
  proof (cases "e < i \<and> c mod 10 = 0")
    case True
    then have "c = 10 * (c div 10)" by presburger
    then have "of_int c = (10 * of_int (c div 10) :: rat)" by (metis of_int_mult of_int_numeral)
    with True IH show ?thesis
      using pow10_add [of e 1] by (subst dec_strip.simps) (simp add: dval_Dec pow10_def)
  next
    case False
    then have "dec_strip i c e = Dec c e" by (subst dec_strip.simps) auto
    then show ?thesis by simp
  qed
qed

lemma div_scaled:
  assumes "0 < ca" "0 < cb"
  shows "of_int (div_num sh ca) / of_int (div_den sh cb) = (of_int ca / of_int cb :: rat) * pow10 sh"
  using assms by (auto simp: div_num_def div_den_def pow10_def)

lemma div_scaled_pos: "0 < ca \<Longrightarrow> 0 < div_num sh ca" "0 < cb \<Longrightarrow> 0 < div_den sh cb"
  by (auto simp: div_num_def div_den_def)

lemma div_scaled_large:
  assumes a: "0 < ca" and b: "0 < cb"
  shows "pow10 p < (of_int ca / of_int cb :: rat) * pow10 (ndigits cb - ndigits ca + p + 1)"
proof -
  have "pow10 p * of_int cb < pow10 p * pow10 (ndigits cb)"
    using ndigits_upper [of cb] b by simp
  also have "\<dots> = pow10 (ndigits ca - 1) * pow10 (ndigits cb - ndigits ca + p + 1)"
    by (simp add: pow10_add [symmetric] algebra_simps)
  also have "\<dots> \<le> of_int ca * pow10 (ndigits cb - ndigits ca + p + 1)"
    using ndigits_lower [of ca] a by (intro mult_right_mono) simp_all
  finally show ?thesis using b by (simp add: field_simps)
qed

lemma dec_div_cases:
  fixes p :: int
  assumes b: "dec_coef b \<noteq> 0" and a: "dec_coef a \<noteq> 0"
  defines "sh \<equiv> ndigits \<bar>dec_coef b\<bar> - ndigits \<bar>dec_coef a\<bar> + p + 1"
  defines "e \<equiv> dec_exp a - dec_exp b - sh"
  defines "s \<equiv> sgn (dec_coef a) * sgn (dec_coef b)"
  defines "num \<equiv> div_num sh \<bar>dec_coef a\<bar>" and "den \<equiv> div_den sh \<bar>dec_coef b\<bar>"
  obtains (exact) d where "dec_div p a b = Inr (dec_fix p d)" "num mod den = 0"
      "dval d = of_int (s * (num div den)) * pow10 e"
    | (inexact) q where "dec_div p a b = Inr (dec_fix p (Dec (s * q) e))" "num mod den \<noteq> 0"
      "q = num div den \<or> q = num div den + 1"
proof (cases "num mod den = 0")
  case True
  let ?d = "dec_strip (dec_exp a - dec_exp b) (num div den) e"
  have r: "dec_div p a b = Inr (dec_fix p (Dec (s * dec_coef ?d) (dec_exp ?d)))"
    using a b True
    by (simp add: dec_div_def Let_def num_def den_def e_def s_def sh_def)
  have "of_int s * dval ?d = of_int s * dval (Dec (num div den) e)" by (simp only: dval_strip)
  then have "dval (Dec (s * dec_coef ?d) (dec_exp ?d)) = of_int (s * (num div den)) * pow10 e"
    by (simp only: dval_def decimal.sel of_int_mult mult.assoc)
  with r True show ?thesis by (rule exact)
next
  case False
  let ?q = "num div den"
  have "dec_div p a b = Inr (dec_fix p (Dec (s * (if ?q mod 5 = 0 then ?q + 1 else ?q)) e))"
    using a b False
    by (simp add: dec_div_def Let_def num_def den_def e_def s_def sh_def)
  then show ?thesis using False by (intro inexact) auto
qed

lemma quotient_scaled:
  fixes p :: int
  assumes b: "dec_coef b \<noteq> 0" and a: "dec_coef a \<noteq> 0"
  defines "sh \<equiv> ndigits \<bar>dec_coef b\<bar> - ndigits \<bar>dec_coef a\<bar> + p + 1"
  defines "s \<equiv> sgn (dec_coef a) * sgn (dec_coef b)"
  shows "dval a / dval b = of_int s * (of_int (div_num sh \<bar>dec_coef a\<bar>) / of_int (div_den sh \<bar>dec_coef b\<bar>))
    * pow10 (dec_exp a - dec_exp b - sh)"
proof -
  let ?ca = "of_int \<bar>dec_coef a\<bar> :: rat" and ?cb = "of_int \<bar>dec_coef b\<bar> :: rat"
  let ?sa = "of_int (sgn (dec_coef a)) :: rat" and ?sb = "of_int (sgn (dec_coef b)) :: rat"
  have ab: "of_int (dec_coef a) = ?sa * ?ca" "of_int (dec_coef b) = ?sb * ?cb"
    by (simp_all only: of_int_mult [symmetric] sgn_mult_abs)
  have sb: "x / (?sb * y) = ?sb * (x / y)" for x y :: rat
    using b by (cases "0 < dec_coef b") (simp_all add: sgn_if)
  have "dval a / dval b = (?sa * ?ca * pow10 (dec_exp a)) / (?sb * (?cb * pow10 (dec_exp b)))"
    by (simp only: dval_def ab mult.assoc)
  also have "\<dots> = of_int s * (?ca / ?cb) * pow10 (dec_exp a - dec_exp b)"
    unfolding sb s_def pow10_diff by simp
  also have "pow10 (dec_exp a - dec_exp b) = pow10 sh * pow10 (dec_exp a - dec_exp b - sh)"
    by (simp add: pow10_add [symmetric])
  finally show ?thesis
    using b a div_scaled [of "\<bar>dec_coef a\<bar>" "\<bar>dec_coef b\<bar>" sh] by (simp only: mult.assoc)
qed

lemma dec_div_exact:
  assumes b: "dec_coef b \<noteq> 0" and fit: "fits p (dval a / dval b)"
  shows "\<exists>r. dec_div p a b = Inr r \<and> dval r = dval a / dval b"
proof (cases "dec_coef a = 0")
  case True
  then show ?thesis using b by (auto simp: dec_div_def Let_def dec_fix_def dval_def)
next
  case a: False
  define sh where "sh = ndigits \<bar>dec_coef b\<bar> - ndigits \<bar>dec_coef a\<bar> + p + 1"
  define e where "e = dec_exp a - dec_exp b - sh"
  define s where "s = sgn (dec_coef a) * sgn (dec_coef b)"
  define num where "num = div_num sh \<bar>dec_coef a\<bar>"
  define den where "den = div_den sh \<bar>dec_coef b\<bar>"
  have pos: "0 < num" "0 < den" using a b by (simp_all add: num_def den_def div_scaled_pos)
  have quot: "dval a / dval b = of_int s * (of_int num / of_int den) * pow10 e"
    unfolding s_def num_def den_def e_def sh_def by (rule quotient_scaled [OF b a])
  have s1: "\<bar>of_int s :: rat\<bar> = 1" using a b by (simp add: s_def abs_mult sgn_if)
  have large: "pow10 p < of_int num / of_int den"
    unfolding num_def den_def using a b div_scaled [of "\<bar>dec_coef a\<bar>" "\<bar>dec_coef b\<bar>" sh]
      div_scaled_large [of "\<bar>dec_coef a\<bar>" "\<bar>dec_coef b\<bar>" p]
    by (simp add: sh_def)
  from fit obtain m k where m: "dval a / dval b = of_int m * pow10 k" "of_int \<bar>m\<bar> < pow10 p"
    by (auto simp: fits_def)
  have eq: "of_int num / of_int den = of_int \<bar>m\<bar> * pow10 (k - e)"
    using arg_cong [OF trans [OF quot [symmetric] m(1)], of abs] s1 pos
    by (simp add: abs_mult abs_divide pow10_diff field_simps)
  have "e < k"
  proof (rule ccontr)
    assume "\<not> e < k"
    then have "pow10 (k - e) \<le> pow10 0" by (simp del: pow10_0)
    then have "of_int \<bar>m\<bar> * pow10 (k - e) \<le> of_int \<bar>m\<bar> * 1" by (intro mult_left_mono) simp_all
    with large eq m(2) show False by simp
  qed
  then have "of_int num = (of_int (\<bar>m\<bar> * 10 ^ nat (k - e) * den) :: rat)"
    using eq pos by (simp add: pow10_nat field_simps)
  then have num: "num = \<bar>m\<bar> * 10 ^ nat (k - e) * den" by (simp only: of_int_eq_iff)
  then have mod0: "num mod den = 0" by simp
  have "of_int (num div den) = (of_int num / of_int den :: rat)"
    using num pos by simp
  then show ?thesis
    using dec_div_cases [OF b a, of p thesis for thesis] mod0 quot fit dval_fix_exact
    unfolding s_def [symmetric] sh_def [symmetric] num_def [symmetric] den_def [symmetric]
      e_def [symmetric]
    by (metis mult.assoc of_int_mult)
qed

text \<open>An inexact quotient is within one unit of its last digit of the exact one.\<close>

lemma near_bound:
  fixes ax az d t :: rat
  assumes "ax * t \<le> ax * (1/10)" "az \<le> d + ax" "d \<le> ax * t"
  shows "az \<le> ax * 11 / 10"
  using assms by linarith

lemma near_bound_rounded:
  fixes ax az d r t u :: rat
  assumes "r \<le> az * u / 2" "az * u / 2 \<le> ax * 11 / 10 * u / 2" "d \<le> ax * t" "u = 10 * t"
  shows "d + r \<le> ax * u * (65 / 100)"
  using assms by (simp add: algebra_simps)

lemma dec_div_error:
  assumes b: "dec_coef b \<noteq> 0" and p: "1 \<le> p"
  shows "\<exists>r. dec_div p a b = Inr r \<and> \<bar>dval r - dval a / dval b\<bar> \<le> \<bar>dval a / dval b\<bar> * pow10 (1 - p)"
proof (cases "dec_coef a = 0")
  case True
  then show ?thesis using b by (auto simp: dec_div_def Let_def dec_fix_def dval_def)
next
  case a: False
  define sh where "sh = ndigits \<bar>dec_coef b\<bar> - ndigits \<bar>dec_coef a\<bar> + p + 1"
  define e where "e = dec_exp a - dec_exp b - sh"
  define s where "s = sgn (dec_coef a) * sgn (dec_coef b)"
  define num where "num = div_num sh \<bar>dec_coef a\<bar>"
  define den where "den = div_den sh \<bar>dec_coef b\<bar>"
  define y where "y = (of_int num / of_int den :: rat)"
  let ?x = "dval a / dval b"
  have pos: "0 < num" "0 < den" using a b by (simp_all add: num_def den_def div_scaled_pos)
  have quot: "?x = of_int s * y * pow10 e"
    unfolding s_def num_def den_def e_def sh_def y_def by (rule quotient_scaled [OF b a])
  have s1: "\<bar>of_int s :: rat\<bar> = 1" using a b by (simp add: s_def abs_mult sgn_if)
  have large: "pow10 p < y"
    unfolding num_def den_def y_def
    using a b div_scaled [of "\<bar>dec_coef a\<bar>" "\<bar>dec_coef b\<bar>" sh]
      div_scaled_large [of "\<bar>dec_coef a\<bar>" "\<bar>dec_coef b\<bar>" p]
    by (simp add: sh_def)
  have fl: "of_int (num div den) \<le> y" "y < of_int (num div den) + 1"
    unfolding y_def floor_divide_of_int_eq [where ?'a = rat, symmetric] by linarith+
  obtain q z where z: "dec_div p a b = Inr (dec_fix p z)" "dval z = of_int s * of_int q * pow10 e"
    and q: "q = num div den \<or> q = num div den + 1"
  proof (rule dec_div_cases [OF b a, of p], goal_cases)
    case (1 d)
    then show ?thesis
      using that [of d "num div den"]
      by (simp add: s_def [symmetric] sh_def [symmetric] num_def [symmetric] den_def [symmetric] e_def [symmetric])
  next
    case (2 q)
    then show ?thesis
      using that [of "Dec (s * q) e" q]
      by (simp add: s_def [symmetric] sh_def [symmetric] num_def [symmetric] den_def [symmetric]
          e_def [symmetric] dval_Dec)
  qed
  have xabs: "\<bar>?x\<bar> = y * pow10 e"
    using quot s1 large less_trans [OF pow10_pos large] by (simp add: abs_mult)
  have "\<bar>dval z - ?x\<bar> = \<bar>of_int q - y\<bar> * pow10 e"
    unfolding z(2) quot using s1 by (simp add: abs_mult mult.assoc flip: right_diff_distrib left_diff_distrib)
  also have "\<dots> \<le> 1 * pow10 e"
    using q fl by (intro mult_right_mono) auto
  also have "\<dots> \<le> (y * pow10 (- p)) * pow10 e"
  proof (intro mult_right_mono)
    have "pow10 p * pow10 (- p) \<le> y * pow10 (- p)"
      using large by (intro mult_right_mono) simp_all
    then show "1 \<le> y * pow10 (- p)" by (simp only: pow10_add [symmetric] add.right_inverse pow10_0)
  qed simp
  finally have dz: "\<bar>dval z - ?x\<bar> \<le> \<bar>?x\<bar> * pow10 (- p)"
    unfolding xabs by (simp add: mult.commute mult.left_commute)
  have u: "pow10 (1 - p) = 10 * pow10 (- p)" "pow10 (1 - p) \<le> 1"
    using pow10_add [of 1 "- p"] pow10_le_iff [of "1 - p" 0] p by (simp_all add: pow10_def)
  have "\<bar>dval z\<bar> \<le> \<bar>?x\<bar> * 11 / 10"
  proof -
    have "\<bar>?x\<bar> * pow10 (- p) \<le> \<bar>?x\<bar> * (1/10)" using u by (intro mult_left_mono) simp_all
    moreover have "\<bar>dval z\<bar> \<le> \<bar>dval z - ?x\<bar> + \<bar>?x\<bar>"
      using abs_triangle_ineq [of "dval z - ?x" ?x] by (simp only: diff_add_cancel)
    ultimately show ?thesis using dz by (intro near_bound) 
  qed
  then have "\<bar>dval z\<bar> * pow10 (1 - p) / 2 \<le> (\<bar>?x\<bar> * 11 / 10) * pow10 (1 - p) / 2"
    by (intro divide_right_mono mult_right_mono) simp_all
  from near_bound_rounded [OF dval_fix_error [OF p, of z] this dz u(1)]
  have "\<bar>dval (dec_fix p z) - ?x\<bar> \<le> \<bar>?x\<bar> * pow10 (1 - p) * (65 / 100)"
    using abs_triangle_ineq [of "dval (dec_fix p z) - dval z" "dval z - ?x"] by simp
  also have "\<dots> \<le> \<bar>?x\<bar> * pow10 (1 - p) * 1" by (intro mult_left_mono) simp_all
  finally show ?thesis using z(1) by auto
qed

subsection \<open>Quantize, scale and conversion to \<open>int\<close>\<close>

lemma dec_rescale_eq:
  assumes "dec_coef d \<noteq> 0"
  shows "dec_rescale d e = Dec (rhe (dval d / pow10 e)) e"
proof (cases "e \<le> dec_exp d")
  case True
  have "dval d / pow10 e = of_int (dec_coef d) * pow10 (dec_exp d - e)"
    by (simp add: dval_def pow10_diff)
  also have "\<dots> = of_int (dec_coef d * 10 ^ nat (dec_exp d - e))"
    using True by (simp add: pow10_nat)
  finally show ?thesis using True assms by (simp only: dec_rescale_def rhe_of_int) simp
next
  case False
  then have "dval d / pow10 e = of_int (dec_coef d) / pow10 (e - dec_exp d)"
    by (simp add: dval_def pow10_diff)
  with False assms show ?thesis by (simp add: dec_rescale_def round_coef_eq)
qed

lemma dec_quantize_Inr: "dec_quantize p d e = Inr r \<Longrightarrow> r = Dec (rhe (dval d / pow10 e)) e"
  by (auto simp: dec_quantize_def Let_def dec_rescale_eq dval_def split: if_splits)

lemma dec_quantize_total:
  assumes small: "\<bar>dval d\<bar> < pow10 (p + e - 1)" and p: "1 \<le> p"
  shows "dec_quantize p d e = Inr (Dec (rhe (dval d / pow10 e)) e)"
proof (cases "dec_coef d = 0")
  case True
  then show ?thesis by (simp add: dec_quantize_def dval_def)
next
  case False
  have "pow10 (ndigits (dec_coef d) - 1 + dec_exp d) \<le> \<bar>dval d\<bar>"
    using ndigits_lower [OF False] by (simp add: dval_def abs_mult pow10_add mult_right_mono)
  with small have "pow10 (ndigits (dec_coef d) - 1 + dec_exp d) < pow10 (p + e - 1)" by linarith
  then have len: "\<not> ndigits (dec_coef d) + dec_exp d - e > p" by simp
  have "\<bar>dval d / pow10 e\<bar> < pow10 (p - 1)"
    using small pow10_add [of "p - 1" e] by (simp add: abs_divide field_simps algebra_simps)
  then have "\<bar>of_int (rhe (dval d / pow10 e)) :: rat\<bar> < pow10 (p - 1) + 1"
    using rhe_abs [of "dval d / pow10 e"] by linarith
  moreover have "1 \<le> pow10 (p - 1)" using p pow10_le_iff [of 0 "p - 1"] by simp
  moreover have "pow10 p = 10 * pow10 (p - 1)" using pow10_add [of 1 "p - 1"] by (simp add: pow10_def)
  ultimately have "of_int \<bar>rhe (dval d / pow10 e)\<bar> < pow10 p" by simp
  then have "ndigits (rhe (dval d / pow10 e)) \<le> p"
    using p by (cases "rhe (dval d / pow10 e) = 0") (simp_all add: ndigits_le_iff)
  with len False show ?thesis by (simp add: dec_quantize_def Let_def dec_rescale_eq)
qed

lemma dec_to_int_Dec0 [simp]: "dec_to_int (Dec c 0) = c"
  by (simp add: dec_to_int_def)

lemma dec_to_int_value:
  assumes "dval d = of_int n"
  shows "dec_to_int d = n"
proof (cases "0 \<le> dec_exp d")
  case True
  then have "(of_int (dec_to_int d) :: rat) = of_int n"
    using assms by (simp add: dec_to_int_def dval_def pow10_nat)
  then show ?thesis by simp
next
  case False
  let ?k = "nat (- dec_exp d)"
  have "(of_int (dec_coef d) :: rat) = of_int (n * 10 ^ ?k)"
    using assms False by (simp add: dval_def pow10_def field_simps)
  then have "dec_coef d = n * 10 ^ ?k" by (simp only: of_int_eq_iff)
  with False show ?thesis
    by (simp add: dec_to_int_def abs_mult sgn_mult sgn_mult_abs)
qed

lemma dval_scaleb: "fits p (dval d) \<Longrightarrow> dval (dec_scaleb p d k) = dval d * pow10 k"
proof -
  assume "fits p (dval d)"
  then obtain m e where "dval d = of_int m * pow10 e" "of_int \<bar>m\<bar> < pow10 p"
    by (auto simp: fits_def)
  then have "fits p (dval (Dec (dec_coef d) (dec_exp d + k)))"
    by (intro fitsI [where m = m and e = "e + k"]) (simp_all add: dval_def pow10_add)
  then show ?thesis by (simp add: dec_scaleb_def dval_fix_exact) (simp add: dval_def pow10_add)
qed

subsection \<open>A quotient followed by one quantize\<close>

text \<open>
  Rounding a fraction with denominator \<open>D\<close> twice is harmless when the first rounding is finer than
  the distance \<open>1 / 2 D\<close> such a fraction keeps from every tie it does not hit.
\<close>

lemma rhe_perturbed:
  fixes N D :: int and y r :: rat
  assumes D: "0 < D" and y: "y = of_int N / of_int D" and no_tie: "\<bar>of_int (rhe y) - y\<bar> \<noteq> 1/2"
    and near: "\<bar>r - y\<bar> < 1 / (2 * of_int D)"
  shows "rhe r = rhe y"
proof (rule rhe_unique_near)
  define K where "K = rhe y * D - N"
  have eq: "\<bar>of_int (rhe y) - y\<bar> = of_int \<bar>K\<bar> / of_int D"
  proof -
    have "of_int (rhe y) - y = of_int K / of_int D" using D by (simp add: y K_def field_simps)
    with D show ?thesis by (simp add: abs_divide)
  qed
  have "of_int \<bar>K\<bar> / of_int D < (1/2 :: rat)" using rhe_near [of y] no_tie unfolding eq by linarith
  then have "of_int (2 * \<bar>K\<bar>) < (of_int D :: rat)" using D by (simp add: field_simps)
  then have "2 * \<bar>K\<bar> \<le> D - 1" by linarith
  then have "of_int (2 * \<bar>K\<bar>) \<le> (of_int (D - 1) :: rat)" by (simp only: of_int_le_iff)
  then have "\<bar>of_int (rhe y) - y\<bar> \<le> 1/2 - 1 / (2 * of_int D)"
    unfolding eq using D by (simp add: field_simps)
  then show "\<bar>of_int (rhe y) - r\<bar> < 1/2" using near by linarith
qed

lemma rhe_perturbed_off_tie:
  fixes N D :: int and y r :: rat
  assumes D: "0 < D" and y: "y = of_int N / of_int D"
    and near: "\<bar>r - y\<bar> < 1 / (2 * of_int D)" and no_tie: "\<bar>of_int (rhe r) - y\<bar> \<noteq> 1/2"
  shows "rhe r = rhe y"
proof (cases "\<bar>of_int (rhe y) - y\<bar> = 1/2")
  case False
  show ?thesis by (rule rhe_perturbed [OF D y False near])
next
  case True
  text \<open>\<open>y\<close> is a tie, and an integer within one unit of it is half a unit away.\<close>
  obtain i :: int where i: "2 * (of_int (rhe r) - y) = of_int i" "odd i"
  proof (cases "of_int (rhe y) - y = 1/2")
    case True
    then have "2 * (of_int (rhe r) - y) = of_int (2 * (rhe r - rhe y) + 1)"
      unfolding of_int_add of_int_mult of_int_diff of_int_1 of_int_numeral by (simp add: algebra_simps)
    then show ?thesis by (rule that) simp
  next
    case False
    with True have "of_int (rhe y) - y = - (1/2)" by linarith
    then have "2 * (of_int (rhe r) - y) = of_int (2 * (rhe r - rhe y) - 1)"
      unfolding of_int_diff of_int_mult of_int_1 of_int_numeral by (simp add: algebra_simps)
    then show ?thesis by (rule that) simp
  qed
  have "1 / (2 * of_int D) \<le> (1/2 :: rat)" using D by (simp add: field_simps)
  then have "\<bar>of_int (rhe r) - y\<bar> < 1 + 1/2" using near rhe_near [of r] by linarith
  then have "\<bar>of_int i :: rat\<bar> < 3" unfolding i(1) [symmetric] abs_mult by simp
  then have "\<bar>i\<bar> < 3" by linarith
  with i(2) have "i = 1 \<or> i = - 1 \<or> i = 2 \<or> i = - 2 \<or> i = 0" by linarith
  with i(2) have "i = 1 \<or> i = - 1" by auto
  then have "\<bar>2 * (of_int (rhe r) - y)\<bar> = 1" unfolding i(1) by auto
  then have "\<bar>of_int (rhe r) - y\<bar> = 1/2" unfolding abs_mult by simp
  with no_tie show ?thesis by contradiction
qed

lemma rhe_tie_fits:
  fixes y :: rat
  assumes tie: "\<bar>of_int (rhe y) - y\<bar> = 1/2" and small: "\<bar>y\<bar> * 10 < pow10 p"
  shows "fits p (y * pow10 e)"
proof -
  obtain m :: int where m: "y = of_int m / 2"
  proof -
    have "y = of_int (2 * rhe y - 1) / 2 \<or> y = of_int (2 * rhe y + 1) / 2"
      using tie by (auto simp: abs_if split: if_splits)
    then show ?thesis using that by blast
  qed
  have "pow10 (e - 1) = pow10 e / 10" by (simp add: pow10_diff pow10_def [of 1])
  then have "y * pow10 e = of_int (5 * m) * pow10 (e - 1)" by (simp add: m)
  moreover have "of_int \<bar>5 * m\<bar> < pow10 p" using small by (simp add: m abs_mult)
  ultimately show ?thesis by (rule fitsI)
qed

lemma div_quantize_exact:
  fixes N D :: int
  assumes b: "dec_coef b \<noteq> 0" and p: "1 \<le> p" and D: "0 < D"
    and y: "dval a / dval b / pow10 e = of_int N / of_int D"
    and small: "of_int (2 * \<bar>N\<bar>) < pow10 (p - 2)"
  shows "rbind (dec_div p a b) (\<lambda>raw. dec_quantize p raw e)
           = Inr (Dec (rhe (dval a / dval b / pow10 e)) e)"
proof -
  let ?x = "dval a / dval b" and ?y = "dval a / dval b / pow10 e"
  have xy: "?x = ?y * pow10 e" by simp
  have ylim: "\<bar>?y\<bar> \<le> of_int \<bar>N\<bar>"
    using D unfolding y by (simp add: abs_divide divide_le_eq mult_le_cancel_left1)
  have tens: "pow10 (p - 2) * 10 = pow10 (p - 1)" "pow10 (p - 1) * 10 = pow10 p"
    using pow10_add [of "p - 2" 1] pow10_add [of "p - 1" 1] by (simp_all add: pow10_def [of 1])
  have inv: "pow10 (1 - p) = 1 / pow10 (p - 1)"
    using pow10_add [of "1 - p" "p - 1"] by (simp add: field_simps)
  have ysmall: "\<bar>?y\<bar> * 20 < pow10 (p - 1)"
  proof -
    have "\<bar>?y\<bar> * 20 \<le> of_int \<bar>N\<bar> * 20" using ylim by (rule mult_right_mono) simp
    also have "\<dots> < pow10 (p - 1)" using small unfolding tens(1) [symmetric] by simp
    finally show ?thesis .
  qed
  obtain r where r: "dec_div p a b = Inr r"
      "\<bar>dval r - ?x\<bar> \<le> \<bar>?x\<bar> * pow10 (1 - p)"
    using dec_div_error [OF b p, of a] by blast
  have scaled: "\<bar>dval r / pow10 e - ?y\<bar> \<le> \<bar>?y\<bar> * pow10 (1 - p)"
  proof -
    have "\<bar>dval r / pow10 e - ?y\<bar> = \<bar>dval r - ?x\<bar> / pow10 e"
      by (simp only: diff_divide_distrib [symmetric] abs_divide abs_pow10)
    also have "\<dots> \<le> \<bar>?x\<bar> * pow10 (1 - p) / pow10 e" by (intro divide_right_mono r(2)) simp
    finally show ?thesis by (simp add: abs_divide abs_mult)
  qed
  have arith: "\<And>t u v. (t :: rat) * 20 < u \<Longrightarrow> 0 < u \<Longrightarrow> u * 10 = v \<Longrightarrow> t * 10 < v"
    "\<And>t u v. \<bar>t - u\<bar> \<le> v \<Longrightarrow> v \<le> \<bar>u\<bar> \<Longrightarrow> \<bar>t\<bar> \<le> (2 :: rat) * \<bar>u\<bar>"
    "\<And>t u. \<bar>t\<bar> * 20 < u \<Longrightarrow> 2 * \<bar>t\<bar> < (u :: rat)"
    "\<And>d u t. 0 < d \<Longrightarrow> 0 < u \<Longrightarrow> t * (2 * d) < u \<Longrightarrow> t * (1 / u) < 1 / (2 * d :: rat)"
    by (linarith, linarith, linarith, simp add: field_simps)
  have rhe_eq: "rhe (dval r / pow10 e) = rhe ?y"
  proof (cases "\<bar>of_int (rhe ?y) - ?y\<bar> = 1/2")
    case True
    have "\<bar>?y\<bar> * 10 < pow10 p" 
      using arith(1) [OF ysmall pow10_pos tens(2)] .
    with True have "fits p (?y * pow10 e)" by (rule rhe_tie_fits)
    then have "fits p ?x" by (simp only: xy [symmetric])
    from dec_div_exact [OF b this] r(1) have "dval r = ?x" by simp
    then show ?thesis by simp
  next
    case False
    have "\<bar>?y\<bar> * pow10 (1 - p) < 1 / (2 * of_int D)"
    proof -
      have "\<bar>?y\<bar> * (2 * of_int D) = of_int (2 * \<bar>N\<bar>)"
        using D unfolding y by (simp add: abs_divide)
      also have "\<dots> < pow10 (p - 1)" using small tens pow10_pos [of "p - 2"] by linarith
      finally show ?thesis unfolding inv using arith(4) [of "of_int D" "pow10 (p - 1)" "\<bar>?y\<bar>"] D by simp
    qed
    with scaled have "\<bar>dval r / pow10 e - ?y\<bar> < 1 / (2 * of_int D)" by linarith
    with D y False show ?thesis by (rule rhe_perturbed)
  qed
  have "\<bar>dval r\<bar> < pow10 (p + e - 1)"
  proof -
    have "pow10 (1 - p) \<le> 1" using p pow10_le_iff [of "1 - p" 0] by simp
    then have "\<bar>?y\<bar> * pow10 (1 - p) \<le> \<bar>?y\<bar> * 1" by (intro mult_left_mono) simp_all
    then have "\<bar>dval r / pow10 e\<bar> \<le> 2 * \<bar>?y\<bar>"
      using arith(2) [OF order_trans [OF scaled]] by simp
    also have "\<dots> < pow10 (p - 1)" using arith(3) [OF ysmall] by simp
    finally have "\<bar>dval r\<bar> < pow10 (p - 1) * pow10 e" by (simp add: abs_divide field_simps)
    then show ?thesis by (simp add: pow10_add [symmetric] algebra_simps)
  qed
  from dec_quantize_total [OF this p] r(1) rhe_eq show ?thesis by simp
qed

end
