(* ===== verification/Calculator.thy ===== *)
theory Calculator
  imports PyDecimal
begin

text \<open>
  \<open>domain/item_economics/calculator.py\<close>: the canonical formulas of an item's economics. The
  functions are called with whatever the ORM rows hold, so their arguments are dynamic values
  (\<open>pyval\<close>) and every type guard of the source is a branch of the model; amounts are
  \<open>int\<close> minor units, rates and minutes are decimals, and the arithmetic is that of a decimal
  context of 50 digits with one final \<open>quantize\<close> per formula.

  The lemmas show that, for the magnitudes the database columns hold, each formula is
  round-half-even of the exact rational value (the intermediate 50-digit roundings are not
  observable), with the one exception the consumed cost has on exact ties; that the production
  budget is the capped residual; and that \<open>rederive\<close> accepts a snapshot exactly when all its
  derived values agree with the formulas.
\<close>

section \<open>Dynamic values and enums\<close>

datatype cost_term_type =
    PERCENTAGE_OF_EXPECTED_SALE_PRICE
  | FIXED_AMOUNT
  | ITEM_PURCHASE_COST

datatype item_currency = SWEDISH_KRONA | DANISH_KRONA | EURO

datatype pyval =
    VNone
  | VInt int
  | VBool bool
  | VDec decimal
  | VStr string
  | VTermType cost_term_type
  | VCurrency item_currency
  | VOther string  \<comment> \<open>any other object, by the name of its class\<close>

fun term_type_value :: "cost_term_type \<Rightarrow> string" where
  "term_type_value PERCENTAGE_OF_EXPECTED_SALE_PRICE = ''percentage_of_expected_sale_price''"
| "term_type_value FIXED_AMOUNT = ''fixed_amount''"
| "term_type_value ITEM_PURCHASE_COST = ''item_purchase_cost''"

fun currency_value :: "item_currency \<Rightarrow> string" where
  "currency_value SWEDISH_KRONA = ''swedish_krona''"
| "currency_value DANISH_KRONA = ''danish_krona''"
| "currency_value EURO = ''euro''"

text \<open>\<open>type(value).__name__\<close>.\<close>

fun type_name :: "pyval \<Rightarrow> string" where
  "type_name VNone = ''NoneType''"
| "type_name (VInt _) = ''int''"
| "type_name (VBool _) = ''bool''"
| "type_name (VDec _) = ''Decimal''"
| "type_name (VStr _) = ''str''"
| "type_name (VTermType _) = ''CostModelTermCalculationTypeEnum''"
| "type_name (VCurrency _) = ''ItemCurrencyEnum''"
| "type_name (VOther n) = n"

definition CALCULATION_VERSION :: int where
  "CALCULATION_VERSION = 2"

definition PRODUCTION_BUDGET_CAP_PERCENT :: decimal where
  "PRODUCTION_BUDGET_CAP_PERCENT = Dec 25 0"

section \<open>Entry guards\<close>

definition type_error :: "string \<Rightarrow> string \<Rightarrow> pyval \<Rightarrow> exc" where
  "type_error field expected v = TypeError (field @ '' must be '' @ expected @ ''; received '' @ type_name v)"

text \<open>
  \<open>_guard_type\<close> instantiated at the four types it is called with: \<open>exact=True\<close> for \<open>int\<close>, so that a
  \<open>bool\<close> is rejected, \<open>isinstance\<close> otherwise.
\<close>

definition guard_int :: "pyval \<Rightarrow> string \<Rightarrow> string \<Rightarrow> int result" where
  "guard_int v field label = (case v of VInt n \<Rightarrow> Inr n | _ \<Rightarrow> Inl (type_error field label v))"

definition guard_decimal :: "pyval \<Rightarrow> string \<Rightarrow> decimal result" where
  "guard_decimal v field = (case v of VDec d \<Rightarrow> Inr d | _ \<Rightarrow> Inl (type_error field ''a Decimal'' v))"

definition require_money :: "pyval \<Rightarrow> string \<Rightarrow> string option \<Rightarrow> int result" where
  "require_money v field required_identity =
     (if v = VNone then
        (case required_identity of
           Some identity \<Rightarrow> Inl (ValidationError (identity @ '': '' @ field @ '' is required''))
         | None \<Rightarrow> Inl (type_error field ''an int in minor units'' v))
      else guard_int v field ''an int in minor units'')"

definition require_seconds :: "pyval \<Rightarrow> int result" where
  "require_seconds v = guard_int v ''actual_worker_seconds'' ''an int''"

definition require_rate :: "pyval \<Rightarrow> string \<Rightarrow> decimal result" where
  "require_rate v field =
     (if v = VNone then Inl (type_error field ''a Decimal'' v) else guard_decimal v field)"

definition require_term_type :: "pyval \<Rightarrow> string \<Rightarrow> cost_term_type result" where
  "require_term_type v field =
     (case v of VTermType t \<Rightarrow> Inr t
      | _ \<Rightarrow> Inl (type_error field ''a CostModelTermCalculationTypeEnum member'' v))"

definition require_currency :: "pyval \<Rightarrow> string \<Rightarrow> item_currency result" where
  "require_currency v field =
     (case v of VCurrency c \<Rightarrow> Inr c
      | _ \<Rightarrow> Inl (type_error field ''a ItemCurrencyEnum member'' v))"

definition shape_error :: "cost_term_type \<Rightarrow> string \<Rightarrow> exc" where
  "shape_error t field =
     ValidationError (''ITEM_COST_TERM_SHAPE_INVALID: '' @ term_type_value t @ '' has an invalid ''
        @ field @ '' shape'')"

text \<open>
  \<open>_term_shape\<close>: types first, then presence, then signs. A present percentage is a decimal and a
  present fixed amount an \<open>int\<close> once the two type guards have passed.
\<close>

fun neg_percent :: "pyval \<Rightarrow> bool" where
  "neg_percent (VDec d) = dec_less d (Dec 0 0)"
| "neg_percent _ = False"

fun neg_amount :: "pyval \<Rightarrow> bool" where
  "neg_amount (VInt n) = (n < 0)"
| "neg_amount _ = False"

fun shape_present :: "cost_term_type \<Rightarrow> pyval \<Rightarrow> pyval \<Rightarrow> bool" where
  "shape_present PERCENTAGE_OF_EXPECTED_SALE_PRICE pct fix = (pct \<noteq> VNone \<and> fix = VNone)"
| "shape_present FIXED_AMOUNT pct fix = (pct = VNone \<and> fix \<noteq> VNone)"
| "shape_present ITEM_PURCHASE_COST pct fix = (pct = VNone \<and> fix = VNone)"

definition term_shape :: "cost_term_type \<Rightarrow> pyval \<Rightarrow> pyval \<Rightarrow> unit result" where
  "term_shape t percent_value fixed_amount_minor =
     rbind (if percent_value \<noteq> VNone
            then rbind (require_rate percent_value ''percent_value'') (\<lambda>_. Inr ()) else Inr ())
     (\<lambda>_. rbind (if fixed_amount_minor \<noteq> VNone
            then rbind (require_money fixed_amount_minor ''fixed_amount_minor'' None) (\<lambda>_. Inr ()) else Inr ())
     (\<lambda>_. rbind (rguard (shape_present t percent_value fixed_amount_minor)
            (shape_error t ''percent_value/fixed_amount_minor''))
     (\<lambda>_. rbind (rguard (\<not> neg_percent percent_value) (shape_error t ''percent_value''))
     (\<lambda>_. rguard (\<not> neg_amount fixed_amount_minor) (shape_error t ''fixed_amount_minor'')))))"

section \<open>Formulas\<close>

abbreviation prec50 :: int where
  "prec50 \<equiv> 50"

abbreviation require_price :: "pyval \<Rightarrow> int result" where
  "require_price v \<equiv>
     require_money v ''expected_sale_price_minor'' (Some ''ITEM_COST_EXPECTED_PRICE_REQUIRED'')"

text \<open>\<open>Decimal(price) * percent / Decimal(100)\<close>, quantized to whole minor units.\<close>

definition percent_of :: "int \<Rightarrow> decimal \<Rightarrow> int result" where
  "percent_of price percent =
     rbind (dec_div prec50 (dec_mul prec50 (dec_of_int price) percent) (dec_of_int 100))
     (\<lambda>raw. rbind (dec_quantize prec50 raw 0) (\<lambda>q. Inr (dec_to_int q)))"

definition calculate_percentage_term_amount :: "pyval \<Rightarrow> pyval \<Rightarrow> int result" where
  "calculate_percentage_term_amount expected_sale_price_minor percent_value =
     rbind (require_price expected_sale_price_minor)
     (\<lambda>price. rbind (require_rate percent_value ''percent_value'')
     (\<lambda>percent. percent_of price percent))"

definition calculate_term_amount ::
  "pyval \<Rightarrow> pyval \<Rightarrow> pyval \<Rightarrow> pyval \<Rightarrow> pyval \<Rightarrow> int result" where
  "calculate_term_amount calculation_type expected_sale_price_minor percent_value
       fixed_amount_minor purchase_cost_minor =
     rbind (require_term_type calculation_type ''calculation_type'')
     (\<lambda>t. rbind (require_price expected_sale_price_minor)
     (\<lambda>price. rbind (term_shape t percent_value fixed_amount_minor)
     (\<lambda>_. case t of
        PERCENTAGE_OF_EXPECTED_SALE_PRICE \<Rightarrow>
          calculate_percentage_term_amount (VInt price) percent_value
      | FIXED_AMOUNT \<Rightarrow> require_money fixed_amount_minor ''fixed_amount_minor'' None
      | ITEM_PURCHASE_COST \<Rightarrow>
          require_money purchase_cost_minor ''purchase_cost_minor''
            (Some ''ITEM_COST_PURCHASE_COST_REQUIRED''))))"

record term_snapshot =
  t_name :: string
  t_calculation_type :: pyval
  t_percent_value :: pyval
  t_fixed_amount_minor :: pyval
  t_amount_minor :: pyval

definition term_row_amount :: "pyval \<Rightarrow> pyval \<Rightarrow> term_snapshot \<Rightarrow> int result" where
  "term_row_amount price purchase r =
     rbind (require_term_type (t_calculation_type r) ''calculation_type'')
     (\<lambda>t. calculate_term_amount (VTermType t) price (t_percent_value r) (t_fixed_amount_minor r) purchase)"

definition purchase_rows :: "term_snapshot list \<Rightarrow> nat" where
  "purchase_rows rows = length (filter (\<lambda>r. t_calculation_type r = VTermType ITEM_PURCHASE_COST) rows)"

definition calculate_term_amounts ::
  "term_snapshot list \<Rightarrow> pyval \<Rightarrow> pyval \<Rightarrow> int list result" where
  "calculate_term_amounts term_rows expected_sale_price_minor purchase_cost_minor =
     rbind (rmap (term_row_amount expected_sale_price_minor purchase_cost_minor) term_rows)
     (\<lambda>amounts. rbind (rguard (\<not> purchase_rows term_rows > 1)
         (ValidationError ''ITEM_COST_TERM_SHAPE_INVALID: duplicate item_purchase_cost terms''))
     (\<lambda>_. Inr amounts))"

definition calculate_production_budget :: "pyval \<Rightarrow> pyval list \<Rightarrow> int result" where
  "calculate_production_budget expected_sale_price_minor term_amounts =
     rbind (require_price expected_sale_price_minor)
     (\<lambda>price. rbind (rmap (\<lambda>a. require_money a ''amount_minor'' None) term_amounts)
     (\<lambda>checked. rbind (percent_of price PRODUCTION_BUDGET_CAP_PERCENT)
     (\<lambda>cap. Inr (min (price - sum_list checked) cap))))"

definition cost_rate :: "int \<Rightarrow> decimal \<Rightarrow> decimal \<Rightarrow> decimal result" where
  "cost_rate fixed_cost hours utilization =
     rbind (dec_div prec50 (dec_mul prec50 hours utilization) (dec_of_int 100))
     (\<lambda>h. rbind (dec_div prec50 (dec_of_int fixed_cost) (dec_mul prec50 h (dec_of_int 60)))
     (\<lambda>raw. rbind (dec_quantize prec50 raw (- 4))
     (\<lambda>quantized. rbind (rguard (\<not> dec_eq quantized (Dec 0 0))
         (ValidationError ''ITEM_COST_RATE_UNDERFLOW: quantized cost per worker-minute is zero''))
     (\<lambda>_. Inr quantized))))"

definition calculate_cost_per_worker_minute :: "pyval \<Rightarrow> pyval \<Rightarrow> pyval \<Rightarrow> decimal result" where
  "calculate_cost_per_worker_minute fixed_monthly_cost_minor monthly_paid_hours
       planning_utilization_percent =
     rbind (require_money fixed_monthly_cost_minor ''fixed_monthly_cost_minor'' None)
     (\<lambda>fixed_cost. rbind (require_rate monthly_paid_hours ''monthly_paid_hours'')
     (\<lambda>hours. rbind (require_rate planning_utilization_percent ''planning_utilization_percent'')
     (\<lambda>utilization. cost_rate fixed_cost hours utilization)))"

definition calculate_allowed_worker_minutes :: "pyval \<Rightarrow> pyval \<Rightarrow> decimal result" where
  "calculate_allowed_worker_minutes production_budget_minor cost_per_worker_minute_minor =
     rbind (require_money production_budget_minor ''production_budget_minor'' None)
     (\<lambda>budget. rbind (require_rate cost_per_worker_minute_minor ''cost_per_worker_minute_minor'')
     (\<lambda>rate. rbind (rguard (\<not> dec_eq rate (Dec 0 0))
         (ValidationError ''ITEM_COST_RATE_UNDERFLOW: cannot calculate allowance with zero rate''))
     (\<lambda>_. rbind (dec_div prec50 (dec_of_int budget) rate)
     (\<lambda>raw. dec_quantize prec50 raw (- 2)))))"

definition calculate_actual_worker_minutes :: "pyval \<Rightarrow> decimal result" where
  "calculate_actual_worker_minutes actual_worker_seconds =
     rbind (require_seconds actual_worker_seconds)
     (\<lambda>seconds. rbind (dec_div prec50 (dec_of_int seconds) (dec_of_int 60))
     (\<lambda>raw. dec_quantize prec50 raw (- 2)))"

definition calculate_consumed_cost_minor :: "pyval \<Rightarrow> pyval \<Rightarrow> int result" where
  "calculate_consumed_cost_minor actual_worker_seconds rate_snapshot =
     rbind (require_seconds actual_worker_seconds)
     (\<lambda>seconds. rbind (require_rate rate_snapshot ''cost_per_worker_minute_minor_snapshot'')
     (\<lambda>rate. rbind (dec_div prec50 (dec_of_int seconds) (dec_of_int 60))
     (\<lambda>minutes. rbind (dec_quantize prec50 (dec_mul prec50 minutes rate) 0)
     (\<lambda>q. Inr (dec_to_int q)))))"

definition calculate_remaining_worker_minutes :: "pyval \<Rightarrow> pyval \<Rightarrow> decimal result" where
  "calculate_remaining_worker_minutes allowed_worker_minutes actual_worker_minutes =
     rbind (require_rate allowed_worker_minutes ''allowed_worker_minutes'')
     (\<lambda>allowed. rbind (require_rate actual_worker_minutes ''actual_worker_minutes'')
     (\<lambda>actual. Inr (dec_sub prec50 allowed actual)))"

definition calculate_percent_consumed :: "pyval \<Rightarrow> pyval \<Rightarrow> decimal option result" where
  "calculate_percent_consumed allowed_worker_minutes actual_worker_minutes =
     rbind (require_rate allowed_worker_minutes ''allowed_worker_minutes'')
     (\<lambda>allowed. rbind (require_rate actual_worker_minutes ''actual_worker_minutes'')
     (\<lambda>actual.
        if dec_le allowed (Dec 0 0) then Inr None
        else rbind (dec_div prec50 actual allowed)
             (\<lambda>ratio. rbind (dec_quantize prec50 (dec_mul prec50 ratio (dec_of_int 100)) (- 2))
             (\<lambda>q. Inr (Some q)))))"

definition calculate_variance_worker_minutes :: "pyval \<Rightarrow> pyval \<Rightarrow> decimal result" where
  "calculate_variance_worker_minutes allowed actual = calculate_remaining_worker_minutes allowed actual"

definition calculate_variance_cost_minor :: "pyval \<Rightarrow> pyval \<Rightarrow> int result" where
  "calculate_variance_cost_minor production_budget_minor consumed_cost_minor =
     rbind (require_money production_budget_minor ''production_budget_minor'' None)
     (\<lambda>budget. rbind (require_money consumed_cost_minor ''consumed_cost_minor'' None)
     (\<lambda>consumed. Inr (budget - consumed)))"

definition reconstruct_allowed_worker_minutes :: "pyval \<Rightarrow> pyval \<Rightarrow> decimal result" where
  "reconstruct_allowed_worker_minutes actual_worker_minutes variance_worker_minutes =
     rbind (require_rate actual_worker_minutes ''actual_worker_minutes'')
     (\<lambda>actual. rbind (require_rate variance_worker_minutes ''variance_worker_minutes'')
     (\<lambda>variance. Inr (dec_add prec50 actual variance)))"

section \<open>Currency equality\<close>

definition currency_mismatches :: "item_currency \<Rightarrow> item_currency \<Rightarrow> item_currency \<Rightarrow> string list" where
  "currency_mismatches valuation basis model =
     map (\<lambda>(l, r, ln, rn). ln @ ''='' @ currency_value l @ '' differs from '' @ rn @ ''='' @ currency_value r)
       (filter (\<lambda>(l, r, ln, rn). l \<noteq> r)
         [(valuation, basis, ''valuation'', ''basis''),
          (valuation, model, ''valuation'', ''model''),
          (basis, model, ''basis'', ''model'')])"

definition validate_currency_equality :: "pyval \<Rightarrow> pyval \<Rightarrow> pyval \<Rightarrow> unit result" where
  "validate_currency_equality valuation_currency basis_currency model_currency =
     rbind (require_currency valuation_currency ''valuation_currency'')
     (\<lambda>valuation. rbind (require_currency basis_currency ''basis_currency'')
     (\<lambda>basis. rbind (require_currency model_currency ''model_currency'')
     (\<lambda>model. let mismatches = currency_mismatches valuation basis model
       in rguard (mismatches = [])
            (ValidationError (''ITEM_COST_CURRENCY_MISMATCH: '' @ intercalate ''; '' mismatches)))))"

section \<open>Re-derivation of a stored snapshot\<close>

record evaluation_snapshot =
  ev_expected_sale_price_minor :: pyval
  ev_purchase_cost_minor :: pyval
  ev_monthly_paid_hours_snapshot :: pyval
  ev_planning_utilization_percent_snapshot :: pyval
  ev_fixed_monthly_cost_minor_snapshot :: pyval
  ev_cost_per_worker_minute_minor_snapshot :: pyval
  ev_production_budget_minor :: pyval
  ev_allowed_worker_minutes :: pyval
  ev_calculation_version :: pyval

record mismatch =
  m_field :: string
  m_rederived_value :: pyval
  m_stored_value :: pyval
  m_error :: "string option"

datatype rederivation =
    Rederived decimal int decimal
  | RederiveSkipped
  | RederiveMismatch "mismatch list"

text \<open>\<open>str(error)\<close>; a signal of the decimal module prints the list of its condition.\<close>

fun exc_str :: "exc \<Rightarrow> string" where
  "exc_str (ArithmeticError c) = ''[<class 'decimal.'' @ c @ CHR 0x27 # ''>]''"
| "exc_str (ValidationError m) = m"
| "exc_str (ConflictError m) = m"
| "exc_str (NotFound m) = m"
| "exc_str (ValueError m) = m"
| "exc_str (TypeError m) = m"
| "exc_str (KeyError m) = m"
| "exc_str IndexError = ''list index out of range''"
| "exc_str (AssertionError m) = m"
| "exc_str (RuntimeError m) = m"

definition error_mismatch :: "string \<Rightarrow> exc \<Rightarrow> pyval \<Rightarrow> mismatch" where
  "error_mismatch field e stored =
     \<lparr>m_field = field, m_rederived_value = VNone, m_stored_value = stored, m_error = Some (exc_str e)\<rparr>"

definition marker :: "mismatch list \<Rightarrow> string \<Rightarrow> exc \<Rightarrow> rederivation" where
  "marker ms field e = RederiveMismatch (ms @ [error_mismatch field e VNone])"

definition value_mismatch :: "bool \<Rightarrow> string \<Rightarrow> pyval \<Rightarrow> pyval \<Rightarrow> mismatch list" where
  "value_mismatch differs field rederived stored =
     (if differs then [\<lparr>m_field = field, m_rederived_value = rederived, m_stored_value = stored, m_error = None\<rparr>]
      else [])"

text \<open>The loop over \<open>zip(term_rows, amounts)\<close>, with the mismatches found before a stored amount
  of the wrong type ends it.\<close>

fun compare_amounts ::
  "mismatch list \<Rightarrow> term_snapshot list \<Rightarrow> int list \<Rightarrow> rederivation + mismatch list" where
  "compare_amounts ms (r # rs) (a # as) =
     (case require_money (t_amount_minor r) ''amount_minor'' None of
        Inl e \<Rightarrow> Inl (marker ms ''term_snapshot'' e)
      | Inr stored \<Rightarrow>
          compare_amounts
            (ms @ value_mismatch (a \<noteq> stored) (''term['' @ t_name r @ ''].amount_minor'') (VInt a) (VInt stored))
            rs as)"
| "compare_amounts ms _ _ = Inr ms"

text \<open>The stored and the derived rate, in the order of the first \<open>try\<close> block.\<close>

definition rederive_rate :: "evaluation_snapshot \<Rightarrow> (decimal \<times> decimal) result" where
  "rederive_rate ev =
     rbind (calculate_cost_per_worker_minute (ev_fixed_monthly_cost_minor_snapshot ev)
              (ev_monthly_paid_hours_snapshot ev) (ev_planning_utilization_percent_snapshot ev))
     (\<lambda>rate. rbind (require_rate (ev_cost_per_worker_minute_minor_snapshot ev)
                      ''cost_per_worker_minute_minor_snapshot'')
     (\<lambda>stored. Inr (rate, stored)))"

definition rederive_budget :: "evaluation_snapshot \<Rightarrow> int \<Rightarrow> int list \<Rightarrow> (int \<times> int) result" where
  "rederive_budget ev price amounts =
     rbind (calculate_production_budget (VInt price) (map VInt amounts))
     (\<lambda>budget. rbind (require_money (ev_production_budget_minor ev) ''production_budget_minor'' None)
     (\<lambda>stored. Inr (budget, stored)))"

text \<open>The end of the function: the allowance, from the stored rate.\<close>

definition rederive_allowed ::
  "evaluation_snapshot \<Rightarrow> mismatch list \<Rightarrow> decimal \<Rightarrow> decimal \<Rightarrow> int \<Rightarrow> rederivation" where
  "rederive_allowed ev ms rate stored_rate budget =
     (case require_rate (ev_allowed_worker_minutes ev) ''allowed_worker_minutes'' of
        Inl e \<Rightarrow>
          if \<not> dec_eq rate stored_rate
          then RederiveMismatch (ms @ [error_mismatch ''allowed_worker_minutes'' e (ev_allowed_worker_minutes ev)])
          else marker ms ''evaluation_snapshot'' e
      | Inr stored_allowed \<Rightarrow>
          (case calculate_allowed_worker_minutes (VInt budget) (VDec stored_rate) of
             Inl e \<Rightarrow>
               RederiveMismatch (ms @ [error_mismatch ''allowed_worker_minutes'' e (VDec stored_allowed)])
           | Inr allowed \<Rightarrow>
               let ms = ms @ value_mismatch (\<not> dec_eq allowed stored_allowed \<or> \<not> dec_eq rate stored_rate)
                                ''allowed_worker_minutes'' (VDec allowed) (VDec stored_allowed)
               in if ms \<noteq> [] then RederiveMismatch ms else Rederived rate budget allowed))"

definition rederive :: "evaluation_snapshot \<Rightarrow> term_snapshot list \<Rightarrow> rederivation" where
  "rederive ev term_rows =
     (case guard_int (ev_calculation_version ev) ''calculation_version'' ''an int'' of
        Inl e \<Rightarrow> marker [] ''evaluation_snapshot'' e
      | Inr version \<Rightarrow>
     if version \<noteq> CALCULATION_VERSION then RederiveSkipped
     else case rederive_rate ev of
        Inl e \<Rightarrow> marker [] ''evaluation_snapshot'' e
      | Inr (rate, stored_rate) \<Rightarrow>
     let ms = value_mismatch (\<not> dec_eq rate stored_rate) ''cost_per_worker_minute_minor_snapshot''
                (VDec rate) (VDec stored_rate)
     in case require_price (ev_expected_sale_price_minor ev) of
        Inl e \<Rightarrow> marker ms ''evaluation_snapshot'' e
      | Inr price \<Rightarrow>
     (case calculate_term_amounts term_rows (VInt price) (ev_purchase_cost_minor ev) of
        Inl e \<Rightarrow> marker ms ''term_snapshot'' e
      | Inr amounts \<Rightarrow>
     (case compare_amounts ms term_rows amounts of
        Inl m \<Rightarrow> m
      | Inr ms \<Rightarrow>
     (case rederive_budget ev price amounts of
        Inl e \<Rightarrow> marker ms ''evaluation_snapshot'' e
      | Inr (budget, stored_budget) \<Rightarrow>
     rederive_allowed ev
       (ms @ value_mismatch (budget \<noteq> stored_budget) ''production_budget_minor'' (VInt budget) (VInt stored_budget))
       rate stored_rate budget))))"

section \<open>Exactness of the formulas\<close>

lemma require_money_VInt [simp]: "require_money (VInt n) field i = Inr n"
  by (simp add: require_money_def guard_int_def)

lemma require_money_eq_Inr: "require_money v field i = Inr n \<longleftrightarrow> v = VInt n"
  by (cases v) (auto simp: require_money_def guard_int_def split: option.splits)

lemma require_rate_VDec [simp]: "require_rate (VDec d) field = Inr d"
  by (simp add: require_rate_def guard_decimal_def)

lemma require_rate_eq_Inr: "require_rate v field = Inr d \<longleftrightarrow> v = VDec d"
  by (cases v) (auto simp: require_rate_def guard_decimal_def)

lemma require_seconds_VInt [simp]: "require_seconds (VInt n) = Inr n"
  by (simp add: require_seconds_def guard_int_def)

lemma require_term_type_eq_Inr: "require_term_type v field = Inr t \<longleftrightarrow> v = VTermType t"
  by (cases v) (auto simp: require_term_type_def)

lemma guard_int_eq_Inr: "guard_int v field label = Inr n \<longleftrightarrow> v = VInt n"
  by (cases v) (auto simp: guard_int_def)

lemma rmap_money [simp]: "rmap (\<lambda>a. require_money a field i) (map VInt ns) = Inr ns"
  by (induction ns) simp_all

lemmas guards_Inr = require_money_eq_Inr require_rate_eq_Inr require_term_type_eq_Inr guard_int_eq_Inr

text \<open>Values that fit a number of digits: integers below a power of ten and their products.\<close>

lemma of_int_abs_less: "\<bar>n\<bar> < 10 ^ k \<Longrightarrow> \<bar>of_int n :: rat\<bar> < 10 ^ k"
  unfolding of_int_abs [symmetric] by (metis of_int_less_iff of_int_numeral of_int_power)

lemma fits_of_int: "\<bar>n\<bar> < 10 ^ k \<Longrightarrow> fits (int k) (of_int n)"
  using of_int_abs_less [of n k] by (intro fitsI [of _ n 0]) (simp_all add: pow10_nat)

lemma fits_mult: "fits p x \<Longrightarrow> fits q y \<Longrightarrow> fits (p + q) (x * y)"
proof -
  assume "fits p x" "fits q y"
  then obtain m e n f where mn: "x = of_int m * pow10 e" "of_int \<bar>m\<bar> < pow10 p"
      "y = of_int n * pow10 f" "of_int \<bar>n\<bar> < pow10 q"
    unfolding fits_def by auto
  have "x * y = of_int (m * n) * pow10 (e + f)" by (simp add: mn pow10_add)
  moreover have "of_int \<bar>m * n\<bar> < pow10 (p + q)"
    using mult_strict_mono' [OF mn(2) mn(4)] by (simp add: abs_mult pow10_add)
  ultimately show ?thesis by (rule fitsI)
qed

lemma fits_mono: "fits p x \<Longrightarrow> p \<le> q \<Longrightarrow> fits q x"
  unfolding fits_def using less_le_trans [OF _ iffD2 [OF pow10_le_iff]] by blast

lemma fits_shift: "fits p x \<Longrightarrow> fits p (x / pow10 k)"
proof -
  assume "fits p x"
  then obtain m e where "x = of_int m * pow10 e" "of_int \<bar>m\<bar> < pow10 p"
    unfolding fits_def by auto
  then show ?thesis by (intro fitsI [of _ m "e - k"]) (simp_all add: pow10_diff)
qed

lemma fits_hundred: "fits p x \<Longrightarrow> fits p (x / 100)"
  using fits_shift [of p x 2] by (simp add: pow10_def)

text \<open>The bounds of the database columns (minor units in a 64-bit integer, decimals of at most 20
  digits) leave the 50-digit context room to spare.\<close>

definition column_money :: "int \<Rightarrow> bool" where
  "column_money n \<longleftrightarrow> \<bar>n\<bar> < 10 ^ 19"

definition column_decimal :: "decimal \<Rightarrow> bool" where
  "column_decimal d \<longleftrightarrow> \<bar>dec_coef d\<bar> < 10 ^ 12 \<and> - 6 \<le> dec_exp d \<and> dec_exp d \<le> 0"

lemma column_decimal_fits: "column_decimal d \<Longrightarrow> fits 12 (dval d)"
  using of_int_abs_less [of "dec_coef d" 12]
  by (intro fitsI [of _ "dec_coef d" "dec_exp d"]) (simp_all add: dval_def column_decimal_def pow10_nat)

lemma column_decimal_abs:
  assumes "column_decimal d"
  shows "\<bar>dval d\<bar> < 10 ^ 12"
proof -
  have "pow10 (dec_exp d) \<le> 1"
    using assms pow10_le_iff [of "dec_exp d" 0] by (simp add: column_decimal_def)
  then have "\<bar>dval d\<bar> \<le> of_int \<bar>dec_coef d\<bar> * 1"
    unfolding dval_def abs_mult abs_pow10 of_int_abs by (intro mult_left_mono) simp_all
  also have "\<dots> < of_int (10 ^ 12)"
    using assms by (simp only: column_decimal_def mult_1_right of_int_less_iff)
  finally show ?thesis by simp
qed

lemma column_money_fits: "column_money n \<Longrightarrow> fits 19 (of_int n)"
  using fits_of_int [of n 19] by (simp add: column_money_def)

lemma column_money_abs: "column_money n \<Longrightarrow> \<bar>of_int n :: rat\<bar> < 10 ^ 19"
  unfolding column_money_def by (rule of_int_abs_less)

lemma percent_of_exact:
  assumes price: "column_money price" and pct: "column_decimal percent"
  shows "percent_of price percent = Inr (rhe (of_int price * dval percent / 100))"
proof -
  let ?x = "of_int price * dval percent"
  have "fits (19 + 12) ?x"
    by (rule fits_mult [OF column_money_fits [OF price] column_decimal_fits [OF pct]])
  then have f: "fits 50 ?x" by (rule fits_mono) simp
  have m: "dval (dec_mul 50 (dec_of_int price) percent) = ?x"
    using f by (subst dec_mul_exact) simp_all
  have "\<exists>r. dec_div 50 (dec_mul 50 (dec_of_int price) percent) (dec_of_int 100) = Inr r
      \<and> dval r = dval (dec_mul 50 (dec_of_int price) percent) / dval (dec_of_int 100)"
    by (rule dec_div_exact) (simp_all add: m fits_hundred [OF f], simp add: dec_of_int_def)
  then obtain r where r: "dec_div 50 (dec_mul 50 (dec_of_int price) percent) (dec_of_int 100) = Inr r"
      "dval r = ?x / 100"
    by (auto simp: m)
  have "\<bar>?x\<bar> \<le> 10 ^ 19 * 10 ^ 12"
    unfolding abs_mult
    using column_money_abs [OF price] column_decimal_abs [OF pct]
    by (intro mult_mono) simp_all
  then have "\<bar>dval r\<bar> < pow10 (50 + 0 - 1)" by (simp add: r(2) pow10_def abs_divide)
  from dec_quantize_total [OF this] r show ?thesis by (simp add: percent_of_def)
qed

text \<open>A money amount divided by a decimal of at most 14 fractional digits, then quantized.\<close>

lemma money_division:
  fixes c :: int
  assumes b: "c \<noteq> 0" "dval b = of_int c / 10 ^ 14"
    and a: "column_money a" and k: "0 \<le> k" "k \<le> 4"
  shows "rbind (dec_div 50 (dec_of_int a) b) (\<lambda>raw. dec_quantize 50 raw (- k))
           = Inr (Dec (rhe (of_int a / dval b * 10 ^ nat k)) (- k))"
proof -
  have pk: "of_int a / dval b / pow10 (- k) = of_int a / dval b * 10 ^ nat k"
    using k pow10_diff [of 0 k] by (simp add: pow10_nat)
  define N where "N = sgn c * (a * 10 ^ 14 * 10 ^ nat k)"
  have y: "of_int a / dval b * 10 ^ nat k = of_int N / of_int \<bar>c\<bar>"
    using b(1) by (simp add: b(2) N_def sgn_if)
  have "\<bar>N\<bar> = \<bar>a\<bar> * 10 ^ 14 * 10 ^ nat k" using b(1) by (simp add: N_def abs_mult abs_sgn_eq)
  also have "\<dots> \<le> 10 ^ 19 * 10 ^ 14 * 10 ^ 4"
    using a k by (intro mult_mono power_increasing) (auto simp: column_money_def)
  finally have "2 * \<bar>N\<bar> < 10 ^ 48" by simp
  then have "of_int (2 * \<bar>N\<bar>) < (of_int (10 ^ 48) :: rat)" by (simp only: of_int_less_iff)
  then have small: "of_int (2 * \<bar>N\<bar>) < pow10 (50 - 2)" by (simp add: pow10_def)
  have b0: "dec_coef b \<noteq> 0"
  proof
    assume "dec_coef b = 0"
    then have "dval b = 0" by simp
    with b show False by simp
  qed
  from div_quantize_exact [OF b0 _ _ _ small, of "\<bar>c\<bar>" "dec_of_int a" "- k"] b(1)
  show ?thesis unfolding dval_of_int pk y by simp
qed

lemma column_decimal_units:
  assumes "column_decimal d" "k \<ge> 6"
  shows "dval d = of_int (dec_coef d * 10 ^ nat (int k + dec_exp d)) / 10 ^ k"
proof -
  have "pow10 (int k + dec_exp d) = pow10 (dec_exp d) * 10 ^ k"
    by (simp add: pow10_add pow10_nat)
  moreover have "(10 :: rat) ^ nat (int k + dec_exp d) = pow10 (int k + dec_exp d)"
    using assms by (simp add: column_decimal_def pow10_nat)
  ultimately show ?thesis by (simp add: dval_def)
qed

lemma cost_rate_exact:
  assumes money: "column_money n" and cols: "column_decimal h" "column_decimal u"
    and pos: "0 < dval h" "0 < dval u"
  defines "k \<equiv> rhe (of_int n / (dval h * dval u / 100 * 60) * 10 ^ 4)"
  shows "cost_rate n h u =
    (if k = 0 then Inl (ValidationError ''ITEM_COST_RATE_UNDERFLOW: quantized cost per worker-minute is zero'')
     else Inr (Dec k (- 4)))"
proof -
  let ?hu = "dec_mul 50 h u"
  have "fits (12 + 12) (dval h * dval u)" by (intro fits_mult column_decimal_fits cols)
  then have f24: "fits 24 (dval h * dval u)" by simp
  have f: "fits 50 (dval h * dval u)" by (rule fits_mono [OF f24]) simp
  then have m: "dval ?hu = dval h * dval u" by (rule dec_mul_exact)
  have "\<exists>r. dec_div 50 ?hu (dec_of_int 100) = Inr r \<and> dval r = dval ?hu / dval (dec_of_int 100)"
    by (rule dec_div_exact) (simp_all add: m fits_hundred [OF f], simp add: dec_of_int_def)
  then obtain q where q: "dec_div 50 ?hu (dec_of_int 100) = Inr q" "dval q = dval h * dval u / 100"
    by (auto simp: m)
  have "fits (24 + 2) (dval h * dval u / 100 * of_int 60)"
    using fits_of_int [of 60 2] by (intro fits_mult fits_hundred f24) simp
  then have "fits 50 (dval q * dval (dec_of_int 60))"
    unfolding q dval_of_int by (rule fits_mono) simp
  then have d: "dval (dec_mul 50 q (dec_of_int 60)) = dval h * dval u / 100 * 60"
    by (subst dec_mul_exact) (simp_all add: q)
  define c where "c = dec_coef h * 10 ^ nat (6 + dec_exp h) * (dec_coef u * 10 ^ nat (6 + dec_exp u)) * 60"
  have hu: "dval h = of_int (dec_coef h * 10 ^ nat (6 + dec_exp h)) / 10 ^ 6"
    "dval u = of_int (dec_coef u * 10 ^ nat (6 + dec_exp u)) / 10 ^ 6"
    using column_decimal_units [OF cols(1), of 6] column_decimal_units [OF cols(2), of 6] by simp_all
  have "dval (dec_mul 50 q (dec_of_int 60)) = of_int c / 10 ^ 14"
    unfolding d hu by (simp add: c_def)
  moreover have "c \<noteq> 0"
  proof -
    have "dval h \<noteq> 0" "dval u \<noteq> 0" using pos by (metis less_irrefl)+
    then show ?thesis by (simp add: c_def)
  qed
  ultimately have "rbind (dec_div 50 (dec_of_int n) (dec_mul 50 q (dec_of_int 60))) (\<lambda>raw. dec_quantize 50 raw (- 4))
      = Inr (Dec k (- 4))"
    using money_division [of c "dec_mul 50 q (dec_of_int 60)" n 4] money unfolding d k_def by simp
  then obtain raw where "dec_div 50 (dec_of_int n) (dec_mul 50 q (dec_of_int 60)) = Inr raw"
      "dec_quantize 50 raw (- 4) = Inr (Dec k (- 4))"
    by auto
  then show ?thesis by (simp add: cost_rate_def q(1) dec_eq_def dval_Dec rguard_def)
qed

section \<open>Properties of the formulas\<close>

text \<open>the production budget is the smaller of the residual (price minus all terms) and a
  quarter of the price rounded half to even, whatever the terms; it can be negative, and never
  exceeds the cap.\<close>

lemma production_budget_capped_residual:
  assumes "column_money price"
  shows "calculate_production_budget (VInt price) (map VInt amounts)
    = Inr (min (price - sum_list amounts) (rhe (of_int price / 4)))"
proof -
  have "column_decimal PRODUCTION_BUDGET_CAP_PERCENT"
    by (simp add: PRODUCTION_BUDGET_CAP_PERCENT_def column_decimal_def)
  from percent_of_exact [OF assms this] show ?thesis
    by (simp add: calculate_production_budget_def PRODUCTION_BUDGET_CAP_PERCENT_def dval_Dec)
qed

lemma production_budget_capped_residual_witness:
  "column_money 9999 \<and>
   calculate_production_budget (VInt 9999) (map VInt [2500, 1000]) = Inr (min 6499 (rhe (9999 / 4)))"
  using production_budget_capped_residual [of 9999 "[2500, 1000]"] by (simp add: column_money_def)

text \<open>a term of a valid shape costs, by its type, the percentage of the expected price rounded
  half to even, its fixed amount, or the item's purchase cost; a percentage term of any column value
  is computed exactly.\<close>

lemma term_amount_functional:
  assumes "column_money price" "column_decimal pct" "0 \<le> dval pct" "0 \<le> fixed"
  shows "calculate_term_amount (VTermType PERCENTAGE_OF_EXPECTED_SALE_PRICE) (VInt price) (VDec pct) VNone purchase
           = Inr (rhe (of_int price * dval pct / 100))
    \<and> calculate_term_amount (VTermType FIXED_AMOUNT) (VInt price) VNone (VInt fixed) purchase = Inr fixed
    \<and> calculate_term_amount (VTermType ITEM_PURCHASE_COST) (VInt price) VNone VNone (VInt cost) = Inr cost
    \<and> calculate_term_amount (VTermType ITEM_PURCHASE_COST) (VInt price) VNone VNone VNone
           = Inl (ValidationError ''ITEM_COST_PURCHASE_COST_REQUIRED: purchase_cost_minor is required'')"
  using assms percent_of_exact [OF assms(1,2)]
  by (simp add: calculate_term_amount_def require_term_type_def term_shape_def
      calculate_percentage_term_amount_def dec_less_def dval_Dec require_money_def guard_int_def)

lemma term_amount_functional_witness:
  "calculate_term_amount (VTermType PERCENTAGE_OF_EXPECTED_SALE_PRICE) (VInt 1990) (VDec (Dec 225 (- 1))) VNone VNone
     = Inr (rhe (1990 * dval (Dec 225 (- 1)) / 100))"
  using term_amount_functional [of 1990 "Dec 225 (- 1)" 0 VNone]
  by (simp add: column_money_def column_decimal_def dval_Dec)

text \<open>the persisted cost per worker-minute is the exact quotient
  \<open>cost / (hours * utilization / 100 * 60)\<close> rounded half to even at four decimals, and a rate that
  rounds to zero is refused: the three 50-digit intermediate roundings are never visible.\<close>

lemma cost_per_worker_minute_exact:
  assumes "column_money n" "column_decimal h" "column_decimal u" "0 < dval h" "0 < dval u"
  shows "calculate_cost_per_worker_minute (VInt n) (VDec h) (VDec u) =
    (let k = rhe (of_int n / (dval h * dval u / 100 * 60) * 10 ^ 4)
     in if k = 0
        then Inl (ValidationError ''ITEM_COST_RATE_UNDERFLOW: quantized cost per worker-minute is zero'')
        else Inr (Dec k (- 4)))"
  using cost_rate_exact [OF assms] by (simp add: calculate_cost_per_worker_minute_def Let_def)

lemma cost_per_worker_minute_exact_witness:
  "calculate_cost_per_worker_minute (VInt 10000000) (VDec (Dec 16000 (- 2))) (VDec (Dec 8000 (- 2))) =
    (let k = rhe (10000000 / (dval (Dec 16000 (- 2)) * dval (Dec 8000 (- 2)) / 100 * 60) * 10 ^ 4)
     in if k = 0
        then Inl (ValidationError ''ITEM_COST_RATE_UNDERFLOW: quantized cost per worker-minute is zero'')
        else Inr (Dec k (- 4)))"
  using cost_per_worker_minute_exact [of 10000000 "Dec 16000 (- 2)" "Dec 8000 (- 2)"]
  by (simp add: column_money_def column_decimal_def dval_Dec)

lemma allowed_minutes_exact:
  assumes "column_money budget" "column_decimal rate" "dval rate \<noteq> 0"
  shows "calculate_allowed_worker_minutes (VInt budget) (VDec rate)
    = Inr (Dec (rhe (of_int budget / dval rate * 100)) (- 2))"
proof -
  have c: "dec_coef rate * 10 ^ nat (14 + dec_exp rate) \<noteq> 0" using assms(3) by simp
  have "dval rate = of_int (dec_coef rate * 10 ^ nat (14 + dec_exp rate)) / 10 ^ 14"
    using column_decimal_units [OF assms(2), of 14] by simp
  from money_division [OF c this assms(1), of 2] assms(3) show ?thesis
    by (simp add: calculate_allowed_worker_minutes_def dec_eq_def dval_Dec)
qed

text \<open>the allowance in minutes is the budget over the persisted rate, rounded half to even at
  two decimals, for every sign of the budget.\<close>

lemma allowed_worker_minutes_exact:
  assumes "column_money budget" "column_decimal rate" "dval rate \<noteq> 0"
  shows "calculate_allowed_worker_minutes (VInt budget) (VDec rate)
    = Inr (Dec (rhe (of_int budget / dval rate * 100)) (- 2))"
  using assms by (rule allowed_minutes_exact)

lemma allowed_worker_minutes_exact_witness:
  "calculate_allowed_worker_minutes (VInt (- 1250)) (VDec (Dec 130208 (- 4)))
    = Inr (Dec (rhe (- 1250 / dval (Dec 130208 (- 4)) * 100)) (- 2))"
  using allowed_worker_minutes_exact [of "- 1250" "Dec 130208 (- 4)"]
  by (simp add: column_money_def column_decimal_def dval_Dec)

subsection \<open>Consumed cost\<close>

lemma abs_diff_trans:
  fixes x y z a b c :: rat
  shows "\<bar>x - y\<bar> \<le> a \<Longrightarrow> \<bar>y - z\<bar> \<le> b \<Longrightarrow> a + b \<le> c \<Longrightarrow> \<bar>x - z\<bar> \<le> c"
  by linarith

text \<open>\<open>seconds / 60\<close> is rounded to 50 digits before it is multiplied by the rate, so the cost is
  round-half-even of a value within a few units of the 48th digit of the exact one.\<close>

lemma consumed_raw_error:
  assumes s: "column_money s" and r: "column_decimal rate"
  shows "\<exists>m. dec_div 50 (dec_of_int s) (dec_of_int 60) = Inr m
    \<and> \<bar>dval (dec_mul 50 m rate) - of_int s * dval rate / 60\<bar> \<le> 1 / 10 ^ 15
    \<and> (3 dvd s \<longrightarrow> dval (dec_mul 50 m rate) = of_int s * dval rate / 60)"
proof -
  let ?x = "of_int s * dval rate / 60 :: rat"
  obtain m where m: "dec_div 50 (dec_of_int s) (dec_of_int 60) = Inr m"
      "\<bar>dval m - of_int s / 60\<bar> \<le> \<bar>of_int s / 60\<bar> * pow10 (1 - 50)"
    using dec_div_error [of "dec_of_int 60" 50 "dec_of_int s"] by (auto simp: dec_of_int_def dval_Dec)
  have sl: "\<bar>of_int s / 60 :: rat\<bar> \<le> 10 ^ 18"
    using column_money_abs [OF s] by (simp add: abs_divide)
  have rl: "\<bar>dval rate\<bar> \<le> 10 ^ 12" using column_decimal_abs [OF r] by simp
  have p49: "pow10 (1 - 50) = 1 / 10 ^ 49" by (simp add: pow10_def)
  have "\<bar>of_int s / 60 :: rat\<bar> * (1 / 10 ^ 49) \<le> 10 ^ 18 * (1 / 10 ^ 49)"
    using sl by (rule mult_right_mono) simp
  with m(2) have dm: "\<bar>dval m - of_int s / 60\<bar> \<le> 1 / 10 ^ 31" unfolding p49 by simp
  have "\<bar>dval m\<bar> \<le> 10 ^ 18 + 1 / 10 ^ 31" using sl dm by linarith
  then have ml: "\<bar>dval m\<bar> \<le> 2 * 10 ^ 18" by simp
  have prod: "\<bar>dval m * dval rate\<bar> \<le> 2 * 10 ^ 18 * 10 ^ 12"
    unfolding abs_mult using ml rl by (intro mult_mono) simp_all
  have "\<bar>dval m * dval rate\<bar> * pow10 (1 - 50) / 2 \<le> (2 * 10 ^ 18 * 10 ^ 12) * pow10 (1 - 50) / 2"
    using prod by (intro divide_right_mono mult_right_mono) simp_all
  with dec_mul_error [of 50 m rate]
  have e1: "\<bar>dval (dec_mul 50 m rate) - dval m * dval rate\<bar> \<le> 1 / 10 ^ 19" unfolding p49 by simp
  have "\<bar>(dval m - of_int s / 60) * dval rate\<bar> \<le> 1 / 10 ^ 31 * 10 ^ 12"
    unfolding abs_mult using dm rl by (intro mult_mono) simp_all
  then have e2: "\<bar>dval m * dval rate - ?x\<bar> \<le> 1 / 10 ^ 19" by (simp add: algebra_simps)
  have "\<bar>dval (dec_mul 50 m rate) - ?x\<bar> \<le> 1 / 10 ^ 15"
    by (rule abs_diff_trans [OF e1 e2]) simp
  moreover have "dval (dec_mul 50 m rate) = ?x" if "3 dvd s"
  proof -
    from that obtain t where t: "s = 3 * t" by (elim dvdE)
    have "\<bar>5 * t\<bar> < 10 ^ 20" using s by (simp add: t column_money_def abs_mult)
    then have "fits 20 (of_int (5 * t))" using fits_of_int [of "5 * t" 20] by simp
    then have f: "fits 20 (of_int s / 60)" using fits_shift [of 20 "of_int (5 * t)" 2] by (simp add: t pow10_def)
    then have "fits 50 (of_int s / 60)" by (rule fits_mono) simp
    then have mv: "dval m = of_int s / 60"
      using dec_div_exact [of "dec_of_int 60" 50 "dec_of_int s"] m(1) by (auto simp: dec_of_int_def dval_Dec)
    have "fits (20 + 12) (of_int s / 60 * dval rate)"
      by (rule fits_mult [OF f column_decimal_fits [OF r]])
    then have "fits 50 (dval m * dval rate)" unfolding mv by (rule fits_mono) simp
    from dec_mul_exact [OF this] show ?thesis by (simp add: mv)
  qed
  ultimately show ?thesis using m(1) by blast
qed

lemma consumed_cost_eq:
  assumes s: "column_money s" and r: "column_decimal rate"
    and m: "dec_div 50 (dec_of_int s) (dec_of_int 60) = Inr m"
    and near: "\<bar>dval (dec_mul 50 m rate) - of_int s * dval rate / 60\<bar> \<le> 1 / 10 ^ 15"
  shows "calculate_consumed_cost_minor (VInt s) (VDec rate) = Inr (rhe (dval (dec_mul 50 m rate)))"
proof -
  have "\<bar>of_int s * dval rate\<bar> \<le> 10 ^ 19 * 10 ^ 12"
    unfolding abs_mult using column_money_abs [OF s] column_decimal_abs [OF r] by (intro mult_mono) simp_all
  then have "\<bar>of_int s * dval rate / 60\<bar> \<le> 10 ^ 31" by (simp add: abs_divide)
  with near have "\<bar>dval (dec_mul 50 m rate)\<bar> \<le> 10 ^ 31 + 1 / 10 ^ 15" by linarith
  then have "\<bar>dval (dec_mul 50 m rate)\<bar> < pow10 (50 + 0 - 1)" by (simp add: pow10_def)
  from dec_quantize_total [OF this] show ?thesis by (simp add: calculate_consumed_cost_minor_def m)
qed

lemma consumed_cost_total:
  "column_money s \<Longrightarrow> column_decimal rate \<Longrightarrow>
   \<exists>c. calculate_consumed_cost_minor (VInt s) (VDec rate) = Inr c"
  using consumed_raw_error [of s rate] consumed_cost_eq [of s rate] by blast

text \<open>the consumed cost of \<open>s\<close> worker seconds is \<open>s * rate / 60\<close> rounded half to even unless
  that value is an exact tie; when \<open>s\<close> is a multiple of three seconds it is so on ties too; on a tie it
  is one of the two nearest integers.\<close>

lemma consumed_cost_rounding:
  assumes "column_money s" "column_decimal rate"
  shows "\<exists>c. calculate_consumed_cost_minor (VInt s) (VDec rate) = Inr c
    \<and> \<bar>of_int c - of_int s * dval rate / 60\<bar> < 51 / 100
    \<and> (\<bar>of_int c - of_int s * dval rate / 60\<bar> \<noteq> 1 / 2 \<or> 3 dvd s \<longrightarrow> c = rhe (of_int s * dval rate / 60))"
proof -
  let ?x = "of_int s * dval rate / 60 :: rat"
  obtain m where m: "dec_div 50 (dec_of_int s) (dec_of_int 60) = Inr m"
      "\<bar>dval (dec_mul 50 m rate) - ?x\<bar> \<le> 1 / 10 ^ 15"
      "3 dvd s \<longrightarrow> dval (dec_mul 50 m rate) = ?x"
    using consumed_raw_error [OF assms] by blast
  define z where "z = dval (dec_mul 50 m rate)"
  note cost = consumed_cost_eq [OF assms m(1,2), folded z_def]
  have near: "\<bar>of_int (rhe z) - ?x\<bar> \<le> 1 / 2 + 1 / 10 ^ 15"
    using rhe_near [of z] m(2) unfolding z_def by linarith
  have units: "?x = of_int (s * (dec_coef rate * 10 ^ nat (6 + dec_exp rate))) / of_int (60 * 10 ^ 6)"
    using column_decimal_units [OF assms(2), of 6] by simp
  have "rhe z = rhe ?x" if ne: "\<bar>of_int (rhe z) - ?x\<bar> \<noteq> 1 / 2"
    by (rule rhe_perturbed_off_tie [OF _ units _ ne]) (use m(2) in \<open>simp_all add: z_def\<close>)
  moreover have "rhe z = rhe ?x" if "3 dvd s" using mp [OF m(3) that] by (simp only: z_def)
  moreover have "\<bar>of_int (rhe z) - ?x\<bar> < 51 / 100" using near by (rule le_less_trans) simp
  ultimately show ?thesis using cost by blast
qed

lemma consumed_cost_rounding_witness:
  "\<exists>c. calculate_consumed_cost_minor (VInt 5400) (VDec (Dec 130208 (- 4))) = Inr c
    \<and> \<bar>of_int c - 5400 * dval (Dec 130208 (- 4)) / 60\<bar> < 51 / 100
    \<and> c = rhe (5400 * dval (Dec 130208 (- 4)) / 60)"
  using consumed_cost_rounding [of 5400 "Dec 130208 (- 4)"]
  by (auto simp: column_money_def column_decimal_def)

text \<open>On a tie the pre-rounded quotient can land on the wrong side: ten seconds at a rate of 3.0000
  per minute cost exactly half a minor unit, and are charged as 1, not 0.\<close>

lemma sixth_of_ten_seconds:
  "dec_div 50 (Dec 10 0) (Dec 60 0) = Inr (Dec 16666666666666666666666666666666666666666666666667 (- 50))"
  using ndigits_eqI [of 50 166666666666666666666666666666666666666666666666666]
    ndigits_eqI [of 49 16666666666666666666666666666666666666666666666667]
    ndigits_eqI [of 1 10] ndigits_eqI [of 1 60]
  by (simp add: dec_div_def div_num_def div_den_def dec_fix_def round_coef_def rhe_div_def)

lemma sixth_times_three:
  "dec_mul 50 (Dec 16666666666666666666666666666666666666666666666667 (- 50)) (Dec 30000 (- 4))
     = Dec 50000000000000000000000000000000000000000000000001 (- 50)"
  using ndigits_eqI [of 53 500000000000000000000000000000000000000000000000010000]
    ndigits_eqI [of 49 50000000000000000000000000000000000000000000000001]
  by (simp add: dec_mul_def dec_fix_def round_coef_def rhe_div_def)

text \<open>the rounding mode of the consumed cost is not honoured on every tie: 10 seconds at a rate
  of exactly 3.0000 per minute cost half a minor unit, which half-even rounds to 0; the code charges 1.\<close>

lemma consumed_cost_tie_misrounded:
  "calculate_consumed_cost_minor (VInt 10) (VDec (Dec 30000 (- 4))) = Inr 1
   \<and> of_int 10 * dval (Dec 30000 (- 4)) / 60 = 1 / 2 \<and> rhe (1 / 2) = 0"
  using rhe_unique_tie [of 0 "1 / 2"] ndigits_eqI [of 49 50000000000000000000000000000000000000000000000001] ndigits_eqI [of 0 1]
  by (simp add: calculate_consumed_cost_minor_def dec_of_int_def sixth_of_ten_seconds sixth_times_three
      dec_quantize_def dec_rescale_def round_coef_def rhe_div_def dval_Dec pow10_def)

section \<open>Properties of re-derivation\<close>

lemma rederive_rate_Inr:
  "rederive_rate ev = Inr (rate, stored) \<longleftrightarrow>
     calculate_cost_per_worker_minute (ev_fixed_monthly_cost_minor_snapshot ev)
       (ev_monthly_paid_hours_snapshot ev) (ev_planning_utilization_percent_snapshot ev) = Inr rate
     \<and> ev_cost_per_worker_minute_minor_snapshot ev = VDec stored"
  by (auto simp: rederive_rate_def guards_Inr)

lemma rederive_budget_Inr:
  "rederive_budget ev price amounts = Inr (b, stored) \<longleftrightarrow>
     calculate_production_budget (VInt price) (map VInt amounts) = Inr b
     \<and> ev_production_budget_minor ev = VInt stored"
  by (auto simp: rederive_budget_def guards_Inr)

lemma compare_amounts_Inl: "compare_amounts ms rs as = Inl m \<Longrightarrow> \<exists>l. m = RederiveMismatch l"
  by (induction ms rs as rule: compare_amounts.induct) (auto simp: marker_def split: sum.splits)

lemma compare_amounts_Nil:
  "length rs = length as \<Longrightarrow>
   compare_amounts ms rs as = Inr [] \<longleftrightarrow> ms = [] \<and> map t_amount_minor rs = map VInt as"
proof (induction ms rs as rule: compare_amounts.induct)
  case (1 ms r rs a as)
  then show ?case
    by (auto simp: guards_Inr value_mismatch_def split: sum.splits)
qed auto

lemma term_amounts_length:
  "calculate_term_amounts rows price purchase = Inr as \<Longrightarrow> length as = length rows"
  by (auto simp: calculate_term_amounts_def dest: rmap_Inr_length)

lemma rederive_allowed_Rederived:
  "rederive_allowed ev ms rate stored b = Rederived r b' a \<longleftrightarrow>
     ms = [] \<and> r = rate \<and> b' = b \<and> dec_eq rate stored
     \<and> calculate_allowed_worker_minutes (VInt b) (VDec stored) = Inr a
     \<and> (\<exists>sa. ev_allowed_worker_minutes ev = VDec sa \<and> dec_eq a sa)"
  by (auto simp: rederive_allowed_def guards_Inr marker_def value_mismatch_def Let_def split: sum.splits)

text \<open>The snapshot agrees with the formulas: every stored derived value is the one they compute.\<close>

definition snapshot_consistent ::
  "evaluation_snapshot \<Rightarrow> term_snapshot list \<Rightarrow> decimal \<Rightarrow> int \<Rightarrow> decimal \<Rightarrow> bool" where
  "snapshot_consistent ev rows rate budget allowed \<longleftrightarrow>
     (\<exists>stored_rate stored_allowed price amounts.
        ev_calculation_version ev = VInt CALCULATION_VERSION
      \<and> calculate_cost_per_worker_minute (ev_fixed_monthly_cost_minor_snapshot ev)
          (ev_monthly_paid_hours_snapshot ev) (ev_planning_utilization_percent_snapshot ev) = Inr rate
      \<and> ev_cost_per_worker_minute_minor_snapshot ev = VDec stored_rate \<and> dec_eq rate stored_rate
      \<and> ev_expected_sale_price_minor ev = VInt price
      \<and> calculate_term_amounts rows (VInt price) (ev_purchase_cost_minor ev) = Inr amounts
      \<and> map t_amount_minor rows = map VInt amounts
      \<and> calculate_production_budget (VInt price) (map VInt amounts) = Inr budget
      \<and> ev_production_budget_minor ev = VInt budget
      \<and> calculate_allowed_worker_minutes (VInt budget) (VDec stored_rate) = Inr allowed
      \<and> ev_allowed_worker_minutes ev = VDec stored_allowed \<and> dec_eq allowed stored_allowed)"

text \<open>C12: re-derivation returns the three derived values exactly for the snapshots of the current
  version whose every stored value (rate, each term amount, budget, allowance) agrees with the
  formulas; any other snapshot of this version yields a mismatch marker, never a silent success.\<close>

theorem rederive_accepts_iff_consistent:
  "rederive ev rows = Rederived rate budget allowed \<longleftrightarrow> snapshot_consistent ev rows rate budget allowed"
proof
  assume "rederive ev rows = Rederived rate budget allowed"
  then show "snapshot_consistent ev rows rate budget allowed"
    unfolding rederive_def snapshot_consistent_def
    by (auto simp: guards_Inr marker_def rederive_rate_Inr rederive_budget_Inr rederive_allowed_Rederived
        value_mismatch_def compare_amounts_Nil term_amounts_length Let_def
        dest!: compare_amounts_Inl split: sum.splits if_splits)
next
  assume "snapshot_consistent ev rows rate budget allowed"
  then obtain stored_rate stored_allowed price amounts where c:
      "ev_calculation_version ev = VInt CALCULATION_VERSION"
      "rederive_rate ev = Inr (rate, stored_rate)" "dec_eq rate stored_rate"
      "ev_expected_sale_price_minor ev = VInt price"
      "calculate_term_amounts rows (VInt price) (ev_purchase_cost_minor ev) = Inr amounts"
      "map t_amount_minor rows = map VInt amounts"
      "rederive_budget ev price amounts = Inr (budget, budget)"
      "calculate_allowed_worker_minutes (VInt budget) (VDec stored_rate) = Inr allowed"
      "ev_allowed_worker_minutes ev = VDec stored_allowed" "dec_eq allowed stored_allowed"
    unfolding snapshot_consistent_def rederive_rate_Inr rederive_budget_Inr by blast
  moreover have "compare_amounts [] rows amounts = Inr []"
    using c(6) term_amounts_length [OF c(5)] by (simp add: compare_amounts_Nil)
  moreover have "rederive_allowed ev [] rate stored_rate budget = Rederived rate budget allowed"
    using c by (simp add: rederive_allowed_Rederived)
  ultimately show "rederive ev rows = Rederived rate budget allowed"
    by (simp add: rederive_def guard_int_def value_mismatch_def)
qed

text \<open>the three-way currency check passes exactly when the valuation, the cost basis and the cost
  model are in one currency.\<close>

lemma currency_equality_iff:
  "is_ok (validate_currency_equality (VCurrency v) (VCurrency b) (VCurrency m)) \<longleftrightarrow> v = b \<and> b = m"
  by (auto simp: validate_currency_equality_def require_currency_def currency_mismatches_def Let_def)

text \<open>C16: the variance stored at settlement is enough to recover the allowance it was computed
  against: \<open>reconstruct_allowed_worker_minutes\<close> inverts \<open>calculate_variance_worker_minutes\<close>.\<close>

theorem reconstruct_variance_roundtrip:
  assumes "column_decimal allowed" "column_decimal actual"
  shows "\<exists>v r. calculate_variance_worker_minutes (VDec allowed) (VDec actual) = Inr v
    \<and> dval v = dval allowed - dval actual
    \<and> reconstruct_allowed_worker_minutes (VDec actual) (VDec v) = Inr r \<and> dec_eq r allowed"
proof -
  let ?c = "\<lambda>d. dec_coef d * 10 ^ nat (6 + dec_exp d)"
  have u: "dval allowed = of_int (?c allowed) / 10 ^ 6" "dval actual = of_int (?c actual) / 10 ^ 6"
    using column_decimal_units [of allowed 6] column_decimal_units [of actual 6] assms by simp_all
  have "\<bar>?c d\<bar> \<le> 10 ^ 12 * 10 ^ 6" if "column_decimal d" for d
    using that power_increasing [of "nat (6 + dec_exp d)" 6 "10 :: int"]
    unfolding abs_mult by (intro mult_mono) (auto simp: column_decimal_def)
  from add_mono [OF this [OF assms(1)] this [OF assms(2)]]
  have "\<bar>?c allowed - ?c actual\<bar> < 10 ^ 19"
    by (intro le_less_trans [OF abs_triangle_ineq4]) (rule le_less_trans, assumption, simp)
  then have "fits 19 (of_int (?c allowed - ?c actual) / pow10 6)"
    using fits_of_int [of "?c allowed - ?c actual" 19] by (intro fits_shift) simp
  then have "fits 50 (of_int (?c allowed - ?c actual) / pow10 6)" by (rule fits_mono) simp
  then have f: "fits 50 (dval allowed - dval actual)"
    unfolding u by (simp add: pow10_def diff_divide_distrib)
  have g: "fits 50 (dval allowed)" using column_decimal_fits [OF assms(1)] by (rule fits_mono) simp
  show ?thesis
    using f g by (simp add: calculate_variance_worker_minutes_def calculate_remaining_worker_minutes_def
        reconstruct_allowed_worker_minutes_def dec_sub_exact dec_add_exact dec_eq_def)
qed

lemma reconstruct_variance_roundtrip_witness:
  "\<exists>v r. calculate_variance_worker_minutes (VDec (Dec 9600 (- 2))) (VDec (Dec 10125 (- 2))) = Inr v
    \<and> dval v = dval (Dec 9600 (- 2)) - dval (Dec 10125 (- 2))
    \<and> reconstruct_allowed_worker_minutes (VDec (Dec 10125 (- 2))) (VDec v) = Inr r \<and> dec_eq r (Dec 9600 (- 2))"
  by (rule reconstruct_variance_roundtrip) (simp_all add: column_decimal_def)

end
