(* ===== verification/PriceScenario.thy ===== *)
theory PriceScenario
  imports Calculator
begin

text \<open>
  \<open>domain/item_economics/price_scenario.py\<close>: the integer model behind the expected-price slider.
  Cost terms collapse into an affine function of the price, capped by a percentage; the allowance in
  seconds is a chain of three half-even roundings of it; the break-even price and the largest
  infeasible price are found by doubling and bisection; the slider's domain is a range of steps
  around the break-even price.

  The interface \<open>monotone_threshold\<close> states what the search needs of the function it inverts: it is
  monotone on the prices. Its lemmas (the search terminates, returns the least price that reaches the
  target, or reports that none up to the cap does) are interpreted on the allowance of a price model.
\<close>

section \<open>Operations\<close>

definition SEARCH_CAP_MINOR :: int where
  "SEARCH_CAP_MINOR = 2 ^ 40"

record cost_model_term =
  ct_calculation_type :: cost_term_type
  ct_percent_value :: "decimal option"
  ct_fixed_amount_minor :: "int option"
  ct_is_deleted :: "bool option"

record price_model =
  residual_percent_milli :: int
  constant_deduction_minor :: int
  cost_per_worker_minute_ten_thousandths :: int
  budget_cap_percent_milli :: int

record slider_domain =
  sd_step_minor :: int
  sd_min_minor :: int
  sd_max_minor :: int

definition round_half_even :: "int \<Rightarrow> int \<Rightarrow> int result" where
  "round_half_even a b =
     (if b \<le> 0 then Inl (ValueError ''b must be positive'')
      else let quotient = a div b; remainder = a mod b; twice_remainder = 2 * remainder
           in if twice_remainder > b \<or> (twice_remainder = b \<and> quotient mod 2 \<noteq> 0)
              then Inr (quotient + 1) else Inr quotient)"

text \<open>One turn of the loop of \<open>collapse_terms\<close>; \<open>None\<close> is the early \<open>return None\<close>. The percentage is
  checked in the default decimal context of 28 digits.\<close>

definition collapse_step ::
  "int option \<Rightarrow> (int \<times> int) option \<Rightarrow> cost_model_term \<Rightarrow> (int \<times> int) option result" where
  "collapse_step purchase_cost acc t =
     (case acc of None \<Rightarrow> Inr None | Some (residual, deduction) \<Rightarrow>
      if ct_is_deleted t = Some True then Inr acc
      else case ct_calculation_type t of
        PERCENTAGE_OF_EXPECTED_SALE_PRICE \<Rightarrow>
          (case (ct_percent_value t, ct_fixed_amount_minor t) of
             (Some pct, None) \<Rightarrow>
               rbind (dec_quantize 28 pct (- 3))
               (\<lambda>q. rbind (rguard (dec_eq pct q) (shape_error (ct_calculation_type t) ''percent_value scale''))
               (\<lambda>_. Inr (Some (residual - dec_to_int (dec_scaleb 28 pct 3), deduction))))
           | _ \<Rightarrow> Inl (shape_error (ct_calculation_type t) ''percent_value/fixed_amount_minor''))
      | FIXED_AMOUNT \<Rightarrow>
          (case (ct_percent_value t, ct_fixed_amount_minor t) of
             (None, Some f) \<Rightarrow> Inr (Some (residual, deduction + f))
           | _ \<Rightarrow> Inl (shape_error (ct_calculation_type t) ''percent_value/fixed_amount_minor''))
      | ITEM_PURCHASE_COST \<Rightarrow>
          (case (ct_percent_value t, ct_fixed_amount_minor t) of
             (None, None) \<Rightarrow>
               (case purchase_cost of None \<Rightarrow> Inr None
                | Some c \<Rightarrow> Inr (Some (residual, deduction + c)))
           | _ \<Rightarrow> Inl (shape_error (ct_calculation_type t) ''percent_value/fixed_amount_minor'')))"

definition collapse_terms :: "cost_model_term list \<Rightarrow> int option \<Rightarrow> (int \<times> int) option result" where
  "collapse_terms terms purchase_cost_minor =
     rfold (collapse_step purchase_cost_minor) (Some (100000, 0)) terms"

definition budget_minor :: "int \<Rightarrow> price_model \<Rightarrow> int result" where
  "budget_minor price_minor model =
     rbind (round_half_even (price_minor * residual_percent_milli model) 100000)
     (\<lambda>r. rbind (round_half_even (price_minor * budget_cap_percent_milli model) 100000)
     (\<lambda>cap. Inr (min (r - constant_deduction_minor model) cap)))"

definition allowed_centimin :: "int \<Rightarrow> price_model \<Rightarrow> int result" where
  "allowed_centimin price_minor model =
     rbind (budget_minor price_minor model)
     (\<lambda>b. round_half_even (b * 1000000) (cost_per_worker_minute_ten_thousandths model))"

definition allowance_seconds :: "int \<Rightarrow> price_model \<Rightarrow> int result" where
  "allowance_seconds price_minor model =
     rbind (allowed_centimin price_minor model) (\<lambda>c. round_half_even (c * 3) 5)"

text \<open>The two loops of \<open>_least_price_for_seconds\<close> over the function they evaluate. The doubling loop
  starts at 1, so its bound is always a power of two: the loop variable is the exponent.\<close>

function double_high :: "(int \<Rightarrow> int result) \<Rightarrow> int \<Rightarrow> nat \<Rightarrow> int result" where
  "double_high f target k =
     (if 2 ^ k \<le> SEARCH_CAP_MINOR then
        rbind (f (2 ^ k)) (\<lambda>v. if v < target then double_high f target (Suc k) else Inr (2 ^ k))
      else Inr (2 ^ k))"
  by pat_completeness auto
termination
  by (relation "measure (\<lambda>(f, t, k). 41 - k)")
    (auto simp: SEARCH_CAP_MINOR_def power_increasing_iff [where b = "2 :: int", of _ 40, simplified])

function bisect :: "(int \<Rightarrow> int result) \<Rightarrow> int \<Rightarrow> int \<Rightarrow> int \<Rightarrow> int result" where
  "bisect f target low high =
     (if low + 1 < high then
        let middle = (low + high) div 2
        in rbind (f middle) (\<lambda>v. if v \<ge> target then bisect f target low middle
                                 else bisect f target middle high)
      else Inr high)"
  by pat_completeness auto
termination
  by (relation "measure (\<lambda>(f, t, low, high). nat (high - low))") auto

declare double_high.simps [simp del] bisect.simps [simp del]

definition least_reaching :: "(int \<Rightarrow> int result) \<Rightarrow> int \<Rightarrow> int option result" where
  "least_reaching f target =
     rbind (f 0) (\<lambda>v. if v \<ge> target then Inr (Some 0)
       else rbind (double_high f target 0)
            (\<lambda>high. if high > SEARCH_CAP_MINOR then Inr None
              else rbind (bisect f target 0 high) (\<lambda>p. Inr (Some p))))"

definition least_price_for_seconds :: "price_model \<Rightarrow> int \<Rightarrow> int option result" where
  "least_price_for_seconds model target_seconds =
     least_reaching (\<lambda>price. allowance_seconds price model) target_seconds"

definition break_even_price_minor :: "price_model \<Rightarrow> int \<Rightarrow> int option result" where
  "break_even_price_minor model typical_total_seconds =
     (if residual_percent_milli model \<le> 0 \<or> budget_cap_percent_milli model \<le> 0 \<or> typical_total_seconds = 0
      then Inr None
      else least_price_for_seconds model typical_total_seconds)"

definition infeasible_at_or_below_minor :: "price_model \<Rightarrow> int result" where
  "infeasible_at_or_below_minor model =
     rbind (least_price_for_seconds model 1)
     (\<lambda>p. Inr (case p of None \<Rightarrow> SEARCH_CAP_MINOR | Some least_feasible \<Rightarrow> least_feasible - 1))"

definition floor_to_step :: "rat \<Rightarrow> int \<Rightarrow> int result" where
  "floor_to_step v step =
     (if step \<le> 0 then Inl (ValueError ''step must be positive'') else Inr (\<lfloor>v / of_int step\<rfloor> * step))"

definition ceil_to_step :: "rat \<Rightarrow> int \<Rightarrow> int result" where
  "ceil_to_step v step =
     (if step \<le> 0 then Inl (ValueError ''step must be positive'') else Inr (- \<lfloor>(- v) / of_int step\<rfloor> * step))"

definition digits :: "int \<Rightarrow> int" where
  "digits v = (if v = 0 then 1 else ndigits \<bar>v\<bar>)"

definition two_significant_digits :: "int \<Rightarrow> int \<Rightarrow> int result" where
  "two_significant_digits a b =
     (if b \<le> 0 then Inl (ValueError ''b must be positive'')
      else let integer_part = a div b; scale = 10 ^ nat (max 0 (digits integer_part - 2))
           in rbind (round_half_even a (b * scale)) (\<lambda>r. Inr (max 1 (r * scale))))"

definition slider_domain :: "int option \<Rightarrow> int \<Rightarrow> int \<Rightarrow> slider_domain option result" where
  "slider_domain break_even_minor quantity infeasible_minor =
     (case break_even_minor of None \<Rightarrow> Inr None
      | Some break_even \<Rightarrow>
        let divisor = max 1 quantity in
        rbind (two_significant_digits break_even (80 * divisor))
        (\<lambda>step_per_piece. let step = divisor * step_per_piece;
             raw_low = of_int (35 * break_even) / 100;
             raw_high = of_int (135 * break_even) / 100 in
         rbind (floor_to_step raw_low step)
         (\<lambda>low. rbind (ceil_to_step (of_int (infeasible_minor + 1)) step)
         (\<lambda>feasible. rbind (ceil_to_step raw_high step)
         (\<lambda>high. if max low feasible \<ge> high then Inr None
           else Inr (Some \<lparr>sd_step_minor = step, sd_min_minor = max low feasible, sd_max_minor = high\<rparr>))))))"

section \<open>Searching a monotone function\<close>

text \<open>
  What the search relies on: on the models \<open>ok\<close> selects, evaluating succeeds and is monotone in the
  price. Everything the search promises follows from this alone.
\<close>

locale monotone_threshold =
  fixes ok :: "'m \<Rightarrow> bool"
    and eval :: "'m \<Rightarrow> int \<Rightarrow> int result"
    and val :: "'m \<Rightarrow> int \<Rightarrow> int"
  assumes eval_val: "ok m \<Longrightarrow> eval m x = Inr (val m x)"
    and val_mono: "ok m \<Longrightarrow> x \<le> y \<Longrightarrow> val m x \<le> val m y"
begin

lemma double_high_reaches:
  assumes ok: "ok m"
  shows "\<exists>h j. double_high (eval m) target k = Inr h \<and> k \<le> j \<and> h = 2 ^ j
    \<and> (h \<le> SEARCH_CAP_MINOR \<longrightarrow> target \<le> val m h)
    \<and> (h > SEARCH_CAP_MINOR \<longrightarrow> k \<le> 40 \<longrightarrow> val m SEARCH_CAP_MINOR < target)"
proof (induction "41 - k" arbitrary: k)
  case 0
  then have "(2 :: int) ^ 40 < 2 ^ k" by (intro power_strict_increasing) simp_all
  with 0 show ?case by (subst double_high.simps) (auto simp: SEARCH_CAP_MINOR_def)
next
  case (Suc n)
  then have k: "k \<le> 40" by simp
  then have le: "(2 :: int) ^ k \<le> SEARCH_CAP_MINOR"
    unfolding SEARCH_CAP_MINOR_def by (intro power_increasing) simp_all
  show ?case
  proof (cases "val m (2 ^ k) < target")
    case False
    then show ?thesis using le by (subst double_high.simps) (auto simp: eval_val [OF ok])
  next
    case True
    have unfold: "double_high (eval m) target k = double_high (eval m) target (Suc k)"
      using le True by (subst double_high.simps) (simp add: eval_val [OF ok])
    have last: "k = 40 \<Longrightarrow> val m SEARCH_CAP_MINOR < target" using True by (simp add: SEARCH_CAP_MINOR_def)
    from Suc(1) [of "Suc k"] Suc(2) show ?thesis
      unfolding unfold using last k by (metis Suc_leD diff_Suc_1' diff_Suc_Suc not_less_eq_eq le_antisym
          Suc_eq_plus1 Suc_diff_Suc Suc_inject diff_diff_left)
  qed
qed

lemma bisect_least:
  assumes ok: "ok m" and "val m low < target" "target \<le> val m high" "low < high"
  shows "\<exists>p. bisect (eval m) target low high = Inr p \<and> low < p \<and> p \<le> high
    \<and> target \<le> val m p \<and> val m (p - 1) < target"
  using assms(2-4)
proof (induction "nat (high - low)" arbitrary: low high rule: less_induct)
  case less
  show ?case
  proof (cases "low + 1 < high")
    case False
    with less.prems have "high - 1 = low" by simp
    with False less.prems show ?thesis by (subst bisect.simps) simp
  next
    case True
    define mid where "mid = (low + high) div 2"
    have mid: "low < mid" "mid < high" using True by (simp_all add: mid_def)
    show ?thesis
    proof (cases "val m mid \<ge> target")
      case reached: True
      obtain p where p: "bisect (eval m) target low mid = Inr p" "low < p" "p \<le> mid"
          "target \<le> val m p" "val m (p - 1) < target"
        using less.hyps [of mid low] less.prems(1) reached mid by auto
      have "bisect (eval m) target low high = Inr p"
        using True reached p(1) by (subst bisect.simps) (simp add: eval_val [OF ok] mid_def [symmetric])
      with p mid show ?thesis by auto
    next
      case below: False
      obtain p where p: "bisect (eval m) target mid high = Inr p" "mid < p" "p \<le> high"
          "target \<le> val m p" "val m (p - 1) < target"
        using less.hyps [of high mid] less.prems(2) below mid by auto
      have "bisect (eval m) target low high = Inr p"
        using True below p(1) by (subst bisect.simps) (simp add: eval_val [OF ok] mid_def [symmetric])
      with p mid show ?thesis by auto
    qed
  qed
qed

lemma least_reaching_total:
  assumes ok: "ok m"
  shows "\<exists>r. least_reaching (eval m) target = Inr r \<and>
    (case r of
       None \<Rightarrow> val m SEARCH_CAP_MINOR < target
     | Some p \<Rightarrow> 0 \<le> p \<and> p \<le> SEARCH_CAP_MINOR \<and> target \<le> val m p \<and> (0 < p \<longrightarrow> val m (p - 1) < target))"
proof (cases "val m 0 \<ge> target")
  case True
  then show ?thesis by (auto simp: least_reaching_def eval_val [OF ok] SEARCH_CAP_MINOR_def)
next
  case False
  obtain h j where h: "double_high (eval m) target 0 = Inr h" "h = 2 ^ j"
      "h \<le> SEARCH_CAP_MINOR \<longrightarrow> target \<le> val m h"
      "h > SEARCH_CAP_MINOR \<longrightarrow> val m SEARCH_CAP_MINOR < target"
    using double_high_reaches [OF ok, of target 0] by auto
  show ?thesis
  proof (cases "h > SEARCH_CAP_MINOR")
    case True
    with h False show ?thesis by (auto simp: least_reaching_def eval_val [OF ok])
  next
    case le: False
    with h(3) have "target \<le> val m h" by simp
    moreover have "0 < h" using h(2) by simp
    ultimately obtain p where "bisect (eval m) target 0 h = Inr p" "0 < p" "p \<le> h"
        "target \<le> val m p" "val m (p - 1) < target"
      using bisect_least [OF ok, of 0 target h] False by auto
    with h le False show ?thesis by (auto simp: least_reaching_def eval_val [OF ok])
  qed
qed

lemma least_reaching_Some:
  assumes ok: "ok m" and r: "least_reaching (eval m) target = Inr (Some p)" and q: "0 \<le> q"
  shows "target \<le> val m q \<longleftrightarrow> p \<le> q"
proof -
  from least_reaching_total [OF ok, of target] r
  have p: "0 \<le> p" "target \<le> val m p" "0 < p \<longrightarrow> val m (p - 1) < target" by auto
  show ?thesis
  proof
    assume reached: "target \<le> val m q"
    show "p \<le> q"
    proof (rule ccontr)
      assume "\<not> p \<le> q"
      then have "val m q \<le> val m (p - 1)" using val_mono [OF ok] by simp
      with p(3) reached q \<open>\<not> p \<le> q\<close> show False by auto
    qed
  next
    assume "p \<le> q"
    then show "target \<le> val m q" using p(2) val_mono [OF ok, of p q] by simp
  qed
qed

lemma least_reaching_None:
  assumes "ok m" "least_reaching (eval m) target = Inr None" "q \<le> SEARCH_CAP_MINOR"
  shows "val m q < target"
  using least_reaching_total [OF assms(1), of target] assms(2) val_mono [OF assms(1,3)] by auto

end

section \<open>The allowance of a price model\<close>

lemma round_half_even_pos: "0 < b \<Longrightarrow> round_half_even a b = Inr (rhe (of_int a / of_int b))"
  by (simp add: round_half_even_def rhe_div_def Let_def odd_iff_mod_2_eq_one flip: rhe_div_eq)

lemma round_half_even_le0: "b \<le> 0 \<Longrightarrow> round_half_even a b = Inl (ValueError ''b must be positive'')"
  by (simp add: round_half_even_def)

definition budget_value :: "price_model \<Rightarrow> int \<Rightarrow> int" where
  "budget_value m price =
     min (rhe (of_int (price * residual_percent_milli m) / 100000) - constant_deduction_minor m)
         (rhe (of_int (price * budget_cap_percent_milli m) / 100000))"

definition allowance_value :: "price_model \<Rightarrow> int \<Rightarrow> int" where
  "allowance_value m price =
     rhe (of_int (rhe (of_int (budget_value m price * 1000000)
       / of_int (cost_per_worker_minute_ten_thousandths m)) * 3) / 5)"

definition workable_model :: "price_model \<Rightarrow> bool" where
  "workable_model m \<longleftrightarrow> 0 \<le> residual_percent_milli m \<and> 0 \<le> budget_cap_percent_milli m
     \<and> 0 < cost_per_worker_minute_ten_thousandths m"

lemma budget_minor_value: "budget_minor price m = Inr (budget_value m price)"
  by (simp add: budget_minor_def budget_value_def round_half_even_pos)

lemma allowance_seconds_value:
  "0 < cost_per_worker_minute_ten_thousandths m \<Longrightarrow>
   allowance_seconds price m = Inr (allowance_value m price)"
  by (simp add: allowance_seconds_def allowed_centimin_def budget_minor_value allowance_value_def
      round_half_even_pos)

lemma rhe_div_mono: "a \<le> b \<Longrightarrow> 0 \<le> c \<Longrightarrow> rhe (of_int a / of_int c) \<le> rhe (of_int b / of_int c)"
  by (intro rhe_mono divide_right_mono) simp_all

lemma budget_value_mono:
  assumes "workable_model m" "x \<le> y"
  shows "budget_value m x \<le> budget_value m y"
proof -
  have "x * k \<le> y * k" if "0 \<le> k" for k using assms(2) that by (rule mult_right_mono)
  then have "rhe (of_int (x * k) / of_int 100000) \<le> rhe (of_int (y * k) / of_int 100000)" if "0 \<le> k" for k
    using that by (intro rhe_div_mono) simp_all
  with assms(1) show ?thesis unfolding budget_value_def workable_model_def
    by (intro min.mono diff_right_mono) simp_all
qed

lemma allowance_value_mono:
  assumes "workable_model m" "x \<le> y"
  shows "allowance_value m x \<le> allowance_value m y"
proof -
  have "rhe (of_int (rhe (of_int a / of_int c) * 3) / of_int 5) \<le> rhe (of_int (rhe (of_int b / of_int c) * 3) / of_int 5)"
    if "a \<le> b" "0 \<le> c" for a b c
    using rhe_div_mono [OF that] by (intro rhe_div_mono) simp_all
  from this [of "budget_value m x * 1000000" "budget_value m y * 1000000"] budget_value_mono [OF assms] assms(1)
  show ?thesis by (simp add: allowance_value_def workable_model_def)
qed

interpretation allowance: monotone_threshold workable_model "\<lambda>m price. allowance_seconds price m" allowance_value
  by unfold_locales (simp_all add: allowance_seconds_value workable_model_def allowance_value_mono)

section \<open>Properties\<close>

text \<open>A model as the preview builds it: half the price goes to terms, one purchase cost.\<close>

abbreviation sample_model :: price_model where
  "sample_model \<equiv> \<lparr>residual_percent_milli = 52000, constant_deduction_minor = 9000,
     cost_per_worker_minute_ten_thousandths = 130208, budget_cap_percent_milli = 25000\<rparr>"

text \<open>on a model with a non-negative residual and cap percentage and a positive rate, the allowance
  in seconds is defined at every price and never falls when the price rises, despite its three roundings.\<close>

lemma allowance_seconds_monotone:
  assumes "workable_model m" "x \<le> y"
  shows "\<exists>a b. allowance_seconds x m = Inr a \<and> allowance_seconds y m = Inr b \<and> a \<le> b"
  using allowance.val_mono [OF assms] by (simp add: allowance.eval_val [OF assms(1)])

lemma allowance_seconds_monotone_witness:
  "\<exists>a b. allowance_seconds 100000 sample_model = Inr a
     \<and> allowance_seconds 100001 sample_model = Inr b \<and> a \<le> b"
  by (rule allowance_seconds_monotone) (simp_all add: workable_model_def)

text \<open>the search for a target number of seconds always returns on a workable model: either the
  least price whose allowance reaches the target (every price reaches it exactly from there on), or
  \<open>None\<close>, and then no price up to the cap of \<open>2 ^ 40\<close> reaches it.\<close>

lemma least_price_is_least:
  assumes m: "workable_model m"
  shows "\<exists>r. least_price_for_seconds m target = Inr r \<and>
    (case r of
       None \<Rightarrow> (\<forall>q \<le> SEARCH_CAP_MINOR. \<exists>s < target. allowance_seconds q m = Inr s)
     | Some p \<Rightarrow> 0 \<le> p \<and> p \<le> SEARCH_CAP_MINOR
         \<and> (\<forall>q \<ge> 0. (\<exists>s \<ge> target. allowance_seconds q m = Inr s) \<longleftrightarrow> p \<le> q))"
proof -
  obtain r where r: "least_reaching (\<lambda>price. allowance_seconds price m) target = Inr r"
      "case r of None \<Rightarrow> True | Some p \<Rightarrow> 0 \<le> p \<and> p \<le> SEARCH_CAP_MINOR"
    using allowance.least_reaching_total [OF m, of target] by (auto split: option.splits)
  with allowance.least_reaching_None [OF m] allowance.least_reaching_Some [OF m] show ?thesis
    by (auto simp: least_price_for_seconds_def allowance.eval_val [OF m] split: option.splits)
qed

lemma least_price_is_least_witness:
  "\<exists>r. least_price_for_seconds sample_model 3600 = Inr r \<and>
    (case r of
       None \<Rightarrow> (\<forall>q \<le> SEARCH_CAP_MINOR. \<exists>s < 3600. allowance_seconds q sample_model = Inr s)
     | Some p \<Rightarrow> 0 \<le> p \<and> p \<le> SEARCH_CAP_MINOR
         \<and> (\<forall>q \<ge> 0. (\<exists>s \<ge> 3600. allowance_seconds q sample_model = Inr s) \<longleftrightarrow> p \<le> q))"
  by (rule least_price_is_least) (simp add: workable_model_def)

text \<open>\<open>infeasible_at_or_below_minor\<close> is the boundary it is named after: a price from 0 to the cap
  has an allowance of at least one second exactly when it lies above it.\<close>

lemma infeasible_boundary:
  assumes m: "workable_model m"
  shows "\<exists>b. infeasible_at_or_below_minor m = Inr b \<and>
    (\<forall>q. 0 \<le> q \<and> q \<le> SEARCH_CAP_MINOR \<longrightarrow> (\<exists>s \<ge> 1. allowance_seconds q m = Inr s) = (b < q))"
proof -
  obtain r where r: "least_reaching (\<lambda>price. allowance_seconds price m) 1 = Inr r"
    using allowance.least_reaching_total [OF m, of 1] by auto
  show ?thesis
  proof (cases r)
    case None
    with r have "\<not> 1 \<le> allowance_value m q" if "q \<le> SEARCH_CAP_MINOR" for q
      using allowance.least_reaching_None [OF m _ that, of 1] by simp
    with None r show ?thesis
      by (auto simp: infeasible_at_or_below_minor_def least_price_for_seconds_def allowance.eval_val [OF m])
  next
    case (Some p)
    with r have "(1 \<le> allowance_value m q) = (p - 1 < q)" if "0 \<le> q" for q
      using allowance.least_reaching_Some [OF m _ that, of 1 p] by auto
    with Some r show ?thesis
      by (simp add: infeasible_at_or_below_minor_def least_price_for_seconds_def allowance.eval_val [OF m])
  qed
qed

lemma infeasible_boundary_witness:
  "\<exists>b. infeasible_at_or_below_minor sample_model = Inr b \<and>
    (\<forall>q. 0 \<le> q \<and> q \<le> SEARCH_CAP_MINOR \<longrightarrow> (\<exists>s \<ge> 1. allowance_seconds q sample_model = Inr s) = (b < q))"
  by (rule infeasible_boundary) (simp add: workable_model_def)


subsection \<open>Steps and the slider\<close>

lemma floor_to_step_bounds:
  assumes "0 < step"
  shows "\<exists>k. floor_to_step v step = Inr (k * step) \<and> of_int (k * step) \<le> v \<and> v < of_int (k * step) + of_int step"
proof -
  have "of_int \<lfloor>v / of_int step\<rfloor> \<le> v / of_int step" "v / of_int step < of_int \<lfloor>v / of_int step\<rfloor> + 1" by linarith+
  then have "of_int \<lfloor>v / of_int step\<rfloor> * of_int step \<le> v" "v < (of_int \<lfloor>v / of_int step\<rfloor> + 1) * of_int step"
    using assms by (simp_all only: pos_le_divide_eq pos_divide_less_eq of_int_0_less_iff)
  with assms show ?thesis by (auto simp: floor_to_step_def distrib_right)
qed

lemma ceil_to_step_floor: "ceil_to_step v step = rbind (floor_to_step (- v) step) (\<lambda>n. Inr (- n))"
  by (simp add: ceil_to_step_def floor_to_step_def)

lemma ceil_to_step_bounds:
  assumes "0 < step"
  shows "\<exists>k. ceil_to_step v step = Inr (k * step) \<and> v \<le> of_int (k * step) \<and> of_int (k * step) < v + of_int step"
proof -
  obtain k where "floor_to_step (- v) step = Inr (k * step)" "of_int (k * step) \<le> - v"
      "- v < of_int (k * step) + of_int step"
    using floor_to_step_bounds [OF assms, of "- v"] by blast
  then show ?thesis unfolding ceil_to_step_floor by (intro exI [of _ "- k"]) simp
qed

lemma two_significant_digits_pos: "0 < b \<Longrightarrow> \<exists>n. two_significant_digits a b = Inr n \<and> 1 \<le> n"
  by (simp add: two_significant_digits_def Let_def round_half_even_pos)

text \<open>the slider of a break-even price is well formed: a positive step that is a multiple of the
  clamped quantity, ends on multiples of the step with the low end below the high end, the low end
  strictly above the infeasible prices, and the high end within one step above 135 percent of the
  break-even price.\<close>

lemma slider_domain_well_formed:
  assumes "slider_domain (Some be) quantity infeasible = Inr (Some d)"
  shows "0 < sd_step_minor d \<and> max 1 quantity dvd sd_step_minor d
    \<and> sd_step_minor d dvd sd_min_minor d \<and> sd_step_minor d dvd sd_max_minor d
    \<and> sd_min_minor d < sd_max_minor d \<and> infeasible < sd_min_minor d
    \<and> 135 * be \<le> 100 * sd_max_minor d \<and> 100 * (sd_max_minor d - sd_step_minor d) < 135 * be
    \<and> 35 * be < 100 * (sd_min_minor d + sd_step_minor d)"
proof -
  define q where "q = max 1 quantity"
  have q: "0 < q" by (simp add: q_def)
  obtain n where n: "two_significant_digits be (80 * q) = Inr n" "1 \<le> n"
    using two_significant_digits_pos [of "80 * q" be] q by auto
  define step where "step = q * n"
  have step: "0 < step" using q n(2) by (simp add: step_def)
  define lo hi where "lo = (of_int (35 * be) / 100 :: rat)" and "hi = (of_int (135 * be) / 100 :: rat)"
  obtain i where i: "floor_to_step lo step = Inr (i * step)" "lo < of_int (i * step) + of_int step"
    using floor_to_step_bounds [OF step, of lo] by blast
  obtain j where j: "ceil_to_step (of_int (infeasible + 1)) step = Inr (j * step)"
      "(of_int (infeasible + 1) :: rat) \<le> of_int (j * step)"
    using ceil_to_step_bounds [OF step] by blast
  obtain k where k: "ceil_to_step hi step = Inr (k * step)" "hi \<le> of_int (k * step)"
      "of_int (k * step) < hi + of_int step"
    using ceil_to_step_bounds [OF step, of hi] by blast
  have "slider_domain (Some be) quantity infeasible
      = (if max (i * step) (j * step) \<ge> k * step then Inr None
         else Inr (Some \<lparr>sd_step_minor = step, sd_min_minor = max (i * step) (j * step), sd_max_minor = k * step\<rparr>))"
    by (simp only: slider_domain_def option.case Let_def q_def [symmetric] n(1) rbind_Inr step_def [symmetric]
        lo_def [symmetric] hi_def [symmetric] i(1) j(1) k(1))
  then have d: "max (i * step) (j * step) < k * step"
      "d = \<lparr>sd_step_minor = step, sd_min_minor = max (i * step) (j * step), sd_max_minor = k * step\<rparr>"
    using assms by (simp_all add: not_le split: if_splits)
  have "infeasible + 1 \<le> j * step" using j(2) by (simp only: of_int_le_iff)
  moreover have "(of_int (135 * be) :: rat) \<le> of_int (100 * (k * step))"
    "of_int (100 * (k * step - step)) < (of_int (135 * be) :: rat)"
    "(of_int (35 * be) :: rat) < of_int (100 * (i * step + step))"
    using k(2,3) i(2) by (simp_all add: hi_def lo_def field_simps)
  then have "135 * be \<le> 100 * (k * step)" "100 * (k * step - step) < 135 * be"
    "35 * be < 100 * (i * step + step)"
    by (simp_all only: of_int_le_iff of_int_less_iff)
  moreover have "q dvd step" by (simp add: step_def)
  moreover have "j * step \<le> max (i * step) (j * step)" "i * step \<le> max (i * step) (j * step)" by simp_all
  moreover have "step dvd max (i * step) (j * step)" by (simp add: max_def)
  ultimately show ?thesis unfolding q_def [symmetric] d(2) using d(1) step by auto
qed

lemma slider_domain_well_formed_witness:
  "slider_domain (Some 40000) 2 9000 = Inr (Some \<lparr>sd_step_minor = 500, sd_min_minor = 14000, sd_max_minor = 54000\<rparr>)
   \<and> (9000 :: int) < 14000"
proof -
  have d: "slider_domain (Some 40000) 2 9000
      = Inr (Some \<lparr>sd_step_minor = 500, sd_min_minor = 14000, sd_max_minor = 54000\<rparr>)"
    using ndigits_eqI [of 2 250] floor_unique [of "- 19" "- (9001 / 500) :: rat"]
    by (simp add: slider_domain_def two_significant_digits_def digits_def round_half_even_def
        floor_to_step_def ceil_to_step_def)
  with slider_domain_well_formed [OF d] show ?thesis by simp
qed


subsection \<open>The preview against the calculator\<close>

text \<open>A term of the live model, priced by the canonical calculator.\<close>

definition dyn_decimal :: "decimal option \<Rightarrow> pyval" where
  "dyn_decimal d = (case d of None \<Rightarrow> VNone | Some d \<Rightarrow> VDec d)"

definition dyn_int :: "int option \<Rightarrow> pyval" where
  "dyn_int n = (case n of None \<Rightarrow> VNone | Some n \<Rightarrow> VInt n)"

definition live_terms :: "cost_model_term list \<Rightarrow> cost_model_term list" where
  "live_terms terms = filter (\<lambda>t. ct_is_deleted t \<noteq> Some True) terms"

definition calculator_amount :: "int \<Rightarrow> int option \<Rightarrow> cost_model_term \<Rightarrow> int result" where
  "calculator_amount price purchase t =
     calculate_term_amount (VTermType (ct_calculation_type t)) (VInt price) (dyn_decimal (ct_percent_value t))
       (dyn_int (ct_fixed_amount_minor t)) (dyn_int purchase)"

definition column_term :: "cost_model_term \<Rightarrow> bool" where
  "column_term t \<longleftrightarrow> (case ct_percent_value t of None \<Rightarrow> True | Some d \<Rightarrow> column_decimal d)"

definition is_percentage :: "cost_model_term \<Rightarrow> bool" where
  "is_percentage t \<longleftrightarrow> ct_calculation_type t = PERCENTAGE_OF_EXPECTED_SALE_PRICE"

lemma collapse_milli:
  assumes col: "column_decimal d" and q: "dec_quantize 28 d (- 3) = Inr q" "dec_eq d q"
  shows "dval d = of_int (dec_to_int (dec_scaleb 28 d 3)) / 1000"
proof -
  obtain k where "q = Dec k (- 3)" using dec_quantize_Inr [OF q(1)] by blast
  with q(2) have k: "dval d = of_int k / 1000" by (simp add: dec_eq_def dval_Dec pow10_def)
  have "fits 28 (dval d)" using column_decimal_fits [OF col] by (rule fits_mono) simp
  then have "dval (dec_scaleb 28 d 3) = of_int k" by (simp add: dval_scaleb k pow10_def)
  then show ?thesis by (simp add: dec_to_int_value k)
qed

text \<open>One term moves the two sides by the same amount, up to half a minor unit for a percentage.\<close>

lemma collapse_step_close:
  assumes live: "ct_is_deleted t \<noteq> Some True" and col: "column_term t" and price: "column_money price"
    and step: "collapse_step purchase (Some (r, c)) t = Inr (Some (r', c'))"
    and amount: "calculator_amount price purchase t = Inr a"
  shows "\<bar>of_int a - (of_int (price * (r - r')) / 100000 + of_int (c' - c) :: rat)\<bar>
    \<le> (if is_percentage t then 1 / 2 else 0)"
proof (cases "ct_calculation_type t")
  case PERCENTAGE_OF_EXPECTED_SALE_PRICE
  then obtain d q where d: "ct_percent_value t = Some d" "ct_fixed_amount_minor t = None"
      "dec_quantize 28 d (- 3) = Inr q" "dec_eq d q"
      "r' = r - dec_to_int (dec_scaleb 28 d 3)" "c' = c"
    using step live by (auto simp: collapse_step_def split: option.splits)
  have cd: "column_decimal d" using col d(1) by (simp add: column_term_def)
  note milli = collapse_milli [OF cd d(3,4)]
  have "calculate_percentage_term_amount (VInt price) (VDec d) = Inr a"
    using amount d(1,2) PERCENTAGE_OF_EXPECTED_SALE_PRICE
    by (auto simp: calculator_amount_def dyn_decimal_def dyn_int_def calculate_term_amount_def
        require_term_type_def)
  then have "a = rhe (of_int price * dval d / 100)"
    using percent_of_exact [OF price cd] by (simp add: calculate_percentage_term_amount_def)
  with rhe_near [of "of_int price * dval d / 100"] show ?thesis
    using PERCENTAGE_OF_EXPECTED_SALE_PRICE d(5,6) by (simp add: is_percentage_def milli)
next
  case FIXED_AMOUNT
  then show ?thesis using step amount live
    by (auto simp: collapse_step_def calculator_amount_def dyn_int_def calculate_term_amount_def
        require_term_type_def split: option.splits)
next
  case ITEM_PURCHASE_COST
  then show ?thesis using step amount live
    by (auto simp: collapse_step_def calculator_amount_def dyn_int_def calculate_term_amount_def
        require_term_type_def split: option.splits)
qed

lemma collapse_None: "rfold (collapse_step purchase) None ts = Inr None"
  by (induction ts) (simp_all add: collapse_step_def)

lemma collapse_close:
  assumes "list_all column_term ts" "column_money price"
    and "rfold (collapse_step purchase) (Some (r, c)) ts = Inr (Some (r', c'))"
    and "rmap (calculator_amount price purchase) (live_terms ts) = Inr as"
  shows "\<bar>of_int (sum_list as) - (of_int (price * (r - r')) / 100000 + of_int (c' - c) :: rat)\<bar>
    \<le> of_nat (length (filter is_percentage (live_terms ts))) / 2"
  using assms
proof (induction ts arbitrary: r c as)
  case (Cons t ts)
  show ?case
  proof (cases "ct_is_deleted t = Some True")
    case True
    with Cons show ?thesis by (simp add: live_terms_def collapse_step_def)
  next
    case False
    with Cons.prems obtain a as' where as: "as = a # as'" "calculator_amount price purchase t = Inr a"
        "rmap (calculator_amount price purchase) (live_terms ts) = Inr as'"
      by (auto simp: live_terms_def)
    from Cons.prems(3) obtain x where x: "collapse_step purchase (Some (r, c)) t = Inr x"
        "rfold (collapse_step purchase) x ts = Inr (Some (r', c'))"
      by auto
    then obtain r1 c1 where x1: "x = Some (r1, c1)" by (cases x) (auto simp: collapse_None)
    have here: "\<bar>of_int a - (of_int (price * (r - r1)) / 100000 + of_int (c1 - c) :: rat)\<bar>
        \<le> (if is_percentage t then 1 / 2 else 0)"
      by (rule collapse_step_close [OF False _ _ x(1) [unfolded x1] as(2)]) (use Cons.prems in simp_all)
    have rest: "\<bar>of_int (sum_list as') - (of_int (price * (r1 - r')) / 100000 + of_int (c' - c1) :: rat)\<bar>
        \<le> of_nat (length (filter is_percentage (live_terms ts))) / 2"
      by (rule Cons.IH) (use Cons.prems x x1 as in simp_all)
    have "(of_int (sum_list as) - (of_int (price * (r - r')) / 100000 + of_int (c' - c)) :: rat)
      = (of_int a - (of_int (price * (r - r1)) / 100000 + of_int (c1 - c)))
        + (of_int (sum_list as') - (of_int (price * (r1 - r')) / 100000 + of_int (c' - c1)))"
      by (simp add: as(1) field_simps)
    also have "\<bar>\<dots>\<bar> \<le> (if is_percentage t then 1 / 2 else 0)
        + of_nat (length (filter is_percentage (live_terms ts))) / 2"
      by (rule order_trans [OF abs_triangle_ineq add_mono [OF here rest]])
    finally show ?thesis using False by (simp add: live_terms_def add_divide_distrib split: if_splits)
  qed
qed (simp add: live_terms_def)

lemma min_contracts: "\<bar>min a c - min b c\<bar> \<le> \<bar>a - b :: int\<bar>"
  by linarith

lemma min_close: "2 * \<bar>a - b\<bar> \<le> (d :: int) \<Longrightarrow> 2 * \<bar>min a c - min b c\<bar> \<le> d"
  by (rule order_trans [OF mult_left_mono [OF min_contracts]]) simp_all

text \<open>the integer model of the slider and the calculator that persists the budget agree up to
  half a minor unit for the residual and half a minor unit for each live percentage term: collapsing
  the terms only merges their roundings.\<close>

lemma preview_budget_close_to_calculator:
  assumes cols: "list_all column_term ts" "column_money price"
    and collapsed: "collapse_terms ts purchase = Inr (Some (r, c))"
    and amounts: "rmap (calculator_amount price purchase) (live_terms ts) = Inr as"
    and model: "residual_percent_milli m = r" "constant_deduction_minor m = c" "budget_cap_percent_milli m = 25000"
  shows "\<exists>b B. budget_minor price m = Inr b \<and> calculate_production_budget (VInt price) (map VInt as) = Inr B
    \<and> 2 * \<bar>b - B\<bar> \<le> 1 + int (length (filter is_percentage (live_terms ts)))"
proof -
  let ?n = "length (filter is_percentage (live_terms ts))"
  define R where "R = rhe (of_int (price * r) / 100000)"
  define S where "S = sum_list as"
  have "\<bar>of_int S - (of_int (price * (100000 - r)) / 100000 + of_int c :: rat)\<bar> \<le> of_nat ?n / 2"
    using collapse_close [OF cols collapsed [unfolded collapse_terms_def] amounts] by (simp add: S_def)
  moreover have "(of_int (price * (100000 - r)) / 100000 :: rat) = of_int price - of_int (price * r) / 100000"
    by (simp add: field_simps)
  ultimately have "\<bar>of_int ((R - c) - (price - S)) :: rat\<bar> \<le> of_nat ?n / 2 + 1 / 2"
    using rhe_near [of "of_int (price * r) / 100000"] unfolding R_def [symmetric] of_int_diff by linarith
  then have "of_int (2 * \<bar>(R - c) - (price - S)\<bar>) \<le> (of_int (1 + int ?n) :: rat)" by simp
  then have close: "2 * \<bar>(R - c) - (price - S)\<bar> \<le> 1 + int ?n" by (simp only: of_int_le_iff)
  have "column_decimal PRODUCTION_BUDGET_CAP_PERCENT"
    by (simp add: PRODUCTION_BUDGET_CAP_PERCENT_def column_decimal_def)
  from percent_of_exact [OF cols(2) this]
  have "calculate_production_budget (VInt price) (map VInt as) = Inr (min (price - S) (rhe (of_int price / 4)))"
    by (simp add: calculate_production_budget_def PRODUCTION_BUDGET_CAP_PERCENT_def dval_Dec S_def)
  moreover have "budget_minor price m = Inr (min (R - c) (rhe (of_int price / 4)))"
    by (simp add: budget_minor_value budget_value_def model R_def)
  moreover have "2 * \<bar>min (R - c) (rhe (of_int price / 4)) - min (price - S) (rhe (of_int price / 4))\<bar>
      \<le> 1 + int ?n"
    using close by (rule min_close)
  ultimately show ?thesis by blast
qed

abbreviation sample_terms :: "cost_model_term list" where
  "sample_terms \<equiv>
     [\<lparr>ct_calculation_type = PERCENTAGE_OF_EXPECTED_SALE_PRICE, ct_percent_value = Some (Dec 80 0),
       ct_fixed_amount_minor = None, ct_is_deleted = None\<rparr>,
      \<lparr>ct_calculation_type = ITEM_PURCHASE_COST, ct_percent_value = None,
       ct_fixed_amount_minor = None, ct_is_deleted = Some False\<rparr>]"

lemma preview_budget_close_to_calculator_witness:
  "\<exists>b B. budget_minor 1001 \<lparr>residual_percent_milli = 20000, constant_deduction_minor = 150,
        cost_per_worker_minute_ten_thousandths = 130208, budget_cap_percent_milli = 25000\<rparr> = Inr b
    \<and> calculate_production_budget (VInt 1001) (map VInt [801, 150]) = Inr B
    \<and> 2 * \<bar>b - B\<bar> \<le> 1 + int (length (filter is_percentage (live_terms sample_terms)))"
proof (rule preview_budget_close_to_calculator [where purchase = "Some 150" and r = 20000 and c = 150])
  show "collapse_terms sample_terms (Some 150) = Inr (Some (20000, 150))"
    using ndigits_eqI [of 1 80] ndigits_eqI [of 4 80000]
    by (simp add: collapse_terms_def collapse_step_def dec_quantize_def dec_rescale_def dec_eq_def dval_Dec
        pow10_def dec_scaleb_def dec_fix_def dec_to_int_def)
  show "rmap (calculator_amount 1001 (Some 150)) (live_terms sample_terms) = Inr [801, 150]"
    using percent_of_exact [of 1001 "Dec 80 0"] rhe_unique_near [of 801 "4004 / 5"]
    by (simp add: live_terms_def calculator_amount_def calculate_term_amount_def require_term_type_def
        dyn_decimal_def dyn_int_def term_shape_def dec_less_def dval_Dec calculate_percentage_term_amount_def
        column_money_def column_decimal_def)
qed (simp_all add: column_term_def column_decimal_def column_money_def)

end
