(* ===== verification/PyJson.thy ===== *)
theory PyJson
  imports Prelude
begin

text \<open>
  JSON values as Python holds them after \<open>json.loads\<close>, decimal numerals, and the serialiser
  \<open>json.dumps\<close> with the options the code uses. A JSON number is an \<open>int\<close>: numbers with a fractional
  part are not represented.
\<close>

datatype json =
    JNull
  | JBool bool
  | JInt int
  | JStr string
  | JArr "json list"
  | JObj "(string \<times> json) list"

definition digit_char :: "nat \<Rightarrow> char" where
  "digit_char d = char_of (48 + d)"

fun show_nat :: "nat \<Rightarrow> string" where
  "show_nat n = (if n < 10 then [digit_char n] else show_nat (n div 10) @ [digit_char (n mod 10)])"

declare show_nat.simps [simp del]

definition show_int :: "int \<Rightarrow> string" where
  "show_int i = (if i < 0 then ''-'' @ show_nat (nat (- i)) else show_nat (nat i))"

definition hex_digit :: "nat \<Rightarrow> char" where
  "hex_digit d = (if d < 10 then char_of (48 + d) else char_of (87 + d))"

text \<open>\<open>json.dumps\<close> escapes of a string with \<open>ensure_ascii=False\<close>.\<close>

definition json_escape :: "char \<Rightarrow> string" where
  "json_escape c =
     (let n = of_char c :: nat; bs = CHR 0x5C
      in if n = 34 then [bs, CHR 0x22] else if n = 92 then [bs, bs]
         else if n = 10 then [bs, CHR ''n''] else if n = 13 then [bs, CHR ''r''] else if n = 9 then [bs, CHR ''t'']
         else if n = 8 then [bs, CHR ''b''] else if n = 12 then [bs, CHR ''f'']
         else if n < 32 then [bs, CHR ''u'', CHR ''0'', CHR ''0'', hex_digit (n div 16), hex_digit (n mod 16)]
         else [c])"

definition json_string :: "string \<Rightarrow> string" where
  "json_string s = [CHR 0x22] @ concat (map json_escape s) @ [CHR 0x22]"

text \<open>\<open>json.dumps(v, sort_keys=True, separators=(",", ":"), ensure_ascii=False)\<close>.\<close>

fun json_dumps :: "json \<Rightarrow> string"
  and json_items :: "json list \<Rightarrow> string list"
  and json_pairs :: "(string \<times> json) list \<Rightarrow> (string \<times> string) list" where
  "json_dumps JNull = ''null''"
| "json_dumps (JBool b) = (if b then ''true'' else ''false'')"
| "json_dumps (JInt i) = show_int i"
| "json_dumps (JStr s) = json_string s"
| "json_dumps (JArr xs) = ''['' @ concat (case json_items xs of [] \<Rightarrow> [] | y # ys \<Rightarrow> y # map (\<lambda>z. '','' @ z) ys) @ '']''"
| "json_dumps (JObj ps) =
     ''{'' @ concat (case map (\<lambda>(k, v). json_string k @ '':'' @ v) (sort_key fst (json_pairs ps)) of
              [] \<Rightarrow> [] | y # ys \<Rightarrow> y # map (\<lambda>z. '','' @ z) ys) @ ''}''"
| "json_items [] = []"
| "json_items (x # xs) = json_dumps x # json_items xs"
| "json_pairs [] = []"
| "json_pairs ((k, v) # ps) = (k, json_dumps v) # json_pairs ps"

end
