(* ===== verification/TypicalFilters.thy ===== *)
theory TypicalFilters
  imports PyDecimal PyJson
begin

text \<open>
  \<open>domain/item_economics/typical_filters.py\<close>: which historical population a typical working time
  is measured on. A filter specification narrows the population by category, properties profile and
  property facets; the evidence per working section holds the median and sample count of every tier;
  one section is resolved alone by a policy, and a task's participating sections are reconciled to a
  single common basis, the most specific one every one of them can serve.

  Python sets appear as lists in their iteration order (the participating and the known section
  ids), mappings as association lists, and JSON values as a datatype with the serialiser the facets
  use. The lemmas state the precedence and uniformity of the reconciliation and the bounds of the
  fallback weights.
\<close>

section \<open>Filter specifications\<close>

datatype item_major_category = WOOD | SEAT

definition TYPICAL_MIN_SAMPLE_SIZE :: int where
  "TYPICAL_MIN_SAMPLE_SIZE = 5"

definition PROPERTY_FACET_LADDER :: "string list list" where
  "PROPERTY_FACET_LADDER = [[''upholstery''], [''extension_type'']]"

record properties_facet =
  facet_keys :: "string list"
  match_json :: string

definition facet_name :: "properties_facet \<Rightarrow> string" where
  "facet_name f = (case facet_keys f of [] \<Rightarrow> [] | k # ks \<Rightarrow> k @ concat (map (\<lambda>z. ''+'' @ z) ks))"

definition derive_property_facets :: "json \<Rightarrow> properties_facet list" where
  "derive_property_facets properties =
     (case properties of
        JObj ps \<Rightarrow>
          map (\<lambda>keys. \<lparr>facet_keys = keys,
                 match_json = json_dumps (JObj (map (\<lambda>k. (k, the (map_of ps k))) keys))\<rparr>)
            (filter (\<lambda>keys. list_all (\<lambda>k. k \<in> set (map fst ps)) keys) PROPERTY_FACET_LADDER)
      | _ \<Rightarrow> [])"

type_synonym cm_range = "int option \<times> int option"

record typical_filter_spec =
  item_category_ids :: "string set option"
  major_categories :: "item_major_category set option"
  width_cm :: "cm_range option"
  height_cm :: "cm_range option"
  depth_cm :: "cm_range option"
  can_have_upholstery :: "bool option"
  designers :: "string set option"
  properties_signature :: "string option"
  properties_facets :: "properties_facet list"

definition empty_spec :: typical_filter_spec where
  "empty_spec = \<lparr>item_category_ids = None, major_categories = None, width_cm = None, height_cm = None,
     depth_cm = None, can_have_upholstery = None, designers = None, properties_signature = None,
     properties_facets = []\<rparr>"

definition nonempty :: "'a set option \<Rightarrow> 'a set option" where
  "nonempty v = (if v = Some {} then None else v)"

fun range_ok :: "cm_range option \<Rightarrow> bool" where
  "range_ok (Some (Some lo, Some hi)) = (lo \<le> hi)"
| "range_ok _ = True"

definition range_guard :: "string \<Rightarrow> cm_range option \<Rightarrow> unit result" where
  "range_guard field v =
     rguard (range_ok v) (ValueError (field @ '' lower bound must not exceed upper bound''))"

text \<open>The constructor with its \<open>__post_init__\<close>: empty dimensions become unset, facets never outlive
  the signature, and an inverted range is refused.\<close>

definition TypicalFilterSpec :: "typical_filter_spec \<Rightarrow> typical_filter_spec result" where
  "TypicalFilterSpec s =
     (let sig = (if properties_signature s = Some [] then None else properties_signature s);
          s' = s\<lparr>item_category_ids := nonempty (item_category_ids s),
                 major_categories := nonempty (major_categories s),
                 designers := nonempty (designers s),
                 properties_signature := sig,
                 properties_facets := (if sig = None then [] else properties_facets s)\<rparr>
      in rbind (range_guard ''width_cm'' (width_cm s))
         (\<lambda>_. rbind (range_guard ''height_cm'' (height_cm s))
         (\<lambda>_. rbind (range_guard ''depth_cm'' (depth_cm s)) (\<lambda>_. Inr s'))))"

definition is_narrowing :: "typical_filter_spec \<Rightarrow> bool" where
  "is_narrowing s \<longleftrightarrow> item_category_ids s \<noteq> None \<or> major_categories s \<noteq> None \<or> width_cm s \<noteq> None
     \<or> height_cm s \<noteq> None \<or> depth_cm s \<noteq> None \<or> can_have_upholstery s \<noteq> None \<or> designers s \<noteq> None"

record primary_item =
  pi_item_category_id :: "string option"
  pi_properties_signature :: "string option"
  pi_properties :: json

definition derive_spec_from_primary_item :: "primary_item option \<Rightarrow> typical_filter_spec result" where
  "derive_spec_from_primary_item item =
     (case item of None \<Rightarrow> TypicalFilterSpec empty_spec
      | Some i \<Rightarrow>
        (case pi_item_category_id i of None \<Rightarrow> TypicalFilterSpec empty_spec
         | Some category_id \<Rightarrow>
           let signature = pi_properties_signature i in
           TypicalFilterSpec (empty_spec\<lparr>item_category_ids := Some {category_id},
             properties_signature := signature,
             properties_facets := (if signature \<noteq> None then derive_property_facets (pi_properties i) else [])\<rparr>)))"

section \<open>Evidence and the resolution of one section\<close>

record facet_evidence_row =
  fe_typical_worker_seconds :: "int option"
  fe_sample_count :: int
  fe_typical_unit_worker_seconds :: "rat option"

record section_typical_evidence =
  working_section_id :: string
  narrowed_typical_worker_seconds :: "int option"
  narrowed_sample_count :: int
  section_typical_worker_seconds :: "int option"
  section_sample_count :: int
  narrowed_typical_unit_worker_seconds :: "rat option"
  section_typical_unit_worker_seconds :: "rat option"
  properties_typical_worker_seconds :: "int option"
  properties_sample_count :: int
  properties_typical_unit_worker_seconds :: "rat option"
  facet_evidence :: "facet_evidence_row list"

text \<open>\<open>seconds is not None and seconds > 0\<close>.\<close>

definition positive_seconds :: "int option \<Rightarrow> bool" where
  "positive_seconds v = (case v of None \<Rightarrow> False | Some s \<Rightarrow> s > 0)"

definition facet_has_usable :: "facet_evidence_row \<Rightarrow> bool" where
  "facet_has_usable f \<longleftrightarrow> fe_sample_count f \<ge> TYPICAL_MIN_SAMPLE_SIZE \<and> positive_seconds (fe_typical_worker_seconds f)"

definition has_narrowed :: "section_typical_evidence \<Rightarrow> bool" where
  "has_narrowed e \<longleftrightarrow> narrowed_sample_count e \<ge> TYPICAL_MIN_SAMPLE_SIZE"

definition has_section :: "section_typical_evidence \<Rightarrow> bool" where
  "has_section e \<longleftrightarrow> section_sample_count e \<ge> TYPICAL_MIN_SAMPLE_SIZE"

definition has_usable_narrowed :: "section_typical_evidence \<Rightarrow> bool" where
  "has_usable_narrowed e \<longleftrightarrow> has_narrowed e \<and> positive_seconds (narrowed_typical_worker_seconds e)"

definition has_properties :: "section_typical_evidence \<Rightarrow> bool" where
  "has_properties e \<longleftrightarrow> properties_sample_count e \<ge> TYPICAL_MIN_SAMPLE_SIZE"

definition has_usable_properties :: "section_typical_evidence \<Rightarrow> bool" where
  "has_usable_properties e \<longleftrightarrow> has_properties e \<and> positive_seconds (properties_typical_worker_seconds e)"

datatype typical_resolution_policy = BROADEN_TO_SECTION | ANSWER_AS_ASKED

record selected_typical =
  st_working_section_id :: string
  st_typical_worker_seconds :: "int option"
  st_typical_basis :: string
  st_evidence :: section_typical_evidence
  st_participates :: bool
  st_sample_count :: int
  st_typical_unit_worker_seconds :: "rat option"

definition select_typical ::
  "section_typical_evidence \<Rightarrow> int option \<Rightarrow> string \<Rightarrow> int \<Rightarrow> rat option \<Rightarrow> selected_typical" where
  "select_typical e seconds basis n unit =
     \<lparr>st_working_section_id = working_section_id e, st_typical_worker_seconds = seconds,
      st_typical_basis = basis, st_evidence = e, st_participates = False, st_sample_count = n,
      st_typical_unit_worker_seconds = unit\<rparr>"

text \<open>The first facet rung that the section can serve.\<close>

definition first_usable_facet :: "typical_filter_spec \<Rightarrow> section_typical_evidence \<Rightarrow> nat option" where
  "first_usable_facet spec e =
     List.find (\<lambda>i. i < length (facet_evidence e) \<and> facet_has_usable (facet_evidence e ! i))
       [0..<length (properties_facets spec)]"

definition section_wide_or_insufficient :: "section_typical_evidence \<Rightarrow> selected_typical" where
  "section_wide_or_insufficient e =
     (if has_section e
      then select_typical e (section_typical_worker_seconds e) ''section_wide'' (section_sample_count e)
             (section_typical_unit_worker_seconds e)
      else select_typical e None ''insufficient_sample'' (section_sample_count e) None)"

definition resolve_section_typical ::
  "section_typical_evidence \<Rightarrow> typical_filter_spec \<Rightarrow> typical_resolution_policy \<Rightarrow> selected_typical" where
  "resolve_section_typical e spec policy =
     (if \<not> is_narrowing spec then section_wide_or_insufficient e
      else case policy of
        BROADEN_TO_SECTION \<Rightarrow>
          if properties_signature spec \<noteq> None \<and> has_usable_properties e
          then select_typical e (properties_typical_worker_seconds e) ''item_properties_narrowed''
                 (properties_sample_count e) (properties_typical_unit_worker_seconds e)
          else (case first_usable_facet spec e of
              Some i \<Rightarrow> let facet = facet_evidence e ! i in
                select_typical e (fe_typical_worker_seconds facet) ''item_facet_narrowed''
                  (fe_sample_count facet) (fe_typical_unit_worker_seconds facet)
            | None \<Rightarrow>
                if has_usable_narrowed e
                then select_typical e (narrowed_typical_worker_seconds e) ''item_narrowed''
                       (narrowed_sample_count e) (narrowed_typical_unit_worker_seconds e)
                else section_wide_or_insufficient e)
      | ANSWER_AS_ASKED \<Rightarrow>
          if properties_signature spec \<noteq> None
          then (if has_properties e
                then select_typical e (properties_typical_worker_seconds e) ''item_properties_narrowed''
                       (properties_sample_count e) (properties_typical_unit_worker_seconds e)
                else select_typical e None ''insufficient_sample'' (properties_sample_count e) None)
          else if has_narrowed e
          then select_typical e (narrowed_typical_worker_seconds e) ''item_narrowed''
                 (narrowed_sample_count e) (narrowed_typical_unit_worker_seconds e)
          else select_typical e None ''insufficient_sample'' (narrowed_sample_count e) None)"

section \<open>Reconciliation of a task\<close>

record task_typical_selection =
  task_typical_basis :: string
  reconciliation_method :: string
  comparability_profile :: string
  applied_filter :: "typical_filter_spec option"
  participating_section_ids :: "string list"
  selected :: "(string \<times> selected_typical) list"
  ts_facet :: "string option"

definition zero_evidence :: "string \<Rightarrow> section_typical_evidence" where
  "zero_evidence section_id = \<lparr>working_section_id = section_id, narrowed_typical_worker_seconds = None,
     narrowed_sample_count = 0, section_typical_worker_seconds = None, section_sample_count = 0,
     narrowed_typical_unit_worker_seconds = None, section_typical_unit_worker_seconds = None,
     properties_typical_worker_seconds = None, properties_sample_count = 0,
     properties_typical_unit_worker_seconds = None, facet_evidence = []\<rparr>"

definition evidence_for ::
  "(string \<times> section_typical_evidence) list \<Rightarrow> string \<Rightarrow> section_typical_evidence" where
  "evidence_for evidence_by_section section_id =
     (case map_of evidence_by_section section_id of None \<Rightarrow> zero_evidence section_id | Some e \<Rightarrow> e)"

text \<open>\<open>all(p(evidence[s]) for s in ids)\<close>: stops at the first section that fails, raises at a section
  that is not among the known ones.\<close>

fun all_evidence :: "(string \<times> section_typical_evidence) list \<Rightarrow> (section_typical_evidence \<Rightarrow> bool)
    \<Rightarrow> string list \<Rightarrow> bool result" where
  "all_evidence ev p [] = Inr True"
| "all_evidence ev p (s # ss) =
     (case map_of ev s of None \<Rightarrow> Inl (KeyError s)
      | Some e \<Rightarrow> if p e then all_evidence ev p ss else Inr False)"

definition facet_usable :: "nat \<Rightarrow> section_typical_evidence \<Rightarrow> bool" where
  "facet_usable i e \<longleftrightarrow> i < length (facet_evidence e) \<and> facet_has_usable (facet_evidence e ! i)"

text \<open>The \<open>for index in range(...)\<close> loop with its \<open>break\<close>.\<close>

fun find_facet :: "(string \<times> section_typical_evidence) list \<Rightarrow> string list \<Rightarrow> nat list \<Rightarrow> nat option result" where
  "find_facet ev participating [] = Inr None"
| "find_facet ev participating (i # is) =
     rbind (all_evidence ev (facet_usable i) participating)
       (\<lambda>ok. if ok then Inr (Some i) else find_facet ev participating is)"

datatype uniform_basis = UProperties | UFacet nat | UNarrowed | USectionWide

fun uniform_basis_name :: "uniform_basis \<Rightarrow> string" where
  "uniform_basis_name UProperties = ''item_properties_narrowed_uniform''"
| "uniform_basis_name (UFacet _) = ''item_facet_narrowed_uniform''"
| "uniform_basis_name UNarrowed = ''item_narrowed_uniform''"
| "uniform_basis_name USectionWide = ''section_wide_uniform''"

definition choose_basis ::
  "typical_filter_spec \<Rightarrow> (string \<times> section_typical_evidence) list \<Rightarrow> string list \<Rightarrow> uniform_basis result" where
  "choose_basis spec ev participating =
     (let narrowing = is_narrowing spec \<and> participating \<noteq> [] in
      rbind (if narrowing \<and> properties_signature spec \<noteq> None
             then all_evidence ev has_usable_properties participating else Inr False)
      (\<lambda>properties_uniform. rbind
         (if \<not> properties_uniform \<and> narrowing
          then find_facet ev participating [0..<length (properties_facets spec)] else Inr None)
      (\<lambda>facet_index. rbind
         (if \<not> properties_uniform \<and> facet_index = None \<and> narrowing
          then all_evidence ev has_usable_narrowed participating else Inr False)
      (\<lambda>narrowed_uniform. Inr
         (if properties_uniform then UProperties
          else case facet_index of Some i \<Rightarrow> UFacet i
             | None \<Rightarrow> if narrowed_uniform then UNarrowed else USectionWide)))))"

definition participating_typical :: "uniform_basis \<Rightarrow> string \<Rightarrow> section_typical_evidence \<Rightarrow> selected_typical" where
  "participating_typical b section_id e =
     (case b of
        UProperties \<Rightarrow> select_typical e (properties_typical_worker_seconds e) ''item_properties_narrowed''
          (properties_sample_count e) (properties_typical_unit_worker_seconds e)
      | UFacet i \<Rightarrow> let facet = facet_evidence e ! i in
          select_typical e (fe_typical_worker_seconds facet) ''item_facet_narrowed''
            (fe_sample_count facet) (fe_typical_unit_worker_seconds facet)
      | UNarrowed \<Rightarrow> select_typical e (narrowed_typical_worker_seconds e) ''item_narrowed''
          (narrowed_sample_count e) (narrowed_typical_unit_worker_seconds e)
      | USectionWide \<Rightarrow> select_typical e (section_typical_worker_seconds e)
          (if has_section e then ''section_wide'' else ''insufficient_sample'') (section_sample_count e)
          (if has_section e then section_typical_unit_worker_seconds e else None))
     \<lparr>st_working_section_id := section_id, st_participates := True\<rparr>"

definition reconcile_task_typicals ::
  "(string \<times> section_typical_evidence) list \<Rightarrow> typical_filter_spec option \<Rightarrow> string list \<Rightarrow> string list
   \<Rightarrow> task_typical_selection result" where
  "reconcile_task_typicals evidence_by_section spec participating section_ids =
     (let effective = (case spec of None \<Rightarrow> empty_spec | Some s \<Rightarrow> s);
          ev = map (\<lambda>s. (s, evidence_for evidence_by_section s)) section_ids in
      rbind (choose_basis effective ev participating)
      (\<lambda>b. Inr \<lparr>task_typical_basis = uniform_basis_name b,
        reconciliation_method = ''uniform_basis_v1'',
        comparability_profile =
          (if is_narrowing effective \<and> properties_signature effective \<noteq> None
           then ''primary_item_category_properties_v2'' else ''primary_item_category_v1''),
        applied_filter = (if is_narrowing effective then Some effective else None),
        participating_section_ids = participating,
        selected = map (\<lambda>(s, e).
          (s, if s \<in> set participating then participating_typical b s e
              else (resolve_section_typical e effective BROADEN_TO_SECTION)\<lparr>st_participates := False\<rparr>)) ev,
        ts_facet = (case b of UFacet i \<Rightarrow> Some (facet_name (properties_facets effective ! i)) | _ \<Rightarrow> None)\<rparr>))"

section \<open>Projection and fallback\<close>

definition applied_projection_quantity :: "int option \<Rightarrow> int" where
  "applied_projection_quantity quantity = max 1 (case quantity of None \<Rightarrow> 1 | Some q \<Rightarrow> q)"

definition project_typical_seconds :: "rat option \<Rightarrow> int option \<Rightarrow> int option" where
  "project_typical_seconds unit_seconds quantity =
     map_option (\<lambda>u. rhe (u * of_int (applied_projection_quantity quantity))) unit_seconds"

definition median :: "rat list \<Rightarrow> rat" where
  "median values =
     (let ordered = sort values; middle = length ordered div 2
      in if length ordered mod 2 \<noteq> 0 then ordered ! middle
         else (ordered ! (middle - 1) + ordered ! middle) / 2)"

text \<open>A weight that is present and positive.\<close>

definition usable_weight :: "rat option \<Rightarrow> bool" where
  "usable_weight v = (case v of None \<Rightarrow> False | Some x \<Rightarrow> x > 0)"

definition apply_business_fallback :: "rat option list \<Rightarrow> rat \<Rightarrow> rat list" where
  "apply_business_fallback selected_values terminal =
     (let usable = map the (filter usable_weight selected_values);
          fallback = (if usable \<noteq> [] then median usable else terminal)
      in map (\<lambda>v. if usable_weight v then the v else fallback) selected_values)"

section \<open>Properties\<close>

text \<open>What a basis claims of a section that is measured on it.\<close>

fun serves :: "uniform_basis \<Rightarrow> section_typical_evidence \<Rightarrow> bool" where
  "serves UProperties e = has_usable_properties e"
| "serves (UFacet i) e = facet_usable i e"
| "serves UNarrowed e = has_usable_narrowed e"
| "serves USectionWide e = True"

text \<open>The specification: the candidate bases in priority order, and the first that all sections serve.\<close>

definition candidate_bases :: "typical_filter_spec \<Rightarrow> bool \<Rightarrow> uniform_basis list" where
  "candidate_bases spec any_section =
     (if is_narrowing spec \<and> any_section
      then (if properties_signature spec \<noteq> None then [UProperties] else [])
           @ map UFacet [0..<length (properties_facets spec)] @ [UNarrowed]
      else []) @ [USectionWide]"

definition most_specific_basis :: "typical_filter_spec \<Rightarrow> section_typical_evidence list \<Rightarrow> uniform_basis" where
  "most_specific_basis spec es =
     the (List.find (\<lambda>b. list_all (serves b) es) (candidate_bases spec (es \<noteq> [])))"

lemma all_evidence_eq:
  "\<forall>s \<in> set ss. map_of ev s \<noteq> None \<Longrightarrow>
   all_evidence ev p ss = Inr (list_all p (map (\<lambda>s. the (map_of ev s)) ss))"
  by (induction ss) auto

lemma find_facet_eq:
  "\<forall>s \<in> set ps. map_of ev s \<noteq> None \<Longrightarrow>
   find_facet ev ps is = Inr (List.find (\<lambda>i. list_all (facet_usable i) (map (\<lambda>s. the (map_of ev s)) ps)) is)"
  by (induction "is") (simp_all add: all_evidence_eq)

lemma find_append: "List.find p (xs @ ys) = (case List.find p xs of None \<Rightarrow> List.find p ys | Some x \<Rightarrow> Some x)"
  by (induction xs) simp_all

lemma find_map: "List.find p (map f xs) = map_option f (List.find (p \<circ> f) xs)"
  by (induction xs) simp_all

lemma find_Some_holds: "List.find p xs = Some x \<Longrightarrow> p x"
  by (induction xs) (auto split: if_splits)

lemma choose_basis_eq:
  assumes known: "\<forall>s \<in> set ps. map_of ev s \<noteq> None"
  shows "choose_basis spec ev ps = Inr (most_specific_basis spec (map (\<lambda>s. the (map_of ev s)) ps))"
proof -
  have facets: "(\<lambda>b. list_all (serves b) es) \<circ> UFacet = (\<lambda>i. list_all (facet_usable i) es)" for es
    by (auto simp: fun_eq_iff list_all_iff)
  have eta: "serves UProperties = has_usable_properties" "serves UNarrowed = has_usable_narrowed"
    "serves USectionWide = (\<lambda>_. True)"
    by (auto simp: fun_eq_iff)
  define es where "es = map (\<lambda>s. the (map_of ev s)) ps"
  have ne: "es \<noteq> [] \<longleftrightarrow> ps \<noteq> []" by (simp add: es_def)
  have all: "list_all (\<lambda>_. True) es" by (simp add: list_all_iff)
  define nar where "nar \<longleftrightarrow> is_narrowing spec \<and> ps \<noteq> []"
  show ?thesis
    unfolding choose_basis_def most_specific_basis_def candidate_bases_def Let_def es_def [symmetric] ne
      all_evidence_eq [OF known] find_facet_eq [OF known] nar_def [symmetric]
    by (cases nar; cases "List.find (\<lambda>i. list_all (facet_usable i) es) [0..<length (properties_facets spec)]";
        cases "properties_signature spec = None"; cases "list_all has_usable_properties es";
        cases "list_all has_usable_narrowed es")
      (simp_all add: find_append find_map facets eta all)
qed

lemma most_specific_basis_serves:
  assumes "e \<in> set es"
  shows "serves (most_specific_basis spec es) e"
proof -
  have "\<exists>b. List.find (\<lambda>b. list_all (serves b) es) (candidate_bases spec (es \<noteq> [])) = Some b"
    by (auto simp: candidate_bases_def find_append list_all_iff split: option.splits)
  then obtain b where b: "List.find (\<lambda>b. list_all (serves b) es) (candidate_bases spec (es \<noteq> [])) = Some b" ..
  from find_Some_holds [OF b] assms show ?thesis
    unfolding most_specific_basis_def b by (simp add: list_all_iff)
qed

definition common_basis :: "uniform_basis \<Rightarrow> string" where
  "common_basis b = (case b of UProperties \<Rightarrow> ''item_properties_narrowed''
     | UFacet _ \<Rightarrow> ''item_facet_narrowed'' | UNarrowed \<Rightarrow> ''item_narrowed'' | USectionWide \<Rightarrow> ''section_wide'')"

lemma map_of_pairs: "map_of (map (\<lambda>s. (s, f s)) xs) s = (if s \<in> set xs then Some (f s) else None)"
  by (induction xs) auto

lemma served_typical:
  assumes "serves b e" "b \<noteq> USectionWide"
  shows "st_typical_basis (participating_typical b s e) = common_basis b
    \<and> positive_seconds (st_typical_worker_seconds (participating_typical b s e))
    \<and> st_sample_count (participating_typical b s e) \<ge> TYPICAL_MIN_SAMPLE_SIZE"
  using assms
  by (cases b) (auto simp: participating_typical_def select_typical_def common_basis_def Let_def facet_usable_def
      facet_has_usable_def has_usable_properties_def has_properties_def has_usable_narrowed_def has_narrowed_def)

text \<open>C15: when every participating section is known, reconciliation succeeds and measures the task on
  the first basis, in the declared priority order (full properties profile, each facet, category,
  section), that every participating section can serve; unless that is the section-wide basis, each
  participating section then has a positive typical of that same basis from a sufficient sample.\<close>

theorem reconciliation_is_uniform_and_most_specific:
  assumes known: "set participating \<subseteq> set section_ids"
    and spec: "effective = (case spec of None \<Rightarrow> empty_spec | Some s \<Rightarrow> s)"
    and b: "b = most_specific_basis effective (map (evidence_for ev) participating)"
  shows "\<exists>r. reconcile_task_typicals ev spec participating section_ids = Inr r
    \<and> task_typical_basis r = uniform_basis_name b
    \<and> (\<forall>s \<in> set participating. \<exists>sel. map_of (selected r) s = Some sel \<and> st_participates sel
         \<and> (b \<noteq> USectionWide \<longrightarrow> st_typical_basis sel = common_basis b
              \<and> positive_seconds (st_typical_worker_seconds sel)
              \<and> st_sample_count sel \<ge> TYPICAL_MIN_SAMPLE_SIZE))"
proof -
  let ?ev = "map (\<lambda>s. (s, evidence_for ev s)) section_ids"
  have "\<forall>s \<in> set participating. map_of ?ev s \<noteq> None" using known by (auto simp: map_of_pairs)
  from choose_basis_eq [OF this] have cb: "choose_basis effective ?ev participating = Inr b"
    using known unfolding b by (simp add: map_of_pairs subset_eq cong: map_cong)
  have serves: "serves b (evidence_for ev s)" if "s \<in> set participating" for s
    unfolding b using that by (intro most_specific_basis_serves) simp
  have sel: "map_of (map (\<lambda>(s, e). (s, if s \<in> set participating then participating_typical b s e
        else (resolve_section_typical e effective BROADEN_TO_SECTION)\<lparr>st_participates := False\<rparr>)) ?ev) s
      = Some (participating_typical b s (evidence_for ev s))" if "s \<in> set participating" for s
    using that known by (simp add: o_def map_of_pairs subset_eq)
  have part: "st_participates (participating_typical b s e)" for s e
    by (simp add: participating_typical_def)
  show ?thesis
    unfolding reconcile_task_typicals_def spec [symmetric] Let_def cb rbind_Inr
    using serves sel part served_typical by (auto intro!: exI)
qed

abbreviation sample_evidence :: "string \<Rightarrow> section_typical_evidence" where
  "sample_evidence s \<equiv> (zero_evidence s)\<lparr>narrowed_typical_worker_seconds := Some 3600, narrowed_sample_count := 7\<rparr>"

lemma reconciliation_is_uniform_and_most_specific_witness:
  "\<exists>r. reconcile_task_typicals [(''wood'', sample_evidence ''wood'')]
         (Some (empty_spec\<lparr>item_category_ids := Some {''chair''}\<rparr>)) [''wood''] [''wood'', ''paint''] = Inr r
    \<and> task_typical_basis r = ''item_narrowed_uniform''"
  using reconciliation_is_uniform_and_most_specific [OF _ refl refl, of "[''wood'']" "[''wood'', ''paint'']"
      "[(''wood'', sample_evidence ''wood'')]" "Some (empty_spec\<lparr>item_category_ids := Some {''chair''}\<rparr>)"]
  by (auto simp: most_specific_basis_def candidate_bases_def empty_spec_def is_narrowing_def evidence_for_def
      has_usable_narrowed_def has_narrowed_def TYPICAL_MIN_SAMPLE_SIZE_def positive_seconds_def)

section \<open>Properties of the fallback weights\<close>

lemma median_between:
  assumes ne: "xs \<noteq> []" and lo: "\<forall>x \<in> set xs. lo \<le> x" and hi: "\<forall>x \<in> set xs. x \<le> hi"
  shows "lo \<le> median xs \<and> median xs \<le> hi"
proof -
  have nth: "lo \<le> sort xs ! i \<and> sort xs ! i \<le> hi" if "i < length xs" for i
    using that lo hi nth_mem [of i "sort xs"] by simp
  define a b where "a = sort xs ! (length xs div 2 - Suc 0)" and "b = sort xs ! (length xs div 2)"
  have "length xs div 2 < length xs" "length xs div 2 - Suc 0 < length xs" using ne by (cases xs; simp)+
  then have "lo \<le> a" "a \<le> hi" "lo \<le> b" "b \<le> hi" using nth unfolding a_def b_def by blast+
  then have "lo \<le> (a + b) / 2" "(a + b) / 2 \<le> hi" by simp_all
  then show ?thesis
    using \<open>lo \<le> b\<close> \<open>b \<le> hi\<close> by (simp add: median_def Let_def a_def [symmetric] b_def [symmetric])
qed

lemma median_mem_odd: "odd (length xs) \<Longrightarrow> median xs \<in> set xs"
proof -
  assume o: "odd (length xs)"
  then have "length xs div 2 < length xs" by (cases xs) simp_all
  then have "sort xs ! (length xs div 2) \<in> set (sort xs)" by (intro nth_mem) simp
  with o show ?thesis by (simp add: median_def Let_def odd_iff_mod_2_eq_one)
qed

lemma usable_weight_iff: "usable_weight v \<longleftrightarrow> (\<exists>x. v = Some x \<and> 0 < x)"
  by (cases v) (simp_all add: usable_weight_def)

lemma fallback_positive:
  assumes "0 < terminal" "w \<in> set (apply_business_fallback vs terminal)"
  shows "0 < w"
proof -
  let ?usable = "map the (filter usable_weight vs)"
  have pos: "\<forall>x \<in> set ?usable. Min (set ?usable) \<le> x" "\<forall>x \<in> set ?usable. x \<le> Max (set ?usable)"
    by simp_all
  have "0 < median ?usable" if ne: "?usable \<noteq> []"
  proof -
    have "Min (set ?usable) \<in> set ?usable" using ne by (metis List.finite_set Min_in set_empty)
    then have "0 < Min (set ?usable)" by (auto simp: usable_weight_iff)
    with median_between [OF ne pos] show ?thesis by linarith
  qed
  with assms show ?thesis
    by (auto simp: apply_business_fallback_def Let_def usable_weight_iff split: if_splits)
qed

lemma fallback_length [simp]: "length (apply_business_fallback vs terminal) = length vs"
  by (simp add: apply_business_fallback_def Let_def)

text \<open>with a positive terminal fallback every weight the division uses is positive, every usable
  typical keeps its value, and a missing or non-positive one takes a value between the smallest and
  the largest usable typical of the task (the terminal when there is none).\<close>

lemma business_fallback_weights:
  assumes "0 < terminal" "i < length vs"
  shows "length (apply_business_fallback vs terminal) = length vs
    \<and> 0 < apply_business_fallback vs terminal ! i
    \<and> (usable_weight (vs ! i) \<longrightarrow> Some (apply_business_fallback vs terminal ! i) = vs ! i)
    \<and> (\<not> usable_weight (vs ! i) \<longrightarrow>
         (if filter usable_weight vs = [] then apply_business_fallback vs terminal ! i = terminal
          else Min (the ` set (filter usable_weight vs)) \<le> apply_business_fallback vs terminal ! i
             \<and> apply_business_fallback vs terminal ! i \<le> Max (the ` set (filter usable_weight vs))))"
proof -
  let ?us = "map the (filter usable_weight vs)"
  have "0 < apply_business_fallback vs terminal ! i"
    by (rule fallback_positive [OF assms(1), of _ vs]) (use assms(2) in simp)
  moreover have "filter usable_weight vs \<noteq> [] \<Longrightarrow>
      Min (set ?us) \<le> median ?us \<and> median ?us \<le> Max (set ?us)"
    by (rule median_between) simp_all
  ultimately show ?thesis
    using assms(2) by (auto simp: apply_business_fallback_def Let_def usable_weight_iff)
qed

lemma business_fallback_weights_witness:
  "0 < apply_business_fallback [Some 1200, None, Some 0, Some 300] 1 ! 1"
  using business_fallback_weights [of 1 1 "[Some 1200, None, Some 0, Some 300]"] by simp

text \<open>the projection of a per-unit typical to a task's quantity is a nearest whole number of
  seconds of the exact product, with the quantity clamped to at least one.\<close>

lemma projection_nearest:
  "project_typical_seconds (Some u) q = Some n \<Longrightarrow>
     \<bar>of_int n - u * of_int (max 1 (case q of None \<Rightarrow> 1 | Some k \<Rightarrow> k))\<bar> \<le> 1 / 2"
  using rhe_near by (auto simp: project_typical_seconds_def applied_projection_quantity_def)

lemma projection_nearest_witness:
  "project_typical_seconds (Some (7 / 3)) (Some 4) = Some 9 \<and> \<bar>of_int 9 - (7 / 3) * of_int (max 1 4)\<bar> \<le> (1 / 2 :: rat)"
proof -
  have p: "project_typical_seconds (Some (7 / 3)) (Some 4) = Some 9"
    by (simp add: project_typical_seconds_def applied_projection_quantity_def rhe_unique_near)
  with projection_nearest [OF p] show ?thesis by simp
qed

end
