(* ===== verification/Apportionment.thy ===== *)
theory Apportionment
  imports PyDecimal
begin

text \<open>
  The largest-remainder apportionment \<open>_largest_remainder\<close> of
  \<open>domain/item_economics/budget_division.py\<close>, which the budget division (sections and steps) and the
  remaining production pressure share, and the interface \<open>apportionment\<close> those clients rely on: the
  parts sum to the total, each is its exact share rounded down or up.
\<close>

section \<open>Largest remainder\<close>

definition share_floor :: "rat \<Rightarrow> int" where
  "share_floor s = \<lfloor>s\<rfloor>"  \<comment> \<open>\<open>numerator // denominator\<close>\<close>

definition ranked_keys :: "(string \<Rightarrow> 'k::linorder) \<Rightarrow> (string \<times> rat) list \<Rightarrow> string list" where
  "ranked_keys tie_key raw_shares =
     map fst (sort_key (\<lambda>(key, share). (- (share - of_int (share_floor share)), tie_key key)) raw_shares)"

definition largest_remainder ::
  "(string \<Rightarrow> 'k::linorder) \<Rightarrow> (string \<times> rat) list \<Rightarrow> int \<Rightarrow> (string \<times> int) list" where
  "largest_remainder tie_key raw_shares whole =
     (let floors = map (\<lambda>(key, share). (key, share_floor share)) raw_shares;
          remainder_units = whole - dict_sum floors
      in fold (\<lambda>key allowances. dict_add key 1 allowances)
           (py_prefix remainder_units (ranked_keys tie_key raw_shares)) floors)"

lemma fold_dict_add_keys [simp]: "map fst (fold (\<lambda>k d. dict_add k 1 d) ks d) = map fst d"
  by (induction ks arbitrary: d) simp_all

lemma fold_dict_add_sum:
  "distinct (map fst d) \<Longrightarrow> set ks \<subseteq> set (map fst d) \<Longrightarrow>
   dict_sum (fold (\<lambda>k d. dict_add k 1 d) ks d) = dict_sum d + int (length ks)"
proof (induction ks arbitrary: d)
  case (Cons k ks)
  have "dict_sum (fold (\<lambda>k d. dict_add k 1 d) ks (dict_add k 1 d)) = dict_sum (dict_add k 1 d) + int (length ks)"
    using Cons.prems by (intro Cons.IH) (simp_all only: dict_add_keys, simp)
  with Cons.prems show ?case by (simp add: dict_sum_add)
qed simp

lemma map_of_dict_add: "map_of (dict_add k v d) x = map_option (\<lambda>n. if x = k then n + v else n) (map_of d x)"
  by (induction d) (auto simp: dict_add_def)

lemma map_of_fold_dict_add:
  "distinct ks \<Longrightarrow> map_of (fold (\<lambda>k d. dict_add k 1 d) ks d) x
     = map_option (\<lambda>n. if x \<in> set ks then n + 1 else n) (map_of d x)"
proof (induction ks arbitrary: d)
  case (Cons k ks)
  then show ?case by (cases "map_of d x") (simp_all add: map_of_dict_add)
qed (simp add: option.map_ident)

lemma map_of_floors:
  "map_of (map (\<lambda>(key, share). (key, share_floor share)) raw) x = map_option share_floor (map_of raw x)"
  by (induction raw) auto

lemma set_ranked_keys [simp]: "set (ranked_keys t raw) = fst ` set raw"
  by (auto simp: ranked_keys_def image_iff)

lemma length_ranked_keys [simp]: "length (ranked_keys t raw) = length raw"
  by (simp add: ranked_keys_def)

lemma distinct_ranked_keys: "distinct (map fst raw) \<Longrightarrow> distinct (ranked_keys t raw)"
proof -
  have "mset (ranked_keys t raw) = mset (map fst raw)" by (simp add: ranked_keys_def)
  then show "distinct (map fst raw) \<Longrightarrow> ?thesis" by (metis mset_eq_imp_distinct_iff)
qed

lemma floors_gap:
  assumes "sum_list (map snd raw) = (of_int whole :: rat)"
  shows "dict_sum (map (\<lambda>(k, s). (k, share_floor s)) raw) \<le> whole"
    "whole - dict_sum (map (\<lambda>(k, s). (k, share_floor s)) raw) \<le> int (length raw)"
proof -
  have "of_int (dict_sum (map (\<lambda>(k, s). (k, share_floor s)) raw)) \<le> sum_list (map snd raw)
      \<and> sum_list (map snd raw) \<le> of_int (dict_sum (map (\<lambda>(k, s). (k, share_floor s)) raw)) + of_nat (length raw)"
  proof (induction raw)
    case (Cons x raw)
    obtain k s where x: "x = (k, s)" by (cases x)
    have "of_int \<lfloor>s\<rfloor> \<le> s" "s \<le> of_int \<lfloor>s\<rfloor> + 1" by linarith+
    with Cons show ?case unfolding x dict_sum_def share_floor_def list.map sum_list.Cons prod.case snd_conv
        of_int_add length_Cons of_nat_Suc by linarith
  qed (simp add: dict_sum_def)
  with assms show "dict_sum (map (\<lambda>(k, s). (k, share_floor s)) raw) \<le> whole"
    "whole - dict_sum (map (\<lambda>(k, s). (k, share_floor s)) raw) \<le> int (length raw)"
    by linarith+
qed

section \<open>The interface\<close>

locale apportionment =
  fixes apportion :: "(string \<times> rat) list \<Rightarrow> int \<Rightarrow> (string \<times> int) list"
  assumes keys: "map fst (apportion raw whole) = map fst raw"
    and conserves: "distinct (map fst raw) \<Longrightarrow> sum_list (map snd raw) = of_int whole \<Longrightarrow>
          dict_sum (apportion raw whole) = whole"
    and quota: "distinct (map fst raw) \<Longrightarrow> map_of raw k = Some s \<Longrightarrow>
          map_of (apportion raw whole) k = Some \<lfloor>s\<rfloor> \<or> map_of (apportion raw whole) k = Some (\<lfloor>s\<rfloor> + 1)"
begin

text \<open>What a client learns of one part: it exists, is less than one unit from its share, and
  non-negative when the share is.\<close>

lemma part_near:
  assumes "distinct (map fst raw)" "map_of raw k = Some s"
  shows "\<exists>a. map_of (apportion raw whole) k = Some a \<and> \<bar>of_int a - s\<bar> \<le> 1 \<and> (0 \<le> s \<longrightarrow> 0 \<le> a)"
proof -
  have s: "of_int \<lfloor>s\<rfloor> \<le> s" "s \<le> of_int \<lfloor>s\<rfloor> + 1" by linarith+
  from quota [OF assms, of whole] show ?thesis
  proof
    assume "map_of (apportion raw whole) k = Some \<lfloor>s\<rfloor>"
    then show ?thesis using s by (intro exI [of _ "\<lfloor>s\<rfloor>"]) auto
  next
    assume "map_of (apportion raw whole) k = Some (\<lfloor>s\<rfloor> + 1)"
    moreover have "0 \<le> s \<Longrightarrow> 0 \<le> \<lfloor>s\<rfloor>" by simp
    ultimately show ?thesis using s by (intro exI [of _ "\<lfloor>s\<rfloor> + 1"]) auto
  qed
qed

text \<open>Shares proportional to weights: the parts sum to the total whatever the weights.\<close>

lemma proportional_sum:
  assumes W: "sum_list (map snd ws) = W" "W \<noteq> 0"
  shows "sum_list (map snd (map (\<lambda>(k, w). (k, of_int whole * w / W)) ws)) = (of_int whole :: rat)"
proof -
  have "sum_list (map snd (map (\<lambda>(k, w). (k, of_int whole * w / W)) ws)) = of_int whole * sum_list (map snd ws) / W"
    by (induction ws) (auto simp: add_divide_distrib ring_distribs)
  with W show ?thesis by simp
qed

lemma proportional_conserves:
  assumes "distinct (map fst ws)" "sum_list (map snd ws) = W" "W \<noteq> 0"
  shows "dict_sum (apportion (map (\<lambda>(k, w). (k, of_int whole * w / W)) ws) whole) = whole"
  by (rule conserves [OF _ proportional_sum [OF assms(2,3)]]) (use assms(1) in \<open>simp add: o_def case_prod_unfold\<close>)

lemma part_nonneg:
  assumes "distinct (map fst raw)" "\<forall>(k, s) \<in> set raw. 0 \<le> s" "(k, a) \<in> set (apportion raw whole)"
  shows "0 \<le> a"
proof -
  have d: "distinct (map fst (apportion raw whole))" using assms(1) by (simp only: keys)
  have "k \<in> set (map fst raw)" using assms(3) by (metis keys list.set_map image_eqI fst_conv)
  then obtain s where s: "map_of raw k = Some s" by (metis map_of_eq_None_iff list.set_map not_None_eq)
  then have "0 \<le> s" using assms(2) map_of_SomeD by fastforce
  moreover have "map_of (apportion raw whole) k = Some a" using assms(3) d by simp
  ultimately show ?thesis using part_near [OF assms(1) s, of whole] by auto
qed

end

lemma prefix_distinct: "distinct xs \<Longrightarrow> distinct (py_prefix n xs)"
  by (simp add: py_prefix_def)

lemma prefix_subset: "set (py_prefix n xs) \<subseteq> set xs"
  by (auto simp: py_prefix_def dest: in_set_takeD)

interpretation largest: apportionment "largest_remainder tie_key" for tie_key :: "string \<Rightarrow> 'k::linorder"
proof
  fix raw :: "(string \<times> rat) list" and whole :: int and k s
  let ?floors = "map (\<lambda>(key, share). (key, share_floor share)) raw"
  let ?units = "whole - dict_sum ?floors"
  show keys: "map fst (largest_remainder tie_key raw whole) = map fst raw"
    by (simp add: largest_remainder_def Let_def case_prod_unfold)
  show "dict_sum (largest_remainder tie_key raw whole) = whole"
    if d: "distinct (map fst raw)" and sum: "sum_list (map snd raw) = of_int whole"
  proof -
    have u: "0 \<le> ?units" "?units \<le> int (length raw)" using floors_gap [OF sum] by simp_all
    have "dict_sum (largest_remainder tie_key raw whole)
        = dict_sum ?floors + int (length (py_prefix ?units (ranked_keys tie_key raw)))"
      unfolding largest_remainder_def Let_def
      using d prefix_subset [of ?units "ranked_keys tie_key raw"]
      by (intro fold_dict_add_sum) (auto simp: case_prod_unfold o_def)
    with u show ?thesis by (simp add: py_prefix_def)
  qed
  show "map_of (largest_remainder tie_key raw whole) k = Some \<lfloor>s\<rfloor>
      \<or> map_of (largest_remainder tie_key raw whole) k = Some (\<lfloor>s\<rfloor> + 1)"
    if d: "distinct (map fst raw)" and s: "map_of raw k = Some s"
    using s prefix_distinct [OF distinct_ranked_keys [OF d, of tie_key]]
    unfolding largest_remainder_def Let_def
    by (simp add: map_of_fold_dict_add map_of_floors [unfolded share_floor_def] share_floor_def)
qed

text \<open>apportioning exact shares that sum to a whole total by largest remainder loses and invents
  nothing: every key keeps one part, the parts sum to the total, and each part is its share rounded
  down or up.\<close>

lemma largest_remainder_apportions:
  fixes tie_key :: "string \<Rightarrow> 'k::linorder"
  assumes "distinct (map fst raw)" "sum_list (map snd raw) = of_int whole"
  shows "map fst (largest_remainder tie_key raw whole) = map fst raw
    \<and> dict_sum (largest_remainder tie_key raw whole) = whole
    \<and> (\<forall>k s. map_of raw k = Some s \<longrightarrow> map_of (largest_remainder tie_key raw whole) k \<in> {Some \<lfloor>s\<rfloor>, Some (\<lfloor>s\<rfloor> + 1)})"
  using largest.keys [of tie_key raw] largest.conserves [OF assms, of tie_key]
    largest.quota [OF assms(1), of _ _ tie_key whole] by blast

lemma largest_remainder_apportions_witness:
  "dict_sum (largest_remainder (\<lambda>k. k) [(''a'', 10 / 3), (''b'', 10 / 3), (''c'', 10 / 3)] 10) = 10"
  using largest_remainder_apportions [of "[(''a'', 10 / 3), (''b'', 10 / 3), (''c'', 10 / 3)]" 10 "\<lambda>k. k"]
  by simp

end
