(* ===== verification/TaskStepEnums.thy ===== *)
theory TaskStepEnums
  imports Prelude
begin

text \<open>
  The state vocabularies that several components share: \<open>domain/task_steps/enums.py\<close>,
  \<open>domain/task_steps/constants.py\<close>, \<open>domain/tasks/enums.py\<close> and \<open>domain/transitions/enums.py\<close>, with the frozen sets of terminal
  and time-bearing states.
\<close>

datatype task_step_state =
    StepPENDING
  | StepWORKING
  | StepPAUSED
  | StepBLOCKED
  | StepCOMPLETED
  | StepSKIPPED
  | StepFAILED
  | StepCANCELLED

datatype task_step_readiness = ReadinessBLOCKED | ReadinessPARTIAL | ReadinessREADY

datatype task_state =
    TaskPENDING
  | TaskASSIGNED
  | TaskWORKING
  | TaskSTALLED
  | TaskREADY
  | TaskRESOLVED
  | TaskFAILED
  | TaskCANCELLED

datatype task_type = TypeRETURN | TypePRE_ORDER | TypeINTERNAL

datatype task_return_source = SourceAFTER_PURCHASE | SourceBEFORE_PURCHASE | SourceSTORE_RETURN

datatype task_fulfillment_method = MethodPICKUP_AT_STORE | MethodDELIVERY

datatype task_item_role = RolePRIMARY | RoleRELATED

datatype post_handling_state = PostPENDING | PostFILLED | PostCOMPLETED

datatype coordination_state =
    CoordinationPENDING
  | CoordinationCOORDINATING
  | CoordinationCOMPLETED
  | CoordinationFAILED

datatype transition_reason =
    ReasonSHIFT_ENDED
  | ReasonOTHER_TASK_PRIORITY
  | ReasonWORKER_DECLARED_STATE
  | ReasonCASE_CREATED
  | ReasonFORCED_READY
  | ReasonTASK_DELETED

fun step_state_value :: "task_step_state \<Rightarrow> string" where
  "step_state_value StepPENDING = ''pending''"
| "step_state_value StepWORKING = ''working''"
| "step_state_value StepPAUSED = ''paused''"
| "step_state_value StepBLOCKED = ''blocked''"
| "step_state_value StepCOMPLETED = ''completed''"
| "step_state_value StepSKIPPED = ''skipped''"
| "step_state_value StepFAILED = ''failed''"
| "step_state_value StepCANCELLED = ''cancelled''"

definition all_step_states :: "task_step_state list" where
  "all_step_states = [StepPENDING, StepWORKING, StepPAUSED, StepBLOCKED, StepCOMPLETED, StepSKIPPED,
     StepFAILED, StepCANCELLED]"

definition TERMINAL_STEP_STATES :: "task_step_state set" where
  "TERMINAL_STEP_STATES = {StepCOMPLETED, StepSKIPPED, StepFAILED, StepCANCELLED}"

definition TIME_BEARING_STATES :: "task_step_state set" where
  "TIME_BEARING_STATES = {StepWORKING, StepPAUSED}"

definition TERMINAL_TASK_STATES :: "task_state set" where
  "TERMINAL_TASK_STATES = {TaskRESOLVED, TaskFAILED, TaskCANCELLED}"

lemma set_all_step_states: "s \<in> set all_step_states"
  by (cases s) (simp_all add: all_step_states_def)

lemma step_state_value_inj [simp]: "step_state_value a = step_state_value b \<longleftrightarrow> a = b"
  by (cases a; cases b; simp)

end
