(* ===== verification/BudgetDivision.thy ===== *)
theory BudgetDivision
  imports TaskStepEnums TypicalFilters Apportionment
begin

text \<open>
  \<open>domain/item_economics/budget_division.py\<close>: the division of a task's production budget. Live steps
  are grouped by working section; seconds already worked on excluded steps are charged first; the rest
  is apportioned over the participating sections by their typical weights and each section's slice
  over its steps (completed steps keep what they worked, open ones share the residual equally, or the
  governing completed step absorbs it).

  Timestamps are compared by the code through \<open>isoformat()\<close>; the rows are timezone-aware in one
  zone, where that is the chronological order, so they are \<open>int\<close> microseconds here. A dictionary
  access that could fail is a \<open>KeyError\<close> branch; the lemmas show that none is taken, and that the
  budget is conserved through both levels.
\<close>

section \<open>Steps and groups\<close>

record division_step =
  ds_client_id :: string
  ds_state :: task_step_state
  ds_working_section_id :: string
  ds_total_working_seconds :: "int option"
  ds_sequence_order :: "int option"
  ds_section_name_snapshot :: "string option"
  ds_is_deleted :: bool
  ds_created_at :: "int option"
  ds_entered_at :: "int option"  \<comment> \<open>of the loaded latest state record\<close>

record section_attribute =
  sa_name :: "string option"
  sa_order_list :: "int option"

record section_group =
  sg_section_id :: string
  sg_steps :: "division_step list"
  sg_step_ids :: "string list"
  sg_step_count :: int
  sg_worked_seconds :: int
  sg_section_name :: "string option"
  sg_order_list :: "int option"
  sg_state :: string
  sg_state_entered_at :: "int option"
  sg_section_name_snapshot :: "string option"

definition EXCLUDED_STEP_STATES :: "task_step_state set" where
  "EXCLUDED_STEP_STATES = {StepSKIPPED, StepCANCELLED, StepFAILED}"

definition step_seconds :: "division_step \<Rightarrow> int" where
  "step_seconds s = (case ds_total_working_seconds s of None \<Rightarrow> 0 | Some n \<Rightarrow> n)"

definition step_state_is_terminal :: "division_step \<Rightarrow> bool" where
  "step_state_is_terminal s \<longleftrightarrow> ds_state s \<in> TERMINAL_STEP_STATES"

definition step_state_is_excluded :: "division_step \<Rightarrow> bool" where
  "step_state_is_excluded s \<longleftrightarrow> ds_state s \<in> EXCLUDED_STEP_STATES"

definition step_state_is_open :: "division_step \<Rightarrow> bool" where
  "step_state_is_open s \<longleftrightarrow> ds_state s \<notin> TERMINAL_STEP_STATES"

definition step_sort_key :: "division_step \<Rightarrow> bool \<times> int \<times> string" where
  "step_sort_key s = (ds_sequence_order s = None,
     (case ds_sequence_order s of None \<Rightarrow> 0 | Some n \<Rightarrow> n), ds_client_id s)"

definition time_key :: "int option \<Rightarrow> bool \<times> int" where
  "time_key v = (case v of None \<Rightarrow> (False, 0) | Some t \<Rightarrow> (True, t))"

definition governing_step :: "division_step list \<Rightarrow> division_step result" where
  "governing_step steps =
     (let live_steps = filter (\<lambda>s. \<not> step_state_is_terminal s) steps;
          candidates = (if live_steps \<noteq> [] then live_steps else steps);
          by_id = sort_key ds_client_id candidates;
          by_created = sort_key_reverse (\<lambda>s. time_key (ds_created_at s)) by_id;
          by_entered = sort_key_reverse (\<lambda>s. time_key (ds_entered_at s)) by_created
      in case by_entered of [] \<Rightarrow> Inl IndexError | s # _ \<Rightarrow> Inr s)"

text \<open>\<open>groups.setdefault(section_id, ...)\<close> followed by the appends.\<close>

fun add_to_groups :: "(string \<times> division_step list) list \<Rightarrow> division_step \<Rightarrow> (string \<times> division_step list) list" where
  "add_to_groups [] s = [(ds_working_section_id s, [s])]"
| "add_to_groups ((k, ss) # gs) s =
     (if k = ds_working_section_id s then (k, ss @ [s]) # gs else (k, ss) # add_to_groups gs s)"

definition raw_groups :: "division_step list \<Rightarrow> (string \<times> division_step list) list" where
  "raw_groups steps = foldl add_to_groups [] (filter (\<lambda>s. \<not> ds_is_deleted s) steps)"

text \<open>The name and order of a section: from the attributes of the caller when it passes any mapping
  (even one without the section), otherwise from the first step.\<close>

definition group_attributes ::
  "(string \<times> section_attribute) list option \<Rightarrow> string \<Rightarrow> division_step list \<Rightarrow> string option \<times> int option" where
  "group_attributes section_attributes section_id steps =
     (case section_attributes of
        None \<Rightarrow> (ds_section_name_snapshot (hd steps), None)
      | Some as \<Rightarrow>
          (case map_of as section_id of
             None \<Rightarrow> (None, None)
           | Some a \<Rightarrow> (sa_name a, sa_order_list a)))"

definition name_snapshot :: "division_step \<Rightarrow> division_step list \<Rightarrow> string option" where
  "name_snapshot governing steps =
     (case ds_section_name_snapshot governing of
        Some n \<Rightarrow> Some n
      | None \<Rightarrow> (case filter (\<lambda>n. n \<noteq> None) (map ds_section_name_snapshot steps) of [] \<Rightarrow> None | n # _ \<Rightarrow> n))"

definition build_group ::
  "(string \<times> section_attribute) list option \<Rightarrow> string \<times> division_step list \<Rightarrow> section_group result" where
  "build_group section_attributes g =
     (let section_id = fst g; steps = snd g; attrs = group_attributes section_attributes section_id steps in
      rbind (governing_step steps)
      (\<lambda>governing. Inr \<lparr>sg_section_id = section_id, sg_steps = steps, sg_step_ids = map ds_client_id steps,
         sg_step_count = int (length steps), sg_worked_seconds = sum_list (map step_seconds steps),
         sg_section_name = fst attrs, sg_order_list = snd attrs,
         sg_state = step_state_value (ds_state governing), sg_state_entered_at = ds_entered_at governing,
         sg_section_name_snapshot = name_snapshot governing steps\<rparr>))"

definition group_steps_by_section ::
  "division_step list \<Rightarrow> (string \<times> section_attribute) list option \<Rightarrow> section_group list result" where
  "group_steps_by_section steps section_attributes = rmap (build_group section_attributes) (raw_groups steps)"

definition section_sort_key :: "section_group \<Rightarrow> bool \<times> int \<times> string \<times> string" where
  "section_sort_key g = (sg_order_list g = None, (case sg_order_list g of None \<Rightarrow> 0 | Some n \<Rightarrow> n),
     (case sg_section_name g of None \<Rightarrow> [] | Some n \<Rightarrow> n), sg_section_id g)"

definition participating_sections :: "division_step list \<Rightarrow> string set" where
  "participating_sections steps =
     ds_working_section_id ` set (filter (\<lambda>s. \<not> ds_is_deleted s \<and> \<not> step_state_is_excluded s) steps)"

section \<open>The budget\<close>

text \<open>\<open>int((minutes * Decimal(60)).quantize(Decimal("1"), ROUND_HALF_EVEN))\<close> in the default context.\<close>

definition budget_seconds :: "decimal \<Rightarrow> int result" where
  "budget_seconds minutes =
     rbind (dec_quantize 28 (dec_mul 28 minutes (dec_of_int 60)) 0) (\<lambda>q. Inr (dec_to_int q))"

definition section_step_allowances :: "section_group \<Rightarrow> int \<Rightarrow> (string \<times> int) list result" where
  "section_step_allowances g section_allowance =
     (let allocatable = filter (\<lambda>s. \<not> step_state_is_excluded s) (sg_steps g);
          completed = filter (\<lambda>s. ds_state s = StepCOMPLETED) allocatable;
          open_steps = filter step_state_is_open allocatable;
          allowances = dict_of (map (\<lambda>s. (ds_client_id s, step_seconds s)) completed);
          residual = section_allowance - dict_sum allowances
      in if open_steps \<noteq> [] then
           let raw = dict_of (map (\<lambda>s. (ds_client_id s, of_int residual / of_nat (length open_steps))) open_steps);
               tie = (\<lambda>client_id. step_sort_key (hd (filter (\<lambda>s. ds_client_id s = client_id) open_steps)))
           in Inr (dict_update allowances (largest_remainder tie raw residual))
         else rbind (governing_step completed)
              (\<lambda>governing. Inr (dict_add (ds_client_id governing) residual allowances)))"

record step_row =
  sr_step_id :: string
  sr_state :: string
  sr_working_section_id :: string
  sr_section_name_snapshot :: "string option"
  sr_typical_worker_seconds :: "int option"
  sr_typical_basis :: string
  sr_sample_count :: int
  sr_allowance_seconds :: "int option"
  sr_worked_seconds :: int
  sr_left_seconds :: "int option"
  sr_share_state :: string
  sr_sort_step :: division_step

definition step_result ::
  "division_step \<Rightarrow> int option \<Rightarrow> int option \<Rightarrow> string \<Rightarrow> (string \<times> selected_typical) list \<Rightarrow> step_row" where
  "step_result s allowance left share_state typicals =
     (let sel = map_of typicals (ds_working_section_id s) in
      \<lparr>sr_step_id = ds_client_id s, sr_state = step_state_value (ds_state s),
       sr_working_section_id = ds_working_section_id s,
       sr_section_name_snapshot = ds_section_name_snapshot s,
       sr_typical_worker_seconds = (case sel of None \<Rightarrow> None | Some t \<Rightarrow> st_typical_worker_seconds t),
       sr_typical_basis = (case sel of None \<Rightarrow> ''insufficient_sample'' | Some t \<Rightarrow> st_typical_basis t),
       sr_sample_count = (case sel of None \<Rightarrow> 0 | Some t \<Rightarrow> st_sample_count t),
       sr_allowance_seconds = allowance, sr_worked_seconds = step_seconds s, sr_left_seconds = left,
       sr_share_state = share_state, sr_sort_step = s\<rparr>)"

record section_row =
  row_group :: section_group
  row_allowance_seconds :: "int option"
  row_left_seconds :: "int option"
  row_share_state :: string

record division =
  dv_budget_seconds :: "int option"
  dv_charged_seconds :: "int option"
  dv_distributable_seconds :: "int option"
  dv_sections :: "section_row list"
  dv_steps :: "step_row list"

definition sort_step_rows :: "step_row list \<Rightarrow> step_row list" where
  "sort_step_rows rows = sort_key (\<lambda>r. step_sort_key (sr_sort_step r)) rows"

text \<open>The rows of one group in the main loop.\<close>

definition lookup :: "(string \<times> 'v) list \<Rightarrow> string \<Rightarrow> 'v result" where
  "lookup d k = (case map_of d k of None \<Rightarrow> Inl (KeyError k) | Some v \<Rightarrow> Inr v)"

definition allocated_step_row ::
  "(string \<times> int) list \<Rightarrow> string \<Rightarrow> (string \<times> selected_typical) list \<Rightarrow> division_step \<Rightarrow> step_row result" where
  "allocated_step_row split section_state typicals s =
     (if step_state_is_excluded s then Inr (step_result s None None ''excluded'' typicals)
      else rbind (lookup split (ds_client_id s))
           (\<lambda>a. Inr (step_result s (Some a) (Some (a - step_seconds s)) section_state typicals)))"

definition group_rows ::
  "section_group list \<Rightarrow> (string \<times> int) list \<Rightarrow> (string \<times> selected_typical) list \<Rightarrow> section_group
   \<Rightarrow> (section_row \<times> step_row list) result" where
  "group_rows allocated section_allowances typicals g =
     (if g \<notin> set allocated then
        Inr (\<lparr>row_group = g, row_allowance_seconds = None, row_left_seconds = None, row_share_state = ''excluded''\<rparr>,
             map (\<lambda>s. step_result s None None ''excluded'' typicals) (sg_steps g))
      else rbind (lookup section_allowances (sg_section_id g))
        (\<lambda>allowance. let worked = sg_worked_seconds g;
             section_state = (if worked > allowance then ''over_share'' else ''on_track'') in
         rbind (section_step_allowances g allowance)
         (\<lambda>split. rbind (rmap (allocated_step_row split section_state typicals) (sg_steps g))
         (\<lambda>rows. Inr (\<lparr>row_group = g, row_allowance_seconds = Some allowance,
             row_left_seconds = Some (allowance - worked), row_share_state = section_state\<rparr>, rows)))))"

definition section_weights :: "(string \<times> selected_typical) list \<Rightarrow> section_group list \<Rightarrow> (string \<times> rat) list" where
  "section_weights typicals allocated =
     (let selected_values = map (\<lambda>g. case map_of typicals (sg_section_id g) of None \<Rightarrow> None
            | Some t \<Rightarrow> map_option of_int (st_typical_worker_seconds t)) allocated
      in zip (map sg_section_id allocated) (apply_business_fallback selected_values 1))"

definition raw_section_shares :: "int \<Rightarrow> (string \<times> rat) list \<Rightarrow> (string \<times> rat) list" where
  "raw_section_shares distributable weights =
     (let total_weight = sum_list (map snd weights)
      in map (\<lambda>(k, w). (k, of_int distributable * w / total_weight)) weights)"

definition divide_production_budget ::
  "decimal option \<Rightarrow> division_step list \<Rightarrow> (string \<times> selected_typical) list
   \<Rightarrow> (string \<times> section_attribute) list option \<Rightarrow> division result" where
  "divide_production_budget allowed_worker_minutes steps typicals section_attributes =
     (let live_steps = filter (\<lambda>s. \<not> ds_is_deleted s) steps in
      rbind (group_steps_by_section live_steps section_attributes)
      (\<lambda>groups. case allowed_worker_minutes of
        None \<Rightarrow> Inr \<lparr>dv_budget_seconds = None, dv_charged_seconds = None, dv_distributable_seconds = None,
          dv_sections = map (\<lambda>g. \<lparr>row_group = g, row_allowance_seconds = None, row_left_seconds = None,
              row_share_state = ''no_budget''\<rparr>) (sort_key section_sort_key groups),
          dv_steps = sort_step_rows (map (\<lambda>s. step_result s None None ''no_budget'' typicals) live_steps)\<rparr>
      | Some minutes \<Rightarrow>
        rbind (budget_seconds minutes)
        (\<lambda>budget. let excluded = filter step_state_is_excluded live_steps;
             participating = participating_sections live_steps;
             allocated = filter (\<lambda>g. sg_section_id g \<in> participating) groups;
             charged = sum_list (map step_seconds excluded);
             distributable = max 0 (budget - charged);
             section_allowances = largest_remainder (\<lambda>section_id. section_id)
               (raw_section_shares distributable (section_weights typicals allocated)) distributable
         in rbind (rmap (group_rows allocated section_allowances typicals) groups)
         (\<lambda>rows. Inr \<lparr>dv_budget_seconds = Some budget, dv_charged_seconds = Some charged,
            dv_distributable_seconds = Some distributable,
            dv_sections = sort_key (\<lambda>r. section_sort_key (row_group r)) (map fst rows),
            dv_steps = sort_step_rows (concat (map snd rows))\<rparr>))))"

text \<open>\<open>attach_live_accrual\<close>: the two overlay columns of a served row.\<close>

definition attach_live_accrual ::
  "step_row list \<Rightarrow> (string \<times> 'r) list \<Rightarrow> (string \<times> 'c) list \<Rightarrow> (step_row \<times> 'r option \<times> 'c option) list" where
  "attach_live_accrual step_rows accrual_rate concurrency =
     map (\<lambda>row. if sr_share_state row = ''excluded'' then (row, None, None)
                else (row, map_of accrual_rate (sr_step_id row), map_of concurrency (sr_step_id row))) step_rows"

section \<open>Grouping\<close>

lemma add_to_groups_map:
  "distinct ks \<Longrightarrow>
   add_to_groups (map (\<lambda>k. (k, f k)) ks) s =
     (if ds_working_section_id s \<in> set ks
      then map (\<lambda>k. (k, if k = ds_working_section_id s then f k @ [s] else f k)) ks
      else map (\<lambda>k. (k, f k)) ks @ [(ds_working_section_id s, [s])])"
  by (induction ks) (auto intro!: map_cong)

lemma foldl_groups:
  "foldl add_to_groups [] ss =
     map (\<lambda>k. (k, filter (\<lambda>s. ds_working_section_id s = k) ss)) (dedupe (map ds_working_section_id ss))"
proof (induction ss rule: rev_induct)
  case (snoc s ss)
  let ?w = "ds_working_section_id s"
  have "?w \<notin> ds_working_section_id ` set ss \<Longrightarrow> filter (\<lambda>t. ds_working_section_id t = ?w) ss = []"
    by (metis (mono_tags, lifting) filter_False image_eqI)
  then show ?case
    by (auto simp: snoc add_to_groups_map dedupe_snoc intro!: map_cong)
qed simp

lemma raw_groups_eq:
  "raw_groups steps =
     (let live = filter (\<lambda>s. \<not> ds_is_deleted s) steps
      in map (\<lambda>k. (k, filter (\<lambda>s. ds_working_section_id s = k) live)) (dedupe (map ds_working_section_id live)))"
  by (simp add: raw_groups_def foldl_groups Let_def)

lemma sort_key_Nil_iff: "sort_key f xs = [] \<longleftrightarrow> xs = []"
  by (metis length_0_conv length_sort)

lemma governing_step_total:
  assumes "steps \<noteq> []"
  shows "\<exists>g \<in> set steps. governing_step steps = Inr g"
proof -
  define cs where "cs = (if filter (\<lambda>s. \<not> step_state_is_terminal s) steps \<noteq> []
    then filter (\<lambda>s. \<not> step_state_is_terminal s) steps else steps)"
  define xs where "xs = sort_key_reverse (\<lambda>s. time_key (ds_entered_at s))
    (sort_key_reverse (\<lambda>s. time_key (ds_created_at s)) (sort_key ds_client_id cs))"
  have "cs \<noteq> []" using assms by (simp add: cs_def)
  then have "xs \<noteq> []" by (simp add: xs_def sort_key_Nil_iff)
  then obtain g ys where xs: "xs = g # ys" by (cases xs) auto
  have "set xs = set cs" by (simp add: xs_def)
  then have "g \<in> set steps" using xs by (auto simp: cs_def split: if_splits)
  moreover have "governing_step steps = Inr g"
    unfolding governing_step_def Let_def cs_def [symmetric] xs_def [symmetric] by (simp add: xs)
  ultimately show ?thesis by blast
qed

text \<open>The facts about the groups that the division uses.\<close>

lemma group_steps_shape:
  assumes live: "\<forall>s \<in> set steps. \<not> ds_is_deleted s" and groups: "group_steps_by_section steps as = Inr groups"
  shows "map sg_section_id groups = dedupe (map ds_working_section_id steps)"
    and "g \<in> set groups \<Longrightarrow> sg_steps g = filter (\<lambda>s. ds_working_section_id s = sg_section_id g) steps
           \<and> sg_worked_seconds g = sum_list (map step_seconds (sg_steps g))"
proof -
  have f: "filter (\<lambda>s. \<not> ds_is_deleted s) steps = steps" using live by (simp add: filter_id_conv)
  let ?mk = "\<lambda>k. (k, filter (\<lambda>s. ds_working_section_id s = k) steps)"
  have l: "list_all2 (\<lambda>x y. build_group as x = Inr y) (map ?mk (dedupe (map ds_working_section_id steps))) groups"
    using groups by (simp add: group_steps_by_section_def rmap_Inr_iff raw_groups_eq f)
  have b: "build_group as x = Inr g \<Longrightarrow> sg_section_id g = fst x \<and> sg_steps g = snd x
      \<and> sg_worked_seconds g = sum_list (map step_seconds (snd x))" for x g
    by (auto simp: build_group_def Let_def)
  have "list_all2 (\<lambda>k g. sg_section_id g = k \<and> sg_steps g = snd (?mk k)
      \<and> sg_worked_seconds g = sum_list (map step_seconds (sg_steps g)))
      (dedupe (map ds_working_section_id steps)) groups"
    using l unfolding list_all2_map1 by (rule list_all2_mono) (auto dest: b)
  then have m: "map sg_section_id groups = dedupe (map ds_working_section_id steps)"
    "\<forall>g \<in> set groups. sg_steps g = filter (\<lambda>s. ds_working_section_id s = sg_section_id g) steps
      \<and> sg_worked_seconds g = sum_list (map step_seconds (sg_steps g))"
    by (induction rule: list_all2_induct) auto
  show "map sg_section_id groups = dedupe (map ds_working_section_id steps)" by (rule m(1))
  show "g \<in> set groups \<Longrightarrow> sg_steps g = filter (\<lambda>s. ds_working_section_id s = sg_section_id g) steps
      \<and> sg_worked_seconds g = sum_list (map step_seconds (sg_steps g))"
    using m(2) by blast
qed

lemma group_steps_total: "\<exists>groups. group_steps_by_section steps as = Inr groups"
  unfolding group_steps_by_section_def
proof (rule rmap_total)
  fix x assume "x \<in> set (raw_groups steps)"
  then have "snd x \<noteq> []" by (auto simp: raw_groups_eq Let_def filter_empty_conv)
  then show "\<exists>g. build_group as x = Inr g"
    using governing_step_total [of "snd x"] by (auto simp: build_group_def Let_def)
qed

section \<open>Splitting a section's slice\<close>

lemma filter_completed_open:
  "filter (\<lambda>s. ds_state s = StepCOMPLETED) (filter (\<lambda>s. \<not> step_state_is_excluded s) ss) = filter (\<lambda>s. ds_state s = StepCOMPLETED) ss"
  "filter step_state_is_open (filter (\<lambda>s. \<not> step_state_is_excluded s) ss) = filter step_state_is_open ss"
  "\<not> step_state_is_excluded s \<longleftrightarrow> ds_state s = StepCOMPLETED \<or> step_state_is_open s"
  "step_state_is_open s \<Longrightarrow> ds_state s \<noteq> StepCOMPLETED"
  by (auto simp: filter_filter step_state_is_excluded_def EXCLUDED_STEP_STATES_def step_state_is_open_def
      TERMINAL_STEP_STATES_def intro!: filter_cong)

lemma equal_shares_sum:
  "xs \<noteq> [] \<Longrightarrow> sum_list (map snd (map (\<lambda>s. (f s, of_int r / of_nat (length xs))) xs)) = (of_int r :: rat)"
proof -
  have "sum_list (map snd (map (\<lambda>s. (f s, c)) ys)) = of_nat (length ys) * c" for ys and c :: rat
    by (induction ys) (auto simp: algebra_simps)
  then show "xs \<noteq> [] \<Longrightarrow> ?thesis" by simp
qed

lemma section_step_allowances_conserve:
  assumes ids: "distinct (map ds_client_id (sg_steps g))"
    and some: "\<exists>s \<in> set (sg_steps g). \<not> step_state_is_excluded s"
  shows "\<exists>d. section_step_allowances g a = Inr d \<and> dict_sum d = a \<and> distinct (map fst d)
    \<and> set (map fst d) = ds_client_id ` {s \<in> set (sg_steps g). \<not> step_state_is_excluded s}"
proof -
  let ?ss = "sg_steps g"
  define completed where "completed = filter (\<lambda>s. ds_state s = StepCOMPLETED) ?ss"
  define open_steps where "open_steps = filter step_state_is_open ?ss"
  define base where "base = map (\<lambda>s. (ds_client_id s, step_seconds s)) completed"
  define raw where "raw = map (\<lambda>s. (ds_client_id s, of_int (a - dict_sum base) / of_nat (length open_steps) :: rat)) open_steps"
  define tie where "tie = (\<lambda>client_id. step_sort_key (hd (filter (\<lambda>s. ds_client_id s = client_id) open_steps)))"
  have inj: "inj_on ds_client_id (set ?ss)" using ids by (simp add: distinct_map)
  have keys: "map fst base = map ds_client_id completed" "map fst raw = map ds_client_id open_steps"
    by (simp_all add: base_def raw_def o_def)
  have dist: "distinct (map fst base)" "distinct (map fst raw)"
    using ids unfolding keys completed_def open_steps_def by (simp_all add: distinct_map_filter)
  have disj: "set (map fst raw) \<inter> set (map fst base) = {}"
    unfolding keys using inj filter_completed_open(4)
    by (auto simp: completed_def open_steps_def dest: inj_onD)
  have kset: "{s \<in> set ?ss. \<not> step_state_is_excluded s} = set completed \<union> set open_steps"
    using filter_completed_open(3) by (auto simp: completed_def open_steps_def)
  have unfold: "section_step_allowances g a =
      (if open_steps \<noteq> [] then Inr (dict_update base (largest_remainder tie raw (a - dict_sum base)))
       else rbind (governing_step completed) (\<lambda>gv. Inr (dict_add (ds_client_id gv) (a - dict_sum base) base)))"
    unfolding section_step_allowances_def Let_def filter_completed_open(1,2) completed_def [symmetric]
      open_steps_def [symmetric] base_def [symmetric] dict_of_distinct [OF dist(1)] raw_def [symmetric]
      dict_of_distinct [OF dist(2)] tie_def [symmetric] ..
  show ?thesis
  proof (cases "open_steps = []")
    case False
    let ?l = "largest_remainder tie raw (a - dict_sum base)"
    have lk: "map fst ?l = map fst raw" by (rule largest.keys)
    have "dict_sum ?l = a - dict_sum base"
      using equal_shares_sum [OF False] by (intro largest.conserves [OF dist(2)]) (simp only: raw_def)
    moreover have "dict_update base ?l = base @ ?l"
      using dist disj unfolding lk [symmetric] by (intro dict_update_new) simp_all
    moreover have "map fst (base @ ?l) = map ds_client_id completed @ map ds_client_id open_steps"
      unfolding map_append lk keys ..
    moreover have "distinct (map ds_client_id completed @ map ds_client_id open_steps)"
      using dist disj unfolding keys by auto
    moreover from calculation(3) have "set (map fst (base @ ?l)) = ds_client_id ` (set completed \<union> set open_steps)"
      by (simp only: set_append set_map image_Un)
    ultimately show ?thesis
      using False unfolding unfold kset by (simp del: map_append set_map)
  next
    case True
    with some kset have "completed \<noteq> []" by auto
    then obtain gv where gv: "governing_step completed = Inr gv" "gv \<in> set completed"
      using governing_step_total by blast
    have new: "fst ` set (dict_add k v base) = ds_client_id ` set completed" for k v
      by (metis dict_add_keys keys(1) list.set_map)
    from gv have "ds_client_id gv \<in> set (map fst base)" by (simp add: keys)
    from dict_sum_add [OF dist(1) this] show ?thesis
      using True dist(1) gv(1) new unfolding unfold kset keys by (simp add: keys)
  qed
qed

section \<open>Conservation of the budget\<close>

definition row_allowances :: "step_row list \<Rightarrow> int" where
  "row_allowances rows = sum_list (map (\<lambda>r. case sr_allowance_seconds r of None \<Rightarrow> 0 | Some a \<Rightarrow> a) rows)"

lemma row_allowances_append: "row_allowances (xs @ ys) = row_allowances xs + row_allowances ys"
  by (simp add: row_allowances_def)

lemma dict_sum_keys: "distinct (map fst d) \<Longrightarrow> dict_sum d = (\<Sum>k\<in>set (map fst d). the (map_of d k))"
proof (induction d)
  case (Cons x d)
  obtain k v where x: "x = (k, v)" by (cases x)
  have "(\<Sum>j\<in>set (map fst d). the (map_of (x # d) j)) = (\<Sum>j\<in>set (map fst d). the (map_of d j))"
    using Cons.prems by (intro sum.cong) (auto simp: x)
  with Cons show ?case by (simp add: x dict_sum_def)
qed (simp add: dict_sum_def)

lemma allocated_rows_sum:
  assumes ids: "distinct (map ds_client_id ss)" and split: "distinct (map fst d)"
    and keys: "set (map fst d) = ds_client_id ` {s \<in> set ss. \<not> step_state_is_excluded s}"
  shows "\<exists>rows. rmap (allocated_step_row d st typicals) ss = Inr rows \<and> row_allowances rows = dict_sum d"
proof -
  let ?a = "\<lambda>s. if step_state_is_excluded s then 0 else the (map_of d (ds_client_id s))"
  have "\<exists>rows. rmap (allocated_step_row d st typicals) ss' = Inr rows
      \<and> row_allowances rows = sum_list (map ?a ss')" if "set ss' \<subseteq> set ss" for ss'
    using that
  proof (induction ss')
    case (Cons s ss')
    then obtain rows where rows: "rmap (allocated_step_row d st typicals) ss' = Inr rows"
        "row_allowances rows = sum_list (map ?a ss')" by auto
    have "\<exists>r. allocated_step_row d st typicals s = Inr r \<and> row_allowances [r] = ?a s"
    proof (cases "step_state_is_excluded s")
      case False
      with Cons.prems keys have "ds_client_id s \<in> set (map fst d)" by simp
      then obtain v where "map_of d (ds_client_id s) = Some v" by (metis map_of_eq_None_iff not_None_eq list.set_map)
      with False show ?thesis by (simp add: allocated_step_row_def lookup_def step_result_def row_allowances_def Let_def)
    qed (simp add: allocated_step_row_def step_result_def row_allowances_def Let_def)
    with rows show ?case by (auto simp: row_allowances_def)
  qed (simp add: row_allowances_def)
  then obtain rows where rows: "rmap (allocated_step_row d st typicals) ss = Inr rows"
      "row_allowances rows = sum_list (map ?a ss)" by blast
  have "sum_list (map ?a ss) = (\<Sum>s\<in>set ss. ?a s)"
    using ids by (intro sum_list_distinct_conv_sum_set) (simp add: distinct_map)
  also have "\<dots> = (\<Sum>s\<in>{s \<in> set ss. \<not> step_state_is_excluded s}. the (map_of d (ds_client_id s)))"
    by (rule sum.mono_neutral_cong_right) auto
  also have "\<dots> = (\<Sum>k\<in>set (map fst d). the (map_of d k))"
    unfolding keys using ids by (intro sum.reindex_cong [symmetric, of ds_client_id])
      (auto simp: distinct_map intro: inj_on_subset)
  also have "\<dots> = dict_sum d" using dict_sum_keys [OF split] ..
  finally show ?thesis using rows by auto
qed

text \<open>The rows of one group: they exist, and their allowances add up to the section's.\<close>

definition section_allowance :: "section_row \<Rightarrow> int" where
  "section_allowance r = (case row_allowance_seconds r of None \<Rightarrow> 0 | Some a \<Rightarrow> a)"

lemma group_rows_conserve:
  assumes ids: "distinct (map ds_client_id (sg_steps g))"
    and alloc: "g \<in> set allocated \<Longrightarrow> (\<exists>s \<in> set (sg_steps g). \<not> step_state_is_excluded s)
      \<and> map_of allowances (sg_section_id g) = Some a"
  shows "\<exists>r rows. group_rows allocated allowances typicals g = Inr (r, rows)
    \<and> row_group r = g \<and> row_allowances rows = section_allowance r
    \<and> row_allowance_seconds r = (if g \<in> set allocated then Some a else None)
    \<and> map sr_step_id rows = map ds_client_id (sg_steps g)
    \<and> (g \<in> set allocated \<longrightarrow> row_left_seconds r = Some (a - sg_worked_seconds g)
         \<and> row_share_state r = (if sg_worked_seconds g > a then ''over_share'' else ''on_track''))"
proof (cases "g \<in> set allocated")
  case False
  have "row_allowances (map (\<lambda>s. step_result s None None e typicals) ss) = 0" for ss e
    by (induction ss) (auto simp: row_allowances_def step_result_def Let_def)
  with False show ?thesis
    by (simp add: group_rows_def section_allowance_def o_def) (simp add: step_result_def Let_def)
next
  case True
  obtain d where d: "section_step_allowances g a = Inr d" "dict_sum d = a" "distinct (map fst d)"
      "set (map fst d) = ds_client_id ` {s \<in> set (sg_steps g). \<not> step_state_is_excluded s}"
    using section_step_allowances_conserve [OF ids] alloc [OF True] by blast
  let ?st = "if sg_worked_seconds g > a then ''over_share'' else ''on_track''"
  obtain rows where rows: "rmap (allocated_step_row d ?st typicals) (sg_steps g) = Inr rows" "row_allowances rows = a"
    using allocated_rows_sum [OF ids d(3,4)] d(2) by blast
  have "map sr_step_id rows = map ds_client_id (sg_steps g)"
    using rows(1) unfolding rmap_Inr_iff
    by (rule list_all2_induct) (auto simp: allocated_step_row_def step_result_def Let_def split: if_splits)
  then show ?thesis
    using True alloc [OF True] d(1) rows by (simp add: group_rows_def lookup_def section_allowance_def Let_def)
qed

text \<open>The section shares: positive weights, so proportional shares that sum to the distributable.\<close>

lemma sum_list_positive: "xs \<noteq> [] \<Longrightarrow> \<forall>x \<in> set xs. 0 < x \<Longrightarrow> 0 < sum_list (xs :: rat list)"
proof (induction xs)
  case (Cons x xs)
  then show ?case by (cases "xs = []") (simp_all add: add_pos_pos)
qed simp

lemma section_weights_facts:
  assumes d: "distinct (map sg_section_id allocated)"
  shows "map fst (section_weights typicals allocated) = map sg_section_id allocated"
    and "\<forall>(k, w) \<in> set (section_weights typicals allocated). 0 < w"
    and "allocated \<noteq> [] \<Longrightarrow> 0 < sum_list (map snd (section_weights typicals allocated))"
proof -
  show m: "map fst (section_weights typicals allocated) = map sg_section_id allocated"
    by (simp add: section_weights_def Let_def)
  show p: "\<forall>(k, w) \<in> set (section_weights typicals allocated). 0 < w"
    by (auto simp: section_weights_def Let_def dest!: set_zip_rightD intro: fallback_positive [of 1])
  show "0 < sum_list (map snd (section_weights typicals allocated))" if "allocated \<noteq> []"
  proof -
    have "section_weights typicals allocated \<noteq> []" using m that by (metis map_is_Nil_conv)
    then show ?thesis using p by (intro sum_list_positive) (auto simp: case_prod_unfold)
  qed
qed

lemma map_of_map_weights: "map_of (map (\<lambda>(k, w). (k, f w)) ws) k = map_option f (map_of ws k)"
  by (induction ws) auto

lemma raw_section_shares_keys [simp]: "map fst (raw_section_shares n ws) = map fst ws"
  by (simp add: raw_section_shares_def Let_def case_prod_unfold)

lemma section_shares_conserve:
  assumes "distinct (map sg_section_id allocated)" "allocated \<noteq> []"
  shows "dict_sum (largest_remainder tie (raw_section_shares n (section_weights typicals allocated)) n) = n"
  unfolding raw_section_shares_def Let_def
  by (rule largest.proportional_conserves [OF _ refl])
    (use section_weights_facts [OF assms(1), of typicals] assms in simp_all)

text \<open>The distribution over the groups, given what grouping established.\<close>

lemma distribute_groups:
  assumes part: "allocated = filter (\<lambda>g. sg_section_id g \<in> P) groups"
    and dist: "distinct (map sg_section_id groups)"
    and ids: "\<And>g. g \<in> set groups \<Longrightarrow> distinct (map ds_client_id (sg_steps g))"
    and some: "\<And>g. g \<in> set allocated \<Longrightarrow> \<exists>s \<in> set (sg_steps g). \<not> step_state_is_excluded s"
    and keys: "map fst allowances = map sg_section_id allocated"
  shows "\<exists>rows. rmap (group_rows allocated allowances typicals) groups = Inr rows
    \<and> map (\<lambda>r. row_group (fst r)) rows = groups
    \<and> (\<forall>r \<in> set rows. row_allowances (snd r) = section_allowance (fst r)
         \<and> map sr_step_id (snd r) = map ds_client_id (sg_steps (row_group (fst r)))
         \<and> row_allowance_seconds (fst r)
             = (if row_group (fst r) \<in> set allocated then map_of allowances (sg_section_id (row_group (fst r))) else None))
    \<and> sum_list (map (\<lambda>r. section_allowance (fst r)) rows) = dict_sum allowances"
proof -
  let ?a = "\<lambda>g. the (map_of allowances (sg_section_id g))"
  have one: "\<exists>r. group_rows allocated allowances typicals g = Inr r \<and> row_group (fst r) = g
      \<and> row_allowances (snd r) = section_allowance (fst r)
      \<and> map sr_step_id (snd r) = map ds_client_id (sg_steps g)
      \<and> row_allowance_seconds (fst r) = (if g \<in> set allocated then Some (?a g) else None)
      \<and> (g \<in> set allocated \<longrightarrow> map_of allowances (sg_section_id g) = Some (?a g))"
    if g: "g \<in> set groups" for g
  proof -
    have m: "map_of allowances (sg_section_id g) = Some (?a g)" if "g \<in> set allocated"
    proof -
      have "sg_section_id g \<in> set (map fst allowances)" using that unfolding keys by simp
      then show ?thesis by (metis map_of_eq_None_iff option.collapse list.set_map)
    qed
    with group_rows_conserve [OF ids [OF g], of allocated allowances "?a g" typicals] some show ?thesis
      by fastforce
  qed
  have "\<exists>rows. rmap (group_rows allocated allowances typicals) gs = Inr rows
      \<and> map (\<lambda>r. row_group (fst r)) rows = gs
      \<and> (\<forall>r \<in> set rows. row_allowances (snd r) = section_allowance (fst r)
         \<and> map sr_step_id (snd r) = map ds_client_id (sg_steps (row_group (fst r)))
         \<and> row_allowance_seconds (fst r)
             = (if row_group (fst r) \<in> set allocated then map_of allowances (sg_section_id (row_group (fst r))) else None))
      \<and> sum_list (map (\<lambda>r. section_allowance (fst r)) rows)
          = sum_list (map ?a (filter (\<lambda>g. g \<in> set allocated) gs))" if "set gs \<subseteq> set groups" for gs
    using that
  proof (induction gs)
    case (Cons g gs)
    have "set gs \<subseteq> set groups" using Cons.prems by simp
    from Cons.IH [OF this] obtain rows where rows: "rmap (group_rows allocated allowances typicals) gs = Inr rows"
      "map (\<lambda>r. row_group (fst r)) rows = gs"
      "\<forall>r \<in> set rows. row_allowances (snd r) = section_allowance (fst r)
         \<and> map sr_step_id (snd r) = map ds_client_id (sg_steps (row_group (fst r)))
         \<and> row_allowance_seconds (fst r)
             = (if row_group (fst r) \<in> set allocated then map_of allowances (sg_section_id (row_group (fst r))) else None)"
      "sum_list (map (\<lambda>r. section_allowance (fst r)) rows) = sum_list (map ?a (filter (\<lambda>g. g \<in> set allocated) gs))"
      by blast
    obtain r where r: "group_rows allocated allowances typicals g = Inr r" "row_group (fst r) = g"
      "row_allowances (snd r) = section_allowance (fst r)"
      "map sr_step_id (snd r) = map ds_client_id (sg_steps g)"
      "row_allowance_seconds (fst r) = (if g \<in> set allocated then Some (?a g) else None)"
      "g \<in> set allocated \<longrightarrow> map_of allowances (sg_section_id g) = Some (?a g)"
      using one [of g] Cons.prems by auto
    have "section_allowance (fst r) = (if g \<in> set allocated then ?a g else 0)"
      by (simp add: section_allowance_def r(5))
    then show ?case using rows r by (intro exI [of _ "r # rows"]) auto
  qed simp
  then obtain rows where rows: "rmap (group_rows allocated allowances typicals) groups = Inr rows"
      "map (\<lambda>r. row_group (fst r)) rows = groups"
      "\<forall>r \<in> set rows. row_allowances (snd r) = section_allowance (fst r)
         \<and> map sr_step_id (snd r) = map ds_client_id (sg_steps (row_group (fst r)))
         \<and> row_allowance_seconds (fst r)
             = (if row_group (fst r) \<in> set allocated then map_of allowances (sg_section_id (row_group (fst r))) else None)"
      "sum_list (map (\<lambda>r. section_allowance (fst r)) rows) = sum_list (map ?a (filter (\<lambda>g. g \<in> set allocated) groups))"
    by blast
  have fa: "filter (\<lambda>g. g \<in> set allocated) groups = allocated"
    unfolding part by (auto intro!: filter_cong)
  have da: "distinct (map sg_section_id allocated)" using dist unfolding part by (rule distinct_map_filter)
  have "sum_list (map ?a allocated) = sum_list (map (\<lambda>k. the (map_of allowances k)) (map sg_section_id allocated))"
    by (simp add: o_def)
  also have "\<dots> = (\<Sum>k\<in>set (map fst allowances). the (map_of allowances k))"
    unfolding keys using da by (intro sum_list_distinct_conv_sum_set)
  also have "\<dots> = dict_sum allowances" using da keys by (intro dict_sum_keys [symmetric]) simp
  finally show ?thesis using rows unfolding fa by auto
qed

section \<open>The division as a whole\<close>

lemma mset_sort_step_rows [simp]: "mset (sort_step_rows rows) = mset rows"
  by (simp add: sort_step_rows_def)

lemma row_allowances_mset: "mset xs = mset ys \<Longrightarrow> row_allowances xs = row_allowances ys"
proof -
  assume "mset xs = mset ys"
  then have "mset (map f xs) = mset (map f ys)" for f :: "step_row \<Rightarrow> int" by simp
  then show ?thesis unfolding row_allowances_def by (metis sum_mset_sum_list)
qed

lemma row_allowances_concat: "row_allowances (concat rss) = sum_list (map row_allowances rss)"
  by (induction rss) (simp_all add: row_allowances_append, simp add: row_allowances_def)

lemma groups_cover:
  assumes "map sg_section_id groups = dedupe (map ds_working_section_id steps)"
    and "\<forall>g \<in> set groups. sg_steps g = filter (\<lambda>s. ds_working_section_id s = sg_section_id g) steps"
  shows "mset (concat (map sg_steps groups)) = mset steps"
proof -
  have "mset (concat (map (\<lambda>k. filter (\<lambda>s. ds_working_section_id s = k) ss) ks))
      = mset (filter (\<lambda>s. ds_working_section_id s \<in> set ks) ss)" if "distinct ks" for ks ss
    using that
  proof (induction ks)
    case (Cons k ks)
    have "mset (filter (\<lambda>s. ds_working_section_id s \<in> set (k # ks)) ss)
        = mset (filter (\<lambda>s. ds_working_section_id s = k) ss) + mset (filter (\<lambda>s. ds_working_section_id s \<in> set ks) ss)"
      using Cons.prems by (induction ss) auto
    with Cons show ?case by simp
  qed simp
  from this [of "map sg_section_id groups" steps] assms(1)
  have "mset (concat (map (\<lambda>k. filter (\<lambda>s. ds_working_section_id s = k) steps) (map sg_section_id groups))) = mset steps"
    by (simp cong: filter_cong)
  moreover have "map (\<lambda>k. filter (\<lambda>s. ds_working_section_id s = k) steps) (map sg_section_id groups) = map sg_steps groups"
    using assms(2) by simp
  ultimately show ?thesis by metis
qed

text \<open>Everything the properties below say of a priced division, in one place.\<close>

definition live :: "division_step list \<Rightarrow> division_step list" where
  "live steps = filter (\<lambda>s. \<not> ds_is_deleted s) steps"

definition charged_seconds :: "division_step list \<Rightarrow> int" where
  "charged_seconds steps = sum_list (map step_seconds (filter step_state_is_excluded (live steps)))"

lemma division_facts:
  assumes ids: "distinct (map ds_client_id steps)" and budget: "budget_seconds minutes = Inr b"
  defines "n \<equiv> max 0 (b - charged_seconds steps)"
  shows "\<exists>dv allocated. divide_production_budget (Some minutes) steps typicals as = Inr dv
    \<and> dv_budget_seconds dv = Some b \<and> dv_charged_seconds dv = Some (charged_seconds steps)
    \<and> dv_distributable_seconds dv = Some n
    \<and> mset (map sr_step_id (dv_steps dv)) = mset (map ds_client_id (live steps))
    \<and> row_allowances (dv_steps dv) = sum_list (map section_allowance (dv_sections dv))
    \<and> ((\<exists>s \<in> set (live steps). \<not> step_state_is_excluded s) \<longrightarrow> sum_list (map section_allowance (dv_sections dv)) = n)
    \<and> distinct (map sg_section_id allocated)
    \<and> (\<forall>r \<in> set (dv_sections dv). row_allowance_seconds r =
         (if row_group r \<in> set allocated
          then map_of (largest_remainder (\<lambda>k. k) (raw_section_shares n (section_weights typicals allocated)) n)
                 (sg_section_id (row_group r)) else None))
    \<and> allocated = filter (\<lambda>g. sg_section_id g \<in> participating_sections (live steps)) allocated
    \<and> set (map sg_section_id allocated) = participating_sections (live steps)
    \<and> set allocated \<subseteq> row_group ` set (dv_sections dv)"
proof -
  define ss where "ss = live steps"
  define P where "P = participating_sections ss"
  have nd: "\<forall>s \<in> set ss. \<not> ds_is_deleted s" by (simp add: ss_def live_def)
  have idss: "distinct (map ds_client_id ss)"
    using ids unfolding ss_def live_def by (rule distinct_map_filter)
  obtain groups where groups: "group_steps_by_section ss as = Inr groups" using group_steps_total by blast
  note shape = group_steps_shape [OF nd groups]
  have distg: "distinct (map sg_section_id groups)" unfolding shape(1) by simp
  define allocated where "allocated = filter (\<lambda>g. sg_section_id g \<in> P) groups"
  have dista: "distinct (map sg_section_id allocated)" unfolding allocated_def using distg by (rule distinct_map_filter)
  define sa where "sa = largest_remainder (\<lambda>k. k) (raw_section_shares n (section_weights typicals allocated)) n"
  have keys: "map fst sa = map sg_section_id allocated"
    unfolding sa_def largest.keys using section_weights_facts(1) [OF dista] by simp
  have Pmem: "P = ds_working_section_id ` {s \<in> set ss. \<not> step_state_is_excluded s}"
    using nd by (auto simp: P_def participating_sections_def)
  have some: "\<exists>s \<in> set (sg_steps g). \<not> step_state_is_excluded s" if "g \<in> set allocated" for g
    using that shape(2) [of g] unfolding allocated_def Pmem by auto
  have idg: "distinct (map ds_client_id (sg_steps g))" if "g \<in> set groups" for g
    using shape(2) [OF that] idss by (simp add: distinct_map_filter)
  obtain rows where rows: "rmap (group_rows allocated sa typicals) groups = Inr rows"
      "map (\<lambda>r. row_group (fst r)) rows = groups"
      "\<forall>r \<in> set rows. row_allowances (snd r) = section_allowance (fst r)
         \<and> map sr_step_id (snd r) = map ds_client_id (sg_steps (row_group (fst r)))
         \<and> row_allowance_seconds (fst r)
             = (if row_group (fst r) \<in> set allocated then map_of sa (sg_section_id (row_group (fst r))) else None)"
      "sum_list (map (\<lambda>r. section_allowance (fst r)) rows) = dict_sum sa"
    using distribute_groups [OF allocated_def distg idg some keys] by blast
  define dv where "dv = \<lparr>dv_budget_seconds = Some b, dv_charged_seconds = Some (charged_seconds steps),
    dv_distributable_seconds = Some n,
    dv_sections = sort_key (\<lambda>r. section_sort_key (row_group r)) (map fst rows),
    dv_steps = sort_step_rows (concat (map snd rows))\<rparr>"
  have run: "divide_production_budget (Some minutes) steps typicals as = Inr dv"
    unfolding divide_production_budget_def Let_def live_def [symmetric] ss_def [symmetric] groups rbind_Inr
      option.case budget P_def [symmetric] allocated_def [symmetric]
    using rows(1) by (simp add: dv_def sa_def n_def charged_seconds_def ss_def)
  have steps_sum: "row_allowances (dv_steps dv) = sum_list (map (\<lambda>r. section_allowance (fst r)) rows)"
  proof -
    have "row_allowances (dv_steps dv) = row_allowances (concat (map snd rows))"
      by (rule row_allowances_mset) (simp add: dv_def)
    also have "\<dots> = sum_list (map (\<lambda>r. row_allowances (snd r)) rows)" by (simp add: row_allowances_concat o_def)
    also have "\<dots> = sum_list (map (\<lambda>r. section_allowance (fst r)) rows)"
      using rows(3) by (intro arg_cong [where f = sum_list] map_cong) auto
    finally show ?thesis .
  qed
  have sections_sum: "sum_list (map section_allowance (dv_sections dv)) = sum_list (map (\<lambda>r. section_allowance (fst r)) rows)"
    unfolding sum_mset_sum_list [symmetric] by (simp add: dv_def o_def image_mset.compositionality)
  have ids_out: "mset (map sr_step_id (dv_steps dv)) = mset (map ds_client_id ss)"
  proof -
    have "map (\<lambda>r. map sr_step_id (snd r)) rows = map (\<lambda>g. map ds_client_id (sg_steps g)) groups"
      unfolding rows(2) [symmetric] using rows(3) by simp
    then have "map sr_step_id (concat (map snd rows)) = map ds_client_id (concat (map sg_steps groups))"
      by (simp add: map_concat o_def)
    moreover have "mset (concat (map sg_steps groups)) = mset ss"
      using groups_cover [OF shape(1)] shape(2) by blast
    ultimately have "mset (map sr_step_id (concat (map snd rows))) = mset (map ds_client_id ss)"
      by (metis mset_map)
    then show ?thesis by (simp add: dv_def)
  qed
  have psum: "dict_sum sa = n" if "\<exists>s \<in> set ss. \<not> step_state_is_excluded s"
  proof -
    from that have "P \<noteq> {}" unfolding Pmem by auto
    moreover have "P \<subseteq> set (map sg_section_id groups)" unfolding shape(1) Pmem by auto
    ultimately have "allocated \<noteq> []" unfolding allocated_def by (auto simp: filter_empty_conv)
    then show ?thesis unfolding sa_def by (rule section_shares_conserve [OF dista])
  qed
  have Pset: "set (map sg_section_id allocated) = P"
  proof -
    have "P \<subseteq> sg_section_id ` set groups" using shape(1) unfolding Pmem by (metis (no_types, lifting)
        image_mono mem_Collect_eq set_dedupe list.set_map subsetI)
    then show ?thesis by (auto simp: allocated_def)
  qed
  have sec: "\<forall>r \<in> set (dv_sections dv). row_allowance_seconds r =
      (if row_group r \<in> set allocated then map_of sa (sg_section_id (row_group r)) else None)"
    using rows(3) by (auto simp: dv_def)
  have fields: "dv_budget_seconds dv = Some b" "dv_charged_seconds dv = Some (charged_seconds steps)"
    "dv_distributable_seconds dv = Some n"
    by (simp_all add: dv_def)
  have alloc: "allocated = filter (\<lambda>g. sg_section_id g \<in> P) allocated" by (simp add: allocated_def)
  have shown: "set allocated \<subseteq> row_group ` set (dv_sections dv)"
  proof -
    have "set groups = (\<lambda>r. row_group (fst r)) ` set rows" using arg_cong [OF rows(2), of set] by simp
    then show ?thesis by (auto simp: dv_def allocated_def image_image)
  qed
  show ?thesis
    unfolding ss_def [symmetric] P_def [symmetric]
    using run fields steps_sum sections_sum ids_out psum rows(4) dista sec [unfolded sa_def] Pset alloc
    by (intro exI [of _ dv] exI [of _ allocated] conjI shown) simp_all
qed

text \<open>C9: a priced task with at least one step that takes part divides its budget without loss: no
  lookup fails, the served section allowances and the served step allowances both add up to the
  distributable seconds, which are the budget less the seconds charged by excluded steps, floored at
  zero; and every live step is served exactly once.\<close>

theorem budget_division_conserves:
  assumes "distinct (map ds_client_id steps)" "budget_seconds minutes = Inr b"
    and "\<exists>s \<in> set (live steps). \<not> step_state_is_excluded s"
  shows "\<exists>dv n. divide_production_budget (Some minutes) steps typicals as = Inr dv
    \<and> dv_distributable_seconds dv = Some n \<and> n = max 0 (b - charged_seconds steps)
    \<and> sum_list (map section_allowance (dv_sections dv)) = n
    \<and> row_allowances (dv_steps dv) = n
    \<and> mset (map sr_step_id (dv_steps dv)) = mset (map ds_client_id (live steps))"
  using division_facts [OF assms(1,2), of typicals as] assms(3) by (elim exE conjE) simp

abbreviation sample_step :: "string \<Rightarrow> task_step_state \<Rightarrow> string \<Rightarrow> int \<Rightarrow> division_step" where
  "sample_step i st sec worked \<equiv> \<lparr>ds_client_id = i, ds_state = st, ds_working_section_id = sec,
     ds_total_working_seconds = Some worked, ds_sequence_order = None, ds_section_name_snapshot = None,
     ds_is_deleted = False, ds_created_at = None, ds_entered_at = None\<rparr>"

abbreviation sample_steps :: "division_step list" where
  "sample_steps \<equiv> [sample_step ''s1'' StepCOMPLETED ''wood'' 700, sample_step ''s2'' StepWORKING ''wood'' 50,
     sample_step ''s3'' StepSKIPPED ''paint'' 120, sample_step ''s4'' StepPENDING ''paint'' 0]"

lemma sample_budget: "budget_seconds (Dec 6000 (- 2)) = Inr 3600"
  using ndigits_eqI [of 5 360000] ndigits_eqI [of 3 3600]
  by (simp add: budget_seconds_def dec_mul_def dec_fix_def dec_of_int_def dec_quantize_def dec_rescale_def
      round_coef_def rhe_div_def)

lemma budget_division_conserves_witness:
  "\<exists>dv n. divide_production_budget (Some (Dec 6000 (- 2))) sample_steps [] None = Inr dv
    \<and> dv_distributable_seconds dv = Some n \<and> n = 3480
    \<and> sum_list (map section_allowance (dv_sections dv)) = n
    \<and> row_allowances (dv_steps dv) = n
    \<and> mset (map sr_step_id (dv_steps dv)) = mset [''s1'', ''s2'', ''s3'', ''s4'']"
  using budget_division_conserves [OF _ sample_budget, of sample_steps "[]" None]
  by (simp add: live_def charged_seconds_def step_state_is_excluded_def EXCLUDED_STEP_STATES_def step_seconds_def)

text \<open>The weight of a section, from the typicals alone: its own typical when it is positive, else the median of the
  positive typicals of the sections that take part, else one.\<close>

definition own_typical :: "(string \<times> selected_typical) list \<Rightarrow> string \<Rightarrow> rat option" where
  "own_typical typicals k = (case map_of typicals k of
     None \<Rightarrow> None
   | Some t \<Rightarrow> (case st_typical_worker_seconds t of
        None \<Rightarrow> None
      | Some n \<Rightarrow> if 0 < n then Some (of_int n) else None))"

definition due_weight :: "(string \<times> selected_typical) list \<Rightarrow> string list \<Rightarrow> string \<Rightarrow> rat" where
  "due_weight typicals ks k = (case own_typical typicals k of
     Some t \<Rightarrow> t
   | None \<Rightarrow> (case List.map_filter (own_typical typicals) ks of [] \<Rightarrow> 1 | t # ts \<Rightarrow> median (t # ts)))"

lemma section_weights_due:
  "section_weights typicals allocated = map (\<lambda>k. (k, due_weight typicals (map sg_section_id allocated) k)) (map sg_section_id allocated)"
proof -
  let ?typical = "\<lambda>g. case map_of typicals (sg_section_id g) of None \<Rightarrow> None | Some t \<Rightarrow> map_option of_int (st_typical_worker_seconds t)"
  have own: "own_typical typicals (sg_section_id g) = (if usable_weight (?typical g) then ?typical g else None)" for g
    by (simp add: own_typical_def usable_weight_def split: option.split)
  have usable: "map the (filter usable_weight (map ?typical gs)) = List.map_filter (own_typical typicals) (map sg_section_id gs)" for gs
    by (induction gs) (auto simp: map_filter_simps own usable_weight_def split: option.splits if_splits)
  have "apply_business_fallback (map ?typical allocated) 1 = map (due_weight typicals (map sg_section_id allocated)) (map sg_section_id allocated)"
    unfolding apply_business_fallback_def Let_def usable
    by (auto simp: due_weight_def own usable_weight_def split: option.split list.split)
  then show ?thesis unfolding section_weights_def Let_def by (simp add: zip_map_map zip_same_conv_map comp_def)
qed

text \<open>C10: fairness. Every section that takes part is served an allowance, and an allowance is non-negative and within
  one second of the exact share of the distributable seconds that its section has by weight. The weight of a section is
  its own typical when that is positive, else the median of the positive typicals of the sections that take part, and
  one when there is none.\<close>

theorem section_allowance_proportional:
  assumes "distinct (map ds_client_id steps)" "budget_seconds minutes = Inr b"
  shows "\<exists>dv ks. divide_production_budget (Some minutes) steps typicals as = Inr dv
    \<and> distinct ks \<and> set ks = participating_sections (live steps)
    \<and> (\<forall>k \<in> set ks. \<exists>r \<in> set (dv_sections dv). sg_section_id (row_group r) = k \<and> row_allowance_seconds r \<noteq> None)
    \<and> (\<forall>r \<in> set (dv_sections dv). case row_allowance_seconds r of
          None \<Rightarrow> True
        | Some a \<Rightarrow> 0 \<le> a \<and> sg_section_id (row_group r) \<in> set ks
            \<and> \<bar>of_int a - of_int (max 0 (b - charged_seconds steps)) * due_weight typicals ks (sg_section_id (row_group r))
                / (\<Sum>k \<leftarrow> ks. due_weight typicals ks k)\<bar> \<le> (1 :: rat))"
proof -
  define n where "n = max 0 (b - charged_seconds steps)"
  obtain dv allocated where dv: "divide_production_budget (Some minutes) steps typicals as = Inr dv"
      "distinct (map sg_section_id allocated)"
      "set (map sg_section_id allocated) = participating_sections (live steps)"
      "\<forall>r \<in> set (dv_sections dv). row_allowance_seconds r =
         (if row_group r \<in> set allocated
          then map_of (largest_remainder (\<lambda>k. k) (raw_section_shares n (section_weights typicals allocated)) n)
                 (sg_section_id (row_group r)) else None)"
      "set allocated \<subseteq> row_group ` set (dv_sections dv)"
    using division_facts [OF assms, of typicals as] unfolding n_def by blast
  define ws ks where "ws = section_weights typicals allocated" and "ks = map sg_section_id allocated"
  note W = section_weights_facts [OF dv(2), of typicals, folded ws_def]
  have due: "ws = map (\<lambda>k. (k, due_weight typicals ks k)) ks" unfolding ws_def ks_def by (rule section_weights_due)
  then have total_weight: "sum_list (map snd ws) = (\<Sum>k \<leftarrow> ks. due_weight typicals ks k)" by (simp add: comp_def)
  have served: "map_of (largest_remainder (\<lambda>k. k) (raw_section_shares n ws) n) k \<noteq> None" if "k \<in> set ks" for k
    using that due by (simp add: map_of_eq_None_iff largest.keys flip: set_map) (simp add: comp_def)
  have share: "0 \<le> a \<and> sg_section_id (row_group r) \<in> set ks
      \<and> \<bar>of_int a - of_int n * due_weight typicals ks (sg_section_id (row_group r)) / (\<Sum>k \<leftarrow> ks. due_weight typicals ks k)\<bar> \<le> 1"
    if r: "r \<in> set (dv_sections dv)" "row_allowance_seconds r = Some a" for r a
  proof -
    let ?k = "sg_section_id (row_group r)"
    have al: "row_group r \<in> set allocated"
      and a: "map_of (largest_remainder (\<lambda>k. k) (raw_section_shares n ws) n) ?k = Some a"
      using dv(4) r unfolding ws_def by (auto split: if_splits)
    have k: "?k \<in> set ks" using al unfolding ks_def by simp
    have w: "map_of ws ?k = Some (due_weight typicals ks ?k)" using k unfolding due by (simp add: map_of_map_restrict)
    have raw: "map_of (raw_section_shares n ws) ?k = Some (of_int n * due_weight typicals ks ?k / sum_list (map snd ws))"
      using w by (simp add: raw_section_shares_def Let_def map_of_map_weights)
    have "0 < due_weight typicals ks ?k" using W(2) map_of_SomeD [OF w] by blast
    moreover have "0 < sum_list (map snd ws)" using W(3) al by (cases allocated) auto
    ultimately have "0 \<le> of_int n * due_weight typicals ks ?k / sum_list (map snd ws)" by (simp add: n_def)
    moreover have "distinct (map fst (raw_section_shares n ws))" using W(1) dv(2) by simp
    ultimately show ?thesis using largest.part_near [OF _ raw, of "\<lambda>k. k" n] a k unfolding total_weight by auto
  qed
  have "\<exists>r \<in> set (dv_sections dv). sg_section_id (row_group r) = k \<and> row_allowance_seconds r \<noteq> None" if k: "k \<in> set ks" for k
  proof -
    obtain g where g: "g \<in> set allocated" "sg_section_id g = k" using k unfolding ks_def by auto
    then obtain r where r: "r \<in> set (dv_sections dv)" "row_group r = g" using dv(5) by auto
    then show ?thesis using dv(4) g served [OF k] unfolding ws_def by auto
  qed
  then show ?thesis
    using dv(1-3) share unfolding n_def [symmetric] ks_def [symmetric]
    by (intro exI [of _ dv] exI [of _ ks]) (simp split: option.split)
qed

definition sample_typical :: "string \<Rightarrow> int \<Rightarrow> selected_typical" where
  "sample_typical k n = select_typical \<lparr>working_section_id = k, narrowed_typical_worker_seconds = None, narrowed_sample_count = 0,
     section_typical_worker_seconds = Some n, section_sample_count = 3, narrowed_typical_unit_worker_seconds = None,
     section_typical_unit_worker_seconds = None, properties_typical_worker_seconds = None, properties_sample_count = 0,
     properties_typical_unit_worker_seconds = None, facet_evidence = []\<rparr> (Some n) ''section_wide'' 3 None"

lemma sample_weights:
  "due_weight [(''wood'', sample_typical ''wood'' 300), (''paint'', sample_typical ''paint'' 900)] ks ''wood'' = 300"
  "due_weight [(''wood'', sample_typical ''wood'' 300), (''paint'', sample_typical ''paint'' 900)] ks ''paint'' = 900"
  by (simp_all add: due_weight_def own_typical_def sample_typical_def select_typical_def)

lemma section_allowance_proportional_witness:
  "\<exists>dv. divide_production_budget (Some (Dec 6000 (- 2))) sample_steps
        [(''wood'', sample_typical ''wood'' 300), (''paint'', sample_typical ''paint'' 900)] None = Inr dv
    \<and> (\<exists>r \<in> set (dv_sections dv). \<exists>a. sg_section_id (row_group r) = ''wood'' \<and> row_allowance_seconds r = Some a \<and> \<bar>of_int a - 870\<bar> \<le> (1 :: rat))
    \<and> (\<exists>r \<in> set (dv_sections dv). \<exists>a. sg_section_id (row_group r) = ''paint'' \<and> row_allowance_seconds r = Some a \<and> \<bar>of_int a - 2610\<bar> \<le> (1 :: rat))"
proof -
  let ?typicals = "[(''wood'', sample_typical ''wood'' 300), (''paint'', sample_typical ''paint'' 900)]"
  have left: "max 0 (3600 - charged_seconds sample_steps) = 3480"
    by (simp add: live_def charged_seconds_def step_state_is_excluded_def EXCLUDED_STEP_STATES_def step_seconds_def)
  have sections: "participating_sections (live sample_steps) = {''wood'', ''paint''}"
    by (auto simp: live_def participating_sections_def step_state_is_excluded_def EXCLUDED_STEP_STATES_def)
  have "distinct (map ds_client_id sample_steps)" by simp
  from section_allowance_proportional [OF this sample_budget, of ?typicals None, unfolded left sections] obtain dv ks where
    dv: "divide_production_budget (Some (Dec 6000 (- 2))) sample_steps ?typicals None = Inr dv" "distinct ks" "set ks = {''wood'', ''paint''}"
      "\<forall>k \<in> set ks. \<exists>r \<in> set (dv_sections dv). sg_section_id (row_group r) = k \<and> row_allowance_seconds r \<noteq> None"
    and shares: "\<forall>r \<in> set (dv_sections dv). case row_allowance_seconds r of None \<Rightarrow> True | Some a \<Rightarrow> 0 \<le> a \<and> sg_section_id (row_group r) \<in> set ks
      \<and> \<bar>of_int a - of_int 3480 * due_weight ?typicals ks (sg_section_id (row_group r)) / (\<Sum>k \<leftarrow> ks. due_weight ?typicals ks k)\<bar> \<le> (1 :: rat)"
    by (elim exE conjE) (rule that; assumption)
  have near: "\<bar>of_int a - of_int 3480 * due_weight ?typicals ks (sg_section_id (row_group r)) / (\<Sum>k \<leftarrow> ks. due_weight ?typicals ks k)\<bar> \<le> (1 :: rat)"
    if "r \<in> set (dv_sections dv)" "row_allowance_seconds r = Some a" for r a
    using bspec [OF shares that(1)] unfolding that(2) option.case by (elim conjE)
  have "(\<Sum>k \<leftarrow> ks. due_weight ?typicals ks k) = (\<Sum>k \<in> {''wood'', ''paint''}. due_weight ?typicals ks k)"
    using dv(2,3) by (simp add: sum_list_distinct_conv_sum_set)
  also have "\<dots> = 1200" by (simp add: sample_weights)
  finally have "(\<Sum>k \<leftarrow> ks. due_weight ?typicals ks k) = 1200" .
  then have close: "\<bar>of_int a - 3480 * due_weight ?typicals ks (sg_section_id (row_group r)) / 1200\<bar> \<le> (1 :: rat)"
    if "r \<in> set (dv_sections dv)" "row_allowance_seconds r = Some a" for r a using near [OF that] by simp
  obtain r q where "r \<in> set (dv_sections dv)" "sg_section_id (row_group r) = ''wood''" "row_allowance_seconds r \<noteq> None"
      "q \<in> set (dv_sections dv)" "sg_section_id (row_group q) = ''paint''" "row_allowance_seconds q \<noteq> None"
    using dv(3,4) by auto
  then show ?thesis using dv(1) close [of r] close [of q] by (fastforce simp: sample_weights)
qed

end
