(* ===== verification/ProductionPressure.thy ===== *)
theory ProductionPressure
  imports BudgetDivision
begin

text \<open>
  \<open>domain/item_economics/remaining_production_pressure.py\<close>: what is left of the distributable budget
  after the settled and the over-consuming steps, apportioned over the steps that can still use it in
  proportion to their served allowances. The result keeps one entry per served step, in the order of
  the division. The lemmas state what each entry is and that the shares sum to what is left.
\<close>

section \<open>Operations\<close>

definition row_is_excluded :: "step_row \<Rightarrow> bool" where
  "row_is_excluded r \<longleftrightarrow> sr_share_state r = ''excluded''"

definition row_is_open :: "step_row \<Rightarrow> bool" where
  "row_is_open r \<longleftrightarrow> sr_state r \<notin> step_state_value ` TERMINAL_STEP_STATES"

definition row_is_consuming :: "step_row \<Rightarrow> bool" where
  "row_is_consuming r \<longleftrightarrow> row_is_open r \<and> (case sr_left_seconds r of None \<Rightarrow> False | Some l \<Rightarrow> l < 0)"

type_synonym pressure_result = "rat option \<times> (string \<times> int option) list"

text \<open>\<open>int(step["allowance_seconds"])\<close>.\<close>

definition int_allowance :: "step_row \<Rightarrow> int result" where
  "int_allowance r = (case sr_allowance_seconds r of
     None \<Rightarrow> Inl (TypeError (''int() argument must be a string, a bytes-like object or a real number, not ''
       @ [CHR 0x27] @ ''NoneType'' @ [CHR 0x27]))
   | Some a \<Rightarrow> Inr a)"

definition set_all :: "step_row list \<Rightarrow> int option \<Rightarrow> (string \<times> int option) list" where
  "set_all rows v = map (\<lambda>r. (sr_step_id r, v)) rows"

text \<open>\<open>allocation_order\<close>: the position of a step id, the last one when it repeats.\<close>

definition order_index :: "step_row list \<Rightarrow> string \<Rightarrow> nat" where
  "order_index steps k = (case map_of (rev (zip (map sr_step_id steps) [0..<length steps])) k of
     None \<Rightarrow> length steps | Some i \<Rightarrow> i)"

definition compute_remaining_pressure :: "division \<Rightarrow> pressure_result result" where
  "compute_remaining_pressure dv =
     (let steps = dv_steps dv; no_pressure = dict_of (set_all steps None) in
      case dv_distributable_seconds dv of
        None \<Rightarrow> Inr (None, no_pressure)
      | Some distributable \<Rightarrow>
        let participating = filter (\<lambda>r. \<not> row_is_excluded r) steps;
            open_steps = filter row_is_open participating;
            consuming = filter row_is_consuming open_steps;
            allocatable = filter (\<lambda>r. \<not> row_is_consuming r) open_steps;
            shares = dict_update no_pressure (set_all consuming (Some 0))
        in if allocatable = [] then Inr (None, shares)
           else let charged = filter (\<lambda>r. \<not> row_is_open r) participating @ consuming;
                    remaining = distributable - sum_list (map sr_worked_seconds charged)
           in rbind (rmap int_allowance allocatable)
           (\<lambda>allowances. let total_open_allowance = sum_list (map (max 0) allowances) in
             if total_open_allowance = 0 then Inr (None, dict_update shares (set_all allocatable (Some 0)))
             else let ratio = of_int remaining / of_int total_open_allowance in
             if remaining \<le> 0 then Inr (Some ratio, dict_update shares (set_all allocatable (Some 0)))
             else let raw_shares = dict_of (zip (map sr_step_id allocatable) (map (\<lambda>a. of_int a * ratio) allowances))
             in Inr (Some ratio, dict_update shares
                  (map (\<lambda>(k, n). (k, Some n)) (largest_remainder (order_index steps) raw_shares remaining)))))"

section \<open>Properties\<close>

definition share_total :: "(string \<times> int option) list \<Rightarrow> int" where
  "share_total d = sum_list (map (\<lambda>(k, v). case v of None \<Rightarrow> 0 | Some n \<Rightarrow> n) d)"

text \<open>A row as the division serves it to an open step: an allowance, and what is left of it.\<close>

definition served_row :: "step_row \<Rightarrow> bool" where
  "served_row r \<longleftrightarrow> 0 \<le> sr_worked_seconds r
     \<and> (\<exists>a. sr_allowance_seconds r = Some a \<and> sr_left_seconds r = Some (a - sr_worked_seconds r))"

definition allocatable_rows :: "division \<Rightarrow> step_row list" where
  "allocatable_rows dv = filter (\<lambda>r. row_is_open r \<and> \<not> row_is_excluded r \<and> \<not> row_is_consuming r) (dv_steps dv)"

definition settled_rows :: "division \<Rightarrow> step_row list" where
  "settled_rows dv = filter (\<lambda>r. \<not> row_is_excluded r \<and> (\<not> row_is_open r \<or> row_is_consuming r)) (dv_steps dv)"

definition open_allowance :: "division \<Rightarrow> int" where
  "open_allowance dv = sum_list (map (\<lambda>r. the (sr_allowance_seconds r)) (allocatable_rows dv))"

definition remaining_seconds :: "division \<Rightarrow> int \<Rightarrow> int" where
  "remaining_seconds dv distributable = distributable - sum_list (map sr_worked_seconds (settled_rows dv))"

text \<open>What the pressure result is, entry by entry, from an assignment of the allocatable steps.\<close>

definition pressure_entries :: "division \<Rightarrow> (string \<Rightarrow> int) \<Rightarrow> (string \<times> int option) list" where
  "pressure_entries dv a = map (\<lambda>r. (sr_step_id r,
     if row_is_excluded r \<or> \<not> row_is_open r then None
     else if row_is_consuming r then Some 0 else Some (a (sr_step_id r)))) (dv_steps dv)"

lemma update_existing:
  "distinct (map fst d) \<Longrightarrow> k \<in> set (map fst d) \<Longrightarrow>
   AList.update k v d = map (\<lambda>(k', x). (k', if k' = k then v else x)) d"
proof (induction d)
  case (Cons x d)
  obtain k' w where x: "x = (k', w)" by (cases x)
  have "k' \<notin> fst ` set d" using Cons.prems(1) by (simp add: x)
  then have "map (\<lambda>(j, y). (j, if j = k' then v else y)) d = d" by (induction d) auto
  with Cons show ?case by (auto simp: x)
qed simp

lemma dict_update_existing:
  assumes "distinct (map fst d)" "set (map fst e) \<subseteq> set (map fst d)" "distinct (map fst e)"
  shows "dict_update d e = map (\<lambda>(k, x). (k, case map_of e k of None \<Rightarrow> x | Some v \<Rightarrow> v)) d"
  using assms
proof (induction e arbitrary: d)
  case (Cons p e)
  obtain k v where p: "p = (k, v)" by (cases p)
  let ?d = "map (\<lambda>(k', x). (k', if k' = k then v else x)) d"
  have keys: "map fst ?d = map fst d" by (simp add: case_prod_unfold)
  have "dict_update d (p # e) = dict_update ?d e"
    using Cons.prems update_existing [of d k v] by (simp add: dict_update_def p)
  also have "\<dots> = map (\<lambda>(k, x). (k, case map_of e k of None \<Rightarrow> x | Some v \<Rightarrow> v)) ?d"
  proof (rule Cons.IH)
    show "distinct (map fst ?d)" "set (map fst e) \<subseteq> set (map fst ?d)" "distinct (map fst e)"
      unfolding keys using Cons.prems by simp_all
  qed
  also have "\<dots> = map (\<lambda>(k, x). (k, case map_of (p # e) k of None \<Rightarrow> x | Some v \<Rightarrow> v)) d"
    using Cons.prems(3) by (auto simp: p map_of_eq_None_iff [symmetric] split: option.splits)
  finally show ?case .
qed (simp add: dict_update_def case_prod_unfold)

lemma map_of_set_all:
  "map_of (map (\<lambda>r. (f r, g r)) xs) k
    = (case List.find (\<lambda>r. f r = k) xs of None \<Rightarrow> None | Some r \<Rightarrow> Some (g r))"
  by (induction xs) auto

lemma share_total_entries:
  assumes "distinct (map sr_step_id (dv_steps dv))"
  shows "share_total (pressure_entries dv a) = (\<Sum>k \<in> sr_step_id ` set (allocatable_rows dv). a k)"
proof -
  have inj: "inj_on sr_step_id (set (allocatable_rows dv))"
    using assms by (auto simp: distinct_map allocatable_rows_def intro: inj_on_subset)
  have "share_total (pressure_entries dv a) = sum_list (map (\<lambda>r. a (sr_step_id r)) (allocatable_rows dv))"
  proof -
    have "sum_list (map (\<lambda>(k, v). case v of None \<Rightarrow> 0 | Some n \<Rightarrow> n) (map (\<lambda>r. (sr_step_id r,
        if row_is_excluded r \<or> \<not> row_is_open r then None
        else if row_is_consuming r then Some 0 else Some (a (sr_step_id r)))) rs))
      = sum_list (map (\<lambda>r. a (sr_step_id r))
          (filter (\<lambda>r. row_is_open r \<and> \<not> row_is_excluded r \<and> \<not> row_is_consuming r) rs))" for rs
      by (induction rs) auto
    then show ?thesis unfolding share_total_def pressure_entries_def allocatable_rows_def .
  qed
  also have "\<dots> = (\<Sum>r \<in> set (allocatable_rows dv). a (sr_step_id r))"
    using assms by (intro sum_list_distinct_conv_sum_set) (auto simp: distinct_map allocatable_rows_def)
  finally show ?thesis by (simp add: sum.reindex [OF inj])
qed

lemma map_of_filtered:
  assumes "distinct (map f xs)" "x \<in> set xs"
  shows "map_of (map (\<lambda>r. (f r, g r)) (filter P xs)) (f x) = (if P x then Some (g x) else None)"
  using assms by (induction xs) (auto simp: map_of_eq_None_iff image_iff)

lemma entries_by_updates:
  assumes d: "distinct (map sr_step_id (dv_steps dv))"
  shows "dict_update (dict_update (dict_of (set_all (dv_steps dv) None))
      (set_all (filter row_is_consuming (filter row_is_open (filter (\<lambda>r. \<not> row_is_excluded r) (dv_steps dv)))) (Some 0)))
      (map (\<lambda>r. (sr_step_id r, Some (f (sr_step_id r)))) (allocatable_rows dv)) = pressure_entries dv f"
proof -
  let ?steps = "dv_steps dv"
  let ?c = "\<lambda>r. \<not> row_is_excluded r \<and> row_is_open r \<and> row_is_consuming r"
  let ?al = "\<lambda>r. row_is_open r \<and> \<not> row_is_excluded r \<and> \<not> row_is_consuming r"
  have fc: "filter row_is_consuming (filter row_is_open (filter (\<lambda>r. \<not> row_is_excluded r) ?steps)) = filter ?c ?steps"
    by (simp add: filter_filter conj_ac)
  have base: "dict_of (set_all ?steps None) = map (\<lambda>r. (sr_step_id r, None)) ?steps"
    using d by (subst dict_of_distinct) (simp_all add: set_all_def o_def)
  have first: "dict_update (map (\<lambda>r. (sr_step_id r, None)) ?steps) (set_all (filter ?c ?steps) (Some 0))
      = map (\<lambda>r. (sr_step_id r, if ?c r then Some 0 else None)) ?steps"
    using d unfolding set_all_def
    by (subst dict_update_existing)
      (auto simp: o_def distinct_map_filter map_of_filtered [where f = sr_step_id] intro!: map_cong)
  have second: "dict_update (map (\<lambda>r. (sr_step_id r, if ?c r then Some 0 else None)) ?steps)
      (map (\<lambda>r. (sr_step_id r, Some (f (sr_step_id r)))) (filter ?al ?steps))
      = map (\<lambda>r. (sr_step_id r, if ?al r then Some (f (sr_step_id r)) else if ?c r then Some 0 else None)) ?steps"
    using d
    by (subst dict_update_existing)
      (auto simp: o_def distinct_map_filter map_of_filtered [where f = sr_step_id] intro!: map_cong)
  show ?thesis
    unfolding fc base first allocatable_rows_def second pressure_entries_def by (auto intro!: map_cong)
qed

lemma settled_sum:
  "sum_list (map sr_worked_seconds (filter (\<lambda>r. \<not> row_is_open r) (filter (\<lambda>r. \<not> row_is_excluded r) (dv_steps dv))
      @ filter row_is_consuming (filter row_is_open (filter (\<lambda>r. \<not> row_is_excluded r) (dv_steps dv)))))
    = sum_list (map sr_worked_seconds (settled_rows dv))"
proof -
  have "sum_list (map sr_worked_seconds (filter (\<lambda>r. \<not> row_is_open r) (filter (\<lambda>r. \<not> row_is_excluded r) rs)
      @ filter row_is_consuming (filter row_is_open (filter (\<lambda>r. \<not> row_is_excluded r) rs))))
    = sum_list (map sr_worked_seconds (filter (\<lambda>r. \<not> row_is_excluded r \<and> (\<not> row_is_open r \<or> row_is_consuming r)) rs))" for rs
    by (induction rs) auto
  then show ?thesis unfolding settled_rows_def .
qed

lemma scaled_sum:
  "sum_list (map snd (map (\<lambda>r. (g r, of_int (h r) * c)) xs)) = of_int (sum_list (map h xs)) * (c :: rat)"
  by (induction xs) (simp_all add: algebra_simps)

text \<open>C11: on a division whose open steps carry their served allowance, the pressure of the remaining
  production never raises: excluded and settled steps get no share, steps past their allowance get
  zero, every other share is non-negative, and together the shares are exactly the seconds that remain
  after the settled and consuming steps (zero when nothing remains or nothing can take it).\<close>

theorem pressure_shares_remaining:
  assumes ids: "distinct (map sr_step_id (dv_steps dv))"
    and served: "\<forall>r \<in> set (allocatable_rows dv). served_row r"
    and n: "dv_distributable_seconds dv = Some n"
  shows "\<exists>ratio f. compute_remaining_pressure dv = Inr (ratio, pressure_entries dv f)
    \<and> (\<forall>r \<in> set (allocatable_rows dv). 0 \<le> f (sr_step_id r))
    \<and> share_total (pressure_entries dv f)
        = (if open_allowance dv = 0 then 0 else max 0 (remaining_seconds dv n))"
proof -
  let ?al = "allocatable_rows dv"
  define T where "T = open_allowance dv"
  define R where "R = remaining_seconds dv n"
  have al: "filter (\<lambda>r. \<not> row_is_consuming r) (filter row_is_open (filter (\<lambda>r. \<not> row_is_excluded r) (dv_steps dv))) = ?al"
    by (simp add: allocatable_rows_def filter_filter conj_ac)
  define as where "as = map (\<lambda>r. the (sr_allowance_seconds r)) ?al"
  have as: "rmap int_allowance ?al = Inr as" "\<forall>a \<in> set as. 0 \<le> a"
  proof -
    have r: "int_allowance r = Inr (the (sr_allowance_seconds r)) \<and> 0 \<le> the (sr_allowance_seconds r)"
      if "r \<in> set ?al" for r
      using that served by (force simp: served_row_def int_allowance_def allocatable_rows_def row_is_consuming_def)
    then show "rmap int_allowance ?al = Inr as"
      unfolding rmap_Inr_iff as_def by (auto simp: list_all2_map2 list.rel_refl_strong list_all2_same)
    show "\<forall>a \<in> set as. 0 \<le> a" using r by (auto simp: as_def)
  qed
  have T: "sum_list (map (max 0) as) = T"
  proof -
    have "map (max 0) as = as" using as(2) by (intro map_idI) auto
    then show ?thesis unfolding T_def open_allowance_def as_def [symmetric] by (simp only:)
  qed
  have dal: "distinct (map sr_step_id ?al)" using ids unfolding allocatable_rows_def by (rule distinct_map_filter)
  have zero: "share_total (pressure_entries dv (\<lambda>_. 0)) = 0" by (simp add: share_total_entries [OF ids])
  note run = compute_remaining_pressure_def [of dv, unfolded n option.case Let_def al settled_sum, folded remaining_seconds_def,
      folded R_def]
  note entries = entries_by_updates [OF ids]
  show ?thesis
  proof (cases "?al = []")
    case True
    then have "compute_remaining_pressure dv = Inr (None, pressure_entries dv (\<lambda>_. 0))"
      using entries [of "\<lambda>_. 0"] unfolding run by (simp add: dict_update_def)
    moreover have "T = 0" using True by (simp add: T_def open_allowance_def)
    ultimately show ?thesis using True zero by (auto simp: T_def intro!: exI)
  next
    case ne: False
    have zeros: "set_all ?al (Some 0) = map (\<lambda>r. (sr_step_id r, Some ((\<lambda>_. 0) (sr_step_id r)))) ?al"
      by (simp add: set_all_def)
    show ?thesis
    proof (cases "T = 0 \<or> R \<le> 0")
      case True
      then have "\<exists>ratio. compute_remaining_pressure dv = Inr (ratio, pressure_entries dv (\<lambda>_. 0))"
        using ne entries [of "\<lambda>_. 0"] unfolding run as(1) rbind_Inr T zeros by auto
      then show ?thesis using True zero unfolding T_def [symmetric] R_def [symmetric] by auto
    next
      case False
      define ratio where "ratio = (of_int R / of_int T :: rat)"
      define raw where "raw = map (\<lambda>r. (sr_step_id r, of_int (the (sr_allowance_seconds r)) * ratio)) ?al"
      define lr where "lr = largest_remainder (order_index (dv_steps dv)) raw R"
      define f where "f = (\<lambda>k. the (map_of lr k))"
      have T0: "0 < T" using False as(2) T by (metis (no_types, lifting) as_def T_def open_allowance_def
            sum_list_nonneg order_le_less)
      have rawk: "map fst raw = map sr_step_id ?al" by (simp add: raw_def o_def)
      have zip: "dict_of (zip (map sr_step_id ?al) (map (\<lambda>a. of_int a * ratio) as)) = raw"
        using dal by (subst dict_of_distinct) (simp_all add: raw_def as_def zip_map_map zip_same_conv_map o_def)
      have lrk: "map fst lr = map sr_step_id ?al" unfolding lr_def largest.keys rawk ..
      have lrd: "distinct (map fst lr)" using dal unfolding lrk .
      have lr_entries: "map (\<lambda>(k, n). (k, Some n)) lr = map (\<lambda>r. (sr_step_id r, Some (f (sr_step_id r)))) ?al"
      proof -
        have "map (\<lambda>(k, n). (k, Some n)) lr = map (\<lambda>k. (k, Some (f k))) (map fst lr)"
          using lrd by (auto simp: f_def)
        then show ?thesis unfolding lrk by simp
      qed
      have rsum: "sum_list (map snd raw) = of_int R"
      proof -
        have "sum_list (map snd raw) = of_int (sum_list as) * ratio"
          unfolding raw_def as_def by (rule scaled_sum)
        moreover have "sum_list as = T" by (simp add: as_def T_def open_allowance_def)
        ultimately show ?thesis using T0 by (simp add: ratio_def)
      qed
      have total: "dict_sum lr = R"
        unfolding lr_def by (rule largest.conserves [OF _ rsum]) (use dal rawk in simp)
      have nonneg: "0 \<le> f (sr_step_id r)" if "r \<in> set ?al" for r
      proof -
        have "0 \<le> ratio" using False T0 by (simp add: ratio_def)
        then have "\<forall>(k, s) \<in> set raw. 0 \<le> s" using as(2) by (auto simp: raw_def as_def)
        moreover have "sr_step_id r \<in> set (map fst lr)" using that unfolding lrk by simp
        then have "(sr_step_id r, f (sr_step_id r)) \<in> set lr"
          using lrd unfolding f_def by (metis list.set_map map_of_eq_None_iff map_of_SomeD option.collapse)
        ultimately show ?thesis
          unfolding lr_def by (intro largest.part_nonneg [of raw]) (use dal rawk in simp_all)
      qed
      have "share_total (pressure_entries dv f) = (\<Sum>k \<in> set (map fst lr). the (map_of lr k))"
        unfolding share_total_entries [OF ids] lrk f_def by simp
      also have "\<dots> = R" using dict_sum_keys [OF lrd] total by simp
      finally have st: "share_total (pressure_entries dv f) = R" .
      have "compute_remaining_pressure dv = Inr (Some ratio, pressure_entries dv f)"
        using ne False unfolding run as(1) rbind_Inr T ratio_def [symmetric] zip lr_def [symmetric] lr_entries entries
        by simp
      then show ?thesis using st nonneg False unfolding T_def [symmetric] R_def [symmetric] by auto
    qed
  qed
qed

abbreviation sample_row :: "string \<Rightarrow> string \<Rightarrow> int \<Rightarrow> int \<Rightarrow> step_row" where
  "sample_row i st allowance worked \<equiv>
     step_result (sample_step i StepPENDING ''wood'' worked) (Some allowance) (Some (allowance - worked)) ''on_track'' []
       \<lparr>sr_state := st\<rparr>"

abbreviation sample_division :: division where
  "sample_division \<equiv> \<lparr>dv_budget_seconds = Some 1000, dv_charged_seconds = Some 0, dv_distributable_seconds = Some 1000,
     dv_sections = [], dv_steps = [sample_row ''a'' ''completed'' 400 500, sample_row ''b'' ''working'' 300 350,
       sample_row ''c'' ''pending'' 300 0]\<rparr>"

lemma pressure_shares_remaining_witness:
  "\<exists>ratio f. compute_remaining_pressure sample_division = Inr (ratio, pressure_entries sample_division f)
    \<and> share_total (pressure_entries sample_division f) = 150"
  using pressure_shares_remaining [of sample_division 1000]
  by (simp add: step_result_def Let_def allocatable_rows_def settled_rows_def row_is_open_def row_is_excluded_def
      row_is_consuming_def served_row_def step_seconds_def open_allowance_def remaining_seconds_def
      TERMINAL_STEP_STATES_def) blast

end
