(* ===== verification/BudgetSignal.thy ===== *)
theory BudgetSignal
  imports Calculator BudgetDivision
begin

text \<open>
  \<open>domain/item_economics/budget_signal.py\<close>: the verdict on a task's budget from the sections of its
  division. What open sections may still consume is the remaining commitment; compared with what is
  left of the allowance it gives the projected overrun, which only counts from a floor of 60 seconds
  and while some section still has work ahead.
\<close>

definition PROJECTED_OVER_FLOOR_SECONDS :: int where
  "PROJECTED_OVER_FLOOR_SECONDS = 60"

definition contributes :: "section_row \<Rightarrow> bool" where
  "contributes s \<longleftrightarrow> row_left_seconds s \<noteq> None \<and> sg_state (row_group s) \<notin> step_state_value ` TERMINAL_STEP_STATES"

definition remaining_commitment :: "section_row list \<Rightarrow> int" where
  "remaining_commitment sections =
     sum_list (map (\<lambda>s. max 0 (the (row_left_seconds s))) (filter contributes sections))"

definition has_work_ahead :: "section_row list \<Rightarrow> bool" where
  "has_work_ahead sections = list_ex contributes sections"

record budget_signal =
  budget_state :: string
  over_seconds :: int
  over_cost_minor :: int
  projected_over_seconds :: int
  projected_over_cost_minor :: int
  allowed_seconds :: int
  actual_worked_seconds :: int
  signal_rate_ten_thousandths :: int

definition NO_BUDGET_SIGNAL :: budget_signal where
  "NO_BUDGET_SIGNAL = \<lparr>budget_state = ''no_budget'', over_seconds = 0, over_cost_minor = 0,
     projected_over_seconds = 0, projected_over_cost_minor = 0, allowed_seconds = 0,
     actual_worked_seconds = 0, signal_rate_ten_thousandths = 0\<rparr>"

definition compute_budget_signal :: "section_row list \<Rightarrow> int \<Rightarrow> int \<Rightarrow> decimal \<Rightarrow> budget_signal result" where
  "compute_budget_signal sections allowed_seconds_raw actual rate =
     (let commitment = remaining_commitment sections;
          remaining_pot_seconds = allowed_seconds_raw - actual;
          projected = max 0 (commitment - remaining_pot_seconds);
          over = max 0 (actual - max 0 allowed_seconds_raw);
          state = (if over > 0 then ''over''
                   else if projected \<ge> PROJECTED_OVER_FLOOR_SECONDS \<and> has_work_ahead sections
                   then ''projected_over'' else ''within_budget'')
      in rbind (calculate_consumed_cost_minor (VInt over) (VDec rate))
         (\<lambda>over_cost. rbind (calculate_consumed_cost_minor (VInt projected) (VDec rate))
         (\<lambda>projected_cost. Inr \<lparr>budget_state = state, over_seconds = over, over_cost_minor = over_cost,
            projected_over_seconds = projected, projected_over_cost_minor = projected_cost,
            allowed_seconds = max 0 allowed_seconds_raw, actual_worked_seconds = actual,
            signal_rate_ten_thousandths = dec_to_int (dec_scaleb 28 rate 4)\<rparr>)))"

lemma remaining_commitment_nonneg: "0 \<le> remaining_commitment sections"
  unfolding remaining_commitment_def by (rule sum_list_nonneg) auto

lemma no_work_no_commitment: "\<not> has_work_ahead sections \<Longrightarrow> remaining_commitment sections = 0"
  by (simp add: has_work_ahead_def remaining_commitment_def list_ex_iff filter_False)

text \<open>for column values the signal is always computed. It is over exactly when more was worked than
  the (non-negative) allowance; otherwise projected over exactly when what the open sections may still
  consume exceeds what is left by a minute or more and some section has work ahead; and within budget
  in every other case. The seconds are never negative, and a task that is over is over by no more than
  it is projected to be.\<close>

lemma budget_signal_verdict:
  assumes "column_decimal rate" "0 \<le> actual" "actual < 2 ^ 60" "\<bar>allowed\<bar> < 2 ^ 60"
    and "remaining_commitment sections < 2 ^ 60"
  shows "\<exists>s. compute_budget_signal sections allowed actual rate = Inr s
    \<and> (budget_state s = ''over'' \<longleftrightarrow> max 0 allowed < actual)
    \<and> (budget_state s = ''projected_over'' \<longleftrightarrow> actual \<le> max 0 allowed \<and> has_work_ahead sections
         \<and> 60 \<le> remaining_commitment sections - (allowed - actual))
    \<and> budget_state s \<in> {''over'', ''projected_over'', ''within_budget''}
    \<and> 0 \<le> over_seconds s \<and> over_seconds s \<le> projected_over_seconds s \<and> 0 \<le> allowed_seconds s"
proof -
  let ?over = "max 0 (actual - max 0 allowed)"
  let ?projected = "max 0 (remaining_commitment sections - (allowed - actual))"
  have "column_money ?over" "column_money ?projected"
    using assms remaining_commitment_nonneg [of sections] by (auto simp: column_money_def)
  then obtain c c' where "calculate_consumed_cost_minor (VInt ?over) (VDec rate) = Inr c"
      "calculate_consumed_cost_minor (VInt ?projected) (VDec rate) = Inr c'"
    using consumed_cost_total [OF _ assms(1)] by meson
  moreover have "?over \<le> ?projected" using remaining_commitment_nonneg [of sections] by auto
  ultimately show ?thesis
    by (auto simp: compute_budget_signal_def Let_def PROJECTED_OVER_FLOOR_SECONDS_def)
qed

lemma budget_signal_verdict_witness:
  "\<exists>s. compute_budget_signal [] 600 900 (Dec 130208 (- 4)) = Inr s \<and> budget_state s = ''over''"
  using budget_signal_verdict [of "Dec 130208 (- 4)" 900 600 "[]"]
  by (auto simp: column_decimal_def remaining_commitment_def)

end
