(* ===== verification/EconomicsConfiguration.thy ===== *)
theory EconomicsConfiguration
  imports TypicalFilters Calculator
begin

text \<open>
  \<open>domain/item_economics/configuration.py\<close>: which production cost group, cost basis and cost model
  apply to an item on a date, and the first reason why its economics cannot be shown. Database rows
  are read through \<open>getattr\<close> with defaults; every attribute it names is a field here.
\<close>

datatype economics_status =
    ITEM_MISSING_MAJOR_CATEGORY
  | NOT_CONFIGURED_NO_COST_GROUP
  | NOT_CONFIGURED_AMBIGUOUS_COST_GROUP
  | NOT_CONFIGURED_NO_BASIS_VERSION
  | NOT_CONFIGURED_NO_COST_MODEL_VERSION
  | ITEM_UNVALUED
  | ITEM_MISSING_EXPECTED_PRICE
  | ITEM_MISSING_PURCHASE_COST
  | CURRENCY_MISMATCH
  | NOT_EVALUATED
  | INFEASIBLE
  | EconomicsOK

definition CONFIGURATION_FAILURE_PRECEDENCE :: "economics_status list" where
  "CONFIGURATION_FAILURE_PRECEDENCE = [ITEM_MISSING_MAJOR_CATEGORY, NOT_CONFIGURED_NO_COST_GROUP,
     NOT_CONFIGURED_AMBIGUOUS_COST_GROUP, NOT_CONFIGURED_NO_BASIS_VERSION,
     NOT_CONFIGURED_NO_COST_MODEL_VERSION]"

definition ITEM_READINESS_PRECEDENCE :: "economics_status list" where
  "ITEM_READINESS_PRECEDENCE = [ITEM_UNVALUED, ITEM_MISSING_EXPECTED_PRICE, ITEM_MISSING_PURCHASE_COST,
     CURRENCY_MISMATCH, NOT_EVALUATED]"

record cost_group =
  cg_client_id :: string
  cg_major_category :: "item_major_category option"
  cg_is_deleted :: bool

record config_version =
  cv_client_id :: string
  cv_production_cost_group_id :: "string option"
  cv_is_deleted :: bool
  cv_effective_from :: "int option"
  cv_effective_to :: "int option"
  cv_currency :: "item_currency option"

record economics_selection =
  es_status :: economics_status
  es_selected_group :: "cost_group option"
  es_basis_version :: "config_version option"
  es_cost_model_version :: "config_version option"

definition resolve_major_category :: "string option \<Rightarrow> item_major_category option" where
  "resolve_major_category snapshot =
     (case snapshot of None \<Rightarrow> None
      | Some v \<Rightarrow> if v = ''wood'' then Some WOOD else if v = ''seat'' then Some SEAT else None)"

definition is_applicable :: "config_version \<Rightarrow> int \<Rightarrow> bool" where
  "is_applicable v on_date \<longleftrightarrow>
     (if cv_is_deleted v then False
      else (case cv_effective_from v of None \<Rightarrow> True | Some f \<Rightarrow> f \<le> on_date)
         \<and> (case cv_effective_to v of None \<Rightarrow> True | Some t \<Rightarrow> t > on_date))"

definition resolve_economics_selection ::
  "item_major_category option \<Rightarrow> cost_group list \<Rightarrow> config_version list \<Rightarrow> config_version list \<Rightarrow> int
   \<Rightarrow> economics_selection" where
  "resolve_economics_selection major_category groups basis_versions cost_model_versions on_date =
     (let sel = (\<lambda>st g b m. \<lparr>es_status = st, es_selected_group = g, es_basis_version = b, es_cost_model_version = m\<rparr>)
      in if major_category = None then sel (CONFIGURATION_FAILURE_PRECEDENCE ! 0) None None None
      else let active_groups = filter (\<lambda>g. \<not> cg_is_deleted g \<and> cg_major_category g = major_category) groups
      in case active_groups of
           [] \<Rightarrow> sel (CONFIGURATION_FAILURE_PRECEDENCE ! 1) None None None
         | _ # _ # _ \<Rightarrow> sel (CONFIGURATION_FAILURE_PRECEDENCE ! 2) None None None
         | [grp] \<Rightarrow>
           (case filter (\<lambda>v. cv_production_cost_group_id v = Some (cg_client_id grp) \<and> is_applicable v on_date)
                   basis_versions of
              [] \<Rightarrow> sel (CONFIGURATION_FAILURE_PRECEDENCE ! 3) (Some grp) None None
            | basis # _ \<Rightarrow>
              (case filter (\<lambda>v. is_applicable v on_date) cost_model_versions of
                 [] \<Rightarrow> sel (CONFIGURATION_FAILURE_PRECEDENCE ! 4) (Some grp) (Some basis) None
               | model # _ \<Rightarrow> sel EconomicsOK (Some grp) (Some basis) (Some model))))"

definition resolve_economics_configuration ::
  "item_major_category option \<Rightarrow> cost_group list \<Rightarrow> config_version list \<Rightarrow> config_version list \<Rightarrow> int
   \<Rightarrow> economics_status" where
  "resolve_economics_configuration mc groups bases models on_date =
     es_status (resolve_economics_selection mc groups bases models on_date)"

record item_valuation =
  iv_expected_sale_price_minor :: "int option"
  iv_purchase_cost_minor :: "int option"
  iv_currency :: "item_currency option"

text \<open>The dictionary \<open>checks\<close>, as a function of its key.\<close>

definition readiness_check ::
  "item_valuation option \<Rightarrow> economics_selection \<Rightarrow> bool \<Rightarrow> economics_status \<Rightarrow> bool" where
  "readiness_check valuation selection has_purchase_term status =
     (case status of
        ITEM_UNVALUED \<Rightarrow> valuation = None
      | ITEM_MISSING_EXPECTED_PRICE \<Rightarrow>
          (case valuation of None \<Rightarrow> False | Some v \<Rightarrow> iv_expected_sale_price_minor v = None)
      | ITEM_MISSING_PURCHASE_COST \<Rightarrow>
          (case valuation of None \<Rightarrow> False | Some v \<Rightarrow> has_purchase_term \<and> iv_purchase_cost_minor v = None)
      | CURRENCY_MISMATCH \<Rightarrow>
          (case (valuation, es_basis_version selection, es_cost_model_version selection) of
             (Some v, Some b, Some m) \<Rightarrow> iv_currency v \<noteq> cv_currency b \<or> cv_currency b \<noteq> cv_currency m
           | _ \<Rightarrow> False)
      | NOT_EVALUATED \<Rightarrow> True
      | _ \<Rightarrow> False)"

definition resolve_item_economics_status ::
  "item_valuation option \<Rightarrow> economics_selection \<Rightarrow> cost_term_type list \<Rightarrow> economics_status result" where
  "resolve_item_economics_status valuation selection model_terms =
     (if es_status selection \<noteq> EconomicsOK then Inr (es_status selection)
      else let has_purchase_term = list_ex (\<lambda>t. term_type_value t = ''item_purchase_cost'') model_terms
      in case List.find (readiness_check valuation selection has_purchase_term) ITEM_READINESS_PRECEDENCE of
           Some status \<Rightarrow> Inr status
         | None \<Rightarrow> Inl (AssertionError ''ITEM_READINESS_PRECEDENCE must include a terminal status''))"

text \<open>The configuration is complete exactly when the item has a category, that category has exactly
  one live cost group, the group a cost basis and the workspace a cost model that cover the date; the
  selected rows are then the first such ones, and each of the five failures excludes the next.\<close>

lemma configuration_ok_iff:
  "es_status (resolve_economics_selection mc groups bases models d) = EconomicsOK \<longleftrightarrow>
     mc \<noteq> None
   \<and> (\<exists>g. filter (\<lambda>g. \<not> cg_is_deleted g \<and> cg_major_category g = mc) groups = [g]
        \<and> (\<exists>b \<in> set bases. cv_production_cost_group_id b = Some (cg_client_id g) \<and> is_applicable b d)
        \<and> (\<exists>m \<in> set models. is_applicable m d)
        \<and> es_selected_group (resolve_economics_selection mc groups bases models d) = Some g
        \<and> (\<exists>b \<in> set bases. es_basis_version (resolve_economics_selection mc groups bases models d) = Some b
             \<and> cv_production_cost_group_id b = Some (cg_client_id g) \<and> is_applicable b d)
        \<and> (\<exists>m \<in> set models. es_cost_model_version (resolve_economics_selection mc groups bases models d) = Some m
             \<and> is_applicable m d))"
proof -
  have hd: "filter P xs = y # ys \<Longrightarrow> y \<in> set xs \<and> P y" for P :: "config_version \<Rightarrow> bool" and xs y ys
    by (drule arg_cong [where f = set]) auto
  show ?thesis
    by (auto simp: resolve_economics_selection_def Let_def CONFIGURATION_FAILURE_PRECEDENCE_def filter_empty_conv
        split: list.splits dest!: hd)
qed

text \<open>the readiness of an item whose configuration is complete never raises and is the first failing
  check in the declared order; it is \<open>NOT_EVALUATED\<close> exactly when the valuation has its price, its
  purchase cost where a term needs one, and the currency of the selected basis and model.\<close>

lemma item_status_not_evaluated_iff:
  assumes "es_status sel = EconomicsOK" "es_basis_version sel = Some b" "es_cost_model_version sel = Some m"
  shows "\<exists>st. resolve_item_economics_status val sel terms = Inr st \<and> st \<in> set ITEM_READINESS_PRECEDENCE
    \<and> (st = NOT_EVALUATED \<longleftrightarrow>
        (\<exists>v. val = Some v \<and> iv_expected_sale_price_minor v \<noteq> None
           \<and> (ITEM_PURCHASE_COST \<in> set terms \<longrightarrow> iv_purchase_cost_minor v \<noteq> None)
           \<and> iv_currency v = cv_currency b \<and> cv_currency b = cv_currency m))"
proof -
  have pt: "list_ex (\<lambda>t. term_type_value t = ''item_purchase_cost'') terms \<longleftrightarrow> ITEM_PURCHASE_COST \<in> set terms"
  proof -
    have "term_type_value t = ''item_purchase_cost'' \<longleftrightarrow> t = ITEM_PURCHASE_COST" for t by (cases t) simp_all
    then show ?thesis by (auto simp: list_ex_iff)
  qed
  show ?thesis
    using assms unfolding resolve_item_economics_status_def pt Let_def
    by (cases val) (auto simp: ITEM_READINESS_PRECEDENCE_def readiness_check_def)
qed

lemma item_status_not_evaluated_iff_witness:
  "\<exists>st. resolve_item_economics_status None
     \<lparr>es_status = EconomicsOK, es_selected_group = None,
      es_basis_version = Some \<lparr>cv_client_id = ''b'', cv_production_cost_group_id = Some ''g'', cv_is_deleted = False,
        cv_effective_from = None, cv_effective_to = None, cv_currency = Some EURO\<rparr>,
      es_cost_model_version = Some \<lparr>cv_client_id = ''m'', cv_production_cost_group_id = None, cv_is_deleted = False,
        cv_effective_from = None, cv_effective_to = None, cv_currency = Some EURO\<rparr>\<rparr> [] = Inr st
     \<and> st \<noteq> NOT_EVALUATED"
  using item_status_not_evaluated_iff [of "\<lparr>es_status = EconomicsOK, es_selected_group = None,
      es_basis_version = Some \<lparr>cv_client_id = ''b'', cv_production_cost_group_id = Some ''g'', cv_is_deleted = False,
        cv_effective_from = None, cv_effective_to = None, cv_currency = Some EURO\<rparr>,
      es_cost_model_version = Some \<lparr>cv_client_id = ''m'', cv_production_cost_group_id = None, cv_is_deleted = False,
        cv_effective_from = None, cv_effective_to = None, cv_currency = Some EURO\<rparr>\<rparr>" _ _ None "[]"]
  by auto

end
