(* ===== verification/TimeSweep.thy ===== *)
theory TimeSweep
  imports Prelude
begin

text \<open>
  What the two sweeps over time intervals share (\<open>domain/analytics/concurrency.py\<close> and
  \<open>domain/analytics/linear_timeline.py\<close>): the sorted boundary points, the segments between
  consecutive points, the grouping of intervals in a \<open>defaultdict(list)\<close>, and the facts the sweeps
  rest on: no boundary lies inside a segment, every instant between the first and the last point lies
  in a segment, and an additive measure of the segments telescopes.
\<close>

definition boundary_points :: "int list \<Rightarrow> int list" where
  "boundary_points ps = sort (remdups ps)"  \<comment> \<open>\<open>sorted({...})\<close>\<close>

definition consecutive :: "int list \<Rightarrow> (int \<times> int) list" where
  "consecutive ps = zip ps (tl ps)"  \<comment> \<open>\<open>zip(points, points[1:])\<close>\<close>

text \<open>\<open>d[k] += x\<close> on a \<open>defaultdict(float)\<close>; seconds are exact rationals.\<close>

definition dd_add :: "'k \<Rightarrow> rat \<Rightarrow> ('k \<times> rat) list \<Rightarrow> ('k \<times> rat) list" where
  "dd_add k x d = AList.update k ((case map_of d k of None \<Rightarrow> 0 | Some y \<Rightarrow> y) + x) d"

definition dd_total :: "('k \<times> rat) list \<Rightarrow> rat" where
  "dd_total d = sum_list (map snd d)"

definition total_seconds :: "int \<Rightarrow> int \<Rightarrow> rat" where
  "total_seconds start stop = of_int (stop - start) / 1000000"  \<comment> \<open>\<open>(stop - start).total_seconds()\<close>\<close>

lemma distinct_dd_add: "distinct (map fst d) \<Longrightarrow> distinct (map fst (dd_add k x d))"
  by (simp add: dd_add_def distinct_update)

lemma dd_total_add: "distinct (map fst d) \<Longrightarrow> dd_total (dd_add k x d) = dd_total d + x"
proof (induction d)
  case (Cons p d)
  obtain k' y where p: "p = (k', y)" by (cases p)
  have "k \<notin> fst ` set d \<Longrightarrow> map_of d k = None" by (simp add: map_of_eq_None_iff)
  with Cons show ?case by (auto simp: dd_add_def dd_total_def p)
qed (simp add: dd_add_def dd_total_def)

section \<open>Segments\<close>

lemma boundary_points_strict: "sorted_wrt (<) (boundary_points ps)"
  by (simp add: boundary_points_def strict_sorted_iff)

lemma set_boundary_points [simp]: "set (boundary_points ps) = set ps"
  by (simp add: boundary_points_def)

lemma consecutive_Cons [simp]:
  "consecutive [] = []" "consecutive [p] = []" "consecutive (p # q # ps) = (p, q) # consecutive (q # ps)"
  by (simp_all add: consecutive_def)

lemma consecutive_facts:
  assumes "sorted_wrt (<) ps" "(l, r) \<in> set (consecutive ps)"
  shows "l < r \<and> l \<in> set ps \<and> r \<in> set ps \<and> (\<forall>p \<in> set ps. p \<le> l \<or> r \<le> p)"
  using assms
proof (induction ps rule: induct_list012)
  case (3 p q ps)
  show ?case
  proof (cases "(l, r) = (p, q)")
    case True
    with "3.prems" show ?thesis by (auto intro: less_imp_le)
  next
    case False
    then have "(l, r) \<in> set (consecutive (q # ps))" using "3.prems"(2) by auto
    moreover have "sorted_wrt (<) (q # ps)" using "3.prems"(1) by simp
    ultimately have "l < r \<and> l \<in> set (q # ps) \<and> r \<in> set (q # ps) \<and> (\<forall>x \<in> set (q # ps). x \<le> l \<or> r \<le> x)"
      by (rule "3.IH"(2) [rotated])
    moreover have "p \<le> l" using "3.prems" calculation by (auto intro: less_imp_le)
    ultimately show ?thesis by auto
  qed
qed simp_all

lemma consecutive_covers:
  assumes "sorted_wrt (<) ps" "ps \<noteq> []" "hd ps \<le> t" "t < last ps"
  shows "\<exists>l r. (l, r) \<in> set (consecutive ps) \<and> l \<le> t \<and> t < r"
  using assms
proof (induction ps rule: induct_list012)
  case (3 p q ps)
  show ?case
  proof (cases "t < q")
    case False
    with "3.prems" "3.IH"(2) have "\<exists>l r. (l, r) \<in> set (consecutive (q # ps)) \<and> l \<le> t \<and> t < r" by simp
    then show ?thesis by auto
  qed (use "3.prems" in auto)
qed simp_all

lemma consecutive_telescopes:
  fixes f :: "int \<Rightarrow> int \<Rightarrow> 'a::ab_group_add"
  assumes "\<And>a b c. a \<le> b \<Longrightarrow> b \<le> c \<Longrightarrow> f a b + f b c = f a c" "f (hd ps) (hd ps) = 0"
    and "sorted_wrt (<) ps" "ps \<noteq> []"
  shows "sum_list (map (\<lambda>(l, r). f l r) (consecutive ps)) = f (hd ps) (last ps)"
  using assms(3,4)
proof (induction ps rule: induct_list012)
  case (2 p)
  show ?case using assms(1) [of p p p] by simp
next
  case (3 p q ps)
  have "q \<le> last (q # ps)" using "3.prems"(1) by (auto simp: less_imp_le)
  then have "f p q + f q (last (q # ps)) = f p (last (q # ps))" using "3.prems"(1) by (intro assms(1)) auto
  with 3 show ?case by simp
qed simp

lemma consecutive_chain:
  "successively (\<lambda>(a, b) (c, d). b = c) (consecutive ps)"
proof (induction ps rule: induct_list012)
  case (3 p q ps)
  then show ?case by (cases ps) auto
qed simp_all

lemma sorted_ends: "sorted_wrt (<) ps \<Longrightarrow> p \<in> set ps \<Longrightarrow> hd ps \<le> p \<and> p \<le> last (ps :: int list)"
proof (induction ps)
  case (Cons a ps)
  then show ?case by (cases "ps = []") (auto simp: less_imp_le intro: order_trans [OF less_imp_le])
qed simp

end
