(* ===== verification/Concurrency.thy ===== *)
theory Concurrency
  imports TimeSweep
begin

text \<open>
  \<open>domain/analytics/concurrency.py\<close>: the time one worker earns per step record when several batchable
  steps run at once. Times are microseconds; a duration in seconds is the exact rational, where the
  code rounds to a float (\<open>total_seconds()\<close> and the division by the number of open records), so the
  properties are those of the exact values the floats approximate.

  The lemmas show conservation: what the batchable records of a state earn together is the real time
  during which at least one of them was open, non-batch records earn their own duration, and the
  forward rates of the open batchable records of a state sum to one second per second.
\<close>

section \<open>Operations\<close>

record time_interval =
  ti_record_id :: string
  ti_step_id :: string
  ti_state :: string
  ti_entered_at :: int
  ti_exited_at :: "int option"
  ti_marked_wrong :: bool
  ti_is_batchable :: bool

definition interval_end :: "int \<Rightarrow> time_interval \<Rightarrow> int" where
  "interval_end now i = (case ti_exited_at i of None \<Rightarrow> now | Some e \<Rightarrow> e)"

definition lasts :: "int \<Rightarrow> time_interval \<Rightarrow> bool" where
  "lasts now i \<longleftrightarrow> \<not> total_seconds (ti_entered_at i) (interval_end now i) \<le> 0"

type_synonym span = "string \<times> int \<times> int"

text \<open>The first loop over the intervals of a state: non-batch intervals earn their duration, the
  batchable ones are collected.\<close>

definition earn_non_batch :: "int \<Rightarrow> (string \<times> rat) list \<Rightarrow> time_interval \<Rightarrow> (string \<times> rat) list" where
  "earn_non_batch now result i =
     (if lasts now i \<and> \<not> ti_is_batchable i
      then dd_add (ti_record_id i) (total_seconds (ti_entered_at i) (interval_end now i)) result else result)"

definition batch_spans :: "int \<Rightarrow> time_interval list \<Rightarrow> span list" where
  "batch_spans now is = map (\<lambda>i. (ti_record_id i, ti_entered_at i, interval_end now i))
     (filter (\<lambda>i. lasts now i \<and> ti_is_batchable i) is)"

definition open_ids :: "span list \<Rightarrow> int \<Rightarrow> int \<Rightarrow> string list" where
  "open_ids spans left right = map fst (filter (\<lambda>(rid, start, stop). start \<le> left \<and> stop \<ge> right) spans)"

definition earn_segment :: "span list \<Rightarrow> (string \<times> rat) list \<Rightarrow> int \<times> int \<Rightarrow> (string \<times> rat) list" where
  "earn_segment spans result seg =
     (let segment = total_seconds (fst seg) (snd seg);
          ids = open_ids spans (fst seg) (snd seg);
          k = length ids
      in if segment \<le> 0 \<or> k = 0 then result
         else foldl (\<lambda>res rid. dd_add rid (segment / of_nat k) res) result ids)"

definition span_points :: "span list \<Rightarrow> int list" where
  "span_points spans = boundary_points (concat (map (\<lambda>(rid, start, stop). [start, stop]) spans))"

definition sweep_state :: "int \<Rightarrow> (string \<times> rat) list \<Rightarrow> time_interval list \<Rightarrow> (string \<times> rat) list" where
  "sweep_state now result is =
     (let result = foldl (earn_non_batch now) result is; spans = batch_spans now is
      in if spans = [] then result
         else foldl (earn_segment spans) result (consecutive (span_points spans)))"

definition concurrency_sweep :: "time_interval list \<Rightarrow> int \<Rightarrow> (string \<times> rat) list" where
  "concurrency_sweep intervals now =
     foldl (\<lambda>result (_, is). sweep_state now result is) [] (group_by ti_state intervals)"

definition averaged_seconds_by_record :: "time_interval list \<Rightarrow> int \<Rightarrow> (string \<times> rat) list" where
  "averaged_seconds_by_record intervals now = concurrency_sweep (filter (\<lambda>i. \<not> ti_marked_wrong i) intervals) now"

definition wasted_seconds_by_record :: "time_interval list \<Rightarrow> int \<Rightarrow> (string \<times> rat) list" where
  "wasted_seconds_by_record intervals now = concurrency_sweep (filter ti_marked_wrong intervals) now"

definition eligible :: "int \<Rightarrow> time_interval \<Rightarrow> bool" where
  "eligible now i \<longleftrightarrow> ti_exited_at i = None \<and> \<not> ti_marked_wrong i \<and> \<not> ti_entered_at i > now"

definition rate_state :: "(string \<times> (rat \<times> nat)) list \<Rightarrow> time_interval list \<Rightarrow> (string \<times> (rat \<times> nat)) list" where
  "rate_state rates is =
     (let divisor = length (filter ti_is_batchable is)
      in foldl (\<lambda>rates i. AList.update (ti_record_id i)
            (if ti_is_batchable i then (1 / of_nat divisor, divisor) else (1, 1)) rates) rates is)"

definition accrual_rate_by_record :: "time_interval list \<Rightarrow> int \<Rightarrow> (string \<times> (rat \<times> nat)) list" where
  "accrual_rate_by_record intervals now =
     foldl (\<lambda>rates (_, is). rate_state rates is) [] (group_by ti_state (filter (eligible now) intervals))"

section \<open>Conservation of the swept time\<close>

lemma foldl_dd_add:
  assumes "distinct (map fst d)"
  shows "distinct (map fst (foldl (\<lambda>res rid. dd_add rid x res) d ids))
    \<and> dd_total (foldl (\<lambda>res rid. dd_add rid x res) d ids) = dd_total d + of_nat (length ids) * x"
  using assms
proof (induction ids arbitrary: d)
  case (Cons rid ids)
  then show ?case
    using Cons.IH [OF distinct_dd_add [OF Cons.prems, of rid x]] dd_total_add [OF Cons.prems, of rid x]
    by (simp add: algebra_simps)
qed simp

definition covered :: "span list \<Rightarrow> int \<Rightarrow> bool" where
  "covered spans t \<longleftrightarrow> (\<exists>(rid, start, stop) \<in> set spans. start \<le> t \<and> t < stop)"

text \<open>The real time, in seconds, during which at least one of the spans is open.\<close>

definition open_time :: "span list \<Rightarrow> int \<Rightarrow> int \<Rightarrow> rat" where
  "open_time spans left right = of_nat (card {t. left \<le> t \<and> t < right \<and> covered spans t}) / 1000000"

lemma open_time_add: "a \<le> b \<Longrightarrow> b \<le> c \<Longrightarrow> open_time spans a b + open_time spans b c = open_time spans a c"
proof -
  assume "a \<le> b" "b \<le> c"
  then have "{t. a \<le> t \<and> t < c \<and> covered spans t}
      = {t. a \<le> t \<and> t < b \<and> covered spans t} \<union> {t. b \<le> t \<and> t < c \<and> covered spans t}" by auto
  moreover have "finite {t. x \<le> t \<and> t < y \<and> covered spans t}" for x y
    by (rule finite_subset [of _ "{x..<y}"]) auto
  then have "card ({t. a \<le> t \<and> t < b \<and> covered spans t} \<union> {t. b \<le> t \<and> t < c \<and> covered spans t})
      = card {t. a \<le> t \<and> t < b \<and> covered spans t} + card {t. b \<le> t \<and> t < c \<and> covered spans t}"
    by (intro card_Un_disjoint) auto
  ultimately show ?thesis by (simp add: open_time_def add_divide_distrib)
qed

lemma open_time_self: "open_time spans a a = 0"
proof -
  have "{t. a \<le> t \<and> t < a \<and> covered spans t} = {}" by auto
  then show ?thesis unfolding open_time_def by (simp only: card.empty of_nat_0 div_0)
qed

lemma earn_segment_total:
  assumes d: "distinct (map fst d)" and lr: "l < r"
    and sharp: "\<forall>(rid, start, stop) \<in> set spans. (start \<le> l \<or> r \<le> start) \<and> (stop \<le> l \<or> r \<le> stop)"
  shows "distinct (map fst (earn_segment spans d (l, r)))
    \<and> dd_total (earn_segment spans d (l, r)) = dd_total d + open_time spans l r"
proof -
  have seg: "0 < total_seconds l r" using lr by (simp add: total_seconds_def)
  show ?thesis
  proof (cases "open_ids spans l r = []")
    case True
    then have "{t. l \<le> t \<and> t < r \<and> covered spans t} = {}"
      using sharp by (fastforce simp: covered_def open_ids_def filter_empty_conv)
    then have "open_time spans l r = 0" unfolding open_time_def by (simp only: card.empty of_nat_0 div_0)
    with True d show ?thesis by (simp add: earn_segment_def)
  next
    case False
    then obtain rid start stop where "(rid, start, stop) \<in> set spans" "start \<le> l" "r \<le> stop"
      by (auto simp: open_ids_def filter_empty_conv)
    then have "covered spans t" if "l \<le> t" "t < r" for t
      unfolding covered_def using that by (intro bexI [of _ "(rid, start, stop)"]) auto
    then have "{t. l \<le> t \<and> t < r \<and> covered spans t} = {l..<r}" by auto
    then have "open_time spans l r = total_seconds l r" using lr by (simp add: open_time_def total_seconds_def)
    with False seg foldl_dd_add [OF d, of "total_seconds l r / of_nat (length (open_ids spans l r))" "open_ids spans l r"]
    show ?thesis by (simp add: earn_segment_def Let_def)
  qed
qed

lemma earn_segments_total:
  assumes "distinct (map fst d)"
    and "\<forall>(l, r) \<in> set segs. l < r \<and> (\<forall>(rid, start, stop) \<in> set spans. (start \<le> l \<or> r \<le> start) \<and> (stop \<le> l \<or> r \<le> stop))"
  shows "distinct (map fst (foldl (earn_segment spans) d segs))
    \<and> dd_total (foldl (earn_segment spans) d segs) = dd_total d + sum_list (map (\<lambda>(l, r). open_time spans l r) segs)"
  using assms
proof (induction segs arbitrary: d)
  case (Cons s segs)
  obtain l r where s: "s = (l, r)" by (cases s)
  from Cons.prems s earn_segment_total [of d l r spans]
  have "distinct (map fst (earn_segment spans d s))"
    "dd_total (earn_segment spans d s) = dd_total d + open_time spans l r" by auto
  with Cons.IH [of "earn_segment spans d s"] Cons.prems s show ?case by simp
qed simp

definition union_seconds :: "span list \<Rightarrow> rat" where
  "union_seconds spans = of_nat (card (\<Union>(rid, start, stop) \<in> set spans. {start..<stop})) / 1000000"

lemma open_time_all:
  assumes "\<forall>(rid, start, stop) \<in> set spans. lo \<le> start \<and> stop \<le> hi"
  shows "open_time spans lo hi = union_seconds spans"
proof -
  have "{t. lo \<le> t \<and> t < hi \<and> covered spans t} = (\<Union>(rid, start, stop) \<in> set spans. {start..<stop})"
    using assms by (fastforce simp: covered_def)
  then show ?thesis by (simp add: open_time_def union_seconds_def)
qed

lemma batch_earns_union:
  assumes d: "distinct (map fst d)" and ne: "spans \<noteq> []"
  shows "distinct (map fst (foldl (earn_segment spans) d (consecutive (span_points spans))))
    \<and> dd_total (foldl (earn_segment spans) d (consecutive (span_points spans))) = dd_total d + union_seconds spans"
proof -
  let ?ps = "span_points spans"
  have strict: "sorted_wrt (<) ?ps" by (simp add: span_points_def boundary_points_strict)
  have mem: "set ?ps = (\<Union>(rid, start, stop) \<in> set spans. {start, stop})"
    by (force simp: span_points_def)
  have nep: "?ps \<noteq> []" using ne mem by (cases spans) auto
  have seg: "\<forall>(l, r) \<in> set (consecutive ?ps). l < r
      \<and> (\<forall>(rid, start, stop) \<in> set spans. (start \<le> l \<or> r \<le> start) \<and> (stop \<le> l \<or> r \<le> stop))"
    using consecutive_facts [OF strict] mem by fastforce
  have tele: "sum_list (map (\<lambda>(l, r). open_time spans l r) (consecutive ?ps)) = open_time spans (hd ?ps) (last ?ps)"
    by (rule consecutive_telescopes [OF open_time_add open_time_self strict nep])
  have ends: "hd ?ps \<le> p \<and> p \<le> last ?ps" if "p \<in> set ?ps" for p
    using strict that by (rule sorted_ends)
  have "open_time spans (hd ?ps) (last ?ps) = union_seconds spans"
    by (rule open_time_all) (use ends mem in fastforce)
  with earn_segments_total [OF d seg] tele show ?thesis by simp
qed

definition non_batch_seconds :: "int \<Rightarrow> time_interval list \<Rightarrow> rat" where
  "non_batch_seconds now is = sum_list (map (\<lambda>i. total_seconds (ti_entered_at i) (interval_end now i))
     (filter (\<lambda>i. lasts now i \<and> \<not> ti_is_batchable i) is))"

lemma earn_non_batch_total:
  assumes "distinct (map fst d)"
  shows "distinct (map fst (foldl (earn_non_batch now) d is))
    \<and> dd_total (foldl (earn_non_batch now) d is) = dd_total d + non_batch_seconds now is"
  using assms
proof (induction "is" arbitrary: d)
  case (Cons i "is")
  have "distinct (map fst (earn_non_batch now d i))" using Cons.prems by (simp add: earn_non_batch_def distinct_dd_add)
  from Cons.IH [OF this] Cons.prems show ?case
    by (auto simp: earn_non_batch_def non_batch_seconds_def dd_total_add)
qed (simp add: non_batch_seconds_def)

lemma sweep_state_total:
  assumes "distinct (map fst d)"
  shows "distinct (map fst (sweep_state now d is))
    \<and> dd_total (sweep_state now d is) = dd_total d + non_batch_seconds now is + union_seconds (batch_spans now is)"
  using earn_non_batch_total [OF assms, of now "is"]
    batch_earns_union [of "foldl (earn_non_batch now) d is" "batch_spans now is"]
  by (auto simp: sweep_state_def Let_def union_seconds_def)

lemma concurrency_sweep_total:
  "distinct (map fst (concurrency_sweep intervals now))
   \<and> dd_total (concurrency_sweep intervals now) = non_batch_seconds now intervals
       + (\<Sum>st \<in> set (map ti_state intervals). union_seconds (batch_spans now (filter (\<lambda>i. ti_state i = st) intervals)))"
proof -
  let ?g = "group_by ti_state intervals"
  have fold: "distinct (map fst d) \<Longrightarrow>
      distinct (map fst (foldl (\<lambda>result (_, is). sweep_state now result is) d gs))
      \<and> dd_total (foldl (\<lambda>result (_, is). sweep_state now result is) d gs) = dd_total d
        + sum_list (map (\<lambda>(k, is). non_batch_seconds now is + union_seconds (batch_spans now is)) gs)" for d and gs :: "(string \<times> time_interval list) list"
  proof (induction gs arbitrary: d)
    case (Cons g gs)
    obtain k "is" where g: "g = (k, is)" by (cases g)
    with Cons.IH [of "sweep_state now d is"] sweep_state_total [OF Cons.prems, of now "is"] show ?case by simp
  qed simp
  have f: "non_batch_seconds now xs = sum_list (map (\<lambda>i. if lasts now i \<and> \<not> ti_is_batchable i
      then total_seconds (ti_entered_at i) (interval_end now i) else 0) xs)" for xs
    unfolding non_batch_seconds_def by (induction xs) auto
  have "sum_list (map (\<lambda>(k, is). non_batch_seconds now is) ?g) = non_batch_seconds now intervals"
    unfolding f by (rule group_by_partition)
  moreover have "sum_list (map (\<lambda>(k, is). union_seconds (batch_spans now is)) ?g)
      = (\<Sum>st \<in> set (map ti_state intervals). union_seconds (batch_spans now (filter (\<lambda>i. ti_state i = st) intervals)))"
    unfolding group_by_def
    by (simp add: o_def sum_list_distinct_conv_sum_set)
  ultimately show ?thesis
    using fold [of "[]" ?g] by (simp add: concurrency_sweep_def dd_total_def case_prod_unfold sum_list_addf)
qed

text \<open>C13: conservation of batch work. The averaged seconds of all trusted records together are the full
  durations of the non-batch ones plus, for every state, the real time during which at least one
  trusted batchable record of that state was open: batching three steps for an hour earns one hour.\<close>

theorem averaged_seconds_conserve:
  "let trusted = filter (\<lambda>i. \<not> ti_marked_wrong i) intervals in
   distinct (map fst (averaged_seconds_by_record intervals now))
   \<and> dd_total (averaged_seconds_by_record intervals now) = non_batch_seconds now trusted
       + (\<Sum>st \<in> set (map ti_state trusted). union_seconds (batch_spans now (filter (\<lambda>i. ti_state i = st) trusted)))"
  unfolding averaged_seconds_by_record_def Let_def by (rule concurrency_sweep_total)

section \<open>Forward rates\<close>

lemma foldl_update_keys:
  "distinct (map f is) \<Longrightarrow> set (map f is) \<inter> fst ` set d = {} \<Longrightarrow>
   foldl (\<lambda>d i. AList.update (f i) (g i) d) d is = d @ map (\<lambda>i. (f i, g i)) is"
proof (induction "is" arbitrary: d)
  case (Cons i "is")
  have "AList.update (f i) (g i) d = d @ [(f i, g i)]"
    using Cons.prems(2) by (induction d) auto
  with Cons show ?case by auto
qed simp

lemma rate_groups:
  assumes "distinct (map ti_record_id (concat (map snd gs)))" "set (map ti_record_id (concat (map snd gs))) \<inter> fst ` set d = {}"
  shows "foldl (\<lambda>rates (_, is). rate_state rates is) d gs
    = d @ concat (map (\<lambda>(_, is). map (\<lambda>i. (ti_record_id i, if ti_is_batchable i
        then (1 / of_nat (length (filter ti_is_batchable is)), length (filter ti_is_batchable is)) else (1, 1))) is) gs)"
  using assms
proof (induction gs arbitrary: d)
  case (Cons g gs)
  obtain k "is" where g: "g = (k, is)" by (cases g)
  define new where "new = map (\<lambda>i. (ti_record_id i, if ti_is_batchable i
        then (1 / of_nat (length (filter ti_is_batchable is)) :: rat, length (filter ti_is_batchable is)) else (1, 1))) is"
  have new: "rate_state d is = d @ new"
    unfolding rate_state_def Let_def new_def using Cons.prems by (intro foldl_update_keys) (auto simp: g)
  have keys: "fst ` set new = ti_record_id ` set is" by (force simp: new_def)
  have "set (map ti_record_id (concat (map snd gs))) \<inter> ti_record_id ` set is = {}"
    using Cons.prems(1) by (simp add: g Int_commute)
  moreover have "set (map ti_record_id (concat (map snd gs))) \<inter> fst ` set d = {}"
    using Cons.prems(2) by (simp add: g Int_Un_distrib2)
  ultimately have "set (map ti_record_id (concat (map snd gs))) \<inter> fst ` set (d @ new) = {}"
    unfolding set_append image_Un keys Int_Un_distrib by simp
  from Cons.IH [OF _ this] Cons.prems show ?case by (simp add: g new new_def)
qed simp

lemma in_concat_rows: "(k, xs) \<in> set gs \<Longrightarrow> x \<in> set xs \<Longrightarrow> f xs x \<in> set (concat (map (\<lambda>(_, xs). map (\<lambda>x. f xs x) xs) gs))"
  by force

definition open_batch :: "int \<Rightarrow> time_interval list \<Rightarrow> string \<Rightarrow> time_interval list" where
  "open_batch now intervals st = filter (\<lambda>i. eligible now i \<and> ti_state i = st \<and> ti_is_batchable i) intervals"

text \<open>the forward rate of a record that is open, trusted and already entered is one over the number
  of open batchable records of its state when it is batchable, and one otherwise; so the open batchable
  records of a state accrue exactly one second per second together.\<close>

lemma accrual_rates_conserve:
  assumes ids: "distinct (map ti_record_id intervals)"
  shows "(\<forall>i \<in> set intervals. eligible now i \<longrightarrow>
      map_of (accrual_rate_by_record intervals now) (ti_record_id i) =
        Some (let k = if ti_is_batchable i then length (open_batch now intervals (ti_state i)) else 1 in (1 / of_nat k, k)))
    \<and> (\<forall>st. open_batch now intervals st \<noteq> [] \<longrightarrow>
        sum_list (map (\<lambda>i. fst (the (map_of (accrual_rate_by_record intervals now) (ti_record_id i))))
          (open_batch now intervals st)) = 1)"
proof -
  define el where "el = filter (eligible now) intervals"
  let ?gs = "group_by ti_state el"
  let ?n = "\<lambda>st. length (open_batch now intervals st)"
  have cat: "mset (concat (map snd ?gs)) = mset el"
  proof -
    have "mset (concat (map (\<lambda>k. filter (\<lambda>i. ti_state i = k) xs) ks)) = mset (filter (\<lambda>i. ti_state i \<in> set ks) xs)"
      if "distinct ks" for ks and xs :: "time_interval list"
      using that
    proof (induction ks)
      case (Cons k ks)
      have "mset (filter (\<lambda>i. ti_state i \<in> set (k # ks)) xs)
          = mset (filter (\<lambda>i. ti_state i = k) xs) + mset (filter (\<lambda>i. ti_state i \<in> set ks) xs)"
        using Cons.prems by (induction xs) auto
      with Cons show ?case by simp
    qed simp
    from this [of "dedupe (map ti_state el)" el]
    have "mset (concat (map (\<lambda>k. filter (\<lambda>i. ti_state i = k) el) (dedupe (map ti_state el))))
        = mset (filter (\<lambda>i. ti_state i \<in> ti_state ` set el) el)" by simp
    also have "filter (\<lambda>i. ti_state i \<in> ti_state ` set el) el = el" by (intro filter_True) simp
    finally show ?thesis by (simp add: group_by_def o_def)
  qed
  have idc: "distinct (map ti_record_id (concat (map snd ?gs)))"
  proof -
    have "mset (map ti_record_id (concat (map snd ?gs))) = mset (map ti_record_id el)" using cat by (metis mset_map)
    moreover have "distinct (map ti_record_id el)" using ids unfolding el_def by (rule distinct_map_filter)
    ultimately show ?thesis by (metis mset_eq_imp_distinct_iff)
  qed
  let ?rates = "concat (map (\<lambda>(_, is). map (\<lambda>i. (ti_record_id i, if ti_is_batchable i
        then (1 / of_nat (length (filter ti_is_batchable is)) :: rat, length (filter ti_is_batchable is)) else (1, 1))) is) ?gs)"
  have rates: "accrual_rate_by_record intervals now = ?rates"
    using rate_groups [of ?gs "[]"] idc by (simp add: accrual_rate_by_record_def el_def [symmetric])
  have rd: "distinct (map fst ?rates)"
  proof -
    have "map fst ?rates = map ti_record_id (concat (map snd ?gs))"
      by (simp add: map_concat o_def case_prod_unfold)
    with idc show ?thesis by simp
  qed
  have one: "map_of ?rates (ti_record_id i) = Some (let k = if ti_is_batchable i then ?n (ti_state i) else 1 in (1 / of_nat k, k))"
    if i: "i \<in> set intervals" "eligible now i" for i
  proof -
    let ?is = "filter (\<lambda>j. ti_state j = ti_state i) el"
    have "length (filter ti_is_batchable ?is) = ?n (ti_state i)"
      by (simp add: open_batch_def el_def filter_filter conj_ac)
    moreover have "(ti_state i, ?is) \<in> set ?gs" using i by (auto simp: group_by_def el_def)
    moreover have "i \<in> set ?is" using i by (simp add: el_def)
    ultimately have "(ti_record_id i, if ti_is_batchable i then (1 / of_nat (?n (ti_state i)), ?n (ti_state i)) else (1, 1))
        \<in> set ?rates"
      using in_concat_rows [of "ti_state i" ?is ?gs i "\<lambda>is i. (ti_record_id i, if ti_is_batchable i
        then (1 / of_nat (length (filter ti_is_batchable is)) :: rat, length (filter ti_is_batchable is)) else (1, 1))"]
      by (simp only:)
    from map_of_is_SomeI [OF rd this] show ?thesis by (simp add: Let_def)
  qed
  have sum: "sum_list (map (\<lambda>i. fst (the (map_of ?rates (ti_record_id i)))) (open_batch now intervals st)) = 1"
    if ne: "open_batch now intervals st \<noteq> []" for st
  proof -
    have m: "map (\<lambda>i. fst (the (map_of ?rates (ti_record_id i)))) (open_batch now intervals st)
        = map (\<lambda>i. 1 / of_nat (?n st)) (open_batch now intervals st)"
    proof (rule map_cong [OF refl])
      fix i assume "i \<in> set (open_batch now intervals st)"
      then have "i \<in> set intervals" "eligible now i" "ti_is_batchable i" "ti_state i = st"
        by (simp_all add: open_batch_def)
      with one [of i] show "fst (the (map_of ?rates (ti_record_id i))) = 1 / of_nat (?n st)"
        by (simp only: Let_def if_True option.sel fst_conv)
    qed
    have const: "sum_list (map (\<lambda>i. c) xs) = of_nat (length xs) * (c :: rat)" for c and xs :: "time_interval list"
      by (induction xs) (simp_all add: algebra_simps)
    show ?thesis unfolding m const using ne by simp
  qed
  show ?thesis unfolding rates using one sum by blast
qed

abbreviation sample_interval :: "string \<Rightarrow> bool \<Rightarrow> time_interval" where
  "sample_interval i batch \<equiv> \<lparr>ti_record_id = i, ti_step_id = i, ti_state = ''working'', ti_entered_at = 0,
     ti_exited_at = None, ti_marked_wrong = False, ti_is_batchable = batch\<rparr>"

lemma accrual_rates_conserve_witness:
  "map_of (accrual_rate_by_record [sample_interval ''a'' True, sample_interval ''b'' True] 5) ''a'' = Some (1 / 2, 2)"
  using accrual_rates_conserve [of "[sample_interval ''a'' True, sample_interval ''b'' True]" 5]
  by (simp add: eligible_def open_batch_def)

end
