(* ===== verification/LinearTimeline.thy ===== *)
theory LinearTimeline
  imports TimeSweep PyDecimal TaskStepEnums
begin

text \<open>
  \<open>domain/analytics/linear_timeline.py\<close> and \<open>domain/analytics/time_buckets.py\<close>: one worker's day as a
  sequence of segments with a single effective state each. Intervals are clamped to the window, a
  pause is capped at the worker's next resume, and between consecutive boundary points the state is
  working, paused, ended shift or idle, in that order of precedence. Adjacent segments with the same
  key are merged into runs, except across hard breaks.

  Times are microseconds and seconds exact rationals (the code's floats approximate them). The
  specification \<open>instant_state\<close> says what the state of a single instant is; the lemmas show that every
  segment agrees with it at each of its instants, that the segments partition the covered span, and
  that merging keeps the partition and is maximal.
\<close>

section \<open>Operations\<close>

definition bucket_for :: "string \<Rightarrow> string option \<Rightarrow> string" where
  "bucket_for state_value transition_reason =
     (if state_value = step_state_value StepPAUSED \<and> transition_reason = Some ''shift_ended''
      then ''ended_shift'' else state_value)"

record linear_interval =
  li_record_id :: string
  li_state :: string
  li_reason :: "string option"
  li_entered_at :: int
  li_exited_at :: "int option"
  li_step_id :: string
  li_priority :: int
  li_transition_reason :: "string option"

record entry =
  en_start :: int
  en_end :: int
  en_active_end :: int
  en_interval :: linear_interval

record raw_segment =
  rs_start :: int
  rs_end :: int
  rs_state :: string
  rs_reason :: "string option"
  rs_record_ids :: "string set"
  rs_step_ids :: "string set"
  rs_is_open :: bool
  rs_owner_record_id :: "string option"
  rs_owner_priority :: int
  rs_transition_reason :: "string option"

definition clamp :: "linear_interval \<Rightarrow> int \<Rightarrow> int \<Rightarrow> int \<Rightarrow> (int \<times> int) option" where
  "clamp i window_start window_end now =
     (let start = max (li_entered_at i) window_start;
          stop = min (case li_exited_at i of None \<Rightarrow> now | Some e \<Rightarrow> e) window_end
      in if stop \<le> start then None else Some (start, stop))"

text \<open>\<open>bisect_right\<close> on the sorted points: the first one strictly greater.\<close>

definition first_after :: "int list \<Rightarrow> int \<Rightarrow> int option" where
  "first_after sorted_points moment = List.find (\<lambda>p. p > moment) sorted_points"

definition clamp_all :: "linear_interval list \<Rightarrow> int \<Rightarrow> int \<Rightarrow> int \<Rightarrow> (int \<times> int \<times> linear_interval) list" where
  "clamp_all intervals ws we now =
     concat (map (\<lambda>i. case clamp i ws we now of None \<Rightarrow> [] | Some (s, e) \<Rightarrow> [(s, e, i)]) intervals)"

definition make_entry :: "int list \<Rightarrow> int \<times> int \<times> linear_interval \<Rightarrow> entry" where
  "make_entry working_starts c =
     (case c of (start, stop, i) \<Rightarrow>
      \<lparr>en_start = start, en_end = stop,
       en_active_end =
         (if li_state i = ''paused''
          then (case first_after working_starts start of Some resume \<Rightarrow> min stop resume | None \<Rightarrow> stop)
          else stop),
       en_interval = i\<rparr>)"

definition timeline_entries :: "linear_interval list \<Rightarrow> int \<Rightarrow> int \<Rightarrow> int \<Rightarrow> entry list" where
  "timeline_entries intervals ws we now =
     (let clamped = clamp_all intervals ws we now;
          working_starts = sort (map fst (filter (\<lambda>(s, e, i). li_state i = ''working'') clamped))
      in map (make_entry working_starts) clamped)"

definition covers :: "string \<Rightarrow> int \<Rightarrow> int \<Rightarrow> entry \<Rightarrow> bool" where
  "covers state left right e \<longleftrightarrow> li_state (en_interval e) = state \<and> en_start e \<le> left \<and> en_end e \<ge> right"

definition pause_covers :: "int \<Rightarrow> int \<Rightarrow> entry \<Rightarrow> bool" where
  "pause_covers left right e \<longleftrightarrow>
     li_state (en_interval e) = ''paused'' \<and> en_start e \<le> left \<and> en_active_end e \<ge> right"

definition owner_key :: "entry \<Rightarrow> int \<times> int \<times> string" where
  "owner_key e = (- li_priority (en_interval e), li_entered_at (en_interval e), li_record_id (en_interval e))"

definition pause_owner :: "entry list \<Rightarrow> entry" where
  "pause_owner es = hd (sort_key owner_key es)"  \<comment> \<open>\<open>min(..., key=...)\<close>: the first minimum\<close>

definition segment_of :: "entry list \<Rightarrow> string set \<Rightarrow> int \<Rightarrow> int \<times> int \<Rightarrow> raw_segment" where
  "segment_of entries open_record_ids now seg =
     (let left = fst seg; right = snd seg;
          working = filter (covers ''working'' left right) entries;
          active_pauses = filter (pause_covers left right) entries;
          ended = filter (covers ''ended_shift'' left right) entries;
          owner = en_interval (pause_owner active_pauses);
          mk = (\<lambda>state reason chosen owner_id priority transition.
            \<lparr>rs_start = left, rs_end = right, rs_state = state, rs_reason = reason,
             rs_record_ids = (\<lambda>e. li_record_id (en_interval e)) ` set chosen,
             rs_step_ids = (\<lambda>e. li_step_id (en_interval e)) ` set (filter (\<lambda>e. li_step_id (en_interval e) \<noteq> []) chosen),
             rs_is_open = (right = now \<and> list_ex (\<lambda>e. li_record_id (en_interval e) \<in> open_record_ids) chosen),
             rs_owner_record_id = owner_id, rs_owner_priority = priority, rs_transition_reason = transition\<rparr>)
      in if working \<noteq> [] then mk ''working'' None working None 0 None
         else if active_pauses \<noteq> [] then
           mk ''paused''
             (if li_reason owner = None \<and> li_transition_reason owner = None then Some ''unspecified'' else li_reason owner)
             active_pauses (Some (li_record_id owner)) (li_priority owner) (li_transition_reason owner)
         else if ended \<noteq> [] then mk ''ended_shift'' None ended None 0 None
         else mk ''idle'' None [] None 0 None)"

definition timeline_points :: "entry list \<Rightarrow> int \<Rightarrow> int \<Rightarrow> int list \<Rightarrow> int list" where
  "timeline_points entries ws we extra =
     boundary_points (concat (map (\<lambda>e. [en_start e, en_end e]) entries) @ filter (\<lambda>p. ws \<le> p \<and> p \<le> we) extra)"

definition timeline_sweep :: "linear_interval list \<Rightarrow> int \<Rightarrow> int \<Rightarrow> int \<Rightarrow> int list \<Rightarrow> raw_segment list" where
  "timeline_sweep intervals ws we now extra_points =
     (let clamped = clamp_all intervals ws we now;
          open_record_ids = (\<lambda>(s, e, i). li_record_id i) ` set (filter (\<lambda>(s, e, i). li_exited_at i = None) clamped);
          entries = timeline_entries intervals ws we now
      in if clamped = [] then []
         else map (segment_of entries open_record_ids now)
                (filter (\<lambda>(left, right). \<not> total_seconds left right \<le> 0)
                  (consecutive (timeline_points entries ws we extra_points))))"

section \<open>The aggregate view\<close>

record linear_timeline =
  working_seconds :: int
  paused_seconds :: int
  ended_shift_seconds :: int
  idle_seconds :: int
  pause_by_reason :: "(string \<times> int) list"

definition state_seconds :: "raw_segment list \<Rightarrow> string \<Rightarrow> rat" where
  "state_seconds segs state =
     sum_list (map (\<lambda>s. total_seconds (rs_start s) (rs_end s)) (filter (\<lambda>s. rs_state s = state) segs))"

definition truthy :: "string option \<Rightarrow> bool" where
  "truthy v \<longleftrightarrow> v \<noteq> None \<and> v \<noteq> Some []"

definition reason_key :: "raw_segment \<Rightarrow> string" where
  "reason_key s = (if truthy (rs_reason s) then the (rs_reason s)
     else if truthy (rs_transition_reason s) then the (rs_transition_reason s) else ''unspecified'')"

definition reason_totals :: "raw_segment list \<Rightarrow> (string \<times> rat) list" where
  "reason_totals segs = foldl (\<lambda>d s. if rs_state s = ''paused''
       then dd_add (reason_key s) (total_seconds (rs_start s) (rs_end s)) d else d) [] segs"

definition compute_linear_timeline :: "linear_interval list \<Rightarrow> int \<Rightarrow> int \<Rightarrow> int \<Rightarrow> linear_timeline" where
  "compute_linear_timeline intervals ws we now =
     (let segs = timeline_sweep intervals ws we now [];
          reason_seconds = map (\<lambda>(r, x). (r, rhe x)) (sort_key fst (reason_totals segs))
      in \<lparr>working_seconds = rhe (state_seconds segs ''working''),
          paused_seconds = dict_sum reason_seconds,
          ended_shift_seconds = rhe (state_seconds segs ''ended_shift''),
          idle_seconds = rhe (state_seconds segs ''idle''),
          pause_by_reason = reason_seconds\<rparr>)"

section \<open>The segment view\<close>

record run =
  ru_start :: int
  ru_end :: int
  ru_state :: string
  ru_reason :: "string option"
  ru_transition_reason :: "string option"
  ru_record_ids :: "string set"
  ru_is_open :: bool
  ru_owner_record_id :: "string option"
  ru_owner_priority :: int

definition same_key :: "run \<Rightarrow> raw_segment \<Rightarrow> bool" where
  "same_key r s \<longleftrightarrow> ru_state r = rs_state s \<and> ru_reason r = rs_reason s
     \<and> ru_transition_reason r = rs_transition_reason s \<and> ru_owner_priority r = rs_owner_priority s"

definition new_run :: "raw_segment \<Rightarrow> run" where
  "new_run s = \<lparr>ru_start = rs_start s, ru_end = rs_end s, ru_state = rs_state s, ru_reason = rs_reason s,
     ru_transition_reason = rs_transition_reason s, ru_record_ids = rs_record_ids s, ru_is_open = rs_is_open s,
     ru_owner_record_id = rs_owner_record_id s, ru_owner_priority = rs_owner_priority s\<rparr>"

definition extend_run :: "run \<Rightarrow> raw_segment \<Rightarrow> run" where
  "extend_run r s = r\<lparr>ru_end := rs_end s, ru_record_ids := ru_record_ids r \<union> rs_record_ids s,
     ru_is_open := rs_is_open s\<rparr>"

definition merge_step :: "int list \<Rightarrow> run list \<Rightarrow> raw_segment \<Rightarrow> run list" where
  "merge_step breaks runs s =
     (if runs \<noteq> [] \<and> same_key (last runs) s \<and> rs_start s \<notin> set breaks
      then butlast runs @ [extend_run (last runs) s]
      else runs @ [new_run s])"

definition merge_runs :: "int list \<Rightarrow> raw_segment list \<Rightarrow> run list" where
  "merge_runs breaks raw = foldl (merge_step breaks) [] raw"

record segment_record =
  sgr_record_id :: string
  sgr_step_id :: string
  sgr_state :: string
  sgr_reason :: "string option"
  sgr_entered_at :: int
  sgr_exited_at :: "int option"
  sgr_is_open :: bool

record linear_segment =
  ls_start :: int
  ls_end :: int
  ls_state :: string
  ls_reason :: "string option"
  ls_record_ids :: "string list"
  ls_step_ids :: "string list"
  ls_records :: "segment_record list"
  ls_is_open :: bool
  ls_owner_record_id :: "string option"
  ls_transition_reason :: "string option"

text \<open>\<open>{iv.record_id: iv for iv in intervals}\<close>: the last interval of an id.\<close>

definition intervals_by_id :: "linear_interval list \<Rightarrow> (string \<times> linear_interval) list" where
  "intervals_by_id intervals = dict_of (map (\<lambda>i. (li_record_id i, i)) intervals)"

definition segment_records :: "string set \<Rightarrow> (string \<times> linear_interval) list \<Rightarrow> segment_record list" where
  "segment_records record_ids by_id =
     map (\<lambda>i. \<lparr>sgr_record_id = li_record_id i, sgr_step_id = li_step_id i, sgr_state = li_state i,
          sgr_reason = li_reason i, sgr_entered_at = li_entered_at i, sgr_exited_at = li_exited_at i,
          sgr_is_open = (li_exited_at i = None)\<rparr>)
       (sort_key (\<lambda>i. (li_entered_at i, li_record_id i)) (map snd (filter (\<lambda>(k, i). k \<in> record_ids) by_id)))"

definition segment_of_run :: "(string \<times> linear_interval) list \<Rightarrow> run \<Rightarrow> linear_segment" where
  "segment_of_run by_id r =
     (let records = segment_records (ru_record_ids r) by_id
      in \<lparr>ls_start = ru_start r, ls_end = ru_end r, ls_state = ru_state r, ls_reason = ru_reason r,
          ls_record_ids = sorted_list_of_set (ru_record_ids r),
          ls_step_ids = sort (remdups (filter (\<lambda>s. s \<noteq> []) (map sgr_step_id records))),
          ls_records = records, ls_is_open = ru_is_open r, ls_owner_record_id = ru_owner_record_id r,
          ls_transition_reason = ru_transition_reason r\<rparr>)"

definition compute_linear_segments :: "linear_interval list \<Rightarrow> int \<Rightarrow> int \<Rightarrow> int \<Rightarrow> int list \<Rightarrow> linear_segment list" where
  "compute_linear_segments intervals ws we now hard_breaks =
     map (segment_of_run (intervals_by_id intervals))
       (merge_runs hard_breaks (timeline_sweep intervals ws we now hard_breaks))"

definition segment_seconds :: "linear_segment \<Rightarrow> int" where
  "segment_seconds s = rhe (total_seconds (ls_start s) (ls_end s))"

section \<open>The sweep against the state of an instant\<close>

definition active_at :: "string \<Rightarrow> int \<Rightarrow> entry \<Rightarrow> bool" where
  "active_at state t e \<longleftrightarrow> li_state (en_interval e) = state \<and> en_start e \<le> t \<and> t < en_end e"

definition pause_active_at :: "int \<Rightarrow> entry \<Rightarrow> bool" where
  "pause_active_at t e \<longleftrightarrow> li_state (en_interval e) = ''paused'' \<and> en_start e \<le> t \<and> t < en_active_end e"

definition instant_state :: "entry list \<Rightarrow> int \<Rightarrow> string" where
  "instant_state entries t =
     (if list_ex (active_at ''working'' t) entries then ''working''
      else if list_ex (pause_active_at t) entries then ''paused''
      else if list_ex (active_at ''ended_shift'' t) entries then ''ended_shift'' else ''idle'')"

lemma make_entry_simps [simp]:
  "en_start (make_entry st c) = fst c" "en_end (make_entry st c) = fst (snd c)"
  "en_interval (make_entry st c) = snd (snd c)"
  by (simp_all add: make_entry_def case_prod_unfold)

lemma entry_points:
  "e \<in> set es \<Longrightarrow> en_start e \<in> set (timeline_points es ws we extra) \<and> en_end e \<in> set (timeline_points es ws we extra)"
  by (auto simp: timeline_points_def)

lemma active_end_is_point:
  assumes "e \<in> set (timeline_entries intervals ws we now)"
  shows "en_active_end e \<in> set (timeline_points (timeline_entries intervals ws we now) ws we extra)
    \<and> en_start e \<in> set (timeline_points (timeline_entries intervals ws we now) ws we extra)
    \<and> en_end e \<in> set (timeline_points (timeline_entries intervals ws we now) ws we extra)"
proof -
  let ?cl = "clamp_all intervals ws we now"
  let ?starts = "sort (map fst (filter (\<lambda>(s, e, i). li_state i = ''working'') ?cl))"
  let ?es = "timeline_entries intervals ws we now"
  have es: "?es = map (make_entry ?starts) ?cl" by (simp add: timeline_entries_def Let_def)
  have start_pt: "p \<in> set (timeline_points ?es ws we extra)" if "p \<in> fst ` set ?cl" for p
  proof -
    from that obtain c where "c \<in> set ?cl" "p = fst c" by auto
    then have "make_entry ?starts c \<in> set ?es" "en_start (make_entry ?starts c) = p"
      unfolding es by simp_all
    then show ?thesis using entry_points by metis
  qed
  from assms obtain c where c: "c \<in> set ?cl" "e = make_entry ?starts c" by (auto simp: es)
  have ends: "en_start e \<in> set (timeline_points ?es ws we extra)" "en_end e \<in> set (timeline_points ?es ws we extra)"
    using entry_points [OF assms] by blast+
  have "en_active_end e = en_end e \<or> en_active_end e \<in> set ?starts"
    unfolding c(2) by (auto simp: make_entry_def case_prod_unfold first_after_def find_Some_iff min_def
        simp del: set_sort set_map split: option.splits dest: nth_mem)
  moreover have "set ?starts \<subseteq> fst ` set ?cl" by auto
  ultimately show ?thesis using ends start_pt by auto
qed

lemma segment_state:
  "rs_state (segment_of entries ids now (l, r)) =
     (if filter (covers ''working'' l r) entries \<noteq> [] then ''working''
      else if filter (pause_covers l r) entries \<noteq> [] then ''paused''
      else if filter (covers ''ended_shift'' l r) entries \<noteq> [] then ''ended_shift'' else ''idle'')"
  "rs_start (segment_of entries ids now (l, r)) = l" "rs_end (segment_of entries ids now (l, r)) = r"
  by (simp_all add: segment_of_def Let_def)

lemma sweep_eq:
  "clamp_all intervals ws we now \<noteq> [] \<Longrightarrow>
   map (\<lambda>s. (rs_start s, rs_end s)) (timeline_sweep intervals ws we now extra)
     = consecutive (timeline_points (timeline_entries intervals ws we now) ws we extra)"
proof -
  let ?ps = "timeline_points (timeline_entries intervals ws we now) ws we extra"
  have strict: "sorted_wrt (<) ?ps" by (simp add: timeline_points_def boundary_points_strict)
  have keep: "filter (\<lambda>p. \<not> total_seconds (fst p) (snd p) \<le> 0) (consecutive ?ps) = consecutive ?ps"
    by (intro filter_True) (auto simp: total_seconds_def dest!: consecutive_facts [OF strict])
  show "clamp_all intervals ws we now \<noteq> [] \<Longrightarrow> ?thesis"
    by (simp add: timeline_sweep_def Let_def keep o_def segment_state case_prod_unfold prod_eq_iff
        cong: map_cong) (simp add: segment_of_def Let_def map_idI)
qed

text \<open>C14: every segment of the sweep agrees with the state of each of its instants: working wins over
  everything, a pause counts only until the worker's next resume, and idle is what nothing explains;
  in particular no segment mixes instants of different states.\<close>

theorem timeline_segment_refines_instants:
  assumes "s \<in> set (timeline_sweep intervals ws we now extra)" "rs_start s \<le> t" "t < rs_end s"
  shows "rs_state s = instant_state (timeline_entries intervals ws we now) t"
proof -
  let ?es = "timeline_entries intervals ws we now"
  let ?ps = "timeline_points ?es ws we extra"
  have strict: "sorted_wrt (<) ?ps" by (simp add: timeline_points_def boundary_points_strict)
  obtain ids l r where s: "s = segment_of ?es ids now (l, r)" "(l, r) \<in> set (consecutive ?ps)"
    using assms(1) by (auto simp: timeline_sweep_def Let_def split: if_splits)
  have t: "l \<le> t" "t < r" using assms(2,3) by (simp_all add: s(1) segment_state)
  have sharp: "p \<le> l \<or> r \<le> p" if "p \<in> set ?ps" for p
    using consecutive_facts [OF strict s(2)] that by blast
  have cov: "covers st l r e \<longleftrightarrow> active_at st t e" "pause_covers l r e \<longleftrightarrow> pause_active_at t e"
    if "e \<in> set ?es" for e st
    using active_end_is_point [OF that, of extra] sharp t
    by (fastforce simp: covers_def active_at_def pause_covers_def pause_active_at_def)+
  have fl: "filter P ?es \<noteq> [] \<longleftrightarrow> list_ex Q ?es" if "\<And>e. e \<in> set ?es \<Longrightarrow> P e \<longleftrightarrow> Q e" for P Q
    using that by (auto simp: filter_empty_conv list_ex_iff)
  have "filter (covers ''working'' l r) ?es \<noteq> [] \<longleftrightarrow> list_ex (active_at ''working'' t) ?es"
    "filter (pause_covers l r) ?es \<noteq> [] \<longleftrightarrow> list_ex (pause_active_at t) ?es"
    "filter (covers ''ended_shift'' l r) ?es \<noteq> [] \<longleftrightarrow> list_ex (active_at ''ended_shift'' t) ?es"
    by (rule fl, erule cov)+
  then show ?thesis unfolding s(1) segment_state instant_state_def by (simp only:)
qed

text \<open>the segments partition the covered span of the window: each starts where the one before it
  ends, their seconds add up to the span from the first to the last boundary, and every instant of
  that span lies in one of them.\<close>

lemma timeline_sweep_partitions:
  assumes some: "clamp_all intervals ws we now \<noteq> []"
  shows "\<exists>lo hi. let segs = timeline_sweep intervals ws we now extra in
      successively (\<lambda>a b. rs_end a = rs_start b) segs
    \<and> sum_list (map (\<lambda>s. total_seconds (rs_start s) (rs_end s)) segs) = total_seconds lo hi
    \<and> (\<forall>e \<in> set (timeline_entries intervals ws we now). lo \<le> en_start e \<and> en_end e \<le> hi)
    \<and> (\<forall>t. lo \<le> t \<and> t < hi \<longrightarrow> (\<exists>s \<in> set segs. rs_start s \<le> t \<and> t < rs_end s))"
proof -
  let ?es = "timeline_entries intervals ws we now"
  let ?ps = "timeline_points ?es ws we extra"
  let ?segs = "timeline_sweep intervals ws we now extra"
  note eq = sweep_eq [OF some, of extra]
  have strict: "sorted_wrt (<) ?ps" by (simp add: timeline_points_def boundary_points_strict)
  have ne: "?ps \<noteq> []"
  proof -
    have "?es \<noteq> []" using some by (simp add: timeline_entries_def Let_def)
    then obtain e where "e \<in> set ?es" by (cases ?es) auto
    then show ?thesis using active_end_is_point [of e intervals ws we now extra] by auto
  qed
  have "successively (\<lambda>(a, b) (c, d). b = c) (map (\<lambda>s. (rs_start s, rs_end s)) ?segs)"
    unfolding eq by (rule consecutive_chain)
  then have chain: "successively (\<lambda>a b. rs_end a = rs_start b) ?segs" by (simp add: successively_map)
  have "sum_list (map (\<lambda>(l, r). total_seconds l r) (map (\<lambda>s. (rs_start s, rs_end s)) ?segs)) = total_seconds (hd ?ps) (last ?ps)"
    unfolding eq by (rule consecutive_telescopes [OF _ _ strict ne])
      (simp_all add: total_seconds_def flip: add_divide_distrib of_int_add)
  then have sum: "sum_list (map (\<lambda>s. total_seconds (rs_start s) (rs_end s)) ?segs) = total_seconds (hd ?ps) (last ?ps)"
    by (simp add: o_def)
  have in_seg: "\<exists>s \<in> set ?segs. rs_start s \<le> t \<and> t < rs_end s" if h: "hd ?ps \<le> t" "t < last ?ps" for t
  proof -
    obtain l r where "(l, r) \<in> set (consecutive ?ps)" "l \<le> t" "t < r"
      using consecutive_covers [OF strict ne h] by blast
    then show ?thesis unfolding eq [symmetric] by auto
  qed
  have "hd ?ps \<le> en_start e \<and> en_end e \<le> last ?ps" if "e \<in> set ?es" for e
    using active_end_is_point [OF that, of extra] sorted_ends [OF strict] by auto
  then show ?thesis unfolding Let_def using chain sum in_seg by blast
qed

abbreviation sample_li :: "string \<Rightarrow> string \<Rightarrow> int \<Rightarrow> int option \<Rightarrow> linear_interval" where
  "sample_li i st s e \<equiv> \<lparr>li_record_id = i, li_state = st, li_reason = Some ''lunch'', li_entered_at = s,
     li_exited_at = e, li_step_id = i, li_priority = 0, li_transition_reason = None\<rparr>"

abbreviation sample_day :: "linear_interval list" where
  "sample_day \<equiv> [sample_li ''p'' ''paused'' 10 None, sample_li ''w'' ''working'' 30 (Some 50)]"

lemma timeline_segment_refines_instants_witness:
  "\<exists>s \<in> set (timeline_sweep sample_day 0 100 80 []). rs_start s \<le> 60 \<and> 60 < rs_end s \<and> rs_state s = ''idle''"
proof -
  have "instant_state (timeline_entries sample_day 0 100 80) 60 = ''idle''" by code_simp
  moreover have "\<exists>s \<in> set (timeline_sweep sample_day 0 100 80 []). rs_start s \<le> 60 \<and> 60 < rs_end s" by code_simp
  ultimately show ?thesis using timeline_segment_refines_instants [of _ sample_day 0 100 80 "[]" 60] by auto
qed

lemma timeline_sweep_partitions_witness:
  "\<exists>lo hi. let segs = timeline_sweep sample_day 0 100 80 [] in
      successively (\<lambda>a b. rs_end a = rs_start b) segs
    \<and> sum_list (map (\<lambda>s. total_seconds (rs_start s) (rs_end s)) segs) = total_seconds lo hi
    \<and> (\<forall>e \<in> set (timeline_entries sample_day 0 100 80). lo \<le> en_start e \<and> en_end e \<le> hi)
    \<and> (\<forall>t. lo \<le> t \<and> t < hi \<longrightarrow> (\<exists>s \<in> set segs. rs_start s \<le> t \<and> t < rs_end s))"
  by (rule timeline_sweep_partitions) (simp add: clamp_all_def clamp_def)

section \<open>Merging\<close>

definition run_key :: "run \<Rightarrow> string \<times> string option \<times> string option \<times> int" where
  "run_key r = (ru_state r, ru_reason r, ru_transition_reason r, ru_owner_priority r)"

definition merged :: "int list \<Rightarrow> raw_segment list \<Rightarrow> run list \<Rightarrow> bool" where
  "merged breaks raw runs \<longleftrightarrow> (raw = [] \<longleftrightarrow> runs = [])
     \<and> (raw \<noteq> [] \<longrightarrow> ru_start (hd runs) = rs_start (hd raw) \<and> ru_end (last runs) = rs_end (last raw))
     \<and> successively (\<lambda>a b. ru_end a = ru_start b \<and> (run_key a \<noteq> run_key b \<or> ru_start b \<in> set breaks)) runs
     \<and> sum_list (map (\<lambda>r. total_seconds (ru_start r) (ru_end r)) runs)
         = sum_list (map (\<lambda>s. total_seconds (rs_start s) (rs_end s)) raw)"

lemma total_seconds_add: "total_seconds a b + total_seconds b c = total_seconds a c"
  by (simp add: total_seconds_def flip: add_divide_distrib of_int_add)

lemma merge_step_merged:
  assumes m: "merged breaks raw runs" and link: "raw \<noteq> [] \<longrightarrow> rs_end (last raw) = rs_start s"
  shows "merged breaks (raw @ [s]) (merge_step breaks runs s)"
proof (cases "runs \<noteq> [] \<and> same_key (last runs) s \<and> rs_start s \<notin> set breaks")
  case True
  then obtain rs r where runs: "runs = rs @ [r]" by (metis rev_exhaust)
  with True m link have r: "ru_end r = rs_start s" "raw \<noteq> []" by (auto simp: merged_def)
  have key: "run_key (extend_run r s) = run_key r" "ru_start (extend_run r s) = ru_start r"
    "ru_end (extend_run r s) = rs_end s"
    by (simp_all add: extend_run_def run_key_def)
  have step: "merge_step breaks (rs @ [r]) s = rs @ [extend_run r s]" using True by (simp add: merge_step_def runs)
  have sum: "sum_list (map (\<lambda>r. total_seconds (ru_start r) (ru_end r)) (rs @ [extend_run r s]))
      = sum_list (map (\<lambda>r. total_seconds (ru_start r) (ru_end r)) (rs @ [r])) + total_seconds (rs_start s) (rs_end s)"
    using total_seconds_add [of "ru_start r" "rs_start s" "rs_end s"] by (simp add: key r(1))
  have old: "sum_list (map (\<lambda>r. total_seconds (ru_start r) (ru_end r)) (rs @ [r]))
      = sum_list (map (\<lambda>s. total_seconds (rs_start s) (rs_end s)) raw)"
    using m by (simp only: merged_def runs)
  have new: "sum_list (map (\<lambda>r. total_seconds (ru_start r) (ru_end r)) (rs @ [extend_run r s]))
      = sum_list (map (\<lambda>s. total_seconds (rs_start s) (rs_end s)) (raw @ [s]))"
    unfolding sum old by simp
  have "successively (\<lambda>a b. ru_end a = ru_start b \<and> (run_key a \<noteq> run_key b \<or> ru_start b \<in> set breaks)) (rs @ [extend_run r s])
      \<and> ru_start (hd (rs @ [extend_run r s])) = rs_start (hd raw)"
    using m r unfolding merged_def runs by (cases "rs = []") (simp_all add: key successively_append_iff)
  with new r show ?thesis unfolding merged_def runs step by (simp add: key)
next
  case False
  then have step: "merge_step breaks runs s = runs @ [new_run s]" unfolding merge_step_def by (rule if_not_P)
  have new: "ru_start (new_run s) = rs_start s" "ru_end (new_run s) = rs_end s" by (simp_all add: new_run_def)
  have "runs \<noteq> [] \<Longrightarrow> ru_end (last runs) = rs_start s"
    using m link by (auto simp: merged_def)
  moreover have "runs \<noteq> [] \<Longrightarrow> run_key (last runs) \<noteq> run_key (new_run s) \<or> rs_start s \<in> set breaks"
    using False by (auto simp: same_key_def run_key_def new_run_def)
  ultimately show ?thesis
    using m unfolding step merged_def
    by (cases "runs = []") (simp_all add: new successively_append_iff)
qed

lemma merge_runs_merged:
  "successively (\<lambda>a b. rs_end a = rs_start b) raw \<Longrightarrow> merged breaks raw (merge_runs breaks raw)"
proof (induction raw rule: rev_induct)
  case Nil
  then show ?case by (simp add: merged_def merge_runs_def)
next
  case (snoc s raw)
  then have "merged breaks raw (merge_runs breaks raw)" "raw \<noteq> [] \<longrightarrow> rs_end (last raw) = rs_start s"
    by (auto simp: successively_append_iff)
  from merge_step_merged [OF this] show ?case by (simp add: merge_runs_def)
qed

lemma merged_segments_partition:
  fixes intervals ws we now breaks
  defines "raw \<equiv> timeline_sweep intervals ws we now breaks"
    and "segs \<equiv> compute_linear_segments intervals ws we now breaks"
    and "runs \<equiv> merge_runs breaks (timeline_sweep intervals ws we now breaks)"
  shows "map (\<lambda>s. (ls_start s, ls_end s, ls_state s)) segs = map (\<lambda>r. (ru_start r, ru_end r, ru_state r)) runs
    \<and> successively (\<lambda>a b. ls_end a = ls_start b) segs
    \<and> sum_list (map (\<lambda>s. total_seconds (ls_start s) (ls_end s)) segs)
        = sum_list (map (\<lambda>s. total_seconds (rs_start s) (rs_end s)) raw)
    \<and> successively (\<lambda>a b. run_key a \<noteq> run_key b \<or> ru_start b \<in> set breaks) runs"
proof -
  have f: "ls_start (segment_of_run m r) = ru_start r" "ls_end (segment_of_run m r) = ru_end r"
    "ls_state (segment_of_run m r) = ru_state r" for m r
    by (simp_all add: segment_of_run_def Let_def)
  have "successively (\<lambda>a b. rs_end a = rs_start b) raw"
  proof (cases "clamp_all intervals ws we now = []")
    case True
    then show ?thesis by (simp add: raw_def timeline_sweep_def)
  next
    case False
    have "successively (\<lambda>(a, b) (c, d). b = c) (map (\<lambda>s. (rs_start s, rs_end s)) raw)"
      unfolding raw_def sweep_eq [OF False] by (rule consecutive_chain)
    then show ?thesis by (simp add: successively_map)
  qed
  from merge_runs_merged [OF this, of breaks] have m: "merged breaks raw runs" by (simp add: runs_def raw_def)
  then have "successively (\<lambda>a b. ru_end a = ru_start b) runs"
    "successively (\<lambda>a b. run_key a \<noteq> run_key b \<or> ru_start b \<in> set breaks) runs"
    unfolding merged_def by (auto elim: successively_mono)
  moreover have "segs = map (segment_of_run (intervals_by_id intervals)) runs"
    by (simp add: segs_def compute_linear_segments_def runs_def)
  ultimately show ?thesis using m by (simp add: f o_def successively_map merged_def)
qed

text \<open>the segments served to the interactive timeline are a merged form of the sweep: contiguous,
  covering the same span with the same total time, and merged maximally, so that two neighbours differ
  in state, reason, transition or owner priority unless a hard break separates them.\<close>

lemma linear_segments_merge_partition:
  "let raw = timeline_sweep intervals ws we now breaks;
       segs = compute_linear_segments intervals ws we now breaks;
       runs = merge_runs breaks raw in
     map (\<lambda>s. (ls_start s, ls_end s, ls_state s)) segs = map (\<lambda>r. (ru_start r, ru_end r, ru_state r)) runs
    \<and> successively (\<lambda>a b. ls_end a = ls_start b) segs
    \<and> sum_list (map (\<lambda>s. total_seconds (ls_start s) (ls_end s)) segs)
        = sum_list (map (\<lambda>s. total_seconds (rs_start s) (rs_end s)) raw)
    \<and> successively (\<lambda>a b. \<not> (run_key a = run_key b \<and> ru_start b \<notin> set breaks)) runs"
  using merged_segments_partition [of intervals ws we now breaks] by (simp add: Let_def)

end
