(* ===== verification/Upholstery.thy ===== *)
theory Upholstery
  imports TaskStepEnums
begin

text \<open>
  The fabric stock: \<open>domain/upholstery/condition_evaluation.py\<close>, the mutations of one inventory row in
  \<open>services/commands/upholstery/_inventory_mutations.py\<close>, and the bridge of
  \<open>services/commands/task_steps/_upholstery_installation_side_effect.py\<close>, which advances the fabric
  requirements of a task when its installation step starts or is completed.

  The columns are \<open>Numeric(14, 3)\<close> and the code only adds and subtracts them, far inside the 28 digits of
  the decimal context, so an amount is its exact value. A nullable column is an option. A table is the
  list of its rows and a mutation returns the new table, or the exception that rolls it back.
\<close>

section \<open>The condition of an inventory\<close>

datatype inventory_condition = ConditionAVAILABLE | ConditionLOW_STOCK | ConditionOUT_OF_STOCK

definition or_zero :: "rat option \<Rightarrow> rat" where
  \<comment> \<open>\<open>x or Decimal("0")\<close>\<close>
  "or_zero x = (case x of None \<Rightarrow> 0 | Some d \<Rightarrow> d)"

definition evaluate_inventory_condition ::
    "rat option \<Rightarrow> rat option \<Rightarrow> rat option \<Rightarrow> inventory_condition" where
  "evaluate_inventory_condition stored in_need threshold =
     (let net = or_zero stored - or_zero in_need in
      if net \<le> 0 then ConditionOUT_OF_STOCK
      else case threshold of
        None \<Rightarrow> ConditionAVAILABLE
      | Some t \<Rightarrow> if net \<le> t then ConditionLOW_STOCK else ConditionAVAILABLE)"

section \<open>The inventory row and its mutations\<close>

datatype requirement_source = SourceINVENTORY | SourceSURPLUS

record inventory =
  inventory_id :: string
  inventory_upholstery_id :: string
  current_stored_amount_meters :: "rat option"
  current_amount_in_use_meters :: "rat option"
  current_amount_in_need_meters :: "rat option"
  current_amount_ordered_meters :: "rat option"
  total_upholstery_used_meters :: "rat option"
  total_upholstery_used_inventory_meters :: "rat option"
  total_upholstery_used_surplus_meters :: "rat option"
  total_upholstery_surplus_meters :: "rat option"
  low_stock_threshold_meters :: "rat option"
  inventory_condition :: inventory_condition
  inventory_is_deleted :: bool

abbreviation stored :: "inventory \<Rightarrow> rat" where
  "stored row \<equiv> or_zero (current_stored_amount_meters row)"
abbreviation in_use :: "inventory \<Rightarrow> rat" where
  "in_use row \<equiv> or_zero (current_amount_in_use_meters row)"
abbreviation in_need :: "inventory \<Rightarrow> rat" where
  "in_need row \<equiv> or_zero (current_amount_in_need_meters row)"
abbreviation ordered :: "inventory \<Rightarrow> rat" where
  "ordered row \<equiv> or_zero (current_amount_ordered_meters row)"
abbreviation used_total :: "inventory \<Rightarrow> rat" where
  "used_total row \<equiv> or_zero (total_upholstery_used_meters row)"
abbreviation used_inventory :: "inventory \<Rightarrow> rat" where
  "used_inventory row \<equiv> or_zero (total_upholstery_used_inventory_meters row)"
abbreviation used_surplus :: "inventory \<Rightarrow> rat" where
  "used_surplus row \<equiv> or_zero (total_upholstery_used_surplus_meters row)"

definition current_condition :: "inventory \<Rightarrow> inventory_condition" where
  "current_condition row = evaluate_inventory_condition (current_stored_amount_meters row)
     (current_amount_in_need_meters row) (low_stock_threshold_meters row)"

definition reevaluate :: "inventory \<Rightarrow> inventory" where
  "reevaluate row = row\<lparr>inventory_condition := current_condition row\<rparr>"

definition new_inventory :: "string \<Rightarrow> string \<Rightarrow> inventory" where
  "new_inventory new_id upholstery_id =
     \<lparr>inventory_id = new_id, inventory_upholstery_id = upholstery_id,
      current_stored_amount_meters = Some 0, current_amount_in_use_meters = Some 0,
      current_amount_in_need_meters = Some 0, current_amount_ordered_meters = Some 0,
      total_upholstery_used_meters = Some 0, total_upholstery_used_inventory_meters = Some 0,
      total_upholstery_used_surplus_meters = Some 0, total_upholstery_surplus_meters = Some 0,
      low_stock_threshold_meters = None, inventory_condition = ConditionAVAILABLE,
      inventory_is_deleted = False\<rparr>"

text \<open>What each mutation does to the row, once loaded.\<close>

definition consume_row :: "rat \<Rightarrow> inventory \<Rightarrow> inventory result" where
  "consume_row quantity row =
     (let new_stored = stored row - quantity in
      if new_stored < 0 then Inl (ValidationError ''Not enough upholstery in stored inventory to start production'')
      else Inr (row\<lparr>current_stored_amount_meters := Some new_stored,
                    current_amount_in_use_meters := Some (in_use row + quantity),
                    current_amount_in_need_meters := Some (max 0 (in_need row - quantity))\<rparr>))"

definition add_used :: "rat \<Rightarrow> requirement_source \<Rightarrow> inventory \<Rightarrow> inventory" where
  "add_used quantity source row =
     (let row = row\<lparr>total_upholstery_used_meters := Some (used_total row + quantity)\<rparr> in
      case source of
        SourceINVENTORY \<Rightarrow> row\<lparr>total_upholstery_used_inventory_meters := Some (used_inventory row + quantity)\<rparr>
      | SourceSURPLUS \<Rightarrow> row\<lparr>total_upholstery_used_surplus_meters := Some (used_surplus row + quantity)\<rparr>)"

definition finish_row :: "rat \<Rightarrow> requirement_source \<Rightarrow> inventory \<Rightarrow> inventory result" where
  "finish_row quantity source row =
     (let new_in_use = in_use row - quantity in
      if new_in_use < 0 then Inl (ValidationError ''Inventory inconsistency: completion quantity exceeds recorded in-use amount.'')
      else Inr (add_used quantity source (row\<lparr>current_amount_in_use_meters := Some new_in_use\<rparr>)))"

definition add_ordered_row :: "rat \<Rightarrow> inventory \<Rightarrow> inventory result" where
  "add_ordered_row quantity row =
     Inr (row\<lparr>current_amount_ordered_meters := Some (ordered row + quantity)\<rparr>)"

definition confirm_row :: "rat \<Rightarrow> inventory \<Rightarrow> inventory result" where
  "confirm_row quantity row =
     (let new_ordered = ordered row - quantity in
      if new_ordered < 0 then Inl (ValidationError ''Confirmed quantity exceeds the recorded ordered amount'')
      else Inr (reevaluate (row\<lparr>current_amount_ordered_meters := Some new_ordered,
                                current_stored_amount_meters := Some (stored row + quantity)\<rparr>)))"

definition add_surplus_row :: "rat \<Rightarrow> inventory \<Rightarrow> inventory result" where
  "add_surplus_row quantity row =
     Inr (reevaluate (row\<lparr>current_stored_amount_meters := Some (stored row + quantity),
                           total_upholstery_surplus_meters :=
                             Some (or_zero (total_upholstery_surplus_meters row) + quantity)\<rparr>))"

definition adjust_need_row :: "rat \<Rightarrow> inventory \<Rightarrow> inventory result" where
  "adjust_need_row delta row =
     Inr (reevaluate (row\<lparr>current_amount_in_need_meters := Some (max 0 (in_need row + delta))\<rparr>))"

definition inject_need_row :: "rat \<Rightarrow> inventory \<Rightarrow> inventory result" where
  "inject_need_row quantity row =
     Inr (reevaluate (row\<lparr>current_amount_in_need_meters := Some (in_need row + quantity)\<rparr>))"

definition complete_direct_row :: "rat \<Rightarrow> requirement_source \<Rightarrow> inventory \<Rightarrow> inventory result" where
  "complete_direct_row quantity source row =
     (let new_stored = stored row - quantity in
      if new_stored < 0 then Inl (ValidationError ''Not enough upholstery in stored inventory to complete directly'')
      else Inr (add_used quantity source
             (row\<lparr>current_stored_amount_meters := Some new_stored,
                  current_amount_in_need_meters := Some (max 0 (in_need row - quantity))\<rparr>)))"

definition rollback_row :: "rat \<Rightarrow> inventory \<Rightarrow> inventory result" where
  "rollback_row quantity row =
     (let new_in_use = in_use row - quantity in
      if new_in_use < 0 then Inl (ValidationError ''Inventory inconsistency: rollback quantity exceeds recorded in-use amount.'')
      else Inr (reevaluate (row\<lparr>current_amount_in_use_meters := Some new_in_use,
                                current_stored_amount_meters := Some (stored row + quantity)\<rparr>)))"

section \<open>The mutations of the inventory table\<close>

definition load_inventory :: "inventory list \<Rightarrow> string \<Rightarrow> inventory result" where
  "load_inventory inventories upholstery_inventory_id =
     scalar_or_raise (NotFound ''UpholsteryInventory not found.'')
       (filter (\<lambda>row. inventory_id row = upholstery_inventory_id \<and> \<not> inventory_is_deleted row) inventories)"

definition put_inventory :: "inventory \<Rightarrow> inventory list \<Rightarrow> inventory list" where
  "put_inventory row = map (\<lambda>r. if inventory_id r = inventory_id row then row else r)"

text \<open>
  Every mutation loads the row and then computes with the quantity it was given. The quantity of a
  requirement is a nullable column that the bridge passes on unchecked, and arithmetic with \<open>None\<close>
  raises \<open>TypeError\<close>.
\<close>

definition mutate ::
    "inventory list \<Rightarrow> string \<Rightarrow> rat option \<Rightarrow> (rat \<Rightarrow> inventory \<Rightarrow> inventory result) \<Rightarrow> inventory list result" where
  "mutate inventories upholstery_inventory_id quantity mutation =
     rbind (load_inventory inventories upholstery_inventory_id) (\<lambda>row.
     case quantity of
       None \<Rightarrow> Inl (TypeError ''unsupported operand type(s): decimal.Decimal and NoneType'')
     | Some q \<Rightarrow> rbind (mutation q row) (\<lambda>row'. Inr (put_inventory row' inventories)))"

definition consume_to_in_use :: "inventory list \<Rightarrow> string \<Rightarrow> rat option \<Rightarrow> inventory list result" where
  "consume_to_in_use inventories i quantity = mutate inventories i quantity consume_row"

definition finish_in_use ::
    "inventory list \<Rightarrow> string \<Rightarrow> rat option \<Rightarrow> requirement_source \<Rightarrow> inventory list result" where
  "finish_in_use inventories i quantity source = mutate inventories i quantity (\<lambda>q. finish_row q source)"

definition add_ordered :: "inventory list \<Rightarrow> string \<Rightarrow> rat option \<Rightarrow> inventory list result" where
  "add_ordered inventories i quantity = mutate inventories i quantity add_ordered_row"

definition confirm_ordered_to_stock :: "inventory list \<Rightarrow> string \<Rightarrow> rat option \<Rightarrow> inventory list result" where
  "confirm_ordered_to_stock inventories i quantity = mutate inventories i quantity confirm_row"

definition add_stored_surplus :: "inventory list \<Rightarrow> string \<Rightarrow> rat option \<Rightarrow> inventory list result" where
  "add_stored_surplus inventories i quantity = mutate inventories i quantity add_surplus_row"

definition sufficient :: "inventory \<Rightarrow> bool" where
  "sufficient row \<longleftrightarrow> stored row - in_need row \<ge> 0"

definition adjust_need ::
    "inventory list \<Rightarrow> string \<Rightarrow> rat option \<Rightarrow> (inventory list \<times> bool \<times> inventory_condition) result" where
  "adjust_need inventories i delta =
     rbind (mutate inventories i delta adjust_need_row) (\<lambda>inventories'.
     rbind (load_inventory inventories' i) (\<lambda>row.
       Inr (inventories', sufficient row, inventory_condition row)))"

definition complete_available_direct ::
    "inventory list \<Rightarrow> string \<Rightarrow> rat option \<Rightarrow> requirement_source \<Rightarrow> inventory list result" where
  "complete_available_direct inventories i quantity source =
     mutate inventories i quantity (\<lambda>q. complete_direct_row q source)"

definition rollback_in_use_to_stored :: "inventory list \<Rightarrow> string \<Rightarrow> rat option \<Rightarrow> inventory list result" where
  "rollback_in_use_to_stored inventories i quantity = mutate inventories i quantity rollback_row"

text \<open>
  \<open>check_and_inject_need\<close> creates the row of an upholstery on first use; \<open>new_id\<close> is the identifier that
  \<open>generate_id\<close> draws. Without \<open>inject\<close> the new row is still added to the session.
\<close>

definition check_and_inject_need ::
    "string \<Rightarrow> inventory list \<Rightarrow> string \<Rightarrow> rat \<Rightarrow> bool
      \<Rightarrow> (inventory list \<times> string \<times> bool \<times> inventory_condition) result" where
  "check_and_inject_need new_id inventories upholstery_id quantity inject =
     rbind (scalar_one_or_none
       (filter (\<lambda>row. inventory_upholstery_id row = upholstery_id \<and> \<not> inventory_is_deleted row) inventories))
     (\<lambda>found.
       let row = (case found of None \<Rightarrow> new_inventory new_id upholstery_id | Some r \<Rightarrow> r);
           inventories = (if found = None then inventories @ [row] else inventories) in
       rbind (if inject then inject_need_row quantity row else Inr row) (\<lambda>row'.
         Inr (put_inventory row' inventories, inventory_id row', sufficient row', inventory_condition row')))"

section \<open>The installation bridge\<close>

datatype requirement_state =
    RequirementMISSING_QUANTITY
  | RequirementAVAILABLE
  | RequirementNEEDS_ORDERING
  | RequirementORDERED
  | RequirementIN_USE
  | RequirementCOMPLETED
  | RequirementFAILED

record requirement =
  requirement_id :: string
  requirement_item_upholstery_id :: string
  requirement_inventory_id :: "string option"
  amount_meters :: "rat option"
  requirement_source :: requirement_source
  requirement_state :: requirement_state
  in_use_at :: "int option"
  requirement_completed_at :: "int option"
  requirement_updated_by_id :: "string option"
  requirement_is_deleted :: bool

record item_upholstery =
  item_upholstery_id :: string
  upholstered_item_id :: string
  item_upholstery_is_deleted :: bool

record task_item =
  task_item_task_id :: string
  task_item_item_id :: string
  task_item_role :: task_item_role
  task_item_removed_at :: "int option"

record fabric_db =
  inventories :: "inventory list"
  requirements :: "requirement list"
  item_upholsteries :: "item_upholstery list"
  task_items :: "task_item list"

definition UPHOLSTERY_INSTALLATION_SECTION_NAME :: string where
  "UPHOLSTERY_INSTALLATION_SECTION_NAME = ''upholstery installation''"

definition PROMOTABLE_TO_IN_USE :: "requirement_state list" where
  "PROMOTABLE_TO_IN_USE = [RequirementAVAILABLE]"

definition PROMOTABLE_TO_COMPLETED :: "requirement_state list" where
  "PROMOTABLE_TO_COMPLETED = [RequirementIN_USE, RequirementAVAILABLE]"

definition put_requirement :: "requirement \<Rightarrow> requirement list \<Rightarrow> requirement list" where
  "put_requirement req = map (\<lambda>r. if requirement_id r = requirement_id req then req else r)"

definition apply_inventory_mutation ::
    "inventory list \<Rightarrow> requirement \<Rightarrow> requirement_state \<Rightarrow> string \<Rightarrow> inventory list result" where
  "apply_inventory_mutation invs req target_state i =
     (if target_state = RequirementIN_USE then consume_to_in_use invs i (amount_meters req)
      else if requirement_state req = RequirementIN_USE
      then finish_in_use invs i (amount_meters req) (requirement_source req)
      else complete_available_direct invs i (amount_meters req) (requirement_source req))"

definition promote_requirement ::
    "requirement_state \<Rightarrow> string \<Rightarrow> int \<Rightarrow> fabric_db \<Rightarrow> requirement \<Rightarrow> fabric_db result" where
  "promote_requirement target_state actor_id now db req =
     rbind (case requirement_inventory_id req of
              None \<Rightarrow> Inr (inventories db)
            | Some i \<Rightarrow> apply_inventory_mutation (inventories db) req target_state i) (\<lambda>invs.
     let req = req\<lparr>requirement_state := target_state, requirement_updated_by_id := Some actor_id\<rparr>;
         req = (if target_state = RequirementIN_USE then req\<lparr>in_use_at := Some now\<rparr>
                else req\<lparr>requirement_completed_at := Some now\<rparr>) in
     Inr (db\<lparr>inventories := invs, requirements := put_requirement req (requirements db)\<rparr>))"

definition source_states :: "requirement_state \<Rightarrow> requirement_state list" where
  "source_states target_state =
     (if target_state = RequirementIN_USE then PROMOTABLE_TO_IN_USE else PROMOTABLE_TO_COMPLETED)"

definition promotable :: "fabric_db \<Rightarrow> string \<Rightarrow> requirement_state \<Rightarrow> requirement list" where
  "promotable db iup target_state =
     filter (\<lambda>r. requirement_item_upholstery_id r = iup
               \<and> requirement_state r \<in> set (source_states target_state)
               \<and> \<not> requirement_is_deleted r) (requirements db)"

definition promote_requirements ::
    "fabric_db \<Rightarrow> string \<Rightarrow> requirement_state \<Rightarrow> string \<Rightarrow> int \<Rightarrow> (fabric_db \<times> bool) result" where
  "promote_requirements db iup target_state actor_id now =
     (let reqs = promotable db iup target_state in
      if reqs = [] then Inr (db, False)
      else rbind (rfold (promote_requirement target_state actor_id now) db reqs) (\<lambda>db'. Inr (db', True)))"

definition promote_item_upholstery ::
    "requirement_state \<Rightarrow> string \<Rightarrow> int \<Rightarrow> fabric_db \<times> string list \<Rightarrow> item_upholstery
      \<Rightarrow> (fabric_db \<times> string list) result" where
  "promote_item_upholstery target_state actor_id now acc iup =
     rbind (promote_requirements (fst acc) (item_upholstery_id iup) target_state actor_id now) (\<lambda>(db, changed).
       Inr (db, if changed then snd acc @ [item_upholstery_id iup] else snd acc))"

text \<open>The result is the new tables and the item upholsteries an event is published for.\<close>

definition apply_upholstery_installation_side_effect ::
    "fabric_db \<Rightarrow> string \<Rightarrow> string option \<Rightarrow> task_step_state \<Rightarrow> string \<Rightarrow> int \<Rightarrow> (fabric_db \<times> string list) result" where
  "apply_upholstery_installation_side_effect db task_id section_name_snapshot new_state actor_id now =
     (if new_state \<notin> {StepWORKING, StepCOMPLETED} then Inr (db, [])
      else if lower (strip (case section_name_snapshot of None \<Rightarrow> '''' | Some n \<Rightarrow> n))
                \<noteq> UPHOLSTERY_INSTALLATION_SECTION_NAME then Inr (db, [])
      else rbind (scalar_one_or_none (filter (\<lambda>ti. task_item_task_id ti = task_id
                    \<and> task_item_role ti = RolePRIMARY \<and> task_item_removed_at ti = None) (task_items db)))
      (\<lambda>primary. case primary of
         None \<Rightarrow> Inr (db, [])
       | Some ti \<Rightarrow>
           rfold (promote_item_upholstery
                    (if new_state = StepWORKING then RequirementIN_USE else RequirementCOMPLETED) actor_id now)
             (db, [])
             (filter (\<lambda>iup. upholstered_item_id iup = task_item_item_id ti
                          \<and> \<not> item_upholstery_is_deleted iup) (item_upholsteries db))))"

section \<open>The ledger\<close>

text \<open>
  The fabric an inventory accounts for: on the shelf, being worked with, on order, or already used. A
  row is sound when no amount is negative and every metre used is attributed to a source.
\<close>

definition fabric :: "inventory \<Rightarrow> rat" where
  "fabric row = stored row + in_use row + ordered row + used_total row"

definition total_fabric :: "inventory list \<Rightarrow> rat" where
  "total_fabric invs = sum_list (map fabric invs)"

definition sound_inventory :: "inventory \<Rightarrow> bool" where
  "sound_inventory row \<longleftrightarrow> stored row \<ge> 0 \<and> in_use row \<ge> 0 \<and> in_need row \<ge> 0 \<and> ordered row \<ge> 0
     \<and> used_inventory row \<ge> 0 \<and> used_surplus row \<ge> 0
     \<and> used_total row = used_inventory row + used_surplus row"

named_theorems row_defs \<open>the row mutations\<close>

declare consume_row_def [row_defs] finish_row_def [row_defs] add_ordered_row_def [row_defs]
  confirm_row_def [row_defs] add_surplus_row_def [row_defs] adjust_need_row_def [row_defs]
  inject_need_row_def [row_defs] complete_direct_row_def [row_defs] rollback_row_def [row_defs]
  add_used_def [row_defs] reevaluate_def [row_defs]

lemma or_zero_Some [simp]: "or_zero (Some d) = d"
  by (simp add: or_zero_def)

lemma sum_list_replace_unique:
  fixes f :: "'a \<Rightarrow> rat"
  assumes "distinct (map k xs)" "x \<in> set xs" "k y = k x"
  shows "sum_list (map f (map (\<lambda>r. if k r = k y then y else r) xs)) = sum_list (map f xs) + (f y - f x)"
  using assms
proof (induction xs)
  case (Cons a xs)
  show ?case
  proof (cases "a = x")
    case True
    then have "map (\<lambda>r. if k r = k y then y else r) xs = xs"
      using Cons.prems by (intro map_idI) (auto simp: image_iff)
    then show ?thesis using True Cons.prems by simp
  next
    case False
    then have "x \<in> set xs" "k a \<noteq> k y" using Cons.prems by (auto simp: image_iff)
    then show ?thesis using Cons by simp
  qed
qed simp

lemma load_inventory_InrD:
  "load_inventory invs i = Inr row \<Longrightarrow> row \<in> set invs \<and> inventory_id row = i \<and> \<not> inventory_is_deleted row"
  by (auto simp: load_inventory_def dest: filter_eq_singletonD)

text \<open>
  What a mutation of a row promises, and what it gives for the table: identifiers kept, rows sound, and
  the total fabric grown by exactly the gain of the mutation.
\<close>

locale row_mutation =
  fixes mutation :: "rat \<Rightarrow> inventory \<Rightarrow> inventory result"
    and admits :: "rat \<Rightarrow> bool"
    and gain :: "rat \<Rightarrow> rat"
  assumes keeps_id: "mutation q row = Inr row' \<Longrightarrow> inventory_id row' = inventory_id row"
    and keeps_sound: "admits q \<Longrightarrow> sound_inventory row \<Longrightarrow> mutation q row = Inr row' \<Longrightarrow> sound_inventory row'"
    and grows: "mutation q row = Inr row' \<Longrightarrow> fabric row' = fabric row + gain q"
begin

lemma mutate_InrD:
  assumes "mutate invs i quantity mutation = Inr invs'"
  obtains q row row' where "quantity = Some q" "load_inventory invs i = Inr row" "mutation q row = Inr row'"
    "invs' = put_inventory row' invs"
  using assms by (auto simp: mutate_def split: option.splits)

lemma mutate_ids:
  assumes "mutate invs i quantity mutation = Inr invs'"
  shows "map inventory_id invs' = map inventory_id invs"
  using assms by (rule mutate_InrD) (auto simp: put_inventory_def)

lemma mutate_sound:
  assumes "mutate invs i (Some q) mutation = Inr invs'" "admits q" "\<forall>row \<in> set invs. sound_inventory row"
  shows "\<forall>row \<in> set invs'. sound_inventory row"
  using assms(1)
proof (rule mutate_InrD)
  fix p row row'
  assume h: "Some q = Some p" "load_inventory invs i = Inr row" "mutation p row = Inr row'"
    "invs' = put_inventory row' invs"
  then have "sound_inventory row'"
    using assms(2,3) keeps_sound [of p row row'] load_inventory_InrD [OF h(2)] by simp
  then show ?thesis using h(4) assms(3) by (auto simp: put_inventory_def)
qed

lemma mutate_grows:
  assumes "mutate invs i (Some q) mutation = Inr invs'" "distinct (map inventory_id invs)"
  shows "total_fabric invs' = total_fabric invs + gain q"
  using assms(1)
proof (rule mutate_InrD)
  fix p row row'
  assume h: "Some q = Some p" "load_inventory invs i = Inr row" "mutation p row = Inr row'"
    "invs' = put_inventory row' invs"
  have "total_fabric invs' = total_fabric invs + (fabric row' - fabric row)"
    using sum_list_replace_unique [OF assms(2), of row row' fabric] load_inventory_InrD [OF h(2)]
      keeps_id [OF h(3)] h(4) by (simp add: total_fabric_def put_inventory_def)
  then show ?thesis using grows [OF h(3)] h(1) by simp
qed

end

interpretation consume: row_mutation consume_row "\<lambda>q. 0 \<le> q" "\<lambda>_. 0"
  by unfold_locales (auto simp: row_defs sound_inventory_def fabric_def Let_def split: if_splits)

interpretation finish: row_mutation "\<lambda>q. finish_row q source" "\<lambda>q. 0 \<le> q" "\<lambda>_. 0" for source
  by unfold_locales
    (auto simp: row_defs sound_inventory_def fabric_def Let_def split: if_splits requirement_source.splits)

interpretation ordered_stock: row_mutation add_ordered_row "\<lambda>q. 0 \<le> q" "\<lambda>q. q"
  by unfold_locales (auto simp: row_defs sound_inventory_def fabric_def Let_def split: if_splits)

interpretation confirm: row_mutation confirm_row "\<lambda>q. 0 \<le> q" "\<lambda>_. 0"
  by unfold_locales (auto simp: row_defs sound_inventory_def fabric_def Let_def split: if_splits)

interpretation surplus_stock: row_mutation add_surplus_row "\<lambda>q. 0 \<le> q" "\<lambda>q. q"
  by unfold_locales (auto simp: row_defs sound_inventory_def fabric_def Let_def split: if_splits)

interpretation need: row_mutation adjust_need_row "\<lambda>_. True" "\<lambda>_. 0"
  by unfold_locales (auto simp: row_defs sound_inventory_def fabric_def Let_def split: if_splits)

interpretation inject: row_mutation inject_need_row "\<lambda>q. 0 \<le> q" "\<lambda>_. 0"
  by unfold_locales (auto simp: row_defs sound_inventory_def fabric_def Let_def split: if_splits)

interpretation complete: row_mutation "\<lambda>q. complete_direct_row q source" "\<lambda>q. 0 \<le> q" "\<lambda>_. 0" for source
  by unfold_locales
    (auto simp: row_defs sound_inventory_def fabric_def Let_def split: if_splits requirement_source.splits)

interpretation rollback: row_mutation rollback_row "\<lambda>q. 0 \<le> q" "\<lambda>_. 0"
  by unfold_locales (auto simp: row_defs sound_inventory_def fabric_def Let_def split: if_splits)

text \<open>The commands of the module, as the requests other commands send them.\<close>

datatype stock_command =
    ConsumeToInUse string rat
  | FinishInUse string rat requirement_source
  | AddOrdered string rat
  | ConfirmOrdered string rat
  | AddSurplus string rat
  | AdjustNeed string rat
  | CompleteDirect string rat requirement_source
  | RollbackInUse string rat

fun run_stock_command :: "inventory list \<Rightarrow> stock_command \<Rightarrow> inventory list result" where
  "run_stock_command invs (ConsumeToInUse i q) = consume_to_in_use invs i (Some q)"
| "run_stock_command invs (FinishInUse i q s) = finish_in_use invs i (Some q) s"
| "run_stock_command invs (AddOrdered i q) = add_ordered invs i (Some q)"
| "run_stock_command invs (ConfirmOrdered i q) = confirm_ordered_to_stock invs i (Some q)"
| "run_stock_command invs (AddSurplus i q) = add_stored_surplus invs i (Some q)"
| "run_stock_command invs (AdjustNeed i d) = rbind (adjust_need invs i (Some d)) (\<lambda>(invs', _). Inr invs')"
| "run_stock_command invs (CompleteDirect i q s) = complete_available_direct invs i (Some q) s"
| "run_stock_command invs (RollbackInUse i q) = rollback_in_use_to_stored invs i (Some q)"

fun delivered :: "stock_command \<Rightarrow> rat" where
  "delivered (AddOrdered _ q) = q"
| "delivered (AddSurplus _ q) = q"
| "delivered _ = 0"

fun proper_quantity :: "stock_command \<Rightarrow> bool" where
  "proper_quantity (AdjustNeed _ _) = True"
| "proper_quantity (ConsumeToInUse _ q) = (0 \<le> q)"
| "proper_quantity (FinishInUse _ q _) = (0 \<le> q)"
| "proper_quantity (AddOrdered _ q) = (0 \<le> q)"
| "proper_quantity (ConfirmOrdered _ q) = (0 \<le> q)"
| "proper_quantity (AddSurplus _ q) = (0 \<le> q)"
| "proper_quantity (CompleteDirect _ q _) = (0 \<le> q)"
| "proper_quantity (RollbackInUse _ q) = (0 \<le> q)"

definition sound_table :: "inventory list \<Rightarrow> bool" where
  "sound_table invs \<longleftrightarrow> distinct (map inventory_id invs) \<and> (\<forall>row \<in> set invs. sound_inventory row)"

lemmas command_defs = consume_to_in_use_def finish_in_use_def add_ordered_def confirm_ordered_to_stock_def
  add_stored_surplus_def adjust_need_def complete_available_direct_def rollback_in_use_to_stored_def

lemma run_stock_command_sound:
  assumes "sound_table invs" "proper_quantity c" "run_stock_command invs c = Inr invs'"
  shows "sound_table invs'"
  using assms
  by (cases c) (auto simp: sound_table_def command_defs
      dest: consume.mutate_ids finish.mutate_ids ordered_stock.mutate_ids confirm.mutate_ids
        surplus_stock.mutate_ids need.mutate_ids complete.mutate_ids rollback.mutate_ids
        consume.mutate_sound finish.mutate_sound ordered_stock.mutate_sound confirm.mutate_sound
        surplus_stock.mutate_sound need.mutate_sound [OF _ TrueI] complete.mutate_sound rollback.mutate_sound)

lemma run_stock_command_fabric:
  assumes "sound_table invs" "run_stock_command invs c = Inr invs'"
  shows "total_fabric invs' = total_fabric invs + delivered c"
  using assms
  by (cases c) (auto simp: sound_table_def command_defs
      dest: consume.mutate_grows finish.mutate_grows ordered_stock.mutate_grows confirm.mutate_grows
        surplus_stock.mutate_grows need.mutate_grows complete.mutate_grows rollback.mutate_grows)

lemma rfold_stock_commands:
  assumes "rfold run_stock_command invs cs = Inr invs'" "sound_table invs" "\<forall>c \<in> set cs. proper_quantity c"
  shows "sound_table invs' \<and> total_fabric invs' = total_fabric invs + sum_list (map delivered cs)"
  using assms
proof (induction cs arbitrary: invs)
  case (Cons c cs)
  then obtain invs1 where run: "run_stock_command invs c = Inr invs1" "rfold run_stock_command invs1 cs = Inr invs'"
    by auto
  have "sound_table invs1" using run_stock_command_sound run(1) Cons.prems by auto
  then show ?case
    using Cons.IH [OF run(2)] run_stock_command_fabric [OF Cons.prems(2) run(1)] Cons.prems(3) by simp
qed simp

text \<open>C18: Fabric is never created or lost by the stock ledger. Run any sequence of the inventory
  mutations, with nonnegative quantities, on a table whose rows are sound, and if none of them raises,
  every row is still sound - nothing on the shelf, in use, in need or on order is negative, and the metres
  used split exactly into those taken from inventory and those taken from surplus - and the total of
  shelf, in-use, ordered and used fabric has grown by exactly what was ordered and what was added as
  surplus. In particular a consumption, a completion, a rollback or the confirmation of an order only
  moves fabric between these accounts.\<close>

theorem stock_ledger_conserves_fabric:
  assumes "sound_table invs" "\<forall>c \<in> set cs. proper_quantity c" "rfold run_stock_command invs cs = Inr invs'"
  shows "sound_table invs' \<and> total_fabric invs' = total_fabric invs + sum_list (map delivered cs)"
  using rfold_stock_commands [OF assms(3,1,2)] .

definition sample_stock :: "inventory list" where
  "sample_stock = [new_inventory ''uin_1'' ''u1'']"

definition sample_commands :: "stock_command list" where
  "sample_commands = [AddOrdered ''uin_1'' 10, ConfirmOrdered ''uin_1'' 8, AdjustNeed ''uin_1'' 5,
     ConsumeToInUse ''uin_1'' 3, FinishInUse ''uin_1'' 3 SourceINVENTORY, CompleteDirect ''uin_1'' 2 SourceSURPLUS]"

lemmas stock_evaluation = sample_stock_def sample_commands_def new_inventory_def command_defs row_defs
  mutate_def load_inventory_def put_inventory_def scalar_or_raise_def rbind_def current_condition_def
  evaluate_inventory_condition_def Let_def or_zero_def

lemma stock_ledger_conserves_fabric_witness:
  "\<exists>invs'. rfold run_stock_command sample_stock sample_commands = Inr invs' \<and> total_fabric invs' = 10"
proof -
  obtain invs' where run: "rfold run_stock_command sample_stock sample_commands = Inr invs'"
    by (simp add: stock_evaluation)
  have "sound_table sample_stock" "total_fabric sample_stock = 0"
    by (simp_all add: sound_table_def sample_stock_def new_inventory_def sound_inventory_def total_fabric_def fabric_def)
  moreover have "\<forall>c \<in> set sample_commands. proper_quantity c" "sum_list (map delivered sample_commands) = 10"
    by (simp_all add: sample_commands_def)
  ultimately show ?thesis using stock_ledger_conserves_fabric [OF _ _ run] run by simp
qed

section \<open>What the installation bridge does\<close>

lemma apply_inventory_mutation_cases:
  assumes "apply_inventory_mutation invs req target_state i = Inr invs'"
  shows "distinct (map inventory_id invs) \<Longrightarrow> total_fabric invs' = total_fabric invs"
    and "map inventory_id invs' = map inventory_id invs"
proof -
  obtain q where q: "amount_meters req = Some q"
    using assms by (cases "amount_meters req")
      (auto simp: apply_inventory_mutation_def command_defs mutate_def split: if_splits)
  show "distinct (map inventory_id invs) \<Longrightarrow> total_fabric invs' = total_fabric invs"
    using assms q by (auto simp: apply_inventory_mutation_def command_defs split: if_splits
        dest: consume.mutate_grows finish.mutate_grows complete.mutate_grows)
  show "map inventory_id invs' = map inventory_id invs"
    using assms by (auto simp: apply_inventory_mutation_def command_defs split: if_splits
        dest: consume.mutate_ids finish.mutate_ids complete.mutate_ids)
qed

definition same_fabric :: "fabric_db \<Rightarrow> fabric_db \<Rightarrow> bool" where
  "same_fabric db db' \<longleftrightarrow> map inventory_id (inventories db') = map inventory_id (inventories db)
     \<and> (distinct (map inventory_id (inventories db)) \<longrightarrow> total_fabric (inventories db') = total_fabric (inventories db))
     \<and> item_upholsteries db' = item_upholsteries db \<and> task_items db' = task_items db"

definition only_promoted :: "requirement_state \<Rightarrow> fabric_db \<Rightarrow> fabric_db \<Rightarrow> bool" where
  "only_promoted target_state db db' \<longleftrightarrow>
     (\<forall>r \<in> set (requirements db'). r \<in> set (requirements db) \<or> requirement_state r = target_state)"

definition is_target :: "requirement_state \<Rightarrow> bool" where
  "is_target s \<longleftrightarrow> s = RequirementIN_USE \<or> s = RequirementCOMPLETED"

lemma target_not_source: "is_target s \<Longrightarrow> s \<notin> set (source_states s)"
  by (auto simp: is_target_def source_states_def PROMOTABLE_TO_IN_USE_def PROMOTABLE_TO_COMPLETED_def)

lemma promote_requirement_step:
  assumes "promote_requirement t actor now db req = Inr db'" "is_target t"
  shows "same_fabric db db' \<and> only_promoted t db db'
    \<and> (\<forall>iup. set (promotable db' iup t) \<subseteq> set (promotable db iup t) - {r. requirement_id r = requirement_id req})"
proof -
  obtain invs where invs: "(case requirement_inventory_id req of None \<Rightarrow> Inr (inventories db)
      | Some i \<Rightarrow> apply_inventory_mutation (inventories db) req t i) = Inr invs"
    using assms(1) by (auto simp: promote_requirement_def)
  define req' where "req' = (let r = req\<lparr>requirement_state := t, requirement_updated_by_id := Some actor\<rparr>
    in if t = RequirementIN_USE then r\<lparr>in_use_at := Some now\<rparr> else r\<lparr>requirement_completed_at := Some now\<rparr>)"
  have db': "db' = db\<lparr>inventories := invs, requirements := put_requirement req' (requirements db)\<rparr>"
    using assms(1) invs by (simp add: promote_requirement_def req'_def Let_def)
  have req': "requirement_state req' = t" "requirement_id req' = requirement_id req"
    by (simp_all add: req'_def Let_def)
  have "same_fabric db db'"
    using invs by (auto simp: db' same_fabric_def apply_inventory_mutation_cases split: option.splits)
  moreover have "only_promoted t db db'"
    using req' by (auto simp: db' only_promoted_def put_requirement_def)
  moreover have "\<forall>iup. set (promotable db' iup t) \<subseteq> set (promotable db iup t) - {r. requirement_id r = requirement_id req}"
    using req' target_not_source [OF assms(2)] by (auto simp: db' promotable_def put_requirement_def split: if_splits)
  ultimately show ?thesis by blast
qed

text \<open>What a stretch of the bridge's loops has done so far.\<close>

definition progressed :: "requirement_state \<Rightarrow> fabric_db \<Rightarrow> fabric_db \<Rightarrow> bool" where
  "progressed t db db' \<longleftrightarrow> same_fabric db db' \<and> only_promoted t db db'
     \<and> (\<forall>iup. set (promotable db' iup t) \<subseteq> set (promotable db iup t))"

lemma progressed_refl: "progressed t db db"
  by (simp add: progressed_def same_fabric_def only_promoted_def)

lemma progressed_trans: "progressed t db db1 \<Longrightarrow> progressed t db1 db2 \<Longrightarrow> progressed t db db2"
  unfolding progressed_def same_fabric_def only_promoted_def by (auto 0 4)

lemma promote_requirement_loop:
  assumes "rfold (promote_requirement t actor now) db reqs = Inr db'" "is_target t"
  shows "progressed t db db' \<and> (\<forall>iup. \<forall>r \<in> set (promotable db' iup t). requirement_id r \<notin> requirement_id ` set reqs)"
  using assms(1)
proof (induction reqs arbitrary: db)
  case Nil
  then show ?case by (simp add: progressed_refl)
next
  case (Cons req reqs)
  then obtain db1 where step: "promote_requirement t actor now db req = Inr db1"
    and rest: "rfold (promote_requirement t actor now) db1 reqs = Inr db'" by auto
  note one = promote_requirement_step [OF step assms(2)]
  have "progressed t db db1" using one by (auto simp: progressed_def)
  moreover have tail: "progressed t db1 db'"
    "\<forall>iup. \<forall>r \<in> set (promotable db' iup t). requirement_id r \<notin> requirement_id ` set reqs"
    using Cons.IH [OF rest] by auto
  moreover have "\<forall>iup. \<forall>r \<in> set (promotable db' iup t). requirement_id r \<noteq> requirement_id req"
    using one tail(1) by (auto simp: progressed_def)
  ultimately show ?case using progressed_trans by auto
qed

lemma promote_requirements_step:
  assumes "promote_requirements db iup t actor now = Inr (db', changed)" "is_target t"
  shows "progressed t db db' \<and> promotable db' iup t = [] \<and> (changed \<longleftrightarrow> promotable db iup t \<noteq> [])"
proof (cases "promotable db iup t = []")
  case True
  then show ?thesis using assms(1) by (simp add: promote_requirements_def progressed_refl)
next
  case False
  then have run: "rfold (promote_requirement t actor now) db (promotable db iup t) = Inr db'" "changed"
    using assms(1) by (auto simp: promote_requirements_def Let_def)
  note loop = promote_requirement_loop [OF run(1) assms(2)]
  have "r \<notin> set (promotable db' iup t)" for r
  proof
    assume r: "r \<in> set (promotable db' iup t)"
    then have "r \<in> set (promotable db iup t)" using loop by (auto simp: progressed_def)
    then show False using loop r by auto
  qed
  then have "promotable db' iup t = []" by (cases "promotable db' iup t") auto
  then show ?thesis using loop run(2) False by simp
qed

lemma promote_item_upholsteries_loop:
  assumes "rfold (promote_item_upholstery t actor now) (db, ev) iups = Inr (db', ev')" "is_target t"
  shows "progressed t db db' \<and> (\<forall>iup \<in> set iups. promotable db' (item_upholstery_id iup) t = [])"
  using assms(1)
proof (induction iups arbitrary: db ev)
  case Nil
  then show ?case by (simp add: progressed_refl)
next
  case (Cons iup iups)
  then obtain db1 ev1 where first: "promote_item_upholstery t actor now (db, ev) iup = Inr (db1, ev1)"
    and rest: "rfold (promote_item_upholstery t actor now) (db1, ev1) iups = Inr (db', ev')"
    by auto
  then obtain changed where step: "promote_requirements db (item_upholstery_id iup) t actor now = Inr (db1, changed)"
    by (auto simp: promote_item_upholstery_def)
  note one = promote_requirements_step [OF step assms(2)] and tail = Cons.IH [OF rest]
  have "promotable db' (item_upholstery_id iup) t = []" using one tail
    by (simp add: progressed_def) (metis set_empty subset_empty)
  then show ?case using one tail progressed_trans by auto
qed

text \<open>C19: Starting or completing the installation step moves fabric and creates none. When the side effect
  runs for a step of the upholstery installation section (the name is compared stripped and in lower case)
  on a task with one primary item and does not raise, the stock table accounts for the same total fabric as
  before, no requirement of an active upholstery of that item is left waiting in a state it promotes from
  (available for a start; in use or available for a completion), the only requirement rows it rewrote are
  now in the target state, and the links from tasks to items and from items to upholsteries are untouched.\<close>

theorem installation_promotes_and_conserves:
  assumes "lower (strip name) = UPHOLSTERY_INSTALLATION_SECTION_NAME"
    and "new_state = StepWORKING \<and> t = RequirementIN_USE \<or> new_state = StepCOMPLETED \<and> t = RequirementCOMPLETED"
    and "filter (\<lambda>ti. task_item_task_id ti = task_id \<and> task_item_role ti = RolePRIMARY
           \<and> task_item_removed_at ti = None) (task_items db) = [ti]"
    and "distinct (map inventory_id (inventories db))"
    and "apply_upholstery_installation_side_effect db task_id (Some name) new_state actor now = Inr (db', changed)"
  shows "total_fabric (inventories db') = total_fabric (inventories db)
    \<and> (\<forall>iup \<in> set (item_upholsteries db'). upholstered_item_id iup = task_item_item_id ti
         \<and> \<not> item_upholstery_is_deleted iup \<longrightarrow> promotable db' (item_upholstery_id iup) t = [])
    \<and> (\<forall>r \<in> set (requirements db'). r \<in> set (requirements db) \<or> requirement_state r = t)
    \<and> task_items db' = task_items db \<and> item_upholsteries db' = item_upholsteries db"
proof -
  let ?iups = "filter (\<lambda>iup. upholstered_item_id iup = task_item_item_id ti
    \<and> \<not> item_upholstery_is_deleted iup) (item_upholsteries db)"
  have "rfold (promote_item_upholstery t actor now) (db, []) ?iups = Inr (db', changed)"
    using assms(1,2,3,5) by (auto simp: apply_upholstery_installation_side_effect_def)
  moreover have "is_target t" using assms(2) by (auto simp: is_target_def)
  ultimately show ?thesis
    using promote_item_upholsteries_loop [of t actor now db "[]" ?iups db' changed] assms(4)
    by (auto simp: progressed_def same_fabric_def only_promoted_def)
qed

definition sample_fabric :: fabric_db where
  "sample_fabric = \<lparr>
     inventories = [(new_inventory ''uin_1'' ''u1'')\<lparr>current_stored_amount_meters := Some 5,
       current_amount_in_need_meters := Some 2\<rparr>],
     requirements = [\<lparr>requirement_id = ''iur_1'', requirement_item_upholstery_id = ''iup_1'',
       requirement_inventory_id = Some ''uin_1'', amount_meters = Some 2, requirement_source = SourceINVENTORY,
       requirement_state = RequirementAVAILABLE, in_use_at = None, requirement_completed_at = None,
       requirement_updated_by_id = None, requirement_is_deleted = False\<rparr>],
     item_upholsteries = [\<lparr>item_upholstery_id = ''iup_1'', upholstered_item_id = ''itm_1'',
       item_upholstery_is_deleted = False\<rparr>],
     task_items = [\<lparr>task_item_task_id = ''tsk_1'', task_item_item_id = ''itm_1'',
       task_item_role = RolePRIMARY, task_item_removed_at = None\<rparr>]\<rparr>"

lemma installation_promotes_and_conserves_witness:
  "\<exists>db' changed. apply_upholstery_installation_side_effect sample_fabric ''tsk_1''
      (Some ''Upholstery Installation '') StepWORKING ''usr_1'' 7 = Inr (db', changed)
    \<and> changed = [''iup_1''] \<and> total_fabric (inventories db') = 5 \<and> promotable db' ''iup_1'' RequirementIN_USE = []"
proof -
  have name: "lower (strip ''Upholstery Installation '') = UPHOLSTERY_INSTALLATION_SECTION_NAME"
    by code_simp
  let ?ti = "\<lparr>task_item_task_id = ''tsk_1'', task_item_item_id = ''itm_1'',
       task_item_role = RolePRIMARY, task_item_removed_at = None\<rparr>"
  obtain db' where run: "apply_upholstery_installation_side_effect sample_fabric ''tsk_1''
      (Some ''Upholstery Installation '') StepWORKING ''usr_1'' 7 = Inr (db', [''iup_1''])"
    using name by (simp add: apply_upholstery_installation_side_effect_def sample_fabric_def
        promote_item_upholstery_def promote_requirements_def promotable_def source_states_def
        PROMOTABLE_TO_IN_USE_def promote_requirement_def apply_inventory_mutation_def stock_evaluation)
  have "task_items sample_fabric = [?ti]" by (simp add: sample_fabric_def)
  then have "total_fabric (inventories db') = total_fabric (inventories sample_fabric)"
    "\<forall>iup \<in> set (item_upholsteries sample_fabric). promotable db' (item_upholstery_id iup) RequirementIN_USE = []"
    using installation_promotes_and_conserves [OF name _ _ _ run, of RequirementIN_USE ?ti]
    by (auto simp: sample_fabric_def)
  then show ?thesis
    using run by (simp add: sample_fabric_def total_fabric_def fabric_def new_inventory_def)
qed

text \<open>
  The comments on \<open>consume_to_in_use\<close> and \<open>complete_available_direct\<close> say that the net of shelf and need is
  unchanged, so the condition is not evaluated again. That holds while the recorded need covers the
  quantity. Need that was never recorded is clamped at zero, the net falls, and the row keeps a
  condition its amounts no longer have.
\<close>

lemma consume_keeps_condition:
  assumes "consume_row q row = Inr row'" "q \<le> in_need row" "inventory_condition row = current_condition row"
  shows "inventory_condition row' = current_condition row'"
  using assms
  by (cases "low_stock_threshold_meters row")
    (auto simp: consume_row_def current_condition_def evaluate_inventory_condition_def Let_def split: if_splits)

lemma condition_goes_stale:
  "\<exists>invs'. rfold run_stock_command sample_stock [AddSurplus ''uin_1'' 5, ConsumeToInUse ''uin_1'' 5] = Inr invs'
     \<and> map inventory_condition invs' = [ConditionAVAILABLE] \<and> map current_condition invs' = [ConditionOUT_OF_STOCK]"
  by (simp add: stock_evaluation)
end
