(* ===== verification/StepStore.thy ===== *)
theory StepStore
  imports Upholstery
begin

text \<open>
  The rows that the step commands read and write (\<open>models/tables/tasks/\<close>): tasks, task steps, their state
  records, the dependency edges between steps, post-handling and customer-coordination instances, the
  outbox of the analytics worker and the history. One value of \<open>store\<close> is one workspace.

  Only the columns that the modelled code reads or writes are fields. A datetime is an \<open>int\<close> of
  microseconds. State records get their identifier from \<open>generate_id\<close>, which wraps an identifier library
  and is a parameter of the commands; other rows the code creates are numbered by a counter.
\<close>

record task_row =
  task_id :: string
  task_type :: task_type
  task_state :: task_state
  return_source :: "task_return_source option"
  fulfillment_method :: "task_fulfillment_method option"
  assortment :: "string option"
  scheduled_start_at :: "int option"
  scheduled_end_at :: "int option"
  task_completed_at :: "int option"
  task_updated_at :: "int option"
  task_updated_by_id :: "string option"
  task_is_deleted :: bool

record task_step =
  step_id :: string
  step_task_id :: string
  step_state :: task_step_state
  readiness_status :: task_step_readiness
  sequence_order :: "int option"
  working_section_id :: string
  working_section_name_snapshot :: "string option"
  assigned_worker_id :: "string option"
  allows_batch_working :: bool
  total_dependencies :: int
  completed_dependencies :: int
  step_marked_wrong :: bool
  step_taken_from_average :: bool
  total_working_seconds :: int
  total_pause_seconds :: int
  total_ended_shift_seconds :: int
  total_working_count :: int
  total_pause_count :: int
  total_ended_shift_count :: int
  inaccurate_working_seconds :: int
  inaccurate_pause_seconds :: int
  inaccurate_ended_shift_seconds :: int
  total_cost_minor :: int
  latest_state_record_id :: "string option"
  step_closed_at :: "int option"
  step_updated_at :: "int option"
  step_updated_by_id :: "string option"
  step_is_deleted :: bool

record state_record =
  record_id :: string
  record_step_id :: string
  record_state :: task_step_state
  pause_reason_id :: "string option"
  transition_reason :: "transition_reason option"
  record_description :: "string option"
  entered_at :: int
  exited_at :: "int option"
  created_by_id :: "string option"
  credited_user_id :: "string option"
  record_marked_wrong :: bool
  record_taken_from_average :: bool
  record_updated_at :: "int option"
  record_is_deleted :: bool

record dependency =
  dependency_id :: nat
  dependent_step_id :: string
  prerequisite_step_id :: string
  dependency_created_by_id :: "string option"
  removed_at :: "int option"
  removed_by_id :: "string option"

end
