(* ===== verification/StepReadiness.thy ===== *)
theory StepReadiness
  imports StepStore
begin

text \<open>
  The dependency graph of the steps and the counters that drive readiness:
  \<open>domain/task_steps/readiness.py\<close> and, under \<open>services/commands/task_steps/\<close>,
  \<open>_cascade_completion.py\<close>, \<open>_wire_new_step_dependencies.py\<close>, \<open>add_step_dependency.py\<close>,
  \<open>remove_step_dependency.py\<close> and the counting part of \<open>remove_task_step.py\<close>.

  A step carries two counters, the prerequisites it has and those of them that are completed. They are
  maintained incrementally by five operations. The lemmas compare them with what the edge table says.
\<close>

section \<open>The operations\<close>

definition recalculate_readiness :: "task_step \<Rightarrow> task_step" where
  "recalculate_readiness step = step\<lparr>readiness_status :=
     (if total_dependencies step = 0 then ReadinessREADY
      else if completed_dependencies step = total_dependencies step then ReadinessREADY
      else if completed_dependencies step = 0 then ReadinessBLOCKED
      else ReadinessPARTIAL)\<rparr>"

definition active :: "dependency \<Rightarrow> bool" where
  "active e \<longleftrightarrow> removed_at e = None"

abbreviation put_step :: "task_step \<Rightarrow> task_step list \<Rightarrow> task_step list" where
  "put_step \<equiv> put_row step_id"

abbreviation put_edge :: "dependency \<Rightarrow> dependency list \<Rightarrow> dependency list" where
  "put_edge \<equiv> put_row dependency_id"

definition live_step :: "task_step list \<Rightarrow> string \<Rightarrow> task_step list" where
  \<comment> \<open>the query by \<open>client_id\<close> with \<open>is_deleted.is_(False)\<close>\<close>
  "live_step steps i = filter (\<lambda>s. step_id s = i \<and> \<not> step_is_deleted s) steps"

subsection \<open>Cascading a completion\<close>

definition cascade_edge ::
    "task_step list \<times> (task_step \<times> task_step_readiness) list \<Rightarrow> dependency
      \<Rightarrow> (task_step list \<times> (task_step \<times> task_step_readiness) list) result" where
  "cascade_edge acc edge =
     (let (steps, changes) = acc in
      rbind (scalar_one_or_none (live_step steps (dependent_step_id edge))) (\<lambda>found.
      case found of
        None \<Rightarrow> Inr (steps, changes)
      | Some dep_step \<Rightarrow>
          let old_readiness = readiness_status dep_step;
              dep_step = recalculate_readiness
                (dep_step\<lparr>completed_dependencies := completed_dependencies dep_step + 1\<rparr>) in
          Inr (put_step dep_step steps,
               if readiness_status dep_step \<noteq> old_readiness then changes @ [(dep_step, old_readiness)]
               else changes)))"

definition cascade_step_completion ::
    "task_step list \<Rightarrow> dependency list \<Rightarrow> string
      \<Rightarrow> (task_step list \<times> (task_step \<times> task_step_readiness) list) result" where
  "cascade_step_completion steps edges completed_step_id =
     rfold cascade_edge (steps, [])
       (filter (\<lambda>e. prerequisite_step_id e = completed_step_id \<and> active e) edges)"

subsection \<open>Wiring new steps into the graph\<close>

definition by_section :: "task_step list \<Rightarrow> string \<Rightarrow> task_step list" where
  "by_section steps section_id = filter (\<lambda>s. working_section_id s = section_id) steps"

type_synonym section_prereqs = "(string \<times> string list) list"

definition prereqs_of :: "section_prereqs \<Rightarrow> string \<Rightarrow> string list" where
  "prereqs_of section_prereqs section_id = (case map_of section_prereqs section_id of None \<Rightarrow> [] | Some ps \<Rightarrow> ps)"

definition link_new :: "task_step \<Rightarrow> task_step \<Rightarrow> task_step" where
  "link_new step prereq_step = step\<lparr>total_dependencies := total_dependencies step + 1,
     completed_dependencies := completed_dependencies step
       + (if step_state prereq_step = StepCOMPLETED then 1 else 0)\<rparr>"

definition wire_new_step ::
    "section_prereqs \<Rightarrow> task_step list \<Rightarrow> task_step list \<Rightarrow> task_step
      \<Rightarrow> task_step \<times> (string \<times> string) list" where
  "wire_new_step section_prereqs new_steps existing_steps step =
     (let prereq_steps = concat (map (\<lambda>section_id. by_section existing_steps section_id @ by_section new_steps section_id)
            (prereqs_of section_prereqs (working_section_id step))) in
      (recalculate_readiness (foldl link_new step prereq_steps),
       map (\<lambda>p. (step_id step, step_id p)) prereq_steps))"

definition link_existing :: "task_step \<Rightarrow> task_step \<Rightarrow> task_step" where
  "link_existing step new_prereq_step = step\<lparr>total_dependencies := total_dependencies step + 1\<rparr>"

definition wire_existing_step ::
    "section_prereqs \<Rightarrow> task_step list \<Rightarrow> task_step \<Rightarrow> task_step \<times> (string \<times> string) list \<times> bool" where
  "wire_existing_step section_prereqs new_steps step =
     (if step_state step \<in> TERMINAL_STEP_STATES \<or> working_section_id step \<notin> fst ` set section_prereqs
      then (step, [], False)
      else let new_prereq_steps = concat (map (by_section new_steps)
                 (prereqs_of section_prereqs (working_section_id step)));
               step' = recalculate_readiness (foldl link_existing step new_prereq_steps) in
        (step', map (\<lambda>p. (step_id step, step_id p)) new_prereq_steps,
         readiness_status step' \<noteq> readiness_status step))"

text \<open>The wired new steps, the wired existing steps, the edges and the existing steps whose readiness changed.\<close>

definition compute_dependency_edges ::
    "task_step list \<Rightarrow> task_step list \<Rightarrow> section_prereqs
      \<Rightarrow> task_step list \<times> task_step list \<times> (string \<times> string) list \<times> task_step list" where
  "compute_dependency_edges new_steps existing_steps section_prereqs =
     (let new_wired = map (wire_new_step section_prereqs new_steps existing_steps) new_steps;
          existing_wired = map (wire_existing_step section_prereqs new_steps) existing_steps in
      (map fst new_wired, map fst existing_wired,
       concat (map snd new_wired) @ concat (map (\<lambda>(_, edges, _). edges) existing_wired),
       map fst (filter (\<lambda>(_, _, changed). changed) existing_wired)))"

definition section_prereqs_of :: "(string \<times> string) list \<Rightarrow> section_prereqs" where
  \<comment> \<open>the rows are (dependent section, prerequisite section)\<close>
  "section_prereqs_of dep_rows =
     map (\<lambda>section_id. (section_id, dedupe (map snd (filter (\<lambda>r. fst r = section_id) dep_rows))))
       (dedupe (map fst dep_rows))"

definition new_edges :: "nat \<Rightarrow> string \<Rightarrow> (string \<times> string) list \<Rightarrow> dependency list" where
  "new_edges next_id user_id pairs =
     map (\<lambda>(i, (d, p)). \<lparr>dependency_id = next_id + i, dependent_step_id = d, prerequisite_step_id = p,
            dependency_created_by_id = Some user_id, removed_at = None, removed_by_id = None\<rparr>)
       (enumerate 0 pairs)"

definition wire_batch_steps ::
    "(string \<times> string) list \<Rightarrow> string list \<Rightarrow> string \<Rightarrow> string \<Rightarrow> nat \<Rightarrow> task_step list \<Rightarrow> dependency list
      \<Rightarrow> task_step list \<times> dependency list \<times> task_step list" where
  "wire_batch_steps section_dependencies new_step_ids tid user_id next_id steps edges =
     (let new_steps = filter (\<lambda>s. step_id s \<in> set new_step_ids) steps;
          section_ids = map working_section_id new_steps;
          dep_rows = filter (\<lambda>(d, p). d \<in> set section_ids \<or> p \<in> set section_ids) section_dependencies in
      if new_steps = [] \<or> dep_rows = [] then (steps, edges, [])
      else
        let section_prereqs = section_prereqs_of dep_rows;
            relevant_sections = map fst dep_rows @ map snd dep_rows;
            existing_steps = filter (\<lambda>s. step_task_id s = tid
              \<and> working_section_id s \<in> set relevant_sections
              \<and> step_id s \<notin> set new_step_ids \<and> \<not> step_is_deleted s) steps;
            (new_steps', existing_steps', pairs, changed) =
              compute_dependency_edges new_steps existing_steps section_prereqs in
        (fold put_step (new_steps' @ existing_steps') steps, edges @ new_edges next_id user_id pairs, changed))"

subsection \<open>Adding and removing one edge\<close>

definition add_step_dependency ::
    "nat \<Rightarrow> string \<Rightarrow> task_step list \<Rightarrow> dependency list \<Rightarrow> string \<Rightarrow> string \<Rightarrow> string
      \<Rightarrow> (task_step list \<times> dependency list \<times> bool) result" where
  "add_step_dependency next_id user_id steps edges tid i prerequisite_id =
     rbind (rguard (i \<noteq> prerequisite_id) (ValidationError ''A step cannot depend on itself.'')) (\<lambda>_.
     rbind (scalar_or_raise (NotFound ''Dependent step not found.'')
       (filter (\<lambda>s. step_task_id s = tid) (live_step steps i))) (\<lambda>dependent_step.
     rbind (scalar_or_raise (NotFound ''Prerequisite step not found.'')
       (filter (\<lambda>s. step_task_id s = tid) (live_step steps prerequisite_id))) (\<lambda>prerequisite_step.
     rbind (scalar_one_or_none (filter (\<lambda>e. dependent_step_id e = i
       \<and> prerequisite_step_id e = prerequisite_id \<and> active e) edges)) (\<lambda>existing.
     rbind (rguard (existing = None) (ConflictError ''Dependency edge already exists.'')) (\<lambda>_.
     let dependent_step' = recalculate_readiness
           (dependent_step\<lparr>total_dependencies := total_dependencies dependent_step + 1\<rparr>) in
     Inr (put_step dependent_step' steps,
          edges @ new_edges next_id user_id [(i, prerequisite_id)],
          readiness_status dependent_step' \<noteq> readiness_status dependent_step))))))"

definition remove_step_dependency ::
    "string \<Rightarrow> int \<Rightarrow> task_step list \<Rightarrow> dependency list \<Rightarrow> nat
      \<Rightarrow> (task_step list \<times> dependency list \<times> bool) result" where
  "remove_step_dependency user_id now steps edges i =
     rbind (scalar_or_raise (NotFound ''Dependency edge not found or already removed.'')
       (filter (\<lambda>e. dependency_id e = i \<and> active e) edges)) (\<lambda>edge.
     rbind (scalar_one_or_none (live_step steps (dependent_step_id edge))) (\<lambda>found.
     let edges' = put_edge (edge\<lparr>removed_at := Some now, removed_by_id := Some user_id\<rparr>) edges in
     case found of
       None \<Rightarrow> Inr (steps, edges', False)
     | Some step \<Rightarrow>
         let total = (if total_dependencies step > 0 then total_dependencies step - 1 else total_dependencies step);
             completed = (if completed_dependencies step > total then total else completed_dependencies step);
             step' = recalculate_readiness (step\<lparr>total_dependencies := total, completed_dependencies := completed\<rparr>) in
         Inr (put_step step' steps, edges', readiness_status step' \<noteq> readiness_status step)))"

subsection \<open>Removing steps\<close>

fun dedupe_step_ids_from :: "string list \<Rightarrow> string list \<Rightarrow> string list result" where
  "dedupe_step_ids_from unique [] = Inr unique"
| "dedupe_step_ids_from unique (i # is) =
     (if i \<in> set unique then Inl (ConflictError ''Duplicate step_id provided in step batch.'')
      else dedupe_step_ids_from (unique @ [i]) is)"

definition dedupe_step_ids :: "string list \<Rightarrow> string list result" where
  "dedupe_step_ids step_ids = dedupe_step_ids_from [] step_ids"

definition count_removed_edge ::
    "string list \<Rightarrow> string list \<Rightarrow> (string \<times> int \<times> int) list \<Rightarrow> dependency \<Rightarrow> (string \<times> int \<times> int) list" where
  "count_removed_edge removed_step_ids completed_removed_step_ids counts edge =
     (if prerequisite_step_id edge \<notin> set removed_step_ids then counts
      else if dependent_step_id edge \<in> set removed_step_ids then counts
      else let (removed_total, removed_completed) =
                 (case map_of counts (dependent_step_id edge) of None \<Rightarrow> (0, 0) | Some c \<Rightarrow> c) in
        AList.update (dependent_step_id edge)
          (removed_total + 1,
           if prerequisite_step_id edge \<in> set completed_removed_step_ids then removed_completed + 1 else removed_completed)
          counts)"

definition count_removed_prerequisite_edges ::
    "dependency list \<Rightarrow> string list \<Rightarrow> string list \<Rightarrow> (string \<times> int \<times> int) list" where
  "count_removed_prerequisite_edges edges removed_step_ids completed_removed_step_ids =
     foldl (count_removed_edge removed_step_ids completed_removed_step_ids) [] edges"

definition apply_removed_dependency_counts :: "task_step \<Rightarrow> int \<Rightarrow> int \<Rightarrow> task_step" where
  "apply_removed_dependency_counts step removed_total removed_completed =
     (let total = max (total_dependencies step - removed_total) 0;
          completed = max (completed_dependencies step - removed_completed) 0;
          completed = (if completed > total then total else completed) in
      recalculate_readiness (step\<lparr>total_dependencies := total, completed_dependencies := completed\<rparr>))"


section \<open>What the counters should say\<close>

definition prereq_edges :: "dependency list \<Rightarrow> string \<Rightarrow> dependency list" where
  "prereq_edges edges i = filter (\<lambda>e. active e \<and> dependent_step_id e = i) edges"

definition step_done :: "task_step list \<Rightarrow> string \<Rightarrow> bool" where
  "step_done steps i \<longleftrightarrow> (\<exists>s \<in> set steps. step_id s = i \<and> step_state s = StepCOMPLETED)"

definition done_edges :: "task_step list \<Rightarrow> dependency list \<Rightarrow> string \<Rightarrow> dependency list" where
  "done_edges steps edges i = filter (\<lambda>e. step_done steps (prerequisite_step_id e)) (prereq_edges edges i)"

definition exact :: "task_step list \<Rightarrow> dependency list \<Rightarrow> task_step \<Rightarrow> bool" where
  "exact steps edges s \<longleftrightarrow> total_dependencies s = int (length (prereq_edges edges (step_id s)))
     \<and> completed_dependencies s = int (length (done_edges steps edges (step_id s)))
     \<and> recalculate_readiness s = s"

definition counters_exact :: "task_step list \<Rightarrow> dependency list \<Rightarrow> bool" where
  "counters_exact steps edges \<longleftrightarrow> (\<forall>s \<in> set steps. \<not> step_is_deleted s \<longrightarrow> exact steps edges s)"

lemma recalculate_readiness_keeps [simp]:
  "step_id (recalculate_readiness s) = step_id s"
  "step_state (recalculate_readiness s) = step_state s"
  "step_is_deleted (recalculate_readiness s) = step_is_deleted s"
  "total_dependencies (recalculate_readiness s) = total_dependencies s"
  "completed_dependencies (recalculate_readiness s) = completed_dependencies s"
  "working_section_id (recalculate_readiness s) = working_section_id s"
  by (simp_all add: recalculate_readiness_def)

lemma recalculate_readiness_idem [simp]:
  "recalculate_readiness (recalculate_readiness s) = recalculate_readiness s"
  by (simp add: recalculate_readiness_def)

lemma recalculate_readiness_upd [simp]:
  "recalculate_readiness ((recalculate_readiness s)\<lparr>completed_dependencies := n\<rparr>)
     = recalculate_readiness (s\<lparr>completed_dependencies := n\<rparr>)"
  by (simp add: recalculate_readiness_def)

lemma length_filter_full: "length (filter P xs) = length xs \<longleftrightarrow> (\<forall>x \<in> set xs. P x)"
  by (metis filter_id_conv length_filter_less less_irrefl)

text \<open>What readiness means when the counters are exact: ready exactly when every prerequisite is completed.\<close>

lemma exact_ready:
  assumes "exact steps edges s"
  shows "readiness_status s = ReadinessREADY \<longleftrightarrow>
    (\<forall>e \<in> set (prereq_edges edges (step_id s)). step_done steps (prerequisite_step_id e))"
proof -
  have "readiness_status s = readiness_status (recalculate_readiness s)"
    using assms by (simp add: exact_def)
  then show ?thesis
    using assms length_filter_full [of "\<lambda>e. step_done steps (prerequisite_step_id e)" "prereq_edges edges (step_id s)"]
    by (auto simp: exact_def done_edges_def recalculate_readiness_def split: if_splits)
qed

lemma exact_blocked:
  assumes "exact steps edges s"
  shows "readiness_status s = ReadinessBLOCKED \<longleftrightarrow> prereq_edges edges (step_id s) \<noteq> []
    \<and> (\<forall>e \<in> set (prereq_edges edges (step_id s)). \<not> step_done steps (prerequisite_step_id e))"
proof -
  have "readiness_status s = readiness_status (recalculate_readiness s)"
    using assms by (simp add: exact_def)
  then show ?thesis
    using assms by (auto simp: exact_def done_edges_def recalculate_readiness_def filter_empty_conv split: if_splits)
qed

section \<open>The cascade\<close>

definition edges_onto :: "dependency list \<Rightarrow> string \<Rightarrow> string \<Rightarrow> nat" where
  "edges_onto edges d p = length (filter (\<lambda>e. active e \<and> prerequisite_step_id e = p \<and> dependent_step_id e = d) edges)"

definition bump :: "nat \<Rightarrow> task_step \<Rightarrow> task_step" where
  "bump n s = (if n = 0 \<or> step_is_deleted s then s
     else recalculate_readiness (s\<lparr>completed_dependencies := completed_dependencies s + int n\<rparr>))"

lemma bump_keeps [simp]: "step_id (bump n s) = step_id s" "step_state (bump n s) = step_state s"
  "step_is_deleted (bump n s) = step_is_deleted s" "total_dependencies (bump n s) = total_dependencies s"
  by (simp_all add: bump_def)

lemma bump_bump: "bump m (bump n s) = bump (m + n) s"
  by (simp add: bump_def algebra_simps)

lemma bump_0 [simp]: "bump 0 s = s"
  by (simp add: bump_def)

lemma live_step_unique:
  assumes "distinct (map step_id steps)" "s \<in> set steps"
  shows "live_step steps (step_id s) = (if step_is_deleted s then [] else [s])"
proof (cases "step_is_deleted s")
  case True
  then have "\<forall>r \<in> set steps. \<not> (step_id r = step_id s \<and> \<not> step_is_deleted r)"
    using assms by (metis distinct_map inj_onD)
  then show ?thesis using True by (simp add: live_step_def filter_empty_conv)
next
  case False
  then show ?thesis using filter_key_unique [OF assms, of "\<lambda>s. \<not> step_is_deleted s"]
    by (simp add: live_step_def)
qed

lemma live_step_absent: "i \<notin> step_id ` set steps \<Longrightarrow> live_step steps i = []"
  by (auto simp: live_step_def filter_empty_conv)

lemma cascade_edge_bumps:
  assumes "distinct (map step_id steps)"
  shows "\<exists>changes'. cascade_edge (steps, changes) e = Inr
    (map (\<lambda>s. bump (if step_id s = dependent_step_id e then 1 else 0) s) steps, changes')"
proof (cases "\<exists>s \<in> set steps. step_id s = dependent_step_id e \<and> \<not> step_is_deleted s")
  case True
  then obtain s where s: "s \<in> set steps" "step_id s = dependent_step_id e" "\<not> step_is_deleted s" by blast
  have unique: "r = s" if "r \<in> set steps" "step_id r = dependent_step_id e" for r
    using assms s that by (metis distinct_map inj_onD)
  have "live_step steps (dependent_step_id e) = [s]"
    using live_step_unique [OF assms s(1)] s by simp
  moreover have "put_step (bump 1 s) steps = map (\<lambda>r. bump (if step_id r = dependent_step_id e then 1 else 0) r) steps"
    using unique s(2) by (auto simp: put_row_def)
  ultimately show ?thesis using s(3) by (simp add: cascade_edge_def bump_def Let_def)
next
  case False
  then have "live_step steps (dependent_step_id e) = []" by (auto simp: live_step_def filter_empty_conv)
  moreover have "map (\<lambda>r. bump (if step_id r = dependent_step_id e then 1 else 0) r) steps = steps"
    using False by (intro map_idI) (auto simp: bump_def)
  ultimately show ?thesis by (simp add: cascade_edge_def)
qed

lemma cascade_loop_bumps:
  assumes "distinct (map step_id steps)"
  shows "\<exists>changes'. rfold cascade_edge (steps, changes) es = Inr
    (map (\<lambda>s. bump (length (filter (\<lambda>e. dependent_step_id e = step_id s) es)) s) steps, changes')"
  using assms
proof (induction es arbitrary: steps changes)
  case (Cons e es)
  obtain changes1 where one: "cascade_edge (steps, changes) e = Inr
      (map (\<lambda>s. bump (if step_id s = dependent_step_id e then 1 else 0) s) steps, changes1)"
    using cascade_edge_bumps [OF Cons.prems] by blast
  let ?steps1 = "map (\<lambda>s. bump (if step_id s = dependent_step_id e then 1 else 0) s) steps"
  have "distinct (map step_id ?steps1)" using Cons.prems by (simp add: comp_def)
  from Cons.IH [OF this, of changes1] one show ?case
    by (auto simp: comp_def bump_bump eq_commute [of "dependent_step_id e"] cong: if_cong)
qed simp

text \<open>The cascade adds to every live step the number of its active edges onto the completed step.\<close>

lemma cascade_bumps:
  assumes "distinct (map step_id steps)"
  shows "\<exists>changes. cascade_step_completion steps edges c =
    Inr (map (\<lambda>s. bump (edges_onto edges (step_id s) c) s) steps, changes)"
  using cascade_loop_bumps [OF assms, of "[]" "filter (\<lambda>e. prerequisite_step_id e = c \<and> active e) edges"]
  by (simp add: cascade_step_completion_def edges_onto_def filter_filter conj_ac)

lemma recalculate_fixed: "recalculate_readiness s = s \<longleftrightarrow> readiness_status s =
   (if total_dependencies s = 0 then ReadinessREADY
    else if completed_dependencies s = total_dependencies s then ReadinessREADY
    else if completed_dependencies s = 0 then ReadinessBLOCKED
    else ReadinessPARTIAL)"
  by (cases s) (simp add: recalculate_readiness_def eq_commute)

lemma length_filter_or:
  "(\<forall>x \<in> set xs. \<not> (P x \<and> Q x)) \<Longrightarrow>
     length (filter (\<lambda>x. P x \<or> Q x) xs) = length (filter P xs) + length (filter Q xs)"
  by (induction xs) auto

lemma step_done_put:
  assumes "distinct (map step_id steps)" "c \<in> set steps" "step_id c' = step_id c" "step_state c' = StepCOMPLETED"
  shows "step_done (put_step c' steps) i \<longleftrightarrow> step_done steps i \<or> i = step_id c"
proof -
  have "set (put_step c' steps) = insert c' {r \<in> set steps. step_id r \<noteq> step_id c}"
    using assms by (auto simp: set_put_row)
  then show ?thesis using assms by (auto simp: step_done_def)
qed

lemma step_done_bump [simp]: "step_done (map (\<lambda>s. bump (f s) s) steps) i \<longleftrightarrow> step_done steps i"
  by (simp add: step_done_def)

lemma exact_bump:
  assumes "exact steps edges s" "\<not> step_is_deleted s"
    and "\<And>i. step_done steps' i \<longleftrightarrow> step_done steps i \<or> i = c" "\<not> step_done steps c"
  shows "exact steps' edges (bump (edges_onto edges (step_id s) c) s)"
proof -
  let ?P = "\<lambda>e. active e \<and> dependent_step_id e = step_id s \<and> step_done steps (prerequisite_step_id e)"
  let ?Q = "\<lambda>e. active e \<and> dependent_step_id e = step_id s \<and> prerequisite_step_id e = c"
  have "done_edges steps' edges (step_id s) = filter (\<lambda>e. ?P e \<or> ?Q e) edges"
    using assms(3) by (auto simp: done_edges_def prereq_edges_def filter_filter intro!: filter_cong)
  then have "length (done_edges steps' edges (step_id s)) = length (filter ?P edges) + length (filter ?Q edges)"
    using length_filter_or [of edges ?P ?Q] assms(4) by auto
  moreover have "filter ?P edges = done_edges steps edges (step_id s)"
    by (auto simp: done_edges_def prereq_edges_def filter_filter intro!: filter_cong)
  moreover have "length (filter ?Q edges) = edges_onto edges (step_id s) c"
    unfolding edges_onto_def by (rule arg_cong [of _ _ length], rule filter_cong) auto
  ultimately show ?thesis using assms(1,2) by (auto simp: exact_def bump_def)
qed

lemma cascade_exact:
  assumes "distinct (map step_id steps)" "counters_exact steps edges" "c \<in> set steps"
    and "step_state c \<noteq> StepCOMPLETED" "step_id c' = step_id c" "step_state c' = StepCOMPLETED"
    and "step_is_deleted c' = step_is_deleted c" "total_dependencies c' = total_dependencies c"
    and "completed_dependencies c' = completed_dependencies c" "readiness_status c' = readiness_status c"
  shows "\<exists>steps' changes. cascade_step_completion (put_step c' steps) edges (step_id c) = Inr (steps', changes)
    \<and> counters_exact steps' edges \<and> map step_id steps' = map step_id steps
    \<and> steps' = map (\<lambda>s. bump (edges_onto edges (step_id s) (step_id c)) s) (put_step c' steps)"
proof -
  let ?steps1 = "put_step c' steps" and ?f = "\<lambda>s. bump (edges_onto edges (step_id s) (step_id c)) s"
  have distinct1: "distinct (map step_id ?steps1)" using assms(1) by simp
  obtain changes where run: "cascade_step_completion ?steps1 edges (step_id c) = Inr (map ?f ?steps1, changes)"
    using cascade_bumps [OF distinct1, of edges "step_id c"] by blast
  have not_done: "\<not> step_done steps (step_id c)"
    using assms(1,3,4) by (auto simp: step_done_def) (metis distinct_map inj_onD)
  have done1: "step_done (map ?f ?steps1) i \<longleftrightarrow> step_done steps i \<or> i = step_id c" for i
    using step_done_put [OF assms(1,3,5,6)] by simp
  have exact1: "exact steps edges s" if "s \<in> set ?steps1" "\<not> step_is_deleted s" for s
  proof (cases "s = c'")
    case True
    have "exact steps edges c" using assms(2,3,7) that True by (simp add: counters_exact_def)
    moreover have "recalculate_readiness c' = c' \<longleftrightarrow> recalculate_readiness c = c"
      using assms(8-10) by (simp add: recalculate_fixed)
    ultimately show ?thesis using True assms(5,8,9) by (simp add: exact_def)
  next
    case False
    then show ?thesis using that assms(2) by (auto simp: counters_exact_def dest: put_row_mem)
  qed
  have "exact (map ?f ?steps1) edges (?f s)" if "s \<in> set ?steps1" "\<not> step_is_deleted s" for s
    by (rule exact_bump [OF exact1 [OF that] that(2) done1 not_done])
  then have "counters_exact (map ?f ?steps1) edges" by (auto simp: counters_exact_def)
  then show ?thesis using run by (auto simp: comp_def)
qed

section \<open>Wiring\<close>

lemma foldl_link_new: "foldl link_new s ps = s\<lparr>total_dependencies := total_dependencies s + int (length ps),
    completed_dependencies := completed_dependencies s
      + int (length (filter (\<lambda>p. step_state p = StepCOMPLETED) ps))\<rparr>"
  by (induction ps arbitrary: s) (simp_all add: link_new_def)

lemma foldl_link_existing: "foldl link_existing s ps = s\<lparr>total_dependencies := total_dependencies s + int (length ps)\<rparr>"
  by (induction ps arbitrary: s) (simp_all add: link_existing_def)

lemma fold_put_row_mem:
  assumes "x \<in> set (fold (put_row key) rows xs)" "distinct (map key rows)"
  shows "x \<in> set rows \<or> x \<in> set xs \<and> key x \<notin> key ` set rows"
  using assms
proof (induction rows arbitrary: xs)
  case (Cons r rows)
  then have "x \<in> set rows \<or> x \<in> set (put_row key r xs) \<and> key x \<notin> key ` set rows" by simp
  then show ?case by (auto dest: put_row_mem)
qed simp

lemma keys_fold_put_row [simp]: "map key (fold (put_row key) rows xs) = map key xs"
  by (induction rows arbitrary: xs) simp_all

lemma filter_concat_own:
  assumes "distinct (map key xs)" "\<And>x q. x \<in> set xs \<Longrightarrow> q \<in> set (f x) \<Longrightarrow> fst q = key x"
  shows "filter (\<lambda>q. fst q = i) (concat (map f xs)) = concat (map f (filter (\<lambda>x. key x = i) xs))"
  using assms(2)
proof (induction xs)
  case (Cons x xs)
  have "\<forall>q \<in> set (f x). fst q = key x" using Cons.prems by simp
  then have "filter (\<lambda>q. fst q = i) (f x) = (if key x = i then f x else [])"
    by (cases "key x = i") (auto simp: filter_empty_conv filter_id_conv)
  then show ?case using Cons by simp
qed simp

lemma active_new_edges: "e \<in> set (new_edges n user pairs) \<Longrightarrow> active e"
  by (auto simp: new_edges_def active_def)

lemma new_edges_ends:
  "map (\<lambda>e. (dependent_step_id e, prerequisite_step_id e)) (new_edges n user pairs) = pairs"
proof -
  have "map (\<lambda>e. (dependent_step_id e, prerequisite_step_id e)) (new_edges n user pairs) = map snd (enumerate 0 pairs)"
    unfolding new_edges_def map_map by (rule map_cong) (auto split: prod.splits)
  then show ?thesis by simp
qed

lemma length_filter_new_edges:
  "length (filter (\<lambda>e. P (dependent_step_id e) (prerequisite_step_id e)) (new_edges n user pairs))
     = length (filter (\<lambda>q. P (fst q) (snd q)) pairs)"
proof -
  have "length (filter (\<lambda>q. P (fst q) (snd q)) pairs)
      = length (filter (\<lambda>q. P (fst q) (snd q)) (map (\<lambda>e. (dependent_step_id e, prerequisite_step_id e)) (new_edges n user pairs)))"
    by (simp only: new_edges_ends)
  also have "\<dots> = length (filter (\<lambda>e. P (dependent_step_id e) (prerequisite_step_id e)) (new_edges n user pairs))"
    by (simp add: filter_map comp_def)
  finally show ?thesis by simp
qed

lemma prereq_edges_new:
  "length (prereq_edges (edges @ new_edges n user pairs) i)
     = length (prereq_edges edges i) + length (filter (\<lambda>q. fst q = i) pairs)"
proof -
  have "filter (\<lambda>e. active e \<and> dependent_step_id e = i) (new_edges n user pairs)
      = filter (\<lambda>e. dependent_step_id e = i) (new_edges n user pairs)"
    using active_new_edges by (auto intro: filter_cong)
  then show ?thesis using length_filter_new_edges [of "\<lambda>d p. d = i" n user pairs]
    by (simp add: prereq_edges_def case_prod_beta)
qed

lemma done_edges_new:
  assumes "\<And>i. step_done steps' i \<longleftrightarrow> step_done steps i"
  shows "length (done_edges steps' (edges @ new_edges n user pairs) i)
     = length (done_edges steps edges i) + length (filter (\<lambda>q. step_done steps (snd q)) (filter (\<lambda>q. fst q = i) pairs))"
proof -
  have "filter (\<lambda>e. active e \<and> dependent_step_id e = i \<and> step_done steps (prerequisite_step_id e)) (new_edges n user pairs)
      = filter (\<lambda>e. dependent_step_id e = i \<and> step_done steps (prerequisite_step_id e)) (new_edges n user pairs)"
    using active_new_edges by (auto intro: filter_cong)
  then show ?thesis
    using length_filter_new_edges [of "\<lambda>d p. d = i \<and> step_done steps p" n user pairs] assms
    by (simp add: done_edges_def prereq_edges_def filter_filter case_prod_beta conj_ac)
qed

text \<open>
  The exactness of a table after some of its rows were replaced and edges were added, from what happened
  to each row: the pairs it contributed, and its counters grown by their numbers.
\<close>

definition grown :: "task_step list \<Rightarrow> task_step \<Rightarrow> (string \<times> string) list \<Rightarrow> task_step \<Rightarrow> bool" where
  "grown steps s pairs s' \<longleftrightarrow> step_id s' = step_id s \<and> step_state s' = step_state s
     \<and> step_is_deleted s' = step_is_deleted s
     \<and> total_dependencies s' = total_dependencies s + int (length pairs)
     \<and> completed_dependencies s' = completed_dependencies s + int (length (filter (\<lambda>q. step_done steps (snd q)) pairs))
     \<and> (recalculate_readiness s = s \<longrightarrow> recalculate_readiness s' = s')
     \<and> (\<forall>q \<in> set pairs. fst q = step_id s)"

lemma grown_counters_exact:
  assumes distinct: "distinct (map step_id steps)" and exact: "counters_exact steps edges"
    and touched: "distinct (map step_id touched)" "set touched \<subseteq> set steps"
    and grown: "\<And>s. s \<in> set touched \<Longrightarrow> grown steps s (pairs s) (upd s)"
  shows "counters_exact (fold put_step (map upd touched) steps)
    (edges @ new_edges n user (concat (map pairs touched)))"
proof -
  let ?steps' = "fold put_step (map upd touched) steps"
  let ?pairs = "concat (map pairs touched)"
  have same_id: "step_id (upd s) = step_id s" "step_state (upd s) = step_state s" if "s \<in> set touched" for s
    using grown [OF that] by (simp_all add: grown_def)
  have ids: "map step_id (map upd touched) = map step_id touched" using same_id by simp
  have mem: "x \<in> set ?steps' \<Longrightarrow> (\<exists>s \<in> set touched. x = upd s) \<or> x \<in> set steps \<and> step_id x \<notin> step_id ` set touched" for x
    using fold_put_row_mem [of x step_id "map upd touched" steps, unfolded ids, OF _ touched(1)]
    by (auto simp: image_image same_id)
  have done_back: "step_done steps i" if h: "step_done ?steps' i" for i
  proof -
    obtain x where x: "x \<in> set ?steps'" "step_id x = i" "step_state x = StepCOMPLETED"
      using h by (auto simp: step_done_def)
    then show ?thesis using mem [OF x(1)] same_id touched(2) by (auto simp: step_done_def)
  qed
  have done_forth: "step_done ?steps' i" if h: "step_done steps i" for i
  proof -
    obtain s where s: "s \<in> set steps" "step_id s = i" "step_state s = StepCOMPLETED"
      using h by (auto simp: step_done_def)
    have "i \<in> set (map step_id ?steps')" unfolding keys_fold_put_row using s by force
    then obtain x where x: "x \<in> set ?steps'" "step_id x = i" unfolding set_map by blast
    have "step_state x = StepCOMPLETED"
    proof (cases "\<exists>t \<in> set touched. x = upd t")
      case True
      then obtain t where t: "t \<in> set touched" "x = upd t" by blast
      then have "t = s" using same_id [OF t(1)] x(2) s touched(2) distinct by (metis distinct_map inj_onD subsetD)
      then show ?thesis using same_id [OF t(1)] t(2) s(3) by simp
    next
      case False
      then have "x \<in> set steps" using mem [OF x(1)] by blast
      then show ?thesis using x(2) s distinct by (metis distinct_map inj_onD)
    qed
    then show ?thesis using x by (auto simp: step_done_def)
  qed
  have same_done: "step_done ?steps' i \<longleftrightarrow> step_done steps i" for i
    using done_back done_forth by blast
  have own: "filter (\<lambda>q. fst q = i) ?pairs = concat (map pairs (filter (\<lambda>s. step_id s = i) touched))" for i
    by (rule filter_concat_own [OF touched(1)]) (use grown in \<open>auto simp: grown_def\<close>)
  have "exact ?steps' (edges @ new_edges n user ?pairs) x" if x: "x \<in> set ?steps'" "\<not> step_is_deleted x" for x
    using mem [OF x(1)]
  proof
    assume "\<exists>s \<in> set touched. x = upd s"
    then obtain s where s: "s \<in> set touched" "x = upd s" by blast
    have "filter (\<lambda>t. step_id t = step_id s) touched = [s]"
      using filter_key_unique [OF touched(1) s(1), of "\<lambda>_. True"] by simp
    then have mine: "filter (\<lambda>q. fst q = step_id s) ?pairs = pairs s" using own by simp
    have "exact steps edges s"
      using exact s x touched(2) grown [OF s(1)] by (auto simp: counters_exact_def grown_def)
    then show ?thesis
      using grown [OF s(1)] mine
      by (simp add: s(2) exact_def grown_def prereq_edges_new done_edges_new [OF same_done])
  next
    assume h: "x \<in> set steps \<and> step_id x \<notin> step_id ` set touched"
    then have "filter (\<lambda>t. step_id t = step_id x) touched = []"
      by (auto simp: filter_empty_conv) (metis image_eqI)
    then have "filter (\<lambda>q. fst q = step_id x) ?pairs = []" using own by simp
    then show ?thesis
      using h x(2) exact by (simp add: counters_exact_def exact_def prereq_edges_new done_edges_new [OF same_done])
  qed
  then show ?thesis by (simp add: counters_exact_def)
qed

lemma in_step_done:
  assumes "distinct (map step_id steps)" "p \<in> set steps"
  shows "step_done steps (step_id p) \<longleftrightarrow> step_state p = StepCOMPLETED"
  using assms by (auto simp: step_done_def) (metis distinct_map inj_onD)

lemma wire_new_step_grown:
  assumes "distinct (map step_id steps)" "set new_steps \<subseteq> set steps" "set existing_steps \<subseteq> set steps"
  shows "grown steps s (snd (wire_new_step sp new_steps existing_steps s)) (fst (wire_new_step sp new_steps existing_steps s))"
proof -
  let ?ps = "concat (map (\<lambda>i. by_section existing_steps i @ by_section new_steps i) (prereqs_of sp (working_section_id s)))"
  have "\<forall>p \<in> set ?ps. step_done steps (step_id p) \<longleftrightarrow> step_state p = StepCOMPLETED"
    using assms in_step_done [OF assms(1)] by (auto simp: by_section_def)
  then have "filter (\<lambda>p. step_state p = StepCOMPLETED) ?ps = filter (\<lambda>p. step_done steps (step_id p)) ?ps"
    by (intro filter_cong refl) (simp only:)
  then show ?thesis
    by (simp add: wire_new_step_def Let_def foldl_link_new grown_def filter_map comp_def del: set_concat)
qed

lemma wire_existing_step_grown:
  assumes "distinct (map step_id steps)" "set new_steps \<subseteq> set steps"
    and "\<forall>p \<in> set new_steps. step_state p \<noteq> StepCOMPLETED"
  shows "grown steps s (fst (snd (wire_existing_step sp new_steps s))) (fst (wire_existing_step sp new_steps s))"
proof -
  let ?ps = "concat (map (by_section new_steps) (prereqs_of sp (working_section_id s)))"
  have "\<forall>p \<in> set ?ps. \<not> step_done steps (step_id p)"
    using assms in_step_done [OF assms(1)] by (auto simp: by_section_def)
  then have "filter (\<lambda>p. step_done steps (step_id p)) ?ps = []"
    by (simp only: filter_empty_conv)
  then show ?thesis
    by (simp add: wire_existing_step_def Let_def foldl_link_existing grown_def filter_map comp_def del: set_concat)
qed

text \<open>C17: Wiring a batch of new steps into a task keeps the dependency counters exact. Suppose every live
  step's counters agree with the edge table - the total counts its active prerequisite edges, the completed
  one those whose prerequisite is completed, and the readiness is the one these imply. Wire a batch of
  fresh steps (live, none completed) into the graph with any set of section dependencies: the counters
  agree with the enlarged edge table again, for the new steps, for the existing steps that gained
  prerequisites, and for all the others. Steps keep their identity and every new edge is active.\<close>

theorem wiring_keeps_counters_exact:
  assumes "distinct (map step_id steps)" "counters_exact steps edges"
    and "\<forall>s \<in> set steps. step_id s \<in> set new_step_ids \<longrightarrow> \<not> step_is_deleted s \<and> step_state s \<noteq> StepCOMPLETED"
    and "wire_batch_steps deps new_step_ids tid user_id next_id steps edges = (steps', edges', changed)"
  shows "counters_exact steps' edges' \<and> map step_id steps' = map step_id steps
    \<and> (\<exists>added. edges' = edges @ added \<and> (\<forall>e \<in> set added. active e))"
proof -
  define new_steps where "new_steps = filter (\<lambda>s. step_id s \<in> set new_step_ids) steps"
  define dep_rows where "dep_rows = filter (\<lambda>(d, p). d \<in> set (map working_section_id new_steps)
    \<or> p \<in> set (map working_section_id new_steps)) deps"
  define existing_steps where "existing_steps = filter (\<lambda>s. step_task_id s = tid
    \<and> working_section_id s \<in> set (map fst dep_rows @ map snd dep_rows)
    \<and> step_id s \<notin> set new_step_ids \<and> \<not> step_is_deleted s) steps"
  define sp where "sp = section_prereqs_of dep_rows"
  have body: "wire_batch_steps deps new_step_ids tid user_id next_id steps edges =
      (if new_steps = [] \<or> dep_rows = [] then (steps, edges, [])
       else case compute_dependency_edges new_steps existing_steps sp of (new_steps', existing_steps', pairs, changed) \<Rightarrow>
         (fold put_step (new_steps' @ existing_steps') steps, edges @ new_edges next_id user_id pairs, changed))"
    unfolding wire_batch_steps_def Let_def new_steps_def dep_rows_def existing_steps_def sp_def by (rule refl)
  show ?thesis
  proof (cases "new_steps = [] \<or> dep_rows = []")
    case True
    then show ?thesis using assms(2,4) by (simp add: body)
  next
    case False
    define is_new where "is_new s \<longleftrightarrow> step_id s \<in> set new_step_ids" for s :: task_step
    define wired where "wired s = (if is_new s then wire_new_step sp new_steps existing_steps s
      else let w = wire_existing_step sp new_steps s in (fst w, fst (snd w)))" for s :: task_step
    let ?touched = "new_steps @ existing_steps"
    have sub: "set new_steps \<subseteq> set steps" "set existing_steps \<subseteq> set steps"
      by (auto simp: new_steps_def existing_steps_def)
    have kind: "s \<in> set new_steps \<Longrightarrow> is_new s" "s \<in> set existing_steps \<Longrightarrow> \<not> is_new s" for s
      by (auto simp: new_steps_def existing_steps_def is_new_def)
    have maps: "map fst (map (wire_new_step sp new_steps existing_steps) new_steps) = map (\<lambda>s. fst (wired s)) new_steps"
      "map snd (map (wire_new_step sp new_steps existing_steps) new_steps) = map (\<lambda>s. snd (wired s)) new_steps"
      "map fst (map (wire_existing_step sp new_steps) existing_steps) = map (\<lambda>s. fst (wired s)) existing_steps"
      "map (\<lambda>(_, e, _). e) (map (wire_existing_step sp new_steps) existing_steps) = map (\<lambda>s. snd (wired s)) existing_steps"
      using kind by (auto simp: wired_def Let_def case_prod_beta)
    have result: "steps' = fold put_step (map (\<lambda>s. fst (wired s)) ?touched) steps"
      "edges' = edges @ new_edges next_id user_id (concat (map (\<lambda>s. snd (wired s)) ?touched))"
      using assms(4)
      by (auto simp only: body False if_False compute_dependency_edges_def Let_def maps prod.case prod.inject
          map_append concat_append)
    have distinct: "distinct (map step_id ?touched)"
      using assms(1) by (auto simp: new_steps_def existing_steps_def distinct_map_filter)
    have growth: "grown steps s (snd (wired s)) (fst (wired s))" if "s \<in> set ?touched" for s
      using wire_new_step_grown [OF assms(1) sub, of s sp] wire_existing_step_grown [OF assms(1) sub(1), of s sp]
        assms(3) by (auto simp: wired_def Let_def new_steps_def)
    have "counters_exact steps' edges'"
      unfolding result by (rule grown_counters_exact [OF assms(1,2) distinct _ growth]) (use sub in auto)
    then show ?thesis using result active_new_edges by auto
  qed
qed

definition new_step_row :: "string \<Rightarrow> string \<Rightarrow> string \<Rightarrow> task_step_state \<Rightarrow> task_step" where
  "new_step_row i tid section_id state = \<lparr>step_id = i, step_task_id = tid, step_state = state,
     readiness_status = ReadinessREADY, sequence_order = None, working_section_id = section_id, working_section_name_snapshot = None,
     assigned_worker_id = None, allows_batch_working = False, total_dependencies = 0, completed_dependencies = 0,
     step_marked_wrong = False, step_taken_from_average = False, total_working_seconds = 0,
     total_pause_seconds = 0, total_ended_shift_seconds = 0, total_working_count = 0, total_pause_count = 0,
     total_ended_shift_count = 0, inaccurate_working_seconds = 0, inaccurate_pause_seconds = 0,
     inaccurate_ended_shift_seconds = 0, total_cost_minor = 0, latest_state_record_id = None,
     step_closed_at = None, step_updated_at = None, step_updated_by_id = None, step_is_deleted = False\<rparr>"

definition sample_graph :: "task_step list" where
  "sample_graph = [new_step_row ''a'' ''t'' ''cut'' StepCOMPLETED, new_step_row ''b'' ''t'' ''sew'' StepPENDING,
     new_step_row ''c'' ''t'' ''fit'' StepPENDING, new_step_row ''d'' ''t'' ''ship'' StepPENDING]"

lemmas graph_evaluation = sample_graph_def new_step_row_def recalculate_readiness_def Let_def
  live_step_def active_def new_edges_def scalar_or_raise_def scalar_one_or_none_def rbind_def put_row_def

lemma sample_graph_exact: "counters_exact sample_graph []"
  by (simp add: counters_exact_def exact_def graph_evaluation prereq_edges_def done_edges_def)

definition sample_wiring :: "task_step list \<times> dependency list \<times> task_step list" where
  "sample_wiring = wire_batch_steps [(''fit'', ''cut''), (''fit'', ''sew''), (''ship'', ''fit'')] [''c''] ''t'' ''u'' 1
     sample_graph []"

lemma wiring_keeps_counters_exact_witness:
  "(case sample_wiring of (steps', edges', changed) \<Rightarrow>
      counters_exact steps' edges' \<and> map readiness_status steps' = [ReadinessREADY, ReadinessREADY, ReadinessPARTIAL, ReadinessBLOCKED]
      \<and> length edges' = 3 \<and> map step_id changed = [''d''])"
proof -
  obtain steps' edges' changed where run: "wire_batch_steps [(''fit'', ''cut''), (''fit'', ''sew''), (''ship'', ''fit'')]
      [''c''] ''t'' ''u'' 1 sample_graph [] = (steps', edges', changed)"
    by (metis prod_cases3)
  have distinct: "distinct (map step_id sample_graph)" by (simp add: sample_graph_def new_step_row_def)
  have fresh: "\<forall>s \<in> set sample_graph. step_id s \<in> set [''c''] \<longrightarrow> \<not> step_is_deleted s \<and> step_state s \<noteq> StepCOMPLETED"
    by (simp add: sample_graph_def new_step_row_def)
  have "counters_exact steps' edges'"
    using wiring_keeps_counters_exact [OF distinct sample_graph_exact fresh run] by blast
  moreover have "map readiness_status (fst sample_wiring) = [ReadinessREADY, ReadinessREADY, ReadinessPARTIAL, ReadinessBLOCKED]
      \<and> length (fst (snd sample_wiring)) = 3 \<and> map step_id (snd (snd sample_wiring)) = [''d'']"
    by code_simp
  ultimately show ?thesis using run by (simp add: sample_wiring_def)
qed

section \<open>The edges a user adds and removes by hand\<close>

text \<open>
  \<open>add_step_dependency\<close> counts the new edge but not whether its prerequisite is already completed, which
  \<open>_compute_dependency_edges\<close> does count. \<open>remove_step_dependency\<close> takes one from the total but leaves the
  completed count, which \<open>_apply_removed_dependency_counts\<close> does lower. Both leave the counters inexact.
\<close>

text \<open>Editing edges by hand breaks the counters. Starting from a graph whose counters are exact: adding
  a dependency of step b on the already completed step a leaves b blocked although its only prerequisite
  is completed, and since a completes no second time nothing will unblock it. And after step c was given
  the prerequisites a (completed) and b (pending) by wiring, removing its edge onto a leaves it ready
  although its remaining prerequisite b is still pending.\<close>

lemma manual_edges_break_counters:
  "(case add_step_dependency 1 ''u'' sample_graph [] ''t'' ''b'' ''a'' of
      Inl _ \<Rightarrow> False
    | Inr (steps', edges', _) \<Rightarrow> map readiness_status (live_step steps' ''b'') = [ReadinessBLOCKED]
        \<and> list_all (\<lambda>e. step_done steps' (prerequisite_step_id e)) (prereq_edges edges' ''b'') \<and> \<not> counters_exact steps' edges')
   \<and> (case remove_step_dependency ''u'' 9 (fst sample_wiring) (fst (snd sample_wiring)) 1 of
      Inl _ \<Rightarrow> False
    | Inr (steps', edges', _) \<Rightarrow> map readiness_status (live_step steps' ''c'') = [ReadinessREADY]
        \<and> map (\<lambda>e. (prerequisite_step_id e, step_done steps' (prerequisite_step_id e))) (prereq_edges edges' ''c'') = [(''b'', False)]
        \<and> \<not> counters_exact steps' edges')"
  by code_simp
end
