(* ===== verification/TaskSideEffects.thy ===== *)
theory TaskSideEffects
  imports StepStore
begin

text \<open>
  The instances a task gains once its work is done: \<open>domain/tasks/_post_handling_state_evaluator.py\<close>,
  the create, sync and teardown helpers of \<open>services/commands/task_post_handling/\<close> and
  \<open>services/commands/task_customer_coordination/\<close>, and \<open>services/commands/tasks/_reconcile_task_side_effects.py\<close>,
  which calls them in order. History rows are recorded by entity, change and the two states.
\<close>

section \<open>Applicability\<close>

definition SUPPORTED_TASK_TYPES :: "task_type list" where
  "SUPPORTED_TASK_TYPES = [TypeRETURN, TypePRE_ORDER]"

definition truthy_text :: "string option \<Rightarrow> bool" where
  \<comment> \<open>\<open>bool(x)\<close> of an optional string\<close>
  "truthy_text x = (case x of None \<Rightarrow> False | Some t \<Rightarrow> t \<noteq> [])"

definition evaluate_post_handling_state :: "task_row \<Rightarrow> post_handling_state option" where
  "evaluate_post_handling_state t =
     (if task_type t \<notin> set SUPPORTED_TASK_TYPES then None
      else if task_state t \<noteq> TaskREADY then Some PostPENDING
      else let filled =
             (if task_type t = TypePRE_ORDER
              then fulfillment_method t \<noteq> None \<and> (scheduled_start_at t \<noteq> None \<or> scheduled_end_at t \<noteq> None)
              else if task_type t = TypeRETURN then truthy_text (assortment t)
              else False) in
        Some (if filled then PostFILLED else PostPENDING))"

definition task_requires_customer_coordination :: "task_row \<Rightarrow> bool" where
  "task_requires_customer_coordination t \<longleftrightarrow>
     task_type t = TypePRE_ORDER
     \<or> task_type t = TypeRETURN \<and> return_source t \<noteq> Some SourceSTORE_RETURN"

section \<open>The instances\<close>

record post_handling =
  post_id :: nat
  post_task_id :: string
  post_state :: post_handling_state
  post_created_at :: int
  post_updated_at :: "int option"

record coordination =
  coordination_id :: nat
  coordination_task_id :: string
  coordination_state :: coordination_state
  coordination_created_at :: int

datatype history_entry =
    PostHandlingCreated nat post_handling_state
  | PostHandlingUpdated nat post_handling_state post_handling_state
  | PostHandlingDeleted nat post_handling_state
  | CoordinationCreated nat
  | CoordinationDeleted nat coordination_state

record aux_db =
  post_handlings :: "post_handling list"
  coordinations :: "coordination list"
  aux_history :: "history_entry list"
  aux_next_id :: nat

definition open_post_handlings :: "aux_db \<Rightarrow> string \<Rightarrow> post_handling list" where
  "open_post_handlings db tid =
     filter (\<lambda>p. post_task_id p = tid \<and> post_state p \<noteq> PostCOMPLETED) (post_handlings db)"

definition open_coordinations :: "aux_db \<Rightarrow> string \<Rightarrow> coordination list" where
  "open_coordinations db tid =
     filter (\<lambda>c. coordination_task_id c = tid \<and> coordination_state c \<noteq> CoordinationCOMPLETED) (coordinations db)"

definition create_post_handling :: "task_row \<Rightarrow> int \<Rightarrow> aux_db \<Rightarrow> aux_db result" where
  "create_post_handling t now db =
     (case evaluate_post_handling_state t of
        None \<Rightarrow> Inr db
      | Some initial_state \<Rightarrow>
          rbind (scalar_one_or_none (open_post_handlings db (task_id t))) (\<lambda>existing.
          if existing \<noteq> None then Inr db
          else
            let i = aux_next_id db;
                p = \<lparr>post_id = i, post_task_id = task_id t, post_state = initial_state,
                     post_created_at = now, post_updated_at = None\<rparr> in
            Inr (db\<lparr>post_handlings := post_handlings db @ [p],
                    aux_history := aux_history db @ [PostHandlingCreated i initial_state],
                    aux_next_id := i + 1\<rparr>)))"

definition create_customer_coordination :: "task_row \<Rightarrow> int \<Rightarrow> aux_db \<Rightarrow> aux_db result" where
  "create_customer_coordination t now db =
     (if \<not> task_requires_customer_coordination t then Inr db
      else rbind (scalar_one_or_none (open_coordinations db (task_id t))) (\<lambda>existing.
        if existing \<noteq> None then Inr db
        else
          let i = aux_next_id db;
              c = \<lparr>coordination_id = i, coordination_task_id = task_id t,
                   coordination_state = CoordinationPENDING, coordination_created_at = now\<rparr> in
          Inr (db\<lparr>coordinations := coordinations db @ [c],
                  aux_history := aux_history db @ [CoordinationCreated i],
                  aux_next_id := i + 1\<rparr>)))"

text \<open>The sync reads the task again by its identifier, so it sees the row only while it is not deleted.\<close>

definition sync_post_handling_state :: "task_row \<Rightarrow> int \<Rightarrow> aux_db \<Rightarrow> (aux_db \<times> bool) result" where
  "sync_post_handling_state t now db =
     (if task_is_deleted t then Inr (db, False)
      else case evaluate_post_handling_state t of
        None \<Rightarrow> Inr (db, False)
      | Some new_state \<Rightarrow>
          rbind (scalar_one_or_none (open_post_handlings db (task_id t))) (\<lambda>found.
          case found of
            None \<Rightarrow> Inr (db, False)
          | Some p \<Rightarrow>
              if post_state p = new_state then Inr (db, False)
              else Inr (db\<lparr>post_handlings := put_row post_id (p\<lparr>post_state := new_state, post_updated_at := Some now\<rparr>)
                             (post_handlings db),
                           aux_history := aux_history db @ [PostHandlingUpdated (post_id p) (post_state p) new_state]\<rparr>,
                        True)))"

definition teardown_post_handling :: "task_row \<Rightarrow> aux_db \<Rightarrow> (aux_db \<times> bool) result" where
  "teardown_post_handling t db =
     (if evaluate_post_handling_state t \<noteq> None then Inr (db, False)
      else rbind (scalar_one_or_none (open_post_handlings db (task_id t))) (\<lambda>found.
        case found of
          None \<Rightarrow> Inr (db, False)
        | Some p \<Rightarrow>
            Inr (db\<lparr>post_handlings := filter (\<lambda>q. post_id q \<noteq> post_id p) (post_handlings db),
                    aux_history := aux_history db @ [PostHandlingDeleted (post_id p) (post_state p)]\<rparr>, True)))"

definition teardown_customer_coordination :: "task_row \<Rightarrow> aux_db \<Rightarrow> (aux_db \<times> bool) result" where
  "teardown_customer_coordination t db =
     (if task_requires_customer_coordination t then Inr (db, False)
      else rbind (scalar_one_or_none (open_coordinations db (task_id t))) (\<lambda>found.
        case found of
          None \<Rightarrow> Inr (db, False)
        | Some c \<Rightarrow>
            Inr (db\<lparr>coordinations := filter (\<lambda>d. coordination_id d \<noteq> coordination_id c) (coordinations db),
                    aux_history := aux_history db @ [CoordinationDeleted (coordination_id c) (coordination_state c)]\<rparr>, True)))"

definition reconcile_task_side_effects :: "task_row \<Rightarrow> int \<Rightarrow> aux_db \<Rightarrow> aux_db result" where
  "reconcile_task_side_effects t now db =
     rbind (if task_state t = TaskREADY
            then rbind (create_post_handling t now db) (create_customer_coordination t now)
            else Inr db) (\<lambda>db.
     rbind (sync_post_handling_state t now db) (\<lambda>(db, _).
     rbind (teardown_post_handling t db) (\<lambda>(db, _).
     rbind (teardown_customer_coordination t db) (\<lambda>(db, _). Inr db))))"

fun transition_coordinations :: "coordination list \<Rightarrow> coordination list \<times> coordination list" where
  \<comment> \<open>the given coordinations afterwards, and those that moved\<close>
  "transition_coordinations [] = ([], [])"
| "transition_coordinations (c # cs) =
     (let (all_after, moved) = transition_coordinations cs in
      if coordination_state c \<noteq> CoordinationPENDING then (c # all_after, moved)
      else let c' = c\<lparr>coordination_state := CoordinationCOORDINATING\<rparr> in (c' # all_after, c' # moved))"

section \<open>What reconciliation establishes\<close>

definition aux_ok :: "aux_db \<Rightarrow> bool" where
  "aux_ok db \<longleftrightarrow> distinct (map post_id (post_handlings db)) \<and> distinct (map coordination_id (coordinations db))
     \<and> (\<forall>p \<in> set (post_handlings db). post_id p < aux_next_id db)
     \<and> (\<forall>c \<in> set (coordinations db). coordination_id c < aux_next_id db)
     \<and> (\<forall>u. length (open_post_handlings db u) \<le> 1) \<and> (\<forall>u. length (open_coordinations db u) \<le> 1)"

definition expected_post_states :: "task_row \<Rightarrow> aux_db \<Rightarrow> post_handling_state list" where
  "expected_post_states t db =
     (case evaluate_post_handling_state t of
        None \<Rightarrow> []
      | Some s \<Rightarrow> if task_state t = TaskREADY \<or> open_post_handlings db (task_id t) \<noteq> [] then [s] else [])"

definition expected_coordination_count :: "task_row \<Rightarrow> aux_db \<Rightarrow> nat" where
  "expected_coordination_count t db =
     (if \<not> task_requires_customer_coordination t then 0
      else if task_state t = TaskREADY then 1 else length (open_coordinations db (task_id t)))"

lemma at_most_one: "length xs \<le> 1 \<Longrightarrow> xs = [] \<or> (\<exists>x. xs = [x])"
  by (cases xs) auto

lemma evaluated_not_completed: "evaluate_post_handling_state t = Some s \<Longrightarrow> s \<noteq> PostCOMPLETED"
  by (auto simp: evaluate_post_handling_state_def Let_def split: if_splits)

lemma open_post_handlings_in:
  "open_post_handlings db u = [p] \<Longrightarrow> p \<in> set (post_handlings db) \<and> post_task_id p = u \<and> post_state p \<noteq> PostCOMPLETED"
  unfolding open_post_handlings_def by (drule filter_eq_singletonD) simp

lemma open_coordinations_in:
  "open_coordinations db u = [c] \<Longrightarrow>
    c \<in> set (coordinations db) \<and> coordination_task_id c = u \<and> coordination_state c \<noteq> CoordinationCOMPLETED"
  unfolding open_coordinations_def by (drule filter_eq_singletonD) simp

lemma open_put_post:
  assumes "distinct (map post_id ps)" "p \<in> set ps" "post_state p \<noteq> PostCOMPLETED" "s \<noteq> PostCOMPLETED"
  shows "filter (\<lambda>q. post_task_id q = u \<and> post_state q \<noteq> PostCOMPLETED)
      (put_row post_id (p\<lparr>post_state := s, post_updated_at := n\<rparr>) ps)
    = map (\<lambda>q. if post_id q = post_id p then p\<lparr>post_state := s, post_updated_at := n\<rparr> else q)
        (filter (\<lambda>q. post_task_id q = u \<and> post_state q \<noteq> PostCOMPLETED) ps)"
proof -
  have same: "q = p" if "q \<in> set ps" "post_id q = post_id p" for q
    using that assms(1,2) by (metis distinct_map inj_onD)
  show ?thesis unfolding put_row_def filter_map comp_def
    by (rule arg_cong2 [of _ _ _ _ map]) (use same assms(3,4) in \<open>auto intro!: filter_cong\<close>)
qed

lemma open_drop_post:
  assumes "distinct (map post_id ps)" "p \<in> set ps" "post_task_id p = t"
  shows "filter (\<lambda>q. post_task_id q = u \<and> post_state q \<noteq> PostCOMPLETED) (filter (\<lambda>q. post_id q \<noteq> post_id p) ps)
    = (if u = t then filter (\<lambda>q. post_id q \<noteq> post_id p) (filter (\<lambda>q. post_task_id q = u \<and> post_state q \<noteq> PostCOMPLETED) ps)
       else filter (\<lambda>q. post_task_id q = u \<and> post_state q \<noteq> PostCOMPLETED) ps)"
proof -
  have same: "q = p" if "q \<in> set ps" "post_id q = post_id p" for q
    using that assms(1,2) by (metis distinct_map inj_onD)
  show ?thesis using same assms(3) by (auto simp: filter_filter conj_ac intro!: filter_cong)
qed

lemma open_drop_coordination:
  assumes "distinct (map coordination_id cs)" "c \<in> set cs" "coordination_task_id c = t"
  shows "filter (\<lambda>q. coordination_task_id q = u \<and> coordination_state q \<noteq> CoordinationCOMPLETED)
      (filter (\<lambda>q. coordination_id q \<noteq> coordination_id c) cs)
    = (if u = t then filter (\<lambda>q. coordination_id q \<noteq> coordination_id c)
         (filter (\<lambda>q. coordination_task_id q = u \<and> coordination_state q \<noteq> CoordinationCOMPLETED) cs)
       else filter (\<lambda>q. coordination_task_id q = u \<and> coordination_state q \<noteq> CoordinationCOMPLETED) cs)"
proof -
  have same: "q = c" if "q \<in> set cs" "coordination_id q = coordination_id c" for q
    using that assms(1,2) by (metis distinct_map inj_onD)
  show ?thesis using same assms(3) by (auto simp: filter_filter conj_ac intro!: filter_cong)
qed

lemma create_post_handling_ok:
  assumes "aux_ok db"
  shows "\<exists>db'. create_post_handling t now db = Inr db' \<and> aux_ok db'
    \<and> (\<forall>u. u \<noteq> task_id t \<longrightarrow> open_post_handlings db' u = open_post_handlings db u)
    \<and> (evaluate_post_handling_state t \<noteq> None \<longrightarrow> open_post_handlings db' (task_id t) \<noteq> [])
    \<and> (evaluate_post_handling_state t = None \<or> open_post_handlings db (task_id t) \<noteq> [] \<longrightarrow> db' = db)
    \<and> coordinations db' = coordinations db"
proof (cases "evaluate_post_handling_state t")
  case None
  then show ?thesis using assms by (simp add: create_post_handling_def)
next
  case (Some s)
  have fresh: "\<forall>p \<in> set (post_handlings db). post_id p \<noteq> aux_next_id db"
    using assms by (auto simp: aux_ok_def)
  consider "open_post_handlings db (task_id t) = []" | p where "open_post_handlings db (task_id t) = [p]"
    using assms at_most_one unfolding aux_ok_def by metis
  then show ?thesis
  proof cases
    case 1
    then show ?thesis
      using assms Some fresh evaluated_not_completed [OF Some]
      by (auto simp: create_post_handling_def aux_ok_def open_post_handlings_def open_coordinations_def Let_def)
  next
    case 2
    then show ?thesis using assms Some by (simp add: create_post_handling_def)
  qed
qed

lemma create_customer_coordination_ok:
  assumes "aux_ok db"
  shows "\<exists>db'. create_customer_coordination t now db = Inr db' \<and> aux_ok db'
    \<and> (\<forall>u. u \<noteq> task_id t \<longrightarrow> open_coordinations db' u = open_coordinations db u)
    \<and> (task_requires_customer_coordination t \<longrightarrow> length (open_coordinations db' (task_id t)) = 1)
    \<and> (\<not> task_requires_customer_coordination t \<or> open_coordinations db (task_id t) \<noteq> [] \<longrightarrow> db' = db)
    \<and> post_handlings db' = post_handlings db"
proof (cases "task_requires_customer_coordination t")
  case False
  then show ?thesis using assms by (simp add: create_customer_coordination_def)
next
  case True
  have fresh: "\<forall>c \<in> set (coordinations db). coordination_id c \<noteq> aux_next_id db"
    using assms by (auto simp: aux_ok_def)
  consider "open_coordinations db (task_id t) = []" | c where "open_coordinations db (task_id t) = [c]"
    using assms at_most_one unfolding aux_ok_def by metis
  then show ?thesis
  proof cases
    case 1
    then show ?thesis
      using assms True fresh
      by (auto simp: create_customer_coordination_def aux_ok_def open_post_handlings_def open_coordinations_def Let_def)
  next
    case 2
    then show ?thesis using assms True by (simp add: create_customer_coordination_def)
  qed
qed

lemma Ex_Not [simp]: "Ex Not"
  by blast

lemma sync_post_handling_state_ok:
  assumes "aux_ok db" "\<not> task_is_deleted t"
  shows "\<exists>db' changed. sync_post_handling_state t now db = Inr (db', changed) \<and> aux_ok db'
    \<and> (\<forall>u. u \<noteq> task_id t \<longrightarrow> open_post_handlings db' u = open_post_handlings db u)
    \<and> (\<forall>s. evaluate_post_handling_state t = Some s \<longrightarrow>
         map post_state (open_post_handlings db' (task_id t)) = map (\<lambda>_. s) (open_post_handlings db (task_id t))
         \<and> (map post_state (open_post_handlings db (task_id t)) = map (\<lambda>_. s) (open_post_handlings db (task_id t)) \<longrightarrow> db' = db))
    \<and> (evaluate_post_handling_state t = None \<longrightarrow> db' = db)
    \<and> coordinations db' = coordinations db"
proof (cases "evaluate_post_handling_state t")
  case None
  then show ?thesis using assms by (auto simp: sync_post_handling_state_def)
next
  case (Some s)
  consider "open_post_handlings db (task_id t) = []"
    | p where "open_post_handlings db (task_id t) = [p]" "post_state p = s"
    | p where "open_post_handlings db (task_id t) = [p]" "post_state p \<noteq> s"
    using assms(1) at_most_one unfolding aux_ok_def by metis
  then show ?thesis
  proof cases
    case 3
    let ?p = "p\<lparr>post_state := s, post_updated_at := Some now\<rparr>"
    let ?db = "db\<lparr>post_handlings := put_row post_id ?p (post_handlings db),
      aux_history := aux_history db @ [PostHandlingUpdated (post_id p) (post_state p) s]\<rparr>"
    note p = open_post_handlings_in [OF 3(1)]
    have opens: "open_post_handlings ?db u = map (\<lambda>q. if post_id q = post_id p then ?p else q) (open_post_handlings db u)" for u
      unfolding open_post_handlings_def
      using open_put_post [of "post_handlings db" p s u "Some now"] p assms(1) evaluated_not_completed [OF Some]
      by (simp add: aux_ok_def)
    have other: "open_post_handlings ?db u = open_post_handlings db u" if "u \<noteq> task_id t" for u
      unfolding opens
    proof (rule map_idI)
      fix q assume q: "q \<in> set (open_post_handlings db u)"
      then have "q \<in> set (post_handlings db)" "post_task_id q = u" by (simp_all add: open_post_handlings_def)
      then have "post_id q \<noteq> post_id p" using p that assms(1) unfolding aux_ok_def by (metis distinct_map inj_onD)
      then show "(if post_id q = post_id p then ?p else q) = q" by simp
    qed
    have same_key: "map post_id (put_row post_id ?p (post_handlings db)) = map post_id (post_handlings db)"
      using keys_put_row [of post_id ?p] by simp
    have keys: "distinct (map post_id (post_handlings ?db))" "\<forall>q \<in> set (post_handlings ?db). post_id q < aux_next_id db"
      using assms(1) p same_key by (auto simp: aux_ok_def dest: put_row_mem)
    have "aux_ok ?db"
      using assms(1) keys opens by (simp add: aux_ok_def open_coordinations_def)
    moreover have "sync_post_handling_state t now db = Inr (?db, True)"
      using 3 assms(2) Some by (simp add: sync_post_handling_state_def)
    ultimately show ?thesis using other opens [of "task_id t"] 3 Some by auto
  qed (use assms Some in \<open>simp_all add: sync_post_handling_state_def\<close>)
qed

lemma teardown_post_handling_ok:
  assumes "aux_ok db"
  shows "\<exists>db' removed. teardown_post_handling t db = Inr (db', removed) \<and> aux_ok db'
    \<and> (\<forall>u. u \<noteq> task_id t \<longrightarrow> open_post_handlings db' u = open_post_handlings db u)
    \<and> (evaluate_post_handling_state t = None \<longrightarrow> open_post_handlings db' (task_id t) = [])
    \<and> (evaluate_post_handling_state t \<noteq> None \<or> open_post_handlings db (task_id t) = [] \<longrightarrow> db' = db)
    \<and> coordinations db' = coordinations db"
proof (cases "evaluate_post_handling_state t = None")
  case False
  then show ?thesis using assms by (auto simp: teardown_post_handling_def)
next
  case True
  consider "open_post_handlings db (task_id t) = []" | p where "open_post_handlings db (task_id t) = [p]"
    using assms at_most_one unfolding aux_ok_def by metis
  then show ?thesis
  proof cases
    case 1
    then show ?thesis using assms True by (simp add: teardown_post_handling_def)
  next
    case 2
    let ?db = "db\<lparr>post_handlings := filter (\<lambda>q. post_id q \<noteq> post_id p) (post_handlings db),
      aux_history := aux_history db @ [PostHandlingDeleted (post_id p) (post_state p)]\<rparr>"
    note p = open_post_handlings_in [OF 2]
    have opens: "open_post_handlings ?db u = (if u = task_id t then [] else open_post_handlings db u)" for u
      unfolding open_post_handlings_def
      using open_drop_post [of "post_handlings db" p "task_id t" u] p assms 2
      by (simp add: aux_ok_def open_post_handlings_def)
    have "aux_ok ?db"
      using assms opens by (auto simp: aux_ok_def open_coordinations_def distinct_map_filter)
    then show ?thesis using True 2 opens by (auto simp: teardown_post_handling_def)
  qed
qed

lemma teardown_customer_coordination_ok:
  assumes "aux_ok db"
  shows "\<exists>db' removed. teardown_customer_coordination t db = Inr (db', removed) \<and> aux_ok db'
    \<and> (\<forall>u. u \<noteq> task_id t \<longrightarrow> open_coordinations db' u = open_coordinations db u)
    \<and> (\<not> task_requires_customer_coordination t \<longrightarrow> open_coordinations db' (task_id t) = [])
    \<and> (task_requires_customer_coordination t \<or> open_coordinations db (task_id t) = [] \<longrightarrow> db' = db)
    \<and> post_handlings db' = post_handlings db"
proof (cases "task_requires_customer_coordination t")
  case True
  then show ?thesis using assms by (auto simp: teardown_customer_coordination_def)
next
  case False
  consider "open_coordinations db (task_id t) = []" | c where "open_coordinations db (task_id t) = [c]"
    using assms at_most_one unfolding aux_ok_def by metis
  then show ?thesis
  proof cases
    case 1
    then show ?thesis using assms False by (simp add: teardown_customer_coordination_def)
  next
    case 2
    let ?db = "db\<lparr>coordinations := filter (\<lambda>q. coordination_id q \<noteq> coordination_id c) (coordinations db),
      aux_history := aux_history db @ [CoordinationDeleted (coordination_id c) (coordination_state c)]\<rparr>"
    note c = open_coordinations_in [OF 2]
    have opens: "open_coordinations ?db u = (if u = task_id t then [] else open_coordinations db u)" for u
      unfolding open_coordinations_def
      using open_drop_coordination [of "coordinations db" c "task_id t" u] c assms 2
      by (simp add: aux_ok_def open_coordinations_def)
    have "aux_ok ?db"
      using assms opens by (auto simp: aux_ok_def open_post_handlings_def distinct_map_filter)
    then show ?thesis using False 2 opens by (auto simp: teardown_customer_coordination_def)
  qed
qed

lemma length_map_const: "map (\<lambda>_. s) xs = (if xs = [] then [] else [s])" if "length xs \<le> 1"
  using at_most_one [OF that] by auto

lemma reconcile_ok:
  assumes "aux_ok db" "\<not> task_is_deleted t"
  shows "\<exists>db'. reconcile_task_side_effects t now db = Inr db' \<and> aux_ok db'
    \<and> map post_state (open_post_handlings db' (task_id t)) = expected_post_states t db
    \<and> length (open_coordinations db' (task_id t)) = expected_coordination_count t db
    \<and> (\<forall>u. u \<noteq> task_id t \<longrightarrow> open_post_handlings db' u = open_post_handlings db u
         \<and> open_coordinations db' u = open_coordinations db u)"
proof -
  let ?t = "task_id t"
  obtain db1 where created: "(if task_state t = TaskREADY
        then rbind (create_post_handling t now db) (create_customer_coordination t now) else Inr db) = Inr db1"
    and ok1: "aux_ok db1"
    and others1: "\<forall>u. u \<noteq> ?t \<longrightarrow> open_post_handlings db1 u = open_post_handlings db u
      \<and> open_coordinations db1 u = open_coordinations db u"
    and posts1: "evaluate_post_handling_state t \<noteq> None \<longrightarrow>
      (open_post_handlings db1 ?t \<noteq> [] \<longleftrightarrow> task_state t = TaskREADY \<or> open_post_handlings db ?t \<noteq> [])"
    and coords1: "task_requires_customer_coordination t \<longrightarrow> length (open_coordinations db1 ?t) = expected_coordination_count t db"
  proof (cases "task_state t = TaskREADY")
    case True
    obtain dba where a: "create_post_handling t now db = Inr dba" "aux_ok dba"
        "\<forall>u. u \<noteq> ?t \<longrightarrow> open_post_handlings dba u = open_post_handlings db u"
        "evaluate_post_handling_state t \<noteq> None \<longrightarrow> open_post_handlings dba ?t \<noteq> []"
        "coordinations dba = coordinations db"
      using create_post_handling_ok [OF assms(1)] by blast
    obtain dbb where b: "create_customer_coordination t now dba = Inr dbb" "aux_ok dbb"
        "\<forall>u. u \<noteq> ?t \<longrightarrow> open_coordinations dbb u = open_coordinations dba u"
        "task_requires_customer_coordination t \<longrightarrow> length (open_coordinations dbb ?t) = 1"
        "post_handlings dbb = post_handlings dba"
      using create_customer_coordination_ok [OF a(2)] by blast
    have same: "open_post_handlings dbb = open_post_handlings dba" "open_coordinations dba = open_coordinations db"
      using a(5) b(5) by (simp_all add: open_post_handlings_def open_coordinations_def fun_eq_iff)
    have "(if task_state t = TaskREADY
        then rbind (create_post_handling t now db) (create_customer_coordination t now) else Inr db) = Inr dbb"
      using True a(1) b(1) by simp
    moreover have "\<forall>u. u \<noteq> ?t \<longrightarrow> open_post_handlings dbb u = open_post_handlings db u
        \<and> open_coordinations dbb u = open_coordinations db u"
      using a(3) b(3) unfolding same by blast
    moreover have "evaluate_post_handling_state t \<noteq> None \<longrightarrow>
        (open_post_handlings dbb ?t \<noteq> [] \<longleftrightarrow> task_state t = TaskREADY \<or> open_post_handlings db ?t \<noteq> [])"
      using a(4) True unfolding same by blast
    moreover have "task_requires_customer_coordination t \<longrightarrow>
        length (open_coordinations dbb ?t) = expected_coordination_count t db"
      using b(4) True by (simp add: expected_coordination_count_def)
    ultimately show thesis by (rule that [OF _ b(2)])
  next
    case False
    then show thesis using assms(1) by (intro that [of db]) (auto simp: expected_coordination_count_def)
  qed
  obtain db2 c2 where sync: "sync_post_handling_state t now db1 = Inr (db2, c2)" "aux_ok db2"
      "\<forall>u. u \<noteq> ?t \<longrightarrow> open_post_handlings db2 u = open_post_handlings db1 u"
      "\<forall>s. evaluate_post_handling_state t = Some s \<longrightarrow>
         map post_state (open_post_handlings db2 ?t) = map (\<lambda>_. s) (open_post_handlings db1 ?t)"
      "coordinations db2 = coordinations db1"
    using sync_post_handling_state_ok [OF ok1 assms(2), of now]
    by (elim exE conjE) (rule that, assumption+, simp, assumption)
  obtain db3 c3 where post: "teardown_post_handling t db2 = Inr (db3, c3)" "aux_ok db3"
      "\<forall>u. u \<noteq> ?t \<longrightarrow> open_post_handlings db3 u = open_post_handlings db2 u"
      "evaluate_post_handling_state t = None \<longrightarrow> open_post_handlings db3 ?t = []"
      "evaluate_post_handling_state t \<noteq> None \<longrightarrow> db3 = db2" "coordinations db3 = coordinations db2"
    using teardown_post_handling_ok [OF sync(2)] by blast
  obtain db4 c4 where coord: "teardown_customer_coordination t db3 = Inr (db4, c4)" "aux_ok db4"
      "\<forall>u. u \<noteq> ?t \<longrightarrow> open_coordinations db4 u = open_coordinations db3 u"
      "\<not> task_requires_customer_coordination t \<longrightarrow> open_coordinations db4 ?t = []"
      "task_requires_customer_coordination t \<longrightarrow> db4 = db3" "post_handlings db4 = post_handlings db3"
    using teardown_customer_coordination_ok [OF post(2)] by blast
  have run: "reconcile_task_side_effects t now db = Inr db4"
    unfolding reconcile_task_side_effects_def by (simp add: created sync(1) post(1) coord(1))
  have same: "open_post_handlings db4 = open_post_handlings db3" "open_coordinations db3 = open_coordinations db1"
    using coord(6) post(6) sync(5) by (simp_all add: open_post_handlings_def open_coordinations_def fun_eq_iff)
  have "map post_state (open_post_handlings db4 ?t) = expected_post_states t db"
  proof (cases "evaluate_post_handling_state t")
    case None
    then show ?thesis using post(4) same by (simp add: expected_post_states_def)
  next
    case (Some s)
    have "length (open_post_handlings db1 ?t) \<le> 1" using ok1 by (simp add: aux_ok_def)
    then show ?thesis
      using Some post(5) same sync(4) posts1 length_map_const [of "open_post_handlings db1 ?t" s]
      by (auto simp: expected_post_states_def)
  qed
  moreover have "length (open_coordinations db4 ?t) = expected_coordination_count t db"
    using coord(4,5) same coords1 by (cases "task_requires_customer_coordination t")
      (simp_all add: expected_coordination_count_def)
  moreover have "\<forall>u. u \<noteq> ?t \<longrightarrow> open_post_handlings db4 u = open_post_handlings db u
      \<and> open_coordinations db4 u = open_coordinations db u"
    using coord(3) same post(3) sync(3) others1 by simp
  ultimately show ?thesis using run coord(2) by blast
qed

lemma reconcile_idempotent:
  assumes "aux_ok db" "\<not> task_is_deleted t"
    and "map post_state (open_post_handlings db (task_id t)) = expected_post_states t db"
    and "length (open_coordinations db (task_id t)) = expected_coordination_count t db"
  shows "reconcile_task_side_effects t now db = Inr db"
proof -
  have posts: "(if task_state t = TaskREADY
        then rbind (create_post_handling t now db) (create_customer_coordination t now) else Inr db) = Inr db"
  proof (cases "task_state t = TaskREADY")
    case True
    have "evaluate_post_handling_state t = None \<or> open_post_handlings db (task_id t) \<noteq> []"
      using assms(3) True by (auto simp: expected_post_states_def split: option.splits)
    then have "create_post_handling t now db = Inr db"
      using create_post_handling_ok [OF assms(1), of t now] by auto
    moreover have "\<not> task_requires_customer_coordination t \<or> open_coordinations db (task_id t) \<noteq> []"
      using assms(4) True by (auto simp: expected_coordination_count_def split: if_splits)
    then have "create_customer_coordination t now db = Inr db"
      using create_customer_coordination_ok [OF assms(1), of t now] by auto
    ultimately show ?thesis using True by simp
  qed simp
  have "\<exists>c. sync_post_handling_state t now db = Inr (db, c)"
  proof (cases "evaluate_post_handling_state t")
    case None
    then show ?thesis using sync_post_handling_state_ok [OF assms(1,2), of now] by auto
  next
    case (Some s)
    have "length (open_post_handlings db (task_id t)) \<le> 1" using assms(1) by (simp add: aux_ok_def)
    then have "map post_state (open_post_handlings db (task_id t)) = map (\<lambda>_. s) (open_post_handlings db (task_id t))"
      using assms(3) Some length_map_const [of "open_post_handlings db (task_id t)" s]
      by (auto simp: expected_post_states_def split: if_splits)
    then show ?thesis using sync_post_handling_state_ok [OF assms(1,2), of now] Some by auto
  qed
  moreover have "\<exists>c. teardown_post_handling t db = Inr (db, c)"
    using teardown_post_handling_ok [OF assms(1), of t] assms(3) by (auto simp: expected_post_states_def)
  moreover have "\<exists>c. teardown_customer_coordination t db = Inr (db, c)"
    using teardown_customer_coordination_ok [OF assms(1), of t] assms(4) by (auto simp: expected_coordination_count_def)
  ultimately show ?thesis unfolding reconcile_task_side_effects_def using posts by auto
qed

text \<open>Reconciling a task's auxiliary instances succeeds, establishes exactly the instances its current
  fields call for, and is idempotent. From tables in which no task has two open instances, the run never
  raises and keeps that. Afterwards the task has no open post-handling if its type has none, otherwise one
  in the state its fields evaluate to when it is ready (or when one was already open), and none before it is
  ready; a task that needs no customer coordination has none open, a ready task that needs it has exactly
  one. The open instances of every other task are untouched, and running it again on the result, at any
  later time, changes nothing - not even the history.\<close>

lemma reconcile_establishes_instances:
  assumes "aux_ok db" "\<not> task_is_deleted t"
  shows "\<exists>db'. reconcile_task_side_effects t now db = Inr db' \<and> aux_ok db'
    \<and> map post_state (open_post_handlings db' (task_id t)) = expected_post_states t db
    \<and> length (open_coordinations db' (task_id t)) = expected_coordination_count t db
    \<and> (\<forall>u. u \<noteq> task_id t \<longrightarrow> open_post_handlings db' u = open_post_handlings db u
         \<and> open_coordinations db' u = open_coordinations db u)
    \<and> (\<forall>later. reconcile_task_side_effects t later db' = Inr db')"
proof -
  obtain db' where db': "reconcile_task_side_effects t now db = Inr db'" "aux_ok db'"
    "map post_state (open_post_handlings db' (task_id t)) = expected_post_states t db"
    "length (open_coordinations db' (task_id t)) = expected_coordination_count t db"
    "\<forall>u. u \<noteq> task_id t \<longrightarrow> open_post_handlings db' u = open_post_handlings db u
         \<and> open_coordinations db' u = open_coordinations db u"
    using reconcile_ok [OF assms, of now] by blast
  have "expected_post_states t db' = expected_post_states t db"
    using db'(3) by (auto simp: expected_post_states_def split: option.splits if_splits)
  moreover have "expected_coordination_count t db' = expected_coordination_count t db"
    using db'(4) by (auto simp: expected_coordination_count_def)
  ultimately show ?thesis using db' reconcile_idempotent [OF db'(2) assms(2)] by auto
qed

definition sample_task :: task_row where
  "sample_task = \<lparr>task_id = ''tsk_1'', task_type = TypeRETURN, task_state = TaskREADY,
     return_source = Some SourceAFTER_PURCHASE, fulfillment_method = None, assortment = Some ''outlet'',
     scheduled_start_at = None, scheduled_end_at = None, task_completed_at = None, task_updated_at = None,
     task_updated_by_id = None, task_is_deleted = False\<rparr>"

definition empty_aux :: aux_db where
  "empty_aux = \<lparr>post_handlings = [], coordinations = [], aux_history = [], aux_next_id = 0\<rparr>"

lemma empty_aux_ok [simp]: "aux_ok empty_aux"
  by (simp add: aux_ok_def empty_aux_def open_post_handlings_def open_coordinations_def)

lemma reconcile_establishes_instances_witness:
  "\<exists>db'. reconcile_task_side_effects sample_task 5 empty_aux = Inr db'
     \<and> map post_state (open_post_handlings db' ''tsk_1'') = [PostFILLED] \<and> length (open_coordinations db' ''tsk_1'') = 1
     \<and> reconcile_task_side_effects sample_task 6 db' = Inr db'"
proof -
  have "\<not> task_is_deleted sample_task" "task_id sample_task = ''tsk_1''"
    "expected_post_states sample_task empty_aux = [PostFILLED]" "expected_coordination_count sample_task empty_aux = 1"
    by code_simp+
  then show ?thesis using reconcile_establishes_instances [OF empty_aux_ok, of sample_task 5] by auto
qed
end
