(* ===== verification/StepSettlement.thy ===== *)
theory StepSettlement
  imports StepStore Concurrency LinearTimeline PyDecimal
begin

text \<open>
  The settlement of a step's time: \<open>services/queries/analytics/averaged_time.py\<close>, which turns a worker's
  state records into concurrency-averaged contributions, and
  \<open>services/commands/task_steps/_settle_step_time.py\<close>, which recomputes the totals of one step from them.

  The two SQL queries are filters and a join of the tables. Seconds are exact rationals where the code
  uses floats; the cost is computed in the 28-digit decimal context, as the code does.
\<close>

section \<open>Contributions\<close>

fun reason_value :: "transition_reason \<Rightarrow> string" where
  "reason_value ReasonSHIFT_ENDED = ''shift_ended''"
| "reason_value ReasonOTHER_TASK_PRIORITY = ''other_task_priority''"
| "reason_value ReasonWORKER_DECLARED_STATE = ''worker_declared_state''"
| "reason_value ReasonCASE_CREATED = ''case_created''"
| "reason_value ReasonFORCED_READY = ''forced_ready''"
| "reason_value ReasonTASK_DELETED = ''task_deleted''"

definition bucket_state :: "state_record \<Rightarrow> string" where
  \<comment> \<open>the \<open>CASE\<close> expression \<open>_BUCKET_STATE\<close>\<close>
  "bucket_state r = (if record_state r = StepPAUSED \<and> transition_reason r = Some ReasonSHIFT_ENDED
     then ''ended_shift'' else step_state_value (record_state r))"

definition attributed_to :: "state_record \<Rightarrow> string option" where
  \<comment> \<open>\<open>COALESCE(credited_user_id, created_by_id)\<close>\<close>
  "attributed_to r = (case credited_user_id r of Some u \<Rightarrow> Some u | None \<Rightarrow> created_by_id r)"

record contribution =
  c_record_id :: string
  c_step_id :: string
  c_working_section_id :: string
  c_state :: string
  c_entered_at :: int
  c_exited_at :: "int option"
  c_is_open :: bool
  c_step_is_deleted :: bool
  c_step_is_completed :: bool
  c_marked_wrong :: bool
  c_seconds :: rat
  c_wasted_seconds :: rat
  c_is_batchable :: bool
  c_accrual_rate :: "rat option"
  c_concurrency :: "nat option"

definition overlapping_rows ::
    "task_step list \<Rightarrow> state_record list \<Rightarrow> string \<Rightarrow> int \<Rightarrow> int \<Rightarrow> (state_record \<times> task_step) list" where
  "overlapping_rows steps records user window_start window_end =
     concat (map (\<lambda>r. map (\<lambda>s. (r, s)) (filter (\<lambda>s. step_id s = record_step_id r) steps))
       (filter (\<lambda>r. attributed_to r = Some user \<and> \<not> record_is_deleted r
          \<and> record_state r \<in> {StepWORKING, StepPAUSED} \<and> entered_at r < window_end
          \<and> (case exited_at r of None \<Rightarrow> True | Some e \<Rightarrow> e > window_start)) records))"

definition interval_of :: "state_record \<times> task_step \<Rightarrow> time_interval" where
  "interval_of row = (case row of (r, s) \<Rightarrow>
     \<lparr>ti_record_id = record_id r, ti_step_id = record_step_id r, ti_state = bucket_state r,
      ti_entered_at = entered_at r, ti_exited_at = exited_at r,
      ti_marked_wrong = (record_marked_wrong r \<or> step_marked_wrong s), ti_is_batchable = allows_batch_working s\<rparr>)"

definition contribution_of ::
    "(string \<times> rat) list \<Rightarrow> (string \<times> rat) list \<Rightarrow> (string \<times> (rat \<times> nat)) list
      \<Rightarrow> state_record \<times> task_step \<Rightarrow> contribution" where
  "contribution_of seconds_by_record wasted_by_record rates_by_record row = (case row of (r, s) \<Rightarrow>
     \<lparr>c_record_id = record_id r, c_step_id = record_step_id r, c_working_section_id = working_section_id s,
      c_state = bucket_state r, c_entered_at = entered_at r, c_exited_at = exited_at r,
      c_is_open = (exited_at r = None), c_step_is_deleted = step_is_deleted s,
      c_step_is_completed = (step_state s = StepCOMPLETED),
      c_marked_wrong = (record_marked_wrong r \<or> step_marked_wrong s),
      c_seconds = (case map_of seconds_by_record (record_id r) of None \<Rightarrow> 0 | Some x \<Rightarrow> x),
      c_wasted_seconds = (case map_of wasted_by_record (record_id r) of None \<Rightarrow> 0 | Some x \<Rightarrow> x),
      c_is_batchable = allows_batch_working s,
      c_accrual_rate = map_option fst (map_of rates_by_record (record_id r)),
      c_concurrency = map_option snd (map_of rates_by_record (record_id r))\<rparr>)"

definition compute_record_contributions ::
    "task_step list \<Rightarrow> state_record list \<Rightarrow> string \<Rightarrow> int \<Rightarrow> int \<Rightarrow> int \<Rightarrow> contribution list" where
  "compute_record_contributions steps records user window_start window_end now =
     (let rows = overlapping_rows steps records user window_start window_end;
          intervals = map interval_of rows in
      map (contribution_of (averaged_seconds_by_record intervals now) (wasted_seconds_by_record intervals now)
             (accrual_rate_by_record intervals now)) rows)"

section \<open>Recomputing the totals of a step\<close>

definition widen ::
    "int \<Rightarrow> (string \<times> int \<times> int) list \<Rightarrow> state_record \<Rightarrow> (string \<times> int \<times> int) list" where
  "widen now windows r =
     (case attributed_to r of
        None \<Rightarrow> windows
      | Some uid \<Rightarrow>
          let stop = (case exited_at r of None \<Rightarrow> now | Some e \<Rightarrow> e) in
          AList.update uid
            (case map_of windows uid of
               None \<Rightarrow> (entered_at r, stop)
             | Some (a, b) \<Rightarrow> (min a (entered_at r), max b stop)) windows)"

definition time_records :: "state_record list \<Rightarrow> string \<Rightarrow> state_record list" where
  "time_records records i = filter (\<lambda>r. record_step_id r = i \<and> \<not> record_is_deleted r
     \<and> record_state r \<in> TIME_BEARING_STATES) records"

definition DAY :: int where
  \<comment> \<open>\<open>timedelta(days=1)\<close> in microseconds\<close>
  "DAY = 86400000000"

definition settled_buckets :: "string list" where
  "settled_buckets = [''working'', ''paused'', ''ended_shift'']"

text \<open>The contributions of each user that count toward the step.\<close>

definition settled_contributions ::
    "task_step list \<Rightarrow> state_record list \<Rightarrow> string \<Rightarrow> int \<Rightarrow> (string \<times> contribution list) list" where
  "settled_contributions steps records i now =
     map (\<lambda>(uid, a, b). (uid, filter (\<lambda>c. c_step_id c = i \<and> \<not> c_is_open c \<and> c_state c \<in> set settled_buckets)
            (compute_record_contributions steps records uid (a - DAY) (b + DAY) now)))
       (foldl (widen now) [] (time_records records i))"

definition bucket_seconds :: "string \<Rightarrow> contribution list \<Rightarrow> rat" where
  "bucket_seconds bucket cs = sum_list (map c_seconds (filter (\<lambda>c. c_state c = bucket \<and> \<not> c_marked_wrong c) cs))"

definition bucket_count :: "string \<Rightarrow> contribution list \<Rightarrow> int" where
  "bucket_count bucket cs = int (length (filter (\<lambda>c. c_state c = bucket \<and> \<not> c_marked_wrong c) cs))"

definition bucket_wasted :: "string \<Rightarrow> contribution list \<Rightarrow> rat" where
  "bucket_wasted bucket cs = sum_list (map c_wasted_seconds (filter (\<lambda>c. c_state c = bucket) cs))"

definition rate_of :: "(string \<times> decimal option) list \<Rightarrow> string \<Rightarrow> decimal option" where
  "rate_of profiles user = (case map_of profiles user of None \<Rightarrow> None | Some rate \<Rightarrow> rate)"

definition user_cost :: "(string \<times> decimal option) list \<Rightarrow> string \<times> contribution list \<Rightarrow> int result" where
  "user_cost profiles entry =
     (let costed = filter (\<lambda>c. c_state c \<in> {''working'', ''paused''}) (snd entry) in
      if costed = [] then Inr 0
      else case rate_of profiles (fst entry) of
        None \<Rightarrow> Inr 0
      | Some rate \<Rightarrow>
          rbind (dec_div 28 (dec_of_int (rhe (sum_list (map c_seconds costed)))) (dec_of_int 3600)) (\<lambda>hours.
            Inr (rhe (dval (dec_mul 28 (dec_mul 28 hours rate) (dec_of_int 100))))))"

definition set_totals :: "contribution list \<Rightarrow> int \<Rightarrow> int \<Rightarrow> task_step \<Rightarrow> task_step" where
  "set_totals cs cost_minor now step = step\<lparr>
     total_working_seconds := rhe (bucket_seconds ''working'' cs), total_working_count := bucket_count ''working'' cs,
     inaccurate_working_seconds := rhe (bucket_wasted ''working'' cs),
     total_pause_seconds := rhe (bucket_seconds ''paused'' cs), total_pause_count := bucket_count ''paused'' cs,
     inaccurate_pause_seconds := rhe (bucket_wasted ''paused'' cs),
     total_ended_shift_seconds := rhe (bucket_seconds ''ended_shift'' cs),
     total_ended_shift_count := bucket_count ''ended_shift'' cs,
     inaccurate_ended_shift_seconds := rhe (bucket_wasted ''ended_shift'' cs),
     total_cost_minor := cost_minor, step_updated_at := Some now\<rparr>"

definition settle_step_time_totals ::
    "(string \<times> decimal option) list \<Rightarrow> state_record list \<Rightarrow> string \<Rightarrow> int \<Rightarrow> task_step list \<Rightarrow> task_step list result" where
  "settle_step_time_totals profiles records i now steps =
     rbind (scalar_one_or_none (filter (\<lambda>s. step_id s = i \<and> \<not> step_is_deleted s) steps)) (\<lambda>found.
     case found of
       None \<Rightarrow> Inr steps
     | Some step \<Rightarrow>
         let per_user = settled_contributions steps records i now in
         rbind (rmap (user_cost profiles) per_user) (\<lambda>costs.
           Inr (put_row step_id (set_totals (concat (map snd per_user)) (sum_list costs) now step) steps)))"

definition settle_closed_step_time ::
    "(string \<times> decimal option) list \<Rightarrow> state_record list \<Rightarrow> string \<Rightarrow> task_step_state \<Rightarrow> string option \<Rightarrow> int
      \<Rightarrow> task_step list \<Rightarrow> task_step list result" where
  "settle_closed_step_time profiles records i closing_state credited now steps =
     (if \<not> (case credited of None \<Rightarrow> False | Some u \<Rightarrow> u \<noteq> []) \<or> closing_state \<notin> TIME_BEARING_STATES then Inr steps
      else settle_step_time_totals profiles records i now steps)"


section \<open>The settlement is total, absolute and complete\<close>

text \<open>The SQL expression and the function it twins agree.\<close>

lemma bucket_state_twin:
  "bucket_state r = bucket_for (step_state_value (record_state r)) (map_option reason_value (transition_reason r))"
proof -
  have "reason_value z = ''shift_ended'' \<longleftrightarrow> z = ReasonSHIFT_ENDED" for z by (cases z) simp_all
  then show ?thesis
    by (cases "record_state r"; cases "transition_reason r") (simp_all add: bucket_state_def bucket_for_def)
qed

lemma dec_div_total: "dec_coef b \<noteq> 0 \<Longrightarrow> \<exists>d. dec_div p a b = Inr d"
  by (simp add: dec_div_def Let_def)

lemma user_cost_total: "\<exists>c. user_cost profiles entry = Inr c"
  using dec_div_total [of "dec_of_int 3600" 28]
  by (fastforce simp: user_cost_def Let_def dec_of_int_def split: option.splits)

lemma put_row_update:
  assumes "distinct (map key xs)" "x \<in> set xs" "key (f x) = key x"
  shows "put_row key (f x) xs = map (\<lambda>y. if key y = key x then f y else y) xs"
proof -
  have "y = x" if "y \<in> set xs" "key y = key x" for y
    using that assms(1,2) by (metis distinct_map inj_onD)
  then show ?thesis using assms(3) by (auto simp: put_row_def)
qed

lemma set_totals_id [simp]: "step_id (set_totals cs cost now s) = step_id s"
  by (simp add: set_totals_def)

text \<open>Settling a live step sets its totals to values computed from the records alone.\<close>

lemma settle_live:
  assumes "distinct (map step_id steps)" "s \<in> set steps" "\<not> step_is_deleted s"
  shows "\<exists>costs. rmap (user_cost profiles) (settled_contributions steps records (step_id s) now) = Inr costs
    \<and> settle_step_time_totals profiles records (step_id s) now steps
       = Inr (map (\<lambda>x. if step_id x = step_id s
           then set_totals (concat (map snd (settled_contributions steps records (step_id s) now))) (sum_list costs) now x
           else x) steps)"
proof -
  obtain costs where costs: "rmap (user_cost profiles) (settled_contributions steps records (step_id s) now) = Inr costs"
    using rmap_total [where f = "user_cost profiles"] user_cost_total by blast
  have "filter (\<lambda>x. step_id x = step_id s \<and> \<not> step_is_deleted x) steps = [s]"
    using filter_key_unique [OF assms(1,2), of "\<lambda>x. \<not> step_is_deleted x"] assms(3) by simp
  then show ?thesis
    using costs put_row_update [OF assms(1,2), of "set_totals (concat (map snd (settled_contributions steps records (step_id s) now)))
      (sum_list costs) now"]
    by (simp add: settle_step_time_totals_def Let_def)
qed

lemma settle_gone:
  assumes "\<not> (\<exists>s \<in> set steps. step_id s = i \<and> \<not> step_is_deleted s)"
  shows "settle_step_time_totals profiles records i now steps = Inr steps"
proof -
  have "filter (\<lambda>x. step_id x = i \<and> \<not> step_is_deleted x) steps = []" using assms by (auto simp: filter_empty_conv)
  then show ?thesis by (simp add: settle_step_time_totals_def)
qed

lemma settle_cases:
  assumes "distinct (map step_id steps)"
  obtains (unchanged) "settle_step_time_totals profiles records i now steps = Inr steps"
    | (totals) cs cost where "settle_step_time_totals profiles records i now steps
        = Inr (map (\<lambda>x. if step_id x = i then set_totals cs cost now x else x) steps)"
proof (cases "\<exists>s \<in> set steps. step_id s = i \<and> \<not> step_is_deleted s")
  case True
  then obtain s where "s \<in> set steps" "step_id s = i" "\<not> step_is_deleted s" by blast
  then show thesis using settle_live [OF assms, of s profiles records now] totals by auto
next
  case False
  then show thesis using settle_gone unchanged by blast
qed

text \<open>What a settlement reads of a step, and so what the contributions depend on.\<close>

definition time_view :: "task_step \<Rightarrow> string \<times> bool \<times> bool \<times> string \<times> bool \<times> bool" where
  "time_view s = (step_id s, step_is_deleted s, step_marked_wrong s, working_section_id s, allows_batch_working s,
     step_state s = StepCOMPLETED)"

lemma overlapping_rows_map:
  assumes "\<And>s. step_id (f s) = step_id s"
  shows "overlapping_rows (map f steps) records u a b = map (\<lambda>(r, s). (r, f s)) (overlapping_rows steps records u a b)"
  using assms by (simp add: overlapping_rows_def map_concat filter_map comp_def)

lemma contributions_map:
  assumes "\<And>s. time_view (f s) = time_view s"
  shows "compute_record_contributions (map f steps) records u a b now = compute_record_contributions steps records u a b now"
proof -
  have ids: "step_id (f s) = step_id s" for s using assms [of s] by (simp add: time_view_def)
  have intervals: "interval_of (r, f s) = interval_of (r, s)" for r s
    using assms [of s] by (simp add: interval_of_def time_view_def)
  have contribution: "contribution_of x y z (r, f s) = contribution_of x y z (r, s)" for x y z r s
    using assms [of s] by (simp add: contribution_of_def time_view_def)
  show ?thesis
    by (simp add: compute_record_contributions_def Let_def overlapping_rows_map [OF ids] comp_def case_prod_beta
        intervals contribution)
qed

lemma settled_contributions_map:
  assumes "\<And>s. time_view (f s) = time_view s"
  shows "settled_contributions (map f steps) records i now = settled_contributions steps records i now"
  by (simp add: settled_contributions_def contributions_map [OF assms])

lemma time_view_totals [simp]: "time_view (set_totals cs cost now s) = time_view s"
  by (simp add: time_view_def set_totals_def)

text \<open>C6: Settling a step's time is an absolute assignment: it always succeeds on a table with unique step
  identifiers, whatever the records and rates are, it changes nothing but the time totals, the cost and the
  update stamp of that one live step, and running it again at the same time - as the analytics worker does
  after the transition committed - changes nothing. A replayed settlement therefore cannot inflate the totals.\<close>

theorem settlement_is_absolute:
  assumes "distinct (map step_id steps)"
  shows "\<exists>steps'. settle_step_time_totals profiles records i now steps = Inr steps'
    \<and> settle_step_time_totals profiles records i now steps' = Inr steps'
    \<and> (\<exists>cs cost. \<forall>k < length steps. steps' ! k = steps ! k
         \<or> step_id (steps ! k) = i \<and> steps' ! k = set_totals cs cost now (steps ! k))
    \<and> length steps' = length steps"
proof (cases "\<exists>s \<in> set steps. step_id s = i \<and> \<not> step_is_deleted s")
  case False
  then show ?thesis using settle_gone [OF False] by auto
next
  case True
  then obtain s where s: "s \<in> set steps" "step_id s = i" "\<not> step_is_deleted s" by blast
  define cs where "cs = concat (map snd (settled_contributions steps records i now))"
  obtain costs where costs: "rmap (user_cost profiles) (settled_contributions steps records i now) = Inr costs"
    and run: "settle_step_time_totals profiles records i now steps
      = Inr (map (\<lambda>x. if step_id x = i then set_totals cs (sum_list costs) now x else x) steps)"
    using settle_live [OF assms s(1,3), of profiles records now] s(2) by (auto simp: cs_def)
  define f where "f x = (if step_id x = i then set_totals cs (sum_list costs) now x else x)" for x
  have view: "time_view (f x) = time_view x" for x by (simp add: f_def)
  have ids: "step_id (f x) = step_id x" for x by (simp add: f_def)
  then have "distinct (map step_id (map f steps))" using assms by (simp add: comp_def)
  moreover have "f s \<in> set (map f steps)" "\<not> step_is_deleted (f s)" "step_id (f s) = i"
    using s by (auto simp: f_def set_totals_def)
  ultimately obtain costs' where costs': "rmap (user_cost profiles) (settled_contributions (map f steps) records i now) = Inr costs'"
    and run': "settle_step_time_totals profiles records i now (map f steps)
      = Inr (map (\<lambda>x. if step_id x = i then set_totals (concat (map snd (settled_contributions (map f steps) records i now)))
          (sum_list costs') now x else x) (map f steps))"
    using settle_live [of "map f steps" "f s" profiles records now] by auto
  have same: "settled_contributions (map f steps) records i now = settled_contributions steps records i now"
    by (rule settled_contributions_map [OF view])
  have "map (\<lambda>x. if step_id x = i then set_totals cs (sum_list costs') now x else x) (map f steps) = map f steps"
    using costs costs' by (auto simp: same f_def set_totals_def)
  then show ?thesis
    using run run' same by (intro exI [of _ "map f steps"]) (auto simp: cs_def f_def)
qed

text \<open>The windows cover the records they were widened by.\<close>

definition covers :: "int \<Rightarrow> (string \<times> int \<times> int) list \<Rightarrow> state_record \<Rightarrow> bool" where
  "covers now windows r \<longleftrightarrow> (\<forall>u. attributed_to r = Some u \<longrightarrow> (\<exists>a b. map_of windows u = Some (a, b)
     \<and> a \<le> entered_at r \<and> (case exited_at r of None \<Rightarrow> now | Some e \<Rightarrow> e) \<le> b))"

lemma widen_covers: "covers now (widen now windows r) r"
  by (auto simp: covers_def widen_def Let_def update_conv split: option.splits)

lemma widen_keeps: "covers now windows r \<Longrightarrow> covers now (widen now windows r') r"
  by (fastforce simp: covers_def widen_def Let_def update_conv split: option.splits)

lemma distinct_widen: "distinct (map fst windows) \<Longrightarrow> distinct (map fst (widen now windows r))"
  by (auto simp: widen_def Let_def distinct_update split: option.splits)

lemma foldl_widen:
  assumes "distinct (map fst windows)" "\<And>r. r \<in> set done \<Longrightarrow> covers now windows r"
  shows "distinct (map fst (foldl (widen now) windows rs))
    \<and> (\<forall>r \<in> set done \<union> set rs. covers now (foldl (widen now) windows rs) r)"
  using assms
proof (induction rs arbitrary: windows "done")
  case (Cons r rs)
  have "distinct (map fst (widen now windows r))" by (rule distinct_widen [OF Cons.prems(1)])
  moreover have "covers now (widen now windows r) x" if "x \<in> set (r # done)" for x
    using that Cons.prems(2) widen_covers widen_keeps by (cases "x = r") auto
  ultimately show ?case using Cons.IH [of "widen now windows r" "r # done"] by simp
qed simp

lemma sum_indicator: "distinct us \<Longrightarrow>
    sum_list (map (\<lambda>u. if x = Some u then 1 else 0 :: nat) us) = (if \<exists>u \<in> set us. x = Some u then 1 else 0)"
  by (induction us) auto

lemma count_by_user:
  assumes "distinct us" "\<And>r u. r \<in> set rs \<Longrightarrow> att r = Some u \<Longrightarrow> u \<in> set us"
  shows "sum_list (map (\<lambda>u. length (filter (\<lambda>r. att r = Some u \<and> P r) rs)) us)
    = length (filter (\<lambda>r. att r \<noteq> None \<and> P r) rs)"
  using assms(2)
proof (induction rs)
  case (Cons r rs)
  have "sum_list (map (\<lambda>u. length (filter (\<lambda>r. att r = Some u \<and> P r) (r # rs))) us)
      = sum_list (map (\<lambda>u. (if att r = Some u \<and> P r then 1 else 0)
          + length (filter (\<lambda>r. att r = Some u \<and> P r) rs)) us)"
    by (rule arg_cong [of _ _ sum_list]) simp
  also have "\<dots> = sum_list (map (\<lambda>u. if att r = Some u \<and> P r then 1 else 0) us)
      + length (filter (\<lambda>r. att r \<noteq> None \<and> P r) rs)"
  proof -
    have "sum_list (map (\<lambda>u. length (filter (\<lambda>r. att r = Some u \<and> P r) rs)) us)
        = length (filter (\<lambda>r. att r \<noteq> None \<and> P r) rs)"
      by (rule Cons.IH) (use Cons.prems in auto)
    then show ?thesis by (simp only: sum_list_addf)
  qed
  also have "sum_list (map (\<lambda>u. if att r = Some u \<and> P r then 1 else 0) us) = (if att r \<noteq> None \<and> P r then 1 else 0 :: nat)"
    using sum_indicator [OF assms(1), of "att r"] Cons.prems by (cases "P r"; cases "att r") auto
  finally show ?case by simp
qed simp

lemma filter_join:
  assumes "filter (\<lambda>x. step_id x = i) steps = [s]" "\<And>r x. R (r, x) \<Longrightarrow> record_step_id r = i"
  shows "filter R (concat (map (\<lambda>r. map (\<lambda>x. (r, x)) (filter (\<lambda>x. step_id x = record_step_id r) steps)) rs))
    = map (\<lambda>r. (r, s)) (filter (\<lambda>r. record_step_id r = i \<and> R (r, s)) rs)"
proof (induction rs)
  case (Cons r rs)
  have "filter R (map (\<lambda>x. (r, x)) (filter (\<lambda>x. step_id x = record_step_id r) steps))
      = (if record_step_id r = i \<and> R (r, s) then [(r, s)] else [])"
  proof (cases "record_step_id r = i")
    case True
    then show ?thesis using assms(1) by simp
  next
    case False
    then show ?thesis using assms(2) by (auto simp: filter_empty_conv)
  qed
  then show ?case using Cons by simp
qed simp

definition counted :: "state_record \<Rightarrow> bool" where
  "counted r \<longleftrightarrow> exited_at r \<noteq> None \<and> \<not> record_marked_wrong r"

lemma settled_count_of_user:
  assumes "filter (\<lambda>x. step_id x = i) steps = [s]" "\<not> step_marked_wrong s"
    and "\<And>r e. r \<in> set (time_records records i) \<Longrightarrow> exited_at r = Some e \<Longrightarrow> entered_at r \<le> e"
    and "\<And>r. r \<in> set (time_records records i) \<Longrightarrow> covers now windows r"
    and "map_of windows u = Some (a, b)" "bucket \<in> set settled_buckets"
  shows "length (filter (\<lambda>c. c_state c = bucket \<and> \<not> c_marked_wrong c)
      (filter (\<lambda>c. c_step_id c = i \<and> \<not> c_is_open c \<and> c_state c \<in> set settled_buckets)
        (compute_record_contributions steps records u (a - DAY) (b + DAY) now)))
    = length (filter (\<lambda>r. attributed_to r = Some u \<and> counted r \<and> bucket_state r = bucket) (time_records records i))"
proof -
  let ?Q = "\<lambda>r. attributed_to r = Some u \<and> \<not> record_is_deleted r \<and> record_state r \<in> {StepWORKING, StepPAUSED}
    \<and> entered_at r < b + DAY \<and> (case exited_at r of None \<Rightarrow> True | Some e \<Rightarrow> e > a - DAY)"
  let ?R = "\<lambda>row :: state_record \<times> task_step. record_step_id (fst row) = i \<and> exited_at (fst row) \<noteq> None
    \<and> bucket_state (fst row) = bucket \<and> \<not> (record_marked_wrong (fst row) \<or> step_marked_wrong (snd row))"
  have "length (filter (\<lambda>c. c_state c = bucket \<and> \<not> c_marked_wrong c)
      (filter (\<lambda>c. c_step_id c = i \<and> \<not> c_is_open c \<and> c_state c \<in> set settled_buckets)
        (compute_record_contributions steps records u (a - DAY) (b + DAY) now)))
    = length (filter ?R (overlapping_rows steps records u (a - DAY) (b + DAY)))"
    using assms(6)
    by (simp add: compute_record_contributions_def Let_def filter_map comp_def contribution_of_def case_prod_beta
        filter_filter) (rule arg_cong [of _ _ length], rule filter_cong, auto)
  also have "filter ?R (overlapping_rows steps records u (a - DAY) (b + DAY))
      = map (\<lambda>r. (r, s)) (filter (\<lambda>r. record_step_id r = i \<and> ?R (r, s)) (filter ?Q records))"
    unfolding overlapping_rows_def by (rule filter_join [OF assms(1)]) simp
  also have "filter (\<lambda>r. record_step_id r = i \<and> ?R (r, s)) (filter ?Q records)
      = filter (\<lambda>r. attributed_to r = Some u \<and> counted r \<and> bucket_state r = bucket) (time_records records i)"
  proof -
    have "?Q r" if r: "r \<in> set (time_records records i)" "attributed_to r = Some u" "exited_at r \<noteq> None" for r
    proof -
      obtain e where e: "exited_at r = Some e" using r(3) by blast
      have "a \<le> entered_at r" "e \<le> b" using assms(4) [OF r(1)] r(2) e assms(5) by (auto simp: covers_def)
      then show ?thesis using r e assms(3) [OF r(1) e] by (auto simp: time_records_def TIME_BEARING_STATES_def DAY_def)
    qed
    then show ?thesis
      using assms(2) unfolding filter_filter time_records_def
      by (intro filter_cong refl) (auto simp: counted_def TIME_BEARING_STATES_def)
  qed
  finally show ?thesis by simp
qed

lemma length_filter_concat: "length (filter P (concat xss)) = sum_list (map (\<lambda>xs. length (filter P xs)) xss)"
  by (induction xss) simp_all

lemma settled_count:
  assumes "filter (\<lambda>x. step_id x = i) steps = [s]" "\<not> step_marked_wrong s"
    and "\<And>r e. r \<in> set (time_records records i) \<Longrightarrow> exited_at r = Some e \<Longrightarrow> entered_at r \<le> e"
    and "bucket \<in> set settled_buckets"
  shows "bucket_count bucket (concat (map snd (settled_contributions steps records i now)))
    = int (length (filter (\<lambda>r. attributed_to r \<noteq> None \<and> counted r \<and> bucket_state r = bucket) (time_records records i)))"
proof -
  let ?rs = "time_records records i"
  define windows where "windows = foldl (widen now) [] ?rs"
  have windows: "distinct (map fst windows)" "\<And>r. r \<in> set ?rs \<Longrightarrow> covers now windows r"
    using foldl_widen [of "[]" "[]" now ?rs] by (simp_all add: windows_def)
  let ?n = "\<lambda>u. length (filter (\<lambda>r. attributed_to r = Some u \<and> counted r \<and> bucket_state r = bucket) ?rs)"
  define g where "g w = (case w of (uid, a, b) \<Rightarrow>
    (uid, filter (\<lambda>c. c_step_id c = i \<and> \<not> c_is_open c \<and> c_state c \<in> set settled_buckets)
            (compute_record_contributions steps records uid (a - DAY) (b + DAY) now)))" for w
  have settled: "settled_contributions steps records i now = map g windows"
    by (simp add: settled_contributions_def windows_def g_def)
  have own: "length (filter (\<lambda>c. c_state c = bucket \<and> \<not> c_marked_wrong c) (snd (g w))) = ?n (fst w)"
    if "w \<in> set windows" for w
  proof -
    obtain u a b where w: "w = (u, a, b)" by (cases w)
    then have "map_of windows u = Some (a, b)" using windows(1) that by simp
    from settled_count_of_user [OF assms(1-3) windows(2) this assms(4)] show ?thesis by (simp add: w g_def)
  qed
  have "map (\<lambda>xs. length (filter (\<lambda>c. c_state c = bucket \<and> \<not> c_marked_wrong c) xs))
      (map snd (settled_contributions steps records i now)) = map ?n (map fst windows)"
    using own by (simp add: settled)
  then have "bucket_count bucket (concat (map snd (settled_contributions steps records i now)))
      = int (sum_list (map ?n (map fst windows)))"
    by (simp add: bucket_count_def length_filter_concat)
  also have "sum_list (map ?n (map fst windows))
      = length (filter (\<lambda>r. attributed_to r \<noteq> None \<and> counted r \<and> bucket_state r = bucket) ?rs)"
  proof (rule count_by_user [OF windows(1)])
    fix r u assume r: "r \<in> set ?rs" "attributed_to r = Some u"
    from windows(2) [OF r(1)] r(2) obtain a b where "map_of windows u = Some (a, b)" by (auto simp: covers_def)
    then have "(u, a, b) \<in> set windows" by (rule map_of_SomeD)
    then show "u \<in> set (map fst windows)" by force
  qed
  finally show ?thesis .
qed

text \<open>C7: A settlement counts every closed run exactly once. After settling a live, unflagged step, the number
  of working, paused and off-shift runs it stores is the number of its closed, unflagged, undeleted
  time-bearing records with an attributed user whose bucket is that one, whichever workers they belong to and
  however their windows overlap: no closed record is missed by the per-user windows and none is counted twice.\<close>

theorem settlement_counts_closed_records:
  assumes "distinct (map step_id steps)" "s \<in> set steps" "\<not> step_is_deleted s" "\<not> step_marked_wrong s"
    and "\<And>r e. r \<in> set (time_records records (step_id s)) \<Longrightarrow> exited_at r = Some e \<Longrightarrow> entered_at r \<le> e"
    and "settle_step_time_totals profiles records (step_id s) now steps = Inr steps'"
  shows "\<exists>s' \<in> set steps'. step_id s' = step_id s
    \<and> total_working_count s' = int (length (filter (\<lambda>r. attributed_to r \<noteq> None \<and> counted r \<and> bucket_state r = ''working'')
         (time_records records (step_id s))))
    \<and> total_pause_count s' = int (length (filter (\<lambda>r. attributed_to r \<noteq> None \<and> counted r \<and> bucket_state r = ''paused'')
         (time_records records (step_id s))))
    \<and> total_ended_shift_count s' = int (length (filter (\<lambda>r. attributed_to r \<noteq> None \<and> counted r \<and> bucket_state r = ''ended_shift'')
         (time_records records (step_id s))))"
proof -
  define cs where "cs = concat (map snd (settled_contributions steps records (step_id s) now))"
  obtain costs where "settle_step_time_totals profiles records (step_id s) now steps
      = Inr (map (\<lambda>x. if step_id x = step_id s then set_totals cs (sum_list costs) now x else x) steps)"
    using settle_live [OF assms(1-3), of profiles records now] unfolding cs_def by blast
  then have mem: "set_totals cs (sum_list costs) now s \<in> set steps'" using assms(2,6) by force
  have unique: "filter (\<lambda>x. step_id x = step_id s) steps = [s]"
    using filter_key_unique [OF assms(1,2), of "\<lambda>_. True"] by simp
  have count: "bucket_count b cs = int (length (filter (\<lambda>r. attributed_to r \<noteq> None \<and> counted r \<and> bucket_state r = b)
      (time_records records (step_id s))))" if "b \<in> set settled_buckets" for b
    unfolding cs_def by (rule settled_count [OF unique assms(4) _ that]) (rule assms(5))
  show ?thesis
    by (rule bexI [OF _ mem]) (simp add: set_totals_def count settled_buckets_def)
qed

definition sample_step :: task_step where
  "sample_step = \<lparr>step_id = ''s'', step_task_id = ''t'', step_state = StepPAUSED,
     readiness_status = ReadinessREADY, sequence_order = None, working_section_id = ''sew'', working_section_name_snapshot = None,
     assigned_worker_id = None, allows_batch_working = False, total_dependencies = 0, completed_dependencies = 0,
     step_marked_wrong = False, step_taken_from_average = False, total_working_seconds = 0,
     total_pause_seconds = 0, total_ended_shift_seconds = 0, total_working_count = 0, total_pause_count = 0,
     total_ended_shift_count = 0, inaccurate_working_seconds = 0, inaccurate_pause_seconds = 0,
     inaccurate_ended_shift_seconds = 0, total_cost_minor = 0, latest_state_record_id = None,
     step_closed_at = None, step_updated_at = None, step_updated_by_id = None, step_is_deleted = False\<rparr>"

definition state_row :: "string \<Rightarrow> string \<Rightarrow> task_step_state \<Rightarrow> int \<Rightarrow> int option \<Rightarrow> string \<Rightarrow> state_record" where
  "state_row i s st entered exited user = \<lparr>record_id = i, record_step_id = s, record_state = st,
     pause_reason_id = None, transition_reason = None, record_description = None, entered_at = entered,
     exited_at = exited, created_by_id = Some user, credited_user_id = None, record_marked_wrong = False,
     record_taken_from_average = False, record_updated_at = None, record_is_deleted = False\<rparr>"

definition sample_records :: "state_record list" where
  "sample_records = [state_row ''r1'' ''s'' StepWORKING 0 (Some 60000000) ''u'',
     state_row ''r2'' ''s'' StepPAUSED 60000000 (Some 90000000) ''u'',
     state_row ''r3'' ''s'' StepWORKING 90000000 (Some 100000000) ''v'', state_row ''r4'' ''s'' StepPAUSED 100000000 None ''v'']"

lemma sample_step_unique: "distinct (map step_id [sample_step])"
  by simp

lemma settlement_is_absolute_witness:
  "\<exists>steps'. settle_step_time_totals [] sample_records ''s'' 100000000 [sample_step] = Inr steps'
    \<and> map (\<lambda>s. (total_working_seconds s, total_pause_seconds s)) steps' = [(70, 30)]
    \<and> settle_step_time_totals [] sample_records ''s'' 100000000 steps' = Inr steps'"
proof -
  obtain steps' where steps': "settle_step_time_totals [] sample_records ''s'' 100000000 [sample_step] = Inr steps'"
    "settle_step_time_totals [] sample_records ''s'' 100000000 steps' = Inr steps'"
    using settlement_is_absolute [OF sample_step_unique, of "[]" sample_records "''s''" 100000000] by blast
  moreover have "(case settle_step_time_totals [] sample_records ''s'' 100000000 [sample_step] of Inl _ \<Rightarrow> []
      | Inr steps' \<Rightarrow> map (\<lambda>s. (total_working_seconds s, total_pause_seconds s)) steps') = [(70, 30)]"
    by code_simp
  ultimately show ?thesis by simp
qed

lemma settlement_counts_closed_records_witness:
  "\<exists>steps' s'. settle_step_time_totals [] sample_records ''s'' 100000000 [sample_step] = Inr steps' \<and> s' \<in> set steps'
    \<and> total_working_count s' = 2 \<and> total_pause_count s' = 1"
proof -
  obtain steps' where run: "settle_step_time_totals [] sample_records (step_id sample_step) 100000000 [sample_step] = Inr steps'"
    using settlement_is_absolute [OF sample_step_unique, of "[]" sample_records "step_id sample_step" 100000000] by blast
  have "step_id sample_step = ''s''" "\<not> step_is_deleted sample_step" "\<not> step_marked_wrong sample_step"
    by (simp_all add: sample_step_def)
  moreover have "entered_at r \<le> e" if "r \<in> set (time_records sample_records (step_id sample_step))" "exited_at r = Some e" for r e
  proof -
    have "\<forall>r \<in> set sample_records. \<forall>e. exited_at r = Some e \<longrightarrow> entered_at r \<le> e"
      by (simp add: sample_records_def state_row_def)
    then show ?thesis using that by (simp add: time_records_def)
  qed
  ultimately show ?thesis
    using settlement_counts_closed_records [OF sample_step_unique _ _ _ _ run] run
    by (auto simp: sample_records_def time_records_def state_row_def TIME_BEARING_STATES_def attributed_to_def
        counted_def bucket_state_def sample_step_def)
qed
end
