(* ===== verification/StepTransition.thy ===== *)
theory StepTransition
  imports StepReadiness TaskSideEffects StepSettlement
begin

text \<open>
  The step state machine: the shared core \<open>services/commands/task_steps/_step_transition_core.py\<close>, the
  single-step endpoint \<open>transition_step_state.py\<close> that mirrors it, the task side of
  \<open>services/commands/tasks/_task_state_transitions.py\<close>, and the drivers of the core.

  The state is the store of one workspace. The code mutates mapped objects, so a write changes the
  assigned fields of the row with that identifier and leaves the rest of it alone (\<open>update_step\<close>,
  \<open>update_record\<close>, \<open>update_task\<close>); what the code reads from an object before the writes is an argument. An
  exception aborts the transaction, so it carries no store. The read-only resolution of notification
  recipients and the realtime events are left out. Messages are cut where the code has a dash. Identifiers are
  never empty, so \<open>a or b\<close> and \<open>COALESCE(a, b)\<close> of optional identifiers agree.
\<close>

section \<open>The store\<close>

record transition_payload =
  tp_step_id :: string
  tp_task_id :: string
  tp_closing_record_id :: string
  tp_closing_state :: task_step_state
  tp_new_state :: task_step_state
  tp_performed_by_user_id :: string
  tp_credited_user_id :: string
  tp_assigned_worker_id :: "string option"
  tp_working_section_id :: string
  tp_working_section_name_snapshot :: "string option"
  tp_entered_at :: int
  tp_exited_at :: int
  tp_closing_record_marked_wrong :: bool

datatype outbox_entry =
    ProcessStepTransition transition_payload
  | ProcessItemCostResult string

record item_row =
  item_id :: string
  article_number :: "string option"
  sku :: "string option"
  item_is_deleted :: bool

record acknowledgment =
  ack_step_id :: string
  ack_worker_id :: string
  first_seen_at :: "int option"
  acknowledged_at :: "int option"
  ack_updated_at :: "int option"
  ack_is_deleted :: bool

record pause_reason_row =
  reason_id :: string
  requires_description :: bool
  linked_user_ids :: "string list"
  linked_working_section_ids :: "string list"
  reason_is_deleted :: bool

record store =
  tasks :: "task_row list"
  steps :: "task_step list"
  records :: "state_record list"
  edges :: "dependency list"
  items :: "item_row list"
  profiles :: "(string \<times> decimal option) list"
  fabric :: fabric_db
  aux :: aux_db
  acknowledgments :: "acknowledgment list"
  pause_reasons :: "pause_reason_row list"
  outbox :: "outbox_entry list"
  drawn :: nat

text \<open>The caller: the acting user and the identifier source (\<open>generate_id\<close>, by draw).\<close>

record request_context =
  ctx_user_id :: string
  generate_id :: "nat \<Rightarrow> string"

definition update_step :: "string \<Rightarrow> (task_step \<Rightarrow> task_step) \<Rightarrow> store \<Rightarrow> store" where
  "update_step i f db = db\<lparr>steps := map (\<lambda>s. if step_id s = i then f s else s) (steps db)\<rparr>"

definition update_record :: "string \<Rightarrow> (state_record \<Rightarrow> state_record) \<Rightarrow> store \<Rightarrow> store" where
  "update_record i f db = db\<lparr>records := map (\<lambda>r. if record_id r = i then f r else r) (records db)\<rparr>"

definition update_task :: "string \<Rightarrow> (task_row \<Rightarrow> task_row) \<Rightarrow> store \<Rightarrow> store" where
  "update_task i f db = db\<lparr>tasks := map (\<lambda>t. if task_id t = i then f t else t) (tasks db)\<rparr>"

definition emit :: "outbox_entry \<Rightarrow> store \<Rightarrow> store" where
  "emit e db = db\<lparr>outbox := outbox db @ [e]\<rparr>"

definition find_task :: "store \<Rightarrow> string \<Rightarrow> task_row option" where
  "find_task db tid = find (\<lambda>t. task_id t = tid) (tasks db)"

text \<open>\<open>session.add(StepStateRecord(...)); flush()\<close>: the new record and its identifier.\<close>

definition add_record :: "request_context \<Rightarrow> (string \<Rightarrow> state_record) \<Rightarrow> store \<Rightarrow> string \<times> store" where
  "add_record ctx mk db =
     (let i = generate_id ctx (drawn db) in
      (i, db\<lparr>records := records db @ [mk i], drawn := drawn db + 1\<rparr>))"

definition open_state_record ::
    "string \<Rightarrow> task_step_state \<Rightarrow> string option \<Rightarrow> transition_reason option \<Rightarrow> string option \<Rightarrow> int \<Rightarrow> string \<Rightarrow> string
      \<Rightarrow> string \<Rightarrow> state_record" where
  "open_state_record sid state pause_reason reason description now user credited i =
     \<lparr>record_id = i, record_step_id = sid, record_state = state, pause_reason_id = pause_reason,
      transition_reason = reason, record_description = description, entered_at = now, exited_at = None,
      created_by_id = Some user, credited_user_id = Some credited, record_marked_wrong = False,
      record_taken_from_average = False, record_updated_at = None, record_is_deleted = False\<rparr>"

section \<open>The task side\<close>

definition maybe_advance_task_to_working :: "string \<Rightarrow> int \<Rightarrow> string \<Rightarrow> store \<Rightarrow> store" where
  "maybe_advance_task_to_working tid now user = update_task tid (\<lambda>t.
     if task_state t \<noteq> TaskASSIGNED then t
     else t\<lparr>task_state := TaskWORKING, task_updated_at := Some now, task_updated_by_id := Some user\<rparr>)"

definition maybe_reopen_task_to_working :: "string \<Rightarrow> int \<Rightarrow> string \<Rightarrow> store \<Rightarrow> store \<times> bool" where
  "maybe_reopen_task_to_working tid now user db =
     (case find_task db tid of
        None \<Rightarrow> (db, False)
      | Some t \<Rightarrow>
          if task_state t \<noteq> TaskREADY then (db, False)
          else (emit (ProcessItemCostResult tid)
                 (update_task tid (\<lambda>t. t\<lparr>task_state := TaskWORKING, task_updated_at := Some now,
                    task_updated_by_id := Some user, task_completed_at := None\<rparr>) db), True))"

definition live_steps :: "store \<Rightarrow> string \<Rightarrow> task_step list" where
  "live_steps db tid = filter (\<lambda>s. step_task_id s = tid \<and> \<not> step_is_deleted s) (steps db)"

definition maybe_evaluate_task_ready :: "string \<Rightarrow> int \<Rightarrow> string \<Rightarrow> bool \<Rightarrow> store \<Rightarrow> (store \<times> bool) result" where
  "maybe_evaluate_task_ready tid now user allow_stepless db =
     (case find_task db tid of
        None \<Rightarrow> Inr (db, False)
      | Some t \<Rightarrow>
          if task_state t \<in> TERMINAL_TASK_STATES then Inr (db, False)
          else if task_state t = TaskREADY then Inr (db, False)
          else
            let all_steps = live_steps db tid in
            if all_steps \<noteq> [] \<and> \<not> (\<forall>s \<in> set all_steps. step_state s \<in> TERMINAL_STEP_STATES) then Inr (db, False)
            else if all_steps = [] \<and> \<not> allow_stepless then Inr (db, False)
            else
              let t' = t\<lparr>task_state := TaskREADY, task_updated_at := Some now, task_completed_at := Some now,
                         task_updated_by_id := Some user\<rparr>;
                  db = update_task tid (\<lambda>_. t') db in
              rbind (reconcile_task_side_effects t' now (aux db)) (\<lambda>aux'.
                Inr (emit (ProcessItemCostResult tid) (db\<lparr>aux := aux'\<rparr>), True)))"

section \<open>The pieces of a step transition\<close>

definition settle :: "string \<Rightarrow> task_step_state \<Rightarrow> string \<Rightarrow> int \<Rightarrow> store \<Rightarrow> store result" where
  "settle sid closing_state credited now db =
     rbind (settle_closed_step_time (profiles db) (records db) sid closing_state (Some credited) now (steps db)) (\<lambda>steps'.
       Inr (db\<lparr>steps := steps'\<rparr>))"

definition apply_inaccurate_time_flag :: "string \<Rightarrow> string \<Rightarrow> int \<Rightarrow> store \<Rightarrow> store" where
  "apply_inaccurate_time_flag rid sid now db =
     update_step sid (\<lambda>s. s\<lparr>step_marked_wrong := True, step_taken_from_average := True, step_updated_at := Some now\<rparr>)
       (update_record rid (\<lambda>r. r\<lparr>record_marked_wrong := True, record_taken_from_average := True,
          record_updated_at := Some now\<rparr>) db)"

text \<open>\<open>fetch_open_user_working_record\<close>: the open working records of the users on other non-batch steps.\<close>

definition conflicting_rows :: "store \<Rightarrow> string list \<Rightarrow> string \<Rightarrow> (state_record \<times> task_step) list" where
  "conflicting_rows db user_ids exclude_step_id =
     concat (map (\<lambda>r. map (\<lambda>s. (r, s)) (filter (\<lambda>s. step_id s = record_step_id r
         \<and> \<not> step_is_deleted s \<and> \<not> allows_batch_working s) (steps db)))
       (filter (\<lambda>r. (\<exists>u \<in> set user_ids. created_by_id r = Some u) \<and> record_state r = StepWORKING
          \<and> exited_at r = None \<and> record_step_id r \<noteq> exclude_step_id) (records db)))"

definition fetch_open_user_working_record ::
    "store \<Rightarrow> string list \<Rightarrow> string \<Rightarrow> (state_record \<times> task_step) option" where
  "fetch_open_user_working_record db user_ids exclude_step_id =
     (case conflicting_rows db user_ids exclude_step_id of [] \<Rightarrow> None | row # _ \<Rightarrow> Some row)"

definition text_or :: "string option \<Rightarrow> string option \<Rightarrow> string option" where
  \<comment> \<open>\<open>a or b\<close> of optional strings\<close>
  "text_or a b = (if truthy_text a then a else b)"

definition auto_pause_description :: "store \<Rightarrow> string \<Rightarrow> string option result" where
  "auto_pause_description db tid =
     rbind (scalar_one_or_none (filter (\<lambda>ti. task_item_task_id ti = tid \<and> task_item_removed_at ti = None
       \<and> task_item_role ti = RolePRIMARY) (task_items (fabric db)))) (\<lambda>primary.
     case primary of
       None \<Rightarrow> Inr None
     | Some ti \<Rightarrow>
         rbind (scalar_one_or_none (filter (\<lambda>i. item_id i = task_item_item_id ti \<and> \<not> item_is_deleted i) (items db)))
         (\<lambda>new_item. case new_item of
            None \<Rightarrow> Inr None
          | Some item \<Rightarrow>
              let identifier = text_or (article_number item) (sku item) in
              Inr (if truthy_text identifier
                   then Some (''started working with '' @ the identifier) else None)))"

definition payload ::
    "request_context \<Rightarrow> task_step \<Rightarrow> string \<Rightarrow> state_record \<Rightarrow> task_step_state \<Rightarrow> task_step_state \<Rightarrow> string \<Rightarrow> int \<Rightarrow> bool
      \<Rightarrow> outbox_entry" where
  "payload ctx step tid closing closing_state new_state credited now marked_wrong =
     ProcessStepTransition \<lparr>tp_step_id = step_id step, tp_task_id = tid, tp_closing_record_id = record_id closing,
       tp_closing_state = closing_state, tp_new_state = new_state, tp_performed_by_user_id = ctx_user_id ctx,
       tp_credited_user_id = credited, tp_assigned_worker_id = assigned_worker_id step,
       tp_working_section_id = working_section_id step,
       tp_working_section_name_snapshot = working_section_name_snapshot step,
       tp_entered_at = entered_at closing, tp_exited_at = now, tp_closing_record_marked_wrong = marked_wrong\<rparr>"

text \<open>The one-active-step rule: pause the working record of one of the users on another step.\<close>

definition auto_pause :: "request_context \<Rightarrow> string \<Rightarrow> state_record \<Rightarrow> task_step \<Rightarrow> int \<Rightarrow> store \<Rightarrow> store result" where
  "auto_pause ctx tid conflicting_record conflicting_step now db =
     (let db = update_record (record_id conflicting_record) (\<lambda>r. r\<lparr>exited_at := Some now\<rparr>) db in
      rbind (auto_pause_description db tid) (\<lambda>description.
      let (rid, db) = add_record ctx (open_state_record (step_id conflicting_step) StepPAUSED None
            (Some ReasonOTHER_TASK_PRIORITY) description now (ctx_user_id ctx) (ctx_user_id ctx)) db;
          db = update_step (step_id conflicting_step) (\<lambda>s. s\<lparr>step_state := StepPAUSED, latest_state_record_id := Some rid,
            step_updated_at := Some now, step_updated_by_id := Some (ctx_user_id ctx)\<rparr>) db in
      rbind (settle (step_id conflicting_step) StepWORKING (ctx_user_id ctx) now db) (\<lambda>db.
        Inr (emit (payload ctx conflicting_step (step_task_id conflicting_step) conflicting_record StepWORKING StepPAUSED
          (ctx_user_id ctx) now (record_marked_wrong conflicting_record)) db))))"

definition auto_pause_guard ::
    "request_context \<Rightarrow> task_step \<Rightarrow> string \<Rightarrow> task_step_state \<Rightarrow> string \<Rightarrow> int \<Rightarrow> store \<Rightarrow> (store \<times> string option) result" where
  "auto_pause_guard ctx step tid new_state credited now db =
     (if new_state = StepWORKING \<and> \<not> allows_batch_working step then
        (case fetch_open_user_working_record db [ctx_user_id ctx, credited] (step_id step) of
           None \<Rightarrow> Inr (db, None)
         | Some (conflicting_record, conflicting_step) \<Rightarrow>
             rbind (auto_pause ctx tid conflicting_record conflicting_step now db) (\<lambda>db.
               Inr (db, Some (step_id conflicting_step))))
      else Inr (db, None))"

section \<open>The shared core\<close>

record transition_applied =
  ta_step_id :: string
  ta_new_state :: task_step_state
  ta_new_record_id :: string
  ta_auto_paused :: "string option"
  ta_readiness_changed :: "(string \<times> task_step_readiness) list"
  ta_task_became_ready :: bool
  ta_upholstery_events :: "string list"

text \<open>Closing the open record and opening the new one, with the flags and the step's own columns.\<close>

definition switch_record ::
    "request_context \<Rightarrow> task_step \<Rightarrow> state_record \<Rightarrow> task_step_state \<Rightarrow> string option \<Rightarrow> transition_reason option
      \<Rightarrow> string option \<Rightarrow> string \<Rightarrow> bool \<Rightarrow> int \<Rightarrow> store \<Rightarrow> string \<times> store" where
  "switch_record ctx step closing new_state pause_reason reason description credited mark now db =
     (let sid = step_id step;
          time_bearing = (record_state closing \<in> TIME_BEARING_STATES);
          db = update_record (record_id closing) (\<lambda>r. r\<lparr>exited_at := Some now\<rparr>) db;
          db = (if mark \<and> time_bearing then apply_inaccurate_time_flag (record_id closing) sid now db else db);
          (rid, db) = add_record ctx (open_state_record sid new_state pause_reason reason description now
            (ctx_user_id ctx) credited) db;
          db = (if mark \<and> new_state = StepCOMPLETED \<and> time_bearing then apply_inaccurate_time_flag rid sid now db else db) in
      (rid, update_step sid (\<lambda>s. s\<lparr>step_state := new_state, latest_state_record_id := Some rid,
         step_updated_at := Some now, step_updated_by_id := Some (ctx_user_id ctx)\<rparr>) db))"

definition cascade_completion :: "string \<Rightarrow> store \<Rightarrow> (store \<times> (task_step \<times> task_step_readiness) list) result" where
  "cascade_completion sid db =
     rbind (cascade_step_completion (steps db) (edges db) sid) (\<lambda>(steps', changes). Inr (db\<lparr>steps := steps'\<rparr>, changes))"

definition terminal_effects ::
    "task_step_state \<Rightarrow> string \<Rightarrow> string \<Rightarrow> int \<Rightarrow> string \<Rightarrow> store
      \<Rightarrow> (store \<times> bool \<times> (task_step \<times> task_step_readiness) list) result" where
  "terminal_effects new_state sid tid now user db =
     (if new_state \<in> TERMINAL_STEP_STATES then
        rbind (maybe_evaluate_task_ready tid now user False db) (\<lambda>(db, became_ready).
          if new_state = StepCOMPLETED
          then rbind (cascade_completion sid db) (\<lambda>(db, changes). Inr (db, became_ready, changes))
          else Inr (db, became_ready, []))
      else Inr (db, False, []))"

definition upholstery_effect ::
    "task_step \<Rightarrow> string \<Rightarrow> task_step_state \<Rightarrow> string \<Rightarrow> int \<Rightarrow> store \<Rightarrow> (store \<times> string list) result" where
  "upholstery_effect step tid new_state user now db =
     rbind (apply_upholstery_installation_side_effect (fabric db) tid (working_section_name_snapshot step) new_state user now)
       (\<lambda>(f, events). Inr (db\<lparr>fabric := f\<rparr>, events))"

definition record_marked :: "store \<Rightarrow> string \<Rightarrow> bool" where
  "record_marked db rid \<longleftrightarrow> (\<exists>r \<in> set (records db). record_id r = rid \<and> record_marked_wrong r)"

definition apply_step_transition ::
    "request_context \<Rightarrow> task_step \<Rightarrow> string \<Rightarrow> state_record \<Rightarrow> task_step_state \<Rightarrow> string option
      \<Rightarrow> string option \<Rightarrow> string \<Rightarrow> int \<Rightarrow> transition_reason option \<Rightarrow> bool \<Rightarrow> store
      \<Rightarrow> (store \<times> transition_applied) result" where
  "apply_step_transition ctx step tid closing new_state pause_reason description credited now reason mark db =
     rbind (auto_pause_guard ctx step tid new_state credited now db) (\<lambda>(db, auto_paused).
     let sid = step_id step; user = ctx_user_id ctx;
         (rid, db) = switch_record ctx step closing new_state pause_reason reason description credited mark now db in
     rbind (settle sid (record_state closing) credited now db) (\<lambda>db.
     let db = (if new_state \<in> TERMINAL_STEP_STATES then update_step sid (\<lambda>s. s\<lparr>step_closed_at := Some now\<rparr>) db else db);
         db = (if new_state = StepWORKING then maybe_advance_task_to_working tid now user db else db) in
     rbind (terminal_effects new_state sid tid now user db) (\<lambda>(db, became_ready, changes).
     rbind (upholstery_effect step tid new_state user now db) (\<lambda>(db, events).
     let db = emit (payload ctx step tid closing (record_state closing) new_state credited now
                (record_marked db (record_id closing))) db in
     Inr (db, \<lparr>ta_step_id = sid, ta_new_state = new_state, ta_new_record_id = rid, ta_auto_paused = auto_paused,
               ta_readiness_changed = map (\<lambda>(dep, _). (step_id dep, readiness_status dep)) changes,
               ta_task_became_ready = became_ready, ta_upholstery_events = events\<rparr>)))))"

section \<open>The single-step endpoint\<close>

fun ALLOWED_TRANSITIONS :: "task_step_state \<Rightarrow> task_step_state list" where
  "ALLOWED_TRANSITIONS StepPENDING = [StepWORKING]"
| "ALLOWED_TRANSITIONS StepWORKING = [StepPAUSED, StepCOMPLETED, StepFAILED, StepCANCELLED]"
| "ALLOWED_TRANSITIONS StepPAUSED = [StepWORKING, StepFAILED, StepCANCELLED]"
| "ALLOWED_TRANSITIONS StepCOMPLETED = []"
| "ALLOWED_TRANSITIONS StepSKIPPED = []"
| "ALLOWED_TRANSITIONS StepFAILED = []"
| "ALLOWED_TRANSITIONS StepCANCELLED = []"
| "ALLOWED_TRANSITIONS StepBLOCKED = []"

record transition_request =
  rq_step_id :: string
  rq_task_id :: string
  rq_new_state :: task_step_state
  rq_credited_user_id :: "string option"
  rq_pause_reason_id :: "string option"
  rq_description :: "string option"
  rq_mark_closing_record_inaccurate :: bool

definition is_pause_reason_eligible :: "string list \<Rightarrow> string list \<Rightarrow> string list \<Rightarrow> string list \<Rightarrow> bool" where
  "is_pause_reason_eligible linked_users linked_sections target_users target_sections \<longleftrightarrow>
     (linked_users = [] \<or> set target_users \<subseteq> set linked_users)
     \<and> (linked_sections = [] \<or> set target_sections \<subseteq> set linked_sections)"

definition resolve_transition_credit_user_id :: "request_context \<Rightarrow> transition_request \<Rightarrow> string" where
  "resolve_transition_credit_user_id ctx rq =
     (if truthy_text (rq_credited_user_id rq) then the (rq_credited_user_id rq) else ctx_user_id ctx)"

definition should_mark_latest_record_inaccurate :: "transition_request \<Rightarrow> task_step_state \<Rightarrow> bool" where
  "should_mark_latest_record_inaccurate rq closing_state \<longleftrightarrow>
     rq_mark_closing_record_inaccurate rq \<and> rq_new_state rq = StepCOMPLETED \<and> closing_state \<in> TIME_BEARING_STATES"

definition completed_the_whole_task :: "bool \<Rightarrow> task_step_state \<Rightarrow> bool" where
  "completed_the_whole_task task_became_ready new_state \<longleftrightarrow> task_became_ready \<and> new_state = StepCOMPLETED"

definition find_pause_reason :: "store \<Rightarrow> string option \<Rightarrow> string option \<Rightarrow> pause_reason_row option result" where
  "find_pause_reason db pause_reason description =
     (case pause_reason of
        None \<Rightarrow> Inr None
      | Some i \<Rightarrow>
          (case filter (\<lambda>p. reason_id p = i \<and> \<not> reason_is_deleted p) (pause_reasons db) of
             [] \<Rightarrow> Inl (NotFound ''Pause reason not found.'')
           | p # _ \<Rightarrow>
               if requires_description p \<and> strip (case description of None \<Rightarrow> [] | Some d \<Rightarrow> d) = []
               then Inl (ValidationError ''A description is required for the selected pause reason.'')
               else Inr (Some p)))"

definition assert_pause_reason_eligible :: "pause_reason_row option \<Rightarrow> string list \<Rightarrow> string list \<Rightarrow> unit result" where
  "assert_pause_reason_eligible found target_users target_sections =
     (case found of
        None \<Rightarrow> Inr ()
      | Some p \<Rightarrow> rguard (is_pause_reason_eligible (linked_user_ids p) (linked_working_section_ids p)
            target_users target_sections)
          (ValidationError ''The selected pause reason is not available for this worker or working section.''))"

definition mark_step_obligations_acknowledged :: "string list \<Rightarrow> int \<Rightarrow> store \<Rightarrow> store" where
  "mark_step_obligations_acknowledged step_ids now db = db\<lparr>acknowledgments := map (\<lambda>a.
     if ack_step_id a \<in> set step_ids \<and> acknowledged_at a = None \<and> \<not> ack_is_deleted a
     then a\<lparr>acknowledged_at := Some now,
            first_seen_at := (case first_seen_at a of None \<Rightarrow> Some now | Some t \<Rightarrow> Some t), ack_updated_at := Some now\<rparr>
     else a) (acknowledgments db)\<rparr>"

text \<open>The endpoint's own copy of the transition, from the auto-pause to the outbox entry of the analytics worker.\<close>

definition transition_body ::
    "request_context \<Rightarrow> transition_request \<Rightarrow> task_step \<Rightarrow> string \<Rightarrow> string \<Rightarrow> int \<Rightarrow> store
      \<Rightarrow> (store \<times> transition_applied) result" where
  "transition_body ctx rq step tid credited now db =
     (let new_state = rq_new_state rq; sid = step_id step; user = ctx_user_id ctx in
      rbind (auto_pause_guard ctx step tid new_state credited now db) (\<lambda>(db, auto_paused).
      rbind (scalar_or_raise (ConflictError ''No open state record found for this step.'')
        (filter (\<lambda>r. record_step_id r = sid \<and> exited_at r = None) (records db))) (\<lambda>closing.
      let closing_state = record_state closing;
          db = update_record (record_id closing) (\<lambda>r. r\<lparr>exited_at := Some now\<rparr>) db;
          db = (if rq_mark_closing_record_inaccurate rq \<and> closing_state \<in> TIME_BEARING_STATES
                then apply_inaccurate_time_flag (record_id closing) sid now db else db);
          (rid, db) = add_record ctx (open_state_record sid new_state (rq_pause_reason_id rq) None
            (rq_description rq) now user credited) db;
          db = (if should_mark_latest_record_inaccurate rq closing_state then apply_inaccurate_time_flag rid sid now db else db);
          db = update_step sid (\<lambda>s. s\<lparr>step_state := new_state, latest_state_record_id := Some rid,
             step_updated_at := Some now, step_updated_by_id := Some user\<rparr>) db in
      rbind (settle sid closing_state credited now db) (\<lambda>db.
      let db = (if new_state \<in> TERMINAL_STEP_STATES then update_step sid (\<lambda>s. s\<lparr>step_closed_at := Some now\<rparr>) db else db);
          db = (if new_state = StepWORKING
                then mark_step_obligations_acknowledged [sid] now (maybe_advance_task_to_working tid now user db) else db) in
      rbind (if new_state \<in> TERMINAL_STEP_STATES then maybe_evaluate_task_ready tid now user False db
             else Inr (db, False)) (\<lambda>(db, became_ready).
      rbind (if new_state = StepCOMPLETED then cascade_completion sid db else Inr (db, [])) (\<lambda>(db, changes).
      rbind (upholstery_effect step tid new_state user now db) (\<lambda>(db, events).
      let db = emit (payload ctx step tid closing closing_state new_state credited now
                 (record_marked db (record_id closing))) db in
      Inr (db, \<lparr>ta_step_id = sid, ta_new_state = new_state, ta_new_record_id = rid, ta_auto_paused = auto_paused,
                ta_readiness_changed = map (\<lambda>(dep, _). (step_id dep, readiness_status dep)) changes,
                ta_task_became_ready = became_ready, ta_upholstery_events = events\<rparr>))))))))"

definition transition_step_state ::
    "request_context \<Rightarrow> transition_request \<Rightarrow> int \<Rightarrow> store \<Rightarrow> (store \<times> transition_applied) result" where
  "transition_step_state ctx rq now db =
     rbind (scalar_or_raise (NotFound ''Task step not found.'')
       (filter (\<lambda>s. step_task_id s = rq_task_id rq) (live_step (steps db) (rq_step_id rq)))) (\<lambda>step.
     rbind (rguard (step_state step \<notin> TERMINAL_STEP_STATES)
       (ConflictError (''Step is in terminal state '' @ step_state_value (step_state step)))) (\<lambda>_.
     rbind (rguard (rq_new_state rq \<in> set (ALLOWED_TRANSITIONS (step_state step)))
       (ValidationError (''Cannot transition step from '' @ step_state_value (step_state step) @ '' to ''
          @ step_state_value (rq_new_state rq) @ ''.''))) (\<lambda>_.
     rbind (scalar_or_raise (NotFound ''Task not found.'')
       (filter (\<lambda>t. task_id t = step_task_id step \<and> \<not> task_is_deleted t) (tasks db))) (\<lambda>task.
     let credited = resolve_transition_credit_user_id ctx rq in
     rbind (find_pause_reason db (rq_pause_reason_id rq) (rq_description rq)) (\<lambda>found.
     rbind (assert_pause_reason_eligible found [credited] [working_section_id step]) (\<lambda>_.
       transition_body ctx rq step (task_id task) credited now db))))))"

section \<open>The drivers of the core\<close>

subsection \<open>Batches\<close>

record batch_item =
  bi_step_id :: string
  bi_task_id :: string
  bi_mark_closing_record_inaccurate :: bool

definition last_match :: "('r \<Rightarrow> bool) \<Rightarrow> 'r list \<Rightarrow> 'r option" where
  \<comment> \<open>a lookup in \<open>{key(r): r for r in rows}\<close>\<close>
  "last_match P rows = find P (rev rows)"

definition batch_item_error :: "store \<Rightarrow> task_step_state \<Rightarrow> batch_item \<Rightarrow> string option" where
  "batch_item_error db new_state item =
     (case last_match (\<lambda>s. step_id s = bi_step_id item \<and> \<not> step_is_deleted s) (steps db) of
        None \<Rightarrow> Some ''Task step not found.''
      | Some step \<Rightarrow>
          if step_task_id step \<noteq> bi_task_id item then Some ''Step does not belong to the provided task.''
          else if \<not> allows_batch_working step then Some ''Step is not batch-capable.''
          else if last_match (\<lambda>t. task_id t = step_task_id step \<and> \<not> task_is_deleted t) (tasks db) = None
          then Some ''Task not found.''
          else if step_state step \<in> TERMINAL_STEP_STATES
          then Some (''Step is in terminal state '' @ step_state_value (step_state step) @ ''.'')
          else if new_state \<notin> set (ALLOWED_TRANSITIONS (step_state step))
          then Some (''Cannot transition from '' @ step_state_value (step_state step) @ '' to ''
                 @ step_state_value new_state @ ''.'')
          else if last_match (\<lambda>r. record_step_id r = bi_step_id item \<and> exited_at r = None) (records db) = None
          then Some ''No open state record found for this step.''
          else None)"

definition format_batch_errors :: "store \<Rightarrow> task_step_state \<Rightarrow> batch_item list \<Rightarrow> string" where
  "format_batch_errors db new_state batch = ''Batch transition rejected: '' @ intercalate ''; ''
     (concat (map (\<lambda>item. case batch_item_error db new_state item of
        None \<Rightarrow> [] | Some e \<Rightarrow> [bi_step_id item @ '': '' @ e]) batch))"

definition batch_step ::
    "request_context \<Rightarrow> store \<Rightarrow> task_step_state \<Rightarrow> string option \<Rightarrow> string option \<Rightarrow> int
      \<Rightarrow> store \<times> transition_applied list \<Rightarrow> batch_item \<Rightarrow> (store \<times> transition_applied list) result" where
  \<comment> \<open>\<open>loaded\<close> is the store the three queries read before the loop\<close>
  "batch_step ctx loaded new_state pause_reason description now acc item =
     (case (last_match (\<lambda>s. step_id s = bi_step_id item \<and> \<not> step_is_deleted s) (steps loaded),
            last_match (\<lambda>r. record_step_id r = bi_step_id item \<and> exited_at r = None) (records loaded)) of
        (Some step, Some closing) \<Rightarrow>
          rbind (apply_step_transition ctx step (step_task_id step) closing new_state pause_reason description
            (ctx_user_id ctx) now None (bi_mark_closing_record_inaccurate item) (fst acc)) (\<lambda>(db, applied).
            Inr (db, snd acc @ [applied]))
      | _ \<Rightarrow> Inl (KeyError (bi_step_id item)))"

text \<open>Up to the acknowledgment of the obligations; the notifications and the stock report follow it in the code.\<close>

definition transition_step_state_batch ::
    "request_context \<Rightarrow> batch_item list \<Rightarrow> task_step_state \<Rightarrow> string option \<Rightarrow> string option \<Rightarrow> int \<Rightarrow> store
      \<Rightarrow> (store \<times> transition_applied list) result" where
  "transition_step_state_batch ctx batch new_state pause_reason description now db =
     (let sections = map working_section_id
            (filter (\<lambda>s. step_id s \<in> set (map bi_step_id batch) \<and> \<not> step_is_deleted s) (steps db)) in
      rbind (find_pause_reason db pause_reason description) (\<lambda>found.
      rbind (rguard (\<forall>item \<in> set batch. batch_item_error db new_state item = None)
        (ValidationError (format_batch_errors db new_state batch))) (\<lambda>_.
      rbind (assert_pause_reason_eligible found [ctx_user_id ctx] sections) (\<lambda>_.
      rbind (rfold (batch_step ctx db new_state pause_reason description now) (db, []) batch) (\<lambda>(db, applied).
        Inr (if new_state = StepWORKING
             then mark_step_obligations_acknowledged (map bi_step_id batch) now db else db, applied))))))"

subsection \<open>Pausing the working steps of a task\<close>

definition working_rows :: "store \<Rightarrow> string \<Rightarrow> (state_record \<times> task_step) list" where
  "working_rows db tid =
     sort_key (\<lambda>(r, s). (entered_at r, record_id r))
       (concat (map (\<lambda>r. map (\<lambda>s. (r, s)) (filter (\<lambda>s. step_id s = record_step_id r \<and> \<not> step_is_deleted s
           \<and> step_task_id s = tid) (steps db)))
         (filter (\<lambda>r. \<not> record_is_deleted r \<and> exited_at r = None \<and> record_state r = StepWORKING) (records db))))"

definition credit_of :: "state_record \<Rightarrow> string \<Rightarrow> string" where
  "credit_of r user = (if truthy_text (credited_user_id r) then the (credited_user_id r)
     else if truthy_text (created_by_id r) then the (created_by_id r) else user)"

definition pause_row ::
    "request_context \<Rightarrow> string \<Rightarrow> int \<Rightarrow> store \<times> string list \<Rightarrow> state_record \<times> task_step \<Rightarrow> (store \<times> string list) result" where
  "pause_row ctx tid paused_at acc row = (case row of (closing, step) \<Rightarrow>
     rbind (apply_step_transition ctx step tid closing StepPAUSED None (Some ''task deleted'')
       (credit_of closing (ctx_user_id ctx)) (max paused_at (entered_at closing)) (Some ReasonTASK_DELETED) False (fst acc))
       (\<lambda>(db, _). Inr (db, snd acc @ [step_id step])))"

definition pause_task_working_steps :: "request_context \<Rightarrow> string \<Rightarrow> int \<Rightarrow> store \<Rightarrow> (store \<times> string list) result" where
  "pause_task_working_steps ctx tid paused_at db =
     rfold (pause_row ctx tid paused_at) (db, []) (working_rows db tid)"

subsection \<open>Forcing a task ready\<close>

fun FORCE_READY_TRANSITIONS :: "task_step_state \<Rightarrow> task_step_state list" where
  "FORCE_READY_TRANSITIONS StepPENDING = [StepSKIPPED]"
| "FORCE_READY_TRANSITIONS StepWORKING = [StepSKIPPED]"
| "FORCE_READY_TRANSITIONS StepPAUSED = [StepSKIPPED]"
| "FORCE_READY_TRANSITIONS StepBLOCKED = [StepSKIPPED]"
| "FORCE_READY_TRANSITIONS _ = []"

definition force_skip ::
    "request_context \<Rightarrow> store \<Rightarrow> string \<Rightarrow> string option \<Rightarrow> bool \<Rightarrow> int \<Rightarrow> store \<times> string list \<Rightarrow> task_step
      \<Rightarrow> (store \<times> string list) result" where
  "force_skip ctx loaded tid reason mark now acc step =
     (case last_match (\<lambda>r. record_step_id r = step_id step \<and> exited_at r = None) (records loaded) of
        None \<Rightarrow> Inl (KeyError (step_id step))
      | Some closing \<Rightarrow>
          rbind (apply_step_transition ctx step tid closing StepSKIPPED None reason
            (if truthy_text (credited_user_id closing) then the (credited_user_id closing) else ctx_user_id ctx)
            now (Some ReasonFORCED_READY) mark (fst acc)) (\<lambda>(db, _).
          rbind (upholstery_effect step tid StepCOMPLETED (ctx_user_id ctx) now db) (\<lambda>(db, _).
            Inr (db, snd acc @ [step_id step]))))"

definition in_sequence :: "task_step list \<Rightarrow> task_step list" where
  \<comment> \<open>\<open>ORDER BY sequence_order, client_id\<close>: a missing order sorts last\<close>
  "in_sequence = sort_key (\<lambda>s. (sequence_order s = None, case sequence_order s of None \<Rightarrow> 0 | Some n \<Rightarrow> n, step_id s))"

text \<open>Up to the check that the task is ready; the stock report, the history and the notification follow.\<close>

definition force_task_ready ::
    "request_context \<Rightarrow> string \<Rightarrow> string option \<Rightarrow> bool \<Rightarrow> int \<Rightarrow> store
      \<Rightarrow> (store \<times> string list) result" where
  "force_task_ready ctx tid reason mark now db =
     rbind (scalar_or_raise (NotFound ''Task not found.'')
       (filter (\<lambda>t. task_id t = tid \<and> \<not> task_is_deleted t) (tasks db))) (\<lambda>task.
     rbind (rguard (task_state task \<notin> TERMINAL_TASK_STATES) (ConflictError ''Task is already in a terminal state.'')) (\<lambda>_.
     rbind (rguard (task_state task \<noteq> TaskREADY) (ConflictError ''Task is already ready.'')) (\<lambda>_.
     let open_steps = filter (\<lambda>s. step_state s \<notin> TERMINAL_STEP_STATES) (in_sequence (live_steps db tid)) in
     rbind (rguard (\<forall>s \<in> set open_steps. StepSKIPPED \<in> set (FORCE_READY_TRANSITIONS (step_state s)))
       (ValidationError ''Cannot force this task ready'')) (\<lambda>_.
     rbind (rguard (\<forall>s \<in> set open_steps. \<exists>r \<in> set (records db). record_step_id r = step_id s \<and> exited_at r = None)
       (ValidationError ''Cannot force this task ready: no open state record'')) (\<lambda>_.
     rbind (rfold (force_skip ctx db tid reason mark now) (db, []) open_steps) (\<lambda>(db, skipped).
     rbind (maybe_evaluate_task_ready tid now (ctx_user_id ctx) True db) (\<lambda>(db, _).
     rbind (rguard (case find_task db tid of None \<Rightarrow> False | Some t \<Rightarrow> task_state t = TaskREADY)
       (ConflictError ''Task could not be marked ready.'')) (\<lambda>_. Inr (db, skipped)))))))))"

section \<open>The two copies of the transition\<close>

lemma update_record_open:
  assumes "distinct (map record_id (records db))" "r \<in> set (records db)" "record_step_id r \<noteq> i"
    and "\<And>x. record_step_id (f x) = record_step_id x"
  shows "filter (\<lambda>x. record_step_id x = i \<and> exited_at x = None) (records (update_record (record_id r) f db))
    = filter (\<lambda>x. record_step_id x = i \<and> exited_at x = None) (records db)"
proof -
  have other: "record_id x \<noteq> record_id r" if "x \<in> set (records db)" "record_step_id x = i" for x
    using that assms(1-3) by (metis distinct_map inj_onD)
  have "filter (\<lambda>x. record_step_id x = i \<and> exited_at x = None) (map (\<lambda>x. if record_id x = record_id r then f x else x) xs)
      = filter (\<lambda>x. record_step_id x = i \<and> exited_at x = None) xs" if "set xs \<subseteq> set (records db)" for xs
    using that
  proof (induction xs)
    case (Cons x xs)
    have "record_step_id x \<noteq> i" if "record_id x = record_id r"
      using other [of x] Cons.prems that by auto
    then show ?case using Cons assms(4) by (cases "record_id x = record_id r") auto
  qed simp
  then show ?thesis by (simp add: update_record_def)
qed

lemma settle_records: "settle sid st credited now db = Inr db' \<Longrightarrow> records db' = records db"
  by (auto simp: settle_def)

lemma auto_pause_records:
  assumes "auto_pause ctx tid r s now db = Inr db'"
  shows "\<exists>rid d. records db' = records (update_record (record_id r) (\<lambda>x. x\<lparr>exited_at := Some now\<rparr>) db)
    @ [open_state_record (step_id s) StepPAUSED None (Some ReasonOTHER_TASK_PRIORITY) d now (ctx_user_id ctx) (ctx_user_id ctx) rid]"
  using assms
  by (auto simp: auto_pause_def Let_def add_record_def update_step_def emit_def dest!: settle_records) blast

lemma fetch_conflict_in:
  assumes "fetch_open_user_working_record db users i = Some (r, s)"
  shows "r \<in> set (records db)" "s \<in> set (steps db)" "step_id s = record_step_id r" "record_step_id r \<noteq> i"
    "record_state r = StepWORKING" "exited_at r = None" "\<not> step_is_deleted s" "\<not> allows_batch_working s"
    "\<exists>u \<in> set users. created_by_id r = Some u"
proof -
  have "(r, s) \<in> set (conflicting_rows db users i)"
    using assms by (auto simp: fetch_open_user_working_record_def split: list.splits)
  then show "r \<in> set (records db)" "s \<in> set (steps db)" "step_id s = record_step_id r" "record_step_id r \<noteq> i"
    "record_state r = StepWORKING" "exited_at r = None" "\<not> step_is_deleted s" "\<not> allows_batch_working s"
    "\<exists>u \<in> set users. created_by_id r = Some u"
    by (auto simp: conflicting_rows_def)
qed

lemma auto_pause_guard_open:
  assumes "distinct (map record_id (records db))" "auto_pause_guard ctx step tid st credited now db = Inr (db', paused)"
  shows "filter (\<lambda>x. record_step_id x = step_id step \<and> exited_at x = None) (records db')
    = filter (\<lambda>x. record_step_id x = step_id step \<and> exited_at x = None) (records db)"
proof (cases "db' = db")
  case False
  then obtain r s where conflict: "fetch_open_user_working_record db [ctx_user_id ctx, credited] (step_id step) = Some (r, s)"
    and run: "auto_pause ctx tid r s now db = Inr db'"
    using assms(2) by (auto simp: auto_pause_guard_def split: if_splits option.splits)
  note c = fetch_conflict_in [OF conflict]
  obtain rid d where "records db' = records (update_record (record_id r) (\<lambda>x. x\<lparr>exited_at := Some now\<rparr>) db)
      @ [open_state_record (step_id s) StepPAUSED None (Some ReasonOTHER_TASK_PRIORITY) d now (ctx_user_id ctx) (ctx_user_id ctx) rid]"
    using auto_pause_records [OF run] by blast
  then show ?thesis
    using update_record_open [OF assms(1) c(1,4), of "\<lambda>x. x\<lparr>exited_at := Some now\<rparr>"] c(3,4)
    by (simp add: open_state_record_def)
qed simp

lemma transition_body_core:
  assumes "distinct (map record_id (records db))"
    and "filter (\<lambda>r. record_step_id r = step_id step \<and> exited_at r = None) (records db) = [closing]"
  shows "transition_body ctx rq step tid credited now db =
    rbind (apply_step_transition ctx step tid closing (rq_new_state rq) (rq_pause_reason_id rq) (rq_description rq)
      credited now None (rq_mark_closing_record_inaccurate rq) db) (\<lambda>(db', applied).
      Inr (if rq_new_state rq = StepWORKING then mark_step_obligations_acknowledged [step_id step] now db' else db', applied))"
proof (cases "auto_pause_guard ctx step tid (rq_new_state rq) credited now db")
  case (Inl e)
  then show ?thesis by (simp add: transition_body_def apply_step_transition_def)
next
  case (Inr g)
  obtain db1 paused where g: "g = (db1, paused)" by (cases g)
  have opens: "filter (\<lambda>r. record_step_id r = step_id step \<and> exited_at r = None) (records db1) = [closing]"
    using auto_pause_guard_open [OF assms(1)] Inr g assms(2) by simp
  obtain rid db2 where switch: "switch_record ctx step closing (rq_new_state rq) (rq_pause_reason_id rq) None
      (rq_description rq) credited (rq_mark_closing_record_inaccurate rq) now db1 = (rid, db2)"
    by (cases "switch_record ctx step closing (rq_new_state rq) (rq_pause_reason_id rq) None
      (rq_description rq) credited (rq_mark_closing_record_inaccurate rq) now db1")
  define rest where "rest db rid = rbind (settle (step_id step) (record_state closing) credited now db) (\<lambda>db.
      let db = (if rq_new_state rq \<in> TERMINAL_STEP_STATES then update_step (step_id step) (\<lambda>s. s\<lparr>step_closed_at := Some now\<rparr>) db else db);
          db = (if rq_new_state rq = StepWORKING
                then mark_step_obligations_acknowledged [step_id step] now (maybe_advance_task_to_working tid now (ctx_user_id ctx) db) else db) in
      rbind (if rq_new_state rq \<in> TERMINAL_STEP_STATES then maybe_evaluate_task_ready tid now (ctx_user_id ctx) False db
             else Inr (db, False)) (\<lambda>(db, became_ready).
      rbind (if rq_new_state rq = StepCOMPLETED then cascade_completion (step_id step) db else Inr (db, [])) (\<lambda>(db, changes).
      rbind (upholstery_effect step tid (rq_new_state rq) (ctx_user_id ctx) now db) (\<lambda>(db, events).
      let db = emit (payload ctx step tid closing (record_state closing) (rq_new_state rq) credited now
                 (record_marked db (record_id closing))) db in
      Inr (db, \<lparr>ta_step_id = step_id step, ta_new_state = rq_new_state rq, ta_new_record_id = rid, ta_auto_paused = paused,
                ta_readiness_changed = map (\<lambda>(dep, _). (step_id dep, readiness_status dep)) changes,
                ta_task_became_ready = became_ready, ta_upholstery_events = events\<rparr>)))))" for db rid
  have single: "transition_body ctx rq step tid credited now db = rest db2 rid"
    using switch by (auto simp: transition_body_def Inr g opens scalar_or_raise_def switch_record_def
        should_mark_latest_record_inaccurate_def rest_def Let_def case_prod_beta)
  have core: "apply_step_transition ctx step tid closing (rq_new_state rq) (rq_pause_reason_id rq) (rq_description rq)
      credited now None (rq_mark_closing_record_inaccurate rq) db = rbind (settle (step_id step) (record_state closing) credited now db2) (\<lambda>db.
     let db = (if rq_new_state rq \<in> TERMINAL_STEP_STATES then update_step (step_id step) (\<lambda>s. s\<lparr>step_closed_at := Some now\<rparr>) db else db);
         db = (if rq_new_state rq = StepWORKING then maybe_advance_task_to_working tid now (ctx_user_id ctx) db else db) in
     rbind (terminal_effects (rq_new_state rq) (step_id step) tid now (ctx_user_id ctx) db) (\<lambda>(db, became_ready, changes).
     rbind (upholstery_effect step tid (rq_new_state rq) (ctx_user_id ctx) now db) (\<lambda>(db, events).
     let db = emit (payload ctx step tid closing (record_state closing) (rq_new_state rq) credited now
                (record_marked db (record_id closing))) db in
     Inr (db, \<lparr>ta_step_id = step_id step, ta_new_state = rq_new_state rq, ta_new_record_id = rid, ta_auto_paused = paused,
               ta_readiness_changed = map (\<lambda>(dep, _). (step_id dep, readiness_status dep)) changes,
               ta_task_became_ready = became_ready, ta_upholstery_events = events\<rparr>))))"
    by (simp add: apply_step_transition_def Inr g Let_def switch)
  show ?thesis
    unfolding single core rest_def
    by (cases "rq_new_state rq = StepWORKING"; cases "rq_new_state rq = StepCOMPLETED")
      (auto simp: rbind_def terminal_effects_def TERMINAL_STEP_STATES_def upholstery_effect_def emit_def
        mark_step_obligations_acknowledged_def record_marked_def Let_def case_prod_beta split: sum.splits)
qed

text \<open>C4: The single-step endpoint and the shared core are the same transition. The endpoint keeps its own
  copy of the body, which the drift notes ask to keep in step with the core by hand. On a store with unique
  record identifiers in which the step has one open record, the copy behaves exactly like the core called on
  that record without a typed reason - the same store, the same outcome and the same exceptions, through the
  auto-pause, the flags, the settlement, the task and the cascade - except that a start also acknowledges the
  pending obligations of the step.\<close>

theorem single_endpoint_mirrors_core:
  assumes "distinct (map record_id (records db))"
    and "filter (\<lambda>r. record_step_id r = step_id step \<and> exited_at r = None) (records db) = [closing]"
  shows "transition_body ctx rq step tid credited now db =
    rbind (apply_step_transition ctx step tid closing (rq_new_state rq) (rq_pause_reason_id rq) (rq_description rq)
      credited now None (rq_mark_closing_record_inaccurate rq) db) (\<lambda>(db', applied).
      Inr (if rq_new_state rq = StepWORKING then mark_step_obligations_acknowledged [step_id step] now db' else db', applied))"
  by (rule transition_body_core [OF assms])

text \<open>A small workspace: the worker \<open>w\<close> works on step \<open>a\<close>, on which step \<open>b\<close> waits; the manager \<open>m\<close> works
  on step \<open>c\<close> of another task.\<close>

definition sample_id :: "nat \<Rightarrow> string" where
  "sample_id n = ''n'' @ replicate n CHR ''i''"

definition as_user :: "string \<Rightarrow> request_context" where
  "as_user u = \<lparr>ctx_user_id = u, generate_id = sample_id\<rparr>"

definition sample_store :: store where
  "sample_store =
     (let step = (\<lambda>i t st rid. (new_step_row i t ''sew'' st)\<lparr>latest_state_record_id := Some rid\<rparr>);
          task = (\<lambda>i. sample_task\<lparr>task_id := i, task_type := TypeINTERNAL, task_state := TaskWORKING\<rparr>) in
     \<lparr>tasks = [task ''t'', task ''o''],
      steps = [step ''a'' ''t'' StepWORKING ''r1'',
        recalculate_readiness ((step ''b'' ''t'' StepPENDING ''r2'')\<lparr>total_dependencies := 1\<rparr>),
        step ''c'' ''o'' StepWORKING ''r3''],
      records = [state_row ''r1'' ''a'' StepWORKING 0 None ''w'', state_row ''r2'' ''b'' StepPENDING 0 None ''m'',
        state_row ''r3'' ''c'' StepWORKING 0 None ''m''],
      edges = new_edges 0 ''m'' [(''b'', ''a'')], items = [], profiles = [(''w'', Some (Dec 20 0))],
      fabric = \<lparr>inventories = [], requirements = [], item_upholsteries = [], task_items = []\<rparr>, aux = empty_aux,
      acknowledgments = [], pause_reasons = [], outbox = [], drawn = 0\<rparr>)"

definition sample_request :: "string \<Rightarrow> task_step_state \<Rightarrow> transition_request" where
  "sample_request i st = \<lparr>rq_step_id = i, rq_task_id = ''t'', rq_new_state = st, rq_credited_user_id = None,
     rq_pause_reason_id = None, rq_description = None, rq_mark_closing_record_inaccurate = False\<rparr>"

lemmas sample_store_defs = sample_store_def Let_def new_step_row_def recalculate_readiness_def state_row_def
  new_edges_def sample_task_def

lemma single_endpoint_mirrors_core_witness:
  "(case transition_body (as_user ''w'') (sample_request ''a'' StepCOMPLETED) (hd (steps sample_store)) ''t'' ''w''
      3600000000 sample_store of
     Inl _ \<Rightarrow> False
   | Inr (db, applied) \<Rightarrow> ta_readiness_changed applied = [(''b'', ReadinessREADY)]
       \<and> map total_working_seconds (steps db) = [3600, 0, 0] \<and> map total_cost_minor (steps db) = [2000, 0, 0])"
proof -
  have ids: "distinct (map record_id (records sample_store))" by (simp add: sample_store_defs)
  have closing: "filter (\<lambda>r. record_step_id r = step_id (hd (steps sample_store)) \<and> exited_at r = None) (records sample_store)
      = [state_row ''r1'' ''a'' StepWORKING 0 None ''w'']"
    by (simp add: sample_store_defs)
  show ?thesis
    unfolding single_endpoint_mirrors_core [OF ids closing] by code_simp
qed

end
