(* ===== verification/StepInvariants.thy ===== *)
theory StepInvariants
  imports StepTransition
begin

text \<open>
  What the step commands keep true of the store. The central invariant is the trail of a step: its state
  records, in the order they were written, form one unbroken chain - each was closed at the moment the next
  one was opened, each move is legal for the worker or for a forced close, and the last record is open and
  is the one the step row points to and agrees with.

  A transition is a relay on the rows an invariant reads: it closes one record, appends one and moves the
  step. Everything else the handler does is invisible to these projections (\<open>step_core\<close>, \<open>record_core\<close>).
\<close>

section \<open>Trails\<close>

definition legal_move :: "task_step_state \<Rightarrow> task_step_state \<Rightarrow> bool" where
  "legal_move a b \<longleftrightarrow> b \<in> set (ALLOWED_TRANSITIONS a) \<or> b \<in> set (FORCE_READY_TRANSITIONS a)"

definition linked :: "state_record \<Rightarrow> state_record \<Rightarrow> bool" where
  "linked a b \<longleftrightarrow> exited_at a = Some (entered_at b) \<and> legal_move (record_state a) (record_state b)"

definition trail :: "state_record list \<Rightarrow> string \<Rightarrow> state_record list" where
  "trail rs i = filter (\<lambda>r. record_step_id r = i) rs"

definition on_trail :: "state_record list \<Rightarrow> task_step \<Rightarrow> bool" where
  "on_trail rs s \<longleftrightarrow> (\<exists>past r. trail rs (step_id s) = past @ [r] \<and> successively linked (past @ [r])
     \<and> exited_at r = None \<and> record_state r = step_state s \<and> latest_state_record_id s = Some (record_id r))"

definition trails_ok :: "task_step list \<Rightarrow> state_record list \<Rightarrow> bool" where
  "trails_ok ss rs \<longleftrightarrow> (\<forall>s \<in> set ss. \<not> step_is_deleted s \<longrightarrow> on_trail rs s)"

lemma legal_move_not_terminal: "legal_move a b \<Longrightarrow> a \<notin> TERMINAL_STEP_STATES"
  by (cases a) (simp_all add: legal_move_def TERMINAL_STEP_STATES_def)

lemma past_closed: "successively linked (past @ [r]) \<Longrightarrow> x \<in> set past \<Longrightarrow> exited_at x \<noteq> None"
proof (induction past)
  case (Cons a past)
  then show ?case by (cases past) (auto simp: linked_def)
qed simp

text \<open>The open records of a step on its trail: exactly the last one.\<close>

lemma on_trail_open:
  assumes "on_trail rs s"
  shows "\<exists>past r. trail rs (step_id s) = past @ [r] \<and> filter (\<lambda>x. record_step_id x = step_id s \<and> exited_at x = None) rs = [r]
    \<and> record_state r = step_state s \<and> latest_state_record_id s = Some (record_id r)"
proof -
  obtain past r where t: "trail rs (step_id s) = past @ [r]" "successively linked (past @ [r])" "exited_at r = None"
    "record_state r = step_state s" "latest_state_record_id s = Some (record_id r)"
    using assms by (auto simp: on_trail_def)
  have "filter (\<lambda>x. record_step_id x = step_id s \<and> exited_at x = None) rs = filter (\<lambda>x. exited_at x = None) (trail rs (step_id s))"
    by (simp add: trail_def filter_filter conj_commute)
  moreover have "filter (\<lambda>x. exited_at x = None) past = []"
    using past_closed [OF t(2)] by (auto simp: filter_empty_conv)
  ultimately show ?thesis using t by auto
qed

section \<open>The relay\<close>

definition relay_steps :: "string \<Rightarrow> task_step_state \<Rightarrow> string \<Rightarrow> task_step list \<Rightarrow> task_step list" where
  "relay_steps sid st rid = map (\<lambda>x. if step_id x = sid then x\<lparr>step_state := st, latest_state_record_id := Some rid\<rparr> else x)"

definition relay_records :: "string \<Rightarrow> int \<Rightarrow> state_record \<Rightarrow> state_record list \<Rightarrow> state_record list" where
  "relay_records cid now new rs = map (\<lambda>r. if record_id r = cid then r\<lparr>exited_at := Some now\<rparr> else r) rs @ [new]"

lemma relay_trail_other:
  assumes "distinct (map record_id rs)" "closing \<in> set rs" "record_step_id closing \<noteq> i" "record_step_id new \<noteq> i"
  shows "trail (relay_records (record_id closing) now new rs) i = trail rs i"
proof -
  have "record_id x \<noteq> record_id closing" if "x \<in> set rs" "record_step_id x = i" for x
    using that assms(1-3) by (metis distinct_map inj_onD)
  then have "filter (\<lambda>r. record_step_id r = i) (map (\<lambda>r. if record_id r = record_id closing then r\<lparr>exited_at := Some now\<rparr> else r) xs)
      = filter (\<lambda>r. record_step_id r = i) xs" if "set xs \<subseteq> set rs" for xs
    using that by (induction xs) auto
  then show ?thesis using assms(4) by (simp add: trail_def relay_records_def)
qed

lemma relay_trail_own:
  assumes "distinct (map record_id rs)" "trail rs i = past @ [closing]" "record_step_id new = i"
  shows "trail (relay_records (record_id closing) now new rs) i = past @ [closing\<lparr>exited_at := Some now\<rparr>, new]"
proof -
  let ?f = "\<lambda>r. if record_id r = record_id closing then r\<lparr>exited_at := Some now\<rparr> else r"
  have "distinct (map record_id (trail rs i))" using assms(1) by (simp add: trail_def distinct_map_filter)
  then have "map ?f past = past" using assms(2) by (intro map_idI) (auto simp: image_iff)
  moreover have "filter (\<lambda>r. record_step_id r = i) (map ?f rs) = map ?f (trail rs i)"
    by (simp add: trail_def filter_map comp_def if_distrib cong: if_cong)
  ultimately show ?thesis using assms(2,3) by (simp add: relay_records_def trail_def)
qed

lemma relay_trails_ok:
  assumes ids: "distinct (map record_id rs)" "distinct (map step_id ss)" and ok: "trails_ok ss rs"
    and s: "s \<in> set ss" "\<not> step_is_deleted s"
    and closing: "closing \<in> set rs" "record_step_id closing = step_id s" "exited_at closing = None"
    and new: "record_step_id new = step_id s" "exited_at new = None" "entered_at new = now" "record_state new = st"
    and legal: "legal_move (step_state s) st"
  shows "trails_ok (relay_steps (step_id s) st (record_id new) ss) (relay_records (record_id closing) now new rs)"
  unfolding trails_ok_def
proof (intro ballI impI)
  let ?rs = "relay_records (record_id closing) now new rs"
  fix x assume "x \<in> set (relay_steps (step_id s) st (record_id new) ss)" and live: "\<not> step_is_deleted x"
  then obtain y where y: "y \<in> set ss" "x = (if step_id y = step_id s
      then y\<lparr>step_state := st, latest_state_record_id := Some (record_id new)\<rparr> else y)"
    by (auto simp: relay_steps_def)
  show "on_trail ?rs x"
  proof (cases "step_id y = step_id s")
    case True
    then have "y = s" using y(1) s(1) ids(2) by (metis distinct_map inj_onD)
    obtain past r where t: "trail rs (step_id s) = past @ [r]" "successively linked (past @ [r])" "exited_at r = None"
      "record_state r = step_state s"
      using ok s by (auto simp: trails_ok_def on_trail_def)
    have "closing \<in> set (trail rs (step_id s))" using closing by (simp add: trail_def)
    then have r: "closing = r" using t(1,2) closing(3) past_closed by fastforce
    have chain: "successively linked (past @ [closing\<lparr>exited_at := Some now\<rparr>, new])"
      using t(2,4) new legal r by (cases "past = []")
        (auto simp: successively_append_iff linked_def)
    show ?thesis
      unfolding on_trail_def
      using relay_trail_own [OF ids(1) t(1) [folded r] new(1)] chain y(2) True \<open>y = s\<close> new
      by (intro exI [of _ "past @ [closing\<lparr>exited_at := Some now\<rparr>]"] exI [of _ new]) simp
  next
    case False
    then have "x = y" "step_id y \<noteq> record_step_id closing" "step_id y \<noteq> record_step_id new"
      using y closing(2) new(1) by auto
    moreover have "on_trail rs y" using ok y(1) live \<open>x = y\<close> by (simp add: trails_ok_def)
    ultimately show ?thesis
      using relay_trail_other [OF ids(1) closing(1)] by (simp add: on_trail_def)
  qed
qed

section \<open>What an invariant reads\<close>

text \<open>The cores of a step and of a record: the time totals, the flags and the stamps are blanked.\<close>

definition step_core :: "task_step \<Rightarrow> task_step" where
  "step_core s = s\<lparr>step_marked_wrong := False, step_taken_from_average := False,
     total_working_seconds := 0, total_pause_seconds := 0, total_ended_shift_seconds := 0,
     total_working_count := 0, total_pause_count := 0, total_ended_shift_count := 0,
     inaccurate_working_seconds := 0, inaccurate_pause_seconds := 0, inaccurate_ended_shift_seconds := 0,
     total_cost_minor := 0, step_closed_at := None, step_updated_at := None, step_updated_by_id := None\<rparr>"

definition record_core :: "state_record \<Rightarrow> state_record" where
  "record_core r = r\<lparr>record_marked_wrong := False, record_taken_from_average := False, record_updated_at := None\<rparr>"

definition step_view :: "store \<Rightarrow> task_step list" where
  "step_view db = map step_core (steps db)"

definition record_view :: "store \<Rightarrow> state_record list" where
  "record_view db = map record_core (records db)"

lemma step_core_simps [simp]:
  "step_id (step_core s) = step_id s" "step_state (step_core s) = step_state s"
  "step_task_id (step_core s) = step_task_id s"
  "step_is_deleted (step_core s) = step_is_deleted s" "latest_state_record_id (step_core s) = latest_state_record_id s"
  "allows_batch_working (step_core s) = allows_batch_working s"
  "total_dependencies (step_core s) = total_dependencies s"
  "completed_dependencies (step_core s) = completed_dependencies s"
  "readiness_status (step_core s) = readiness_status s"
  by (simp_all add: step_core_def)

lemma record_core_simps [simp]:
  "record_id (record_core r) = record_id r" "record_step_id (record_core r) = record_step_id r"
  "record_state (record_core r) = record_state r" "entered_at (record_core r) = entered_at r"
  "exited_at (record_core r) = exited_at r" "created_by_id (record_core r) = created_by_id r"
  "record_is_deleted (record_core r) = record_is_deleted r"
  by (simp_all add: record_core_def)

lemma set_totals_core [simp]: "step_core (set_totals cs cost now s) = step_core s"
  by (simp add: step_core_def set_totals_def)

lemma linked_core [simp]: "linked (record_core a) (record_core b) = linked a b"
  by (simp add: linked_def)

lemma on_trail_last:
  "on_trail rs s \<longleftrightarrow> (let t = trail rs (step_id s) in t \<noteq> [] \<and> successively linked t \<and> exited_at (last t) = None
     \<and> record_state (last t) = step_state s \<and> latest_state_record_id s = Some (record_id (last t)))"
proof (cases "trail rs (step_id s)" rule: rev_cases)
  case Nil
  then show ?thesis by (simp add: on_trail_def)
next
  case (snoc past r)
  then show ?thesis by (simp add: on_trail_def)
qed

lemma trail_core: "trail (map record_core rs) i = map record_core (trail rs i)"
  by (simp add: trail_def filter_map comp_def)

lemma on_trail_core [simp]: "on_trail (map record_core rs) (step_core s) = on_trail rs s"
  by (cases "trail rs (step_id s) = []")
    (auto simp: on_trail_last trail_core successively_map Let_def last_map)

lemma trails_ok_core: "trails_ok (map step_core ss) (map record_core rs) = trails_ok ss rs"
  by (simp add: trails_ok_def)

lemma trails_ok_view: "trails_ok (steps db) (records db) = trails_ok (step_view db) (record_view db)"
  by (simp add: step_view_def record_view_def trails_ok_core)

text \<open>Two stores whose rows have the same cores. Everything but the relays keeps them.\<close>

definition same_rows :: "store \<Rightarrow> store \<Rightarrow> bool" where
  "same_rows db db' \<longleftrightarrow> step_view db' = step_view db \<and> record_view db' = record_view db
     \<and> edges db' = edges db \<and> drawn db' = drawn db \<and> map task_id (tasks db') = map task_id (tasks db)"

lemma same_rows_refl [simp]: "same_rows db db"
  by (simp add: same_rows_def)

lemma same_rows_trans: "same_rows a b \<Longrightarrow> same_rows b c \<Longrightarrow> same_rows a c"
  by (simp add: same_rows_def)

lemma map_core_if: "(\<And>x. core (f x) = core x) \<Longrightarrow> map core (map (\<lambda>x. if P x then f x else x) xs) = map core xs"
  by (induction xs) auto

lemma same_rows_update_step [intro]: "(\<And>s. step_core (f s) = step_core s) \<Longrightarrow> same_rows db (update_step i f db)"
  by (simp add: same_rows_def update_step_def step_view_def record_view_def map_core_if del: map_map)

lemma same_rows_update_record [intro]: "(\<And>r. record_core (f r) = record_core r) \<Longrightarrow> same_rows db (update_record i f db)"
  by (simp add: same_rows_def update_record_def step_view_def record_view_def map_core_if del: map_map)

lemma same_rows_update_task [intro]: "(\<And>t. task_id (f t) = task_id t) \<Longrightarrow> same_rows db (update_task i f db)"
  by (simp add: same_rows_def update_task_def step_view_def record_view_def map_core_if del: map_map)

lemma same_rows_emit [simp]: "same_rows a (emit e db) = same_rows a db"
  by (simp add: same_rows_def emit_def step_view_def record_view_def)

lemma same_rows_fields [simp]: "same_rows a (db\<lparr>aux := x\<rparr>) = same_rows a db" "same_rows a (db\<lparr>fabric := f\<rparr>) = same_rows a db"
  "same_rows a (db\<lparr>acknowledgments := k\<rparr>) = same_rows a db"
  by (simp_all add: same_rows_def step_view_def record_view_def)

lemma same_rows_flag: "same_rows db (apply_inaccurate_time_flag rid sid now db)"
  unfolding apply_inaccurate_time_flag_def
  by (rule same_rows_trans [OF same_rows_update_record same_rows_update_step]) (simp_all add: record_core_def step_core_def)

lemma step_ids_view: "map step_id (steps db) = map step_id (step_view db)"
  by (simp add: step_view_def)

lemma record_ids_view: "map record_id (records db) = map record_id (record_view db)"
  by (simp add: record_view_def)

lemma same_rows_settle:
  assumes "distinct (map step_id (steps db))" "settle sid st credited now db = Inr db'"
  shows "same_rows db db'"
proof -
  have steps': "\<exists>steps'. settle_closed_step_time (profiles db) (records db) sid st (Some credited) now (steps db) = Inr steps'
      \<and> db' = db\<lparr>steps := steps'\<rparr>"
    using assms(2) by (auto simp: settle_def)
  then obtain steps' where s: "settle_closed_step_time (profiles db) (records db) sid st (Some credited) now (steps db) = Inr steps'"
    and db': "db' = db\<lparr>steps := steps'\<rparr>" by blast
  have "map step_core steps' = map step_core (steps db)"
  proof (cases "credited \<noteq> [] \<and> st \<in> TIME_BEARING_STATES")
    case True
    then have run: "settle_step_time_totals (profiles db) (records db) sid now (steps db) = Inr steps'"
      using s by (simp add: settle_closed_step_time_def)
    show ?thesis
      by (cases rule: settle_cases [OF assms(1), of "profiles db" "records db" sid now])
        (use run in \<open>auto simp: map_core_if simp del: map_map\<close>)
  next
    case False
    then show ?thesis using s by (auto simp: settle_closed_step_time_def split: if_splits)
  qed
  then show ?thesis by (simp add: db' same_rows_def step_view_def record_view_def)
qed

lemma settle_succeeds:
  assumes "distinct (map step_id (steps db))"
  shows "\<exists>db'. settle sid st credited now db = Inr db'"
  by (cases rule: settle_cases [OF assms, of "profiles db" "records db" sid now])
    (auto simp: settle_def settle_closed_step_time_def)

lemma same_rows_evaluate:
  assumes "maybe_evaluate_task_ready tid now user allow db = Inr (db', ready)"
  shows "same_rows db db'"
proof (cases "db' = db")
  case False
  then obtain t aux' where "find_task db tid = Some t"
    and db': "db' = emit (ProcessItemCostResult tid) ((update_task tid (\<lambda>_. t\<lparr>task_state := TaskREADY,
       task_updated_at := Some now, task_completed_at := Some now, task_updated_by_id := Some user\<rparr>) db)\<lparr>aux := aux'\<rparr>)"
    using assms by (auto simp: maybe_evaluate_task_ready_def Let_def split: option.splits if_splits)
  have "task_id t = tid" using \<open>find_task db tid = Some t\<close> by (auto simp: find_task_def find_Some_iff)
  then have "same_rows db (update_task tid (\<lambda>_. t\<lparr>task_state := TaskREADY,
       task_updated_at := Some now, task_completed_at := Some now, task_updated_by_id := Some user\<rparr>) db)"
    by (auto simp: same_rows_def update_task_def step_view_def record_view_def)
  then show ?thesis by (simp add: db')
qed simp

lemma same_rows_upholstery: "upholstery_effect step tid st user now db = Inr (db', events) \<Longrightarrow> same_rows db db'"
  by (auto simp: upholstery_effect_def)

lemma same_rows_advance: "same_rows db (maybe_advance_task_to_working tid now user db)"
  unfolding maybe_advance_task_to_working_def by (rule same_rows_update_task) simp

lemma same_rows_acknowledged [simp]: "same_rows a (mark_step_obligations_acknowledged ids now db) = same_rows a db"
  by (simp add: mark_step_obligations_acknowledged_def)

section \<open>A transition is one or two relays\<close>

definition relayed :: "string \<Rightarrow> task_step_state \<Rightarrow> string \<Rightarrow> int \<Rightarrow> state_record \<Rightarrow> store \<Rightarrow> store \<Rightarrow> bool" where
  "relayed sid st cid now new db db' \<longleftrightarrow>
     step_view db' = relay_steps sid st (record_id new) (step_view db)
     \<and> record_view db' = relay_records cid now new (record_view db)
     \<and> edges db' = edges db \<and> drawn db' = drawn db + 1 \<and> map task_id (tasks db') = map task_id (tasks db)"

definition opens :: "request_context \<Rightarrow> string \<Rightarrow> task_step_state \<Rightarrow> int \<Rightarrow> store \<Rightarrow> state_record \<Rightarrow> bool" where
  "opens ctx sid st now db new \<longleftrightarrow> record_id new = generate_id ctx (drawn db) \<and> record_step_id new = sid
     \<and> record_state new = st \<and> entered_at new = now \<and> exited_at new = None
     \<and> created_by_id new = Some (ctx_user_id ctx) \<and> \<not> record_is_deleted new \<and> record_core new = new"

lemma relay_core_steps:
  "map step_core (map (\<lambda>s. if step_id s = i then f s else s) ss) = relay_steps i st rid (map step_core ss)"
  if "\<And>s. step_core (f s) = (step_core s)\<lparr>step_state := st, latest_state_record_id := Some rid\<rparr>"
  using that by (simp add: relay_steps_def)

lemma relay_core_records:
  "map record_core (map (\<lambda>r. if record_id r = i then r\<lparr>exited_at := Some now\<rparr> else r) rs @ [new])
     = relay_records i now (record_core new) (map record_core rs)"
  by (simp add: relay_records_def record_core_def)

lemma relayed_same: "relayed sid st cid now new db db' \<Longrightarrow> same_rows db' db'' \<Longrightarrow> relayed sid st cid now new db db''"
  by (simp add: relayed_def same_rows_def)

lemma opens_record: "opens ctx sid st now db (open_state_record sid st pause_reason reason description now
    (ctx_user_id ctx) credited (generate_id ctx (drawn db)))"
  by (simp add: opens_def open_state_record_def record_core_def)

lemma relayed_opens_ids:
  assumes "relayed sid st cid now new db db'"
  shows "map step_id (steps db') = map step_id (steps db)"
    "map record_id (records db') = map record_id (records db) @ [record_id new]"
  using assms by (simp_all add: relayed_def step_ids_view record_ids_view relay_steps_def relay_records_def comp_def
      if_distrib cong: if_cong)

text \<open>Closing a record, appending one and moving the step is a relay, whatever columns are flagged on the way.\<close>

lemma relayed_by_writes:
  assumes "record_view db1 = map record_core (map (\<lambda>r. if record_id r = cid then r\<lparr>exited_at := Some now\<rparr> else r) (records db))"
    and "step_view db1 = step_view db" "edges db1 = edges db" "drawn db1 = drawn db" "map task_id (tasks db1) = map task_id (tasks db)"
    and "opens ctx sid st now db new" "add_record ctx mk db1 = (rid, db2)" "mk (generate_id ctx (drawn db)) = new"
    and "same_rows db2 db3" "db4 = update_step sid f db3"
    and "\<And>s. step_core (f s) = (step_core s)\<lparr>step_state := st, latest_state_record_id := Some rid\<rparr>"
  shows "relayed sid st cid now new db db4"
proof -
  have rid: "rid = record_id new" and db2: "db2 = db1\<lparr>records := records db1 @ [new], drawn := drawn db1 + 1\<rparr>"
    using assms(4,6,7,8) by (auto simp: add_record_def Let_def opens_def)
  have "record_view db3 = record_view db1 @ [new]"
    using assms(6,9) db2 by (simp add: same_rows_def record_view_def opens_def)
  moreover have "record_view db4 = record_view db3" "edges db4 = edges db3" "drawn db4 = drawn db3" "tasks db4 = tasks db3"
    by (simp_all add: assms(10) update_step_def record_view_def)
  moreover have "step_view db4 = relay_steps sid st rid (step_view db3)"
    unfolding assms(10) update_step_def step_view_def
    using relay_core_steps [where f = f and st = st and rid = rid, OF assms(11)] by simp
  moreover have "record_view db1 @ [new] = relay_records cid now new (record_view db)"
    using relay_core_records [of cid now "records db" new] assms(1,6) by (simp add: record_view_def opens_def)
  moreover have "step_view db3 = step_view db" "edges db3 = edges db" "drawn db3 = drawn db + 1"
    "map task_id (tasks db3) = map task_id (tasks db)"
    using assms(2-5,9) db2 by (simp_all add: same_rows_def step_view_def)
  ultimately show ?thesis by (simp add: relayed_def rid)
qed

lemma switch_record_relays:
  assumes "switch_record ctx step closing st pause_reason reason description credited mark now db = (rid, db')"
  shows "\<exists>new. opens ctx (step_id step) st now db new \<and> rid = record_id new
    \<and> relayed (step_id step) st (record_id closing) now new db db'"
proof -
  let ?mk = "open_state_record (step_id step) st pause_reason reason description now (ctx_user_id ctx) credited"
  let ?new = "?mk (generate_id ctx (drawn db))"
  let ?tb = "record_state closing \<in> TIME_BEARING_STATES"
  let ?closed = "update_record (record_id closing) (\<lambda>r. r\<lparr>exited_at := Some now\<rparr>) db"
  define db1 where "db1 = (if mark \<and> ?tb then apply_inaccurate_time_flag (record_id closing) (step_id step) now ?closed else ?closed)"
  obtain rid' db2 where add: "add_record ctx ?mk db1 = (rid', db2)" by (cases "add_record ctx ?mk db1")
  define db3 where "db3 = (if mark \<and> st = StepCOMPLETED \<and> ?tb then apply_inaccurate_time_flag rid' (step_id step) now db2 else db2)"
  let ?f = "\<lambda>s. s\<lparr>step_state := st, latest_state_record_id := Some rid', step_updated_at := Some now,
    step_updated_by_id := Some (ctx_user_id ctx)\<rparr>"
  have out: "rid = rid'" "db' = update_step (step_id step) ?f db3"
    using assms add unfolding switch_record_def Let_def db1_def [symmetric] by (auto simp: db3_def)
  have same1: "same_rows ?closed db1" by (simp add: db1_def same_rows_flag)
  have same2: "same_rows db2 db3" by (simp add: db3_def same_rows_flag)
  have closed: "step_view ?closed = step_view db" "edges ?closed = edges db" "drawn ?closed = drawn db" "tasks ?closed = tasks db"
    by (simp_all add: update_record_def step_view_def)
  have "record_view db1 = map record_core (map (\<lambda>r. if record_id r = record_id closing then r\<lparr>exited_at := Some now\<rparr> else r) (records db))"
    "step_view db1 = step_view db" "edges db1 = edges db" "drawn db1 = drawn db" "map task_id (tasks db1) = map task_id (tasks db)"
    using same1 closed by (simp_all add: same_rows_def record_view_def update_record_def del: map_map)
  from relayed_by_writes [OF this opens_record add refl same2 out(2)]
  have "relayed (step_id step) st (record_id closing) now ?new db db'" by (simp add: step_core_def)
  moreover have "rid = record_id ?new"
    using out(1) add \<open>drawn db1 = drawn db\<close> by (auto simp: add_record_def Let_def open_state_record_def)
  ultimately show ?thesis using opens_record by blast
qed

lemma relayed_distinct_steps:
  "relayed sid st cid now new db db' \<Longrightarrow> distinct (map step_id (steps db)) \<Longrightarrow> distinct (map step_id (steps db'))"
  using relayed_opens_ids(1) by metis

lemma auto_pause_relays:
  assumes "distinct (map step_id (steps db))" "auto_pause ctx tid r s now db = Inr db'"
  shows "\<exists>new. opens ctx (step_id s) StepPAUSED now db new \<and> relayed (step_id s) StepPAUSED (record_id r) now new db db'"
proof -
  let ?closed = "update_record (record_id r) (\<lambda>r. r\<lparr>exited_at := Some now\<rparr>) db"
  obtain d where "auto_pause_description ?closed tid = Inr d"
    using assms(2) by (auto simp: auto_pause_def Let_def)
  let ?mk = "open_state_record (step_id s) StepPAUSED None (Some ReasonOTHER_TASK_PRIORITY) d now (ctx_user_id ctx) (ctx_user_id ctx)"
  let ?new = "?mk (generate_id ctx (drawn db))"
  obtain rid db2 where add: "add_record ctx ?mk ?closed = (rid, db2)" by (cases "add_record ctx ?mk ?closed")
  define db3 where "db3 = update_step (step_id s) (\<lambda>s. s\<lparr>step_state := StepPAUSED, latest_state_record_id := Some rid,
    step_updated_at := Some now, step_updated_by_id := Some (ctx_user_id ctx)\<rparr>) db2"
  obtain db4 e where settle: "settle (step_id s) StepWORKING (ctx_user_id ctx) now db3 = Inr db4" and db': "db' = emit e db4"
    using assms(2) add \<open>auto_pause_description ?closed tid = Inr d\<close> by (auto simp: auto_pause_def Let_def db3_def)
  have "record_view ?closed = map record_core (map (\<lambda>x. if record_id x = record_id r then x\<lparr>exited_at := Some now\<rparr> else x) (records db))"
    "step_view ?closed = step_view db" "edges ?closed = edges db" "drawn ?closed = drawn db" "map task_id (tasks ?closed) = map task_id (tasks db)"
    by (simp_all add: update_record_def step_view_def record_view_def del: map_map)
  from relayed_by_writes [OF this opens_record add refl same_rows_refl db3_def]
  have relay: "relayed (step_id s) StepPAUSED (record_id r) now ?new db db3" by (simp add: step_core_def)
  have "same_rows db3 db'"
    using same_rows_settle [OF relayed_distinct_steps [OF relay assms(1)] settle] db' by simp
  then show ?thesis using relayed_same [OF relay] opens_record by blast
qed

lemma step_core_bump: "step_core (bump n s) = bump n (step_core s)"
  by (simp add: bump_def step_core_def recalculate_readiness_def)

lemma guard_relays:
  assumes "distinct (map step_id (steps db))" "auto_pause_guard ctx step tid st credited now db = Inr (db1, paused)"
  shows "(db1 = db \<and> paused = None) \<or> (\<exists>r s new. fetch_open_user_working_record db [ctx_user_id ctx, credited] (step_id step) = Some (r, s)
    \<and> st = StepWORKING \<and> \<not> allows_batch_working step \<and> opens ctx (step_id s) StepPAUSED now db new
    \<and> relayed (step_id s) StepPAUSED (record_id r) now new db db1 \<and> paused = Some (step_id s))"
proof (cases "st = StepWORKING \<and> \<not> allows_batch_working step")
  case True
  show ?thesis
  proof (cases "fetch_open_user_working_record db [ctx_user_id ctx, credited] (step_id step)")
    case None
    then show ?thesis using assms(2) by (auto simp: auto_pause_guard_def split: if_splits)
  next
    case (Some p)
    obtain r s where p: "p = (r, s)" by (cases p)
    have "auto_pause ctx tid r s now db = Inr db1 \<and> paused = Some (step_id s)"
      using assms(2) True Some p by (auto simp: auto_pause_guard_def)
    then show ?thesis using auto_pause_relays [OF assms(1)] Some p True by blast
  qed
qed (use assms(2) in \<open>auto simp: auto_pause_guard_def\<close>)

lemma guard_distinct:
  assumes "distinct (map step_id (steps db))" "auto_pause_guard ctx step tid st credited now db = Inr (db1, paused)"
  shows "distinct (map step_id (steps db1))"
  using guard_relays [OF assms] assms(1) relayed_distinct_steps by blast

lemma terminal_effects_view:
  assumes "distinct (map step_id (steps db))" "terminal_effects st sid tid now user db = Inr (db', ready, changes)"
  shows "step_view db' = (if st = StepCOMPLETED
      then map (\<lambda>s. bump (edges_onto (edges db) (step_id s) sid) s) (step_view db) else step_view db)
    \<and> record_view db' = record_view db \<and> edges db' = edges db \<and> drawn db' = drawn db
    \<and> map task_id (tasks db') = map task_id (tasks db)"
proof (cases "st \<in> TERMINAL_STEP_STATES")
  case True
  then obtain db1 where eval: "maybe_evaluate_task_ready tid now user False db = Inr (db1, ready)"
    and rest: "if st = StepCOMPLETED then cascade_completion sid db1 = Inr (db', changes) else db' = db1"
    using assms(2) by (auto simp: terminal_effects_def split: if_splits)
  note same = same_rows_evaluate [OF eval]
  then have "distinct (map step_id (steps db1))"
    using assms(1) by (simp add: same_rows_def step_ids_view)
  then obtain ch where casc: "cascade_step_completion (steps db1) (edges db1) sid
      = Inr (map (\<lambda>s. bump (edges_onto (edges db1) (step_id s) sid) s) (steps db1), ch)"
    using cascade_bumps by blast
  show ?thesis
  proof (cases "st = StepCOMPLETED")
    case True
    then have "db' = db1\<lparr>steps := map (\<lambda>s. bump (edges_onto (edges db1) (step_id s) sid) s) (steps db1)\<rparr>"
      using rest casc by (simp add: cascade_completion_def)
    moreover have "step_view db = map step_core (steps db1)" using same by (simp add: same_rows_def step_view_def)
    ultimately show ?thesis
      using same True by (simp add: same_rows_def step_view_def record_view_def comp_def step_core_bump)
  next
    case False
    then show ?thesis using rest same by (simp add: same_rows_def)
  qed
next
  case False
  then show ?thesis using assms(2) by (auto simp: terminal_effects_def TERMINAL_STEP_STATES_def)
qed

text \<open>The whole transition, seen by an invariant: the auto-pause, the relay of the step, the cascade.\<close>

lemma apply_view:
  assumes "distinct (map step_id (steps db))"
    and "apply_step_transition ctx step tid closing st pause_reason description credited now reason mark db = Inr (db', applied)"
  shows "\<exists>db1 db2 new. auto_pause_guard ctx step tid st credited now db = Inr (db1, ta_auto_paused applied)
    \<and> opens ctx (step_id step) st now db1 new
    \<and> relayed (step_id step) st (record_id closing) now new db1 db2
    \<and> step_view db' = (if st = StepCOMPLETED
        then map (\<lambda>s. bump (edges_onto (edges db2) (step_id s) (step_id step)) s) (step_view db2) else step_view db2)
    \<and> record_view db' = record_view db2 \<and> edges db' = edges db2 \<and> drawn db' = drawn db2
    \<and> map task_id (tasks db') = map task_id (tasks db2)"
proof -
  obtain db1 paused where guard: "auto_pause_guard ctx step tid st credited now db = Inr (db1, paused)"
    using assms(2) by (auto simp: apply_step_transition_def)
  obtain rid db2 where switch: "switch_record ctx step closing st pause_reason reason description credited mark now db1 = (rid, db2)"
    by (cases "switch_record ctx step closing st pause_reason reason description credited mark now db1")
  obtain db3 where settle: "settle (step_id step) (record_state closing) credited now db2 = Inr db3"
    using assms(2) by (auto simp: apply_step_transition_def guard switch Let_def)
  let ?db4 = "(if st \<in> TERMINAL_STEP_STATES then update_step (step_id step) (\<lambda>s. s\<lparr>step_closed_at := Some now\<rparr>) db3 else db3)"
  let ?db5 = "(if st = StepWORKING then maybe_advance_task_to_working tid now (ctx_user_id ctx) ?db4 else ?db4)"
  obtain db6 ready changes where effects: "terminal_effects st (step_id step) tid now (ctx_user_id ctx) ?db5 = Inr (db6, ready, changes)"
    using assms(2) by (auto simp: apply_step_transition_def guard switch settle Let_def)
  obtain db7 events e where uphol: "upholstery_effect step tid st (ctx_user_id ctx) now db6 = Inr (db7, events)"
    and out: "db' = emit e db7" "ta_auto_paused applied = paused"
    using assms(2) effects by (auto simp: apply_step_transition_def guard switch settle Let_def)
  obtain new where new: "opens ctx (step_id step) st now db1 new"
    and relay: "relayed (step_id step) st (record_id closing) now new db1 db2"
    using switch_record_relays [OF switch] by blast
  have distinct2: "distinct (map step_id (steps db2))"
    using relayed_distinct_steps [OF relay guard_distinct [OF assms(1) guard]] .
  have "same_rows db3 ?db4"
    using same_rows_update_step [of "\<lambda>s. s\<lparr>step_closed_at := Some now\<rparr>" db3 "step_id step"] by (simp add: step_core_def)
  then have "same_rows db2 ?db5"
    using same_rows_settle [OF distinct2 settle] same_rows_advance by (auto intro: same_rows_trans)
  then obtain db5 where same5: "same_rows db2 db5"
    and effects5: "terminal_effects st (step_id step) tid now (ctx_user_id ctx) db5 = Inr (db6, ready, changes)"
    using effects by blast
  have distinct5: "distinct (map step_id (steps db5))" using distinct2 same5 by (simp add: same_rows_def step_ids_view)
  have "same_rows db6 db'" using same_rows_upholstery [OF uphol] out by auto
  then show ?thesis
    using guard out(2) new relay terminal_effects_view [OF distinct5 effects5] same5
    by (intro exI [of _ db1] exI [of _ db2] exI [of _ new]) (simp add: same_rows_def)
qed

section \<open>The store invariant\<close>

definition store_ok :: "(nat \<Rightarrow> string) \<Rightarrow> store \<Rightarrow> bool" where
  "store_ok gen db \<longleftrightarrow> distinct (map step_id (steps db)) \<and> distinct (map record_id (records db))
     \<and> (\<forall>r \<in> set (records db). \<forall>n \<ge> drawn db. record_id r \<noteq> gen n) \<and> trails_ok (steps db) (records db)"

lemma store_ok_distinct: "store_ok gen db \<Longrightarrow> distinct (map step_id (steps db)) \<and> distinct (map record_id (records db))"
  by (simp add: store_ok_def)

lemma store_ok_by_view:
  "store_ok gen db \<longleftrightarrow> distinct (map step_id (step_view db)) \<and> distinct (map record_id (record_view db))
     \<and> (\<forall>r \<in> set (record_view db). \<forall>n \<ge> drawn db. record_id r \<noteq> gen n) \<and> trails_ok (step_view db) (record_view db)"
proof -
  have "(\<forall>r \<in> set (records db). \<forall>n \<ge> k. record_id r \<noteq> gen n) \<longleftrightarrow>
      (\<forall>r \<in> set (record_view db). \<forall>n \<ge> k. record_id r \<noteq> gen n)" for k
    by (simp add: record_view_def)
  then show ?thesis by (simp only: store_ok_def trails_ok_view step_ids_view record_ids_view)
qed

lemma store_ok_same: "same_rows db db' \<Longrightarrow> store_ok gen db' = store_ok gen db"
  by (simp only: store_ok_by_view same_rows_def)

lemma on_trail_bump [simp]: "on_trail rs (bump n s) = on_trail rs s"
  by (simp add: on_trail_def) (simp add: bump_def recalculate_readiness_def)

lemma trails_ok_bump: "trails_ok (map (\<lambda>s. bump (f s) s) ss) rs = trails_ok ss rs"
  by (simp add: trails_ok_def)

text \<open>A step stands in a state with an open record.\<close>

definition stands :: "store \<Rightarrow> string \<Rightarrow> task_step_state \<Rightarrow> bool" where
  "stands db sid st \<longleftrightarrow> (\<exists>s \<in> set (steps db). step_id s = sid \<and> \<not> step_is_deleted s \<and> step_state s = st)"

definition open_at :: "store \<Rightarrow> string \<Rightarrow> string \<Rightarrow> bool" where
  "open_at db sid cid \<longleftrightarrow> (\<exists>r \<in> set (records db). record_id r = cid \<and> record_step_id r = sid \<and> exited_at r = None)"

lemma stands_view: "stands db sid st \<longleftrightarrow>
    (\<exists>s \<in> set (step_view db). step_id s = sid \<and> \<not> step_is_deleted s \<and> step_state s = st)"
  by (simp add: stands_def step_view_def)

lemma open_at_view: "open_at db sid cid \<longleftrightarrow>
    (\<exists>r \<in> set (record_view db). record_id r = cid \<and> record_step_id r = sid \<and> exited_at r = None)"
  by (simp add: open_at_def record_view_def)

lemma relayed_fresh:
  assumes "inj (generate_id ctx)" "store_ok (generate_id ctx) db" "opens ctx sid st now db new"
    and "relayed sid st cid now new db db'"
  shows "distinct (map record_id (records db')) \<and> (\<forall>r \<in> set (records db'). \<forall>n \<ge> drawn db'. record_id r \<noteq> generate_id ctx n)"
proof -
  note ids = relayed_opens_ids(2) [OF assms(4)]
  have set_ids: "record_id ` set (records db') = insert (record_id new) (record_id ` set (records db))"
    by (metis ids list.simps(15) set_map set_append list.set(1) Un_insert_right sup_bot.right_neutral)
  have "record_id r \<noteq> record_id new" if "r \<in> set (records db)" for r
    using assms(2,3) that by (simp add: store_ok_def opens_def)
  then have "record_id new \<notin> record_id ` set (records db)" by fastforce
  then have "distinct (map record_id (records db'))"
    unfolding ids using assms(2) by (simp add: store_ok_def)
  moreover have "i \<noteq> generate_id ctx n" if h: "i \<in> record_id ` set (records db')" "n \<ge> drawn db'" for i n
  proof (cases "i = record_id new")
    case True
    then show ?thesis using h(2) assms(1,3,4) by (auto simp: opens_def relayed_def dest: injD)
  next
    case False
    then obtain r where "r \<in> set (records db)" "i = record_id r" using h(1) unfolding set_ids by blast
    then show ?thesis using h(2) assms(2,4) by (simp add: store_ok_def relayed_def)
  qed
  ultimately show ?thesis by blast
qed

lemma relayed_store_ok:
  assumes "inj (generate_id ctx)" "store_ok (generate_id ctx) db" "opens ctx sid st now db new"
    and "relayed sid st cid now new db db'"
    and "stands db sid st0" "open_at db sid cid" "legal_move st0 st"
  shows "store_ok (generate_id ctx) db'"
proof -
  obtain s where s: "s \<in> set (step_view db)" "step_id s = sid" "\<not> step_is_deleted s" "step_state s = st0"
    using assms(5) by (auto simp: stands_view)
  obtain r where r: "r \<in> set (record_view db)" "record_id r = cid" "record_step_id r = sid" "exited_at r = None"
    using assms(6) by (auto simp: open_at_view)
  have "trails_ok (step_view db) (record_view db)" using assms(2) by (simp add: store_ok_def trails_ok_view)
  from relay_trails_ok [OF _ _ this s(1,3) r(1) _ r(4), of new now st]
  have "trails_ok (relay_steps sid st (record_id new) (step_view db)) (relay_records cid now new (record_view db))"
    using assms(2,3,7) s r by (simp add: store_ok_def opens_def flip: step_ids_view record_ids_view)
  then show ?thesis
    using assms(2,4) relayed_fresh [OF assms(1-4)] relayed_distinct_steps [OF assms(4)]
    by (simp add: store_ok_def trails_ok_view relayed_def)
qed

lemma relayed_stands:
  assumes "relayed sid st cid now new db db'"
  shows "stands db' i t \<longleftrightarrow> (if i = sid then st = t \<and> (\<exists>t0. stands db sid t0) else stands db i t)"
proof -
  have rows: "set (step_view db') = (\<lambda>x. if step_id x = sid then x\<lparr>step_state := st, latest_state_record_id := Some (record_id new)\<rparr>
      else x) ` set (step_view db)"
    using assms by (simp add: relayed_def relay_steps_def)
  show ?thesis unfolding stands_view rows bex_simps by (cases "i = sid") (auto split: if_splits)
qed

lemma relayed_open_other:
  assumes "relayed sid st cid now new db db'" "distinct (map record_id (records db))" "open_at db sid cid"
    and "open_at db i c" "i \<noteq> sid"
  shows "open_at db' i c"
proof -
  obtain r where r: "r \<in> set (record_view db)" "record_id r = c" "record_step_id r = i" "exited_at r = None"
    using assms(4) by (auto simp: open_at_view)
  obtain r0 where r0: "r0 \<in> set (record_view db)" "record_id r0 = cid" "record_step_id r0 = sid"
    using assms(3) by (auto simp: open_at_view)
  have "c \<noteq> cid"
    using r r0 assms(2,5) unfolding record_ids_view by (metis distinct_map inj_onD)
  then have "r \<in> set (record_view db')"
    using assms(1) r by (auto simp: relayed_def relay_records_def image_iff intro!: bexI [of _ r])
  then show ?thesis using r by (auto simp: open_at_view)
qed

lemma conflict_open:
  assumes "fetch_open_user_working_record db users i = Some (r, s)" "store_ok gen db"
  shows "stands db (step_id s) StepWORKING" "open_at db (step_id s) (record_id r)" "step_id s \<noteq> i"
proof -
  note c = fetch_conflict_in [OF assms(1)]
  have "on_trail (records db) s" using assms(2) c(2,7) by (simp add: store_ok_def trails_ok_def)
  then obtain r' where r': "filter (\<lambda>x. record_step_id x = step_id s \<and> exited_at x = None) (records db) = [r']"
      "record_state r' = step_state s"
    using on_trail_open by blast
  have "r \<in> set (filter (\<lambda>x. record_step_id x = step_id s \<and> exited_at x = None) (records db))" using c by simp
  then have "r = r'" by (simp add: r')
  then show "stands db (step_id s) StepWORKING" using c r' by (auto simp: stands_def)
  show "open_at db (step_id s) (record_id r)" using c by (auto simp: open_at_def)
  show "step_id s \<noteq> i" using c(3,4) by simp
qed

lemma guard_keeps:
  assumes "inj (generate_id ctx)" "store_ok (generate_id ctx) db" "auto_pause_guard ctx step tid st credited now db = Inr (db1, paused)"
  shows "store_ok (generate_id ctx) db1" "stands db1 (step_id step) t \<longleftrightarrow> stands db (step_id step) t"
    "open_at db (step_id step) c \<Longrightarrow> open_at db1 (step_id step) c"
proof -
  note cases = guard_relays [OF store_ok_distinct [OF assms(2), THEN conjunct1] assms(3)]
  have all: "store_ok (generate_id ctx) db1 \<and> (stands db1 (step_id step) t \<longleftrightarrow> stands db (step_id step) t)
      \<and> (open_at db (step_id step) c \<longrightarrow> open_at db1 (step_id step) c)"
    using cases
  proof (elim disjE exE conjE)
    fix r s new
    assume f: "fetch_open_user_working_record db [ctx_user_id ctx, credited] (step_id step) = Some (r, s)"
      and o: "opens ctx (step_id s) StepPAUSED now db new"
      and r: "relayed (step_id s) StepPAUSED (record_id r) now new db db1"
    note c = conflict_open [OF f assms(2)]
    have "legal_move StepWORKING StepPAUSED" by (simp add: legal_move_def)
    then show ?thesis
      using relayed_store_ok [OF assms(1,2) o r c(1,2)] relayed_stands [OF r]
        relayed_open_other [OF r store_ok_distinct [OF assms(2), THEN conjunct2] c(2)] c(3) by metis
  qed (simp add: assms(2))
  then show "store_ok (generate_id ctx) db1" "stands db1 (step_id step) t \<longleftrightarrow> stands db (step_id step) t"
    "open_at db (step_id step) c \<Longrightarrow> open_at db1 (step_id step) c" by blast+
qed

text \<open>The shared core keeps the invariant, called on a standing step, its open record and a legal move.\<close>

lemma apply_store_ok:
  assumes "inj (generate_id ctx)" "store_ok (generate_id ctx) db"
    and "stands db (step_id step) st0" "open_at db (step_id step) (record_id closing)" "legal_move st0 st"
    and "apply_step_transition ctx step tid closing st pause_reason description credited now reason mark db = Inr (db', applied)"
  shows "store_ok (generate_id ctx) db'"
proof -
  obtain db1 db2 new where v: "auto_pause_guard ctx step tid st credited now db = Inr (db1, ta_auto_paused applied)"
      "opens ctx (step_id step) st now db1 new" "relayed (step_id step) st (record_id closing) now new db1 db2"
      "step_view db' = (if st = StepCOMPLETED
        then map (\<lambda>s. bump (edges_onto (edges db2) (step_id s) (step_id step)) s) (step_view db2) else step_view db2)"
      "record_view db' = record_view db2" "drawn db' = drawn db2"
    using apply_view [OF store_ok_distinct [OF assms(2), THEN conjunct1] assms(6)]
    by (elim exE conjE) (rule that; assumption)
  note g = guard_keeps [OF assms(1,2) v(1)]
  have ok2: "store_ok (generate_id ctx) db2"
    using assms(3) g(3) [OF assms(4)] by (intro relayed_store_ok [OF assms(1) g(1) v(2,3) _ _ assms(5)]) (simp_all only: g(2))
  have "map step_id (step_view db') = map step_id (step_view db2)" by (simp add: v(4))
  moreover have "trails_ok (step_view db') rs = trails_ok (step_view db2) rs" for rs by (simp add: v(4) trails_ok_bump)
  ultimately show ?thesis using ok2 by (auto simp only: store_ok_by_view v(5,6))
qed

section \<open>The dependency counters\<close>

definition counters_ok :: "store \<Rightarrow> bool" where
  "counters_ok db \<longleftrightarrow> counters_exact (steps db) (edges db)"

lemma step_done_core [simp]: "step_done (map step_core ss) i \<longleftrightarrow> step_done ss i"
  by (simp add: step_done_def)

lemma exact_core [simp]: "exact (map step_core ss) es (step_core s) \<longleftrightarrow> exact ss es s"
  by (simp add: exact_def done_edges_def recalculate_fixed)

lemma counters_view: "counters_ok db \<longleftrightarrow> counters_exact (step_view db) (edges db)"
  by (simp add: counters_ok_def counters_exact_def step_view_def)

lemma counters_ok_same: "same_rows db db' \<Longrightarrow> counters_ok db' \<longleftrightarrow> counters_ok db"
  by (simp add: counters_view same_rows_def)

lemma relay_as_put:
  assumes "distinct (map step_id ss)" "c \<in> set ss"
  shows "relay_steps (step_id c) st rid ss = put_step (c\<lparr>step_state := st, latest_state_record_id := Some rid\<rparr>) ss"
proof -
  have "x = c" if "x \<in> set ss" "step_id x = step_id c" for x using that assms by (metis distinct_map inj_onD)
  then show ?thesis by (auto simp: relay_steps_def put_row_def)
qed

text \<open>A relay that completes nothing changes no counter and no completed step.\<close>

lemma relay_counters:
  assumes "distinct (map step_id ss)" "c \<in> set ss" "step_state c \<noteq> StepCOMPLETED" "st \<noteq> StepCOMPLETED"
    and "counters_exact ss es"
  shows "counters_exact (relay_steps (step_id c) st rid ss) es"
proof -
  let ?ss = "relay_steps (step_id c) st rid ss"
  have unique: "x = c" if "x \<in> set ss" "step_id x = step_id c" for x using that assms by (metis distinct_map inj_onD)
  have "step_done ?ss i \<longleftrightarrow> step_done ss i" for i
    using unique assms(3,4) by (auto simp: step_done_def relay_steps_def)
  then have "done_edges ?ss es i = done_edges ss es i" for i by (simp add: done_edges_def)
  then show ?thesis
    using assms(5) by (auto simp: counters_exact_def exact_def relay_steps_def recalculate_fixed)
qed

lemma legal_not_completed: "legal_move a b \<Longrightarrow> a \<noteq> StepCOMPLETED"
  by (cases a) (simp_all add: legal_move_def)

lemma guard_counters:
  assumes "store_ok gen db" "auto_pause_guard ctx step tid st credited now db = Inr (db1, paused)" "counters_ok db"
  shows "counters_ok db1"
  using guard_relays [OF store_ok_distinct [OF assms(1), THEN conjunct1] assms(2)]
proof (elim disjE exE conjE)
  fix r s new
  assume f: "fetch_open_user_working_record db [ctx_user_id ctx, credited] (step_id step) = Some (r, s)"
    and r: "relayed (step_id s) StepPAUSED (record_id r) now new db db1"
  have s: "step_core s \<in> set (step_view db)" using fetch_conflict_in(2) [OF f] by (simp add: step_view_def)
  have "step_state s = StepWORKING"
    using conflict_open(1) [OF f assms(1)] fetch_conflict_in(2) [OF f] store_ok_distinct [OF assms(1)]
    by (auto simp: stands_def) (metis distinct_map inj_onD)
  then show ?thesis
    using relay_counters [OF _ s, of StepPAUSED "edges db" "record_id new"] r assms(3) store_ok_distinct [OF assms(1)]
    by (simp add: counters_view relayed_def flip: step_ids_view)
qed (simp add: assms(3))

lemma apply_counters:
  assumes "inj (generate_id ctx)" "store_ok (generate_id ctx) db" "counters_ok db"
    and "stands db (step_id step) st0" "legal_move st0 st"
    and "apply_step_transition ctx step tid closing st pause_reason description credited now reason mark db = Inr (db', applied)"
  shows "counters_ok db'"
proof -
  obtain db1 db2 new where v: "auto_pause_guard ctx step tid st credited now db = Inr (db1, ta_auto_paused applied)"
      "relayed (step_id step) st (record_id closing) now new db1 db2"
      "step_view db' = (if st = StepCOMPLETED
        then map (\<lambda>s. bump (edges_onto (edges db2) (step_id s) (step_id step)) s) (step_view db2) else step_view db2)"
      "edges db' = edges db2"
    using apply_view [OF store_ok_distinct [OF assms(2), THEN conjunct1] assms(6)]
    by (elim exE conjE) (rule that; assumption)
  note g = guard_keeps [OF assms(1,2) v(1)]
  obtain c where c: "c \<in> set (step_view db1)" "step_id c = step_id step" "step_state c = st0"
    using assms(4) g(2) [of st0] by (auto simp: stands_view)
  have distinct: "distinct (map step_id (step_view db1))" using store_ok_distinct [OF g(1)] by (simp flip: step_ids_view)
  have not_done: "step_state c \<noteq> StepCOMPLETED" using c(3) legal_not_completed [OF assms(5)] by simp
  have before: "counters_exact (step_view db1) (edges db1)"
    using guard_counters [OF assms(2) v(1) assms(3)] by (simp add: counters_view)
  have view2: "step_view db2 = relay_steps (step_id c) st (record_id new) (step_view db1)" "edges db2 = edges db1"
    using v(2) c(2) by (simp_all add: relayed_def)
  show ?thesis
  proof (cases "st = StepCOMPLETED")
    case False
    then show ?thesis
      using relay_counters [OF distinct c(1) not_done False before] v(3,4) view2 by (simp add: counters_view)
  next
    case True
    let ?c = "c\<lparr>step_state := st, latest_state_record_id := Some (record_id new)\<rparr>"
    have "\<exists>ss' changes. cascade_step_completion (put_step ?c (step_view db1)) (edges db1) (step_id c) = Inr (ss', changes)
        \<and> counters_exact ss' (edges db1) \<and> map step_id ss' = map step_id (step_view db1)
        \<and> ss' = map (\<lambda>s. bump (edges_onto (edges db1) (step_id s) (step_id c)) s) (put_step ?c (step_view db1))"
      by (rule cascade_exact [OF distinct before c(1) not_done]) (simp_all add: True)
    then show ?thesis
      using v(3,4) view2 relay_as_put [OF distinct c(1), of st "record_id new"] c(2) True by (simp add: counters_view)
  qed
qed

end
