(* ===== verification/StepHistories.thy ===== *)
theory StepHistories
  imports StepInvariants
begin

text \<open>
  The commands that drive the step state machine, and what every sequence of them keeps: the single
  transition, the batch, the pause of a deleted task's steps and the forced completion are loops of the shared
  core over distinct steps that stand where a legal move starts. A history is any sequence of committed
  commands, the relation \<open>command\<close> closed reflexively and transitively.
\<close>

section \<open>The drivers of the core\<close>

text \<open>What a step is to the other commands: its task, its state and whether it is deleted.\<close>

definition status :: "store \<Rightarrow> (string \<times> string \<times> task_step_state \<times> bool) list" where
  "status db = map (\<lambda>s. (step_id s, step_task_id s, step_state s, step_is_deleted s)) (steps db)"

definition move_to :: "string set \<Rightarrow> task_step_state \<Rightarrow> (string \<times> string \<times> task_step_state \<times> bool) list
    \<Rightarrow> (string \<times> string \<times> task_step_state \<times> bool) list" where
  "move_to ids st = map (\<lambda>(i, t, x, d). (i, t, if i \<in> ids then st else x, d))"

lemma status_view: "status db = map (\<lambda>s. (step_id s, step_task_id s, step_state s, step_is_deleted s)) (step_view db)"
  by (simp add: status_def step_view_def)

lemma stands_status: "stands db i st \<longleftrightarrow> (\<exists>t. (i, t, st, False) \<in> set (status db))"
  by (auto simp: stands_def status_def)

lemma stands_move_to:
  "status db' = move_to {k} st (status db) \<Longrightarrow> i \<noteq> k \<Longrightarrow> stands db' i x \<longleftrightarrow> stands db i x"
  by (auto simp: stands_status move_to_def image_iff Bex_def)

lemma move_to_move_to: "move_to A st (move_to B st xs) = move_to (A \<union> B) st xs"
  by (simp add: move_to_def comp_def case_prod_beta)

lemma move_to_empty [simp]: "move_to {} st xs = xs"
  by (simp add: move_to_def case_prod_beta)

lemma status_same: "same_rows db db' \<Longrightarrow> status db' = status db"
  by (simp add: status_view same_rows_def)

lemma bump_task [simp]: "step_task_id (bump n s) = step_task_id s"
  by (simp add: bump_def recalculate_readiness_def)

lemma relayed_status: "relayed sid st cid now new db db' \<Longrightarrow> status db' = move_to {sid} st (status db)"
  by (auto simp: status_view relayed_def relay_steps_def move_to_def)

text \<open>Without the auto-pause, a transition moves the one step and leaves the records of the others open.\<close>

definition no_auto_pause :: "task_step \<Rightarrow> task_step_state \<Rightarrow> bool" where
  "no_auto_pause step st \<longleftrightarrow> st \<noteq> StepWORKING \<or> allows_batch_working step"

lemma apply_moves:
  assumes "no_auto_pause step st" "store_ok gen db" "open_at db (step_id step) (record_id closing)"
    and "apply_step_transition ctx step tid closing st pause_reason description credited now reason mark db = Inr (db', applied)"
  shows "status db' = move_to {step_id step} st (status db)"
    "i \<noteq> step_id step \<Longrightarrow> open_at db i c \<Longrightarrow> open_at db' i c"
proof -
  obtain db1 db2 new where v: "auto_pause_guard ctx step tid st credited now db = Inr (db1, ta_auto_paused applied)"
      "opens ctx (step_id step) st now db1 new" "relayed (step_id step) st (record_id closing) now new db1 db2"
      "step_view db' = (if st = StepCOMPLETED
        then map (\<lambda>s. bump (edges_onto (edges db2) (step_id s) (step_id step)) s) (step_view db2) else step_view db2)"
      "record_view db' = record_view db2"
    using apply_view [OF store_ok_distinct [OF assms(2), THEN conjunct1] assms(4)]
    by (elim exE conjE) (rule that; assumption)
  have "db1 = db" using v(1) assms(1) by (auto simp: auto_pause_guard_def no_auto_pause_def)
  note relay = v(3) [unfolded this]
  have "status db' = status db2" by (simp add: status_view v(4) comp_def)
  then show "status db' = move_to {step_id step} st (status db)" using relayed_status [OF relay] by simp
  show "open_at db' i c" if "i \<noteq> step_id step" "open_at db i c"
    using relayed_open_other [OF relay store_ok_distinct [OF assms(2), THEN conjunct2] assms(3) that(2,1)]
    by (simp add: open_at_view v(5))
qed

text \<open>A state evolves along legal moves.\<close>

definition evolved :: "string \<times> string \<times> task_step_state \<times> bool \<Rightarrow> string \<times> string \<times> task_step_state \<times> bool \<Rightarrow> bool" where
  "evolved a b \<longleftrightarrow> fst b = fst a \<and> fst (snd b) = fst (snd a) \<and> snd (snd (snd b)) = snd (snd (snd a))
     \<and> legal_move\<^sup>*\<^sup>* (fst (snd (snd a))) (fst (snd (snd b)))"

definition evolves :: "store \<Rightarrow> store \<Rightarrow> bool" where
  "evolves db db' \<longleftrightarrow> list_all2 evolved (status db) (status db')"

lemma evolved_refl [simp]: "evolved a a"
  by (simp add: evolved_def)

lemma all_evolved [simp]: "list_all2 evolved xs xs"
  by (simp add: list.rel_refl)

lemma evolves_refl [simp]: "evolves db db"
  by (simp add: evolves_def)

lemma evolves_trans: "evolves a b \<Longrightarrow> evolves b c \<Longrightarrow> evolves a c"
  unfolding evolves_def
  by (rule list_all2_trans [of evolved evolved evolved]) (auto simp: evolved_def intro: rtranclp_trans)

lemma evolves_same: "same_rows db db' \<Longrightarrow> evolves db db'"
  by (simp add: evolves_def status_same)

lemma evolves_move_to:
  assumes "status db' = move_to ids st (status db)" "distinct (map step_id (steps db))"
    and "\<And>i. i \<in> ids \<Longrightarrow> \<exists>st0. stands db i st0 \<and> legal_move st0 st"
  shows "evolves db db'"
proof -
  have "evolved e (case e of (i, t, x, d) \<Rightarrow> (i, t, if i \<in> ids then st else x, d))" if e: "e \<in> set (status db)" for e
  proof -
    obtain s where s: "s \<in> set (steps db)" "e = (step_id s, step_task_id s, step_state s, step_is_deleted s)"
      using e by (auto simp: status_def)
    have "legal_move (step_state s) st" if in_ids: "step_id s \<in> ids"
    proof -
      obtain s0 where s0: "s0 \<in> set (steps db)" "step_id s0 = step_id s" "legal_move (step_state s0) st"
        using assms(3) [OF in_ids] by (auto simp: stands_def)
      then have "s0 = s" using s(1) assms(2) by (metis distinct_map inj_onD)
      then show ?thesis using s0(3) by simp
    qed
    then show ?thesis by (auto simp: evolved_def s(2))
  qed
  then show ?thesis
    by (auto simp: evolves_def assms(1) move_to_def list.rel_map intro!: list.rel_refl_strong)
qed

text \<open>What every command does to the store: the invariant holds again, exact counters stay exact, and each
  step keeps its identity and moves legally.\<close>

definition safe :: "(nat \<Rightarrow> string) \<Rightarrow> store \<Rightarrow> store \<Rightarrow> bool" where
  "safe gen db db' \<longleftrightarrow> store_ok gen db' \<and> (counters_ok db \<longrightarrow> counters_ok db') \<and> evolves db db'"

lemma safe_same: "safe gen db db' \<Longrightarrow> same_rows db' db'' \<Longrightarrow> safe gen db db''"
  using evolves_same evolves_trans by (auto simp: safe_def store_ok_same counters_ok_same)

lemma safe_trans: "safe gen a b \<Longrightarrow> safe gen b c \<Longrightarrow> safe gen a c"
  using evolves_trans by (auto simp: safe_def)

text \<open>A loop of such transitions over distinct steps, each standing where a legal move starts.\<close>

definition poised :: "store \<Rightarrow> task_step_state \<Rightarrow> string \<Rightarrow> string \<Rightarrow> bool" where
  "poised db st sid cid \<longleftrightarrow> (\<exists>st0. stands db sid st0 \<and> legal_move st0 st) \<and> open_at db sid cid"

definition one_move :: "(nat \<Rightarrow> string) \<Rightarrow> task_step_state \<Rightarrow> string \<Rightarrow> store \<Rightarrow> store \<Rightarrow> bool" where
  "one_move gen st sid db db' \<longleftrightarrow> store_ok gen db' \<and> status db' = move_to {sid} st (status db)
     \<and> (\<forall>i c. i \<noteq> sid \<longrightarrow> open_at db i c \<longrightarrow> open_at db' i c) \<and> (counters_ok db \<longrightarrow> counters_ok db')"

lemma apply_one_move:
  assumes "inj (generate_id ctx)" "store_ok (generate_id ctx) db" "no_auto_pause step st"
    and "poised db st (step_id step) (record_id closing)"
    and "apply_step_transition ctx step tid closing st pause_reason description credited now reason mark db = Inr (db', applied)"
  shows "one_move (generate_id ctx) st (step_id step) db db'"
  using assms(4) apply_store_ok [OF assms(1,2) _ _ _ assms(5)] apply_moves [OF assms(3,2) _ assms(5)]
    apply_counters [OF assms(1,2) _ _ _ assms(5)]
  by (auto simp: one_move_def poised_def)

lemma one_move_same: "one_move gen st sid db db' \<Longrightarrow> same_rows db' db'' \<Longrightarrow> one_move gen st sid db db''"
  using store_ok_same [of db' db'' gen] status_same [of db' db''] counters_ok_same [of db' db'']
  by (simp add: one_move_def open_at_view same_rows_def)

lemma one_move_poised:
  "one_move gen st sid db db' \<Longrightarrow> i \<noteq> sid \<Longrightarrow> poised db st' i c \<Longrightarrow> poised db' st' i c"
  using stands_move_to [of db' sid st db i] by (auto simp: one_move_def poised_def)

lemma loop_moves:
  assumes "rfold f (db, acc) xs = Inr (db', acc')" "distinct (map k xs)" "store_ok gen db"
    and "\<And>x. x \<in> set xs \<Longrightarrow> poised db st (k x) (c x)"
    and "\<And>d a d' a' x. x \<in> set xs \<Longrightarrow> f (d, a) x = Inr (d', a') \<Longrightarrow> store_ok gen d \<Longrightarrow> poised d st (k x) (c x)
      \<Longrightarrow> one_move gen st (k x) d d'"
  shows "safe gen db db' \<and> status db' = move_to (k ` set xs) st (status db)"
  using assms
proof (induction xs arbitrary: db acc)
  case Nil
  then show ?case by (simp add: safe_def)
next
  case (Cons x xs)
  obtain d a where one: "f (db, acc) x = Inr (d, a)" and rest: "rfold f (d, a) xs = Inr (db', acc')"
    using Cons.prems(1) by auto
  have move: "one_move gen st (k x) db d" using Cons.prems(3-5) one by simp
  then have ok: "store_ok gen d" by (simp add: one_move_def)
  have "evolves db d"
    using move Cons.prems(4) [of x]
    by (intro evolves_move_to [of d "{k x}" st db, OF _ store_ok_distinct [OF Cons.prems(3), THEN conjunct1]])
      (auto simp: one_move_def poised_def)
  then have safe: "safe gen db d" using move by (simp add: one_move_def safe_def)
  have "poised d st (k y) (c y)" if "y \<in> set xs" for y
    using one_move_poised [OF move] Cons.prems(2,4) that by (auto simp: image_iff)
  then have "safe gen d db' \<and> status db' = move_to (k ` set xs) st (status d)"
    by (intro Cons.IH [OF rest]) (use Cons.prems(2,5) ok in auto)
  then show ?case using move safe_trans [OF safe] by (simp add: one_move_def move_to_move_to)
qed

subsection \<open>The endpoints\<close>

lemma trail_closing:
  assumes "store_ok gen db" "s \<in> set (steps db)" "\<not> step_is_deleted s"
  obtains r where "filter (\<lambda>x. record_step_id x = step_id s \<and> exited_at x = None) (records db) = [r]"
    "r \<in> set (records db)" "record_step_id r = step_id s" "exited_at r = None" "record_state r = step_state s"
    "open_at db (step_id s) (record_id r)" "stands db (step_id s) (step_state s)"
proof -
  have "on_trail (records db) s" using assms by (simp add: store_ok_def trails_ok_def)
  then obtain r where r: "filter (\<lambda>x. record_step_id x = step_id s \<and> exited_at x = None) (records db) = [r]"
      "record_state r = step_state s"
    using on_trail_open by blast
  from filter_eq_singletonD [OF r(1)] have "r \<in> set (records db)" "record_step_id r = step_id s" "exited_at r = None"
    by auto
  then show thesis using that [OF r(1)] r(2) assms(2,3) by (auto simp: open_at_def stands_def)
qed

lemma live_stepD: "s \<in> set (live_step ss i) \<Longrightarrow> s \<in> set ss \<and> step_id s = i \<and> \<not> step_is_deleted s"
  by (simp add: live_step_def)

lemma scalar_or_raiseD: "scalar_or_raise e rows = Inr r \<Longrightarrow> rows = [r]"
  by (auto simp: scalar_or_raise_def scalar_one_or_none_def split: option.splits list.splits)

text \<open>A successful request of the endpoint is a run of the core on the open record of the step.\<close>

lemma transition_runs_core:
  assumes "store_ok gen db" "transition_step_state ctx rq now db = Inr (db', applied)"
  obtains step tid closing credited db1 where "step \<in> set (steps db)" "\<not> step_is_deleted step" "step_id step = rq_step_id rq"
    "rq_new_state rq \<in> set (ALLOWED_TRANSITIONS (step_state step))"
    "stands db (step_id step) (step_state step)" "open_at db (step_id step) (record_id closing)"
    "credited = resolve_transition_credit_user_id ctx rq"
    "apply_step_transition ctx step tid closing (rq_new_state rq) (rq_pause_reason_id rq) (rq_description rq)
      credited now None (rq_mark_closing_record_inaccurate rq) db = Inr (db1, applied)" "same_rows db1 db'"
proof -
  obtain step and task :: task_row where found: "filter (\<lambda>s. step_task_id s = rq_task_id rq) (live_step (steps db) (rq_step_id rq)) = [step]"
    and legal: "rq_new_state rq \<in> set (ALLOWED_TRANSITIONS (step_state step))"
    and body: "transition_body ctx rq step (task_id task) (resolve_transition_credit_user_id ctx rq) now db = Inr (db', applied)"
    using assms(2) unfolding transition_step_state_def Let_def rbind_eq_Inr rguard_eq_Inr
    by (elim exE conjE) (rule that; (erule scalar_or_raiseD | assumption))
  have s: "step \<in> set (steps db)" "\<not> step_is_deleted step" "step_id step = rq_step_id rq"
    using filter_eq_singletonD [OF found] live_stepD by auto
  obtain closing where c: "filter (\<lambda>x. record_step_id x = step_id step \<and> exited_at x = None) (records db) = [closing]"
      "open_at db (step_id step) (record_id closing)" "stands db (step_id step) (step_state step)"
    by (rule trail_closing [OF assms(1) s(1,2)]) (rule that)
  obtain db1 where run: "apply_step_transition ctx step (task_id task) closing (rq_new_state rq) (rq_pause_reason_id rq)
      (rq_description rq) (resolve_transition_credit_user_id ctx rq) now None (rq_mark_closing_record_inaccurate rq) db
      = Inr (db1, applied)"
    and db': "db' = (if rq_new_state rq = StepWORKING then mark_step_obligations_acknowledged [step_id step] now db1 else db1)"
    using body transition_body_core [OF store_ok_distinct [OF assms(1), THEN conjunct2] c(1)] by auto
  have "same_rows db1 db'" by (simp add: db')
  then show thesis by (rule that [OF s legal c(3,2) refl run])
qed

lemma last_match_Some: "last_match P rows = Some x \<Longrightarrow> x \<in> set rows \<and> P x"
  by (auto simp: last_match_def find_Some_iff) (metis length_rev nth_mem set_rev)

lemma last_match_None: "last_match P rows = None \<longleftrightarrow> (\<forall>x \<in> set rows. \<not> P x)"
  by (auto simp: last_match_def find_None_iff)

definition batch_closing :: "store \<Rightarrow> batch_item \<Rightarrow> state_record" where
  "batch_closing db item = the (last_match (\<lambda>r. record_step_id r = bi_step_id item \<and> exited_at r = None) (records db))"

lemma batch_item_ok:
  assumes "batch_item_error db st item = None" "store_ok gen db"
  shows "\<exists>step. last_match (\<lambda>s. step_id s = bi_step_id item \<and> \<not> step_is_deleted s) (steps db) = Some step
    \<and> step_id step = bi_step_id item \<and> allows_batch_working step
    \<and> last_match (\<lambda>r. record_step_id r = bi_step_id item \<and> exited_at r = None) (records db) = Some (batch_closing db item)
    \<and> poised db st (bi_step_id item) (record_id (batch_closing db item))"
proof -
  obtain step closing where s: "last_match (\<lambda>s. step_id s = bi_step_id item \<and> \<not> step_is_deleted s) (steps db) = Some step"
    and c: "last_match (\<lambda>r. record_step_id r = bi_step_id item \<and> exited_at r = None) (records db) = Some closing"
    and "allows_batch_working step" "st \<in> set (ALLOWED_TRANSITIONS (step_state step))"
    using assms(1) by (auto simp: batch_item_error_def split: option.splits if_splits)
  moreover note last_match_Some [OF s] last_match_Some [OF c]
  ultimately show ?thesis
    by (auto simp: poised_def stands_def open_at_def legal_move_def batch_closing_def)
qed

lemma batch_keeps_ok:
  assumes "inj (generate_id ctx)" "store_ok (generate_id ctx) db" "distinct (map bi_step_id batch)"
    and "transition_step_state_batch ctx batch st pause_reason description now db = Inr (db', applied)"
  shows "safe (generate_id ctx) db db' \<and> status db' = move_to (bi_step_id ` set batch) st (status db)"
proof -
  obtain db1 where valid: "\<forall>item \<in> set batch. batch_item_error db st item = None"
    and loop: "rfold (batch_step ctx db st pause_reason description now) (db, []) batch = Inr (db1, applied)"
    and db': "db' = (if st = StepWORKING then mark_step_obligations_acknowledged (map bi_step_id batch) now db1 else db1)"
    using assms(4) by (auto simp: transition_step_state_batch_def Let_def)
  have "safe (generate_id ctx) db db1 \<and> status db1 = move_to (bi_step_id ` set batch) st (status db)"
  proof (rule loop_moves [OF loop assms(3,2)])
    show "poised db st (bi_step_id item) (record_id (batch_closing db item))" if "item \<in> set batch" for item
      using batch_item_ok [OF _ assms(2)] valid that by blast
    fix d a d' a' item
    assume "item \<in> set batch" and run: "batch_step ctx db st pause_reason description now (d, a) item = Inr (d', a')"
      and d: "store_ok (generate_id ctx) d" "poised d st (bi_step_id item) (record_id (batch_closing db item))"
    then obtain step where s: "last_match (\<lambda>s. step_id s = bi_step_id item \<and> \<not> step_is_deleted s) (steps db) = Some step"
        "step_id step = bi_step_id item" "allows_batch_working step"
        "last_match (\<lambda>r. record_step_id r = bi_step_id item \<and> exited_at r = None) (records db) = Some (batch_closing db item)"
      using batch_item_ok [OF _ assms(2)] valid by blast
    then obtain ap where "apply_step_transition ctx step (step_task_id step) (batch_closing db item) st pause_reason description
        (ctx_user_id ctx) now None (bi_mark_closing_record_inaccurate item) d = Inr (d', ap)"
      using run by (auto simp: batch_step_def)
    from apply_one_move [OF assms(1) d(1) _ _ this] show "one_move (generate_id ctx) st (bi_step_id item) d d'"
      using d(2) s(2,3) by (simp add: no_auto_pause_def)
  qed
  moreover have "same_rows db1 db'" by (simp add: db')
  ultimately show ?thesis using safe_same status_same by metis
qed

lemma set_working_rows: "set (working_rows db tid) = {(r, s). r \<in> set (records db) \<and> s \<in> set (steps db)
    \<and> step_id s = record_step_id r \<and> \<not> step_is_deleted s \<and> step_task_id s = tid
    \<and> \<not> record_is_deleted r \<and> exited_at r = None \<and> record_state r = StepWORKING}"
  by (auto simp: working_rows_def)

text \<open>A step on its trail has one open record, so the join yields each step once.\<close>

lemma open_unique:
  assumes "store_ok gen db" "s \<in> set (steps db)" "\<not> step_is_deleted s"
    and "r \<in> set (records db)" "record_step_id r = step_id s" "exited_at r = None"
    and "r' \<in> set (records db)" "record_step_id r' = step_id s" "exited_at r' = None"
  shows "r = r'"
proof -
  obtain q where "filter (\<lambda>x. record_step_id x = step_id s \<and> exited_at x = None) (records db) = [q]"
    by (rule trail_closing [OF assms(1-3)]) (rule that; assumption)
  moreover have "{r, r'} \<subseteq> set (filter (\<lambda>x. record_step_id x = step_id s \<and> exited_at x = None) (records db))"
    using assms by simp
  ultimately show ?thesis by simp
qed

lemma distinct_join:
  assumes "distinct rows" "\<And>r. r \<in> set rows \<Longrightarrow> distinct (map k (g r))"
    and "\<And>r r' s s'. r \<in> set rows \<Longrightarrow> r' \<in> set rows \<Longrightarrow> s \<in> set (g r) \<Longrightarrow> s' \<in> set (g r') \<Longrightarrow> k s = k s' \<Longrightarrow> r = r'"
  shows "distinct (map (\<lambda>(r, s). k s) (concat (map (\<lambda>r. map (\<lambda>s. (r, s)) (g r)) rows)))"
  using assms
proof (induction rows)
  case (Cons r rows)
  have "distinct (map (\<lambda>(r, s). k s) (concat (map (\<lambda>r. map (\<lambda>s. (r, s)) (g r)) rows)))"
    by (rule Cons.IH) (use Cons.prems in auto)
  moreover have "k s \<noteq> k s'" if "s \<in> set (g r)" "r' \<in> set rows" "s' \<in> set (g r')" for s s' r'
    using Cons.prems(1) Cons.prems(3) [of r r' s s'] that by auto
  ultimately show ?case using Cons.prems(2) by (auto simp: comp_def)
qed simp

lemma distinct_working_rows:
  assumes "store_ok gen db"
  shows "distinct (map (\<lambda>(r, s). step_id s) (working_rows db tid))"
proof -
  let ?rows = "filter (\<lambda>r. \<not> record_is_deleted r \<and> exited_at r = None \<and> record_state r = StepWORKING) (records db)"
  let ?g = "\<lambda>r. filter (\<lambda>s. step_id s = record_step_id r \<and> \<not> step_is_deleted s \<and> step_task_id s = tid) (steps db)"
  let ?join = "concat (map (\<lambda>r. map (\<lambda>s. (r, s)) (?g r)) ?rows)"
  have "distinct (map (\<lambda>(r, s). step_id s) ?join)"
  proof (rule distinct_join)
    show "distinct ?rows" using store_ok_distinct [OF assms] by (simp add: distinct_map)
    show "distinct (map step_id (?g r))" for r using store_ok_distinct [OF assms] by (simp add: distinct_map_filter)
    show "r = r'" if "r \<in> set ?rows" "r' \<in> set ?rows" "s \<in> set (?g r)" "s' \<in> set (?g r')" "step_id s = step_id s'" for r r' s s'
      using that by (intro open_unique [OF assms, of s r r']) auto
  qed
  moreover have "mset (map (\<lambda>(r, s). step_id s) (working_rows db tid)) = mset (map (\<lambda>(r, s). step_id s) ?join)"
    by (simp add: working_rows_def)
  ultimately show ?thesis using mset_eq_imp_distinct_iff by blast
qed

lemma pause_task_keeps_ok:
  assumes "inj (generate_id ctx)" "store_ok (generate_id ctx) db"
    and "pause_task_working_steps ctx tid paused_at db = Inr (db', paused)"
  shows "safe (generate_id ctx) db db'
    \<and> status db' = move_to ((\<lambda>(r, s). step_id s) ` set (working_rows db tid)) StepPAUSED (status db)"
  using assms(3) [unfolded pause_task_working_steps_def] distinct_working_rows [OF assms(2)] assms(2)
proof (rule loop_moves [where c = "\<lambda>(r, s). record_id r"])
  fix x assume "x \<in> set (working_rows db tid)"
  then obtain r s where x: "x = (r, s)" and row: "r \<in> set (records db)" "s \<in> set (steps db)" "step_id s = record_step_id r"
      "\<not> step_is_deleted s" "exited_at r = None" "record_state r = StepWORKING"
    by (auto simp: set_working_rows)
  obtain q where q: "q \<in> set (records db)" "record_step_id q = step_id s" "exited_at q = None" "record_state q = step_state s"
    by (rule trail_closing [OF assms(2) row(2,4)]) (rule that; assumption)
  have "step_state s = StepWORKING"
    using open_unique [OF assms(2) row(2,4,1) row(3) [symmetric] row(5) q(1-3)] q(4) row(6) by simp
  then have "poised db StepPAUSED (step_id s) (record_id r)"
    using row by (auto simp: poised_def stands_def open_at_def legal_move_def)
  then show "poised db StepPAUSED (case x of (r, s) \<Rightarrow> step_id s) (case x of (r, s) \<Rightarrow> record_id r)" by (simp add: x)
  fix d a d' a'
  assume run: "pause_row ctx tid paused_at (d, a) x = Inr (d', a')" and d: "store_ok (generate_id ctx) d"
    and p: "poised d StepPAUSED (case x of (r, s) \<Rightarrow> step_id s) (case x of (r, s) \<Rightarrow> record_id r)"
  obtain ap where "apply_step_transition ctx s tid r StepPAUSED None (Some ''task deleted'')
       (credit_of r (ctx_user_id ctx)) (max paused_at (entered_at r)) (Some ReasonTASK_DELETED) False d = Inr (d', ap)"
    using run by (auto simp: pause_row_def x)
  from apply_one_move [OF assms(1) d _ _ this]
  show "one_move (generate_id ctx) StepPAUSED (case x of (r, s) \<Rightarrow> step_id s) d d'"
    using p by (simp add: no_auto_pause_def x)
qed

lemma force_skips_legal: "StepSKIPPED \<in> set (FORCE_READY_TRANSITIONS st) \<Longrightarrow> legal_move st StepSKIPPED"
  by (simp add: legal_move_def)

definition open_step_ids :: "store \<Rightarrow> string \<Rightarrow> string set" where
  "open_step_ids db tid = {i. \<exists>st. (i, tid, st, False) \<in> set (status db) \<and> st \<notin> TERMINAL_STEP_STATES}"

lemma open_step_ids_steps:
  "step_id ` set (filter (\<lambda>s. step_state s \<notin> TERMINAL_STEP_STATES) (in_sequence (live_steps db tid))) = open_step_ids db tid"
  by (auto simp: open_step_ids_def status_def in_sequence_def live_steps_def image_iff)

lemma force_loop_keeps_ok:
  assumes "inj (generate_id ctx)" "store_ok (generate_id ctx) db"
    and "todo = filter (\<lambda>s. step_state s \<notin> TERMINAL_STEP_STATES) (in_sequence (live_steps db tid))"
    and "\<forall>s \<in> set todo. StepSKIPPED \<in> set (FORCE_READY_TRANSITIONS (step_state s))"
    and "\<forall>s \<in> set todo. \<exists>r \<in> set (records db). record_step_id r = step_id s \<and> exited_at r = None"
    and "rfold (force_skip ctx db tid reason mark now) (db, []) todo = Inr (db', skipped)"
  shows "safe (generate_id ctx) db db' \<and> status db' = move_to (step_id ` set todo) StepSKIPPED (status db)"
proof (rule loop_moves [OF assms(6) _ assms(2)])
  let ?open = "\<lambda>s. last_match (\<lambda>r. record_step_id r = step_id s \<and> exited_at r = None) (records db)"
  have "distinct (map step_id (filter P (live_steps db tid)))" for P
    using store_ok_distinct [OF assms(2)] by (simp add: live_steps_def distinct_map_filter)
  moreover have "mset (map step_id (filter P (in_sequence xs))) = mset (map step_id (filter P xs))" for P xs
    by (simp add: in_sequence_def mset_filter)
  ultimately have "distinct (map step_id (filter P (in_sequence (live_steps db tid))))" for P
    using mset_eq_imp_distinct_iff by blast
  then show "distinct (map step_id todo)" by (simp add: assms(3))
  fix s assume s: "s \<in> set todo"
  then have live: "s \<in> set (steps db)" "\<not> step_is_deleted s" by (auto simp: assms(3) in_sequence_def live_steps_def)
  obtain r where r: "?open s = Some r" 
    using assms(5) s last_match_None [of "\<lambda>r. record_step_id r = step_id s \<and> exited_at r = None" "records db"]
    by (cases "?open s") fastforce+
  note last_match_Some [OF r]
  then show "poised db StepSKIPPED (step_id s) (record_id (the (?open s)))"
    using live assms(4) s r by (auto simp: poised_def stands_def open_at_def intro: force_skips_legal)
  fix d a d' a'
  assume run: "force_skip ctx db tid reason mark now (d, a) s = Inr (d', a')" and d: "store_ok (generate_id ctx) d"
    and p: "poised d StepSKIPPED (step_id s) (record_id (the (?open s)))"
  obtain d1 ap events where core: "apply_step_transition ctx s tid r StepSKIPPED None reason
      (if truthy_text (credited_user_id r) then the (credited_user_id r) else ctx_user_id ctx)
      now (Some ReasonFORCED_READY) mark d = Inr (d1, ap)"
    and up: "upholstery_effect s tid StepCOMPLETED (ctx_user_id ctx) now d1 = Inr (d', events)"
    using run by (auto simp: force_skip_def r)
  from apply_one_move [OF assms(1) d _ _ core] have "one_move (generate_id ctx) StepSKIPPED (step_id s) d d1"
    using p by (simp add: no_auto_pause_def r)
  then show "one_move (generate_id ctx) StepSKIPPED (step_id s) d d'"
    using one_move_same same_rows_upholstery [OF up] by blast
qed

lemma force_ready_runs:
  assumes "inj (generate_id ctx)" "store_ok (generate_id ctx) db"
    and "force_task_ready ctx tid reason mark now db = Inr (db', skipped)"
  shows "safe (generate_id ctx) db db' \<and> status db' = move_to (open_step_ids db tid) StepSKIPPED (status db) \<and> (\<exists>t. find_task db' tid = Some t \<and> task_state t = TaskREADY)"
proof -
  let ?todo = "filter (\<lambda>s. step_state s \<notin> TERMINAL_STEP_STATES) (in_sequence (live_steps db tid))"
  obtain p where legal: "\<forall>s \<in> set ?todo. StepSKIPPED \<in> set (FORCE_READY_TRANSITIONS (step_state s))"
    and opened: "\<forall>s \<in> set ?todo. \<exists>r \<in> set (records db). record_step_id r = step_id s \<and> exited_at r = None"
    and loop: "rfold (force_skip ctx db tid reason mark now) (db, []) ?todo = Inr p"
    and rest: "(case p of (db, skipped) \<Rightarrow> rbind (maybe_evaluate_task_ready tid now (ctx_user_id ctx) True db) (\<lambda>(db, _).
      rbind (rguard (case find_task db tid of None \<Rightarrow> False | Some t \<Rightarrow> task_state t = TaskREADY)
        (ConflictError ''Task could not be marked ready.'')) (\<lambda>_. Inr (db, skipped)))) = Inr (db', skipped)"
    using assms(3) unfolding force_task_ready_def Let_def rbind_eq_Inr rguard_eq_Inr
    by (elim exE conjE) (rule that; assumption)
  obtain db1 became where p: "p = (db1, skipped)"
    and eval: "maybe_evaluate_task_ready tid now (ctx_user_id ctx) True db1 = Inr (db', became)"
    and ready: "case find_task db' tid of None \<Rightarrow> False | Some t \<Rightarrow> task_state t = TaskREADY"
    using rest by (cases p) auto
  note same = same_rows_evaluate [OF eval]
  have "safe (generate_id ctx) db db1 \<and> status db1 = move_to (open_step_ids db tid) StepSKIPPED (status db)"
    using force_loop_keeps_ok [OF assms(1,2) refl legal opened loop [unfolded p]]
    unfolding open_step_ids_steps .
  then show ?thesis
    using ready safe_same [OF _ same] status_same [OF same] by (auto split: option.splits)
qed

lemma live_steps_status: "s \<in> set (live_steps db tid) \<Longrightarrow> (step_id s, tid, step_state s, False) \<in> set (status db)"
  by (force simp: live_steps_def status_def)

lemma skipped_all_terminal:
  assumes "status db' = move_to (open_step_ids db tid) StepSKIPPED (status db)" "s \<in> set (live_steps db' tid)"
  shows "step_state s \<in> TERMINAL_STEP_STATES"
  using live_steps_status [OF assms(2)] assms(1)
  by (auto simp: move_to_def open_step_ids_def TERMINAL_STEP_STATES_def split: if_splits)

section \<open>Histories\<close>

text \<open>One committed command, by any user at any time, and the sequences of them. The request parser of the
  batch endpoint rejects a repeated step (\<open>requests/__init__.py\<close>).\<close>

inductive command :: "(nat \<Rightarrow> string) \<Rightarrow> store \<Rightarrow> store \<Rightarrow> bool" for gen where
  Transition: "transition_step_state \<lparr>ctx_user_id = user, generate_id = gen\<rparr> rq now db = Inr (db', applied)
    \<Longrightarrow> command gen db db'"
| Batch: "distinct (map bi_step_id batch)
    \<Longrightarrow> transition_step_state_batch \<lparr>ctx_user_id = user, generate_id = gen\<rparr> batch st pause_reason description now db
      = Inr (db', applied)
    \<Longrightarrow> command gen db db'"
| Pause: "pause_task_working_steps \<lparr>ctx_user_id = user, generate_id = gen\<rparr> tid paused_at db = Inr (db', paused)
    \<Longrightarrow> command gen db db'"
| Force: "force_task_ready \<lparr>ctx_user_id = user, generate_id = gen\<rparr> tid reason mark now db = Inr (db', skipped)
    \<Longrightarrow> command gen db db'"

lemma apply_evolves:
  assumes "inj (generate_id ctx)" "store_ok (generate_id ctx) db" "stands db (step_id step) st0" "legal_move st0 st"
    and "apply_step_transition ctx step tid closing st pause_reason description credited now reason mark db = Inr (db', applied)"
  shows "evolves db db'"
proof -
  obtain db1 db2 new where v: "auto_pause_guard ctx step tid st credited now db = Inr (db1, ta_auto_paused applied)"
      "relayed (step_id step) st (record_id closing) now new db1 db2"
      "step_view db' = (if st = StepCOMPLETED
        then map (\<lambda>s. bump (edges_onto (edges db2) (step_id s) (step_id step)) s) (step_view db2) else step_view db2)"
    using apply_view [OF store_ok_distinct [OF assms(2), THEN conjunct1] assms(5)]
    by (elim exE conjE) (rule that; assumption)
  note g = guard_keeps [OF assms(1,2) v(1)]
  have "evolves db db1"
    using guard_relays [OF store_ok_distinct [OF assms(2), THEN conjunct1] v(1)]
  proof (elim disjE exE conjE)
    fix r s new
    assume f: "fetch_open_user_working_record db [ctx_user_id ctx, credited] (step_id step) = Some (r, s)"
      and r: "relayed (step_id s) StepPAUSED (record_id r) now new db db1"
    show ?thesis
      using conflict_open(1) [OF f assms(2)]
      by (intro evolves_move_to [OF relayed_status [OF r] store_ok_distinct [OF assms(2), THEN conjunct1]])
        (auto simp: legal_move_def)
  qed simp
  moreover have "evolves db1 db2"
    using assms(3,4) g(2)
    by (intro evolves_move_to [OF relayed_status [OF v(2)] store_ok_distinct [OF g(1), THEN conjunct1]]) auto
  moreover have "evolves db2 db'"
  proof -
    have "status db' = status db2" by (simp add: status_view v(3) comp_def)
    then show ?thesis by (simp add: evolves_def)
  qed
  ultimately show ?thesis using evolves_trans by blast
qed

lemma apply_safe:
  assumes "inj (generate_id ctx)" "store_ok (generate_id ctx) db"
    and "stands db (step_id step) st0" "open_at db (step_id step) (record_id closing)" "legal_move st0 st"
    and "apply_step_transition ctx step tid closing st pause_reason description credited now reason mark db = Inr (db', applied)"
  shows "safe (generate_id ctx) db db'"
  using apply_store_ok [OF assms] apply_counters [OF assms(1,2) _ assms(3,5,6)] apply_evolves [OF assms(1-3,5,6)]
  by (simp add: safe_def)

lemma transition_safe:
  assumes "inj (generate_id ctx)" "store_ok (generate_id ctx) db" "transition_step_state ctx rq now db = Inr (db', applied)"
  shows "safe (generate_id ctx) db db'"
  using assms(2,3)
proof (rule transition_runs_core)
  fix step :: task_step and tid and closing :: state_record and credited db1
  assume "rq_new_state rq \<in> set (ALLOWED_TRANSITIONS (step_state step))"
  then have "legal_move (step_state step) (rq_new_state rq)" by (simp add: legal_move_def)
  moreover assume "stands db (step_id step) (step_state step)" "open_at db (step_id step) (record_id closing)"
    "apply_step_transition ctx step tid closing (rq_new_state rq) (rq_pause_reason_id rq) (rq_description rq)
      credited now None (rq_mark_closing_record_inaccurate rq) db = Inr (db1, applied)" "same_rows db1 db'"
  ultimately show ?thesis using apply_safe [OF assms(1,2)] safe_same by blast
qed

lemma command_safe:
  assumes "inj gen" "store_ok gen db" "command gen db db'"
  shows "safe gen db db'"
  using assms(3)
proof (cases rule: command.cases)
  case (Transition user rq now applied)
  then show ?thesis using transition_safe [of "\<lparr>ctx_user_id = user, generate_id = gen\<rparr>"] assms(1,2) by simp
next
  case (Batch items user st pause_reason description now applied)
  then show ?thesis using batch_keeps_ok [of "\<lparr>ctx_user_id = user, generate_id = gen\<rparr>"] assms(1,2) by fastforce
next
  case (Pause user tid paused_at paused)
  then show ?thesis using pause_task_keeps_ok [of "\<lparr>ctx_user_id = user, generate_id = gen\<rparr>"] assms(1,2) by fastforce
next
  case (Force user tid reason mark now skipped)
  then show ?thesis using force_ready_runs [of "\<lparr>ctx_user_id = user, generate_id = gen\<rparr>"] assms(1,2) by fastforce
qed

lemma history_safe:
  assumes "(command gen)\<^sup>*\<^sup>* db db'" "inj gen" "store_ok gen db"
  shows "safe gen db db'"
  using assms(1)
proof (induction rule: rtranclp_induct)
  case base
  then show ?case using assms(3) by (simp add: safe_def)
next
  case (step d d')
  have "store_ok gen d" using step.IH by (simp add: safe_def)
  then show ?case by (rule safe_trans [OF step.IH command_safe [OF assms(2) _ step.hyps(2)]])
qed

section \<open>What holds after every history\<close>

lemma inj_sample_id: "inj sample_id"
  by (rule injI) (metis append_eq_append_conv length_replicate sample_id_def same_append_eq)

lemma trail_simps: "trail [] i = []" "trail (r # rs) i = (if record_step_id r = i then r # trail rs i else trail rs i)"
  by (simp_all add: trail_def)

lemma sample_store_ok: "store_ok sample_id sample_store"
proof -
  have fresh: "i \<noteq> sample_id n" if "hd i = CHR ''r''" for i n using that by (auto simp: sample_id_def)
  have "\<forall>r \<in> set (records sample_store). hd (record_id r) = CHR ''r''"
    by (simp add: sample_store_def state_row_def Let_def)
  then have "\<forall>r \<in> set (records sample_store). \<forall>n \<ge> drawn sample_store. record_id r \<noteq> sample_id n"
    using fresh by blast
  moreover have "trails_ok (steps sample_store) (records sample_store)"
    by (simp add: trails_ok_def on_trail_last trail_simps sample_store_defs)
  ultimately show ?thesis by (simp add: store_ok_def) (simp add: sample_store_defs)
qed

lemma sample_counters: "counters_exact (steps sample_store) (edges sample_store)"
  by (simp add: counters_exact_def exact_def prereq_edges_def done_edges_def step_done_def active_def sample_store_defs
      recalculate_fixed)

definition sample_run :: "(store \<times> transition_applied) result" where
  "sample_run = transition_step_state (as_user ''w'') (sample_request ''a'' StepCOMPLETED) 3600000000 sample_store"

lemma sample_history:
  obtains db' applied where "sample_run = Inr (db', applied)" "(command sample_id)\<^sup>*\<^sup>* sample_store db'"
    "map (\<lambda>s. (step_id s, step_state s, step_is_deleted s)) (steps db')
       = [(''a'', StepCOMPLETED, False), (''b'', StepPENDING, False), (''c'', StepWORKING, False)]"
proof -
  have "case sample_run of Inl _ \<Rightarrow> False
      | Inr (db', _) \<Rightarrow> map (\<lambda>s. (step_id s, step_state s, step_is_deleted s)) (steps db')
          = [(''a'', StepCOMPLETED, False), (''b'', StepPENDING, False), (''c'', StepWORKING, False)]"
    by code_simp
  then obtain db' applied where run: "sample_run = Inr (db', applied)"
    and steps: "map (\<lambda>s. (step_id s, step_state s, step_is_deleted s)) (steps db')
       = [(''a'', StepCOMPLETED, False), (''b'', StepPENDING, False), (''c'', StepWORKING, False)]"
    by (auto split: sum.splits)
  have "command sample_id sample_store db'"
    using run unfolding sample_run_def as_user_def by (rule command.Transition)
  then show thesis by (rule that [OF run r_into_rtranclp steps])
qed

text \<open>C1: After any history of step commands - single and batch transitions, the pause of a deleted task's
  steps, forcing a task ready, by any users at any times - the records of every live step form one unbroken
  trail: each was closed exactly when the next was opened, every move is one the transition tables allow, and
  only the last record is open. The step agrees with it and points to it. Time is therefore never counted
  twice nor lost between two records, and each command finds the one open record it needs.\<close>

theorem history_keeps_trails:
  assumes "inj gen" "store_ok gen db" "(command gen)\<^sup>*\<^sup>* db db'" "s \<in> set (steps db')" "\<not> step_is_deleted s"
  shows "\<exists>past r. trail (records db') (step_id s) = past @ [r] \<and> successively linked (past @ [r])
    \<and> filter (\<lambda>x. record_step_id x = step_id s \<and> exited_at x = None) (records db') = [r]
    \<and> record_state r = step_state s \<and> latest_state_record_id s = Some (record_id r)"
proof -
  have "on_trail (records db') s"
    using history_safe [OF assms(3,1,2)] assms(4,5) by (simp add: safe_def store_ok_def trails_ok_def)
  then obtain past r where t: "trail (records db') (step_id s) = past @ [r]" "successively linked (past @ [r])"
    by (auto simp: on_trail_def)
  with on_trail_open [OF \<open>on_trail (records db') s\<close>] show ?thesis by auto
qed

theorem history_keeps_trails_witness:
  "\<exists>db' applied r. sample_run = Inr (db', applied) \<and> record_state r = StepCOMPLETED
     \<and> filter (\<lambda>x. record_step_id x = ''a'' \<and> exited_at x = None) (records db') = [r]"
proof -
  obtain db' applied where run: "sample_run = Inr (db', applied)" "(command sample_id)\<^sup>*\<^sup>* sample_store db'"
    and steps: "map (\<lambda>s. (step_id s, step_state s, step_is_deleted s)) (steps db')
       = [(''a'', StepCOMPLETED, False), (''b'', StepPENDING, False), (''c'', StepWORKING, False)]"
    by (rule sample_history)
  then have "(''a'', StepCOMPLETED, False) \<in> set (map (\<lambda>s. (step_id s, step_state s, step_is_deleted s)) (steps db'))"
    by simp
  then obtain s where s: "s \<in> set (steps db')" "step_id s = ''a''" "step_state s = StepCOMPLETED" "\<not> step_is_deleted s"
    unfolding set_map by auto
  show ?thesis
    using history_keeps_trails [OF inj_sample_id sample_store_ok run(2) s(1,4)] run(1) s(2,3) by auto
qed

text \<open>C2: The counters that drive readiness stay exact through every history of the four step commands, the single
  transition, the batch, the pause and the forced completion, with the cascades of all completions. After such a
  history every live step counts exactly its active prerequisite edges and, among them, those that come from a
  completed step, and it is marked ready exactly when each of them does. (Edges that are added or removed by hand
  are not in these histories: the lemma \<open>manual_edges_break_counters\<close> shows that they can leave the counters wrong.)\<close>

theorem history_keeps_readiness:
  assumes "inj gen" "store_ok gen db" "counters_exact (steps db) (edges db)" "(command gen)\<^sup>*\<^sup>* db db'"
    and "s \<in> set (steps db')" "\<not> step_is_deleted s"
  shows "total_dependencies s = int (length (prereq_edges (edges db') (step_id s)))
    \<and> completed_dependencies s
      = int (length (filter (\<lambda>e. step_done (steps db') (prerequisite_step_id e)) (prereq_edges (edges db') (step_id s))))
    \<and> (readiness_status s = ReadinessREADY \<longleftrightarrow>
        list_all (\<lambda>e. step_done (steps db') (prerequisite_step_id e)) (prereq_edges (edges db') (step_id s)))"
proof -
  have "counters_exact (steps db') (edges db')"
    using history_safe [OF assms(4,1,2)] assms(3) by (simp add: safe_def counters_ok_def)
  then have "exact (steps db') (edges db') s" using assms(5,6) by (simp add: counters_exact_def)
  then show ?thesis using exact_ready by (simp add: list_all_iff exact_def done_edges_def)
qed

theorem history_keeps_readiness_witness:
  "\<exists>db' applied s. sample_run = Inr (db', applied) \<and> s \<in> set (steps db') \<and> step_id s = ''b''
     \<and> total_dependencies s = 1 \<and> completed_dependencies s = 1 \<and> readiness_status s = ReadinessREADY"
proof -
  obtain db' applied where run: "sample_run = Inr (db', applied)" "(command sample_id)\<^sup>*\<^sup>* sample_store db'"
    and steps: "map (\<lambda>s. (step_id s, step_state s, step_is_deleted s)) (steps db')
       = [(''a'', StepCOMPLETED, False), (''b'', StepPENDING, False), (''c'', StepWORKING, False)]"
    by (rule sample_history)
  have rows: "(''b'', StepPENDING, False) \<in> set (map (\<lambda>s. (step_id s, step_state s, step_is_deleted s)) (steps db'))"
    "(''a'', StepCOMPLETED, False) \<in> set (map (\<lambda>s. (step_id s, step_state s, step_is_deleted s)) (steps db'))"
    unfolding steps by simp_all
  obtain s where s: "s \<in> set (steps db')" "step_id s = ''b''" "\<not> step_is_deleted s"
    using rows(1) unfolding set_map by auto
  obtain s0 where "s0 \<in> set (steps db')" "step_id s0 = ''a''" "step_state s0 = StepCOMPLETED"
    using rows(2) unfolding set_map by auto
  then have a_done: "step_done (steps db') ''a''" by (auto simp: step_done_def)
  have "case sample_run of Inl _ \<Rightarrow> False | Inr (db', _) \<Rightarrow>
      map prerequisite_step_id (prereq_edges (edges db') ''b'') = [''a'']" by code_simp
  then have "map prerequisite_step_id (prereq_edges (edges db') ''b'') = [''a'']" by (simp add: run(1))
  then obtain e where e: "prereq_edges (edges db') ''b'' = [e]" "prerequisite_step_id e = ''a''" by (auto simp: map_eq_Cons_conv)
  show ?thesis
    using history_keeps_readiness [OF inj_sample_id sample_store_ok sample_counters run(2) s(1,3)] run(1) s e a_done by auto
qed

text \<open>C3: No history reopens a finished step. Every step keeps its identity, its task and its deletion flag, its
  state evolves only along the moves of the two transition tables, and a step that is completed, skipped,
  failed or cancelled is in that state for good.\<close>

theorem finished_steps_stay_finished:
  assumes "inj gen" "store_ok gen db" "(command gen)\<^sup>*\<^sup>* db db'" "s \<in> set (steps db)"
  shows "\<exists>s' \<in> set (steps db'). step_id s' = step_id s \<and> step_task_id s' = step_task_id s
    \<and> step_is_deleted s' = step_is_deleted s \<and> legal_move\<^sup>*\<^sup>* (step_state s) (step_state s')
    \<and> (if step_state s \<in> TERMINAL_STEP_STATES then step_state s' = step_state s else True)"
proof -
  have all: "list_all2 evolved (status db) (status db')"
    using history_safe [OF assms(3,1,2)] by (simp add: safe_def evolves_def)
  obtain k where k: "k < length (steps db)" "s = steps db ! k" using assms(4) by (metis in_set_conv_nth)
  then have "k < length (steps db')" using list_all2_lengthD [OF all] by (simp add: status_def)
  moreover have "evolved (status db ! k) (status db' ! k)" using list_all2_nthD [OF all, of k] k by (simp add: status_def)
  ultimately have e: "step_id (steps db' ! k) = step_id s" "step_task_id (steps db' ! k) = step_task_id s"
      "step_is_deleted (steps db' ! k) = step_is_deleted s" "legal_move\<^sup>*\<^sup>* (step_state s) (step_state (steps db' ! k))"
    using k by (simp_all add: status_def evolved_def)
  moreover have "step_state (steps db' ! k) = step_state s" if "step_state s \<in> TERMINAL_STEP_STATES"
    using e(4) that by (metis converse_rtranclpE legal_move_not_terminal)
  ultimately show ?thesis using \<open>k < length (steps db')\<close> by (intro bexI [of _ "steps db' ! k"]) auto
qed

theorem finished_steps_stay_finished_witness:
  "\<exists>db' applied s'. sample_run = Inr (db', applied) \<and> s' \<in> set (steps db') \<and> step_id s' = ''a''
     \<and> legal_move\<^sup>*\<^sup>* StepWORKING (step_state s')"
proof -
  obtain db' applied where run: "sample_run = Inr (db', applied)" "(command sample_id)\<^sup>*\<^sup>* sample_store db'"
    by (rule sample_history)
  have "hd (steps sample_store) \<in> set (steps sample_store)" by (simp add: sample_store_defs)
  from finished_steps_stay_finished [OF inj_sample_id sample_store_ok run(2) this] show ?thesis
    using run(1) by (auto simp: sample_store_defs)
qed

text \<open>C5: When forcing a task ready succeeds, the task is finished: the task is in the ready state, every live
  step of it is terminal, the steps that were open are skipped and no step of any other task moved. The trails
  and the other guarantees of the store hold.\<close>

theorem forced_task_is_finished:
  assumes "inj (generate_id ctx)" "store_ok (generate_id ctx) db"
    and "force_task_ready ctx tid reason mark now db = Inr (db', skipped)"
  shows "store_ok (generate_id ctx) db' \<and> (\<exists>t. find_task db' tid = Some t \<and> task_state t = TaskREADY)
    \<and> list_all (\<lambda>s. step_state s \<in> TERMINAL_STEP_STATES) (live_steps db' tid)
    \<and> status db' = map (\<lambda>(i, t, st, deleted). (i, t, if t = tid \<and> \<not> deleted \<and> st \<notin> TERMINAL_STEP_STATES
        then StepSKIPPED else st, deleted)) (status db)"
proof -
  note run = force_ready_runs [OF assms]
  have unique: "fst (snd e) = tid \<and> snd (snd (snd e)) = False \<and> fst (snd (snd e)) \<notin> TERMINAL_STEP_STATES"
    if e: "e \<in> set (status db)" "fst e \<in> open_step_ids db tid" for e
  proof -
    obtain f where f: "f \<in> set (status db)" "fst f = fst e" "fst (snd f) = tid" "snd (snd (snd f)) = False"
        "fst (snd (snd f)) \<notin> TERMINAL_STEP_STATES"
      using e(2) by (force simp: open_step_ids_def)
    have "distinct (map fst (status db))"
      using store_ok_distinct [OF assms(2)] by (simp add: status_def comp_def)
    then have "e = f" using e(1) f(1,2) by (metis distinct_map inj_onD)
    then show ?thesis using f by simp
  qed
  have "move_to (open_step_ids db tid) StepSKIPPED (status db) = map (\<lambda>(i, t, st, deleted).
      (i, t, if t = tid \<and> \<not> deleted \<and> st \<notin> TERMINAL_STEP_STATES then StepSKIPPED else st, deleted)) (status db)"
    unfolding move_to_def
  proof (rule map_cong [OF refl])
    fix e assume e: "e \<in> set (status db)"
    obtain i t x d where parts: "e = (i, t, x, d)" by (cases e)
    show "(case e of (i, t, x, d) \<Rightarrow> (i, t, if i \<in> open_step_ids db tid then StepSKIPPED else x, d))
        = (case e of (i, t, st, deleted) \<Rightarrow> (i, t, if t = tid \<and> \<not> deleted \<and> st \<notin> TERMINAL_STEP_STATES
             then StepSKIPPED else st, deleted))"
      using e unique [OF e] by (auto simp: parts open_step_ids_def)
  qed
  then show ?thesis
    using run skipped_all_terminal [of db' db tid] by (auto simp: safe_def list_all_iff)
qed

theorem forced_task_is_finished_witness:
  "\<exists>db' skipped. force_task_ready (as_user ''m'') ''t'' None False 3600000000 sample_store = Inr (db', skipped)
     \<and> list_all (\<lambda>s. step_state s \<in> TERMINAL_STEP_STATES) (live_steps db' ''t'')"
proof -
  have "is_ok (force_task_ready (as_user ''m'') ''t'' None False 3600000000 sample_store)" by code_simp
  then obtain db' skipped where run: "force_task_ready (as_user ''m'') ''t'' None False 3600000000 sample_store = Inr (db', skipped)"
    by (auto simp: is_ok_def split: sum.splits)
  have "inj (generate_id (as_user ''m''))" "store_ok (generate_id (as_user ''m'')) sample_store"
    by (simp_all add: as_user_def inj_sample_id sample_store_ok)
  from forced_task_is_finished [OF this run] show ?thesis using run by blast
qed

section \<open>The one-active-step rule\<close>

text \<open>The non-batch steps a user is working on: those with an open working record the user created.\<close>

definition active_steps :: "store \<Rightarrow> string \<Rightarrow> string set" where
  "active_steps db user = {i. (\<exists>r \<in> set (records db). record_step_id r = i \<and> created_by_id r = Some user
       \<and> record_state r = StepWORKING \<and> exited_at r = None)
     \<and> (\<exists>s \<in> set (steps db). step_id s = i \<and> \<not> step_is_deleted s \<and> \<not> allows_batch_working s)}"

definition one_active_step :: "store \<Rightarrow> bool" where
  "one_active_step db \<longleftrightarrow> (\<forall>user i j. i \<in> active_steps db user \<and> j \<in> active_steps db user \<longrightarrow> i = j)"

lemma active_steps_view: "active_steps db user = {i. (\<exists>r \<in> set (record_view db). record_step_id r = i \<and> created_by_id r = Some user
       \<and> record_state r = StepWORKING \<and> exited_at r = None)
     \<and> (\<exists>s \<in> set (step_view db). step_id s = i \<and> \<not> step_is_deleted s \<and> \<not> allows_batch_working s)}"
  by (simp add: active_steps_def step_view_def record_view_def)

lemma active_steps_same: "same_rows db db' \<Longrightarrow> active_steps db' user = active_steps db user"
  by (simp add: active_steps_view same_rows_def)

lemma relayed_active:
  assumes "relayed sid st cid now new db db'" "opens ctx sid st now db new" "store_ok gen db"
    and "stands db sid st0" "open_at db sid cid" "i \<in> active_steps db' user"
  shows "i \<noteq> sid \<and> i \<in> active_steps db user \<or> i = sid \<and> st = StepWORKING \<and> user = ctx_user_id ctx"
proof -
  obtain r' s' where r': "r' \<in> set (record_view db')" "record_step_id r' = i" "created_by_id r' = Some user"
      "record_state r' = StepWORKING" "exited_at r' = None"
    and s': "s' \<in> set (step_view db')" "step_id s' = i" "\<not> step_is_deleted s'" "\<not> allows_batch_working s'"
    using assms(6) by (auto simp: active_steps_view)
  have rows: "record_view db' = relay_records cid now new (record_view db)"
    "step_view db' = relay_steps sid st (record_id new) (step_view db)"
    using assms(1) by (simp_all add: relayed_def)
  consider "r' = new" | "r' \<in> set (record_view db)" "record_id r' \<noteq> cid"
    using r'(1,5) by (auto simp: rows relay_records_def split: if_splits)
  then show ?thesis
  proof cases
    case 1
    then show ?thesis using r' assms(2) by (auto simp: opens_def)
  next
    case 2
    have "i \<noteq> sid"
    proof
      assume "i = sid"
      obtain s where s: "s \<in> set (steps db)" "step_id s = sid" "\<not> step_is_deleted s"
        using assms(4) by (auto simp: stands_def)
      obtain r where r: "r \<in> set (records db)" "record_core r = r'" using 2(1) by (auto simp: record_view_def)
      then have "record_step_id r = sid" "exited_at r = None" "record_id r = record_id r'"
        using r'(2,5) \<open>i = sid\<close> by (metis record_core_simps)+
      moreover obtain q where "q \<in> set (records db)" "record_id q = cid" "record_step_id q = sid" "exited_at q = None"
        using assms(5) by (auto simp: open_at_def)
      ultimately show False
        using open_unique [OF assms(3) s(1,3), of r q] r(1) s(2) 2(2) by simp
    qed
    moreover have "s' \<in> set (step_view db)"
      using s'(1,2) \<open>i \<noteq> sid\<close> by (auto simp: rows relay_steps_def split: if_splits)
    ultimately show ?thesis using 2(1) r' s' by (auto simp: active_steps_view)
  qed
qed

lemma conflicting_active:
  assumes "conflicting_rows db users i = []" "user \<in> set users"
  shows "active_steps db user \<subseteq> {i}"
proof
  fix j assume "j \<in> active_steps db user"
  then obtain r s where rs: "r \<in> set (records db)" "record_step_id r = j" "created_by_id r = Some user"
      "record_state r = StepWORKING" "exited_at r = None"
      "s \<in> set (steps db)" "step_id s = j" "\<not> step_is_deleted s" "\<not> allows_batch_working s"
    by (auto simp: active_steps_def)
  have "j = i"
  proof (rule ccontr)
    assume "j \<noteq> i"
    then have "(r, s) \<in> set (conflicting_rows db users i)"
      using rs assms(2) by (auto simp: conflicting_rows_def)
    then show False using assms(1) by simp
  qed
  then show "j \<in> {i}" by simp
qed

lemma bump_batch [simp]: "allows_batch_working (bump n s) = allows_batch_working s"
  by (simp add: bump_def recalculate_readiness_def)

lemma guard_active:
  assumes "inj (generate_id ctx)" "store_ok (generate_id ctx) db" "one_active_step db"
    and "auto_pause_guard ctx step tid st (ctx_user_id ctx) now db = Inr (db1, paused)"
  shows "active_steps db1 user \<subseteq> active_steps db user
    \<and> (st = StepWORKING \<and> \<not> allows_batch_working step \<longrightarrow> active_steps db1 (ctx_user_id ctx) \<subseteq> {step_id step})"
  using guard_relays [OF store_ok_distinct [OF assms(2), THEN conjunct1] assms(4)]
proof (elim disjE exE conjE)
  assume "db1 = db" "paused = None"
  then have "conflicting_rows db [ctx_user_id ctx, ctx_user_id ctx] (step_id step) = []"
    if "st = StepWORKING" "\<not> allows_batch_working step"
    using assms(4) that by (auto simp: auto_pause_guard_def fetch_open_user_working_record_def split: list.splits)
  then show ?thesis
    using \<open>db1 = db\<close> conflicting_active [of db "[ctx_user_id ctx, ctx_user_id ctx]" "step_id step" "ctx_user_id ctx"] by auto
next
  fix r s new
  assume f: "fetch_open_user_working_record db [ctx_user_id ctx, ctx_user_id ctx] (step_id step) = Some (r, s)"
    and o: "opens ctx (step_id s) StepPAUSED now db new"
    and rel: "relayed (step_id s) StepPAUSED (record_id r) now new db db1"
  note c = conflict_open [OF f assms(2)]
  have shrink: "j \<noteq> step_id s \<and> j \<in> active_steps db u" if "j \<in> active_steps db1 u" for j u
    using relayed_active [OF rel o assms(2) c(1,2) that] by simp
  have "step_id s \<in> active_steps db (ctx_user_id ctx)"
    using fetch_conflict_in [OF f] by (auto simp: active_steps_def)
  then have "active_steps db1 (ctx_user_id ctx) = {}"
    using shrink assms(3) by (fastforce simp: one_active_step_def)
  then show ?thesis using shrink by auto
qed

definition batch_flags :: "store \<Rightarrow> (string \<times> bool) list" where
  "batch_flags db = map (\<lambda>s. (step_id s, allows_batch_working s)) (steps db)"

lemma batch_flags_view: "batch_flags db = map (\<lambda>s. (step_id s, allows_batch_working s)) (step_view db)"
  by (simp add: batch_flags_def step_view_def)

lemma relayed_batch: "relayed sid st cid now new db db' \<Longrightarrow> batch_flags db' = batch_flags db"
  by (auto simp: batch_flags_view relayed_def relay_steps_def)

lemma guard_batch:
  assumes "distinct (map step_id (steps db))" "auto_pause_guard ctx step tid st credited now db = Inr (db1, paused)"
  shows "batch_flags db1 = batch_flags db"
  using guard_relays [OF assms] relayed_batch by blast

text \<open>C8: The one-active-step rule holds as long as everybody credits their own work: if no user has open
  working records on two non-batch steps, then no user has after a transition request that is credited to the
  requesting user, whatever the request is. A start pauses the other step of the user first.\<close>

theorem own_work_keeps_one_active_step:
  assumes "inj (generate_id ctx)" "store_ok (generate_id ctx) db" "one_active_step db"
    and "resolve_transition_credit_user_id ctx rq = ctx_user_id ctx"
    and "transition_step_state ctx rq now db = Inr (db', applied)"
  shows "one_active_step db'"
  using assms(2,5)
proof (rule transition_runs_core)
  fix step :: task_step and tid and closing :: state_record and credited db2
  assume stands: "stands db (step_id step) (step_state step)" and opened: "open_at db (step_id step) (record_id closing)"
    and step: "step \<in> set (steps db)"
    and credited: "credited = resolve_transition_credit_user_id ctx rq"
    and run: "apply_step_transition ctx step tid closing (rq_new_state rq) (rq_pause_reason_id rq) (rq_description rq)
      credited now None (rq_mark_closing_record_inaccurate rq) db = Inr (db2, applied)" and same: "same_rows db2 db'"
  obtain d1 d2 new where v: "auto_pause_guard ctx step tid (rq_new_state rq) credited now db = Inr (d1, ta_auto_paused applied)"
      "opens ctx (step_id step) (rq_new_state rq) now d1 new"
      "relayed (step_id step) (rq_new_state rq) (record_id closing) now new d1 d2"
      "step_view db2 = (if rq_new_state rq = StepCOMPLETED
        then map (\<lambda>s. bump (edges_onto (edges d2) (step_id s) (step_id step)) s) (step_view d2) else step_view d2)"
      "record_view db2 = record_view d2"
    using apply_view [OF store_ok_distinct [OF assms(2), THEN conjunct1] run]
    by (elim exE conjE) (rule that; assumption)
  note guard = v(1) [unfolded credited assms(4)]
  note g = guard_keeps [OF assms(1,2) guard]
  have final: "active_steps db' u = active_steps d2 u" for u
    unfolding active_steps_same [OF same] unfolding active_steps_view v(5) by (simp add: v(4))
  have batch: "\<not> allows_batch_working step" if working: "step_id step \<in> active_steps d2 u" for u
  proof -
    obtain s where "s \<in> set (steps d2)" "step_id s = step_id step" "\<not> allows_batch_working s"
      using working by (auto simp: active_steps_def)
    then have "(step_id step, False) \<in> set (batch_flags d2)" unfolding batch_flags_def set_map by (intro image_eqI [of _ _ s]) auto
    then have "(step_id step, False) \<in> set (batch_flags db)"
      using relayed_batch [OF v(3)] guard_batch [OF store_ok_distinct [OF assms(2), THEN conjunct1] v(1)] by simp
    then show ?thesis
      using step store_ok_distinct [OF assms(2)] by (auto simp: batch_flags_def) (metis distinct_map inj_onD)
  qed
  show ?thesis
    unfolding one_active_step_def final
  proof (intro allI impI)
    fix u i j assume ij: "i \<in> active_steps d2 u \<and> j \<in> active_steps d2 u"
    have origin: "k \<noteq> step_id step \<and> k \<in> active_steps d1 u \<or> k = step_id step \<and> rq_new_state rq = StepWORKING \<and> u = ctx_user_id ctx"
      if "k \<in> active_steps d2 u" for k
      using relayed_active [OF v(3,2) g(1) _ g(3) [OF opened] that] g(2) stands by blast
    note ga = guard_active [OF assms(1-3) guard, of u]
    show "i = j"
    proof (cases "rq_new_state rq = StepWORKING \<and> u = ctx_user_id ctx \<and> step_id step \<in> active_steps d2 u")
      case True
      then have "active_steps d1 u \<subseteq> {step_id step}"
        using guard_active [OF assms(1-3) guard] batch [of u] by blast
      then show ?thesis using origin [of i] origin [of j] ij by blast
    next
      case False
      then have "i \<in> active_steps d1 u" "j \<in> active_steps d1 u" using origin [of i] origin [of j] ij by blast+
      then show ?thesis using ga assms(3) by (auto simp: one_active_step_def)
    qed
  qed
qed

definition own_start :: "(store \<times> transition_applied) result" where
  "own_start = transition_step_state (as_user ''m'') (sample_request ''b'' StepWORKING) 3600000000 sample_store"

lemma sample_one_active: "one_active_step sample_store"
  by (auto simp: one_active_step_def active_steps_def sample_store_defs)

theorem own_work_keeps_one_active_step_witness:
  "\<exists>db' applied. own_start = Inr (db', applied) \<and> one_active_step db' \<and> ta_auto_paused applied = Some ''c''"
proof -
  have "case own_start of Inl _ \<Rightarrow> False | Inr (db', applied) \<Rightarrow> ta_auto_paused applied = Some ''c''" by code_simp
  then obtain db' applied where run: "own_start = Inr (db', applied)" and paused: "ta_auto_paused applied = Some ''c''"
    by (auto split: sum.splits)
  have ctx: "inj (generate_id (as_user ''m''))" "store_ok (generate_id (as_user ''m'')) sample_store"
    by (simp_all add: as_user_def inj_sample_id sample_store_ok)
  have "resolve_transition_credit_user_id (as_user ''m'') (sample_request ''b'' StepWORKING) = ctx_user_id (as_user ''m'')"
    by (simp add: resolve_transition_credit_user_id_def sample_request_def truthy_text_def)
  from own_work_keeps_one_active_step [OF ctx sample_one_active this run [unfolded own_start_def]]
  show ?thesis using run paused by blast
qed

text \<open>It fails when a manager starts a step for a worker while both have an active step. The guard looks for
  the open records of both users but stops at the first row, so it pauses only one of them. Here the manager
  \<open>m\<close> works on \<open>c\<close> and the worker \<open>w\<close> on \<open>a\<close>: starting \<open>b\<close> with the credit to \<open>w\<close> pauses \<open>a\<close> and leaves
  the manager, who is recorded as having started \<open>b\<close>, with two active steps.\<close>

lemma crediting_a_worker_breaks_one_active_step:
  "one_active_step sample_store
   \<and> (case transition_step_state (as_user ''m'') ((sample_request ''b'' StepWORKING)\<lparr>rq_credited_user_id := Some ''w''\<rparr>)
        3600000000 sample_store of
       Inl _ \<Rightarrow> False
     | Inr (db', applied) \<Rightarrow> ta_auto_paused applied = Some ''a''
         \<and> map (\<lambda>s. (step_id s, step_state s, allows_batch_working s)) (steps db')
           = [(''a'', StepPAUSED, False), (''b'', StepWORKING, False), (''c'', StepWORKING, False)]
         \<and> map (\<lambda>r. (record_step_id r, created_by_id r))
             (filter (\<lambda>r. record_state r = StepWORKING \<and> exited_at r = None) (records db'))
           = [(''c'', Some ''m''), (''b'', Some ''m'')])"
proof (rule conjI)
  show "one_active_step sample_store" by (rule sample_one_active)
qed code_simp

end
