(* ===== verification/StepRemoval.thy ===== *)
theory StepRemoval
  imports StepHistories
begin

text \<open>
  Removing steps from a task: \<open>_remove_task_steps_in_session\<close> of \<open>services/commands/task_steps/remove_task_step.py\<close>,
  which both removal endpoints call, with the request check of the batch one. The events are left out.

  A removal deletes the steps, closes their records, tears down their acknowledgments and their edges, and
  lowers the counters of the steps that depended on them. Its main property is that the counters stay exact.
\<close>

section \<open>The operation\<close>

definition sorted_ids :: "string list \<Rightarrow> string list" where
  \<comment> \<open>\<open>sorted(set(ids))\<close>\<close>
  "sorted_ids ids = sort (dedupe ids)"

definition mark_removed :: "string list \<Rightarrow> int \<Rightarrow> string \<Rightarrow> task_step \<Rightarrow> task_step" where
  "mark_removed ids now user s =
     (if step_id s \<in> set ids
      then s\<lparr>step_state := StepSKIPPED, step_closed_at := Some now, step_updated_at := Some now,
             step_updated_by_id := Some user, step_is_deleted := True\<rparr>
      else s)"

definition close_records :: "string list \<Rightarrow> int \<Rightarrow> state_record list \<Rightarrow> state_record list" where
  "close_records ids now = map (\<lambda>r. if record_step_id r \<in> set ids \<and> exited_at r = None then r\<lparr>exited_at := Some now\<rparr> else r)"

definition tear_down_acknowledgments :: "string list \<Rightarrow> int \<Rightarrow> acknowledgment list \<Rightarrow> acknowledgment list" where
  "tear_down_acknowledgments ids now = map (\<lambda>a. if ack_step_id a \<in> set ids \<and> \<not> ack_is_deleted a
     then a\<lparr>ack_is_deleted := True, ack_updated_at := Some now\<rparr> else a)"

definition pending_ack_removed :: "string list \<Rightarrow> acknowledgment list \<Rightarrow> (string \<times> string list) list" where
  \<comment> \<open>the workers who lose a pending obligation, with its steps\<close>
  "pending_ack_removed ids acks =
     foldl (\<lambda>d a. AList.update (ack_worker_id a)
         ((case map_of d (ack_worker_id a) of None \<Rightarrow> [] | Some xs \<Rightarrow> xs) @ [ack_step_id a]) d) []
       (filter (\<lambda>a. ack_step_id a \<in> set ids \<and> \<not> ack_is_deleted a \<and> acknowledged_at a = None) acks)"

definition touches :: "string list \<Rightarrow> dependency \<Rightarrow> bool" where
  "touches ids e \<longleftrightarrow> active e \<and> (dependent_step_id e \<in> set ids \<or> prerequisite_step_id e \<in> set ids)"

definition remove_edges :: "string list \<Rightarrow> int \<Rightarrow> string \<Rightarrow> dependency list \<Rightarrow> dependency list" where
  "remove_edges ids now user = map (\<lambda>e. if touches ids e then e\<lparr>removed_at := Some now, removed_by_id := Some user\<rparr> else e)"

definition lower_counts ::
    "task_step list \<times> (string \<times> task_step_readiness) list \<Rightarrow> string \<times> int \<times> int
      \<Rightarrow> task_step list \<times> (string \<times> task_step_readiness) list" where
  "lower_counts acc entry =
     (case entry of (dep_id, removed_total, removed_completed) \<Rightarrow>
        case last_match (\<lambda>s. step_id s = dep_id \<and> \<not> step_is_deleted s) (fst acc) of
          None \<Rightarrow> acc
        | Some step \<Rightarrow>
            (put_step (apply_removed_dependency_counts step removed_total removed_completed) (fst acc),
             snd acc @ [(dep_id, readiness_status step)]))"

text \<open>The store, the affected steps with their old readiness, and the workers to notify.\<close>

definition remove_task_steps_in_session ::
    "request_context \<Rightarrow> string \<Rightarrow> string list \<Rightarrow> int \<Rightarrow> store
      \<Rightarrow> (store \<times> (string \<times> task_step_readiness) list \<times> (string \<times> string list) list) result" where
  "remove_task_steps_in_session ctx tid ids now db =
     rbind (scalar_or_raise (NotFound ''Task not found.'') (filter (\<lambda>t. task_id t = tid) (tasks db))) (\<lambda>task.
     let user = ctx_user_id ctx;
         found = filter (\<lambda>s. step_task_id s = tid \<and> step_id s \<in> set ids) (steps db);
         missing = filter (\<lambda>i. i \<notin> set (map step_id found)) (sorted_ids ids) in
     rbind (rguard (missing = []) (NotFound (''Task step(s) not found: '' @ intercalate '', '' missing))) (\<lambda>_.
     let already_deleted = sort (map step_id (filter step_is_deleted found)) in
     rbind (rguard (already_deleted = [])
       (ConflictError (''Task step(s) already deleted: '' @ intercalate '', '' already_deleted))) (\<lambda>_.
     let completed = map step_id (filter (\<lambda>s. step_state s = StepCOMPLETED) found);
         counts = count_removed_prerequisite_edges (filter (touches ids) (edges db)) ids completed;
         (steps', changes) = foldl lower_counts (map (mark_removed ids now user) (steps db), []) counts;
         db' = db\<lparr>steps := steps', records := close_records ids now (records db),
                  acknowledgments := tear_down_acknowledgments ids now (acknowledgments db),
                  edges := remove_edges ids now user (edges db)\<rparr> in
     rbind (if live_steps db' tid = []
            then Inr (update_task tid (\<lambda>t. t\<lparr>task_state := TaskPENDING, task_updated_at := Some now,
                   task_updated_by_id := Some user\<rparr>) db', False)
            else maybe_evaluate_task_ready tid now user False db') (\<lambda>(db', _).
       Inr (db', changes, pending_ack_removed ids (acknowledgments db))))))"

definition remove_task_steps ::
    "request_context \<Rightarrow> string \<Rightarrow> string list \<Rightarrow> int \<Rightarrow> store
      \<Rightarrow> (store \<times> (string \<times> task_step_readiness) list \<times> (string \<times> string list) list) result" where
  "remove_task_steps ctx tid ids now db =
     rbind (dedupe_step_ids ids) (\<lambda>unique. remove_task_steps_in_session ctx tid unique now db)"

section \<open>The counts of removed edges\<close>

definition lost_edges :: "dependency list \<Rightarrow> string list \<Rightarrow> string \<Rightarrow> dependency list" where
  "lost_edges es ids d = filter (\<lambda>e. dependent_step_id e = d \<and> prerequisite_step_id e \<in> set ids) es"

lemma count_removed_edge_lookup:
  "map_of (count_removed_edge ids completed counts e) d =
     (if dependent_step_id e = d \<and> prerequisite_step_id e \<in> set ids \<and> d \<notin> set ids
      then (case map_of counts d of None \<Rightarrow> Some (1, if prerequisite_step_id e \<in> set completed then 1 else 0)
            | Some (t, c) \<Rightarrow> Some (t + 1, if prerequisite_step_id e \<in> set completed then c + 1 else c))
      else map_of counts d)"
  by (auto simp: count_removed_edge_def update_conv split: option.splits prod.splits)

lemma count_removed_lookup:
  "map_of (foldl (count_removed_edge ids completed) counts es) d =
     (let lost = lost_edges es ids d; n = int (length lost);
          c = int (length (filter (\<lambda>e. prerequisite_step_id e \<in> set completed) lost)) in
      if d \<in> set ids \<or> lost = [] then map_of counts d
      else case map_of counts d of None \<Rightarrow> Some (n, c) | Some (t, k) \<Rightarrow> Some (t + n, k + c))"
proof (induction es arbitrary: counts)
  case (Cons e es)
  show ?case
    by (auto simp: Cons.IH count_removed_edge_lookup lost_edges_def Let_def filter_empty_conv split: option.splits)
qed (simp add: lost_edges_def)

lemma count_removed_keys: "distinct (map fst (foldl (count_removed_edge ids completed) counts es))"
  if "distinct (map fst counts)"
  using that
proof (induction es arbitrary: counts)
  case (Cons e es)
  have "distinct (map fst (count_removed_edge ids completed counts e))"
    using Cons.prems by (auto simp: count_removed_edge_def distinct_update split: prod.splits)
  then show ?case using Cons.IH by simp
qed simp

section \<open>Lowering the counters\<close>

definition lowered :: "(string \<times> int \<times> int) list \<Rightarrow> task_step \<Rightarrow> task_step" where
  "lowered counts s = (case map_of counts (step_id s) of
     Some (t, c) \<Rightarrow> if step_is_deleted s then s else apply_removed_dependency_counts s t c
   | None \<Rightarrow> s)"

lemma apply_removed_keeps [simp]:
  "step_id (apply_removed_dependency_counts s t c) = step_id s"
  "step_state (apply_removed_dependency_counts s t c) = step_state s"
  "step_is_deleted (apply_removed_dependency_counts s t c) = step_is_deleted s"
  "step_task_id (apply_removed_dependency_counts s t c) = step_task_id s"
  "latest_state_record_id (apply_removed_dependency_counts s t c) = latest_state_record_id s"
  by (simp_all add: apply_removed_dependency_counts_def Let_def recalculate_readiness_def)

lemma lowered_keeps [simp]:
  "step_id (lowered counts s) = step_id s" "step_state (lowered counts s) = step_state s"
  "step_is_deleted (lowered counts s) = step_is_deleted s" "step_task_id (lowered counts s) = step_task_id s"
  "latest_state_record_id (lowered counts s) = latest_state_record_id s"
  by (simp_all add: lowered_def split: option.splits prod.splits)

lemma lower_counts_step:
  assumes "distinct (map step_id ss)"
  shows "fst (lower_counts (ss, ch) (d, t, c)) = map (lowered [(d, t, c)]) ss"
proof (cases "last_match (\<lambda>s. step_id s = d \<and> \<not> step_is_deleted s) ss")
  case None
  have "\<forall>s \<in> set ss. \<not> (step_id s = d \<and> \<not> step_is_deleted s)"
    using None unfolding last_match_None .
  then show ?thesis by (auto simp: lower_counts_def None lowered_def intro!: map_idI [symmetric])
next
  case (Some s)
  note s = last_match_Some [OF Some]
  have "x = s" if "x \<in> set ss" "step_id x = d" for x
    using that s assms by (metis distinct_map inj_onD)
  then have "put_step (apply_removed_dependency_counts s t c) ss = map (lowered [(d, t, c)]) ss"
    using s by (auto simp: put_row_def lowered_def)
  then show ?thesis by (simp add: lower_counts_def Some)
qed

lemma lower_counts_loop:
  assumes "distinct (map step_id ss)" "distinct (map fst counts)"
  shows "fst (foldl lower_counts (ss, ch) counts) = map (lowered counts) ss"
  using assms
proof (induction counts arbitrary: ss ch)
  case Nil
  then show ?case by (simp add: lowered_def)
next
  case (Cons entry counts)
  obtain d t c where entry: "entry = (d, t, c)" by (cases entry)
  obtain ss1 ch1 where one: "lower_counts (ss, ch) entry = (ss1, ch1)" by (cases "lower_counts (ss, ch) entry")
  have ss1: "ss1 = map (lowered [entry]) ss"
    using lower_counts_step [OF Cons.prems(1), of ch d t c] one by (simp add: entry)
  have "distinct (map step_id ss1)" using Cons.prems(1) by (simp add: ss1 comp_def)
  then have "fst (foldl lower_counts (ss1, ch1) counts) = map (lowered counts) ss1"
    using Cons by simp
  moreover have "map_of counts d = None" using Cons.prems(2) by (simp add: entry map_of_eq_None_iff)
  then have "lowered counts (lowered [entry] s) = lowered (entry # counts) s" for s
    by (cases "step_id s = d") (auto simp: lowered_def entry split: option.splits)
  ultimately show ?case by (simp add: one ss1)
qed

section \<open>The counters stay exact\<close>

lemma edges_after_removal:
  assumes "i \<notin> set ids"
  shows "prereq_edges (remove_edges ids now user es) i = filter (\<lambda>e. prerequisite_step_id e \<notin> set ids) (prereq_edges es i)"
  using assms by (induction es) (auto simp: prereq_edges_def remove_edges_def touches_def active_def)

lemma lost_of_touched:
  assumes "i \<notin> set ids"
  shows "lost_edges (filter (touches ids) es) ids i = filter (\<lambda>e. prerequisite_step_id e \<in> set ids) (prereq_edges es i)"
  using assms by (auto simp: lost_edges_def prereq_edges_def touches_def filter_filter intro!: filter_cong)

lemma mark_removed_keeps [simp]: "step_id (mark_removed ids now user s) = step_id s"
  "step_task_id (mark_removed ids now user s) = step_task_id s"
  by (simp_all add: mark_removed_def)

lemma step_done_removed: "step_done (map (mark_removed ids now user) ss) i \<longleftrightarrow> i \<notin> set ids \<and> step_done ss i"
  by (auto simp: step_done_def mark_removed_def)

lemma step_done_lowered [simp]: "step_done (map (lowered counts) ss) i \<longleftrightarrow> step_done ss i"
  by (simp add: step_done_def)

lemma length_filter_split: "length (filter P xs) + length (filter (\<lambda>x. \<not> P x) xs) = length xs"
  by (induction xs) auto

lemma filter_split_done:
  "length (filter Q xs) = length (filter (\<lambda>x. Q x \<and> P x) xs) + length (filter (\<lambda>x. Q x \<and> \<not> P x) xs)"
  by (induction xs) auto

text \<open>A live step that is not removed: what the removal takes from its counters is what it takes from its edges.\<close>

lemma lowered_exact:
  assumes "exact ss es s" "step_id s \<notin> set ids" "\<not> step_is_deleted s"
    and "\<And>i. i \<in> set ids \<Longrightarrow> i \<in> set completed \<longleftrightarrow> step_done ss i"
    and "counts = count_removed_prerequisite_edges (filter (touches ids) es) ids completed"
    and "\<And>i. step_done ss' i \<longleftrightarrow> i \<notin> set ids \<and> step_done ss i"
  shows "exact ss' (remove_edges ids now user es) (lowered counts s)"
proof -
  let ?ps = "prereq_edges es (step_id s)"
  let ?lost = "filter (\<lambda>e. prerequisite_step_id e \<in> set ids) ?ps"
  let ?kept = "filter (\<lambda>e. prerequisite_step_id e \<notin> set ids) ?ps"
  let ?done = "\<lambda>e. step_done ss (prerequisite_step_id e)"
  have totals: "total_dependencies s = int (length ?ps)" "completed_dependencies s = int (length (filter ?done ?ps))"
      "recalculate_readiness s = s"
    using assms(1) by (simp_all add: exact_def done_edges_def)
  have kept: "prereq_edges (remove_edges ids now user es) (step_id s) = ?kept"
    by (rule edges_after_removal [OF assms(2)])
  have kept_done: "done_edges ss' (remove_edges ids now user es) (step_id s) = filter ?done ?kept"
    by (simp only: done_edges_def kept) (auto simp: assms(6) intro!: filter_cong)
  have split: "length ?ps = length ?lost + length ?kept"
    using length_filter_split [of "\<lambda>e. prerequisite_step_id e \<in> set ids" ?ps] by simp
  have split_done: "length (filter ?done ?ps) = length (filter ?done ?lost) + length (filter ?done ?kept)"
    using filter_split_done [of ?done ?ps "\<lambda>e. prerequisite_step_id e \<in> set ids"] by (simp add: filter_filter conj_commute)
  have lost_done: "filter (\<lambda>e. prerequisite_step_id e \<in> set completed) ?lost = filter ?done ?lost"
    by (rule filter_cong) (auto simp: assms(4))
  have lookup: "map_of counts (step_id s) = (if ?lost = [] then None
      else Some (int (length ?lost), int (length (filter ?done ?lost))))"
    using assms(2) by (simp add: assms(5) count_removed_prerequisite_edges_def count_removed_lookup Let_def
        lost_of_touched lost_done del: filter_filter)
  show ?thesis
  proof (cases "?lost = []")
    case True
    then have "lowered counts s = s" by (simp add: lowered_def lookup)
    moreover have "length ?kept = length ?ps" "length (filter ?done ?kept) = length (filter ?done ?ps)"
      using split split_done True by simp_all
    ultimately show ?thesis using totals by (simp add: exact_def kept kept_done)
  next
    case False
    have "length (filter ?done ?kept) \<le> length ?kept" by (rule length_filter_le)
    then have "lowered counts s = recalculate_readiness (s\<lparr>total_dependencies := int (length ?kept),
        completed_dependencies := int (length (filter ?done ?kept))\<rparr>)"
      using False totals split split_done assms(3)
      by (simp add: lowered_def lookup apply_removed_dependency_counts_def Let_def)
    then show ?thesis by (simp add: exact_def kept kept_done)
  qed
qed

lemma found_completed:
  assumes "distinct (map step_id ss)" "\<forall>i \<in> set ids. i \<in> step_id ` set (filter (\<lambda>s. step_task_id s = tid \<and> step_id s \<in> set ids) ss)"
    and "i \<in> set ids"
  shows "i \<in> set (map step_id (filter (\<lambda>s. step_state s = StepCOMPLETED)
      (filter (\<lambda>s. step_task_id s = tid \<and> step_id s \<in> set ids) ss))) \<longleftrightarrow> step_done ss i"
proof
  assume "step_done ss i"
  then obtain s where s: "s \<in> set ss" "step_id s = i" "step_state s = StepCOMPLETED" by (auto simp: step_done_def)
  obtain f where "f \<in> set ss" "step_id f = i" "step_task_id f = tid" using assms(2,3) by auto
  moreover from this s have "f = s" using assms(1) by (metis distinct_map inj_onD)
  ultimately show "i \<in> set (map step_id (filter (\<lambda>s. step_state s = StepCOMPLETED)
      (filter (\<lambda>s. step_task_id s = tid \<and> step_id s \<in> set ids) ss)))"
    using s assms(3) by (auto simp: image_iff intro!: bexI [of _ s])
qed (auto simp: step_done_def)

lemma trail_closed_others: "i \<notin> set ids \<Longrightarrow> trail (close_records ids now rs) i = trail rs i"
  by (induction rs) (auto simp: trail_def close_records_def)

lemma on_trail_closed_others: "step_id s \<notin> set ids \<Longrightarrow> on_trail (close_records ids now rs) s = on_trail rs s"
  by (simp add: on_trail_def trail_closed_others)

lemma on_trail_lowered [simp]: "on_trail rs (lowered counts s) = on_trail rs s"
  by (simp add: on_trail_def)

lemma close_records_ids [simp]: "map record_id (close_records ids now rs) = map record_id rs"
  "record_id ` set (close_records ids now rs) = record_id ` set rs"
  by (induction rs) (auto simp: close_records_def)

definition stripped :: "string list \<Rightarrow> int \<Rightarrow> string \<Rightarrow> (string \<times> int \<times> int) list \<Rightarrow> task_step \<Rightarrow> task_step" where
  "stripped ids now user counts s = lowered counts (mark_removed ids now user s)"

text \<open>What the removal leaves, before the task is evaluated.\<close>

lemma removal_rows:
  assumes "distinct (map step_id (steps db))"
    and "remove_task_steps_in_session ctx tid ids now db = Inr (db', changes, workers)"
  obtains db1 completed counts where "same_rows db1 db'"
    "counts = count_removed_prerequisite_edges (filter (touches ids) (edges db)) ids completed"
    "\<forall>i \<in> set ids. i \<in> set completed \<longleftrightarrow> step_done (steps db) i"
    "steps db1 = map (stripped ids now (ctx_user_id ctx) counts) (steps db)"
    "records db1 = close_records ids now (records db)" "edges db1 = remove_edges ids now (ctx_user_id ctx) (edges db)"
    "drawn db1 = drawn db"
proof -
  let ?found = "filter (\<lambda>s. step_task_id s = tid \<and> step_id s \<in> set ids) (steps db)"
  define completed where "completed = map step_id (filter (\<lambda>s. step_state s = StepCOMPLETED) ?found)"
  define counts where "counts = count_removed_prerequisite_edges (filter (touches ids) (edges db)) ids completed"
  define low where "low = foldl lower_counts (map (mark_removed ids now (ctx_user_id ctx)) (steps db), []) counts"
  define db1 where "db1 = db\<lparr>steps := fst low, records := close_records ids now (records db),
    acknowledgments := tear_down_acknowledgments ids now (acknowledgments db),
    edges := remove_edges ids now (ctx_user_id ctx) (edges db)\<rparr>"
  obtain ss ch where low: "low = (ss, ch)" by (cases low)
  have db1: "db1 = db\<lparr>steps := ss, records := close_records ids now (records db),
    acknowledgments := tear_down_acknowledgments ids now (acknowledgments db),
    edges := remove_edges ids now (ctx_user_id ctx) (edges db)\<rparr>"
    by (simp add: db1_def low)
  obtain p where missing: "filter (\<lambda>i. i \<notin> set (map step_id ?found)) (sorted_ids ids) = []"
    and last: "(if live_steps db1 tid = []
        then Inr (update_task tid (\<lambda>t. t\<lparr>task_state := TaskPENDING, task_updated_at := Some now,
               task_updated_by_id := Some (ctx_user_id ctx)\<rparr>) db1, False)
        else maybe_evaluate_task_ready tid now (ctx_user_id ctx) False db1) = Inr p"
    and out: "(case p of (db', _) \<Rightarrow> Inr (db', ch, pending_ack_removed ids (acknowledgments db)))
      = (Inr (db', changes, workers) :: exc + _)"
    using assms(2) unfolding remove_task_steps_in_session_def Let_def rbind_eq_Inr rguard_eq_Inr
      completed_def [symmetric] counts_def [symmetric] low_def [symmetric] low prod.case db1 [symmetric]
    by (elim exE conjE) (rule that; assumption)
  obtain b where "p = (db', b)" using out by (cases p) auto
  note final = last [unfolded this]
  have "same_rows db1 db'"
  proof (cases "live_steps db1 tid = []")
    case True
    then have "db' = update_task tid (\<lambda>t. t\<lparr>task_state := TaskPENDING, task_updated_at := Some now,
        task_updated_by_id := Some (ctx_user_id ctx)\<rparr>) db1" using final by simp
    then show ?thesis using same_rows_update_task by auto
  next
    case False
    then show ?thesis using final same_rows_evaluate by simp
  qed
  moreover have "fst low = map (stripped ids now (ctx_user_id ctx) counts) (steps db)"
  proof -
    have "distinct (map step_id (map (mark_removed ids now (ctx_user_id ctx)) (steps db)))"
      using assms(1) by (simp add: comp_def)
    moreover have "distinct (map fst counts)"
      by (simp add: counts_def count_removed_prerequisite_edges_def count_removed_keys)
    ultimately show ?thesis using lower_counts_loop by (simp add: low_def stripped_def comp_def)
  qed
  moreover have "\<forall>i \<in> set ids. i \<in> step_id ` set ?found"
    using missing by (auto simp: filter_empty_conv sorted_ids_def)
  then have "\<forall>i \<in> set ids. i \<in> set completed \<longleftrightarrow> step_done (steps db) i"
    unfolding completed_def using found_completed [OF assms(1)] by blast
  ultimately show thesis by (intro that [of db1 counts completed]) (simp_all add: db1_def counts_def)
qed

text \<open>C20: Removing steps keeps the dependency counters exact. A successful removal of any set of steps of a task
  from a store with exact counters leaves exact counters: each surviving step loses exactly the removed
  prerequisites, the completed ones also from its completed count, and its readiness is the one the remaining
  edges imply. The trails of the surviving steps are untouched, so the invariant of the store holds.\<close>

theorem removal_keeps_counters_exact:
  assumes "store_ok gen db" "counters_exact (steps db) (edges db)"
    and "remove_task_steps_in_session ctx tid ids now db = Inr (db', changes, workers)"
  shows "counters_exact (steps db') (edges db') \<and> store_ok gen db'"
proof -
  note ids_ok = store_ok_distinct [OF assms(1)]
  obtain db1 completed counts where same: "same_rows db1 db'"
    and counts: "counts = count_removed_prerequisite_edges (filter (touches ids) (edges db)) ids completed"
    and completed: "\<forall>i \<in> set ids. i \<in> set completed \<longleftrightarrow> step_done (steps db) i"
    and rows: "steps db1 = map (stripped ids now (ctx_user_id ctx) counts) (steps db)"
      "records db1 = close_records ids now (records db)" "edges db1 = remove_edges ids now (ctx_user_id ctx) (edges db)"
      "drawn db1 = drawn db"
    by (rule removal_rows [OF ids_ok [THEN conjunct1] assms(3)])
  have live: "step_id s \<notin> set ids \<and> stripped ids now (ctx_user_id ctx) counts s = lowered counts s \<and> \<not> step_is_deleted s"
    if "\<not> step_is_deleted (stripped ids now (ctx_user_id ctx) counts s)" for s
    using that by (auto simp: stripped_def mark_removed_def split: if_splits)
  have done_after: "step_done (steps db1) i \<longleftrightarrow> i \<notin> set ids \<and> step_done (steps db) i" for i
  proof -
    have "steps db1 = map (lowered counts) (map (mark_removed ids now (ctx_user_id ctx)) (steps db))"
      by (simp add: rows stripped_def)
    then show ?thesis by (simp only: step_done_lowered step_done_removed)
  qed
  have "exact (steps db1) (edges db1) (lowered counts s)" if s: "s \<in> set (steps db)" "\<not> step_is_deleted s" "step_id s \<notin> set ids" for s
    unfolding rows(3)
    by (rule lowered_exact [OF _ s(3,2) _ counts done_after]) (use assms(2) s completed in \<open>auto simp: counters_exact_def\<close>)
  then have remaining: "exact (steps db1) (edges db1) (lowered counts s)"
    if "s \<in> set (steps db)" "\<not> step_is_deleted s" "step_id s \<notin> set ids" for s
    using that by blast
  have "counters_ok db1"
    unfolding counters_ok_def counters_exact_def
  proof (intro ballI impI)
    fix x assume "x \<in> set (steps db1)" and kept: "\<not> step_is_deleted x"
    then obtain s where "s \<in> set (steps db)" "x = stripped ids now (ctx_user_id ctx) counts s" by (auto simp: rows(1))
    then show "exact (steps db1) (edges db1) x" using live [of s] kept remaining [of s] by simp
  qed
  moreover have "store_ok gen db1"
  proof -
    have "trails_ok (steps db1) (records db1)"
      unfolding trails_ok_def
    proof (intro ballI impI)
      fix x assume "x \<in> set (steps db1)" and kept: "\<not> step_is_deleted x"
      then obtain s where s: "s \<in> set (steps db)" "x = stripped ids now (ctx_user_id ctx) counts s" by (auto simp: rows(1))
      then have "step_id s \<notin> set ids" "x = lowered counts s" "\<not> step_is_deleted s" using live [of s] kept by simp_all
      then show "on_trail (records db1) x"
        using assms(1) s(1) by (simp add: rows(2) on_trail_closed_others store_ok_def trails_ok_def)
    qed
    moreover have "r' \<in> set (records db1) \<Longrightarrow> record_id r' \<in> record_id ` set (records db)" for r'
      using close_records_ids(2) [of ids now "records db"] unfolding rows(2) by blast
    ultimately show ?thesis
      using assms(1) by (fastforce simp: store_ok_def rows(4) rows(1,2) stripped_def comp_def)
  qed
  ultimately show ?thesis
    using counters_ok_same [OF same] store_ok_same [OF same] by (simp add: counters_ok_def)
qed

theorem removal_keeps_counters_exact_witness:
  "\<exists>db' changes workers. remove_task_steps_in_session (as_user ''m'') ''t'' [''a''] 5 sample_store = Inr (db', changes, workers)
     \<and> counters_exact (steps db') (edges db') \<and> changes = [(''b'', ReadinessBLOCKED)]
     \<and> map (\<lambda>s. (step_id s, readiness_status s)) (live_steps db' ''t'') = [(''b'', ReadinessREADY)]"
proof -
  have "case remove_task_steps_in_session (as_user ''m'') ''t'' [''a''] 5 sample_store of Inl _ \<Rightarrow> False
      | Inr (db', changes, workers) \<Rightarrow> changes = [(''b'', ReadinessBLOCKED)]
         \<and> map (\<lambda>s. (step_id s, readiness_status s)) (live_steps db' ''t'') = [(''b'', ReadinessREADY)]"
    by code_simp
  then obtain db' changes workers where run: "remove_task_steps_in_session (as_user ''m'') ''t'' [''a''] 5 sample_store
      = Inr (db', changes, workers)" and rest: "changes = [(''b'', ReadinessBLOCKED)]"
      "map (\<lambda>s. (step_id s, readiness_status s)) (live_steps db' ''t'') = [(''b'', ReadinessREADY)]"
    by (auto split: sum.splits)
  show ?thesis
    using removal_keeps_counters_exact [OF sample_store_ok sample_counters run] run rest by auto
qed

text \<open>Removing the last step of a ready task takes it back to pending but leaves its completion stamp. The
  task is forced ready at one moment and loses its steps at a later one: it is pending and still carries the
  time of its completion, which only the other way out of the ready state clears.\<close>

lemma removing_last_steps_keeps_completion_stamp:
  "case force_task_ready (as_user ''m'') ''t'' None False 3600000000 sample_store of
     Inl _ \<Rightarrow> False
   | Inr (db, _) \<Rightarrow>
       (case remove_task_steps (as_user ''m'') ''t'' [''a'', ''b''] 7200000000 db of
          Inl _ \<Rightarrow> False
        | Inr (db', _) \<Rightarrow> map (\<lambda>t. (task_id t, task_state t, task_completed_at t)) (tasks db')
            = [(''t'', TaskPENDING, Some 3600000000), (''o'', TaskWORKING, None)])"
  by code_simp
end
