(* ===== verification/StockStore.thy ===== *)
theory StockStore
  imports TaskStepEnums PyJson
begin

text \<open>
  The tables of the stock report (\<open>models/tables/stock_report/\<close>) and the pure rules over them
  (\<open>domain/stock_report/\<close>). A stock report item ("row") counts the units that tasks are preparing for it; an
  assignment ties a task and its item to a row; a goal record counts the units credited to a demand; a
  snapshot is one row's place on one version of the board. One value of \<open>stock_db\<close> is one workspace.

  A datetime is an \<open>int\<close> of microseconds, and the rows the code creates take their identifier from a
  parameter. Of a task, an item and an item category the store keeps the columns this component reads, and
  \<open>primary_pairs\<close> are the task and item of every \<open>TaskItem\<close> of role \<open>PRIMARY\<close> that is not removed.
\<close>

section \<open>Vocabularies\<close>

datatype assignment_state =
    AsgIN_QUEUE
  | AsgIN_PROGRESS
  | AsgAWAITING
  | AsgRESOLVED
  | AsgFAILED
  | AsgRESOLVED_EARLY

definition ACTIVE_ASSIGNMENT_STATES :: "assignment_state set" where
  "ACTIVE_ASSIGNMENT_STATES = {AsgIN_QUEUE, AsgIN_PROGRESS, AsgAWAITING}"

definition TERMINAL_ASSIGNMENT_STATES :: "assignment_state set" where
  "TERMINAL_ASSIGNMENT_STATES = {AsgRESOLVED, AsgFAILED, AsgRESOLVED_EARLY}"

fun ASSIGNMENT_STATE_BY_TASK_STATE :: "task_state \<Rightarrow> assignment_state" where
  "ASSIGNMENT_STATE_BY_TASK_STATE TaskPENDING = AsgIN_QUEUE"
| "ASSIGNMENT_STATE_BY_TASK_STATE TaskASSIGNED = AsgIN_QUEUE"
| "ASSIGNMENT_STATE_BY_TASK_STATE TaskWORKING = AsgIN_PROGRESS"
| "ASSIGNMENT_STATE_BY_TASK_STATE TaskSTALLED = AsgIN_PROGRESS"
| "ASSIGNMENT_STATE_BY_TASK_STATE TaskREADY = AsgAWAITING"
| "ASSIGNMENT_STATE_BY_TASK_STATE TaskRESOLVED = AsgAWAITING"
| "ASSIGNMENT_STATE_BY_TASK_STATE TaskFAILED = AsgFAILED"
| "ASSIGNMENT_STATE_BY_TASK_STATE TaskCANCELLED = AsgFAILED"

datatype stock_priority = PriorityHIGH | PriorityMEDIUM | PriorityLOW

datatype history_type =
    HistQUANTITY_REQUESTED_CHANGE
  | HistPRIORITY_CHANGE
  | HistPRIORITY_ORDER_CHANGE
  | HistQUANTITY_REQUESTED_OVERRIDE

datatype requested_source = ReqSCANNER | ReqMANUAL

datatype missing_source = MissingOWN | MissingACTIVE | MissingNONE

datatype version_lifecycle = VersionDRAFT | VersionACTIVE | VersionCLOSED

datatype repair_target = RepairITEM | RepairHISTORY | RepairTASK | RepairGROUP | RepairSNAPSHOT | RepairVERSION

lemma active_not_terminal [simp]: "s \<in> TERMINAL_ASSIGNMENT_STATES \<longleftrightarrow> s \<notin> ACTIVE_ASSIGNMENT_STATES"
  by (cases s) (simp_all add: TERMINAL_ASSIGNMENT_STATES_def ACTIVE_ASSIGNMENT_STATES_def)

lemma active_states [simp]:
  "AsgIN_QUEUE \<in> ACTIVE_ASSIGNMENT_STATES" "AsgIN_PROGRESS \<in> ACTIVE_ASSIGNMENT_STATES"
  "AsgAWAITING \<in> ACTIVE_ASSIGNMENT_STATES" "AsgRESOLVED \<notin> ACTIVE_ASSIGNMENT_STATES"
  "AsgFAILED \<notin> ACTIVE_ASSIGNMENT_STATES" "AsgRESOLVED_EARLY \<notin> ACTIVE_ASSIGNMENT_STATES"
  by (simp_all add: ACTIVE_ASSIGNMENT_STATES_def)

section \<open>Tables\<close>

text \<open>The three counter columns, which rows and snapshots share.\<close>

record counters =
  quantity_in_queue :: int
  quantity_in_progress :: int
  quantity_awaiting :: int

record stock_row = counters +
  row_id :: string
  row_category_id :: string
  row_properties :: "(string \<times> json) list"
  row_signature :: string
  row_requested :: int
  row_is_deleted :: bool
  row_deleted_at :: "int option"
  row_deleted_by_id :: "string option"
  row_updated_at :: "int option"
  row_updated_by_id :: "string option"

record stock_assignment =
  assignment_id :: string
  assignment_row_id :: string
  assignment_task_id :: string
  assignment_item_id :: string
  credited_record_id :: "string option"
  assignment_quantity :: int
  mismatch_overridden :: bool
  assignment_state :: assignment_state
  assignment_created_by_id :: "string option"
  assignment_updated_at :: "int option"
  assignment_updated_by_id :: "string option"
  assignment_is_deleted :: bool
  assignment_deleted_at :: "int option"
  assignment_deleted_by_id :: "string option"

record history_record =
  history_id :: string
  history_row_id :: string
  history_type :: history_type
  history_requested :: int
  history_source :: requested_source
  history_awaiting :: int
  history_priority :: "stock_priority option"
  history_priority_order :: "int option"
  history_created_at :: int
  history_created_by_id :: "string option"
  history_is_deleted :: bool
  history_deleted_at :: "int option"
  history_deleted_by_id :: "string option"

record item_snapshot = counters +
  snapshot_id :: string
  snapshot_version_id :: string
  snapshot_row_id :: string
  requested_scanner :: "int option"
  requested_manual :: "int option"
  snapshot_missing :: "int option"
  snapshot_resolved :: int
  snapshot_priority :: "stock_priority option"
  priority_order :: "int option"
  snapshot_active_at :: "int option"
  snapshot_closed_at :: "int option"
  snapshot_updated_at :: "int option"
  snapshot_updated_by_id :: "string option"

record snapshot_version =
  version_id :: string
  version_title :: "string option"
  version_active_at :: "int option"
  version_closed_at :: "int option"
  version_closed_by_id :: "string option"
  scheduled_activation_at :: "int option"
  keeps_active_missing :: bool
  snapshot_count :: int
  version_created_at :: int
  version_created_by_id :: "string option"

record repair_record =
  repair_target_kind :: repair_target
  repair_target_id :: string
  repair_field :: string
  stored_value :: int
  recomputed_value :: int
  repair_trigger :: string
  repair_created_at :: int

record stock_task =
  stock_task_id :: string
  stock_task_state :: task_state
  stock_task_is_deleted :: bool
  is_stock_assignment :: bool

record stock_item =
  stock_item_id :: string
  article_number :: "string option"
  item_sku :: "string option"
  stock_item_category_id :: "string option"
  item_properties :: "(string \<times> json) list option"
  item_quantity :: int
  stock_item_is_deleted :: bool

record stock_category =
  stock_category_id :: string
  stock_category_name :: string
  stock_category_is_deleted :: bool

text \<open>A \<open>DelayedScheduler\<close> of type \<open>STOCK_REPORT_VERSION_ACTIVATION\<close>.\<close>

datatype scheduler_state = SchedulerACTIVE | SchedulerFIRED | SchedulerPAUSED | SchedulerCANCELED | SchedulerERROR

record activation_scheduler =
  scheduler_version_id :: string
  scheduled_for :: int
  scheduled_by_user_id :: "string option"
  scheduler_state :: scheduler_state
  scheduler_updated_at :: "int option"

record stock_db =
  stock_rows :: "stock_row list"
  assignments :: "stock_assignment list"
  histories :: "history_record list"
  snapshots :: "item_snapshot list"
  versions :: "snapshot_version list"
  repairs :: "repair_record list"
  stock_tasks :: "stock_task list"
  stock_items :: "stock_item list"
  primary_pairs :: "(string \<times> string) list"
  categories :: "stock_category list"
  schedulers :: "activation_scheduler list"

text \<open>\<open>UPDATE \<dots> SET f WHERE P\<close>.\<close>

definition update_where :: "('r \<Rightarrow> bool) \<Rightarrow> ('r \<Rightarrow> 'r) \<Rightarrow> 'r list \<Rightarrow> 'r list" where
  "update_where P f rows = map (\<lambda>r. if P r then f r else r) rows"

lemma update_where_set: "r \<in> set (update_where P f rows) \<longleftrightarrow> (\<exists>r0 \<in> set rows. r = (if P r0 then f r0 else r0))"
  by (auto simp: update_where_def image_iff)

lemma update_where_keys [simp]: "(\<And>r. key (f r) = key r) \<Longrightarrow> map key (update_where P f rows) = map key rows"
  by (simp add: update_where_def)

lemma update_where_key_set [simp]: "(\<And>r. key (f r) = key r) \<Longrightarrow> key ` set (update_where P f rows) = key ` set rows"
  by (metis list.set_map update_where_keys)

lemma update_where_nothing: "(\<And>r. r \<in> set rows \<Longrightarrow> \<not> P r) \<Longrightarrow> update_where P f rows = rows"
  by (simp add: update_where_def map_idI)

text \<open>\<open>locked[client_id]\<close>: the row of a lock read.\<close>

definition locked :: "('r \<Rightarrow> string) \<Rightarrow> string \<Rightarrow> 'r list \<Rightarrow> 'r result" where
  "locked key i rows = (case filter (\<lambda>r. key r = i) rows of [] \<Rightarrow> Inl (KeyError i) | r # _ \<Rightarrow> Inr r)"

lemma locked_self: "distinct (map key rows) \<Longrightarrow> r \<in> set rows \<Longrightarrow> locked key (key r) rows = Inr r"
  using filter_key_unique [of key rows r "\<lambda>_. True"] by (simp add: locked_def)

lemma locked_known: "i \<in> key ` set rows \<Longrightarrow> \<exists>r. locked key i rows = Inr r"
  by (auto simp: locked_def filter_empty_conv split: list.splits)

section \<open>The rules of the snapshot layer\<close>

text \<open>\<open>domain/stock_report/snapshot_rules.py\<close> and its SQL twins in \<open>_predicates.py\<close>.\<close>

definition version_state :: "snapshot_version \<Rightarrow> version_lifecycle result" where
  "version_state v =
     (if version_closed_at v \<noteq> None
      then if version_active_at v = None
           then Inl (ValueError ''a version cannot be closed without having been activated'')
           else Inr VersionCLOSED
      else if version_active_at v \<noteq> None then Inr VersionACTIVE else Inr VersionDRAFT)"

definition is_version_draft :: "snapshot_version \<Rightarrow> bool" where
  "is_version_draft v \<longleftrightarrow> version_active_at v = None \<and> version_closed_at v = None"

definition is_version_active :: "snapshot_version \<Rightarrow> bool" where
  "is_version_active v \<longleftrightarrow> version_active_at v \<noteq> None \<and> version_closed_at v = None"

definition is_snapshot_open :: "item_snapshot \<Rightarrow> bool" where
  "is_snapshot_open s \<longleftrightarrow> snapshot_closed_at s = None"

definition is_snapshot_active :: "item_snapshot \<Rightarrow> bool" where
  "is_snapshot_active s \<longleftrightarrow> snapshot_active_at s \<noteq> None \<and> snapshot_closed_at s = None"

definition scanner_quantity_requested :: "item_snapshot \<Rightarrow> stock_row \<Rightarrow> int option" where
  "scanner_quantity_requested s row =
     (if snapshot_active_at s = None then Some (row_requested row) else requested_scanner s)"

definition effective_quantity_requested :: "item_snapshot \<Rightarrow> stock_row \<Rightarrow> int option" where
  "effective_quantity_requested s row =
     (if requested_manual s \<noteq> None then requested_manual s else scanner_quantity_requested s row)"

definition quantity_requested_source :: "item_snapshot \<Rightarrow> requested_source" where
  "quantity_requested_source s = (if requested_manual s \<noteq> None then ReqMANUAL else ReqSCANNER)"

definition effective_quantity_missing :: "item_snapshot \<Rightarrow> int option \<Rightarrow> int option" where
  "effective_quantity_missing s active =
     (if snapshot_active_at s \<noteq> None then snapshot_missing s
      else if snapshot_missing s \<noteq> None then snapshot_missing s
      else if active \<noteq> None then active else Some 0)"

definition quantity_missing_source :: "item_snapshot \<Rightarrow> int option \<Rightarrow> missing_source" where
  "quantity_missing_source s active =
     (if snapshot_active_at s \<noteq> None \<or> snapshot_missing s \<noteq> None then MissingOWN
      else if active \<noteq> None then MissingACTIVE else MissingNONE)"

definition missing_quantity_ceiling :: "int \<Rightarrow> 'a counters_scheme \<Rightarrow> int \<Rightarrow> int" where
  "missing_quantity_ceiling requested row resolved =
     max 0 (requested - (quantity_in_queue row + quantity_in_progress row + quantity_awaiting row + resolved))"

end
