(* ===== verification/StockMatching.thy ===== *)
theory StockMatching
  imports StockStore "HOL-Library.Sublist"
begin

text \<open>
  Which item fits a stock report row: the matcher of an item's properties against the row's criteria
  (\<open>domain/stock_report/criteria_matcher.py\<close> over \<open>scanner_property_tables.py\<close>), the normalisation that gives a row its
  identity (\<open>criteria_normalization.py\<close>, \<open>domain/items/properties_signature.py\<close>), and
  the table the matcher is specified by. The digest of a signature is a parameter. A property that is a number with a fractional
  part is outside the type \<open>json\<close>.
\<close>

section \<open>The tables of the scanner\<close>

definition WOOD_TYPE_KEY :: string where "WOOD_TYPE_KEY = ''wood_type''"
definition WOOD_GROUP_KEY :: string where "WOOD_GROUP_KEY = ''wood_group''"
definition DRAWERS_QTY_KEY :: string where "DRAWERS_QTY_KEY = ''drawers_qty''"
definition DRAWERS_RANGE_KEY :: string where "DRAWERS_RANGE_KEY = ''drawers_range''"

definition EXCLUDED_ITEM_PROPERTY_KEYS :: "string list" where
  "EXCLUDED_ITEM_PROPERTY_KEYS = [''qty_extensions'', ''quantity'', ''wood_group'', ''drawers_range'']"

definition WOOD_GROUPS :: "(string \<times> string list) list" where
  "WOOD_GROUPS =
     [(''Dark'', [''Mahogany'', ''Santos Rosewood'', ''Rosewood'', ''Dark Oak'', ''Dark Teak'', ''Walnut'']),
      (''Teak'', [''Teak'', ''Cherry'']),
      (''Light'', [''Oak'', ''Beech'', ''Pine'', ''Birch'', ''Elm''])]"

definition DRAWER_RANGES :: "(string \<times> int \<times> int option) list" where
  "DRAWER_RANGES = [(''1-2'', 1, Some 2), (''3-5'', 3, Some 5), (''6+'', 6, None)]"

definition ITEM_VALUE_ALIASES :: "(string \<times> (string \<times> string) list) list" where
  "ITEM_VALUE_ALIASES = [(''shape'', [(''squared'', ''square'')])]"

definition ITEM_KEY_ALIASES :: "(string \<times> string list) list" where
  "ITEM_KEY_ALIASES = [(WOOD_TYPE_KEY, [''material_type''])]"

fun add_wood_tokens :: "string list \<Rightarrow> string list \<Rightarrow> string list result" where
  "add_wood_tokens seen [] = Inr seen"
| "add_wood_tokens seen (v # vs) =
     (let token = lower (strip v) in
      if token \<in> set seen then Inl (ValueError ''wood token appears in more than one group'') else add_wood_tokens (token # seen) vs)"

definition validate_wood_groups :: "(string \<times> string list) list \<Rightarrow> unit result" where
  "validate_wood_groups groups =
     rbind (rfold (\<lambda>seen (name, values).
        rbind (rguard (CHR '','' \<notin> set name \<and> CHR ''/'' \<notin> set name) (ValueError ''group names cannot contain criterion separators''))
          (\<lambda>_. add_wood_tokens seen values)) [] groups) (\<lambda>_. Inr ())"

definition validate_drawer_ranges :: "(string \<times> int \<times> int option) list \<Rightarrow> unit result" where
  "validate_drawer_ranges ranges =
     rbind (rfold (\<lambda>previous_max (_, minimum, maximum).
        rbind (rguard (case maximum of None \<Rightarrow> True | Some m \<Rightarrow> minimum \<le> m) (ValueError ''invalid drawer range'')) (\<lambda>_.
        rbind (rguard (case previous_max of None \<Rightarrow> True | Some m \<Rightarrow> m < minimum) (ValueError ''drawer ranges overlap or are unordered'')) (\<lambda>_.
        Inr maximum))) None ranges) (\<lambda>_. Inr ())"

definition wood_group_of_token :: "string \<Rightarrow> string option" where
  "wood_group_of_token token =
     map_option fst (List.find (\<lambda>(_, values). lower (strip token) \<in> lower ` set values) WOOD_GROUPS)"

definition canonical_item_token :: "string \<Rightarrow> string \<Rightarrow> string" where
  "canonical_item_token key token =
     (case map_of ITEM_VALUE_ALIASES key of
        None \<Rightarrow> token
      | Some aliases \<Rightarrow> (case map_of aliases token of None \<Rightarrow> token | Some t \<Rightarrow> t))"

definition is_digit :: "char \<Rightarrow> bool" where
  "is_digit c \<longleftrightarrow> (let n = of_char c :: nat in 48 \<le> n \<and> n \<le> 57)"

definition digits_value :: "string \<Rightarrow> int" where
  "digits_value s = foldl (\<lambda>n c. 10 * n + (of_char c - 48)) 0 s"

definition drawer_range_of :: "string \<Rightarrow> string option" where
  "drawer_range_of stored =
     (let s = strip stored in
      if s = [] \<or> \<not> list_all is_digit s then None
      else map_option fst (List.find (\<lambda>(_, minimum, maximum). minimum \<le> digits_value s
             \<and> (case maximum of None \<Rightarrow> True | Some m \<Rightarrow> digits_value s \<le> m)) DRAWER_RANGES))"

section \<open>The properties of an item\<close>

text \<open>\<open>re.split(r"[,/]", value)\<close>.\<close>

fun split_separators :: "string \<Rightarrow> string list" where
  "split_separators [] = [[]]"
| "split_separators (c # cs) =
     (if c = CHR '','' \<or> c = CHR ''/'' then [] # split_separators cs
      else case split_separators cs of [] \<Rightarrow> [[c]] | p # ps \<Rightarrow> (c # p) # ps)"

definition tokenize_property_value :: "string \<Rightarrow> string list" where
  "tokenize_property_value s = map (\<lambda>p. lower (strip p)) (filter (\<lambda>p. strip p \<noteq> []) (split_separators s))"

definition item_tokens :: "string \<Rightarrow> string \<Rightarrow> string list" where
  "item_tokens key s = map (canonical_item_token key) (tokenize_property_value s)"

text \<open>\<open>json.dumps(v, separators=(",", ":"), ensure_ascii=False)\<close>, which keeps the order of the keys.\<close>

fun json_compact :: "json \<Rightarrow> string" where
  "json_compact JNull = ''null''"
| "json_compact (JBool b) = (if b then ''true'' else ''false'')"
| "json_compact (JInt i) = show_int i"
| "json_compact (JStr s) = json_string s"
| "json_compact (JArr xs) = ''['' @ intercalate '','' (map json_compact xs) @ '']''"
| "json_compact (JObj ps) = ''{'' @ intercalate '','' (map (\<lambda>(k, v). json_string k @ '':'' @ json_compact v) ps) @ ''}''"

fun property_value :: "json \<Rightarrow> string option" where
  "property_value (JStr s) = Some s"
| "property_value (JBool b) = Some (if b then ''true'' else ''false'')"
| "property_value (JInt i) = Some (show_int i)"
| "property_value (JArr xs) = Some (json_compact (JArr xs))"
| "property_value (JObj ps) = Some (json_compact (JObj ps))"
| "property_value JNull = None"

type_synonym bag = "(string \<times> string) list"

definition add_property :: "string \<times> json \<Rightarrow> bag \<Rightarrow> bag" where
  "add_property p bag =
     (case property_value (snd p) of
        None \<Rightarrow> bag
      | Some s \<Rightarrow> if strip (fst p) \<noteq> [] \<and> strip s \<noteq> [] then AList.update (strip (fst p)) (strip s) bag else bag)"

definition add_alias :: "string \<times> string list \<Rightarrow> bag \<Rightarrow> bag" where
  "add_alias p bag =
     (if map_of bag (fst p) \<noteq> None then bag
      else case List.find (\<lambda>a. map_of bag a \<noteq> None) (snd p) of
        None \<Rightarrow> bag
      | Some a \<Rightarrow> AList.update (fst p) (the (map_of bag a)) bag)"

definition build_item_property_bag :: "(string \<times> json) list option \<Rightarrow> int \<Rightarrow> bag" where
  "build_item_property_bag props q =
     (let bag = fold add_property (sort_key fst (case props of None \<Rightarrow> [] | Some ps \<Rightarrow> ps)) [];
          bag = filter (\<lambda>(k, _). k \<notin> set EXCLUDED_ITEM_PROPERTY_KEYS) bag;
          bag = fold add_alias ITEM_KEY_ALIASES bag;
          bag = AList.update ''quantity'' (show_int q) bag;
          bag = (case map_of bag WOOD_TYPE_KEY of
              None \<Rightarrow> bag
            | Some wood \<Rightarrow>
                (case tokenize_property_value wood of
                   [] \<Rightarrow> bag
                 | t # _ \<Rightarrow> (case wood_group_of_token t of None \<Rightarrow> bag | Some g \<Rightarrow> AList.update WOOD_GROUP_KEY g bag))) in
      case map_of bag DRAWERS_QTY_KEY of
        None \<Rightarrow> bag
      | Some drawers \<Rightarrow>
          (case drawer_range_of drawers of None \<Rightarrow> bag | Some label \<Rightarrow> AList.update DRAWERS_RANGE_KEY label bag))"

section \<open>The criteria of a row\<close>

datatype mismatch_reason = MISSING_ON_ITEM | VALUE_NOT_ACCEPTED | NO_GROUP_FOR_VALUE | CRITERION_NOT_UNDERSTOOD

record criterion_failure =
  failure_key :: string
  failure_reason :: mismatch_reason
  accepted_values :: "json list"
  item_values :: "string list"

text \<open>\<open>token in accepted\<close>, whose meaning depends on the type of the container.\<close>

fun token_in :: "string \<Rightarrow> json \<Rightarrow> bool result" where
  "token_in t (JArr xs) = Inr (JStr t \<in> set xs)"
| "token_in t (JStr s) = Inr (sublist t s)"
| "token_in t (JObj ps) = Inr (t \<in> fst ` set ps)"
| "token_in t _ = Inl (TypeError ''argument is not iterable'')"

fun any_accepted :: "json \<Rightarrow> string list \<Rightarrow> bool result" where
  "any_accepted accepted [] = Inr False"
| "any_accepted accepted (t # ts) = rbind (token_in t accepted) (\<lambda>found. if found then Inr True else any_accepted accepted ts)"

definition source_key :: "string \<Rightarrow> string option" where
  "source_key key =
     (if key = WOOD_GROUP_KEY then Some WOOD_TYPE_KEY else if key = DRAWERS_RANGE_KEY then Some DRAWERS_QTY_KEY else None)"

definition evaluate_criterion :: "bag \<Rightarrow> string \<times> json \<Rightarrow> criterion_failure option result" where
  "evaluate_criterion bag p =
     (case p of (key, accepted) \<Rightarrow>
      let accepted_vs = (case accepted of JArr xs \<Rightarrow> xs | _ \<Rightarrow> []);
          failing = (\<lambda>reason vs. Inr (Some \<lparr>failure_key = key, failure_reason = reason, accepted_values = accepted_vs, item_values = vs\<rparr>)) in
      case map_of bag key of
        None \<Rightarrow>
          if accepted = JArr [] then failing CRITERION_NOT_UNDERSTOOD []
          else (case Option.bind (source_key key) (map_of bag) of
                  Some source \<Rightarrow> failing NO_GROUP_FOR_VALUE (tokenize_property_value source)
                | None \<Rightarrow> failing MISSING_ON_ITEM [])
      | Some v \<Rightarrow>
          let tokens = item_tokens key v in
          if accepted = JArr [] then failing CRITERION_NOT_UNDERSTOOD tokens
          else if accepted = JNull then Inr None
          else if tokens = [] then failing MISSING_ON_ITEM tokens
          else rbind (any_accepted accepted tokens) (\<lambda>found. if found then Inr None else failing VALUE_NOT_ACCEPTED tokens))"

definition evaluate_stock_criteria :: "(string \<times> json) list option \<Rightarrow> int \<Rightarrow> (string \<times> json) list \<Rightarrow> criterion_failure list result" where
  "evaluate_stock_criteria props q criteria =
     rbind (rmap (evaluate_criterion (build_item_property_bag props q)) criteria) (\<lambda>results.
     Inr (sort_key failure_key (List.map_filter id results)))"

definition matches_stock_criteria :: "(string \<times> json) list option \<Rightarrow> int \<Rightarrow> (string \<times> json) list \<Rightarrow> bool result" where
  "matches_stock_criteria props q criteria = rbind (evaluate_stock_criteria props q criteria) (\<lambda>failures. Inr (failures = []))"

section \<open>The identity of a row\<close>

fun is_jstr :: "json \<Rightarrow> bool" where
  "is_jstr (JStr _) = True" | "is_jstr _ = False"

fun jstr_of :: "json \<Rightarrow> string" where
  "jstr_of (JStr s) = s" | "jstr_of _ = []"

definition normalize_token :: "string \<Rightarrow> string" where
  "normalize_token s = lower (strip s)"

fun normalize_value :: "json \<Rightarrow> json" where
  "normalize_value (JStr s) = (if strip s \<noteq> [] then JArr [JStr (normalize_token s)] else JStr s)"
| "normalize_value (JArr xs) =
     (if xs \<noteq> [] \<and> list_all is_jstr xs \<and> list_ex (\<lambda>x. strip (jstr_of x) \<noteq> []) xs
      then JArr (map JStr (sort (remdups (filter (\<lambda>t. t \<noteq> []) (map (normalize_token \<circ> jstr_of) xs)))))
      else JArr xs)"
| "normalize_value v = v"

definition normalize_stock_criteria :: "(string \<times> json) list \<Rightarrow> (string \<times> json) list" where
  "normalize_stock_criteria raw = map (\<lambda>(k, v). (k, normalize_value v)) raw"

definition compute_properties_signature :: "(string \<Rightarrow> string) \<Rightarrow> (string \<times> json) list \<Rightarrow> string" where
  "compute_properties_signature digest properties = digest (json_dumps (JObj properties))"

definition compute_stock_criteria_signature :: "(string \<Rightarrow> string) \<Rightarrow> (string \<times> json) list \<Rightarrow> string" where
  "compute_stock_criteria_signature digest raw = compute_properties_signature digest (normalize_stock_criteria raw)"

lemma scanner_tables_valid: "validate_wood_groups WOOD_GROUPS = Inr ()" "validate_drawer_ranges DRAWER_RANGES = Inr ()"
  by code_simp+

section \<open>Spelling does not matter\<close>

lemma dropWhile_idem [simp]: "dropWhile P (dropWhile P xs) = dropWhile P xs"
  by (induction xs) simp_all

lemma dropWhile_rev_absorb: "dropWhile P (rev (dropWhile P (rev (dropWhile P xs)))) = rev (dropWhile P (rev (dropWhile P xs)))"
proof (cases "dropWhile P xs")
  case (Cons y ys)
  then have "\<not> P y" using hd_dropWhile [of P xs] by force
  then have "dropWhile P (rev ys @ [y]) = dropWhile P (rev ys) @ [y]" by (simp add: dropWhile_append)
  then show ?thesis using Cons \<open>\<not> P y\<close> by simp
next
  case Nil
  show ?thesis unfolding Nil by simp
qed

lemma strip_idem [simp]: "strip (strip s) = strip s"
  by (simp add: strip_def dropWhile_rev_absorb)

lemma is_space_lower [simp]: "is_space (lower_char c) = is_space c"
proof -
  have "of_char (char_of (of_char c + 32 :: nat)) = (of_char c + 32 :: nat)" if "of_char c \<le> (90 :: nat)"
    using that by (simp add: of_char_of)
  then show ?thesis by (auto simp: is_space_def lower_char_def Let_def)
qed

lemma strip_lower: "strip (lower s) = lower (strip s)"
proof -
  have "is_space \<circ> lower_char = is_space" by (simp add: fun_eq_iff)
  then show ?thesis by (simp add: strip_def lower_def dropWhile_map rev_map)
qed

lemma lower_char_idem [simp]: "lower_char (lower_char c) = lower_char c"
proof -
  have "of_char (char_of (of_char c + 32 :: nat)) = (of_char c + 32 :: nat)" if "of_char c \<le> (90 :: nat)"
    using that by (simp add: of_char_of)
  then show ?thesis by (auto simp: lower_char_def Let_def)
qed

lemma lower_idem [simp]: "lower (lower s) = lower s"
  by (simp add: lower_def comp_def)

lemma lower_Nil [simp]: "lower s = [] \<longleftrightarrow> s = []"
  by (simp add: lower_def)

lemma normalize_token_idem [simp]: "normalize_token (normalize_token s) = normalize_token s"
  by (simp add: normalize_token_def strip_lower)

lemma normalize_token_Nil [simp]: "normalize_token s = [] \<longleftrightarrow> strip s = []"
  by (simp add: normalize_token_def)

text \<open>The tokens a criterion asks for, when it is a string or a list of strings.\<close>

fun criterion_tokens :: "json \<Rightarrow> string set option" where
  "criterion_tokens (JStr s) = (if strip s \<noteq> [] then Some {normalize_token s} else None)"
| "criterion_tokens (JArr xs) =
     (if list_all is_jstr xs \<and> list_ex (\<lambda>x. strip (jstr_of x) \<noteq> []) xs
      then Some (normalize_token ` jstr_of ` {x \<in> set xs. strip (jstr_of x) \<noteq> []}) else None)"
| "criterion_tokens v = None"

definition token_list :: "string set \<Rightarrow> json" where
  "token_list T = JArr (map JStr (sorted_list_of_set T))"

lemma normalize_tokens:
  "normalize_value v = (case criterion_tokens v of Some T \<Rightarrow> token_list T | None \<Rightarrow> v)"
proof (cases v)
  case (JStr s)
  then show ?thesis by (simp add: token_list_def)
next
  case (JArr xs)
  have "sort (remdups (filter (\<lambda>t. t \<noteq> []) (map (normalize_token \<circ> jstr_of) xs)))
      = sorted_list_of_set (normalize_token ` jstr_of ` {x \<in> set xs. strip (jstr_of x) \<noteq> []})"
    unfolding sorted_list_of_set_sort_remdups [symmetric] by (rule arg_cong [where f = sorted_list_of_set]) auto
  then show ?thesis using JArr by (auto simp: token_list_def)
qed simp_all

lemma criterion_tokens_ok: "criterion_tokens v = Some T \<Longrightarrow> finite T \<and> T \<noteq> {} \<and> (\<forall>t \<in> T. normalize_token t = t \<and> t \<noteq> [])"
  by (cases v) (auto simp: list_ex_iff split: if_splits)

lemma criterion_tokens_list:
  assumes "finite T" "T \<noteq> {}" "\<forall>t \<in> T. normalize_token t = t \<and> t \<noteq> []"
  shows "criterion_tokens (token_list T) = Some T"
proof -
  have nonblank: "strip t \<noteq> []" if "t \<in> T" for t using assms(3) that normalize_token_Nil by metis
  then have "normalize_token ` jstr_of ` {x \<in> JStr ` T. strip (jstr_of x) \<noteq> []} = normalize_token ` T"
    by (force simp: image_iff)
  also have "\<dots> = T" using assms(3) by (auto simp: image_iff)
  finally show ?thesis using assms nonblank by (auto simp: token_list_def list_all_iff list_ex_iff)
qed

lemma token_list_inj: "finite S \<Longrightarrow> finite T \<Longrightarrow> token_list S = token_list T \<Longrightarrow> S = T"
proof -
  assume fin: "finite S" "finite T" and eq: "token_list S = token_list T"
  have "inj JStr" by (simp add: inj_def)
  then have "sorted_list_of_set S = sorted_list_of_set T" using eq by (simp add: token_list_def inj_map_eq_map)
  then show "S = T" using fin by (metis set_sorted_list_of_set)
qed

definition same_criterion :: "json \<Rightarrow> json \<Rightarrow> bool" where
  "same_criterion v w \<longleftrightarrow> v = w \<or> criterion_tokens v \<noteq> None \<and> criterion_tokens v = criterion_tokens w"

lemma normalize_value_same: "normalize_value v = normalize_value w \<longleftrightarrow> same_criterion v w"
proof -
  have apart: "token_list T \<noteq> w" if "criterion_tokens v = Some T" "criterion_tokens w = None" for v w T
    using criterion_tokens_ok [OF that(1)] criterion_tokens_list [of T] that(2) by (intro notI) (elim conjE, simp)
  show ?thesis
  proof (cases "criterion_tokens v")
    case None
    then show ?thesis using apart [of w _ v] by (cases "criterion_tokens w") (fastforce simp: normalize_tokens same_criterion_def)+
  next
    case v: (Some S)
    show ?thesis
    proof (cases "criterion_tokens w")
      case None
      then show ?thesis using apart [OF v None] v by (auto simp: normalize_tokens same_criterion_def)
    next
      case (Some T)
      then have "token_list S = token_list T \<longleftrightarrow> S = T" using criterion_tokens_ok v token_list_inj by blast
      then show ?thesis using v Some by (auto simp: normalize_tokens same_criterion_def)
    qed
  qed
qed

lemma normalize_value_idem [simp]: "normalize_value (normalize_value v) = normalize_value v"
proof (cases "criterion_tokens v")
  case (Some T)
  then have "criterion_tokens (token_list T) = Some T" using criterion_tokens_ok [OF Some] by (intro criterion_tokens_list) auto
  then show ?thesis using Some by (simp add: normalize_tokens)
qed (simp add: normalize_tokens)

text \<open>The serialisation of an object depends on the pairs up to their order.\<close>

lemma json_pairs_map: "json_pairs ps = map (\<lambda>(k, v). (k, json_dumps v)) ps"
  by (induction ps) auto

lemma insort_key_map_fst: "insort_key fst (k, f v) (map (\<lambda>(k, v). (k, f v)) ps) = map (\<lambda>(k, v). (k, f v)) (insort_key fst (k, v) ps)"
  by (induction ps) auto

lemma sort_key_map_fst: "sort_key fst (map (\<lambda>(k, v). (k, f v)) ps) = map (\<lambda>(k, v). (k, f v)) (sort_key fst ps)"
  by (induction ps) (auto simp: insort_key_map_fst)

lemma json_object_sorted: "sort_key fst ps = sort_key fst qs \<Longrightarrow> json_dumps (JObj ps) = json_dumps (JObj qs)"
  by (simp add: json_pairs_map sort_key_map_fst)

lemma same_pairs_sort:
  assumes "distinct (map fst ps)" "distinct (map fst qs)"
  shows "sort_key fst ps = sort_key fst qs \<longleftrightarrow> map_of ps = map_of qs"
proof
  assume "sort_key fst ps = sort_key fst qs"
  then have "set ps = set qs" by (metis set_sort)
  then show "map_of ps = map_of qs" using map_of_inject_set [OF assms] by simp
next
  assume "map_of ps = map_of qs"
  then have "set ps = set qs" using map_of_inject_set [OF assms] by simp
  moreover have "distinct ps" "distinct qs" using assms by (simp_all add: distinct_map)
  ultimately have "mset ps = mset (sort_key fst qs)" by (simp add: set_eq_iff_mset_eq_distinct)
  then show "sort_key fst ps = sort_key fst qs"
    using assms(1) by (intro sort_key_inj_key_eq) (simp_all add: distinct_map)
qed

definition same_criteria :: "(string \<times> json) list \<Rightarrow> (string \<times> json) list \<Rightarrow> bool" where
  "same_criteria raw raw' \<longleftrightarrow> (\<forall>k. rel_option same_criterion (map_of raw k) (map_of raw' k))"

lemma normalize_keys [simp]: "map fst (normalize_stock_criteria raw) = map fst raw"
  by (simp add: normalize_stock_criteria_def comp_def case_prod_unfold)

lemma normalize_lookup: "map_of (normalize_stock_criteria raw) k = map_option normalize_value (map_of raw k)"
  by (simp add: normalize_stock_criteria_def map_of_map)

text \<open>C32: The identity of a row. Normalising twice is normalising once, and two criteria normalise to the same object, up
  to the order of the keys, exactly when they name the same keys and, under each key, the same set of tokens up to
  case, surrounding space, order and repetition, or the same other value. Such criteria get the same signature.\<close>

theorem identity_up_to_spelling:
  assumes "distinct (map fst raw)" "distinct (map fst raw')"
  shows "(sort_key fst (normalize_stock_criteria raw) = sort_key fst (normalize_stock_criteria raw') \<longleftrightarrow> same_criteria raw raw')
    \<and> normalize_stock_criteria (normalize_stock_criteria raw) = normalize_stock_criteria raw
    \<and> (same_criteria raw raw' \<longrightarrow> compute_stock_criteria_signature digest raw = compute_stock_criteria_signature digest raw')"
proof -
  have "sort_key fst (normalize_stock_criteria raw) = sort_key fst (normalize_stock_criteria raw')
      \<longleftrightarrow> (\<forall>k. map_option normalize_value (map_of raw k) = map_option normalize_value (map_of raw' k))"
    using assms by (simp add: same_pairs_sort normalize_lookup [abs_def] fun_eq_iff)
  also have "\<dots> \<longleftrightarrow> same_criteria raw raw'"
    unfolding same_criteria_def by (intro iff_allI) (auto simp: rel_option_iff normalize_value_same split: option.splits)
  finally have same: "sort_key fst (normalize_stock_criteria raw) = sort_key fst (normalize_stock_criteria raw') \<longleftrightarrow> same_criteria raw raw'" .
  have "normalize_stock_criteria (normalize_stock_criteria raw) = normalize_stock_criteria raw"
    by (simp add: normalize_stock_criteria_def comp_def case_prod_unfold)
  moreover have "compute_stock_criteria_signature digest raw = compute_stock_criteria_signature digest raw'" if "same_criteria raw raw'"
    unfolding compute_stock_criteria_signature_def compute_properties_signature_def using same that json_object_sorted by metis
  ultimately show ?thesis using same by blast
qed

theorem identity_up_to_spelling_witness:
  "compute_stock_criteria_signature (\<lambda>s. s) [(''wood_group'', JStr '' Teak''), (''shape'', JArr [JStr ''Round'', JStr ''oval''])]
    = compute_stock_criteria_signature (\<lambda>s. s) [(''shape'', JArr [JStr ''OVAL'', JStr '' round'', JStr ''oval'']), (''wood_group'', JArr [JStr ''teak''])]"
proof -
  let ?raw = "[(''wood_group'', JStr '' Teak''), (''shape'', JArr [JStr ''Round'', JStr ''oval''])]"
    and ?raw' = "[(''shape'', JArr [JStr ''OVAL'', JStr '' round'', JStr ''oval'']), (''wood_group'', JArr [JStr ''teak''])]"
  have tokens: "criterion_tokens (JStr '' Teak'') = Some {''teak''}" "criterion_tokens (JArr [JStr ''teak'']) = Some {''teak''}"
      "criterion_tokens (JArr [JStr ''Round'', JStr ''oval'']) = Some {''round'', ''oval''}"
      "criterion_tokens (JArr [JStr ''OVAL'', JStr '' round'', JStr ''oval'']) = Some {''round'', ''oval''}"
    by code_simp+
  have "same_criteria ?raw ?raw'" using tokens by (simp add: same_criteria_def same_criterion_def)
  then show ?thesis using identity_up_to_spelling [of ?raw ?raw' "\<lambda>s. s"] by simp
qed

section \<open>The matcher and its table\<close>

text \<open>A criterion the matcher is specified to understand, and the reason its table gives.\<close>

definition understood :: "json \<Rightarrow> bool" where
  "understood a \<longleftrightarrow> (case a of JNull \<Rightarrow> True | JArr xs \<Rightarrow> xs \<noteq> [] \<and> list_all is_jstr xs | _ \<Rightarrow> False)"

definition table_reason :: "bag \<Rightarrow> string \<Rightarrow> json \<Rightarrow> mismatch_reason option" where
  "table_reason bag key a =
     (if \<not> understood a then Some CRITERION_NOT_UNDERSTOOD
      else if key = WOOD_GROUP_KEY \<and> (case map_of bag WOOD_TYPE_KEY of None \<Rightarrow> True | Some w \<Rightarrow> tokenize_property_value w = []) then Some MISSING_ON_ITEM
      else if key = WOOD_GROUP_KEY \<and> map_of bag key = None then Some NO_GROUP_FOR_VALUE
      else if key = DRAWERS_RANGE_KEY \<and> map_of bag DRAWERS_QTY_KEY = None then Some MISSING_ON_ITEM
      else if key = DRAWERS_RANGE_KEY \<and> map_of bag key = None then Some NO_GROUP_FOR_VALUE
      else case map_of bag key of
          None \<Rightarrow> Some MISSING_ON_ITEM
        | Some v \<Rightarrow>
            if item_tokens key v = [] then Some MISSING_ON_ITEM
            else case a of
                JArr xs \<Rightarrow> if \<exists>t \<in> set (item_tokens key v). JStr t \<in> set xs then None else Some VALUE_NOT_ACCEPTED
              | _ \<Rightarrow> None)"

lemma any_accepted_list: "any_accepted (JArr xs) ts = Inr (\<exists>t \<in> set ts. JStr t \<in> set xs)"
  by (induction ts) auto

lemma map_of_filter_keys: "map_of (filter (\<lambda>(k, _). P k) xs) k = (if P k then map_of xs k else None)"
  by (induction xs) auto

lemma excluded_keys: "WOOD_GROUP_KEY \<in> set EXCLUDED_ITEM_PROPERTY_KEYS" "DRAWERS_RANGE_KEY \<in> set EXCLUDED_ITEM_PROPERTY_KEYS"
  by (simp_all add: WOOD_GROUP_KEY_def DRAWERS_RANGE_KEY_def EXCLUDED_ITEM_PROPERTY_KEYS_def)

lemma wood_teak: "wood_group_of_token t = Some g \<Longrightarrow> tokenize_property_value g \<noteq> []"
  unfolding wood_group_of_token_def WOOD_GROUPS_def
  by (auto simp: tokenize_property_value_def strip_def is_space_def split: if_splits)

lemma alias_keys: "k \<noteq> WOOD_TYPE_KEY \<Longrightarrow> map_of (fold add_alias ITEM_KEY_ALIASES bag) k = map_of bag k"
  by (simp add: ITEM_KEY_ALIASES_def add_alias_def update_conv' split: option.splits)

lemma bag_keys_apart:
  "WOOD_GROUP_KEY \<noteq> WOOD_TYPE_KEY" "DRAWERS_RANGE_KEY \<noteq> WOOD_TYPE_KEY" "DRAWERS_RANGE_KEY \<noteq> DRAWERS_QTY_KEY"
  "WOOD_GROUP_KEY \<noteq> ''quantity''" "DRAWERS_RANGE_KEY \<noteq> ''quantity''" "WOOD_GROUP_KEY \<noteq> DRAWERS_RANGE_KEY"
  "WOOD_GROUP_KEY \<noteq> DRAWERS_QTY_KEY"
  by (simp_all add: WOOD_GROUP_KEY_def WOOD_TYPE_KEY_def DRAWERS_RANGE_KEY_def DRAWERS_QTY_KEY_def)

text \<open>The two derived keys of a bag have their source in the bag.\<close>

lemma derived_keys:
  assumes bag_def: "bag = build_item_property_bag props q"
  shows "map_of bag WOOD_GROUP_KEY = Some g \<Longrightarrow> \<exists>w. map_of bag WOOD_TYPE_KEY = Some w \<and> tokenize_property_value w \<noteq> []"
    and "map_of bag DRAWERS_RANGE_KEY = Some r \<Longrightarrow> map_of bag DRAWERS_QTY_KEY \<noteq> None"
proof -
  define b0 where "b0 = AList.update ''quantity'' (show_int q) (fold add_alias ITEM_KEY_ALIASES (filter (\<lambda>(k, _). k \<notin> set EXCLUDED_ITEM_PROPERTY_KEYS)
    (fold add_property (sort_key fst (case props of None \<Rightarrow> [] | Some ps \<Rightarrow> ps)) [])))"
  define b1 where "b1 = (case map_of b0 WOOD_TYPE_KEY of None \<Rightarrow> b0 | Some wood \<Rightarrow> (case tokenize_property_value wood of [] \<Rightarrow> b0
    | t # _ \<Rightarrow> (case wood_group_of_token t of None \<Rightarrow> b0 | Some g \<Rightarrow> AList.update WOOD_GROUP_KEY g b0)))"
  have bag: "bag = (case map_of b1 DRAWERS_QTY_KEY of None \<Rightarrow> b1
      | Some drawers \<Rightarrow> (case drawer_range_of drawers of None \<Rightarrow> b1 | Some label \<Rightarrow> AList.update DRAWERS_RANGE_KEY label b1))"
    unfolding bag_def build_item_property_bag_def Let_def b1_def b0_def by (rule refl)
  have absent: "map_of b0 WOOD_GROUP_KEY = None" "map_of b0 DRAWERS_RANGE_KEY = None"
    unfolding b0_def by (simp_all add: update_conv' bag_keys_apart alias_keys map_of_filter_keys excluded_keys)
  have b1: "map_of b1 WOOD_TYPE_KEY = map_of b0 WOOD_TYPE_KEY" "map_of b1 DRAWERS_RANGE_KEY = None"
    using absent bag_keys_apart by (auto simp: b1_def update_conv' split: option.splits list.splits)
  have source: "map_of bag WOOD_TYPE_KEY = map_of b1 WOOD_TYPE_KEY" "map_of bag WOOD_GROUP_KEY = map_of b1 WOOD_GROUP_KEY"
    using bag_keys_apart by (auto simp: bag update_conv' split: option.splits)
  show "\<exists>w. map_of bag WOOD_TYPE_KEY = Some w \<and> tokenize_property_value w \<noteq> []" if "map_of bag WOOD_GROUP_KEY = Some g"
    using that absent(1) unfolding source b1(1) by (auto simp: b1_def split: option.splits list.splits)
  show "map_of bag DRAWERS_QTY_KEY \<noteq> None" if "map_of bag DRAWERS_RANGE_KEY = Some r"
    using that b1(2) bag_keys_apart by (auto simp: bag update_conv' split: option.splits)
qed

definition verdict_of :: "criterion_failure \<Rightarrow> string \<times> mismatch_reason" where
  "verdict_of f = (failure_key f, failure_reason f)"

definition tokenful :: "bag \<Rightarrow> bool" where
  "tokenful bag \<longleftrightarrow> (\<forall>k v. map_of bag k = Some v \<longrightarrow> tokenize_property_value v \<noteq> [])"

lemma criterion_follows_table:
  assumes bag: "bag = build_item_property_bag props q" and a: "understood a" and tokens: "tokenful bag"
  shows "\<exists>f. evaluate_criterion bag (key, a) = Inr f \<and> map_option verdict_of f = map_option (Pair key) (table_reason bag key a)"
proof -
  have shape: "a = JNull \<or> (\<exists>xs. a = JArr xs \<and> xs \<noteq> [])" using a by (auto simp: understood_def split: json.splits)
  show ?thesis
  proof (cases "map_of bag key")
    case None
    have "table_reason bag key a = Some (case Option.bind (source_key key) (map_of bag) of Some _ \<Rightarrow> NO_GROUP_FOR_VALUE | None \<Rightarrow> MISSING_ON_ITEM)"
      using a None tokens bag_keys_apart by (auto simp: table_reason_def source_key_def tokenful_def split: option.splits)
    moreover have "a \<noteq> JArr []" using shape by auto
    ultimately show ?thesis using None
      by (auto simp: evaluate_criterion_def Let_def verdict_of_def split: option.splits)
  next
    case (Some v)
    have v: "item_tokens key v \<noteq> []" using tokens Some by (simp add: tokenful_def item_tokens_def)
    then have "table_reason bag key a = (case a of JArr xs \<Rightarrow> if \<exists>t \<in> set (item_tokens key v). JStr t \<in> set xs then None else Some VALUE_NOT_ACCEPTED | _ \<Rightarrow> None)"
      using a Some derived_keys [OF bag] unfolding table_reason_def by (auto split: option.splits)
    moreover have "evaluate_criterion bag (key, a) = Inr (case a of JArr xs \<Rightarrow> if \<exists>t \<in> set (item_tokens key v). JStr t \<in> set xs then None
        else Some \<lparr>failure_key = key, failure_reason = VALUE_NOT_ACCEPTED, accepted_values = xs, item_values = item_tokens key v\<rparr> | _ \<Rightarrow> None)"
      using Some shape v by (elim disjE exE conjE) (simp_all add: evaluate_criterion_def any_accepted_list)
    ultimately show ?thesis using shape by (auto simp: verdict_of_def)
  qed
qed

lemma sort_key_map_key: "(\<And>x. f (g x) = h x) \<Longrightarrow> sort_key f (map g xs) = map g (sort_key h xs)"
proof (induction xs)
  case (Cons x xs)
  have "insort_key f (g x) (map g ys) = map g (insort_key h x ys)" for ys
    by (induction ys) (simp_all add: Cons.prems)
  then show ?case using Cons by simp
qed simp

text \<open>C33: The matcher follows its table. For criteria it understands, a wildcard or a non-empty list of strings under each key,
  and an item each of whose properties holds a token, the evaluation returns one failure for each key the table refuses,
  with the reason of the table, in the order of the keys; the item matches exactly when the table refuses none.\<close>

theorem matcher_follows_table:
  assumes "\<forall>(k, a) \<in> set criteria. understood a" "tokenful (build_item_property_bag props q)"
  shows "\<exists>failures. evaluate_stock_criteria props q criteria = Inr failures
    \<and> map verdict_of failures = sort_key fst (List.map_filter (\<lambda>(k, a). map_option (Pair k) (table_reason (build_item_property_bag props q) k a)) criteria)
    \<and> matches_stock_criteria props q criteria = Inr (\<forall>(k, a) \<in> set criteria. table_reason (build_item_property_bag props q) k a = None)"
proof -
  let ?bag = "build_item_property_bag props q"
  let ?t = "\<lambda>(k, a). map_option (Pair k) (table_reason ?bag k a)"
  have each: "\<exists>f. evaluate_criterion ?bag p = Inr f \<and> map_option verdict_of f = ?t p" if "p \<in> set criteria" for p
    using criterion_follows_table [OF refl _ assms(2)] assms(1) that by (cases p) auto
  have "\<exists>results. rmap (evaluate_criterion ?bag) criteria = Inr results \<and> map (map_option verdict_of) results = map ?t criteria"
    using each
  proof (induction criteria)
    case (Cons p ps)
    then obtain f results where "evaluate_criterion ?bag p = Inr f" "map_option verdict_of f = ?t p"
        "rmap (evaluate_criterion ?bag) ps = Inr results" "map (map_option verdict_of) results = map ?t ps" by fastforce
    then show ?case by (intro exI [of _ "f # results"]) simp
  qed simp
  then obtain results where run: "rmap (evaluate_criterion ?bag) criteria = Inr results"
      and same: "map (map_option verdict_of) results = map ?t criteria" by blast
  have "map verdict_of (List.map_filter id results) = List.map_filter id (map (map_option verdict_of) results)"
    by (induction results) (auto simp: List.map_filter_def split: option.splits)
  also have "\<dots> = List.map_filter ?t criteria" unfolding same by (induction criteria) (simp_all add: List.map_filter_def)
  finally have verdicts: "map verdict_of (List.map_filter id results) = List.map_filter ?t criteria" .
  have "map verdict_of (sort_key failure_key (List.map_filter id results)) = sort_key fst (List.map_filter ?t criteria)"
    unfolding verdicts [symmetric] by (rule sym) (rule sort_key_map_key, simp add: verdict_of_def)
  moreover have "sort_key failure_key (List.map_filter id results) = [] \<longleftrightarrow> List.map_filter id results = []"
    by (metis length_0_conv length_sort)
  moreover have "List.map_filter id results = [] \<longleftrightarrow> (\<forall>(k, a) \<in> set criteria. table_reason ?bag k a = None)"
    using arg_cong [OF verdicts, of "\<lambda>xs. xs = []"] by (auto simp: List.map_filter_def filter_empty_conv)
  ultimately show ?thesis using run by (simp only: evaluate_stock_criteria_def matches_stock_criteria_def rbind_Inr) blast
qed

definition teak_chair :: "(string \<times> json) list" where
  "teak_chair = [(''material_type'', JStr ''Teak''), (''shape'', JStr ''Squared / high''), (''drawers_qty'', JInt 0)]"

theorem matcher_follows_table_witness:
  "matches_stock_criteria (Some teak_chair) 6 [(''wood_group'', JArr [JStr ''teak'']), (''shape'', JArr [JStr ''round'', JStr ''square''])] = Inr True
   \<and> matches_stock_criteria (Some teak_chair) 6 [(''drawers_range'', JNull), (''quantity'', JArr [JStr ''6''])] = Inr False"
proof -
  let ?bag = "build_item_property_bag (Some teak_chair) 6"
  have "list_all (\<lambda>(k, v). tokenize_property_value v \<noteq> []) ?bag" by code_simp
  then have tokens: "tokenful ?bag" by (auto simp: tokenful_def list_all_iff dest!: map_of_SomeD)
  have "table_reason ?bag ''wood_group'' (JArr [JStr ''teak'']) = None" "table_reason ?bag ''shape'' (JArr [JStr ''round'', JStr ''square'']) = None"
      "table_reason ?bag ''drawers_range'' JNull = Some NO_GROUP_FOR_VALUE"
    by code_simp+
  then show ?thesis
    using matcher_follows_table [OF _ tokens, of "[(''wood_group'', JArr [JStr ''teak'']), (''shape'', JArr [JStr ''round'', JStr ''square''])]"]
      matcher_follows_table [OF _ tokens, of "[(''drawers_range'', JNull), (''quantity'', JArr [JStr ''6''])]"]
    by (auto simp: understood_def)
qed

text \<open>A criterion under which \<open>token in accepted\<close> is evaluated although it is no container: a number or a boolean, on an item
  that holds a token under the key.\<close>

definition scalar_met :: "bag \<Rightarrow> string \<times> json \<Rightarrow> bool" where
  "scalar_met bag p = (case p of (key, a) \<Rightarrow>
     (case a of JInt _ \<Rightarrow> True | JBool _ \<Rightarrow> True | _ \<Rightarrow> False)
     \<and> (case map_of bag key of None \<Rightarrow> False | Some v \<Rightarrow> item_tokens key v \<noteq> []))"

abbreviation not_iterable :: exc where
  "not_iterable \<equiv> TypeError ''argument is not iterable''"

lemma any_accepted_container:
  assumes "\<not> (case a of JInt _ \<Rightarrow> True | JBool _ \<Rightarrow> True | JNull \<Rightarrow> True | _ \<Rightarrow> False)"
  shows "\<exists>found. any_accepted a ts = Inr found"
proof (induction ts)
  case (Cons t ts)
  have "\<exists>b. token_in t a = Inr b" using assms by (cases a) simp_all
  then obtain b where "token_in t a = Inr b" ..
  moreover obtain found where "any_accepted a ts = Inr found" using Cons.IH ..
  ultimately show ?case by (cases b) auto
qed auto

lemma criterion_raises:
  "if scalar_met bag p then evaluate_criterion bag p = Inl not_iterable else \<exists>f. evaluate_criterion bag p = Inr f"
proof -
  obtain key a where p: "p = (key, a)" by (cases p)
  show ?thesis
  proof (cases "map_of bag key")
    case None
    then show ?thesis by (simp add: p scalar_met_def evaluate_criterion_def Let_def split: option.split)
  next
    case (Some v)
    show ?thesis
    proof (cases "item_tokens key v = [] \<or> a = JArr [] \<or> a = JNull")
      case True
      then show ?thesis using Some by (auto simp: p scalar_met_def evaluate_criterion_def Let_def)
    next
      case False
      then obtain t ts where ts: "item_tokens key v = t # ts" by (cases "item_tokens key v") auto
      show ?thesis
      proof (cases "scalar_met bag p")
        case True
        then have "any_accepted a (t # ts) = Inl not_iterable" by (cases a) (simp_all add: p scalar_met_def)
        then show ?thesis using True False Some ts by (simp add: p evaluate_criterion_def del: any_accepted.simps)
      next
        case False2: False
        then have "\<not> (case a of JInt _ \<Rightarrow> True | JBool _ \<Rightarrow> True | JNull \<Rightarrow> True | _ \<Rightarrow> False)"
          using False Some ts by (auto simp: p scalar_met_def split: json.splits)
        then obtain found where "any_accepted a (t # ts) = Inr found" using any_accepted_container by blast
        then show ?thesis using False False2 Some ts by (simp add: p evaluate_criterion_def del: any_accepted.simps)
      qed
    qed
  qed
qed

text \<open>When the matcher raises. For every item and every criteria, whatever their shapes, the evaluation and the match raise
  \<open>TypeError\<close> exactly when some criterion is a number or a boolean and the item holds a token under its key; in every other
  case the evaluation returns its failures, and the item matches exactly when there are none.\<close>

lemma scalar_criterion_raises:
  "if list_ex (scalar_met (build_item_property_bag props q)) criteria
   then evaluate_stock_criteria props q criteria = Inl not_iterable \<and> matches_stock_criteria props q criteria = Inl not_iterable
   else \<exists>failures. evaluate_stock_criteria props q criteria = Inr failures \<and> matches_stock_criteria props q criteria = Inr (failures = [])"
proof -
  let ?bag = "build_item_property_bag props q"
  have "if list_ex (scalar_met ?bag) criteria then rmap (evaluate_criterion ?bag) criteria = Inl not_iterable
    else \<exists>results. rmap (evaluate_criterion ?bag) criteria = Inr results"
  proof (induction criteria)
    case (Cons p ps)
    then show ?case using criterion_raises [of ?bag p] by (auto split: if_splits)
  qed simp
  then show ?thesis by (auto simp: evaluate_stock_criteria_def matches_stock_criteria_def split: if_splits)
qed

lemma scalar_criterion_raises_witness:
  "matches_stock_criteria (Some [(''seats'', JInt 4)]) 1 [(''shape'', JNull), (''seats'', JInt 4)] = Inl not_iterable
   \<and> (\<exists>failures. evaluate_stock_criteria (Some [(''seats'', JStr ''  '')]) 1 [(''seats'', JInt 4)] = Inr failures
       \<and> matches_stock_criteria (Some [(''seats'', JStr ''  '')]) 1 [(''seats'', JInt 4)] = Inr (failures = []))"
proof -
  have "list_ex (scalar_met (build_item_property_bag (Some [(''seats'', JInt 4)]) 1)) [(''shape'', JNull), (''seats'', JInt 4)]"
    "\<not> list_ex (scalar_met (build_item_property_bag (Some [(''seats'', JStr ''  '')]) 1)) [(''seats'', JInt 4)]" by code_simp+
  then show ?thesis
    using scalar_criterion_raises [of "Some [(''seats'', JInt 4)]" 1 "[(''shape'', JNull), (''seats'', JInt 4)]"]
      scalar_criterion_raises [of "Some [(''seats'', JStr ''  '')]" 1 "[(''seats'', JInt 4)]"] by argo
qed

text \<open>Where the matcher leaves its table. A criterion that is a number makes the evaluation raise on every item that has the
  property, where the table reports it as not understood; an object and a blank string are reported as values not
  accepted, and an object even accepts the names of its keys. A wildcard passes on a value without a token, and a
  wood type without one is reported as a value outside the groups, where the table says missing for both.\<close>

lemma matcher_leaves_table:
  "evaluate_stock_criteria (Some [(''seats'', JInt 4)]) 1 [(''seats'', JInt 4)] = Inl (TypeError ''argument is not iterable'')
   \<and> table_reason (build_item_property_bag (Some [(''seats'', JInt 4)]) 1) ''seats'' (JInt 4) = Some CRITERION_NOT_UNDERSTOOD
   \<and> matches_stock_criteria (Some [(''seats'', JInt 4)]) 1 [(''seats'', JObj [(''4'', JNull)])] = Inr True
   \<and> table_reason (build_item_property_bag (Some [(''seats'', JInt 4)]) 1) ''seats'' (JObj [(''4'', JNull)]) = Some CRITERION_NOT_UNDERSTOOD
   \<and> matches_stock_criteria (Some [(''shape'', JStr '', /'')]) 1 [(''shape'', JNull)] = Inr True
   \<and> table_reason (build_item_property_bag (Some [(''shape'', JStr '', /'')]) 1) ''shape'' JNull = Some MISSING_ON_ITEM
   \<and> rbind (evaluate_stock_criteria (Some [(''wood_type'', JStr '','')]) 1 [(''wood_group'', JNull)]) (\<lambda>fs. Inr (map verdict_of fs))
       = Inr [(''wood_group'', NO_GROUP_FOR_VALUE)]
   \<and> table_reason (build_item_property_bag (Some [(''wood_type'', JStr '','')]) 1) ''wood_group'' JNull = Some MISSING_ON_ITEM"
  by code_simp

end
