(* ===== verification/StockRequests.thy ===== *)
theory StockRequests
  imports StockMatching
begin

text \<open>
  The bodies of the three webhooks of the stock report (\<open>stock_demand_request.py\<close>, \<open>stock_demand_deleted_request.py\<close>,
  \<open>items_processed_request.py\<close> and the entries of \<open>stock_demand_entries.py\<close>, all under
  \<open>services/commands/stock_report/\<close>) and their authentication
  (\<open>services/infra/location_tracker/webhook_verifier.py\<close>). A parser collects the defects of every entry before it
  raises. The bytes of a body stand for what \<open>raw.decode("utf-8")\<close> and \<open>json.loads\<close> make of them, and an object
  has each key once.
\<close>

section \<open>Authentication\<close>

definition verify_location_tracker_webhook :: "string option \<Rightarrow> string option \<Rightarrow> (string \<times> string) list \<Rightarrow> string result" where
  \<comment> \<open>the two settings and the headers\<close>
  "verify_location_tracker_webhook api_key workspace_id headers =
     (case api_key of
        None \<Rightarrow> Inl LocationTrackerWebhookAuthError
      | Some key \<Rightarrow>
          rbind (rguard (strip key \<noteq> []) LocationTrackerWebhookAuthError) (\<lambda>_.
          case workspace_id of
            None \<Rightarrow> Inl LocationTrackerWebhookAuthError
          | Some w \<Rightarrow>
              rbind (rguard (strip w \<noteq> []) LocationTrackerWebhookAuthError) (\<lambda>_.
              case map_of headers ''x-api-key'' of
                None \<Rightarrow> Inl LocationTrackerWebhookAuthError
              | Some provided \<Rightarrow> rbind (rguard (provided = key) LocationTrackerWebhookAuthError) (\<lambda>_. Inr w))))"

section \<open>The body\<close>

datatype request_body = NotUtf8 | NotJson | JsonBody json

definition body_items :: "request_body \<Rightarrow> json list result" where
  "body_items raw =
     (case raw of
        NotUtf8 \<Rightarrow> Inl (ValidationError ''Malformed request: body is not valid UTF-8 JSON.'')
      | NotJson \<Rightarrow> Inl (ValidationError ''Malformed request: body is not valid JSON.'')
      | JsonBody payload \<Rightarrow>
          (case payload of
             JArr (x # xs) \<Rightarrow> Inr (x # xs)
           | _ \<Rightarrow> Inl (ValidationError ''Malformed request: body must be a JSON array with at least one entry.'')))"

definition json_get :: "string \<Rightarrow> (string \<times> json) list \<Rightarrow> json" where
  \<comment> \<open>\<open>item.get(key)\<close>\<close>
  "json_get k obj = (case map_of obj k of None \<Rightarrow> JNull | Some v \<Rightarrow> v)"

definition entry_defect :: "nat \<Rightarrow> string \<Rightarrow> string" where
  "entry_defect i what = ''entry '' @ show_nat i @ '': '' @ what"

definition malformed :: "string list \<Rightarrow> exc" where
  "malformed defects = ValidationError (''Malformed request: '' @ intercalate ''; '' defects @ ''.'')"

section \<open>Entries\<close>

record demand_delete_entry =
  demand_index :: nat
  item_category_raw :: string
  item_category_key :: string
  properties_raw :: "(string \<times> json) list"
  properties_normalized :: "(string \<times> json) list"
  properties_signature :: string

record demand_entry = demand_delete_entry +
  quantity_requested :: int

definition MAX_QUANTITY_REQUESTED :: int where
  "MAX_QUANTITY_REQUESTED = 2147483647"

fun category_ok :: "json \<Rightarrow> bool" where
  "category_ok (JStr s) \<longleftrightarrow> strip s \<noteq> []"
| "category_ok _ \<longleftrightarrow> False"

fun properties_ok :: "json \<Rightarrow> bool" where
  "properties_ok (JObj _) \<longleftrightarrow> True"
| "properties_ok _ \<longleftrightarrow> False"

fun quantity_ok :: "json \<Rightarrow> bool" where
  "quantity_ok (JInt n) \<longleftrightarrow> 0 \<le> n \<and> n \<le> MAX_QUANTITY_REQUESTED"
| "quantity_ok _ \<longleftrightarrow> False"

fun str_of :: "json \<Rightarrow> string" where
  "str_of (JStr s) = s"
| "str_of _ = []"

fun obj_of :: "json \<Rightarrow> (string \<times> json) list" where
  "obj_of (JObj ps) = ps"
| "obj_of _ = []"

fun int_of :: "json \<Rightarrow> int" where
  "int_of (JInt n) = n"
| "int_of _ = 0"

text \<open>One entry: its defects, or what it says. The identity is the normalised key of the category and the signature.\<close>

definition shape_defects :: "nat \<Rightarrow> (string \<times> json) list \<Rightarrow> string list" where
  "shape_defects i item =
     (if category_ok (json_get ''itemCategory'' item) then []
      else [entry_defect i ''itemCategory must be a non-blank string''])
     @ (if properties_ok (json_get ''properties'' item) then [] else [entry_defect i ''properties must be an object''])"

definition quantity_defects :: "nat \<Rightarrow> (string \<times> json) list \<Rightarrow> string list" where
  "quantity_defects i item =
     (if quantity_ok (json_get ''quantityRequested'' item) then []
      else [entry_defect i ''quantityRequested must be an integer between 0 and 2147483647''])"

definition delete_entry_of :: "(string \<Rightarrow> string) \<Rightarrow> nat \<Rightarrow> (string \<times> json) list \<Rightarrow> demand_delete_entry" where
  "delete_entry_of digest i item =
     (let raw = obj_of (json_get ''properties'' item); category = str_of (json_get ''itemCategory'' item) in
      \<lparr>demand_index = i, item_category_raw = category, item_category_key = lower (strip category), properties_raw = raw,
       properties_normalized = normalize_stock_criteria raw, properties_signature = compute_stock_criteria_signature digest raw\<rparr>)"

definition demand_entry_of :: "(string \<Rightarrow> string) \<Rightarrow> nat \<Rightarrow> (string \<times> json) list \<Rightarrow> demand_entry" where
  "demand_entry_of digest i item =
     demand_delete_entry.extend (delete_entry_of digest i item) \<lparr>quantity_requested = int_of (json_get ''quantityRequested'' item)\<rparr>"

section \<open>The parsers\<close>

type_synonym 'e collected = "string list \<times> 'e list \<times> ((string \<times> string) \<times> nat) list"

definition same_identity :: "nat \<Rightarrow> nat \<Rightarrow> string" where
  "same_identity j i = ''entries '' @ show_nat j @ '' and '' @ show_nat i @ '' resolve to the same identity''"

definition collect_entry ::
    "(nat \<Rightarrow> (string \<times> json) list \<Rightarrow> string list) \<Rightarrow> (nat \<Rightarrow> (string \<times> json) list \<Rightarrow> 'e) \<Rightarrow> ('e \<Rightarrow> string \<times> string)
      \<Rightarrow> 'e collected \<Rightarrow> nat \<times> json \<Rightarrow> 'e collected" where
  "collect_entry check build identity acc p =
     (case acc of (defects, entries, first_index) \<Rightarrow> case p of (i, item) \<Rightarrow>
        case item of
          JObj obj \<Rightarrow>
            if check i obj \<noteq> [] then (defects @ check i obj, entries, first_index)
            else let e = build i obj in
              (case map_of first_index (identity e) of
                 Some j \<Rightarrow> (defects @ [same_identity j i], entries @ [e], first_index)
               | None \<Rightarrow> (defects, entries @ [e], AList.update (identity e) i first_index))
        | _ \<Rightarrow> (defects @ [entry_defect i ''must be an object''], entries, first_index))"

definition parse_entries ::
    "(nat \<Rightarrow> (string \<times> json) list \<Rightarrow> string list) \<Rightarrow> (nat \<Rightarrow> (string \<times> json) list \<Rightarrow> 'e) \<Rightarrow> ('e \<Rightarrow> string \<times> string)
      \<Rightarrow> request_body \<Rightarrow> 'e list result" where
  "parse_entries check build identity raw =
     rbind (body_items raw) (\<lambda>items.
     case foldl (collect_entry check build identity) ([], [], []) (enumerate 0 items) of (defects, entries, _) \<Rightarrow>
       rbind (rguard (defects = []) (malformed defects)) (\<lambda>_. Inr entries))"

definition demand_defects :: "nat \<Rightarrow> (string \<times> json) list \<Rightarrow> string list" where
  "demand_defects i item = shape_defects i item @ quantity_defects i item"

definition demand_identity :: "'a demand_delete_entry_scheme \<Rightarrow> string \<times> string" where
  "demand_identity e = (item_category_key e, properties_signature e)"

definition parse_stock_demand_body :: "(string \<Rightarrow> string) \<Rightarrow> request_body \<Rightarrow> demand_entry list result" where
  "parse_stock_demand_body digest = parse_entries demand_defects (demand_entry_of digest) demand_identity"

definition parse_stock_demand_deleted_body :: "(string \<Rightarrow> string) \<Rightarrow> request_body \<Rightarrow> demand_delete_entry list result" where
  "parse_stock_demand_deleted_body digest = parse_entries shape_defects (delete_entry_of digest) demand_identity"

definition collect_number :: "string list \<times> string list \<Rightarrow> nat \<times> json \<Rightarrow> string list \<times> string list" where
  "collect_number acc p =
     (case acc of (defects, numbers) \<Rightarrow> case p of (i, item) \<Rightarrow>
        case item of
          JObj obj \<Rightarrow>
            (case json_get ''article_number'' obj of
               JStr s \<Rightarrow>
                 if strip s \<noteq> [] then (defects, numbers @ [s])
                 else (defects @ [entry_defect i ''article_number must be a non-blank string''], numbers)
             | _ \<Rightarrow> (defects @ [entry_defect i ''article_number must be a non-blank string''], numbers))
        | _ \<Rightarrow> (defects @ [entry_defect i ''must be an object''], numbers))"

definition parse_items_processed_body :: "request_body \<Rightarrow> string list result" where
  "parse_items_processed_body raw =
     rbind (body_items raw) (\<lambda>items.
     case foldl collect_number ([], []) (enumerate 0 items) of (defects, numbers) \<Rightarrow>
       rbind (rguard (defects = []) (malformed defects)) (\<lambda>_. Inr numbers))"


section \<open>What a parser reports\<close>

definition entry_at :: "(nat \<Rightarrow> (string \<times> json) list \<Rightarrow> string list) \<Rightarrow> (nat \<Rightarrow> (string \<times> json) list \<Rightarrow> 'e) \<Rightarrow> nat \<Rightarrow> json \<Rightarrow> 'e option" where
  "entry_at check build i item = (case item of JObj obj \<Rightarrow> if check i obj = [] then Some (build i obj) else None | _ \<Rightarrow> None)"

definition identity_at :: "(nat \<Rightarrow> (string \<times> json) list \<Rightarrow> string list) \<Rightarrow> (nat \<Rightarrow> (string \<times> json) list \<Rightarrow> 'e) \<Rightarrow> ('e \<Rightarrow> string \<times> string)
    \<Rightarrow> nat \<Rightarrow> json \<Rightarrow> (string \<times> string) option" where
  "identity_at check build identity i item = map_option identity (entry_at check build i item)"

definition first_with :: "(nat \<Rightarrow> (string \<times> json) list \<Rightarrow> string list) \<Rightarrow> (nat \<Rightarrow> (string \<times> json) list \<Rightarrow> 'e) \<Rightarrow> ('e \<Rightarrow> string \<times> string)
    \<Rightarrow> json list \<Rightarrow> string \<times> string \<Rightarrow> nat option" where
  \<comment> \<open>the first entry of the list that reads well and has the identity\<close>
  "first_with check build identity items k =
     List.find (\<lambda>j. identity_at check build identity j (items ! j) = Some k) [0..<length items]"

definition defects_at :: "(nat \<Rightarrow> (string \<times> json) list \<Rightarrow> string list) \<Rightarrow> (nat \<Rightarrow> (string \<times> json) list \<Rightarrow> 'e) \<Rightarrow> ('e \<Rightarrow> string \<times> string)
    \<Rightarrow> json list \<Rightarrow> nat \<Rightarrow> string list" where
  "defects_at check build identity items i =
     (case items ! i of
        JObj obj \<Rightarrow>
          if check i obj \<noteq> [] then check i obj
          else (case first_with check build identity (take i items) (identity (build i obj)) of
                  None \<Rightarrow> [] | Some j \<Rightarrow> [same_identity j i])
      | _ \<Rightarrow> [entry_defect i ''must be an object''])"

lemma find_snoc: "List.find P (xs @ [x]) = (case List.find P xs of None \<Rightarrow> if P x then Some x else None | Some y \<Rightarrow> Some y)"
  by (induction xs) auto

lemma find_cong_list: "(\<And>x. x \<in> set xs \<Longrightarrow> P x = Q x) \<Longrightarrow> List.find P xs = List.find Q xs"
  by (induction xs) auto

lemma first_with_snoc:
  "first_with check build identity (items @ [item]) k = (case first_with check build identity items k of
     None \<Rightarrow> if identity_at check build identity (length items) item = Some k then Some (length items) else None
   | Some j \<Rightarrow> Some j)"
proof -
  have "List.find (\<lambda>j. identity_at check build identity j ((items @ [item]) ! j) = Some k) [0..<length items]
      = List.find (\<lambda>j. identity_at check build identity j (items ! j) = Some k) [0..<length items]"
    by (rule find_cong_list) (simp add: nth_append)
  then show ?thesis by (simp add: first_with_def find_snoc)
qed

lemma enumerate_snoc: "enumerate n (xs @ [x]) = enumerate n xs @ [(n + length xs, x)]"
  by (simp add: enumerate_append_eq)

lemma collect_step:
  assumes "map_of fi = first_with check build identity items"
  shows "\<exists>fi'. collect_entry check build identity (ds, es, fi) (length items, item)
      = (ds @ defects_at check build identity (items @ [item]) (length items),
         es @ (case entry_at check build (length items) item of None \<Rightarrow> [] | Some e \<Rightarrow> [e]), fi')
    \<and> map_of fi' = first_with check build identity (items @ [item])"
proof -
  have grow: "first_with check build identity (items @ [item]) = (case identity_at check build identity (length items) item of
       None \<Rightarrow> map_of fi
     | Some x \<Rightarrow> (case map_of fi x of None \<Rightarrow> (map_of fi)(x \<mapsto> length items) | Some _ \<Rightarrow> map_of fi))" for item
    by (rule ext) (auto simp: first_with_snoc assms [symmetric] split: option.split)
  show ?thesis
  proof (cases item)
    case (JObj obj)
    then show ?thesis
      by (cases "map_of fi (identity (build (length items) obj))")
        (auto simp: grow collect_entry_def entry_at_def identity_at_def defects_at_def assms [symmetric] Let_def update_conv')
  qed (auto simp: grow collect_entry_def entry_at_def identity_at_def defects_at_def)
qed

lemma collected:
  "\<exists>fi. foldl (collect_entry check build identity) ([], [], []) (enumerate 0 items)
      = (concat (map (defects_at check build identity items) [0..<length items]),
         List.map_filter (\<lambda>(i, item). entry_at check build i item) (enumerate 0 items), fi)
     \<and> map_of fi = first_with check build identity items"
proof (induction items rule: rev_induct)
  case Nil
  then show ?case by (simp add: first_with_def map_filter_simps fun_eq_iff)
next
  case (snoc item items)
  then obtain fi where fi: "foldl (collect_entry check build identity) ([], [], []) (enumerate 0 items)
      = (concat (map (defects_at check build identity items) [0..<length items]),
         List.map_filter (\<lambda>(i, item). entry_at check build i item) (enumerate 0 items), fi)"
    "map_of fi = first_with check build identity items" by blast
  have earlier: "map (defects_at check build identity (items @ [item])) [0..<length items] = map (defects_at check build identity items) [0..<length items]"
  proof (rule map_cong [OF refl])
    fix i assume "i \<in> set [0..<length items]"
    then have i: "take i (items @ [item]) = take i items" "(items @ [item]) ! i = items ! i" by (simp_all add: nth_append)
    show "defects_at check build identity (items @ [item]) i = defects_at check build identity items i" unfolding defects_at_def i by (rule refl)
  qed
  have last_entry: "List.map_filter f (xs @ [x]) = List.map_filter f xs @ (case f x of None \<Rightarrow> [] | Some y \<Rightarrow> [y])" for f :: "nat \<times> json \<Rightarrow> 'a option" and xs x
    by (induction xs) (auto simp: List.map_filter_def split: option.splits)
  from collect_step [OF fi(2)] show ?case
    by (auto simp: enumerate_snoc fi(1) earlier last_entry)
qed


definition reads :: "((string \<times> json) list \<Rightarrow> bool) \<Rightarrow> json \<Rightarrow> bool" where
  "reads ok item = (case item of JObj obj \<Rightarrow> ok obj | _ \<Rightarrow> False)"

lemma first_with_None: "first_with check build identity items k = None \<longleftrightarrow> (\<forall>j < length items. identity_at check build identity j (items ! j) \<noteq> Some k)"
  by (auto simp: first_with_def find_None_iff)

lemma none_earlier: "(case first_with check build identity items k of None \<Rightarrow> [] | Some j \<Rightarrow> [f j]) = []
    \<longleftrightarrow> (\<forall>j < length items. identity_at check build identity j (items ! j) \<noteq> Some k)"
  by (simp add: first_with_None [symmetric] split: option.split)

text \<open>What a parser of entries relies on: the shape and the identity of an entry do not depend on its place.\<close>

locale entry_parser =
  fixes check :: "nat \<Rightarrow> (string \<times> json) list \<Rightarrow> string list" and build :: "nat \<Rightarrow> (string \<times> json) list \<Rightarrow> 'e"
    and identity :: "'e \<Rightarrow> string \<times> string" and ok :: "(string \<times> json) list \<Rightarrow> bool" and ident :: "(string \<times> json) list \<Rightarrow> string \<times> string"
  assumes check_ok: "check i obj = [] \<longleftrightarrow> ok obj" and built: "identity (build i obj) = ident obj"
begin

definition report :: "json list \<Rightarrow> string list" where
  "report items = concat (map (defects_at check build identity items) [0..<length items])"

lemma identity_of_read: "reads ok item \<Longrightarrow> identity_at check build identity i item = Some (ident (obj_of item))"
  by (auto simp: reads_def identity_at_def entry_at_def check_ok built split: json.splits)

lemma no_defects_at:
  "i < length items \<Longrightarrow> defects_at check build identity items i = [] \<longleftrightarrow>
     reads ok (items ! i) \<and> (\<forall>j < i. identity_at check build identity j (items ! j) \<noteq> Some (ident (obj_of (items ! i))))"
  by (cases "items ! i") (simp_all add: defects_at_def reads_def check_ok built none_earlier)

lemma report_empty: "report items = [] \<longleftrightarrow> list_all (reads ok) items \<and> distinct (map (\<lambda>item. ident (obj_of item)) items)"
proof -
  have "report items = [] \<longleftrightarrow> (\<forall>i < length items. defects_at check build identity items i = [])"
    by (auto simp: report_def)
  also have "\<dots> \<longleftrightarrow> (\<forall>i < length items. reads ok (items ! i)
      \<and> (\<forall>j < i. identity_at check build identity j (items ! j) \<noteq> Some (ident (obj_of (items ! i)))))"
    by (simp add: no_defects_at cong: imp_cong)
  also have "\<dots> \<longleftrightarrow> (\<forall>i < length items. reads ok (items ! i) \<and> (\<forall>j < i. ident (obj_of (items ! j)) \<noteq> ident (obj_of (items ! i))))"
    using identity_of_read by (metis (no_types, lifting) option.inject order.strict_trans)
  also have "\<dots> \<longleftrightarrow> list_all (reads ok) items \<and> distinct (map (\<lambda>item. ident (obj_of item)) items)"
    by (auto simp: list_all_length distinct_conv_nth) (metis linorder_neqE_nat)
  finally show ?thesis .
qed

lemma read_entries: "list_all (reads ok) items \<Longrightarrow>
    List.map_filter (\<lambda>(i, item). entry_at check build i item) (enumerate n items) = map (\<lambda>(i, item). build i (obj_of item)) (enumerate n items)"
proof (induction items arbitrary: n)
  case (Cons item items)
  from Cons.prems have "entry_at check build n item = Some (build n (obj_of item))"
    by (auto simp: reads_def entry_at_def check_ok split: json.splits)
  with Cons show ?case by (simp add: map_filter_simps)
qed (simp add: map_filter_simps)

lemma parse_reports:
  assumes "items \<noteq> []"
  shows "parse_entries check build identity (JsonBody (JArr items)) =
    (if report items = [] then Inr (map (\<lambda>(i, item). build i (obj_of item)) (enumerate 0 items)) else Inl (malformed (report items)))"
proof -
  obtain fi where "foldl (collect_entry check build identity) ([], [], []) (enumerate 0 items)
      = (report items, List.map_filter (\<lambda>(i, item). entry_at check build i item) (enumerate 0 items), fi)"
    using collected unfolding report_def by blast
  moreover have "body_items (JsonBody (JArr items)) = Inr items" using assms by (cases items) (simp_all add: body_items_def)
  ultimately show ?thesis
    by (simp add: parse_entries_def rguard_def read_entries report_empty)
qed

end


definition entry_identity :: "(string \<Rightarrow> string) \<Rightarrow> (string \<times> json) list \<Rightarrow> string \<times> string" where
  "entry_identity digest obj = (lower (strip (str_of (json_get ''itemCategory'' obj))),
     compute_stock_criteria_signature digest (obj_of (json_get ''properties'' obj)))"

definition delete_ok :: "(string \<times> json) list \<Rightarrow> bool" where
  "delete_ok obj \<longleftrightarrow> category_ok (json_get ''itemCategory'' obj) \<and> properties_ok (json_get ''properties'' obj)"

definition demand_ok :: "(string \<times> json) list \<Rightarrow> bool" where
  "demand_ok obj \<longleftrightarrow> delete_ok obj \<and> quantity_ok (json_get ''quantityRequested'' obj)"

lemma identity_of_entry:
  "demand_identity (delete_entry_of digest i obj) = entry_identity digest obj" "demand_identity (demand_entry_of digest i obj) = entry_identity digest obj"
  by (simp_all add: demand_identity_def delete_entry_of_def demand_entry_of_def entry_identity_def Let_def demand_delete_entry.defs)

interpretation demand: entry_parser demand_defects "demand_entry_of digest" demand_identity demand_ok "entry_identity digest" for digest
  by unfold_locales (auto simp: demand_defects_def shape_defects_def quantity_defects_def demand_ok_def delete_ok_def identity_of_entry)

interpretation deleted: entry_parser shape_defects "delete_entry_of digest" demand_identity delete_ok "entry_identity digest" for digest
  by unfold_locales (auto simp: shape_defects_def delete_ok_def identity_of_entry)

definition body_defects :: "(string \<Rightarrow> string) \<Rightarrow> json list \<Rightarrow> string list" where
  "body_defects digest items = concat (map (defects_at demand_defects (demand_entry_of digest) demand_identity items) [0..<length items])"

text \<open>C36: the parser of the demand webhook reads a body exactly when every entry is well shaped and no two entries have the
  same identity up to the spelling of the category and the criteria; then it returns every entry in order. Otherwise its
  single error names the defects of every entry, a repeated identity with the first entry that has it.\<close>

theorem demand_body_reports_every_defect:
  assumes "items \<noteq> []"
  shows "parse_stock_demand_body digest (JsonBody (JArr items)) =
      (if list_all (reads demand_ok) items \<and> distinct (map (\<lambda>item. entry_identity digest (obj_of item)) items)
       then Inr (map (\<lambda>(i, item). demand_entry_of digest i (obj_of item)) (enumerate 0 items))
       else Inl (malformed (body_defects digest items)))
    \<and> (\<forall>i < length items. defects_at demand_defects (demand_entry_of digest) demand_identity items i \<noteq> [] \<longleftrightarrow>
         \<not> reads demand_ok (items ! i) \<or> (\<exists>j < i. reads demand_ok (items ! j)
           \<and> entry_identity digest (obj_of (items ! j)) = entry_identity digest (obj_of (items ! i))))"
proof -
  have at: "identity_at demand_defects (demand_entry_of digest) demand_identity j item
      = (if reads demand_ok item then Some (entry_identity digest (obj_of item)) else None)" for j item
    by (cases item) (auto simp: identity_at_def entry_at_def reads_def demand.check_ok identity_of_entry)
  show ?thesis
    using demand.parse_reports [OF assms] demand.report_empty [of digest items]
    by (auto simp: parse_stock_demand_body_def body_defects_def demand.report_def demand.no_defects_at at)
qed

lemma deleted_body_reports:
  assumes "items \<noteq> []"
  shows "parse_stock_demand_deleted_body digest (JsonBody (JArr items)) =
    (if list_all (reads delete_ok) items \<and> distinct (map (\<lambda>item. entry_identity digest (obj_of item)) items)
     then Inr (map (\<lambda>(i, item). delete_entry_of digest i (obj_of item)) (enumerate 0 items))
     else Inl (malformed (concat (map (defects_at shape_defects (delete_entry_of digest) demand_identity items) [0..<length items]))))"
  using deleted.parse_reports [OF assms] deleted.report_empty [of digest items]
  by (simp add: parse_stock_demand_deleted_body_def deleted.report_def)

lemma body_not_array:
  "(\<And>items. payload \<noteq> JArr items \<or> items = []) \<Longrightarrow> parse_stock_demand_body digest (JsonBody payload)
     = Inl (ValidationError ''Malformed request: body must be a JSON array with at least one entry.'')"
  by (cases payload) (auto simp: parse_stock_demand_body_def parse_entries_def body_items_def split: list.splits)

lemma parsed_distinct:
  assumes "parse_stock_demand_body digest raw = Inr es"
  shows "distinct (map demand_identity es)" "\<forall>e \<in> set es. item_category_key e = lower (strip (item_category_raw e)) \<and> 0 \<le> quantity_requested e"
proof -
  from assms obtain items where raw: "raw = JsonBody (JArr items)" "items \<noteq> []"
    by (auto simp: parse_stock_demand_body_def parse_entries_def body_items_def split: request_body.splits json.splits list.splits)
  then have ok: "list_all (reads demand_ok) items" "distinct (map (\<lambda>item. entry_identity digest (obj_of item)) items)"
    and es: "es = map (\<lambda>(i, item). demand_entry_of digest i (obj_of item)) (enumerate 0 items)"
    using demand.parse_reports [OF raw(2), of digest] demand.report_empty [of digest items] assms
    by (simp_all add: parse_stock_demand_body_def split: if_splits)
  have "map demand_identity es = map (\<lambda>item. entry_identity digest (obj_of item)) items"
    using map_map [of "\<lambda>item. entry_identity digest (obj_of item)" snd "enumerate 0 items"]
    by (simp add: es comp_def split_def identity_of_entry)
  then show "distinct (map demand_identity es)" using ok(2) by simp
  have nonneg: "0 \<le> int_of (json_get ''quantityRequested'' obj)" if "demand_ok obj" for obj
    using that by (cases "json_get ''quantityRequested'' obj") (auto simp: demand_ok_def)
  have read: "demand_ok (obj_of item)" if "item \<in> set items" for item
    using ok(1) that by (cases item) (auto simp: list_all_iff reads_def dest!: bspec)
  show "\<forall>e \<in> set es. item_category_key e = lower (strip (item_category_raw e)) \<and> 0 \<le> quantity_requested e"
  proof
    fix e assume "e \<in> set es"
    then obtain i where "i < length items" "e = demand_entry_of digest i (obj_of (items ! i))"
      by (auto simp: es in_set_enumerate_eq)
    then show "item_category_key e = lower (strip (item_category_raw e)) \<and> 0 \<le> quantity_requested e"
      using nonneg [OF read [OF nth_mem]] by (simp add: demand_entry_of_def delete_entry_of_def Let_def demand_delete_entry.defs)
  qed
qed


text \<open>The processed webhook: article numbers as received, repeated ones included.\<close>

definition number_ok :: "(string \<times> json) list \<Rightarrow> bool" where
  "number_ok obj = category_ok (json_get ''article_number'' obj)"

definition number_defects :: "nat \<Rightarrow> json \<Rightarrow> string list" where
  "number_defects i item =
     (case item of
        JObj obj \<Rightarrow> if number_ok obj then [] else [entry_defect i ''article_number must be a non-blank string'']
      | _ \<Rightarrow> [entry_defect i ''must be an object''])"

lemma collected_numbers:
  "foldl collect_number (ds, ns) (enumerate n items) =
     (ds @ concat (map (\<lambda>(i, item). number_defects i item) (enumerate n items)),
      ns @ map (\<lambda>item. str_of (json_get ''article_number'' (obj_of item))) (filter (reads number_ok) items))"
proof (induction items arbitrary: n ds ns)
  case (Cons item items)
  have "collect_number (ds, ns) (n, item) = (ds @ number_defects n item,
      ns @ (if reads number_ok item then [str_of (json_get ''article_number'' (obj_of item))] else []))"
  proof (cases item)
    case (JObj obj)
    then show ?thesis
      by (cases "json_get ''article_number'' obj") (simp_all add: collect_number_def number_defects_def reads_def number_ok_def)
  qed (simp_all add: collect_number_def number_defects_def reads_def)
  then show ?case by (simp add: Cons.IH)
qed simp

lemma processed_body_reports:
  assumes "items \<noteq> []"
  shows "parse_items_processed_body (JsonBody (JArr items)) =
    (let defects = concat (map (\<lambda>(i, item). number_defects i item) (enumerate 0 items)) in
     if defects = [] then Inr (map (\<lambda>item. str_of (json_get ''article_number'' (obj_of item))) items) else Inl (malformed defects))"
proof -
  have body: "body_items (JsonBody (JArr items)) = Inr items" using assms by (cases items) (simp_all add: body_items_def)
  have reads: "number_defects i item = [] \<longleftrightarrow> reads number_ok item" for i item
    by (cases item) (simp_all add: number_defects_def reads_def)
  have "filter (reads number_ok) items = items" if "concat (map (\<lambda>(i, item). number_defects i item) (enumerate 0 items)) = []"
  proof (rule filter_True, rule ballI)
    fix x assume "x \<in> set items"
    then obtain i where "i < length items" "items ! i = x" by (auto simp: in_set_conv_nth)
    then have "(i, x) \<in> set (enumerate 0 items)" by (simp add: in_set_enumerate_eq)
    with that have "number_defects i x = []" by auto
    then show "reads number_ok x" by (simp only: reads)
  qed
  then show ?thesis by (simp add: parse_items_processed_body_def body collected_numbers rguard_def Let_def)
qed

section \<open>An example\<close>

definition sample_item :: "string \<Rightarrow> string \<Rightarrow> int \<Rightarrow> json" where
  "sample_item category wood n = JObj [(''itemCategory'', JStr category), (''properties'', JObj [(''wood_group'', JStr wood)]), (''quantityRequested'', JInt n)]"

definition sample_items :: "json list" where
  "sample_items = [sample_item ''Chair'' ''Oak'' 3, JNull, sample_item '' chair '' ''oak '' 4, sample_item ''Table'' '''' (-1)]"

theorem demand_body_reports_every_defect_witness:
  "parse_stock_demand_body id (JsonBody (JArr sample_items)) = Inl (malformed [''entry 1: must be an object'',
     ''entries 0 and 2 resolve to the same identity'', ''entry 3: quantityRequested must be an integer between 0 and 2147483647''])"
proof -
  have "\<not> list_all (reads demand_ok) sample_items" "sample_items \<noteq> []"
    "body_defects id sample_items = [''entry 1: must be an object'', ''entries 0 and 2 resolve to the same identity'',
       ''entry 3: quantityRequested must be an integer between 0 and 2147483647'']" by code_simp+
  then show ?thesis using demand_body_reports_every_defect [of sample_items id] by simp
qed


end
