(* ===== verification/StockLedger.thy ===== *)
theory StockLedger
  imports StockStore
begin

text \<open>
  The ledger of the stock report: \<open>services/commands/stock_report/_move_assignment.py\<close>, \<open>_goal_credit.py\<close>,
  \<open>_snapshot_resolved.py\<close>, \<open>_snapshot_missing.py\<close>, \<open>_task_flag.py\<close> and the recomputations of
  \<open>services/queries/stock_report/consistency.py\<close>. A move changes the state of one assignment, the counters of its
  row by a guarded statement, and the goal record the assignment is credited to; a counter that would go
  negative is recomputed and the repair recorded. The events, and the row locks that order concurrent
  transactions, are left out.
\<close>

section \<open>Recomputation\<close>

definition counted :: "string \<Rightarrow> assignment_state \<Rightarrow> stock_assignment \<Rightarrow> bool" where
  "counted rid st a \<longleftrightarrow> assignment_row_id a = rid \<and> \<not> assignment_is_deleted a \<and> assignment_state a = st"

definition recompute_row_counters :: "stock_assignment list \<Rightarrow> string \<Rightarrow> counters" where
  "recompute_row_counters asgs rid =
     \<lparr>quantity_in_queue = column_total assignment_quantity (counted rid AsgIN_QUEUE) asgs,
      quantity_in_progress = column_total assignment_quantity (counted rid AsgIN_PROGRESS) asgs,
      quantity_awaiting = column_total assignment_quantity (counted rid AsgAWAITING) asgs\<rparr>"

definition recompute_goal_total :: "stock_assignment list \<Rightarrow> string \<Rightarrow> int" where
  "recompute_goal_total asgs hid = column_total assignment_quantity (\<lambda>a. credited_record_id a = Some hid) asgs"

definition expected_task_flag :: "stock_assignment list \<Rightarrow> string \<Rightarrow> bool" where
  "expected_task_flag asgs tid \<longleftrightarrow> (\<exists>a \<in> set asgs. assignment_task_id a = tid \<and> \<not> assignment_is_deleted a)"

section \<open>The move\<close>

datatype move_target = MoveTo assignment_state | AssignmentDELETE

text \<open>\<open>IllegalAssignmentMove\<close> is a \<open>RuntimeError\<close>.\<close>

definition assert_allowed_move :: "assignment_state option \<Rightarrow> move_target \<Rightarrow> bool \<Rightarrow> unit result" where
  "assert_allowed_move from_state target is_creation =
     (if is_creation
      then (case target of MoveTo t \<Rightarrow> rguard (t \<in> ACTIVE_ASSIGNMENT_STATES) (RuntimeError ''illegal creation move'')
            | AssignmentDELETE \<Rightarrow> Inl (RuntimeError ''illegal creation move''))
      else case target of
        AssignmentDELETE \<Rightarrow> Inr ()
      | MoveTo t \<Rightarrow>
          if from_state = Some t then Inr ()
          else if (case from_state of Some s \<Rightarrow> s \<in> TERMINAL_ASSIGNMENT_STATES | None \<Rightarrow> False)
            then Inl (RuntimeError ''illegal move from terminal state'')
          else if t \<in> ACTIVE_ASSIGNMENT_STATES then Inr ()
          else if t = AsgFAILED then Inr ()
          else if t = AsgRESOLVED
            then rguard (from_state = Some AsgAWAITING) (RuntimeError ''illegal move to resolved'')
          else if t = AsgRESOLVED_EARLY
            then rguard (from_state \<in> {Some AsgIN_QUEUE, Some AsgIN_PROGRESS}) (RuntimeError ''illegal move to resolved_early'')
          else Inl (RuntimeError ''illegal move''))"

definition no_counters :: counters where
  "no_counters = \<lparr>quantity_in_queue = 0, quantity_in_progress = 0, quantity_awaiting = 0\<rparr>"

text \<open>\<open>deltas[_COUNTER_COLUMN[state]] += q\<close>, for an active state.\<close>

fun add_to_column :: "assignment_state \<Rightarrow> int \<Rightarrow> counters \<Rightarrow> counters" where
  "add_to_column AsgIN_QUEUE q d = d\<lparr>quantity_in_queue := quantity_in_queue d + q\<rparr>"
| "add_to_column AsgIN_PROGRESS q d = d\<lparr>quantity_in_progress := quantity_in_progress d + q\<rparr>"
| "add_to_column AsgAWAITING q d = d\<lparr>quantity_awaiting := quantity_awaiting d + q\<rparr>"
| "add_to_column _ q d = d"

definition delta_vector :: "assignment_state option \<Rightarrow> move_target \<Rightarrow> int \<Rightarrow> bool \<Rightarrow> counters" where
  "delta_vector from_state target q is_creation =
     (let d = (case from_state of
          Some s \<Rightarrow> if \<not> is_creation \<and> s \<in> ACTIVE_ASSIGNMENT_STATES then add_to_column s (- q) no_counters else no_counters
        | None \<Rightarrow> no_counters) in
      case target of
        MoveTo t \<Rightarrow> if t \<in> ACTIVE_ASSIGNMENT_STATES then add_to_column t q d else d
      | AssignmentDELETE \<Rightarrow> d)"

definition add_counters :: "counters \<Rightarrow> 'a counters_scheme \<Rightarrow> 'a counters_scheme" where
  "add_counters d r = r\<lparr>quantity_in_queue := quantity_in_queue r + quantity_in_queue d,
     quantity_in_progress := quantity_in_progress r + quantity_in_progress d,
     quantity_awaiting := quantity_awaiting r + quantity_awaiting d\<rparr>"

definition copy_counters :: "'b counters_scheme \<Rightarrow> 'a counters_scheme \<Rightarrow> 'a counters_scheme" where
  "copy_counters c r = r\<lparr>quantity_in_queue := quantity_in_queue c,
     quantity_in_progress := quantity_in_progress c, quantity_awaiting := quantity_awaiting c\<rparr>"

definition counters_nonneg :: "'a counters_scheme \<Rightarrow> bool" where
  "counters_nonneg r \<longleftrightarrow> 0 \<le> quantity_in_queue r \<and> 0 \<le> quantity_in_progress r \<and> 0 \<le> quantity_awaiting r"

definition counter_repair :: "string \<Rightarrow> string \<Rightarrow> int \<Rightarrow> string \<Rightarrow> int \<Rightarrow> int \<Rightarrow> int \<Rightarrow> repair_record list" where
  "counter_repair rid trigger now field stored delta recomputed =
     (if stored + delta \<noteq> recomputed
      then [\<lparr>repair_target_kind = RepairITEM, repair_target_id = rid, repair_field = field, stored_value = stored,
             recomputed_value = recomputed, repair_trigger = ''inline:'' @ trigger, repair_created_at = now\<rparr>]
      else [])"

definition self_heal_counters :: "string \<Rightarrow> counters \<Rightarrow> string \<Rightarrow> int \<Rightarrow> stock_db \<Rightarrow> stock_db result" where
  "self_heal_counters rid deltas trigger now db =
     rbind (scalar_one (filter (\<lambda>r. row_id r = rid) (stock_rows db))) (\<lambda>stored.
     let recomputed = recompute_row_counters (assignments db) rid in
     Inr (db\<lparr>stock_rows := update_where (\<lambda>r. row_id r = rid) (copy_counters recomputed) (stock_rows db),
             repairs := repairs db
               @ counter_repair rid trigger now ''quantity_in_queue''
                   (quantity_in_queue stored) (quantity_in_queue deltas) (quantity_in_queue recomputed)
               @ counter_repair rid trigger now ''quantity_in_progress''
                   (quantity_in_progress stored) (quantity_in_progress deltas) (quantity_in_progress recomputed)
               @ counter_repair rid trigger now ''quantity_awaiting''
                   (quantity_awaiting stored) (quantity_awaiting deltas) (quantity_awaiting recomputed)\<rparr>))"

definition apply_counter_delta :: "string \<Rightarrow> counters \<Rightarrow> string \<Rightarrow> int \<Rightarrow> stock_db \<Rightarrow> stock_db result" where
  "apply_counter_delta rid deltas trigger now db =
     (let guarded = (\<lambda>r. row_id r = rid \<and> counters_nonneg (add_counters deltas r)) in
      if filter guarded (stock_rows db) \<noteq> []
      then Inr (db\<lparr>stock_rows := update_where guarded (add_counters deltas) (stock_rows db)\<rparr>)
      else self_heal_counters rid deltas trigger now db)"

section \<open>The goal credit\<close>

definition newer :: "history_record \<Rightarrow> history_record \<Rightarrow> bool" where
  \<comment> \<open>\<open>ORDER BY created_at DESC, client_id DESC\<close>\<close>
  "newer h g \<longleftrightarrow> (history_created_at h, history_id h) > (history_created_at g, history_id g)"

fun newest :: "history_record list \<Rightarrow> history_record option" where
  "newest [] = None"
| "newest (h # hs) = (case newest hs of None \<Rightarrow> Some h | Some g \<Rightarrow> if newer g h then Some g else Some h)"

definition goal_of :: "string \<Rightarrow> history_record \<Rightarrow> bool" where
  "goal_of rid h \<longleftrightarrow> history_row_id h = rid \<and> history_type h = HistQUANTITY_REQUESTED_CHANGE \<and> \<not> history_is_deleted h"

definition current_goal_record_id :: "history_record list \<Rightarrow> string \<Rightarrow> string option" where
  "current_goal_record_id hists rid = map_option history_id (newest (filter (goal_of rid) hists))"

definition add_awaiting :: "int \<Rightarrow> history_record \<Rightarrow> history_record" where
  "add_awaiting q h = h\<lparr>history_awaiting := history_awaiting h + q\<rparr>"

definition save_assignment :: "stock_assignment \<Rightarrow> stock_db \<Rightarrow> stock_db" where
  \<comment> \<open>\<open>session.add(a)\<close> and a flush: a new row is inserted, a known one updated\<close>
  "save_assignment a db = db\<lparr>assignments :=
     (if assignment_id a \<in> assignment_id ` set (assignments db) then put_row assignment_id a (assignments db)
      else assignments db @ [a])\<rparr>"

definition credit_current_goal :: "stock_assignment \<Rightarrow> stock_db \<Rightarrow> stock_db result" where
  "credit_current_goal a db =
     (case current_goal_record_id (histories db) (assignment_row_id a) of
        None \<Rightarrow> Inr db
      | Some gid \<Rightarrow>
          rbind (rguard (filter (\<lambda>h. history_id h = gid) (histories db) \<noteq> [])
                  (RuntimeError (''goal credit affected 0 rows for '' @ gid))) (\<lambda>_.
          Inr (save_assignment (a\<lparr>credited_record_id := Some gid\<rparr>)
                 (db\<lparr>histories := update_where (\<lambda>h. history_id h = gid) (add_awaiting (assignment_quantity a)) (histories db)\<rparr>))))"

definition self_heal_goal :: "string \<Rightarrow> string \<Rightarrow> int \<Rightarrow> stock_db \<Rightarrow> stock_db result" where
  "self_heal_goal hid trigger now db =
     (case filter (\<lambda>h. history_id h = hid) (histories db) of
        [] \<Rightarrow> Inl (RuntimeError (''goal self-heal affected 0 rows for '' @ hid))
      | h # _ \<Rightarrow>
          let recomputed = recompute_goal_total (assignments db) hid in
          Inr (db\<lparr>histories := update_where (\<lambda>h. history_id h = hid) (\<lambda>h. h\<lparr>history_awaiting := recomputed\<rparr>) (histories db),
                  repairs := repairs db @ [\<lparr>repair_target_kind = RepairHISTORY, repair_target_id = hid,
                    repair_field = ''quantity_awaiting'', stored_value = history_awaiting h, recomputed_value = recomputed,
                    repair_trigger = ''inline:'' @ trigger, repair_created_at = now\<rparr>]\<rparr>))"

definition uncredit :: "stock_assignment \<Rightarrow> string \<Rightarrow> int \<Rightarrow> stock_db \<Rightarrow> stock_db result" where
  "uncredit a trigger now db =
     (case credited_record_id a of
        None \<Rightarrow> Inr db
      | Some hid \<Rightarrow>
          let q = assignment_quantity a;
              db = save_assignment (a\<lparr>credited_record_id := None\<rparr>) db;
              guarded = (\<lambda>h. history_id h = hid \<and> 0 \<le> history_awaiting h - q) in
          if filter guarded (histories db) \<noteq> []
          then Inr (db\<lparr>histories := update_where guarded (add_awaiting (- q)) (histories db)\<rparr>)
          else self_heal_goal hid trigger now db)"

definition apply_goal_effect ::
    "stock_assignment \<Rightarrow> assignment_state option \<Rightarrow> move_target \<Rightarrow> string \<Rightarrow> int \<Rightarrow> stock_db \<Rightarrow> stock_db result" where
  "apply_goal_effect a from_state to_state trigger now db =
     (if to_state \<in> {MoveTo AsgAWAITING, MoveTo AsgRESOLVED_EARLY}
      then if from_state \<noteq> Some AsgAWAITING then credit_current_goal a db else Inr db
      else if from_state = Some AsgAWAITING
        then if to_state = MoveTo AsgRESOLVED then Inr db else uncredit a trigger now db
      else Inr db)"

section \<open>The snapshot's share of a move\<close>

definition snapshot_ceiling :: "item_snapshot \<Rightarrow> stock_row \<Rightarrow> int" where
  \<comment> \<open>\<open>_CEILING_SQL\<close>, whose \<open>GREATEST\<close> ignores a null argument\<close>
  "snapshot_ceiling s r = (case effective_quantity_requested s r of
     None \<Rightarrow> 0 | Some q \<Rightarrow> missing_quantity_ceiling q r (snapshot_resolved s))"

definition over_ceiling :: "stock_row list \<Rightarrow> item_snapshot \<Rightarrow> bool" where
  "over_ceiling rows s \<longleftrightarrow> is_snapshot_active s \<and>
     (case (List.find (\<lambda>r. row_id r = snapshot_row_id s) rows, snapshot_missing s) of
        (Some r, Some m) \<Rightarrow> snapshot_ceiling s r < m
      | _ \<Rightarrow> False)"

definition clamp_missing :: "(item_snapshot \<Rightarrow> bool) \<Rightarrow> int \<Rightarrow> string option \<Rightarrow> stock_db \<Rightarrow> stock_db" where
  "clamp_missing P now actor db = db\<lparr>snapshots := update_where (\<lambda>s. P s \<and> over_ceiling (stock_rows db) s)
     (\<lambda>s. s\<lparr>snapshot_missing := map_option (snapshot_ceiling s) (List.find (\<lambda>r. row_id r = snapshot_row_id s) (stock_rows db)),
            snapshot_updated_at := Some now, snapshot_updated_by_id := actor\<rparr>) (snapshots db)\<rparr>"

definition clamp_snapshot_missing_quantity :: "string \<Rightarrow> int \<Rightarrow> string option \<Rightarrow> stock_db \<Rightarrow> stock_db" where
  "clamp_snapshot_missing_quantity rid = clamp_missing (\<lambda>s. snapshot_row_id s = rid)"

definition clamp_version_missing_quantities :: "string \<Rightarrow> int \<Rightarrow> string option \<Rightarrow> stock_db \<Rightarrow> stock_db" where
  "clamp_version_missing_quantities vid = clamp_missing (\<lambda>s. snapshot_version_id s = vid)"

definition credit_snapshot_resolved :: "string \<Rightarrow> int \<Rightarrow> int \<Rightarrow> stock_db \<Rightarrow> stock_db" where
  "credit_snapshot_resolved rid q now db =
     (if q \<le> 0 then db
      else db\<lparr>snapshots := update_where (\<lambda>s. snapshot_row_id s = rid \<and> is_snapshot_active s)
             (\<lambda>s. s\<lparr>snapshot_resolved := snapshot_resolved s + q, snapshot_updated_at := Some now\<rparr>) (snapshots db)\<rparr>)"

section \<open>The move itself\<close>

text \<open>\<open>actor\<close> is \<open>actor_user_id or None\<close>.\<close>

definition retargeted :: "bool \<Rightarrow> move_target \<Rightarrow> string option \<Rightarrow> int \<Rightarrow> stock_assignment \<Rightarrow> stock_assignment" where
  "retargeted is_creation target actor now a =
     (case target of
        AssignmentDELETE \<Rightarrow> a\<lparr>assignment_is_deleted := True, assignment_deleted_at := Some now, assignment_deleted_by_id := actor\<rparr>
      | MoveTo t \<Rightarrow>
          if is_creation then a\<lparr>assignment_state := t\<rparr>
          else a\<lparr>assignment_state := t, assignment_updated_by_id := actor, assignment_updated_at := Some now\<rparr>)"

definition snapshot_effect :: "stock_assignment \<Rightarrow> move_target \<Rightarrow> string option \<Rightarrow> int \<Rightarrow> bool \<Rightarrow> stock_db \<Rightarrow> stock_db" where
  "snapshot_effect a target actor now is_creation db =
     (if is_creation then clamp_snapshot_missing_quantity (assignment_row_id a) now actor db
      else if target \<in> {MoveTo AsgRESOLVED, MoveTo AsgRESOLVED_EARLY}
        then credit_snapshot_resolved (assignment_row_id a) (assignment_quantity a) now db
      else db)"

definition move_assignment ::
    "stock_assignment \<Rightarrow> move_target \<Rightarrow> string option \<Rightarrow> int \<Rightarrow> string \<Rightarrow> bool \<Rightarrow> stock_db \<Rightarrow> stock_db result" where
  "move_assignment a target actor now trigger is_creation db =
     (let from_state = (if is_creation then None else Some (assignment_state a)) in
      if \<not> is_creation \<and> target = MoveTo (assignment_state a) then Inr db
      else
        rbind (assert_allowed_move from_state target is_creation) (\<lambda>_.
        let a' = retargeted is_creation target actor now a;
            deltas = delta_vector from_state target (assignment_quantity a) is_creation in
        rbind (apply_counter_delta (assignment_row_id a) deltas trigger now (save_assignment a' db)) (\<lambda>db.
        rbind (apply_goal_effect a' from_state target trigger now db) (\<lambda>db.
        Inr (snapshot_effect a target actor now is_creation db)))))"

text \<open>\<open>resolve_processed_group\<close>: several assignments of one row, one counter statement and one credit.\<close>

definition processed_target :: "assignment_state \<Rightarrow> assignment_state" where
  "processed_target s = (if s = AsgAWAITING then AsgRESOLVED else AsgRESOLVED_EARLY)"

definition mark_processed ::
    "int \<Rightarrow> stock_db \<times> (stock_assignment \<times> assignment_state) list \<Rightarrow> stock_assignment
      \<Rightarrow> (stock_db \<times> (stock_assignment \<times> assignment_state) list) result" where
  "mark_processed now acc a =
     (case acc of (db, moved) \<Rightarrow>
        let s = assignment_state a; t = processed_target s in
        if s = t then Inr acc
        else rbind (assert_allowed_move (Some s) (MoveTo t) False) (\<lambda>_.
          let a' = retargeted False (MoveTo t) None now a in
          Inr (save_assignment a' db, moved @ [(a', s)])))"

definition group_deltas :: "(stock_assignment \<times> assignment_state) list \<Rightarrow> counters" where
  "group_deltas moved = foldl (\<lambda>d (a, s). add_to_column s (- assignment_quantity a) d) no_counters moved"

definition resolve_processed_group ::
    "stock_assignment list \<Rightarrow> string \<Rightarrow> int \<Rightarrow> string \<Rightarrow> stock_db \<Rightarrow> stock_db result" where
  "resolve_processed_group asgs rid now trigger db =
     rbind (rfold (mark_processed now) (db, []) asgs) (\<lambda>(db, moved).
     if moved = [] then Inr db
     else
       rbind (apply_counter_delta rid (group_deltas moved) trigger now db) (\<lambda>db.
       rbind (rfold (\<lambda>db (a, s). apply_goal_effect a (Some s) (MoveTo (assignment_state a)) trigger now db) db moved) (\<lambda>db.
       Inr (credit_snapshot_resolved rid (sum_list (map (\<lambda>(a, _). assignment_quantity a) moved)) now db))))"

section \<open>The commands over moves\<close>

definition set_task_stock_flag :: "string \<Rightarrow> bool \<Rightarrow> stock_db \<Rightarrow> stock_db" where
  "set_task_stock_flag tid value db = db\<lparr>stock_tasks :=
     update_where (\<lambda>t. stock_task_id t = tid \<and> is_stock_assignment t \<noteq> value) (\<lambda>t. t\<lparr>is_stock_assignment := value\<rparr>) (stock_tasks db)\<rparr>"

definition recompute_task_stock_flag :: "string \<Rightarrow> stock_db \<Rightarrow> stock_db" where
  "recompute_task_stock_flag tid db = set_task_stock_flag tid (expected_task_flag (assignments db) tid) db"

definition remove_assignment :: "stock_assignment \<Rightarrow> string option \<Rightarrow> int \<Rightarrow> string \<Rightarrow> stock_db \<Rightarrow> stock_db result" where
  "remove_assignment a actor now trigger db =
     rbind (move_assignment a AssignmentDELETE actor now trigger False db) (\<lambda>db.
     Inr (recompute_task_stock_flag (assignment_task_id a) db))"

definition active_for_task :: "string \<Rightarrow> stock_assignment \<Rightarrow> bool" where
  "active_for_task tid a \<longleftrightarrow> assignment_task_id a = tid \<and> \<not> assignment_is_deleted a \<and> assignment_state a \<in> ACTIVE_ASSIGNMENT_STATES"

definition sync_task :: "string option \<Rightarrow> int \<Rightarrow> stock_db \<Rightarrow> stock_task \<Rightarrow> stock_db result" where
  "sync_task actor now db task =
     rbind (scalar_one_or_none (filter (active_for_task (stock_task_id task)) (assignments db))) (\<lambda>found.
     case found of
       None \<Rightarrow> Inr db
     | Some a \<Rightarrow>
         let target = ASSIGNMENT_STATE_BY_TASK_STATE (stock_task_state task) in
         rbind (locked row_id (assignment_row_id a) (stock_rows db)) (\<lambda>_.
         rbind (locked assignment_id (assignment_id a) (assignments db)) (\<lambda>a.
         if assignment_is_deleted a \<or> assignment_state a \<in> TERMINAL_ASSIGNMENT_STATES then Inr db
         else if assignment_state a = target then Inr db
         else move_assignment a (MoveTo target) actor now ''task_sync'' False db)))"

definition sync_task_stock_assignments :: "stock_task list \<Rightarrow> string option \<Rightarrow> int \<Rightarrow> stock_db \<Rightarrow> stock_db result" where
  "sync_task_stock_assignments changed actor now db =
     rfold (sync_task actor now) db (sort_key stock_task_id changed)"

definition delete_stock_task_assignments :: "string list \<Rightarrow> string option \<Rightarrow> int \<Rightarrow> stock_db \<Rightarrow> stock_db result" where
  "delete_stock_task_assignments client_ids actor now db =
     (let ids = sort (dedupe client_ids);
          discovered = filter (\<lambda>a. assignment_id a \<in> set ids \<and> \<not> assignment_is_deleted a) (assignments db);
          missing = filter (\<lambda>i. i \<notin> set (map assignment_id discovered)) ids in
      rbind (rguard (missing = []) (NotFound (''Stock task assignment(s) not found: '' @ intercalate '', '' missing))) (\<lambda>_.
      rfold (\<lambda>db i. rbind (locked assignment_id i (assignments db)) (\<lambda>a.
          remove_assignment a actor now ''delete_assignments'' db)) db ids))"

section \<open>Columns and tallies\<close>

fun column :: "assignment_state \<Rightarrow> 'a counters_scheme \<Rightarrow> int" where
  "column AsgIN_QUEUE c = quantity_in_queue c"
| "column AsgIN_PROGRESS c = quantity_in_progress c"
| "column AsgAWAITING c = quantity_awaiting c"
| "column _ c = 0"

definition tally :: "stock_assignment list \<Rightarrow> string \<Rightarrow> assignment_state \<Rightarrow> int" where
  "tally asgs rid st = column_total assignment_quantity (counted rid st) asgs"

lemma all_columns: "(\<forall>st \<in> ACTIVE_ASSIGNMENT_STATES. P st) \<longleftrightarrow> P AsgIN_QUEUE \<and> P AsgIN_PROGRESS \<and> P AsgAWAITING"
  by (simp add: ACTIVE_ASSIGNMENT_STATES_def)

lemma column_recompute [simp]: "st \<in> ACTIVE_ASSIGNMENT_STATES \<Longrightarrow> column st (recompute_row_counters asgs rid) = tally asgs rid st"
  by (auto simp: ACTIVE_ASSIGNMENT_STATES_def recompute_row_counters_def tally_def)

lemma column_no_counters [simp]: "column st no_counters = 0"
  by (cases st) (simp_all add: no_counters_def)

lemma column_add [simp]: "column st (add_counters d r) = column st r + column st d"
  by (cases st) (simp_all add: add_counters_def)

lemma column_copy [simp]: "column st (copy_counters c r) = column st c"
  by (cases st) (simp_all add: copy_counters_def)

lemma column_add_to_column [simp]:
  "column st (add_to_column t q d) = column st d + (if st = t \<and> t \<in> ACTIVE_ASSIGNMENT_STATES then q else 0)"
  by (cases t; cases st) simp_all

lemma row_id_counters [simp]: "row_id (add_counters d r) = row_id r" "row_id (copy_counters c r) = row_id r"
  by (simp_all add: add_counters_def copy_counters_def)

lemma counters_nonneg_iff: "counters_nonneg r \<longleftrightarrow> (\<forall>st \<in> ACTIVE_ASSIGNMENT_STATES. 0 \<le> column st r)"
  by (simp add: all_columns counters_nonneg_def)

lemma column_delta_vector:
  "column st (delta_vector from_state target q is_creation) =
     (if st \<notin> ACTIVE_ASSIGNMENT_STATES then 0
      else (if target = MoveTo st then q else 0) - (if \<not> is_creation \<and> from_state = Some st then q else 0))"
  by (cases target; cases from_state) (auto simp: delta_vector_def Let_def)

lemma tally_put:
  assumes "distinct (map assignment_id asgs)" "a \<in> set asgs" "assignment_id a' = assignment_id a"
  shows "tally (put_row assignment_id a' asgs) rid st
    = tally asgs rid st - row_share assignment_quantity (counted rid st) a + row_share assignment_quantity (counted rid st) a'"
  unfolding tally_def using column_total_put_row [OF assms(1,2)] assms(3) by metis

definition positive :: "stock_assignment list \<Rightarrow> bool" where
  "positive asgs \<longleftrightarrow> (\<forall>a \<in> set asgs. 1 \<le> assignment_quantity a)"

lemma tally_nonneg: "positive asgs \<Longrightarrow> 0 \<le> tally asgs rid st"
  unfolding tally_def positive_def by (rule column_total_nonneg) auto

section \<open>The counter statement\<close>

lemma delta_applies:
  assumes "distinct (map row_id (stock_rows db))" "r \<in> set (stock_rows db)" "counters_nonneg (add_counters d r)"
  shows "apply_counter_delta (row_id r) d trigger now db
    = Inr (db\<lparr>stock_rows := update_where (\<lambda>r'. row_id r' = row_id r) (add_counters d) (stock_rows db)\<rparr>)"
proof -
  have "x = r" if "x \<in> set (stock_rows db)" "row_id x = row_id r" for x
    using that assms(1,2) by (metis distinct_map inj_onD)
  then have "update_where (\<lambda>r'. row_id r' = row_id r \<and> counters_nonneg (add_counters d r')) (add_counters d) (stock_rows db)
      = update_where (\<lambda>r'. row_id r' = row_id r) (add_counters d) (stock_rows db)"
    unfolding update_where_def using assms(3) by (intro map_cong) auto
  moreover have "filter (\<lambda>r'. row_id r' = row_id r \<and> counters_nonneg (add_counters d r')) (stock_rows db) \<noteq> []"
    using assms(2,3) by (auto simp: filter_empty_conv)
  ultimately show ?thesis by (simp add: apply_counter_delta_def Let_def)
qed

lemma delta_heals:
  assumes "distinct (map row_id (stock_rows db))" "r \<in> set (stock_rows db)" "\<not> counters_nonneg (add_counters d r)"
  shows "apply_counter_delta (row_id r) d trigger now db = self_heal_counters (row_id r) d trigger now db"
    and "filter (\<lambda>r'. row_id r' = row_id r) (stock_rows db) = [r]"
proof -
  have "x = r" if "x \<in> set (stock_rows db)" "row_id x = row_id r" for x
    using that assms(1,2) by (metis distinct_map inj_onD)
  then have "filter (\<lambda>r'. row_id r' = row_id r \<and> counters_nonneg (add_counters d r')) (stock_rows db) = []"
    using assms(3) by (auto simp: filter_empty_conv)
  then show "apply_counter_delta (row_id r) d trigger now db = self_heal_counters (row_id r) d trigger now db"
    by (simp add: apply_counter_delta_def Let_def)
  show "filter (\<lambda>r'. row_id r' = row_id r) (stock_rows db) = [r]"
    using filter_key_unique [OF assms(1,2), of "\<lambda>_. True"] by simp
qed

text \<open>What a row of the table owes: its counters lack \<open>d\<close> against the assignments.\<close>

definition owes :: "stock_assignment list \<Rightarrow> string \<Rightarrow> counters \<Rightarrow> stock_row \<Rightarrow> bool" where
  "owes asgs rid d r \<longleftrightarrow> (\<forall>st \<in> ACTIVE_ASSIGNMENT_STATES.
     tally asgs (row_id r) st = column st r + (if row_id r = rid then column st d else 0))"

definition exact_row :: "stock_assignment list \<Rightarrow> stock_row \<Rightarrow> bool" where
  "exact_row asgs r \<longleftrightarrow> (\<forall>st \<in> ACTIVE_ASSIGNMENT_STATES. column st r = tally asgs (row_id r) st)"

lemma owes_nothing [simp]: "owes asgs rid no_counters r \<longleftrightarrow> exact_row asgs r"
  by (auto simp: owes_def exact_row_def)

lemma debt_is_paid:
  assumes "distinct (map row_id (stock_rows db))" "rid \<in> row_id ` set (stock_rows db)" "positive (assignments db)"
    and "\<forall>r \<in> set (stock_rows db). owes (assignments db) rid d r"
  shows "apply_counter_delta rid d trigger now db
      = Inr (db\<lparr>stock_rows := update_where (\<lambda>r. row_id r = rid) (add_counters d) (stock_rows db)\<rparr>)"
    and "\<forall>r \<in> set (update_where (\<lambda>r. row_id r = rid) (add_counters d) (stock_rows db)). exact_row (assignments db) r"
proof -
  obtain r where r: "r \<in> set (stock_rows db)" "rid = row_id r" using assms(2) by auto
  have "counters_nonneg (add_counters d r)"
    unfolding counters_nonneg_iff
  proof
    fix st assume "st \<in> ACTIVE_ASSIGNMENT_STATES"
    then have "column st (add_counters d r) = tally (assignments db) rid st"
      using assms(4) r by (simp add: owes_def)
    then show "0 \<le> column st (add_counters d r)" using tally_nonneg [OF assms(3)] by simp
  qed
  then show "apply_counter_delta rid d trigger now db
      = Inr (db\<lparr>stock_rows := update_where (\<lambda>r. row_id r = rid) (add_counters d) (stock_rows db)\<rparr>)"
    using delta_applies [OF assms(1) r(1)] r(2) by simp
  show "\<forall>r \<in> set (update_where (\<lambda>r. row_id r = rid) (add_counters d) (stock_rows db)). exact_row (assignments db) r"
    using assms(4) by (auto simp: update_where_set owes_def exact_row_def)
qed

section \<open>The assignments of a move\<close>

lemma put_row_twice [simp]: "key a = key b \<Longrightarrow> put_row key a (put_row key b rows) = put_row key a rows"
  by (simp add: put_row_def comp_def)

lemma save_known:
  "assignment_id a \<in> assignment_id ` set (assignments db) \<Longrightarrow>
     save_assignment a db = db\<lparr>assignments := put_row assignment_id a (assignments db)\<rparr>"
  by (simp add: save_assignment_def)

lemma save_new:
  "assignment_id a \<notin> assignment_id ` set (assignments db) \<Longrightarrow> save_assignment a db = db\<lparr>assignments := assignments db @ [a]\<rparr>"
  by (simp add: save_assignment_def)

lemma retargeted_simps [simp]:
  "assignment_id (retargeted c target actor now a) = assignment_id a"
  "assignment_row_id (retargeted c target actor now a) = assignment_row_id a"
  "assignment_task_id (retargeted c target actor now a) = assignment_task_id a"
  "assignment_item_id (retargeted c target actor now a) = assignment_item_id a"
  "assignment_quantity (retargeted c target actor now a) = assignment_quantity a"
  "credited_record_id (retargeted c target actor now a) = credited_record_id a"
  "assignment_state (retargeted c (MoveTo t) actor now a) = t"
  "assignment_state (retargeted c AssignmentDELETE actor now a) = assignment_state a"
  "assignment_is_deleted (retargeted c (MoveTo t) actor now a) = assignment_is_deleted a"
  "assignment_is_deleted (retargeted c AssignmentDELETE actor now a) = True"
  by (cases target; simp add: retargeted_def)+

lemma owes_retargeted:
  assumes "distinct (map assignment_id asgs)" "a \<in> set asgs" "\<not> assignment_is_deleted a" "target \<noteq> MoveTo (assignment_state a)"
    and "owes asgs (assignment_row_id a) d r"
  shows "owes (put_row assignment_id (retargeted False target actor now a) asgs) (assignment_row_id a)
    (add_counters (delta_vector (Some (assignment_state a)) target (assignment_quantity a) False) d) r"
  unfolding owes_def
proof
  fix st assume st: "st \<in> ACTIVE_ASSIGNMENT_STATES"
  have "row_share assignment_quantity (counted (row_id r) st) (retargeted False target actor now a)
      - row_share assignment_quantity (counted (row_id r) st) a
    = (if row_id r = assignment_row_id a
       then column st (delta_vector (Some (assignment_state a)) target (assignment_quantity a) False) else 0)"
    using assms(3,4) st by (cases target) (auto simp: row_share_def counted_def column_delta_vector)
  then show "tally (put_row assignment_id (retargeted False target actor now a) asgs) (row_id r) st = column st r
      + (if row_id r = assignment_row_id a then column st (add_counters (delta_vector (Some (assignment_state a))
           target (assignment_quantity a) False) d) else 0)"
    using tally_put [OF assms(1,2), of "retargeted False target actor now a" "row_id r" st] assms(5) st
    by (simp add: owes_def split: if_splits)
qed

section \<open>The goal totals\<close>

definition goal_ids :: "history_record list \<Rightarrow> string set" where
  "goal_ids hists = history_id ` {h \<in> set hists. history_type h = HistQUANTITY_REQUESTED_CHANGE}"

definition exact_goal :: "stock_assignment list \<Rightarrow> history_record \<Rightarrow> bool" where
  "exact_goal asgs h \<longleftrightarrow>
     (history_type h = HistQUANTITY_REQUESTED_CHANGE \<longrightarrow> history_awaiting h = recompute_goal_total asgs (history_id h))"

text \<open>Only a goal record is credited, and only for work that is awaiting or has left the board from there.\<close>

definition credit_ok :: "history_record list \<Rightarrow> stock_assignment \<Rightarrow> bool" where
  "credit_ok hists a \<longleftrightarrow> (\<forall>i. credited_record_id a = Some i \<longrightarrow>
     i \<in> goal_ids hists \<and> assignment_state a \<notin> {AsgIN_QUEUE, AsgIN_PROGRESS})"

lemma newest_in: "newest hs = Some h \<Longrightarrow> h \<in> set hs"
  by (induction hs arbitrary: h) (auto split: option.splits if_splits)

lemma newest_None [simp]: "newest hs = None \<longleftrightarrow> hs = []"
  by (induction hs) (auto split: option.splits)

lemma current_goal_is_goal: "current_goal_record_id hists rid = Some i \<Longrightarrow> i \<in> goal_ids hists"
  by (auto simp: current_goal_record_id_def goal_ids_def goal_of_def dest!: newest_in)

lemma history_add_awaiting [simp]:
  "history_id (add_awaiting q h) = history_id h" "history_type (add_awaiting q h) = history_type h"
  "history_row_id (add_awaiting q h) = history_row_id h" "history_created_at (add_awaiting q h) = history_created_at h"
  "history_is_deleted (add_awaiting q h) = history_is_deleted h"
  "history_awaiting (add_awaiting q h) = history_awaiting h + q"
  by (simp_all add: add_awaiting_def)

lemma goal_ids_update [simp]:
  "goal_ids (update_where P (add_awaiting q) hists) = goal_ids hists"
proof -
  have alt: "goal_ids hs = {i. (i, HistQUANTITY_REQUESTED_CHANGE) \<in> set (map (\<lambda>h. (history_id h, history_type h)) hs)}" for hs
    by (auto simp: goal_ids_def)
  show ?thesis unfolding alt by (simp add: update_where_keys)
qed

lemma goal_total_put:
  assumes "distinct (map assignment_id asgs)" "a \<in> set asgs" "assignment_id a' = assignment_id a"
  shows "recompute_goal_total (put_row assignment_id a' asgs) hid = recompute_goal_total asgs hid
    - (if credited_record_id a = Some hid then assignment_quantity a else 0)
    + (if credited_record_id a' = Some hid then assignment_quantity a' else 0)"
  using column_total_put_row [OF assms(1,2) assms(3) [symmetric],
      where column = assignment_quantity and P = "\<lambda>a. credited_record_id a = Some hid"]
  by (simp add: recompute_goal_total_def row_share_def)

lemma goal_total_ge:
  assumes "positive asgs" "a \<in> set asgs" "credited_record_id a = Some hid"
  shows "assignment_quantity a \<le> recompute_goal_total asgs hid"
  using column_total_ge_share [OF assms(2), where column = assignment_quantity and P = "\<lambda>a. credited_record_id a = Some hid"] assms
  by (fastforce simp: recompute_goal_total_def row_share_def positive_def)

lemma goals_shift:
  assumes "\<forall>h \<in> set hists. exact_goal asgs h" "\<And>h. h \<in> set hists \<Longrightarrow> P h \<longleftrightarrow> history_id h = i"
    and "\<And>hid. recompute_goal_total asgs' hid = recompute_goal_total asgs hid + (if hid = i then q else 0)"
  shows "\<forall>h \<in> set (update_where P (add_awaiting q) hists). exact_goal asgs' h"
proof
  fix h' assume "h' \<in> set (update_where P (add_awaiting q) hists)"
  then obtain h where h: "h \<in> set hists" "h' = (if P h then add_awaiting q h else h)"
    by (auto simp: update_where_set)
  then show "exact_goal asgs' h'"
    using assms(1) assms(2) [OF h(1)] by (cases "P h") (simp_all add: exact_goal_def assms(3))
qed

text \<open>What a goal effect does: it leaves the rows and the snapshots alone, and settles the credit.\<close>

definition credited_to :: "string option \<Rightarrow> stock_assignment \<Rightarrow> stock_db \<Rightarrow> stock_db \<Rightarrow> bool" where
  "credited_to c a db db' \<longleftrightarrow>
     (\<exists>hs. db' = db\<lparr>assignments := put_row assignment_id (a\<lparr>credited_record_id := c\<rparr>) (assignments db), histories := hs\<rparr>
       \<and> map history_id hs = map history_id (histories db) \<and> goal_ids hs = goal_ids (histories db)
       \<and> (\<forall>h \<in> set hs. exact_goal (assignments db') h))"

lemma credited_to_same:
  assumes "a \<in> set (assignments db)" "distinct (map assignment_id (assignments db))"
    and "\<forall>h \<in> set (histories db). exact_goal (assignments db) h"
  shows "credited_to (credited_record_id a) a db db"
proof -
  have "put_row assignment_id a (assignments db) = assignments db"
    unfolding put_row_def using assms(1,2) by (intro map_idI) (metis distinct_map inj_onD)
  then show ?thesis
    using assms(3) by (auto simp: credited_to_def intro!: exI [of _ "histories db"])
qed

lemma credit_exact:
  assumes "a \<in> set (assignments db)" "distinct (map assignment_id (assignments db))"
    and "\<forall>h \<in> set (histories db). exact_goal (assignments db) h" "credited_record_id a = None"
  shows "\<exists>db' c. credit_current_goal a db = Inr db' \<and> credited_to c a db db' \<and> (\<forall>i. c = Some i \<longrightarrow> i \<in> goal_ids (histories db))"
proof (cases "current_goal_record_id (histories db) (assignment_row_id a)")
  case None
  then show ?thesis using credited_to_same [OF assms(1-3)] assms(4) by (auto simp: credit_current_goal_def)
next
  case (Some gid)
  note goal = current_goal_is_goal [OF Some]
  let ?hs = "update_where (\<lambda>h. history_id h = gid) (add_awaiting (assignment_quantity a)) (histories db)"
  have "filter (\<lambda>h. history_id h = gid) (histories db) \<noteq> []"
    using goal by (auto simp: goal_ids_def filter_empty_conv)
  then have run: "credit_current_goal a db
      = Inr (db\<lparr>assignments := put_row assignment_id (a\<lparr>credited_record_id := Some gid\<rparr>) (assignments db), histories := ?hs\<rparr>)"
    using assms(1) by (simp add: credit_current_goal_def Some save_known)
  have "\<forall>h \<in> set ?hs. exact_goal (put_row assignment_id (a\<lparr>credited_record_id := Some gid\<rparr>) (assignments db)) h"
    by (rule goals_shift [OF assms(3), where i = gid]) (auto simp: goal_total_put [OF assms(2,1)] assms(4))
  then have "credited_to (Some gid) a db
      (db\<lparr>assignments := put_row assignment_id (a\<lparr>credited_record_id := Some gid\<rparr>) (assignments db), histories := ?hs\<rparr>)"
    unfolding credited_to_def by (intro exI [of _ ?hs]) simp
  then show ?thesis using run goal by blast
qed

lemma uncredit_exact:
  assumes "a \<in> set (assignments db)" "distinct (map assignment_id (assignments db))" "positive (assignments db)"
    and "\<forall>h \<in> set (histories db). exact_goal (assignments db) h" "\<forall>i. credited_record_id a = Some i \<longrightarrow> i \<in> goal_ids (histories db)"
    and "distinct (map history_id (histories db))"
  shows "\<exists>db'. uncredit a trigger now db = Inr db' \<and> credited_to None a db db'"
proof (cases "credited_record_id a")
  case None
  then show ?thesis using credited_to_same [OF assms(1,2,4)] by (auto simp: uncredit_def)
next
  case (Some hid)
  then have goal: "hid \<in> goal_ids (histories db)" using assms(5) by simp
  let ?q = "assignment_quantity a"
  let ?guard = "\<lambda>h. history_id h = hid \<and> 0 \<le> history_awaiting h - ?q"
  let ?hs = "update_where ?guard (add_awaiting (- ?q)) (histories db)"
  obtain h0 where h0: "h0 \<in> set (histories db)" "history_id h0 = hid" "history_type h0 = HistQUANTITY_REQUESTED_CHANGE"
    using goal by (auto simp: goal_ids_def)
  have unique: "h = h0" if "h \<in> set (histories db)" "history_id h = hid" for h
    using that h0 assms(6) by (metis distinct_map inj_onD)
  have "?guard h0"
    using goal_total_ge [OF assms(3,1) Some] assms(4) h0 by (auto simp: exact_goal_def)
  then have "filter ?guard (histories db) \<noteq> []" using h0(1) by (auto simp: filter_empty_conv)
  then have run: "uncredit a trigger now db
      = Inr (db\<lparr>assignments := put_row assignment_id (a\<lparr>credited_record_id := None\<rparr>) (assignments db), histories := ?hs\<rparr>)"
    using assms(1) by (simp add: uncredit_def Some save_known Let_def)
  have guard: "?guard h" if "h \<in> set (histories db)" "history_id h = hid" for h
    using unique [OF that] \<open>?guard h0\<close> by simp
  have "\<forall>h \<in> set ?hs. exact_goal (put_row assignment_id (a\<lparr>credited_record_id := None\<rparr>) (assignments db)) h"
    by (rule goals_shift [OF assms(4), where i = hid]) (use guard Some in \<open>auto simp: goal_total_put [OF assms(2,1)]\<close>)
  then have "credited_to None a db (db\<lparr>assignments := put_row assignment_id (a\<lparr>credited_record_id := None\<rparr>) (assignments db), histories := ?hs\<rparr>)"
    unfolding credited_to_def by (intro exI [of _ ?hs]) simp
  then show ?thesis using run by blast
qed

lemma goal_effect_exact:
  assumes "a \<in> set (assignments db)" "distinct (map assignment_id (assignments db))" "positive (assignments db)"
    and "\<forall>h \<in> set (histories db). exact_goal (assignments db) h" "distinct (map history_id (histories db))"
    and "\<forall>i. credited_record_id a = Some i \<longrightarrow>
      i \<in> goal_ids (histories db) \<and> from_state \<notin> {None, Some AsgIN_QUEUE, Some AsgIN_PROGRESS}"
    and "case target of
      MoveTo t \<Rightarrow> assignment_state a = t \<and> from_state \<in> {None, Some AsgIN_QUEUE, Some AsgIN_PROGRESS, Some AsgAWAITING}
    | AssignmentDELETE \<Rightarrow> from_state = Some (assignment_state a)"
  shows "\<exists>db' c. apply_goal_effect a from_state target trigger now db = Inr db' \<and> credited_to c a db db'
    \<and> credit_ok (histories db) (a\<lparr>credited_record_id := c\<rparr>)"
proof -
  note same = credited_to_same [OF assms(1,2,4)]
  let ?credit = "target \<in> {MoveTo AsgAWAITING, MoveTo AsgRESOLVED_EARLY} \<and> from_state \<noteq> Some AsgAWAITING"
  let ?uncredit = "target \<notin> {MoveTo AsgAWAITING, MoveTo AsgRESOLVED_EARLY, MoveTo AsgRESOLVED} \<and> from_state = Some AsgAWAITING"
  show ?thesis
  proof (cases ?credit)
    case True
    then have "credited_record_id a = None" using assms(6,7) by (auto split: move_target.splits)
    then obtain db' c where "credit_current_goal a db = Inr db'" "credited_to c a db db'"
        "\<forall>i. c = Some i \<longrightarrow> i \<in> goal_ids (histories db)"
      using credit_exact [OF assms(1,2,4)] by blast
    then show ?thesis using True assms(7) by (auto simp: apply_goal_effect_def credit_ok_def)
  next
    case no_credit: False
    show ?thesis
    proof (cases ?uncredit)
      case True
      moreover obtain db' where "uncredit a trigger now db = Inr db'" "credited_to None a db db'"
        using uncredit_exact [OF assms(1-4) _ assms(5)] assms(6) by blast
      ultimately show ?thesis by (auto simp: apply_goal_effect_def credit_ok_def)
    next
      case False
      have "apply_goal_effect a from_state target trigger now db = Inr db"
        unfolding apply_goal_effect_def using no_credit False by (metis insert_iff)
      moreover have "credit_ok (histories db) (a\<lparr>credited_record_id := credited_record_id a\<rparr>)"
        using False assms(6,7) by (auto simp: credit_ok_def split: move_target.splits)
      ultimately show ?thesis using same by blast
    qed
  qed
qed

section \<open>The ledger is exact\<close>

definition ledger_ok :: "stock_db \<Rightarrow> bool" where
  "ledger_ok db \<longleftrightarrow> distinct (map row_id (stock_rows db)) \<and> distinct (map assignment_id (assignments db))
     \<and> distinct (map history_id (histories db)) \<and> positive (assignments db)
     \<and> (\<forall>a \<in> set (assignments db). assignment_row_id a \<in> row_id ` set (stock_rows db) \<and> credit_ok (histories db) a)
     \<and> (\<forall>r \<in> set (stock_rows db). exact_row (assignments db) r)
     \<and> (\<forall>h \<in> set (histories db). exact_goal (assignments db) h)"

lemma snapshot_effect_frame [simp]:
  "stock_rows (snapshot_effect a target actor now c db) = stock_rows db"
  "assignments (snapshot_effect a target actor now c db) = assignments db"
  "histories (snapshot_effect a target actor now c db) = histories db"
  "repairs (snapshot_effect a target actor now c db) = repairs db"
  "versions (snapshot_effect a target actor now c db) = versions db"
  "stock_tasks (snapshot_effect a target actor now c db) = stock_tasks db"
  "stock_items (snapshot_effect a target actor now c db) = stock_items db"
  by (simp_all add: snapshot_effect_def clamp_snapshot_missing_quantity_def clamp_missing_def credit_snapshot_resolved_def)

lemma ledger_ok_snapshots [simp]: "ledger_ok (snapshot_effect a target actor now c db) = ledger_ok db"
  by (simp add: ledger_ok_def)

text \<open>The final row of a move.\<close>

definition moved :: "stock_assignment \<Rightarrow> move_target \<Rightarrow> stock_assignment \<Rightarrow> bool" where
  "moved a target a' \<longleftrightarrow> assignment_id a' = assignment_id a \<and> assignment_row_id a' = assignment_row_id a
     \<and> assignment_task_id a' = assignment_task_id a \<and> assignment_item_id a' = assignment_item_id a
     \<and> assignment_quantity a' = assignment_quantity a
     \<and> (case target of
          MoveTo t \<Rightarrow> assignment_state a' = t \<and> assignment_is_deleted a' = assignment_is_deleted a
        | AssignmentDELETE \<Rightarrow> assignment_state a' = assignment_state a \<and> assignment_is_deleted a')"

lemma moved_retargeted: "moved a target ((retargeted c target actor now a)\<lparr>credited_record_id := x\<rparr>)"
  by (cases target) (simp_all add: moved_def)

lemma allowed_from: "assert_allowed_move (Some s) (MoveTo t) False = Inr () \<Longrightarrow> s \<noteq> t \<Longrightarrow> s \<in> ACTIVE_ASSIGNMENT_STATES"
  by (auto simp: assert_allowed_move_def split: if_splits)

lemma move_effect:
  assumes ok: "ledger_ok db" and a: "a \<in> set (assignments db)" "\<not> assignment_is_deleted a"
    and new: "target \<noteq> MoveTo (assignment_state a)"
    and allowed: "assert_allowed_move (Some (assignment_state a)) target False = Inr ()"
  shows "\<exists>db' c hs. move_assignment a target actor now trigger False db = Inr (snapshot_effect a target actor now False db')
    \<and> db' = db\<lparr>assignments := put_row assignment_id ((retargeted False target actor now a)\<lparr>credited_record_id := c\<rparr>) (assignments db),
        stock_rows := update_where (\<lambda>r. row_id r = assignment_row_id a)
          (add_counters (delta_vector (Some (assignment_state a)) target (assignment_quantity a) False)) (stock_rows db),
        histories := hs\<rparr>
    \<and> map history_id hs = map history_id (histories db) \<and> ledger_ok db'"
proof -
  let ?a = "retargeted False target actor now a"
  let ?d = "delta_vector (Some (assignment_state a)) target (assignment_quantity a) False"
  let ?asgs = "put_row assignment_id ?a (assignments db)"
  let ?rows = "update_where (\<lambda>r. row_id r = assignment_row_id a) (add_counters ?d) (stock_rows db)"
  note parts = ok [unfolded ledger_ok_def]
  have saved: "save_assignment ?a db = db\<lparr>assignments := ?asgs\<rparr>"
    using a by (simp add: save_known)
  have known: "?a \<in> set ?asgs" "distinct (map assignment_id ?asgs)" "positive ?asgs"
    using parts a by (auto simp: positive_def dest: put_row_mem)
  have "\<forall>r \<in> set (stock_rows db). owes ?asgs (assignment_row_id a) (add_counters ?d no_counters) r"
    using parts owes_retargeted [OF _ a new] by simp
  then have "\<forall>r \<in> set (stock_rows db). owes ?asgs (assignment_row_id a) ?d r"
    by (simp add: owes_def)
  then have paid: "apply_counter_delta (assignment_row_id a) ?d trigger now (db\<lparr>assignments := ?asgs\<rparr>)
        = Inr (db\<lparr>assignments := ?asgs, stock_rows := ?rows\<rparr>)"
    and rows: "\<forall>r \<in> set ?rows. exact_row ?asgs r"
    using debt_is_paid [of "db\<lparr>assignments := ?asgs\<rparr>" "assignment_row_id a" ?d] parts a known by simp_all
  have totals: "recompute_goal_total ?asgs hid = recompute_goal_total (assignments db) hid" for hid
    using goal_total_put [of "assignments db" a ?a] parts a by simp
  define db1 where "db1 = db\<lparr>assignments := ?asgs, stock_rows := ?rows\<rparr>"
  have target: "case target of MoveTo t \<Rightarrow> assignment_state ?a = t
        \<and> Some (assignment_state a) \<in> {None, Some AsgIN_QUEUE, Some AsgIN_PROGRESS, Some AsgAWAITING}
      | AssignmentDELETE \<Rightarrow> Some (assignment_state a) = Some (assignment_state ?a)"
    using allowed new allowed_from by (cases target) (auto simp: ACTIVE_ASSIGNMENT_STATES_def)
  obtain db2 c where effect: "apply_goal_effect ?a (Some (assignment_state a)) target trigger now db1 = Inr db2"
      "credited_to c ?a db1 db2" "credit_ok (histories db) (?a\<lparr>credited_record_id := c\<rparr>)"
    using goal_effect_exact [of ?a db1 "Some (assignment_state a)" target trigger now] known parts a target totals
    by (auto simp: db1_def exact_goal_def credit_ok_def)
  obtain hs where db2: "db2 = db1\<lparr>assignments := put_row assignment_id (?a\<lparr>credited_record_id := c\<rparr>) ?asgs, histories := hs\<rparr>"
      "map history_id hs = map history_id (histories db)" "goal_ids hs = goal_ids (histories db)"
      "\<forall>h \<in> set hs. exact_goal (assignments db2) h"
    using effect(2) by (auto simp: credited_to_def db1_def)
  have final: "assignments db2 = put_row assignment_id (?a\<lparr>credited_record_id := c\<rparr>) (assignments db)"
    by (simp add: db2)
  have tallies: "tally (assignments db2) rid st = tally ?asgs rid st" for rid st
    using tally_put [OF known(2,1), of "?a\<lparr>credited_record_id := c\<rparr>" rid st]
    by (simp add: db2 row_share_def counted_def)
  have "ledger_ok db2"
    unfolding ledger_ok_def
  proof (intro conjI)
    show "\<forall>x \<in> set (assignments db2). assignment_row_id x \<in> row_id ` set (stock_rows db2) \<and> credit_ok (histories db2) x"
      using parts a effect(3) by (auto simp: db2 db1_def credit_ok_def dest!: put_row_mem)
    have "x \<in> set (assignments db2) \<Longrightarrow> 1 \<le> assignment_quantity x" for x
      using parts a by (auto simp: final positive_def dest!: put_row_mem)
    then show "positive (assignments db2)" by (simp add: positive_def)
  qed (use parts known rows tallies db2(2,4) in \<open>auto simp: db2(1) db1_def exact_row_def\<close>)
  moreover have "move_assignment a target actor now trigger False db = Inr (snapshot_effect a target actor now False db2)"
    using new allowed by (simp add: move_assignment_def Let_def saved paid effect(1) [unfolded db1_def])
  ultimately show ?thesis using db2 final
    by (intro exI [of _ db2] exI [of _ c] exI [of _ hs]) (simp add: db1_def)
qed

section \<open>Loops of moves\<close>

text \<open>
  A loop whose every round succeeds, keeps an invariant and has a given effect on an abstract view, as long as
  its element is ready in the view, which the rounds of the other elements leave so.
\<close>

locale refining_loop =
  fixes step :: "'s \<Rightarrow> 'x \<Rightarrow> 's result"
    and inv :: "'s \<Rightarrow> bool"
    and ready :: "'x \<Rightarrow> 'a \<Rightarrow> bool"
    and abs :: "'s \<Rightarrow> 'a"
    and effect :: "'x \<Rightarrow> 'a \<Rightarrow> 'a"
  assumes step_refines: "inv s \<Longrightarrow> ready x (abs s) \<Longrightarrow> \<exists>s'. step s x = Inr s' \<and> inv s' \<and> abs s' = effect x (abs s)"
    and stays_ready: "ready x v \<Longrightarrow> ready y v \<Longrightarrow> x \<noteq> y \<Longrightarrow> ready y (effect x v)"
begin

lemma loop_refines:
  "inv s \<Longrightarrow> distinct xs \<Longrightarrow> \<forall>x \<in> set xs. ready x (abs s) \<Longrightarrow>
     \<exists>s'. rfold step s xs = Inr s' \<and> inv s' \<and> abs s' = fold effect xs (abs s)"
proof (induction xs arbitrary: s)
  case (Cons x xs)
  obtain s1 where s1: "step s x = Inr s1" "inv s1" "abs s1 = effect x (abs s)"
    using step_refines Cons.prems by (meson list.set_intros(1))
  have "\<forall>y \<in> set xs. ready y (abs s1)"
    using Cons.prems stays_ready s1(3) by fastforce
  then show ?case using Cons.IH [OF s1(2)] Cons.prems(2) s1 by auto
qed simp

end

text \<open>What a loop does to an assignment: its identity, its task, its state and its deletion.\<close>

type_synonym view = "string \<times> string \<times> assignment_state \<times> bool"

definition view :: "stock_assignment \<Rightarrow> view" where
  "view a = (assignment_id a, assignment_task_id a, assignment_state a, assignment_is_deleted a)"

definition views :: "stock_db \<Rightarrow> view list" where
  "views db = map view (assignments db)"

definition live_view :: "string \<Rightarrow> view \<Rightarrow> bool" where
  "live_view tid v = (case v of (_, t, s, d) \<Rightarrow> t = tid \<and> \<not> d \<and> s \<in> ACTIVE_ASSIGNMENT_STATES)"

text \<open>What the partial unique index on the active assignments of a task guarantees.\<close>

definition one_per_task :: "view list \<Rightarrow> bool" where
  "one_per_task vs \<longleftrightarrow> (\<forall>tid. length (filter (live_view tid) vs) \<le> 1)"

lemma one_per_task_mono:
  assumes "one_per_task vs" "\<And>v tid. v \<in> set vs \<Longrightarrow> live_view tid (f v) \<Longrightarrow> live_view tid v"
  shows "one_per_task (map f vs)"
  unfolding one_per_task_def
proof
  fix tid
  have "length (filter (live_view tid) (map f vs)) \<le> length (filter (live_view tid) vs)"
    using assms(2) by (induction vs) (auto simp: le_SucI)
  then show "length (filter (live_view tid) (map f vs)) \<le> 1"
    using assms(1) le_trans unfolding one_per_task_def by blast
qed

definition flags_ok :: "stock_db \<Rightarrow> bool" where
  "flags_ok db \<longleftrightarrow> (\<forall>t \<in> set (stock_tasks db). is_stock_assignment t \<longleftrightarrow> expected_task_flag (assignments db) (stock_task_id t))"

definition view_flag :: "view list \<Rightarrow> string \<Rightarrow> bool" where
  "view_flag vs tid \<longleftrightarrow> (\<exists>(_, t, _, d) \<in> set vs. t = tid \<and> \<not> d)"

lemma expected_flag_view: "expected_task_flag (assignments db) tid = view_flag (views db) tid"
  by (auto simp: expected_task_flag_def view_flag_def views_def view_def)

definition board_ok :: "repair_record list \<Rightarrow> stock_db \<Rightarrow> bool" where
  "board_ok rs db \<longleftrightarrow> ledger_ok db \<and> repairs db = rs \<and> one_per_task (views db)"

lemma row_unique: "distinct (map key rows) \<Longrightarrow> x \<in> set rows \<Longrightarrow> y \<in> set rows \<Longrightarrow> key x = key y \<Longrightarrow> x = y"
  by (metis distinct_map inj_onD)

lemma view_put:
  assumes "distinct (map assignment_id asgs)" "a \<in> set asgs" "assignment_id a' = assignment_id a"
  shows "map view (put_row assignment_id a' asgs) = map (\<lambda>v. if fst v = assignment_id a then view a' else v) (map view asgs)"
  using assms by (simp add: put_row_def view_def comp_def)

text \<open>A move, seen from outside: it succeeds on an exact ledger, repairs nothing and retargets one assignment.\<close>

lemma move_keeps_ledger:
  assumes ok: "ledger_ok db" and a: "a \<in> set (assignments db)" "\<not> assignment_is_deleted a"
    and allowed: "assert_allowed_move (Some (assignment_state a)) target False = Inr ()"
  shows "\<exists>db'. move_assignment a target actor now trigger False db = Inr db' \<and> ledger_ok db' \<and> repairs db' = repairs db
    \<and> stock_tasks db' = stock_tasks db \<and> map row_id (stock_rows db') = map row_id (stock_rows db)
    \<and> (\<exists>a'. moved a target a' \<and> views db' = map (\<lambda>v. if fst v = assignment_id a then view a' else v) (views db))"
proof (cases "target = MoveTo (assignment_state a)")
  case True
  have distinct: "distinct (map assignment_id (assignments db))" using ok by (simp add: ledger_ok_def)
  have "views db = map (\<lambda>v. if fst v = assignment_id a then view a else v) (views db)"
    unfolding views_def using row_unique [OF distinct a(1)] by (intro sym [OF map_idI]) (force simp: view_def)
  then show ?thesis
    using True ok by (intro exI [of _ db]) (auto simp: move_assignment_def moved_def)
next
  case False
  then obtain db' c hs where run: "move_assignment a target actor now trigger False db = Inr (snapshot_effect a target actor now False db')"
    and db': "db' = db\<lparr>assignments := put_row assignment_id ((retargeted False target actor now a)\<lparr>credited_record_id := c\<rparr>) (assignments db),
        stock_rows := update_where (\<lambda>r. row_id r = assignment_row_id a)
          (add_counters (delta_vector (Some (assignment_state a)) target (assignment_quantity a) False)) (stock_rows db),
        histories := hs\<rparr>" and "ledger_ok db'"
    using move_effect [OF ok a False allowed] by blast
  moreover have "views db' = map (\<lambda>v. if fst v = assignment_id a
      then view ((retargeted False target actor now a)\<lparr>credited_record_id := c\<rparr>) else v) (views db)"
    using ok a by (simp add: views_def db' view_put ledger_ok_def del: map_map)
  then have "views (snapshot_effect a target actor now False db') = map (\<lambda>v. if fst v = assignment_id a
      then view ((retargeted False target actor now a)\<lparr>credited_record_id := c\<rparr>) else v) (views db)"
    by (simp add: views_def)
  ultimately show ?thesis
    using moved_retargeted [where x = c and c = False and a = a and target = target and actor = actor and now = now]
    by (intro exI [of _ "snapshot_effect a target actor now False db'"] conjI
        exI [of _ "(retargeted False target actor now a)\<lparr>credited_record_id := c\<rparr>"]) simp_all
qed

section \<open>Task sync\<close>

definition resync :: "stock_task \<Rightarrow> view \<Rightarrow> view" where
  "resync task v = (case v of (i, t, s, d) \<Rightarrow>
     if live_view (stock_task_id task) v then (i, t, ASSIGNMENT_STATE_BY_TASK_STATE (stock_task_state task), d) else v)"

lemma live_view_of [simp]: "live_view tid (view a) \<longleftrightarrow> active_for_task tid a"
  by (simp add: live_view_def view_def active_for_task_def)

lemma sync_allowed:
  assumes "s \<in> ACTIVE_ASSIGNMENT_STATES"
  shows "assert_allowed_move (Some s) (MoveTo (ASSIGNMENT_STATE_BY_TASK_STATE ts)) False = Inr ()"
  using assms by (cases ts) (auto simp: assert_allowed_move_def)

lemma sync_task_refines:
  assumes "board_ok rs db"
  shows "\<exists>db'. sync_task actor now db task = Inr db' \<and> board_ok rs db' \<and> stock_tasks db' = stock_tasks db
    \<and> views db' = map (resync task) (views db)"
proof -
  let ?tid = "stock_task_id task"
  let ?target = "ASSIGNMENT_STATE_BY_TASK_STATE (stock_task_state task)"
  have ok: "ledger_ok db" "repairs db = rs" "one_per_task (views db)" using assms by (simp_all add: board_ok_def)
  then have distinct: "distinct (map assignment_id (assignments db))" by (simp add: ledger_ok_def)
  have "length (filter (active_for_task ?tid) (assignments db)) \<le> 1"
    using ok(3) by (simp add: one_per_task_def views_def filter_map comp_def)
  then consider (none) "filter (active_for_task ?tid) (assignments db) = []"
    | (one) a where "filter (active_for_task ?tid) (assignments db) = [a]"
    by (cases "filter (active_for_task ?tid) (assignments db)") auto
  then show ?thesis
  proof cases
    case none
    then have "map (resync task) (views db) = views db"
      by (intro map_idI) (auto simp: views_def resync_def filter_empty_conv split: prod.splits)
    then show ?thesis using none assms by (intro exI [of _ db]) (simp add: sync_task_def)
  next
    case (one a)
    then have a: "a \<in> set (assignments db)" "active_for_task ?tid a" using filter_eq_singletonD by fastforce+
    have only: "x = a" if "x \<in> set (assignments db)" "active_for_task ?tid x" for x
    proof -
      have "x \<in> set (filter (active_for_task ?tid) (assignments db))" using that by simp
      then show ?thesis using one by simp
    qed
    have live: "\<not> assignment_is_deleted a"
      and allowed: "assert_allowed_move (Some (assignment_state a)) (MoveTo ?target) False = Inr ()"
      using a(2) sync_allowed by (simp_all add: active_for_task_def)
    obtain db' a' where run: "move_assignment a (MoveTo ?target) actor now ''task_sync'' False db = Inr db'" "ledger_ok db'"
        "repairs db' = repairs db" "stock_tasks db' = stock_tasks db" and a': "moved a (MoveTo ?target) a'"
        "views db' = map (\<lambda>v. if fst v = assignment_id a then view a' else v) (views db)"
      using move_keeps_ledger [OF ok(1) a(1) live allowed, of actor now "''task_sync''"]
      by (elim exE conjE) (rule that; assumption)
    have "assignment_row_id a \<in> row_id ` set (stock_rows db)" using ok(1) a(1) by (simp add: ledger_ok_def)
    from locked_known [OF this] obtain r where "locked row_id (assignment_row_id a) (stock_rows db) = Inr r" ..
    moreover have "locked assignment_id (assignment_id a) (assignments db) = Inr a" by (rule locked_self [OF distinct a(1)])
    ultimately have "sync_task actor now db task
        = (if assignment_state a = ?target then Inr db else move_assignment a (MoveTo ?target) actor now ''task_sync'' False db)"
      using a(2) by (simp add: sync_task_def one active_for_task_def)
    moreover have "db' = db" if "assignment_state a = ?target"
      using that run(1) by (simp add: move_assignment_def)
    ultimately have "sync_task actor now db task = Inr db'" using run(1) by simp
    moreover have "map (\<lambda>v. if fst v = assignment_id a then view a' else v) (map view (assignments db))
        = map (resync task) (map view (assignments db))"
      unfolding map_map
    proof (rule map_cong [OF refl])
      fix x assume x: "x \<in> set (assignments db)"
      show "((\<lambda>v. if fst v = assignment_id a then view a' else v) \<circ> view) x = (resync task \<circ> view) x"
      proof (cases "x = a")
        case True
        then show ?thesis using a(2) a'(1) by (simp add: resync_def view_def moved_def live_view_def active_for_task_def)
      next
        case False
        then have "\<not> active_for_task ?tid x" "assignment_id x \<noteq> assignment_id a"
          using only [OF x] row_unique [OF distinct x a(1)] by auto
        then show ?thesis by (auto simp: resync_def view_def live_view_def active_for_task_def)
      qed
    qed
    then have "views db' = map (resync task) (views db)" using a'(2) by (simp only: views_def)
    moreover have "one_per_task (map (resync task) (views db))"
      by (rule one_per_task_mono [OF ok(3)]) (auto simp: resync_def live_view_def split: if_splits)
    ultimately show ?thesis using run ok(2) by (auto simp: board_ok_def)
  qed
qed

interpretation task_sync: refining_loop "sync_task actor now" "\<lambda>db. board_ok rs db \<and> stock_tasks db = ts"
    "\<lambda>_ _. True" views "\<lambda>task. map (resync task)" for actor now rs ts
  by unfold_locales (use sync_task_refines in blast)+

definition agreed :: "stock_task list \<Rightarrow> view \<Rightarrow> view" where
  "agreed changed v = (case v of (i, t, s, d) \<Rightarrow>
     case map_of (map (\<lambda>task. (stock_task_id task, stock_task_state task)) changed) t of
       Some ts \<Rightarrow> if \<not> d \<and> s \<in> ACTIVE_ASSIGNMENT_STATES then (i, t, ASSIGNMENT_STATE_BY_TASK_STATE ts, d) else v
     | None \<Rightarrow> v)"

lemma agreed_nothing [simp]: "agreed [] = (\<lambda>v. v)"
  by (rule ext) (auto simp: agreed_def)

lemma fold_resync:
  assumes "distinct (map stock_task_id changed)"
  shows "fold (\<lambda>task. map (resync task)) changed vs = map (agreed changed) vs"
  using assms
proof (induction changed arbitrary: vs)
  case (Cons task changed)
  have "stock_task_id task \<notin> stock_task_id ` set changed" using Cons.prems by simp
  then have "map_of (map (\<lambda>task. (stock_task_id task, stock_task_state task)) changed) (stock_task_id task) = None"
    by (auto simp: map_of_eq_None_iff)
  then have "agreed changed (resync task v) = agreed (task # changed) v" for v
    by (auto simp: agreed_def resync_def live_view_def split: prod.splits option.splits)
  then show ?case using Cons by simp
qed simp

lemma agreed_sorted:
  assumes "distinct (map stock_task_id changed)"
  shows "agreed (sort_key stock_task_id changed) = agreed changed"
proof -
  have "map_of (map (\<lambda>task. (stock_task_id task, stock_task_state task)) (sort_key stock_task_id changed))
      = map_of (map (\<lambda>task. (stock_task_id task, stock_task_state task)) changed)"
    using assms by (subst map_of_inject_set) (simp_all add: comp_def distinct_map)
  then show ?thesis by (simp add: agreed_def fun_eq_iff)
qed

text \<open>C21: Syncing the assignments of the tasks a command changed succeeds on an exact ledger, whatever the tasks
  and their states. Every active assignment of a changed task ends in the state the map gives for its task, no
  other assignment changes its state, and the ledger is exact again without any repair.\<close>

theorem sync_follows_tasks:
  assumes "ledger_ok db" "one_per_task (views db)" "distinct (map stock_task_id changed)"
  shows "\<exists>db'. sync_task_stock_assignments changed actor now db = Inr db' \<and> views db' = map (agreed changed) (views db)
    \<and> ledger_ok db' \<and> repairs db' = repairs db \<and> one_per_task (views db')"
proof -
  have "board_ok (repairs db) db \<and> stock_tasks db = stock_tasks db" using assms by (simp add: board_ok_def)
  moreover have "distinct (sort_key stock_task_id changed)" using assms(3) by (simp add: distinct_map)
  ultimately obtain db' where "rfold (sync_task actor now) db (sort_key stock_task_id changed) = Inr db'"
      "board_ok (repairs db) db'" "views db' = fold (\<lambda>task. map (resync task)) (sort_key stock_task_id changed) (views db)"
    using task_sync.loop_refines [where rs = "repairs db" and ts = "stock_tasks db" and actor = actor and now = now and s = db]
    by blast
  moreover have "distinct (map stock_task_id (sort_key stock_task_id changed))"
    using assms(3) by (simp add: distinct_map)
  ultimately show ?thesis
    by (auto simp: sync_task_stock_assignments_def fold_resync agreed_sorted [OF assms(3)] board_ok_def)
qed

section \<open>Deletion\<close>

definition withdraw :: "string \<Rightarrow> view list \<Rightarrow> view list" where
  "withdraw i = map (\<lambda>(i', t, s, d). (i', t, s, d \<or> i' = i))"

definition present :: "string \<Rightarrow> view list \<Rightarrow> bool" where
  "present i vs \<longleftrightarrow> (\<exists>(i', _, _, d) \<in> set vs. i' = i \<and> \<not> d)"

lemma flags_recompute:
  assumes "\<And>t. t \<in> set (stock_tasks db) \<Longrightarrow> stock_task_id t \<noteq> tid \<Longrightarrow>
    is_stock_assignment t \<longleftrightarrow> expected_task_flag (assignments db) (stock_task_id t)"
  shows "flags_ok (recompute_task_stock_flag tid db)"
  unfolding flags_ok_def
proof
  fix t assume "t \<in> set (stock_tasks (recompute_task_stock_flag tid db))"
  then obtain t0 where t0: "t0 \<in> set (stock_tasks db)" and t: "t = (if stock_task_id t0 = tid \<and>
      is_stock_assignment t0 \<noteq> expected_task_flag (assignments db) tid
      then t0\<lparr>is_stock_assignment := expected_task_flag (assignments db) tid\<rparr> else t0)"
    by (auto simp: recompute_task_stock_flag_def set_task_stock_flag_def update_where_set)
  have "is_stock_assignment t \<longleftrightarrow> expected_task_flag (assignments db) (stock_task_id t)"
    using assms [OF t0] by (cases "stock_task_id t0 = tid") (auto simp: t)
  then show "is_stock_assignment t
      \<longleftrightarrow> expected_task_flag (assignments (recompute_task_stock_flag tid db)) (stock_task_id t)"
    by (simp add: recompute_task_stock_flag_def set_task_stock_flag_def)
qed

definition delete_one :: "string option \<Rightarrow> int \<Rightarrow> stock_db \<Rightarrow> string \<Rightarrow> stock_db result" where
  "delete_one actor now db i = rbind (locked assignment_id i (assignments db)) (\<lambda>a.
     remove_assignment a actor now ''delete_assignments'' db)"

lemma remove_refines:
  assumes "board_ok rs db" "flags_ok db" and a: "a \<in> set (assignments db)" "\<not> assignment_is_deleted a"
  shows "\<exists>db'. remove_assignment a actor now trigger db = Inr db' \<and> board_ok rs db' \<and> flags_ok db'
    \<and> views db' = withdraw (assignment_id a) (views db)"
proof -
  have ok: "ledger_ok db" "repairs db = rs" "one_per_task (views db)" using assms by (simp_all add: board_ok_def)
  then have distinct: "distinct (map assignment_id (assignments db))" by (simp add: ledger_ok_def)
  have allowed: "assert_allowed_move (Some (assignment_state a)) AssignmentDELETE False = Inr ()"
    by (simp add: assert_allowed_move_def)
  obtain db1 a' where run: "move_assignment a AssignmentDELETE actor now trigger False db = Inr db1" "ledger_ok db1"
      "repairs db1 = repairs db" "stock_tasks db1 = stock_tasks db" and a': "moved a AssignmentDELETE a'"
      "views db1 = map (\<lambda>v. if fst v = assignment_id a then view a' else v) (views db)"
    using move_keeps_ledger [OF ok(1) a allowed, of actor now trigger] by (elim exE conjE) (rule that; assumption)
  have "view a' = (assignment_id a, assignment_task_id a, assignment_state a, True)"
    using a'(1) by (simp add: moved_def view_def)
  moreover have "x = a" if "x \<in> set (assignments db)" "assignment_id x = assignment_id a" for x
    using row_unique [OF distinct that(1) a(1) that(2)] .
  ultimately have "map (\<lambda>v. if fst v = assignment_id a then view a' else v) (map view (assignments db))
      = withdraw (assignment_id a) (map view (assignments db))"
    unfolding withdraw_def map_map by (intro map_cong [OF refl]) (fastforce simp: view_def)
  then have views: "views db1 = withdraw (assignment_id a) (views db)" using a'(2) by (simp only: views_def)
  have others: "view_flag (views db1) tid \<longleftrightarrow> view_flag (views db) tid" if "tid \<noteq> assignment_task_id a" for tid
  proof -
    have "view_flag (withdraw (assignment_id a) (views db)) tid
        \<longleftrightarrow> (\<exists>x \<in> set (assignments db). assignment_task_id x = tid \<and> \<not> assignment_is_deleted x \<and> assignment_id x \<noteq> assignment_id a)"
      by (auto simp: view_flag_def withdraw_def views_def view_def)
    moreover have "view_flag (views db) tid \<longleftrightarrow> (\<exists>x \<in> set (assignments db). assignment_task_id x = tid \<and> \<not> assignment_is_deleted x)"
      by (auto simp: view_flag_def views_def view_def)
    moreover have "assignment_id x \<noteq> assignment_id a" if "x \<in> set (assignments db)" "assignment_task_id x = tid" for x
      using row_unique [OF distinct that(1) a(1)] that(2) \<open>tid \<noteq> assignment_task_id a\<close> by blast
    ultimately show ?thesis unfolding views by blast
  qed
  let ?db' = "recompute_task_stock_flag (assignment_task_id a) db1"
  have same: "views ?db' = views db1" "repairs ?db' = repairs db1" "ledger_ok ?db' = ledger_ok db1"
    by (simp_all add: views_def ledger_ok_def recompute_task_stock_flag_def set_task_stock_flag_def)
  have "flags_ok ?db'"
    using assms(2) others by (intro flags_recompute) (simp add: expected_flag_view run(4) flags_ok_def)
  moreover have "one_per_task (withdraw (assignment_id a) (views db))"
    unfolding withdraw_def by (rule one_per_task_mono [OF ok(3)]) (auto simp: live_view_def)
  ultimately show ?thesis
    using run(1-3) views ok(2) by (simp add: remove_assignment_def board_ok_def same)
qed

lemma delete_one_refines:
  assumes "board_ok rs db \<and> flags_ok db" "present i (views db)"
  shows "\<exists>db'. delete_one actor now db i = Inr db' \<and> (board_ok rs db' \<and> flags_ok db') \<and> views db' = withdraw i (views db)"
proof -
  obtain a where a: "a \<in> set (assignments db)" "assignment_id a = i" "\<not> assignment_is_deleted a"
    using assms(2) by (auto simp: present_def views_def view_def)
  have "distinct (map assignment_id (assignments db))" using assms(1) by (simp add: board_ok_def ledger_ok_def)
  from locked_self [OF this a(1)] have "locked assignment_id i (assignments db) = Inr a" by (simp add: a)
  then show ?thesis
    using remove_refines [of rs db a actor now "''delete_assignments''"] assms(1) a by (simp add: delete_one_def)
qed

interpretation deletion: refining_loop "delete_one actor now" "\<lambda>db. board_ok rs db \<and> flags_ok db" present views withdraw
  for actor now rs
  by unfold_locales (use delete_one_refines in blast, force simp: present_def withdraw_def)

text \<open>C22: Deleting assignments withdraws exactly the named ones, or nothing. When the ids, repetitions included, all
  name existing assignments that are not deleted, the command succeeds, whatever their states; the named assignments
  and no others are deleted, no state changes, the counters and the goal totals are exact again without any repair,
  and the stock flag of every task agrees with its remaining assignments. When some id does not, the command fails
  before it changes anything, with an error that lists exactly the ids that do not, once each and in order.\<close>

theorem deletion_withdraws_named:
  assumes "ledger_ok db" "one_per_task (views db)" "flags_ok db"
  shows "if list_all (\<lambda>i. present i (views db)) ids
    then \<exists>db'. delete_stock_task_assignments ids actor now db = Inr db'
      \<and> views db' = map (\<lambda>(i, t, s, d). (i, t, s, d \<or> i \<in> set ids)) (views db)
      \<and> ledger_ok db' \<and> repairs db' = repairs db \<and> flags_ok db'
    else \<exists>missing. delete_stock_task_assignments ids actor now db
        = Inl (NotFound (''Stock task assignment(s) not found: '' @ intercalate '', '' missing))
      \<and> sorted missing \<and> distinct missing \<and> set missing = {i \<in> set ids. \<not> present i (views db)}"
proof -
  let ?ids = "sort (dedupe ids)"
  let ?missing = "filter (\<lambda>i. i \<notin> set (map assignment_id (filter (\<lambda>a. assignment_id a \<in> set ?ids \<and> \<not> assignment_is_deleted a)
      (assignments db)))) ?ids"
  have found: "i \<in> assignment_id ` {a \<in> set (assignments db). assignment_id a \<in> set ids \<and> \<not> assignment_is_deleted a} \<longleftrightarrow> present i (views db)"
    if "i \<in> set ids" for i
    using that by (force simp: present_def views_def view_def)
  then have missing: "?missing = filter (\<lambda>i. \<not> present i (views db)) ?ids" by (intro filter_cong) auto
  show ?thesis
  proof (cases "list_all (\<lambda>i. present i (views db)) ids")
    case True
    then have "board_ok (repairs db) db \<and> flags_ok db" "distinct ?ids" "\<forall>i \<in> set ?ids. present i (views db)"
      using assms by (simp_all add: board_ok_def list_all_iff)
    then obtain db' where run: "rfold (delete_one actor now) db ?ids = Inr db'" "board_ok (repairs db) db' \<and> flags_ok db'"
        "views db' = fold withdraw ?ids (views db)"
      using deletion.loop_refines [where rs = "repairs db" and actor = actor and now = now and s = db] by blast
    have "fold withdraw is vs = map (\<lambda>(i, t, s, d). (i, t, s, d \<or> i \<in> set is)) vs" for "is" vs
      by (induction "is" arbitrary: vs) (auto simp: withdraw_def)
    moreover have "?missing = []" using True unfolding missing by (simp add: filter_empty_conv list_all_iff)
    ultimately show ?thesis
      using True run by (simp add: delete_stock_task_assignments_def Let_def delete_one_def [abs_def] board_ok_def)
  next
    case False
    then have "filter (\<lambda>i. \<not> present i (views db)) ?ids \<noteq> []" by (auto simp: filter_empty_conv list_all_iff)
    then have "delete_stock_task_assignments ids actor now db
        = Inl (NotFound (''Stock task assignment(s) not found: '' @ intercalate '', '' (filter (\<lambda>i. \<not> present i (views db)) ?ids)))"
      unfolding delete_stock_task_assignments_def Let_def missing by (simp add: rguard_def)
    then show ?thesis using False by (auto intro!: exI [of _ "filter (\<lambda>i. \<not> present i (views db)) ?ids"] simp: sorted_wrt_filter)
  qed
qed

section \<open>Repair\<close>

text \<open>C23: The counter statement repairs a drifted counter instead of letting it go negative. Whatever the drift, the
  statement succeeds on an existing row and leaves every other row alone. When no column would go negative it
  adds the deltas and records nothing; otherwise the row's counters become exact, and a repair is recorded for
  exactly the columns whose stored value plus delta was not the recomputed one.\<close>

theorem counter_drift_is_repaired:
  assumes "distinct (map row_id (stock_rows db))" "r \<in> set (stock_rows db)"
  shows "\<exists>db' r'. apply_counter_delta (row_id r) d trigger now db = Inr db' \<and> assignments db' = assignments db
    \<and> set (stock_rows db') = insert r' (set (stock_rows db) - {r}) \<and> row_id r' = row_id r \<and> row_requested r' = row_requested r
    \<and> (if counters_nonneg (add_counters d r)
       then (\<forall>st. column st r' = column st r + column st d) \<and> repairs db' = repairs db
       else exact_row (assignments db) r'
         \<and> map (\<lambda>p. (repair_field p, stored_value p, recomputed_value p)) (drop (length (repairs db)) (repairs db'))
           = map (\<lambda>(field, st). (field, column st r, column st r'))
               (filter (\<lambda>(field, st). column st r + column st d \<noteq> column st r')
                 [(''quantity_in_queue'', AsgIN_QUEUE), (''quantity_in_progress'', AsgIN_PROGRESS),
                  (''quantity_awaiting'', AsgAWAITING)]))"
proof -
  have others: "set (update_where (\<lambda>x. row_id x = row_id r) f (stock_rows db)) = insert (f r) (set (stock_rows db) - {r})"
    for f
  proof -
    have "update_where (\<lambda>x. row_id x = row_id r) f (stock_rows db) = map (\<lambda>x. if x = r then f r else x) (stock_rows db)"
      unfolding update_where_def using row_unique [OF assms(1) _ assms(2)] by (intro map_cong) auto
    then show ?thesis using assms(2) by auto
  qed
  have same: "row_requested (add_counters d r) = row_requested r" "row_requested (copy_counters c r) = row_requested r" for c :: counters
    by (simp_all add: add_counters_def copy_counters_def)
  show ?thesis
  proof (cases "counters_nonneg (add_counters d r)")
    case True
    show ?thesis
      by (intro exI [of _ "add_counters d r"] exI conjI, rule delta_applies [OF assms True]) (simp_all add: others same True)
  next
    case False
    let ?c = "recompute_row_counters (assignments db) (row_id r)"
    have "apply_counter_delta (row_id r) d trigger now db = Inr (db\<lparr>stock_rows := update_where (\<lambda>x. row_id x = row_id r)
          (copy_counters ?c) (stock_rows db),
        repairs := repairs db
          @ counter_repair (row_id r) trigger now ''quantity_in_queue'' (quantity_in_queue r) (quantity_in_queue d) (quantity_in_queue ?c)
          @ counter_repair (row_id r) trigger now ''quantity_in_progress'' (quantity_in_progress r) (quantity_in_progress d) (quantity_in_progress ?c)
          @ counter_repair (row_id r) trigger now ''quantity_awaiting'' (quantity_awaiting r) (quantity_awaiting d) (quantity_awaiting ?c)\<rparr>)"
      using delta_heals(1) [OF assms False, of trigger now] delta_heals(2) [OF assms False]
      by (simp add: self_heal_counters_def Let_def counters.defs)
    moreover have "exact_row (assignments db) (copy_counters ?c r)" by (simp add: exact_row_def)
    ultimately show ?thesis
      using False by - (rule exI, rule exI [of _ "copy_counters ?c r"], intro conjI, assumption,
        simp_all add: others same counter_repair_def copy_counters_def)
  qed
qed

section \<open>An example\<close>

definition sample_row :: stock_row where
  "sample_row = \<lparr>quantity_in_queue = 1, quantity_in_progress = 2, quantity_awaiting = 1,
     row_id = ''r'', row_category_id = ''c'', row_properties = [], row_signature = ''g'', row_requested = 6, row_is_deleted = False,
     row_deleted_at = None, row_deleted_by_id = None, row_updated_at = None, row_updated_by_id = None\<rparr>"

definition sample_assignment :: "string \<Rightarrow> string \<Rightarrow> int \<Rightarrow> assignment_state \<Rightarrow> string option \<Rightarrow> stock_assignment" where
  "sample_assignment i tid q st credit =
     \<lparr>assignment_id = i, assignment_row_id = ''r'', assignment_task_id = tid, assignment_item_id = ''item'' @ tid,
      credited_record_id = credit, assignment_quantity = q, mismatch_overridden = False, assignment_state = st,
      assignment_created_by_id = None, assignment_updated_at = None, assignment_updated_by_id = None,
      assignment_is_deleted = False, assignment_deleted_at = None, assignment_deleted_by_id = None\<rparr>"

definition sample_goal :: "string \<Rightarrow> int \<Rightarrow> int \<Rightarrow> history_record" where
  "sample_goal i w n = \<lparr>history_id = i, history_row_id = ''r'', history_type = HistQUANTITY_REQUESTED_CHANGE,
     history_requested = 6, history_source = ReqSCANNER, history_awaiting = n, history_priority = None,
     history_priority_order = None, history_created_at = w, history_created_by_id = None, history_is_deleted = False,
     history_deleted_at = None, history_deleted_by_id = None\<rparr>"

definition sample_snapshot :: "string \<Rightarrow> string \<Rightarrow> int option \<Rightarrow> stock_priority option \<Rightarrow> int option \<Rightarrow> item_snapshot" where
  "sample_snapshot i rid missing prio order = \<lparr>quantity_in_queue = 0, quantity_in_progress = 0, quantity_awaiting = 0,
     snapshot_id = i, snapshot_version_id = ''v'', snapshot_row_id = rid, requested_scanner = Some 6, requested_manual = None,
     snapshot_missing = missing, snapshot_resolved = 0, snapshot_priority = prio, priority_order = order,
     snapshot_active_at = Some 1, snapshot_closed_at = None, snapshot_updated_at = None, snapshot_updated_by_id = None\<rparr>"

definition sample_stock :: stock_db where
  "sample_stock = \<lparr>stock_rows = [sample_row],
     assignments = [sample_assignment ''a1'' ''t1'' 1 AsgIN_QUEUE None, sample_assignment ''a2'' ''t2'' 2 AsgIN_PROGRESS None,
       sample_assignment ''a3'' ''t3'' 1 AsgAWAITING (Some ''h1'')],
     histories = [sample_goal ''h1'' 10 1, sample_goal ''h2'' 20 0],
     snapshots = [sample_snapshot ''s'' ''r'' (Some 2) (Some PriorityHIGH) (Some 1)], versions = [], repairs = [],
     stock_tasks = [\<lparr>stock_task_id = ''t1'', stock_task_state = TaskREADY, stock_task_is_deleted = False, is_stock_assignment = True\<rparr>,
       \<lparr>stock_task_id = ''t2'', stock_task_state = TaskCANCELLED, stock_task_is_deleted = False, is_stock_assignment = True\<rparr>,
       \<lparr>stock_task_id = ''t3'', stock_task_state = TaskWORKING, stock_task_is_deleted = False, is_stock_assignment = True\<rparr>],
     stock_items = [], primary_pairs = [], categories = [], schedulers = []\<rparr>"

lemma goal_ids_filter: "goal_ids hs = history_id ` set (filter (\<lambda>h. history_type h = HistQUANTITY_REQUESTED_CHANGE) hs)"
  by (auto simp: goal_ids_def)

lemma sample_stock_ok: "ledger_ok sample_stock" "one_per_task (views sample_stock)" "flags_ok sample_stock"
proof -
  show "ledger_ok sample_stock"
    by (simp add: ledger_ok_def sample_stock_def sample_row_def sample_assignment_def sample_goal_def positive_def credit_ok_def
        goal_ids_filter exact_row_def all_columns tally_def row_share_def counted_def exact_goal_def recompute_goal_total_def)
  show "flags_ok sample_stock"
    by (simp add: flags_ok_def sample_stock_def expected_task_flag_def sample_assignment_def)
  show "one_per_task (views sample_stock)"
    by (auto simp: one_per_task_def views_def view_def sample_stock_def sample_assignment_def live_view_def)
qed

lemma sample_agreed:
  "map (\<lambda>(_, _, s, _). s) (map (agreed (stock_tasks sample_stock)) (views sample_stock)) = [AsgAWAITING, AsgFAILED, AsgIN_PROGRESS]"
  by code_simp

lemma sample_withdrawn:
  "map (\<lambda>(_, _, _, d). d) (map (\<lambda>(i, t, s, d). (i, t, s, d \<or> i \<in> set [''a3'', ''a1'', ''a3''])) (views sample_stock))
     = [True, False, True]"
  by code_simp

theorem counter_drift_is_repaired_witness:
  "\<exists>db' r'. apply_counter_delta ''r'' \<lparr>quantity_in_queue = -2, quantity_in_progress = 0, quantity_awaiting = 0\<rparr> ''x'' 9 sample_stock = Inr db'
     \<and> r' \<in> set (stock_rows db') \<and> exact_row (assignments sample_stock) r'"
proof -
  let ?d = "\<lparr>quantity_in_queue = -2, quantity_in_progress = 0, quantity_awaiting = 0\<rparr> :: counters"
  have r: "distinct (map row_id (stock_rows sample_stock))" "sample_row \<in> set (stock_rows sample_stock)"
    by (simp_all add: sample_stock_def)
  have "row_id sample_row = ''r''" "\<not> counters_nonneg (add_counters ?d sample_row)"
    by (simp_all add: sample_row_def add_counters_def counters_nonneg_def)
  then show ?thesis using counter_drift_is_repaired [OF r, of ?d "''x''" 9] by (force simp: Let_def)
qed

theorem sync_follows_tasks_witness:
  "\<exists>db'. sync_task_stock_assignments (stock_tasks sample_stock) None 9 sample_stock = Inr db'
     \<and> map assignment_state (assignments db') = [AsgAWAITING, AsgFAILED, AsgIN_PROGRESS]"
proof -
  have "distinct (map stock_task_id (stock_tasks sample_stock))" by (simp add: sample_stock_def)
  from sync_follows_tasks [OF sample_stock_ok(1,2) this, of None 9] obtain db'
    where db': "sync_task_stock_assignments (stock_tasks sample_stock) None 9 sample_stock = Inr db'"
      "views db' = map (agreed (stock_tasks sample_stock)) (views sample_stock)" by blast
  have "map assignment_state (assignments db') = map (\<lambda>(_, _, s, _). s) (views db')"
    by (simp add: views_def view_def)
  also have "\<dots> = [AsgAWAITING, AsgFAILED, AsgIN_PROGRESS]"
    unfolding db'(2) by (rule sample_agreed)
  finally show ?thesis using db'(1) by (intro exI [of _ db'] conjI)
qed

theorem deletion_withdraws_named_witness:
  "(\<exists>db'. delete_stock_task_assignments [''a3'', ''a1'', ''a3''] None 9 sample_stock = Inr db'
       \<and> map assignment_is_deleted (assignments db') = [True, False, True])
   \<and> delete_stock_task_assignments [''a3'', ''zz'', ''a1''] None 9 sample_stock
       = Inl (NotFound (''Stock task assignment(s) not found: '' @ ''zz''))"
proof
  have "list_all (\<lambda>i. present i (views sample_stock)) [''a3'', ''a1'', ''a3'']"
    by (simp add: present_def views_def view_def sample_stock_def sample_assignment_def)
  then obtain db' where db': "delete_stock_task_assignments [''a3'', ''a1'', ''a3''] None 9 sample_stock = Inr db'"
      "views db' = map (\<lambda>(i, t, s, d). (i, t, s, d \<or> i \<in> set [''a3'', ''a1'', ''a3''])) (views sample_stock)"
    using deletion_withdraws_named [OF sample_stock_ok, of "[''a3'', ''a1'', ''a3'']" None 9] by (simp only: if_True) blast
  have "map assignment_is_deleted (assignments db') = map (\<lambda>(_, _, _, d). d) (views db')"
    by (simp add: views_def view_def)
  also have "\<dots> = [True, False, True]"
    unfolding db'(2) by (rule sample_withdrawn)
  finally show "\<exists>db'. delete_stock_task_assignments [''a3'', ''a1'', ''a3''] None 9 sample_stock = Inr db'
       \<and> map assignment_is_deleted (assignments db') = [True, False, True]" using db'(1) by (intro exI [of _ db'] conjI)
next
  have absent: "\<not> list_all (\<lambda>i. present i (views sample_stock)) [''a3'', ''zz'', ''a1'']"
    "{i \<in> set [''a3'', ''zz'', ''a1'']. \<not> present i (views sample_stock)} = {''zz''}"
    by (auto simp: present_def views_def view_def sample_stock_def sample_assignment_def)
  obtain missing where missing: "delete_stock_task_assignments [''a3'', ''zz'', ''a1''] None 9 sample_stock
        = Inl (NotFound (''Stock task assignment(s) not found: '' @ intercalate '', '' missing))"
      "distinct missing" "set missing = {''zz''}"
    using deletion_withdraws_named [OF sample_stock_ok, of "[''a3'', ''zz'', ''a1'']" None 9] unfolding if_not_P [OF absent(1)] absent(2) by blast
  have "missing = [''zz'']" using missing(2,3) by (cases missing) (auto simp: subset_singleton_iff)
  then show "delete_stock_task_assignments [''a3'', ''zz'', ''a1''] None 9 sample_stock
       = Inl (NotFound (''Stock task assignment(s) not found: '' @ ''zz''))" using missing(1) by simp
qed

end
