(* ===== verification/StockProcessing.thy ===== *)
theory StockProcessing
  imports StockLedger
begin

text \<open>
  The processed webhook of the stock report (\<open>services/commands/stock_report/process_items_processed.py\<close>) over the
  grouped resolution of \<open>_move_assignment.py\<close>. A group, which pays one counter statement and one snapshot credit,
  has exactly the effect of moving its assignments one by one, and the webhook resolves the open work it names.
\<close>

section \<open>One processed assignment\<close>

definition settled :: "string option \<Rightarrow> int \<Rightarrow> stock_assignment \<Rightarrow> stock_assignment" where
  "settled goal now a =
     (let a' = retargeted False (MoveTo (processed_target (assignment_state a))) None now a in
      if assignment_state a = AsgAWAITING \<or> goal = None then a' else a'\<lparr>credited_record_id := goal\<rparr>)"

definition credited :: "string option \<Rightarrow> stock_assignment \<Rightarrow> history_record list \<Rightarrow> history_record list" where
  "credited goal a hists =
     (if assignment_state a = AsgAWAITING \<or> goal = None then hists
      else update_where (\<lambda>h. Some (history_id h) = goal) (add_awaiting (assignment_quantity a)) hists)"

definition freed :: "stock_assignment \<Rightarrow> counters" where
  "freed a = add_to_column (assignment_state a) (- assignment_quantity a) no_counters"

definition processed :: "int \<Rightarrow> string \<Rightarrow> stock_assignment \<Rightarrow> stock_db \<Rightarrow> stock_db" where
  "processed now rid a db =
     credit_snapshot_resolved rid (assignment_quantity a) now
       (db\<lparr>assignments := put_row assignment_id (settled (current_goal_record_id (histories db) rid) now a) (assignments db),
           stock_rows := update_where (\<lambda>r. row_id r = rid) (add_counters (freed a)) (stock_rows db),
           histories := credited (current_goal_record_id (histories db) rid) a (histories db)\<rparr>)"

definition processable :: "string \<Rightarrow> stock_assignment \<Rightarrow> bool" where
  "processable rid a \<longleftrightarrow> assignment_row_id a = rid \<and> \<not> assignment_is_deleted a \<and> assignment_state a \<in> ACTIVE_ASSIGNMENT_STATES"

lemma newest_update:
  assumes "\<And>h. history_id (f h) = history_id h" "\<And>h. history_created_at (f h) = history_created_at h"
  shows "map_option history_id (newest (map f hs)) = map_option history_id (newest hs)"
proof -
  have "newest (map f hs) = map_option f (newest hs)"
    by (induction hs) (auto simp: newer_def assms split: option.splits)
  then show ?thesis by (simp add: option.map_comp comp_def assms)
qed

lemma current_goal_credited [simp]:
  "current_goal_record_id (credited goal a hists) rid = current_goal_record_id hists rid"
proof -
  let ?f = "\<lambda>h. if Some (history_id h) = goal then add_awaiting (assignment_quantity a) h else h"
  have "filter (goal_of rid) (map ?f hists) = map ?f (filter (goal_of rid) hists)"
    by (induction hists) (simp_all add: goal_of_def)
  then show ?thesis
    by (simp add: credited_def current_goal_record_id_def update_where_def newest_update)
qed

lemma credit_explicit:
  assumes "a \<in> set (assignments db)" "distinct (map assignment_id (assignments db))"
  shows "credit_current_goal a db =
    (case current_goal_record_id (histories db) (assignment_row_id a) of
       None \<Rightarrow> Inr db
     | Some gid \<Rightarrow> Inr (db\<lparr>assignments := put_row assignment_id (a\<lparr>credited_record_id := Some gid\<rparr>) (assignments db),
         histories := update_where (\<lambda>h. history_id h = gid) (add_awaiting (assignment_quantity a)) (histories db)\<rparr>))"
proof (cases "current_goal_record_id (histories db) (assignment_row_id a)")
  case (Some gid)
  have "filter (\<lambda>h. history_id h = gid) (histories db) \<noteq> []"
    using current_goal_is_goal [OF Some] by (auto simp: goal_ids_def filter_empty_conv)
  then show ?thesis using Some assms(1) by (simp add: credit_current_goal_def save_known)
qed (simp add: credit_current_goal_def)

text \<open>The goal effect of a processed assignment, on a store that holds its retargeted row.\<close>

lemma put_row_same: "distinct (map key rows) \<Longrightarrow> r \<in> set rows \<Longrightarrow> put_row key r rows = rows"
  unfolding put_row_def by (intro map_idI) (metis row_unique)

lemma processed_goal_effect:
  assumes "retargeted False (MoveTo (processed_target (assignment_state a))) None now a \<in> set (assignments db)"
    and "distinct (map assignment_id (assignments db))" "assignment_state a \<in> ACTIVE_ASSIGNMENT_STATES"
  shows "apply_goal_effect (retargeted False (MoveTo (processed_target (assignment_state a))) None now a)
      (Some (assignment_state a)) (MoveTo (processed_target (assignment_state a))) trigger now db
    = Inr (db\<lparr>assignments := put_row assignment_id
          (settled (current_goal_record_id (histories db) (assignment_row_id a)) now a) (assignments db),
        histories := credited (current_goal_record_id (histories db) (assignment_row_id a)) a (histories db)\<rparr>)"
proof -
  note same = put_row_same [OF assms(2,1)]
  show ?thesis
  proof (cases "assignment_state a = AsgAWAITING")
    case True
    then show ?thesis using same by (simp add: apply_goal_effect_def processed_target_def settled_def credited_def)
  next
    case False
    then show ?thesis
      using credit_explicit [OF assms(1,2)] same assms(3)
      by (cases "current_goal_record_id (histories db) (assignment_row_id a)")
        (simp_all add: apply_goal_effect_def processed_target_def settled_def credited_def Let_def)
  qed
qed

section \<open>A group is its moves\<close>

lemma settled_keeps [simp]:
  "assignment_id (settled g now a) = assignment_id a" "assignment_row_id (settled g now a) = assignment_row_id a"
  "assignment_quantity (settled g now a) = assignment_quantity a"
  "assignment_state (settled g now a) = processed_target (assignment_state a)"
  by (simp_all add: settled_def Let_def)

lemma freed_delta:
  "assignment_state a \<in> ACTIVE_ASSIGNMENT_STATES \<Longrightarrow>
     delta_vector (Some (assignment_state a)) (MoveTo (processed_target (assignment_state a))) (assignment_quantity a) False = freed a"
  by (simp add: delta_vector_def freed_def processed_target_def)

lemma processed_allowed:
  "s \<in> ACTIVE_ASSIGNMENT_STATES \<Longrightarrow> assert_allowed_move (Some s) (MoveTo (processed_target s)) False = Inr ()"
  "s \<in> ACTIVE_ASSIGNMENT_STATES \<Longrightarrow> processed_target s \<noteq> s"
  by (cases s; simp add: assert_allowed_move_def processed_target_def)+

lemma processed_repairs [simp]: "repairs (processed now rid a db) = repairs db"
  and processed_current [simp]: "current_goal_record_id (histories (processed now rid a db)) = current_goal_record_id (histories db)"
  by (simp_all add: processed_def credit_snapshot_resolved_def fun_eq_iff)

lemma move_is_processed:
  assumes ok: "ledger_ok db" and a: "a \<in> set (assignments db)" "processable rid a"
  shows "move_assignment a (MoveTo (processed_target (assignment_state a))) None now trigger False db = Inr (processed now rid a db)"
    and "ledger_ok (processed now rid a db)"
proof -
  let ?t = "MoveTo (processed_target (assignment_state a))"
  let ?a = "retargeted False ?t None now a"
  let ?asgs = "put_row assignment_id ?a (assignments db)"
  let ?rows = "update_where (\<lambda>r. row_id r = rid) (add_counters (freed a)) (stock_rows db)"
  have live: "assignment_row_id a = rid" "\<not> assignment_is_deleted a" "assignment_state a \<in> ACTIVE_ASSIGNMENT_STATES"
    using a(2) by (simp_all add: processable_def)
  note allowed = processed_allowed [OF live(3)]
  have new: "?t \<noteq> MoveTo (assignment_state a)" using allowed(2) by simp
  obtain db' c hs where run: "move_assignment a ?t None now trigger False db = Inr (snapshot_effect a ?t None now False db')"
    and db': "db' = db\<lparr>assignments := put_row assignment_id (?a\<lparr>credited_record_id := c\<rparr>) (assignments db),
      stock_rows := update_where (\<lambda>r. row_id r = assignment_row_id a)
        (add_counters (delta_vector (Some (assignment_state a)) ?t (assignment_quantity a) False)) (stock_rows db),
      histories := hs\<rparr>" "ledger_ok db'"
    using move_effect [OF ok a(1) live(2) new allowed(1), of None now trigger] by (elim exE conjE) (rule that; assumption)
  have known: "?a \<in> set ?asgs" "distinct (map assignment_id ?asgs)"
    using ok a(1) by (simp_all add: ledger_ok_def)
  have saved: "save_assignment ?a db = db\<lparr>assignments := ?asgs\<rparr>" using a(1) by (simp add: save_known)
  note parts = ok [unfolded ledger_ok_def]
  have known_row: "rid \<in> row_id ` set (stock_rows db)" using parts a(1) live(1) by auto
  have positive: "positive ?asgs"
    using parts a(1) by (auto simp: positive_def dest!: put_row_mem)
  have "\<forall>r \<in> set (stock_rows db). owes ?asgs rid (add_counters (freed a) no_counters) r"
    using parts owes_retargeted [OF _ a(1) live(2) new] live(1) freed_delta [OF live(3)] by simp
  then have "\<forall>r \<in> set (stock_rows db). owes ?asgs rid (freed a) r" by (simp add: owes_def)
  then have paid: "apply_counter_delta rid (freed a) trigger now (db\<lparr>assignments := ?asgs\<rparr>)
      = Inr (db\<lparr>assignments := ?asgs, stock_rows := ?rows\<rparr>)"
    using debt_is_paid(1) [of "db\<lparr>assignments := ?asgs\<rparr>" rid "freed a" trigger now] parts known_row positive known by simp
  have effect: "apply_goal_effect ?a (Some (assignment_state a)) ?t trigger now (db\<lparr>assignments := ?asgs, stock_rows := ?rows\<rparr>)
    = Inr (db\<lparr>assignments := put_row assignment_id (settled (current_goal_record_id (histories db) rid) now a) (assignments db),
        stock_rows := ?rows, histories := credited (current_goal_record_id (histories db) rid) a (histories db)\<rparr>)"
    using processed_goal_effect [of a now "db\<lparr>assignments := ?asgs, stock_rows := ?rows\<rparr>" trigger] known live by simp
  have "snapshot_effect a ?t None now False db = credit_snapshot_resolved rid (assignment_quantity a) now db" for db
    using live(1) by (simp add: snapshot_effect_def processed_target_def)
  then show final: "move_assignment a ?t None now trigger False db = Inr (processed now rid a db)"
    using new by (simp add: move_assignment_def Let_def allowed(1) live(1) saved freed_delta [OF live(3)] paid effect processed_def)
  then show "ledger_ok (processed now rid a db)"
    using run db'(2) by (metis ledger_ok_snapshots sum.inject(2))
qed

text \<open>Moving one after the other.\<close>

lemma processed_others:
  assumes "b \<in> set (assignments db)" "assignment_id b \<noteq> assignment_id a"
  shows "b \<in> set (assignments (processed now rid a db))"
  using assms by (simp add: processed_def credit_snapshot_resolved_def put_row_other)

lemma moves_are_processed:
  assumes "ledger_ok db" "distinct (map assignment_id asgs)" "set asgs \<subseteq> set (assignments db)" "\<forall>a \<in> set asgs. processable rid a"
  shows "rfold (\<lambda>db a. move_assignment a (MoveTo (processed_target (assignment_state a))) None now trigger False db) db asgs
      = Inr (fold (processed now rid) asgs db) \<and> ledger_ok (fold (processed now rid) asgs db)"
  using assms
proof (induction asgs arbitrary: db)
  case (Cons a asgs)
  have one: "move_assignment a (MoveTo (processed_target (assignment_state a))) None now trigger False db = Inr (processed now rid a db)"
    "ledger_ok (processed now rid a db)"
    using move_is_processed [OF Cons.prems(1)] Cons.prems(3,4) by auto
  have "set asgs \<subseteq> set (assignments (processed now rid a db))"
    using Cons.prems(2,3) by (auto intro!: processed_others simp: image_iff)
  then show ?case using Cons one by simp
qed simp

definition debts :: "stock_assignment list \<Rightarrow> counters" where
  "debts asgs = foldl (\<lambda>d a. add_to_column (assignment_state a) (- assignment_quantity a) d) no_counters asgs"

text \<open>The fields of the store after all the moves.\<close>

lemma add_counters_twice: "add_counters d (add_counters e r) = add_counters (add_counters d e) r"
  by (simp add: add_counters_def)

lemma add_to_column_freed: "add_to_column (assignment_state a) (- assignment_quantity a) d = add_counters (freed a) d"
  by (cases "assignment_state a") (simp_all add: freed_def no_counters_def add_counters_def)

lemma update_where_twice:
  "(\<And>r. P r \<Longrightarrow> P (f r)) \<Longrightarrow> update_where P g (update_where P f rows) = update_where P (\<lambda>r. g (f r)) rows"
  by (simp add: update_where_def)

lemma credit_twice:
  "1 \<le> p \<Longrightarrow> 0 \<le> q \<Longrightarrow> credit_snapshot_resolved rid q now (credit_snapshot_resolved rid p now db)
     = credit_snapshot_resolved rid (q + p) now db"
  by (cases "q = 0") (simp_all add: credit_snapshot_resolved_def update_where_twice is_snapshot_active_def add.assoc add.commute add.left_commute)

lemma processed_credit:
  "processed now rid a (credit_snapshot_resolved rid q now db) = credit_snapshot_resolved rid q now (processed now rid a db)"
  by (cases "q \<le> 0"; cases "assignment_quantity a \<le> 0")
    (simp_all add: processed_def credit_snapshot_resolved_def update_where_twice is_snapshot_active_def add.assoc add.commute add.left_commute)

lemma debts_snoc: "debts (asgs @ [a]) = add_counters (freed a) (debts asgs)"
  by (simp add: debts_def add_to_column_freed)

lemma processed_all:
  assumes "\<forall>a \<in> set asgs. 1 \<le> assignment_quantity a"
  shows "fold (processed now rid) asgs db =
    (if asgs = [] then db else
     credit_snapshot_resolved rid (sum_list (map assignment_quantity asgs)) now
       (db\<lparr>assignments := fold (\<lambda>a. put_row assignment_id (settled (current_goal_record_id (histories db) rid) now a)) asgs (assignments db),
           stock_rows := update_where (\<lambda>r. row_id r = rid) (add_counters (debts asgs)) (stock_rows db),
           histories := fold (credited (current_goal_record_id (histories db) rid)) asgs (histories db)\<rparr>))"
  using assms
proof (induction asgs rule: rev_induct)
  case (snoc a asgs)
  let ?g = "current_goal_record_id (histories db) rid"
  let ?db = "\<lambda>asgs. db\<lparr>assignments := fold (\<lambda>a. put_row assignment_id (settled ?g now a)) asgs (assignments db),
    stock_rows := update_where (\<lambda>r. row_id r = rid) (add_counters (debts asgs)) (stock_rows db),
    histories := fold (credited ?g) asgs (histories db)\<rparr>"
  let ?q = "sum_list (map assignment_quantity asgs)"
  have goal: "current_goal_record_id (fold (credited g) asgs hs) rid = current_goal_record_id hs rid" for g hs
    by (induction asgs arbitrary: hs) simp_all
  have step: "processed now rid a (?db asgs) = credit_snapshot_resolved rid (assignment_quantity a) now (?db (asgs @ [a]))"
    by (simp add: processed_def goal debts_snoc update_where_twice add_counters_twice)
  have "0 \<le> ?q" "1 \<le> assignment_quantity a"
    using snoc.prems by (force intro: sum_list_nonneg)+
  note credits = credit_twice [OF this(2,1)]
  show ?case
  proof (cases "asgs = []")
    case True
    then show ?thesis by (simp add: processed_def debts_def freed_def)
  next
    case False
    then have "fold (processed now rid) (asgs @ [a]) db = processed now rid a (credit_snapshot_resolved rid ?q now (?db asgs))"
      using snoc by simp
    also have "\<dots> = credit_snapshot_resolved rid (?q + assignment_quantity a) now (?db (asgs @ [a]))"
      by (simp only: processed_credit step credits)
    finally show ?thesis by simp
  qed
qed simp

text \<open>The group, phase by phase: the rows are marked, the counters paid once, the goals settled, the credit given.\<close>

definition marked :: "int \<Rightarrow> stock_assignment \<Rightarrow> stock_assignment" where
  "marked now a = retargeted False (MoveTo (processed_target (assignment_state a))) None now a"

lemma marked_id [simp]: "assignment_id (marked now a) = assignment_id a"
  by (simp add: marked_def)

lemma keys_fold_put [simp]:
  "(\<And>a. key (f a) = key a) \<Longrightarrow> map key (fold (\<lambda>a. put_row key (f a)) xs rows) = map key rows"
  by (induction xs arbitrary: rows) simp_all

lemma mark_phase:
  assumes "\<forall>a \<in> set asgs. assignment_state a \<in> ACTIVE_ASSIGNMENT_STATES"
    and "assignment_id ` set asgs \<subseteq> assignment_id ` set (assignments db)"
  shows "rfold (mark_processed now) (db, acc) asgs
    = Inr (db\<lparr>assignments := fold (\<lambda>a. put_row assignment_id (marked now a)) asgs (assignments db)\<rparr>,
        acc @ map (\<lambda>a. (marked now a, assignment_state a)) asgs)"
  using assms
proof (induction asgs arbitrary: db acc)
  case (Cons a asgs)
  have "mark_processed now (db, acc) a = Inr (db\<lparr>assignments := put_row assignment_id (marked now a) (assignments db)\<rparr>,
      acc @ [(marked now a, assignment_state a)])"
    using Cons.prems processed_allowed [of "assignment_state a"]
    by (simp add: mark_processed_def Let_def save_known marked_def)
  moreover have "assignment_id ` set (put_row assignment_id (marked now a) (assignments db)) = assignment_id ` set (assignments db)"
    by (metis keys_put_row list.set_map)
  ultimately show ?case using Cons by simp
qed simp

lemma group_deltas_marked: "group_deltas (map (\<lambda>a. (marked now a, assignment_state a)) asgs) = debts asgs"
  by (simp add: group_deltas_def debts_def foldl_map marked_def)

lemma put_row_commute: "key a \<noteq> key b \<Longrightarrow> put_row key a (put_row key b rows) = put_row key b (put_row key a rows)"
  by (simp add: put_row_def)

lemma put_over_fold:
  "(\<And>x. key (f x) = key x) \<Longrightarrow> key b \<notin> key ` set xs \<Longrightarrow>
     put_row key b (fold (\<lambda>a. put_row key (f a)) xs rows) = fold (\<lambda>a. put_row key (f a)) xs (put_row key b rows)"
proof (induction xs arbitrary: rows)
  case (Cons a xs)
  then show ?case using put_row_commute [of key b "f a" rows] by simp
qed simp

lemma put_all_twice:
  assumes "\<And>x. key (f x) = key x" "\<And>x. key (g x) = key x" "distinct (map key xs)"
  shows "fold (\<lambda>a. put_row key (g a)) xs (fold (\<lambda>a. put_row key (f a)) xs rows) = fold (\<lambda>a. put_row key (g a)) xs rows"
  using assms(3)
proof (induction xs arbitrary: rows)
  case (Cons a xs)
  then show ?case
    using put_over_fold [of key f "g a" xs] assms(1,2) by simp
qed simp

lemma marked_present:
  assumes "distinct (map assignment_id asgs)" "distinct (map assignment_id rows)" "set asgs \<subseteq> set rows" "a \<in> set asgs"
  shows "marked now a \<in> set (fold (\<lambda>a. put_row assignment_id (marked now a)) asgs rows)"
  using assms
proof (induction asgs arbitrary: rows)
  case (Cons b asgs)
  have keep: "x \<in> set (fold (\<lambda>a. put_row assignment_id (marked now a)) asgs rows')"
    if "x \<in> set rows'" "assignment_id x \<notin> assignment_id ` set asgs" for x rows'
    using that by (induction asgs arbitrary: rows') (simp_all add: put_row_other)
  show ?case
  proof (cases "a = b")
    case True
    then show ?thesis using Cons.prems by (auto intro!: keep)
  next
    case False
    moreover have "set asgs \<subseteq> set (put_row assignment_id (marked now b) rows)"
      using Cons.prems(1,3) by (auto simp: image_iff intro!: put_row_other)
    ultimately show ?thesis using Cons by simp
  qed
qed simp

lemma goal_phase:
  assumes "\<forall>a \<in> set asgs. marked now a \<in> set (assignments db) \<and> processable rid a"
    and "distinct (map assignment_id (assignments db))" "distinct (map assignment_id asgs)"
  shows "rfold (\<lambda>db (a, s). apply_goal_effect a (Some s) (MoveTo (assignment_state a)) trigger now db) db
      (map (\<lambda>a. (marked now a, assignment_state a)) asgs)
    = Inr (db\<lparr>assignments := fold (\<lambda>a. put_row assignment_id (settled (current_goal_record_id (histories db) rid) now a)) asgs (assignments db),
        histories := fold (credited (current_goal_record_id (histories db) rid)) asgs (histories db)\<rparr>)"
  using assms
proof (induction asgs arbitrary: db)
  case (Cons a asgs)
  let ?g = "current_goal_record_id (histories db) rid"
  let ?db = "db\<lparr>assignments := put_row assignment_id (settled ?g now a) (assignments db), histories := credited ?g a (histories db)\<rparr>"
  have "apply_goal_effect (marked now a) (Some (assignment_state a)) (MoveTo (assignment_state (marked now a))) trigger now db = Inr ?db"
    using processed_goal_effect [of a now db trigger] Cons.prems(1,2) by (simp add: marked_def processable_def)
  moreover have "\<forall>b \<in> set asgs. marked now b \<in> set (assignments ?db) \<and> processable rid b"
    using Cons.prems(1,3) by (auto simp: image_iff intro!: put_row_other)
  ultimately show ?case using Cons by simp
qed simp

lemma group_payment:
  assumes "ledger_ok db" "distinct (map assignment_id asgs)" "set asgs \<subseteq> set (assignments db)" "\<forall>a \<in> set asgs. processable rid a"
    and "asgs \<noteq> []"
  shows "apply_counter_delta rid (debts asgs) trigger now (db\<lparr>assignments := xs\<rparr>)
    = Inr (db\<lparr>assignments := xs, stock_rows := update_where (\<lambda>r. row_id r = rid) (add_counters (debts asgs)) (stock_rows db)\<rparr>)"
proof -
  have parts: "distinct (map row_id (stock_rows db))" "\<forall>a \<in> set asgs. 1 \<le> assignment_quantity a"
    using assms(1,3) by (auto simp: ledger_ok_def positive_def)
  obtain r where r: "r \<in> set (stock_rows db)" "row_id r = rid"
    using assms(1,3-5) by (cases asgs) (auto simp: ledger_ok_def processable_def)
  have ok: "ledger_ok (fold (processed now rid) asgs db)"
    using moves_are_processed [OF assms(1-4)] by blast
  have rows: "stock_rows (fold (processed now rid) asgs db) = update_where (\<lambda>r. row_id r = rid) (add_counters (debts asgs)) (stock_rows db)"
    using assms(5) by (simp add: processed_all [OF parts(2)] credit_snapshot_resolved_def)
  have "add_counters (debts asgs) r \<in> set (stock_rows (fold (processed now rid) asgs db))"
    using r by (auto simp: rows update_where_set intro!: bexI [of _ r])
  then have "counters_nonneg (add_counters (debts asgs) r)"
    using ok tally_nonneg by (simp add: ledger_ok_def exact_row_def counters_nonneg_iff del: column_add)
  then show ?thesis
    using delta_applies [of "db\<lparr>assignments := xs\<rparr>" r "debts asgs" trigger now] parts(1) r by simp
qed

lemma resolve_is_processed:
  assumes "ledger_ok db" "distinct (map assignment_id asgs)" "set asgs \<subseteq> set (assignments db)" "\<forall>a \<in> set asgs. processable rid a"
  shows "resolve_processed_group asgs rid now trigger db = Inr (fold (processed now rid) asgs db)"
proof (cases "asgs = []")
  case False
  let ?marked = "fold (\<lambda>a. put_row assignment_id (marked now a)) asgs (assignments db)"
  let ?g = "current_goal_record_id (histories db) rid"
  have parts: "distinct (map assignment_id (assignments db))" "\<forall>a \<in> set asgs. 1 \<le> assignment_quantity a"
    using assms(1,3) by (auto simp: ledger_ok_def positive_def)
  have mark: "rfold (mark_processed now) (db, []) asgs
      = Inr (db\<lparr>assignments := ?marked\<rparr>, map (\<lambda>a. (marked now a, assignment_state a)) asgs)"
    using mark_phase [of asgs db now "[]"] assms(3,4) by (auto simp: processable_def)
  let ?db = "db\<lparr>assignments := ?marked, stock_rows := update_where (\<lambda>r. row_id r = rid) (add_counters (debts asgs)) (stock_rows db)\<rparr>"
  have goals: "rfold (\<lambda>db (a, s). apply_goal_effect a (Some s) (MoveTo (assignment_state a)) trigger now db) ?db
      (map (\<lambda>a. (marked now a, assignment_state a)) asgs)
    = Inr (?db\<lparr>assignments := fold (\<lambda>a. put_row assignment_id (settled ?g now a)) asgs (assignments db),
        histories := fold (credited ?g) asgs (histories db)\<rparr>)"
    using goal_phase [of asgs now ?db rid trigger] marked_present [OF assms(2) parts(1) assms(3)] assms(2,4) parts(1)
    by (simp add: put_all_twice)
  have quantities: "sum_list (map (\<lambda>(a, _). assignment_quantity a) (map (\<lambda>a. (marked now a, assignment_state a)) asgs))
      = sum_list (map assignment_quantity asgs)"
    by (simp add: comp_def marked_def)
  show ?thesis
    unfolding resolve_processed_group_def mark rbind_Inr prod.case group_deltas_marked group_payment [OF assms False] goals quantities
    using False by (cases db) (simp add: processed_all [OF parts(2)])
qed (simp add: resolve_processed_group_def)

text \<open>C24: Resolving a group of assignments of one row is the same as moving them one by one. On an exact ledger, a
  group of distinct active assignments of a row that pays a single counter statement and a single snapshot
  credit ends in the same store as a move per assignment: the same assignments, counters, goal credits, completion
  memory, and no repair.\<close>

theorem grouped_resolution_is_moves:
  assumes "ledger_ok db" "distinct (map assignment_id asgs)" "set asgs \<subseteq> set (assignments db)" "\<forall>a \<in> set asgs. processable rid a"
  shows "resolve_processed_group asgs rid now trigger db
    = rfold (\<lambda>db a. move_assignment a (MoveTo (processed_target (assignment_state a))) None now trigger False db) db asgs"
  using resolve_is_processed [OF assms] moves_are_processed [OF assms] by simp

section \<open>The processed webhook\<close>

datatype processed_outcome = OutcomeRESOLVED | OutcomeIGNORED

datatype processed_reason = ReasonITEM_NOT_FOUND | ReasonNO_OPEN_ASSIGNMENT | ReasonEARLY

type_synonym verdict = "string \<times> processed_outcome \<times> processed_reason option"

definition items_by_number :: "string list \<Rightarrow> stock_item list \<Rightarrow> (string \<times> string) list" where
  "items_by_number numbers items = dict_of (map (\<lambda>i. (the (article_number i), stock_item_id i))
     (filter (\<lambda>i. \<not> stock_item_is_deleted i \<and> article_number i \<in> Some ` set numbers) items))"

definition live_assignment :: "stock_assignment \<Rightarrow> bool" where
  "live_assignment a \<longleftrightarrow> \<not> assignment_is_deleted a \<and> assignment_state a \<in> ACTIVE_ASSIGNMENT_STATES"

definition open_by_item :: "string list \<Rightarrow> stock_assignment list \<Rightarrow> (string \<times> string) list" where
  "open_by_item item_ids asgs = dict_of (map (\<lambda>a. (assignment_item_id a, assignment_id a))
     (filter (\<lambda>a. live_assignment a \<and> assignment_item_id a \<in> set item_ids) asgs))"

definition decide ::
    "(string \<times> string) list \<Rightarrow> (string \<times> string) list
      \<Rightarrow> (string \<times> assignment_state) list \<times> string list \<times> verdict list \<Rightarrow> string
      \<Rightarrow> ((string \<times> assignment_state) list \<times> string list \<times> verdict list) result" where
  "decide items opened acc number =
     (case acc of (working, chosen, outcomes) \<Rightarrow>
        case map_of items (strip number) of
          None \<Rightarrow> Inr (working, chosen, outcomes @ [(number, OutcomeIGNORED, Some ReasonITEM_NOT_FOUND)])
        | Some item \<Rightarrow>
            (case map_of opened item of
               None \<Rightarrow> Inr (working, chosen, outcomes @ [(number, OutcomeIGNORED, Some ReasonNO_OPEN_ASSIGNMENT)])
             | Some aid \<Rightarrow>
                 (case map_of working aid of
                    None \<Rightarrow> Inl (KeyError aid)
                  | Some s \<Rightarrow>
                      if s \<notin> ACTIVE_ASSIGNMENT_STATES
                      then Inr (working, chosen, outcomes @ [(number, OutcomeIGNORED, Some ReasonNO_OPEN_ASSIGNMENT)])
                      else Inr (AList.update aid (processed_target s) working,
                        if aid \<in> set chosen then chosen else chosen @ [aid],
                        outcomes @ [(number, OutcomeRESOLVED, if s = AsgAWAITING then None else Some ReasonEARLY)]))))"

definition group_by_row :: "stock_assignment list \<Rightarrow> (string \<times> stock_assignment list) list" where
  "group_by_row asgs = group_by assignment_row_id asgs"

definition resolve_row_group ::
    "(string \<times> stock_assignment list) list \<Rightarrow> int \<Rightarrow> stock_db \<Rightarrow> string \<Rightarrow> stock_db result" where
  "resolve_row_group groups now db rid =
     (case map_of groups rid of
        None \<Rightarrow> Inl (KeyError rid)
      | Some asgs \<Rightarrow> rbind (locked row_id rid (stock_rows db)) (\<lambda>_. resolve_processed_group asgs rid now ''items_processed'' db))"

text \<open>The command after the authentication and the parsing of the body.\<close>

definition process_items_processed :: "string list \<Rightarrow> int \<Rightarrow> stock_db \<Rightarrow> (stock_db \<times> verdict list) result" where
  "process_items_processed numbers now db =
     (let items = items_by_number (map strip numbers) (stock_items db);
          opened = open_by_item (map snd items) (assignments db);
          candidates = filter (\<lambda>a. assignment_id a \<in> snd ` set opened) (assignments db);
          working = map (\<lambda>a. (assignment_id a, assignment_state a)) candidates in
      rbind (rfold (decide items opened) (working, [], []) numbers) (\<lambda>(_, chosen, outcomes).
      rbind (rmap (\<lambda>i. locked assignment_id i (assignments db)) chosen) (\<lambda>asgs.
      let groups = group_by_row asgs in
      rbind (rfold (resolve_row_group groups now) db (sort (map fst groups))) (\<lambda>db.
      Inr (db, outcomes)))))"

section \<open>What the webhook decides\<close>

definition item_for :: "stock_db \<Rightarrow> string \<Rightarrow> stock_item option" where
  "item_for db number = List.find (\<lambda>i. \<not> stock_item_is_deleted i \<and> article_number i = Some (strip number)) (stock_items db)"

definition open_for :: "stock_db \<Rightarrow> string \<Rightarrow> stock_assignment option" where
  "open_for db iid = List.find (\<lambda>a. live_assignment a \<and> assignment_item_id a = iid) (assignments db)"

definition target_for :: "stock_db \<Rightarrow> string \<Rightarrow> stock_assignment option" where
  "target_for db number = (case item_for db number of None \<Rightarrow> None | Some i \<Rightarrow> open_for db (stock_item_id i))"

text \<open>The unique indexes of the two tables.\<close>

definition indexes_ok :: "stock_db \<Rightarrow> bool" where
  "indexes_ok db \<longleftrightarrow>
     distinct (map article_number (filter (\<lambda>i. \<not> stock_item_is_deleted i \<and> article_number i \<noteq> None) (stock_items db)))
     \<and> distinct (map assignment_item_id (filter live_assignment (assignments db)))"

definition mentioned :: "stock_db \<Rightarrow> string list \<Rightarrow> stock_assignment list" where
  "mentioned db numbers = dedupe (List.map_filter (target_for db) numbers)"

definition verdict :: "stock_db \<Rightarrow> string list \<Rightarrow> string \<Rightarrow> verdict" where
  "verdict db earlier number =
     (case item_for db number of
        None \<Rightarrow> (number, OutcomeIGNORED, Some ReasonITEM_NOT_FOUND)
      | Some i \<Rightarrow>
          (case open_for db (stock_item_id i) of
             None \<Rightarrow> (number, OutcomeIGNORED, Some ReasonNO_OPEN_ASSIGNMENT)
           | Some a \<Rightarrow> if a \<in> set (mentioned db earlier) then (number, OutcomeIGNORED, Some ReasonNO_OPEN_ASSIGNMENT)
               else (number, OutcomeRESOLVED, if assignment_state a = AsgAWAITING then None else Some ReasonEARLY)))"

definition verdicts :: "stock_db \<Rightarrow> string list \<Rightarrow> verdict list" where
  "verdicts db numbers = map (\<lambda>k. verdict db (take k numbers) (numbers ! k)) [0..<length numbers]"

lemma verdicts_snoc: "verdicts db (ns @ [n]) = verdicts db ns @ [verdict db ns n]"
  by (simp add: verdicts_def nth_append cong: map_cong)

lemma mentioned_snoc: "mentioned db (ns @ [n]) = (case target_for db n of None \<Rightarrow> mentioned db ns
   | Some a \<Rightarrow> if a \<in> set (mentioned db ns) then mentioned db ns else mentioned db ns @ [a])"
  by (simp add: mentioned_def List.map_filter_def dedupe_snoc split: option.splits)

lemma dict_lookup_unique:
  assumes "distinct (map key (filter P xs))" "x \<in> set xs" "P x"
  shows "map_of (dict_of (map (\<lambda>x. (key x, val x)) (filter P xs))) (key x) = Some (val x)"
proof -
  have "distinct (map fst (map (\<lambda>x. (key x, val x)) (filter P xs)))" using assms(1) by (simp add: comp_def)
  then show ?thesis
    using assms(2,3) by (simp add: dict_of_distinct)
qed

lemma dict_lookup_absent:
  assumes "distinct (map key (filter P xs))" "\<And>x. x \<in> set xs \<Longrightarrow> P x \<Longrightarrow> key x \<noteq> k"
  shows "map_of (dict_of (map (\<lambda>x. (key x, val x)) (filter P xs))) k = None"
proof -
  have "distinct (map fst (map (\<lambda>x. (key x, val x)) (filter P xs)))" using assms(1) by (simp add: comp_def)
  moreover have "k \<notin> fst ` set (map (\<lambda>x. (key x, val x)) (filter P xs))"
    using assms(2) by fastforce
  ultimately show ?thesis by (simp only: dict_of_distinct map_of_eq_None_iff not_False_eq_True)
qed

lemma find_unique:
  assumes "x \<in> set xs" "P x" "\<And>y. y \<in> set xs \<Longrightarrow> P y \<Longrightarrow> y = x"
  shows "List.find P xs = Some x"
proof (cases "List.find P xs")
  case None
  then show ?thesis using assms(1,2) by (simp add: find_None_iff)
next
  case (Some y)
  then have "y \<in> set xs" "P y" by (auto simp: find_Some_iff)
  then show ?thesis using Some assms(3) by simp
qed

lemma distinct_map_sub: "distinct (map f (filter P xs)) \<Longrightarrow> (\<And>x. x \<in> set xs \<Longrightarrow> Q x \<Longrightarrow> P x) \<Longrightarrow> distinct (map f (filter Q xs))"
proof -
  assume distinct: "distinct (map f (filter P xs))" and sub: "\<And>x. x \<in> set xs \<Longrightarrow> Q x \<Longrightarrow> P x"
  have "filter Q xs = filter Q (filter P xs)"
    unfolding filter_filter using sub by (intro filter_cong) auto
  then show ?thesis using distinct_map_filter [OF distinct] by metis
qed

lemma items_lookup:
  assumes "indexes_ok db" "n \<in> set numbers"
  shows "map_of (items_by_number (map strip numbers) (stock_items db)) (strip n) = map_option stock_item_id (item_for db n)"
proof -
  let ?P = "\<lambda>i. \<not> stock_item_is_deleted i \<and> article_number i \<in> Some ` set (map strip numbers)"
  have "distinct (map article_number (filter ?P (stock_items db)))"
    using assms(1) unfolding indexes_ok_def by (elim conjE) (erule distinct_map_sub, auto)
  moreover have "map article_number (filter ?P (stock_items db)) = map Some (map (\<lambda>i. the (article_number i)) (filter ?P (stock_items db)))"
    unfolding map_map by (rule map_cong) auto
  ultimately have distinct: "distinct (map (\<lambda>i. the (article_number i)) (filter ?P (stock_items db)))"
    by (simp only: distinct_map)
  show ?thesis
  proof (cases "item_for db n")
    case None
    then have "the (article_number i) \<noteq> strip n" if "i \<in> set (stock_items db)" "?P i" for i
      using that by (auto simp: item_for_def find_None_iff)
    from dict_lookup_absent [OF distinct this] show ?thesis using None by (simp add: items_by_number_def)
  next
    case (Some i)
    then have i: "i \<in> set (stock_items db)" "?P i" "the (article_number i) = strip n"
      using assms(2) by (auto simp: item_for_def find_Some_iff)
    then show ?thesis
      using dict_lookup_unique [OF distinct i(1,2), of stock_item_id] Some by (simp add: items_by_number_def)
  qed
qed

lemma open_lookup:
  assumes "indexes_ok db" "iid \<in> set ids"
  shows "map_of (open_by_item ids (assignments db)) iid = map_option assignment_id (open_for db iid)"
proof -
  let ?P = "\<lambda>a. live_assignment a \<and> assignment_item_id a \<in> set ids"
  have distinct: "distinct (map assignment_item_id (filter ?P (assignments db)))"
    using assms(1) unfolding indexes_ok_def by (elim conjE) (erule distinct_map_sub, simp)
  show ?thesis
  proof (cases "open_for db iid")
    case None
    then have "assignment_item_id a \<noteq> iid" if "a \<in> set (assignments db)" "?P a" for a
      using that by (auto simp: open_for_def find_None_iff)
    from dict_lookup_absent [OF distinct this] show ?thesis using None by (simp add: open_by_item_def)
  next
    case (Some a)
    then have a: "a \<in> set (assignments db)" "?P a" "assignment_item_id a = iid"
      using assms(2) by (auto simp: open_for_def find_Some_iff)
    then show ?thesis
      using dict_lookup_unique [OF distinct a(1,2), of assignment_id] Some by (simp add: open_by_item_def)
  qed
qed

lemma target_in:
  assumes "target_for db n = Some a"
  shows "a \<in> set (assignments db)" "live_assignment a"
proof -
  obtain i :: stock_item where "open_for db (stock_item_id i) = Some a"
    using assms by (auto simp: target_for_def split: option.splits)
  then show "a \<in> set (assignments db)" "live_assignment a" by (auto simp: open_for_def find_Some_iff)
qed

lemma mentioned_in: "a \<in> set (mentioned db ns) \<Longrightarrow> a \<in> set (assignments db) \<and> live_assignment a"
  by (auto simp: mentioned_def List.map_filter_def target_in)

lemma processed_not_active [simp]: "processed_target s \<notin> ACTIVE_ASSIGNMENT_STATES"
  by (simp add: processed_target_def)

definition tracked :: "stock_db \<Rightarrow> string list \<Rightarrow> (string \<times> assignment_state) list \<Rightarrow> string list \<Rightarrow> bool" where
  "tracked db numbers working ns \<longleftrightarrow> (\<forall>n \<in> set numbers. \<forall>a. target_for db n = Some a \<longrightarrow>
     map_of working (assignment_id a)
       = Some (if a \<in> set (mentioned db ns) then processed_target (assignment_state a) else assignment_state a))"

lemma decide_step:
  assumes "indexes_ok db" "distinct (map assignment_id (assignments db))" "n \<in> set numbers" "tracked db numbers working ns"
  defines "items \<equiv> items_by_number (map strip numbers) (stock_items db)"
  shows "\<exists>working'. decide items (open_by_item (map snd items) (assignments db))
      (working, map assignment_id (mentioned db ns), verdicts db ns) n
    = Inr (working', map assignment_id (mentioned db (ns @ [n])), verdicts db (ns @ [n])) \<and> tracked db numbers working' (ns @ [n])"
proof (cases "item_for db n")
  case None
  then have "target_for db n = None" by (simp add: target_for_def)
  then show ?thesis
    using None assms(4) items_lookup [OF assms(1,3)]
    by (simp add: decide_def items_def mentioned_snoc verdicts_snoc verdict_def tracked_def)
next
  case (Some i)
  have item: "map_of items (strip n) = Some (stock_item_id i)"
    using items_lookup [OF assms(1,3)] Some by (simp add: items_def)
  then have "stock_item_id i \<in> set (map snd items)" by (force dest: map_of_SomeD)
  note opened = open_lookup [OF assms(1) this]
  show ?thesis
  proof (cases "open_for db (stock_item_id i)")
    case None
    then have "target_for db n = None" using Some by (simp add: target_for_def)
    then show ?thesis
      using None Some item opened assms(4)
      by (simp add: decide_def mentioned_snoc verdicts_snoc verdict_def tracked_def)
  next
    case (Some a)
    then have target: "target_for db n = Some a" using \<open>item_for db n = Some i\<close> by (simp add: target_for_def)
    note a = target_in [OF target]
    have known: "map_of working (assignment_id a)
        = Some (if a \<in> set (mentioned db ns) then processed_target (assignment_state a) else assignment_state a)"
      using assms(3,4) target by (simp add: tracked_def)
    have unique: "b = a" if "b \<in> set (assignments db)" "assignment_id b = assignment_id a" for b
      by (rule row_unique [OF assms(2) that(1) a(1) that(2)])
    show ?thesis
    proof (cases "a \<in> set (mentioned db ns)")
      case True
      then show ?thesis
        using Some \<open>item_for db n = Some i\<close> item opened assms(4) known target
        by (simp add: decide_def mentioned_snoc verdicts_snoc verdict_def tracked_def)
    next
      case False
      have "assignment_id a \<notin> assignment_id ` set (mentioned db ns)"
      proof
        assume "assignment_id a \<in> assignment_id ` set (mentioned db ns)"
        then obtain b where b: "b \<in> set (mentioned db ns)" "assignment_id b = assignment_id a" by (elim imageE) simp
        then show False using unique [OF conjunct1 [OF mentioned_in [OF b(1)]] b(2)] False by simp
      qed
      moreover have "tracked db numbers (AList.update (assignment_id a) (processed_target (assignment_state a)) working) (ns @ [n])"
        unfolding tracked_def
      proof (intro ballI allI impI)
        fix m b assume m: "m \<in> set numbers" "target_for db m = Some b"
        then have "map_of working (assignment_id b)
            = Some (if b \<in> set (mentioned db ns) then processed_target (assignment_state b) else assignment_state b)"
          using assms(4) by (simp add: tracked_def)
        moreover have "assignment_id b = assignment_id a \<longleftrightarrow> b = a"
          using unique [OF target_in(1) [OF m(2)]] by blast
        ultimately show "map_of (AList.update (assignment_id a) (processed_target (assignment_state a)) working) (assignment_id b)
            = Some (if b \<in> set (mentioned db (ns @ [n])) then processed_target (assignment_state b) else assignment_state b)"
          using target False by (simp add: mentioned_snoc update_conv)
      qed
      ultimately show ?thesis
        using Some \<open>item_for db n = Some i\<close> item opened known target False a(2)
        by (simp add: decide_def mentioned_snoc verdicts_snoc verdict_def live_assignment_def)
    qed
  qed
qed

lemma rfold_snoc: "rfold f s (xs @ [x]) = rbind (rfold f s xs) (\<lambda>s. f s x)"
  by (induction xs arbitrary: s) (simp_all add: rbind_def split: sum.splits)

lemma decide_loop:
  assumes "indexes_ok db" "distinct (map assignment_id (assignments db))" "set ns \<subseteq> set numbers" "tracked db numbers working []"
  defines "items \<equiv> items_by_number (map strip numbers) (stock_items db)"
  shows "\<exists>working'. rfold (decide items (open_by_item (map snd items) (assignments db))) (working, [], []) ns
    = Inr (working', map assignment_id (mentioned db ns), verdicts db ns) \<and> tracked db numbers working' ns"
  using assms(3)
proof (induction ns rule: rev_induct)
  case Nil
  then show ?case using assms(4) by (simp add: mentioned_def verdicts_def List.map_filter_def)
next
  case (snoc n ns)
  then obtain working' where "rfold (decide items (open_by_item (map snd items) (assignments db))) (working, [], []) ns
      = Inr (working', map assignment_id (mentioned db ns), verdicts db ns)" "tracked db numbers working' ns" by auto
  then show ?case
    using decide_step [OF assms(1,2), of n numbers working' ns] snoc.prems by (simp add: rfold_snoc items_def)
qed

lemma tracked_start:
  fixes numbers :: "string list"
  assumes "indexes_ok db" "distinct (map assignment_id (assignments db))"
  defines "items \<equiv> items_by_number (map strip numbers) (stock_items db)"
  shows "tracked db numbers (map (\<lambda>a. (assignment_id a, assignment_state a))
    (filter (\<lambda>a. assignment_id a \<in> snd ` set (open_by_item (map snd items) (assignments db))) (assignments db))) []"
  unfolding tracked_def
proof (intro ballI allI impI)
  fix n a assume n: "n \<in> set numbers" and target: "target_for db n = Some a"
  obtain i where i: "item_for db n = Some i" "open_for db (stock_item_id i) = Some a"
    using target by (auto simp: target_for_def split: option.splits)
  have "map_of items (strip n) = Some (stock_item_id i)"
    using items_lookup [OF assms(1) n] i by (simp add: items_def)
  then have "stock_item_id i \<in> set (map snd items)" by (force dest: map_of_SomeD)
  then have "map_of (open_by_item (map snd items) (assignments db)) (stock_item_id i) = Some (assignment_id a)"
    using open_lookup [OF assms(1)] i(2) by simp
  then have "assignment_id a \<in> snd ` set (open_by_item (map snd items) (assignments db))"
    by (force dest: map_of_SomeD)
  then show "map_of (map (\<lambda>a. (assignment_id a, assignment_state a)) (filter (\<lambda>a. assignment_id a
        \<in> snd ` set (open_by_item (map snd items) (assignments db))) (assignments db))) (assignment_id a)
    = Some (if a \<in> set (mentioned db []) then processed_target (assignment_state a) else assignment_state a)"
    using assms(2) target_in(1) [OF target]
    by (simp add: mentioned_def List.map_filter_def map_of_eq_Some_iff comp_def distinct_map_filter image_iff) blast
qed

section \<open>What the webhook does\<close>

lemma group_lookup:
  "map_of (group_by_row asgs) rid =
     (let g = filter (\<lambda>a. assignment_row_id a = rid) asgs in if g = [] then None else Some g)"
  by (simp add: group_by_row_def group_by_lookup)

lemma group_keys: "distinct (map fst (group_by_row asgs))"
  by (simp add: group_by_row_def)

lemma group_rows: "set (map fst (group_by_row asgs)) = assignment_row_id ` set asgs"
  by (simp add: group_by_row_def)

definition process_view :: "string list \<Rightarrow> view \<Rightarrow> view" where
  "process_view ids v = (case v of (i, t, s, d) \<Rightarrow> if i \<in> set ids then (i, t, processed_target s, d) else v)"

lemma views_processed:
  assumes "ledger_ok db" "a \<in> set (assignments db)" "processable rid a"
  shows "views (processed now rid a db) = map (process_view [assignment_id a]) (views db)"
proof -
  have distinct: "distinct (map assignment_id (assignments db))" using assms(1) by (simp add: ledger_ok_def)
  have "views (processed now rid a db) = map view (put_row assignment_id (settled (current_goal_record_id (histories db) rid) now a) (assignments db))"
    by (simp add: views_def processed_def credit_snapshot_resolved_def)
  also have "\<dots> = map (process_view [assignment_id a]) (views db)"
    unfolding views_def map_map put_row_def
  proof (intro map_cong refl)
    fix x assume x: "x \<in> set (assignments db)"
    show "(view \<circ> (\<lambda>r. if assignment_id r = assignment_id (settled (current_goal_record_id (histories db) rid) now a)
          then settled (current_goal_record_id (histories db) rid) now a else r)) x
        = (process_view [assignment_id a] \<circ> view) x"
      using row_unique [OF distinct x assms(2)]
      by (cases "x = a") (auto simp: process_view_def view_def settled_def Let_def)
  qed
  finally show ?thesis .
qed

lemma process_view_twice:
  "set is \<inter> set js = {} \<Longrightarrow> process_view is (process_view js v) = process_view (js @ is) v"
  by (auto simp: process_view_def split: prod.splits)

lemma process_view_nothing [simp]: "process_view [] = (\<lambda>v. v)"
  by (rule ext) (auto simp: process_view_def)

lemma group_views:
  assumes "ledger_ok db" "distinct (map assignment_id asgs)" "set asgs \<subseteq> set (assignments db)" "\<forall>a \<in> set asgs. processable rid a"
  shows "views (fold (processed now rid) asgs db) = map (process_view (map assignment_id asgs)) (views db)"
  using assms
proof (induction asgs arbitrary: db)
  case (Cons a asgs)
  have one: "ledger_ok (processed now rid a db)" "set asgs \<subseteq> set (assignments (processed now rid a db))"
    using Cons.prems move_is_processed(2) by (auto intro!: processed_others simp: image_iff)
  have "set (map assignment_id asgs) \<inter> set [assignment_id a] = {}" using Cons.prems(2) by auto
  note twice = process_view_twice [OF this]
  show ?case
    using Cons.IH [OF one(1) _ one(2)] Cons.prems views_processed [of db a rid now] twice by (simp add: comp_def)
qed simp

lemma fold_processed_others:
  "b \<in> set (assignments db) \<Longrightarrow> assignment_id b \<notin> assignment_id ` set asgs \<Longrightarrow>
     b \<in> set (assignments (fold (processed now rid) asgs db))"
  by (induction asgs arbitrary: db) (simp_all add: processed_others)

definition groups_ok :: "stock_assignment list \<Rightarrow> string list \<Rightarrow> stock_db \<Rightarrow> bool" where
  "groups_ok asgs rids db \<longleftrightarrow> distinct (map assignment_id asgs) \<and> distinct rids
     \<and> (\<forall>a \<in> set asgs. assignment_row_id a \<in> set rids \<longrightarrow> a \<in> set (assignments db) \<and> live_assignment a)"

definition of_rows :: "string list \<Rightarrow> stock_assignment list \<Rightarrow> stock_assignment list" where
  "of_rows rids asgs = filter (\<lambda>a. assignment_row_id a \<in> set rids) asgs"

lemma groups_loop:
  assumes "ledger_ok db" "groups_ok asgs rids db" "set rids \<subseteq> assignment_row_id ` set asgs"
  shows "\<exists>db'. rfold (resolve_row_group (group_by_row asgs) now) db rids = Inr db' \<and> ledger_ok db' \<and> repairs db' = repairs db
    \<and> stock_tasks db' = stock_tasks db \<and> views db' = map (process_view (map assignment_id (of_rows rids asgs))) (views db)"
  using assms
proof (induction rids arbitrary: db)
  case Nil
  then show ?case by (intro exI [of _ db]) (simp add: of_rows_def)
next
  case (Cons rid rids)
  let ?g = "filter (\<lambda>a. assignment_row_id a = rid) asgs"
  let ?db = "fold (processed now rid) ?g db"
  have parts: "distinct (map assignment_id asgs)" "distinct (rid # rids)"
    using Cons.prems(2) by (simp_all add: groups_ok_def)
  have member: "a \<in> set (assignments db)" "live_assignment a" if "a \<in> set asgs" "assignment_row_id a \<in> set (rid # rids)" for a
    using Cons.prems(2) that by (auto simp: groups_ok_def)
  have group: "distinct (map assignment_id ?g)" "set ?g \<subseteq> set (assignments db)" "\<forall>a \<in> set ?g. processable rid a"
    using parts(1) member by (auto simp: processable_def live_assignment_def distinct_map_filter)
  obtain a where a: "a \<in> set asgs" "assignment_row_id a = rid" using Cons.prems(3) by auto
  then have "rid \<in> row_id ` set (stock_rows db)"
    using member Cons.prems(1) by (auto simp: ledger_ok_def)
  from locked_known [OF this] obtain r where "locked row_id rid (stock_rows db) = Inr r" ..
  then have run: "resolve_row_group (group_by_row asgs) now db rid = Inr ?db"
    using resolve_is_processed [OF Cons.prems(1) group] a
    by (auto simp: resolve_row_group_def group_lookup Let_def filter_empty_conv)
  have ok: "ledger_ok ?db"
    using moves_are_processed [OF Cons.prems(1) group] by blast
  have apart: "assignment_id b \<noteq> assignment_id c"
    if "b \<in> set asgs" "assignment_row_id b \<in> set rids" "c \<in> set asgs" "assignment_row_id c = rid" for b c
    using row_unique [OF parts(1) that(1,3)] that(2,4) parts(2) by auto
  have "groups_ok asgs rids ?db"
    unfolding groups_ok_def
  proof (intro conjI ballI impI)
    fix b assume b: "b \<in> set asgs" "assignment_row_id b \<in> set rids"
    have "assignment_id b \<notin> assignment_id ` set ?g" using apart [OF b] by (auto simp: image_iff)
    then show "b \<in> set (assignments ?db)" using fold_processed_others member b by simp
    show "live_assignment b" using member b by simp
  qed (use parts in simp_all)
  then obtain db' where db': "rfold (resolve_row_group (group_by_row asgs) now) ?db rids = Inr db'" "ledger_ok db'"
      "repairs db' = repairs ?db" "stock_tasks db' = stock_tasks ?db"
      "views db' = map (process_view (map assignment_id (of_rows rids asgs))) (views ?db)"
    using Cons.IH [OF ok] Cons.prems(3) by auto
  have same: "repairs (fold (processed now rid) xs db) = repairs db" "stock_tasks (fold (processed now rid) xs db) = stock_tasks db" for xs
    by (induction xs arbitrary: db) (simp_all add: processed_def credit_snapshot_resolved_def)
  have "set (map assignment_id (of_rows rids asgs)) \<inter> set (map assignment_id ?g) = {}"
    using apart by (auto simp: of_rows_def)
  note twice = process_view_twice [OF this]
  have "process_view (map assignment_id ?g @ map assignment_id (of_rows rids asgs)) = process_view (map assignment_id (of_rows (rid # rids) asgs))"
    by (rule ext) (auto simp: process_view_def of_rows_def split: prod.splits)
  then show ?case
    using run db' same group_views [OF Cons.prems(1) group] twice by (intro exI [of _ db']) (simp add: comp_def)
qed

lemma locked_all:
  "distinct (map key rows) \<Longrightarrow> set xs \<subseteq> set rows \<Longrightarrow> rmap (\<lambda>i. locked key i rows) (map key xs) = Inr xs"
  by (induction xs) (simp_all add: locked_self)

text \<open>C25: The processed webhook answers every number and resolves exactly the open work it names. On an exact ledger
  whose indexes hold, the command succeeds for any list of numbers and returns one verdict per number, in order:
  an unknown number and one without open work are ignored, the first mention of open work resolves it, early
  when it was not awaiting yet, and a repeated mention is ignored. The assignments mentioned are resolved, no
  other changes its state, no task is touched, and the ledger is exact again without any repair.\<close>

theorem webhook_resolves_mentioned:
  assumes "ledger_ok db" "indexes_ok db"
  shows "\<exists>db'. process_items_processed numbers now db = Inr (db', verdicts db numbers)
    \<and> views db' = map (process_view (map assignment_id (mentioned db numbers))) (views db)
    \<and> stock_tasks db' = stock_tasks db \<and> ledger_ok db' \<and> repairs db' = repairs db"
proof -
  let ?items = "items_by_number (map strip numbers) (stock_items db)"
  let ?open = "open_by_item (map snd ?items) (assignments db)"
  let ?asgs = "mentioned db numbers"
  let ?rids = "sort (map fst (group_by_row ?asgs))"
  have distinct: "distinct (map assignment_id (assignments db))" using assms(1) by (simp add: ledger_ok_def)
  obtain working where loop: "rfold (decide ?items ?open) (map (\<lambda>a. (assignment_id a, assignment_state a))
      (filter (\<lambda>a. assignment_id a \<in> snd ` set ?open) (assignments db)), [], []) numbers
      = Inr (working, map assignment_id ?asgs, verdicts db numbers)"
    using decide_loop [OF assms(2) distinct _ tracked_start [OF assms(2) distinct], of numbers numbers] by auto
  have inside: "set ?asgs \<subseteq> set (assignments db)" using mentioned_in by auto
  have "distinct ?asgs" by (simp add: mentioned_def)
  then have ids: "distinct (map assignment_id ?asgs)"
    using inside row_unique [OF distinct] by (auto simp: distinct_map inj_on_def)
  have "distinct ?rids" "set ?rids = assignment_row_id ` set ?asgs"
    using group_keys group_rows by simp_all
  then have "groups_ok ?asgs ?rids db" "set ?rids \<subseteq> assignment_row_id ` set ?asgs"
    using ids mentioned_in by (auto simp: groups_ok_def)
  from groups_loop [OF assms(1) this, of now] obtain db' where db': "rfold (resolve_row_group (group_by_row ?asgs) now) db ?rids = Inr db'"
      "ledger_ok db'" "repairs db' = repairs db" "stock_tasks db' = stock_tasks db"
      "views db' = map (process_view (map assignment_id (of_rows ?rids ?asgs))) (views db)" by blast
  have "of_rows ?rids ?asgs = ?asgs"
    using \<open>set ?rids = _\<close> by (simp add: of_rows_def filter_id_conv)
  then show ?thesis
    using db' loop locked_all [OF distinct inside]
    by (intro exI [of _ db']) (simp add: process_items_processed_def Let_def)
qed

section \<open>An example\<close>

definition sample_shop :: stock_db where
  "sample_shop = sample_stock\<lparr>stock_items :=
     [\<lparr>stock_item_id = ''itemt1'', article_number = Some ''11'', item_sku = None, stock_item_category_id = Some ''c'', item_properties = None, item_quantity = 1, stock_item_is_deleted = False\<rparr>,
      \<lparr>stock_item_id = ''itemt3'', article_number = Some ''13'', item_sku = None, stock_item_category_id = Some ''c'', item_properties = None, item_quantity = 1, stock_item_is_deleted = False\<rparr>,
      \<lparr>stock_item_id = ''idle'', article_number = Some ''14'', item_sku = None, stock_item_category_id = None, item_properties = None, item_quantity = 1, stock_item_is_deleted = False\<rparr>]\<rparr>"

lemma sample_shop_ok: "ledger_ok sample_shop" "indexes_ok sample_shop"
proof -
  show "ledger_ok sample_shop" using sample_stock_ok(1) by (simp add: sample_shop_def ledger_ok_def)
  show "indexes_ok sample_shop"
    by (simp add: indexes_ok_def sample_shop_def sample_stock_def sample_assignment_def live_assignment_def)
qed

lemma sample_verdicts:
  "verdicts sample_shop ['' 11'', ''13'', ''11'', ''14'', ''99''] =
     [('' 11'', OutcomeRESOLVED, Some ReasonEARLY), (''13'', OutcomeRESOLVED, None),
      (''11'', OutcomeIGNORED, Some ReasonNO_OPEN_ASSIGNMENT), (''14'', OutcomeIGNORED, Some ReasonNO_OPEN_ASSIGNMENT),
      (''99'', OutcomeIGNORED, Some ReasonITEM_NOT_FOUND)]"
  by code_simp

theorem webhook_resolves_mentioned_witness:
  "\<exists>db'. process_items_processed ['' 11'', ''13'', ''11'', ''14'', ''99''] 9 sample_shop = Inr (db',
     [('' 11'', OutcomeRESOLVED, Some ReasonEARLY), (''13'', OutcomeRESOLVED, None),
      (''11'', OutcomeIGNORED, Some ReasonNO_OPEN_ASSIGNMENT), (''14'', OutcomeIGNORED, Some ReasonNO_OPEN_ASSIGNMENT),
      (''99'', OutcomeIGNORED, Some ReasonITEM_NOT_FOUND)]) \<and> ledger_ok db'"
  using webhook_resolves_mentioned [OF sample_shop_ok, of "['' 11'', ''13'', ''11'', ''14'', ''99'']" 9]
  unfolding sample_verdicts by (elim exE conjE) (intro exI conjI)

theorem grouped_resolution_is_moves_witness:
  "resolve_processed_group (filter (\<lambda>a. assignment_id a \<noteq> ''a2'') (assignments sample_stock)) ''r'' 9 ''x'' sample_stock
     = rfold (\<lambda>db a. move_assignment a (MoveTo (processed_target (assignment_state a))) None 9 ''x'' False db) sample_stock
         (filter (\<lambda>a. assignment_id a \<noteq> ''a2'') (assignments sample_stock))"
  by (rule grouped_resolution_is_moves [OF sample_stock_ok(1)])
    (simp_all add: sample_stock_def sample_assignment_def processable_def)

end
