(* ===== verification/StockTargets.thy ===== *)
theory StockTargets
  imports StockStore
begin

text \<open>
  How the row-level commands of the stock report find the snapshot they edit
  (\<open>services/commands/stock_report/_target_snapshot.py\<close>, \<open>_versions.py\<close> and
  \<open>_load_row_with_snapshot.py\<close>), and what the constraints and the commands promise of the snapshot tables:
  \<open>snapshots_ok\<close>. A lock read returns the row the unlocked discovery named, as one command runs at a time.
\<close>

section \<open>Lookups\<close>

definition first_or_raise :: "exc \<Rightarrow> 'r list \<Rightarrow> 'r result" where
  \<comment> \<open>\<open>row = await session.scalar(query); if row is None: raise e\<close>\<close>
  "first_or_raise e rows = (case rows of [] \<Rightarrow> Inl e | r # _ \<Rightarrow> Inr r)"

definition find_row :: "string \<Rightarrow> stock_db \<Rightarrow> stock_row result" where
  "find_row rid db = first_or_raise (NotFound ''Stock report item not found.'')
     (filter (\<lambda>r. row_id r = rid \<and> \<not> row_is_deleted r) (stock_rows db))"

definition lock_live_row :: "string \<Rightarrow> stock_db \<Rightarrow> stock_row result" where
  \<comment> \<open>\<open>row = locked_rows.get(client_id); if row is None or row.is_deleted: raise NotFound\<close>\<close>
  "lock_live_row rid db =
     (case List.find (\<lambda>r. row_id r = rid) (stock_rows db) of
        None \<Rightarrow> Inl (NotFound ''Stock report item not found.'')
      | Some r \<Rightarrow> if row_is_deleted r then Inl (NotFound ''Stock report item not found.'') else Inr r)"

definition find_version :: "string \<Rightarrow> stock_db \<Rightarrow> snapshot_version result" where
  "find_version vid db = first_or_raise (NotFound ''Stock report snapshot version not found.'')
     (filter (\<lambda>v. version_id v = vid) (versions db))"

definition load_active_snapshot :: "string \<Rightarrow> stock_db \<Rightarrow> item_snapshot option" where
  "load_active_snapshot rid db = List.find (\<lambda>s. snapshot_row_id s = rid \<and> is_snapshot_active s) (snapshots db)"

definition load_version_snapshot :: "string \<Rightarrow> string \<Rightarrow> stock_db \<Rightarrow> item_snapshot option" where
  "load_version_snapshot rid vid db = List.find (\<lambda>s. snapshot_row_id s = rid \<and> snapshot_version_id s = vid) (snapshots db)"

definition NO_ACTIVE_SNAPSHOT :: exc where
  "NO_ACTIVE_SNAPSHOT = ValidationError ''STOCK_REPORT_NO_ACTIVE_SNAPSHOT''"

definition VERSION_IS_CLOSED :: exc where
  "VERSION_IS_CLOSED = ValidationError ''STOCK_REPORT_VERSION_IS_CLOSED''"

definition VERSION_NOT_DRAFT :: exc where
  "VERSION_NOT_DRAFT = ValidationError ''STOCK_REPORT_VERSION_NOT_DRAFT''"

definition VERSION_NOT_ACTIVE :: exc where
  "VERSION_NOT_ACTIVE = ValidationError ''STOCK_REPORT_VERSION_NOT_ACTIVE''"

record target_snapshot =
  target_found :: item_snapshot
  target_version_id :: string
  target_shortcut :: bool

definition discover_target_snapshot :: "string \<Rightarrow> string option \<Rightarrow> stock_db \<Rightarrow> target_snapshot result" where
  "discover_target_snapshot rid vid db =
     (case vid of
        None \<Rightarrow>
          (case load_active_snapshot rid db of
             None \<Rightarrow> Inl NO_ACTIVE_SNAPSHOT
           | Some s \<Rightarrow> Inr \<lparr>target_found = s, target_version_id = snapshot_version_id s, target_shortcut = True\<rparr>)
      | Some v \<Rightarrow>
          rbind (find_version v db) (\<lambda>_.
          case load_version_snapshot rid v db of
            None \<Rightarrow> Inl (NotFound ''Stock report item not found.'')
          | Some s \<Rightarrow> Inr \<lparr>target_found = s, target_version_id = v, target_shortcut = False\<rparr>))"

definition check_locked_target :: "target_snapshot \<Rightarrow> item_snapshot option \<Rightarrow> stock_db \<Rightarrow> (snapshot_version \<times> item_snapshot) result" where
  \<comment> \<open>the version, and the locked snapshot the caller goes on with\<close>
  "check_locked_target t found db =
     rbind (rguard (\<not> target_shortcut t \<or> (case found of None \<Rightarrow> False | Some s \<Rightarrow> is_snapshot_active s)) NO_ACTIVE_SNAPSHOT) (\<lambda>_.
     rbind (find_version (target_version_id t) db) (\<lambda>v.
     rbind (rguard (version_closed_at v = None) VERSION_IS_CLOSED) (\<lambda>_.
     case found of None \<Rightarrow> Inl (NotFound ''Stock report item not found.'') | Some s \<Rightarrow> Inr (v, s))))"

section \<open>What the tables promise\<close>

text \<open>The check constraints of a snapshot, and its agreement with its version and its row.\<close>

definition sound_snapshot :: "stock_db \<Rightarrow> item_snapshot \<Rightarrow> bool" where
  "sound_snapshot db s \<longleftrightarrow>
     (snapshot_priority s = None) = (priority_order s = None)
     \<and> (requested_scanner s = None) = (snapshot_active_at s = None)
     \<and> (snapshot_active_at s \<noteq> None \<longrightarrow> snapshot_missing s \<noteq> None)
     \<and> (snapshot_closed_at s \<noteq> None \<longrightarrow> snapshot_active_at s \<noteq> None)
     \<and> (\<exists>v \<in> set (versions db). version_id v = snapshot_version_id s \<and> version_active_at v = snapshot_active_at s
         \<and> (version_closed_at v \<noteq> None \<longrightarrow> snapshot_closed_at s \<noteq> None)
         \<and> (\<exists>r \<in> set (stock_rows db). row_id r = snapshot_row_id s
             \<and> (snapshot_closed_at s \<noteq> None \<longrightarrow> version_closed_at v \<noteq> None \<or> row_is_deleted r)))"

definition snapshots_ok :: "stock_db \<Rightarrow> bool" where
  "snapshots_ok db \<longleftrightarrow>
     distinct (map row_id (stock_rows db)) \<and> distinct (map version_id (versions db)) \<and> distinct (map snapshot_id (snapshots db))
     \<and> distinct (map (\<lambda>s. (snapshot_version_id s, snapshot_row_id s)) (snapshots db))
     \<and> length (filter is_version_active (versions db)) \<le> 1
     \<and> (\<forall>s \<in> set (snapshots db). sound_snapshot db s)"

lemma find_first_unique: "distinct (map key (filter P xs)) \<Longrightarrow> x \<in> set xs \<Longrightarrow> P x \<Longrightarrow> List.find (\<lambda>y. key y = key x \<and> P y) xs = Some x"
  by (induction xs) (auto simp: image_iff split: if_splits)

lemma find_by_key: "distinct (map key xs) \<Longrightarrow> x \<in> set xs \<Longrightarrow> List.find (\<lambda>y. key y = key x) xs = Some x"
  using find_first_unique [of key "\<lambda>_. True" xs x] by simp

lemma first_or_raise_Inr: "first_or_raise e (filter P rows) = Inr r \<Longrightarrow> r \<in> set rows \<and> P r"
  by (cases "filter P rows") (simp_all add: first_or_raise_def filter_eq_Cons_iff, auto)

lemma find_version_in:
  "distinct (map version_id (versions db)) \<Longrightarrow> v \<in> set (versions db) \<Longrightarrow> find_version (version_id v) db = Inr v"
  using filter_key_unique [of version_id "versions db" v "\<lambda>_. True"] by (simp add: find_version_def first_or_raise_def)

lemma find_version_Inr: "find_version vid db = Inr v \<Longrightarrow> v \<in> set (versions db) \<and> version_id v = vid"
  by (auto simp: find_version_def dest: first_or_raise_Inr)

lemma find_row_in:
  "distinct (map row_id (stock_rows db)) \<Longrightarrow> r \<in> set (stock_rows db) \<Longrightarrow> \<not> row_is_deleted r \<Longrightarrow> find_row (row_id r) db = Inr r"
  using filter_key_unique [of row_id "stock_rows db" r "\<lambda>r. \<not> row_is_deleted r"] by (simp add: find_row_def first_or_raise_def)

lemma find_row_Inr: "find_row rid db = Inr r \<Longrightarrow> r \<in> set (stock_rows db) \<and> row_id r = rid \<and> \<not> row_is_deleted r"
  by (auto simp: find_row_def dest: first_or_raise_Inr)

lemma find_Some_in: "List.find P xs = Some x \<Longrightarrow> x \<in> set xs \<and> P x"
  by (metis find_Some_iff nth_mem)

lemma lock_live_row_Inr: "lock_live_row rid db = Inr r \<Longrightarrow> r \<in> set (stock_rows db) \<and> row_id r = rid \<and> \<not> row_is_deleted r"
  by (auto simp: lock_live_row_def split: option.splits if_splits dest: find_Some_in)

lemma lock_live_row_in:
  "distinct (map row_id (stock_rows db)) \<Longrightarrow> r \<in> set (stock_rows db) \<Longrightarrow> \<not> row_is_deleted r \<Longrightarrow> lock_live_row (row_id r) db = Inr r"
  by (simp add: lock_live_row_def find_by_key)

lemma soundD: "snapshots_ok db \<Longrightarrow> s \<in> set (snapshots db) \<Longrightarrow> sound_snapshot db s"
  by (simp add: snapshots_ok_def)

text \<open>The version of a snapshot, and the row.\<close>

lemma snapshot_version:
  assumes "snapshots_ok db" "s \<in> set (snapshots db)"
  obtains v where "v \<in> set (versions db)" "version_id v = snapshot_version_id s" "version_active_at v = snapshot_active_at s"
    "find_version (snapshot_version_id s) db = Inr v" "is_snapshot_open s \<Longrightarrow> version_closed_at v = None"
proof -
  obtain v where v: "v \<in> set (versions db)" "version_id v = snapshot_version_id s" "version_active_at v = snapshot_active_at s"
      "version_closed_at v \<noteq> None \<longrightarrow> snapshot_closed_at s \<noteq> None"
    using soundD [OF assms] by (auto simp: sound_snapshot_def)
  have "find_version (version_id v) db = Inr v" using assms(1) v(1) by (intro find_version_in) (simp_all add: snapshots_ok_def)
  then show thesis using that [OF v(1-3)] v(2,4) by (auto simp: is_snapshot_open_def)
qed

lemma one_active_version:
  assumes "snapshots_ok db" "v \<in> set (versions db)" "w \<in> set (versions db)" "is_version_active v" "is_version_active w"
  shows "v = w"
proof -
  have "length (filter is_version_active (versions db)) \<le> 1" using assms(1) by (simp add: snapshots_ok_def)
  then obtain u where "filter is_version_active (versions db) \<in> {[], [u]}"
    by (cases "filter is_version_active (versions db)") auto
  then have "{x \<in> set (versions db). is_version_active x} \<subseteq> {u}"
    by (metis empty_set empty_subsetI insertE list.simps(15) set_filter singletonD subset_refl)
  then show ?thesis using assms by auto
qed

lemma same_place:
  assumes "snapshots_ok db" "s \<in> set (snapshots db)" "u \<in> set (snapshots db)"
    "snapshot_version_id s = snapshot_version_id u" "snapshot_row_id s = snapshot_row_id u"
  shows "s = u"
  using assms by (auto simp: snapshots_ok_def distinct_map dest: inj_onD)

lemma active_version_of:
  assumes "snapshots_ok db" "s \<in> set (snapshots db)" "is_snapshot_active s"
  obtains v where "v \<in> set (versions db)" "version_id v = snapshot_version_id s" "is_version_active v"
proof -
  from snapshot_version [OF assms(1,2)] obtain v where "v \<in> set (versions db)" "version_id v = snapshot_version_id s"
      "version_active_at v = snapshot_active_at s" "is_snapshot_open s \<Longrightarrow> version_closed_at v = None" by blast
  then show thesis using that assms(3) by (simp add: is_snapshot_active_def is_version_active_def is_snapshot_open_def)
qed

lemma active_unique:
  assumes "snapshots_ok db" "s \<in> set (snapshots db)" "u \<in> set (snapshots db)" "is_snapshot_active s" "is_snapshot_active u"
    "snapshot_row_id s = snapshot_row_id u"
  shows "s = u"
proof -
  obtain v where v: "v \<in> set (versions db)" "version_id v = snapshot_version_id s" "is_version_active v"
    by (rule active_version_of [OF assms(1,2,4)])
  obtain w where w: "w \<in> set (versions db)" "version_id w = snapshot_version_id u" "is_version_active w"
    by (rule active_version_of [OF assms(1,3,5)])
  have "v = w" by (rule one_active_version [OF assms(1) v(1) w(1) v(3) w(3)])
  then show ?thesis using same_place [OF assms(1-3)] v(2) w(2) assms(6) by simp
qed

text \<open>A command reaches the snapshot its route names: the row's active one, or the one in the version.\<close>

definition names_snapshot :: "string option \<Rightarrow> item_snapshot \<Rightarrow> bool" where
  "names_snapshot vid s \<longleftrightarrow> (case vid of None \<Rightarrow> is_snapshot_active s | Some v \<Rightarrow> v = snapshot_version_id s)"

lemma find_only:
  assumes "x \<in> set xs" "P x" "\<And>y. y \<in> set xs \<Longrightarrow> P y \<Longrightarrow> y = x"
  shows "List.find P xs = Some x"
  using assms by (metis find_None_iff find_Some_in option.exhaust)

lemma target_reached:
  assumes "snapshots_ok db" "s \<in> set (snapshots db)" "is_snapshot_open s" "names_snapshot vid s"
  obtains t v where "discover_target_snapshot (snapshot_row_id s) vid db = Inr t" "target_found t = s"
    "target_version_id t = snapshot_version_id s" "check_locked_target t (Some s) db = Inr (v, s)"
    "v \<in> set (versions db)" "version_id v = snapshot_version_id s" "version_active_at v = snapshot_active_at s" "version_closed_at v = None"
proof -
  from snapshot_version [OF assms(1,2)] assms(3) obtain v where v: "v \<in> set (versions db)" "version_id v = snapshot_version_id s"
      "version_active_at v = snapshot_active_at s" "find_version (snapshot_version_id s) db = Inr v" "version_closed_at v = None"
    by metis
  show thesis
  proof (cases vid)
    case None
    then have "load_active_snapshot (snapshot_row_id s) db = Some s"
      unfolding load_active_snapshot_def using assms active_unique [OF assms(1)] by (intro find_only) (auto simp: names_snapshot_def)
    then show thesis
      using that [of "\<lparr>target_found = s, target_version_id = snapshot_version_id s, target_shortcut = True\<rparr>" v] v None assms(4)
      by (simp add: discover_target_snapshot_def check_locked_target_def names_snapshot_def)
  next
    case (Some w)
    then have "load_version_snapshot (snapshot_row_id s) w db = Some s"
      unfolding load_version_snapshot_def using assms same_place [OF assms(1)] by (intro find_only) (auto simp: names_snapshot_def)
    then show thesis
      using that [of "\<lparr>target_found = s, target_version_id = snapshot_version_id s, target_shortcut = False\<rparr>" v] v Some assms(4)
      by (simp add: discover_target_snapshot_def check_locked_target_def names_snapshot_def)
  qed
qed

end
