(* ===== verification/StockCreation.thy ===== *)
theory StockCreation
  imports StockProcessing StockTargets StockMatching
begin

text \<open>
  Assigning items to the rows of the stock report: the refusal checks (\<open>domain/stock_report/assignment_checks.py\<close> over
  \<open>services/queries/stock_report/assignment_check_inputs.py\<close>), the preview of a match
  (\<open>services/queries/stock_report/preview_stock_task_assignment_match.py\<close>) and the batch creation
  (\<open>services/commands/stock_report/create_stock_task_assignments.py\<close>). The identifiers of the created assignments are a
  parameter; the images and the item and task in the response are left out.
\<close>

section \<open>The refusal checks\<close>

datatype assignment_check =
    STOCK_REPORT_ITEM_NOT_FOUND
  | TASK_NOT_FOUND
  | ITEM_NOT_FOUND
  | ITEM_NOT_TASK_PRIMARY
  | ALREADY_PROCESSED_BY_SCANNER
  | TASK_FAILED_OR_CANCELLED
  | ITEM_ALREADY_ASSIGNED
  | ITEM_HAS_NO_CATEGORY
  | CATEGORY_MISMATCH

fun check_name :: "assignment_check \<Rightarrow> string" where
  "check_name STOCK_REPORT_ITEM_NOT_FOUND = ''stock_report_item_not_found''"
| "check_name TASK_NOT_FOUND = ''task_not_found''"
| "check_name ITEM_NOT_FOUND = ''item_not_found''"
| "check_name ITEM_NOT_TASK_PRIMARY = ''item_not_task_primary''"
| "check_name ALREADY_PROCESSED_BY_SCANNER = ''already_processed_by_scanner''"
| "check_name TASK_FAILED_OR_CANCELLED = ''task_failed_or_cancelled''"
| "check_name ITEM_ALREADY_ASSIGNED = ''item_already_assigned''"
| "check_name ITEM_HAS_NO_CATEGORY = ''item_has_no_category''"
| "check_name CATEGORY_MISMATCH = ''category_mismatch''"

datatype check_result = CheckPASS | CheckFAIL | CheckPASS_BY_CONSTRUCTION | CheckNOT_EVALUATED

record assignment_check_result =
  checked :: assignment_check
  check_result :: check_result
  advisory :: bool

definition ADVISORY_CHECKS :: "assignment_check set" where
  "ADVISORY_CHECKS = {ITEM_ALREADY_ASSIGNED}"

definition PASS_BY_CONSTRUCTION_CHECKS :: "assignment_check list" where
  "PASS_BY_CONSTRUCTION_CHECKS = [TASK_FAILED_OR_CANCELLED, ITEM_NOT_TASK_PRIMARY, ALREADY_PROCESSED_BY_SCANNER]"

definition CHECK_ORDER :: "assignment_check list" where
  "CHECK_ORDER = [STOCK_REPORT_ITEM_NOT_FOUND, TASK_NOT_FOUND, ITEM_NOT_FOUND, ITEM_NOT_TASK_PRIMARY, ALREADY_PROCESSED_BY_SCANNER,
     TASK_FAILED_OR_CANCELLED, ITEM_ALREADY_ASSIGNED, ITEM_HAS_NO_CATEGORY, CATEGORY_MISMATCH]"

record check_inputs =
  check_primary_pairs :: "(string \<times> string) list"
  check_processed_pairs :: "(string \<times> string) list"
  check_active_item_ids :: "string list"

definition pair_in :: "string option \<Rightarrow> string option \<Rightarrow> (string \<times> string) list \<Rightarrow> bool" where
  "pair_in t i pairs \<longleftrightarrow> (case (t, i) of (Some t, Some i) \<Rightarrow> (t, i) \<in> set pairs | _ \<Rightarrow> False)"

fun check_fails ::
    "stock_row option \<Rightarrow> stock_task option \<Rightarrow> stock_item option \<Rightarrow> string option \<Rightarrow> string option \<Rightarrow> check_inputs \<Rightarrow> assignment_check \<Rightarrow> bool" where
  "check_fails row task item tid iid inputs STOCK_REPORT_ITEM_NOT_FOUND = (case row of None \<Rightarrow> True | Some r \<Rightarrow> row_is_deleted r)"
| "check_fails row task item tid iid inputs TASK_NOT_FOUND = (case task of None \<Rightarrow> True | Some t \<Rightarrow> stock_task_is_deleted t)"
| "check_fails row task item tid iid inputs ITEM_NOT_FOUND = (case item of None \<Rightarrow> True | Some i \<Rightarrow> stock_item_is_deleted i)"
| "check_fails row task item tid iid inputs ITEM_NOT_TASK_PRIMARY = (\<not> pair_in tid iid (check_primary_pairs inputs))"
| "check_fails row task item tid iid inputs ALREADY_PROCESSED_BY_SCANNER = pair_in tid iid (check_processed_pairs inputs)"
| "check_fails row task item tid iid inputs TASK_FAILED_OR_CANCELLED =
     (case task of None \<Rightarrow> False | Some t \<Rightarrow> stock_task_state t \<in> {TaskFAILED, TaskCANCELLED})"
| "check_fails row task item tid iid inputs ITEM_ALREADY_ASSIGNED =
     (case iid of None \<Rightarrow> False | Some i \<Rightarrow> i \<in> set (check_active_item_ids inputs))"
| "check_fails row task item tid iid inputs ITEM_HAS_NO_CATEGORY =
     (case item of None \<Rightarrow> False | Some i \<Rightarrow> stock_item_category_id i = None)"
| "check_fails row task item tid iid inputs CATEGORY_MISMATCH =
     (case (row, item) of
        (Some r, Some i) \<Rightarrow> stock_item_category_id i \<noteq> None \<and> stock_item_category_id i \<noteq> Some (row_category_id r)
      | _ \<Rightarrow> False)"

definition evaluate_assignment_checks ::
    "stock_row option \<Rightarrow> stock_task option \<Rightarrow> stock_item option \<Rightarrow> string option \<Rightarrow> string option \<Rightarrow> check_inputs
      \<Rightarrow> (assignment_check \<times> check_result) list \<Rightarrow> assignment_check_result list" where
  "evaluate_assignment_checks row task item tid iid inputs assumed =
     map (\<lambda>c. \<lparr>checked = c,
          check_result = (case map_of assumed c of
              Some r \<Rightarrow> r
            | None \<Rightarrow> if check_fails row task item tid iid inputs c then CheckFAIL else CheckPASS),
          advisory = c \<in> ADVISORY_CHECKS\<rparr>) CHECK_ORDER"

definition first_failed_check :: "assignment_check_result list \<Rightarrow> assignment_check option" where
  "first_failed_check results = map_option checked (List.find (\<lambda>r. check_result r = CheckFAIL) results)"

definition fetch_assignment_check_inputs :: "string list \<Rightarrow> string list \<Rightarrow> stock_db \<Rightarrow> check_inputs" where
  "fetch_assignment_check_inputs task_ids item_ids db =
     (let both = task_ids \<noteq> [] \<and> item_ids \<noteq> [] in
      \<lparr>check_primary_pairs = (if both then filter (\<lambda>(t, i). t \<in> set task_ids \<and> i \<in> set item_ids) (primary_pairs db) else []),
       check_processed_pairs = (if both then map (\<lambda>a. (assignment_task_id a, assignment_item_id a))
           (filter (\<lambda>a. assignment_task_id a \<in> set task_ids \<and> assignment_item_id a \<in> set item_ids \<and> \<not> assignment_is_deleted a
              \<and> assignment_state a \<in> {AsgRESOLVED, AsgRESOLVED_EARLY}) (assignments db)) else []),
       check_active_item_ids = map assignment_item_id
           (filter (\<lambda>a. assignment_item_id a \<in> set item_ids \<and> live_assignment a) (assignments db))\<rparr>)"

section \<open>The preview\<close>

record preview_request =
  pv_row_id :: string
  pv_task_id :: "string option"
  pv_article_number :: "string option"
  pv_sku :: "string option"
  pv_category_id :: string
  pv_properties :: "(string \<times> json) list"
  pv_quantity :: int

record preview =
  can_proceed :: bool
  override_required :: bool
  refusal_reason :: "assignment_check option"
  property_failures :: "criterion_failure list"
  matched_item_id :: "string option"
  values_source :: string
  checks :: "assignment_check_result list"

text \<open>\<open>request.article_number or request.sku\<close>, searched in the column of the one that was given.\<close>

definition matched_item :: "preview_request \<Rightarrow> stock_db \<Rightarrow> stock_item option" where
  "matched_item req db =
     (case (case pv_article_number req of Some a \<Rightarrow> if a \<noteq> [] then Some a else pv_sku req | None \<Rightarrow> pv_sku req) of
        None \<Rightarrow> None
      | Some identifier \<Rightarrow> List.find (\<lambda>i. \<not> stock_item_is_deleted i
          \<and> (if pv_article_number req \<noteq> None then article_number i else item_sku i) = Some identifier) (stock_items db))"

definition supplied_item :: "preview_request \<Rightarrow> stock_item" where
  \<comment> \<open>the transient \<open>Item\<close>, whose \<open>client_id\<close> nothing reads\<close>
  "supplied_item req = \<lparr>stock_item_id = [], article_number = None, item_sku = None, stock_item_category_id = Some (pv_category_id req),
     item_properties = Some (pv_properties req), item_quantity = pv_quantity req, stock_item_is_deleted = False\<rparr>"

definition preview_stock_task_assignment_match :: "preview_request \<Rightarrow> stock_db \<Rightarrow> preview result" where
  "preview_stock_task_assignment_match req db =
     rbind (rguard (pv_article_number req = None \<or> pv_sku req = None)
       (ValidationError ''article_number and sku are alternatives, not both'')) (\<lambda>_.
     rbind (find_row (pv_row_id req) db) (\<lambda>row.
     let task = Option.bind (pv_task_id req) (\<lambda>tid. List.find (\<lambda>t. stock_task_id t = tid \<and> \<not> stock_task_is_deleted t) (stock_tasks db));
         found = matched_item req db;
         candidate = (case found of Some i \<Rightarrow> i | None \<Rightarrow> supplied_item req);
         inputs = fetch_assignment_check_inputs (case task of None \<Rightarrow> [] | Some t \<Rightarrow> [stock_task_id t])
           (case found of None \<Rightarrow> [] | Some i \<Rightarrow> [stock_item_id i]) db;
         assumed = (if found = None then map (\<lambda>c. (c, CheckNOT_EVALUATED))
             [ITEM_NOT_FOUND, ITEM_NOT_TASK_PRIMARY, ALREADY_PROCESSED_BY_SCANNER, ITEM_ALREADY_ASSIGNED] else []);
         assumed = (if pv_task_id req = None
           then map (\<lambda>c. (c, CheckPASS_BY_CONSTRUCTION)) (PASS_BY_CONSTRUCTION_CHECKS @ [TASK_NOT_FOUND]) @ assumed else assumed);
         results = evaluate_assignment_checks (Some row) task (Some candidate) (pv_task_id req)
           (map_option stock_item_id found) inputs assumed in
     rbind (evaluate_stock_criteria (item_properties candidate) (item_quantity candidate) (row_properties row)) (\<lambda>failures.
     Inr \<lparr>can_proceed = list_all (\<lambda>r. check_result r \<noteq> CheckFAIL \<or> advisory r) results, override_required = failures \<noteq> [],
          refusal_reason = first_failed_check results, property_failures = failures,
          matched_item_id = map_option stock_item_id found, values_source = (if found \<noteq> None then ''stored'' else ''supplied''), checks = results\<rparr>)))"

section \<open>The creation\<close>

record assignment_entry =
  entry_row_id :: string
  entry_task_id :: string
  entry_item_id :: string
  override_property_mismatch :: bool

definition locked_get :: "('r \<Rightarrow> string) \<Rightarrow> string \<Rightarrow> 'r list \<Rightarrow> 'r option" where
  \<comment> \<open>\<open>locked.get(client_id)\<close>\<close>
  "locked_get key i rows = List.find (\<lambda>r. key r = i) rows"

fun mismatch_name :: "mismatch_reason \<Rightarrow> string" where
  "mismatch_name MISSING_ON_ITEM = ''missing_on_item''"
| "mismatch_name VALUE_NOT_ACCEPTED = ''value_not_accepted''"
| "mismatch_name NO_GROUP_FOR_VALUE = ''no_group_for_value''"
| "mismatch_name CRITERION_NOT_UNDERSTOOD = ''criterion_not_understood''"

text \<open>Phase 1: every entry of a repeated item or task is refused.\<close>

definition duplicate_reason :: "assignment_entry list \<Rightarrow> assignment_entry \<Rightarrow> string option" where
  "duplicate_reason entries e =
     (if count_list (map entry_item_id entries) (entry_item_id e) > 1 then Some ''duplicate_item_in_batch''
      else if count_list (map entry_task_id entries) (entry_task_id e) > 1 then Some ''duplicate_task_in_batch''
      else None)"

text \<open>Phase 3, on the locked rows: the first failing check.\<close>

definition refusal_of :: "assignment_entry list \<Rightarrow> stock_db \<Rightarrow> assignment_entry \<Rightarrow> string option" where
  "refusal_of entries db e =
     (case duplicate_reason entries e of
        Some r \<Rightarrow> Some r
      | None \<Rightarrow> map_option check_name (first_failed_check (evaluate_assignment_checks
          (locked_get row_id (entry_row_id e) (stock_rows db)) (locked_get stock_task_id (entry_task_id e) (stock_tasks db))
          (locked_get stock_item_id (entry_item_id e) (stock_items db)) (Some (entry_task_id e)) (Some (entry_item_id e))
          (fetch_assignment_check_inputs (map entry_task_id entries) (map entry_item_id entries) db) [])))"

definition numbered_reasons :: "'r option list \<Rightarrow> (nat \<times> 'r) list" where
  "numbered_reasons reasons = List.map_filter (\<lambda>(i, r). map_option (Pair i) r) (enumerate 0 reasons)"

text \<open>Phase 4: the matcher.\<close>

definition failures_of :: "stock_db \<Rightarrow> assignment_entry \<Rightarrow> criterion_failure list result" where
  "failures_of db e =
     rbind (locked row_id (entry_row_id e) (stock_rows db)) (\<lambda>row.
     rbind (locked stock_item_id (entry_item_id e) (stock_items db)) (\<lambda>item.
     evaluate_stock_criteria (item_properties item) (item_quantity item) (row_properties row)))"

definition mismatch_of :: "assignment_entry \<times> criterion_failure list \<Rightarrow> (string \<times> string) list option" where
  "mismatch_of p = (case p of (e, failures) \<Rightarrow>
     if failures \<noteq> [] \<and> \<not> override_property_mismatch e
     then Some (map (\<lambda>f. (failure_key f, mismatch_name (failure_reason f))) failures) else None)"

text \<open>Phase 5. The two partial unique indexes allow one active assignment for an item and one for a task.\<close>

definition index_violated :: "stock_assignment \<Rightarrow> stock_assignment list \<Rightarrow> bool" where
  "index_violated a asgs \<longleftrightarrow> live_assignment a
     \<and> (\<exists>b \<in> set asgs. live_assignment b \<and> (assignment_item_id b = assignment_item_id a \<or> assignment_task_id b = assignment_task_id a))"

definition new_assignment :: "string \<Rightarrow> string option \<Rightarrow> assignment_entry \<Rightarrow> bool \<Rightarrow> assignment_state \<Rightarrow> stock_assignment" where
  "new_assignment aid actor e overridden state =
     \<lparr>assignment_id = aid, assignment_row_id = entry_row_id e, assignment_task_id = entry_task_id e, assignment_item_id = entry_item_id e,
      credited_record_id = None, assignment_quantity = 1, mismatch_overridden = overridden, assignment_state = state,
      assignment_created_by_id = actor, assignment_updated_at = None, assignment_updated_by_id = None,
      assignment_is_deleted = False, assignment_deleted_at = None, assignment_deleted_by_id = None\<rparr>"

definition create_one ::
    "(nat \<Rightarrow> string) \<Rightarrow> string option \<Rightarrow> int \<Rightarrow> stock_db \<Rightarrow> nat \<times> assignment_entry \<times> criterion_failure list \<Rightarrow> stock_db result" where
  "create_one fresh actor now db p =
     (case p of (index, e, failures) \<Rightarrow>
        rbind (locked row_id (entry_row_id e) (stock_rows db)) (\<lambda>_.
        rbind (locked stock_task_id (entry_task_id e) (stock_tasks db)) (\<lambda>task.
        let target = ASSIGNMENT_STATE_BY_TASK_STATE (stock_task_state task);
            a = new_assignment (fresh index) actor e (failures \<noteq> [] \<and> override_property_mismatch e) target in
        rbind (rguard (\<not> index_violated a (assignments db)) (StockAssignmentRefused [(index, ''item_already_assigned'')])) (\<lambda>_.
        rbind (move_assignment a (MoveTo target) actor now ''create_assignments'' True (save_assignment a db)) (\<lambda>db.
        Inr (set_task_stock_flag (entry_task_id e) True db))))))"

definition create_stock_task_assignments ::
    "assignment_entry list \<Rightarrow> (nat \<Rightarrow> string) \<Rightarrow> string option \<Rightarrow> int \<Rightarrow> stock_db \<Rightarrow> stock_db result" where
  "create_stock_task_assignments entries fresh actor now db =
     (let reasons = map (refusal_of entries db) entries in
      rbind (rguard (list_all (\<lambda>r. r = None) reasons) (StockAssignmentRefused (numbered_reasons reasons))) (\<lambda>_.
      rbind (rmap (failures_of db) entries) (\<lambda>failures.
      let mismatches = map mismatch_of (zip entries failures) in
      rbind (rguard (list_all (\<lambda>m. m = None) mismatches) (StockAssignmentPropertyMismatch (numbered_reasons mismatches))) (\<lambda>_.
      rfold (create_one fresh actor now) db
        (sort_key (\<lambda>(_, e, _). entry_item_id e) (enumerate 0 (zip entries failures)))))))"

section \<open>What one creation does\<close>

lemma tally_append: "tally (asgs @ [a]) rid st = tally asgs rid st + (if counted rid st a then assignment_quantity a else 0)"
  by (simp add: tally_def column_total_def)

lemma goal_total_append:
  "recompute_goal_total (asgs @ [a]) hid = recompute_goal_total asgs hid + (if credited_record_id a = Some hid then assignment_quantity a else 0)"
  by (simp add: recompute_goal_total_def column_total_def)

lemma put_row_append: "key a \<notin> key ` set rows \<Longrightarrow> key b = key a \<Longrightarrow> put_row key b (rows @ [a]) = rows @ [b]"
  by (simp add: put_row_def) (rule map_idI, metis image_eqI)

text \<open>A new assignment, as the creation inserts it.\<close>

definition creatable :: "stock_assignment \<Rightarrow> stock_db \<Rightarrow> bool" where
  "creatable a db \<longleftrightarrow> assignment_id a \<notin> assignment_id ` set (assignments db) \<and> assignment_row_id a \<in> row_id ` set (stock_rows db)
     \<and> live_assignment a \<and> credited_record_id a = None \<and> 1 \<le> assignment_quantity a"

definition creation_delta :: "stock_assignment \<Rightarrow> counters" where
  "creation_delta a = add_to_column (assignment_state a) (assignment_quantity a) no_counters"

lemma creation_effect:
  assumes ok: "ledger_ok db" and new: "creatable a db"
  shows "\<exists>db' c hs. move_assignment a (MoveTo (assignment_state a)) actor now trigger True (save_assignment a db)
      = Inr (snapshot_effect a (MoveTo (assignment_state a)) actor now True db')
    \<and> db' = db\<lparr>assignments := assignments db @ [a\<lparr>credited_record_id := c\<rparr>],
        stock_rows := update_where (\<lambda>r. row_id r = assignment_row_id a) (add_counters (creation_delta a)) (stock_rows db), histories := hs\<rparr>
    \<and> map history_id hs = map history_id (histories db) \<and> ledger_ok db'"
proof -
  let ?t = "MoveTo (assignment_state a)" and ?asgs = "assignments db @ [a]"
  let ?rows = "update_where (\<lambda>r. row_id r = assignment_row_id a) (add_counters (creation_delta a)) (stock_rows db)"
  note parts = ok [unfolded ledger_ok_def]
  have live: "assignment_state a \<in> ACTIVE_ASSIGNMENT_STATES" "\<not> assignment_is_deleted a" and fresh: "assignment_id a \<notin> assignment_id ` set (assignments db)"
    and uncredited: "credited_record_id a = None"
    using new by (simp_all add: creatable_def live_assignment_def)
  have same: "retargeted True ?t actor now a = a" by (simp add: retargeted_def)
  have delta: "delta_vector None ?t (assignment_quantity a) True = creation_delta a"
    using live by (simp add: delta_vector_def creation_delta_def)
  have saved: "save_assignment a (save_assignment a db) = db\<lparr>assignments := ?asgs\<rparr>"
    using fresh by (simp add: save_new save_known put_row_append)
  have known: "a \<in> set ?asgs" "distinct (map assignment_id ?asgs)" "positive ?asgs"
    using parts new fresh by (auto simp: positive_def creatable_def)
  have "owes ?asgs (assignment_row_id a) (creation_delta a) r" if "r \<in> set (stock_rows db)" for r
    using parts that live by (auto simp: owes_def exact_row_def tally_append counted_def creation_delta_def)
  then have paid: "apply_counter_delta (assignment_row_id a) (creation_delta a) trigger now (db\<lparr>assignments := ?asgs\<rparr>)
        = Inr (db\<lparr>assignments := ?asgs, stock_rows := ?rows\<rparr>)"
    and rows: "\<forall>r \<in> set ?rows. exact_row ?asgs r"
    using debt_is_paid [of "db\<lparr>assignments := ?asgs\<rparr>" "assignment_row_id a" "creation_delta a"] parts new known by (simp_all add: creatable_def)
  define db1 where "db1 = db\<lparr>assignments := ?asgs, stock_rows := ?rows\<rparr>"
  have exact1: "\<forall>h \<in> set (histories db1). exact_goal (assignments db1) h"
    using parts uncredited by (simp add: db1_def exact_goal_def goal_total_append)
  obtain db2 c where effect: "apply_goal_effect a None ?t trigger now db1 = Inr db2" "credited_to c a db1 db2"
      "credit_ok (histories db) (a\<lparr>credited_record_id := c\<rparr>)"
    using goal_effect_exact [of a db1 None ?t trigger now] known parts exact1 uncredited by (auto simp: db1_def)
  obtain hs where db2: "db2 = db1\<lparr>assignments := put_row assignment_id (a\<lparr>credited_record_id := c\<rparr>) ?asgs, histories := hs\<rparr>"
      "map history_id hs = map history_id (histories db)" "goal_ids hs = goal_ids (histories db)"
      "\<forall>h \<in> set hs. exact_goal (assignments db2) h"
    using effect(2) by (auto simp: credited_to_def db1_def)
  have final: "assignments db2 = assignments db @ [a\<lparr>credited_record_id := c\<rparr>]"
    using fresh by (simp add: db2 put_row_append)
  have tallies: "tally (assignments db2) rid st = tally ?asgs rid st" for rid st
    by (simp add: final tally_append counted_def)
  have "ledger_ok db2"
    unfolding ledger_ok_def
  proof (intro conjI)
    show "\<forall>x \<in> set (assignments db2). assignment_row_id x \<in> row_id ` set (stock_rows db2) \<and> credit_ok (histories db2) x"
      unfolding final using parts effect(3) new by (auto simp: db2 db1_def credit_ok_def creatable_def)
    show "positive (assignments db2)" using known(3) by (simp add: final positive_def)
    show "distinct (map assignment_id (assignments db2))" using known(2) by (simp add: final)
  qed (use parts rows tallies db2(2,4) in \<open>auto simp: db2(1) db1_def exact_row_def\<close>)
  moreover have "move_assignment a ?t actor now trigger True (save_assignment a db) = Inr (snapshot_effect a ?t actor now True db2)"
    using live effect(1) [unfolded db1_def]
    by (simp add: move_assignment_def Let_def same delta saved paid assert_allowed_move_def)
  ultimately show ?thesis using db2 final
    by (intro exI [of _ db2] exI [of _ c] exI [of _ hs]) (simp add: db1_def)
qed

text \<open>The items and the tasks of the active assignments, which the two partial unique indexes keep apart.\<close>

definition busy :: "stock_db \<Rightarrow> (string \<times> string) list" where
  "busy db = map (\<lambda>a. (assignment_item_id a, assignment_task_id a)) (filter live_assignment (assignments db))"

lemma index_violated_busy:
  "live_assignment a \<Longrightarrow> index_violated a (assignments db) \<longleftrightarrow> assignment_item_id a \<in> fst ` set (busy db) \<or> assignment_task_id a \<in> snd ` set (busy db)"
  by (auto simp: index_violated_def busy_def image_iff)

lemma at_most_once: "(\<forall>t. length (filter (\<lambda>x. f x = t) xs) \<le> 1) \<longleftrightarrow> distinct (map f xs)"
proof (induction xs)
  case (Cons x xs)
  have step: "(\<forall>t. length (filter (\<lambda>y. f y = t) (x # xs)) \<le> 1)
      \<longleftrightarrow> filter (\<lambda>y. f y = f x) xs = [] \<and> (\<forall>t. length (filter (\<lambda>y. f y = t) xs) \<le> 1)"
    by (auto simp: le_Suc_eq split: if_splits)
  show ?case unfolding step Cons.IH by (force simp: filter_empty_conv image_iff)
qed simp

lemma one_per_task_busy: "one_per_task (views db) \<longleftrightarrow> distinct (map snd (busy db))"
proof -
  have "filter (live_view tid) (views db) = map view (filter (\<lambda>a. assignment_task_id a = tid) (filter live_assignment (assignments db)))" for tid
    by (simp add: views_def filter_map comp_def active_for_task_def live_assignment_def conj_ac)
  then have "one_per_task (views db) \<longleftrightarrow> (\<forall>tid. length (filter (\<lambda>a. assignment_task_id a = tid) (filter live_assignment (assignments db))) \<le> 1)"
    by (simp add: one_per_task_def)
  then show ?thesis using at_most_once [of assignment_task_id "filter live_assignment (assignments db)"]
    by (simp add: busy_def comp_def del: filter_filter)
qed

definition report_ok :: "repair_record list \<Rightarrow> stock_db \<Rightarrow> bool" where
  "report_ok rs db \<longleftrightarrow> ledger_ok db \<and> repairs db = rs \<and> distinct (map fst (busy db)) \<and> distinct (map snd (busy db)) \<and> flags_ok db"

definition task_core :: "stock_db \<Rightarrow> (string \<times> task_state) list" where
  "task_core db = map (\<lambda>t. (stock_task_id t, stock_task_state t)) (stock_tasks db)"

text \<open>What an entry needs from the store, once its batch has passed the checks.\<close>

definition assignable :: "(nat \<Rightarrow> string) \<Rightarrow> stock_db \<Rightarrow> nat \<times> assignment_entry \<times> 'f \<Rightarrow> bool" where
  "assignable fresh db p \<longleftrightarrow> (case p of (i, e, _) \<Rightarrow>
     fresh i \<notin> assignment_id ` set (assignments db) \<and> entry_row_id e \<in> row_id ` set (stock_rows db)
     \<and> (\<exists>s. map_of (task_core db) (entry_task_id e) = Some s \<and> s \<notin> {TaskFAILED, TaskCANCELLED})
     \<and> entry_item_id e \<notin> fst ` set (busy db) \<and> entry_task_id e \<notin> snd ` set (busy db))"

definition entry_view :: "(nat \<Rightarrow> string) \<Rightarrow> stock_db \<Rightarrow> nat \<times> assignment_entry \<times> 'f \<Rightarrow> view" where
  "entry_view fresh db p = (case p of (i, e, _) \<Rightarrow>
     (fresh i, entry_task_id e, ASSIGNMENT_STATE_BY_TASK_STATE (the (map_of (task_core db) (entry_task_id e))), False))"

definition entry_pair :: "nat \<times> assignment_entry \<times> 'f \<Rightarrow> string \<times> string" where
  "entry_pair p = (case p of (_, e, _) \<Rightarrow> (entry_item_id e, entry_task_id e))"

lemma active_of_task: "s \<notin> {TaskFAILED, TaskCANCELLED} \<Longrightarrow> ASSIGNMENT_STATE_BY_TASK_STATE s \<in> ACTIVE_ASSIGNMENT_STATES"
  by (cases s) simp_all

lemma locked_of_core:
  assumes "map_of (task_core db) tid = Some s"
  shows "\<exists>t. locked stock_task_id tid (stock_tasks db) = Inr t \<and> stock_task_state t = s"
proof -
  have "map_of (map (\<lambda>t. (stock_task_id t, stock_task_state t)) ts) tid = Some s
      \<Longrightarrow> \<exists>t. locked stock_task_id tid ts = Inr t \<and> stock_task_state t = s" for ts
    by (induction ts) (auto simp: locked_def split: if_splits)
  then show ?thesis using assms by (simp add: task_core_def)
qed

lemma create_one_refines:
  assumes ok: "report_ok rs db" and p: "assignable fresh db p"
  shows "\<exists>db'. create_one fresh actor now db p = Inr db' \<and> report_ok rs db' \<and> views db' = views db @ [entry_view fresh db p]
    \<and> busy db' = busy db @ [entry_pair p] \<and> task_core db' = task_core db \<and> map row_id (stock_rows db') = map row_id (stock_rows db)"
proof -
  obtain i e fs where pe: "p = (i, e, fs)" by (cases p)
  obtain s where s: "map_of (task_core db) (entry_task_id e) = Some s" "s \<notin> {TaskFAILED, TaskCANCELLED}"
    using p by (auto simp: assignable_def pe)
  obtain task where task: "locked stock_task_id (entry_task_id e) (stock_tasks db) = Inr task" "stock_task_state task = s"
    using locked_of_core [OF s(1)] by blast
  obtain r where r: "locked row_id (entry_row_id e) (stock_rows db) = Inr r"
    using locked_known [of "entry_row_id e" row_id "stock_rows db"] p unfolding assignable_def pe prod.case by blast
  let ?a = "new_assignment (fresh i) actor e (fs \<noteq> [] \<and> override_property_mismatch e) (ASSIGNMENT_STATE_BY_TASK_STATE s)"
  have a: "assignment_id ?a = fresh i" "assignment_row_id ?a = entry_row_id e" "assignment_task_id ?a = entry_task_id e"
      "assignment_item_id ?a = entry_item_id e" "assignment_state ?a = ASSIGNMENT_STATE_BY_TASK_STATE s" "live_assignment ?a"
    using active_of_task [OF s(2)] by (simp_all add: new_assignment_def live_assignment_def)
  have new: "creatable ?a db" using p a(6) by (simp add: assignable_def pe creatable_def new_assignment_def)
  have free: "\<not> index_violated ?a (assignments db)" using index_violated_busy [OF a(6)] p by (simp add: assignable_def pe a(3,4))
  have ledger: "ledger_ok db" using ok by (simp add: report_ok_def)
  obtain db1 c hs where run: "move_assignment ?a (MoveTo (assignment_state ?a)) actor now ''create_assignments'' True (save_assignment ?a db)
        = Inr (snapshot_effect ?a (MoveTo (assignment_state ?a)) actor now True db1)"
      and db1: "db1 = db\<lparr>assignments := assignments db @ [?a\<lparr>credited_record_id := c\<rparr>],
        stock_rows := update_where (\<lambda>r. row_id r = assignment_row_id ?a) (add_counters (creation_delta ?a)) (stock_rows db), histories := hs\<rparr>"
      and ledger1: "ledger_ok db1"
    using creation_effect [OF ledger new, of actor now "''create_assignments''"] by blast
  let ?db = "set_task_stock_flag (entry_task_id e) True (snapshot_effect ?a (MoveTo (assignment_state ?a)) actor now True db1)"
  have result: "create_one fresh actor now db p = Inr ?db"
    using r task(1) free run by (simp add: create_one_def pe Let_def task(2) a(5))
  have asgs: "assignments ?db = assignments db @ [?a\<lparr>credited_record_id := c\<rparr>]" by (simp add: set_task_stock_flag_def db1)
  have live: "live_assignment (?a\<lparr>credited_record_id := c\<rparr>)" using a(6) by (simp add: live_assignment_def)
  have views: "views ?db = views db @ [entry_view fresh db p]"
    by (simp add: views_def asgs) (simp add: view_def entry_view_def pe s(1) new_assignment_def)
  have busy: "busy ?db = busy db @ [entry_pair p]" using live by (simp add: busy_def asgs entry_pair_def pe a(3,4))
  have tasks: "task_core ?db = task_core db"
    by (simp add: task_core_def set_task_stock_flag_def db1 update_where_def comp_def if_distrib cong: if_cong)
  have "flags_ok ?db"
    unfolding flags_ok_def
  proof
    fix t assume "t \<in> set (stock_tasks ?db)"
    then obtain t0 where t0: "t0 \<in> set (stock_tasks db)" "t = (if stock_task_id t0 = entry_task_id e \<and> is_stock_assignment t0 \<noteq> True
        then t0\<lparr>is_stock_assignment := True\<rparr> else t0)" by (auto simp: set_task_stock_flag_def update_where_set db1)
    have "expected_task_flag (assignments ?db) tid \<longleftrightarrow> expected_task_flag (assignments db) tid \<or> tid = entry_task_id e" for tid
      using live a(3) by (auto simp: expected_task_flag_def asgs live_assignment_def)
    then show "is_stock_assignment t \<longleftrightarrow> expected_task_flag (assignments ?db) (stock_task_id t)"
      using ok t0 by (auto simp: report_ok_def flags_ok_def)
  qed
  moreover have "ledger_ok ?db" using ledger1 by (simp add: ledger_ok_def set_task_stock_flag_def)
  moreover have "repairs ?db = repairs db" by (simp add: set_task_stock_flag_def db1)
  ultimately have "report_ok rs ?db"
    using ok p busy by (auto simp: report_ok_def assignable_def pe entry_pair_def)
  moreover have "map row_id (stock_rows ?db) = map row_id (stock_rows db)" by (simp add: set_task_stock_flag_def db1)
  ultimately show ?thesis using result views busy tasks by blast
qed

section \<open>What the batch does\<close>

definition apart :: "(nat \<Rightarrow> string) \<Rightarrow> nat \<times> assignment_entry \<times> 'f \<Rightarrow> nat \<times> assignment_entry \<times> 'f \<Rightarrow> bool" where
  "apart fresh p q \<longleftrightarrow> fst p \<noteq> fst q \<and> fst (entry_pair p) \<noteq> fst (entry_pair q) \<and> snd (entry_pair p) \<noteq> snd (entry_pair q)"

lemma views_ids: "assignment_id ` set (assignments db) = fst ` set (views db)"
  by (force simp: views_def view_def image_image)

lemma assignable_kept:
  assumes "assignable fresh db q" "inj fresh" "apart fresh p q"
    and "views db' = views db @ [entry_view fresh db p]" "busy db' = busy db @ [entry_pair p]" "task_core db' = task_core db"
    and "map row_id (stock_rows db') = map row_id (stock_rows db)"
  shows "assignable fresh db' q"
proof -
  have rows: "row_id ` set (stock_rows db') = row_id ` set (stock_rows db)" using arg_cong [OF assms(7), of set] by simp
  have "fresh (fst p) \<noteq> fresh (fst q)" using assms(2,3) by (simp add: apart_def inj_eq)
  then show ?thesis
    using assms(1,3) unfolding assignable_def views_ids assms(4-6) rows
    by (cases p; cases q) (auto simp: entry_view_def entry_pair_def apart_def)
qed

lemma create_loop:
  assumes "report_ok rs db" "inj fresh" "\<forall>p \<in> set ps. assignable fresh db p" "distinct (map fst ps)"
    and "distinct (map (fst \<circ> entry_pair) ps)" "distinct (map (snd \<circ> entry_pair) ps)"
  shows "\<exists>db'. rfold (create_one fresh actor now) db ps = Inr db' \<and> report_ok rs db' \<and> views db' = views db @ map (entry_view fresh db) ps
    \<and> busy db' = busy db @ map entry_pair ps \<and> task_core db' = task_core db \<and> map row_id (stock_rows db') = map row_id (stock_rows db)"
  using assms
proof (induction ps arbitrary: db)
  case (Cons p ps)
  have p: "assignable fresh db p" using Cons.prems(3) by simp
  obtain db1 where one: "create_one fresh actor now db p = Inr db1" "report_ok rs db1" "views db1 = views db @ [entry_view fresh db p]"
      "busy db1 = busy db @ [entry_pair p]" "task_core db1 = task_core db" "map row_id (stock_rows db1) = map row_id (stock_rows db)"
    using create_one_refines [OF Cons.prems(1) p, of actor now] by (elim exE conjE) (rule that; assumption)
  have "assignable fresh db1 q" if "q \<in> set ps" for q
    by (rule assignable_kept [OF _ Cons.prems(2) _ one(3-6), of q]) (use Cons.prems that in \<open>auto simp: apart_def\<close>)
  moreover have "map (entry_view fresh db1) ps = map (entry_view fresh db) ps" using one(5) by (simp add: entry_view_def case_prod_unfold)
  ultimately obtain db' where "rfold (create_one fresh actor now) db1 ps = Inr db'" "report_ok rs db'"
      "views db' = views db1 @ map (entry_view fresh db) ps" "busy db' = busy db1 @ map entry_pair ps" "task_core db' = task_core db1"
      "map row_id (stock_rows db') = map row_id (stock_rows db1)"
    using Cons.IH [OF one(2) Cons.prems(2)] Cons.prems(4-6) by auto
  then show ?case using one by (intro exI [of _ db']) simp
qed auto

definition passes :: "assignment_entry list \<Rightarrow> stock_db \<Rightarrow> bool" where
  "passes entries db \<longleftrightarrow> (\<forall>e \<in> set entries. refusal_of entries db e = None)"

lemma locked_get_some: "locked_get key i rows = Some r \<Longrightarrow> r \<in> set rows \<and> key r = i"
  by (auto simp: locked_get_def find_Some_iff)

lemma locked_get_known: "locked_get key i rows \<noteq> None \<Longrightarrow> i \<in> key ` set rows"
  using locked_get_some [of key i rows] by (cases "locked_get key i rows") auto

lemma first_failed_none: "first_failed_check (evaluate_assignment_checks row task item tid iid inputs []) = None
    \<longleftrightarrow> (\<forall>c. \<not> check_fails row task item tid iid inputs c)"
proof -
  have all: "set CHECK_ORDER = UNIV" unfolding CHECK_ORDER_def by (auto intro: assignment_check.exhaust)
  have "first_failed_check (evaluate_assignment_checks row task item tid iid inputs []) = None
      \<longleftrightarrow> (\<forall>c \<in> set CHECK_ORDER. \<not> check_fails row task item tid iid inputs c)"
    by (auto simp: first_failed_check_def evaluate_assignment_checks_def find_None_iff)
  then show ?thesis by (simp add: all)
qed

lemma task_core_get: "map_of (task_core db) tid = map_option stock_task_state (locked_get stock_task_id tid (stock_tasks db))"
proof -
  have "map_of (map (\<lambda>t. (stock_task_id t, stock_task_state t)) ts) tid = map_option stock_task_state (List.find (\<lambda>t. stock_task_id t = tid) ts)" for ts
    by (induction ts) auto
  then show ?thesis by (simp add: task_core_def locked_get_def)
qed

lemma passing_entry:
  assumes "passes entries db" "e \<in> set entries"
  shows "count_list (map entry_item_id entries) (entry_item_id e) \<le> 1" "count_list (map entry_task_id entries) (entry_task_id e) \<le> 1"
    "entry_row_id e \<in> row_id ` set (stock_rows db)" "entry_item_id e \<in> stock_item_id ` set (stock_items db)"
    "\<exists>s. map_of (task_core db) (entry_task_id e) = Some s \<and> s \<notin> {TaskFAILED, TaskCANCELLED}"
    "entry_item_id e \<notin> fst ` set (busy db)"
proof -
  let ?inputs = "fetch_assignment_check_inputs (map entry_task_id entries) (map entry_item_id entries) db"
  let ?row = "locked_get row_id (entry_row_id e) (stock_rows db)" and ?task = "locked_get stock_task_id (entry_task_id e) (stock_tasks db)"
    and ?item = "locked_get stock_item_id (entry_item_id e) (stock_items db)"
  have none: "duplicate_reason entries e = None"
      "first_failed_check (evaluate_assignment_checks ?row ?task ?item (Some (entry_task_id e)) (Some (entry_item_id e)) ?inputs []) = None"
    using assms by (auto simp: passes_def refusal_of_def split: option.splits)
  have ok: "\<not> check_fails ?row ?task ?item (Some (entry_task_id e)) (Some (entry_item_id e)) ?inputs c" for c
    using none(2) by (simp add: first_failed_none)
  show "count_list (map entry_item_id entries) (entry_item_id e) \<le> 1" "count_list (map entry_task_id entries) (entry_task_id e) \<le> 1"
    using none(1) by (simp_all add: duplicate_reason_def split: if_splits)
  show "entry_row_id e \<in> row_id ` set (stock_rows db)" by (rule locked_get_known) (use ok [of STOCK_REPORT_ITEM_NOT_FOUND] in \<open>auto split: option.splits\<close>)
  show "entry_item_id e \<in> stock_item_id ` set (stock_items db)" by (rule locked_get_known) (use ok [of ITEM_NOT_FOUND] in \<open>auto split: option.splits\<close>)
  show "\<exists>s. map_of (task_core db) (entry_task_id e) = Some s \<and> s \<notin> {TaskFAILED, TaskCANCELLED}"
    using ok [of TASK_NOT_FOUND] ok [of TASK_FAILED_OR_CANCELLED] by (auto simp: task_core_get split: option.splits)
  have "entry_item_id e \<in> set (map entry_item_id entries)" using assms(2) by simp
  then show "entry_item_id e \<notin> fst ` set (busy db)"
    using ok [of ITEM_ALREADY_ASSIGNED] by (force simp: fetch_assignment_check_inputs_def Let_def busy_def)
qed

lemma loop_stops:
  assumes "report_ok rs db" "inj fresh" "distinct (map fst ps)" "distinct (map (fst \<circ> entry_pair) ps)" "distinct (map (snd \<circ> entry_pair) ps)"
    and "\<forall>p \<in> set ps. snd (entry_pair p) \<in> snd ` set (busy db) \<or> assignable fresh db p"
    and "\<forall>(i, e, _) \<in> set ps. entry_row_id e \<in> row_id ` set (stock_rows db)
       \<and> (\<exists>s. map_of (task_core db) (entry_task_id e) = Some s \<and> s \<notin> {TaskFAILED, TaskCANCELLED})"
    and "\<exists>p \<in> set ps. snd (entry_pair p) \<in> snd ` set (busy db)"
  shows "\<exists>i. rfold (create_one fresh actor now) db ps = Inl (StockAssignmentRefused [(i, ''item_already_assigned'')])"
  using assms
proof (induction ps arbitrary: db)
  case (Cons p ps)
  show ?case
  proof (cases "snd (entry_pair p) \<in> snd ` set (busy db)")
    case True
    obtain i e fs where pe: "p = (i, e, fs)" by (cases p)
    obtain s where s: "map_of (task_core db) (entry_task_id e) = Some s" "s \<notin> {TaskFAILED, TaskCANCELLED}"
      using Cons.prems(7) by (auto simp: pe)
    obtain task where task: "locked stock_task_id (entry_task_id e) (stock_tasks db) = Inr task" "stock_task_state task = s"
      using locked_of_core [OF s(1)] by blast
    have "entry_row_id e \<in> row_id ` set (stock_rows db)" using Cons.prems(7) by (simp add: pe)
    from locked_known [OF this] obtain r where r: "locked row_id (entry_row_id e) (stock_rows db) = Inr r" ..
    let ?a = "new_assignment (fresh i) actor e (fs \<noteq> [] \<and> override_property_mismatch e) (ASSIGNMENT_STATE_BY_TASK_STATE s)"
    have "live_assignment ?a" using active_of_task [OF s(2)] by (simp add: new_assignment_def live_assignment_def)
    from index_violated_busy [OF this] have "index_violated ?a (assignments db)"
      using True by (simp add: entry_pair_def pe new_assignment_def)
    then show ?thesis using r task by (intro exI [of _ i]) (simp add: create_one_def pe)
  next
    case False
    then have p: "assignable fresh db p" using Cons.prems(6) by simp
    obtain db1 where one: "create_one fresh actor now db p = Inr db1" "report_ok rs db1" "views db1 = views db @ [entry_view fresh db p]"
        "busy db1 = busy db @ [entry_pair p]" "task_core db1 = task_core db" "map row_id (stock_rows db1) = map row_id (stock_rows db)"
      using create_one_refines [OF Cons.prems(1) p, of actor now] by (elim exE conjE) (rule that; assumption)
    have rows: "row_id ` set (stock_rows db1) = row_id ` set (stock_rows db)" using arg_cong [OF one(6), of set] by simp
    have "snd (entry_pair q) \<in> snd ` set (busy db1) \<or> assignable fresh db1 q" if q: "q \<in> set ps" for q
    proof -
      have "fst p \<noteq> fst q" using Cons.prems(3) q by force
      moreover have "fst (entry_pair p) \<noteq> fst (entry_pair q)" using Cons.prems(4) q by force
      moreover have "snd (entry_pair p) \<noteq> snd (entry_pair q)" using Cons.prems(5) q by force
      ultimately have "apart fresh p q" by (simp add: apart_def)
      then show ?thesis using assignable_kept [OF _ Cons.prems(2) _ one(3-6), of q] Cons.prems(6) q by (force simp: one(4))
    qed
    moreover have "\<exists>q \<in> set ps. snd (entry_pair q) \<in> snd ` set (busy db1)" using Cons.prems(8) False by (auto simp: one(4))
    moreover have "\<forall>(i, e, _) \<in> set ps. entry_row_id e \<in> row_id ` set (stock_rows db1)
        \<and> (\<exists>s. map_of (task_core db1) (entry_task_id e) = Some s \<and> s \<notin> {TaskFAILED, TaskCANCELLED})"
      using Cons.prems(7) by (simp add: rows one(5))
    ultimately show ?thesis using Cons.IH [OF one(2) Cons.prems(2)] Cons.prems(3-5) one(1) by simp
  qed
qed simp

definition matched :: "assignment_entry list \<Rightarrow> stock_db \<Rightarrow> bool" where
  "matched entries db \<longleftrightarrow> (\<forall>e \<in> set entries. \<exists>fs. failures_of db e = Inr fs \<and> mismatch_of (e, fs) = None)"

definition idle_tasks :: "assignment_entry list \<Rightarrow> stock_db \<Rightarrow> bool" where
  "idle_tasks entries db \<longleftrightarrow> (\<forall>e \<in> set entries. entry_task_id e \<notin> snd ` set (busy db))"

lemma count_list_distinct: "distinct xs \<longleftrightarrow> (\<forall>x \<in> set xs. count_list xs x \<le> 1)"
proof (induction xs)
  case (Cons x xs)
  have "count_list xs x = 0 \<longleftrightarrow> x \<notin> set xs" by (rule count_list_0_iff)
  then show ?case using Cons by auto
qed simp

lemma rmap_matched:
  assumes "rmap (failures_of db) entries = Inr fss"
  shows "matched entries db \<longleftrightarrow> (\<forall>p \<in> set (zip entries fss). mismatch_of p = None)"
  using assms by (induction entries arbitrary: fss) (auto simp: matched_def rbind_eq_Inr)

lemma list_all_map_none: "list_all (\<lambda>m. m = None) (map f xs) \<longleftrightarrow> (\<forall>x \<in> set xs. f x = None)"
  by (simp add: list_all_iff)

lemma create_passing:
  assumes "passes entries db" "rmap (failures_of db) entries = Inr fss" "matched entries db"
  shows "create_stock_task_assignments entries fresh actor now db
    = rfold (create_one fresh actor now) db (sort_key (\<lambda>(_, e, _). entry_item_id e) (enumerate 0 (zip entries fss)))"
proof -
  have "list_all (\<lambda>r. r = None) (map (refusal_of entries db) entries)" using assms(1) by (simp add: list_all_map_none passes_def)
  moreover have "list_all (\<lambda>m. m = None) (map mismatch_of (zip entries fss))"
    using assms(3) rmap_matched [OF assms(2)] by (simp add: list_all_map_none)
  ultimately show ?thesis using assms(2) by (simp add: create_stock_task_assignments_def Let_def)
qed

lemma batch_numbers:
  assumes "length fss = length entries"
  shows "map fst (enumerate 0 (zip entries fss)) = [0..<length entries]"
    "map entry_pair (enumerate 0 (zip entries fss)) = map (\<lambda>e. (entry_item_id e, entry_task_id e)) entries"
    "map (entry_view fresh db) (enumerate 0 (zip entries fss)) = map (\<lambda>(i, e). entry_view fresh db (i, e, ())) (enumerate 0 entries)"
    "(i, e, fs) \<in> set (enumerate 0 (zip entries fss)) \<Longrightarrow> e \<in> set entries"
proof -
  show "map fst (enumerate 0 (zip entries fss)) = [0..<length entries]" using assms by (simp add: enumerate_eq_zip)
  show "map entry_pair (enumerate 0 (zip entries fss)) = map (\<lambda>e. (entry_item_id e, entry_task_id e)) entries"
    using assms by (intro nth_equalityI) (simp_all add: nth_enumerate_eq entry_pair_def)
  show "map (entry_view fresh db) (enumerate 0 (zip entries fss)) = map (\<lambda>(i, e). entry_view fresh db (i, e, ())) (enumerate 0 entries)"
    using assms by (intro nth_equalityI) (simp_all add: nth_enumerate_eq entry_view_def)
  show "e \<in> set entries" if "(i, e, fs) \<in> set (enumerate 0 (zip entries fss))"
    using that by (auto simp: in_set_enumerate_eq dest: set_zip_leftD nth_mem)
qed

definition batch_order :: "assignment_entry list \<Rightarrow> criterion_failure list list \<Rightarrow> (nat \<times> assignment_entry \<times> criterion_failure list) list" where
  "batch_order entries fss = sort_key (\<lambda>(_, e, _). entry_item_id e) (enumerate 0 (zip entries fss))"

lemma batch_order_ok:
  assumes "passes entries db" "length fss = length entries" "inj fresh" "range fresh \<inter> assignment_id ` set (assignments db) = {}"
  shows "distinct (map fst (batch_order entries fss))" "distinct (map (fst \<circ> entry_pair) (batch_order entries fss))"
    "distinct (map (snd \<circ> entry_pair) (batch_order entries fss))"
    "\<forall>p \<in> set (batch_order entries fss). snd (entry_pair p) \<in> snd ` set (busy db) \<or> assignable fresh db p"
    "\<forall>(i, e, _) \<in> set (batch_order entries fss). entry_row_id e \<in> row_id ` set (stock_rows db)
       \<and> (\<exists>s. map_of (task_core db) (entry_task_id e) = Some s \<and> s \<notin> {TaskFAILED, TaskCANCELLED})"
    "snd ` entry_pair ` set (batch_order entries fss) = entry_task_id ` set entries"
proof -
  note numbers = batch_numbers [OF assms(2)]
  have msets: "distinct (map f (batch_order entries fss)) = distinct (map f (enumerate 0 (zip entries fss)))"
    for f :: "nat \<times> assignment_entry \<times> criterion_failure list \<Rightarrow> 'k" by (simp add: batch_order_def distinct_map)
  have set: "set (batch_order entries fss) = set (enumerate 0 (zip entries fss))" by (simp add: batch_order_def)
  show "distinct (map fst (batch_order entries fss))" by (simp add: msets numbers(1))
  have "map (fst \<circ> entry_pair) (enumerate 0 (zip entries fss)) = map entry_item_id entries"
    "map (snd \<circ> entry_pair) (enumerate 0 (zip entries fss)) = map entry_task_id entries"
    using arg_cong [OF numbers(2), of "map fst"] arg_cong [OF numbers(2), of "map snd"] by (simp_all add: comp_def)
  moreover have "distinct (map entry_item_id entries)" "distinct (map entry_task_id entries)"
    using passing_entry(1,2) [OF assms(1)] by (simp_all add: count_list_distinct)
  ultimately show "distinct (map (fst \<circ> entry_pair) (batch_order entries fss))" "distinct (map (snd \<circ> entry_pair) (batch_order entries fss))"
    by (simp_all only: msets)
  have each: "e \<in> set entries" if "(i, e, fs) \<in> set (batch_order entries fss)" for i e fs
    using that numbers(4) by (simp add: set)
  show "\<forall>p \<in> set (batch_order entries fss). snd (entry_pair p) \<in> snd ` set (busy db) \<or> assignable fresh db p"
  proof
    fix p assume p: "p \<in> set (batch_order entries fss)"
    obtain i e fs where pe: "p = (i, e, fs)" by (cases p)
    have "e \<in> set entries" using each p by (simp add: pe)
    note entry = passing_entry [OF assms(1) this]
    have "fresh i \<notin> assignment_id ` set (assignments db)" using assms(4) by blast
    then show "snd (entry_pair p) \<in> snd ` set (busy db) \<or> assignable fresh db p"
      using entry(3,5,6) by (simp add: pe assignable_def entry_pair_def)
  qed
  show "\<forall>(i, e, _) \<in> set (batch_order entries fss). entry_row_id e \<in> row_id ` set (stock_rows db)
       \<and> (\<exists>s. map_of (task_core db) (entry_task_id e) = Some s \<and> s \<notin> {TaskFAILED, TaskCANCELLED})"
    using passing_entry(3,5) [OF assms(1)] each by fast
  show "snd ` entry_pair ` set (batch_order entries fss) = entry_task_id ` set entries"
    using arg_cong [OF numbers(2), of "\<lambda>xs. snd ` set xs"] by (simp add: set image_image)
qed

text \<open>C34: A batch of assignments is created as a whole or not at all. On an exact ledger it is created exactly when every
  entry passes the checks, its item matches its row or the mismatch is overridden, and its task has no active
  assignment. Then every entry has one new assignment, of one unit, in the state of its task; the tallies, the goal totals, the
  stock flags and the two indexes hold again, and nothing was repaired. When only a busy task stands in the way,
  the batch is refused as if the item were assigned already.\<close>

theorem batch_is_all_or_nothing:
  assumes ok: "report_ok rs db" and fresh: "inj fresh" "range fresh \<inter> assignment_id ` set (assignments db) = {}"
  shows "(is_ok (create_stock_task_assignments entries fresh actor now db) \<longleftrightarrow> passes entries db \<and> matched entries db \<and> idle_tasks entries db)
    \<and> (\<forall>db'. create_stock_task_assignments entries fresh actor now db = Inr db' \<longrightarrow> report_ok rs db'
        \<and> (\<exists>new. views db' = views db @ new \<and> mset new = mset (map (\<lambda>(i, e). entry_view fresh db (i, e, ())) (enumerate 0 entries)))
        \<and> mset (busy db') = mset (busy db) + mset (map (\<lambda>e. (entry_item_id e, entry_task_id e)) entries) \<and> task_core db' = task_core db)
    \<and> (passes entries db \<and> matched entries db \<and> \<not> idle_tasks entries db \<longrightarrow>
        (\<exists>i. create_stock_task_assignments entries fresh actor now db = Inl (StockAssignmentRefused [(i, ''item_already_assigned'')])))"
proof (cases "passes entries db \<and> matched entries db")
  case False
  have "\<not> is_ok (create_stock_task_assignments entries fresh actor now db)"
  proof
    assume "is_ok (create_stock_task_assignments entries fresh actor now db)"
    then obtain db' fss where "list_all (\<lambda>r. r = None) (map (refusal_of entries db) entries)" "rmap (failures_of db) entries = Inr fss"
        "list_all (\<lambda>m. m = None) (map mismatch_of (zip entries fss))"
      by (auto simp: is_ok_def create_stock_task_assignments_def Let_def rbind_def rguard_def split: sum.splits if_splits)
    then show False using False rmap_matched by (auto simp: list_all_map_none passes_def)
  qed
  then show ?thesis using False by (auto simp: is_ok_def)
next
  case True
  then have "\<forall>e \<in> set entries. \<exists>fs. failures_of db e = Inr fs" by (auto simp: matched_def)
  then obtain fss where fss: "rmap (failures_of db) entries = Inr fss" using rmap_total [of entries "failures_of db"] by blast
  have len: "length fss = length entries" using rmap_Inr_length [OF fss] .
  let ?ps = "batch_order entries fss"
  have run: "create_stock_task_assignments entries fresh actor now db = rfold (create_one fresh actor now) db ?ps"
    using create_passing [OF _ fss] True by (simp add: batch_order_def)
  note order = batch_order_ok [OF _ len fresh] and numbers = batch_numbers [OF len]
  show ?thesis
  proof (cases "idle_tasks entries db")
    case idle: True
    have tasks: "snd (entry_pair p) \<in> entry_task_id ` set entries" if "p \<in> set ?ps" for p
      using order(6) True that by blast
    have "assignable fresh db p" if "p \<in> set ?ps" for p
    proof -
      have "snd (entry_pair p) \<notin> snd ` set (busy db)" using tasks [OF that] idle unfolding idle_tasks_def by (metis imageE)
      then show ?thesis using order(4) True that by blast
    qed
    then obtain db' where db': "rfold (create_one fresh actor now) db ?ps = Inr db'" "report_ok rs db'"
        "views db' = views db @ map (entry_view fresh db) ?ps" "busy db' = busy db @ map entry_pair ?ps" "task_core db' = task_core db"
      using create_loop [OF ok fresh(1), of ?ps actor now] order(1-3) True by blast
    have "mset (map (entry_view fresh db) ?ps) = mset (map (entry_view fresh db) (enumerate 0 (zip entries fss)))"
      "mset (map entry_pair ?ps) = mset (map entry_pair (enumerate 0 (zip entries fss)))" by (simp_all add: batch_order_def)
    then show ?thesis using True idle db' run numbers(2,3) by (auto simp: is_ok_def)
  next
    case False
    then obtain e where e: "e \<in> set entries" "entry_task_id e \<in> snd ` set (busy db)" by (auto simp: idle_tasks_def)
    then have "entry_task_id e \<in> snd ` entry_pair ` set ?ps" using order(6) True by blast
    then obtain p where "p \<in> set ?ps" "entry_task_id e = snd (entry_pair p)" by (elim imageE) (rule that, assumption, simp only:)
    then have "\<exists>p \<in> set ?ps. snd (entry_pair p) \<in> snd ` set (busy db)" using e(2) by (intro bexI [of _ p]) simp_all
    from loop_stops [OF ok fresh(1) _ _ _ _ _ this, of actor now] obtain i where
        "rfold (create_one fresh actor now) db ?ps = Inl (StockAssignmentRefused [(i, ''item_already_assigned'')])"
      using order(1-5) True by blast
    then show ?thesis using True False run by (auto simp: is_ok_def)
  qed
qed

section \<open>What the preview predicts\<close>

definition keyed :: "stock_db \<Rightarrow> bool" where
  "keyed db \<longleftrightarrow> distinct (map row_id (stock_rows db)) \<and> distinct (map stock_task_id (stock_tasks db)) \<and> distinct (map stock_item_id (stock_items db))"

lemma locked_get_self: "distinct (map key rows) \<Longrightarrow> r \<in> set rows \<Longrightarrow> key r = i \<Longrightarrow> locked_get key i rows = Some r"
  unfolding locked_get_def using find_by_key by metis

definition single_entry :: "preview_request \<Rightarrow> string \<Rightarrow> stock_item \<Rightarrow> bool \<Rightarrow> assignment_entry" where
  "single_entry req tid item override = \<lparr>entry_row_id = pv_row_id req, entry_task_id = tid, entry_item_id = stock_item_id item,
     override_property_mismatch = override\<rparr>"

lemma single_entry_override [simp]: "override_property_mismatch (single_entry req tid item override) = override"
  by (simp add: single_entry_def)

lemma rbind_return: "rbind m Inr = m"
  by (cases m) simp_all

lemma create_single:
  "create_stock_task_assignments [e] fresh actor now db = (case refusal_of [e] db e of
     Some r \<Rightarrow> Inl (StockAssignmentRefused [(0, r)])
   | None \<Rightarrow> rbind (failures_of db e) (\<lambda>fs. case mismatch_of (e, fs) of
       Some m \<Rightarrow> Inl (StockAssignmentPropertyMismatch [(0, m)])
     | None \<Rightarrow> create_one fresh actor now db (0, e, fs)))"
proof -
  have one: "numbered_reasons [Some x] = [(0, x)]" for x :: 'x by (simp add: numbered_reasons_def List.map_filter_def)
  show ?thesis
  proof (cases "refusal_of [e] db e")
    case None
    have "rmap (failures_of db) [e] = rbind (failures_of db e) (\<lambda>fs. Inr [fs])" by simp
    then show ?thesis using None one
      by (cases "failures_of db e") (auto simp: create_stock_task_assignments_def Let_def rguard_def rbind_return split: option.splits)
  next
    case (Some r)
    then show ?thesis by (simp add: create_stock_task_assignments_def Let_def one rguard_def)
  qed
qed

lemma matched_item_in: "matched_item req db = Some item \<Longrightarrow> item \<in> set (stock_items db) \<and> \<not> stock_item_is_deleted item"
  by (auto simp: matched_item_def find_Some_iff split: option.splits if_splits)

text \<open>The preview reads a deleted task as absent; the first failing check does not tell the two apart.\<close>

lemma first_failed_task:
  assumes "locked_get stock_task_id tid ts = t"
    and "task = (case t of None \<Rightarrow> None | Some t \<Rightarrow> if stock_task_is_deleted t then None else Some t)"
    and "task = t \<Longrightarrow> t \<noteq> None \<Longrightarrow> inputs = inputs'"
  shows "first_failed_check (evaluate_assignment_checks (Some row) task (Some item) (Some tid) (Some iid) inputs [])
    = first_failed_check (evaluate_assignment_checks (Some row) t (Some item) (Some tid) (Some iid) inputs' [])"
proof (cases "task = t \<and> t \<noteq> None")
  case False
  then have "check_fails (Some row) task (Some item) (Some tid) (Some iid) inputs TASK_NOT_FOUND"
      "check_fails (Some row) t (Some item) (Some tid) (Some iid) inputs' TASK_NOT_FOUND"
    using assms(2) by (auto split: option.splits if_splits)
  then show ?thesis by (simp add: first_failed_check_def evaluate_assignment_checks_def CHECK_ORDER_def)
qed (use assms(3) in simp)

lemma preview_task_find:
  "distinct (map stock_task_id ts) \<Longrightarrow> List.find (\<lambda>t. stock_task_id t = tid \<and> \<not> stock_task_is_deleted t) ts
    = (case locked_get stock_task_id tid ts of None \<Rightarrow> None | Some t \<Rightarrow> if stock_task_is_deleted t then None else Some t)"
proof (induction ts)
  case (Cons t ts)
  have "List.find (\<lambda>u. stock_task_id u = tid \<and> \<not> stock_task_is_deleted u) ts = None" if "stock_task_id t = tid"
    unfolding find_None_iff using Cons.prems that by (auto simp: image_iff)
  then show ?case using Cons by (auto simp: locked_get_def)
qed (simp add: locked_get_def)

text \<open>C35: The preview predicts the creation. For a stored item and a task, on tables with unique keys, creating the previewed
  assignment is refused with the previewed reason, if there is one; else it raises the previewed mismatch, if there is
  one and it is not overridden; else it goes on to the assignment itself, which succeeds on an exact ledger when no
  other active assignment holds the task.\<close>

theorem preview_predicts_creation:
  assumes keyed: "keyed db" and item: "matched_item req db = Some item" and task: "pv_task_id req = Some tid"
    and preview: "preview_stock_task_assignment_match req db = Inr p"
  shows "create_stock_task_assignments [single_entry req tid item override] fresh actor now db =
      (case refusal_reason p of
         Some c \<Rightarrow> Inl (StockAssignmentRefused [(0, check_name c)])
       | None \<Rightarrow>
           if override_required p \<and> \<not> override
           then Inl (StockAssignmentPropertyMismatch [(0, map (\<lambda>f. (failure_key f, mismatch_name (failure_reason f))) (property_failures p))])
           else create_one fresh actor now db (0, single_entry req tid item override, property_failures p))
    \<and> (refusal_reason p = None \<longrightarrow> report_ok rs db \<longrightarrow> fresh 0 \<notin> assignment_id ` set (assignments db) \<longrightarrow> tid \<notin> snd ` set (busy db)
        \<longrightarrow> is_ok (create_one fresh actor now db (0, single_entry req tid item override, property_failures p)))"
proof -
  let ?e = "single_entry req tid item override" and ?t = "locked_get stock_task_id tid (stock_tasks db)"
  let ?task = "List.find (\<lambda>t. stock_task_id t = tid \<and> \<not> stock_task_is_deleted t) (stock_tasks db)"
  let ?inputs = "fetch_assignment_check_inputs (case ?task of None \<Rightarrow> [] | Some t \<Rightarrow> [stock_task_id t]) [stock_item_id item] db"
  let ?inputs' = "fetch_assignment_check_inputs [tid] [stock_item_id item] db"
  obtain row failures where row: "find_row (pv_row_id req) db = Inr row"
      and failures: "evaluate_stock_criteria (item_properties item) (item_quantity item) (row_properties row) = Inr failures"
      and p: "refusal_reason p = first_failed_check (evaluate_assignment_checks (Some row) ?task (Some item) (Some tid) (Some (stock_item_id item)) ?inputs [])"
        "override_required p = (failures \<noteq> [])" "property_failures p = failures"
    using preview by (auto simp: preview_stock_task_assignment_match_def item task Let_def rbind_eq_Inr)
  have r: "row \<in> set (stock_rows db)" "row_id row = pv_row_id req" using find_row_Inr [OF row] by auto
  have i: "item \<in> set (stock_items db)" using matched_item_in [OF item] by simp
  have locks: "locked_get row_id (pv_row_id req) (stock_rows db) = Some row" "locked_get stock_item_id (stock_item_id item) (stock_items db) = Some item"
      "locked row_id (pv_row_id req) (stock_rows db) = Inr row" "locked stock_item_id (stock_item_id item) (stock_items db) = Inr item"
    using keyed r i locked_self [of row_id "stock_rows db" row] locked_self [of stock_item_id "stock_items db" item]
    by (simp_all add: keyed_def locked_get_self)
  have "refusal_of [?e] db ?e = map_option check_name (first_failed_check (evaluate_assignment_checks (Some row) ?t (Some item) (Some tid)
      (Some (stock_item_id item)) ?inputs' []))"
    by (simp add: refusal_of_def duplicate_reason_def single_entry_def locks)
  also have "\<dots> = map_option check_name (refusal_reason p)"
  proof -
    have found: "?task = (case ?t of None \<Rightarrow> None | Some t \<Rightarrow> if stock_task_is_deleted t then None else Some t)"
      using keyed unfolding keyed_def by (intro preview_task_find) simp
    have "?inputs = ?inputs'" if "?task = ?t" "?t \<noteq> None"
      using that locked_get_some [of stock_task_id tid "stock_tasks db"] by (cases ?t) auto
    from first_failed_task [OF refl found this] show ?thesis unfolding p(1) by simp
  qed
  finally have refusal: "refusal_of [?e] db ?e = map_option check_name (refusal_reason p)" .
  have matcher: "failures_of db ?e = Inr failures" using failures by (simp add: failures_of_def single_entry_def locks)
  have run: "create_stock_task_assignments [?e] fresh actor now db = (case refusal_reason p of
       Some c \<Rightarrow> Inl (StockAssignmentRefused [(0, check_name c)])
     | None \<Rightarrow>
         if override_required p \<and> \<not> override
         then Inl (StockAssignmentPropertyMismatch [(0, map (\<lambda>f. (failure_key f, mismatch_name (failure_reason f))) (property_failures p))])
         else create_one fresh actor now db (0, ?e, property_failures p))"
    using refusal matcher
    by (cases override; cases "refusal_reason p") (simp_all add: create_single mismatch_of_def p(2,3))
  have "is_ok (create_one fresh actor now db (0, ?e, property_failures p))"
    if "refusal_reason p = None" "report_ok rs db" "fresh 0 \<notin> assignment_id ` set (assignments db)" "tid \<notin> snd ` set (busy db)"
  proof -
    have "passes [?e] db" using that(1) refusal by (simp add: passes_def)
    from passing_entry [OF this, of ?e] that(3,4) have "assignable fresh db (0, ?e, property_failures p)"
      by (simp add: assignable_def single_entry_def)
    from create_one_refines [OF that(2) this, of actor now] show ?thesis by (auto simp: is_ok_def)
  qed
  then show ?thesis using run by blast
qed

section \<open>An example\<close>

definition sample_office :: stock_db where
  "sample_office = sample_stock\<lparr>stock_rows := [sample_row\<lparr>row_category_id := ''c'', row_properties := [(''wood_group'', JArr [JStr ''teak''])]\<rparr>],
     stock_tasks := stock_tasks sample_stock @ [\<lparr>stock_task_id = ''t4'', stock_task_state = TaskWORKING, stock_task_is_deleted = False, is_stock_assignment = False\<rparr>],
     stock_items := [\<lparr>stock_item_id = ''i4'', article_number = Some ''44'', item_sku = None, stock_item_category_id = Some ''c'',
       item_properties = Some [(''wood_type'', JStr ''Cherry'')], item_quantity = 6, stock_item_is_deleted = False\<rparr>],
     primary_pairs := [(''t4'', ''i4'')]\<rparr>"

definition sample_entry :: "bool \<Rightarrow> assignment_entry" where
  "sample_entry override = \<lparr>entry_row_id = ''r'', entry_task_id = ''t4'', entry_item_id = ''i4'', override_property_mismatch = override\<rparr>"

definition sample_fresh :: "nat \<Rightarrow> string" where
  "sample_fresh i = ''new'' @ replicate i CHR ''x''"

definition sample_preview :: preview_request where
  "sample_preview = \<lparr>pv_row_id = ''r'', pv_task_id = Some ''t4'', pv_article_number = Some ''44'', pv_sku = None, pv_category_id = ''c'',
     pv_properties = [], pv_quantity = 1\<rparr>"

lemma sample_office_ok: "report_ok [] sample_office" "inj sample_fresh" "range sample_fresh \<inter> assignment_id ` set (assignments sample_office) = {}"
proof -
  have "ledger_ok sample_office" using sample_stock_ok(1) by (simp add: sample_office_def sample_stock_def ledger_ok_def exact_row_def all_columns)
  moreover have "flags_ok sample_office" using sample_stock_ok(3)
    by (simp add: flags_ok_def sample_office_def sample_stock_def expected_task_flag_def sample_assignment_def)
  ultimately show "report_ok [] sample_office"
    by (simp add: report_ok_def sample_office_def sample_stock_def busy_def live_assignment_def sample_assignment_def)
  show "inj sample_fresh" by (auto simp: inj_def sample_fresh_def dest: arg_cong [of _ _ length])
  show "range sample_fresh \<inter> assignment_id ` set (assignments sample_office) = {}"
    by (auto simp: sample_fresh_def sample_office_def sample_stock_def sample_assignment_def)
qed

theorem batch_is_all_or_nothing_witness:
  "\<exists>db'. create_stock_task_assignments [sample_entry False] sample_fresh None 9 sample_office = Inr db' \<and> report_ok [] db'
    \<and> views db' = views sample_office @ [(''new'', ''t4'', AsgIN_PROGRESS, False)]"
proof -
  have "refusal_of [sample_entry False] sample_office (sample_entry False) = None" "failures_of sample_office (sample_entry False) = Inr []"
    by code_simp+
  then have "passes [sample_entry False] sample_office" "matched [sample_entry False] sample_office"
    by (simp_all add: passes_def matched_def mismatch_of_def)
  moreover have "idle_tasks [sample_entry False] sample_office"
    by (simp add: idle_tasks_def sample_entry_def busy_def sample_office_def sample_stock_def sample_assignment_def)
  ultimately obtain db' where db': "create_stock_task_assignments [sample_entry False] sample_fresh None 9 sample_office = Inr db'"
    using batch_is_all_or_nothing [OF sample_office_ok, of "[sample_entry False]" None 9] unfolding is_ok_def by (auto split: sum.splits)
  then obtain new where new: "report_ok [] db'" "views db' = views sample_office @ new"
      "mset new = mset (map (\<lambda>(i, e). entry_view sample_fresh sample_office (i, e, ())) (enumerate 0 [sample_entry False]))"
    using batch_is_all_or_nothing [OF sample_office_ok, of "[sample_entry False]" None 9] by blast
  have "entry_view sample_fresh sample_office (0, sample_entry False, ()) = (''new'', ''t4'', AsgIN_PROGRESS, False)" by code_simp
  then show ?thesis using db' new by auto
qed

theorem preview_predicts_creation_witness:
  "\<exists>p db'. preview_stock_task_assignment_match sample_preview sample_office = Inr p \<and> refusal_reason p = None \<and> \<not> override_required p
    \<and> create_stock_task_assignments [sample_entry False] sample_fresh None 9 sample_office = Inr db'"
proof -
  let ?item = "hd (stock_items sample_office)"
  have keyed: "keyed sample_office" by (simp add: keyed_def sample_office_def sample_stock_def)
  have item: "matched_item sample_preview sample_office = Some ?item" by code_simp
  have "\<not> isl (preview_stock_task_assignment_match sample_preview sample_office)" by code_simp
  then obtain p where p: "preview_stock_task_assignment_match sample_preview sample_office = Inr p"
    by (cases "preview_stock_task_assignment_match sample_preview sample_office") auto
  have "rbind (preview_stock_task_assignment_match sample_preview sample_office) (\<lambda>p. Inr (refusal_reason p, override_required p)) = Inr (None, False)"
    by code_simp
  then have verdict: "refusal_reason p = None" "\<not> override_required p" by (simp_all add: p)
  have entry: "single_entry sample_preview ''t4'' ?item False = sample_entry False" by code_simp
  have "fresh 0 \<notin> assignment_id ` set (assignments sample_office)" if "fresh = sample_fresh" for fresh
    using sample_office_ok(3) that by auto
  moreover have "''t4'' \<notin> snd ` set (busy sample_office)" by (simp add: busy_def sample_office_def sample_stock_def sample_assignment_def)
  moreover have "pv_task_id sample_preview = Some ''t4''" by (simp add: sample_preview_def)
  ultimately have "is_ok (create_stock_task_assignments [sample_entry False] sample_fresh None 9 sample_office)"
    using preview_predicts_creation [OF keyed item _ p, of "''t4''" False sample_fresh None 9 "[]"] sample_office_ok(1) verdict by (simp add: entry)
  then show ?thesis using p verdict by (auto simp: is_ok_def split: sum.splits)
qed

end
