(* ===== verification/StockOrdering.thy ===== *)
theory StockOrdering
  imports StockTargets
begin

text \<open>
  The order of the board: \<open>services/commands/stock_report/_ordering.py\<close> and the two commands that move one
  snapshot (\<open>set_stock_report_item_priority.py\<close>, \<open>set_stock_report_item_priority_order.py\<close>). The commands are
  modelled up to their last write; the response and the events are left out, and a history record gets its
  identifier from a parameter.

  The specification of a board is one list of snapshots per version and priority; a store represents it when the
  orders of every group are the positions in its list.
\<close>

section \<open>The shift statements\<close>

definition in_group :: "string \<Rightarrow> stock_priority \<Rightarrow> item_snapshot \<Rightarrow> bool" where
  "in_group vid p s \<longleftrightarrow> snapshot_version_id s = vid \<and> snapshot_priority s = Some p \<and> is_snapshot_open s"

definition in_band :: "int \<Rightarrow> int option \<Rightarrow> item_snapshot \<Rightarrow> bool" where
  "in_band low high s \<longleftrightarrow> (case priority_order s of
     None \<Rightarrow> False | Some k \<Rightarrow> low \<le> k \<and> (case high of None \<Rightarrow> True | Some h \<Rightarrow> k \<le> h))"

definition reorder :: "int \<Rightarrow> item_snapshot \<Rightarrow> item_snapshot" where
  "reorder delta s = s\<lparr>priority_order := map_option (\<lambda>k. k + delta) (priority_order s)\<rparr>"

definition shift :: "string \<Rightarrow> stock_priority \<Rightarrow> int \<Rightarrow> int option \<Rightarrow> int \<Rightarrow> item_snapshot list \<Rightarrow> item_snapshot list" where
  "shift vid p low high delta snaps =
     (if (case high of None \<Rightarrow> False | Some h \<Rightarrow> h < low) then snaps
      else update_where (\<lambda>s. in_group vid p s \<and> in_band low high s) (reorder delta) snaps)"

definition close_priority_gap :: "string \<Rightarrow> stock_priority \<Rightarrow> int option \<Rightarrow> item_snapshot list \<Rightarrow> item_snapshot list" where
  "close_priority_gap vid p removed_order snaps =
     (case removed_order of None \<Rightarrow> snaps | Some k \<Rightarrow> shift vid p (k + 1) None (- 1) snaps)"

definition append_to_priority_group :: "string \<Rightarrow> stock_priority \<Rightarrow> item_snapshot list \<Rightarrow> int" where
  "append_to_priority_group vid p snaps =
     (case List.map_filter priority_order (filter (in_group vid p) snaps) of [] \<Rightarrow> 0 | k # ks \<Rightarrow> Max (set (k # ks))) + 1"

definition shift_within_group :: "string \<Rightarrow> stock_priority \<Rightarrow> int \<Rightarrow> int \<Rightarrow> item_snapshot list \<Rightarrow> item_snapshot list" where
  "shift_within_group vid p from_order to_order snaps =
     (if to_order = from_order then snaps
      else if to_order < from_order then shift vid p to_order (Some (from_order - 1)) 1 snaps
      else shift vid p (from_order + 1) (Some to_order) (- 1) snaps)"

section \<open>Moving one snapshot\<close>

definition lock_snapshot_and_groups :: "string \<Rightarrow> string \<Rightarrow> stock_priority option list \<Rightarrow> stock_db \<Rightarrow> item_snapshot list" where
  "lock_snapshot_and_groups vid sid priorities db =
     filter (\<lambda>s. snapshot_version_id s = vid \<and> is_snapshot_open s
       \<and> (snapshot_id s = sid \<or> snapshot_priority s \<noteq> None \<and> snapshot_priority s \<in> set priorities)) (snapshots db)"

definition history_of ::
    "history_type \<Rightarrow> string \<Rightarrow> item_snapshot \<Rightarrow> stock_priority option \<Rightarrow> int option \<Rightarrow> stock_row \<Rightarrow> string option \<Rightarrow> int
      \<Rightarrow> history_record result" where
  \<comment> \<open>\<open>snapshot_history_quantities\<close>, and the insert of a record written against a snapshot\<close>
  "history_of type hid s prio order row actor now =
     (case effective_quantity_requested s row of
        None \<Rightarrow> Inl (IntegrityError ''quantity_requested'')
      | Some q \<Rightarrow> Inr \<lparr>history_id = hid, history_row_id = row_id row, history_type = type, history_requested = q,
          history_source = quantity_requested_source s, history_awaiting = quantity_awaiting row, history_priority = prio,
          history_priority_order = order, history_created_at = now, history_created_by_id = actor,
          history_is_deleted = False, history_deleted_at = None, history_deleted_by_id = None\<rparr>)"

definition record_history :: "bool \<Rightarrow> history_record result \<Rightarrow> stock_db \<Rightarrow> stock_db result" where
  "record_history write h db = (if write then rbind h (\<lambda>h. Inr (db\<lparr>histories := histories db @ [h]\<rparr>)) else Inr db)"

definition write_mover ::
    "string \<Rightarrow> (item_snapshot \<Rightarrow> item_snapshot) \<Rightarrow> string option \<Rightarrow> int \<Rightarrow> item_snapshot list \<Rightarrow> item_snapshot list" where
  "write_mover sid vals actor now =
     update_where (\<lambda>s. snapshot_id s = sid) (\<lambda>s. (vals s)\<lparr>snapshot_updated_at := Some now, snapshot_updated_by_id := actor\<rparr>)"

definition set_stock_report_item_priority ::
    "string \<Rightarrow> string option \<Rightarrow> stock_priority option \<Rightarrow> string option \<Rightarrow> int \<Rightarrow> string \<Rightarrow> stock_db \<Rightarrow> stock_db result" where
  "set_stock_report_item_priority rid vid target actor now hid db =
     rbind (find_row rid db) (\<lambda>row.
     rbind (discover_target_snapshot rid vid db) (\<lambda>t.
     let rows = lock_snapshot_and_groups (target_version_id t) (snapshot_id (target_found t))
           [snapshot_priority (target_found t), target] db in
     rbind (check_locked_target t (List.find (\<lambda>s. snapshot_id s = snapshot_id (target_found t)) rows) db) (\<lambda>(version, s).
     if snapshot_priority s = target then Inr db
     else
       let closed = (case snapshot_priority s of
             None \<Rightarrow> snapshots db
           | Some p \<Rightarrow> close_priority_gap (snapshot_version_id s) p (priority_order s) (snapshots db));
           order = map_option (\<lambda>p. append_to_priority_group (snapshot_version_id s) p closed) target in
       record_history (is_version_active version) (history_of HistPRIORITY_CHANGE hid s target order row actor now)
         (db\<lparr>snapshots := write_mover (snapshot_id s)
            (\<lambda>m. m\<lparr>snapshot_priority := target, priority_order := order\<rparr>) actor now closed\<rparr>))))"

definition set_stock_report_item_priority_order ::
    "string \<Rightarrow> string option \<Rightarrow> int \<Rightarrow> string option \<Rightarrow> int \<Rightarrow> string \<Rightarrow> stock_db \<Rightarrow> stock_db result" where
  "set_stock_report_item_priority_order rid vid target actor now hid db =
     rbind (find_row rid db) (\<lambda>row.
     rbind (discover_target_snapshot rid vid db) (\<lambda>t.
     let rows = lock_snapshot_and_groups (target_version_id t) (snapshot_id (target_found t)) [snapshot_priority (target_found t)] db in
     rbind (check_locked_target t (List.find (\<lambda>s. snapshot_id s = snapshot_id (target_found t)) rows) db) (\<lambda>(version, s).
     case snapshot_priority s of
       None \<Rightarrow> Inl (ValidationError ''STOCK_REPORT_ROW_HAS_NO_PRIORITY'')
     | Some p \<Rightarrow>
         let n = int (length (filter (\<lambda>c. snapshot_priority c = Some p) rows)) in
         rbind (rguard (1 \<le> target \<and> target \<le> n) (ValidationError ''STOCK_REPORT_TARGET_OUT_OF_RANGE'')) (\<lambda>_.
         case priority_order s of
           None \<Rightarrow> Inl (TypeError ''priority_order'')
         | Some position \<Rightarrow>
             if target = position then Inr db
             else
               record_history (is_version_active version)
                 (history_of HistPRIORITY_ORDER_CHANGE hid s (snapshot_priority s) (Some target) row actor now)
                 (db\<lparr>snapshots := write_mover (snapshot_id s) (\<lambda>m. m\<lparr>priority_order := Some target\<rparr>) actor now
                    (shift_within_group (snapshot_version_id s) p position target (snapshots db))\<rparr>)))))"

section \<open>The board as lists\<close>

text \<open>A board gives the snapshots of every group in their order, by identifier.\<close>

type_synonym board = "string \<Rightarrow> stock_priority \<Rightarrow> string list"

primrec numbered :: "int \<Rightarrow> string list \<Rightarrow> (int option \<times> string) set" where
  "numbered k [] = {}"
| "numbered k (x # xs) = insert (Some k, x) (numbered (k + 1) xs)"

definition slots :: "string \<Rightarrow> stock_priority \<Rightarrow> item_snapshot list \<Rightarrow> (int option \<times> string) set" where
  "slots vid p snaps = (\<lambda>s. (priority_order s, snapshot_id s)) ` set (filter (in_group vid p) snaps)"

definition shows_board :: "board \<Rightarrow> item_snapshot list \<Rightarrow> bool" where
  "shows_board b snaps \<longleftrightarrow> (\<forall>vid p. slots vid p snaps = numbered 1 (b vid p) \<and> distinct (b vid p))"

definition withdrawn :: "string \<Rightarrow> board \<Rightarrow> board" where
  "withdrawn sid b = (\<lambda>vid p. removeAll sid (b vid p))"

definition reprioritised :: "string \<Rightarrow> stock_priority option \<Rightarrow> string \<Rightarrow> board \<Rightarrow> board" where
  "reprioritised vid target sid b = (case target of
     None \<Rightarrow> withdrawn sid b
   | Some p \<Rightarrow> (withdrawn sid b)(vid := (withdrawn sid b vid)(p := withdrawn sid b vid p @ [sid])))"

definition insert_at :: "nat \<Rightarrow> 'a \<Rightarrow> 'a list \<Rightarrow> 'a list" where
  "insert_at n x xs = take n xs @ x # drop n xs"

definition repositioned :: "string \<Rightarrow> stock_priority \<Rightarrow> string \<Rightarrow> int \<Rightarrow> board \<Rightarrow> board" where
  "repositioned vid p sid t b = b(vid := (b vid)(p := insert_at (nat (t - 1)) sid (removeAll sid (b vid p))))"

lemma numbered_append: "numbered k (xs @ ys) = numbered k xs \<union> numbered (k + int (length xs)) ys"
  by (induction xs arbitrary: k) (simp_all add: add.assoc add.commute)

lemma numbered_ids: "snd ` numbered k xs = set xs"
  by (induction xs arbitrary: k) simp_all

lemma numbered_bounds: "(j, x) \<in> numbered k xs \<Longrightarrow> \<exists>i. j = Some i \<and> k \<le> i \<and> i < k + int (length xs)"
  by (induction xs arbitrary: k) fastforce+

lemma numbered_orders: "fst ` numbered k xs = Some ` {k..<k + int (length xs)}"
proof (induction xs arbitrary: k)
  case (Cons x xs)
  have "{k..<k + int (length (x # xs))} = insert k {k + 1..<k + 1 + int (length xs)}" by auto
  then show ?case using Cons by simp
qed simp

lemma card_numbered: "card (numbered k xs) = length xs"
proof -
  have "inj_on fst (numbered k xs)"
  proof (induction xs arbitrary: k)
    case (Cons x xs)
    then show ?case by (auto simp: image_iff dest!: numbered_bounds)
  qed simp
  then have "card (numbered k xs) = card (fst ` numbered k xs)" by (simp add: card_image)
  also have "\<dots> = length xs" by (simp add: numbered_orders card_image)
  finally show ?thesis .
qed

text \<open>What a shift does to the positions of a list: a stretch inside the band moves, one outside stays.\<close>

definition in_range :: "int \<Rightarrow> int option \<Rightarrow> int option \<Rightarrow> bool" where
  "in_range low high j \<longleftrightarrow> (case j of None \<Rightarrow> False | Some k \<Rightarrow> low \<le> k \<and> (case high of None \<Rightarrow> True | Some h \<Rightarrow> k \<le> h))"

definition moved_slot :: "int \<Rightarrow> int option \<Rightarrow> int \<Rightarrow> int option \<times> string \<Rightarrow> int option \<times> string" where
  "moved_slot low high d = (\<lambda>(j, x). (if in_range low high j then map_option (\<lambda>k. k + d) j else j, x))"

lemma moved_slot_inside:
  "low \<le> k \<Longrightarrow> (case high of None \<Rightarrow> True | Some h \<Rightarrow> k + int (length xs) \<le> h + 1) \<Longrightarrow> moved_slot low high d ` numbered k xs = numbered (k + d) xs"
proof (induction xs arbitrary: k)
  case (Cons x xs)
  have "moved_slot low high d ` numbered (k + 1) xs = numbered (k + d + 1) xs"
    using Cons.IH [of "k + 1"] Cons.prems by (simp add: algebra_simps split: option.splits)
  moreover have "moved_slot low high d (Some k, x) = (Some (k + d), x)"
    using Cons.prems by (auto simp: moved_slot_def in_range_def split: option.splits)
  ultimately show ?case by simp
qed simp

lemma moved_slot_outside:
  "k + int (length xs) \<le> low \<or> (\<exists>h. high = Some h \<and> h < k) \<Longrightarrow> moved_slot low high d ` numbered k xs = numbered k xs"
proof (induction xs arbitrary: k)
  case (Cons x xs)
  then have "moved_slot low high d ` numbered (k + 1) xs = numbered (k + 1) xs" by (intro Cons.IH) auto
  moreover have "moved_slot low high d (Some k, x) = (Some k, x)" using Cons.prems by (auto simp: moved_slot_def in_range_def)
  ultimately show ?case by simp
qed simp

section \<open>The statements on the groups\<close>

lemma slots_mem: "(j, x) \<in> slots vid p snaps \<longleftrightarrow> (\<exists>s \<in> set snaps. in_group vid p s \<and> priority_order s = j \<and> snapshot_id s = x)"
  by (auto simp: slots_def)

lemma in_band_range: "in_band low high s \<longleftrightarrow> in_range low high (priority_order s)"
  by (simp add: in_band_def in_range_def)

lemma reorder_simps [simp]:
  "in_group vid p (reorder d s) \<longleftrightarrow> in_group vid p s" "snapshot_id (reorder d s) = snapshot_id s"
  "priority_order (reorder d s) = map_option (\<lambda>k. k + d) (priority_order s)" "snapshot_priority (reorder d s) = snapshot_priority s"
  by (simp_all add: reorder_def in_group_def is_snapshot_open_def)

lemma empty_band: "\<not> low \<le> h \<Longrightarrow> \<not> in_range low (Some h) j"
  by (auto simp: in_range_def split: option.splits)

lemma shift_eq: "shift vid p low high d snaps = update_where (\<lambda>s. in_group vid p s \<and> in_range low high (priority_order s)) (reorder d) snaps"
  by (auto simp: shift_def in_band_range empty_band update_where_nothing split: option.splits)

lemma slots_shift: "slots vid p (shift vid' p' low high d snaps) =
    (if vid = vid' \<and> p = p' then moved_slot low high d ` slots vid p snaps else slots vid p snaps)"
proof -
  let ?f = "\<lambda>s. if in_group vid' p' s \<and> in_range low high (priority_order s) then reorder d s else s"
  have mem: "set (filter (in_group vid p) (map ?f snaps)) = ?f ` set (filter (in_group vid p) snaps)" by auto
  have "(priority_order (?f s), snapshot_id (?f s)) = (if vid = vid' \<and> p = p' then moved_slot low high d (priority_order s, snapshot_id s)
      else (priority_order s, snapshot_id s))" if "in_group vid p s" for s
    using that by (auto simp: moved_slot_def in_group_def)
  then show ?thesis unfolding shift_eq update_where_def slots_def mem image_image by (auto intro!: image_cong)
qed

lemma mover_unshifted: "\<not> in_range low high (priority_order m) \<Longrightarrow> m \<in> set snaps \<Longrightarrow> m \<in> set (shift vid p low high d snaps)"
  by (auto simp: shift_eq update_where_set)

lemma shift_ids [simp]: "map snapshot_id (shift vid p low high d snaps) = map snapshot_id snaps"
  by (simp add: shift_eq)

lemma write_mover_set:
  assumes "distinct (map snapshot_id snaps)" "m \<in> set snaps"
  shows "set (write_mover (snapshot_id m) vals actor now snaps) =
    insert ((vals m)\<lparr>snapshot_updated_at := Some now, snapshot_updated_by_id := actor\<rparr>) (set snaps - {m})"
proof -
  have "snapshot_id s = snapshot_id m \<longleftrightarrow> s = m" if "s \<in> set snaps" for s
    using assms that by (auto simp: distinct_map dest: inj_onD)
  then have image: "(\<lambda>s. if snapshot_id s = snapshot_id m then f s else s) ` set snaps = insert (f m) (set snaps - {m})" for f
    using assms(2) by (auto simp: image_iff)
  show ?thesis unfolding write_mover_def update_where_def set_map by (rule image)
qed

lemma stamp_simps [simp]:
  "in_group vid p (s\<lparr>snapshot_updated_at := w, snapshot_updated_by_id := a\<rparr>) = in_group vid p s"
  by (simp add: in_group_def is_snapshot_open_def)

lemma slots_write_mover:
  assumes "distinct (map snapshot_id snaps)" "m \<in> set snaps" "snapshot_id (vals m) = snapshot_id m"
  shows "slots vid p (write_mover (snapshot_id m) vals actor now snaps) =
    {(j, x) \<in> slots vid p snaps. x \<noteq> snapshot_id m}
    \<union> (if in_group vid p (vals m) then {(priority_order (vals m), snapshot_id m)} else {})"
proof -
  have "snapshot_id s \<noteq> snapshot_id m" if "s \<in> set snaps - {m}" for s
    using assms that by (auto simp: distinct_map dest: inj_onD)
  then have "{(j, x) \<in> slots vid p snaps. x \<noteq> snapshot_id m}
      = (\<lambda>s. (priority_order s, snapshot_id s)) ` {s \<in> set snaps - {m}. in_group vid p s}"
    by (auto simp: slots_def)
  moreover have "{s \<in> insert u (set snaps - {m}). in_group vid p s}
      = {s \<in> set snaps - {m}. in_group vid p s} \<union> (if in_group vid p u then {u} else {})" for u
    by auto
  ultimately show ?thesis
    using assms(3) by (simp add: slots_def write_mover_set [OF assms(1,2)] image_Un)
qed

lemma numbered_mem: "(j, x) \<in> numbered k xs \<Longrightarrow> x \<in> set xs"
  using numbered_ids [of k xs] by (force simp: image_iff)

lemma numbered_without: "sid \<notin> set xs \<Longrightarrow> {(j, x) \<in> numbered k xs. x \<noteq> sid} = numbered k xs"
  using numbered_mem by fastforce

lemma numbered_split_without:
  assumes "sid \<notin> set xs" "sid \<notin> set ys"
  shows "{(j, x) \<in> numbered k (xs @ sid # ys). x \<noteq> sid} = numbered k xs \<union> numbered (k + int (length xs) + 1) ys"
  using assms by (auto simp: numbered_append dest: numbered_mem)

lemma slots_other_ids:
  assumes "distinct (map snapshot_id snaps)" "m \<in> set snaps" "\<not> in_group vid p m"
  shows "{(j, x) \<in> slots vid p snaps. x \<noteq> snapshot_id m} = slots vid p snaps"
  using assms by (auto simp: slots_mem distinct_map dest: inj_onD)

text \<open>A mover sits between those before and those after it; a shift of the latter closes its gap.\<close>

lemma mover_slot:
  assumes "slots vid p snaps = numbered 1 xs" "distinct xs" "m \<in> set snaps" "in_group vid p m"
  obtains as bs where "xs = as @ snapshot_id m # bs" "snapshot_id m \<notin> set as" "snapshot_id m \<notin> set bs"
    "priority_order m = Some (1 + int (length as))"
proof -
  have slot: "(priority_order m, snapshot_id m) \<in> numbered 1 xs"
    using assms(3,4) unfolding assms(1) [symmetric] slots_mem by blast
  then obtain as bs where xs: "xs = as @ snapshot_id m # bs" by (meson numbered_mem split_list)
  then have "priority_order m = Some (1 + int (length as))"
    using slot assms(2) by (auto simp: numbered_append dest: numbered_mem)
  then show thesis using that xs assms(2) by simp
qed

lemma moved_slot_split:
  "moved_slot low high d ` {(j, x) \<in> S. x \<noteq> sid} = {(j, x) \<in> moved_slot low high d ` S. x \<noteq> sid}"
proof -
  have "{(j, x) \<in> T. x \<noteq> sid} = {z \<in> T. snd z \<noteq> sid}" for T :: "(int option \<times> string) set" by auto
  moreover have "snd (moved_slot low high d z) = snd z" for z by (simp add: moved_slot_def split: prod.split)
  ultimately show ?thesis by auto
qed

lemma shift_without:
  "{(j, x) \<in> slots vid p (shift vid p low high d snaps). x \<noteq> sid} = moved_slot low high d ` {(j, x) \<in> slots vid p snaps. x \<noteq> sid}"
  by (simp add: slots_shift moved_slot_split)

lemma gap_closed:
  assumes "slots vid p snaps = numbered 1 xs" "distinct xs" "m \<in> set snaps" "in_group vid p m"
  shows "{(j, x) \<in> slots vid p (close_priority_gap vid p (priority_order m) snaps). x \<noteq> snapshot_id m}
      = numbered 1 (removeAll (snapshot_id m) xs)"
    "m \<in> set (close_priority_gap vid p (priority_order m) snaps)"
proof -
  obtain as bs where xs: "xs = as @ snapshot_id m # bs" "snapshot_id m \<notin> set as" "snapshot_id m \<notin> set bs"
      and order: "priority_order m = Some (1 + int (length as))"
    by (rule mover_slot [OF assms])
  have "close_priority_gap vid p (priority_order m) snaps = shift vid p (2 + int (length as)) None (- 1) snaps"
    by (simp add: close_priority_gap_def order)
  moreover have "moved_slot (2 + int (length as)) None (- 1) ` numbered 1 as = numbered 1 as"
    by (rule moved_slot_outside) simp
  moreover have "moved_slot (2 + int (length as)) None (- 1) ` numbered (2 + int (length as)) bs = numbered (1 + int (length as)) bs"
    using moved_slot_inside [of "2 + int (length as)" "2 + int (length as)" bs None "- 1"] by simp
  ultimately show "{(j, x) \<in> slots vid p (close_priority_gap vid p (priority_order m) snaps). x \<noteq> snapshot_id m}
      = numbered 1 (removeAll (snapshot_id m) xs)"
    using numbered_split_without [OF xs(2,3), of 1]
    by (simp add: shift_without assms(1) xs image_Un numbered_append add.commute)
  show "m \<in> set (close_priority_gap vid p (priority_order m) snaps)"
    using assms(3) by (auto simp: close_priority_gap_def order in_range_def intro: mover_unshifted)
qed

lemma shifted_within:
  assumes "slots vid p snaps = numbered 1 xs" "distinct xs" "m \<in> set snaps" "in_group vid p m"
    "priority_order m = Some k" "1 \<le> t" "t \<le> int (length xs)"
  shows "{(j, x) \<in> slots vid p (shift_within_group vid p k t snaps). x \<noteq> snapshot_id m} \<union> {(Some t, snapshot_id m)}
      = numbered 1 (insert_at (nat (t - 1)) (snapshot_id m) (removeAll (snapshot_id m) xs))" (is "?shown = _")
    "m \<in> set (shift_within_group vid p k t snaps)"
proof -
  obtain as bs where xs: "xs = as @ snapshot_id m # bs" "snapshot_id m \<notin> set as" "snapshot_id m \<notin> set bs"
      and order: "k = 1 + int (length as)"
    using mover_slot [OF assms(1-4)] assms(5) by (metis option.inject)
  have start: "{(j, x) \<in> slots vid p snaps. x \<noteq> snapshot_id m} = numbered 1 as \<union> numbered (k + 1) bs"
    using numbered_split_without [OF xs(2,3), of 1] by (simp add: assms(1) xs(1) order add.commute)
  have inserted: "insert_at (nat (t - 1)) (snapshot_id m) (removeAll (snapshot_id m) xs)
      = insert_at (nat (t - 1)) (snapshot_id m) (as @ bs)"
    using xs by simp
  consider "t = k" | "t < k" | "k < t" by linarith
  then show "?shown = numbered 1 (insert_at (nat (t - 1)) (snapshot_id m) (removeAll (snapshot_id m) xs))"
  proof cases
    case 1
    then show ?thesis
      unfolding inserted using order start by (auto simp: shift_within_group_def insert_at_def numbered_append add.commute)
  next
    case 2
    let ?ps = "take (nat (t - 1)) as" and ?qs = "drop (nat (t - 1)) as"
    have cut: "int (length ?ps) = t - 1" "t + int (length ?qs) = k" using 2 assms(6) order by simp_all
    have "numbered 1 as = numbered 1 ?ps \<union> numbered t ?qs"
      using numbered_append [of 1 ?ps ?qs] cut(1) by simp
    moreover have "moved_slot t (Some (k - 1)) 1 ` numbered 1 ?ps = numbered 1 ?ps" by (rule moved_slot_outside) (use cut in auto)
    moreover have "moved_slot t (Some (k - 1)) 1 ` numbered t ?qs = numbered (t + 1) ?qs" by (rule moved_slot_inside) (use cut in auto)
    moreover have "moved_slot t (Some (k - 1)) 1 ` numbered (k + 1) bs = numbered (k + 1) bs" by (rule moved_slot_outside) simp
    moreover have "insert_at (nat (t - 1)) (snapshot_id m) (as @ bs) = ?ps @ snapshot_id m # ?qs @ bs"
      using cut by (simp add: insert_at_def)
    ultimately show ?thesis
      unfolding inserted using 2 start cut
      by (simp add: shift_within_group_def shift_without image_Un numbered_append) (auto simp: algebra_simps)
  next
    case 3
    let ?ps = "take (nat (t - k)) bs" and ?qs = "drop (nat (t - k)) bs"
    have cut: "k + int (length ?ps) = t" using 3 assms(7) order xs(1) by simp
    have "numbered (k + 1) bs = numbered (k + 1) ?ps \<union> numbered (t + 1) ?qs"
      using numbered_append [of "k + 1" ?ps ?qs] cut by (simp add: algebra_simps)
    moreover have "moved_slot (k + 1) (Some t) (- 1) ` numbered 1 as = numbered 1 as"
      by (rule moved_slot_outside) (simp add: order)
    moreover have "moved_slot (k + 1) (Some t) (- 1) ` numbered (k + 1) ?ps = numbered k ?ps"
      using moved_slot_inside [of "k + 1" "k + 1" ?ps "Some t" "- 1"] cut by simp
    moreover have "moved_slot (k + 1) (Some t) (- 1) ` numbered (t + 1) ?qs = numbered (t + 1) ?qs"
      by (rule moved_slot_outside) simp
    moreover have "insert_at (nat (t - 1)) (snapshot_id m) (as @ bs) = as @ ?ps @ snapshot_id m # ?qs"
    proof -
      have "nat (t - 1) = length as + nat (t - k)" using 3 order by linarith
      then show ?thesis by (simp add: insert_at_def)
    qed
    ultimately show ?thesis
      unfolding inserted using 3 start cut order
      by (simp add: shift_within_group_def shift_without image_Un numbered_append)
  qed
  show "m \<in> set (shift_within_group vid p k t snaps)"
    using assms(3,5) by (auto simp: shift_within_group_def in_range_def intro!: mover_unshifted)
qed

section \<open>The two commands\<close>

text \<open>Rewriting the positions of snapshots keeps what the tables promise.\<close>

definition snapshot_frame :: "item_snapshot \<Rightarrow> string \<times> string \<times> string \<times> int option \<times> int option \<times> int option \<times> int option" where
  "snapshot_frame s = (snapshot_id s, snapshot_version_id s, snapshot_row_id s, requested_scanner s, snapshot_missing s,
     snapshot_active_at s, snapshot_closed_at s)"

definition paired :: "item_snapshot \<Rightarrow> bool" where
  "paired s \<longleftrightarrow> (snapshot_priority s = None) = (priority_order s = None)"

lemma sound_paired: "sound_snapshot db s \<Longrightarrow> paired s"
  by (simp add: sound_snapshot_def paired_def)

lemma sound_reframed:
  "snapshot_frame s = snapshot_frame s0 \<Longrightarrow> paired s \<Longrightarrow> sound_snapshot db s0 \<Longrightarrow>
     stock_rows db' = stock_rows db \<Longrightarrow> versions db' = versions db \<Longrightarrow> sound_snapshot db' s"
  by (simp add: sound_snapshot_def snapshot_frame_def paired_def)

lemma snapshots_rewritten:
  assumes "snapshots_ok db" "map snapshot_frame snaps = map snapshot_frame (snapshots db)" "\<forall>s \<in> set snaps. paired s"
  shows "snapshots_ok (db\<lparr>snapshots := snaps, histories := hs\<rparr>)"
proof -
  have frames: "map f snaps = map f (snapshots db)" if "\<And>s. f s = g (snapshot_frame s)" for f :: "item_snapshot \<Rightarrow> 'k" and g
  proof -
    have "f = g \<circ> snapshot_frame" using that by (simp add: fun_eq_iff)
    then show ?thesis using arg_cong [where f = "map g", OF assms(2)] by simp
  qed
  have "sound_snapshot (db\<lparr>snapshots := snaps, histories := hs\<rparr>) s" if "s \<in> set snaps" for s
  proof -
    have "snapshot_frame s \<in> set (map snapshot_frame (snapshots db))"
      unfolding assms(2) [symmetric] using that by simp
    then obtain s0 where "s0 \<in> set (snapshots db)" "snapshot_frame s = snapshot_frame s0" by auto
    moreover have "sound_snapshot db s0" using assms(1) calculation(1) by (rule soundD)
    ultimately show ?thesis using assms(3) that by (intro sound_reframed [of s s0 db]) simp_all
  qed
  moreover have "map snapshot_id snaps = map snapshot_id (snapshots db)"
    by (rule frames [of _ fst]) (simp add: snapshot_frame_def)
  moreover have "map (\<lambda>s. (snapshot_version_id s, snapshot_row_id s)) snaps
      = map (\<lambda>s. (snapshot_version_id s, snapshot_row_id s)) (snapshots db)"
    by (rule frames [of _ "\<lambda>f. (fst (snd f), fst (snd (snd f)))"]) (simp add: snapshot_frame_def)
  ultimately show ?thesis using assms(1) by (simp add: snapshots_ok_def)
qed

lemma shift_frame: "map snapshot_frame (shift vid p low high d snaps) = map snapshot_frame snaps"
  by (auto simp: shift_eq update_where_def snapshot_frame_def reorder_def)

lemma shift_paired: "\<forall>s \<in> set snaps. paired s \<Longrightarrow> \<forall>s \<in> set (shift vid p low high d snaps). paired s"
  by (auto simp: shift_eq update_where_set paired_def)

lemma close_gap_frame:
  "map snapshot_frame (close_priority_gap vid p k snaps) = map snapshot_frame snaps"
  "map snapshot_id (close_priority_gap vid p k snaps) = map snapshot_id snaps"
  "\<forall>s \<in> set snaps. paired s \<Longrightarrow> \<forall>s \<in> set (close_priority_gap vid p k snaps). paired s"
  by (cases k; simp add: close_priority_gap_def shift_frame shift_paired)+

lemma shift_within_frame:
  "map snapshot_frame (shift_within_group vid p j k snaps) = map snapshot_frame snaps"
  "map snapshot_id (shift_within_group vid p j k snaps) = map snapshot_id snaps"
  "\<forall>s \<in> set snaps. paired s \<Longrightarrow> \<forall>s \<in> set (shift_within_group vid p j k snaps). paired s"
  by (simp_all add: shift_within_group_def shift_frame shift_paired)

lemma write_mover_frame:
  assumes "\<And>s. snapshot_frame (vals s) = snapshot_frame s"
  shows "map snapshot_frame (write_mover sid vals actor now snaps) = map snapshot_frame snaps"
  using assms by (auto simp: write_mover_def update_where_def snapshot_frame_def)

lemma write_mover_paired:
  "\<forall>s \<in> set snaps. paired s \<Longrightarrow> (\<And>s. s \<in> set snaps \<Longrightarrow> snapshot_id s = sid \<Longrightarrow> paired (vals s)) \<Longrightarrow>
     \<forall>s \<in> set (write_mover sid vals actor now snaps). paired s"
  by (auto simp: write_mover_def update_where_set paired_def)

text \<open>The next position of a group is one past its length.\<close>

lemma next_position:
  assumes "slots vid p snaps = numbered 1 xs"
  shows "append_to_priority_group vid p snaps = int (length xs) + 1"
proof -
  let ?ks = "List.map_filter priority_order (filter (in_group vid p) snaps)"
  have "Some ` set ?ks = fst ` slots vid p snaps \<inter> range Some"
    by (force simp: slots_def List.map_filter_def image_iff)
  also have "\<dots> = Some ` {1..<1 + int (length xs)}" by (auto simp: assms numbered_orders)
  finally have keys: "set ?ks = {1..<1 + int (length xs)}" by (simp add: inj_image_eq_iff)
  show ?thesis
  proof (cases "?ks")
    case Nil
    then show ?thesis using keys by (cases xs) (auto simp: append_to_priority_group_def)
  next
    case (Cons k ks)
    then have "xs \<noteq> []" using keys by auto
    then have "Max {1..<1 + int (length xs)} = int (length xs)" by (intro Max_eqI) (auto simp: Suc_le_eq)
    then show ?thesis using keys Cons by (simp add: append_to_priority_group_def)
  qed
qed

lemma lock_finds:
  assumes "snapshots_ok db" "s \<in> set (snapshots db)" "is_snapshot_open s"
  shows "List.find (\<lambda>u. snapshot_id u = snapshot_id s) (lock_snapshot_and_groups (snapshot_version_id s) (snapshot_id s) ps db) = Some s"
proof (rule find_by_key)
  show "distinct (map snapshot_id (lock_snapshot_and_groups (snapshot_version_id s) (snapshot_id s) ps db))"
    using assms(1) by (simp add: snapshots_ok_def lock_snapshot_and_groups_def distinct_map_filter)
  show "s \<in> set (lock_snapshot_and_groups (snapshot_version_id s) (snapshot_id s) ps db)"
    using assms by (simp add: lock_snapshot_and_groups_def)
qed

lemma group_size:
  assumes "distinct (map snapshot_id snaps)" "slots vid p snaps = numbered 1 xs"
  shows "length (filter (in_group vid p) snaps) = length xs"
proof -
  have distinct: "distinct (map snapshot_id (filter (in_group vid p) snaps))" using assms(1) by (rule distinct_map_filter)
  then have "inj_on (\<lambda>s. (priority_order s, snapshot_id s)) (set (filter (in_group vid p) snaps))"
    by (auto simp: distinct_map inj_on_def)
  then have "card (slots vid p snaps) = card (set (filter (in_group vid p) snaps))" unfolding slots_def by (rule card_image)
  moreover have "distinct (filter (in_group vid p) snaps)" using distinct by (simp add: distinct_map)
  ultimately show ?thesis using distinct_card [of "filter (in_group vid p) snaps"] by (simp add: assms(2) card_numbered del: set_filter)
qed

lemma locked_group_size:
  assumes "snapshots_ok db" "snapshot_priority s = Some p" "s \<in> set (snapshots db)" "slots (snapshot_version_id s) p (snapshots db) = numbered 1 xs"
  shows "length (filter (\<lambda>c. snapshot_priority c = Some p)
      (lock_snapshot_and_groups (snapshot_version_id s) (snapshot_id s) [snapshot_priority s] db)) = length xs"
proof -
  have "filter (\<lambda>c. snapshot_priority c = Some p) (lock_snapshot_and_groups (snapshot_version_id s) (snapshot_id s) [snapshot_priority s] db)
      = filter (in_group (snapshot_version_id s) p) (snapshots db)"
    by (auto simp: lock_snapshot_and_groups_def in_group_def assms(2) intro: filter_cong)
  then show ?thesis using group_size [OF _ assms(4)] assms(1) by (simp add: snapshots_ok_def)
qed

lemma requested_known:
  assumes "snapshots_ok db" "s \<in> set (snapshots db)"
  shows "effective_quantity_requested s row \<noteq> None"
  using soundD [OF assms] by (auto simp: sound_snapshot_def effective_quantity_requested_def scanner_quantity_requested_def)

lemma history_written:
  assumes "snapshots_ok db" "s \<in> set (snapshots db)"
  obtains h where "history_of type hid s prio order row actor now = Inr h" "history_id h = hid" "history_row_id h = row_id row"
    "history_type h = type" "history_priority h = prio" "history_priority_order h = order" "history_awaiting h = quantity_awaiting row"
    "Some (history_requested h) = effective_quantity_requested s row" "history_is_deleted h = False"
proof -
  obtain q where "effective_quantity_requested s row = Some q" using requested_known [OF assms] by blast
  then show thesis using that by (simp add: history_of_def)
qed

lemma shows_boardD: "shows_board b snaps \<Longrightarrow> slots vid p snaps = numbered 1 (b vid p)" "shows_board b snaps \<Longrightarrow> distinct (b vid p)"
  by (simp_all add: shows_board_def)

lemma board_absent:
  assumes "distinct (map snapshot_id snaps)" "m \<in> set snaps" "shows_board b snaps" "\<not> in_group vid p m"
  shows "snapshot_id m \<notin> set (b vid p)"
proof
  assume "snapshot_id m \<in> set (b vid p)"
  then have "snapshot_id m \<in> snd ` slots vid p snaps" using assms(3) by (simp add: shows_boardD numbered_ids)
  then obtain s where "s \<in> set snaps" "in_group vid p s" "snapshot_id s = snapshot_id m" by (auto simp: slots_def)
  then show False using assms(1,2,4) by (auto simp: distinct_map dest: inj_onD)
qed

text \<open>Taking a snapshot out of its group, whatever happens to it next.\<close>

definition left_group :: "item_snapshot \<Rightarrow> item_snapshot list \<Rightarrow> item_snapshot list" where
  "left_group m snaps = (case snapshot_priority m of
     None \<Rightarrow> snaps | Some p \<Rightarrow> close_priority_gap (snapshot_version_id m) p (priority_order m) snaps)"

lemma left_group_keeps:
  "map snapshot_frame (left_group m snaps) = map snapshot_frame snaps"
  "map snapshot_id (left_group m snaps) = map snapshot_id snaps"
  "\<forall>s \<in> set snaps. paired s \<Longrightarrow> \<forall>s \<in> set (left_group m snaps). paired s"
  by (cases "snapshot_priority m"; simp add: left_group_def close_gap_frame)+

lemma left_group_board:
  assumes "distinct (map snapshot_id snaps)" "m \<in> set snaps" "is_snapshot_open m" "shows_board b snaps"
  shows "{(j, x) \<in> slots vid p (left_group m snaps). x \<noteq> snapshot_id m} = numbered 1 (withdrawn (snapshot_id m) b vid p)"
    "m \<in> set (left_group m snaps)"
proof -
  have own: "in_group (snapshot_version_id m) q m" if "snapshot_priority m = Some q" for q
    using that assms(3) by (simp add: in_group_def)
  show "m \<in> set (left_group m snaps)"
    using assms(2) own gap_closed(2) [OF shows_boardD [OF assms(4)] assms(2)] by (auto simp: left_group_def split: option.split)
  show "{(j, x) \<in> slots vid p (left_group m snaps). x \<noteq> snapshot_id m} = numbered 1 (withdrawn (snapshot_id m) b vid p)"
  proof (cases "in_group vid p m")
    case True
    then show ?thesis
      using gap_closed(1) [OF shows_boardD [OF assms(4)] assms(2) True]
      by (simp add: left_group_def in_group_def withdrawn_def)
  next
    case False
    then have "slots vid p (left_group m snaps) = slots vid p snaps"
      using own by (auto simp: left_group_def close_priority_gap_def slots_shift split: option.split)
    then show ?thesis
      using slots_other_ids [OF assms(1,2) False] board_absent [OF assms(1,2,4) False]
      by (simp add: withdrawn_def shows_boardD [OF assms(4)])
  qed
qed

lemma withdrawn_distinct: "shows_board b snaps \<Longrightarrow> distinct (withdrawn sid b vid p)"
  by (simp add: withdrawn_def shows_board_def distinct_removeAll)

text \<open>What a command adds to the history, as the type and the position it records.\<close>

definition history_entry :: "history_record \<Rightarrow> history_type \<times> string \<times> stock_priority option \<times> int option" where
  "history_entry h = (history_type h, history_row_id h, history_priority h, history_priority_order h)"

lemma recorded:
  assumes "snapshots_ok db0" "s \<in> set (snapshots db0)"
  obtains hs where "record_history write (history_of type hid s prio order row actor now) db = Inr (db\<lparr>histories := histories db @ hs\<rparr>)"
    "map history_entry hs = (if write then [(type, row_id row, prio, order)] else [])"
proof -
  obtain h where "history_of type hid s prio order row actor now = Inr h" "history_entry h = (type, row_id row, prio, order)"
    by (rule history_written [OF assms, of type hid prio order row actor now]) (auto simp: history_entry_def)
  then show thesis using that [of "if write then [h] else []"] by (simp add: record_history_def)
qed

lemma reprioritised_board:
  assumes "distinct (map snapshot_id snaps)" "m \<in> set snaps" "is_snapshot_open m" "shows_board b snaps"
    "order = map_option (\<lambda>p. append_to_priority_group (snapshot_version_id m) p (left_group m snaps)) target"
    "snapshot_priority m \<noteq> target"
  shows "shows_board (reprioritised (snapshot_version_id m) target (snapshot_id m) b)
      (write_mover (snapshot_id m) (\<lambda>s. s\<lparr>snapshot_priority := target, priority_order := order\<rparr>) actor now (left_group m snaps))"
    "order = map_option (\<lambda>p. int (length (withdrawn (snapshot_id m) b (snapshot_version_id m) p)) + 1) target"
proof -
  let ?w = "withdrawn (snapshot_id m) b" and ?vid = "snapshot_version_id m" and ?id = "snapshot_id m"
  let ?vals = "\<lambda>s. s\<lparr>snapshot_priority := target, priority_order := order\<rparr>"
  have ids: "distinct (map snapshot_id (left_group m snaps))" using assms(1) by (simp add: left_group_keeps)
  note left = left_group_board [OF assms(1-4)]
  have joins: "in_group vid p (?vals m) \<longleftrightarrow> vid = ?vid \<and> target = Some p" for vid p
    using assms(3) by (auto simp: in_group_def is_snapshot_open_def)
  have outside: "slots ?vid p (left_group m snaps) = numbered 1 (?w ?vid p)" if "target = Some p" for p
  proof -
    have "\<not> in_group ?vid p m" using that assms(6) by (auto simp: in_group_def)
    then have "{(j, x) \<in> slots ?vid p (left_group m snaps). x \<noteq> ?id} = slots ?vid p (left_group m snaps)"
      using slots_other_ids [OF ids left(2)] by simp
    then show ?thesis using left(1) [of ?vid p] by simp
  qed
  show order: "order = map_option (\<lambda>p. int (length (?w ?vid p)) + 1) target"
    using next_position [OF outside] by (cases target) (simp_all add: assms(5))
  have "slots vid p (write_mover ?id ?vals actor now (left_group m snaps)) = numbered 1 (reprioritised ?vid target ?id b vid p)"
    for vid p
    unfolding slots_write_mover [OF ids left(2), of ?vals, simplified] left(1) joins
    by (cases target) (auto simp: reprioritised_def order numbered_append)
  moreover have "distinct (reprioritised ?vid target ?id b vid p)" for vid p
    using withdrawn_distinct [OF assms(4)]
    by (auto simp: reprioritised_def withdrawn_def split: option.split)
  ultimately show "shows_board (reprioritised ?vid target ?id b) (write_mover ?id ?vals actor now (left_group m snaps))"
    by (simp add: shows_board_def)
qed

lemma set_priority_reached:
  assumes "snapshots_ok db" "s \<in> set (snapshots db)" "is_snapshot_open s" "names_snapshot vid s"
    "r \<in> set (stock_rows db)" "row_id r = snapshot_row_id s" "\<not> row_is_deleted r"
  shows "set_stock_report_item_priority (snapshot_row_id s) vid target actor now hid db =
     (if snapshot_priority s = target then Inr db
      else let order = map_option (\<lambda>p. append_to_priority_group (snapshot_version_id s) p (left_group s (snapshots db))) target in
       record_history (is_snapshot_active s) (history_of HistPRIORITY_CHANGE hid s target order r actor now)
         (db\<lparr>snapshots := write_mover (snapshot_id s) (\<lambda>m. m\<lparr>snapshot_priority := target, priority_order := order\<rparr>)
            actor now (left_group s (snapshots db))\<rparr>))"
proof -
  have row: "find_row (snapshot_row_id s) db = Inr r"
    using find_row_in [OF _ assms(5,7)] assms(1,6) by (simp add: snapshots_ok_def)
  obtain t v where t: "discover_target_snapshot (snapshot_row_id s) vid db = Inr t" "target_found t = s"
      "target_version_id t = snapshot_version_id s" "check_locked_target t (Some s) db = Inr (v, s)"
      "version_active_at v = snapshot_active_at s" "version_closed_at v = None"
    using target_reached [OF assms(1-4)] by metis
  have active: "is_version_active v \<longleftrightarrow> is_snapshot_active s"
    using t(5,6) assms(3) by (simp add: is_version_active_def is_snapshot_active_def is_snapshot_open_def)
  show ?thesis
    by (simp add: set_stock_report_item_priority_def row t lock_finds [OF assms(1-3)] active left_group_def Let_def cong: if_cong)
qed

lemma mover_keeps_ok:
  assumes "snapshots_ok db" "map snapshot_frame snaps = map snapshot_frame (snapshots db)" "\<forall>s \<in> set snaps. paired s"
    "\<And>s. snapshot_frame (vals s) = snapshot_frame s" "\<And>s. s \<in> set snaps \<Longrightarrow> snapshot_id s = sid \<Longrightarrow> paired (vals s)"
  shows "snapshots_ok (db\<lparr>snapshots := write_mover sid vals actor now snaps, histories := hs\<rparr>)"
  using assms by (intro snapshots_rewritten write_mover_paired) (simp_all add: write_mover_frame)

lemma all_paired: "snapshots_ok db \<Longrightarrow> \<forall>s \<in> set (snapshots db). paired s"
  using sound_paired by (auto simp: snapshots_ok_def)

text \<open>C29: Changing the priority of a row's snapshot takes it out of its group, whose order closes up, and puts it
  at the end of the new group, if any; nothing else moves, in any version. It succeeds for every live row whose
  snapshot the route names in an open version, keeps every group numbered from 1 without gaps, and is recorded,
  with the new position, exactly when it happens on the active version.\<close>

theorem priority_change_moves_to_end:
  assumes "snapshots_ok db" "shows_board b (snapshots db)" "s \<in> set (snapshots db)" "is_snapshot_open s" "names_snapshot vid s"
    "r \<in> set (stock_rows db)" "row_id r = snapshot_row_id s" "\<not> row_is_deleted r"
  shows "\<exists>db' hs. set_stock_report_item_priority (snapshot_row_id s) vid target actor now hid db = Inr db'
    \<and> shows_board (if snapshot_priority s = target then b
        else reprioritised (snapshot_version_id s) target (snapshot_id s) b) (snapshots db')
    \<and> snapshots_ok db' \<and> histories db' = histories db @ hs
    \<and> map history_entry hs = (if snapshot_priority s \<noteq> target \<and> is_snapshot_active s
        then [(HistPRIORITY_CHANGE, snapshot_row_id s, target,
               map_option (\<lambda>p. int (length (withdrawn (snapshot_id s) b (snapshot_version_id s) p)) + 1) target)] else [])"
proof (cases "snapshot_priority s = target")
  case True
  then show ?thesis using set_priority_reached [OF assms(1,3-8)] assms(1,2) by auto
next
  case False
  let ?order = "map_option (\<lambda>p. append_to_priority_group (snapshot_version_id s) p (left_group s (snapshots db))) target"
  let ?snaps = "write_mover (snapshot_id s) (\<lambda>m. m\<lparr>snapshot_priority := target, priority_order := ?order\<rparr>) actor now
    (left_group s (snapshots db))"
  obtain hs where hs: "record_history (is_snapshot_active s) (history_of HistPRIORITY_CHANGE hid s target ?order r actor now)
        (db\<lparr>snapshots := ?snaps\<rparr>) = Inr (db\<lparr>snapshots := ?snaps, histories := histories db @ hs\<rparr>)"
      "map history_entry hs = (if is_snapshot_active s then [(HistPRIORITY_CHANGE, row_id r, target, ?order)] else [])"
    by (rule recorded [OF assms(1,3), of "is_snapshot_active s" HistPRIORITY_CHANGE hid target ?order r actor now
          "db\<lparr>snapshots := ?snaps\<rparr>"]) simp
  have ids: "distinct (map snapshot_id (snapshots db))" using assms(1) by (simp add: snapshots_ok_def)
  note board = reprioritised_board [OF ids assms(3,4,2) refl False]
  have "snapshots_ok (db\<lparr>snapshots := ?snaps, histories := histories db @ hs\<rparr>)"
    by (rule mover_keeps_ok [OF assms(1) left_group_keeps(1) left_group_keeps(3) [OF all_paired [OF assms(1)]]])
      (simp_all add: snapshot_frame_def paired_def)
  then show ?thesis
    using set_priority_reached [OF assms(1,3-8), of target actor now hid] hs board(1) [of actor now] board(2) False assms(7)
    by (intro exI [of _ "db\<lparr>snapshots := ?snaps, histories := histories db @ hs\<rparr>"] exI [of _ hs]) (simp add: Let_def)
qed

lemma insert_at_distinct: "distinct xs \<Longrightarrow> x \<notin> set xs \<Longrightarrow> distinct (insert_at n x xs)"
  by (auto simp: insert_at_def dest: in_set_takeD in_set_dropD) (metis IntI append_take_drop_id distinct_append empty_iff)

lemma repositioned_board:
  assumes "distinct (map snapshot_id snaps)" "m \<in> set snaps" "shows_board b snaps" "in_group vid p m"
    "priority_order m = Some k" "1 \<le> t" "t \<le> int (length (b vid p))"
  shows "shows_board (repositioned vid p (snapshot_id m) t b)
      (if t = k then snaps
       else write_mover (snapshot_id m) (\<lambda>s. s\<lparr>priority_order := Some t\<rparr>) actor now (shift_within_group vid p k t snaps))"
proof -
  let ?b = "repositioned vid p (snapshot_id m) t b" and ?vals = "\<lambda>s. s\<lparr>priority_order := Some t\<rparr>"
  let ?shifted = "shift_within_group vid p k t snaps"
  note within = shifted_within [OF shows_boardD [OF assms(3)] assms(2,4-7)]
  have joins: "in_group v q (?vals m) \<longleftrightarrow> v = vid \<and> q = p" for v q
    using assms(4) by (auto simp: in_group_def is_snapshot_open_def)
  have own: "?b vid p = insert_at (nat (t - 1)) (snapshot_id m) (removeAll (snapshot_id m) (b vid p))"
    by (simp add: repositioned_def)
  have "slots v q (if t = k then snaps else write_mover (snapshot_id m) ?vals actor now ?shifted) = numbered 1 (?b v q)" for v q
  proof (cases "v = vid \<and> q = p")
    case True
    have "slots vid p snaps = {(j, x) \<in> slots vid p snaps. x \<noteq> snapshot_id m} \<union> {(Some k, snapshot_id m)}"
      using assms(1,2,4,5) by (auto simp: slots_mem distinct_map dest: inj_onD)
    then show ?thesis
      using True within slots_write_mover [of ?shifted m ?vals] assms(1) own
      by (auto simp: joins shift_within_frame shift_within_group_def)
  next
    case False
    then have other: "?b v q = b v q" "\<not> in_group v q m" using assms(4) by (auto simp: repositioned_def in_group_def fun_upd_def)
    have "slots v q ?shifted = slots v q snaps"
      using False by (auto simp: shift_within_group_def slots_shift)
    moreover have "slots v q (write_mover (snapshot_id m) ?vals actor now ?shifted) = slots v q ?shifted"
      using slots_write_mover [of ?shifted m ?vals v q] slots_other_ids [of ?shifted m v q] within(2) assms(1) other(2) False
      by (simp add: joins shift_within_frame)
    ultimately show ?thesis using other(1) by (simp add: shows_boardD [OF assms(3)])
  qed
  moreover have "distinct (?b v q)" for v q
    using shows_boardD(2) [OF assms(3)] by (auto simp: repositioned_def distinct_removeAll intro!: insert_at_distinct)
  ultimately show ?thesis by (simp add: shows_board_def)
qed

lemma order_write_ok:
  assumes ok: "snapshots_ok db" and s: "s \<in> set (snapshots db)" "snapshot_priority s = Some p" "priority_order s = Some k"
  shows "snapshots_ok (db\<lparr>snapshots := write_mover (snapshot_id s) (\<lambda>m. m\<lparr>priority_order := Some target\<rparr>) actor now
    (shift_within_group (snapshot_version_id s) p k target (snapshots db)), histories := hs\<rparr>)"
proof (rule mover_keeps_ok [OF ok shift_within_frame(1) shift_within_frame(3) [OF all_paired [OF ok]]])
  fix u assume u: "u \<in> set (shift_within_group (snapshot_version_id s) p k target (snapshots db))" "snapshot_id u = snapshot_id s"
  have ids: "distinct (map snapshot_id (snapshots db))" using ok by (simp add: snapshots_ok_def)
  have "s \<in> set (shift_within_group (snapshot_version_id s) p k target (snapshots db))"
    using s by (auto simp: shift_within_group_def in_range_def intro!: mover_unshifted)
  then have "u = s" using u ids by (metis distinct_map inj_onD shift_within_frame(2))
  then show "paired (u\<lparr>priority_order := Some target\<rparr>)" using s(2) by (simp add: paired_def)
qed (simp add: snapshot_frame_def)

lemma set_order_reached:
  assumes "snapshots_ok db" "s \<in> set (snapshots db)" "is_snapshot_open s" "names_snapshot vid s"
    "r \<in> set (stock_rows db)" "row_id r = snapshot_row_id s" "\<not> row_is_deleted r"
    "snapshot_priority s = Some p" "priority_order s = Some k" "shows_board b (snapshots db)"
  shows "set_stock_report_item_priority_order (snapshot_row_id s) vid target actor now hid db =
     (if \<not> (1 \<le> target \<and> target \<le> int (length (b (snapshot_version_id s) p)))
      then Inl (ValidationError ''STOCK_REPORT_TARGET_OUT_OF_RANGE'')
      else if target = k then Inr db
      else record_history (is_snapshot_active s) (history_of HistPRIORITY_ORDER_CHANGE hid s (Some p) (Some target) r actor now)
         (db\<lparr>snapshots := write_mover (snapshot_id s) (\<lambda>m. m\<lparr>priority_order := Some target\<rparr>) actor now
            (shift_within_group (snapshot_version_id s) p k target (snapshots db))\<rparr>))"
proof -
  have row: "find_row (snapshot_row_id s) db = Inr r"
    using find_row_in [OF _ assms(5,7)] assms(1,6) by (simp add: snapshots_ok_def)
  obtain t v where t: "discover_target_snapshot (snapshot_row_id s) vid db = Inr t" "target_found t = s"
      "target_version_id t = snapshot_version_id s" "check_locked_target t (Some s) db = Inr (v, s)"
      "version_active_at v = snapshot_active_at s" "version_closed_at v = None"
    using target_reached [OF assms(1-4)] by metis
  have active: "is_version_active v \<longleftrightarrow> is_snapshot_active s"
    using t(5,6) assms(3) by (simp add: is_version_active_def is_snapshot_active_def is_snapshot_open_def)
  note size = locked_group_size [OF assms(1,8,2) shows_boardD(1) [OF assms(10)]]
  show ?thesis
    using size assms(8,9)
    by (simp add: set_stock_report_item_priority_order_def row t lock_finds [OF assms(1-3)] active Let_def rguard_def cong: if_cong)
qed

text \<open>C30: Moving a snapshot within its priority group puts it at the requested position and keeps the relative
  order of all others, in this group and elsewhere. It succeeds for every live row whose snapshot the route names
  in an open version and every position from 1 to the size of the group, and refuses every other position; the
  groups stay numbered from 1 without gaps, and the move is recorded exactly on the active version.\<close>

theorem position_change_repositions:
  assumes "snapshots_ok db" "shows_board b (snapshots db)" "s \<in> set (snapshots db)" "is_snapshot_open s" "names_snapshot vid s"
    "r \<in> set (stock_rows db)" "row_id r = snapshot_row_id s" "\<not> row_is_deleted r" "snapshot_priority s = Some p"
  shows "if 1 \<le> target \<and> target \<le> int (length (b (snapshot_version_id s) p))
    then \<exists>db' hs. set_stock_report_item_priority_order (snapshot_row_id s) vid target actor now hid db = Inr db'
      \<and> shows_board (repositioned (snapshot_version_id s) p (snapshot_id s) target b) (snapshots db')
      \<and> snapshots_ok db' \<and> histories db' = histories db @ hs
      \<and> map history_entry hs = (if priority_order s \<noteq> Some target \<and> is_snapshot_active s
          then [(HistPRIORITY_ORDER_CHANGE, snapshot_row_id s, Some p, Some target)] else [])
    else set_stock_report_item_priority_order (snapshot_row_id s) vid target actor now hid db
      = Inl (ValidationError ''STOCK_REPORT_TARGET_OUT_OF_RANGE'')"
proof -
  obtain k where k: "priority_order s = Some k" using sound_paired [OF soundD [OF assms(1,3)]] assms(9) by (auto simp: paired_def)
  note reached = set_order_reached [OF assms(1,3-9) k assms(2), of target actor now hid]
  have ids: "distinct (map snapshot_id (snapshots db))" using assms(1) by (simp add: snapshots_ok_def)
  have own: "in_group (snapshot_version_id s) p s" using assms(4,9) by (simp add: in_group_def)
  note board = repositioned_board [OF ids assms(3,2) own k, of target actor now]
  let ?snaps = "write_mover (snapshot_id s) (\<lambda>m. m\<lparr>priority_order := Some target\<rparr>) actor now
    (shift_within_group (snapshot_version_id s) p k target (snapshots db))"
  obtain hs where hs: "record_history (is_snapshot_active s)
        (history_of HistPRIORITY_ORDER_CHANGE hid s (Some p) (Some target) r actor now) (db\<lparr>snapshots := ?snaps\<rparr>)
      = Inr (db\<lparr>snapshots := ?snaps, histories := histories db @ hs\<rparr>)"
      "map history_entry hs = (if is_snapshot_active s then [(HistPRIORITY_ORDER_CHANGE, row_id r, Some p, Some target)] else [])"
    by (rule recorded [OF assms(1,3), of "is_snapshot_active s" HistPRIORITY_ORDER_CHANGE hid "Some p" "Some target" r actor now
          "db\<lparr>snapshots := ?snaps\<rparr>"]) simp
  have "snapshots_ok (db\<lparr>snapshots := ?snaps, histories := histories db @ hs\<rparr>)"
    by (rule order_write_ok [OF assms(1,3,9) k])
  then show ?thesis
    using reached hs board assms(1,7) k
    by (auto intro: exI [of _ db] exI [of _ "db\<lparr>snapshots := ?snaps, histories := histories db @ hs\<rparr>"] exI [of _ hs])
qed

section \<open>An example\<close>

definition board_row :: "string \<Rightarrow> stock_row" where
  "board_row rid = \<lparr>quantity_in_queue = 0, quantity_in_progress = 1, quantity_awaiting = 0, row_id = rid, row_category_id = ''c'',
     row_properties = [], row_signature = rid, row_requested = 6, row_is_deleted = False, row_deleted_at = None,
     row_deleted_by_id = None, row_updated_at = None, row_updated_by_id = None\<rparr>"

definition board_snapshot :: "string \<Rightarrow> string \<Rightarrow> string \<Rightarrow> int option \<Rightarrow> (stock_priority \<times> int) option \<Rightarrow> item_snapshot" where
  "board_snapshot i vid rid start place = \<lparr>quantity_in_queue = 0, quantity_in_progress = 0, quantity_awaiting = 0, snapshot_id = i,
     snapshot_version_id = vid, snapshot_row_id = rid, requested_scanner = map_option (\<lambda>_. 6) start, requested_manual = None,
     snapshot_missing = map_option (\<lambda>_. 2) start, snapshot_resolved = 0, snapshot_priority = map_option fst place,
     priority_order = map_option snd place, snapshot_active_at = start, snapshot_closed_at = None, snapshot_updated_at = None,
     snapshot_updated_by_id = None\<rparr>"

definition board_version :: "string \<Rightarrow> int option \<Rightarrow> snapshot_version" where
  "board_version vid start = \<lparr>version_id = vid, version_title = None, version_active_at = start, version_closed_at = None,
     version_closed_by_id = None, scheduled_activation_at = None, keeps_active_missing = False, snapshot_count = 3,
     version_created_at = 1, version_created_by_id = None\<rparr>"

definition board_store :: stock_db where
  "board_store = \<lparr>stock_rows = [board_row ''r1'', board_row ''r2'', board_row ''r3''], assignments = [], histories = [],
     snapshots = [board_snapshot ''a1'' ''v'' ''r1'' (Some 5) (Some (PriorityHIGH, 2)),
       board_snapshot ''a2'' ''v'' ''r2'' (Some 5) (Some (PriorityHIGH, 1)), board_snapshot ''a3'' ''v'' ''r3'' (Some 5) (Some (PriorityHIGH, 3)),
       board_snapshot ''d1'' ''d'' ''r1'' None (Some (PriorityHIGH, 1)), board_snapshot ''d3'' ''d'' ''r3'' None (Some (PriorityLOW, 1))],
     versions = [board_version ''v'' (Some 5), board_version ''d'' None], repairs = [], stock_tasks = [], stock_items = [],
     primary_pairs = [], categories = [], schedulers = []\<rparr>"

definition board_lists :: board where
  "board_lists vid p =
     (if vid = ''v'' \<and> p = PriorityHIGH then [''a2'', ''a1'', ''a3'']
      else if vid = ''d'' \<and> p = PriorityHIGH then [''d1''] else if vid = ''d'' \<and> p = PriorityLOW then [''d3''] else [])"

lemmas board_simps = board_store_def board_row_def board_snapshot_def board_version_def

lemma board_store_ok: "snapshots_ok board_store"
  by (simp add: snapshots_ok_def sound_snapshot_def is_version_active_def board_simps)

lemma board_store_shown: "shows_board board_lists (snapshots board_store)"
  by (auto simp: shows_board_def slots_def in_group_def is_snapshot_open_def board_lists_def board_simps split: if_splits)

theorem priority_change_moves_to_end_witness:
  "\<exists>db' hs. set_stock_report_item_priority ''r1'' None (Some PriorityLOW) (Some ''u'') 9 ''h'' board_store = Inr db'
    \<and> shows_board (\<lambda>vid p. if vid = ''v'' \<and> p = PriorityHIGH then [''a2'', ''a3''] else if vid = ''v'' \<and> p = PriorityLOW then [''a1'']
         else board_lists vid p) (snapshots db')
    \<and> map history_entry hs = [(HistPRIORITY_CHANGE, ''r1'', Some PriorityLOW, Some 1)]"
proof -
  let ?s = "board_snapshot ''a1'' ''v'' ''r1'' (Some 5) (Some (PriorityHIGH, 2))"
  have s: "?s \<in> set (snapshots board_store)" "is_snapshot_open ?s" "names_snapshot None ?s" "is_snapshot_active ?s"
      "snapshot_row_id ?s = ''r1''" "snapshot_priority ?s = Some PriorityHIGH" "snapshot_id ?s = ''a1''" "snapshot_version_id ?s = ''v''"
    by (simp_all add: board_simps is_snapshot_open_def names_snapshot_def is_snapshot_active_def)
  have r: "board_row ''r1'' \<in> set (stock_rows board_store)" "row_id (board_row ''r1'') = snapshot_row_id ?s" "\<not> row_is_deleted (board_row ''r1'')"
    by (simp_all add: board_simps)
  have "reprioritised ''v'' (Some PriorityLOW) ''a1'' board_lists
      = (\<lambda>vid p. if vid = ''v'' \<and> p = PriorityHIGH then [''a2'', ''a3''] else if vid = ''v'' \<and> p = PriorityLOW then [''a1''] else board_lists vid p)"
    by (auto simp: reprioritised_def withdrawn_def board_lists_def fun_eq_iff)
  moreover have "withdrawn ''a1'' board_lists ''v'' PriorityLOW = []" by (simp add: withdrawn_def board_lists_def)
  ultimately show ?thesis
    using priority_change_moves_to_end [OF board_store_ok board_store_shown s(1-3) r, of "Some PriorityLOW" "Some ''u''" 9 "''h''"]
    by (simp add: s del: map_eq_Cons_conv) (elim exE conjE, intro exI conjI; assumption)
qed

theorem position_change_repositions_witness:
  "(\<exists>db'. set_stock_report_item_priority_order ''r3'' (Some ''v'') 1 (Some ''u'') 9 ''h'' board_store = Inr db'
      \<and> shows_board (\<lambda>vid p. if vid = ''v'' \<and> p = PriorityHIGH then [''a3'', ''a2'', ''a1''] else board_lists vid p) (snapshots db'))
   \<and> set_stock_report_item_priority_order ''r3'' (Some ''v'') 4 (Some ''u'') 9 ''h'' board_store
       = Inl (ValidationError ''STOCK_REPORT_TARGET_OUT_OF_RANGE'')"
proof -
  let ?s = "board_snapshot ''a3'' ''v'' ''r3'' (Some 5) (Some (PriorityHIGH, 3))"
  have s: "?s \<in> set (snapshots board_store)" "is_snapshot_open ?s" "names_snapshot (Some ''v'') ?s"
      "snapshot_row_id ?s = ''r3''" "snapshot_priority ?s = Some PriorityHIGH" "snapshot_id ?s = ''a3''" "snapshot_version_id ?s = ''v''"
    by (simp_all add: board_simps is_snapshot_open_def names_snapshot_def)
  have r: "board_row ''r3'' \<in> set (stock_rows board_store)" "row_id (board_row ''r3'') = snapshot_row_id ?s" "\<not> row_is_deleted (board_row ''r3'')"
    by (simp_all add: board_simps)
  have "repositioned ''v'' PriorityHIGH ''a3'' 1 board_lists
      = (\<lambda>vid p. if vid = ''v'' \<and> p = PriorityHIGH then [''a3'', ''a2'', ''a1''] else board_lists vid p)"
    by (auto simp: repositioned_def insert_at_def board_lists_def fun_eq_iff)
  moreover have "length (board_lists ''v'' PriorityHIGH) = 3" by (simp add: board_lists_def)
  ultimately show ?thesis
    using position_change_repositions [OF board_store_ok board_store_shown s(1-3) r s(5), of 1 "Some ''u''" 9 "''h''"]
      position_change_repositions [OF board_store_ok board_store_shown s(1-3) r s(5), of 4 "Some ''u''" 9 "''h''"] s
    by auto
qed

end
