(* ===== verification/StockMerge.thy ===== *)
theory StockMerge
  imports StockOrdering
begin

text \<open>
  Applying one version's order onto another: \<open>merge_priority_orders\<close> of
  \<open>domain/stock_report/snapshot_rules.py\<close> and the command
  \<open>apply_stock_report_snapshot_version_priorities.py\<close>. The lemmas show that the merged board lists, in every
  group, the snapshots the source places there in the order of the source, then the kept ones in their own order.
\<close>

section \<open>The merge and its command\<close>

text \<open>\<open>x or 0\<close> on an optional number.\<close>

definition or_zero :: "int option \<Rightarrow> int" where
  "or_zero k = (case k of None \<Rightarrow> 0 | Some n \<Rightarrow> n)"

definition merge_origin :: "item_snapshot list \<Rightarrow> item_snapshot \<Rightarrow> item_snapshot option" where
  \<comment> \<open>\<open>source_by_row.get(snapshot.stock_report_item_id)\<close>; a later source replaces an earlier one\<close>
  "merge_origin source s = List.find (\<lambda>u. snapshot_row_id u = snapshot_row_id s) (rev source)"

definition merged_priority :: "item_snapshot list \<Rightarrow> item_snapshot \<Rightarrow> stock_priority option" where
  "merged_priority source s = (case merge_origin source s of None \<Rightarrow> snapshot_priority s | Some u \<Rightarrow> snapshot_priority u)"

definition merge_member :: "item_snapshot list \<Rightarrow> item_snapshot \<Rightarrow> (int \<times> int \<times> string) \<times> string" where
  "merge_member source s = (case merge_origin source s of
     None \<Rightarrow> (1, or_zero (priority_order s), snapshot_id s)
   | Some u \<Rightarrow> (0, or_zero (priority_order u), snapshot_id s), snapshot_id s)"

definition numbered_members ::
    "stock_priority option \<Rightarrow> ((int \<times> int \<times> string) \<times> string) list \<Rightarrow> (string \<times> stock_priority option \<times> int option) list" where
  "numbered_members p members = map (\<lambda>(i, _, sid). (sid, p, Some i)) (zip [1..int (length members)] members)"

definition merge_proposed :: "item_snapshot list \<Rightarrow> item_snapshot list \<Rightarrow> (string \<times> stock_priority option \<times> int option) list" where
  "merge_proposed source active =
     (let (named, unnamed) = partition (\<lambda>s. merged_priority source s \<noteq> None) active in
      dict_update (dict_of (map (\<lambda>s. (snapshot_id s, None, None)) unnamed))
        (concat (map (\<lambda>(p, members). numbered_members p (sort (map (merge_member source) members)))
           (group_by (merged_priority source) named))))"

definition merge_priority_orders ::
    "item_snapshot list \<Rightarrow> item_snapshot list \<Rightarrow> (string \<times> stock_priority option \<times> int option) list result" where
  "merge_priority_orders active source =
     rbind (rmap (\<lambda>s. case map_of (merge_proposed source active) (snapshot_id s) of
         None \<Rightarrow> Inl (KeyError (snapshot_id s)) | Some v \<Rightarrow> Inr (s, v)) active) (\<lambda>vals.
     Inr (map (\<lambda>(s, v). (snapshot_id s, v)) (filter (\<lambda>(s, v). v \<noteq> (snapshot_priority s, priority_order s)) vals)))"

definition resolve_target :: "snapshot_version \<Rightarrow> string option \<Rightarrow> stock_db \<Rightarrow> snapshot_version option result" where
  "resolve_target source target db =
     (case target of
        None \<Rightarrow> rbind (rguard (\<not> is_version_active source) (ValidationError ''STOCK_REPORT_SOURCE_VERSION_IS_ACTIVE'')) (\<lambda>_.
          Inr (List.find is_version_active (versions db)))
      | Some vid \<Rightarrow>
          rbind (find_version vid db) (\<lambda>v.
          rbind (rguard (version_closed_at v = None) (ValidationError ''STOCK_REPORT_TARGET_VERSION_IS_CLOSED'')) (\<lambda>_.
          rbind (rguard (version_id v \<noteq> version_id source) (ValidationError ''STOCK_REPORT_SOURCE_IS_TARGET'')) (\<lambda>_.
          Inr (Some v)))))"

definition write_merged ::
    "(string \<times> stock_priority option \<times> int option) list \<Rightarrow> string \<Rightarrow> string option \<Rightarrow> int \<Rightarrow> item_snapshot list \<Rightarrow> item_snapshot list" where
  "write_merged changed vid actor now =
     map (\<lambda>s. case map_of changed (snapshot_id s) of
         None \<Rightarrow> s
       | Some (p, order) \<Rightarrow>
           if snapshot_version_id s = vid \<and> is_snapshot_open s
           then s\<lparr>snapshot_priority := p, priority_order := order, snapshot_updated_at := Some now, snapshot_updated_by_id := actor\<rparr>
           else s)"

text \<open>One record per written snapshot, in the order of their identifiers; \<open>hid\<close> names the new record of a snapshot.\<close>

definition record_merged ::
    "(string \<Rightarrow> string) \<Rightarrow> string option \<Rightarrow> int \<Rightarrow> stock_db \<Rightarrow> item_snapshot \<times> stock_priority option \<times> int option \<Rightarrow> stock_db result" where
  "record_merged hid actor now db change =
     (case change of (before, p, order) \<Rightarrow>
        rbind (locked row_id (snapshot_row_id before) (stock_rows db)) (\<lambda>row.
        record_history True
          (history_of (if p \<noteq> snapshot_priority before then HistPRIORITY_CHANGE else HistPRIORITY_ORDER_CHANGE)
             (hid (snapshot_id before)) before p order row actor now) db))"

definition apply_stock_report_snapshot_version_priorities ::
    "string \<Rightarrow> string option \<Rightarrow> string option \<Rightarrow> int \<Rightarrow> (string \<Rightarrow> string) \<Rightarrow> stock_db \<Rightarrow> (stock_db \<times> string list) result" where
  \<comment> \<open>with the rows of the changed snapshots\<close>
  "apply_stock_report_snapshot_version_priorities source_id target_id actor now hid db =
     rbind (find_version source_id db) (\<lambda>source_version.
     rbind (resolve_target source_version target_id db) (\<lambda>target.
     let targets = (case target of None \<Rightarrow> []
           | Some v \<Rightarrow> filter (\<lambda>s. snapshot_version_id s = version_id v \<and> is_snapshot_open s) (snapshots db));
         source = filter (\<lambda>s. snapshot_version_id s = version_id source_version) (snapshots db) in
     rbind (merge_priority_orders targets source) (\<lambda>changed.
     case target of
       None \<Rightarrow> Inr (db, [])
     | Some v \<Rightarrow>
         let written = filter (\<lambda>s. snapshot_id s \<in> fst ` set changed) targets in
         rbind (rguard (length written = length changed) (RuntimeError ''apply-priorities wrote an unexpected number of snapshots'')) (\<lambda>_.
         rbind (rfold (\<lambda>db s. if is_version_active v then record_merged hid actor now db (s, the (map_of changed (snapshot_id s))) else Inr db)
             (db\<lparr>snapshots := write_merged changed (version_id v) actor now (snapshots db)\<rparr>) (sort_key snapshot_id written)) (\<lambda>db'.
         Inr (db', sort (dedupe (map snapshot_row_id written))))))))"

section \<open>The proposed positions\<close>

definition merged_list :: "item_snapshot list \<Rightarrow> item_snapshot list \<Rightarrow> stock_priority \<Rightarrow> string list" where
  "merged_list source active p = map snd (sort (map (merge_member source) (filter (\<lambda>s. merged_priority source s = Some p) active)))"

lemma snd_member [simp]: "snd (merge_member source s) = snapshot_id s"
  by (simp add: merge_member_def)

lemma numbered_members_keys [simp]: "map fst (numbered_members p members) = map snd members"
proof -
  have "map fst (numbered_members p members) = map (snd \<circ> snd) (zip [1..int (length members)] members)"
    by (simp add: numbered_members_def case_prod_unfold comp_def)
  also have "\<dots> = map snd (map snd (zip [1..int (length members)] members))" by (simp only: map_map)
  finally show ?thesis by (simp add: map_snd_zip del: map_map)
qed

lemma numbered_members_set:
  "(sid, v) \<in> set (numbered_members p members) \<Longrightarrow> \<exists>i. v = (p, Some i) \<and> (Some i, sid) \<in> numbered 1 (map snd members)"
proof -
  have "(i, k, sid) \<in> set (zip [a..a + int (length members) - 1] members) \<Longrightarrow> (Some i, sid) \<in> numbered a (map snd members)" for i k sid a
  proof (induction members arbitrary: a)
    case (Cons m ms)
    have "[a..a + int (length (m # ms)) - 1] = a # [a + 1..a + 1 + int (length ms) - 1]"
      by (simp add: upto_rec1)
    then show ?case using Cons by auto
  qed simp
  from this [where a = 1] show "(sid, v) \<in> set (numbered_members p members) \<Longrightarrow> \<exists>i. v = (p, Some i) \<and> (Some i, sid) \<in> numbered 1 (map snd members)"
    by (fastforce simp: numbered_members_def)
qed

lemma member_keys:
  "mset (map fst (concat (map (\<lambda>(p, members). numbered_members p (sort (map (merge_member source) members))) groups)))
     = mset (map snapshot_id (concat (map snd groups)))"
proof (induction groups)
  case (Cons g groups)
  have "mset (map snd (sort (map (merge_member source) ss))) = mset (map snapshot_id ss)" for ss
    by (simp add: multiset.map_comp comp_def)
  then show ?case using Cons by (cases g) simp
qed simp

lemma merge_proposed_eq:
  fixes source :: "item_snapshot list"
  assumes "distinct (map snapshot_id active)"
  defines "named \<equiv> filter (\<lambda>s. merged_priority source s \<noteq> None) active"
    and "unnamed \<equiv> filter (\<lambda>s. merged_priority source s = None) active"
  defines "placed \<equiv> concat (map (\<lambda>(p, members). numbered_members p (sort (map (merge_member source) members)))
      (group_by (merged_priority source) named))"
  shows "merge_proposed source active = map (\<lambda>s. (snapshot_id s, None, None)) unnamed @ placed"
    "distinct (map fst (merge_proposed source active))"
proof -
  have "mset (map fst placed) = mset (map snapshot_id named)"
    unfolding placed_def member_keys by (simp add: mset_group_by)
  then have keys: "mset (map fst (map (\<lambda>s. (snapshot_id s, None, None)) unnamed @ placed)) = mset (map snapshot_id active)"
  proof -
    have "mset active = mset unnamed + mset named"
      using multiset_partition [of "mset active" "\<lambda>s. merged_priority source s = None"] by (simp add: named_def unnamed_def)
    then have "mset (map snapshot_id active) = mset (map snapshot_id unnamed) + mset (map snapshot_id named)" by simp
    then show ?thesis using \<open>mset (map fst placed) = mset (map snapshot_id named)\<close> by (simp add: comp_def)
  qed
  then have distinct: "distinct (map fst (map (\<lambda>s. (snapshot_id s, None, None)) unnamed @ placed))"
    using assms(1) mset_eq_imp_distinct_iff by blast
  have "merge_proposed source active = dict_update (dict_of (map (\<lambda>s. (snapshot_id s, None, None)) unnamed)) placed"
    by (simp add: merge_proposed_def placed_def named_def unnamed_def comp_def)
  moreover have "dict_of (map (\<lambda>s. (snapshot_id s, None, None)) unnamed)
      = map (\<lambda>s. (snapshot_id s, None :: stock_priority option, None :: int option)) unnamed"
    using distinct by (intro dict_of_distinct) simp
  ultimately show eq: "merge_proposed source active = map (\<lambda>s. (snapshot_id s, None, None)) unnamed @ placed"
    using distinct by (simp add: dict_update_new Int_commute)
  show "distinct (map fst (merge_proposed source active))" using distinct by (simp only: eq)
qed

definition merge_value :: "item_snapshot list \<Rightarrow> item_snapshot list \<Rightarrow> item_snapshot \<Rightarrow> stock_priority option \<times> int option" where
  "merge_value source active s = the (map_of (merge_proposed source active) (snapshot_id s))"

lemma key_member: "k \<in> set (map fst xs) \<Longrightarrow> \<exists>v. (k, v) \<in> set xs"
  by auto

lemma merge_value_lookup:
  assumes "distinct (map snapshot_id active)" "s \<in> set active"
  shows "map_of (merge_proposed source active) (snapshot_id s) = Some (merge_value source active s)"
    "case merged_priority source s of
       None \<Rightarrow> merge_value source active s = (None, None)
     | Some p \<Rightarrow> \<exists>i. merge_value source active s = (Some p, Some i) \<and> (Some i, snapshot_id s) \<in> numbered 1 (merged_list source active p)"
proof -
  let ?named = "filter (\<lambda>s. merged_priority source s \<noteq> None) active"
  note eq = merge_proposed_eq(1) [OF assms(1), of source] and keys = merge_proposed_eq(2) [OF assms(1), of source]
  obtain v where v: "(snapshot_id s, v) \<in> set (merge_proposed source active)"
      "case merged_priority source s of None \<Rightarrow> v = (None, None)
       | Some p \<Rightarrow> \<exists>i. v = (Some p, Some i) \<and> (Some i, snapshot_id s) \<in> numbered 1 (merged_list source active p)"
  proof (cases "merged_priority source s")
    case None
    then have "(snapshot_id s, None, None) \<in> set (merge_proposed source active)" unfolding eq using assms(2) by auto
    then show thesis using that None by simp
  next
    case (Some p)
    let ?group = "filter (\<lambda>s. merged_priority source s = Some p) ?named"
    let ?placed = "numbered_members (Some p) (sort (map (merge_member source) ?group))"
    have "snapshot_id s \<in> set (map fst ?placed)" using assms(2) Some by (force simp: image_iff)
    from key_member [OF this] obtain v where v: "(snapshot_id s, v) \<in> set ?placed" by blast
    have "(Some p, ?group) \<in> set (group_by (merged_priority source) ?named)"
      using assms(2) Some by (force simp: group_by_def)
    then have "(snapshot_id s, v) \<in> set (merge_proposed source active)" using v unfolding eq by force
    moreover have "filter (\<lambda>s. merged_priority source s = Some p) ?named = filter (\<lambda>s. merged_priority source s = Some p) active"
      by (auto simp: filter_filter intro: filter_cong)
    then have "\<exists>i. v = (Some p, Some i) \<and> (Some i, snapshot_id s) \<in> numbered 1 (merged_list source active p)"
      using numbered_members_set [OF v] by (simp add: merged_list_def)
    ultimately show thesis using that Some by simp
  qed
  have found: "map_of (merge_proposed source active) (snapshot_id s) = Some v" using keys v(1) by simp
  then have is_v: "merge_value source active s = v" by (simp add: merge_value_def)
  show "map_of (merge_proposed source active) (snapshot_id s) = Some (merge_value source active s)"
      "case merged_priority source s of
       None \<Rightarrow> merge_value source active s = (None, None)
     | Some p \<Rightarrow> \<exists>i. merge_value source active s = (Some p, Some i) \<and> (Some i, snapshot_id s) \<in> numbered 1 (merged_list source active p)"
    unfolding is_v by (rule found, rule v(2))
qed

lemma rmap_all_Inr: "(\<And>x. x \<in> set xs \<Longrightarrow> f x = Inr (g x)) \<Longrightarrow> rmap f xs = Inr (map g xs)"
  by (induction xs) simp_all

definition merge_moves :: "item_snapshot list \<Rightarrow> item_snapshot list \<Rightarrow> item_snapshot \<Rightarrow> bool" where
  "merge_moves source active s \<longleftrightarrow> merge_value source active s \<noteq> (snapshot_priority s, priority_order s)"

lemma merge_total:
  assumes "distinct (map snapshot_id active)"
  shows "merge_priority_orders active source =
    Inr (map (\<lambda>s. (snapshot_id s, merge_value source active s)) (filter (merge_moves source active) active))"
proof -
  have "rmap (\<lambda>s. case map_of (merge_proposed source active) (snapshot_id s) of
      None \<Rightarrow> Inl (KeyError (snapshot_id s)) | Some v \<Rightarrow> Inr (s, v)) active = Inr (map (\<lambda>s. (s, merge_value source active s)) active)"
    by (rule rmap_all_Inr) (simp add: merge_value_lookup(1) [OF assms])
  then show ?thesis
    by (simp add: merge_priority_orders_def filter_map comp_def merge_moves_def [abs_def])
qed

lemma merged_list_ids: "set (merged_list source active p) = snapshot_id ` {s \<in> set active. merged_priority source s = Some p}"
  by (simp add: merged_list_def image_image)

lemma merged_list_distinct:
  assumes "distinct (map snapshot_id active)"
  shows "distinct (merged_list source active p)"
proof -
  have "mset (merged_list source active p) = mset (map snapshot_id (filter (\<lambda>s. merged_priority source s = Some p) active))"
    by (simp add: merged_list_def multiset.map_comp comp_def)
  then show ?thesis using assms distinct_map_filter mset_eq_imp_distinct_iff by blast
qed

lemma numbered_functional: "distinct xs \<Longrightarrow> (j, x) \<in> numbered k xs \<Longrightarrow> (j', x) \<in> numbered k xs \<Longrightarrow> j = j'"
  by (induction xs arbitrary: k) (auto dest: numbered_mem)

text \<open>Taken together, the values of a group number its merged list.\<close>

lemma merge_values_number:
  assumes "distinct (map snapshot_id active)"
  shows "(\<lambda>s. (snd (merge_value source active s), snapshot_id s)) ` {s \<in> set active. fst (merge_value source active s) = Some p}
      = numbered 1 (merged_list source active p)" (is "?vals = ?slots")
proof (rule set_eqI, clarify)
  fix j x
  have named: "fst (merge_value source active s) = merged_priority source s" if "s \<in> set active" for s
    using merge_value_lookup(2) [OF assms that, of source] by (auto split: option.splits)
  have placed: "(snd (merge_value source active s), snapshot_id s) \<in> ?slots"
    if "s \<in> set active" "merged_priority source s = Some p" for s
    using merge_value_lookup(2) [OF assms that(1), of source] that(2) by auto
  show "(j, x) \<in> ?vals \<longleftrightarrow> (j, x) \<in> ?slots"
  proof
    assume slot: "(j, x) \<in> ?slots"
    then obtain s where s: "s \<in> set active" "merged_priority source s = Some p" "x = snapshot_id s"
      using numbered_mem merged_list_ids by fastforce
    then have "j = snd (merge_value source active s)"
      using numbered_functional [OF merged_list_distinct [OF assms]] slot placed [OF s(1,2)] by blast
    then show "(j, x) \<in> ?vals" using s named by auto
  qed (use named placed in auto)
qed

section \<open>The merged board\<close>

abbreviation of_version :: "string \<Rightarrow> item_snapshot \<Rightarrow> bool" where
  "of_version vid s \<equiv> snapshot_version_id s = vid \<and> is_snapshot_open s"

definition place_merged :: "item_snapshot list \<Rightarrow> item_snapshot list \<Rightarrow> string option \<Rightarrow> int \<Rightarrow> item_snapshot \<Rightarrow> item_snapshot" where
  "place_merged source active actor now s =
     (if merge_moves source active s
      then s\<lparr>snapshot_priority := fst (merge_value source active s), priority_order := snd (merge_value source active s),
             snapshot_updated_at := Some now, snapshot_updated_by_id := actor\<rparr>
      else s)"

lemma place_merged_simps [simp]:
  "snapshot_id (place_merged source active actor now s) = snapshot_id s"
  "snapshot_version_id (place_merged source active actor now s) = snapshot_version_id s"
  "is_snapshot_open (place_merged source active actor now s) = is_snapshot_open s"
  "snapshot_priority (place_merged source active actor now s) = fst (merge_value source active s)"
  "priority_order (place_merged source active actor now s) = snd (merge_value source active s)"
  by (simp_all add: place_merged_def merge_moves_def is_snapshot_open_def)

lemma map_of_by_key:
  assumes "distinct (map key xs)" "x \<in> set xs"
  shows "map_of (map (\<lambda>y. (key y, f y)) (filter P xs)) (key x) = (if P x then Some (f x) else None)"
  using assms by (induction xs) (auto simp: image_iff map_of_eq_None_iff)

lemma write_merged_eq:
  fixes vid :: string
  assumes "distinct (map snapshot_id snaps)"
  defines "active \<equiv> filter (of_version vid) snaps"
  shows "write_merged (map (\<lambda>s. (snapshot_id s, merge_value source active s)) (filter (merge_moves source active) active)) vid actor now snaps
    = map (\<lambda>s. if of_version vid s then place_merged source active actor now s else s) snaps"
proof -
  have "map_of (map (\<lambda>s. (snapshot_id s, merge_value source active s)) (filter (merge_moves source active) active)) (snapshot_id s)
      = (if of_version vid s \<and> merge_moves source active s then Some (merge_value source active s) else None)" if "s \<in> set snaps" for s
    using map_of_by_key [OF assms(1) that, of "merge_value source active" "\<lambda>s. of_version vid s \<and> merge_moves source active s"]
    by (simp add: active_def conj_commute)
  then show ?thesis
    unfolding write_merged_def by (intro map_cong) (auto simp: place_merged_def case_prod_unfold)
qed

lemma set_filter_map: "set (filter P (map f xs)) = f ` {x \<in> set xs. P (f x)}"
  by auto

lemma slots_merged:
  fixes vid :: string
  assumes "distinct (map snapshot_id snaps)"
  defines "active \<equiv> filter (of_version vid) snaps"
  shows "slots v p (map (\<lambda>s. if of_version vid s then place_merged source active actor now s else s) snaps)
    = (if v = vid then numbered 1 (merged_list source active p) else slots v p snaps)"
proof -
  let ?f = "\<lambda>s. if of_version vid s then place_merged source active actor now s else s"
  have ids: "distinct (map snapshot_id active)" using assms(1) by (simp add: active_def distinct_map_filter)
  have group: "in_group v p (?f s) \<longleftrightarrow> (if of_version vid s then v = vid \<and> fst (merge_value source active s) = Some p else in_group v p s)" for s
    by (auto simp: in_group_def)
  have image: "slots v p (map ?f snaps) = (\<lambda>s. (priority_order (?f s), snapshot_id s)) ` {s \<in> set snaps. in_group v p (?f s)}"
    unfolding slots_def set_filter_map image_image by (rule image_cong) simp_all
  show ?thesis
  proof (cases "v = vid")
    case True
    then have "{s \<in> set snaps. in_group v p (?f s)} = {s \<in> set active. fst (merge_value source active s) = Some p}"
      unfolding group by (auto simp: active_def in_group_def)
    then have "slots v p (map ?f snaps)
        = (\<lambda>s. (snd (merge_value source active s), snapshot_id s)) ` {s \<in> set active. fst (merge_value source active s) = Some p}"
      unfolding image by (auto simp: active_def intro!: image_cong)
    then show ?thesis using merge_values_number [OF ids, of source p] True by simp
  next
    case False
    then have "{s \<in> set snaps. in_group v p (?f s)} = {s \<in> set snaps. in_group v p s}" unfolding group by (auto simp: in_group_def)
    then show ?thesis unfolding image using False by (auto simp: slots_def in_group_def intro!: image_cong)
  qed
qed

text \<open>A merged group: those the source places there, by the source's order, then the kept ones in their own order.\<close>

definition source_first :: "item_snapshot list \<Rightarrow> item_snapshot list \<Rightarrow> board \<Rightarrow> string \<Rightarrow> stock_priority \<Rightarrow> string list" where
  "source_first source active b vid p =
     map snd (sort (map (\<lambda>s. (or_zero (priority_order (the (merge_origin source s))), snapshot_id s))
       (filter (\<lambda>s. map_option snapshot_priority (merge_origin source s) = Some (Some p)) active)))
     @ filter (\<lambda>i. \<exists>s \<in> set active. snapshot_id s = i \<and> merge_origin source s = None) (b vid p)"

lemma sort_unique: "sorted ys \<Longrightarrow> mset ys = mset xs \<Longrightarrow> sort xs = ys"
  by (rule properties_for_sort)

lemma sorted_numbered: "sorted (map (\<lambda>(i, x). ((1 :: int, i, x), x)) (filter P (zip [k..k + int (length xs) - 1] xs)))"
  for xs :: "string list"
proof (induction xs arbitrary: k)
  case (Cons x xs)
  have "[k..k + int (length (x # xs)) - 1] = k # [k + 1..k + 1 + int (length xs) - 1]" by (simp add: upto_rec1)
  moreover have "k < i" if "(i, y) \<in> set (zip [k + 1..k + 1 + int (length xs) - 1] xs)" for i y
    using set_zip_leftD [OF that] by simp
  ultimately show ?case using Cons [of "k + 1"] by (auto simp: less_eq_prod_def)
qed simp

lemma numbered_zip: "(Some i, x) \<in> numbered k xs \<longleftrightarrow> (i, x) \<in> set (zip [k..k + int (length xs) - 1] xs)"
proof (induction xs arbitrary: k)
  case (Cons y ys)
  have "[k..k + int (length (y # ys)) - 1] = k # [k + 1..k + 1 + int (length ys) - 1]" by (simp add: upto_rec1)
  then show ?case using Cons by simp
qed simp

lemma map_snd_filter_zip: "map snd (filter (\<lambda>(i, x). P x) (zip [k..k + int (length xs) - 1] xs)) = filter P xs"
proof (induction xs arbitrary: k)
  case (Cons y ys)
  have "[k..k + int (length (y # ys)) - 1] = k # [k + 1..k + 1 + int (length ys) - 1]" by (simp add: upto_rec1)
  then show ?case using Cons [of "k + 1"] by (simp add: algebra_simps)
qed simp

text \<open>The kept members, ranked by their current order, follow the list of the group.\<close>

lemma kept_members:
  assumes "distinct (map snapshot_id snaps)" "slots vid p snaps = numbered 1 xs" "distinct xs"
  defines "active \<equiv> filter (of_version vid) snaps"
  shows "sort (map (merge_member source) (filter (\<lambda>s. merge_origin source s = None \<and> snapshot_priority s = Some p) active))
    = map (\<lambda>(i, x). ((1, i, x), x))
        (filter (\<lambda>(i, x). \<exists>s \<in> set active. snapshot_id s = x \<and> merge_origin source s = None) (zip [1..1 + int (length xs) - 1] xs))"
    (is "sort ?members = ?listed")
proof (rule sort_unique)
  show "sorted ?listed" by (rule sorted_numbered)
  have ids: "distinct (map snapshot_id active)" using assms(1) by (simp add: active_def distinct_map_filter)
  have slot: "in_group vid p s \<and> priority_order s = Some i \<longleftrightarrow> (i, snapshot_id s) \<in> set (zip [1..1 + int (length xs) - 1] xs)"
    if "s \<in> set snaps" for s i
  proof -
    have "in_group vid p s \<and> priority_order s = Some i \<longleftrightarrow> (Some i, snapshot_id s) \<in> slots vid p snaps"
      using that assms(1) by (auto simp: slots_mem distinct_map dest: inj_onD)
    then show ?thesis by (simp add: assms(2) numbered_zip)
  qed
  have ordered: "\<exists>i. priority_order s = Some i" if "s \<in> set snaps" "in_group vid p s" for s
    using that assms(2) numbered_bounds by (fastforce simp: slots_def)
  have "set ?listed = set ?members"
  proof (rule set_eqI, rule iffI)
    fix z assume "z \<in> set ?listed"
    then obtain i s where z: "z = ((1, i, snapshot_id s), snapshot_id s)" "s \<in> set active" "merge_origin source s = None"
        "(i, snapshot_id s) \<in> set (zip [1..1 + int (length xs) - 1] xs)" by auto
    then have "in_group vid p s" "priority_order s = Some i" using slot [of s i] by (simp_all add: active_def)
    then have "z = merge_member source s" "snapshot_priority s = Some p"
      using z by (simp_all add: merge_member_def or_zero_def in_group_def)
    then show "z \<in> set ?members" using z by auto
  next
    fix z assume "z \<in> set ?members"
    then obtain s where s: "z = merge_member source s" "s \<in> set active" "merge_origin source s = None" "snapshot_priority s = Some p"
      by auto
    then have "in_group vid p s" by (simp add: active_def in_group_def)
    moreover obtain i where "priority_order s = Some i" using ordered calculation s(2) by (auto simp: active_def)
    ultimately show "z \<in> set ?listed" using s slot [of s i] by (force simp: active_def merge_member_def or_zero_def)
  qed
  moreover have "distinct ?members"
    using distinct_map_filter [OF ids] by (intro distinct_map [THEN iffD2]) (auto simp: distinct_map inj_on_def merge_member_def)
  moreover have "distinct (map snd ?listed)"
    using assms(3) map_snd_filter_zip [of "\<lambda>x. \<exists>s \<in> set active. snapshot_id s = x \<and> merge_origin source s = None" 1 xs]
    by (simp add: comp_def case_prod_unfold)
  then have "distinct ?listed" unfolding distinct_map by blast
  ultimately show "mset ?listed = mset ?members" using set_eq_iff_mset_eq_distinct [of ?listed ?members] by blast
qed

lemma sorted_map_mono: "(\<And>x y. x \<le> y \<Longrightarrow> g x \<le> g y) \<Longrightarrow> sorted xs \<Longrightarrow> sorted (map g xs)"
  by (induction xs) auto

lemma source_members:
  "sort (map (merge_member source) (filter (\<lambda>s. map_option snapshot_priority (merge_origin source s) = Some (Some p)) active))
    = map (\<lambda>(k, x). ((0, k, x), x)) (sort (map (\<lambda>s. (or_zero (priority_order (the (merge_origin source s))), snapshot_id s))
        (filter (\<lambda>s. map_option snapshot_priority (merge_origin source s) = Some (Some p)) active)))"
    (is "sort (map _ ?ss) = map ?g (sort (map ?h ?ss))")
proof (rule sort_unique)
  show "sorted (map ?g (sort (map ?h ?ss)))"
    by (rule sorted_map_mono [OF _ sorted_sort]) (auto simp: less_eq_prod_def less_prod_def)
  have "map (merge_member source) ?ss = map ?g (map ?h ?ss)" by (auto simp: merge_member_def)
  then show "mset (map ?g (sort (map ?h ?ss))) = mset (map (merge_member source) ?ss)"
    by (simp only: mset_map mset_sort)
qed

lemma merged_is_source_first:
  assumes "distinct (map snapshot_id snaps)" "slots vid p snaps = numbered 1 (b vid p)" "distinct (b vid p)"
  shows "merged_list source (filter (of_version vid) snaps) p = source_first source (filter (of_version vid) snaps) b vid p"
proof -
  let ?active = "filter (of_version vid) snaps" and ?m = "merge_member source"
  let ?ss = "filter (\<lambda>s. map_option snapshot_priority (merge_origin source s) = Some (Some p)) ?active"
  let ?ks = "filter (\<lambda>s. merge_origin source s = None \<and> snapshot_priority s = Some p) ?active"
  have split: "mset (filter (\<lambda>s. merged_priority source s = Some p) xs) =
      mset (filter (\<lambda>s. map_option snapshot_priority (merge_origin source s) = Some (Some p)) xs)
      + mset (filter (\<lambda>s. merge_origin source s = None \<and> snapshot_priority s = Some p) xs)" for xs
    by (induction xs) (auto simp: merged_priority_def split: option.splits)
  have ranks: "fst (fst a) = 0" "fst (fst z) = 1" if "a \<in> set (sort (map ?m ?ss))" "z \<in> set (sort (map ?m ?ks))" for a z
    using that by (auto simp: merge_member_def)
  have "a \<le> z" if "a \<in> set (sort (map ?m ?ss))" "z \<in> set (sort (map ?m ?ks))" for a z
    using ranks [OF that] by (simp add: less_eq_prod_def less_prod_def)
  then have "sorted (sort (map ?m ?ss) @ sort (map ?m ?ks))"
    unfolding sorted_append by (intro conjI sorted_sort) blast
  then have "sort (map ?m (filter (\<lambda>s. merged_priority source s = Some p) ?active)) = sort (map ?m ?ss) @ sort (map ?m ?ks)"
    by (rule sort_unique) (simp only: mset_append mset_sort mset_map split image_mset_union)
  then show ?thesis
    unfolding merged_list_def source_first_def
    using kept_members [OF assms(1,2,3), of source] source_members [of source p ?active]
      map_snd_filter_zip [of "\<lambda>x. \<exists>s \<in> set ?active. snapshot_id s = x \<and> merge_origin source s = None" 1 "b vid p"]
    by (simp add: comp_def case_prod_unfold)
qed

section \<open>The command\<close>

lemma record_merged_loop:
  assumes "snapshots_ok db0" "set ss \<subseteq> set (snapshots db0)" "stock_rows db = stock_rows db0"
  shows "\<exists>hs. rfold (\<lambda>db s. if write then record_merged hid actor now db (s, v s) else Inr db) db ss
      = Inr (db\<lparr>histories := histories db @ hs\<rparr>)
    \<and> map history_row_id hs = (if write then map snapshot_row_id ss else [])"
  using assms(2,3)
proof (induction ss arbitrary: db)
  case (Cons s ss)
  have s: "s \<in> set (snapshots db0)" using Cons.prems(1) by simp
  obtain row where row: "row \<in> set (stock_rows db0)" "row_id row = snapshot_row_id s"
    using soundD [OF assms(1) s] by (auto simp: sound_snapshot_def)
  have found: "locked row_id (snapshot_row_id s) (stock_rows db) = Inr row"
    using locked_self [of row_id "stock_rows db" row] row assms(1) Cons.prems(2) by (simp add: snapshots_ok_def)
  obtain p order where v: "v s = (p, order)" by (cases "v s")
  obtain hs where hs: "record_merged hid actor now db (s, v s) = Inr (db\<lparr>histories := histories db @ hs\<rparr>)"
      "map history_row_id hs = [snapshot_row_id s]"
    by (rule recorded [OF assms(1) s, of True "if p \<noteq> snapshot_priority s then HistPRIORITY_CHANGE else HistPRIORITY_ORDER_CHANGE"
          "hid (snapshot_id s)" p order row actor now db])
      (auto simp: record_merged_def v found row(2) history_entry_def map_eq_Cons_conv)
  let ?db = "if write then db\<lparr>histories := histories db @ hs\<rparr> else db"
  obtain hs' where "rfold (\<lambda>db s. if write then record_merged hid actor now db (s, v s) else Inr db) ?db ss
      = Inr (?db\<lparr>histories := histories ?db @ hs'\<rparr>)" "map history_row_id hs' = (if write then map snapshot_row_id ss else [])"
  proof -
    have "set ss \<subseteq> set (snapshots db0)" "stock_rows ?db = stock_rows db0" using Cons.prems by simp_all
    from Cons.IH [OF this] show thesis using that by blast
  qed
  then show ?case
    using hs by (intro exI [of _ "(if write then hs else []) @ hs'"]) (cases "write"; simp)
qed (intro exI [of _ "[]"], simp)

lemma merged_paired: "distinct (map snapshot_id active) \<Longrightarrow> s \<in> set active \<Longrightarrow> paired (place_merged source active actor now s)"
  using merge_value_lookup(2) [of active s source] by (auto simp: paired_def split: option.splits)

lemma merged_keeps_ok:
  fixes vid :: string
  assumes "snapshots_ok db"
  defines "active \<equiv> filter (of_version vid) (snapshots db)"
  shows "snapshots_ok (db\<lparr>snapshots := map (\<lambda>s. if of_version vid s then place_merged source active actor now s else s) (snapshots db),
      histories := hs\<rparr>)"
proof (rule snapshots_rewritten [OF assms(1)])
  have ids: "distinct (map snapshot_id active)" using assms(1) by (simp add: active_def snapshots_ok_def distinct_map_filter)
  show "map snapshot_frame (map (\<lambda>s. if of_version vid s then place_merged source active actor now s else s) (snapshots db))
      = map snapshot_frame (snapshots db)"
    by (simp add: snapshot_frame_def place_merged_def)
  show "\<forall>s \<in> set (map (\<lambda>s. if of_version vid s then place_merged source active actor now s else s) (snapshots db)). paired s"
    using merged_paired [OF ids] all_paired [OF assms(1)] by (auto simp: active_def)
qed

lemma target_resolved:
  assumes "snapshots_ok db" "v \<in> set (versions db)" "w \<in> set (versions db)" "version_closed_at w = None" "version_id w \<noteq> version_id v"
    "case target of None \<Rightarrow> is_version_active w | Some i \<Rightarrow> i = version_id w"
  shows "resolve_target v target db = Inr (Some w)"
proof (cases target)
  case None
  then have "\<not> is_version_active v" using one_active_version [OF assms(1-3)] assms(5,6) by auto
  moreover have "List.find is_version_active (versions db) = Some w"
    using None assms(3,6) one_active_version [OF assms(1)] by (intro find_only) auto
  ultimately show ?thesis using None by (simp add: resolve_target_def)
next
  case (Some i)
  then show ?thesis
    using find_version_in [OF _ assms(3)] assms by (simp add: resolve_target_def snapshots_ok_def)
qed

lemma moved_rows:
  fixes vid :: string
  assumes "distinct (map snapshot_id snaps)"
  defines "active \<equiv> filter (of_version vid) snaps"
  shows "{snapshot_row_id s |s t. s \<in> set active
      \<and> t \<in> set (map (\<lambda>s. if of_version vid s then place_merged source active actor now s else s) snaps)
      \<and> snapshot_id t = snapshot_id s \<and> (snapshot_priority t, priority_order t) \<noteq> (snapshot_priority s, priority_order s)}
    = snapshot_row_id ` set (filter (merge_moves source active) active)"
proof -
  let ?f = "\<lambda>s. if of_version vid s then place_merged source active actor now s else s"
  have only: "t \<in> set (map ?f snaps) \<and> snapshot_id t = snapshot_id s \<longleftrightarrow> t = place_merged source active actor now s" if "s \<in> set active" for s t
  proof
    assume t: "t \<in> set (map ?f snaps) \<and> snapshot_id t = snapshot_id s"
    then obtain u where u: "u \<in> set snaps" "t = ?f u" by auto
    then have "snapshot_id u = snapshot_id s" using t by (auto split: if_splits)
    then have "u = s" using u(1) that assms(1) by (auto simp: active_def distinct_map dest: inj_onD)
    then show "t = place_merged source active actor now s" using u(2) that by (simp add: active_def)
  qed (use that in \<open>auto simp: active_def image_iff\<close>)
  have "(s \<in> set active \<and> t \<in> set (map ?f snaps) \<and> snapshot_id t = snapshot_id s
        \<and> (snapshot_priority t, priority_order t) \<noteq> (snapshot_priority s, priority_order s))
      \<longleftrightarrow> s \<in> set active \<and> merge_moves source active s \<and> t = place_merged source active actor now s" for s t
    using only [of s t] by (auto simp: merge_moves_def prod_eq_iff simp del: set_map)
  then show ?thesis by (simp only: set_filter) blast
qed

text \<open>C31: Applying the order of one version onto another open one rebuilds every priority group of the target: first
  the snapshots whose row the source places there, by the source's order, then the snapshots of the target whose
  row the source does not have, in the order they had. The command always succeeds, touches no other version,
  leaves every group numbered from 1 without gaps, answers with exactly the rows whose position changed, and
  records one change for each of them exactly when the target is the active version.\<close>

theorem merge_applies_source_order:
  assumes "snapshots_ok db" "shows_board b (snapshots db)" "v \<in> set (versions db)" "w \<in> set (versions db)"
    "version_closed_at w = None" "version_id w \<noteq> version_id v"
    "case target of None \<Rightarrow> is_version_active w | Some i \<Rightarrow> i = version_id w"
  defines "source \<equiv> filter (\<lambda>s. snapshot_version_id s = version_id v) (snapshots db)"
    and "active \<equiv> filter (of_version (version_id w)) (snapshots db)"
  shows "\<exists>db' rows hs. apply_stock_report_snapshot_version_priorities (version_id v) target actor now hid db = Inr (db', rows)
    \<and> shows_board (b(version_id w := source_first source active b (version_id w))) (snapshots db') \<and> snapshots_ok db'
    \<and> set rows = {snapshot_row_id s |s t. s \<in> set active \<and> t \<in> set (snapshots db') \<and> snapshot_id t = snapshot_id s
        \<and> (snapshot_priority t, priority_order t) \<noteq> (snapshot_priority s, priority_order s)}
    \<and> histories db' = histories db @ hs
    \<and> map history_row_id hs = (if is_version_active w then map snapshot_row_id (sort_key snapshot_id (filter (merge_moves source active) active)) else [])"
proof -
  have ids: "distinct (map snapshot_id (snapshots db))" "distinct (map snapshot_id active)"
    using assms(1) by (simp_all add: snapshots_ok_def active_def distinct_map_filter)
  let ?changed = "map (\<lambda>s. (snapshot_id s, merge_value source active s)) (filter (merge_moves source active) active)"
  let ?f = "\<lambda>s. if of_version (version_id w) s then place_merged source active actor now s else s"
  have source: "find_version (version_id v) db = Inr v" using assms(1,3) by (intro find_version_in) (simp_all add: snapshots_ok_def)
  have written: "filter (\<lambda>s. snapshot_id s \<in> fst ` set ?changed) active = filter (merge_moves source active) active"
    using ids(2) by (intro filter_cong) (auto simp: image_image distinct_map dest: inj_onD)
  have stored: "write_merged ?changed (version_id w) actor now (snapshots db) = map ?f (snapshots db)"
    unfolding active_def by (rule write_merged_eq [OF ids(1)])
  obtain hs where hs: "rfold (\<lambda>db s. if is_version_active w then record_merged hid actor now db (s, the (map_of ?changed (snapshot_id s))) else Inr db)
        (db\<lparr>snapshots := map ?f (snapshots db)\<rparr>) (sort_key snapshot_id (filter (merge_moves source active) active))
      = Inr (db\<lparr>snapshots := map ?f (snapshots db), histories := histories db @ hs\<rparr>)"
      "map history_row_id hs = (if is_version_active w
         then map snapshot_row_id (sort_key snapshot_id (filter (merge_moves source active) active)) else [])"
    using record_merged_loop [OF assms(1), of "sort_key snapshot_id (filter (merge_moves source active) active)"
        "db\<lparr>snapshots := map ?f (snapshots db)\<rparr>" "is_version_active w" hid actor now "\<lambda>s. the (map_of ?changed (snapshot_id s))"]
    by (auto simp: active_def)
  have run: "apply_stock_report_snapshot_version_priorities (version_id v) target actor now hid db
      = Inr (db\<lparr>snapshots := map ?f (snapshots db), histories := histories db @ hs\<rparr>,
          sort (dedupe (map snapshot_row_id (filter (merge_moves source active) active))))"
    unfolding apply_stock_report_snapshot_version_priorities_def source rbind_Inr target_resolved [OF assms(1,3-7)] option.case
      source_def [symmetric] active_def [symmetric] Let_def merge_total [OF ids(2)] written stored
    by (simp only: length_map simp_thms rguard_True rbind_Inr hs(1) prod.case)
  have "merged_list source active p = source_first source active b (version_id w) p" for p
    unfolding active_def by (rule merged_is_source_first [where b = b, OF ids(1) shows_boardD [OF assms(2)]])
  then have "shows_board (b(version_id w := source_first source active b (version_id w))) (map ?f (snapshots db))"
    using slots_merged [OF ids(1), of _ _ "version_id w" source actor now, folded active_def] shows_boardD [OF assms(2)]
      merged_list_distinct [OF ids(2), of source]
    by (simp add: shows_board_def)
  moreover have "set (sort (dedupe (map snapshot_row_id (filter (merge_moves source active) active))))
      = {snapshot_row_id s |s t. s \<in> set active \<and> t \<in> set (map ?f (snapshots db)) \<and> snapshot_id t = snapshot_id s
          \<and> (snapshot_priority t, priority_order t) \<noteq> (snapshot_priority s, priority_order s)}"
    using moved_rows [OF ids(1), where vid = "version_id w" and source = source, folded active_def] by simp
  ultimately show ?thesis
    using hs(2) merged_keeps_ok [OF assms(1), where actor = actor and now = now and vid = "version_id w" and source = source
        and hs = "histories db @ hs", folded active_def]
    by (intro exI conjI) (rule run, simp_all)
qed

text \<open>The draft places the third row among the low ones and the first among the high ones; the second is kept.\<close>

theorem merge_applies_source_order_witness:
  "\<exists>db' rows. apply_stock_report_snapshot_version_priorities ''d'' None (Some ''u'') 9 (\<lambda>i. ''h'' @ i) board_store = Inr (db', rows)
    \<and> shows_board (board_lists(''v'' := (\<lambda>p. case p of PriorityHIGH \<Rightarrow> [''a1'', ''a2''] | PriorityLOW \<Rightarrow> [''a3''] | _ \<Rightarrow> [])))
        (snapshots db') \<and> snapshots_ok db'"
proof -
  have d: "board_version ''d'' None \<in> set (versions board_store)" "version_id (board_version ''d'' None) = ''d''"
    and v: "board_version ''v'' (Some 5) \<in> set (versions board_store)" "version_closed_at (board_version ''v'' (Some 5)) = None"
      "version_id (board_version ''v'' (Some 5)) = ''v''" "is_version_active (board_version ''v'' (Some 5))"
    by (simp_all add: board_simps is_version_active_def)
  have "source_first (filter (\<lambda>s. snapshot_version_id s = ''d'') (snapshots board_store)) (filter (of_version ''v'') (snapshots board_store))
      board_lists ''v'' = (\<lambda>p. case p of PriorityHIGH \<Rightarrow> [''a1'', ''a2''] | PriorityLOW \<Rightarrow> [''a3''] | _ \<Rightarrow> [])"
    by (auto simp: fun_eq_iff source_first_def merge_origin_def board_lists_def board_simps is_snapshot_open_def or_zero_def
        split: stock_priority.split)
  then show ?thesis
    using merge_applies_source_order [OF board_store_ok board_store_shown d(1) v(1,2), of None "Some ''u''" 9 "\<lambda>i. ''h'' @ i"] d v
    by (simp del: map_eq_Cons_conv) (elim exE conjE, intro exI conjI; assumption)
qed

end
