(* ===== verification/StockVersions.thy ===== *)
theory StockVersions
  imports StockLedger StockOrdering
begin

text \<open>
  The versions of the board: opening one, drafts and their schedules, activation, refresh, deletion
  (\<open>services/commands/stock_report/*_stock_report_snapshot_version*.py\<close>, \<open>_versions.py\<close>,
  \<open>_version_schedule.py\<close>), and the two quantities a user sets on a snapshot
  (\<open>set_stock_report_item_snapshot_{missing,requested}_quantity.py\<close>).

  The commands run after the parsing of their body, up to their last write; the events and the response are left
  out, and the inserts take their identifiers from parameters: \<open>fresh vid rid\<close> is the new snapshot of a row in a
  version. An executemany insert is one statement, so \<open>ON CONFLICT\<close> skips the pairs already present.
\<close>

section \<open>Schedules\<close>

definition active_scheduler :: "string \<Rightarrow> activation_scheduler \<Rightarrow> bool" where
  "active_scheduler vid c \<longleftrightarrow> scheduler_version_id c = vid \<and> scheduler_state c = SchedulerACTIVE"

definition cancel_activation_schedulers :: "string \<Rightarrow> int \<Rightarrow> stock_db \<Rightarrow> stock_db" where
  "cancel_activation_schedulers vid now db = db\<lparr>schedulers := update_where (active_scheduler vid)
     (\<lambda>c. c\<lparr>scheduler_state := SchedulerCANCELED, scheduler_updated_at := Some now\<rparr>) (schedulers db)\<rparr>"

definition create_activation_scheduler :: "snapshot_version \<Rightarrow> string option \<Rightarrow> stock_db \<Rightarrow> stock_db" where
  "create_activation_scheduler version user db =
     (case scheduled_activation_at version of
        None \<Rightarrow> db
      | Some w \<Rightarrow> db\<lparr>schedulers := schedulers db @ [\<lparr>scheduler_version_id = version_id version, scheduled_for = w,
          scheduled_by_user_id = user, scheduler_state = SchedulerACTIVE, scheduler_updated_at = None\<rparr>]\<rparr>)"

definition reschedule_activation :: "snapshot_version \<Rightarrow> string option \<Rightarrow> int \<Rightarrow> stock_db \<Rightarrow> stock_db" where
  "reschedule_activation version user now db =
     create_activation_scheduler version user (cancel_activation_schedulers (version_id version) now db)"

definition validate_schedule :: "int option \<Rightarrow> int \<Rightarrow> unit result" where
  "validate_schedule at_time now =
     rguard (case at_time of None \<Rightarrow> True | Some w \<Rightarrow> now < w) (ValidationError ''STOCK_REPORT_SCHEDULE_IN_THE_PAST'')"

definition set_version :: "string \<Rightarrow> (snapshot_version \<Rightarrow> snapshot_version) \<Rightarrow> stock_db \<Rightarrow> stock_db" where
  "set_version vid f db = db\<lparr>versions := update_where (\<lambda>v. version_id v = vid) f (versions db)\<rparr>"

section \<open>Opening and closing a board\<close>

definition live_rows :: "stock_db \<Rightarrow> stock_row list" where
  "live_rows db = sort_key row_id (filter (\<lambda>r. \<not> row_is_deleted r) (stock_rows db))"

definition new_snapshot :: "string \<Rightarrow> string \<Rightarrow> stock_row \<Rightarrow> int option \<Rightarrow> int option \<Rightarrow> int option \<Rightarrow> item_snapshot" where
  \<comment> \<open>a snapshot of a row: its counters copied, no override, no priority\<close>
  "new_snapshot sid vid row scanner missing start =
     \<lparr>quantity_in_queue = quantity_in_queue row, quantity_in_progress = quantity_in_progress row,
      quantity_awaiting = quantity_awaiting row, snapshot_id = sid, snapshot_version_id = vid, snapshot_row_id = row_id row,
      requested_scanner = scanner, requested_manual = None, snapshot_missing = missing, snapshot_resolved = 0,
      snapshot_priority = None, priority_order = None, snapshot_active_at = start, snapshot_closed_at = None,
      snapshot_updated_at = None, snapshot_updated_by_id = None\<rparr>"

definition draft_snapshot :: "(string \<Rightarrow> string \<Rightarrow> string) \<Rightarrow> string \<Rightarrow> stock_row \<Rightarrow> item_snapshot" where
  "draft_snapshot fresh vid row = new_snapshot (fresh vid (row_id row)) vid row None None None"

definition board_snapshot_of :: "(string \<Rightarrow> string \<Rightarrow> string) \<Rightarrow> string \<Rightarrow> int \<Rightarrow> stock_row \<Rightarrow> item_snapshot" where
  "board_snapshot_of fresh vid start row = new_snapshot (fresh vid (row_id row)) vid row (Some (row_requested row)) (Some 0) (Some start)"

definition row_of :: "stock_db \<Rightarrow> item_snapshot \<Rightarrow> stock_row option" where
  "row_of db s = List.find (\<lambda>r. row_id r = snapshot_row_id s) (stock_rows db)"

text \<open>\<open>UPDATE \<dots> FROM stock_report_items AS r WHERE r.client_id = s.stock_report_item_id AND P\<close>.\<close>

definition update_from_rows ::
    "(item_snapshot \<Rightarrow> stock_row \<Rightarrow> bool) \<Rightarrow> (item_snapshot \<Rightarrow> stock_row \<Rightarrow> item_snapshot) \<Rightarrow> string option \<Rightarrow> int \<Rightarrow> stock_db \<Rightarrow> stock_db" where
  "update_from_rows P f actor now db = db\<lparr>snapshots := map (\<lambda>s. case row_of db s of
       None \<Rightarrow> s
     | Some r \<Rightarrow> if P s r then (f s r)\<lparr>snapshot_updated_at := Some now, snapshot_updated_by_id := actor\<rparr> else s) (snapshots db)\<rparr>"

definition close_active_version :: "string option \<Rightarrow> int \<Rightarrow> stock_db \<Rightarrow> stock_db \<times> snapshot_version option" where
  "close_active_version actor now db =
     (case List.find is_version_active (versions db) of
        None \<Rightarrow> (db, None)
      | Some v \<Rightarrow>
          (set_version (version_id v) (\<lambda>v. v\<lparr>version_closed_at := Some now, version_closed_by_id := actor\<rparr>)
             (update_from_rows (\<lambda>s _. is_snapshot_active s) (\<lambda>s r. copy_counters r (s\<lparr>snapshot_closed_at := Some now\<rparr>)) actor now db),
           Some (v\<lparr>version_closed_at := Some now, version_closed_by_id := actor\<rparr>)))"

record create_version_request =
  cv_draft :: bool
  cv_title :: "string option"
  cv_scheduled_activation_at :: "int option"
  cv_keeps_active_missing :: bool

definition create_stock_report_snapshot_version ::
    "create_version_request \<Rightarrow> string \<Rightarrow> (string \<Rightarrow> string \<Rightarrow> string) \<Rightarrow> string option \<Rightarrow> int \<Rightarrow> stock_db \<Rightarrow> stock_db result" where
  "create_stock_report_snapshot_version req vid fresh actor now db =
     rbind (rguard (cv_draft req \<or> cv_scheduled_activation_at req = None \<and> \<not> cv_keeps_active_missing req) VERSION_NOT_DRAFT) (\<lambda>_.
     rbind (validate_schedule (cv_scheduled_activation_at req) now) (\<lambda>_.
     let rows = live_rows db;
         version = \<lparr>version_id = vid, version_title = cv_title req, version_active_at = None, version_closed_at = None,
           version_closed_by_id = None, scheduled_activation_at = None, keeps_active_missing = False,
           snapshot_count = int (length rows), version_created_at = now, version_created_by_id = actor\<rparr> in
     if cv_draft req
     then
       let draft = version\<lparr>scheduled_activation_at := cv_scheduled_activation_at req, keeps_active_missing := cv_keeps_active_missing req\<rparr> in
       Inr (create_activation_scheduler draft actor
         (db\<lparr>versions := versions db @ [draft], snapshots := snapshots db @ map (draft_snapshot fresh vid) rows\<rparr>))
     else
       let db = fst (close_active_version actor now db) in
       Inr (db\<lparr>versions := versions db @ [version\<lparr>version_active_at := Some now\<rparr>],
               snapshots := snapshots db @ map (board_snapshot_of fresh vid now) rows\<rparr>)))"

definition delete_stock_report_snapshot_version :: "string \<Rightarrow> int \<Rightarrow> stock_db \<Rightarrow> stock_db result" where
  "delete_stock_report_snapshot_version vid now db =
     rbind (find_version vid db) (\<lambda>version.
     rbind (rguard (is_version_draft version) VERSION_NOT_DRAFT) (\<lambda>_.
     let db = cancel_activation_schedulers vid now db in
     Inr (db\<lparr>snapshots := filter (\<lambda>s. snapshot_version_id s \<noteq> vid) (snapshots db),
             versions := filter (\<lambda>v. version_id v \<noteq> vid) (versions db)\<rparr>)))"

text \<open>The keys sent by a \<open>PATCH\<close>: an absent key is \<open>None\<close>.\<close>

record update_version_request =
  uv_title :: "string option option"
  uv_scheduled_activation_at :: "int option option"
  uv_keeps_active_missing :: "bool option"

definition update_stock_report_snapshot_version ::
    "string \<Rightarrow> update_version_request \<Rightarrow> string option \<Rightarrow> int \<Rightarrow> stock_db \<Rightarrow> stock_db result" where
  "update_stock_report_snapshot_version vid req actor now db =
     rbind (find_version vid db) (\<lambda>version.
     rbind (rguard (uv_scheduled_activation_at req = None \<and> uv_keeps_active_missing req = None \<or> is_version_draft version) VERSION_NOT_DRAFT) (\<lambda>_.
     rbind (case uv_scheduled_activation_at req of None \<Rightarrow> Inr () | Some w \<Rightarrow> validate_schedule w now) (\<lambda>_.
     let changed = (case uv_title req of None \<Rightarrow> version | Some x \<Rightarrow> version\<lparr>version_title := x\<rparr>);
         changed = (case uv_scheduled_activation_at req of None \<Rightarrow> changed | Some w \<Rightarrow> changed\<lparr>scheduled_activation_at := w\<rparr>);
         changed = (case uv_keeps_active_missing req of None \<Rightarrow> changed | Some k \<Rightarrow> changed\<lparr>keeps_active_missing := k\<rparr>);
         db' = set_version vid (\<lambda>_. changed) db in
     Inr (if changed = version then db
          else if scheduled_activation_at changed \<noteq> scheduled_activation_at version then reschedule_activation changed actor now db'
          else db'))))"

section \<open>Going live\<close>

datatype skip_reason = SKIP_MOVED | SKIP_HAND_PUBLISHED | SKIP_LATER_PLAN_DUE

definition schedule_key :: "int \<Rightarrow> snapshot_version \<Rightarrow> int \<times> int \<times> string" where
  "schedule_key w v = (w, version_created_at v, version_id v)"

definition due_drafts :: "string \<Rightarrow> int \<Rightarrow> stock_db \<Rightarrow> (int \<times> int \<times> string) list" where
  \<comment> \<open>the schedule keys of the other drafts that are due\<close>
  "due_drafts vid now db = List.map_filter (\<lambda>v. case scheduled_activation_at v of
       None \<Rightarrow> None
     | Some w \<Rightarrow> if version_active_at v = None \<and> version_id v \<noteq> vid \<and> w \<le> now then Some (schedule_key w v) else None) (versions db)"

definition supersede_reason :: "snapshot_version \<Rightarrow> int option \<Rightarrow> int \<Rightarrow> stock_db \<Rightarrow> skip_reason option result" where
  "supersede_reason version expected now db =
     (if scheduled_activation_at version \<noteq> expected then Inr (Some SKIP_MOVED)
      else
        let active = List.find is_version_active (versions db); due = due_drafts (version_id version) now db in
        case scheduled_activation_at version of
          None \<Rightarrow> if active \<noteq> None \<or> due \<noteq> [] then Inl (TypeError ''scheduled_activation_at'') else Inr None
        | Some w \<Rightarrow>
            if (case active of None \<Rightarrow> False | Some a \<Rightarrow> w < the (version_active_at a)) then Inr (Some SKIP_HAND_PUBLISHED)
            else if \<exists>k \<in> set due. schedule_key w version < k then Inr (Some SKIP_LATER_PLAN_DUE)
            else Inr None)"

text \<open>\<open>_fire_due_schedulers\<close> of the scheduler runner: due rows are marked and their execution tasks are queued. A run takes at
  most fifty of the due rows, in no set order; here, those of the versions that are picked. The handler of the queued
  task is \<open>handle_activate_stock_report_snapshot_version\<close>.\<close>

definition fire_due_schedulers :: "string list \<Rightarrow> int \<Rightarrow> stock_db \<Rightarrow> stock_db" where
  "fire_due_schedulers picked now db = db\<lparr>schedulers := update_where
     (\<lambda>c. scheduler_state c = SchedulerACTIVE \<and> scheduled_for c \<le> now \<and> scheduler_version_id c \<in> set picked)
     (\<lambda>c. c\<lparr>scheduler_state := SchedulerFIRED\<rparr>) (schedulers db)\<rparr>"

definition skip_activation :: "string \<Rightarrow> int \<Rightarrow> stock_db \<Rightarrow> stock_db" where
  "skip_activation vid now db = cancel_activation_schedulers vid now (set_version vid (\<lambda>v. v\<lparr>scheduled_activation_at := None\<rparr>) db)"

definition insert_drafts :: "(string \<Rightarrow> string \<Rightarrow> string) \<Rightarrow> (string \<times> stock_row) list \<Rightarrow> stock_db \<Rightarrow> stock_db" where
  "insert_drafts fresh pairs db = db\<lparr>snapshots := snapshots db
     @ map (\<lambda>(vid, r). draft_snapshot fresh vid r)
         (filter (\<lambda>(vid, r). (vid, row_id r) \<notin> set (map (\<lambda>s. (snapshot_version_id s, snapshot_row_id s)) (snapshots db))) pairs)\<rparr>"

definition reconcile_membership :: "(string \<Rightarrow> string \<Rightarrow> string) \<Rightarrow> string \<Rightarrow> stock_row list \<Rightarrow> string set \<Rightarrow> stock_db \<Rightarrow> stock_db" where
  "reconcile_membership fresh vid rows held = insert_drafts fresh (map (Pair vid) (filter (\<lambda>r. row_id r \<notin> held) rows))"

definition carried_missing :: "stock_db \<Rightarrow> string option \<Rightarrow> item_snapshot \<Rightarrow> int option" where
  \<comment> \<open>the closing board's number for the same row\<close>
  "carried_missing db previous s =
     (case List.find (\<lambda>a. snapshot_row_id a = snapshot_row_id s \<and> Some (snapshot_version_id a) = previous) (snapshots db) of
        None \<Rightarrow> None | Some a \<Rightarrow> snapshot_missing a)"

definition settled_missing :: "stock_db \<Rightarrow> bool \<Rightarrow> string option \<Rightarrow> item_snapshot \<Rightarrow> int option" where
  \<comment> \<open>\<open>COALESCE(s.quantity_missing, CASE WHEN keep THEN a.quantity_missing END, 0)\<close>\<close>
  "settled_missing db keep previous s =
     (if snapshot_missing s \<noteq> None then snapshot_missing s
      else if keep \<and> carried_missing db previous s \<noteq> None then carried_missing db previous s
      else Some 0)"

definition activate_snapshots :: "string \<Rightarrow> bool \<Rightarrow> string option \<Rightarrow> string option \<Rightarrow> int \<Rightarrow> stock_db \<Rightarrow> stock_db" where
  "activate_snapshots vid keep previous actor now db =
     update_from_rows (\<lambda>s _. snapshot_version_id s = vid)
       (\<lambda>s r. copy_counters r (s\<lparr>requested_scanner := Some (row_requested r), snapshot_missing := settled_missing db keep previous s,
          snapshot_active_at := Some now\<rparr>)) actor now db"

definition count_snapshots :: "string \<Rightarrow> stock_db \<Rightarrow> int" where
  "count_snapshots vid db = int (length (filter (\<lambda>s. snapshot_version_id s = vid) (snapshots db)))"

definition record_activation :: "(string \<Rightarrow> string) \<Rightarrow> string option \<Rightarrow> int \<Rightarrow> stock_db \<Rightarrow> item_snapshot \<Rightarrow> stock_db result" where
  "record_activation hid actor now db s =
     rbind (locked row_id (snapshot_row_id s) (stock_rows db)) (\<lambda>row.
     record_history True
       (history_of HistPRIORITY_CHANGE (hid (snapshot_id s)) s (snapshot_priority s) (priority_order s) row actor now) db)"

definition write_activation_history :: "(string \<Rightarrow> string) \<Rightarrow> string \<Rightarrow> string option \<Rightarrow> int \<Rightarrow> stock_db \<Rightarrow> stock_db result" where
  "write_activation_history hid vid actor now db =
     rfold (record_activation hid actor now) db
       (sort_key snapshot_id (filter (\<lambda>s. snapshot_version_id s = vid \<and> snapshot_priority s \<noteq> None) (snapshots db)))"

definition go_live ::
    "string \<Rightarrow> bool \<Rightarrow> stock_row list \<Rightarrow> string set \<Rightarrow> (string \<Rightarrow> string \<Rightarrow> string) \<Rightarrow> (string \<Rightarrow> string) \<Rightarrow> string option \<Rightarrow> int
      \<Rightarrow> stock_db \<Rightarrow> stock_db result" where
  "go_live vid keep rows held fresh hid actor now db =
     (case close_active_version actor now db of (db, previous) \<Rightarrow>
      let db = reconcile_membership fresh vid rows held db;
          db = activate_snapshots vid keep (map_option version_id previous) actor now db;
          db = set_version vid (\<lambda>v. v\<lparr>version_active_at := Some now, scheduled_activation_at := None,
            snapshot_count := count_snapshots vid db\<rparr>) db;
          db = cancel_activation_schedulers vid now db in
      write_activation_history hid vid actor now (clamp_version_missing_quantities vid now actor db))"

text \<open>\<open>expected\<close> is absent on a manual activation, and the schedule the fire was made for on a scheduled one.\<close>

definition activate_stock_report_snapshot_version ::
    "string \<Rightarrow> bool \<Rightarrow> int option option \<Rightarrow> (string \<Rightarrow> string \<Rightarrow> string) \<Rightarrow> (string \<Rightarrow> string) \<Rightarrow> string option \<Rightarrow> int \<Rightarrow> stock_db
      \<Rightarrow> (stock_db \<times> skip_reason option) result" where
  "activate_stock_report_snapshot_version vid keep expected fresh hid actor now db =
     (let rows = live_rows db;
          held = snapshot_row_id ` set (filter (\<lambda>s. is_snapshot_open s \<and> snapshot_version_id s = vid) (snapshots db)) in
      rbind (find_version vid db) (\<lambda>version.
      rbind (rguard (is_version_draft version) VERSION_NOT_DRAFT) (\<lambda>_.
      rbind (case expected of None \<Rightarrow> Inr None | Some e \<Rightarrow> supersede_reason version e now db) (\<lambda>skipped.
      case skipped of
        Some SKIP_MOVED \<Rightarrow> Inr (db, skipped)
      | Some _ \<Rightarrow> Inr (skip_activation vid now db, skipped)
      | None \<Rightarrow>
          rbind (go_live vid (if expected \<noteq> None then keeps_active_missing version else keep) rows held fresh hid actor now db) (\<lambda>db.
          Inr (db, None))))))"

section \<open>Refreshing a board\<close>

definition refreeze :: "string \<Rightarrow> string option \<Rightarrow> int \<Rightarrow> stock_db \<Rightarrow> stock_db" where
  "refreeze vid actor now =
     update_from_rows (\<lambda>s r. snapshot_version_id s = vid \<and> is_snapshot_open s \<and> \<not> row_is_deleted r
         \<and> (case requested_scanner s of None \<Rightarrow> False | Some q \<Rightarrow> q \<noteq> row_requested r))
       (\<lambda>s r. s\<lparr>requested_scanner := Some (row_requested r)\<rparr>) actor now"

definition refrozen_count :: "string \<Rightarrow> stock_db \<Rightarrow> int" where
  \<comment> \<open>the refrozen snapshots without an override\<close>
  "refrozen_count vid db = int (length (filter (\<lambda>s. requested_manual s = None \<and> snapshot_version_id s = vid \<and> is_snapshot_open s
     \<and> (case (row_of db s, requested_scanner s) of (Some r, Some q) \<Rightarrow> \<not> row_is_deleted r \<and> q \<noteq> row_requested r | _ \<Rightarrow> False)) (snapshots db)))"

definition overridden :: "string \<Rightarrow> item_snapshot \<Rightarrow> bool" where
  "overridden vid s \<longleftrightarrow> snapshot_version_id s = vid \<and> is_snapshot_open s \<and> requested_manual s \<noteq> None"

definition clear_overrides :: "string \<Rightarrow> string option \<Rightarrow> int \<Rightarrow> stock_db \<Rightarrow> stock_db" where
  "clear_overrides vid actor now db = db\<lparr>snapshots := update_where (overridden vid)
     (\<lambda>s. s\<lparr>requested_manual := None, snapshot_updated_at := Some now, snapshot_updated_by_id := actor\<rparr>) (snapshots db)\<rparr>"

definition override_record :: "(string \<Rightarrow> string) \<Rightarrow> stock_row list \<Rightarrow> string option \<Rightarrow> int \<Rightarrow> item_snapshot \<Rightarrow> history_record result" where
  "override_record hid rows actor now s =
     (case requested_scanner s of
        None \<Rightarrow> Inl (IntegrityError ''quantity_requested'')
      | Some q \<Rightarrow> Inr \<lparr>history_id = hid (snapshot_id s), history_row_id = snapshot_row_id s, history_type = HistQUANTITY_REQUESTED_OVERRIDE,
          history_requested = q, history_source = ReqSCANNER,
          history_awaiting = (case List.find (\<lambda>r. row_id r = snapshot_row_id s) rows of None \<Rightarrow> 0 | Some r \<Rightarrow> quantity_awaiting r),
          history_priority = snapshot_priority s, history_priority_order = priority_order s, history_created_at = now,
          history_created_by_id = actor, history_is_deleted = False, history_deleted_at = None, history_deleted_by_id = None\<rparr>)"

definition drop_overrides ::
    "bool \<Rightarrow> string \<Rightarrow> stock_row list \<Rightarrow> (string \<Rightarrow> string) \<Rightarrow> string option \<Rightarrow> int \<Rightarrow> stock_db \<Rightarrow> (stock_db \<times> int) result" where
  "drop_overrides keep vid rows hid actor now db =
     (if keep then Inr (db, 0)
      else
        let cleared = sort_key snapshot_id (filter (overridden vid) (snapshots db)) in
        rbind (rmap (override_record hid rows actor now) cleared) (\<lambda>hs.
        Inr ((clear_overrides vid actor now db)\<lparr>histories := histories db @ hs\<rparr>,
             int (length (filter (\<lambda>s. requested_manual s \<noteq> requested_scanner s) cleared)))))"

definition refresh_stock_report_snapshot_version_requested ::
    "string \<Rightarrow> bool \<Rightarrow> (string \<Rightarrow> string \<Rightarrow> string) \<Rightarrow> (string \<Rightarrow> string) \<Rightarrow> string option \<Rightarrow> int \<Rightarrow> stock_db \<Rightarrow> (stock_db \<times> int \<times> int) result" where
  \<comment> \<open>with the numbers of changed and added snapshots\<close>
  "refresh_stock_report_snapshot_version_requested vid keep fresh hid actor now db =
     (let rows = live_rows db in
      rbind (find_version vid db) (\<lambda>version.
      rbind (rguard (is_version_active version) VERSION_NOT_ACTIVE) (\<lambda>_.
      let refrozen = refrozen_count vid db; db = refreeze vid actor now db in
      rbind (drop_overrides keep vid rows hid actor now db) (\<lambda>(db, cleared).
      let held = snapshot_row_id ` set (filter (\<lambda>s. snapshot_version_id s = vid) (snapshots db));
          added = filter (\<lambda>r. row_id r \<notin> held) rows;
          db = (if added = [] then db
            else let db = db\<lparr>snapshots := snapshots db @ map (board_snapshot_of fresh vid (the (version_active_at version))) added\<rparr> in
                 set_version vid (\<lambda>v. v\<lparr>snapshot_count := count_snapshots vid db\<rparr>) db) in
      Inr (clamp_version_missing_quantities vid now actor db, refrozen + cleared, int (length added))))))"

section \<open>The quantities a user sets\<close>

definition write_snapshot :: "string \<Rightarrow> (item_snapshot \<Rightarrow> item_snapshot) \<Rightarrow> string option \<Rightarrow> int \<Rightarrow> stock_db \<Rightarrow> stock_db" where
  "write_snapshot sid vals actor now db = db\<lparr>snapshots := write_mover sid vals actor now (snapshots db)\<rparr>"

definition set_stock_report_item_snapshot_missing_quantity ::
    "string \<Rightarrow> string option \<Rightarrow> int option \<Rightarrow> string option \<Rightarrow> int \<Rightarrow> stock_db \<Rightarrow> stock_db result" where
  "set_stock_report_item_snapshot_missing_quantity rid vid target actor now db =
     rbind (lock_live_row rid db) (\<lambda>row.
     rbind (discover_target_snapshot rid vid db) (\<lambda>t.
     rbind (check_locked_target t (List.find (\<lambda>s. snapshot_id s = snapshot_id (target_found t)) (snapshots db)) db) (\<lambda>(version, s).
     rbind (case target of
         None \<Rightarrow> rguard (\<not> is_version_active version) VERSION_NOT_DRAFT
       | Some m \<Rightarrow>
           (case effective_quantity_requested s row of
              None \<Rightarrow> Inl (TypeError ''quantity_requested'')
            | Some q \<Rightarrow> rguard (0 \<le> m \<and> m \<le> missing_quantity_ceiling q row (snapshot_resolved s))
                (ValidationError ''STOCK_REPORT_MISSING_EXCEEDS_CEILING''))) (\<lambda>_.
     if target = snapshot_missing s then Inr db
     else Inr (write_snapshot (snapshot_id s) (\<lambda>u. u\<lparr>snapshot_missing := target\<rparr>) actor now db)))))"

definition set_stock_report_item_snapshot_requested_quantity ::
    "string \<Rightarrow> string \<Rightarrow> int option \<Rightarrow> string option \<Rightarrow> int \<Rightarrow> string \<Rightarrow> stock_db \<Rightarrow> stock_db result" where
  "set_stock_report_item_snapshot_requested_quantity rid vid target actor now hid db =
     rbind (lock_live_row rid db) (\<lambda>row.
     rbind (discover_target_snapshot rid (Some vid) db) (\<lambda>t.
     rbind (check_locked_target t (List.find (\<lambda>s. snapshot_id s = snapshot_id (target_found t)) (snapshots db)) db) (\<lambda>(version, s).
     if target = requested_manual s then Inr db
     else
       let db = write_snapshot (snapshot_id s) (\<lambda>u. u\<lparr>requested_manual := target\<rparr>) actor now db in
       if is_version_active version
       then
         let db = clamp_snapshot_missing_quantity rid now actor db in
         (case load_version_snapshot rid vid db of
            None \<Rightarrow> Inl (TypeError ''NoneType'')
          | Some u \<Rightarrow> record_history True
              (history_of HistQUANTITY_REQUESTED_OVERRIDE hid u (snapshot_priority u) (priority_order u) row actor now) db)
       else Inr db)))"

section \<open>Scheduled activations\<close>

text \<open>\<open>services/tasks/stock_report/handle_activate_stock_report_snapshot_version.py\<close>: a \<open>DomainError\<close> ends the task.\<close>

definition is_domain_error :: "exc \<Rightarrow> bool" where
  "is_domain_error e \<longleftrightarrow> (case e of ValidationError _ \<Rightarrow> True | ConflictError _ \<Rightarrow> True | NotFound _ \<Rightarrow> True
     | StockAssignmentRefused _ \<Rightarrow> True | StockAssignmentPropertyMismatch _ \<Rightarrow> True | StockDemandDeadlineExceeded \<Rightarrow> True
     | LocationTrackerWebhookAuthError \<Rightarrow> True | _ \<Rightarrow> False)"

definition handle_activate_stock_report_snapshot_version ::
    "string \<Rightarrow> int \<Rightarrow> (string \<Rightarrow> string \<Rightarrow> string) \<Rightarrow> (string \<Rightarrow> string) \<Rightarrow> string option \<Rightarrow> int \<Rightarrow> stock_db \<Rightarrow> stock_db result" where
  "handle_activate_stock_report_snapshot_version vid w fresh hid actor now db =
     (case activate_stock_report_snapshot_version vid False (Some (Some w)) fresh hid actor now db of
        Inl e \<Rightarrow> if is_domain_error e then Inr db else Inl e
      | Inr (db', _) \<Rightarrow> Inr db')"


end
