(* ===== verification/StockBoards.thy ===== *)
theory StockBoards
  imports StockVersions
begin

text \<open>
  What the statements of the version commands do to a well-formed store: closing the running board, rewriting
  snapshots in place, clamping the missing quantities, and letting rows join a version. Every group of lemmas shows
  that \<open>snapshots_ok\<close> and the lists of the board survive; \<open>covered\<close> says that no missing quantity is over its ceiling.
\<close>

section \<open>Closing the board\<close>

text \<open>A snapshot of a well-formed store has its row; a statement over \<open>stock_report_items\<close> reaches all of them.\<close>

lemma row_of_snapshot:
  assumes "snapshots_ok db" "s \<in> set (snapshots db)"
  obtains r where "row_of db s = Some r" "r \<in> set (stock_rows db)" "row_id r = snapshot_row_id s"
proof -
  obtain r where r: "r \<in> set (stock_rows db)" "row_id r = snapshot_row_id s"
    using soundD [OF assms] by (auto simp: sound_snapshot_def)
  then have "row_of db s = Some r"
    using find_by_key [of row_id "stock_rows db" r] assms(1) by (simp add: row_of_def snapshots_ok_def)
  then show thesis using that r by blast
qed

definition its_row :: "stock_db \<Rightarrow> item_snapshot \<Rightarrow> stock_row" where
  "its_row db s = the (row_of db s)"

lemma update_from_rows_all:
  assumes "snapshots_ok db"
  shows "update_from_rows P f actor now db = db\<lparr>snapshots := map (\<lambda>s. if P s (its_row db s)
      then (f s (its_row db s))\<lparr>snapshot_updated_at := Some now, snapshot_updated_by_id := actor\<rparr> else s) (snapshots db)\<rparr>"
proof -
  have "map (\<lambda>s. case row_of db s of None \<Rightarrow> s
        | Some r \<Rightarrow> if P s r then (f s r)\<lparr>snapshot_updated_at := Some now, snapshot_updated_by_id := actor\<rparr> else s) (snapshots db)
      = map (\<lambda>s. if P s (its_row db s) then (f s (its_row db s))\<lparr>snapshot_updated_at := Some now, snapshot_updated_by_id := actor\<rparr> else s)
          (snapshots db)"
    by (rule map_cong [OF refl]) (auto elim: row_of_snapshot [OF assms] simp: its_row_def)
  then show ?thesis by (simp add: update_from_rows_def)
qed

definition closed_of :: "stock_db \<Rightarrow> string option \<Rightarrow> int \<Rightarrow> item_snapshot \<Rightarrow> item_snapshot" where
  "closed_of db actor now s = (if is_snapshot_active s
     then (copy_counters (its_row db s) (s\<lparr>snapshot_closed_at := Some now\<rparr>))\<lparr>snapshot_updated_at := Some now, snapshot_updated_by_id := actor\<rparr>
     else s)"

definition closed_version :: "string option \<Rightarrow> int \<Rightarrow> snapshot_version \<Rightarrow> snapshot_version" where
  "closed_version actor now v = (if is_version_active v then v\<lparr>version_closed_at := Some now, version_closed_by_id := actor\<rparr> else v)"

lemma closed_of_simps [simp]:
  "snapshot_id (closed_of db actor now s) = snapshot_id s" "snapshot_version_id (closed_of db actor now s) = snapshot_version_id s"
  "snapshot_row_id (closed_of db actor now s) = snapshot_row_id s" "requested_scanner (closed_of db actor now s) = requested_scanner s"
  "requested_manual (closed_of db actor now s) = requested_manual s" "snapshot_missing (closed_of db actor now s) = snapshot_missing s"
  "snapshot_resolved (closed_of db actor now s) = snapshot_resolved s" "snapshot_priority (closed_of db actor now s) = snapshot_priority s"
  "priority_order (closed_of db actor now s) = priority_order s" "snapshot_active_at (closed_of db actor now s) = snapshot_active_at s"
  "snapshot_closed_at (closed_of db actor now s) = (if is_snapshot_active s then Some now else snapshot_closed_at s)"
  by (simp_all add: closed_of_def copy_counters_def)

lemma closed_version_simps [simp]:
  "version_id (closed_version actor now v) = version_id v" "version_active_at (closed_version actor now v) = version_active_at v"
  "\<not> is_version_active (closed_version actor now v)"
  "version_closed_at (closed_version actor now v) = (if is_version_active v then Some now else version_closed_at v)"
  "is_version_draft (closed_version actor now v) = is_version_draft v"
  by (simp_all add: closed_version_def is_version_active_def is_version_draft_def)

definition board_closed :: "string option \<Rightarrow> int \<Rightarrow> stock_db \<Rightarrow> stock_db" where
  "board_closed actor now db = db\<lparr>snapshots := map (closed_of db actor now) (snapshots db),
     versions := map (closed_version actor now) (versions db)\<rparr>"

lemma close_active_version_eq:
  assumes "snapshots_ok db"
  shows "fst (close_active_version actor now db) = board_closed actor now db"
    and "map_option version_id (snd (close_active_version actor now db)) = map_option version_id (List.find is_version_active (versions db))"
proof -
  show "map_option version_id (snd (close_active_version actor now db)) = map_option version_id (List.find is_version_active (versions db))"
    by (simp add: close_active_version_def split: option.splits)
  show "fst (close_active_version actor now db) = board_closed actor now db"
  proof (cases "List.find is_version_active (versions db)")
    case None
    then have none: "\<not> is_version_active v" if "v \<in> set (versions db)" for v using that by (simp add: find_None_iff)
    then have "\<not> is_snapshot_active s" if "s \<in> set (snapshots db)" for s using that active_version_of [OF assms] by metis
    then show ?thesis using None none
      by (simp add: close_active_version_def board_closed_def closed_of_def closed_version_def map_idI)
  next
    case (Some v)
    then have v: "v \<in> set (versions db)" "is_version_active v" by (auto dest: find_Some_in)
    have "(if version_id w = version_id v then w\<lparr>version_closed_at := Some now, version_closed_by_id := actor\<rparr> else w) = closed_version actor now w"
      if "w \<in> set (versions db)" for w
    proof -
      have "version_id w = version_id v \<longleftrightarrow> is_version_active w"
        using that v one_active_version [OF assms v(1) that v(2)] row_unique [of version_id "versions db" w v] assms
        by (auto simp: snapshots_ok_def)
      then show ?thesis by (simp add: closed_version_def)
    qed
    then show ?thesis using Some assms
      by (simp add: close_active_version_def board_closed_def update_from_rows_all set_version_def update_where_def closed_of_def [abs_def])
  qed
qed

lemma close_active_version_split:
  "snapshots_ok db \<Longrightarrow> \<exists>prev. close_active_version actor now db = (board_closed actor now db, prev)
     \<and> map_option version_id prev = map_option version_id (List.find is_version_active (versions db))"
  using close_active_version_eq [of db actor now] by (metis prod.collapse)

lemma board_closed_simps [simp]:
  "stock_rows (board_closed actor now db) = stock_rows db" "schedulers (board_closed actor now db) = schedulers db"
  "histories (board_closed actor now db) = histories db" "assignments (board_closed actor now db) = assignments db"
  "snapshots (board_closed actor now db) = map (closed_of db actor now) (snapshots db)"
  "versions (board_closed actor now db) = map (closed_version actor now) (versions db)"
  by (simp_all add: board_closed_def)

lemma board_closed_ok:
  assumes "snapshots_ok db"
  shows "snapshots_ok (board_closed actor now db)"
proof -
  have "sound_snapshot (board_closed actor now db) (closed_of db actor now s)" if "s \<in> set (snapshots db)" for s
  proof -
    from soundD [OF assms that] obtain v r where vr: "v \<in> set (versions db)" "version_id v = snapshot_version_id s"
        "version_active_at v = snapshot_active_at s" "version_closed_at v \<noteq> None \<longrightarrow> snapshot_closed_at s \<noteq> None"
        "r \<in> set (stock_rows db)" "row_id r = snapshot_row_id s"
        "snapshot_closed_at s \<noteq> None \<longrightarrow> version_closed_at v \<noteq> None \<or> row_is_deleted r"
      by (auto simp: sound_snapshot_def)
    show ?thesis unfolding sound_snapshot_def
    proof (intro conjI bexI [of _ "closed_version actor now v"] bexI [of _ r])
      show "closed_version actor now v \<in> set (versions (board_closed actor now db))" using vr(1) by simp
    qed (use soundD [OF assms that] vr in \<open>auto simp: sound_snapshot_def is_version_active_def is_snapshot_active_def split: if_splits\<close>)
  qed
  moreover have "filter is_version_active (map (closed_version actor now) (versions db)) = []" by (simp add: filter_empty_conv)
  ultimately show ?thesis using assms by (simp add: snapshots_ok_def comp_def)
qed

text \<open>The closed board shows nothing any more; the drafts keep their lists.\<close>

definition retired :: "stock_db \<Rightarrow> board \<Rightarrow> board" where
  "retired db b vid = (if \<exists>v \<in> set (versions db). version_id v = vid \<and> is_version_active v then (\<lambda>_. []) else b vid)"

lemma slots_cong:
  "(\<And>s. s \<in> set snaps \<Longrightarrow> in_group vid p (f s) = in_group vid p s \<and> priority_order (f s) = priority_order s \<and> snapshot_id (f s) = snapshot_id s)
     \<Longrightarrow> slots vid p (map f snaps) = slots vid p snaps"
proof -
  assume same: "\<And>s. s \<in> set snaps \<Longrightarrow> in_group vid p (f s) = in_group vid p s \<and> priority_order (f s) = priority_order s
      \<and> snapshot_id (f s) = snapshot_id s"
  have "slots vid p (map f snaps) = (\<lambda>s. (priority_order (f s), snapshot_id (f s))) ` {s \<in> set snaps. in_group vid p (f s)}"
    by (auto simp: slots_def)
  also have "\<dots> = (\<lambda>s. (priority_order s, snapshot_id s)) ` {s \<in> set snaps. in_group vid p s}"
    using same by (intro image_cong) auto
  finally show ?thesis by (simp add: slots_def)
qed

lemma board_closed_shown:
  assumes "snapshots_ok db" "shows_board b (snapshots db)"
  shows "shows_board (retired db b) (snapshots (board_closed actor now db))"
proof -
  have "slots vid p (map (closed_of db actor now) (snapshots db)) = numbered 1 (retired db b vid p)" for vid p
  proof (cases "\<exists>v \<in> set (versions db). version_id v = vid \<and> is_version_active v")
    case True
    then obtain v where v: "v \<in> set (versions db)" "version_id v = vid" "is_version_active v" by blast
    have "\<not> is_snapshot_open (closed_of db actor now s)" if s: "s \<in> set (snapshots db)" "snapshot_version_id s = vid" for s
    proof -
      obtain w where w: "w \<in> set (versions db)" "version_id w = snapshot_version_id s" "version_active_at w = snapshot_active_at s"
        using snapshot_version [OF assms(1) s(1)] by metis
      moreover have "w = v" using row_unique [of version_id "versions db" w v] w v s assms(1) by (simp add: snapshots_ok_def)
      ultimately show ?thesis using v(3) by (auto simp: is_snapshot_open_def is_snapshot_active_def is_version_active_def)
    qed
    then show ?thesis using True by (auto simp: retired_def slots_def in_group_def)
  next
    case False
    have "\<not> is_snapshot_active s" if "s \<in> set (snapshots db)" "snapshot_version_id s = vid" for s
      using False that active_version_of [OF assms(1) that(1)] by metis
    then have "slots vid p (map (closed_of db actor now) (snapshots db)) = slots vid p (snapshots db)"
      by (intro slots_cong) (auto simp: in_group_def is_snapshot_open_def)
    then show ?thesis using False assms(2) by (auto simp: retired_def shows_boardD)
  qed
  moreover have "distinct (retired db b vid p)" for vid p using assms(2) by (simp add: retired_def shows_boardD)
  ultimately show ?thesis by (simp add: shows_board_def)
qed

section \<open>What a statement keeps\<close>

text \<open>A rewriting of the snapshots in place.\<close>

definition in_place :: "item_snapshot \<Rightarrow> item_snapshot \<Rightarrow> bool" where
  "in_place s s' \<longleftrightarrow> snapshot_id s' = snapshot_id s \<and> snapshot_version_id s' = snapshot_version_id s \<and> snapshot_row_id s' = snapshot_row_id s
     \<and> snapshot_active_at s' = snapshot_active_at s \<and> snapshot_closed_at s' = snapshot_closed_at s
     \<and> snapshot_priority s' = snapshot_priority s \<and> priority_order s' = priority_order s
     \<and> (requested_scanner s' = None) = (requested_scanner s = None)
     \<and> (snapshot_active_at s \<noteq> None \<longrightarrow> snapshot_missing s \<noteq> None \<longrightarrow> snapshot_missing s' \<noteq> None)"

lemma in_place_refl [simp]: "in_place s s" by (simp add: in_place_def)

lemma in_place_group: "in_place s s' \<Longrightarrow> in_group vid p s' = in_group vid p s"
  by (simp add: in_place_def in_group_def is_snapshot_open_def)

lemma sound_in_place: "sound_snapshot db s \<Longrightarrow> in_place s s' \<Longrightarrow> versions db' = versions db \<Longrightarrow> stock_rows db' = stock_rows db \<Longrightarrow> sound_snapshot db' s'"
  by (simp add: sound_snapshot_def in_place_def)

lemma mapped_in_place:
  assumes "snapshots_ok db" "shows_board b (snapshots db)" "\<And>s. s \<in> set (snapshots db) \<Longrightarrow> in_place s (f s)"
  shows "snapshots_ok (db\<lparr>snapshots := map f (snapshots db)\<rparr>) \<and> shows_board b (map f (snapshots db))"
proof
  have keys: "map (\<lambda>s. g (f s)) (snapshots db) = map g (snapshots db)" if "\<And>s s'. in_place s s' \<Longrightarrow> g s' = g s" for g :: "item_snapshot \<Rightarrow> 'k"
    using that assms(3) by simp
  have "map snapshot_id (map f (snapshots db)) = map snapshot_id (snapshots db)"
    using keys [of snapshot_id] by (simp add: in_place_def comp_def)
  moreover have "map (\<lambda>s. (snapshot_version_id s, snapshot_row_id s)) (map f (snapshots db))
      = map (\<lambda>s. (snapshot_version_id s, snapshot_row_id s)) (snapshots db)"
    using keys [of "\<lambda>s. (snapshot_version_id s, snapshot_row_id s)"] by (simp add: in_place_def comp_def)
  moreover have "sound_snapshot (db\<lparr>snapshots := map f (snapshots db)\<rparr>) s'" if "s' \<in> set (map f (snapshots db))" for s'
  proof -
    from that obtain s where s: "s \<in> set (snapshots db)" "s' = f s" by auto
    then show ?thesis unfolding s(2) by (intro sound_in_place [OF soundD [OF assms(1)] assms(3)]) simp_all
  qed
  ultimately show "snapshots_ok (db\<lparr>snapshots := map f (snapshots db)\<rparr>)"
    using assms(1) by (simp add: snapshots_ok_def del: map_map)
  have "slots vid p (map f (snapshots db)) = slots vid p (snapshots db)" for vid p
    using assms(3) in_place_group by (intro slots_cong) (simp add: in_place_def)
  then show "shows_board b (map f (snapshots db))" using assms(2) by (simp add: shows_board_def)
qed

text \<open>The insertion of snapshots without a priority, and of a version.\<close>

lemma snapshots_added:
  assumes "snapshots_ok db" "shows_board b (snapshots db)"
    "distinct (map snapshot_id new)" "snapshot_id ` set (snapshots db) \<inter> snapshot_id ` set new = {}"
    "distinct (map (\<lambda>s. (snapshot_version_id s, snapshot_row_id s)) new)"
    "\<And>s u. s \<in> set new \<Longrightarrow> u \<in> set (snapshots db) \<Longrightarrow> snapshot_version_id u = snapshot_version_id s \<Longrightarrow> snapshot_row_id u \<noteq> snapshot_row_id s"
    "\<And>s. s \<in> set new \<Longrightarrow> sound_snapshot db s \<and> snapshot_priority s = None"
  shows "snapshots_ok (db\<lparr>snapshots := snapshots db @ new\<rparr>) \<and> shows_board b (snapshots db @ new)"
proof
  have same: "sound_snapshot (db\<lparr>snapshots := snaps\<rparr>) s = sound_snapshot db s" for snaps s by (simp add: sound_snapshot_def)
  have "(\<lambda>s. (snapshot_version_id s, snapshot_row_id s)) ` set (snapshots db) \<inter> (\<lambda>s. (snapshot_version_id s, snapshot_row_id s)) ` set new = {}"
    using assms(6) by (auto simp: image_iff)
  then show "snapshots_ok (db\<lparr>snapshots := snapshots db @ new\<rparr>)"
    using assms(1,3,4,5,7) by (auto simp: snapshots_ok_def same)
  have "slots vid p (snapshots db @ new) = slots vid p (snapshots db)" for vid p
    using assms(7) by (auto simp: slots_def in_group_def)
  then show "shows_board b (snapshots db @ new)" using assms(2) by (simp add: shows_board_def)
qed

lemma version_added:
  assumes "snapshots_ok db" "version_id v \<notin> version_id ` set (versions db)"
    "is_version_active v \<Longrightarrow> \<forall>w \<in> set (versions db). \<not> is_version_active w"
  shows "snapshots_ok (db\<lparr>versions := versions db @ [v]\<rparr>)"
proof -
  have "sound_snapshot (db\<lparr>versions := versions db @ [v]\<rparr>) s" if "sound_snapshot db s" for s
    using that by (auto simp: sound_snapshot_def)
  moreover have "length (filter is_version_active (versions db @ [v])) \<le> 1"
    using assms(1,3) by (auto simp: snapshots_ok_def filter_empty_conv)
  ultimately show ?thesis using assms(1,2) by (auto simp: snapshots_ok_def)
qed

text \<open>The versions rewritten in place, when no version is activated or closed.\<close>

lemma versions_mapped:
  assumes "snapshots_ok db" "\<And>v. version_id (f v) = version_id v" "\<And>v. version_active_at (f v) = version_active_at v"
    "\<And>v. version_closed_at (f v) = version_closed_at v"
  shows "snapshots_ok (db\<lparr>versions := map f (versions db)\<rparr>)"
proof -
  have "sound_snapshot (db\<lparr>versions := map f (versions db)\<rparr>) s" if "sound_snapshot db s" for s
  proof -
    from that obtain v r where v: "v \<in> set (versions db)" "version_id v = snapshot_version_id s" "version_active_at v = snapshot_active_at s"
        "version_closed_at v \<noteq> None \<longrightarrow> snapshot_closed_at s \<noteq> None" "r \<in> set (stock_rows db)" "row_id r = snapshot_row_id s"
        "snapshot_closed_at s \<noteq> None \<longrightarrow> version_closed_at v \<noteq> None \<or> row_is_deleted r" by (auto simp: sound_snapshot_def)
    show ?thesis unfolding sound_snapshot_def
      by (intro conjI bexI [of _ "f v"] bexI [of _ r]) (use that v assms(2-4) in \<open>auto simp: sound_snapshot_def\<close>)
  qed
  moreover have "filter is_version_active (map f (versions db)) = map f (filter is_version_active (versions db))"
  proof -
    have "is_version_active \<circ> f = is_version_active" using assms(3,4) by (simp add: fun_eq_iff is_version_active_def)
    then show ?thesis by (simp add: filter_map)
  qed
  ultimately show ?thesis using assms(1,2) by (simp add: snapshots_ok_def comp_def)
qed

text \<open>The missing quantities: never negative, and within the ceiling on the active board.\<close>

definition covered :: "stock_db \<Rightarrow> bool" where
  "covered db \<longleftrightarrow> (\<forall>s \<in> set (snapshots db). \<forall>m. snapshot_missing s = Some m \<longrightarrow>
     0 \<le> m \<and> (is_snapshot_active s \<longrightarrow> m \<le> snapshot_ceiling s (its_row db s)))"

lemma coveredD: "covered db \<Longrightarrow> s \<in> set (snapshots db) \<Longrightarrow> snapshot_missing s = Some m \<Longrightarrow> 0 \<le> m"
    "covered db \<Longrightarrow> s \<in> set (snapshots db) \<Longrightarrow> snapshot_missing s = Some m \<Longrightarrow> is_snapshot_active s \<Longrightarrow> m \<le> snapshot_ceiling s (its_row db s)"
  by (auto simp: covered_def)

lemma ceiling_nonneg: "0 \<le> snapshot_ceiling s r"
  by (simp add: snapshot_ceiling_def missing_quantity_ceiling_def split: option.splits)

definition clamped_of :: "stock_db \<Rightarrow> (item_snapshot \<Rightarrow> bool) \<Rightarrow> int \<Rightarrow> string option \<Rightarrow> item_snapshot \<Rightarrow> item_snapshot" where
  "clamped_of db P now actor s =
     (if P s \<and> is_snapshot_active s \<and> (\<exists>m. snapshot_missing s = Some m \<and> snapshot_ceiling s (its_row db s) < m)
      then s\<lparr>snapshot_missing := Some (snapshot_ceiling s (its_row db s)), snapshot_updated_at := Some now, snapshot_updated_by_id := actor\<rparr>
      else s)"

lemma clamp_missing_eq:
  assumes "snapshots_ok db"
  shows "clamp_missing P now actor db = db\<lparr>snapshots := map (clamped_of db P now actor) (snapshots db)\<rparr>"
proof -
  have "(if P s \<and> over_ceiling (stock_rows db) s
        then s\<lparr>snapshot_missing := map_option (snapshot_ceiling s) (List.find (\<lambda>r. row_id r = snapshot_row_id s) (stock_rows db)),
            snapshot_updated_at := Some now, snapshot_updated_by_id := actor\<rparr> else s) = clamped_of db P now actor s"
    if s: "s \<in> set (snapshots db)" for s
  proof -
    obtain r where "row_of db s = Some r" using row_of_snapshot [OF assms s] by metis
    then have "over_ceiling (stock_rows db) s \<longleftrightarrow> is_snapshot_active s \<and> (\<exists>m. snapshot_missing s = Some m \<and> snapshot_ceiling s (its_row db s) < m)"
        "List.find (\<lambda>r. row_id r = snapshot_row_id s) (stock_rows db) = Some (its_row db s)"
      by (simp_all add: over_ceiling_def its_row_def row_of_def split: option.splits)
    then show ?thesis by (simp only: clamped_of_def option.map conj_assoc)
  qed
  then show ?thesis by (simp add: clamp_missing_def update_where_def)
qed

lemma effective_cong:
  "snapshot_active_at s' = snapshot_active_at s \<Longrightarrow> requested_scanner s' = requested_scanner s \<Longrightarrow> requested_manual s' = requested_manual s
     \<Longrightarrow> effective_quantity_requested s' r = effective_quantity_requested s r"
  by (simp add: effective_quantity_requested_def scanner_quantity_requested_def)

lemma ceiling_cong:
  "snapshot_active_at s' = snapshot_active_at s \<Longrightarrow> requested_scanner s' = requested_scanner s \<Longrightarrow> requested_manual s' = requested_manual s
     \<Longrightarrow> snapshot_resolved s' = snapshot_resolved s \<Longrightarrow> snapshot_ceiling s' r = snapshot_ceiling s r"
  using effective_cong [of s' s r] by (simp add: snapshot_ceiling_def cong: option.case_cong)

lemma clamped_in_place [simp]: "in_place s (clamped_of db P now actor s)"
  by (simp add: clamped_of_def in_place_def)

lemma clamped_simps [simp]:
  "snapshot_version_id (clamped_of db P now actor s) = snapshot_version_id s" "snapshot_row_id (clamped_of db P now actor s) = snapshot_row_id s"
  "snapshot_id (clamped_of db P now actor s) = snapshot_id s" "snapshot_active_at (clamped_of db P now actor s) = snapshot_active_at s"
  "snapshot_closed_at (clamped_of db P now actor s) = snapshot_closed_at s" "requested_scanner (clamped_of db P now actor s) = requested_scanner s"
  "requested_manual (clamped_of db P now actor s) = requested_manual s" "snapshot_resolved (clamped_of db P now actor s) = snapshot_resolved s"
  "snapshot_priority (clamped_of db P now actor s) = snapshot_priority s" "priority_order (clamped_of db P now actor s) = priority_order s"
  by (simp_all add: clamped_of_def)

lemma clamped_ceiling [simp]:
  "is_snapshot_active (clamped_of db P now actor s) = is_snapshot_active s"
  "snapshot_ceiling (clamped_of db P now actor s) r = snapshot_ceiling s r"
  by (simp add: is_snapshot_active_def) (rule ceiling_cong, simp_all)

text \<open>The clamp puts the missing quantities it reaches under their ceiling.\<close>

lemma clamp_covers:
  assumes "snapshots_ok db"
    "\<And>s m. s \<in> set (snapshots db) \<Longrightarrow> snapshot_missing s = Some m \<Longrightarrow> 0 \<le> m \<and> (is_snapshot_active s \<longrightarrow> \<not> P s \<longrightarrow> m \<le> snapshot_ceiling s (its_row db s))"
  shows "covered (clamp_missing P now actor db)"
proof -
  have rows: "its_row (db\<lparr>snapshots := ss\<rparr>) s' = its_row db s" if "snapshot_row_id s' = snapshot_row_id s" for ss s s'
    using that by (simp add: its_row_def row_of_def)
  show ?thesis unfolding covered_def clamp_missing_eq [OF assms(1)]
  proof (clarsimp, rename_tac s m)
    fix s m assume s: "s \<in> set (snapshots db)" "snapshot_missing (clamped_of db P now actor s) = Some m"
    have row: "its_row (db\<lparr>snapshots := map (clamped_of db P now actor) (snapshots db)\<rparr>) (clamped_of db P now actor s) = its_row db s"
      by (rule rows) simp
    show "0 \<le> m \<and> (is_snapshot_active s \<longrightarrow> m \<le> snapshot_ceiling s
        (its_row (db\<lparr>snapshots := map (clamped_of db P now actor) (snapshots db)\<rparr>) (clamped_of db P now actor s)))"
      unfolding row using s(2) assms(2) [OF s(1)] ceiling_nonneg [of s "its_row db s"]
      by (auto simp: clamped_of_def split: if_splits)
  qed
qed

section \<open>Rows join a version\<close>

text \<open>The identifiers of the inserted snapshots are new.\<close>

definition fresh_snapshots :: "(string \<Rightarrow> string \<Rightarrow> string) \<Rightarrow> string \<Rightarrow> stock_db \<Rightarrow> bool" where
  "fresh_snapshots fresh vid db \<longleftrightarrow> inj (fresh vid) \<and> snapshot_id ` set (snapshots db) \<inter> range (fresh vid) = {}"

lemma live_rows_simps [simp]:
  "set (live_rows db) = {r \<in> set (stock_rows db). \<not> row_is_deleted r}"
  by (simp add: live_rows_def)

lemma live_rows_distinct: "snapshots_ok db \<Longrightarrow> distinct (map row_id (live_rows db))"
proof -
  assume "snapshots_ok db"
  then have "distinct (map row_id (filter (\<lambda>r. \<not> row_is_deleted r) (stock_rows db)))" by (simp add: snapshots_ok_def distinct_map_filter)
  then show ?thesis by (simp add: live_rows_def distinct_map)
qed

lemma new_snapshot_simps [simp]:
  "snapshot_id (new_snapshot sid vid r q m a) = sid" "snapshot_version_id (new_snapshot sid vid r q m a) = vid"
  "snapshot_row_id (new_snapshot sid vid r q m a) = row_id r" "snapshot_priority (new_snapshot sid vid r q m a) = None"
  "priority_order (new_snapshot sid vid r q m a) = None" "requested_scanner (new_snapshot sid vid r q m a) = q"
  "requested_manual (new_snapshot sid vid r q m a) = None" "snapshot_missing (new_snapshot sid vid r q m a) = m"
  "snapshot_resolved (new_snapshot sid vid r q m a) = 0" "snapshot_active_at (new_snapshot sid vid r q m a) = a"
  "snapshot_closed_at (new_snapshot sid vid r q m a) = None"
  by (simp_all add: new_snapshot_def)

lemma rows_join:
  assumes ok: "snapshots_ok db" and board: "shows_board b (snapshots db)" and fresh: "fresh_snapshots fresh vid db"
    and v: "v \<in> set (versions db)" "version_id v = vid" "version_closed_at v = None"
    and rows: "distinct (map row_id rows)" "set rows \<subseteq> set (stock_rows db)"
    and absent: "\<And>r s. r \<in> set rows \<Longrightarrow> s \<in> set (snapshots db) \<Longrightarrow> snapshot_version_id s = vid \<Longrightarrow> snapshot_row_id s \<noteq> row_id r"
    and start: "\<And>r. (q r = None) = (version_active_at v = None)" "version_active_at v \<noteq> None \<Longrightarrow> m \<noteq> None"
    and new: "new = map (\<lambda>r. new_snapshot (fresh vid (row_id r)) vid r (q r) m (version_active_at v)) rows"
  shows "snapshots_ok (db\<lparr>snapshots := snapshots db @ new\<rparr>) \<and> shows_board b (snapshots db @ new)"
proof (rule snapshots_added [OF ok board])
  have inj: "inj (fresh vid)" and outside: "snapshot_id ` set (snapshots db) \<inter> range (fresh vid) = {}"
    using fresh by (simp_all add: fresh_snapshots_def)
  have "distinct (map (fresh vid) (map row_id rows))" unfolding distinct_map [of "fresh vid"] using rows(1) inj by (auto intro: inj_on_subset)
  then show "distinct (map snapshot_id new)" by (simp add: new comp_def)
  have "snapshot_id ` set new \<subseteq> range (fresh vid)" by (auto simp: new)
  then show "snapshot_id ` set (snapshots db) \<inter> snapshot_id ` set new = {}" using outside by blast
  have "distinct (map (Pair vid) (map row_id rows))" using rows(1) by (simp add: distinct_map inj_on_def del: map_map)
  then show "distinct (map (\<lambda>s. (snapshot_version_id s, snapshot_row_id s)) new)" by (simp add: new comp_def)
  show "snapshot_row_id u \<noteq> snapshot_row_id s"
    if "s \<in> set new" "u \<in> set (snapshots db)" "snapshot_version_id u = snapshot_version_id s" for s u
    using that absent by (auto simp: new)
  show "sound_snapshot db s \<and> snapshot_priority s = None" if s: "s \<in> set new" for s
  proof -
    obtain r where r: "r \<in> set rows" "s = new_snapshot (fresh vid (row_id r)) vid r (q r) m (version_active_at v)"
      using s by (auto simp: new)
    have "\<exists>r' \<in> set (stock_rows db). row_id r' = row_id r" using r(1) rows(2) by blast
    then show ?thesis unfolding r(2) sound_snapshot_def using v start by auto
  qed
qed

text \<open>The insert of a reconciled membership adds the rows without a snapshot, whatever the locked read held.\<close>

definition joining :: "string \<Rightarrow> stock_db \<Rightarrow> stock_row list" where
  "joining vid db = filter (\<lambda>r. \<forall>s \<in> set (snapshots db). snapshot_version_id s = vid \<longrightarrow> snapshot_row_id s \<noteq> row_id r) (live_rows db)"

lemma joiningD: "r \<in> set (joining vid db) \<Longrightarrow> s \<in> set (snapshots db) \<Longrightarrow> snapshot_version_id s = vid \<Longrightarrow> snapshot_row_id s \<noteq> row_id r"
  by (simp add: joining_def)

lemma joining_distinct: "snapshots_ok db \<Longrightarrow> distinct (map row_id (joining vid db))"
  using live_rows_distinct [of db] by (simp add: joining_def distinct_map_filter)

lemma reconcile_membership_eq:
  assumes "\<forall>i \<in> held. \<exists>s \<in> set (snapshots db). snapshot_version_id s = vid \<and> snapshot_row_id s = i"
  shows "reconcile_membership fresh vid (live_rows db) held db = db\<lparr>snapshots := snapshots db @ map (draft_snapshot fresh vid) (joining vid db)\<rparr>"
proof -
  have "filter (\<lambda>(vid, r). (vid, row_id r) \<notin> set (map (\<lambda>s. (snapshot_version_id s, snapshot_row_id s)) (snapshots db)))
        (map (Pair vid) (filter (\<lambda>r. row_id r \<notin> held) (live_rows db)))
      = map (Pair vid) (filter (\<lambda>r. (vid, row_id r) \<notin> set (map (\<lambda>s. (snapshot_version_id s, snapshot_row_id s)) (snapshots db)))
          (filter (\<lambda>r. row_id r \<notin> held) (live_rows db)))"
    by (simp add: filter_map comp_def)
  also have "\<dots> = map (Pair vid) (joining vid db)"
    using assms by (auto simp: joining_def image_iff intro!: arg_cong [where f = "map (Pair vid)"] filter_cong)
  finally show ?thesis by (simp add: reconcile_membership_def insert_drafts_def comp_def)
qed

end
