(* ===== verification/StockActivation.thy ===== *)
theory StockActivation
  imports StockBoards
begin

text \<open>
  The activation of a draft (\<open>activate_stock_report_snapshot_version.py\<close>): the store it leaves, in one piece
  (\<open>published\<close>), and what it means for every live row, for the board that was running and for the history.
\<close>

section \<open>The activated board\<close>

definition activated_of :: "string \<Rightarrow> bool \<Rightarrow> string option \<Rightarrow> string option \<Rightarrow> int \<Rightarrow> stock_db \<Rightarrow> item_snapshot \<Rightarrow> item_snapshot" where
  "activated_of vid keep previous actor now db s = (if snapshot_version_id s = vid
     then (copy_counters (its_row db s) (s\<lparr>requested_scanner := Some (row_requested (its_row db s)),
         snapshot_missing := settled_missing db keep previous s, snapshot_active_at := Some now\<rparr>))
         \<lparr>snapshot_updated_at := Some now, snapshot_updated_by_id := actor\<rparr>
     else s)"

definition stamped_version :: "string \<Rightarrow> int \<Rightarrow> int \<Rightarrow> snapshot_version \<Rightarrow> snapshot_version" where
  "stamped_version vid now n v = (if version_id v = vid
     then v\<lparr>version_active_at := Some now, scheduled_activation_at := None, snapshot_count := n\<rparr> else v)"

lemma activated_of_simps [simp]:
  "snapshot_id (activated_of vid keep previous actor now db s) = snapshot_id s"
  "snapshot_version_id (activated_of vid keep previous actor now db s) = snapshot_version_id s"
  "snapshot_row_id (activated_of vid keep previous actor now db s) = snapshot_row_id s"
  "snapshot_priority (activated_of vid keep previous actor now db s) = snapshot_priority s"
  "priority_order (activated_of vid keep previous actor now db s) = priority_order s"
  "requested_manual (activated_of vid keep previous actor now db s) = requested_manual s"
  "snapshot_resolved (activated_of vid keep previous actor now db s) = snapshot_resolved s"
  "snapshot_closed_at (activated_of vid keep previous actor now db s) = snapshot_closed_at s"
  "snapshot_active_at (activated_of vid keep previous actor now db s) = (if snapshot_version_id s = vid then Some now else snapshot_active_at s)"
  "requested_scanner (activated_of vid keep previous actor now db s)
     = (if snapshot_version_id s = vid then Some (row_requested (its_row db s)) else requested_scanner s)"
  "snapshot_missing (activated_of vid keep previous actor now db s)
     = (if snapshot_version_id s = vid then settled_missing db keep previous s else snapshot_missing s)"
  by (simp_all add: activated_of_def copy_counters_def)

lemma stamped_version_simps [simp]:
  "version_id (stamped_version vid now n v) = version_id v" "version_closed_at (stamped_version vid now n v) = version_closed_at v"
  "version_active_at (stamped_version vid now n v) = (if version_id v = vid then Some now else version_active_at v)"
  by (simp_all add: stamped_version_def)

lemma settled_not_None: "settled_missing db keep previous s \<noteq> None"
  by (simp add: settled_missing_def)

lemma activated_ok:
  assumes ok: "snapshots_ok db" and v: "v \<in> set (versions db)" "version_id v = vid" "is_version_draft v"
    and closed: "\<forall>w \<in> set (versions db). \<not> is_version_active w"
  shows "snapshots_ok (db\<lparr>snapshots := map (activated_of vid keep previous actor now db) (snapshots db),
      versions := map (stamped_version vid now n) (versions db)\<rparr>)"
    (is "snapshots_ok ?db")
proof -
  have ids: "distinct (map version_id (versions db))" using ok by (simp add: snapshots_ok_def)
  have only: "w = v" if "w \<in> set (versions db)" "version_id w = vid" for w
    using row_unique [OF ids that(1) v(1)] that(2) v(2) by simp
  have "sound_snapshot ?db (activated_of vid keep previous actor now db s)" if "s \<in> set (snapshots db)" for s
  proof -
    from soundD [OF ok that] obtain w r where w: "w \<in> set (versions db)" "version_id w = snapshot_version_id s"
        "version_active_at w = snapshot_active_at s" "version_closed_at w \<noteq> None \<longrightarrow> snapshot_closed_at s \<noteq> None"
        "r \<in> set (stock_rows db)" "row_id r = snapshot_row_id s"
        "snapshot_closed_at s \<noteq> None \<longrightarrow> version_closed_at w \<noteq> None \<or> row_is_deleted r"
      by (auto simp: sound_snapshot_def)
    have open_draft: "snapshot_closed_at s = None" if "snapshot_version_id s = vid"
      using only [OF w(1)] w(2,3) that v(3) soundD [OF ok \<open>s \<in> set (snapshots db)\<close>]
      by (auto simp: is_version_draft_def sound_snapshot_def)
    show ?thesis unfolding sound_snapshot_def
    proof (intro conjI bexI [of _ "stamped_version vid now n w"] bexI [of _ r])
      show "stamped_version vid now n w \<in> set (versions ?db)" using w(1) by simp
    qed (use soundD [OF ok that] w open_draft settled_not_None in \<open>auto simp: sound_snapshot_def\<close>)
  qed
  moreover have "filter is_version_active (map (stamped_version vid now n) (versions db))
      = map (stamped_version vid now n) (filter (\<lambda>w. version_id w = vid) (versions db))"
  proof -
    have "is_version_active (stamped_version vid now n w) \<longleftrightarrow> version_id w = vid" if "w \<in> set (versions db)" for w
      using that closed only [OF that] v(3) by (auto simp: is_version_active_def is_version_draft_def)
    then show ?thesis by (auto simp: filter_map intro!: arg_cong [where f = "map (stamped_version vid now n)"] filter_cong)
  qed
  moreover have "filter (\<lambda>w. version_id w = vid) (versions db) = [v]"
    using filter_key_unique [OF ids v(1), of "\<lambda>_. True"] v(2) by simp
  ultimately show ?thesis using ok by (simp add: snapshots_ok_def comp_def)
qed

text \<open>Nothing is active while the draft takes over, so only its own snapshots have to be clamped.\<close>

lemma its_row_cong: "stock_rows db' = stock_rows db \<Longrightarrow> snapshot_row_id s' = snapshot_row_id s \<Longrightarrow> its_row db' s' = its_row db s"
  by (simp add: its_row_def row_of_def)

lemma settled_nonneg:
  assumes "covered db" "s \<in> set (snapshots db)" "settled_missing db keep previous s = Some m"
  shows "0 \<le> m"
  using assms(3) coveredD(1) [OF assms(1)] assms(2)
  by (auto simp: settled_missing_def carried_missing_def split: if_splits option.splits dest: find_Some_in)

text \<open>The history of an activation: one record per prioritised snapshot, in the order of their identifiers.\<close>

lemma activation_recorded:
  assumes "snapshots_ok db" "set ss \<subseteq> set (snapshots db)"
  shows "\<exists>hs. rfold (record_activation hid actor now) db ss = Inr (db\<lparr>histories := histories db @ hs\<rparr>)
    \<and> map history_entry hs = map (\<lambda>s. (HistPRIORITY_CHANGE, snapshot_row_id s, snapshot_priority s, priority_order s)) ss"
  using assms
proof (induction ss arbitrary: db)
  case Nil
  then show ?case by (intro exI [of _ "[]"]) simp
next
  case (Cons s ss)
  obtain r where r: "row_of db s = Some r" "r \<in> set (stock_rows db)" "row_id r = snapshot_row_id s"
    using row_of_snapshot [of db s] Cons.prems by auto
  have locked: "locked row_id (snapshot_row_id s) (stock_rows db) = Inr r"
    using locked_self [of row_id "stock_rows db" r] Cons.prems(1) r by (simp add: snapshots_ok_def)
  obtain hs where hs: "record_history True (history_of HistPRIORITY_CHANGE (hid (snapshot_id s)) s (snapshot_priority s) (priority_order s) r actor now) db
        = Inr (db\<lparr>histories := histories db @ hs\<rparr>)"
      "map history_entry hs = [(HistPRIORITY_CHANGE, row_id r, snapshot_priority s, priority_order s)]"
    using recorded [of db s True HistPRIORITY_CHANGE "hid (snapshot_id s)" "snapshot_priority s" "priority_order s" r actor now db] Cons.prems
    by auto
  have "snapshots_ok (db\<lparr>histories := histories db @ hs\<rparr>)"
    using Cons.prems(1) by (simp add: snapshots_ok_def sound_snapshot_def)
  then obtain hs' where "rfold (record_activation hid actor now) (db\<lparr>histories := histories db @ hs\<rparr>) ss
        = Inr (db\<lparr>histories := (histories db @ hs) @ hs'\<rparr>)"
      "map history_entry hs' = map (\<lambda>s. (HistPRIORITY_CHANGE, snapshot_row_id s, snapshot_priority s, priority_order s)) ss"
    using Cons.IH [of "db\<lparr>histories := histories db @ hs\<rparr>"] Cons.prems(2) by auto
  moreover have "record_activation hid actor now db s = Inr (db\<lparr>histories := histories db @ hs\<rparr>)"
    by (simp add: record_activation_def locked hs(1))
  ultimately show ?case using hs(2) r(3) by (intro exI [of _ "hs @ hs'"]) simp
qed

definition joined :: "(string \<Rightarrow> string \<Rightarrow> string) \<Rightarrow> string \<Rightarrow> stock_db \<Rightarrow> stock_db" where
  "joined fresh vid db = db\<lparr>snapshots := snapshots db @ map (draft_snapshot fresh vid) (joining vid db)\<rparr>"

definition taken_over :: "string \<Rightarrow> bool \<Rightarrow> string option \<Rightarrow> string option \<Rightarrow> int \<Rightarrow> stock_db \<Rightarrow> stock_db" where
  "taken_over vid keep previous actor now db = db\<lparr>snapshots := map (activated_of vid keep previous actor now db) (snapshots db),
     versions := map (stamped_version vid now (count_snapshots vid db)) (versions db)\<rparr>"

definition published :: "string \<Rightarrow> bool \<Rightarrow> (string \<Rightarrow> string \<Rightarrow> string) \<Rightarrow> string option \<Rightarrow> int \<Rightarrow> stock_db \<Rightarrow> stock_db" where
  "published vid keep fresh actor now db = clamp_version_missing_quantities vid now actor (cancel_activation_schedulers vid now
     (taken_over vid keep (map_option version_id (List.find is_version_active (versions db))) actor now
       (joined fresh vid (board_closed actor now db))))"

definition carried_number :: "stock_db \<Rightarrow> string \<Rightarrow> int" where
  "carried_number db rid = (case load_active_snapshot rid db of None \<Rightarrow> 0 | Some a \<Rightarrow> (case snapshot_missing a of None \<Rightarrow> 0 | Some m \<Rightarrow> m))"

definition wanted_missing :: "bool \<Rightarrow> string \<Rightarrow> string \<Rightarrow> stock_db \<Rightarrow> int" where
  \<comment> \<open>the number typed on the draft, else the running board's when it is kept, else 0\<close>
  "wanted_missing keep vid rid db =
     (case Option.bind (load_version_snapshot rid vid db) snapshot_missing of
        Some m \<Rightarrow> m | None \<Rightarrow> if keep then carried_number db rid else 0)"

lemma draft_snapshot_new: "draft_snapshot fresh vid r = new_snapshot (fresh vid (row_id r)) vid r None None None"
  by (simp add: draft_snapshot_def)

lemma closed_draft: "v \<in> set (versions db) \<Longrightarrow> is_version_draft v \<Longrightarrow> v \<in> set (versions (board_closed actor now db))"
  by (auto simp: closed_version_def is_version_active_def is_version_draft_def intro!: image_eqI [of _ _ v])

lemma joined_ok:
  assumes ok: "snapshots_ok db" and board: "shows_board b (snapshots db)" and fresh: "fresh_snapshots fresh (version_id v) db"
    and v: "v \<in> set (versions db)" "is_version_draft v"
  shows "snapshots_ok (joined fresh (version_id v) db) \<and> shows_board b (snapshots (joined fresh (version_id v) db))"
proof -
  have "snapshots_ok (db\<lparr>snapshots := snapshots db @ map (draft_snapshot fresh (version_id v)) (joining (version_id v) db)\<rparr>)
      \<and> shows_board b (snapshots db @ map (draft_snapshot fresh (version_id v)) (joining (version_id v) db))"
  proof (rule rows_join [OF ok board fresh v(1) refl, where q = "\<lambda>_. None" and m = None])
    show "version_closed_at v = None" using v(2) by (simp add: is_version_draft_def)
    show "distinct (map row_id (joining (version_id v) db))" using ok by (rule joining_distinct)
    show "set (joining (version_id v) db) \<subseteq> set (stock_rows db)" by (auto simp: joining_def)
  qed (use v(2) in \<open>auto simp: joiningD is_version_draft_def draft_snapshot_new\<close>)
  then show ?thesis by (simp add: joined_def)
qed

lemma fresh_closed [simp]: "fresh_snapshots fresh vid (board_closed actor now db) = fresh_snapshots fresh vid db"
  by (simp add: fresh_snapshots_def image_image)

text \<open>What the closing and the joining leave of the snapshots.\<close>

lemma closed_inactive:
  assumes "snapshots_ok db" "s \<in> set (snapshots (joined fresh vid (board_closed actor now db)))"
  shows "\<not> is_snapshot_active s"
  using assms(2) by (auto simp: joined_def is_snapshot_active_def draft_snapshot_def split: if_splits)

lemma closed_covered: "covered db \<Longrightarrow> s \<in> set (snapshots (joined fresh vid (board_closed actor now db))) \<Longrightarrow> snapshot_missing s = Some m \<Longrightarrow> 0 \<le> m"
  by (auto simp: joined_def draft_snapshot_def dest: coveredD(1))

lemma published_ok:
  assumes ok: "snapshots_ok db" and board: "shows_board b (snapshots db)" and cov: "covered db"
    and v: "v \<in> set (versions db)" "is_version_draft v" and fresh: "fresh_snapshots fresh (version_id v) db"
  shows "snapshots_ok (published (version_id v) keep fresh actor now db)"
    "shows_board (retired db b) (snapshots (published (version_id v) keep fresh actor now db))"
    "covered (published (version_id v) keep fresh actor now db)"
proof -
  let ?j = "joined fresh (version_id v) (board_closed actor now db)"
  let ?prev = "map_option version_id (List.find is_version_active (versions db))"
  let ?t = "taken_over (version_id v) keep ?prev actor now ?j"
  let ?k = "cancel_activation_schedulers (version_id v) now ?t"
  let ?P = "\<lambda>s. snapshot_version_id s = version_id v"
  have v': "v \<in> set (versions (board_closed actor now db))" using v by (rule closed_draft)
  have j: "snapshots_ok ?j" "shows_board (retired db b) (snapshots ?j)"
    using joined_ok [OF board_closed_ok [OF ok] board_closed_shown [OF ok board] _ v' v(2), of fresh] fresh by simp_all
  have jv: "v \<in> set (versions ?j)" "\<forall>w \<in> set (versions ?j). \<not> is_version_active w" using v' by (auto simp: joined_def)
  have t: "snapshots_ok ?t" unfolding taken_over_def by (rule activated_ok [OF j(1) jv(1) refl v(2) jv(2)])
  then have k: "snapshots_ok ?k" by (simp add: cancel_activation_schedulers_def snapshots_ok_def sound_snapshot_def)
  have "slots w p (snapshots ?k) = slots w p (snapshots ?j)" for w p
    by (simp add: cancel_activation_schedulers_def taken_over_def) (rule slots_cong, simp add: in_group_def is_snapshot_open_def)
  then have kb: "shows_board (retired db b) (snapshots ?k)" using j(2) by (simp add: shows_board_def)
  have z: "published (version_id v) keep fresh actor now db = ?k\<lparr>snapshots := map (clamped_of ?k ?P now actor) (snapshots ?k)\<rparr>"
    by (simp add: published_def clamp_version_missing_quantities_def clamp_missing_eq [OF k])
  show "snapshots_ok (published (version_id v) keep fresh actor now db)"
    "shows_board (retired db b) (snapshots (published (version_id v) keep fresh actor now db))"
    unfolding z using mapped_in_place [OF k kb] by simp_all
  show "covered (published (version_id v) keep fresh actor now db)"
    unfolding published_def clamp_version_missing_quantities_def
  proof (rule clamp_covers [OF k])
    fix s m assume s: "s \<in> set (snapshots ?k)" "snapshot_missing s = Some m"
    then obtain u where u: "u \<in> set (snapshots ?j)" "s = activated_of (version_id v) keep ?prev actor now ?j u"
      by (auto simp: cancel_activation_schedulers_def taken_over_def)
    have nonneg: "0 \<le> m'" if "snapshot_missing w = Some m'" "w \<in> set (snapshots ?j)" for w m'
      using closed_covered [OF cov that(2,1)] .
    have "0 \<le> m" using s(2) u nonneg
      by (auto simp: settled_missing_def carried_missing_def split: if_splits option.splits dest: find_Some_in)
    moreover have "?P s" if "is_snapshot_active s"
      using that u closed_inactive [OF ok u(1)] by (auto simp: is_snapshot_active_def split: if_splits)
    ultimately show "0 \<le> m \<and> (is_snapshot_active s \<longrightarrow> \<not> ?P s \<longrightarrow> m \<le> snapshot_ceiling s (its_row ?k s))" by simp
  qed
qed

lemma go_live_published:
  assumes ok: "snapshots_ok db" and board: "shows_board b (snapshots db)" and cov: "covered db"
    and v: "v \<in> set (versions db)" "is_version_draft v" and fresh: "fresh_snapshots fresh (version_id v) db"
    and held: "held = snapshot_row_id ` set (filter (\<lambda>s. is_snapshot_open s \<and> snapshot_version_id s = version_id v) (snapshots db))"
  shows "go_live (version_id v) keep (live_rows db) held fresh hid actor now db =
    write_activation_history hid (version_id v) actor now (published (version_id v) keep fresh actor now db)"
proof -
  let ?c = "board_closed actor now db"
  let ?j = "joined fresh (version_id v) ?c"
  obtain prev where prev: "close_active_version actor now db = (?c, prev)"
      "map_option version_id prev = map_option version_id (List.find is_version_active (versions db))"
    using close_active_version_split [OF ok] by blast
  have rows: "live_rows db = live_rows ?c" by (simp add: live_rows_def)
  have "reconcile_membership fresh (version_id v) (live_rows db) held ?c = joined fresh (version_id v) ?c"
    unfolding joined_def rows by (rule reconcile_membership_eq) (auto simp: held)
  note joins = this
  have j: "snapshots_ok (joined fresh (version_id v) ?c)"
    using joined_ok [OF board_closed_ok [OF ok] board_closed_shown [OF ok board] _ closed_draft [OF v] v(2)] fresh by simp
  have act: "activate_snapshots (version_id v) keep p actor now ?j
      = ?j\<lparr>snapshots := map (activated_of (version_id v) keep p actor now ?j) (snapshots ?j)\<rparr>" for p
    unfolding activate_snapshots_def update_from_rows_all [OF j] activated_of_def by simp
  have count: "count_snapshots (version_id v) (?j\<lparr>snapshots := map (activated_of (version_id v) keep p actor now ?j) (snapshots ?j)\<rparr>)
      = count_snapshots (version_id v) ?j" for p
    by (simp add: count_snapshots_def filter_map comp_def)
  have stamp: "set_version (version_id v) (\<lambda>v. v\<lparr>version_active_at := Some now, scheduled_activation_at := None, snapshot_count := n\<rparr>) d
      = d\<lparr>versions := map (stamped_version (version_id v) now n) (versions d)\<rparr>" for n d
    by (simp add: set_version_def update_where_def stamped_version_def [abs_def])
  show ?thesis
    unfolding go_live_def prev(1) prod.case Let_def joins act count stamp published_def taken_over_def prev(2) [symmetric] by simp
qed

text \<open>The snapshot of a live row on the version that goes live.\<close>

lemma its_row_live:
  assumes "snapshots_ok db" "r \<in> set (stock_rows db)" "snapshot_row_id s = row_id r" "stock_rows db' = stock_rows db"
  shows "its_row db' s = r"
  using find_by_key [of row_id "stock_rows db" r] assms by (simp add: its_row_def row_of_def snapshots_ok_def)

lemma version_snapshot:
  "snapshots_ok db \<Longrightarrow> s \<in> set (snapshots db) \<Longrightarrow> load_version_snapshot (snapshot_row_id s) (snapshot_version_id s) db = Some s"
  unfolding load_version_snapshot_def using same_place by (intro find_only) auto

lemma no_version_snapshot:
  "(\<And>s. s \<in> set (snapshots db) \<Longrightarrow> snapshot_version_id s = vid \<Longrightarrow> snapshot_row_id s \<noteq> rid) \<Longrightarrow> load_version_snapshot rid vid db = None"
  by (auto simp: load_version_snapshot_def find_None_iff)

lemma find_appended: "(\<And>y. y \<in> set ys \<Longrightarrow> \<not> P y) \<Longrightarrow> List.find P (xs @ ys) = List.find P xs"
  by (induction xs) (auto simp: find_None_iff)

lemma find_mapped: "(\<And>x. x \<in> set xs \<Longrightarrow> P (f x) = P x) \<Longrightarrow> List.find P (map f xs) = map_option f (List.find P xs)"
  by (induction xs) auto

lemma find_never [simp]: "List.find (\<lambda>_. False) xs = None"
  by (simp add: find_None_iff)

text \<open>What the running board carries over, read after it was closed and the rows have joined.\<close>

lemma carried_running:
  assumes ok: "snapshots_ok db" and v: "v \<in> set (versions db)" "is_version_draft v" and r: "r \<in> set (stock_rows db)" "\<not> row_is_deleted r"
    and u: "snapshot_row_id u = row_id r"
  shows "(case carried_missing (joined fresh (version_id v) (board_closed actor now db))
      (map_option version_id (List.find is_version_active (versions db))) u of None \<Rightarrow> 0 | Some m \<Rightarrow> m) = carried_number db (row_id r)"
proof (cases "List.find is_version_active (versions db)")
  case None
  then have "\<not> is_snapshot_active s" if "s \<in> set (snapshots db)" for s
    using that active_version_of [OF ok that] by (metis find_None_iff)
  then have "load_active_snapshot (row_id r) db = None" by (auto simp: load_active_snapshot_def find_None_iff)
  then show ?thesis using None by (simp add: carried_missing_def carried_number_def)
next
  case (Some a)
  then have a: "a \<in> set (versions db)" "is_version_active a" by (auto dest: find_Some_in)
  have differ: "version_id a \<noteq> version_id v"
    using row_unique [of version_id "versions db" a v] ok a v by (auto simp: snapshots_ok_def is_version_active_def is_version_draft_def)
  have running: "is_snapshot_active s \<longleftrightarrow> snapshot_version_id s = version_id a" if "s \<in> set (snapshots db)" "snapshot_row_id s = row_id r" for s
  proof
    assume "is_snapshot_active s"
    then show "snapshot_version_id s = version_id a"
      using active_version_of [OF ok that(1)] one_active_version [OF ok] a by metis
  next
    assume vid: "snapshot_version_id s = version_id a"
    from soundD [OF ok that(1)] obtain w r' where w: "w \<in> set (versions db)" "version_id w = snapshot_version_id s"
        "version_active_at w = snapshot_active_at s" "r' \<in> set (stock_rows db)" "row_id r' = snapshot_row_id s"
        "snapshot_closed_at s \<noteq> None \<longrightarrow> version_closed_at w \<noteq> None \<or> row_is_deleted r'" by (auto simp: sound_snapshot_def)
    have "w = a" "r' = r"
      using row_unique [of version_id "versions db" w a] row_unique [of row_id "stock_rows db" r' r] ok a w r that(2) vid
      by (auto simp: snapshots_ok_def)
    then show "is_snapshot_active s" using w a r(2) by (auto simp: is_snapshot_active_def is_version_active_def)
  qed
  let ?P = "\<lambda>s. snapshot_row_id s = row_id r \<and> snapshot_version_id s = version_id a"
  have "List.find ?P (snapshots (joined fresh (version_id v) (board_closed actor now db))) = List.find ?P (map (closed_of db actor now) (snapshots db))"
  proof -
    have "\<not> ?P s" if "s \<in> set (map (draft_snapshot fresh (version_id v)) rs)" for s rs
      using that differ by (auto simp: draft_snapshot_def)
    then show ?thesis unfolding joined_def by (simp add: find_appended del: set_map)
  qed
  also have "\<dots> = map_option (closed_of db actor now) (List.find ?P (snapshots db))" by (rule find_mapped) simp
  also have "List.find ?P (snapshots db) = load_active_snapshot (row_id r) db"
    unfolding load_active_snapshot_def using running by (intro find_cong) auto
  finally have found: "List.find ?P (snapshots (joined fresh (version_id v) (board_closed actor now db)))
      = map_option (closed_of db actor now) (load_active_snapshot (row_id r) db)" .
  show ?thesis unfolding carried_missing_def carried_number_def Some u option.map option.inject found
    by (simp split: option.splits)
qed

lemma published_row:
  assumes ok: "snapshots_ok db" and board: "shows_board b (snapshots db)"
    and v: "v \<in> set (versions db)" "is_version_draft v" and fresh: "fresh_snapshots fresh (version_id v) db"
    and r: "r \<in> set (stock_rows db)" "\<not> row_is_deleted r"
  shows "\<exists>s \<in> set (snapshots (published (version_id v) keep fresh actor now db)). snapshot_version_id s = version_id v
    \<and> snapshot_row_id s = row_id r \<and> is_snapshot_active s \<and> requested_scanner s = Some (row_requested r)
    \<and> snapshot_missing s = Some (min (snapshot_ceiling s r) (wanted_missing keep (version_id v) (row_id r) db))"
proof -
  let ?c = "board_closed actor now db"
  let ?j = "joined fresh (version_id v) ?c"
  let ?prev = "map_option version_id (List.find is_version_active (versions db))"
  let ?t = "taken_over (version_id v) keep ?prev actor now ?j"
  let ?k = "cancel_activation_schedulers (version_id v) now ?t"
  let ?P = "\<lambda>s. snapshot_version_id s = version_id v"
  have j: "snapshots_ok ?j"
    using joined_ok [OF board_closed_ok [OF ok] board_closed_shown [OF ok board] _ closed_draft [OF v] v(2)] fresh by simp
  have k: "snapshots_ok ?k"
    using activated_ok [OF j _ refl v(2)] closed_draft [OF v]
    by (simp add: taken_over_def cancel_activation_schedulers_def snapshots_ok_def sound_snapshot_def joined_def)
  obtain u where u: "u \<in> set (snapshots ?j)" "snapshot_version_id u = version_id v" "snapshot_row_id u = row_id r" "snapshot_closed_at u = None"
      "snapshot_missing u = Option.bind (load_version_snapshot (row_id r) (version_id v) db) snapshot_missing"
  proof (cases "\<exists>s \<in> set (snapshots db). ?P s \<and> snapshot_row_id s = row_id r")
    case True
    then obtain s where s: "s \<in> set (snapshots db)" "?P s" "snapshot_row_id s = row_id r" by blast
    from snapshot_version [OF ok s(1)] obtain w where w: "w \<in> set (versions db)" "version_id w = version_id v"
        "version_active_at w = snapshot_active_at s" using s(2) by metis
    have "snapshot_active_at s = None"
      using row_unique [of version_id "versions db" w v] w v ok by (simp add: snapshots_ok_def is_version_draft_def)
    moreover have "snapshot_closed_at s = None" using soundD [OF ok s(1)] calculation by (simp add: sound_snapshot_def)
    moreover have "load_version_snapshot (row_id r) (version_id v) db = Some s" using version_snapshot [OF ok s(1)] s by simp
    ultimately show thesis using that [of "closed_of db actor now s"] s by (simp add: joined_def is_snapshot_active_def)
  next
    case False
    then have "r \<in> set (joining (version_id v) ?c)" using r by (auto simp: joining_def)
    then show thesis using that [of "draft_snapshot fresh (version_id v) r"] False
      by (simp add: joined_def draft_snapshot_new no_version_snapshot)
  qed
  have row: "its_row d s = r" if "snapshot_row_id s = row_id r" "stock_rows d = stock_rows db" for d s
    using its_row_live [OF ok r(1) that] .
  have settled: "settled_missing ?j keep ?prev u = Some (wanted_missing keep (version_id v) (row_id r) db)"
    using carried_running [OF ok v r u(3), of fresh actor now] u(5)
    by (auto simp: settled_missing_def wanted_missing_def split: option.splits)
  let ?s = "activated_of (version_id v) keep ?prev actor now ?j u"
  have s: "?s \<in> set (snapshots ?k)" using u(1) by (simp add: cancel_activation_schedulers_def taken_over_def)
  have "clamped_of ?k ?P now actor ?s \<in> set (snapshots (published (version_id v) keep fresh actor now db))"
    using s by (simp add: published_def clamp_version_missing_quantities_def clamp_missing_eq [OF k])
  moreover have "snapshot_missing (clamped_of ?k ?P now actor ?s)
      = Some (min (snapshot_ceiling ?s r) (wanted_missing keep (version_id v) (row_id r) db))"
  proof -
    have "its_row ?k ?s = r" using u(3) by (intro row) (simp_all add: cancel_activation_schedulers_def taken_over_def joined_def)
    moreover have "is_snapshot_active ?s" using u by (simp add: is_snapshot_active_def)
    ultimately show ?thesis using u(2) settled by (simp add: clamped_of_def)
  qed
  moreover have "its_row ?j u = r" using u(3) by (intro row) (simp_all add: joined_def)
  ultimately show ?thesis using u by (intro bexI [of _ "clamped_of ?k ?P now actor ?s"]) (simp_all add: is_snapshot_active_def)
qed

lemma published_simps [simp]:
  "histories (published vid keep fresh actor now db) = histories db" "stock_rows (published vid keep fresh actor now db) = stock_rows db"
  "assignments (published vid keep fresh actor now db) = assignments db" "repairs (published vid keep fresh actor now db) = repairs db"
  by (simp_all add: published_def clamp_version_missing_quantities_def clamp_missing_def cancel_activation_schedulers_def taken_over_def
      joined_def board_closed_def)

lemma published_versions:
  "\<exists>n. versions (published vid keep fresh actor now db) = map (\<lambda>v. stamped_version vid now n (closed_version actor now v)) (versions db)"
  "schedulers (published vid keep fresh actor now db) = schedulers (cancel_activation_schedulers vid now db)"
  by (simp_all add: published_def clamp_version_missing_quantities_def clamp_missing_def cancel_activation_schedulers_def taken_over_def
      joined_def board_closed_def comp_def) blast

lemma published_active:
  assumes ok: "snapshots_ok db" and v: "v \<in> set (versions db)" "is_version_draft v"
  shows "map version_id (filter is_version_active (versions (published (version_id v) keep fresh actor now db))) = [version_id v]"
proof -
  obtain n where n: "versions (published (version_id v) keep fresh actor now db)
      = map (\<lambda>w. stamped_version (version_id v) now n (closed_version actor now w)) (versions db)"
    using published_versions(1) by blast
  have ids: "distinct (map version_id (versions db))" using ok by (simp add: snapshots_ok_def)
  have "is_version_active (stamped_version (version_id v) now n (closed_version actor now w)) \<longleftrightarrow> version_id w = version_id v"
    if "w \<in> set (versions db)" for w
    using row_unique [OF ids that v(1)] v(2) by (auto simp: is_version_active_def is_version_draft_def)
  then have "filter (is_version_active \<circ> (\<lambda>w. stamped_version (version_id v) now n (closed_version actor now w))) (versions db)
      = filter (\<lambda>w. version_id w = version_id v) (versions db)" by (intro filter_cong) simp_all
  also have "\<dots> = [v]" using filter_key_unique [OF ids v(1), of "\<lambda>_. True"] by simp
  finally show ?thesis by (simp add: n filter_map)
qed

lemma closed_published:
  assumes ok: "snapshots_ok db" and board: "shows_board b (snapshots db)"
    and v: "v \<in> set (versions db)" "is_version_draft v" and fresh: "fresh_snapshots fresh (version_id v) db"
    and s: "s \<in> set (snapshots db)" "snapshot_version_id s \<noteq> version_id v"
  shows "closed_of db actor now s \<in> set (snapshots (published (version_id v) keep fresh actor now db))"
proof -
  let ?j = "joined fresh (version_id v) (board_closed actor now db)"
  let ?k = "cancel_activation_schedulers (version_id v) now
    (taken_over (version_id v) keep (map_option version_id (List.find is_version_active (versions db))) actor now ?j)"
  have j: "snapshots_ok ?j"
    using joined_ok [OF board_closed_ok [OF ok] board_closed_shown [OF ok board] _ closed_draft [OF v] v(2)] fresh by simp
  have k: "snapshots_ok ?k"
    using activated_ok [OF j _ refl v(2)] closed_draft [OF v]
    by (simp add: taken_over_def cancel_activation_schedulers_def snapshots_ok_def sound_snapshot_def joined_def)
  have "closed_of db actor now s \<in> set (snapshots ?j)" using s by (simp add: joined_def)
  then have "closed_of db actor now s \<in> set (snapshots ?k)" using s(2)
    by (auto simp: cancel_activation_schedulers_def taken_over_def activated_of_def intro!: image_eqI [of _ _ "closed_of db actor now s"])
  then show ?thesis using s(2)
    by (auto simp: published_def clamp_version_missing_quantities_def clamp_missing_eq [OF k] clamped_of_def
        intro!: image_eqI [of _ _ "closed_of db actor now s"])
qed

definition activation_entries :: "string \<Rightarrow> stock_db \<Rightarrow> (history_type \<times> string \<times> stock_priority option \<times> int option) list" where
  "activation_entries vid db = map (\<lambda>s. (HistPRIORITY_CHANGE, snapshot_row_id s, snapshot_priority s, priority_order s))
     (sort_key snapshot_id (filter (\<lambda>s. snapshot_version_id s = vid \<and> snapshot_priority s \<noteq> None) (snapshots db)))"

text \<open>An activation that is not superseded publishes the draft.\<close>

lemma activation_published:
  fixes db :: stock_db and b :: board and v :: snapshot_version and fresh :: "string \<Rightarrow> string \<Rightarrow> string" and expected :: "int option option"
    and keep :: bool and actor :: "string option" and now :: int and hid :: "string \<Rightarrow> string"
  assumes ok: "snapshots_ok db" and board: "shows_board b (snapshots db)" and cov: "covered db"
    and v: "v \<in> set (versions db)" "is_version_draft v" and fresh: "fresh_snapshots fresh (version_id v) db"
    and go: "(case expected of None \<Rightarrow> Inr None | Some e \<Rightarrow> supersede_reason v e now db) = Inr None"
  defines "z \<equiv> published (version_id v) (if expected \<noteq> None then keeps_active_missing v else keep) fresh actor now db"
  shows "\<exists>hs. activate_stock_report_snapshot_version (version_id v) keep expected fresh hid actor now db
      = Inr (z\<lparr>histories := histories db @ hs\<rparr>, None) \<and> map history_entry hs = activation_entries (version_id v) z"
proof -
  have z: "snapshots_ok z" unfolding z_def by (rule published_ok(1) [OF ok board cov v fresh])
  obtain hs where hs: "write_activation_history hid (version_id v) actor now z = Inr (z\<lparr>histories := histories z @ hs\<rparr>)"
      "map history_entry hs = activation_entries (version_id v) z"
    using activation_recorded [OF z, of "sort_key snapshot_id (filter (\<lambda>s. snapshot_version_id s = version_id v \<and> snapshot_priority s \<noteq> None) (snapshots z))" hid actor now]
    by (auto simp: write_activation_history_def activation_entries_def)
  have "histories z = histories db" by (simp add: z_def)
  moreover have "find_version (version_id v) db = Inr v" using ok v(1) by (intro find_version_in) (simp_all add: snapshots_ok_def)
  ultimately show ?thesis
    using hs v(2) go go_live_published [OF ok board cov v fresh refl, of "if expected \<noteq> None then keeps_active_missing v else keep" hid actor now]
    by (intro exI [of _ hs]) (simp add: activate_stock_report_snapshot_version_def Let_def z_def)
qed

lemma keeps_histories [simp]:
  "snapshots_ok (db\<lparr>histories := hs\<rparr>) = snapshots_ok db" "covered (db\<lparr>histories := hs\<rparr>) = covered db"
  by (simp_all add: snapshots_ok_def sound_snapshot_def covered_def its_row_def row_of_def)

text \<open>C27: Activating a draft succeeds and replaces the running board: the draft is the only active version; every
  live row has an active snapshot on it, frozen at the row's requested quantity, whose missing quantity is the one
  typed on the draft, else the running board's when it is kept, else 0, cut to the units still uncovered; the
  running board is closed with the counters of the rows; the lists of the draft are kept and recorded, one record
  for each snapshot with a priority; and no missing quantity of the new board is over its ceiling.\<close>

theorem activation_settles_board:
  assumes "snapshots_ok db" "shows_board b (snapshots db)" "covered db" "v \<in> set (versions db)" "is_version_draft v"
    "fresh_snapshots fresh (version_id v) db"
  shows "\<exists>db' hs. activate_stock_report_snapshot_version (version_id v) keep None fresh hid actor now db = Inr (db', None)
    \<and> snapshots_ok db' \<and> covered db' \<and> shows_board (retired db b) (snapshots db')
    \<and> map version_id (filter is_version_active (versions db')) = [version_id v]
    \<and> (\<forall>r \<in> set (stock_rows db). \<not> row_is_deleted r \<longrightarrow> (\<exists>s \<in> set (snapshots db'). snapshot_version_id s = version_id v
         \<and> snapshot_row_id s = row_id r \<and> is_snapshot_active s \<and> requested_scanner s = Some (row_requested r)
         \<and> snapshot_missing s = Some (min (snapshot_ceiling s r) (wanted_missing keep (version_id v) (row_id r) db))))
    \<and> (\<forall>s \<in> set (snapshots db). is_snapshot_active s \<longrightarrow> (\<exists>c \<in> set (snapshots db'). snapshot_id c = snapshot_id s
         \<and> snapshot_closed_at c = Some now \<and> snapshot_missing c = snapshot_missing s
         \<and> quantity_in_queue c = quantity_in_queue (its_row db s) \<and> quantity_in_progress c = quantity_in_progress (its_row db s)
         \<and> quantity_awaiting c = quantity_awaiting (its_row db s)))
    \<and> histories db' = histories db @ hs \<and> map history_entry hs = activation_entries (version_id v) db'"
proof -
  note ok = assms(1) and board = assms(2) and v = assms(4,5) and fresh = assms(6)
  let ?z = "published (version_id v) keep fresh actor now db"
  obtain hs where hs: "activate_stock_report_snapshot_version (version_id v) keep None fresh hid actor now db
      = Inr (?z\<lparr>histories := histories db @ hs\<rparr>, None)" "map history_entry hs = activation_entries (version_id v) ?z"
    using activation_published [OF assms, where expected = None and keep = keep and actor = actor and now = now and hid = hid] by auto
  have "\<exists>c \<in> set (snapshots ?z). snapshot_id c = snapshot_id s \<and> snapshot_closed_at c = Some now \<and> snapshot_missing c = snapshot_missing s
      \<and> quantity_in_queue c = quantity_in_queue (its_row db s) \<and> quantity_in_progress c = quantity_in_progress (its_row db s)
      \<and> quantity_awaiting c = quantity_awaiting (its_row db s)"
    if s: "s \<in> set (snapshots db)" "is_snapshot_active s" for s
  proof (intro bexI [of _ "closed_of db actor now s"])
    have "snapshot_version_id s \<noteq> version_id v"
    proof
      assume "snapshot_version_id s = version_id v"
      then obtain w where "w \<in> set (versions db)" "version_id w = version_id v" "is_version_active w"
        using active_version_of [OF ok s] by metis
      then show False using row_unique [of version_id "versions db" w v] ok v
        by (auto simp: snapshots_ok_def is_version_active_def is_version_draft_def)
    qed
    then show "closed_of db actor now s \<in> set (snapshots ?z)" by (rule closed_published [OF ok board v fresh s(1)])
  qed (use s in \<open>simp add: closed_of_def copy_counters_def\<close>)
  moreover note published_ok [OF assms, of keep actor now] published_active [OF ok v, of keep fresh actor now]
    published_row [OF ok board v fresh, of _ keep actor now]
  ultimately show ?thesis using hs
    by (intro exI [of _ "?z\<lparr>histories := histories db @ hs\<rparr>"] exI [of _ hs]) (simp add: activation_entries_def)
qed

definition board_fresh :: "string \<Rightarrow> string \<Rightarrow> string" where
  "board_fresh vid rid = CHR ''n'' # rid"

lemma board_fresh_ok: "fresh_snapshots board_fresh vid board_store"
  by (auto simp: fresh_snapshots_def board_fresh_def inj_def board_simps)

lemma board_store_covered: "covered board_store"
  by (simp add: covered_def its_row_def row_of_def snapshot_ceiling_def effective_quantity_requested_def scanner_quantity_requested_def
      missing_quantity_ceiling_def board_simps)

theorem activation_settles_board_witness:
  "\<exists>db'. activate_stock_report_snapshot_version ''d'' True None board_fresh id (Some ''u'') 9 board_store = Inr (db', None)
    \<and> map version_id (filter is_version_active (versions db')) = [''d'']
    \<and> (\<exists>s \<in> set (snapshots db'). snapshot_row_id s = ''r2'' \<and> requested_scanner s = Some 6
         \<and> snapshot_missing s = Some (min (snapshot_ceiling s (board_row ''r2'')) 2))
    \<and> (\<exists>c \<in> set (snapshots db'). snapshot_id c = ''a1'' \<and> snapshot_closed_at c = Some 9 \<and> quantity_in_progress c = 1)"
proof -
  have v: "board_version ''d'' None \<in> set (versions board_store)" "is_version_draft (board_version ''d'' None)"
      "version_id (board_version ''d'' None) = ''d''"
    by (simp_all add: board_simps is_version_draft_def)
  have r: "board_row ''r2'' \<in> set (stock_rows board_store)" "\<not> row_is_deleted (board_row ''r2'')" "row_id (board_row ''r2'') = ''r2''"
      "row_requested (board_row ''r2'') = 6"
    by (simp_all add: board_simps)
  have carried: "wanted_missing True ''d'' ''r2'' board_store = 2"
    by (simp add: wanted_missing_def load_version_snapshot_def carried_number_def load_active_snapshot_def is_snapshot_active_def board_simps)
  let ?a = "board_snapshot ''a1'' ''v'' ''r1'' (Some 5) (Some (PriorityHIGH, 2))"
  have a: "?a \<in> set (snapshots board_store)" "is_snapshot_active ?a" "snapshot_id ?a = ''a1''" "quantity_in_progress (its_row board_store ?a) = 1"
    by (simp_all add: board_simps is_snapshot_active_def its_row_def row_of_def)
  obtain db' where db': "activate_stock_report_snapshot_version ''d'' True None board_fresh id (Some ''u'') 9 board_store = Inr (db', None)"
      "map version_id (filter is_version_active (versions db')) = [''d'']"
      "\<forall>r \<in> set (stock_rows board_store). \<not> row_is_deleted r \<longrightarrow> (\<exists>s \<in> set (snapshots db'). snapshot_version_id s = ''d''
         \<and> snapshot_row_id s = row_id r \<and> is_snapshot_active s \<and> requested_scanner s = Some (row_requested r)
         \<and> snapshot_missing s = Some (min (snapshot_ceiling s r) (wanted_missing True ''d'' (row_id r) board_store)))"
      "\<forall>s \<in> set (snapshots board_store). is_snapshot_active s \<longrightarrow> (\<exists>c \<in> set (snapshots db'). snapshot_id c = snapshot_id s
         \<and> snapshot_closed_at c = Some 9 \<and> snapshot_missing c = snapshot_missing s
         \<and> quantity_in_queue c = quantity_in_queue (its_row board_store s) \<and> quantity_in_progress c = quantity_in_progress (its_row board_store s)
         \<and> quantity_awaiting c = quantity_awaiting (its_row board_store s))"
    using activation_settles_board [OF board_store_ok board_store_shown board_store_covered v(1,2) board_fresh_ok, of True id "Some ''u''" 9]
    unfolding v(3) by (elim exE conjE) (rule that; assumption)
  show ?thesis
    using db'(1,2) bspec [OF db'(3) r(1)] r carried bspec [OF db'(4) a(1)] a by (intro exI [of _ db'] conjI) auto
qed

end
