(* ===== verification/StockSchedules.thy ===== *)
theory StockSchedules
  imports StockActivation
begin

text \<open>
  The scheduled activations of several drafts, in every order in which the workers may run them.
\<close>

text \<open>A fire is the version, the schedule it was made for and the time at which it runs.\<close>

record fire =
  fire_version :: string
  fire_schedule :: int
  fire_time :: int

abbreviation fired :: "fire list \<Rightarrow> string set" where
  "fired fires \<equiv> fire_version ` set fires"

definition run_fire :: "(string \<Rightarrow> string \<Rightarrow> string) \<Rightarrow> (int \<Rightarrow> string \<Rightarrow> string) \<Rightarrow> string option \<Rightarrow> stock_db \<Rightarrow> fire \<Rightarrow> stock_db result" where
  "run_fire fresh hid actor db f =
     handle_activate_stock_report_snapshot_version (fire_version f) (fire_schedule f) fresh (hid (fire_time f)) actor (fire_time f) db"

definition pending :: "stock_db \<Rightarrow> string \<Rightarrow> int \<Rightarrow> bool" where
  "pending db vid w \<longleftrightarrow> (\<exists>v \<in> set (versions db). version_id v = vid \<and> is_version_draft v \<and> scheduled_activation_at v = Some w)"

definition unscheduled :: "string set \<Rightarrow> snapshot_version \<Rightarrow> snapshot_version" where
  "unscheduled vids v = (if version_id v \<in> vids then v\<lparr>scheduled_activation_at := None\<rparr> else v)"

lemma unscheduled_simps [simp]:
  "version_id (unscheduled vids v) = version_id v" "version_active_at (unscheduled vids v) = version_active_at v"
  "version_closed_at (unscheduled vids v) = version_closed_at v" "is_version_draft (unscheduled vids v) = is_version_draft v"
  "is_version_active (unscheduled vids v) = is_version_active v"
  "scheduled_activation_at (unscheduled vids v) = (if version_id v \<in> vids then None else scheduled_activation_at v)"
  by (simp_all add: unscheduled_def is_version_draft_def is_version_active_def)

lemma unscheduled_other: "version_id v \<notin> vids \<Longrightarrow> unscheduled vids v = v"
  by (simp add: unscheduled_def)

lemma skip_activation_simps [simp]:
  "snapshots (skip_activation vid now db) = snapshots db" "stock_rows (skip_activation vid now db) = stock_rows db"
  "versions (skip_activation vid now db) = map (unscheduled {vid}) (versions db)" "histories (skip_activation vid now db) = histories db"
  by (simp_all add: skip_activation_def cancel_activation_schedulers_def set_version_def update_where_def unscheduled_def [abs_def] cong: if_cong)

lemma skip_keeps:
  assumes "snapshots_ok db"
  shows "snapshots_ok (skip_activation vid now db)" "covered (skip_activation vid now db) = covered db"
proof -
  have "snapshots_ok (db\<lparr>versions := map (unscheduled {vid}) (versions db)\<rparr>)" using assms by (rule versions_mapped) simp_all
  then show "snapshots_ok (skip_activation vid now db)" by (simp add: snapshots_ok_def sound_snapshot_def)
  show "covered (skip_activation vid now db) = covered db" by (simp add: covered_def its_row_def row_of_def)
qed

lemma pending_skip:
  "vid \<noteq> vid' \<Longrightarrow> pending (skip_activation vid now db) vid' w = pending db vid' w"
  by (auto simp: pending_def image_iff unscheduled_def is_version_draft_def)

lemma pendings_skip:
  "vid \<notin> fired fires \<Longrightarrow> \<forall>f \<in> set fires. pending db (fire_version f) (fire_schedule f)
     \<Longrightarrow> \<forall>f \<in> set fires. pending (skip_activation vid now db) (fire_version f) (fire_schedule f)"
  by (metis imageI pending_skip)

text \<open>A fire that is superseded by the board, or by a later draft that is also due, clears its schedule.\<close>

lemma due_draftsI:
  assumes "u \<in> set (versions db)" "is_version_draft u" "version_id u \<noteq> vid" "scheduled_activation_at u = Some w" "w \<le> t"
  shows "schedule_key w u \<in> set (due_drafts vid t db)"
proof -
  let ?f = "\<lambda>v. case scheduled_activation_at v of None \<Rightarrow> None
     | Some w \<Rightarrow> if version_active_at v = None \<and> version_id v \<noteq> vid \<and> w \<le> t then Some (schedule_key w v) else None"
  have "?f u = Some (schedule_key w u)" using assms by (simp add: is_version_draft_def)
  then show ?thesis using assms(1) unfolding due_drafts_def List.map_filter_def set_map
    by (intro image_eqI [of _ _ u]) (simp_all add: schedule_key_def)
qed

lemma due_draftsE:
  assumes "k \<in> set (due_drafts vid t db)"
  obtains u w where "u \<in> set (versions db)" "version_active_at u = None" "version_id u \<noteq> vid" "scheduled_activation_at u = Some w" "w \<le> t"
    "k = schedule_key w u"
  using assms that by (auto simp: due_drafts_def List.map_filter_def split: option.splits if_splits)

lemma fire_skipped:
  assumes ok: "snapshots_ok db" and v: "pending db (fire_version f) (fire_schedule f)"
    and superseded: "(\<exists>a. List.find is_version_active (versions db) = Some a \<and> fire_schedule f < the (version_active_at a))
      \<or> (\<exists>u \<in> set (versions db). \<exists>w. is_version_draft u \<and> version_id u \<noteq> fire_version f \<and> scheduled_activation_at u = Some w \<and> w \<le> fire_time f
           \<and> (\<forall>v \<in> set (versions db). version_id v = fire_version f \<longrightarrow> schedule_key (fire_schedule f) v < schedule_key w u))"
  shows "run_fire fresh hid actor db f = Inr (skip_activation (fire_version f) (fire_time f) db)"
proof -
  obtain v where v: "v \<in> set (versions db)" "version_id v = fire_version f" "is_version_draft v" "scheduled_activation_at v = Some (fire_schedule f)"
    using v by (auto simp: pending_def)
  have found: "find_version (fire_version f) db = Inr v" using find_version_in [of db v] ok v by (simp add: snapshots_ok_def)
  have "\<exists>r. supersede_reason v (Some (fire_schedule f)) (fire_time f) db = Inr (Some r) \<and> r \<noteq> SKIP_MOVED"
  proof (cases "\<exists>a. List.find is_version_active (versions db) = Some a \<and> fire_schedule f < the (version_active_at a)")
    case True
    then show ?thesis using v(4) by (auto simp: supersede_reason_def Let_def)
  next
    case False
    then obtain u w where u: "u \<in> set (versions db)" "is_version_draft u" "version_id u \<noteq> fire_version f" "scheduled_activation_at u = Some w"
        "w \<le> fire_time f" "schedule_key (fire_schedule f) v < schedule_key w u" using superseded v by blast
    then have "schedule_key w u \<in> set (due_drafts (fire_version f) (fire_time f) db)" by (intro due_draftsI) simp_all
    then show ?thesis using False v u(6) by (auto simp: supersede_reason_def Let_def split: option.splits)
  qed
  then obtain r where r: "supersede_reason v (Some (fire_schedule f)) (fire_time f) db = Inr (Some r)" "r \<noteq> SKIP_MOVED" by blast
  then show ?thesis using found v(3)
    by (cases r) (simp_all add: run_fire_def handle_activate_stock_report_snapshot_version_def activate_stock_report_snapshot_version_def Let_def)
qed

lemma superseded_fires:
  assumes "snapshots_ok db" "List.find is_version_active (versions db) = Some a" "\<forall>f \<in> set fires. fire_schedule f < the (version_active_at a)"
    "distinct (map fire_version fires)" "\<forall>f \<in> set fires. pending db (fire_version f) (fire_schedule f)"
  shows "\<exists>db'. rfold (run_fire fresh hid actor) db fires = Inr db' \<and> versions db' = map (unscheduled (fired fires)) (versions db)"
  using assms
proof (induction fires arbitrary: db a)
  case Nil
  then show ?case by (simp add: unscheduled_def)
next
  case (Cons f fires)
  let ?skip = "skip_activation (fire_version f) (fire_time f) db"
  have skip: "run_fire fresh hid actor db f = Inr ?skip" using Cons.prems by (intro fire_skipped) auto
  have "List.find is_version_active (versions ?skip) = Some (unscheduled {fire_version f} a)"
    using Cons.prems(2) find_mapped [of "versions db" is_version_active "unscheduled {fire_version f}"] by simp
  moreover have "\<forall>g \<in> set fires. pending ?skip (fire_version g) (fire_schedule g)" using Cons.prems(4,5) by (intro pendings_skip) auto
  ultimately obtain db' where db': "rfold (run_fire fresh hid actor) ?skip fires = Inr db'"
      "versions db' = map (unscheduled (fired fires)) (map (unscheduled {fire_version f}) (versions db))"
    using Cons.IH [OF skip_keeps(1) [OF Cons.prems(1)], of "fire_version f" "fire_time f" "unscheduled {fire_version f} a"] Cons.prems(3,4)
    by auto
  have "unscheduled (fired fires) \<circ> unscheduled {fire_version f} = unscheduled (fired (f # fires))"
    by (auto simp: unscheduled_def fun_eq_iff)
  then show ?case using skip db' by simp
qed

lemma find_active:
  assumes "map version_id (filter is_version_active (versions db)) = [i]"
  shows "\<exists>a. List.find is_version_active (versions db) = Some a \<and> version_id a = i"
proof -
  obtain a where a: "filter is_version_active (versions db) = [a]" "version_id a = i" using assms by auto
  then have "a \<in> set (versions db)" "is_version_active a" using filter_eq_singletonD [OF a(1)] by simp_all
  then have "List.find is_version_active (versions db) \<noteq> None" by (auto simp: find_None_iff)
  then obtain c where c: "List.find is_version_active (versions db) = Some c" by blast
  then have "c \<in> set (filter is_version_active (versions db))" by (auto dest: find_Some_in)
  then show ?thesis using a c by simp
qed

lemma pending_unique:
  "snapshots_ok db \<Longrightarrow> pending db vid w \<Longrightarrow> u \<in> set (versions db) \<Longrightarrow> version_id u = vid \<Longrightarrow> is_version_draft u \<and> scheduled_activation_at u = Some w"
  using row_unique [of version_id "versions db"] by (metis pending_def snapshots_ok_def)

text \<open>The orders in which due drafts run, and what is due with them.\<close>

definition last_plan :: "fire list \<Rightarrow> fire \<Rightarrow> stock_db \<Rightarrow> bool" where
  \<comment> \<open>a fire of the list whose draft is planned after those of the other fires\<close>
  "last_plan fires l db \<longleftrightarrow> (\<forall>u \<in> set (versions db). \<forall>v \<in> set (versions db). \<forall>w. version_id u \<in> fired fires \<longrightarrow>
     version_id u \<noteq> fire_version l \<longrightarrow> version_id v = fire_version l \<longrightarrow> scheduled_activation_at u = Some w \<longrightarrow>
     schedule_key w u < schedule_key (fire_schedule l) v)"

definition plans_due :: "fire list \<Rightarrow> stock_db \<Rightarrow> bool" where
  \<comment> \<open>the fires of all drafts that are due, each run after all their schedules\<close>
  "plans_due fires db \<longleftrightarrow> distinct (map fire_version fires) \<and> (\<forall>f \<in> set fires. pending db (fire_version f) (fire_schedule f))
     \<and> (\<forall>f \<in> set fires. \<forall>g \<in> set fires. fire_schedule f < fire_time g)
     \<and> (\<forall>u \<in> set (versions db). \<forall>w. version_active_at u = None \<longrightarrow> scheduled_activation_at u = Some w \<longrightarrow>
          version_id u \<in> fired fires \<or> (\<forall>f \<in> set fires. fire_time f < w))"

definition not_published_since :: "int \<Rightarrow> stock_db \<Rightarrow> bool" where
  "not_published_since w db \<longleftrightarrow> (\<forall>a \<in> set (versions db). is_version_active a \<longrightarrow> the (version_active_at a) \<le> w)"

lemma last_goes_live:
  assumes ok: "snapshots_ok db" and due: "plans_due (l # fires) db" "last_plan (l # fires) l db" "not_published_since (fire_schedule l) db"
    and v: "v \<in> set (versions db)" "version_id v = fire_version l"
  shows "supersede_reason v (Some (fire_schedule l)) (fire_time l) db = Inr None"
proof -
  have "pending db (fire_version l) (fire_schedule l)" using due(1) by (simp add: plans_due_def)
  then have v': "is_version_draft v" "scheduled_activation_at v = Some (fire_schedule l)" using pending_unique [OF ok _ v] by auto
  have "\<not> fire_schedule l < the (version_active_at a)" if "List.find is_version_active (versions db) = Some a" for a
    using find_Some_in [OF that] due(3) by (auto simp: not_published_since_def not_less)
  moreover have "\<not> schedule_key (fire_schedule l) v < k" if k: "k \<in> set (due_drafts (fire_version l) (fire_time l) db)" for k
  proof -
    obtain u w where u: "u \<in> set (versions db)" "version_active_at u = None" "version_id u \<noteq> fire_version l" "scheduled_activation_at u = Some w"
        "w \<le> fire_time l" "k = schedule_key w u" using k by (elim due_draftsE) metis
    have "version_id u \<in> fired (l # fires) \<or> fire_time l < w" using due(1) u(1,2,4) by (auto simp: plans_due_def)
    then have "version_id u \<in> fired (l # fires)" using u(5) by simp
    then have "schedule_key w u < schedule_key (fire_schedule l) v"
      using due(2) u(1,3,4) v unfolding last_plan_def by blast
    then show ?thesis using u(6) by simp
  qed
  ultimately show ?thesis using v v' by (auto simp: supersede_reason_def Let_def split: option.splits)
qed

lemma skipped_version:
  "u \<in> set (versions (skip_activation vid now db)) \<Longrightarrow> scheduled_activation_at u = Some w \<Longrightarrow> u \<in> set (versions db) \<and> version_id u \<noteq> vid"
  by (auto simp: unscheduled_def split: if_splits)

lemma plans_due_skip:
  assumes "plans_due (f # fires) db" "last_plan (f # fires) l db" "not_published_since w db"
  shows "plans_due fires (skip_activation (fire_version f) now db)" "last_plan fires l (skip_activation (fire_version f) now db)"
    "not_published_since w (skip_activation (fire_version f) now db)"
proof -
  have "fire_version f \<notin> fired fires" using assms(1) by (simp add: plans_due_def)
  then have "\<forall>g \<in> set fires. pending (skip_activation (fire_version f) now db) (fire_version g) (fire_schedule g)"
    using assms(1) by (intro pendings_skip) (auto simp: plans_due_def)
  moreover have "version_id u \<in> fired fires \<or> (\<forall>g \<in> set fires. fire_time g < w')"
    if u: "u \<in> set (versions (skip_activation (fire_version f) now db))" "version_active_at u = None" "scheduled_activation_at u = Some w'" for u w'
    using skipped_version [OF u(1,3)] u(2,3) assms(1) by (auto simp: plans_due_def)
  ultimately show "plans_due fires (skip_activation (fire_version f) now db)" using assms(1) by (auto simp: plans_due_def)
  have "schedule_key w' u < schedule_key (fire_schedule l) v"
    if u: "u \<in> set (versions (skip_activation (fire_version f) now db))" "v \<in> set (versions (skip_activation (fire_version f) now db))"
      "version_id u \<in> fired fires" "version_id u \<noteq> fire_version l" "version_id v = fire_version l" "scheduled_activation_at u = Some w'" for u v w'
  proof -
    obtain v0 where v0: "v0 \<in> set (versions db)" "v = unscheduled {fire_version f} v0" using u(2) by auto
    have "schedule_key w' u < schedule_key (fire_schedule l) v0"
      using assms(2) skipped_version [OF u(1,6)] u(3-6) v0 unfolding last_plan_def by simp
    moreover have "version_created_at v = version_created_at v0" "version_id v = version_id v0" by (simp_all add: v0(2) unscheduled_def)
    ultimately show ?thesis by (simp add: schedule_key_def)
  qed
  then show "last_plan fires l (skip_activation (fire_version f) now db)" unfolding last_plan_def by blast
  show "not_published_since w (skip_activation (fire_version f) now db)" using assms(3) by (auto simp: not_published_since_def)
qed

lemma pending_published:
  assumes "pending db vid w" "vid \<noteq> vid'"
  shows "pending ((published vid' keep fresh actor now db)\<lparr>histories := hs\<rparr>) vid w"
proof -
  obtain u where u: "u \<in> set (versions db)" "version_id u = vid" "is_version_draft u" "scheduled_activation_at u = Some w"
    using assms(1) by (auto simp: pending_def)
  obtain n where "versions (published vid' keep fresh actor now db) = map (\<lambda>v. stamped_version vid' now n (closed_version actor now v)) (versions db)"
    using published_versions(1) by blast
  moreover have "stamped_version vid' now n (closed_version actor now u) = u" 
    using u assms(2) by (simp add: stamped_version_def closed_version_def is_version_active_def is_version_draft_def)
  ultimately have "u \<in> set (versions (published vid' keep fresh actor now db))" using u(1) by (auto intro!: image_eqI [of _ _ u])
  then show ?thesis using u by (auto simp: pending_def)
qed

text \<open>The winning fire publishes, and the later ones are superseded by the board it opened.\<close>

lemma pendings_published:
  assumes "vid \<notin> fired fires" "\<forall>g \<in> set fires. pending db (fire_version g) (fire_schedule g)"
  shows "\<forall>g \<in> set fires. pending ((published vid keep fresh actor now db)\<lparr>histories := hs\<rparr>) (fire_version g) (fire_schedule g)"
proof
  fix g assume g: "g \<in> set fires"
  then have "fire_version g \<in> fired fires" by simp
  then have "fire_version g \<noteq> vid" using assms(1) by metis
  then show "pending ((published vid keep fresh actor now db)\<lparr>histories := hs\<rparr>) (fire_version g) (fire_schedule g)"
    using assms(2) g by (intro pending_published) simp_all
qed

definition settled_by :: "fire list \<Rightarrow> fire \<Rightarrow> string option \<Rightarrow> int \<Rightarrow> snapshot_version \<Rightarrow> snapshot_version" where
  "settled_by fires l actor n u =
     unscheduled (fired fires) (stamped_version (fire_version l) (fire_time l) n (closed_version actor (fire_time l) u))"

lemma winner_first:
  assumes ok: "snapshots_ok db" and board: "shows_board b (snapshots db)" and cov: "covered db"
    and fresh: "fresh_snapshots fresh (fire_version l) db" and due: "plans_due (l # fires) db" "last_plan (l # fires) l db"
    and current: "not_published_since (fire_schedule l) db"
  shows "\<exists>db' n. rfold (run_fire fresh hid actor) db (l # fires) = Inr db' \<and> versions db' = map (settled_by (l # fires) l actor n) (versions db)"
proof -
  have distinct: "fire_version l \<notin> fired fires" "distinct (map fire_version fires)" using due(1) by (simp_all add: plans_due_def)
  obtain v where v: "v \<in> set (versions db)" "version_id v = fire_version l" "is_version_draft v"
    using due(1) by (auto simp: plans_due_def pending_def)
  note fresh' = fresh [folded v(2)]
  let ?z = "published (version_id v) (keeps_active_missing v) fresh actor (fire_time l) db"
  have "supersede_reason v (Some (fire_schedule l)) (fire_time l) db = Inr None" by (rule last_goes_live [OF ok due current v(1,2)])
  then obtain hs where "activate_stock_report_snapshot_version (version_id v) False (Some (Some (fire_schedule l))) fresh (hid (fire_time l)) actor
      (fire_time l) db = Inr (?z\<lparr>histories := histories db @ hs\<rparr>, None)"
    using activation_published [OF ok board cov v(1,3) fresh', where expected = "Some (Some (fire_schedule l))" and now = "fire_time l"
        and actor = actor and hid = "hid (fire_time l)" and keep = False] by auto
  then have run: "run_fire fresh hid actor db l = Inr (?z\<lparr>histories := histories db @ hs\<rparr>)"
    by (simp add: run_fire_def handle_activate_stock_report_snapshot_version_def v(2))
  have z: "snapshots_ok (?z\<lparr>histories := histories db @ hs\<rparr>)" using published_ok(1) [OF ok board cov v(1,3) fresh'] by simp
  obtain n where n: "versions ?z = map (\<lambda>u. stamped_version (fire_version l) (fire_time l) n (closed_version actor (fire_time l) u)) (versions db)"
    using published_versions(1) v(2) by metis
  obtain a where a: "List.find is_version_active (versions ?z) = Some a" "version_id a = version_id v"
    using find_active [OF published_active [OF ok v(1,3)]] by blast
  have a': "List.find is_version_active (versions (?z\<lparr>histories := histories db @ hs\<rparr>)) = Some a" using a(1) by simp
  have "version_active_at a = Some (fire_time l)" using find_Some_in [OF a(1)] a(2) v(2) unfolding n by auto
  then have later: "\<forall>g \<in> set fires. fire_schedule g < the (version_active_at a)" using due(1) by (simp add: plans_due_def)
  have "\<forall>g \<in> set fires. pending (?z\<lparr>histories := histories db @ hs\<rparr>) (fire_version g) (fire_schedule g)"
    using due(1) distinct(1) v(2) by (intro pendings_published) (simp_all add: plans_due_def)
  from superseded_fires [OF z a' later distinct(2) this, of fresh hid actor]
  obtain db' where db': "rfold (run_fire fresh hid actor) (?z\<lparr>histories := histories db @ hs\<rparr>) fires = Inr db'"
      "versions db' = map (unscheduled (fired fires)) (versions ?z)" by auto
  have "unscheduled (fired fires) (stamped_version (fire_version l) (fire_time l) n (closed_version actor (fire_time l) u))
      = settled_by (l # fires) l actor n u" for u
    by (auto simp: settled_by_def unscheduled_def stamped_version_def)
  then show ?thesis using run db' n by (intro exI [of _ db'] exI [of _ n]) simp
qed

lemma earlier_skipped:
  assumes ok: "snapshots_ok db" and due: "plans_due (f # fires) db" "last_plan (f # fires) l db" and l: "l \<in> set fires"
  shows "run_fire fresh hid actor db f = Inr (skip_activation (fire_version f) (fire_time f) db)" "fire_version f \<noteq> fire_version l"
proof -
  have "fire_version f \<notin> fired fires" using due(1) by (simp add: plans_due_def)
  then show other: "fire_version f \<noteq> fire_version l" using l by auto
  obtain v where v: "v \<in> set (versions db)" "version_id v = fire_version l" "is_version_draft v"
      "scheduled_activation_at v = Some (fire_schedule l)"
    using due(1) l by (auto simp: plans_due_def pending_def)
  have pending: "pending db (fire_version f) (fire_schedule f)" using due(1) by (simp add: plans_due_def)
  have "schedule_key (fire_schedule f) u < schedule_key (fire_schedule l) v"
    if u: "u \<in> set (versions db)" "version_id u = fire_version f" for u
    using pending_unique [OF ok pending u] due(2) u v other unfolding last_plan_def by simp
  moreover have "fire_schedule l < fire_time f" using due(1) l by (simp add: plans_due_def)
  ultimately show "run_fire fresh hid actor db f = Inr (skip_activation (fire_version f) (fire_time f) db)"
    using v other by (intro fire_skipped [OF ok pending] disjI2 bexI [of _ v] exI [of _ "fire_schedule l"]) auto
qed

lemma unscheduled_commutes:
  "closed_version actor t (unscheduled vids u) = unscheduled vids (closed_version actor t u)"
  "stamped_version vid t n (unscheduled vids u) = unscheduled vids (stamped_version vid t n u)"
  "unscheduled vids (unscheduled vids' u) = unscheduled (vids \<union> vids') u"
  unfolding closed_version_def stamped_version_def unscheduled_simps by (simp_all add: unscheduled_def)

lemma settled_skipped: "settled_by fires l actor n (unscheduled {fire_version f} u) = settled_by (f # fires) l actor n u"
  by (simp add: settled_by_def unscheduled_commutes)

lemma fires_publish_last:
  assumes "snapshots_ok db" "shows_board b (snapshots db)" "covered db" "fresh_snapshots fresh (fire_version l) db"
    "plans_due fires db" "l \<in> set fires" "last_plan fires l db" "not_published_since (fire_schedule l) db"
  shows "\<exists>db' n. rfold (run_fire fresh hid actor) db fires = Inr db' \<and> versions db' = map (settled_by fires l actor n) (versions db)"
  using assms
proof (induction fires arbitrary: db)
  case (Cons f fires)
  note prems = Cons.prems
  show ?case
  proof (cases "f = l")
    case True
    then show ?thesis using winner_first [OF prems(1-4)] prems(5,7,8) by blast
  next
    case False
    let ?skip = "skip_activation (fire_version f) (fire_time f) db"
    have l: "l \<in> set fires" using prems(6) False by simp
    note skipped = earlier_skipped [OF prems(1,5,7) l] and due = plans_due_skip [OF prems(5,7,8), of "fire_time f"]
    have "shows_board b (snapshots ?skip)" "covered ?skip" "fresh_snapshots fresh (fire_version l) ?skip"
      using prems(2-4) by (simp_all add: skip_keeps(2) [OF prems(1)] fresh_snapshots_def)
    from Cons.IH [OF skip_keeps(1) [OF prems(1)] this due(1) l due(2,3)] obtain db' n where
      "rfold (run_fire fresh hid actor) ?skip fires = Inr db'" "versions db' = map (settled_by fires l actor n) (versions ?skip)" by blast
    then show ?thesis using skipped by (intro exI [of _ db'] exI [of _ n]) (simp add: comp_def settled_skipped)
  qed
qed simp

text \<open>C28: When the scheduled activations of all the drafts that are due run, in any order and at any times after
  their schedules, the draft planned last goes live, if no board was published since its schedule; every other
  draft stays a draft with its schedule cleared, and no task of them fails. Nothing depends on the order.\<close>

theorem scheduled_fires_publish_last:
  assumes "snapshots_ok db" "shows_board b (snapshots db)" "covered db" "fresh_snapshots fresh (fire_version l) db"
    "plans_due fires db" "l \<in> set fires" "last_plan fires l db" "not_published_since (fire_schedule l) db"
  shows "\<exists>db'. rfold (run_fire fresh hid actor) db fires = Inr db'
    \<and> map version_id (versions db') = map version_id (versions db)
    \<and> (\<forall>v \<in> set (versions db'). is_version_active v \<longleftrightarrow> version_id v = fire_version l)
    \<and> (\<forall>v \<in> set (versions db'). version_id v \<in> fired fires \<longrightarrow> scheduled_activation_at v = None
         \<and> (version_id v \<noteq> fire_version l \<longrightarrow> is_version_draft v))"
proof -
  have draft: "is_version_draft u" if "u \<in> set (versions db)" "version_id u \<in> fired fires" for u
    using assms(5) that pending_unique [OF assms(1) _ that(1)] by (auto simp: plans_due_def)
  have l: "fire_version l \<in> fired fires" using assms(6) by simp
  obtain db' n where db': "rfold (run_fire fresh hid actor) db fires = Inr db'" "versions db' = map (settled_by fires l actor n) (versions db)"
    using fires_publish_last [OF assms, of hid actor] by blast
  have "(is_version_active (settled_by fires l actor n u) \<longleftrightarrow> version_id (settled_by fires l actor n u) = fire_version l)
      \<and> version_id (settled_by fires l actor n u) = version_id u
      \<and> (version_id u \<in> fired fires \<longrightarrow> scheduled_activation_at (settled_by fires l actor n u) = None
         \<and> (version_id u \<noteq> fire_version l \<longrightarrow> is_version_draft (settled_by fires l actor n u)))"
    if u: "u \<in> set (versions db)" for u
    using draft [OF u] l by (auto simp: settled_by_def is_version_active_def is_version_draft_def)
  then show ?thesis using db' by (intro exI [of _ db']) (simp add: comp_def cong: map_cong)
qed

definition planned_version :: "string \<Rightarrow> int \<Rightarrow> snapshot_version" where
  "planned_version vid w = (board_version vid None)\<lparr>scheduled_activation_at := Some w\<rparr>"

definition planned_store :: stock_db where
  "planned_store = board_store\<lparr>versions := [board_version ''v'' (Some 5), planned_version ''d'' 7, planned_version ''e'' 8]\<rparr>"

theorem scheduled_fires_publish_last_witness:
  "\<exists>db'. rfold (run_fire board_fresh (\<lambda>_. id) (Some ''u'')) planned_store
      [\<lparr>fire_version = ''e'', fire_schedule = 8, fire_time = 10\<rparr>, \<lparr>fire_version = ''d'', fire_schedule = 7, fire_time = 9\<rparr>] = Inr db'
    \<and> (\<forall>v \<in> set (versions db'). is_version_active v = (version_id v = ''e''))"
proof -
  let ?e = "\<lparr>fire_version = ''e'', fire_schedule = 8, fire_time = 10\<rparr>" and ?d = "\<lparr>fire_version = ''d'', fire_schedule = 7, fire_time = 9\<rparr>"
  have "snapshots_ok planned_store"
    by (simp add: snapshots_ok_def sound_snapshot_def is_version_active_def planned_store_def planned_version_def board_simps)
  moreover have "shows_board board_lists (snapshots planned_store)" using board_store_shown by (simp add: planned_store_def)
  moreover have "covered planned_store" using board_store_covered by (simp add: planned_store_def covered_def its_row_def row_of_def)
  moreover have "fresh_snapshots board_fresh (fire_version ?e) planned_store"
    using board_fresh_ok by (simp add: planned_store_def fresh_snapshots_def)
  moreover have "plans_due [?e, ?d] planned_store" "last_plan [?e, ?d] ?e planned_store" "not_published_since (fire_schedule ?e) planned_store"
    by (simp_all add: plans_due_def pending_def last_plan_def schedule_key_def not_published_since_def is_version_draft_def is_version_active_def
        planned_store_def planned_version_def board_simps)
  ultimately have "\<exists>db'. rfold (run_fire board_fresh (\<lambda>_. id) (Some ''u'')) planned_store [?e, ?d] = Inr db'
    \<and> map version_id (versions db') = map version_id (versions planned_store)
    \<and> (\<forall>v \<in> set (versions db'). is_version_active v \<longleftrightarrow> version_id v = fire_version ?e)
    \<and> (\<forall>v \<in> set (versions db'). version_id v \<in> fired [?e, ?d] \<longrightarrow> scheduled_activation_at v = None
         \<and> (version_id v \<noteq> fire_version ?e \<longrightarrow> is_version_draft v))"
    by (intro scheduled_fires_publish_last) simp_all
  then obtain db' where "rfold (run_fire board_fresh (\<lambda>_. id) (Some ''u'')) planned_store [?e, ?d] = Inr db'"
      "\<forall>v \<in> set (versions db'). is_version_active v \<longleftrightarrow> version_id v = fire_version ?e" by (elim exE conjE) (rule that; assumption)
  then show ?thesis by (intro exI [of _ db']) simp
qed

end
