(* ===== verification/StockBoardHistory.thy ===== *)
theory StockBoardHistory
  imports StockSchedules StockMerge
begin

text \<open>
  Histories of the versions and the board of a stock report: the lemmas \<open>..._keeps_sound\<close> show that each command
  of \<open>services/commands/stock_report\<close> on the versions, the missing and requested quantities, the priorities and
  the positions keeps the store sound (unique keys, one running board, contiguous positions, missing quantities
  under their ceilings, one pending scheduler per planned draft), and \<open>board_history\<close> composes them. The soundness
  of a refresh, an activation and a creation rests on the lemma \<open>rows_join\<close>, that of an edit on
  \<open>target_checked\<close>.
\<close>

section \<open>What every command keeps\<close>

text \<open>An active scheduler belongs to a draft, at the date in its column, and is the only one of that draft.\<close>

definition schedules_ok :: "stock_db \<Rightarrow> bool" where
  "schedules_ok db \<longleftrightarrow>
     (\<forall>c \<in> set (schedulers db). scheduler_state c = SchedulerACTIVE \<longrightarrow> (\<exists>v \<in> set (versions db). version_id v = scheduler_version_id c
        \<and> is_version_draft v \<and> scheduled_activation_at v = Some (scheduled_for c)))
     \<and> distinct (map scheduler_version_id (filter (\<lambda>c. scheduler_state c = SchedulerACTIVE) (schedulers db)))
     \<and> (\<forall>v \<in> set (versions db). scheduled_activation_at v \<noteq> None \<longrightarrow> is_version_draft v)"

definition board_sound :: "stock_db \<Rightarrow> bool" where
  "board_sound db \<longleftrightarrow> snapshots_ok db \<and> covered db \<and> (\<exists>b. shows_board b (snapshots db)) \<and> schedules_ok db"

lemma board_soundI: "snapshots_ok db \<Longrightarrow> covered db \<Longrightarrow> shows_board b (snapshots db) \<Longrightarrow> schedules_ok db \<Longrightarrow> board_sound db"
  by (auto simp: board_sound_def)

lemma board_soundE:
  assumes "board_sound db"
  obtains b where "snapshots_ok db" "covered db" "shows_board b (snapshots db)" "schedules_ok db"
  using assms by (auto simp: board_sound_def)

lemma board_sound_histories [simp]: "board_sound (db\<lparr>histories := hs\<rparr>) = board_sound db"
  by (simp add: board_sound_def schedules_ok_def)

text \<open>The missing quantities after a rewriting of the snapshots.\<close>

definition same_cover :: "item_snapshot \<Rightarrow> item_snapshot \<Rightarrow> bool" where
  "same_cover s s' \<longleftrightarrow> snapshot_missing s' = snapshot_missing s \<and> snapshot_row_id s' = snapshot_row_id s
     \<and> (is_snapshot_active s' \<longrightarrow> is_snapshot_active s \<and> (\<forall>r. snapshot_ceiling s' r = snapshot_ceiling s r))"

lemma same_cover_refl [simp]: "same_cover s s" by (simp add: same_cover_def)

lemma coveredI:
  assumes "covered db" "stock_rows db' = stock_rows db"
    "\<And>s'. s' \<in> set (snapshots db') \<Longrightarrow> snapshot_missing s' = None \<or> snapshot_missing s' = Some 0 \<or> (\<exists>s \<in> set (snapshots db). same_cover s s')"
  shows "covered db'"
  unfolding covered_def
proof (intro ballI allI impI)
  fix s' m assume s': "s' \<in> set (snapshots db')" "snapshot_missing s' = Some m"
  consider "m = 0" | s where "s \<in> set (snapshots db)" "same_cover s s'" using assms(3) [OF s'(1)] s'(2) by auto
  then show "0 \<le> m \<and> (is_snapshot_active s' \<longrightarrow> m \<le> snapshot_ceiling s' (its_row db' s'))"
  proof cases
    case 1
    then show ?thesis using ceiling_nonneg by simp
  next
    case 2
    then have "its_row db' s' = its_row db s" using assms(2) by (intro its_row_cong) (simp_all add: same_cover_def)
    then show ?thesis using coveredD [OF assms(1) 2(1)] 2(2) s'(2) by (auto simp: same_cover_def)
  qed
qed

lemma covered_kept: "covered db \<Longrightarrow> stock_rows db' = stock_rows db \<Longrightarrow> snapshots db' = snapshots db \<Longrightarrow> covered db'"
  by (rule coveredI [of db]) (auto intro: same_cover_refl)

text \<open>Schedules.\<close>

lemma schedules_cancelled:
  assumes "schedules_ok db" "schedulers db' = schedulers (cancel_activation_schedulers vid now db)"
    "\<And>v. v \<in> set (versions db) \<Longrightarrow> version_id v \<noteq> vid \<Longrightarrow> is_version_draft v \<Longrightarrow> v \<in> set (versions db')"
    "\<And>v. v \<in> set (versions db') \<Longrightarrow> scheduled_activation_at v \<noteq> None \<Longrightarrow> is_version_draft v"
  shows "schedules_ok db' \<and> (\<forall>c \<in> set (schedulers db'). scheduler_state c = SchedulerACTIVE \<longrightarrow> scheduler_version_id c \<noteq> vid)"
proof -
  let ?f = "\<lambda>c. if active_scheduler vid c then c\<lparr>scheduler_state := SchedulerCANCELED, scheduler_updated_at := Some now\<rparr> else c"
  have sch: "schedulers db' = map ?f (schedulers db)"
    by (simp add: assms(2) cancel_activation_schedulers_def update_where_def)
  have still: "scheduler_state (?f c) = SchedulerACTIVE \<longleftrightarrow> scheduler_state c = SchedulerACTIVE \<and> scheduler_version_id c \<noteq> vid" for c
    by (auto simp: active_scheduler_def)
  have kept: "map ?f (filter (\<lambda>c. scheduler_state c = SchedulerACTIVE \<and> scheduler_version_id c \<noteq> vid) (schedulers db))
      = filter (\<lambda>c. scheduler_state c = SchedulerACTIVE \<and> scheduler_version_id c \<noteq> vid) (schedulers db)"
    by (rule map_idI) (auto simp: active_scheduler_def)
  have live: "filter (\<lambda>c. scheduler_state c = SchedulerACTIVE) (map ?f (schedulers db))
      = filter (\<lambda>c. scheduler_state c = SchedulerACTIVE \<and> scheduler_version_id c \<noteq> vid) (schedulers db)"
    unfolding filter_map comp_def still kept ..
  have "distinct (map scheduler_version_id (filter (\<lambda>c. scheduler_version_id c \<noteq> vid)
      (filter (\<lambda>c. scheduler_state c = SchedulerACTIVE) (schedulers db))))"
    by (rule distinct_map_filter) (use assms(1) in \<open>simp add: schedules_ok_def\<close>)
  moreover have "\<exists>v \<in> set (versions db'). version_id v = scheduler_version_id c \<and> is_version_draft v \<and> scheduled_activation_at v = Some (scheduled_for c)"
    if c: "c \<in> set (schedulers db)" "scheduler_state c = SchedulerACTIVE" "scheduler_version_id c \<noteq> vid" for c
  proof -
    obtain v where "v \<in> set (versions db)" "version_id v = scheduler_version_id c" "is_version_draft v" "scheduled_activation_at v = Some (scheduled_for c)"
      using assms(1) c by (auto simp: schedules_ok_def)
    then show ?thesis using assms(3) [of v] c(3) by auto
  qed
  moreover have origin: "c \<in> set (schedulers db) \<and> scheduler_version_id c \<noteq> vid"
    if c: "c \<in> set (schedulers db')" "scheduler_state c = SchedulerACTIVE" for c
  proof -
    obtain c0 where c0: "c0 \<in> set (schedulers db)" "c = ?f c0" using c(1) unfolding sch by auto
    then have "scheduler_version_id c0 \<noteq> vid" "scheduler_state c0 = SchedulerACTIVE" using still c(2) by metis+
    then show ?thesis using c0 by (simp add: active_scheduler_def)
  qed
  ultimately have "schedules_ok db'"
    unfolding schedules_ok_def using assms(4) by (intro conjI ballI impI) (auto simp: sch live conj_commute simp del: set_map)
  then show ?thesis using origin by blast
qed

lemma schedules_kept:
  assumes "schedules_ok db" "schedulers db' = schedulers db"
    "\<And>v. v \<in> set (versions db) \<Longrightarrow> is_version_draft v \<Longrightarrow> scheduled_activation_at v \<noteq> None \<Longrightarrow>
       \<exists>v' \<in> set (versions db'). version_id v' = version_id v \<and> is_version_draft v' \<and> scheduled_activation_at v' = scheduled_activation_at v"
    "\<And>v. v \<in> set (versions db') \<Longrightarrow> scheduled_activation_at v \<noteq> None \<Longrightarrow> is_version_draft v"
  shows "schedules_ok db'"
proof -
  have "\<exists>v' \<in> set (versions db'). version_id v' = scheduler_version_id c \<and> is_version_draft v' \<and> scheduled_activation_at v' = Some (scheduled_for c)"
    if c: "c \<in> set (schedulers db)" "scheduler_state c = SchedulerACTIVE" for c
  proof -
    obtain v where v: "v \<in> set (versions db)" "version_id v = scheduler_version_id c" "is_version_draft v" "scheduled_activation_at v = Some (scheduled_for c)"
      using assms(1) c by (auto simp: schedules_ok_def)
    show ?thesis using assms(3) [OF v(1,3)] v by auto
  qed
  then show ?thesis using assms(1,2,4) by (simp add: schedules_ok_def)
qed

lemma schedules_created:
  assumes "schedules_ok db" "v \<in> set (versions db)" "is_version_draft v"
    "\<forall>c \<in> set (schedulers db). scheduler_state c = SchedulerACTIVE \<longrightarrow> scheduler_version_id c \<noteq> version_id v"
  shows "schedules_ok (create_activation_scheduler v user db)"
  using assms by (cases "scheduled_activation_at v") (auto simp: create_activation_scheduler_def schedules_ok_def)

lemma create_scheduler_frame [simp]:
  "snapshots (create_activation_scheduler v user db) = snapshots db" "versions (create_activation_scheduler v user db) = versions db"
  "stock_rows (create_activation_scheduler v user db) = stock_rows db"
  by (simp_all add: create_activation_scheduler_def split: option.splits)

lemma cancel_frame [simp]:
  "snapshots (cancel_activation_schedulers vid now db) = snapshots db" "versions (cancel_activation_schedulers vid now db) = versions db"
  "stock_rows (cancel_activation_schedulers vid now db) = stock_rows db"
  by (simp_all add: cancel_activation_schedulers_def)

lemma snapshots_ok_cong:
  "stock_rows db' = stock_rows db \<Longrightarrow> versions db' = versions db \<Longrightarrow> snapshots db' = snapshots db \<Longrightarrow> snapshots_ok db' = snapshots_ok db"
  by (simp add: snapshots_ok_def sound_snapshot_def)
section \<open>Versions\<close>

lemma closed_same_cover: "same_cover s (closed_of db actor now s)"
  by (auto simp: same_cover_def closed_of_def copy_counters_def is_snapshot_active_def)

lemma board_closed_sound:
  assumes "board_sound db"
  shows "board_sound (board_closed actor now db)" "\<forall>v \<in> set (versions (board_closed actor now db)). \<not> is_version_active v"
proof -
  obtain b where b: "snapshots_ok db" "covered db" "shows_board b (snapshots db)" "schedules_ok db" using assms by (rule board_soundE)
  have "covered (board_closed actor now db)"
    by (rule coveredI [OF b(2)]) (auto intro: closed_same_cover)
  moreover have "schedules_ok (board_closed actor now db)"
  proof (rule schedules_kept [OF b(4)])
    fix v assume v: "v \<in> set (versions db)" "is_version_draft v"
    then show "\<exists>v' \<in> set (versions (board_closed actor now db)). version_id v' = version_id v \<and> is_version_draft v'
        \<and> scheduled_activation_at v' = scheduled_activation_at v" using closed_draft by blast
  next
    fix v assume "v \<in> set (versions (board_closed actor now db))" "scheduled_activation_at v \<noteq> None"
    then show "is_version_draft v" using b(4) by (auto simp: schedules_ok_def closed_version_def is_version_active_def is_version_draft_def split: if_splits)
  qed simp
  ultimately show "board_sound (board_closed actor now db)"
    using board_closed_ok [OF b(1)] board_closed_shown [OF b(1,3)] by (intro board_soundI)
qed auto

text \<open>A version with the live rows joins.\<close>

definition fresh_version :: "string \<Rightarrow> stock_db \<Rightarrow> bool" where
  "fresh_version vid db \<longleftrightarrow> (\<forall>v \<in> set (versions db). version_id v \<noteq> vid)"

lemma version_opened:
  assumes sound: "board_sound db" and new: "fresh_version (version_id v) db" "fresh_snapshots fresh (version_id v) db"
    and v: "version_closed_at v = None" "is_version_active v \<Longrightarrow> \<forall>w \<in> set (versions db). \<not> is_version_active w"
      "scheduled_activation_at v \<noteq> None \<Longrightarrow> is_version_draft v"
    and q: "\<And>r. (q r = None) = (version_active_at v = None)" "version_active_at v \<noteq> None \<Longrightarrow> m \<noteq> None" "m = None \<or> m = Some 0"
  shows "board_sound (db\<lparr>versions := versions db @ [v], snapshots := snapshots db
    @ map (\<lambda>r. new_snapshot (fresh (version_id v) (row_id r)) (version_id v) r (q r) m (version_active_at v)) (live_rows db)\<rparr>)"
    (is "board_sound ?db")
proof -
  obtain b where b: "snapshots_ok db" "covered db" "shows_board b (snapshots db)" "schedules_ok db" using sound by (rule board_soundE)
  let ?d = "db\<lparr>versions := versions db @ [v]\<rparr>"
  have d: "snapshots_ok ?d" using new(1) v(2) by (intro version_added [OF b(1)]) (auto simp: fresh_version_def)
  have rows: "live_rows db = live_rows ?d" by (simp add: live_rows_def)
  have absent: "snapshot_version_id s \<noteq> version_id v" if "s \<in> set (snapshots db)" for s
    using soundD [OF b(1) that] new(1) by (auto simp: sound_snapshot_def fresh_version_def)
  let ?new = "map (\<lambda>r. new_snapshot (fresh (version_id v) (row_id r)) (version_id v) r (q r) m (version_active_at v)) (live_rows db)"
  have "snapshots_ok (?d\<lparr>snapshots := snapshots ?d @ ?new\<rparr>) \<and> shows_board b (snapshots ?d @ ?new)"
  proof (rule rows_join [OF d _ _ _ refl v(1) _ _ _ q(1,2)])
    show "distinct (map row_id (live_rows db))" using b(1) by (rule live_rows_distinct)
    show "fresh_snapshots fresh (version_id v) ?d" using new(2) by (simp add: fresh_snapshots_def)
  qed (use b(3) absent in auto)
  moreover have "covered ?db"
  proof (rule coveredI [OF b(2)])
    fix s assume "s \<in> set (snapshots ?db)"
    then have "s \<in> set (snapshots db) \<or> snapshot_missing s = m" by auto
    then show "snapshot_missing s = None \<or> snapshot_missing s = Some 0 \<or> (\<exists>u \<in> set (snapshots db). same_cover u s)"
      using q(3) same_cover_refl by blast
  qed simp
  moreover have "schedules_ok ?db" by (rule schedules_kept [OF b(4)]) (use b(4) v(3) in \<open>auto simp: schedules_ok_def\<close>)
  ultimately show ?thesis by (intro board_soundI [of _ b]) simp_all
qed

lemma create_keeps_sound:
  assumes sound: "board_sound db" and new: "fresh_version vid db" "fresh_snapshots fresh vid db"
    and run: "create_stock_report_snapshot_version req vid fresh actor now db = Inr db'"
  shows "board_sound db'"
proof -
  let ?v = "\<lparr>version_id = vid, version_title = cv_title req, version_active_at = None, version_closed_at = None,
    version_closed_by_id = None, scheduled_activation_at = None, keeps_active_missing = False,
    snapshot_count = int (length (live_rows db)), version_created_at = now, version_created_by_id = actor\<rparr>"
  show ?thesis
  proof (cases "cv_draft req")
    case True
    let ?draft = "?v\<lparr>scheduled_activation_at := cv_scheduled_activation_at req, keeps_active_missing := cv_keeps_active_missing req\<rparr>"
    let ?d = "db\<lparr>versions := versions db @ [?draft], snapshots := snapshots db @ map (draft_snapshot fresh vid) (live_rows db)\<rparr>"
    have "board_sound ?d"
      using version_opened [OF sound, where v = ?draft and fresh = fresh and q = "\<lambda>_. None" and m = None] new
      by (simp add: draft_snapshot_new [abs_def] is_version_draft_def is_version_active_def)
    moreover have "schedules_ok (create_activation_scheduler ?draft actor ?d)"
    proof (rule schedules_created)
      show "schedules_ok ?d" using \<open>board_sound ?d\<close> by (simp add: board_sound_def)
      have "schedules_ok db" using sound by (simp add: board_sound_def)
      then show "\<forall>c \<in> set (schedulers ?d). scheduler_state c = SchedulerACTIVE \<longrightarrow> scheduler_version_id c \<noteq> version_id ?draft"
        using new(1) by (auto simp: schedules_ok_def fresh_version_def)
    qed (simp_all add: is_version_draft_def)
    ultimately show ?thesis using run True
      by (auto simp: create_stock_report_snapshot_version_def Let_def board_sound_def snapshots_ok_def sound_snapshot_def covered_def
          its_row_def row_of_def)
  next
    case False
    let ?c = "board_closed actor now db"
    let ?active = "?v\<lparr>version_active_at := Some now\<rparr>"
    have rows: "live_rows ?c = live_rows db" by (simp add: live_rows_def)
    have "snapshots_ok db" using sound by (simp add: board_sound_def)
    have "fresh_version vid ?c" using new(1) by (simp add: fresh_version_def image_image)
    then have "board_sound (?c\<lparr>versions := versions ?c @ [?active], snapshots := snapshots ?c @ map (board_snapshot_of fresh vid now) (live_rows ?c)\<rparr>)"
      using version_opened [OF board_closed_sound(1) [OF sound, where actor = actor and now = now], where v = ?active and fresh = fresh and q = "\<lambda>r. Some (row_requested r)" and m = "Some 0"]
        new(2) board_closed_sound(2) [OF sound, of actor now]
      by (simp add: board_snapshot_of_def [abs_def])
    then show ?thesis using run False
      by (simp add: create_stock_report_snapshot_version_def Let_def close_active_version_eq(1) [OF \<open>snapshots_ok db\<close>] rows)
  qed
qed
lemma slots_filter_version: "slots w p (filter (\<lambda>s. snapshot_version_id s \<noteq> vid) snaps) = (if w = vid then {} else slots w p snaps)"
  by (auto simp: slots_def in_group_def)

lemma sound_versions:
  assumes "sound_snapshot db s" "stock_rows db' = stock_rows db"
    "\<And>v. v \<in> set (versions db) \<Longrightarrow> version_id v = snapshot_version_id s \<Longrightarrow> v \<in> set (versions db')"
  shows "sound_snapshot db' s"
proof -
  from assms(1) obtain v r where v: "v \<in> set (versions db)" "version_id v = snapshot_version_id s" "version_active_at v = snapshot_active_at s"
      "version_closed_at v \<noteq> None \<longrightarrow> snapshot_closed_at s \<noteq> None" "r \<in> set (stock_rows db)" "row_id r = snapshot_row_id s"
      "snapshot_closed_at s \<noteq> None \<longrightarrow> version_closed_at v \<noteq> None \<or> row_is_deleted r" by (auto simp: sound_snapshot_def)
  show ?thesis unfolding sound_snapshot_def
    by (intro conjI bexI [of _ v] bexI [of _ r]) (use assms v in \<open>auto simp: sound_snapshot_def\<close>)
qed

lemma delete_keeps_sound:
  assumes sound: "board_sound db" and run: "delete_stock_report_snapshot_version vid now db = Inr db'"
  shows "board_sound db'"
proof -
  obtain b where b: "snapshots_ok db" "covered db" "shows_board b (snapshots db)" "schedules_ok db" using sound by (rule board_soundE)
  have db': "db' = (cancel_activation_schedulers vid now db)\<lparr>snapshots := filter (\<lambda>s. snapshot_version_id s \<noteq> vid) (snapshots db),
      versions := filter (\<lambda>v. version_id v \<noteq> vid) (versions db)\<rparr>"
    using run by (auto simp: delete_stock_report_snapshot_version_def Let_def)
  have "sound_snapshot db' s" if "s \<in> set (snapshots db)" "snapshot_version_id s \<noteq> vid" for s
    using that by (intro sound_versions [OF soundD [OF b(1) that(1)]]) (simp_all add: db')
  moreover have "length (filter is_version_active (filter (\<lambda>v. version_id v \<noteq> vid) (versions db))) \<le> 1"
  proof -
    have "filter is_version_active (filter (\<lambda>v. version_id v \<noteq> vid) (versions db))
        = filter (\<lambda>v. version_id v \<noteq> vid) (filter is_version_active (versions db))" by (simp add: conj_commute)
    then show ?thesis using b(1) le_trans [OF length_filter_le] by (metis snapshots_ok_def)
  qed
  ultimately have "snapshots_ok db'" using b(1) by (simp add: snapshots_ok_def db' distinct_map_filter)
  moreover have "covered db'" by (rule coveredI [OF b(2)]) (auto simp: db' intro: same_cover_refl)
  moreover have "shows_board (b(vid := \<lambda>_. [])) (snapshots db')"
    using b(3) by (simp add: shows_board_def db' slots_filter_version)
  moreover have "schedules_ok db'"
    using schedules_cancelled [OF b(4), of db' vid now] b(4) by (auto simp: db' schedules_ok_def)
  ultimately show ?thesis by (rule board_soundI)
qed

text \<open>The changes of a \<open>PATCH\<close>, as a function of the stored version.\<close>

definition patched :: "update_version_request \<Rightarrow> snapshot_version \<Rightarrow> snapshot_version" where
  "patched req v =
     (let v = (case uv_title req of None \<Rightarrow> v | Some x \<Rightarrow> v\<lparr>version_title := x\<rparr>);
          v = (case uv_scheduled_activation_at req of None \<Rightarrow> v | Some w \<Rightarrow> v\<lparr>scheduled_activation_at := w\<rparr>) in
      case uv_keeps_active_missing req of None \<Rightarrow> v | Some k \<Rightarrow> v\<lparr>keeps_active_missing := k\<rparr>)"

lemma patched_simps [simp]:
  "version_id (patched req v) = version_id v" "version_active_at (patched req v) = version_active_at v"
  "version_closed_at (patched req v) = version_closed_at v" "is_version_draft (patched req v) = is_version_draft v"
  "is_version_active (patched req v) = is_version_active v"
  "scheduled_activation_at (patched req v) = (case uv_scheduled_activation_at req of None \<Rightarrow> scheduled_activation_at v | Some w \<Rightarrow> w)"
  by (simp_all add: patched_def Let_def is_version_draft_def is_version_active_def split: option.splits)

lemma set_version_map:
  assumes "snapshots_ok db" "v \<in> set (versions db)"
  shows "set_version (version_id v) (\<lambda>_. f v) db = db\<lparr>versions := map (\<lambda>w. if version_id w = version_id v then f w else w) (versions db)\<rparr>"
proof -
  have "w = v" if "w \<in> set (versions db)" "version_id w = version_id v" for w
    using row_unique [of version_id "versions db" w v] assms that by (simp add: snapshots_ok_def)
  then have "map (\<lambda>w. if version_id w = version_id v then f v else w) (versions db)
      = map (\<lambda>w. if version_id w = version_id v then f w else w) (versions db)" by auto
  then show ?thesis by (simp add: set_version_def update_where_def)
qed

lemma update_keeps_sound:
  assumes sound: "board_sound db" and run: "update_stock_report_snapshot_version vid req actor now db = Inr db'"
  shows "board_sound db'"
proof -
  obtain b where b: "snapshots_ok db" "covered db" "shows_board b (snapshots db)" "schedules_ok db" using sound by (rule board_soundE)
  obtain v where v: "find_version vid db = Inr v" using run by (auto simp: update_stock_report_snapshot_version_def)
  then have v': "v \<in> set (versions db)" "version_id v = vid" by (auto dest: find_version_Inr)
  let ?f = "\<lambda>w. if version_id w = vid then patched req w else w"
  let ?d = "db\<lparr>versions := map ?f (versions db)\<rparr>"
  have stored: "set_version vid (\<lambda>_. patched req v) db = ?d" using set_version_map [OF b(1) v'(1), of "patched req"] v'(2) by simp
  have guard: "uv_scheduled_activation_at req = None \<or> is_version_draft v"
    and result: "db' = (if patched req v = v then db
      else if scheduled_activation_at (patched req v) \<noteq> scheduled_activation_at v then reschedule_activation (patched req v) actor now ?d else ?d)"
    using run by (auto simp: update_stock_report_snapshot_version_def v stored [symmetric] patched_def Let_def)
  have d: "snapshots_ok ?d" by (rule versions_mapped [OF b(1)]) simp_all
  have draft: "is_version_draft w" if w: "w \<in> set (versions ?d)" "scheduled_activation_at w \<noteq> None" for w
  proof -
    obtain u where u: "u \<in> set (versions db)" "w = ?f u" using w(1) by auto
    have "u = v" if "version_id u = vid" using row_unique [of version_id "versions db" u v] b(1) u(1) v' that by (simp add: snapshots_ok_def)
    then show ?thesis using w(2) guard u b(4) by (auto simp: schedules_ok_def split: if_splits option.splits)
  qed
  show ?thesis
  proof (cases "scheduled_activation_at (patched req v) = scheduled_activation_at v")
    case True
    have "schedules_ok ?d"
    proof (rule schedules_kept [OF b(4) _ _ draft])
      fix w assume w: "w \<in> set (versions db)" "is_version_draft w"
      have "w = v" if "version_id w = vid" using row_unique [of version_id "versions db" w v] b(1) w(1) v' that by (simp add: snapshots_ok_def)
      then have "scheduled_activation_at (?f w) = scheduled_activation_at w" using True by auto
      then show "\<exists>w' \<in> set (versions ?d). version_id w' = version_id w \<and> is_version_draft w' \<and> scheduled_activation_at w' = scheduled_activation_at w"
        using w by (intro bexI [of _ "?f w"]) auto
    qed simp_all
    then have "board_sound ?d" using d b(2,3) covered_kept [of db ?d] by (intro board_soundI [of _ b]) simp_all
    then show ?thesis using result sound True by (simp split: if_splits)
  next
    case False
    then have "is_version_draft v" using guard by (auto split: option.splits)
    let ?c = "cancel_activation_schedulers vid now ?d"
    have c: "schedules_ok ?c \<and> (\<forall>c \<in> set (schedulers ?c). scheduler_state c = SchedulerACTIVE \<longrightarrow> scheduler_version_id c \<noteq> vid)"
    proof (rule schedules_cancelled [OF b(4)])
      fix w assume "w \<in> set (versions db)" "version_id w \<noteq> vid"
      then show "w \<in> set (versions ?c)" by (auto intro!: image_eqI [of _ _ w])
    qed (use draft in \<open>simp_all add: cancel_activation_schedulers_def\<close>)
    have "patched req v \<in> set (versions ?c)" using v' by (auto intro!: image_eqI [of _ _ v])
    then have "schedules_ok (create_activation_scheduler (patched req v) actor ?c)"
      using c v'(2) \<open>is_version_draft v\<close> by (intro schedules_created) simp_all
    moreover have "snapshots_ok (create_activation_scheduler (patched req v) actor ?c)" using d by (subst snapshots_ok_cong [of _ ?d]) simp_all
    moreover have "covered (create_activation_scheduler (patched req v) actor ?c)" by (rule covered_kept [OF b(2)]) simp_all
    moreover have "shows_board b (snapshots (create_activation_scheduler (patched req v) actor ?c))" using b(3) by simp
    ultimately have "board_sound (create_activation_scheduler (patched req v) actor ?c)" by (intro board_soundI)
    then show ?thesis using result False v'(2) sound by (auto simp: reschedule_activation_def)
  qed
qed

lemma published_sound:
  assumes sound: "board_sound db" and v: "v \<in> set (versions db)" "is_version_draft v" and fresh: "fresh_snapshots fresh (version_id v) db"
  shows "board_sound (published (version_id v) keep fresh actor now db)"
proof -
  obtain b where b: "snapshots_ok db" "covered db" "shows_board b (snapshots db)" "schedules_ok db" using sound by (rule board_soundE)
  let ?z = "published (version_id v) keep fresh actor now db"
  obtain n where n: "versions ?z = map (\<lambda>w. stamped_version (version_id v) now n (closed_version actor now w)) (versions db)"
    using published_versions(1) by blast
  have "schedules_ok ?z \<and> (\<forall>c \<in> set (schedulers ?z). scheduler_state c = SchedulerACTIVE \<longrightarrow> scheduler_version_id c \<noteq> version_id v)"
  proof (rule schedules_cancelled [OF b(4) published_versions(2)])
    fix w assume w: "w \<in> set (versions db)" "version_id w \<noteq> version_id v" "is_version_draft w"
    then have "stamped_version (version_id v) now n (closed_version actor now w) = w"
      by (simp add: stamped_version_def closed_version_def is_version_active_def is_version_draft_def)
    then show "w \<in> set (versions ?z)" using w(1) unfolding n by (auto intro!: image_eqI [of _ _ w])
  next
    fix w assume "w \<in> set (versions ?z)" "scheduled_activation_at w \<noteq> None"
    then show "is_version_draft w" using b(4)
      by (auto simp: n schedules_ok_def stamped_version_def closed_version_def is_version_active_def is_version_draft_def split: if_splits)
  qed
  then show ?thesis using published_ok [OF b(1,3,2) v fresh] by (intro board_soundI) auto
qed

lemma skip_sound: 
  assumes "board_sound db"
  shows "board_sound (skip_activation vid now db)"
proof -
  obtain b where b: "snapshots_ok db" "covered db" "shows_board b (snapshots db)" "schedules_ok db" using assms by (rule board_soundE)
  have "schedules_ok (skip_activation vid now db) \<and> (\<forall>c \<in> set (schedulers (skip_activation vid now db)). scheduler_state c = SchedulerACTIVE
      \<longrightarrow> scheduler_version_id c \<noteq> vid)"
  proof (rule schedules_cancelled [OF b(4)])
    fix w assume "w \<in> set (versions db)" "version_id w \<noteq> vid"
    then show "w \<in> set (versions (skip_activation vid now db))" by (auto simp: unscheduled_other intro!: image_eqI [of _ _ w])
  qed (use b(4) in \<open>auto simp: schedules_ok_def skip_activation_def cancel_activation_schedulers_def set_version_def update_where_def
      unscheduled_def is_version_draft_def\<close>)
  then show ?thesis using skip_keeps [OF b(1)] b by (intro board_soundI [of _ b]) simp_all
qed

lemma activate_keeps_sound:
  assumes sound: "board_sound db" and fresh: "fresh_snapshots fresh vid db"
    and run: "activate_stock_report_snapshot_version vid keep expected fresh hid actor now db = Inr (db', skipped)"
  shows "board_sound db'"
proof -
  obtain b where b: "snapshots_ok db" "covered db" "shows_board b (snapshots db)" using sound by (rule board_soundE)
  obtain v r where v: "find_version vid db = Inr v" "is_version_draft v"
      "(case expected of None \<Rightarrow> Inr None | Some e \<Rightarrow> supersede_reason v e now db) = Inr r"
    using run by (auto simp: activate_stock_report_snapshot_version_def Let_def)
  have v': "v \<in> set (versions db)" "version_id v = vid" using v(1) by (auto dest: find_version_Inr)
  show ?thesis
  proof (cases r)
    case None
    have fresh': "fresh_snapshots fresh (version_id v) db" using fresh v'(2) by simp
    from activation_published [OF b(1,3,2) v'(1) v(2) fresh' v(3) [unfolded None], where keep = keep and actor = actor and hid = hid]
    show ?thesis using run published_sound [OF sound v'(1) v(2) fresh'] v'(2) by auto
  next
    case (Some reason)
    then show ?thesis using run v skip_sound [OF sound] sound
      by (cases reason) (auto simp: activate_stock_report_snapshot_version_def Let_def)
  qed
qed

lemma fire_keeps_sound:
  assumes "board_sound db" "fresh_snapshots fresh vid db"
    "handle_activate_stock_report_snapshot_version vid w fresh hid actor now db = Inr db'"
  shows "board_sound db'"
proof (cases "activate_stock_report_snapshot_version vid False (Some (Some w)) fresh hid actor now db")
  case (Inl e)
  then show ?thesis using assms(1,3) by (simp add: handle_activate_stock_report_snapshot_version_def split: if_splits)
next
  case (Inr x)
  then show ?thesis using activate_keeps_sound [OF assms(1,2)] assms(3)
    by (cases x) (auto simp: handle_activate_stock_report_snapshot_version_def)
qed
section \<open>The quantities and the positions\<close>

text \<open>What a command knows of its target once the locked read has been checked.\<close>

lemma target_checked:
  assumes ok: "snapshots_ok db" and t: "discover_target_snapshot rid vid db = Inr t"
    and checked: "check_locked_target t (List.find (\<lambda>s. snapshot_id s = snapshot_id (target_found t)) reread) db = Inr (v, s)"
    and reread: "set reread \<subseteq> set (snapshots db)"
  shows "s \<in> set (snapshots db)" "snapshot_row_id s = rid" "names_snapshot vid s" "v \<in> set (versions db)" "version_id v = snapshot_version_id s"
    "version_active_at v = snapshot_active_at s" "version_closed_at v = None"
    "r \<in> set (stock_rows db) \<Longrightarrow> row_id r = rid \<Longrightarrow> \<not> row_is_deleted r \<Longrightarrow> is_snapshot_open s"
proof -
  have found: "List.find (\<lambda>s. snapshot_id s = snapshot_id (target_found t)) reread = Some s"
    and v: "find_version (target_version_id t) db = Inr v" "version_closed_at v = None"
    and shortcut: "target_shortcut t \<longrightarrow> is_snapshot_active s"
    using checked by (auto simp: check_locked_target_def split: option.splits)
  have s: "s \<in> set (snapshots db)" "snapshot_id s = snapshot_id (target_found t)" using find_Some_in [OF found] reread by auto
  have t': "target_found t \<in> set (snapshots db)" "snapshot_row_id (target_found t) = rid" "snapshot_version_id (target_found t) = target_version_id t"
      "(case vid of None \<Rightarrow> target_shortcut t | Some w \<Rightarrow> snapshot_version_id (target_found t) = w)"
    using t by (auto simp: discover_target_snapshot_def load_active_snapshot_def load_version_snapshot_def split: option.splits dest!: find_Some_in)
  have same: "s = target_found t" using row_unique [of snapshot_id "snapshots db"] ok s t'(1) by (simp add: snapshots_ok_def)
  show "s \<in> set (snapshots db)" "snapshot_row_id s = rid" by (rule s(1)) (simp add: same t'(2))
  show "names_snapshot vid s" using t'(4) shortcut same by (auto simp: names_snapshot_def split: option.splits)
  show v': "v \<in> set (versions db)" "version_id v = snapshot_version_id s" using find_version_Inr [OF v(1)] t'(3) same by simp_all
  obtain w where w: "w \<in> set (versions db)" "version_id w = snapshot_version_id s" "version_active_at w = snapshot_active_at s"
    using snapshot_version [OF ok s(1)] by metis
  have "w = v" using row_unique [of version_id "versions db" w v] ok w v' by (simp add: snapshots_ok_def)
  then show "version_active_at v = snapshot_active_at s" "version_closed_at v = None" using w v by simp_all
  show "is_snapshot_open s" if r: "r \<in> set (stock_rows db)" "row_id r = rid" "\<not> row_is_deleted r"
  proof -
    obtain w r' where w: "w \<in> set (versions db)" "version_id w = snapshot_version_id s" "r' \<in> set (stock_rows db)" "row_id r' = snapshot_row_id s"
        "snapshot_closed_at s \<noteq> None \<longrightarrow> version_closed_at w \<noteq> None \<or> row_is_deleted r'"
      using soundD [OF ok s(1)] by (auto simp: sound_snapshot_def)
    have "w = v" "r' = r"
      using row_unique [of version_id "versions db" w v] row_unique [of row_id "stock_rows db" r' r] ok w v' r same t'(2)
      by (auto simp: snapshots_ok_def)
    then show ?thesis using w r v(2) by (auto simp: is_snapshot_open_def)
  qed
qed

lemma its_row_is: "snapshots_ok db \<Longrightarrow> r \<in> set (stock_rows db) \<Longrightarrow> snapshot_row_id s = row_id r \<Longrightarrow> its_row db s = r"
  by (rule its_row_live) simp_all

lemma write_snapshot_map:
  "write_snapshot sid vals actor now db = db\<lparr>snapshots := map (\<lambda>s. if snapshot_id s = sid
     then (vals s)\<lparr>snapshot_updated_at := Some now, snapshot_updated_by_id := actor\<rparr> else s) (snapshots db)\<rparr>"
  by (simp add: write_snapshot_def write_mover_def update_where_def)

lemma its_row_snapshots [simp]: "its_row (db\<lparr>snapshots := ss\<rparr>) = its_row db"
  by (simp add: its_row_def row_of_def fun_eq_iff)

lemma schedules_snapshots [simp]: "schedules_ok (db\<lparr>snapshots := ss\<rparr>) = schedules_ok db"
  by (simp add: schedules_ok_def)

lemma missing_keeps_sound:
  assumes sound: "board_sound db" and run: "set_stock_report_item_snapshot_missing_quantity rid vid target actor now db = Inr db'"
  shows "board_sound db'"
proof -
  obtain b where b: "snapshots_ok db" "covered db" "shows_board b (snapshots db)" "schedules_ok db" using sound by (rule board_soundE)
  obtain r t v s u where run': "lock_live_row rid db = Inr r" "discover_target_snapshot rid vid db = Inr t"
      "check_locked_target t (List.find (\<lambda>s. snapshot_id s = snapshot_id (target_found t)) (snapshots db)) db = Inr (v, s)"
    and guard: "(case target of
         None \<Rightarrow> rguard (\<not> is_version_active v) VERSION_NOT_DRAFT
       | Some m \<Rightarrow> (case effective_quantity_requested s r of
              None \<Rightarrow> Inl (TypeError ''quantity_requested'')
            | Some q \<Rightarrow> rguard (0 \<le> m \<and> m \<le> missing_quantity_ceiling q r (snapshot_resolved s))
                (ValidationError ''STOCK_REPORT_MISSING_EXCEEDS_CEILING''))) = Inr u"
    and result: "(if target = snapshot_missing s then Inr db
      else Inr (write_snapshot (snapshot_id s) (\<lambda>u. u\<lparr>snapshot_missing := target\<rparr>) actor now db)) = (Inr db' :: stock_db result)"
    using run unfolding set_stock_report_item_snapshot_missing_quantity_def rbind_eq_Inr split_paired_Ex prod.case
    by (elim exE conjE) (rule that, assumption+)
  have none: "is_version_active v \<longrightarrow> target \<noteq> None" using guard by (cases target) auto
  have some: "\<exists>q. effective_quantity_requested s r = Some q \<and> 0 \<le> m \<and> m \<le> missing_quantity_ceiling q r (snapshot_resolved s)"
    if "target = Some m" for m using guard that by (simp split: option.splits)
  have r: "r \<in> set (stock_rows db)" "row_id r = rid" using lock_live_row_Inr [OF run'(1)] by auto
  note t = target_checked [OF b(1) run'(2,3) subset_refl]
  let ?f = "\<lambda>u. if snapshot_id u = snapshot_id s
    then u\<lparr>snapshot_missing := target, snapshot_updated_at := Some now, snapshot_updated_by_id := actor\<rparr> else u"
  have only: "u = s" if "u \<in> set (snapshots db)" "snapshot_id u = snapshot_id s" for u
    using row_unique [of snapshot_id "snapshots db" u s] b(1) that t(1) by (simp add: snapshots_ok_def)
  have "in_place u (?f u)" if "u \<in> set (snapshots db)" for u
    using only [OF that] none t(6,7) by (auto simp: in_place_def is_version_active_def)
  then have mapped: "snapshots_ok (db\<lparr>snapshots := map ?f (snapshots db)\<rparr>)" "shows_board b (map ?f (snapshots db))"
    using mapped_in_place [OF b(1,3), of ?f] by auto
  have "covered (db\<lparr>snapshots := map ?f (snapshots db)\<rparr>)"
    unfolding covered_def
  proof (intro ballI allI impI)
    fix u' m assume "u' \<in> set (snapshots (db\<lparr>snapshots := map ?f (snapshots db)\<rparr>))" and m: "snapshot_missing u' = Some m"
    then obtain u where u: "u \<in> set (snapshots db)" "u' = ?f u" by auto
    show "0 \<le> m \<and> (is_snapshot_active u' \<longrightarrow> m \<le> snapshot_ceiling u' (its_row (db\<lparr>snapshots := map ?f (snapshots db)\<rparr>) u'))"
    proof (cases "snapshot_id u = snapshot_id s")
      case True
      then have "u = s" using only u(1) by blast
      moreover have "snapshot_ceiling (?f s) r = snapshot_ceiling s r" by (rule ceiling_cong) simp_all
      moreover have "its_row db (?f s) = r" using its_row_is [OF b(1) r(1), of "?f s"] t(2) r(2) by simp
      moreover have "target = Some m" using m u(2) True by simp
      ultimately show ?thesis using some u(2) by (auto simp: snapshot_ceiling_def)
    next
      case False
      then show ?thesis using coveredD [OF b(2) u(1)] m u(2) by simp
    qed
  qed
  then have "board_sound (db\<lparr>snapshots := map ?f (snapshots db)\<rparr>)" using mapped b(4) by (intro board_soundI [of _ b]) simp_all
  then show ?thesis using result sound by (simp add: write_snapshot_map split: if_splits)
qed
text \<open>The override of a requested quantity; on the active board the missing quantity of the row is clamped.\<close>

lemma clamp_frame [simp]:
  "versions (clamp_missing P now actor db) = versions db" "stock_rows (clamp_missing P now actor db) = stock_rows db"
  "schedulers (clamp_missing P now actor db) = schedulers db"
  by (simp_all add: clamp_missing_def)

lemma clamp_sound:
  assumes "snapshots_ok db" "shows_board b (snapshots db)" "schedules_ok db"
    "\<And>s m. s \<in> set (snapshots db) \<Longrightarrow> snapshot_missing s = Some m \<Longrightarrow>
       0 \<le> m \<and> (is_snapshot_active s \<longrightarrow> \<not> P s \<longrightarrow> m \<le> snapshot_ceiling s (its_row db s))"
  shows "board_sound (clamp_missing P now actor db)"
proof (rule board_soundI)
  show "snapshots_ok (clamp_missing P now actor db)" "shows_board b (snapshots (clamp_missing P now actor db))"
    using mapped_in_place [OF assms(1,2), of "clamped_of db P now actor"] by (simp_all add: clamp_missing_eq [OF assms(1)])
  show "covered (clamp_missing P now actor db)" by (rule clamp_covers [OF assms(1,4)])
  show "schedules_ok (clamp_missing P now actor db)" using assms(3) by (simp add: schedules_ok_def)
qed

lemma override_keeps_sound:
  assumes sound: "board_sound db" and run: "set_stock_report_item_snapshot_requested_quantity rid vid target actor now hid db = Inr db'"
  shows "board_sound db'"
proof -
  obtain b where b: "snapshots_ok db" "covered db" "shows_board b (snapshots db)" "schedules_ok db" using sound by (rule board_soundE)
  let ?stored = "\<lambda>s. write_snapshot (snapshot_id s) (\<lambda>u. u\<lparr>requested_manual := target\<rparr>) actor now db"
  obtain r t v s where run': "lock_live_row rid db = Inr r" "discover_target_snapshot rid (Some vid) db = Inr t"
      "check_locked_target t (List.find (\<lambda>s. snapshot_id s = snapshot_id (target_found t)) (snapshots db)) db = Inr (v, s)"
    and result: "(if target = requested_manual s then Inr db
      else let db = ?stored s in
        if is_version_active v
        then let db = clamp_snapshot_missing_quantity rid now actor db in
          (case load_version_snapshot rid vid db of
             None \<Rightarrow> Inl (TypeError ''NoneType'')
           | Some u \<Rightarrow> record_history True (history_of HistQUANTITY_REQUESTED_OVERRIDE hid u (snapshot_priority u) (priority_order u) r actor now) db)
        else Inr db) = (Inr db' :: stock_db result)"
    using run unfolding set_stock_report_item_snapshot_requested_quantity_def rbind_eq_Inr split_paired_Ex prod.case
    by (elim exE conjE) (rule that; assumption)
  note t = target_checked [OF b(1) run'(2,3) subset_refl]
  let ?f = "\<lambda>u. if snapshot_id u = snapshot_id s
    then u\<lparr>requested_manual := target, snapshot_updated_at := Some now, snapshot_updated_by_id := actor\<rparr> else u"
  have stored: "?stored s = db\<lparr>snapshots := map ?f (snapshots db)\<rparr>" by (simp add: write_snapshot_map)
  have "in_place u (?f u)" for u by (simp add: in_place_def)
  then have mapped: "snapshots_ok (?stored s)" "shows_board b (snapshots (?stored s))"
    using mapped_in_place [OF b(1,3), of ?f] unfolding stored by auto
  have only: "u = s" if "u \<in> set (snapshots db)" "snapshot_id u = snapshot_id s" for u
    using row_unique [of snapshot_id "snapshots db" u s] b(1) that t(1) by (simp add: snapshots_ok_def)
  have sched: "schedules_ok (?stored s)" using b(4) by (simp add: stored)
  show ?thesis
  proof (cases "is_version_active v")
    case True
    have "board_sound (clamp_snapshot_missing_quantity rid now actor (?stored s))"
      unfolding clamp_snapshot_missing_quantity_def
    proof (rule clamp_sound [OF mapped sched])
      fix u' m assume "u' \<in> set (snapshots (?stored s))" and m: "snapshot_missing u' = Some m"
      then obtain u where u: "u \<in> set (snapshots db)" "u' = ?f u" unfolding stored by auto
      have "snapshot_missing u = Some m" using u(2) m by (simp split: if_splits)
      moreover have "u' = u" if "snapshot_row_id u' \<noteq> rid" using u that only t(2) by (auto split: if_splits)
      moreover have "its_row (?stored s) u' = its_row db u'" by (simp add: stored)
      ultimately show "0 \<le> m \<and> (is_snapshot_active u' \<longrightarrow> \<not> snapshot_row_id u' = rid \<longrightarrow> m \<le> snapshot_ceiling u' (its_row (?stored s) u'))"
        using coveredD [OF b(2) u(1)] by auto
    qed
    then show ?thesis using result sound True
      by (auto simp: Let_def record_history_def split: if_splits option.splits)
  next
    case False
    have "covered (?stored s)"
    proof (rule coveredI [OF b(2)])
      fix u' assume "u' \<in> set (snapshots (?stored s))"
      then obtain u where u: "u \<in> set (snapshots db)" "u' = ?f u" unfolding stored by auto
      have "\<not> is_snapshot_active s" using False t(6,7) by (simp add: is_version_active_def is_snapshot_active_def)
      then have "same_cover u u'" using only [OF u(1)] u(2) by (auto simp: same_cover_def is_snapshot_active_def)
      then show "snapshot_missing u' = None \<or> snapshot_missing u' = Some 0 \<or> (\<exists>u \<in> set (snapshots db). same_cover u u')" using u(1) by blast
    qed (simp add: stored)
    then have "board_sound (?stored s)" using mapped sched by (intro board_soundI)
    then show ?thesis using result sound False by (auto simp: Let_def split: if_splits)
  qed
qed

text \<open>The commands that only move positions keep what covers the missing quantities.\<close>

definition cover_frame :: "item_snapshot \<Rightarrow> (string \<times> int option \<times> int option \<times> int option) \<times> int option \<times> int option \<times> int" where
  "cover_frame s = ((snapshot_row_id s, snapshot_missing s, snapshot_active_at s, snapshot_closed_at s), requested_scanner s, requested_manual s, snapshot_resolved s)"

lemma same_cover_frame: "cover_frame s' = cover_frame s \<Longrightarrow> same_cover s s'"
  by (auto simp: cover_frame_def same_cover_def is_snapshot_active_def intro!: ceiling_cong)

lemma covered_frames:
  assumes "covered db" "map cover_frame snaps = map cover_frame (snapshots db)"
  shows "covered (db\<lparr>snapshots := snaps, histories := hs\<rparr>)"
proof (rule coveredI [OF assms(1)])
  fix s' assume "s' \<in> set (snapshots (db\<lparr>snapshots := snaps, histories := hs\<rparr>))"
  then have "cover_frame s' \<in> set (map cover_frame (snapshots db))" unfolding assms(2) [symmetric] by simp
  then obtain s where "s \<in> set (snapshots db)" "cover_frame s' = cover_frame s" by auto
  then show "snapshot_missing s' = None \<or> snapshot_missing s' = Some 0 \<or> (\<exists>s \<in> set (snapshots db). same_cover s s')"
    using same_cover_frame by blast
qed simp

lemma cover_shift: "map cover_frame (shift vid p low high d snaps) = map cover_frame snaps"
  by (auto simp: shift_eq update_where_def cover_frame_def reorder_def)

lemma cover_moves [simp]:
  "map cover_frame (close_priority_gap vid p k snaps) = map cover_frame snaps"
  "map cover_frame (shift_within_group vid p i j snaps) = map cover_frame snaps"
  "map cover_frame (left_group s snaps) = map cover_frame snaps"
  by (simp_all add: close_priority_gap_def shift_within_group_def left_group_def cover_shift split: option.splits)

lemma cover_write_mover:
  "(\<And>s. cover_frame (vals s) = cover_frame s) \<Longrightarrow> map cover_frame (write_mover sid vals actor now snaps) = map cover_frame snaps"
  by (auto simp: write_mover_def update_where_def cover_frame_def)
lemma board_sound_rewritten:
  assumes "board_sound db" "snapshots_ok (db\<lparr>snapshots := snaps, histories := hs\<rparr>)" "shows_board b snaps"
    "map cover_frame snaps = map cover_frame (snapshots db)"
  shows "board_sound (db\<lparr>snapshots := snaps, histories := hs\<rparr>)"
  using assms covered_frames [of db snaps hs] by (intro board_soundI [of _ b]) (simp_all add: board_sound_def schedules_ok_def)

lemma priority_keeps_sound:
  assumes sound: "board_sound db" and run: "set_stock_report_item_priority rid vid target actor now hid db = Inr db'"
  shows "board_sound db'"
proof -
  obtain b where b: "snapshots_ok db" "covered db" "shows_board b (snapshots db)" "schedules_ok db" using sound by (rule board_soundE)
  obtain r t v s where run': "find_row rid db = Inr r" "discover_target_snapshot rid vid db = Inr t"
      "check_locked_target t (List.find (\<lambda>s. snapshot_id s = snapshot_id (target_found t))
         (lock_snapshot_and_groups (target_version_id t) (snapshot_id (target_found t)) [snapshot_priority (target_found t), target] db)) db = Inr (v, s)"
    using run by (auto simp: set_stock_report_item_priority_def Let_def)
  have r: "r \<in> set (stock_rows db)" "row_id r = rid" "\<not> row_is_deleted r" using find_row_Inr [OF run'(1)] by auto
  have "set (lock_snapshot_and_groups vid' sid ps db) \<subseteq> set (snapshots db)" for vid' sid ps by (auto simp: lock_snapshot_and_groups_def)
  note t = target_checked [OF b(1) run'(2,3) this]
  have s: "s \<in> set (snapshots db)" "is_snapshot_open s" "names_snapshot vid s" "row_id r = snapshot_row_id s" "rid = snapshot_row_id s"
    using t r by simp_all
  note reached = set_priority_reached [OF b(1) s(1-3) r(1) s(4) r(3), of target actor now hid]
  show ?thesis
  proof (cases "snapshot_priority s = target")
    case True
    then show ?thesis using run reached s(5) sound by simp
  next
    case False
    let ?order = "map_option (\<lambda>p. append_to_priority_group (snapshot_version_id s) p (left_group s (snapshots db))) target"
    let ?snaps = "write_mover (snapshot_id s) (\<lambda>m. m\<lparr>snapshot_priority := target, priority_order := ?order\<rparr>) actor now (left_group s (snapshots db))"
    obtain hs where "record_history (is_snapshot_active s) (history_of HistPRIORITY_CHANGE hid s target ?order r actor now)
        (db\<lparr>snapshots := ?snaps\<rparr>) = Inr (db\<lparr>snapshots := ?snaps, histories := histories db @ hs\<rparr>)"
      by (rule recorded [OF b(1) s(1), of "is_snapshot_active s" HistPRIORITY_CHANGE hid target ?order r actor now
          "db\<lparr>snapshots := ?snaps\<rparr>"]) simp
    then have hs: "db' = db\<lparr>snapshots := ?snaps, histories := histories db @ hs\<rparr>"
      using run reached s(5) False by (simp add: Let_def)
    have ids: "distinct (map snapshot_id (snapshots db))" using b(1) by (simp add: snapshots_ok_def)
    have "snapshots_ok db'" unfolding hs
      by (rule mover_keeps_ok [OF b(1) left_group_keeps(1) left_group_keeps(3) [OF all_paired [OF b(1)]]])
        (simp_all add: snapshot_frame_def paired_def)
    moreover note reprioritised_board(1) [OF ids s(1,2) b(3) refl False, of actor now]
    moreover have "map cover_frame ?snaps = map cover_frame (snapshots db)" by (subst cover_write_mover) (simp add: cover_frame_def, rule cover_moves)
    ultimately show ?thesis unfolding hs by (intro board_sound_rewritten [OF sound])
  qed
qed

lemma order_keeps_sound:
  assumes sound: "board_sound db" and run: "set_stock_report_item_priority_order rid vid target actor now hid db = Inr db'"
  shows "board_sound db'"
proof -
  obtain b where b: "snapshots_ok db" "covered db" "shows_board b (snapshots db)" "schedules_ok db" using sound by (rule board_soundE)
  obtain r t v s p where run': "find_row rid db = Inr r" "discover_target_snapshot rid vid db = Inr t"
      "check_locked_target t (List.find (\<lambda>s. snapshot_id s = snapshot_id (target_found t))
         (lock_snapshot_and_groups (target_version_id t) (snapshot_id (target_found t)) [snapshot_priority (target_found t)] db)) db = Inr (v, s)"
      "snapshot_priority s = Some p"
    using run by (auto simp: set_stock_report_item_priority_order_def Let_def split: option.splits)
  have r: "r \<in> set (stock_rows db)" "row_id r = rid" "\<not> row_is_deleted r" using find_row_Inr [OF run'(1)] by auto
  have "set (lock_snapshot_and_groups vid' sid ps db) \<subseteq> set (snapshots db)" for vid' sid ps by (auto simp: lock_snapshot_and_groups_def)
  note t = target_checked [OF b(1) run'(2,3) this]
  have s: "s \<in> set (snapshots db)" "is_snapshot_open s" "names_snapshot vid s" "row_id r = snapshot_row_id s" "rid = snapshot_row_id s"
    using t r by simp_all
  obtain k where k: "priority_order s = Some k" using sound_paired [OF soundD [OF b(1) s(1)]] run'(4) by (auto simp: paired_def)
  note reached = set_order_reached [OF b(1) s(1-3) r(1) s(4) r(3) run'(4) k b(3), of target actor now hid]
  have ids: "distinct (map snapshot_id (snapshots db))" using b(1) by (simp add: snapshots_ok_def)
  have own: "in_group (snapshot_version_id s) p s" using s(2) run'(4) by (simp add: in_group_def)
  let ?snaps = "write_mover (snapshot_id s) (\<lambda>m. m\<lparr>priority_order := Some target\<rparr>) actor now
    (shift_within_group (snapshot_version_id s) p k target (snapshots db))"
  have range: "1 \<le> target" "target \<le> int (length (b (snapshot_version_id s) p))"
    using run reached s(5) by (simp_all split: if_splits)
  show ?thesis
  proof (cases "target = k")
    case True
    then show ?thesis using run reached s(5) range sound by simp
  next
    case False
    obtain hs where "record_history (is_snapshot_active s) (history_of HistPRIORITY_ORDER_CHANGE hid s (Some p) (Some target) r actor now)
        (db\<lparr>snapshots := ?snaps\<rparr>) = Inr (db\<lparr>snapshots := ?snaps, histories := histories db @ hs\<rparr>)"
      by (rule recorded [OF b(1) s(1), of "is_snapshot_active s" HistPRIORITY_ORDER_CHANGE hid "Some p" "Some target" r actor now
          "db\<lparr>snapshots := ?snaps\<rparr>"]) simp
    then have hs: "db' = db\<lparr>snapshots := ?snaps, histories := histories db @ hs\<rparr>"
      using run reached s(5) range False by simp
    have "snapshots_ok db'" unfolding hs by (rule order_write_ok [OF b(1) s(1) run'(4) k])
    moreover have "shows_board (repositioned (snapshot_version_id s) p (snapshot_id s) target b) ?snaps"
      using repositioned_board [OF ids s(1) b(3) own k range, of actor now] False by simp
    moreover have "map cover_frame ?snaps = map cover_frame (snapshots db)" by (subst cover_write_mover) (simp add: cover_frame_def, rule cover_moves)
    ultimately show ?thesis unfolding hs by (intro board_sound_rewritten [OF sound])
  qed
qed
text \<open>A merge keeps everything but the positions of the target.\<close>

lemma record_merged_keeps:
  "rfold (\<lambda>db s. if active then record_merged hid actor now db (s, f s) else Inr db) db ss = Inr db' \<Longrightarrow> \<exists>hs. db' = db\<lparr>histories := hs\<rparr>"
proof (induction ss arbitrary: db)
  case Nil
  then show ?case by (intro exI [of _ "histories db"]) simp
next
  case (Cons s ss)
  then obtain db1 where db1: "(if active then record_merged hid actor now db (s, f s) else Inr db) = Inr db1"
      "rfold (\<lambda>db s. if active then record_merged hid actor now db (s, f s) else Inr db) db1 ss = Inr db'" by auto
  have "\<exists>hs. db1 = db\<lparr>histories := hs\<rparr>"
  proof (cases active)
    case True
    obtain p k where f: "f s = (p, k)" by (cases "f s")
    show ?thesis using db1(1) by (auto simp: True f record_merged_def record_history_def)
  next
    case False
    then show ?thesis using db1(1) by (intro exI [of _ "histories db"]) simp
  qed
  then show ?case using Cons.IH [OF db1(2)] by auto
qed

lemma merge_keeps_sound:
  assumes sound: "board_sound db"
    and run: "apply_stock_report_snapshot_version_priorities source_id target_id actor now hid db = Inr (db', rows)"
  shows "board_sound db'"
proof -
  obtain b where b: "snapshots_ok db" "covered db" "shows_board b (snapshots db)" "schedules_ok db" using sound by (rule board_soundE)
  obtain v target where v: "find_version source_id db = Inr v" "resolve_target v target_id db = Inr target"
    using run by (auto simp: apply_stock_report_snapshot_version_priorities_def)
  show ?thesis
  proof (cases target)
    case None
    then show ?thesis using run v sound by (auto simp: apply_stock_report_snapshot_version_priorities_def Let_def)
  next
    case (Some w)
    let ?source = "filter (\<lambda>s. snapshot_version_id s = version_id v) (snapshots db)"
    let ?active = "filter (of_version (version_id w)) (snapshots db)"
    let ?changed = "map (\<lambda>s. (snapshot_id s, merge_value ?source ?active s)) (filter (merge_moves ?source ?active) ?active)"
    let ?f = "\<lambda>s. if of_version (version_id w) s then place_merged ?source ?active actor now s else s"
    have ids: "distinct (map snapshot_id (snapshots db))" "distinct (map snapshot_id ?active)"
      using b(1) by (simp_all add: snapshots_ok_def distinct_map_filter)
    have stored: "write_merged ?changed (version_id w) actor now (snapshots db) = map ?f (snapshots db)" by (rule write_merged_eq [OF ids(1)])
    let ?written = "sort_key snapshot_id (filter (\<lambda>s. snapshot_id s \<in> fst ` set ?changed) ?active)"
    have "rfold (\<lambda>db s. if is_version_active w then record_merged hid actor now db (s, the (map_of ?changed (snapshot_id s))) else Inr db)
        (db\<lparr>snapshots := map ?f (snapshots db)\<rparr>) ?written = Inr db'"
      using run unfolding apply_stock_report_snapshot_version_priorities_def v(1) rbind_Inr v(2) Some option.case Let_def merge_total [OF ids(2)] stored
      by auto
    from record_merged_keeps [OF this] obtain hs where hs: "db' = db\<lparr>snapshots := map ?f (snapshots db), histories := hs\<rparr>" by auto
    have "merged_list ?source ?active p = source_first ?source ?active b (version_id w) p" for p
      by (rule merged_is_source_first [where b = b, OF ids(1) shows_boardD [OF b(3)]])
    then have "shows_board (b(version_id w := source_first ?source ?active b (version_id w))) (map ?f (snapshots db))"
      using slots_merged [OF ids(1), of _ _ "version_id w" ?source actor now] shows_boardD [OF b(3)] merged_list_distinct [OF ids(2), of ?source]
      by (simp add: shows_board_def)
    moreover have "snapshots_ok db'" unfolding hs by (rule merged_keeps_ok [OF b(1)])
    moreover have "map cover_frame (map ?f (snapshots db)) = map cover_frame (snapshots db)" by (simp add: cover_frame_def place_merged_def)
    ultimately show ?thesis unfolding hs by (intro board_sound_rewritten [OF sound])
  qed
qed
text \<open>A refresh rewrites the requested quantities of the running board, lets the new rows join and clamps.\<close>

definition refrozen_of :: "string \<Rightarrow> string option \<Rightarrow> int \<Rightarrow> stock_db \<Rightarrow> item_snapshot \<Rightarrow> item_snapshot" where
  "refrozen_of vid actor now db s =
     (if snapshot_version_id s = vid \<and> is_snapshot_open s \<and> \<not> row_is_deleted (its_row db s)
         \<and> (case requested_scanner s of None \<Rightarrow> False | Some q \<Rightarrow> q \<noteq> row_requested (its_row db s))
      then (s\<lparr>requested_scanner := Some (row_requested (its_row db s))\<rparr>)\<lparr>snapshot_updated_at := Some now, snapshot_updated_by_id := actor\<rparr>
      else s)"

definition cleared_of :: "string \<Rightarrow> string option \<Rightarrow> int \<Rightarrow> item_snapshot \<Rightarrow> item_snapshot" where
  "cleared_of vid actor now s = (if overridden vid s
     then s\<lparr>requested_manual := None, snapshot_updated_at := Some now, snapshot_updated_by_id := actor\<rparr> else s)"

lemma refreeze_eq: "snapshots_ok db \<Longrightarrow> refreeze vid actor now db = db\<lparr>snapshots := map (refrozen_of vid actor now db) (snapshots db)\<rparr>"
  by (simp add: refreeze_def update_from_rows_all refrozen_of_def [abs_def])

lemma drop_overrides_eq:
  assumes "drop_overrides keep vid rows hid actor now db = Inr (db', n)"
  shows "\<exists>f hs. db' = db\<lparr>snapshots := map f (snapshots db), histories := hs\<rparr> \<and> f \<in> {\<lambda>s. s, cleared_of vid actor now}"
proof (cases keep)
  case True
  then show ?thesis using assms by (intro exI [of _ "\<lambda>s. s"] exI [of _ "histories db"]) (simp add: drop_overrides_def)
next
  case False
  then show ?thesis using assms
    by (intro exI [of _ "cleared_of vid actor now"]) (auto simp: drop_overrides_def Let_def clear_overrides_def update_where_def cleared_of_def [abs_def])
qed

lemma rewritten_in_place:
  "in_place s (refrozen_of vid actor now db s)" "in_place s (cleared_of vid actor now s)"
  by (auto simp: in_place_def refrozen_of_def cleared_of_def split: option.splits)

lemma rewritten_missing [simp]:
  "snapshot_missing (refrozen_of vid actor now db s) = snapshot_missing s" "snapshot_missing (cleared_of vid actor now s) = snapshot_missing s"
  by (simp_all add: refrozen_of_def cleared_of_def)

lemma in_place_active: "in_place s s' \<Longrightarrow> is_snapshot_active s' = is_snapshot_active s \<and> snapshot_version_id s' = snapshot_version_id s"
  by (simp add: in_place_def is_snapshot_active_def)

lemma in_place_trans: "in_place s s' \<Longrightarrow> snapshot_missing s' = snapshot_missing s \<Longrightarrow> in_place s' s'' \<Longrightarrow> in_place s s''"
  by (simp add: in_place_def)

text \<open>The new rows of a running board.\<close>

lemma board_joined:
  assumes ok: "snapshots_ok db" and board: "shows_board b (snapshots db)" and fresh: "fresh_snapshots fresh vid db"
    and v: "v \<in> set (versions db)" "version_id v = vid" "is_version_active v"
    and rows: "added = filter (\<lambda>r. row_id r \<notin> snapshot_row_id ` set (filter (\<lambda>s. snapshot_version_id s = vid) (snapshots db))) (live_rows db)"
  shows "snapshots_ok (db\<lparr>snapshots := snapshots db @ map (board_snapshot_of fresh vid (the (version_active_at v))) added\<rparr>)
    \<and> shows_board b (snapshots db @ map (board_snapshot_of fresh vid (the (version_active_at v))) added)"
proof -
  have start: "version_active_at v = Some (the (version_active_at v))" using v(3) by (simp add: is_version_active_def)
  show ?thesis
  proof (rule rows_join [OF ok board fresh v(1,2), where q = "\<lambda>r. Some (row_requested r)" and m = "Some 0"])
    show "version_closed_at v = None" using v(3) by (simp add: is_version_active_def)
    show "distinct (map row_id added)" using live_rows_distinct [OF ok] by (simp add: rows distinct_map_filter)
    show "set added \<subseteq> set (stock_rows db)" by (auto simp: rows)
    show "map (board_snapshot_of fresh vid (the (version_active_at v))) added
        = map (\<lambda>r. new_snapshot (fresh vid (row_id r)) vid r (Some (row_requested r)) (Some 0) (version_active_at v)) added"
      using start by (simp add: board_snapshot_of_def)
    show "(Some (row_requested r) = None) = (version_active_at v = None)" for r using v(3) by (simp add: is_version_active_def)
  qed (auto simp: rows image_iff)
qed

lemma refresh_keeps_sound:
  assumes sound: "board_sound db" and fresh: "fresh_snapshots fresh vid db"
    and run: "refresh_stock_report_snapshot_version_requested vid keep fresh hid actor now db = Inr (db', changed, added)"
  shows "board_sound db'"
proof -
  obtain b where b: "snapshots_ok db" "covered db" "shows_board b (snapshots db)" "schedules_ok db" using sound by (rule board_soundE)
  let ?d1 = "refreeze vid actor now db"
  obtain v d2 n where v: "find_version vid db = Inr v" "is_version_active v"
      and d2: "drop_overrides keep vid (live_rows db) hid actor now ?d1 = Inr (d2, n)"
    using run by (auto simp: refresh_stock_report_snapshot_version_requested_def Let_def)
  have v': "v \<in> set (versions db)" "version_id v = vid" using find_version_Inr [OF v(1)] by auto
  obtain g hs where g: "d2 = ?d1\<lparr>snapshots := map g (snapshots ?d1), histories := hs\<rparr>" "g = (\<lambda>s. s) \<or> g = cleared_of vid actor now"
    using drop_overrides_eq [OF d2] by auto
  let ?f = "\<lambda>s. g (refrozen_of vid actor now db s)"
  have d2': "d2 = db\<lparr>snapshots := map ?f (snapshots db), histories := hs\<rparr>" using g(1) by (simp add: refreeze_eq [OF b(1)] comp_def)
  have both: "in_place s (cleared_of vid actor now (refrozen_of vid actor now db s))" for s
    by (rule in_place_trans [OF rewritten_in_place(1) rewritten_missing(1) rewritten_in_place(2)])
  have f: "in_place s (?f s)" "snapshot_missing (?f s) = snapshot_missing s" for s
    using g(2) rewritten_in_place(1) both by auto
  have mapped: "snapshots_ok (db\<lparr>snapshots := map ?f (snapshots db)\<rparr>)" "shows_board b (map ?f (snapshots db))"
    using mapped_in_place [OF b(1,3), of ?f] f(1) by auto
  have ok2: "snapshots_ok d2" and shown2: "shows_board b (snapshots d2)" using mapped by (simp_all add: d2')
  have frame2: "versions d2 = versions db" "schedulers d2 = schedulers db" "live_rows d2 = live_rows db" by (simp_all add: d2' live_rows_def)
  have ids: "map snapshot_id (map ?f (snapshots db)) = map snapshot_id (snapshots db)" using f(1) by (simp add: in_place_def)
  have fresh2: "fresh_snapshots fresh vid d2"
    using fresh arg_cong [OF ids, of set] by (simp add: fresh_snapshots_def d2' image_image)
  let ?added = "filter (\<lambda>r. row_id r \<notin> snapshot_row_id ` set (filter (\<lambda>s. snapshot_version_id s = vid) (snapshots d2))) (live_rows db)"
  let ?new = "map (board_snapshot_of fresh vid (the (version_active_at v))) ?added"
  let ?d3 = "d2\<lparr>snapshots := snapshots d2 @ ?new\<rparr>"
  let ?d4 = "if ?added = [] then d2 else set_version vid (\<lambda>v. v\<lparr>snapshot_count := count_snapshots vid ?d3\<rparr>) ?d3"
  have result: "db' = clamp_version_missing_quantities vid now actor ?d4"
    using run d2 unfolding refresh_stock_report_snapshot_version_requested_def Let_def v(1) by (auto simp: v(2))
  have d3: "snapshots_ok ?d3" "shows_board b (snapshots ?d3)"
    using board_joined [OF ok2 shown2 fresh2, of v ?added] v' v(2) frame2 by auto
  have d4: "snapshots_ok ?d4" "snapshots ?d4 = snapshots ?d3" "schedules_ok ?d4" "stock_rows ?d4 = stock_rows db"
  proof -
    let ?count = "\<lambda>w. if version_id w = vid then w\<lparr>snapshot_count := count_snapshots vid ?d3\<rparr> else w"
    have counted: "set_version vid (\<lambda>v. v\<lparr>snapshot_count := count_snapshots vid ?d3\<rparr>) ?d3 = ?d3\<lparr>versions := map ?count (versions ?d3)\<rparr>"
      by (simp add: set_version_def update_where_def)
    have "snapshots_ok (?d3\<lparr>versions := map ?count (versions ?d3)\<rparr>)" by (rule versions_mapped [OF d3(1)]) simp_all
    then show "snapshots_ok ?d4" using ok2 counted by simp
    show "snapshots ?d4 = snapshots ?d3" "stock_rows ?d4 = stock_rows db" by (simp_all add: set_version_def update_where_def d2')
    show "schedules_ok ?d4"
    proof (cases "?added = []")
      case True
      then show ?thesis using b(4) frame2 by (simp add: schedules_ok_def)
    next
      case False
      have "schedules_ok (?d3\<lparr>versions := map ?count (versions ?d3)\<rparr>)"
      proof (rule schedules_kept [OF b(4)])
        fix w assume "w \<in> set (versions db)" "is_version_draft w"
        then show "\<exists>w' \<in> set (versions (?d3\<lparr>versions := map ?count (versions ?d3)\<rparr>)). version_id w' = version_id w \<and> is_version_draft w'
            \<and> scheduled_activation_at w' = scheduled_activation_at w"
          by (intro bexI [of _ "?count w"]) (simp_all add: frame2 is_version_draft_def)
      qed (use b(4) frame2 in \<open>auto simp: schedules_ok_def is_version_draft_def\<close>)
      then show ?thesis using False counted by simp
    qed
  qed
  show ?thesis unfolding result clamp_version_missing_quantities_def
  proof (rule clamp_sound [OF d4(1) _ d4(3)])
    show "shows_board b (snapshots ?d4)" unfolding d4(2) by (rule d3(2))
    fix s m assume s: "s \<in> set (snapshots ?d4)" "snapshot_missing s = Some m"
    have "0 \<le> m \<and> (is_snapshot_active s \<longrightarrow> snapshot_version_id s = vid)"
    proof (cases "s \<in> set ?new")
      case True
      then show ?thesis using s(2) by (auto simp: board_snapshot_of_def)
    next
      case False
      then obtain u where u: "u \<in> set (snapshots db)" "s = ?f u" using s(1) unfolding d4(2) by (auto simp: d2')
      have "snapshot_version_id s = vid" if "is_snapshot_active s"
      proof -
        have "is_snapshot_active u" "snapshot_version_id s = snapshot_version_id u" using that in_place_active [OF f(1) [of u]] u(2) by auto
        then show ?thesis using active_version_of [OF b(1) u(1)] one_active_version [OF b(1) _ v'(1) _ v(2)] v'(2) by metis
      qed
      then show ?thesis using coveredD(1) [OF b(2) u(1)] u(2) s(2) f(2) by simp
    qed
    then show "0 \<le> m \<and> (is_snapshot_active s \<longrightarrow> \<not> snapshot_version_id s = vid \<longrightarrow> m \<le> snapshot_ceiling s (its_row ?d4 s))" by blast
  qed
qed
section \<open>Histories\<close>

text \<open>The commands on the versions and the board, with the arguments of their requests.\<close>

datatype board_command =
    CreateVersion create_version_request string
  | DeleteVersion string
  | UpdateVersion string update_version_request
  | ActivateVersion string bool "int option option"
  | FireDue "string list"
  | FireSchedule string int
  | RefreshVersion string bool
  | SetMissing string "string option" "int option"
  | SetRequested string string "int option"
  | SetPriority string "string option" "stock_priority option"
  | SetPriorityOrder string "string option" int
  | MergePriorities string "string option"

fun run_command :: "(string \<Rightarrow> string \<Rightarrow> string) \<Rightarrow> (string \<Rightarrow> string) \<Rightarrow> string option \<Rightarrow> int \<Rightarrow> board_command \<Rightarrow> stock_db \<Rightarrow> stock_db result" where
  "run_command fresh hid actor now (CreateVersion req vid) db = create_stock_report_snapshot_version req vid fresh actor now db"
| "run_command fresh hid actor now (DeleteVersion vid) db = delete_stock_report_snapshot_version vid now db"
| "run_command fresh hid actor now (UpdateVersion vid req) db = update_stock_report_snapshot_version vid req actor now db"
| "run_command fresh hid actor now (ActivateVersion vid keep expected) db =
     rbind (activate_stock_report_snapshot_version vid keep expected fresh hid actor now db) (\<lambda>(d, _). Inr d)"
| "run_command fresh hid actor now (FireDue picked) db = Inr (fire_due_schedulers picked now db)"
| "run_command fresh hid actor now (FireSchedule vid w) db = handle_activate_stock_report_snapshot_version vid w fresh hid actor now db"
| "run_command fresh hid actor now (RefreshVersion vid keep) db =
     rbind (refresh_stock_report_snapshot_version_requested vid keep fresh hid actor now db) (\<lambda>(d, _). Inr d)"
| "run_command fresh hid actor now (SetMissing rid vid m) db = set_stock_report_item_snapshot_missing_quantity rid vid m actor now db"
| "run_command fresh hid actor now (SetRequested rid vid q) db =
     set_stock_report_item_snapshot_requested_quantity rid vid q actor now (hid rid) db"
| "run_command fresh hid actor now (SetPriority rid vid p) db = set_stock_report_item_priority rid vid p actor now (hid rid) db"
| "run_command fresh hid actor now (SetPriorityOrder rid vid n) db = set_stock_report_item_priority_order rid vid n actor now (hid rid) db"
| "run_command fresh hid actor now (MergePriorities source target) db =
     rbind (apply_stock_report_snapshot_version_priorities source target actor now hid db) (\<lambda>(d, _). Inr d)"

text \<open>The client ids a command generates are new to the store.\<close>

fun generates_fresh :: "(string \<Rightarrow> string \<Rightarrow> string) \<Rightarrow> board_command \<Rightarrow> stock_db \<Rightarrow> bool" where
  "generates_fresh fresh (CreateVersion req vid) db \<longleftrightarrow> fresh_version vid db \<and> fresh_snapshots fresh vid db"
| "generates_fresh fresh (ActivateVersion vid keep expected) db \<longleftrightarrow> fresh_snapshots fresh vid db"
| "generates_fresh fresh (FireSchedule vid w) db \<longleftrightarrow> fresh_snapshots fresh vid db"
| "generates_fresh fresh (RefreshVersion vid keep) db \<longleftrightarrow> fresh_snapshots fresh vid db"
| "generates_fresh fresh _ db \<longleftrightarrow> True"

text \<open>A history is a sequence of commands that commit; one that raises is rolled back and leaves the store.\<close>

inductive board_history :: "stock_db \<Rightarrow> stock_db \<Rightarrow> bool" for start where
  started: "board_history start start"
| committed: "board_history start db \<Longrightarrow> generates_fresh fresh cmd db \<Longrightarrow> run_command fresh hid actor now cmd db = Inr db'
    \<Longrightarrow> board_history start db'"

inductive_cases board_historyE: "board_history start db"

lemma fire_due_keeps_sound:
  assumes sound: "board_sound db"
  shows "board_sound (fire_due_schedulers picked now db)"
proof -
  obtain b where b: "snapshots_ok db" "covered db" "shows_board b (snapshots db)" "schedules_ok db" using sound by (rule board_soundE)
  let ?due = "\<lambda>c. scheduler_state c = SchedulerACTIVE \<and> scheduled_for c \<le> now \<and> scheduler_version_id c \<in> set picked"
  let ?f = "\<lambda>c. if ?due c then c\<lparr>scheduler_state := SchedulerFIRED\<rparr> else c"
  have fired: "schedulers (fire_due_schedulers picked now db) = map ?f (schedulers db)" by (simp add: fire_due_schedulers_def update_where_def)
  have waiting: "filter (\<lambda>c. scheduler_state c = SchedulerACTIVE) (map ?f cs) = filter (\<lambda>c. \<not> ?due c) (filter (\<lambda>c. scheduler_state c = SchedulerACTIVE) cs)" for cs
    by (induction cs) auto
  have "distinct (map scheduler_version_id (filter (\<lambda>c. \<not> ?due c) (filter (\<lambda>c. scheduler_state c = SchedulerACTIVE) (schedulers db))))"
    by (rule distinct_map_filter) (use b(4) in \<open>simp add: schedules_ok_def\<close>)
  then have "schedules_ok (fire_due_schedulers picked now db)"
    using b(4) unfolding schedules_ok_def fired waiting by (auto simp: fire_due_schedulers_def split: if_splits)
  moreover have "snapshots_ok (fire_due_schedulers picked now db)" using b(1) by (subst snapshots_ok_cong [of _ db]) (simp_all add: fire_due_schedulers_def)
  moreover have "covered (fire_due_schedulers picked now db)" by (rule covered_kept [OF b(2)]) (simp_all add: fire_due_schedulers_def)
  ultimately show ?thesis using b(3) by (intro board_soundI [of _ b]) (simp_all add: fire_due_schedulers_def)
qed

lemma command_keeps_sound:
  assumes "board_sound db" "generates_fresh fresh cmd db" "run_command fresh hid actor now cmd db = Inr db'"
  shows "board_sound db'"
  using assms
  by (cases cmd) (auto simp: rbind_eq_Inr
      intro: create_keeps_sound delete_keeps_sound update_keeps_sound activate_keeps_sound fire_due_keeps_sound fire_keeps_sound refresh_keeps_sound
        missing_keeps_sound override_keeps_sound priority_keeps_sound order_keeps_sound merge_keeps_sound)

lemma history_keeps_sound: "board_history start db \<Longrightarrow> board_sound start \<Longrightarrow> board_sound db"
  by (induction rule: board_history.induct) (auto intro: command_keeps_sound)

section \<open>Every plan has its scheduler\<close>

definition follows :: "snapshot_version \<Rightarrow> int \<Rightarrow> activation_scheduler \<Rightarrow> bool" where
  "follows v w c \<longleftrightarrow> scheduler_version_id c = version_id v \<and> scheduled_for c = w \<and> scheduler_state c \<in> {SchedulerACTIVE, SchedulerFIRED}"

definition plans_followed :: "stock_db \<Rightarrow> bool" where
  "plans_followed db \<longleftrightarrow> (\<forall>v \<in> set (versions db). \<forall>w. scheduled_activation_at v = Some w \<longrightarrow> (\<exists>c \<in> set (schedulers db). follows v w c))"

definition plan_of :: "snapshot_version \<Rightarrow> string \<times> int option" where
  "plan_of v = (version_id v, scheduled_activation_at v)"

lemma plans_kept:
  assumes "plans_followed db" "schedulers db' = schedulers db" "\<And>v. v \<in> set (versions db') \<Longrightarrow> scheduled_activation_at v \<noteq> None \<Longrightarrow> plan_of v \<in> plan_of ` set (versions db)"
  shows "plans_followed db'"
  unfolding plans_followed_def
proof (intro ballI allI impI)
  fix v w assume v: "v \<in> set (versions db')" "scheduled_activation_at v = Some w"
  then obtain u where "u \<in> set (versions db)" "version_id u = version_id v" "scheduled_activation_at u = Some w"
    using assms(3) [OF v(1)] by (auto simp: plan_of_def)
  then show "\<exists>c \<in> set (schedulers db'). follows v w c" using assms(1,2) unfolding plans_followed_def follows_def by metis
qed

lemma plans_frame: "plans_followed db \<Longrightarrow> schedulers db' = schedulers db \<Longrightarrow> versions db' = versions db \<Longrightarrow> plans_followed db'"
  by (simp add: plans_followed_def)

lemma plans_cancelled:
  assumes "plans_followed db" "schedulers db' = schedulers (cancel_activation_schedulers vid now db)"
    "\<And>v. v \<in> set (versions db') \<Longrightarrow> scheduled_activation_at v \<noteq> None \<Longrightarrow> version_id v \<noteq> vid \<and> plan_of v \<in> plan_of ` set (versions db)"
  shows "plans_followed db'"
  unfolding plans_followed_def
proof (intro ballI allI impI)
  fix v w assume v: "v \<in> set (versions db')" "scheduled_activation_at v = Some w"
  then obtain u where "u \<in> set (versions db)" "version_id u = version_id v" "scheduled_activation_at u = Some w"
    using assms(3) [OF v(1)] by (auto simp: plan_of_def)
  then obtain c where c: "c \<in> set (schedulers db)" "follows v w c" using assms(1) unfolding plans_followed_def follows_def by metis
  have "\<not> active_scheduler vid c" using c(2) assms(3) [OF v(1)] v(2) by (auto simp: follows_def active_scheduler_def)
  then have "c \<in> set (schedulers db')" using c(1) by (auto simp: assms(2) cancel_activation_schedulers_def update_where_set intro!: bexI [of _ c])
  then show "\<exists>c \<in> set (schedulers db'). follows v w c" using c(2) by blast
qed

lemma plans_created:
  assumes "\<And>u w. u \<in> set (versions db) \<Longrightarrow> version_id u \<noteq> version_id v \<Longrightarrow> scheduled_activation_at u = Some w \<Longrightarrow> \<exists>c \<in> set (schedulers db). follows u w c"
    and "\<And>u. u \<in> set (versions db) \<Longrightarrow> version_id u = version_id v \<Longrightarrow> scheduled_activation_at u = scheduled_activation_at v"
  shows "plans_followed (create_activation_scheduler v user db)"
  unfolding plans_followed_def
proof (intro ballI allI impI)
  fix u w assume u: "u \<in> set (versions (create_activation_scheduler v user db))" "scheduled_activation_at u = Some w"
  then have u': "u \<in> set (versions db)" by simp
  show "\<exists>c \<in> set (schedulers (create_activation_scheduler v user db)). follows u w c"
  proof (cases "version_id u = version_id v")
    case True
    then have "scheduled_activation_at v = Some w" using assms(2) [OF u'] u(2) by simp
    then show ?thesis using True by (simp add: create_activation_scheduler_def follows_def)
  next
    case False
    then show ?thesis using assms(1) [OF u' False u(2)]
      by (auto simp: create_activation_scheduler_def split: option.split)
  qed
qed

lemma create_keeps_plans:
  assumes sound: "board_sound db" and plans: "plans_followed db" and new: "fresh_version vid db"
    and run: "create_stock_report_snapshot_version req vid fresh actor now db = Inr db'"
  shows "plans_followed db'"
proof -
  have ok: "snapshots_ok db" using sound by (simp add: board_sound_def)
  let ?v = "\<lparr>version_id = vid, version_title = cv_title req, version_active_at = None, version_closed_at = None,
    version_closed_by_id = None, scheduled_activation_at = None, keeps_active_missing = False,
    snapshot_count = int (length (live_rows db)), version_created_at = now, version_created_by_id = actor\<rparr>"
  let ?draft = "?v\<lparr>scheduled_activation_at := cv_scheduled_activation_at req, keeps_active_missing := cv_keeps_active_missing req\<rparr>"
  show ?thesis
  proof (cases "cv_draft req")
    case True
    let ?d = "db\<lparr>versions := versions db @ [?draft], snapshots := snapshots db @ map (draft_snapshot fresh vid) (live_rows db)\<rparr>"
    have "plans_followed (create_activation_scheduler ?draft actor ?d)"
    proof (rule plans_created)
      fix u w assume "u \<in> set (versions ?d)" "version_id u \<noteq> version_id ?draft" "scheduled_activation_at u = Some w"
      then show "\<exists>c \<in> set (schedulers ?d). follows u w c" using plans by (auto simp: plans_followed_def)
    next
      fix u assume u: "u \<in> set (versions ?d)" "version_id u = version_id ?draft"
      then have "u \<notin> set (versions db)" using new by (auto simp: fresh_version_def)
      then have "u = ?draft" using u(1) by simp
      then show "scheduled_activation_at u = scheduled_activation_at ?draft" by (rule arg_cong)
    qed
    then show ?thesis using run True by (auto simp: create_stock_report_snapshot_version_def Let_def)
  next
    case False
    have "db' = (board_closed actor now db)\<lparr>versions := map (closed_version actor now) (versions db) @ [?v\<lparr>version_active_at := Some now\<rparr>],
        snapshots := snapshots (board_closed actor now db) @ map (board_snapshot_of fresh vid now) (live_rows db)\<rparr>"
      using run False by (simp add: create_stock_report_snapshot_version_def Let_def close_active_version_eq(1) [OF ok])
    then show ?thesis by (intro plans_kept [OF plans]) (auto simp: plan_of_def closed_version_def)
  qed
qed

lemma delete_keeps_plans:
  assumes plans: "plans_followed db" and run: "delete_stock_report_snapshot_version vid now db = Inr db'"
  shows "plans_followed db'"
proof -
  have "db' = (cancel_activation_schedulers vid now db)\<lparr>snapshots := filter (\<lambda>s. snapshot_version_id s \<noteq> vid) (snapshots db),
      versions := filter (\<lambda>v. version_id v \<noteq> vid) (versions db)\<rparr>"
    using run by (auto simp: delete_stock_report_snapshot_version_def Let_def)
  then show ?thesis by (intro plans_cancelled [OF plans, of _ vid now]) auto
qed

lemma update_keeps_plans:
  assumes sound: "board_sound db" and plans: "plans_followed db" and run: "update_stock_report_snapshot_version vid req actor now db = Inr db'"
  shows "plans_followed db'"
proof -
  have ok: "snapshots_ok db" using sound by (simp add: board_sound_def)
  obtain v where v: "find_version vid db = Inr v" using run by (auto simp: update_stock_report_snapshot_version_def)
  then have v': "v \<in> set (versions db)" "version_id v = vid" by (auto dest: find_version_Inr)
  let ?f = "\<lambda>w. if version_id w = vid then patched req w else w"
  let ?d = "db\<lparr>versions := map ?f (versions db)\<rparr>"
  have stored: "set_version vid (\<lambda>_. patched req v) db = ?d" using set_version_map [OF ok v'(1), of "patched req"] v'(2) by simp
  have result: "db' = (if patched req v = v then db
      else if scheduled_activation_at (patched req v) \<noteq> scheduled_activation_at v then reschedule_activation (patched req v) actor now ?d else ?d)"
    using run by (auto simp: update_stock_report_snapshot_version_def v stored [symmetric] patched_def Let_def)
  have own: "u = v" if "u \<in> set (versions db)" "version_id u = vid" for u
    using row_unique [of version_id "versions db" u v] ok that v' by (simp add: snapshots_ok_def)
  have "plans_followed ?d" if same: "scheduled_activation_at (patched req v) = scheduled_activation_at v"
  proof (rule plans_kept [OF plans])
    fix w assume "w \<in> set (versions ?d)"
    then obtain u where u: "u \<in> set (versions db)" "w = ?f u" by auto
    then have "plan_of w = plan_of u" using own [OF u(1)] same by (auto simp: plan_of_def)
    then show "plan_of w \<in> plan_of ` set (versions db)" using u(1) by simp
  qed simp
  moreover have "plans_followed (reschedule_activation (patched req v) actor now ?d)"
    unfolding reschedule_activation_def
  proof (rule plans_created)
    let ?c = "cancel_activation_schedulers (version_id (patched req v)) now ?d"
    fix u w assume u: "u \<in> set (versions ?c)" "version_id u \<noteq> version_id (patched req v)" "scheduled_activation_at u = Some w"
    then have "u \<in> set (versions db)" using v'(2) by (auto split: if_splits)
    then obtain c where c: "c \<in> set (schedulers db)" "follows u w c" using plans u(3) unfolding plans_followed_def by blast
    then have "\<not> active_scheduler (version_id (patched req v)) c" using u(2) by (auto simp: follows_def active_scheduler_def)
    then have "c \<in> set (schedulers ?c)" using c(1) by (auto simp: cancel_activation_schedulers_def update_where_set intro!: bexI [of _ c])
    then show "\<exists>c \<in> set (schedulers ?c). follows u w c" using c(2) by blast
  next
    fix u assume u: "u \<in> set (versions (cancel_activation_schedulers (version_id (patched req v)) now ?d))" "version_id u = version_id (patched req v)"
    then obtain x where "x \<in> set (versions db)" "version_id x = vid" "u = patched req x" using v'(2) by (auto split: if_splits)
    then show "scheduled_activation_at u = scheduled_activation_at (patched req v)" using own by blast
  qed
  ultimately show ?thesis using result plans by auto
qed

lemma skip_keeps_plans:
  assumes "plans_followed db"
  shows "plans_followed (skip_activation vid now db)"
proof (rule plans_cancelled [OF assms, of _ vid now])
  show "schedulers (skip_activation vid now db) = schedulers (cancel_activation_schedulers vid now db)"
    by (simp add: skip_activation_def cancel_activation_schedulers_def set_version_def)
next
  fix v assume "v \<in> set (versions (skip_activation vid now db))" "scheduled_activation_at v \<noteq> None"
  then show "version_id v \<noteq> vid \<and> plan_of v \<in> plan_of ` set (versions db)"
    by (auto simp: skip_activation_def cancel_activation_schedulers_def set_version_def update_where_def split: if_splits)
qed

lemma activate_keeps_plans:
  assumes sound: "board_sound db" and plans: "plans_followed db" and fresh: "fresh_snapshots fresh vid db"
    and run: "activate_stock_report_snapshot_version vid keep expected fresh hid actor now db = Inr (db', skipped)"
  shows "plans_followed db'"
proof -
  obtain b where b: "snapshots_ok db" "covered db" "shows_board b (snapshots db)" using sound by (rule board_soundE)
  obtain v r where v: "find_version vid db = Inr v" "is_version_draft v"
      "(case expected of None \<Rightarrow> Inr None | Some e \<Rightarrow> supersede_reason v e now db) = Inr r"
    using run by (auto simp: activate_stock_report_snapshot_version_def Let_def)
  have v': "v \<in> set (versions db)" "version_id v = vid" using v(1) by (auto dest: find_version_Inr)
  show ?thesis
  proof (cases r)
    case None
    have fresh': "fresh_snapshots fresh (version_id v) db" using fresh v'(2) by simp
    from activation_published [OF b(1,3,2) v'(1) v(2) fresh' v(3) [unfolded None], where keep = keep and actor = actor and hid = hid]
    obtain keep' hs where db': "db' = (published vid keep' fresh actor now db)\<lparr>histories := hs\<rparr>" using run v'(2) by auto
    have "plans_followed (published vid keep' fresh actor now db)"
    proof (rule plans_cancelled [OF plans published_versions(2)])
      fix w assume w: "w \<in> set (versions (published vid keep' fresh actor now db))" "scheduled_activation_at w \<noteq> None"
      obtain n where "versions (published vid keep' fresh actor now db) = map (\<lambda>w. stamped_version vid now n (closed_version actor now w)) (versions db)"
        using published_versions(1) by blast
      then show "version_id w \<noteq> vid \<and> plan_of w \<in> plan_of ` set (versions db)"
        using w by (auto simp: stamped_version_def closed_version_def plan_of_def split: if_splits)
    qed
    then show ?thesis unfolding db' by (rule plans_frame) simp_all
  next
    case (Some reason)
    then show ?thesis using run v skip_keeps_plans [OF plans] plans
      by (cases reason) (auto simp: activate_stock_report_snapshot_version_def Let_def)
  qed
qed

lemma fire_keeps_plans:
  assumes "board_sound db" "plans_followed db" "fresh_snapshots fresh vid db"
    "handle_activate_stock_report_snapshot_version vid w fresh hid actor now db = Inr db'"
  shows "plans_followed db'"
proof (cases "activate_stock_report_snapshot_version vid False (Some (Some w)) fresh hid actor now db")
  case (Inl e)
  then show ?thesis using assms(2,4) by (simp add: handle_activate_stock_report_snapshot_version_def split: if_splits)
next
  case (Inr x)
  then show ?thesis using activate_keeps_plans [OF assms(1-3)] assms(4)
    by (cases x) (auto simp: handle_activate_stock_report_snapshot_version_def)
qed

lemma fire_due_keeps_plans:
  assumes "plans_followed db"
  shows "plans_followed (fire_due_schedulers picked now db)"
  unfolding plans_followed_def
proof (intro ballI allI impI)
  let ?db = "fire_due_schedulers picked now db"
  fix v w assume "v \<in> set (versions ?db)" "scheduled_activation_at v = Some w"
  then obtain c where c: "c \<in> set (schedulers db)" "follows v w c" using assms by (auto simp: plans_followed_def fire_due_schedulers_def)
  let ?f = "\<lambda>c. if scheduler_state c = SchedulerACTIVE \<and> scheduled_for c \<le> now \<and> scheduler_version_id c \<in> set picked
    then c\<lparr>scheduler_state := SchedulerFIRED\<rparr> else c"
  have "?f c \<in> set (schedulers ?db)" using c(1) by (simp add: fire_due_schedulers_def update_where_def)
  moreover have "follows v w (?f c)" using c(2) by (simp add: follows_def)
  ultimately show "\<exists>c \<in> set (schedulers ?db). follows v w c" by blast
qed

lemma refresh_keeps_plans:
  assumes sound: "board_sound db" and plans: "plans_followed db"
    and run: "refresh_stock_report_snapshot_version_requested vid keep fresh hid actor now db = Inr (db', n)"
  shows "plans_followed db'"
proof -
  have ok: "snapshots_ok db" using sound by (simp add: board_sound_def)
  let ?d1 = "refreeze vid actor now db"
  obtain v d2 m where v: "find_version vid db = Inr v" "is_version_active v" and d2: "drop_overrides keep vid (live_rows db) hid actor now ?d1 = Inr (d2, m)"
    using run by (auto simp: refresh_stock_report_snapshot_version_requested_def Let_def)
  obtain g hs where "d2 = ?d1\<lparr>snapshots := map g (snapshots ?d1), histories := hs\<rparr>" using drop_overrides_eq [OF d2] by auto
  then have frame: "versions d2 = versions db" "schedulers d2 = schedulers db" by (simp_all add: refreeze_eq [OF ok])
  let ?added = "filter (\<lambda>r. row_id r \<notin> snapshot_row_id ` set (filter (\<lambda>s. snapshot_version_id s = vid) (snapshots d2))) (live_rows db)"
  let ?d3 = "d2\<lparr>snapshots := snapshots d2 @ map (board_snapshot_of fresh vid (the (version_active_at v))) ?added\<rparr>"
  let ?d4 = "if ?added = [] then d2 else set_version vid (\<lambda>v. v\<lparr>snapshot_count := count_snapshots vid ?d3\<rparr>) ?d3"
  have "db' = clamp_version_missing_quantities vid now actor ?d4"
    using run d2 unfolding refresh_stock_report_snapshot_version_requested_def Let_def v(1) by (auto simp: v(2))
  then have "versions db' = versions ?d4" "schedulers db' = schedulers ?d4" by (simp_all add: clamp_version_missing_quantities_def)
  moreover have "schedulers ?d4 = schedulers db" using frame by (simp add: set_version_def)
  moreover have "plan_of w \<in> plan_of ` set (versions db)" if "w \<in> set (versions ?d4)" for w
    using that frame by (auto simp: set_version_def update_where_def plan_of_def image_image split: if_splits)
  ultimately show ?thesis by (intro plans_kept [OF plans]) simp_all
qed

lemma record_history_frame:
  "record_history write h db = Inr db' \<Longrightarrow> versions db' = versions db \<and> schedulers db' = schedulers db"
  by (cases h) (auto simp: record_history_def split: if_splits)

lemma missing_frame:
  assumes run: "set_stock_report_item_snapshot_missing_quantity rid vid target actor now db = Inr db'"
  shows "versions db' = versions db \<and> schedulers db' = schedulers db"
proof -
  obtain s :: item_snapshot where "(if target = snapshot_missing s then Inr db
      else Inr (write_snapshot (snapshot_id s) (\<lambda>u. u\<lparr>snapshot_missing := target\<rparr>) actor now db)) = (Inr db' :: stock_db result)"
    using run unfolding set_stock_report_item_snapshot_missing_quantity_def rbind_eq_Inr split_paired_Ex prod.case
    by (elim exE conjE) (rule that, assumption)
  then show ?thesis by (auto simp: write_snapshot_def split: if_splits)
qed

lemma override_frame:
  assumes run: "set_stock_report_item_snapshot_requested_quantity rid vid target actor now hid db = Inr db'"
  shows "versions db' = versions db \<and> schedulers db' = schedulers db"
proof -
  obtain r t v s where found: "lock_live_row rid db = Inr r" "discover_target_snapshot rid (Some vid) db = Inr t"
      "check_locked_target t (List.find (\<lambda>s. snapshot_id s = snapshot_id (target_found t)) (snapshots db)) db = Inr (v, s)"
    using run by (auto simp: set_stock_report_item_snapshot_requested_quantity_def Let_def)
  let ?clamped = "clamp_snapshot_missing_quantity rid now actor (write_snapshot (snapshot_id s) (\<lambda>u. u\<lparr>requested_manual := target\<rparr>) actor now db)"
  have frame: "versions ?clamped = versions db" "schedulers ?clamped = schedulers db"
    by (simp_all add: clamp_snapshot_missing_quantity_def write_snapshot_def)
  show ?thesis
    using run frame unfolding set_stock_report_item_snapshot_requested_quantity_def Let_def found rbind_Inr prod.case
    by (cases "load_version_snapshot rid vid ?clamped") (auto simp: write_snapshot_def split: if_splits dest!: record_history_frame)
qed

lemma priority_frame:
  assumes run: "set_stock_report_item_priority rid vid target actor now hid db = Inr db'"
  shows "versions db' = versions db \<and> schedulers db' = schedulers db"
proof -
  obtain r t v s where found: "find_row rid db = Inr r" "discover_target_snapshot rid vid db = Inr t"
      "check_locked_target t (List.find (\<lambda>s. snapshot_id s = snapshot_id (target_found t))
         (lock_snapshot_and_groups (target_version_id t) (snapshot_id (target_found t)) [snapshot_priority (target_found t), target] db)) db = Inr (v, s)"
    using run by (auto simp: set_stock_report_item_priority_def Let_def)
  show ?thesis
    using run unfolding set_stock_report_item_priority_def Let_def found rbind_Inr prod.case
    by (auto split: if_splits dest!: record_history_frame)
qed

lemma order_frame:
  assumes run: "set_stock_report_item_priority_order rid vid target actor now hid db = Inr db'"
  shows "versions db' = versions db \<and> schedulers db' = schedulers db"
proof -
  obtain r t v s where found: "find_row rid db = Inr r" "discover_target_snapshot rid vid db = Inr t"
      "check_locked_target t (List.find (\<lambda>s. snapshot_id s = snapshot_id (target_found t))
         (lock_snapshot_and_groups (target_version_id t) (snapshot_id (target_found t)) [snapshot_priority (target_found t)] db)) db = Inr (v, s)"
    using run by (auto simp: set_stock_report_item_priority_order_def Let_def)
  show ?thesis
    using run unfolding set_stock_report_item_priority_order_def Let_def found rbind_Inr prod.case
    by (cases "snapshot_priority s"; cases "priority_order s") (auto split: if_splits dest!: record_history_frame)
qed

lemma merge_frame:
  "apply_stock_report_snapshot_version_priorities source_id target_id actor now hid db = Inr (db', rows) \<Longrightarrow>
     versions db' = versions db \<and> schedulers db' = schedulers db"
  by (auto simp: apply_stock_report_snapshot_version_priorities_def Let_def split: option.splits if_splits dest!: record_merged_keeps)

lemma command_keeps_plans:
  assumes "board_sound db" "plans_followed db" "generates_fresh fresh cmd db" "run_command fresh hid actor now cmd db = Inr db'"
  shows "plans_followed db'"
proof (cases cmd)
  case (SetMissing rid vid m)
  then show ?thesis using assms(4) plans_frame [OF assms(2)] missing_frame by auto
next
  case (SetRequested rid vid m)
  then show ?thesis using assms(4) plans_frame [OF assms(2)] override_frame by auto
next
  case (SetPriority rid vid m)
  then show ?thesis using assms(4) plans_frame [OF assms(2)] priority_frame by auto
next
  case (SetPriorityOrder rid vid m)
  then show ?thesis using assms(4) plans_frame [OF assms(2)] order_frame by auto
next
  case (MergePriorities source target)
  then show ?thesis using assms(4) plans_frame [OF assms(2)] merge_frame by auto
qed (use assms in \<open>auto intro: create_keeps_plans delete_keeps_plans update_keeps_plans activate_keeps_plans fire_due_keeps_plans
    fire_keeps_plans refresh_keeps_plans\<close>)

lemma history_keeps_plans: "board_history start db \<Longrightarrow> board_sound start \<Longrightarrow> plans_followed start \<Longrightarrow> plans_followed db"
proof (induction rule: board_history.induct)
  case (committed db fresh cmd hid actor now db')
  then show ?case using command_keeps_plans [OF history_keeps_sound] by blast
qed

definition no_versions :: "stock_db \<Rightarrow> bool" where
  "no_versions db \<longleftrightarrow> distinct (map row_id (stock_rows db)) \<and> versions db = [] \<and> snapshots db = [] \<and> schedulers db = []"

lemma no_versions_sound: "no_versions db \<Longrightarrow> board_sound db"
  by (rule board_soundI [of _ "\<lambda>_ _. []"])
    (auto simp: no_versions_def snapshots_ok_def covered_def schedules_ok_def shows_board_def slots_def)


definition history_start :: stock_db where
  "history_start = board_store\<lparr>versions := [], snapshots := []\<rparr>"

definition planned_request :: create_version_request where
  "planned_request = \<lparr>cv_draft = True, cv_title = None, cv_scheduled_activation_at = Some 7, cv_keeps_active_missing = True\<rparr>"

definition or_start :: "stock_db result \<Rightarrow> stock_db" where
  "or_start x = (case x of Inl _ \<Rightarrow> history_start | Inr db \<Rightarrow> db)"

definition drafted_store :: stock_db where
  "drafted_store = or_start (run_command board_fresh id None 5 (CreateVersion planned_request ''d'') history_start)"

definition live_store :: stock_db where
  "live_store = or_start (run_command (\<lambda>vid rid. CHR ''m'' # rid) id None 8 (FireSchedule ''d'' 7) drafted_store)"

lemma or_start_Inr: "\<not> isl x \<Longrightarrow> x = Inr (or_start x)"
  by (cases x) (simp_all add: or_start_def)

lemma drafted_store_run: "run_command board_fresh id None 5 (CreateVersion planned_request ''d'') history_start = Inr drafted_store"
  unfolding drafted_store_def by (rule or_start_Inr) code_simp

lemma live_store_run: "run_command (\<lambda>vid rid. CHR ''m'' # rid) id None 8 (FireSchedule ''d'' 7) drafted_store = Inr live_store"
  unfolding live_store_def by (rule or_start_Inr) code_simp

lemma drafted_snapshots: "map snapshot_id (snapshots drafted_store) = [''nr1'', ''nr2'', ''nr3'']"
  by code_simp

lemma drafted_fresh:
  "generates_fresh board_fresh (CreateVersion planned_request ''d'') history_start"
  "generates_fresh (\<lambda>vid rid. CHR ''m'' # rid) (FireSchedule ''d'' 7) drafted_store"
proof -
  show "generates_fresh board_fresh (CreateVersion planned_request ''d'') history_start"
    by (simp add: fresh_snapshots_def fresh_version_def board_fresh_def inj_def history_start_def)
  have "snapshot_id ` set (snapshots drafted_store) = {''nr1'', ''nr2'', ''nr3''}"
    using arg_cong [OF drafted_snapshots, of set] by simp
  then show "generates_fresh (\<lambda>vid rid. CHR ''m'' # rid) (FireSchedule ''d'' 7) drafted_store"
    by (auto simp: fresh_snapshots_def inj_def)
qed


end
