(* ===== verification/StockDemand.thy ===== *)
theory StockDemand
  imports StockBoardHistory StockCreation StockRequests
begin

text \<open>
  The demand webhook of the stock report (\<open>apply_stock_demand.py\<close> and \<open>receive_stock_demand_webhook.py\<close> over
  \<open>_demand_lookup.py\<close>, under \<open>services/commands/stock_report/\<close>): every entry names a category and criteria, the row with
  that identity is found or created, and its requested quantity becomes the one of the entry. A new row joins every draft,
  and an increase opens a goal record. Rows are locked in one transaction; that another transaction inserts an identity
  between the lookup and the insert is not modelled, and the time limit of the request is a parameter.
\<close>

section \<open>Looking up\<close>

definition row_identity :: "stock_row \<Rightarrow> string \<times> string" where
  "row_identity r = (row_category_id r, row_signature r)"

definition resolve_category :: "stock_category list \<Rightarrow> (string \<times> string option) list \<Rightarrow> 'a demand_delete_entry_scheme \<Rightarrow> (string \<times> string option) list" where
  "resolve_category candidates resolved e =
     (if item_category_key e \<in> fst ` set resolved then resolved
      else AList.update (item_category_key e)
        (case filter (\<lambda>c. stock_category_name c = strip (item_category_raw e)) candidates of
           [c] \<Rightarrow> Some (stock_category_id c)
         | _ \<Rightarrow>
             (case filter (\<lambda>c. lower (stock_category_name c) = item_category_key e) candidates of
                [c] \<Rightarrow> Some (stock_category_id c)
              | _ \<Rightarrow> None)) resolved)"

definition resolve_categories_for_entries :: "'a demand_delete_entry_scheme list \<Rightarrow> stock_category list \<Rightarrow> (string \<times> string option) list" where
  "resolve_categories_for_entries entries cats =
     foldl (resolve_category (filter (\<lambda>c. \<not> stock_category_is_deleted c
       \<and> lower (stock_category_name c) \<in> item_category_key ` set entries) cats)) [] entries"

definition category_of :: "(string \<times> string option) list \<Rightarrow> 'a demand_delete_entry_scheme \<Rightarrow> string option" where
  \<comment> \<open>\<open>category_by_key.get(entry.item_category_key)\<close>\<close>
  "category_of category_by_key e = (case map_of category_by_key (item_category_key e) of None \<Rightarrow> None | Some c \<Rightarrow> c)"

definition discover_live_rows_by_identity :: "(string \<times> string) list \<Rightarrow> stock_row list \<Rightarrow> ((string \<times> string) \<times> string) list" where
  "discover_live_rows_by_identity identities rows =
     dict_of (map (\<lambda>r. (row_identity r, row_id r)) (filter (\<lambda>r. \<not> row_is_deleted r \<and> row_identity r \<in> set identities) rows))"

section \<open>New rows\<close>

definition new_row :: "string \<Rightarrow> string \<times> string \<Rightarrow> (string \<times> json) list \<Rightarrow> stock_row" where
  "new_row rid identity properties =
     \<lparr>quantity_in_queue = 0, quantity_in_progress = 0, quantity_awaiting = 0, row_id = rid, row_category_id = fst identity,
      row_properties = properties, row_signature = snd identity, row_requested = 0, row_is_deleted = False,
      row_deleted_at = None, row_deleted_by_id = None, row_updated_at = None, row_updated_by_id = None\<rparr>"

definition insert_rows :: "stock_row list \<Rightarrow> stock_db \<Rightarrow> stock_db \<times> string list" where
  \<comment> \<open>\<open>ON CONFLICT DO NOTHING\<close> on the identities of the live rows, \<open>RETURNING\<close> the identifiers\<close>
  "insert_rows rows db =
     (let added = filter (\<lambda>r. row_identity r \<notin> row_identity ` set (filter (\<lambda>r. \<not> row_is_deleted r) (stock_rows db))) rows in
      (db\<lparr>stock_rows := stock_rows db @ added\<rparr>, map row_id added))"

definition missing_pairs :: "(string \<times> stock_row) list \<Rightarrow> stock_db \<Rightarrow> (string \<times> stock_row) list" where
  "missing_pairs pairs db =
     filter (\<lambda>(vid, r). (vid, row_id r) \<notin> set (map (\<lambda>s. (snapshot_version_id s, snapshot_row_id s)) (snapshots db))) pairs"

definition add_rows_to_every_draft :: "(string \<Rightarrow> string \<Rightarrow> string) \<Rightarrow> stock_row list \<Rightarrow> stock_db \<Rightarrow> stock_db" where
  "add_rows_to_every_draft fresh rows db =
     (let drafts = sort (map version_id (filter is_version_draft (versions db))) in
      if drafts = [] \<or> rows = [] then db
      else
        let pairs = List.product drafts rows; inserted = missing_pairs pairs db; db = insert_drafts fresh pairs db in
        db\<lparr>versions := map (\<lambda>v. v\<lparr>snapshot_count := snapshot_count v
             + int (length (filter (\<lambda>(vid, _). vid = version_id v) inserted))\<rparr>) (versions db)\<rparr>)"

section \<open>The command\<close>

datatype demand_outcome = APPLIED | CATEGORY_NOT_FOUND

definition entries_by_identity :: "(string \<times> string option) list \<Rightarrow> demand_entry list \<Rightarrow> ((string \<times> string) \<times> demand_entry) list" where
  "entries_by_identity category_by_key entries = dict_of (List.map_filter (\<lambda>e.
     map_option (\<lambda>c. ((c, properties_signature e), e)) (category_of category_by_key e)) entries)"

definition goal_record :: "(string \<Rightarrow> string) \<Rightarrow> int \<Rightarrow> stock_db \<Rightarrow> string \<times> int \<Rightarrow> history_record" where
  "goal_record hid now db p =
     (case p of (rid, q) \<Rightarrow>
        let active = load_active_snapshot rid db in
        \<lparr>history_id = hid rid, history_row_id = rid, history_type = HistQUANTITY_REQUESTED_CHANGE, history_requested = q,
         history_source = ReqSCANNER, history_awaiting = 0, history_priority = Option.bind active snapshot_priority,
         history_priority_order = Option.bind active priority_order, history_created_at = now, history_created_by_id = None,
         history_is_deleted = False, history_deleted_at = None, history_deleted_by_id = None\<rparr>)"

definition set_requested :: "(string \<times> int) list \<Rightarrow> stock_db \<Rightarrow> stock_db" where
  \<comment> \<open>\<open>UPDATE \<dots> SET quantity_requested = v.q FROM (VALUES \<dots>) AS v(id, q)\<close>\<close>
  "set_requested to_update db = db\<lparr>stock_rows := map (\<lambda>r. case map_of to_update (row_id r) of
     None \<Rightarrow> r | Some q \<Rightarrow> r\<lparr>row_requested := q\<rparr>) (stock_rows db)\<rparr>"

definition apply_stock_demand ::
    "bool \<Rightarrow> bool \<Rightarrow> (string \<times> string \<Rightarrow> string) \<Rightarrow> (string \<Rightarrow> string \<Rightarrow> string) \<Rightarrow> (string \<Rightarrow> string) \<Rightarrow> demand_entry list \<Rightarrow> int \<Rightarrow> stock_db
      \<Rightarrow> (stock_db \<times> (demand_entry \<times> demand_outcome) list) result" where
  "apply_stock_demand workspace_known timely fresh_row fresh hid entries now db =
     rbind (rguard workspace_known LocationTrackerWebhookAuthError) (\<lambda>_.
     let category_by_key = resolve_categories_for_entries entries (categories db);
         outcomes = map (\<lambda>e. (e, if category_of category_by_key e = None then CATEGORY_NOT_FOUND else APPLIED)) entries;
         wanted = entries_by_identity category_by_key entries;
         existing = discover_live_rows_by_identity (map fst wanted) (stock_rows db);
         absent = sort (filter (\<lambda>i. i \<notin> fst ` set existing) (map fst wanted));
         (db, created) = insert_rows (map (\<lambda>i. new_row (fresh_row i) i (properties_normalized (the (map_of wanted i)))) absent) db;
         locked_rows = sort_key row_id (filter (\<lambda>r. \<not> row_is_deleted r \<and> row_identity r \<in> fst ` set wanted) (stock_rows db));
         locked_by_identity = dict_of (map (\<lambda>r. (row_identity r, r)) locked_rows) in
     rbind (rguard (length locked_by_identity = length wanted) (RuntimeError ''stock demand identity vanished under lock'')) (\<lambda>_.
     rbind (rmap (\<lambda>(i, e). case map_of locked_by_identity i of None \<Rightarrow> Inl (KeyError (fst i)) | Some r \<Rightarrow> Inr (e, r)) wanted) (\<lambda>pairs.
     let db = add_rows_to_every_draft fresh (filter (\<lambda>r. row_id r \<in> set created) (map snd pairs)) db;
         changed = filter (\<lambda>(e, r). quantity_requested e \<noteq> row_requested r) pairs;
         to_update = map (\<lambda>(e, r). (row_id r, quantity_requested e)) changed;
         to_credit = map (\<lambda>(e, r). (row_id r, quantity_requested e)) (filter (\<lambda>(e, r). row_requested r < quantity_requested e) changed);
         db = set_requested to_update db;
         db = db\<lparr>histories := histories db @ map (goal_record hid now db) to_credit\<rparr> in
     rbind (rguard timely StockDemandDeadlineExceeded) (\<lambda>_. Inr (db, outcomes)))))"

definition receive_stock_demand_webhook ::
    "string option \<Rightarrow> string option \<Rightarrow> (string \<times> string) list \<Rightarrow> request_body \<Rightarrow> (string \<Rightarrow> string) \<Rightarrow> (string \<Rightarrow> bool) \<Rightarrow> bool
      \<Rightarrow> (string \<times> string \<Rightarrow> string) \<Rightarrow> (string \<Rightarrow> string \<Rightarrow> string) \<Rightarrow> (string \<Rightarrow> string) \<Rightarrow> int \<Rightarrow> stock_db
      \<Rightarrow> (stock_db \<times> (string \<times> (string \<times> json) list \<times> demand_outcome) list) result" where
  "receive_stock_demand_webhook api_key configured headers raw digest workspace_known timely fresh_row fresh hid now db =
     rbind (verify_location_tracker_webhook api_key configured headers) (\<lambda>workspace_id.
     rbind (parse_stock_demand_body digest raw) (\<lambda>entries.
     rbind (apply_stock_demand (workspace_known workspace_id) timely fresh_row fresh hid entries now db) (\<lambda>(db, outcomes).
     let outcome_by_index = dict_of (map (\<lambda>(e, outcome). (demand_index e, (item_category_raw e, properties_raw e, outcome))) outcomes) in
     Inr (db, map snd (sort_key fst outcome_by_index)))))"

section \<open>What the lookups find\<close>

definition resolve_alone :: "stock_category list \<Rightarrow> 'a demand_delete_entry_scheme \<Rightarrow> string option" where
  \<comment> \<open>the category of an entry by itself: the exact name, else the only name up to case\<close>
  "resolve_alone cats e =
     (case filter (\<lambda>c. \<not> stock_category_is_deleted c \<and> stock_category_name c = strip (item_category_raw e)) cats of
        [c] \<Rightarrow> Some (stock_category_id c)
      | _ \<Rightarrow>
          (case filter (\<lambda>c. \<not> stock_category_is_deleted c \<and> lower (stock_category_name c) = item_category_key e) cats of
             [c] \<Rightarrow> Some (stock_category_id c)
           | _ \<Rightarrow> None))"

definition keyed_entry :: "'a demand_delete_entry_scheme \<Rightarrow> bool" where
  "keyed_entry e \<longleftrightarrow> item_category_key e = lower (strip (item_category_raw e))"

lemma resolve_category_keys [simp]:
  "fst ` set (resolve_category candidates resolved e) = insert (item_category_key e) (fst ` set resolved)"
proof (cases "item_category_key e \<in> fst ` set resolved")
  case True
  then show ?thesis unfolding resolve_category_def if_P [OF True] by blast
next
  case False
  show ?thesis unfolding resolve_category_def if_not_P [OF False] dom_update by simp
qed

lemma resolve_loop:
  assumes "\<forall>e \<in> set es. keyed_entry e"
    and "item_category_key ` set es \<subseteq> keys"
  shows "map_of (foldl (resolve_category (filter (\<lambda>c. \<not> stock_category_is_deleted c \<and> lower (stock_category_name c) \<in> keys) cats)) resolved es) k =
    (case map_of resolved k of Some x \<Rightarrow> Some x
     | None \<Rightarrow> map_option (resolve_alone cats) (List.find (\<lambda>e. item_category_key e = k) es))"
  using assms
proof (induction es arbitrary: resolved)
  case (Cons e es)
  let ?candidates = "filter (\<lambda>c. \<not> stock_category_is_deleted c \<and> lower (stock_category_name c) \<in> keys) cats"
  have exact: "filter (\<lambda>c. stock_category_name c = strip (item_category_raw e)) ?candidates
      = filter (\<lambda>c. \<not> stock_category_is_deleted c \<and> stock_category_name c = strip (item_category_raw e)) cats"
    unfolding filter_filter by (rule filter_cong) (use Cons.prems in \<open>auto simp: keyed_entry_def\<close>)
  have folded: "filter (\<lambda>c. lower (stock_category_name c) = item_category_key e) ?candidates
      = filter (\<lambda>c. \<not> stock_category_is_deleted c \<and> lower (stock_category_name c) = item_category_key e) cats"
    unfolding filter_filter by (rule filter_cong) (use Cons.prems in auto)
  have step: "resolve_category ?candidates resolved e =
      (if item_category_key e \<in> fst ` set resolved then resolved else AList.update (item_category_key e) (resolve_alone cats e) resolved)"
    unfolding resolve_category_def exact folded resolve_alone_def by (rule refl)
  have "map_of (resolve_category ?candidates resolved e) k =
      (case map_of resolved k of Some x \<Rightarrow> Some x | None \<Rightarrow> if item_category_key e = k then Some (resolve_alone cats e) else None)"
    by (auto simp: step update_conv' split: option.split) (force dest: map_of_SomeD simp: map_of_eq_None_iff)+
  then show ?case
    using Cons.IH [of "resolve_category ?candidates resolved e"] Cons.prems by (auto split: option.split)
qed (simp split: option.split)

lemma category_of_resolved:
  assumes "\<forall>e \<in> set entries. keyed_entry e" "e \<in> set entries"
  shows "category_of (resolve_categories_for_entries entries cats) e
    = Option.bind (List.find (\<lambda>f. item_category_key f = item_category_key e) entries) (resolve_alone cats)"
proof -
  obtain f where "List.find (\<lambda>f. item_category_key f = item_category_key e) entries = Some f"
    using assms(2) by (metis (mono_tags, lifting) find_None_iff not_None_eq)
  then show ?thesis
    using resolve_loop [of entries "item_category_key ` set entries" cats "[]" "item_category_key e"] assms(1)
    by (simp add: category_of_def resolve_categories_for_entries_def)
qed

lemma resolve_alone_key:
  assumes "keyed_entry e" "resolve_alone cats e = Some i"
  obtains c where "c \<in> set cats" "stock_category_id c = i" "lower (stock_category_name c) = item_category_key e"
proof -
  have "\<exists>c. c \<in> set cats \<and> stock_category_id c = i \<and> lower (stock_category_name c) = item_category_key e"
    using assms by (auto simp: resolve_alone_def keyed_entry_def split: list.splits dest!: filter_eq_singletonD)
  then show ?thesis using that by blast
qed

text \<open>C39: the category of an entry is resolved by the spelling of the first entry of the request that agrees with it up to
  case and blanks. So of two categories whose names differ in case only, an entry that spells the second exactly is filed
  under the first when an earlier entry spells that one, and is refused when an earlier entry spells neither.\<close>

theorem first_spelling_decides_category:
  assumes entries: "\<forall>e \<in> set entries. keyed_entry e" "entries = before @ first # between @ later # after"
    and key: "item_category_key first = item_category_key later" "\<forall>e \<in> set before. item_category_key e \<noteq> item_category_key later"
    and names: "distinct (map stock_category_name (filter (\<lambda>c. \<not> stock_category_is_deleted c) cats))"
    and two: "c \<in> set cats" "d \<in> set cats" "\<not> stock_category_is_deleted c" "\<not> stock_category_is_deleted d" "c \<noteq> d"
      "lower (stock_category_name c) = item_category_key later" "strip (item_category_raw later) = stock_category_name d"
      "lower (stock_category_name d) = item_category_key later"
  shows "resolve_alone cats later = Some (stock_category_id d)
    \<and> category_of (resolve_categories_for_entries entries cats) later = resolve_alone cats first
    \<and> (strip (item_category_raw first) = stock_category_name c \<longrightarrow> resolve_alone cats first = Some (stock_category_id c))
    \<and> (strip (item_category_raw first) \<notin> stock_category_name ` set cats \<longrightarrow> resolve_alone cats first = None)"
proof -
  have exact: "filter (\<lambda>x. \<not> stock_category_is_deleted x \<and> stock_category_name x = stock_category_name y) cats = [y]"
    if "y \<in> set cats" "\<not> stock_category_is_deleted y" for y
    using filter_key_unique [of stock_category_name "filter (\<lambda>c. \<not> stock_category_is_deleted c) cats" y "\<lambda>_. True"] names that
    by (simp add: conj_commute)
  have "List.find (\<lambda>f. item_category_key f = item_category_key later) entries = Some first"
    using key entries(2) by (induction before arbitrary: entries) auto
  then have found: "category_of (resolve_categories_for_entries entries cats) later = resolve_alone cats first"
    using category_of_resolved [OF entries(1), of later] entries(2) by simp
  have "resolve_alone cats first = None" if "strip (item_category_raw first) \<notin> stock_category_name ` set cats"
  proof -
    have none: "filter (\<lambda>x. \<not> stock_category_is_deleted x \<and> stock_category_name x = strip (item_category_raw first)) cats = []"
      using that by (force simp: filter_empty_conv)
    let ?same = "filter (\<lambda>x. \<not> stock_category_is_deleted x \<and> lower (stock_category_name x) = item_category_key first) cats"
    have "{c, d} \<subseteq> set ?same" using two key(1) by simp
    then have "?same \<noteq> [x]" for x using two(5) by (metis empty_set insert_subset list.simps(15) singletonD)
    then show ?thesis unfolding resolve_alone_def none by (auto split: list.split)
  qed
  then show ?thesis
    using found exact [OF two(1,3)] exact [OF two(2,4)] two(7) by (simp add: resolve_alone_def)
qed

section \<open>What the command does\<close>

definition live_row :: "stock_db \<Rightarrow> string \<times> string \<Rightarrow> stock_row option" where
  "live_row db i = List.find (\<lambda>r. \<not> row_is_deleted r \<and> row_identity r = i) (stock_rows db)"

definition requested_of :: "stock_db \<Rightarrow> string \<times> string \<Rightarrow> int option" where
  "requested_of db i = map_option row_requested (live_row db i)"

definition identities_ok :: "stock_db \<Rightarrow> bool" where
  \<comment> \<open>\<open>uix_stock_report_items_identity_active\<close>\<close>
  "identities_ok db \<longleftrightarrow> distinct (map row_identity (filter (\<lambda>r. \<not> row_is_deleted r) (stock_rows db)))"

definition wanted_entries :: "demand_entry list \<Rightarrow> stock_db \<Rightarrow> ((string \<times> string) \<times> demand_entry) list" where
  "wanted_entries entries db = entries_by_identity (resolve_categories_for_entries entries (categories db)) entries"

lemma live_row_in: "live_row db i = Some r \<Longrightarrow> r \<in> set (stock_rows db) \<and> \<not> row_is_deleted r \<and> row_identity r = i"
  by (auto simp: live_row_def dest: find_Some_in)

lemma live_row_None: "live_row db i = None \<longleftrightarrow> (\<forall>r \<in> set (stock_rows db). \<not> row_is_deleted r \<longrightarrow> row_identity r \<noteq> i)"
  by (auto simp: live_row_def find_None_iff)

lemma live_row_eq: "identities_ok db \<Longrightarrow> r \<in> set (stock_rows db) \<Longrightarrow> \<not> row_is_deleted r \<Longrightarrow> live_row db (row_identity r) = Some r"
  unfolding live_row_def identities_ok_def by (rule find_only) (simp_all, metis (mono_tags, lifting) mem_Collect_eq row_unique set_filter)

lemma fst_dict_of [simp]: "fst ` set (dict_of xs) = fst ` set xs"
proof -
  have "fst ` set (foldl (\<lambda>d (k, v). AList.update k v d) d xs) = fst ` set d \<union> fst ` set xs" for d :: "('a \<times> 'b) list"
  proof (induction xs arbitrary: d)
    case (Cons x xs)
    show ?case unfolding foldl.simps Cons.IH by (cases x) (simp add: dom_update)
  qed simp
  then show ?thesis by (simp add: dict_of_def dict_update_def)
qed

lemma distinct_dict_of: "distinct (map fst (dict_of xs))"
proof -
  have "distinct (map fst d) \<Longrightarrow> distinct (map fst (foldl (\<lambda>d (k, v). AList.update k v d) d xs))" for d :: "('a \<times> 'b) list"
    by (induction xs arbitrary: d) (simp_all add: distinct_update split: prod.split)
  then show ?thesis by (simp add: dict_of_def dict_update_def)
qed

lemma wanted_distinct: "distinct (map fst (wanted_entries entries db))"
  by (simp add: wanted_entries_def entries_by_identity_def distinct_dict_of)

definition created_rows :: "(string \<times> string \<Rightarrow> string) \<Rightarrow> ((string \<times> string) \<times> demand_entry) list \<Rightarrow> stock_db \<Rightarrow> stock_row list" where
  "created_rows fresh_row wanted db = map (\<lambda>i. new_row (fresh_row i) i (properties_normalized (the (map_of wanted i))))
     (sort (filter (\<lambda>i. live_row db i = None) (map fst wanted)))"

definition with_rows :: "stock_row list \<Rightarrow> stock_db \<Rightarrow> stock_db" where
  "with_rows new db = db\<lparr>stock_rows := stock_rows db @ new\<rparr>"

definition demanded :: "((string \<times> string) \<times> demand_entry) list \<Rightarrow> stock_db \<Rightarrow> (demand_entry \<times> stock_row) list" where
  "demanded wanted db = map (\<lambda>(i, e). (e, the (live_row db i))) wanted"

definition changes :: "(demand_entry \<times> stock_row) list \<Rightarrow> (string \<times> int) list" where
  "changes pairs = map (\<lambda>(e, r). (row_id r, quantity_requested e)) (filter (\<lambda>(e, r). quantity_requested e \<noteq> row_requested r) pairs)"

definition increases :: "(demand_entry \<times> stock_row) list \<Rightarrow> (string \<times> int) list" where
  "increases pairs = map (\<lambda>(e, r). (row_id r, quantity_requested e)) (filter (\<lambda>(e, r). row_requested r < quantity_requested e) pairs)"

definition demand_effect ::
    "(string \<times> string \<Rightarrow> string) \<Rightarrow> (string \<Rightarrow> string \<Rightarrow> string) \<Rightarrow> (string \<Rightarrow> string) \<Rightarrow> ((string \<times> string) \<times> demand_entry) list \<Rightarrow> int
      \<Rightarrow> stock_db \<Rightarrow> stock_db" where
  "demand_effect fresh_row fresh hid wanted now db =
     (let new = created_rows fresh_row wanted db; pairs = demanded wanted (with_rows new db);
          db = add_rows_to_every_draft fresh (filter (\<lambda>r. row_id r \<in> row_id ` set new) (map snd pairs)) (with_rows new db);
          db = set_requested (changes pairs) db in
      db\<lparr>histories := histories db @ map (goal_record hid now db) (increases pairs)\<rparr>)"

definition fresh_ids :: "('i \<Rightarrow> string) \<Rightarrow> string set \<Rightarrow> bool" where
  "fresh_ids f known \<longleftrightarrow> inj f \<and> range f \<inter> known = {}"

lemma new_row_simps [simp]:
  "row_identity (new_row rid i ps) = i" "row_id (new_row rid i ps) = rid" "\<not> row_is_deleted (new_row rid i ps)" "row_requested (new_row rid i ps) = 0"
  by (simp_all add: new_row_def row_identity_def)

lemma created_identities [simp]:
  "map row_identity (created_rows fresh_row wanted db) = sort (filter (\<lambda>i. live_row db i = None) (map fst wanted))"
  by (simp add: created_rows_def comp_def)

lemma created_live [simp]: "r \<in> set (created_rows fresh_row wanted db) \<Longrightarrow> \<not> row_is_deleted r"
  by (auto simp: created_rows_def)

lemma created_of:
  assumes "r \<in> set (created_rows fresh_row wanted db)"
  shows "row_identity r \<in> fst ` set wanted" "live_row db (row_identity r) = None"
proof -
  from assms have "row_identity r \<in> set (map row_identity (created_rows fresh_row wanted db))" unfolding set_map by (rule imageI)
  then show "row_identity r \<in> fst ` set wanted" "live_row db (row_identity r) = None"
    unfolding created_identities by auto
qed

lemma created_ok:
  assumes "identities_ok db" "distinct (map fst wanted)"
  shows "identities_ok (with_rows (created_rows fresh_row wanted db) db)"
    and "i \<in> fst ` set wanted \<Longrightarrow> \<exists>r. live_row (with_rows (created_rows fresh_row wanted db) db) i = Some r"
    and "live_row (with_rows (created_rows fresh_row wanted db) db) i = (case live_row db i of
        Some r \<Rightarrow> Some r
      | None \<Rightarrow> if i \<in> fst ` set wanted then Some (new_row (fresh_row i) i (properties_normalized (the (map_of wanted i)))) else None)"
proof -
  have live: "filter (\<lambda>r. \<not> row_is_deleted r) (created_rows fresh_row wanted db) = created_rows fresh_row wanted db" by simp
  show ok: "identities_ok (with_rows (created_rows fresh_row wanted db) db)"
    using assms by (auto simp: identities_ok_def with_rows_def live live_row_None)
  show found: "live_row (with_rows (created_rows fresh_row wanted db) db) i = (case live_row db i of
        Some r \<Rightarrow> Some r
      | None \<Rightarrow> if i \<in> fst ` set wanted then Some (new_row (fresh_row i) i (properties_normalized (the (map_of wanted i)))) else None)"
  proof (cases "live_row db i")
    case (Some r)
    then show ?thesis using live_row_in [OF Some] live_row_eq [OF ok, of r] by (simp add: with_rows_def)
  next
    case None
    show ?thesis
    proof (cases "i \<in> fst ` set wanted")
      case True
      let ?r = "new_row (fresh_row i) i (properties_normalized (the (map_of wanted i)))"
      have "?r \<in> set (created_rows fresh_row wanted db)" using None True by (auto simp: created_rows_def)
      then show ?thesis using live_row_eq [OF ok, of ?r] None True by (simp add: with_rows_def)
    next
      case False
      then have "live_row (with_rows (created_rows fresh_row wanted db) db) i = None"
        using None created_of unfolding live_row_None with_rows_def by fastforce
      then show ?thesis using None False by simp
    qed
  qed
  show "\<exists>r. live_row (with_rows (created_rows fresh_row wanted db) db) i = Some r" if "i \<in> fst ` set wanted"
    unfolding found using that by (cases "live_row db i") simp_all
qed

lemma existing_identities: "fst ` set (discover_live_rows_by_identity (map fst wanted) (stock_rows db)) = {i \<in> fst ` set wanted. live_row db i \<noteq> None}"
  by (force simp: discover_live_rows_by_identity_def live_row_None)

lemma inserted_all:
  "insert_rows (created_rows fresh_row wanted db) db = (with_rows (created_rows fresh_row wanted db) db, map row_id (created_rows fresh_row wanted db))"
proof -
  have "filter (\<lambda>r. row_identity r \<notin> row_identity ` set (filter (\<lambda>r. \<not> row_is_deleted r) (stock_rows db))) (created_rows fresh_row wanted db)
      = created_rows fresh_row wanted db"
    using created_of(2) by (intro filter_True) (fastforce simp: live_row_None)
  then show ?thesis unfolding insert_rows_def with_rows_def Let_def by simp
qed

definition locked_rows_of :: "((string \<times> string) \<times> demand_entry) list \<Rightarrow> stock_db \<Rightarrow> ((string \<times> string) \<times> stock_row) list" where
  "locked_rows_of wanted db = dict_of (map (\<lambda>r. (row_identity r, r))
     (sort_key row_id (filter (\<lambda>r. \<not> row_is_deleted r \<and> row_identity r \<in> fst ` set wanted) (stock_rows db))))"

lemma locked_identities:
  assumes ok: "identities_ok db"
  shows "locked_rows_of wanted db = map (\<lambda>r. (row_identity r, r))
      (sort_key row_id (filter (\<lambda>r. \<not> row_is_deleted r \<and> row_identity r \<in> fst ` set wanted) (stock_rows db)))"
    and "i \<in> fst ` set wanted \<Longrightarrow> map_of (locked_rows_of wanted db) i = live_row db i"
    and "distinct (map fst wanted) \<Longrightarrow> \<forall>i \<in> fst ` set wanted. live_row db i \<noteq> None \<Longrightarrow> length (locked_rows_of wanted db) = length wanted"
proof -
  let ?rows = "sort_key row_id (filter (\<lambda>r. \<not> row_is_deleted r \<and> row_identity r \<in> fst ` set wanted) (stock_rows db))"
  have "distinct (map row_identity (filter (\<lambda>r. \<not> row_is_deleted r \<and> row_identity r \<in> fst ` set wanted) (stock_rows db)))"
    using ok unfolding identities_ok_def by (rule distinct_map_sub) simp
  then have "distinct (map row_identity ?rows)" by (simp add: distinct_map)
  then have keys: "distinct (map fst (map (\<lambda>r. (row_identity r, r)) ?rows))" by (simp add: comp_def)
  then show eq: "locked_rows_of wanted db = map (\<lambda>r. (row_identity r, r)) ?rows" by (simp add: locked_rows_of_def dict_of_distinct)
  show "map_of (locked_rows_of wanted db) i = live_row db i" if i: "i \<in> fst ` set wanted"
  proof (cases "live_row db i")
    case None
    then have "i \<notin> fst ` set (map (\<lambda>r. (row_identity r, r)) ?rows)" by (auto simp: live_row_None)
    then show ?thesis unfolding eq None map_of_eq_None_iff .
  next
    case (Some r)
    from live_row_in [OF Some] i have r: "r \<in> set ?rows" "row_identity r = i" by simp_all
    then have "(i, r) \<in> set (map (\<lambda>r. (row_identity r, r)) ?rows)" unfolding set_map by (intro image_eqI [of _ _ r]) simp_all
    then show ?thesis using keys unfolding eq Some by (rule map_of_is_SomeI [rotated])
  qed
  show "length (locked_rows_of wanted db) = length wanted"
    if "distinct (map fst wanted)" "\<forall>i \<in> fst ` set wanted. live_row db i \<noteq> None"
  proof -
    note held = that
    have "row_identity ` set ?rows = fst ` set wanted"
    proof
      show "fst ` set wanted \<subseteq> row_identity ` set ?rows"
      proof
        fix i assume i: "i \<in> fst ` set wanted"
        then obtain r where "live_row db i = Some r" using held(2) by blast
        from live_row_in [OF this] i have "r \<in> set ?rows" "row_identity r = i" by simp_all
        then show "i \<in> row_identity ` set ?rows" by (intro image_eqI [of _ _ r]) simp_all
      qed
    qed (rule image_subsetI, simp)
    then have "set (map fst (map (\<lambda>r. (row_identity r, r)) ?rows)) = set (map fst wanted)" by (simp add: image_image)
    from distinct_card [OF keys] distinct_card [OF held(1)] this show ?thesis by (simp add: eq)
  qed
qed

lemma demand_reaches:
  assumes ok: "identities_ok db" and wanted: "wanted = wanted_entries entries db"
  shows "apply_stock_demand workspace_known timely fresh_row fresh hid entries now db =
    (if \<not> workspace_known then Inl LocationTrackerWebhookAuthError
     else if \<not> timely then Inl StockDemandDeadlineExceeded
     else Inr (demand_effect fresh_row fresh hid wanted now db,
       map (\<lambda>e. (e, if category_of (resolve_categories_for_entries entries (categories db)) e = None then CATEGORY_NOT_FOUND else APPLIED)) entries))"
proof -
  have keys: "distinct (map fst wanted)" by (simp add: wanted wanted_distinct)
  let ?new = "created_rows fresh_row wanted db" and ?db = "with_rows (created_rows fresh_row wanted db) db"
  note created = created_ok [OF ok keys]
  have absent: "map (\<lambda>i. new_row (fresh_row i) i (properties_normalized (the (map_of wanted i))))
      (sort (filter (\<lambda>i. i \<notin> fst ` set (discover_live_rows_by_identity (map fst wanted) (stock_rows db))) (map fst wanted))) = ?new"
    unfolding created_rows_def existing_identities by (rule arg_cong [where f = "\<lambda>l. map _ (sort l)"]) (rule filter_cong, auto)
  have all: "\<forall>i \<in> fst ` set wanted. live_row ?db i \<noteq> None" using created(2) by auto
  have pairs: "rmap (\<lambda>(i, e). case map_of (locked_rows_of wanted ?db) i of None \<Rightarrow> Inl (KeyError (fst i)) | Some r \<Rightarrow> Inr (e, r)) wanted
      = Inr (demanded wanted ?db)"
  proof -
    have "rmap (\<lambda>(i, e). case map_of (locked_rows_of wanted ?db) i of None \<Rightarrow> Inl (KeyError (fst i)) | Some r \<Rightarrow> Inr (e, r)) ws = Inr (demanded ws ?db)"
      if "set ws \<subseteq> set wanted" for ws
      using that
    proof (induction ws)
      case (Cons w ws)
      obtain i e where w: "w = (i, e)" by (cases w)
      then have i: "i \<in> fst ` set wanted" using Cons.prems by force
      then obtain r where "live_row ?db i = Some r" using created(2) by blast
      then show ?case using Cons locked_identities(2) [OF created(1) i] by (simp add: w demanded_def)
    qed (simp add: demanded_def)
    then show ?thesis by simp
  qed
  have credit: "map (\<lambda>(e, r). (row_id r, quantity_requested e))
      (filter (\<lambda>(e, r). row_requested r < quantity_requested e) (filter (\<lambda>(e, r). quantity_requested e \<noteq> row_requested r) ps)) = increases ps" for ps
    unfolding increases_def filter_filter by (rule arg_cong [where f = "map _"]) (rule filter_cong, auto)
  show ?thesis
    unfolding apply_stock_demand_def wanted_entries_def [symmetric] wanted [symmetric] Let_def absent inserted_all prod.case
      locked_rows_of_def [symmetric] locked_identities(3) [OF created(1) keys all] pairs credit
      changes_def [symmetric]
    by (simp add: demand_effect_def Let_def rguard_def)
qed

definition asked :: "((string \<times> string) \<times> demand_entry) list \<Rightarrow> stock_row \<Rightarrow> stock_row" where
  "asked wanted r = (if row_is_deleted r then r else case map_of wanted (row_identity r) of
     None \<Rightarrow> r | Some e \<Rightarrow> r\<lparr>row_requested := quantity_requested e\<rparr>)"

lemma asked_simps [simp]:
  "row_id (asked wanted r) = row_id r" "row_identity (asked wanted r) = row_identity r" "row_is_deleted (asked wanted r) = row_is_deleted r"
  "column st (asked wanted r) = column st r" "row_properties (asked wanted r) = row_properties r"
  by (cases st; simp add: asked_def row_identity_def split: option.split)+

definition keyed_rows :: "stock_db \<Rightarrow> bool" where
  "keyed_rows db \<longleftrightarrow> identities_ok db \<and> distinct (map row_id (stock_rows db))"

lemma keyed_rows_with:
  assumes "keyed_rows db" "distinct (map fst wanted)" "fresh_ids fresh_row (row_id ` set (stock_rows db))"
  shows "keyed_rows (with_rows (created_rows fresh_row wanted db) db)"
proof -
  have "map row_id (created_rows fresh_row wanted db) = map fresh_row (sort (filter (\<lambda>i. live_row db i = None) (map fst wanted)))"
    by (simp add: created_rows_def comp_def)
  moreover have "inj_on fresh_row A" for A using assms(3) by (simp add: fresh_ids_def inj_on_subset [OF _ subset_UNIV])
  ultimately have "distinct (map row_id (created_rows fresh_row wanted db))" using assms(2) by (simp add: distinct_map)
  moreover have "row_id ` set (created_rows fresh_row wanted db) \<subseteq> range fresh_row" unfolding created_rows_def set_map image_image by auto
  ultimately show ?thesis
    using created_ok(1) [of db wanted fresh_row] assms by (auto simp: keyed_rows_def with_rows_def fresh_ids_def)
qed

lemma demanded_mem: "\<forall>i \<in> fst ` set wanted. live_row db i \<noteq> None \<Longrightarrow> (e, r) \<in> set (demanded wanted db) \<longleftrightarrow>
    (\<exists>i. (i, e) \<in> set wanted \<and> live_row db i = Some r)"
  by (force simp: demanded_def)

lemma demanded_row:
  assumes "keyed_rows db" "distinct (map fst wanted)" "\<forall>i \<in> fst ` set wanted. live_row db i \<noteq> None" "r \<in> set (stock_rows db)"
  shows "(e, r) \<in> set (demanded wanted db) \<longleftrightarrow> \<not> row_is_deleted r \<and> map_of wanted (row_identity r) = Some e"
proof
  assume "(e, r) \<in> set (demanded wanted db)"
  then obtain i where "(i, e) \<in> set wanted" "live_row db i = Some r" using demanded_mem [OF assms(3)] by blast
  then show "\<not> row_is_deleted r \<and> map_of wanted (row_identity r) = Some e"
    using live_row_in assms(2) by (metis map_of_is_SomeI)
next
  assume "\<not> row_is_deleted r \<and> map_of wanted (row_identity r) = Some e"
  then show "(e, r) \<in> set (demanded wanted db)"
    using demanded_mem [OF assms(3)] live_row_eq [of db r] assms(1,4) by (metis keyed_rows_def map_of_SomeD)
qed

lemma demanded_rows_distinct:
  assumes "keyed_rows db" "distinct (map fst wanted)" "\<forall>i \<in> fst ` set wanted. live_row db i \<noteq> None"
  shows "distinct (map (\<lambda>(e, r). row_id r) (demanded wanted db))"
proof -
  have ids: "map (\<lambda>(e, r). row_id r) (demanded wanted db) = map (\<lambda>i. row_id (the (live_row db i))) (map fst wanted)"
    by (simp add: demanded_def split_def comp_def)
  have "i = j" if "i \<in> fst ` set wanted" "j \<in> fst ` set wanted" "row_id (the (live_row db i)) = row_id (the (live_row db j))" for i j
  proof -
    note ij = that
    obtain r q where "live_row db i = Some r" "live_row db j = Some q" using ij(1,2) assms(3) by blast
    then show ?thesis using live_row_in [of db i r] live_row_in [of db j q] row_unique [of row_id "stock_rows db" r q] ij(3) assms(1)
      by (auto simp: keyed_rows_def)
  qed
  then show ?thesis unfolding ids using assms(2) by (simp add: distinct_map inj_on_def)
qed

lemma changes_of:
  assumes "keyed_rows db" "distinct (map fst wanted)" "\<forall>i \<in> fst ` set wanted. live_row db i \<noteq> None" "r \<in> set (stock_rows db)"
  shows "(case map_of (changes (demanded wanted db)) (row_id r) of None \<Rightarrow> r | Some q \<Rightarrow> r\<lparr>row_requested := q\<rparr>) = asked wanted r"
proof -
  let ?changed = "filter (\<lambda>(e, r). quantity_requested e \<noteq> row_requested r) (demanded wanted db)"
  have keys: "distinct (map fst (changes (demanded wanted db)))"
    using demanded_rows_distinct [OF assms(1-3)]
    by (simp add: changes_def comp_def split_def) (metis (no_types, lifting) distinct_map_filter)
  have mem: "(row_id r, q) \<in> set (changes (demanded wanted db)) \<longleftrightarrow>
      \<not> row_is_deleted r \<and> (\<exists>e. map_of wanted (row_identity r) = Some e \<and> q = quantity_requested e \<and> q \<noteq> row_requested r)" for q
  proof -
    have "r' = r" if "(e, r') \<in> set (demanded wanted db)" "row_id r' = row_id r" for e r'
      using that demanded_mem [OF assms(3)] live_row_in row_unique [of row_id "stock_rows db" r' r] assms(1,4)
      by (metis keyed_rows_def)
    then show ?thesis
      unfolding changes_def using demanded_row [OF assms] by (force simp: image_iff)
  qed
  show ?thesis
  proof (cases "map_of (changes (demanded wanted db)) (row_id r)")
    case None
    then have "\<And>q. (row_id r, q) \<notin> set (changes (demanded wanted db))"
      by (metis map_of_eq_None_iff fst_conv imageI)
    then show ?thesis using None mem by (auto simp: asked_def split: option.split)
  next
    case (Some q)
    with mem [of q] show ?thesis by (auto simp: asked_def dest: map_of_SomeD)
  qed
qed

lemma add_rows_frame [simp]:
  "stock_rows (add_rows_to_every_draft fresh rows db) = stock_rows db" "histories (add_rows_to_every_draft fresh rows db) = histories db"
  "assignments (add_rows_to_every_draft fresh rows db) = assignments db" "categories (add_rows_to_every_draft fresh rows db) = categories db"
  "repairs (add_rows_to_every_draft fresh rows db) = repairs db" "stock_tasks (add_rows_to_every_draft fresh rows db) = stock_tasks db"
  "schedulers (add_rows_to_every_draft fresh rows db) = schedulers db" "stock_items (add_rows_to_every_draft fresh rows db) = stock_items db"
  "primary_pairs (add_rows_to_every_draft fresh rows db) = primary_pairs db"
  by (simp_all add: add_rows_to_every_draft_def insert_drafts_def Let_def)

lemma set_requested_frame [simp]:
  "snapshots (set_requested us db) = snapshots db" "histories (set_requested us db) = histories db" "versions (set_requested us db) = versions db"
  "assignments (set_requested us db) = assignments db" "categories (set_requested us db) = categories db"
  "repairs (set_requested us db) = repairs db" "stock_tasks (set_requested us db) = stock_tasks db"
  "schedulers (set_requested us db) = schedulers db" "stock_items (set_requested us db) = stock_items db"
  "primary_pairs (set_requested us db) = primary_pairs db"
  by (simp_all add: set_requested_def)

lemma demand_rows:
  assumes "keyed_rows db" "distinct (map fst wanted)" "fresh_ids fresh_row (row_id ` set (stock_rows db))"
  shows "stock_rows (demand_effect fresh_row fresh hid wanted now db) = map (asked wanted) (stock_rows db @ created_rows fresh_row wanted db)"
proof -
  let ?db = "with_rows (created_rows fresh_row wanted db) db"
  have ok: "keyed_rows ?db" by (rule keyed_rows_with [OF assms])
  have all: "\<forall>i \<in> fst ` set wanted. live_row ?db i \<noteq> None"
    using created_ok(2) [of db wanted _ fresh_row] assms(1,2) unfolding keyed_rows_def by blast
  have "map (\<lambda>r. case map_of (changes (demanded wanted ?db)) (row_id r) of None \<Rightarrow> r | Some q \<Rightarrow> r\<lparr>row_requested := q\<rparr>) (stock_rows ?db)
      = map (asked wanted) (stock_rows ?db)"
    by (rule map_cong [OF refl]) (rule changes_of [OF ok assms(2) all])
  then show ?thesis
    unfolding demand_effect_def Let_def by (simp add: set_requested_def) (simp add: with_rows_def)
qed

definition request_ok :: "demand_entry list \<Rightarrow> stock_db \<Rightarrow> bool" where
  \<comment> \<open>what the parser and the key of the categories give\<close>
  "request_ok entries db \<longleftrightarrow> (\<forall>e \<in> set entries. keyed_entry e) \<and> distinct (map demand_identity entries)
     \<and> distinct (map stock_category_id (categories db))"

definition filed_under :: "demand_entry list \<Rightarrow> stock_db \<Rightarrow> demand_entry \<Rightarrow> (string \<times> string) option" where
  \<comment> \<open>the identity an entry names, when its category is known\<close>
  "filed_under entries db e = map_option (\<lambda>c. (c, properties_signature e))
     (category_of (resolve_categories_for_entries entries (categories db)) e)"

lemma filed_key:
  assumes "request_ok entries db" "e \<in> set entries" "filed_under entries db e = Some i"
  obtains c where "c \<in> set (categories db)" "stock_category_id c = fst i" "lower (stock_category_name c) = item_category_key e" "snd i = properties_signature e"
proof -
  from assms(3) have i: "category_of (resolve_categories_for_entries entries (categories db)) e = Some (fst i)" "snd i = properties_signature e"
    by (auto simp: filed_under_def)
  have "Option.bind (List.find (\<lambda>f. item_category_key f = item_category_key e) entries) (resolve_alone (categories db)) = Some (fst i)"
    using category_of_resolved [of entries e "categories db"] assms(1,2) i(1) by (simp add: request_ok_def)
  then obtain f where f: "List.find (\<lambda>f. item_category_key f = item_category_key e) entries = Some f" "resolve_alone (categories db) f = Some (fst i)"
    unfolding bind_eq_Some_conv by blast
  from f(1) have "f \<in> set entries" "item_category_key f = item_category_key e" by (auto dest: find_Some_in)
  then show ?thesis using resolve_alone_key [OF _ f(2)] that i(2) assms(1) by (metis request_ok_def)
qed

lemma filed_unique:
  assumes "request_ok entries db" "e \<in> set entries" "f \<in> set entries" "filed_under entries db e = Some i" "filed_under entries db f = Some i"
  shows "e = f"
proof -
  obtain c where c: "c \<in> set (categories db)" "stock_category_id c = fst i" "lower (stock_category_name c) = item_category_key e" "snd i = properties_signature e"
    by (rule filed_key [OF assms(1,2,4)])
  obtain d where d: "d \<in> set (categories db)" "stock_category_id d = fst i" "lower (stock_category_name d) = item_category_key f" "snd i = properties_signature f"
    by (rule filed_key [OF assms(1,3,5)])
  have "c = d" using row_unique [of stock_category_id "categories db" c d] c d assms(1) by (simp add: request_ok_def)
  then have "demand_identity e = demand_identity f" using c d by (simp add: demand_identity_def)
  then show ?thesis using assms(1-3) by (auto simp: request_ok_def distinct_map dest: inj_onD)
qed

lemma wanted_eq:
  assumes "request_ok entries db"
  shows "wanted_entries entries db = List.map_filter (\<lambda>e. map_option (\<lambda>i. (i, e)) (filed_under entries db e)) entries"
proof -
  let ?list = "List.map_filter (\<lambda>e. map_option (\<lambda>i. (i, e)) (filed_under entries db e)) entries"
  have list: "?list = map (\<lambda>e. (the (filed_under entries db e), e)) (filter (\<lambda>e. filed_under entries db e \<noteq> None) entries)"
    unfolding List.map_filter_def by (auto simp: comp_def)
  have "inj_on (\<lambda>e. the (filed_under entries db e)) {e \<in> set entries. filed_under entries db e \<noteq> None}"
    using filed_unique [OF assms] by (intro inj_onI) (auto simp: filed_under_def)
  moreover have "distinct entries" using assms by (simp add: request_ok_def distinct_map)
  ultimately have "distinct (map fst ?list)" unfolding list by (simp add: distinct_map comp_def inj_on_def)
  then have "dict_of ?list = ?list" by (rule dict_of_distinct)
  moreover have "wanted_entries entries db = dict_of ?list"
    unfolding wanted_entries_def entries_by_identity_def filed_under_def by (simp add: option.map_comp comp_def)
  ultimately show ?thesis by simp
qed

lemma map_filter_mem: "y \<in> set (List.map_filter f xs) \<longleftrightarrow> (\<exists>x \<in> set xs. f x = Some y)"
  unfolding List.map_filter_def by force

lemma wanted_lookup:
  assumes "request_ok entries db"
  shows "map_of (wanted_entries entries db) i = Some e \<longleftrightarrow> e \<in> set entries \<and> filed_under entries db e = Some i"
proof -
  have "map_of (wanted_entries entries db) i = Some e \<longleftrightarrow> (i, e) \<in> set (wanted_entries entries db)"
    using wanted_distinct by (metis map_of_SomeD map_of_is_SomeI)
  also have "\<dots> \<longleftrightarrow> (\<exists>x \<in> set entries. map_option (\<lambda>j. (j, x)) (filed_under entries db x) = Some (i, e))"
    unfolding wanted_eq [OF assms] map_filter_mem ..
  also have "\<dots> \<longleftrightarrow> (\<exists>x \<in> set entries. x = e \<and> filed_under entries db x = Some i)"
    by (intro bex_cong refl) (case_tac "filed_under entries db x"; auto)
  finally show ?thesis by blast
qed

lemma live_row_asked:
  assumes "stock_rows db' = map (asked wanted) (stock_rows db)"
  shows "live_row db' i = map_option (asked wanted) (live_row db i)"
proof -
  have "List.find P (map f xs) = map_option f (List.find (P \<circ> f) xs)" for P :: "stock_row \<Rightarrow> bool" and f :: "stock_row \<Rightarrow> stock_row" and xs by (induction xs) auto
  then show ?thesis by (simp add: live_row_def assms comp_def)
qed

lemma identities_asked: "stock_rows db' = map (asked wanted) (stock_rows db) \<Longrightarrow> keyed_rows db' = keyed_rows db"
  by (simp add: keyed_rows_def identities_ok_def filter_map comp_def)

lemma demand_live:
  assumes "keyed_rows db" "distinct (map fst wanted)" "fresh_ids fresh_row (row_id ` set (stock_rows db))"
  shows "live_row (demand_effect fresh_row fresh hid wanted now db) i = map_option (asked wanted) (case live_row db i of
      Some r \<Rightarrow> Some r
    | None \<Rightarrow> if i \<in> fst ` set wanted then Some (new_row (fresh_row i) i (properties_normalized (the (map_of wanted i)))) else None)"
    and "keyed_rows (demand_effect fresh_row fresh hid wanted now db)"
proof -
  have rows: "stock_rows (demand_effect fresh_row fresh hid wanted now db)
      = map (asked wanted) (stock_rows (with_rows (created_rows fresh_row wanted db) db))"
    by (simp add: demand_rows [OF assms] with_rows_def)
  show "keyed_rows (demand_effect fresh_row fresh hid wanted now db)"
    using identities_asked [OF rows] keyed_rows_with [OF assms] by simp
  show "live_row (demand_effect fresh_row fresh hid wanted now db) i = map_option (asked wanted) (case live_row db i of
      Some r \<Rightarrow> Some r
    | None \<Rightarrow> if i \<in> fst ` set wanted then Some (new_row (fresh_row i) i (properties_normalized (the (map_of wanted i)))) else None)"
    unfolding live_row_asked [OF rows] by (subst created_ok(3)) (use assms in \<open>simp_all add: keyed_rows_def\<close>)
qed

lemma demand_requested:
  assumes "keyed_rows db" "distinct (map fst wanted)" "fresh_ids fresh_row (row_id ` set (stock_rows db))"
  shows "requested_of (demand_effect fresh_row fresh hid wanted now db) i =
    (case map_of wanted i of Some e \<Rightarrow> Some (quantity_requested e) | None \<Rightarrow> requested_of db i)"
proof (cases "live_row db i")
  case (Some r)
  from live_row_in [OF Some] have "asked wanted r = (case map_of wanted i of None \<Rightarrow> r | Some e \<Rightarrow> r\<lparr>row_requested := quantity_requested e\<rparr>)"
    by (simp add: asked_def)
  then show ?thesis unfolding requested_of_def demand_live(1) [OF assms] Some by (simp split: option.split)
next
  case None
  show ?thesis
  proof (cases "map_of wanted i")
    case (Some e)
    then have "i \<in> fst ` set wanted" by (metis map_of_eq_None_iff option.distinct(1))
    then show ?thesis unfolding requested_of_def demand_live(1) [OF assms] None using Some by (simp add: asked_def)
  next
    case no: None
    then have "i \<notin> fst ` set wanted" by (simp add: map_of_eq_None_iff)
    then show ?thesis unfolding requested_of_def demand_live(1) [OF assms] None no by simp
  qed
qed

lemma increases_of:
  assumes "keyed_rows db" "distinct (map fst wanted)" "\<forall>e \<in> snd ` set wanted. 0 \<le> quantity_requested e"
  shows "increases (demanded wanted (with_rows (created_rows fresh_row wanted db) db)) =
    map (\<lambda>(i, e). (case live_row db i of Some r \<Rightarrow> row_id r | None \<Rightarrow> fresh_row i, quantity_requested e))
      (filter (\<lambda>(i, e). (case requested_of db i of None \<Rightarrow> 0 | Some q \<Rightarrow> q) < quantity_requested e) wanted)"
proof -
  let ?db = "with_rows (created_rows fresh_row wanted db) db"
  have row: "row_id (the (live_row ?db i)) = (case live_row db i of Some r \<Rightarrow> row_id r | None \<Rightarrow> fresh_row i)
      \<and> row_requested (the (live_row ?db i)) = (case requested_of db i of None \<Rightarrow> 0 | Some q \<Rightarrow> q)" if "i \<in> fst ` set wanted" for i
    using that assms(1,2) by (subst (1 2) created_ok(3)) (auto simp: keyed_rows_def requested_of_def split: option.split)
  have "increases (demanded ws ?db) = map (\<lambda>(i, e). (case live_row db i of Some r \<Rightarrow> row_id r | None \<Rightarrow> fresh_row i, quantity_requested e))
      (filter (\<lambda>(i, e). (case requested_of db i of None \<Rightarrow> 0 | Some q \<Rightarrow> q) < quantity_requested e) ws)" if "set ws \<subseteq> set wanted" for ws
    using that
  proof (induction ws)
    case (Cons w ws)
    obtain i e where w: "w = (i, e)" by (cases w)
    have "i \<in> fst ` set wanted" using Cons.prems by (force simp: w)
    from row [OF this] Cons show ?case by (simp add: w increases_def demanded_def)
  qed (simp add: increases_def demanded_def)
  then show ?thesis by simp
qed

lemma request_drops_none:
  assumes "request_ok entries db"
  shows "set (map snd (wanted_entries entries db)) \<subseteq> set entries"
  using wanted_lookup [OF assms] wanted_distinct by (auto dest!: map_of_is_SomeI [OF wanted_distinct])

definition placed_in :: "(string \<times> string \<Rightarrow> string) \<Rightarrow> stock_db \<Rightarrow> string \<times> string \<Rightarrow> string" where
  \<comment> \<open>the row of an identity: the live one, or the one created for it\<close>
  "placed_in fresh_row db i = (case live_row db i of Some r \<Rightarrow> row_id r | None \<Rightarrow> fresh_row i)"

definition requested_before :: "stock_db \<Rightarrow> string \<times> string \<Rightarrow> int" where
  "requested_before db i = (case requested_of db i of None \<Rightarrow> 0 | Some q \<Rightarrow> q)"

text \<open>C37: the demand webhook gives every identity it names, and no other, the requested quantity of its entry, on the one
  live row with that identity, which it creates when there is none; an entry whose category is unknown changes nothing and
  is reported. Every identity whose quantity grew, and no other, gets one goal record: a live record of a change of the
  requested quantity, asked by the scanner, on that row and at that time, with the new quantity and nothing credited to
  it yet.\<close>

theorem demand_sets_requested:
  assumes rows: "keyed_rows db" and request: "request_ok entries db" "\<forall>e \<in> set entries. 0 \<le> quantity_requested e"
    and fresh: "fresh_ids fresh_row (row_id ` set (stock_rows db))"
  shows "\<exists>db'. apply_stock_demand True True fresh_row fresh hid entries now db
      = Inr (db', map (\<lambda>e. (e, if filed_under entries db e = None then CATEGORY_NOT_FOUND else APPLIED)) entries)
    \<and> keyed_rows db'
    \<and> (\<forall>e \<in> set entries. \<forall>i. filed_under entries db e = Some i \<longrightarrow>
         requested_of db' i = Some (quantity_requested e) \<and> map_option row_id (live_row db' i) = Some (placed_in fresh_row db i))
    \<and> (\<forall>i. Some i \<notin> filed_under entries db ` set entries \<longrightarrow> live_row db' i = live_row db i)
    \<and> (\<exists>goals. histories db' = histories db @ goals
         \<and> map (\<lambda>h. (history_type h, history_source h, history_row_id h, history_requested h, history_awaiting h, history_created_at h, history_is_deleted h)) goals
           = List.map_filter (\<lambda>e. case filed_under entries db e of None \<Rightarrow> None
               | Some i \<Rightarrow> if requested_before db i < quantity_requested e then Some (HistQUANTITY_REQUESTED_CHANGE, ReqSCANNER, placed_in fresh_row db i, quantity_requested e, 0, now, False) else None) entries)"
proof -
  let ?wanted = "wanted_entries entries db"
  let ?db' = "demand_effect fresh_row fresh hid ?wanted now db"
  have keys: "distinct (map fst ?wanted)" by (rule wanted_distinct)
  have run: "apply_stock_demand True True fresh_row fresh hid entries now db
      = Inr (?db', map (\<lambda>e. (e, if filed_under entries db e = None then CATEGORY_NOT_FOUND else APPLIED)) entries)"
    using rows by (subst demand_reaches [OF _ refl]) (simp_all add: keyed_rows_def filed_under_def)
  have named: "requested_of ?db' i = Some (quantity_requested e) \<and> map_option row_id (live_row ?db' i) = Some (placed_in fresh_row db i)"
    if "e \<in> set entries" "filed_under entries db e = Some i" for e i
  proof -
    have wanted: "map_of ?wanted i = Some e" using that by (simp add: wanted_lookup [OF request(1)])
    then have "i \<in> fst ` set ?wanted" by (metis map_of_eq_None_iff option.distinct(1))
    then show ?thesis using wanted unfolding demand_requested [OF rows keys fresh] demand_live(1) [OF rows keys fresh]
      by (simp add: placed_in_def split: option.split)
  qed
  have others: "live_row ?db' i = live_row db i" if "Some i \<notin> filed_under entries db ` set entries" for i
  proof -
    have none: "map_of ?wanted i = None"
      using that by (cases "map_of ?wanted i") (auto simp: wanted_lookup [OF request(1)] image_iff)
    then have "i \<notin> fst ` set ?wanted" by (simp add: map_of_eq_None_iff)
    then show ?thesis using none live_row_in [of db i] unfolding demand_live(1) [OF rows keys fresh]
      by (auto simp: asked_def split: option.split)
  qed
  let ?new = "map (goal_record hid now (set_requested (changes (demanded ?wanted (with_rows (created_rows fresh_row ?wanted db) db)))
      (add_rows_to_every_draft fresh (filter (\<lambda>r. row_id r \<in> row_id ` set (created_rows fresh_row ?wanted db))
        (map snd (demanded ?wanted (with_rows (created_rows fresh_row ?wanted db) db)))) (with_rows (created_rows fresh_row ?wanted db) db))))
    (increases (demanded ?wanted (with_rows (created_rows fresh_row ?wanted db) db)))"
  have hists: "histories ?db' = histories db @ ?new"
    unfolding demand_effect_def Let_def by simp (simp add: with_rows_def)
  have "map (\<lambda>h. (history_type h, history_source h, history_row_id h, history_requested h, history_awaiting h, history_created_at h, history_is_deleted h)) ?new
      = map (\<lambda>(r, q). (HistQUANTITY_REQUESTED_CHANGE, ReqSCANNER, r, q, 0, now, False)) (increases (demanded ?wanted (with_rows (created_rows fresh_row ?wanted db) db)))"
    by (simp add: goal_record_def Let_def split_def comp_def)
  also have "\<dots> = map (\<lambda>(i, e). (HistQUANTITY_REQUESTED_CHANGE, ReqSCANNER, placed_in fresh_row db i, quantity_requested e, 0, now, False)) (filter (\<lambda>(i, e). requested_before db i < quantity_requested e) ?wanted)"
    using request_drops_none [OF request(1)] request(2)
    by (subst increases_of [OF rows keys]) (auto simp: placed_in_def requested_before_def split_def)
  also have "\<dots> = List.map_filter (\<lambda>e. case filed_under entries db e of None \<Rightarrow> None
      | Some i \<Rightarrow> if requested_before db i < quantity_requested e then Some (HistQUANTITY_REQUESTED_CHANGE, ReqSCANNER, placed_in fresh_row db i, quantity_requested e, 0, now, False) else None) entries"
  proof -
    have "map (\<lambda>(i, e). (HistQUANTITY_REQUESTED_CHANGE, ReqSCANNER, placed_in fresh_row db i, quantity_requested e, 0::int, now, False)) (filter (\<lambda>(i, e). requested_before db i < quantity_requested e)
        (List.map_filter (\<lambda>e. map_option (\<lambda>i. (i, e)) (f e)) es))
      = List.map_filter (\<lambda>e. case f e of None \<Rightarrow> None
      | Some i \<Rightarrow> if requested_before db i < quantity_requested e then Some (HistQUANTITY_REQUESTED_CHANGE, ReqSCANNER, placed_in fresh_row db i, quantity_requested e, 0, now, False) else None) es" for f es
      by (induction es) (auto simp: map_filter_simps split: option.split)
    then show ?thesis unfolding wanted_eq [OF request(1)] .
  qed
  finally show ?thesis using run demand_live(2) [OF rows keys fresh] named others hists by blast
qed

lemma demand_effect_categories [simp]: "categories (demand_effect fresh_row fresh hid wanted now db) = categories db"
  by (simp add: demand_effect_def Let_def) (simp add: with_rows_def)

text \<open>C38: replaying a demand request on the store that it left changes nothing and gives the same outcomes, whatever
  identifiers and time the replay draws.\<close>

theorem replayed_demand_changes_nothing:
  assumes rows: "keyed_rows db" and request: "request_ok entries db"
    and fresh: "fresh_ids fresh_row (row_id ` set (stock_rows db))"
    and run: "apply_stock_demand True True fresh_row fresh hid entries now db = Inr (db', outcomes)"
  shows "apply_stock_demand True True fresh_row' fresh' hid' entries later db' = Inr (db', outcomes)"
proof -
  let ?wanted = "wanted_entries entries db"
  have keys: "distinct (map fst ?wanted)" by (rule wanted_distinct)
  have db': "db' = demand_effect fresh_row fresh hid ?wanted now db"
    and outcomes: "outcomes = map (\<lambda>e. (e, if category_of (resolve_categories_for_entries entries (categories db)) e = None then CATEGORY_NOT_FOUND else APPLIED)) entries"
    using run rows demand_reaches [OF _ refl, of db True True fresh_row fresh hid entries now] by (simp_all add: keyed_rows_def)
  have again: "wanted_entries entries db' = ?wanted" "keyed_rows db'"
    using demand_live(2) [OF rows keys fresh] by (simp_all add: db' wanted_entries_def)
  have requested: "\<exists>r. live_row db' i = Some r \<and> row_requested r = quantity_requested e" if "(i, e) \<in> set ?wanted" for i e
  proof -
    have "map_of ?wanted i = Some e" using that keys by (rule map_of_is_SomeI [rotated])
    then have "requested_of db' i = Some (quantity_requested e)" unfolding db' demand_requested [OF rows keys fresh] by simp
    then show ?thesis by (auto simp: requested_of_def)
  qed
  have nothing: "filter (\<lambda>i. live_row db' i = None) (map fst ?wanted) = []"
    using requested by (fastforce simp: filter_empty_conv)
  then have new: "created_rows fresh_row' ?wanted db' = []" "with_rows [] db' = db'"
    unfolding created_rows_def nothing by (simp_all add: with_rows_def)
  have "changes (demanded ?wanted db') = []" "increases (demanded ?wanted db') = []"
    using requested by (fastforce simp: changes_def increases_def demanded_def filter_empty_conv)+
  then have "demand_effect fresh_row' fresh' hid' ?wanted later db' = db'"
    unfolding demand_effect_def Let_def new by (simp add: add_rows_to_every_draft_def set_requested_def)
  then show ?thesis
    using again by (subst demand_reaches [OF _ refl]) (simp_all add: keyed_rows_def outcomes db')
qed

lemma parsed_request:
  assumes "parse_stock_demand_body digest raw = Inr entries" "distinct (map stock_category_id (categories db))"
  shows "request_ok entries db" "\<forall>e \<in> set entries. 0 \<le> quantity_requested e"
  using parsed_distinct [OF assms(1)] assms(2) by (auto simp: request_ok_def keyed_entry_def)

section \<open>What the board keeps\<close>

lemma scanner_ceiling: "snapshot_active_at s \<noteq> None \<Longrightarrow> (\<And>st. column st r' = column st r) \<Longrightarrow> snapshot_ceiling s r' = snapshot_ceiling s r"
  using column.simps(1) [of r] column.simps(1) [of r'] column.simps(2) [of r] column.simps(2) [of r'] column.simps(3) [of r] column.simps(3) [of r']
  by (auto simp: snapshot_ceiling_def effective_quantity_requested_def scanner_quantity_requested_def missing_quantity_ceiling_def split: option.split)

definition fresh_pairs :: "(string \<Rightarrow> string \<Rightarrow> string) \<Rightarrow> stock_db \<Rightarrow> bool" where
  "fresh_pairs fresh db \<longleftrightarrow> fresh_ids (\<lambda>(vid, rid). fresh vid rid) (snapshot_id ` set (snapshots db))"

lemma board_rows_changed:
  assumes sound: "board_sound db" and rows: "stock_rows db' = map f (stock_rows db @ new)"
    and same: "versions db' = versions db" "snapshots db' = snapshots db" "schedulers db' = schedulers db"
    and f: "\<And>r. row_id (f r) = row_id r" "\<And>r. row_is_deleted (f r) = row_is_deleted r" "\<And>r st. column st (f r) = column st r"
    and ids: "distinct (map row_id (stock_rows db @ new))"
  shows "board_sound db'"
proof -
  from sound obtain b where ok: "snapshots_ok db" and covered: "covered db" and board: "shows_board b (snapshots db)" and plans: "schedules_ok db"
    by (rule board_soundE)
  have keys: "distinct (map row_id (stock_rows db'))" using ids unfolding rows by (simp add: comp_def f(1))
  have kept: "sound_snapshot db' s" if "sound_snapshot db s" for s
  proof -
    have "\<exists>r' \<in> set (stock_rows db'). row_id r' = row_id r \<and> (row_is_deleted r \<longrightarrow> row_is_deleted r')" if "r \<in> set (stock_rows db)" for r
      using that unfolding rows by (intro bexI [of _ "f r"]) (simp_all add: f)
    note row = this
    from that obtain v r where v: "v \<in> set (versions db)" "version_id v = snapshot_version_id s" "version_active_at v = snapshot_active_at s"
      "version_closed_at v \<noteq> None \<longrightarrow> snapshot_closed_at s \<noteq> None"
      and r: "r \<in> set (stock_rows db)" "row_id r = snapshot_row_id s" "snapshot_closed_at s \<noteq> None \<longrightarrow> version_closed_at v \<noteq> None \<or> row_is_deleted r"
      unfolding sound_snapshot_def by blast
    from row [OF r(1)] obtain r' where "r' \<in> set (stock_rows db')" "row_id r' = row_id r" "row_is_deleted r \<longrightarrow> row_is_deleted r'" by blast
    then show ?thesis using that v r unfolding sound_snapshot_def same by (intro conjI) (blast | fastforce)+
  qed
  have ok': "snapshots_ok db'" using ok keys kept by (simp add: snapshots_ok_def same)
  have its: "its_row db' s = f (its_row db s)" if "s \<in> set (snapshots db)" for s
  proof -
    note held = that
    obtain r where r: "r \<in> set (stock_rows db)" "row_id r = snapshot_row_id s" using row_of_snapshot [OF ok held] by blast
    then have "f r \<in> set (stock_rows db')" unfolding rows by simp
    then show ?thesis using its_row_is [OF ok r(1)] its_row_is [OF ok', of "f r" s] r(2) f(1) by simp
  qed
  have "covered db'"
    unfolding covered_def same
  proof (intro ballI allI impI conjI)
    fix s m assume s: "s \<in> set (snapshots db)" "snapshot_missing s = Some m"
    show "0 \<le> m" by (rule coveredD(1) [OF covered s])
    assume active: "is_snapshot_active s"
    then have "snapshot_ceiling s (its_row db' s) = snapshot_ceiling s (its_row db s)"
      unfolding its [OF s(1)] by (intro scanner_ceiling) (simp_all add: is_snapshot_active_def f(3))
    then show "m \<le> snapshot_ceiling s (its_row db' s)" using coveredD(2) [OF covered s active] by simp
  qed
  moreover have "schedules_ok db'" by (rule schedules_kept [OF plans]) (use plans in \<open>auto simp: same schedules_ok_def\<close>)
  ultimately show ?thesis using ok' board by (auto simp: board_sound_def same)
qed

lemma inserted_pairs:
  assumes ok: "snapshots_ok db" and rows: "\<And>r s. r \<in> set rows \<Longrightarrow> s \<in> set (snapshots db) \<Longrightarrow> snapshot_row_id s \<noteq> row_id r"
  shows "missing_pairs (List.product drafts rows) db = List.product drafts rows"
  unfolding missing_pairs_def using rows by (intro filter_True) force

lemma drafts_distinct: "snapshots_ok db \<Longrightarrow> distinct (sort (map version_id (filter is_version_draft (versions db))))"
  by (simp add: snapshots_ok_def distinct_map_filter)

lemma length_filter_product:
  assumes "distinct vs"
  shows "length (filter (\<lambda>(v, _). v = w) (List.product vs rows)) = (if w \<in> set vs then length rows else 0)"
  using assms by (induction vs) (auto simp: filter_map comp_def filter_empty_conv)

definition joined :: "(string \<Rightarrow> string \<Rightarrow> string) \<Rightarrow> stock_row list \<Rightarrow> stock_db \<Rightarrow> stock_db" where
  "joined fresh rows db = db\<lparr>
     snapshots := snapshots db @ map (\<lambda>(vid, r). draft_snapshot fresh vid r) (List.product (sort (map version_id (filter is_version_draft (versions db)))) rows),
     versions := map (\<lambda>v. if is_version_draft v then v\<lparr>snapshot_count := snapshot_count v + int (length rows)\<rparr> else v) (versions db)\<rparr>"

lemma product_Nil [simp]: "List.product xs [] = []"
  by (induction xs) simp_all

lemma add_rows_joins:
  assumes ok: "snapshots_ok db" and rows: "\<And>r s. r \<in> set rows \<Longrightarrow> s \<in> set (snapshots db) \<Longrightarrow> snapshot_row_id s \<noteq> row_id r"
  shows "add_rows_to_every_draft fresh rows db = joined fresh rows db"
proof (cases "sort (map version_id (filter is_version_draft (versions db))) = [] \<or> rows = []")
  case True
  have "(if is_version_draft v then v\<lparr>snapshot_count := snapshot_count v + int (length rows)\<rparr> else v) = v" if "v \<in> set (versions db)" for v
    using True that by (auto simp: filter_empty_conv simp flip: set_empty)
  then have "map (\<lambda>v. if is_version_draft v then v\<lparr>snapshot_count := snapshot_count v + int (length rows)\<rparr> else v) (versions db) = versions db"
    by (rule map_idI)
  moreover have "List.product (sort (map version_id (filter is_version_draft (versions db)))) rows = []"
    using True by auto
  ultimately show ?thesis unfolding add_rows_to_every_draft_def Let_def if_P [OF True] joined_def by simp
next
  case False
  let ?drafts = "sort (map version_id (filter is_version_draft (versions db)))"
  have pairs: "missing_pairs (List.product ?drafts rows) db = List.product ?drafts rows" by (rule inserted_pairs [OF ok]) (rule rows)
  have inserted: "insert_drafts fresh (List.product ?drafts rows) db
      = db\<lparr>snapshots := snapshots db @ map (\<lambda>(vid, r). draft_snapshot fresh vid r) (List.product ?drafts rows)\<rparr>"
    using pairs unfolding insert_drafts_def missing_pairs_def by simp
  have count: "v\<lparr>snapshot_count := snapshot_count v + int (length (filter (\<lambda>(vid, _). vid = version_id v) (List.product ?drafts rows)))\<rparr>
      = (if is_version_draft v then v\<lparr>snapshot_count := snapshot_count v + int (length rows)\<rparr> else v)" if "v \<in> set (versions db)" for v
  proof -
    have "version_id v \<in> set ?drafts \<longleftrightarrow> is_version_draft v"
      using that row_unique [of version_id "versions db"] ok by (auto simp: snapshots_ok_def)
    then show ?thesis unfolding length_filter_product [OF drafts_distinct [OF ok]] by simp
  qed
  have counts: "map (\<lambda>v. v\<lparr>snapshot_count := snapshot_count v + int (length (filter (\<lambda>(vid, _). vid = version_id v) (List.product ?drafts rows)))\<rparr>) (versions db)
      = map (\<lambda>v. if is_version_draft v then v\<lparr>snapshot_count := snapshot_count v + int (length rows)\<rparr> else v) (versions db)"
    by (rule map_cong [OF refl]) (rule count)
  show ?thesis
    unfolding add_rows_to_every_draft_def Let_def if_not_P [OF False] pairs inserted joined_def by (simp add: counts)
qed

lemma draft_snapshot_simps [simp]:
  "snapshot_id (draft_snapshot fresh vid r) = fresh vid (row_id r)" "snapshot_version_id (draft_snapshot fresh vid r) = vid"
  "snapshot_row_id (draft_snapshot fresh vid r) = row_id r" "snapshot_priority (draft_snapshot fresh vid r) = None"
  "snapshot_missing (draft_snapshot fresh vid r) = None"
  by (simp_all add: draft_snapshot_def)

lemma pairs_distinct:
  assumes "distinct vs" "distinct (map row_id rows)"
  shows "distinct (map (\<lambda>(v, r). (v, row_id r)) (List.product vs rows))"
proof -
  have "distinct rows" using assms(2) by (simp add: distinct_map)
  then have "distinct (List.product vs rows)" using assms(1) by (rule distinct_product [rotated])
  moreover have "inj_on (\<lambda>(v, r). (v, row_id r)) (set (List.product vs rows))"
    using assms(2) by (auto simp: inj_on_def distinct_map)
  ultimately show ?thesis by (simp add: distinct_map)
qed

lemma joined_sound:
  assumes sound: "board_sound db" and fresh: "fresh_pairs fresh db"
    and rows: "distinct (map row_id rows)" "set rows \<subseteq> set (stock_rows db)" "\<And>r s. r \<in> set rows \<Longrightarrow> s \<in> set (snapshots db) \<Longrightarrow> snapshot_row_id s \<noteq> row_id r"
  shows "board_sound (joined fresh rows db)"
proof -
  from sound obtain b where ok: "snapshots_ok db" and covered: "covered db" and board: "shows_board b (snapshots db)" and plans: "schedules_ok db"
    by (rule board_soundE)
  let ?drafts = "sort (map version_id (filter is_version_draft (versions db)))"
  let ?new = "map (\<lambda>(vid, r). draft_snapshot fresh vid r) (List.product ?drafts rows)"
  let ?count = "\<lambda>v. if is_version_draft v then v\<lparr>snapshot_count := snapshot_count v + int (length rows)\<rparr> else v"
  have pairs: "distinct (map (\<lambda>(v, r). (v, row_id r)) (List.product ?drafts rows))" by (rule pairs_distinct [OF drafts_distinct [OF ok] rows(1)])
  have "map snapshot_id ?new = map (\<lambda>(v, i). fresh v i) (map (\<lambda>(v, r). (v, row_id r)) (List.product ?drafts rows))"
    by (simp add: split_def comp_def)
  moreover have "inj_on (\<lambda>(v, i). fresh v i) A" for A using fresh by (auto simp: fresh_pairs_def fresh_ids_def intro: inj_on_subset)
  ultimately have ids: "distinct (map snapshot_id ?new)" using pairs by (simp only: distinct_map)
  have apart: "snapshot_id ` set (snapshots db) \<inter> snapshot_id ` set ?new = {}"
  proof -
    have "snapshot_id ` set ?new \<subseteq> range (\<lambda>(v, i). fresh v i)" by (auto simp: image_iff) blast
    then show ?thesis using fresh by (auto simp: fresh_pairs_def fresh_ids_def)
  qed
  have places: "distinct (map (\<lambda>s. (snapshot_version_id s, snapshot_row_id s)) ?new)" using pairs by (simp add: split_def comp_def)
  have start: "sound_snapshot db s \<and> snapshot_priority s = None" if new: "s \<in> set ?new" for s
  proof -
    from new obtain v r where "v \<in> set (versions db)" "is_version_draft v" "r \<in> set rows" "s = draft_snapshot fresh (version_id v) r" by auto
    then show ?thesis using rows(2) unfolding sound_snapshot_def draft_snapshot_def by (auto simp: is_version_draft_def intro!: bexI [of _ v] bexI [of _ r])
  qed
  have "snapshots_ok (db\<lparr>snapshots := snapshots db @ ?new\<rparr>) \<and> shows_board b (snapshots db @ ?new)"
    by (rule snapshots_added [OF ok board ids apart places]) (use rows(3) start in auto)
  then have added: "snapshots_ok (db\<lparr>snapshots := snapshots db @ ?new\<rparr>)" "shows_board b (snapshots db @ ?new)" by auto
  have "snapshots_ok ((db\<lparr>snapshots := snapshots db @ ?new\<rparr>)\<lparr>versions := map ?count (versions (db\<lparr>snapshots := snapshots db @ ?new\<rparr>))\<rparr>)"
    by (rule versions_mapped [OF added(1)]) simp_all
  then have ok': "snapshots_ok (joined fresh rows db)" by (simp add: joined_def)
  have "covered (joined fresh rows db)"
  proof (rule coveredI [OF covered])
    fix s assume "s \<in> set (snapshots (joined fresh rows db))"
    then have "s \<in> set (snapshots db) \<or> snapshot_missing s = None" by (auto simp: joined_def)
    then show "snapshot_missing s = None \<or> snapshot_missing s = Some 0 \<or> (\<exists>u \<in> set (snapshots db). same_cover u s)"
      using same_cover_refl by blast
  qed (simp add: joined_def)
  moreover have "schedules_ok (joined fresh rows db)"
  proof (rule schedules_kept [OF plans])
    show "\<exists>v' \<in> set (versions (joined fresh rows db)). version_id v' = version_id v \<and> is_version_draft v' \<and> scheduled_activation_at v' = scheduled_activation_at v"
      if "v \<in> set (versions db)" "is_version_draft v" for v
      using that by (intro bexI [of _ "?count v"]) (auto simp: joined_def is_version_draft_def)
    show "is_version_draft v" if "v \<in> set (versions (joined fresh rows db))" "scheduled_activation_at v \<noteq> None" for v
      using that plans by (auto simp: joined_def schedules_ok_def is_version_draft_def split: if_splits)
  qed (simp add: joined_def)
  ultimately show ?thesis using ok' added(2) by (auto simp: board_sound_def joined_def)
qed

definition drafts_full :: "stock_db \<Rightarrow> bool" where
  \<comment> \<open>every draft holds one snapshot of every live row, and counts them\<close>
  "drafts_full db \<longleftrightarrow> (\<forall>v \<in> set (versions db). is_version_draft v \<longrightarrow>
     snapshot_row_id ` set (filter (\<lambda>s. snapshot_version_id s = version_id v) (snapshots db)) = row_id ` set (filter (\<lambda>r. \<not> row_is_deleted r) (stock_rows db))
     \<and> snapshot_count v = int (length (filter (\<lambda>s. snapshot_version_id s = version_id v) (snapshots db))))"

lemma drafts_joined:
  assumes ok: "snapshots_ok db" and full: "drafts_full (db\<lparr>stock_rows := old\<rparr>)"
    and rows: "row_id ` set (filter (\<lambda>r. \<not> row_is_deleted r) (stock_rows db)) = row_id ` set (filter (\<lambda>r. \<not> row_is_deleted r) old) \<union> row_id ` set rows"
  shows "drafts_full (joined fresh rows db)"
  unfolding drafts_full_def
proof (intro ballI impI)
  let ?drafts = "sort (map version_id (filter is_version_draft (versions db)))"
  fix v assume "v \<in> set (versions (joined fresh rows db))" "is_version_draft v"
  then obtain w where w: "w \<in> set (versions db)" "is_version_draft w" "version_id v = version_id w" "snapshot_count v = snapshot_count w + int (length rows)"
    by (auto simp: joined_def is_version_draft_def split: if_splits)
  have new: "filter (\<lambda>s. snapshot_version_id s = version_id v) (map (\<lambda>(vid, r). draft_snapshot fresh vid r) (List.product ?drafts rows))
      = map (\<lambda>(vid, r). draft_snapshot fresh vid r) (filter (\<lambda>(vid, _). vid = version_id w) (List.product ?drafts rows))"
    unfolding filter_map by (rule arg_cong [where f = "map _"]) (rule filter_cong, auto simp: w(3))
  have here: "version_id w \<in> set ?drafts" using w by simp
  have "snapshot_row_id ` set (map (\<lambda>(vid, r). draft_snapshot fresh vid r) (filter (\<lambda>(vid, _). vid = version_id w) (List.product ?drafts rows))) = row_id ` set rows"
    using here by (force simp: image_iff)
  moreover have "length (filter (\<lambda>(vid, _). vid = version_id w) (List.product ?drafts rows)) = length rows"
    using length_filter_product [OF drafts_distinct [OF ok], of "version_id w" rows] here by simp
  ultimately show "snapshot_row_id ` set (filter (\<lambda>s. snapshot_version_id s = version_id v) (snapshots (joined fresh rows db)))
      = row_id ` set (filter (\<lambda>r. \<not> row_is_deleted r) (stock_rows (joined fresh rows db)))
    \<and> snapshot_count v = int (length (filter (\<lambda>s. snapshot_version_id s = version_id v) (snapshots (joined fresh rows db))))"
    using full w rows new by (simp add: joined_def drafts_full_def image_Un)
qed

definition created_demand :: "(string \<times> string \<Rightarrow> string) \<Rightarrow> ((string \<times> string) \<times> demand_entry) list \<Rightarrow> stock_db \<Rightarrow> stock_row list" where
  "created_demand fresh_row wanted db =
     (let new = created_rows fresh_row wanted db in filter (\<lambda>r. row_id r \<in> row_id ` set new) (map snd (demanded wanted (with_rows new db))))"

lemma with_rows_frame [simp]:
  "stock_rows (with_rows new db) = stock_rows db @ new" "snapshots (with_rows new db) = snapshots db" "versions (with_rows new db) = versions db"
  "histories (with_rows new db) = histories db" "assignments (with_rows new db) = assignments db" "schedulers (with_rows new db) = schedulers db"
  "repairs (with_rows new db) = repairs db" "stock_tasks (with_rows new db) = stock_tasks db"
  by (simp_all add: with_rows_def)

lemma created_demand_rows:
  assumes rows: "keyed_rows db" and keys: "distinct (map fst wanted)" and fresh: "fresh_ids fresh_row (row_id ` set (stock_rows db))"
  shows "set (created_demand fresh_row wanted db) = set (created_rows fresh_row wanted db)" "distinct (map row_id (created_demand fresh_row wanted db))"
proof -
  let ?new = "created_rows fresh_row wanted db" and ?db = "with_rows (created_rows fresh_row wanted db) db"
  have ok: "keyed_rows ?db" by (rule keyed_rows_with [OF assms])
  have all: "\<forall>i \<in> fst ` set wanted. live_row ?db i \<noteq> None"
    using created_ok(2) [of db wanted _ fresh_row] rows keys unfolding keyed_rows_def by blast
  have mem: "r \<in> set (map snd (demanded wanted ?db)) \<longleftrightarrow> \<not> row_is_deleted r \<and> row_identity r \<in> fst ` set wanted" if "r \<in> set (stock_rows ?db)" for r
  proof -
    have "r \<in> set (map snd (demanded wanted ?db)) \<longleftrightarrow> (\<exists>e. (e, r) \<in> set (demanded wanted ?db))" by force
    then show ?thesis unfolding demanded_row [OF ok keys all that] using map_of_eq_None_iff [of wanted "row_identity r"] by auto
  qed
  have sub: "set (map snd (demanded wanted ?db)) \<subseteq> set (stock_rows ?db)"
  proof
    fix r assume "r \<in> set (map snd (demanded wanted ?db))"
    then obtain e where "(e, r) \<in> set (demanded wanted ?db)" by auto
    then obtain i where "live_row ?db i = Some r" unfolding demanded_mem [OF all] by blast
    then show "r \<in> set (stock_rows ?db)" using live_row_in by blast
  qed
  show "set (created_demand fresh_row wanted db) = set ?new"
  proof
    show "set (created_demand fresh_row wanted db) \<subseteq> set ?new"
    proof
      fix r assume r: "r \<in> set (created_demand fresh_row wanted db)"
      then have "r \<in> set (stock_rows ?db)" "row_id r \<in> row_id ` set ?new" using sub by (auto simp: created_demand_def Let_def)
      then obtain r' where "r' \<in> set ?new" "row_id r' = row_id r" by auto
      then show "r \<in> set ?new" using row_unique [of row_id "stock_rows ?db" r r'] ok \<open>r \<in> set (stock_rows ?db)\<close> by (auto simp: keyed_rows_def)
    qed
    show "set ?new \<subseteq> set (created_demand fresh_row wanted db)"
      using mem created_of(1) by (auto simp: created_demand_def Let_def)
  qed
  have "distinct (map row_id (map snd (demanded wanted ?db)))"
    using demanded_rows_distinct [OF ok keys all] by (simp add: split_def comp_def)
  then show "distinct (map row_id (created_demand fresh_row wanted db))"
    unfolding created_demand_def Let_def by (rule distinct_map_filter)
qed

lemma demand_effect_split:
  "demand_effect fresh_row fresh hid wanted now db =
     (let db' = set_requested (changes (demanded wanted (with_rows (created_rows fresh_row wanted db) db)))
        (add_rows_to_every_draft fresh (created_demand fresh_row wanted db) (with_rows (created_rows fresh_row wanted db) db)) in
      db'\<lparr>histories := histories db @ map (goal_record hid now db') (increases (demanded wanted (with_rows (created_rows fresh_row wanted db) db)))\<rparr>)"
  unfolding demand_effect_def created_demand_def Let_def by simp

lemma new_rows_unseen:
  assumes "snapshots_ok db" "keyed_rows db" "distinct (map fst wanted)" "fresh_ids fresh_row (row_id ` set (stock_rows db))"
    and "r \<in> set (created_rows fresh_row wanted db)" "s \<in> set (snapshots db)"
  shows "snapshot_row_id s \<noteq> row_id r"
proof -
  have "snapshot_row_id s \<in> row_id ` set (stock_rows db)" using row_of_snapshot [OF assms(1,6)] by (metis imageI)
  moreover have "row_id r \<in> range fresh_row" using assms(5) by (auto simp: created_rows_def)
  ultimately show ?thesis using assms(4) by (auto simp: fresh_ids_def)
qed

lemma demand_keeps_board:
  assumes sound: "board_sound db" and rows: "keyed_rows db" and keys: "distinct (map fst wanted)"
    and fresh: "fresh_ids fresh_row (row_id ` set (stock_rows db))" "fresh_pairs fresh db" and full: "drafts_full db"
  shows "board_sound (demand_effect fresh_row fresh hid wanted now db)" "drafts_full (demand_effect fresh_row fresh hid wanted now db)"
proof -
  let ?new = "created_rows fresh_row wanted db" and ?db = "with_rows (created_rows fresh_row wanted db) db"
  let ?created = "created_demand fresh_row wanted db"
  note created = created_demand_rows [OF rows keys fresh(1)]
  from sound have ok: "snapshots_ok db" by (simp add: board_sound_def)
  have keyed: "keyed_rows ?db" by (rule keyed_rows_with [OF rows keys fresh(1)])
  have db: "board_sound ?db"
    by (rule board_rows_changed [OF sound, of _ "\<lambda>r. r"]) (use keyed in \<open>auto simp: keyed_rows_def\<close>)
  then have ok1: "snapshots_ok ?db" by (simp add: board_sound_def)
  have unseen: "snapshot_row_id s \<noteq> row_id r" if "r \<in> set ?created" "s \<in> set (snapshots ?db)" for r s
    using new_rows_unseen [OF ok rows keys fresh(1)] that created(1) by simp
  have fresh': "fresh_pairs fresh ?db" using fresh(2) by (simp add: fresh_pairs_def)
  have joins: "add_rows_to_every_draft fresh ?created ?db = joined fresh ?created ?db" by (rule add_rows_joins [OF ok1 unseen])
  have board: "board_sound (joined fresh ?created ?db)"
    by (rule joined_sound [OF db fresh' created(2)]) (use unseen created(1) in auto)
  have lists: "stock_rows (demand_effect fresh_row fresh hid wanted now db) = map (asked wanted) (stock_rows db @ ?new)"
    by (rule demand_rows [OF rows keys fresh(1)])
  have same: "versions (demand_effect fresh_row fresh hid wanted now db) = versions (joined fresh ?created ?db)"
    "snapshots (demand_effect fresh_row fresh hid wanted now db) = snapshots (joined fresh ?created ?db)"
    "schedulers (demand_effect fresh_row fresh hid wanted now db) = schedulers (joined fresh ?created ?db)"
    unfolding demand_effect_split Let_def by (simp_all add: joins)
  show "board_sound (demand_effect fresh_row fresh hid wanted now db)"
    by (rule board_rows_changed [OF board, of _ "asked wanted" "[]"]) (use same lists keyed in \<open>simp_all add: joined_def keyed_rows_def\<close>)
  have joins_full: "drafts_full (joined fresh ?created ?db)"
    by (rule drafts_joined [OF ok1, of "stock_rows db"])
      (use full created(1) in \<open>auto simp: drafts_full_def image_Un\<close>)
  have kept: "row_id ` set (filter (\<lambda>r. \<not> row_is_deleted r) (map (asked wanted) rs)) = row_id ` set (filter (\<lambda>r. \<not> row_is_deleted r) rs)" for rs
    by (force simp: image_iff)
  have rowsJ: "stock_rows (joined fresh ?created ?db) = stock_rows db @ ?new" by (simp add: joined_def)
  show "drafts_full (demand_effect fresh_row fresh hid wanted now db)"
    unfolding drafts_full_def same lists kept by (rule joins_full [unfolded drafts_full_def rowsJ])
qed

text \<open>The ledger: a new row has no units, a new goal record no credit.\<close>

lemma no_units:
  assumes "rid \<notin> assignment_row_id ` set asgs"
  shows "tally asgs rid st = 0"
proof -
  have "filter (counted rid st) asgs = []" using assms by (auto simp: filter_empty_conv counted_def)
  then show ?thesis by (simp add: tally_def column_total_def)
qed

lemma no_credit:
  assumes "Some hid \<notin> credited_record_id ` set asgs"
  shows "recompute_goal_total asgs hid = 0"
proof -
  have "filter (\<lambda>a. credited_record_id a = Some hid) asgs = []" using assms by (auto simp: filter_empty_conv image_iff)
  then show ?thesis by (simp add: recompute_goal_total_def column_total_def)
qed

lemma ledger_grows:
  assumes ok: "ledger_ok db" and same: "assignments db' = assignments db"
    and rows: "stock_rows db' = map f (stock_rows db @ new)" "\<And>r. row_id (f r) = row_id r" "\<And>r st. column st (f r) = column st r"
      "distinct (map row_id (stock_rows db @ new))" "\<forall>r \<in> set new. \<forall>st. column st r = 0"
    and hists: "histories db' = histories db @ hs" "distinct (map history_id (histories db @ hs))"
      "\<forall>h \<in> set hs. history_type h = HistQUANTITY_REQUESTED_CHANGE \<longrightarrow> history_awaiting h = 0"
  shows "ledger_ok db'"
proof -
  have ids: "row_id ` set (stock_rows db') = row_id ` set (stock_rows db) \<union> row_id ` set new"
    unfolding rows(1) set_map image_image rows(2) by (simp add: image_Un)
  have goals: "goal_ids (histories db) \<subseteq> goal_ids (histories db')" by (auto simp: goal_ids_def hists(1))
  have "exact_row (assignments db) r" if "r \<in> set (stock_rows db')" for r
  proof -
    from that obtain q where q: "q \<in> set (stock_rows db) \<union> set new" "r = f q" by (auto simp: rows(1))
    show ?thesis
    proof (cases "q \<in> set new")
      case True
      then have "row_id q \<notin> row_id ` set (stock_rows db)" using rows(4) by (force simp: distinct_map)
      then have "row_id q \<notin> assignment_row_id ` set (assignments db)" using ok by (auto simp: ledger_ok_def)
      then show ?thesis using True rows(5) by (simp add: exact_row_def q(2) rows(2,3) no_units)
    next
      case False
      then show ?thesis using q ok by (simp add: exact_row_def ledger_ok_def rows(2,3))
    qed
  qed
  moreover have "exact_goal (assignments db) h" if "h \<in> set (histories db')" for h
  proof (cases "h \<in> set (histories db)")
    case True
    then show ?thesis using ok by (simp add: ledger_ok_def)
  next
    case False
    then have h: "h \<in> set hs" using that by (simp add: hists(1))
    then have "history_id h \<notin> history_id ` set (histories db)" using hists(2) by auto
    then have "history_id h \<notin> goal_ids (histories db)" by (auto simp: goal_ids_def)
    then have "Some (history_id h) \<notin> credited_record_id ` set (assignments db)" using ok by (auto simp: ledger_ok_def credit_ok_def)
    then show ?thesis using h hists(3) by (simp add: exact_goal_def no_credit)
  qed
  moreover have "credit_ok (histories db') a" if "credit_ok (histories db) a" for a
    using that goals by (auto simp: credit_ok_def)
  moreover have "distinct (map row_id (stock_rows db'))" using rows(4) unfolding rows(1) by (simp add: comp_def rows(2))
  ultimately show ?thesis using ok hists unfolding ledger_ok_def same ids by auto
qed

section \<open>An example\<close>

definition pair_code :: "string \<Rightarrow> string \<times> string \<Rightarrow> string" where
  "pair_code mark p = mark @ concat (map (\<lambda>c. [CHR ''a'', c]) (fst p)) @ CHR ''b'' # snd p"

lemma inj_pair_code: "inj (pair_code mark)"
proof -
  have split: "concat (map (\<lambda>c. [CHR ''a'', c]) xs) @ CHR ''b'' # x = concat (map (\<lambda>c. [CHR ''a'', c]) ys) @ CHR ''b'' # y \<Longrightarrow> xs = ys \<and> x = y" for xs ys x y
  proof (induction xs arbitrary: ys)
    case Nil
    then show ?case by (cases ys) auto
  next
    case (Cons c xs)
    then show ?case by (cases ys) auto
  qed
  show ?thesis
  proof (rule injI)
    fix p q assume "pair_code mark p = pair_code mark q"
    then have "fst p = fst q \<and> snd p = snd q" by (intro split) (simp add: pair_code_def)
    then show "p = q" by (simp add: prod_eq_iff)
  qed
qed

definition sample_chair :: "string \<Rightarrow> string \<Rightarrow> stock_category" where
  "sample_chair i name = \<lparr>stock_category_id = i, stock_category_name = name, stock_category_is_deleted = False\<rparr>"

definition sample_market :: stock_db where
  "sample_market = sample_office\<lparr>categories := [sample_chair ''c'' ''Chair'', sample_chair ''d'' ''CHAIR'']\<rparr>"

definition sample_wish :: "nat \<Rightarrow> string \<Rightarrow> string \<Rightarrow> int \<Rightarrow> demand_entry" where
  "sample_wish i category signature n = \<lparr>demand_index = i, item_category_raw = category, item_category_key = lower (strip category),
     properties_raw = [], properties_normalized = [], properties_signature = signature, quantity_requested = n\<rparr>"

definition sample_wishes :: "demand_entry list" where
  "sample_wishes = [sample_wish 0 ''Chair'' ''g'' 9, sample_wish 1 ''Sofa'' ''g'' 2, sample_wish 2 '' CHAIR'' ''h'' 4]"

lemma sample_wishes_ok: "keyed_rows sample_market" "request_ok sample_wishes sample_market" "\<forall>e \<in> set sample_wishes. 0 \<le> quantity_requested e"
    "fresh_ids (pair_code ''n'') (row_id ` set (stock_rows sample_market))"
  unfolding keyed_rows_def identities_ok_def request_ok_def keyed_entry_def
  by (code_simp, code_simp, code_simp)
    (auto simp: fresh_ids_def inj_pair_code pair_code_def sample_market_def sample_office_def sample_row_def)

lemma sample_filed: "map (filed_under sample_wishes sample_market) sample_wishes = [Some (''c'', ''g''), None, Some (''c'', ''h'')]"
  by code_simp

theorem first_spelling_decides_category_witness:
  "resolve_alone (categories sample_market) (sample_wish 2 '' CHAIR'' ''h'' 4) = Some ''d''
    \<and> category_of (resolve_categories_for_entries sample_wishes (categories sample_market)) (sample_wish 2 '' CHAIR'' ''h'' 4) = Some ''c''"
proof -
  let ?c = "sample_chair ''c'' ''Chair''" and ?d = "sample_chair ''d'' ''CHAIR''"
  let ?first = "sample_wish 0 ''Chair'' ''g'' 9" and ?later = "sample_wish 2 '' CHAIR'' ''h'' 4"
  have 1: "\<forall>e \<in> set sample_wishes. keyed_entry e" using sample_wishes_ok(2) by (simp add: request_ok_def)
  have 2: "sample_wishes = [] @ ?first # [sample_wish 1 ''Sofa'' ''g'' 2] @ ?later # []" by (simp add: sample_wishes_def)
  have cats: "categories sample_market = [?c, ?d]" by (simp add: sample_market_def)
  have folded: "lower ''CHAIR'' = lower ''Chair''" "strip '' CHAIR'' = ''CHAIR''" "strip ''Chair'' = ''Chair''" by code_simp+
  have 3: "item_category_key ?first = item_category_key ?later" "distinct (map stock_category_name (filter (\<lambda>c. \<not> stock_category_is_deleted c) (categories sample_market)))"
    "?c \<in> set (categories sample_market)" "?d \<in> set (categories sample_market)" "\<not> stock_category_is_deleted ?c" "\<not> stock_category_is_deleted ?d"
    "?c \<noteq> ?d" "lower (stock_category_name ?c) = item_category_key ?later"
    "strip (item_category_raw ?later) = stock_category_name ?d" "lower (stock_category_name ?d) = item_category_key ?later"
    "strip (item_category_raw ?first) = stock_category_name ?c" "stock_category_id ?c = ''c''" "stock_category_id ?d = ''d''"
    by (simp_all add: cats sample_chair_def sample_wish_def folded)
  from first_spelling_decides_category [OF 1 2 3(1) _ 3(2-10)] 3(11-13) show ?thesis by simp
qed

theorem demand_sets_requested_witness:
  "\<exists>db' goals. apply_stock_demand True True (pair_code ''n'') (\<lambda>v r. ''s'') id sample_wishes 9 sample_market
      = Inr (db', zip sample_wishes [APPLIED, CATEGORY_NOT_FOUND, APPLIED])
    \<and> requested_of db' (''c'', ''g'') = Some 9 \<and> requested_of db' (''c'', ''h'') = Some 4
    \<and> histories db' = histories sample_market @ goals \<and> map history_type goals = [HistQUANTITY_REQUESTED_CHANGE, HistQUANTITY_REQUESTED_CHANGE]
    \<and> map history_requested goals = [9, 4]"
proof -
  let ?entry = "\<lambda>h. (history_type h, history_source h, history_row_id h, history_requested h, history_awaiting h, history_created_at h, history_is_deleted h)"
  let ?due = "List.map_filter (\<lambda>e. case filed_under sample_wishes sample_market e of None \<Rightarrow> None
      | Some i \<Rightarrow> if requested_before sample_market i < quantity_requested e then Some (HistQUANTITY_REQUESTED_CHANGE, ReqSCANNER,
          placed_in (pair_code ''n'') sample_market i, quantity_requested e, 0 :: int, 9 :: int, False) else None) sample_wishes"
  from demand_sets_requested [OF sample_wishes_ok, of "\<lambda>v r. ''s''" id 9] obtain db' goals where
    run: "apply_stock_demand True True (pair_code ''n'') (\<lambda>v r. ''s'') id sample_wishes 9 sample_market
      = Inr (db', map (\<lambda>e. (e, if filed_under sample_wishes sample_market e = None then CATEGORY_NOT_FOUND else APPLIED)) sample_wishes)"
    and named: "\<forall>e \<in> set sample_wishes. \<forall>i. filed_under sample_wishes sample_market e = Some i \<longrightarrow> requested_of db' i = Some (quantity_requested e)"
    and goals: "histories db' = histories sample_market @ goals" "map ?entry goals = ?due"
    by blast
  have due: "map (\<lambda>(t, _, _, q, _). (t, q)) ?due = [(HistQUANTITY_REQUESTED_CHANGE, 9), (HistQUANTITY_REQUESTED_CHANGE, 4)]" by code_simp
  have "map (\<lambda>h. (history_type h, history_requested h)) goals = [(HistQUANTITY_REQUESTED_CHANGE, 9), (HistQUANTITY_REQUESTED_CHANGE, 4)]"
    using arg_cong [OF goals(2), of "map (\<lambda>(t, _, _, q, _). (t, q))"] unfolding due by (simp add: comp_def)
  then have "map history_type goals = [HistQUANTITY_REQUESTED_CHANGE, HistQUANTITY_REQUESTED_CHANGE]" "map history_requested goals = [9, 4]"
    by (auto simp: map_eq_Cons_conv)
  moreover have "map (\<lambda>e. (e, if filed_under sample_wishes sample_market e = None then CATEGORY_NOT_FOUND else APPLIED)) sample_wishes
      = zip sample_wishes [APPLIED, CATEGORY_NOT_FOUND, APPLIED]" by code_simp
  moreover have "requested_of db' (''c'', ''g'') = Some (quantity_requested (sample_wish 0 ''Chair'' ''g'' 9))"
    "requested_of db' (''c'', ''h'') = Some (quantity_requested (sample_wish 2 '' CHAIR'' ''h'' 4))"
    using named sample_filed by (simp_all add: sample_wishes_def)
  ultimately show ?thesis using run goals(1) by (simp add: sample_wish_def)
qed

theorem replayed_demand_changes_nothing_witness:
  "\<exists>db' outcomes. apply_stock_demand True True (pair_code ''n'') (\<lambda>v r. ''s'') id sample_wishes 9 sample_market = Inr (db', outcomes)
    \<and> requested_of db' (''c'', ''h'') = Some 4
    \<and> apply_stock_demand True True (pair_code ''m'') (\<lambda>v r. ''t'') id sample_wishes 20 db' = Inr (db', outcomes)"
proof -
  let ?wanted = "wanted_entries sample_wishes sample_market"
  let ?db = "demand_effect (pair_code ''n'') (\<lambda>v r. ''s'') id ?wanted 9 sample_market"
  obtain outcomes where run: "apply_stock_demand True True (pair_code ''n'') (\<lambda>v r. ''s'') id sample_wishes 9 sample_market = Inr (?db, outcomes)"
    using sample_wishes_ok(1) demand_reaches [OF _ refl, of sample_market True True "pair_code ''n''" "\<lambda>v r. ''s''" id sample_wishes 9]
    by (simp add: keyed_rows_def)
  have "map_of ?wanted (''c'', ''h'') = Some (sample_wish 2 '' CHAIR'' ''h'' 4)" by code_simp
  then have "requested_of ?db (''c'', ''h'') = Some 4"
    using demand_requested [OF sample_wishes_ok(1) wanted_distinct sample_wishes_ok(4), of _ id sample_wishes sample_market 9 "(''c'', ''h'')"]
    by (simp add: sample_wish_def)
  with run replayed_demand_changes_nothing [OF sample_wishes_ok(1,2,4) run] show ?thesis by blast
qed

end
