(* ===== verification/StockReportSound.thy ===== *)
theory StockReportSound
  imports StockDemand
begin

text \<open>
  What the whole stock report promises: the board, the ledger of assignments, the rows and the drafts agree with each
  other. A move of an assignment takes a store to one that differs in counters, in the goal totals and in what the
  active snapshots count as resolved; every such step keeps the promise, and so do the commands made of moves.
\<close>

section \<open>The promise\<close>

definition gone_clean :: "stock_db \<Rightarrow> bool" where
  \<comment> \<open>a deleted row has no assignment left and no open snapshot\<close>
  "gone_clean db \<longleftrightarrow> (\<forall>r \<in> set (stock_rows db). row_is_deleted r \<longrightarrow>
     (\<forall>a \<in> set (assignments db). assignment_row_id a = row_id r \<longrightarrow> assignment_is_deleted a)
     \<and> (\<forall>s \<in> set (snapshots db). snapshot_row_id s = row_id r \<longrightarrow> \<not> is_snapshot_open s))"

definition report_sound :: "repair_record list \<Rightarrow> stock_db \<Rightarrow> bool" where
  "report_sound rs db \<longleftrightarrow> board_sound db \<and> report_ok rs db \<and> identities_ok db \<and> drafts_full db \<and> gone_clean db"

section \<open>Steps of the ledger\<close>

definition bare :: "stock_row \<Rightarrow> stock_row" where
  "bare = copy_counters no_counters"

definition kept_assignment :: "stock_assignment \<Rightarrow> stock_assignment \<Rightarrow> bool" where
  "kept_assignment a a' \<longleftrightarrow> assignment_id a' = assignment_id a \<and> assignment_row_id a' = assignment_row_id a
     \<and> assignment_item_id a' = assignment_item_id a \<and> assignment_task_id a' = assignment_task_id a
     \<and> (\<not> assignment_is_deleted a' \<longrightarrow> \<not> assignment_is_deleted a) \<and> (live_assignment a' \<longrightarrow> live_assignment a)"

definition room_kept :: "stock_db \<Rightarrow> stock_db \<Rightarrow> item_snapshot \<Rightarrow> item_snapshot \<Rightarrow> bool" where
  "room_kept db db' s s' \<longleftrightarrow> in_place s s' \<and> snapshot_missing s' = snapshot_missing s
     \<and> (is_snapshot_active s \<longrightarrow> snapshot_ceiling s (its_row db s) \<le> snapshot_ceiling s' (its_row db' s'))"

definition ledger_step :: "stock_db \<Rightarrow> stock_db \<Rightarrow> bool" where
  "ledger_step db db' \<longleftrightarrow> map bare (stock_rows db') = map bare (stock_rows db) \<and> versions db' = versions db \<and> schedulers db' = schedulers db
     \<and> categories db' = categories db \<and> repairs db' = repairs db \<and> map history_id (histories db') = map history_id (histories db)
     \<and> list_all2 (room_kept db db') (snapshots db) (snapshots db') \<and> list_all2 kept_assignment (assignments db) (assignments db')"

lemma bare_simps:
  assumes "bare r' = bare r"
  shows "row_id r' = row_id r" "row_is_deleted r' = row_is_deleted r" "row_identity r' = row_identity r" "row_requested r' = row_requested r"
proof -
  have "row_id (bare x) = row_id x" "row_is_deleted (bare x) = row_is_deleted x" "row_identity (bare x) = row_identity x"
    "row_requested (bare x) = row_requested x" for x :: stock_row
    by (simp_all add: bare_def copy_counters_def row_identity_def)
  then show "row_id r' = row_id r" "row_is_deleted r' = row_is_deleted r" "row_identity r' = row_identity r" "row_requested r' = row_requested r"
    using assms by metis+
qed

lemma all2_map:
  assumes "list_all2 P xs ys" "\<And>x y. P x y \<Longrightarrow> f y = f x"
  shows "map f ys = map f xs"
  using assms(1)
proof (induction rule: list_all2_induct)
  case (Cons x xs y ys)
  then show ?case using assms(2) [OF Cons.hyps(1)] by simp
qed simp

lemma all2_filter:
  assumes "list_all2 P xs ys" "\<And>x y. P x y \<Longrightarrow> Q y = Q x"
  shows "list_all2 P (filter Q xs) (filter Q ys)"
  using assms(1)
proof (induction rule: list_all2_induct)
  case (Cons x xs y ys)
  then show ?case using assms(2) [OF Cons.hyps(1)] by simp
qed simp

lemma bare_rows:
  assumes "map bare rows' = map bare rows"
  shows "list_all2 (\<lambda>r r'. bare r' = bare r) rows rows'"
proof -
  have "list_all2 (=) (map bare rows) (map bare rows')" using assms by (simp add: list.rel_eq)
  then show ?thesis unfolding list_all2_map1 list_all2_map2 by (rule list_all2_mono) simp
qed

lemma bare_map:
  assumes "map bare rows' = map bare rows" "\<And>r r'. bare r' = bare r \<Longrightarrow> f r' = f r"
  shows "map f rows' = map f rows"
  by (rule all2_map [OF bare_rows [OF assms(1)]]) (rule assms(2))

lemma bare_live:
  assumes "map bare rows' = map bare rows" "\<And>r r'. bare r' = bare r \<Longrightarrow> f r' = f r"
  shows "map f (filter (\<lambda>r. \<not> row_is_deleted r) rows') = map f (filter (\<lambda>r. \<not> row_is_deleted r) rows)"
proof (rule all2_map [OF all2_filter [OF bare_rows [OF assms(1)]]])
  fix r r' :: stock_row assume "bare r' = bare r"
  then show "(\<not> row_is_deleted r') = (\<not> row_is_deleted r)" "f r' = f r" using bare_simps(2) assms(2) by blast+
qed

lemma bare_twin:
  assumes "map bare rows' = map bare rows" "r \<in> set rows"
  shows "\<exists>r' \<in> set rows'. bare r' = bare r"
  using assms by (metis image_eqI image_iff list.set_map)

lemma room_trans: "room_kept d1 d2 s1 s2 \<Longrightarrow> room_kept d2 d3 s2 s3 \<Longrightarrow> room_kept d1 d3 s1 s3"
  by (auto simp: room_kept_def in_place_def is_snapshot_active_def)

lemma room_refl [simp]: "room_kept db db s s"
  by (simp add: room_kept_def)

lemma kept_trans: "kept_assignment a b \<Longrightarrow> kept_assignment b c \<Longrightarrow> kept_assignment a c"
  by (auto simp: kept_assignment_def)

lemma kept_refl [simp]: "kept_assignment a a"
  by (simp add: kept_assignment_def)

lemma ledger_step_refl [simp]: "ledger_step db db"
  by (simp add: ledger_step_def list.rel_refl)

lemma ledger_step_trans:
  assumes "ledger_step d1 d2" "ledger_step d2 d3"
  shows "ledger_step d1 d3"
  using assms list_all2_trans [of "room_kept d1 d2" "room_kept d2 d3" "room_kept d1 d3" "snapshots d1" "snapshots d2" "snapshots d3"]
    list_all2_trans [of kept_assignment kept_assignment kept_assignment "assignments d1" "assignments d2" "assignments d3"]
  by (auto simp: ledger_step_def dest: room_trans kept_trans)

section \<open>What a step keeps\<close>

lemma step_busy:
  assumes "list_all2 kept_assignment asgs asgs'" "\<And>a a'. kept_assignment a a' \<Longrightarrow> f a' = f a"
    and "distinct (map f (filter live_assignment asgs))"
  shows "distinct (map f (filter live_assignment asgs')) \<and> f ` set (filter live_assignment asgs') \<subseteq> f ` set (filter live_assignment asgs)"
  using assms(1,3)
proof (induction rule: list_all2_induct)
  case (Cons a asgs a' asgs')
  then show ?case using assms(2) [OF Cons.hyps(1)] by (auto simp: kept_assignment_def split: if_splits)
qed simp

lemma step_keeps_snapshots:
  assumes ok: "snapshots_ok db" and step: "ledger_step db db'"
  shows "snapshots_ok db'"
proof -
  have places: "list_all2 in_place (snapshots db) (snapshots db')"
    using step unfolding ledger_step_def by (auto elim: list_all2_mono simp: room_kept_def)
  have rows: "map bare (stock_rows db') = map bare (stock_rows db)" and same: "versions db' = versions db" using step by (simp_all add: ledger_step_def)
  have sound: "sound_snapshot db' s'" if "sound_snapshot db s" "in_place s s'" for s s'
  proof -
    from that(1) obtain v r where v: "v \<in> set (versions db)" "version_id v = snapshot_version_id s" "version_active_at v = snapshot_active_at s"
      "version_closed_at v \<noteq> None \<longrightarrow> snapshot_closed_at s \<noteq> None"
      and r: "r \<in> set (stock_rows db)" "row_id r = snapshot_row_id s" "snapshot_closed_at s \<noteq> None \<longrightarrow> version_closed_at v \<noteq> None \<or> row_is_deleted r"
      unfolding sound_snapshot_def by blast
    obtain r' where r': "r' \<in> set (stock_rows db')" "bare r' = bare r" using bare_twin [OF rows r(1)] by blast
    show ?thesis
      using that v r r'(1) bare_simps [OF r'(2)] unfolding sound_snapshot_def in_place_def same
      by (intro conjI bexI [of _ v] bexI [of _ r']) auto
  qed
  have "map snapshot_id (snapshots db') = map snapshot_id (snapshots db)"
    "map (\<lambda>s. (snapshot_version_id s, snapshot_row_id s)) (snapshots db') = map (\<lambda>s. (snapshot_version_id s, snapshot_row_id s)) (snapshots db)"
    by (rule all2_map [OF places]; simp add: in_place_def)+
  moreover have "\<forall>s' \<in> set (snapshots db'). sound_snapshot db' s'"
  proof
    fix s' assume "s' \<in> set (snapshots db')"
    then obtain s where "s \<in> set (snapshots db)" "in_place s s'" using places by (metis in_set_conv_nth list_all2_conv_all_nth)
    then show "sound_snapshot db' s'" using sound soundD [OF ok] by blast
  qed
  moreover have "map row_id (stock_rows db') = map row_id (stock_rows db)" by (rule bare_map [OF rows]) (rule bare_simps)
  ultimately show ?thesis using ok unfolding snapshots_ok_def same by simp
qed

lemma step_keeps_lists:
  assumes step: "ledger_step db db'" and board: "shows_board b (snapshots db)"
  shows "shows_board b (snapshots db')"
proof -
  have "slots vid p (snapshots db') = slots vid p (snapshots db)" for vid p
  proof -
    have "list_all2 (room_kept db db') (filter (in_group vid p) (snapshots db)) (filter (in_group vid p) (snapshots db'))"
      using step by (intro all2_filter) (simp_all add: ledger_step_def room_kept_def in_place_group)
    then have "map (\<lambda>s. (priority_order s, snapshot_id s)) (filter (in_group vid p) (snapshots db'))
        = map (\<lambda>s. (priority_order s, snapshot_id s)) (filter (in_group vid p) (snapshots db))"
      by (rule all2_map) (simp add: room_kept_def in_place_def)
    then show ?thesis unfolding slots_def by (metis list.set_map)
  qed
  then show ?thesis using board by (simp add: shows_board_def)
qed

lemma step_keeps_board:
  assumes sound: "board_sound db" and step: "ledger_step db db'"
  shows "board_sound db'"
proof -
  from sound obtain b where ok: "snapshots_ok db" and covered: "covered db" and board: "shows_board b (snapshots db)" and plans: "schedules_ok db"
    by (rule board_soundE)
  have pairs: "list_all2 (room_kept db db') (snapshots db) (snapshots db')" using step by (simp add: ledger_step_def)
  have "covered db'"
    unfolding covered_def
  proof (intro ballI allI impI)
    fix s' m assume s': "s' \<in> set (snapshots db')" "snapshot_missing s' = Some m"
    then obtain s where s: "s \<in> set (snapshots db)" "room_kept db db' s s'" using pairs by (metis in_set_conv_nth list_all2_conv_all_nth)
    then have m: "snapshot_missing s = Some m" and same: "is_snapshot_active s' = is_snapshot_active s"
      using s'(2) by (auto simp: room_kept_def in_place_def is_snapshot_active_def)
    then show "0 \<le> m \<and> (is_snapshot_active s' \<longrightarrow> m \<le> snapshot_ceiling s' (its_row db' s'))"
      using coveredD [OF covered s(1) m] s(2) unfolding room_kept_def by fastforce
  qed
  moreover have "shows_board b (snapshots db')" by (rule step_keeps_lists [OF step board])
  moreover have "schedules_ok db'" using plans step by (simp add: schedules_ok_def ledger_step_def)
  ultimately show ?thesis using step_keeps_snapshots [OF ok step] by (auto simp: board_sound_def)
qed

lemma step_keeps_drafts:
  assumes full: "drafts_full db" and step: "ledger_step db db'"
  shows "drafts_full db'"
proof -
  have pairs: "list_all2 (room_kept db db') (snapshots db) (snapshots db')" using step by (simp add: ledger_step_def)
  have rows: "map row_id (filter (\<lambda>r. \<not> row_is_deleted r) (stock_rows db')) = map row_id (filter (\<lambda>r. \<not> row_is_deleted r) (stock_rows db))"
  proof (rule bare_live)
    show "map bare (stock_rows db') = map bare (stock_rows db)" using step by (simp add: ledger_step_def)
  qed (rule bare_simps(1))
  have held: "map snapshot_row_id (filter (\<lambda>s. snapshot_version_id s = vid) (snapshots db'))
      = map snapshot_row_id (filter (\<lambda>s. snapshot_version_id s = vid) (snapshots db))" for vid
    by (rule all2_map [OF all2_filter [OF pairs]]) (simp_all add: room_kept_def in_place_def)
  have sizes: "length (filter (\<lambda>s. snapshot_version_id s = vid) (snapshots db')) = length (filter (\<lambda>s. snapshot_version_id s = vid) (snapshots db))" for vid
    using arg_cong [OF held, of length vid] by simp
  have same: "versions db' = versions db" using step by (simp add: ledger_step_def)
  have "snapshot_row_id ` set (filter (\<lambda>s. snapshot_version_id s = vid) (snapshots db'))
      = snapshot_row_id ` set (filter (\<lambda>s. snapshot_version_id s = vid) (snapshots db))" for vid
    using arg_cong [OF held, of set] by (simp only: list.set_map)
  moreover have "row_id ` set (filter (\<lambda>r. \<not> row_is_deleted r) (stock_rows db')) = row_id ` set (filter (\<lambda>r. \<not> row_is_deleted r) (stock_rows db))"
    using arg_cong [OF rows, of set] by (simp only: list.set_map)
  ultimately show ?thesis using full unfolding drafts_full_def same sizes by (simp only:)
qed

lemma step_keeps_identities: "identities_ok db \<Longrightarrow> ledger_step db db' \<Longrightarrow> identities_ok db'"
  using bare_live [of "stock_rows db'" "stock_rows db" row_identity] bare_simps(3) unfolding identities_ok_def ledger_step_def by metis

lemma step_keeps_gone:
  assumes clean: "gone_clean db" and step: "ledger_step db db'"
  shows "gone_clean db'"
  unfolding gone_clean_def
proof (intro ballI impI conjI)
  fix r' assume r': "r' \<in> set (stock_rows db')" "row_is_deleted r'"
  then obtain r where r: "r \<in> set (stock_rows db)" "bare r = bare r'"
    using bare_twin [of "stock_rows db" "stock_rows db'" r'] step by (auto simp: ledger_step_def)
  then have gone: "row_is_deleted r" "row_id r = row_id r'" using r'(2) bare_simps [OF r(2)] by simp_all
  show "assignment_is_deleted a'" if a': "a' \<in> set (assignments db')" "assignment_row_id a' = row_id r'" for a'
  proof -
    have "list_all2 kept_assignment (assignments db) (assignments db')" using step by (simp add: ledger_step_def)
    then obtain a where "a \<in> set (assignments db)" "kept_assignment a a'" using a'(1) by (metis in_set_conv_nth list_all2_conv_all_nth)
    then show ?thesis using clean r(1) gone a'(2) unfolding gone_clean_def kept_assignment_def by metis
  qed
  show "\<not> is_snapshot_open s'" if s': "s' \<in> set (snapshots db')" "snapshot_row_id s' = row_id r'" for s'
  proof -
    have "list_all2 (room_kept db db') (snapshots db) (snapshots db')" using step by (simp add: ledger_step_def)
    then obtain s where "s \<in> set (snapshots db)" "room_kept db db' s s'" using s'(1) by (metis in_set_conv_nth list_all2_conv_all_nth)
    then show ?thesis using clean r(1) gone s'(2) unfolding gone_clean_def room_kept_def in_place_def is_snapshot_open_def by metis
  qed
qed

lemma step_keeps_report:
  assumes sound: "report_sound rs db" and step: "ledger_step db db'" and "ledger_ok db'" "flags_ok db'"
  shows "report_sound rs db'"
proof -
  have parts: "board_sound db" "identities_ok db" "drafts_full db" "gone_clean db" "repairs db = rs"
      "distinct (map fst (busy db))" "distinct (map snd (busy db))"
    using sound by (simp_all add: report_sound_def report_ok_def)
  have pairs: "list_all2 kept_assignment (assignments db) (assignments db')" and "repairs db' = repairs db" using step by (simp_all add: ledger_step_def)
  moreover have "distinct (map fst (busy db'))" "distinct (map snd (busy db'))"
    using step_busy [OF pairs, of assignment_item_id] step_busy [OF pairs, of assignment_task_id] parts(6,7)
    by (simp_all add: busy_def comp_def kept_assignment_def)
  ultimately have "report_ok rs db'" using assms(3,4) parts(5) by (simp add: report_ok_def)
  then show ?thesis
    using step_keeps_board [OF parts(1) step] step_keeps_identities [OF parts(2) step] step_keeps_drafts [OF parts(3) step] step_keeps_gone [OF parts(4) step]
    by (simp add: report_sound_def)
qed

section \<open>A move is a step\<close>

definition used :: "'a counters_scheme \<Rightarrow> int" where
  "used r = quantity_in_queue r + quantity_in_progress r + quantity_awaiting r"

lemma used_add: "used (add_counters d r) = used r + used d"
  by (simp add: used_def add_counters_def)

lemma used_add_to: "used (add_to_column st q d) = used d + (if st \<in> ACTIVE_ASSIGNMENT_STATES then q else 0)"
  by (cases st) (simp_all add: used_def)

lemma used_none [simp]: "used no_counters = 0"
  by (simp add: used_def no_counters_def)

lemma ceiling_used: "snapshot_ceiling s r = (case effective_quantity_requested s r of None \<Rightarrow> 0 | Some q \<Rightarrow> max 0 (q - (used r + snapshot_resolved s)))"
  by (cases "effective_quantity_requested s r") (simp_all add: snapshot_ceiling_def missing_quantity_ceiling_def used_def)

lemma used_delta:
  assumes "assert_allowed_move (Some st) target False = Inr ()" "target \<noteq> MoveTo st" "0 \<le> q"
  shows "used (delta_vector (Some st) target q False) \<le> (if target \<in> {MoveTo AsgRESOLVED, MoveTo AsgRESOLVED_EARLY} then - q else 0)"
proof -
  have "st \<in> ACTIVE_ASSIGNMENT_STATES" if "target = MoveTo t" for t
    using allowed_from [of st t] assms(1,2) that by auto
  then show ?thesis using assms(3)
    by (cases target) (auto simp: delta_vector_def used_add_to Let_def)
qed

lemma add_counters_keeps [simp]: "bare (add_counters d r) = bare r"
  by (simp add: bare_def add_counters_def copy_counters_def)

lemma effective_bare: "bare r' = bare r \<Longrightarrow> effective_quantity_requested s r' = effective_quantity_requested s r"
  by (drule bare_simps(4)) (simp add: effective_quantity_requested_def scanner_quantity_requested_def)

lemma live_assignment_put: "live_assignment (a\<lparr>credited_record_id := c\<rparr>) = live_assignment a"
  by (simp add: live_assignment_def)

lemma retargeted_kept:
  assumes "assert_allowed_move (Some (assignment_state a)) target False = Inr ()" "target \<noteq> MoveTo (assignment_state a)" "\<not> assignment_is_deleted a"
  shows "kept_assignment a ((retargeted False target actor now a)\<lparr>credited_record_id := c\<rparr>)"
proof -
  have "assignment_state a \<in> ACTIVE_ASSIGNMENT_STATES" if "target = MoveTo t" for t
    using allowed_from [of "assignment_state a" t] assms(1,2) that by auto
  then show ?thesis using assms(3) by (cases target) (auto simp: kept_assignment_def live_assignment_def)
qed


lemma all2_map_right: "(\<And>x. x \<in> set xs \<Longrightarrow> P x (f x)) \<Longrightarrow> list_all2 P xs (map f xs)"
  by (simp add: list_all2_map2 list_all2_same)

text \<open>A change of the counters of one row, with the resolved units of its active snapshot.\<close>

definition counted_change :: "string \<Rightarrow> counters \<Rightarrow> int \<Rightarrow> int \<Rightarrow> stock_db \<Rightarrow> stock_db" where
  "counted_change rid d q now db = credit_snapshot_resolved rid q now
     (db\<lparr>stock_rows := update_where (\<lambda>r. row_id r = rid) (add_counters d) (stock_rows db)\<rparr>)"

lemma counted_change_step:
  assumes ok: "snapshots_ok db" and d: "used d \<le> - max 0 q"
    and kept: "list_all2 kept_assignment (assignments db) (assignments db')" "map history_id (histories db') = map history_id (histories db)"
    and db': "stock_rows db' = stock_rows (counted_change rid d q now db)" "snapshots db' = snapshots (counted_change rid d q now db)"
      "versions db' = versions db" "schedulers db' = schedulers db" "categories db' = categories db" "repairs db' = repairs db"
  shows "ledger_step db db'"
proof -
  let ?g = "\<lambda>s. if 0 < q \<and> snapshot_row_id s = rid \<and> is_snapshot_active s
    then s\<lparr>snapshot_resolved := snapshot_resolved s + q, snapshot_updated_at := Some now\<rparr> else s"
  let ?f = "\<lambda>r. if row_id r = rid then add_counters d r else r"
  have rows: "stock_rows db' = map ?f (stock_rows db)" unfolding db'(1) by (simp add: counted_change_def credit_snapshot_resolved_def update_where_def)
  have snaps: "snapshots db' = map ?g (snapshots db)" unfolding db'(2) by (simp add: counted_change_def credit_snapshot_resolved_def update_where_def)
  have bare: "map bare (stock_rows db') = map bare (stock_rows db)" by (simp add: rows)
  have ids: "distinct (map row_id (stock_rows db'))"
    using ok by (simp add: rows snapshots_ok_def comp_def if_distrib [of row_id] cong: if_cong)
  have its: "its_row db' s' = ?f (its_row db s)" if s: "s \<in> set (snapshots db)" "snapshot_row_id s' = snapshot_row_id s" for s s'
  proof -
    obtain r where r: "row_of db s = Some r" "r \<in> set (stock_rows db)" "row_id r = snapshot_row_id s" by (rule row_of_snapshot [OF ok s(1)])
    have "?f r \<in> set (stock_rows db')" using r(2) by (simp add: rows)
    moreover have "row_id (?f r) = snapshot_row_id s'" using r(3) s(2) by simp
    ultimately have "row_of db' s' = Some (?f r)" unfolding row_of_def using find_by_key [OF ids, of "?f r"] by simp
    then show ?thesis using r(1) by (simp add: its_row_def)
  qed
  have "room_kept db db' s (?g s)" if s: "s \<in> set (snapshots db)" for s
  proof -
    obtain r where r: "row_of db s = Some r" "row_id r = snapshot_row_id s" by (rule row_of_snapshot [OF ok s])
    then have row: "its_row db s = r" by (simp add: its_row_def)
    have bare: "bare (?f r) = bare r" by simp
    have eff: "effective_quantity_requested (?g s) (?f r) = effective_quantity_requested s r"
      unfolding effective_bare [OF bare] by (rule effective_cong) simp_all
    have room: "is_snapshot_active s \<longrightarrow> snapshot_ceiling s r \<le> snapshot_ceiling (?g s) (?f r)"
      using d r(2) unfolding ceiling_used eff by (auto simp: used_add split: option.split)
    have "snapshot_row_id (?g s) = snapshot_row_id s" by simp
    from its [OF s this] r(1) have here: "its_row db' (?g s) = ?f r" by (simp only: its_row_def option.sel)
    have "in_place s (?g s)" "snapshot_missing (?g s) = snapshot_missing s" by (simp_all add: in_place_def)
    with room show ?thesis unfolding room_kept_def here row by blast
  qed
  then have "list_all2 (room_kept db db') (snapshots db) (snapshots db')" unfolding snaps by (rule all2_map_right)
  then show ?thesis using bare kept db'(3-) by (simp add: ledger_step_def)
qed

lemma put_kept:
  assumes "distinct (map assignment_id asgs)" "a \<in> set asgs" "kept_assignment a a'"
  shows "list_all2 kept_assignment asgs (put_row assignment_id a' asgs)"
  unfolding put_row_def
proof (rule all2_map_right)
  fix b assume b: "b \<in> set asgs"
  show "kept_assignment b (if assignment_id b = assignment_id a' then a' else b)"
  proof (cases "assignment_id b = assignment_id a'")
    case True
    then have "b = a" using row_unique [OF assms(1) b assms(2)] assms(3) by (simp add: kept_assignment_def)
    then show ?thesis using True assms(3) by simp
  qed simp
qed

lemma move_step:
  assumes board: "snapshots_ok db" and ok: "ledger_ok db" and a: "a \<in> set (assignments db)" "\<not> assignment_is_deleted a"
    and allowed: "assert_allowed_move (Some (assignment_state a)) target False = Inr ()"
  shows "\<exists>db'. move_assignment a target actor now trigger False db = Inr db' \<and> ledger_step db db' \<and> ledger_ok db'
    \<and> stock_tasks db' = stock_tasks db
    \<and> (\<forall>b \<in> set (assignments db). assignment_id b \<noteq> assignment_id a \<longrightarrow> b \<in> set (assignments db'))
    \<and> (\<exists>a'. moved a target a' \<and> assignments db' = put_row assignment_id a' (assignments db))"
proof (cases "target = MoveTo (assignment_state a)")
  case True
  then have "moved a target a" using a by (simp add: moved_def)
  moreover have "put_row assignment_id a (assignments db) = assignments db"
    using ok a(1) by (intro put_row_same) (simp_all add: ledger_ok_def)
  ultimately show ?thesis using True ok by (auto simp: move_assignment_def intro!: exI [of _ a])
next
  case False
  let ?d = "delta_vector (Some (assignment_state a)) target (assignment_quantity a) False"
  obtain db1 c hs where run: "move_assignment a target actor now trigger False db = Inr (snapshot_effect a target actor now False db1)"
    and db1: "db1 = db\<lparr>assignments := put_row assignment_id ((retargeted False target actor now a)\<lparr>credited_record_id := c\<rparr>) (assignments db),
        stock_rows := update_where (\<lambda>r. row_id r = assignment_row_id a) (add_counters ?d) (stock_rows db), histories := hs\<rparr>"
      "map history_id hs = map history_id (histories db)" "ledger_ok db1"
    using move_effect [OF ok a False allowed] by blast
  let ?a = "(retargeted False target actor now a)\<lparr>credited_record_id := c\<rparr>"
  let ?db' = "snapshot_effect a target actor now False db1"
  let ?q = "if target \<in> {MoveTo AsgRESOLVED, MoveTo AsgRESOLVED_EARLY} then assignment_quantity a else 0"
  have q: "1 \<le> assignment_quantity a" using ok a by (simp add: ledger_ok_def positive_def)
  have ids: "distinct (map assignment_id (assignments db))" using ok by (simp add: ledger_ok_def)
  have "ledger_step db ?db'"
  proof (rule counted_change_step [OF board, of ?d ?q _ "assignment_row_id a" now])
    show "used ?d \<le> - max 0 ?q" using used_delta [OF allowed False, of "assignment_quantity a"] q by auto
    show "list_all2 kept_assignment (assignments db) (assignments ?db')"
      using put_kept [OF ids a(1) retargeted_kept [OF allowed False a(2)]] by (simp add: db1(1))
  qed (auto simp: db1 counted_change_def snapshot_effect_def credit_snapshot_resolved_def)
  moreover have "ledger_ok ?db'" using db1(3) by simp
  moreover have "moved a target ?a" by (rule moved_retargeted)
  moreover have "b \<in> set (put_row assignment_id ?a (assignments db))" if "b \<in> set (assignments db)" "assignment_id b \<noteq> assignment_id a" for b
    using that by (intro put_row_other) simp_all
  ultimately show ?thesis using run by (auto simp: db1(1))
qed


section \<open>The commands made of moves\<close>

lemma tasks_frame [simp]:
  "ledger_step db (d\<lparr>stock_tasks := ts\<rparr>) = ledger_step db d" "ledger_ok (d\<lparr>stock_tasks := ts\<rparr>) = ledger_ok d"
proof -
  have "room_kept db (d\<lparr>stock_tasks := ts\<rparr>) = room_kept db d"
    by (intro ext) (simp add: room_kept_def its_row_def row_of_def)
  then show "ledger_step db (d\<lparr>stock_tasks := ts\<rparr>) = ledger_step db d" by (simp add: ledger_step_def)
qed (simp add: ledger_ok_def)

lemma reportD:
  assumes "report_sound rs db"
  shows "board_sound db" "snapshots_ok db" "ledger_ok db" "flags_ok db" "repairs db = rs" "board_ok rs db" "one_per_task (views db)"
    "distinct (map fst (busy db))" "distinct (map snd (busy db))" "identities_ok db" "drafts_full db" "gone_clean db" "keyed_rows db"
  using assms by (auto simp: report_sound_def report_ok_def board_ok_def one_per_task_busy board_sound_def keyed_rows_def ledger_ok_def)

lemma flags_kept:
  assumes "map (\<lambda>a. (assignment_task_id a, assignment_is_deleted a)) (assignments db') = map (\<lambda>a. (assignment_task_id a, assignment_is_deleted a)) (assignments db)"
    and "stock_tasks db' = stock_tasks db" "flags_ok db"
  shows "flags_ok db'"
proof -
  have "expected_task_flag asgs tid \<longleftrightarrow> (tid, False) \<in> set (map (\<lambda>a. (assignment_task_id a, assignment_is_deleted a)) asgs)" for asgs tid
    by (auto simp: expected_task_flag_def image_iff)
  then have "expected_task_flag (assignments db') = expected_task_flag (assignments db)" using assms(1) by (intro ext) metis
  then show ?thesis using assms(2,3) unfolding flags_ok_def by simp
qed

lemma move_keeps_report:
  assumes sound: "report_sound rs db" and a: "a \<in> set (assignments db)" "\<not> assignment_is_deleted a"
    and allowed: "assert_allowed_move (Some (assignment_state a)) (MoveTo t) False = Inr ()"
  shows "\<exists>db'. move_assignment a (MoveTo t) actor now trigger False db = Inr db' \<and> report_sound rs db'"
proof -
  obtain db' a' where db': "move_assignment a (MoveTo t) actor now trigger False db = Inr db'" "ledger_step db db'" "ledger_ok db'"
      "stock_tasks db' = stock_tasks db" and a': "moved a (MoveTo t) a'" "assignments db' = put_row assignment_id a' (assignments db)"
    using move_step [OF reportD(2) [OF sound] reportD(3) [OF sound] a allowed, where actor = actor and now = now and trigger = trigger] by blast
  have ids: "distinct (map assignment_id (assignments db))" using reportD(3) [OF sound] by (simp add: ledger_ok_def)
  have "map (\<lambda>a. (assignment_task_id a, assignment_is_deleted a)) (put_row assignment_id a' (assignments db))
      = map (\<lambda>a. (assignment_task_id a, assignment_is_deleted a)) (assignments db)"
    unfolding put_row_def map_map
  proof (rule map_cong [OF refl])
    fix b assume b: "b \<in> set (assignments db)"
    then have "b = a" if "assignment_id b = assignment_id a'" using that row_unique [OF ids b a(1)] a'(1) by (simp add: moved_def)
    then show "((\<lambda>a. (assignment_task_id a, assignment_is_deleted a)) \<circ> (\<lambda>r. if assignment_id r = assignment_id a' then a' else r)) b
        = (assignment_task_id b, assignment_is_deleted b)"
      using a'(1) by (auto simp: moved_def)
  qed
  then have "flags_ok db'" using flags_kept [OF _ db'(4) reportD(4) [OF sound]] a'(2) by simp
  then show ?thesis using step_keeps_report [OF sound db'(2,3)] db'(1) by blast
qed

lemma sync_task_keeps:
  assumes sound: "report_sound rs db" and run: "sync_task actor now db task = Inr db'"
  shows "report_sound rs db'"
proof -
  from run obtain found where found: "scalar_one_or_none (filter (active_for_task (stock_task_id task)) (assignments db)) = Inr found"
    by (auto simp: sync_task_def)
  show ?thesis
  proof (cases found)
    case None
    then show ?thesis using run sound found by (auto simp: sync_task_def)
  next
    case (Some a)
    with found have "filter (active_for_task (stock_task_id task)) (assignments db) = [a]" by simp
    then have a: "a \<in> set (assignments db)" "active_for_task (stock_task_id task) a" by (auto dest: filter_eq_singletonD)
    have "locked assignment_id (assignment_id a) (assignments db) = Inr a"
      using reportD(3) [OF sound] a(1) by (intro locked_self) (simp_all add: ledger_ok_def)
    then show ?thesis
      using run sound a move_keeps_report [OF sound a(1) _ sync_allowed, of "stock_task_state task" actor now "''task_sync''"] \<open>filter _ _ = [a]\<close>
      by (auto simp: sync_task_def Let_def active_for_task_def split: if_splits)
  qed
qed

lemma sync_keeps:
  assumes "report_sound rs db" "sync_task_stock_assignments changed actor now db = Inr db'"
  shows "report_sound rs db'"
  using assms unfolding sync_task_stock_assignments_def by (auto intro: rfold_invariant dest: sync_task_keeps)

lemma remove_step:
  assumes sound: "report_sound rs db" and a: "a \<in> set (assignments db)" "\<not> assignment_is_deleted a"
  shows "\<exists>db'. remove_assignment a actor now trigger db = Inr db' \<and> report_sound rs db' \<and> ledger_step db db'
    \<and> views db' = withdraw (assignment_id a) (views db)
    \<and> (\<forall>b \<in> set (assignments db). assignment_id b \<noteq> assignment_id a \<longrightarrow> b \<in> set (assignments db'))"
proof -
  have allowed: "assert_allowed_move (Some (assignment_state a)) AssignmentDELETE False = Inr ()" by (simp add: assert_allowed_move_def)
  obtain d where d: "move_assignment a AssignmentDELETE actor now trigger False db = Inr d" "ledger_step db d" "ledger_ok d"
      "\<forall>b \<in> set (assignments db). assignment_id b \<noteq> assignment_id a \<longrightarrow> b \<in> set (assignments d)"
    using move_step [OF reportD(2) [OF sound] reportD(3) [OF sound] a allowed, where actor = actor and now = now and trigger = trigger] by blast
  obtain db' where db': "remove_assignment a actor now trigger db = Inr db'" "flags_ok db'" "views db' = withdraw (assignment_id a) (views db)"
    using remove_refines [OF reportD(6) [OF sound] reportD(4) [OF sound] a, where actor = actor and now = now and trigger = trigger] by blast
  then have eq: "db' = d\<lparr>stock_tasks := stock_tasks db'\<rparr>"
    using d(1) by (auto simp: remove_assignment_def recompute_task_stock_flag_def set_task_stock_flag_def)
  have "ledger_step db db'" "ledger_ok db'" "assignments db' = assignments d" using d(2,3) by (subst eq; simp)+
  then show ?thesis using step_keeps_report [OF sound _ _ db'(2)] db'(1,3) d(4) by auto
qed

lemma delete_one_keeps:
  assumes sound: "report_sound rs db" and i: "present i (views db)"
  shows "\<exists>db'. delete_one actor now db i = Inr db' \<and> report_sound rs db' \<and> views db' = withdraw i (views db)"
proof -
  from i obtain a where a: "a \<in> set (assignments db)" "assignment_id a = i" "\<not> assignment_is_deleted a"
    by (auto simp: present_def views_def view_def)
  have "locked assignment_id (assignment_id a) (assignments db) = Inr a"
    using reportD(3) [OF sound] a(1) by (intro locked_self) (simp_all add: ledger_ok_def)
  then show ?thesis
    using remove_step [OF sound a(1,3), where actor = actor and now = now and trigger = "''delete_assignments''"] a(2)
    by (auto simp: delete_one_def)
qed

interpretation report_deletion: refining_loop "delete_one actor now" "report_sound rs" present views withdraw for actor now rs
  by unfold_locales (use delete_one_keeps in blast, force simp: present_def withdraw_def)

lemma delete_assignments_keeps:
  assumes sound: "report_sound rs db" and run: "delete_stock_task_assignments ids actor now db = Inr db'"
  shows "report_sound rs db'"
proof -
  let ?ids = "sort (dedupe ids)"
  have named: "rfold (delete_one actor now) db ?ids = Inr db'"
      "\<forall>i \<in> set ?ids. i \<in> assignment_id ` set (filter (\<lambda>a. assignment_id a \<in> set ?ids \<and> \<not> assignment_is_deleted a) (assignments db))"
    using run unfolding delete_stock_task_assignments_def delete_one_def [abs_def] Let_def
    by (auto simp: filter_empty_conv split: if_splits)
  have "\<forall>i \<in> set ?ids. present i (views db)" using named(2) by (force simp: present_def views_def view_def)
  moreover have "distinct ?ids" by simp
  ultimately show ?thesis
    using report_deletion.loop_refines [OF sound, where xs = ?ids and actor = actor and now = now] named(1) by auto
qed

end
