(* ===== verification/StockDeletion.thy ===== *)
theory StockDeletion
  imports StockReportSound
begin

text \<open>
  Deleting a row of the stock report: the cascade of \<open>_delete_stock_report_item_cascade.py\<close> and its two callers, the
  command of the application (\<open>delete_stock_report_item.py\<close>) and the webhook of the scanner
  (\<open>process_stock_demand_deleted.py\<close>), under \<open>services/commands/stock_report/\<close>. The events are left out, the locks
  are reads of the locked rows, and the time limit of a request is a parameter.
\<close>

section \<open>The cascade\<close>

definition row_assignments :: "string \<Rightarrow> stock_db \<Rightarrow> stock_assignment list" where
  "row_assignments rid db = sort_key assignment_id (filter (\<lambda>a. assignment_row_id a = rid \<and> \<not> assignment_is_deleted a) (assignments db))"

definition zero_counters :: "string \<Rightarrow> string \<Rightarrow> int \<Rightarrow> stock_db \<Rightarrow> stock_db result" where
  "zero_counters rid trigger now db =
     rbind (scalar_one (filter (\<lambda>r. row_id r = rid) (stock_rows db))) (\<lambda>stored.
     Inr (db\<lparr>stock_rows := update_where (\<lambda>r. row_id r = rid) (copy_counters no_counters) (stock_rows db),
             repairs := repairs db
               @ counter_repair rid trigger now ''quantity_in_queue'' (quantity_in_queue stored) 0 0
               @ counter_repair rid trigger now ''quantity_in_progress'' (quantity_in_progress stored) 0 0
               @ counter_repair rid trigger now ''quantity_awaiting'' (quantity_awaiting stored) 0 0\<rparr>))"

definition open_snapshots :: "string \<Rightarrow> stock_db \<Rightarrow> item_snapshot list" where
  "open_snapshots rid db = sort_key snapshot_id (filter (\<lambda>s. snapshot_row_id s = rid \<and> is_snapshot_open s) (snapshots db))"

definition release_snapshot :: "string option \<Rightarrow> int \<Rightarrow> stock_db \<Rightarrow> item_snapshot \<Rightarrow> stock_db" where
  "release_snapshot actor now db s =
     (let db = db\<lparr>snapshots := (case snapshot_priority s of
            None \<Rightarrow> snapshots db | Some p \<Rightarrow> close_priority_gap (snapshot_version_id s) p (priority_order s) (snapshots db))\<rparr> in
      if snapshot_active_at s = None
      then db\<lparr>snapshots := filter (\<lambda>u. snapshot_id u \<noteq> snapshot_id s) (snapshots db),
              versions := update_where (\<lambda>v. version_id v = snapshot_version_id s) (\<lambda>v. v\<lparr>snapshot_count := snapshot_count v - 1\<rparr>) (versions db)\<rparr>
      else db\<lparr>snapshots := update_where (\<lambda>u. snapshot_id u = snapshot_id s)
             (\<lambda>u. (copy_counters no_counters u)\<lparr>snapshot_closed_at := Some now, snapshot_updated_at := Some now, snapshot_updated_by_id := actor\<rparr>)
             (snapshots db)\<rparr>)"

definition soft_delete_row :: "string \<Rightarrow> string option \<Rightarrow> int \<Rightarrow> stock_db \<Rightarrow> stock_db" where
  "soft_delete_row rid actor now db = db\<lparr>
     stock_rows := update_where (\<lambda>r. row_id r = rid) (\<lambda>r. r\<lparr>row_is_deleted := True, row_deleted_at := Some now, row_deleted_by_id := actor,
       row_updated_at := Some now, row_updated_by_id := actor\<rparr>) (stock_rows db),
     histories := update_where (\<lambda>h. history_row_id h = rid \<and> \<not> history_is_deleted h)
       (\<lambda>h. h\<lparr>history_is_deleted := True, history_deleted_at := Some now, history_deleted_by_id := actor\<rparr>) (histories db)\<rparr>"

definition cascade_delete_stock_report_item :: "string option \<Rightarrow> int \<Rightarrow> string \<Rightarrow> stock_db \<Rightarrow> string \<Rightarrow> stock_db result" where
  "cascade_delete_stock_report_item actor now trigger db rid =
     rbind (rfold (\<lambda>db a. remove_assignment a actor now trigger db) db (row_assignments rid db)) (\<lambda>db.
     rbind (zero_counters rid trigger now db) (\<lambda>db.
     Inr (soft_delete_row rid actor now (foldl (release_snapshot actor now) db (open_snapshots rid db)))))"

section \<open>The two callers\<close>

definition delete_stock_report_item :: "string \<Rightarrow> string option \<Rightarrow> int \<Rightarrow> stock_db \<Rightarrow> stock_db result" where
  "delete_stock_report_item rid actor now db =
     rbind (find_row rid db) (\<lambda>row.
     cascade_delete_stock_report_item actor now ''delete_stock_report_item'' db (row_id row))"

datatype deleted_outcome = DELETED | NOT_FOUND | DELETED_CATEGORY_NOT_FOUND

definition deleted_outcome_of ::
    "(string \<times> string option) list \<Rightarrow> ((string \<times> string) \<times> string) list \<Rightarrow> 'a demand_delete_entry_scheme \<Rightarrow> deleted_outcome \<times> string option" where
  \<comment> \<open>the outcome of an entry, and the row it deletes\<close>
  "deleted_outcome_of category_by_key live_by_identity e =
     (case category_of category_by_key e of
        None \<Rightarrow> (DELETED_CATEGORY_NOT_FOUND, None)
      | Some c \<Rightarrow>
          (case map_of live_by_identity (c, properties_signature e) of
             None \<Rightarrow> (NOT_FOUND, None)
           | Some rid \<Rightarrow> (DELETED, Some rid)))"

definition process_stock_demand_deleted ::
    "string option \<Rightarrow> string option \<Rightarrow> (string \<times> string) list \<Rightarrow> request_body \<Rightarrow> (string \<Rightarrow> string) \<Rightarrow> (string \<Rightarrow> bool) \<Rightarrow> bool
      \<Rightarrow> int \<Rightarrow> stock_db \<Rightarrow> (stock_db \<times> (string \<times> (string \<times> json) list \<times> deleted_outcome) list) result" where
  "process_stock_demand_deleted api_key configured headers raw digest workspace_known timely now db =
     rbind (verify_location_tracker_webhook api_key configured headers) (\<lambda>workspace_id.
     rbind (parse_stock_demand_deleted_body digest raw) (\<lambda>entries.
     rbind (rguard (workspace_known workspace_id) LocationTrackerWebhookAuthError) (\<lambda>_.
     let category_by_key = resolve_categories_for_entries entries (categories db);
         identities = List.map_filter (\<lambda>e. map_option (\<lambda>c. (c, properties_signature e)) (category_of category_by_key e)) entries;
         live_by_identity = discover_live_rows_by_identity identities (stock_rows db);
         outcomes = map (\<lambda>e. (e, deleted_outcome_of category_by_key live_by_identity e)) entries;
         candidates = sort (remdups (List.map_filter (\<lambda>(_, _, rid). rid) outcomes)) in
     rbind (rguard (list_all (\<lambda>rid. List.find (\<lambda>r. row_id r = rid \<and> \<not> row_is_deleted r) (stock_rows db) \<noteq> None) candidates)
       (RuntimeError ''stock report row vanished between discovery and lock'')) (\<lambda>_.
     rbind (rfold (cascade_delete_stock_report_item None now ''stock_demand_deleted'') db candidates) (\<lambda>db.
     rbind (rguard timely StockDemandDeadlineExceeded) (\<lambda>_.
     Inr (db, map (\<lambda>(e, outcome, _). (item_category_raw e, properties_raw e, outcome)) outcomes)))))))"

section \<open>Every assignment leaves\<close>

lemma remove_all_step:
  assumes "report_sound rs db" "distinct (map assignment_id as)" "set as \<subseteq> set (assignments db)" "\<forall>a \<in> set as. \<not> assignment_is_deleted a"
  shows "\<exists>db'. rfold (\<lambda>db a. remove_assignment a actor now trigger db) db as = Inr db' \<and> report_sound rs db' \<and> ledger_step db db'
    \<and> views db' = fold withdraw (map assignment_id as) (views db)"
  using assms
proof (induction as arbitrary: db)
  case (Cons a as)
  obtain d where d: "remove_assignment a actor now trigger db = Inr d" "report_sound rs d" "ledger_step db d"
      "views d = withdraw (assignment_id a) (views db)"
      "\<forall>b \<in> set (assignments db). assignment_id b \<noteq> assignment_id a \<longrightarrow> b \<in> set (assignments d)"
    using remove_step [OF Cons.prems(1), where a = a and actor = actor and now = now and trigger = trigger] Cons.prems(3,4) by auto
  have "b \<in> set (assignments d)" if "b \<in> set as" for b
  proof -
    have "b \<in> set (assignments db)" "assignment_id b \<noteq> assignment_id a" using that Cons.prems(2,3) by (auto simp: image_iff)
    then show ?thesis using d(5) by blast
  qed
  then have "set as \<subseteq> set (assignments d)" by blast
  then obtain db' where "rfold (\<lambda>db a. remove_assignment a actor now trigger db) d as = Inr db'" "report_sound rs db'" "ledger_step d db'"
      "views db' = fold withdraw (map assignment_id as) (views d)"
    using Cons.IH [OF d(2)] Cons.prems(2,4) by auto
  then show ?case using d ledger_step_trans by (auto intro!: exI [of _ db'])
qed simp

lemma fold_withdraw: "fold withdraw is vs = map (\<lambda>(i, t, s, d). (i, t, s, d \<or> i \<in> set is)) vs"
  by (induction "is" arbitrary: vs) (auto simp: withdraw_def)

lemma row_assignments_set [simp]:
  "set (row_assignments rid db) = {a \<in> set (assignments db). assignment_row_id a = rid \<and> \<not> assignment_is_deleted a}"
  by (auto simp: row_assignments_def)

lemma row_assignments_distinct:
  assumes "distinct (map assignment_id (assignments db))"
  shows "distinct (map assignment_id (row_assignments rid db))"
proof -
  have "distinct (map assignment_id (filter (\<lambda>a. assignment_row_id a = rid \<and> \<not> assignment_is_deleted a) (assignments db)))"
    using assms by (rule distinct_map_filter)
  then show ?thesis
    by (simp add: row_assignments_def distinct_map)
qed

lemma assignments_leave:
  assumes sound: "report_sound rs db"
  shows "\<exists>db'. rfold (\<lambda>db a. remove_assignment a actor now trigger db) db (row_assignments rid db) = Inr db' \<and> report_sound rs db' \<and> ledger_step db db'
    \<and> views db' = map (\<lambda>a. case view a of (i, t, s, d) \<Rightarrow> (i, t, s, d \<or> assignment_row_id a = rid)) (assignments db)
    \<and> (\<forall>a \<in> set (assignments db'). assignment_row_id a = rid \<longrightarrow> assignment_is_deleted a)"
proof -
  have ids: "distinct (map assignment_id (assignments db))" using reportD(3) [OF sound] by (simp add: ledger_ok_def)
  have mine: "set (row_assignments rid db) \<subseteq> set (assignments db)" "\<forall>a \<in> set (row_assignments rid db). \<not> assignment_is_deleted a" by auto
  obtain db' where db': "rfold (\<lambda>db a. remove_assignment a actor now trigger db) db (row_assignments rid db) = Inr db'" "report_sound rs db'"
      "ledger_step db db'" "views db' = fold withdraw (map assignment_id (row_assignments rid db)) (views db)"
    using remove_all_step [OF sound row_assignments_distinct [OF ids, where rid = rid] mine, where actor = actor and now = now and trigger = trigger]
    by (elim exE conjE) (rule that; assumption)
  have named: "assignment_id a \<in> assignment_id ` set (row_assignments rid db) \<longleftrightarrow> a \<in> set (row_assignments rid db)" if "a \<in> set (assignments db)" for a
    using ids mine(1) that by (intro inj_on_image_mem_iff [of assignment_id "set (assignments db)"]) (simp_all add: distinct_map)
  have views: "views db' = map (\<lambda>a. case view a of (i, t, s, d) \<Rightarrow> (i, t, s, d \<or> assignment_row_id a = rid)) (assignments db)"
    unfolding db'(4) unfolding fold_withdraw views_def map_map
  proof (rule map_cong [OF refl])
    fix a assume a: "a \<in> set (assignments db)"
    show "((\<lambda>(i, t, s, d). (i, t, s, d \<or> i \<in> set (map assignment_id (row_assignments rid db)))) \<circ> view) a
        = (case view a of (i, t, s, d) \<Rightarrow> (i, t, s, d \<or> assignment_row_id a = rid))"
      using named [OF a] a by (auto simp: view_def)
  qed
  have "assignment_is_deleted a'" if a': "a' \<in> set (assignments db')" "assignment_row_id a' = rid" for a'
  proof -
    from a'(1) obtain n where n: "n < length (assignments db')" "assignments db' ! n = a'" by (auto simp: in_set_conv_nth)
    have pairs: "list_all2 kept_assignment (assignments db) (assignments db')" using db'(3) by (simp add: ledger_step_def)
    then have len: "length (assignments db) = length (assignments db')" by (rule list_all2_lengthD)
    have "kept_assignment (assignments db ! n) a'" using pairs n by (auto simp: list_all2_conv_all_nth)
    then have "assignment_row_id (assignments db ! n) = rid" using a'(2) by (simp add: kept_assignment_def)
    moreover have "views db' ! n = view a'" using n by (simp add: views_def)
    ultimately show ?thesis using n(1) len unfolding views by (auto simp: view_def)
  qed
  then show ?thesis using db' views by blast
qed

lemma no_counters_same:
  assumes "\<forall>st \<in> ACTIVE_ASSIGNMENT_STATES. column st r = 0"
  shows "copy_counters no_counters r = r"
  using assms by (simp add: all_columns copy_counters_def no_counters_def)

lemma zero_counters_done:
  assumes ok: "ledger_ok db" and r: "rid \<in> row_id ` set (stock_rows db)"
    and gone: "\<forall>a \<in> set (assignments db). assignment_row_id a = rid \<longrightarrow> assignment_is_deleted a"
  shows "zero_counters rid trigger now db = Inr db"
proof -
  obtain r where r: "r \<in> set (stock_rows db)" "row_id r = rid" using r by blast
  have ids: "distinct (map row_id (stock_rows db))" using ok by (simp add: ledger_ok_def)
  have "tally (assignments db) rid st = 0" for st
  proof -
    have "filter (counted rid st) (assignments db) = []" using gone by (auto simp: filter_empty_conv counted_def)
    then show ?thesis by (simp add: tally_def column_total_def)
  qed
  then have zero: "\<forall>st \<in> ACTIVE_ASSIGNMENT_STATES. column st r = 0" using ok r by (auto simp: ledger_ok_def exact_row_def)
  have one: "filter (\<lambda>x. row_id x = rid) (stock_rows db) = [r]" using filter_key_unique [OF ids r(1), of "\<lambda>_. True"] r(2) by simp
  have "update_where (\<lambda>x. row_id x = rid) (copy_counters no_counters) (stock_rows db) = stock_rows db"
    unfolding update_where_def using row_unique [OF ids _ r(1)] r(2) no_counters_same [OF zero] by (intro map_idI) auto
  then show ?thesis using zero by (simp add: zero_counters_def one scalar_one_def counter_repair_def all_columns)
qed

section \<open>The row goes\<close>

lemma soft_delete_frame [simp]:
  "snapshots (soft_delete_row rid actor now db) = snapshots db" "versions (soft_delete_row rid actor now db) = versions db"
  "assignments (soft_delete_row rid actor now db) = assignments db" "stock_tasks (soft_delete_row rid actor now db) = stock_tasks db"
  "schedulers (soft_delete_row rid actor now db) = schedulers db" "repairs (soft_delete_row rid actor now db) = repairs db"
  "categories (soft_delete_row rid actor now db) = categories db"
  by (simp_all add: soft_delete_row_def)

lemma release_soft_delete:
  "foldl (release_snapshot actor now) (soft_delete_row rid actor' now' db) ss = soft_delete_row rid actor' now' (foldl (release_snapshot actor now) db ss)"
proof (induction ss arbitrary: db)
  case (Cons s ss)
  have "release_snapshot actor now (soft_delete_row rid actor' now' db) s = soft_delete_row rid actor' now' (release_snapshot actor now db s)"
    by (cases "snapshot_priority s") (simp_all add: release_snapshot_def soft_delete_row_def Let_def)
  then show ?case using Cons.IH by simp
qed simp

definition buried :: "string \<Rightarrow> string option \<Rightarrow> int \<Rightarrow> stock_row \<Rightarrow> stock_row" where
  "buried rid actor now r = (if row_id r = rid
     then r\<lparr>row_is_deleted := True, row_deleted_at := Some now, row_deleted_by_id := actor, row_updated_at := Some now, row_updated_by_id := actor\<rparr>
     else r)"

lemma buried_simps [simp]:
  "row_id (buried rid actor now r) = row_id r" "column st (buried rid actor now r) = column st r"
  "row_identity (buried rid actor now r) = row_identity r" "row_is_deleted (buried rid actor now r) \<longleftrightarrow> row_id r = rid \<or> row_is_deleted r"
  "row_requested (buried rid actor now r) = row_requested r"
  by (cases st; simp add: buried_def row_identity_def)+

lemma soft_delete_rows: "stock_rows (soft_delete_row rid actor now db) = map (buried rid actor now) (stock_rows db)"
  by (simp add: soft_delete_row_def update_where_def buried_def [abs_def])

lemma sound_twin:
  assumes "sound_snapshot db s"
    and "\<And>v. v \<in> set (versions db) \<Longrightarrow> \<exists>v' \<in> set (versions db'). version_id v' = version_id v
      \<and> version_active_at v' = version_active_at v \<and> version_closed_at v' = version_closed_at v"
    and "\<And>r. r \<in> set (stock_rows db) \<Longrightarrow> \<exists>r' \<in> set (stock_rows db'). row_id r' = row_id r \<and> (row_is_deleted r \<longrightarrow> row_is_deleted r')"
  shows "sound_snapshot db' s"
proof -
  from assms(1) obtain v r where v: "v \<in> set (versions db)" "version_id v = snapshot_version_id s" "version_active_at v = snapshot_active_at s"
      "version_closed_at v \<noteq> None \<longrightarrow> snapshot_closed_at s \<noteq> None"
    and r: "r \<in> set (stock_rows db)" "row_id r = snapshot_row_id s" "snapshot_closed_at s \<noteq> None \<longrightarrow> version_closed_at v \<noteq> None \<or> row_is_deleted r"
    unfolding sound_snapshot_def by blast
  obtain v' where v': "v' \<in> set (versions db')" "version_id v' = version_id v" "version_active_at v' = version_active_at v"
    "version_closed_at v' = version_closed_at v" using assms(2) [OF v(1)] by blast
  obtain r' where r': "r' \<in> set (stock_rows db')" "row_id r' = row_id r" "row_is_deleted r \<longrightarrow> row_is_deleted r'" using assms(3) [OF r(1)] by blast
  have "\<exists>v \<in> set (versions db'). version_id v = snapshot_version_id s \<and> version_active_at v = snapshot_active_at s
      \<and> (version_closed_at v \<noteq> None \<longrightarrow> snapshot_closed_at s \<noteq> None)
      \<and> (\<exists>r \<in> set (stock_rows db'). row_id r = snapshot_row_id s \<and> (snapshot_closed_at s \<noteq> None \<longrightarrow> version_closed_at v \<noteq> None \<or> row_is_deleted r))"
    using v r v' r' by (intro bexI [of _ v'] conjI bexI [of _ r']) auto
  then show ?thesis using assms(1) by (simp add: sound_snapshot_def)
qed

lemma buried_row:
  assumes ok: "snapshots_ok db" and s: "s \<in> set (snapshots db)"
  shows "its_row (soft_delete_row rid actor now db) s = buried rid actor now (its_row db s)"
proof -
  obtain r where r: "row_of db s = Some r" "r \<in> set (stock_rows db)" "row_id r = snapshot_row_id s" by (rule row_of_snapshot [OF ok s])
  have ids: "distinct (map row_id (stock_rows (soft_delete_row rid actor now db)))"
    using ok by (simp add: soft_delete_rows snapshots_ok_def comp_def)
  have "buried rid actor now r \<in> set (stock_rows (soft_delete_row rid actor now db))" using r(2) by (simp add: soft_delete_rows)
  then have "row_of (soft_delete_row rid actor now db) s = Some (buried rid actor now r)"
    unfolding row_of_def using find_by_key [OF ids, of "buried rid actor now r"] r(3) by simp
  then show ?thesis using r(1) by (simp add: its_row_def)
qed

lemma buried_ceiling [simp]: "snapshot_ceiling s (buried rid actor now r) = snapshot_ceiling s r"
proof -
  have "used (buried rid actor now r) = used r" by (simp add: used_def buried_def)
  moreover have "effective_quantity_requested s (buried rid actor now r) = effective_quantity_requested s r"
    by (simp add: effective_quantity_requested_def scanner_quantity_requested_def)
  ultimately show ?thesis by (simp add: ceiling_used split: option.split)
qed

lemma soft_delete_board:
  assumes "snapshots_ok db" "covered db" "schedules_ok db"
  shows "snapshots_ok (soft_delete_row rid actor now db)" "covered (soft_delete_row rid actor now db)" "schedules_ok (soft_delete_row rid actor now db)"
proof -
  have "sound_snapshot (soft_delete_row rid actor now db) s" if "s \<in> set (snapshots db)" for s
    by (rule sound_twin [OF soundD [OF assms(1) that]]) (auto simp: soft_delete_rows)
  then show "snapshots_ok (soft_delete_row rid actor now db)" using assms(1) by (simp add: snapshots_ok_def soft_delete_rows comp_def)
  show "covered (soft_delete_row rid actor now db)" using assms(2) buried_row [OF assms(1)] by (simp add: covered_def)
  show "schedules_ok (soft_delete_row rid actor now db)" using assms(3) by (simp add: schedules_ok_def)
qed

lemma goal_ids_map: "(\<And>h. history_id (f h) = history_id h) \<Longrightarrow> (\<And>h. history_type (f h) = history_type h) \<Longrightarrow> goal_ids (map f hs) = goal_ids hs"
  by (force simp: goal_ids_def image_iff)

lemma soft_delete_ledger:
  assumes "ledger_ok db"
  shows "ledger_ok (soft_delete_row rid actor now db)"
proof -
  let ?f = "\<lambda>h. if history_row_id h = rid \<and> \<not> history_is_deleted h
    then h\<lparr>history_is_deleted := True, history_deleted_at := Some now, history_deleted_by_id := actor\<rparr> else h"
  have hists: "histories (soft_delete_row rid actor now db) = map ?f (histories db)" by (simp add: soft_delete_row_def update_where_def)
  have f: "history_id (?f h) = history_id h" "history_type (?f h) = history_type h" "history_awaiting (?f h) = history_awaiting h" for h by simp_all
  have "goal_ids (map ?f (histories db)) = goal_ids (histories db)" by (rule goal_ids_map) (rule f)+
  then have "credit_ok (map ?f (histories db)) a = credit_ok (histories db) a" for a
    unfolding credit_ok_def by (simp only:)
  moreover have "\<forall>h \<in> set (map ?f (histories db)). exact_goal (assignments db) h"
    using assms unfolding ledger_ok_def exact_goal_def set_map ball_simps f by blast
  moreover have "distinct (map history_id (map ?f (histories db)))" using assms by (simp add: ledger_ok_def comp_def f del: if_split cong: map_cong)
  ultimately show ?thesis using assms unfolding ledger_ok_def hists
    by (simp add: soft_delete_rows comp_def exact_row_def image_image)
qed

section \<open>Its snapshots leave the board\<close>

definition places :: "item_snapshot list \<Rightarrow> (string \<times> string \<times> string) list" where
  "places snaps = map (\<lambda>s. (snapshot_id s, snapshot_version_id s, snapshot_row_id s)) snaps"

definition drafts_without :: "string \<Rightarrow> stock_db \<Rightarrow> bool" where
  "drafts_without rid db \<longleftrightarrow> (\<forall>v \<in> set (versions db). is_version_draft v \<longrightarrow>
     {r. \<exists>i. (i, version_id v, r) \<in> set (places (snapshots db)) \<and> r \<noteq> rid} = row_id ` set (filter (\<lambda>r. \<not> row_is_deleted r) (stock_rows db))
     \<and> snapshot_count v = int (length (filter (\<lambda>(i, w, r). w = version_id v) (places (snapshots db)))))"

definition releasing :: "string \<Rightarrow> board \<Rightarrow> stock_db \<Rightarrow> bool" where
  "releasing rid b db \<longleftrightarrow> snapshots_ok db \<and> covered db \<and> shows_board b (snapshots db) \<and> schedules_ok db \<and> drafts_without rid db
     \<and> (\<forall>r \<in> set (stock_rows db). row_id r = rid \<longrightarrow> row_is_deleted r)"

definition counted_down :: "string \<Rightarrow> snapshot_version \<Rightarrow> snapshot_version" where
  "counted_down vid v = (if version_id v = vid then v\<lparr>snapshot_count := snapshot_count v - 1\<rparr> else v)"

lemma counted_down_simps [simp]:
  "version_id (counted_down vid v) = version_id v" "version_active_at (counted_down vid v) = version_active_at v"
  "version_closed_at (counted_down vid v) = version_closed_at v" "is_version_draft (counted_down vid v) = is_version_draft v"
  "is_version_active (counted_down vid v) = is_version_active v" "scheduled_activation_at (counted_down vid v) = scheduled_activation_at v"
  by (simp_all add: counted_down_def is_version_draft_def is_version_active_def)

definition frozen :: "string option \<Rightarrow> int \<Rightarrow> item_snapshot \<Rightarrow> item_snapshot" where
  "frozen actor now s = (copy_counters no_counters s)\<lparr>snapshot_closed_at := Some now, snapshot_updated_at := Some now, snapshot_updated_by_id := actor\<rparr>"

lemma frozen_simps [simp]:
  "snapshot_id (frozen actor now s) = snapshot_id s" "snapshot_version_id (frozen actor now s) = snapshot_version_id s"
  "snapshot_row_id (frozen actor now s) = snapshot_row_id s" "is_snapshot_open (frozen actor now s) = False"
  "is_snapshot_active (frozen actor now s) = False" "snapshot_missing (frozen actor now s) = snapshot_missing s"
  "in_group vid p (frozen actor now s) = False"
  by (simp_all add: frozen_def copy_counters_def is_snapshot_open_def is_snapshot_active_def in_group_def)

lemma release_eq: "release_snapshot actor now db s =
    (if snapshot_active_at s = None
     then db\<lparr>snapshots := filter (\<lambda>u. snapshot_id u \<noteq> snapshot_id s) (left_group s (snapshots db)),
             versions := map (counted_down (snapshot_version_id s)) (versions db)\<rparr>
     else db\<lparr>snapshots := update_where (\<lambda>u. snapshot_id u = snapshot_id s) (frozen actor now) (left_group s (snapshots db))\<rparr>)"
  by (simp add: release_snapshot_def left_group_def Let_def update_where_def counted_down_def [abs_def] frozen_def)

lemma release_frame [simp]:
  "stock_rows (release_snapshot actor now db s) = stock_rows db" "assignments (release_snapshot actor now db s) = assignments db"
  "histories (release_snapshot actor now db s) = histories db" "stock_tasks (release_snapshot actor now db s) = stock_tasks db"
  "schedulers (release_snapshot actor now db s) = schedulers db" "repairs (release_snapshot actor now db s) = repairs db"
  "categories (release_snapshot actor now db s) = categories db"
  by (simp_all add: release_eq)

lemma regrouped:
  assumes "snapshots_ok db" "covered db"
  shows "snapshots_ok (db\<lparr>snapshots := left_group s (snapshots db)\<rparr>)" "covered (db\<lparr>snapshots := left_group s (snapshots db)\<rparr>)"
    "places (left_group s (snapshots db)) = places (snapshots db)"
proof -
  have paired: "\<forall>u \<in> set (left_group s (snapshots db)). paired u" by (rule left_group_keeps(3)) (rule all_paired [OF assms(1)])
  show "snapshots_ok (db\<lparr>snapshots := left_group s (snapshots db)\<rparr>)"
    using snapshots_rewritten [OF assms(1) left_group_keeps(1) paired, where hs = "histories db"] by simp
  show "covered (db\<lparr>snapshots := left_group s (snapshots db)\<rparr>)"
    using covered_frames [OF assms(2), of "left_group s (snapshots db)" "histories db"] by simp
  have "places snaps = map (\<lambda>(i, v, r, _). (i, v, r)) (map snapshot_frame snaps)" for snaps
    by (simp add: places_def snapshot_frame_def)
  then show "places (left_group s (snapshots db)) = places (snapshots db)" by (simp only: left_group_keeps(1))
qed

lemma slots_dropped: "slots vid p (filter (\<lambda>u. snapshot_id u \<noteq> sid) snaps) = {(j, x) \<in> slots vid p snaps. x \<noteq> sid}"
  by (auto simp: slots_def)

lemma slots_frozen: "slots vid p (update_where (\<lambda>u. snapshot_id u = sid) (frozen actor now) snaps) = {(j, x) \<in> slots vid p snaps. x \<noteq> sid}"
proof -
  have "(j, x) \<in> slots vid p (update_where (\<lambda>u. snapshot_id u = sid) (frozen actor now) snaps) \<longleftrightarrow> (j, x) \<in> slots vid p snaps \<and> x \<noteq> sid" for j x
    unfolding slots_mem by (auto simp: update_where_def)
  then show ?thesis by auto
qed

lemma dropped_ok:
  assumes ok: "snapshots_ok db" "covered db" "schedules_ok db"
  shows "snapshots_ok (db\<lparr>snapshots := filter P (snapshots db), versions := map (counted_down vid) (versions db)\<rparr>)"
    "covered (db\<lparr>snapshots := filter P (snapshots db), versions := map (counted_down vid) (versions db)\<rparr>)"
    "schedules_ok (db\<lparr>snapshots := filter P (snapshots db), versions := map (counted_down vid) (versions db)\<rparr>)"
proof -
  let ?db = "db\<lparr>snapshots := filter P (snapshots db), versions := map (counted_down vid) (versions db)\<rparr>"
  have "sound_snapshot ?db s" if "s \<in> set (snapshots db)" for s
    by (rule sound_twin [OF soundD [OF ok(1) that]]) auto
  then show "snapshots_ok ?db" using ok(1) by (simp add: snapshots_ok_def comp_def distinct_map_filter filter_map)
  show "covered ?db" by (rule coveredI [OF ok(2)]) (auto intro: same_cover_refl)
  show "schedules_ok ?db" by (rule schedules_kept [OF ok(3)]) (use ok(3) in \<open>auto simp: schedules_ok_def\<close>)
qed

lemma frozen_ok:
  assumes ok: "snapshots_ok db" "covered db" and s: "s \<in> set (snapshots db)" "is_snapshot_active s"
    and gone: "\<forall>r \<in> set (stock_rows db). row_id r = snapshot_row_id s \<longrightarrow> row_is_deleted r"
  shows "snapshots_ok (db\<lparr>snapshots := update_where (\<lambda>u. snapshot_id u = snapshot_id s) (frozen actor now) (snapshots db)\<rparr>)"
    "covered (db\<lparr>snapshots := update_where (\<lambda>u. snapshot_id u = snapshot_id s) (frozen actor now) (snapshots db)\<rparr>)"
proof -
  let ?db = "db\<lparr>snapshots := update_where (\<lambda>u. snapshot_id u = snapshot_id s) (frozen actor now) (snapshots db)\<rparr>"
  have own: "u = s" if "u \<in> set (snapshots db)" "snapshot_id u = snapshot_id s" for u
    using ok(1) that s(1) row_unique [of snapshot_id "snapshots db" u s] by (simp add: snapshots_ok_def)
  have "sound_snapshot ?db (frozen actor now s)"
    using soundD [OF ok(1) s(1)] s(2) gone unfolding sound_snapshot_def frozen_def copy_counters_def is_snapshot_active_def by auto
  moreover have "sound_snapshot ?db u" if "u \<in> set (snapshots db)" for u
    using soundD [OF ok(1) that] by (simp add: sound_snapshot_def)
  ultimately have "\<forall>u \<in> set (snapshots ?db). sound_snapshot ?db u" using own by (auto simp: update_where_def)
  then show "snapshots_ok ?db" using ok(1) by (simp add: snapshots_ok_def)
  have "same_cover u (frozen actor now u)" for u by (simp add: same_cover_def)
  then show "covered ?db" by (intro coveredI [OF ok(2)]) (auto simp: update_where_def intro: same_cover_refl)
qed

lemma one_less:
  assumes "distinct (map fst xs)" "(i, w, r) \<in> set xs"
  shows "length (filter (\<lambda>(j, v, _). v = w) xs) = Suc (length (filter (\<lambda>(j, v, _). v = w) (filter (\<lambda>(j, _). j \<noteq> i) xs)))"
  using assms
proof (induction xs)
  case (Cons x xs)
  show ?case
  proof (cases "x = (i, w, r)")
    case True
    then have "filter (\<lambda>(j, _). j \<noteq> i) xs = xs" using Cons.prems(1) by (force simp: filter_id_conv)
    then show ?thesis using True by simp
  next
    case False
    then have "(i, w, r) \<in> set xs" using Cons.prems(2) by simp
    moreover from this have "fst x \<noteq> i" using Cons.prems(1) by (force simp: image_iff)
    ultimately show ?thesis using Cons.IH Cons.prems(1) by (auto split: prod.split)
  qed
qed simp

lemma places_dropped: "places (filter (\<lambda>u. snapshot_id u \<noteq> sid) snaps) = filter (\<lambda>(j, _). j \<noteq> sid) (places snaps)"
  by (simp add: places_def filter_map comp_def)

lemma places_frozen: "places (update_where P (frozen actor now) snaps) = places snaps"
  by (simp add: places_def update_where_def)

lemma places_ids [simp]: "map fst (places snaps) = map snapshot_id snaps"
  by (simp add: places_def comp_def)

lemma drafts_dropped:
  assumes full: "drafts_without rid db" and ids: "distinct (map snapshot_id (snapshots db))"
    and s: "s \<in> set (snapshots db)" "snapshot_row_id s = rid"
    and snaps: "places snaps = filter (\<lambda>(j, _). j \<noteq> snapshot_id s) (places (snapshots db))"
  shows "drafts_without rid (db\<lparr>snapshots := snaps, versions := map (counted_down (snapshot_version_id s)) (versions db)\<rparr>)"
  unfolding drafts_without_def
proof (intro ballI impI)
  let ?db = "db\<lparr>snapshots := snaps, versions := map (counted_down (snapshot_version_id s)) (versions db)\<rparr>"
  fix v' assume "v' \<in> set (versions ?db)" "is_version_draft v'"
  then obtain v where v: "v \<in> set (versions db)" "is_version_draft v" "v' = counted_down (snapshot_version_id s) v" by auto
  let ?xs = "places (snapshots db)" and ?ys = "filter (\<lambda>(j, _). j \<noteq> snapshot_id s) (places (snapshots db))"
  have own: "(snapshot_id s, snapshot_version_id s, rid) \<in> set ?xs" using s by (auto simp: places_def)
  have distinct: "distinct (map fst ?xs)" using ids by simp
  have same: "i = snapshot_id s \<Longrightarrow> (i, w, r) \<in> set ?xs \<Longrightarrow> w = snapshot_version_id s \<and> r = rid" for i w r
    using eq_key_imp_eq_value [OF distinct, of "snapshot_id s" "(w, r)" "(snapshot_version_id s, rid)"] own by simp
  have held: "{r. \<exists>i. (i, version_id v, r) \<in> set ?ys \<and> r \<noteq> rid} = {r. \<exists>i. (i, version_id v, r) \<in> set ?xs \<and> r \<noteq> rid}"
    using same by auto
  have "snapshot_count v' = int (length (filter (\<lambda>(i, w, r). w = version_id v) ?ys))"
  proof (cases "version_id v = snapshot_version_id s")
    case True
    then show ?thesis using one_less [OF distinct own] full v by (simp add: drafts_without_def counted_down_def)
  next
    case False
    then have "filter (\<lambda>(i, w, r). w = version_id v) ?ys = filter (\<lambda>(i, w, r). w = version_id v) ?xs"
      unfolding filter_filter by (intro filter_cong) (use same in auto)
    then show ?thesis using False full v by (simp add: drafts_without_def counted_down_def)
  qed
  moreover have "stock_rows ?db = stock_rows db" "snapshots ?db = snaps" by simp_all
  ultimately show "{r. \<exists>i. (i, version_id v', r) \<in> set (places (snapshots ?db)) \<and> r \<noteq> rid} = row_id ` set (filter (\<lambda>r. \<not> row_is_deleted r) (stock_rows ?db))
      \<and> snapshot_count v' = int (length (filter (\<lambda>(i, w, r). w = version_id v') (places (snapshots ?db))))"
    using full v held by (simp add: drafts_without_def snaps)
qed

lemma elsewhere_kept:
  assumes "u \<in> set snaps" "snapshot_version_id u \<noteq> snapshot_version_id s"
  shows "u \<in> set (left_group s snaps)"
proof -
  have "\<not> in_group (snapshot_version_id s) p u" for p using assms(2) by (simp add: in_group_def)
  then show ?thesis using assms(1)
    by (auto simp: left_group_def close_priority_gap_def shift_eq update_where_set split: option.split intro!: bexI [of _ u])
qed

lemma release_step:
  assumes rel: "releasing rid b db" and s: "s \<in> set (snapshots db)" "is_snapshot_open s" "snapshot_row_id s = rid"
  shows "releasing rid (withdrawn (snapshot_id s) b) (release_snapshot actor now db s)"
proof -
  let ?snaps = "left_group s (snapshots db)" and ?db = "db\<lparr>snapshots := left_group s (snapshots db)\<rparr>"
  from rel have ok: "snapshots_ok db" "covered db" "shows_board b (snapshots db)" "schedules_ok db" "drafts_without rid db"
      "\<forall>r \<in> set (stock_rows db). row_id r = rid \<longrightarrow> row_is_deleted r" by (simp_all add: releasing_def)
  note re = regrouped [OF ok(1,2), of s]
  have ids: "distinct (map snapshot_id (snapshots db))" using ok(1) by (simp add: snapshots_ok_def)
  have board: "{(j, x) \<in> slots vid p ?snaps. x \<noteq> snapshot_id s} = numbered 1 (withdrawn (snapshot_id s) b vid p)" for vid p
    by (rule left_group_board(1) [OF ids s(1,2) ok(3)])
  have lists: "distinct (withdrawn (snapshot_id s) b vid p)" for vid p by (rule withdrawn_distinct [OF ok(3)])
  have plans: "schedules_ok ?db" using ok(4) by simp
  show ?thesis
  proof (cases "snapshot_active_at s = None")
    case True
    let ?out = "filter (\<lambda>u. snapshot_id u \<noteq> snapshot_id s) ?snaps"
    have "places ?out = filter (\<lambda>(j, _). j \<noteq> snapshot_id s) (places (snapshots db))" by (simp add: places_dropped re(3))
    from drafts_dropped [OF ok(5) ids s(1,3) this] True ok(6) board lists dropped_ok [OF re(1,2) plans]
    show ?thesis by (simp add: releasing_def release_eq shows_board_def slots_dropped)
  next
    case False
    let ?out = "update_where (\<lambda>u. snapshot_id u = snapshot_id s) (frozen actor now) ?snaps"
    have "is_snapshot_active s" using False s(2) by (simp add: is_snapshot_active_def is_snapshot_open_def)
    moreover have "s \<in> set ?snaps" by (rule left_group_board(2) [OF ids s(1,2) ok(3)])
    ultimately have "snapshots_ok (db\<lparr>snapshots := ?out\<rparr>)" "covered (db\<lparr>snapshots := ?out\<rparr>)"
      using frozen_ok [OF re(1,2), of s actor now] ok(6) s(3) by simp_all
    moreover have "drafts_without rid (db\<lparr>snapshots := ?out\<rparr>)" using ok(5) by (simp add: drafts_without_def places_frozen re(3))
    moreover have "release_snapshot actor now db s = db\<lparr>snapshots := ?out\<rparr>" using False by (simp only: release_eq if_False)
    ultimately show ?thesis using ok(4,6) board lists by (simp add: releasing_def shows_board_def slots_frozen)
  qed
qed

lemma release_elsewhere:
  assumes "distinct (map snapshot_id (snapshots db))" "s \<in> set (snapshots db)" "u \<in> set (snapshots db)"
    "snapshot_version_id u \<noteq> snapshot_version_id s"
  shows "u \<in> set (snapshots (release_snapshot actor now db s))"
proof -
  have "snapshot_id u \<noteq> snapshot_id s" using row_unique [OF assms(1,3,2)] assms(4) by blast
  moreover have "u \<in> set (left_group s (snapshots db))" by (rule elsewhere_kept [OF assms(3,4)])
  ultimately show ?thesis by (auto simp: release_eq update_where_set intro: bexI [of _ u])
qed

lemma release_open:
  assumes "u' \<in> set (snapshots (release_snapshot actor now db s))" "is_snapshot_open u'"
  shows "snapshot_id u' \<noteq> snapshot_id s"
    "\<exists>u \<in> set (snapshots db). snapshot_id u = snapshot_id u' \<and> snapshot_row_id u = snapshot_row_id u' \<and> is_snapshot_open u"
proof -
  have mem: "u' \<in> set (left_group s (snapshots db))" "snapshot_id u' \<noteq> snapshot_id s"
    using assms by (auto simp: release_eq update_where_def split: if_splits)
  then show "snapshot_id u' \<noteq> snapshot_id s" by blast
  have "snapshot_frame u' \<in> set (map snapshot_frame (left_group s (snapshots db)))" using mem(1) by simp
  then have "snapshot_frame u' \<in> snapshot_frame ` set (snapshots db)" unfolding left_group_keeps(1) by simp
  then show "\<exists>u \<in> set (snapshots db). snapshot_id u = snapshot_id u' \<and> snapshot_row_id u = snapshot_row_id u' \<and> is_snapshot_open u"
    using assms(2) by (auto simp: snapshot_frame_def is_snapshot_open_def)
qed

lemma release_all:
  assumes "releasing rid b db" "distinct (map snapshot_id ss)" "set ss = {u \<in> set (snapshots db). snapshot_row_id u = rid \<and> is_snapshot_open u}"
  shows "releasing rid (fold withdrawn (map snapshot_id ss) b) (foldl (release_snapshot actor now) db ss)
    \<and> (\<forall>u' \<in> set (snapshots (foldl (release_snapshot actor now) db ss)). is_snapshot_open u' \<longrightarrow> snapshot_row_id u' \<noteq> rid
        \<and> (\<exists>u \<in> set (snapshots db). snapshot_row_id u = snapshot_row_id u' \<and> is_snapshot_open u))"
  using assms
proof (induction ss arbitrary: b db)
  case Nil
  then show ?case by auto
next
  case (Cons s ss)
  let ?db = "release_snapshot actor now db s"
  have s: "s \<in> set (snapshots db)" "is_snapshot_open s" "snapshot_row_id s = rid" using Cons.prems(3) by auto
  have rel: "releasing rid (withdrawn (snapshot_id s) b) ?db" by (rule release_step [OF Cons.prems(1) s])
  have ok: "snapshots_ok db" "snapshots_ok ?db" using Cons.prems(1) rel by (simp_all add: releasing_def)
  have ids: "distinct (map snapshot_id (snapshots db))" "distinct (map snapshot_id (snapshots ?db))" using ok by (simp_all add: snapshots_ok_def)
  have later: "u \<in> set (snapshots ?db)" if u: "u \<in> set ss" for u
  proof -
    have "u \<in> set (snapshots db)" "snapshot_row_id u = rid" using u Cons.prems(3) by auto
    moreover have "u \<noteq> s" using u Cons.prems(2) by auto
    ultimately have "snapshot_version_id u \<noteq> snapshot_version_id s"
      using row_unique [of "\<lambda>s. (snapshot_version_id s, snapshot_row_id s)" "snapshots db" u s] ok(1) s by (auto simp: snapshots_ok_def)
    then show ?thesis by (rule release_elsewhere [OF ids(1) s(1) \<open>u \<in> set (snapshots db)\<close>])
  qed
  have "set ss = {u \<in> set (snapshots ?db). snapshot_row_id u = rid \<and> is_snapshot_open u}"
  proof (intro equalityI subsetI)
    fix u assume "u \<in> set ss"
    then show "u \<in> {u \<in> set (snapshots ?db). snapshot_row_id u = rid \<and> is_snapshot_open u}" using later Cons.prems(3) by auto
  next
    fix u' assume "u' \<in> {u \<in> set (snapshots ?db). snapshot_row_id u = rid \<and> is_snapshot_open u}"
    then have u': "u' \<in> set (snapshots ?db)" "snapshot_row_id u' = rid" "is_snapshot_open u'" by auto
    note from_u = release_open [OF u'(1,3)]
    then obtain u where u: "u \<in> set (snapshots db)" "snapshot_id u = snapshot_id u'" "snapshot_row_id u = rid" "is_snapshot_open u" using u'(2) by auto
    then have "u \<in> set (s # ss)" using Cons.prems(3) by blast
    then have "u \<in> set ss" using u(2) from_u(1) by auto
    moreover from later [OF this] have "u = u'" using row_unique [OF ids(2) _ u'(1) u(2)] by blast
    ultimately show "u' \<in> set ss" by simp
  qed
  note IH = Cons.IH [OF rel _ this]
  then have "releasing rid (fold withdrawn (map snapshot_id ss) (withdrawn (snapshot_id s) b)) (foldl (release_snapshot actor now) ?db ss)"
    and left: "\<forall>u' \<in> set (snapshots (foldl (release_snapshot actor now) ?db ss)). is_snapshot_open u' \<longrightarrow> snapshot_row_id u' \<noteq> rid
        \<and> (\<exists>u \<in> set (snapshots ?db). snapshot_row_id u = snapshot_row_id u' \<and> is_snapshot_open u)"
    using Cons.prems(2) by simp_all
  moreover have "\<exists>u \<in> set (snapshots db). snapshot_row_id u = k \<and> is_snapshot_open u"
    if "u' \<in> set (snapshots ?db)" "is_snapshot_open u'" "snapshot_row_id u' = k" for u' k
    using release_open(2) [OF that(1,2)] that(3) by auto
  ultimately show ?case by (simp only: foldl_Cons list.map fold_simps) metis
qed

lemma released_lists: "fold withdrawn ids b = (\<lambda>vid p. filter (\<lambda>i. i \<notin> set ids) (b vid p))"
proof (induction ids arbitrary: b)
  case (Cons i ids)
  have "filter (\<lambda>j. j \<notin> set ids) (removeAll i xs) = filter (\<lambda>j. j \<notin> set (i # ids)) xs" for xs :: "string list"
    by (induction xs) auto
  then show ?case using Cons by (simp add: withdrawn_def)
qed simp

section \<open>The deletion of a row\<close>

lemma released_frame [simp]:
  "stock_rows (foldl (release_snapshot actor now) db ss) = stock_rows db" "assignments (foldl (release_snapshot actor now) db ss) = assignments db"
  "histories (foldl (release_snapshot actor now) db ss) = histories db" "stock_tasks (foldl (release_snapshot actor now) db ss) = stock_tasks db"
  "repairs (foldl (release_snapshot actor now) db ss) = repairs db" "categories (foldl (release_snapshot actor now) db ss) = categories db"
  by (induction ss arbitrary: db) simp_all

lemma open_snapshots_set: "set (open_snapshots rid db) = {s \<in> set (snapshots db). snapshot_row_id s = rid \<and> is_snapshot_open s}"
  by (auto simp: open_snapshots_def)

lemma open_snapshots_distinct:
  assumes "distinct (map snapshot_id (snapshots db))"
  shows "distinct (map snapshot_id (open_snapshots rid db))"
proof -
  have "distinct (map snapshot_id (filter (\<lambda>s. snapshot_row_id s = rid \<and> is_snapshot_open s) (snapshots db)))" using assms by (rule distinct_map_filter)
  then show ?thesis by (simp add: open_snapshots_def distinct_map)
qed

lemma drafts_without_buried:
  assumes full: "drafts_full db" and r: "r \<in> set (stock_rows db)" "row_id r = rid" "\<not> row_is_deleted r" and ids: "distinct (map row_id (stock_rows db))"
  shows "drafts_without rid (soft_delete_row rid actor now db)"
proof -
  have live: "row_id ` set (filter (\<lambda>x. \<not> row_is_deleted x) (stock_rows (soft_delete_row rid actor now db)))
      = row_id ` set (filter (\<lambda>x. \<not> row_is_deleted x) (stock_rows db)) - {rid}"
    by (force simp: soft_delete_rows image_iff)
  have held: "{r. \<exists>i. (i, vid, r) \<in> set (places (snapshots db)) \<and> r \<noteq> rid}
      = snapshot_row_id ` set (filter (\<lambda>s. snapshot_version_id s = vid) (snapshots db)) - {rid}" for vid
    by (auto simp: places_def)
  have counted: "length (filter (\<lambda>(i, w, r). w = vid) (places (snapshots db))) = length (filter (\<lambda>s. snapshot_version_id s = vid) (snapshots db))" for vid
    by (simp add: places_def filter_map comp_def)
  show ?thesis
    using full unfolding drafts_without_def drafts_full_def live soft_delete_frame held counted by (metis (no_types, lifting))
qed

lemma drafts_refilled:
  assumes rel: "releasing rid b db" and gone: "\<forall>s \<in> set (snapshots db). is_snapshot_open s \<longrightarrow> snapshot_row_id s \<noteq> rid"
  shows "drafts_full db"
  unfolding drafts_full_def
proof (intro ballI impI)
  fix v assume v: "v \<in> set (versions db)" "is_version_draft v"
  from rel have ok: "snapshots_ok db" and full: "drafts_without rid db" by (simp_all add: releasing_def)
  have "snapshot_row_id s \<noteq> rid" if s: "s \<in> set (snapshots db)" "snapshot_version_id s = version_id v" for s
  proof -
    obtain w where w: "w \<in> set (versions db)" "version_id w = version_id v" "version_active_at w = snapshot_active_at s"
      using soundD [OF ok s(1)] s(2) by (auto simp: sound_snapshot_def)
    have "w = v" using row_unique [of version_id "versions db", OF _ w(1) v(1) w(2)] ok by (simp add: snapshots_ok_def)
    then have "snapshot_active_at s = None" using w(3) v(2) by (simp add: is_version_draft_def)
    then have "is_snapshot_open s" using soundD [OF ok s(1)] by (auto simp: sound_snapshot_def is_snapshot_open_def)
    then show ?thesis using gone s(1) by blast
  qed
  then have "{r. \<exists>i. (i, version_id v, r) \<in> set (places (snapshots db)) \<and> r \<noteq> rid}
      = snapshot_row_id ` set (filter (\<lambda>s. snapshot_version_id s = version_id v) (snapshots db))"
    by (force simp: places_def)
  moreover have "length (filter (\<lambda>(i, w, r). w = version_id v) (places (snapshots db))) = length (filter (\<lambda>s. snapshot_version_id s = version_id v) (snapshots db))"
    by (simp add: places_def filter_map comp_def)
  ultimately show "snapshot_row_id ` set (filter (\<lambda>s. snapshot_version_id s = version_id v) (snapshots db)) = row_id ` set (filter (\<lambda>r. \<not> row_is_deleted r) (stock_rows db))
      \<and> snapshot_count v = int (length (filter (\<lambda>s. snapshot_version_id s = version_id v) (snapshots db)))"
    using full v by (simp add: drafts_without_def)
qed

lemma step_open_ids:
  assumes "ledger_step db db'"
  shows "snapshot_id ` {s \<in> set (snapshots db'). snapshot_row_id s = rid \<and> is_snapshot_open s}
    = snapshot_id ` {s \<in> set (snapshots db). snapshot_row_id s = rid \<and> is_snapshot_open s}"
proof -
  let ?P = "\<lambda>s. snapshot_row_id s = rid \<and> is_snapshot_open s"
  have "list_all2 (room_kept db db') (filter ?P (snapshots db)) (filter ?P (snapshots db'))"
    using assms by (intro all2_filter) (auto simp: ledger_step_def room_kept_def in_place_def is_snapshot_open_def)
  then have "map snapshot_id (filter ?P (snapshots db')) = map snapshot_id (filter ?P (snapshots db))"
    by (rule all2_map) (simp add: room_kept_def in_place_def)
  from arg_cong [OF this, of set] show ?thesis by simp
qed

lemma row_leaves:
  assumes sound: "report_sound rs db" and r: "rid \<in> row_id ` set (filter (\<lambda>r. \<not> row_is_deleted r) (stock_rows db))" and board: "shows_board b (snapshots db)"
    and gone: "\<forall>a \<in> set (assignments db). assignment_row_id a = rid \<longrightarrow> assignment_is_deleted a"
    and db': "db' = soft_delete_row rid actor now (foldl (release_snapshot actor now) db (open_snapshots rid db))"
  shows "report_sound rs db'"
    "shows_board (\<lambda>vid p. filter (\<lambda>i. i \<notin> snapshot_id ` {s \<in> set (snapshots db). snapshot_row_id s = rid \<and> is_snapshot_open s}) (b vid p)) (snapshots db')"
    "stock_rows db' = map (buried rid actor now) (stock_rows db)" "assignments db' = assignments db" "categories db' = categories db"
proof -
  let ?ss = "open_snapshots rid db" and ?d = "soft_delete_row rid actor now db"
  have eq: "db' = foldl (release_snapshot actor now) ?d ?ss" unfolding db' by (rule release_soft_delete [symmetric])
  show rows: "stock_rows db' = map (buried rid actor now) (stock_rows db)" and asgs: "assignments db' = assignments db" and "categories db' = categories db"
    by (simp_all add: eq soft_delete_rows)
  from sound have parts: "snapshots_ok db" "covered db" "schedules_ok db" "drafts_full db" "identities_ok db" "gone_clean db"
    by (auto simp: report_sound_def board_sound_def)
  have ids: "distinct (map snapshot_id (snapshots db))" "distinct (map row_id (stock_rows db))" using parts(1) by (simp_all add: snapshots_ok_def)
  obtain r where r: "r \<in> set (stock_rows db)" "row_id r = rid" "\<not> row_is_deleted r" using r by auto
  have "releasing rid b ?d"
    using soft_delete_board [OF parts(1-3)] board drafts_without_buried [OF parts(4) r ids(2)] by (simp add: releasing_def soft_delete_rows)
  moreover have "set ?ss = {u \<in> set (snapshots ?d). snapshot_row_id u = rid \<and> is_snapshot_open u}" by (simp add: open_snapshots_set)
  ultimately have rel: "releasing rid (fold withdrawn (map snapshot_id ?ss) b) db'"
    and left: "\<forall>u' \<in> set (snapshots db'). is_snapshot_open u' \<longrightarrow> snapshot_row_id u' \<noteq> rid
        \<and> (\<exists>u \<in> set (snapshots db). snapshot_row_id u = snapshot_row_id u' \<and> is_snapshot_open u)"
    using release_all [of rid b ?d ?ss actor now] open_snapshots_distinct [OF ids(1)] unfolding eq by simp_all
  show lists: "shows_board (\<lambda>vid p. filter (\<lambda>i. i \<notin> snapshot_id ` {s \<in> set (snapshots db). snapshot_row_id s = rid \<and> is_snapshot_open s}) (b vid p)) (snapshots db')"
    using rel by (simp add: releasing_def released_lists open_snapshots_set)
  have "board_sound db'" using rel by (auto simp: releasing_def board_sound_def)
  moreover have "drafts_full db'" by (rule drafts_refilled [OF rel]) (use left in blast)
  moreover have "ledger_ok db'"
  proof -
    have "ledger_ok db' = ledger_ok ?d" by (simp add: ledger_ok_def eq)
    then show ?thesis using soft_delete_ledger reportD(3) [OF sound] by simp
  qed
  moreover have "flags_ok db'" using reportD(4) [OF sound] by (simp add: flags_ok_def eq)
  moreover have "repairs db' = rs" "busy db' = busy db" using reportD(5) [OF sound] by (simp_all add: eq busy_def)
  moreover have "identities_ok db'"
  proof -
    have eq: "map row_identity (filter (\<lambda>r. \<not> row_is_deleted r) (stock_rows db'))
        = map row_identity (filter (\<lambda>r. row_id r \<noteq> rid) (filter (\<lambda>r. \<not> row_is_deleted r) (stock_rows db)))"
      by (simp add: rows filter_map comp_def conj_commute)
    show ?thesis unfolding identities_ok_def eq by (rule distinct_map_filter) (use parts(5) in \<open>simp add: identities_ok_def\<close>)
  qed
  moreover have "gone_clean db'"
    unfolding gone_clean_def asgs
  proof (intro ballI impI conjI)
    fix x assume "x \<in> set (stock_rows db')" "row_is_deleted x"
    then obtain y where y: "y \<in> set (stock_rows db)" "row_id x = row_id y" "row_id y = rid \<or> row_is_deleted y" by (auto simp: rows)
    show "assignment_is_deleted a" if "a \<in> set (assignments db)" "assignment_row_id a = row_id x" for a
      using that y gone parts(6) by (auto simp: gone_clean_def)
    show "\<not> is_snapshot_open s" if "s \<in> set (snapshots db')" "snapshot_row_id s = row_id x" for s
      using that y left parts(6) unfolding gone_clean_def by metis
  qed
  ultimately show "report_sound rs db'" using reportD(8,9) [OF sound] by (simp add: report_sound_def report_ok_def comp_def)
qed

lemma bare_buried [simp]: "bare (buried rid actor now r) = buried rid actor now (bare r)"
  by (simp add: bare_def buried_def copy_counters_def)

lemma bare_simp [simp]: "row_id (bare r) = row_id r" "row_is_deleted (bare r) = row_is_deleted r" "row_identity (bare r) = row_identity r"
  by (simp_all add: bare_def copy_counters_def row_identity_def)

definition live_ids :: "stock_row list \<Rightarrow> string set" where
  "live_ids rows = row_id ` set (filter (\<lambda>r. \<not> row_is_deleted r) rows)"

lemma live_ids_bare [simp]: "live_ids (map bare rows) = live_ids rows"
  by (simp add: live_ids_def filter_map comp_def image_image)

lemma cascade_done:
  assumes sound: "report_sound rs db" and rid: "rid \<in> live_ids (stock_rows db)" and board: "shows_board b (snapshots db)"
  shows "\<exists>db'. cascade_delete_stock_report_item actor now trigger db rid = Inr db' \<and> report_sound rs db'
    \<and> map bare (stock_rows db') = map (buried rid actor now) (map bare (stock_rows db)) \<and> categories db' = categories db
    \<and> views db' = map (\<lambda>a. case view a of (i, t, s, d) \<Rightarrow> (i, t, s, d \<or> assignment_row_id a = rid)) (assignments db)
    \<and> shows_board (\<lambda>vid p. filter (\<lambda>i. i \<notin> snapshot_id ` {s \<in> set (snapshots db). snapshot_row_id s = rid \<and> is_snapshot_open s}) (b vid p)) (snapshots db')"
proof -
  obtain d where d: "rfold (\<lambda>db a. remove_assignment a actor now trigger db) db (row_assignments rid db) = Inr d" "report_sound rs d" "ledger_step db d"
      "views d = map (\<lambda>a. case view a of (i, t, s, d) \<Rightarrow> (i, t, s, d \<or> assignment_row_id a = rid)) (assignments db)"
      "\<forall>a \<in> set (assignments d). assignment_row_id a = rid \<longrightarrow> assignment_is_deleted a"
    using assignments_leave [OF sound, where rid = rid and actor = actor and now = now and trigger = trigger] by (elim exE conjE) (rule that; assumption)
  have rows: "map bare (stock_rows d) = map bare (stock_rows db)" and same: "categories d = categories db" using d(3) by (simp_all add: ledger_step_def)
  have "live_ids (stock_rows d) = live_ids (stock_rows db)" using arg_cong [OF rows, of live_ids] by simp
  then have rid': "rid \<in> row_id ` set (filter (\<lambda>r. \<not> row_is_deleted r) (stock_rows d))" using rid by (simp add: live_ids_def)
  let ?db' = "soft_delete_row rid actor now (foldl (release_snapshot actor now) d (open_snapshots rid d))"
  note left = row_leaves [OF d(2) rid' step_keeps_lists [OF d(3) board] d(5) refl, where actor = actor and now = now]
  have "zero_counters rid trigger now d = Inr d" using rid' d(5) reportD(3) [OF d(2)] by (intro zero_counters_done) auto
  then have "cascade_delete_stock_report_item actor now trigger db rid = Inr ?db'" using d(1) by (simp add: cascade_delete_stock_report_item_def)
  moreover have "map bare (stock_rows ?db') = map (buried rid actor now) (map bare (stock_rows db))"
    unfolding left(3) rows [symmetric] by simp
  moreover have "views ?db' = views d" unfolding views_def left(4) ..
  ultimately show ?thesis using left(1,2,5) step_open_ids [OF d(3), of rid] d(4) same by auto
qed

text \<open>C40: Deleting a row empties it and leaves the rest of the report in order. On a report that is sound the command succeeds
  for every live row: the row is deleted, and no other row, requested quantity or identity changes; exactly its
  assignments are withdrawn; its open snapshots leave every list of every board, drafts included, and the lists close
  up around them. The report is sound again, so the counters, the goal totals and the task flags are exact without a
  repair, every draft counts one snapshot for each live row, and the deleted row holds neither an assignment nor an
  open snapshot. For any other identifier the command answers that there is no such row.\<close>

theorem deletion_empties_row:
  assumes "report_sound rs db" "shows_board b (snapshots db)"
  shows "if rid \<in> live_ids (stock_rows db)
    then \<exists>db'. delete_stock_report_item rid actor now db = Inr db' \<and> report_sound rs db'
      \<and> map bare (stock_rows db') = map (buried rid actor now) (map bare (stock_rows db))
      \<and> views db' = map (\<lambda>a. case view a of (i, t, s, d) \<Rightarrow> (i, t, s, d \<or> assignment_row_id a = rid)) (assignments db)
      \<and> shows_board (\<lambda>vid p. filter (\<lambda>i. i \<notin> snapshot_id ` {s \<in> set (snapshots db). snapshot_row_id s = rid \<and> is_snapshot_open s}) (b vid p)) (snapshots db')
      \<and> (\<forall>s \<in> set (snapshots db'). snapshot_row_id s = rid \<longrightarrow> \<not> is_snapshot_open s)
    else delete_stock_report_item rid actor now db = Inl (NotFound ''Stock report item not found.'')"
proof (cases "rid \<in> live_ids (stock_rows db)")
  case True
  then obtain r where r: "r \<in> set (stock_rows db)" "row_id r = rid" "\<not> row_is_deleted r" by (auto simp: live_ids_def)
  have ids: "distinct (map row_id (stock_rows db))" using reportD(3) [OF assms(1)] by (simp add: ledger_ok_def)
  have "filter (\<lambda>x. row_id x = rid \<and> \<not> row_is_deleted x) (stock_rows db) = [r]"
    using filter_key_unique [OF ids r(1), of "\<lambda>x. \<not> row_is_deleted x"] r(2,3) by simp
  then have found: "find_row rid db = Inr r" by (simp add: find_row_def first_or_raise_def)
  obtain db' where db': "cascade_delete_stock_report_item actor now ''delete_stock_report_item'' db rid = Inr db'" "report_sound rs db'"
      "map bare (stock_rows db') = map (buried rid actor now) (map bare (stock_rows db))"
      "views db' = map (\<lambda>a. case view a of (i, t, s, d) \<Rightarrow> (i, t, s, d \<or> assignment_row_id a = rid)) (assignments db)"
      "shows_board (\<lambda>vid p. filter (\<lambda>i. i \<notin> snapshot_id ` {s \<in> set (snapshots db). snapshot_row_id s = rid \<and> is_snapshot_open s}) (b vid p)) (snapshots db')"
    using cascade_done [OF assms(1) True assms(2), where actor = actor and now = now and trigger = "''delete_stock_report_item''"]
    by (elim exE conjE) (rule that; assumption)
  have "buried rid actor now (bare r) \<in> set (map bare (stock_rows db'))" unfolding db'(3) using r(1) by simp
  then obtain r' where "r' \<in> set (stock_rows db')" "bare r' = buried rid actor now (bare r)" by auto
  then have "row_is_deleted r'" "row_id r' = rid" "r' \<in> set (stock_rows db')" using r(2) by (metis bare_simp(1,2) buried_simps(1,4))+
  then have "\<forall>s \<in> set (snapshots db'). snapshot_row_id s = rid \<longrightarrow> \<not> is_snapshot_open s"
    using reportD(12) [OF db'(2)] unfolding gone_clean_def by metis
  then show ?thesis using True db' r(2) by (simp add: delete_stock_report_item_def found)
next
  case False
  then have "filter (\<lambda>x. row_id x = rid \<and> \<not> row_is_deleted x) (stock_rows db) = []" by (auto simp: live_ids_def filter_empty_conv)
  then show ?thesis using False by (simp add: delete_stock_report_item_def find_row_def first_or_raise_def)
qed

section \<open>The webhook of deletions\<close>

lemma cascade_refines:
  assumes "report_sound rs db" "rid \<in> live_ids (map bare (stock_rows db))"
  shows "\<exists>db'. cascade_delete_stock_report_item actor now trigger db rid = Inr db' \<and> report_sound rs db'
    \<and> map bare (stock_rows db') = map (buried rid actor now) (map bare (stock_rows db))"
proof -
  obtain b where "shows_board b (snapshots db)" using reportD(1) [OF assms(1)] by (rule board_soundE)
  from cascade_done [OF assms(1) _ this, of rid] assms(2) show ?thesis unfolding live_ids_bare by blast
qed

interpretation cascade: refining_loop "\<lambda>db rid. cascade_delete_stock_report_item actor now trigger db rid" "report_sound rs"
    "\<lambda>rid rows. rid \<in> live_ids rows" "\<lambda>db. map bare (stock_rows db)" "\<lambda>rid. map (buried rid actor now)" for actor now trigger rs
proof unfold_locales
  fix x y :: string and v :: "stock_row list"
  assume "x \<in> live_ids v" "y \<in> live_ids v" "x \<noteq> y"
  then show "y \<in> live_ids (map (buried x actor now) v)" by (auto simp: live_ids_def image_iff intro!: bexI)
qed (rule cascade_refines)

lemma fold_buried:
  "distinct ids \<Longrightarrow> fold (\<lambda>rid. map (buried rid actor now)) ids rows = map (\<lambda>r. if row_id r \<in> set ids then buried (row_id r) actor now r else r) rows"
proof (induction ids arbitrary: rows)
  case (Cons i ids)
  then show ?case by (auto simp: buried_def)
qed simp

definition deleted_identity :: "'a demand_delete_entry_scheme list \<Rightarrow> stock_db \<Rightarrow> 'a demand_delete_entry_scheme \<Rightarrow> (string \<times> string) option" where
  \<comment> \<open>the identity an entry names, when its category is known\<close>
  "deleted_identity entries db e = map_option (\<lambda>c. (c, properties_signature e))
     (category_of (resolve_categories_for_entries entries (categories db)) e)"

lemma discover_finds:
  assumes rows: "identities_ok db" and i: "i \<in> set is"
  shows "map_of (discover_live_rows_by_identity is (stock_rows db)) i = map_option row_id (live_row db i)"
proof -
  let ?rows = "filter (\<lambda>r. \<not> row_is_deleted r \<and> row_identity r \<in> set is) (stock_rows db)"
  have "distinct (map row_identity (filter (\<lambda>r. row_identity r \<in> set is) (filter (\<lambda>r. \<not> row_is_deleted r) (stock_rows db))))"
    by (rule distinct_map_filter) (use rows in \<open>simp add: identities_ok_def\<close>)
  then have keys: "distinct (map fst (map (\<lambda>r. (row_identity r, row_id r)) ?rows))" by (simp add: comp_def conj_commute)
  show ?thesis
  proof (cases "live_row db i")
    case None
    then have "i \<notin> fst ` set (discover_live_rows_by_identity is (stock_rows db))"
      using existing_identities [of "map (\<lambda>i. (i, ())) is" db] by (simp add: comp_def)
    then show ?thesis using None by (simp add: map_of_eq_None_iff)
  next
    case (Some r)
    then have "r \<in> set ?rows" "row_identity r = i" using live_row_in [OF Some] i by auto
    then have "(i, row_id r) \<in> set (map (\<lambda>r. (row_identity r, row_id r)) ?rows)" by force
    then have "map_of (map (\<lambda>r. (row_identity r, row_id r)) ?rows) i = Some (row_id r)" by (rule map_of_is_SomeI [OF keys])
    then show ?thesis using Some by (simp add: discover_live_rows_by_identity_def dict_of_distinct [OF keys])
  qed
qed

lemma row_of_outcome:
  "snd (case i of None \<Rightarrow> (a, None) | Some i \<Rightarrow> (case f i of None \<Rightarrow> (c, None) | Some r \<Rightarrow> (g, Some (k r)))) = Some y
    \<longleftrightarrow> (\<exists>j r. i = Some j \<and> f j = Some r \<and> y = k r)"
  by (auto split: option.splits)

lemma deleted_outcome_found:
  assumes "identities_ok db" "e \<in> set entries"
  shows "deleted_outcome_of (resolve_categories_for_entries entries (categories db))
      (discover_live_rows_by_identity (List.map_filter (deleted_identity entries db) entries) (stock_rows db)) e
    = (case deleted_identity entries db e of None \<Rightarrow> (DELETED_CATEGORY_NOT_FOUND, None)
       | Some i \<Rightarrow> (case live_row db i of None \<Rightarrow> (NOT_FOUND, None) | Some r \<Rightarrow> (DELETED, Some (row_id r))))"
proof (cases "deleted_identity entries db e")
  case None
  then show ?thesis by (simp add: deleted_outcome_of_def deleted_identity_def split: option.splits)
next
  case (Some i)
  then have "i \<in> set (List.map_filter (deleted_identity entries db) entries)" using assms(2) by (force simp: map_filter_def)
  note found = discover_finds [OF assms(1) this]
  from Some obtain c where "category_of (resolve_categories_for_entries entries (categories db)) e = Some c" "i = (c, properties_signature e)"
    by (auto simp: deleted_identity_def)
  with found Some show ?thesis by (simp add: deleted_outcome_of_def split: option.splits)
qed

lemma named_rows:
  assumes "identities_ok db" "distinct (map row_id (stock_rows db))" "r \<in> set (stock_rows db)"
  shows "row_id r \<in> {row_id x |e i x. e \<in> set entries \<and> deleted_identity entries db e = Some i \<and> live_row db i = Some x}
    \<longleftrightarrow> \<not> row_is_deleted r \<and> Some (row_identity r) \<in> deleted_identity entries db ` set entries"
proof
  assume "row_id r \<in> {row_id x |e i x. e \<in> set entries \<and> deleted_identity entries db e = Some i \<and> live_row db i = Some x}"
  then obtain e i x where x: "row_id r = row_id x" "e \<in> set entries" "deleted_identity entries db e = Some i" "live_row db i = Some x" by blast
  then have in_db: "x \<in> set (stock_rows db)" "\<not> row_is_deleted x" "row_identity x = i" using live_row_in by blast+
  then have "r = x" using row_unique [OF assms(2,3)] x(1) by simp
  then show "\<not> row_is_deleted r \<and> Some (row_identity r) \<in> deleted_identity entries db ` set entries" using in_db x by force
next
  assume "\<not> row_is_deleted r \<and> Some (row_identity r) \<in> deleted_identity entries db ` set entries"
  then obtain e where "\<not> row_is_deleted r" "e \<in> set entries" "deleted_identity entries db e = Some (row_identity r)" by auto
  then show "row_id r \<in> {row_id x |e i x. e \<in> set entries \<and> deleted_identity entries db e = Some i \<and> live_row db i = Some x}"
    using live_row_eq [OF assms(1,3)] by blast
qed

text \<open>The webhook answers every entry by the category and the live row it names, deletes exactly the rows named, and leaves
  the report sound.\<close>

lemma webhook_buries_named:
  assumes sound: "report_sound rs db"
    and request: "verify_location_tracker_webhook api_key configured headers = Inr ws" "workspace_known ws"
      "parse_stock_demand_deleted_body digest raw = Inr entries"
  shows "\<exists>db'. process_stock_demand_deleted api_key configured headers raw digest workspace_known True now db
      = Inr (db', map (\<lambda>e. (item_category_raw e, properties_raw e,
          case deleted_identity entries db e of None \<Rightarrow> DELETED_CATEGORY_NOT_FOUND
          | Some i \<Rightarrow> if live_row db i = None then NOT_FOUND else DELETED)) entries)
    \<and> report_sound rs db'
    \<and> map bare (stock_rows db') = map (\<lambda>r. if \<not> row_is_deleted r \<and> Some (row_identity r) \<in> deleted_identity entries db ` set entries
        then buried (row_id r) None now (bare r) else bare r) (stock_rows db)"
proof -
  have ids: "distinct (map row_id (stock_rows db))" and rows: "identities_ok db"
    using reportD(3) [OF sound] sound by (simp_all add: ledger_ok_def report_sound_def)
  define outcomes where "outcomes = map (\<lambda>e. (e, deleted_outcome_of (resolve_categories_for_entries entries (categories db))
      (discover_live_rows_by_identity (List.map_filter (deleted_identity entries db) entries) (stock_rows db)) e)) entries"
  define rids where "rids = sort (remdups (List.map_filter (\<lambda>(_, _, rid). rid) outcomes))"
  have outcome: "outcomes = map (\<lambda>e. (e, case deleted_identity entries db e of None \<Rightarrow> (DELETED_CATEGORY_NOT_FOUND, None)
       | Some i \<Rightarrow> (case live_row db i of None \<Rightarrow> (NOT_FOUND, None) | Some r \<Rightarrow> (DELETED, Some (row_id r))))) entries"
    unfolding outcomes_def by (intro map_cong refl) (simp add: deleted_outcome_found [OF rows])
  have set_rids: "set rids = {row_id x |e i x. e \<in> set entries \<and> deleted_identity entries db e = Some i \<and> live_row db i = Some x}"
  proof -
    have "rid \<in> set rids \<longleftrightarrow> (\<exists>e \<in> set entries. \<exists>i x. deleted_identity entries db e = Some i \<and> live_row db i = Some x \<and> rid = row_id x)" for rid
      by (simp only: rids_def outcome set_sort set_remdups map_filter_mem set_map split_beta bex_simps(7) snd_conv row_of_outcome)
    then show ?thesis by blast
  qed
  have live: "set rids \<subseteq> live_ids (map bare (stock_rows db))"
  proof
    fix rid
    assume "rid \<in> set rids"
    then obtain i x where "live_row db i = Some x" "rid = row_id x" unfolding set_rids by blast
    then have "x \<in> set (stock_rows db)" "\<not> row_is_deleted x" "rid = row_id x" using live_row_in [of db i x] by simp_all
    then show "rid \<in> live_ids (map bare (stock_rows db))" unfolding live_ids_bare by (simp add: live_ids_def)
  qed
  then have locked: "list_all (\<lambda>rid. List.find (\<lambda>r. row_id r = rid \<and> \<not> row_is_deleted r) (stock_rows db) \<noteq> None) rids"
    unfolding live_ids_bare by (auto simp: list_all_iff live_ids_def find_None_iff)
  have "distinct rids" by (simp add: rids_def)
  moreover have "\<forall>rid \<in> set rids. rid \<in> live_ids (map bare (stock_rows db))" using live by blast
  ultimately obtain db' where db': "rfold (cascade_delete_stock_report_item None now ''stock_demand_deleted'') db rids = Inr db'" "report_sound rs db'"
      "map bare (stock_rows db') = fold (\<lambda>rid. map (buried rid None now)) rids (map bare (stock_rows db))"
    using cascade.loop_refines [OF sound] by blast
  have "process_stock_demand_deleted api_key configured headers raw digest workspace_known True now db
      = Inr (db', map (\<lambda>(e, outcome, _). (item_category_raw e, properties_raw e, outcome)) outcomes)"
    using db'(1) locked request
    by (simp add: process_stock_demand_deleted_def Let_def outcomes_def [symmetric] deleted_identity_def [symmetric] rids_def [symmetric] del: map_map)
  moreover have "map (\<lambda>(e, outcome, _). (item_category_raw e, properties_raw e, outcome)) outcomes
      = map (\<lambda>e. (item_category_raw e, properties_raw e,
          case deleted_identity entries db e of None \<Rightarrow> DELETED_CATEGORY_NOT_FOUND
          | Some i \<Rightarrow> if live_row db i = None then NOT_FOUND else DELETED)) entries"
    unfolding outcome by (auto split: option.splits)
  moreover have "map bare (stock_rows db') = map (\<lambda>r. if \<not> row_is_deleted r \<and> Some (row_identity r) \<in> deleted_identity entries db ` set entries
        then buried (row_id r) None now (bare r) else bare r) (stock_rows db)"
    unfolding db'(3) fold_buried [OF \<open>distinct rids\<close>] list.map_comp comp_def bare_simp
    by (intro map_cong refl) (simp only: set_rids named_rows [OF rows ids])
  ultimately show ?thesis using db'(2) by (intro exI [of _ db'] conjI) (simp only:)+
qed

section \<open>An example\<close>

definition report_lists :: board where
  "report_lists vid p = (if p = PriorityHIGH then if vid = ''v'' then [''s1'', ''s2''] else if vid = ''d'' then [''d2'', ''d1''] else [] else [])"

definition sample_report :: stock_db where
  "sample_report = sample_office\<lparr>
     stock_rows := stock_rows sample_office @ [(new_row ''q'' (''c'', ''h'') [])\<lparr>row_requested := 6\<rparr>],
     snapshots := [board_snapshot ''s1'' ''v'' ''r'' (Some 5) (Some (PriorityHIGH, 1)), board_snapshot ''s2'' ''v'' ''q'' (Some 5) (Some (PriorityHIGH, 2)),
       board_snapshot ''d1'' ''d'' ''r'' None (Some (PriorityHIGH, 2)), board_snapshot ''d2'' ''d'' ''q'' None (Some (PriorityHIGH, 1))],
     versions := [board_version ''v'' (Some 5), (board_version ''d'' None)\<lparr>snapshot_count := 2\<rparr>],
     categories := [sample_chair ''c'' ''Chair'']\<rparr>"

lemmas report_simps = sample_report_def sample_office_def sample_stock_def sample_row_def new_row_def sample_assignment_def board_snapshot_def board_version_def

lemma sample_report_board: "snapshots_ok sample_report" "covered sample_report" "shows_board report_lists (snapshots sample_report)"
  "schedules_ok sample_report"
proof -
  show "snapshots_ok sample_report"
    by (simp add: snapshots_ok_def sound_snapshot_def is_version_active_def report_simps)
  show "covered sample_report"
    by (simp add: covered_def its_row_def row_of_def snapshot_ceiling_def effective_quantity_requested_def scanner_quantity_requested_def
        missing_quantity_ceiling_def report_simps)
  show "shows_board report_lists (snapshots sample_report)"
    by (auto simp: shows_board_def slots_def in_group_def is_snapshot_open_def report_lists_def report_simps split: if_splits)
  show "schedules_ok sample_report" by (simp add: schedules_ok_def report_simps)
qed

lemma sample_report_sound: "report_sound [] sample_report"
proof -
  have "ledger_ok sample_report"
  proof -
    have "tally asgs ''q'' st = 0" if "asgs = assignments sample_stock" for asgs st
      unfolding that by (rule no_units) (simp add: sample_stock_def sample_assignment_def)
    then show ?thesis using sample_office_ok(1)
      by (simp add: report_ok_def ledger_ok_def sample_report_def sample_office_def exact_row_def all_columns new_row_def sample_stock_def sample_row_def)
  qed
  moreover have "repairs sample_report = []" "busy sample_report = busy sample_office" "flags_ok sample_report = flags_ok sample_office"
    by (simp_all add: sample_report_def busy_def flags_ok_def sample_office_def sample_stock_def)
  ultimately have "report_ok [] sample_report" using sample_office_ok(1) by (simp add: report_ok_def)
  moreover have "identities_ok sample_report" by (simp add: identities_ok_def row_identity_def report_simps)
  moreover have "drafts_full sample_report" by (auto simp: drafts_full_def is_version_draft_def report_simps)
  moreover have "gone_clean sample_report" by (simp add: gone_clean_def report_simps)
  ultimately show ?thesis using sample_report_board by (auto simp: report_sound_def board_sound_def)
qed

lemma sample_report_parts:
  "live_ids (stock_rows sample_report) = {''r'', ''q''}"
  "snapshot_id ` {s \<in> set (snapshots sample_report). snapshot_row_id s = ''r'' \<and> is_snapshot_open s} = {''s1'', ''d1''}"
  "map (\<lambda>a. case view a of (i, t, s, d) \<Rightarrow> (i, t, s, d \<or> assignment_row_id a = ''r'')) (assignments sample_report)
    = [(''a1'', ''t1'', AsgIN_QUEUE, True), (''a2'', ''t2'', AsgIN_PROGRESS, True), (''a3'', ''t3'', AsgAWAITING, True)]"
proof -
  show "live_ids (stock_rows sample_report) = {''r'', ''q''}" by (auto simp: live_ids_def report_simps)
  have "{s \<in> set (snapshots sample_report). snapshot_row_id s = ''r'' \<and> is_snapshot_open s}
      = set (filter (\<lambda>s. snapshot_row_id s = ''r'' \<and> is_snapshot_open s) (snapshots sample_report))" by auto
  then show "snapshot_id ` {s \<in> set (snapshots sample_report). snapshot_row_id s = ''r'' \<and> is_snapshot_open s} = {''s1'', ''d1''}"
    by (simp add: report_simps is_snapshot_open_def)
  show "map (\<lambda>a. case view a of (i, t, s, d) \<Rightarrow> (i, t, s, d \<or> assignment_row_id a = ''r'')) (assignments sample_report)
    = [(''a1'', ''t1'', AsgIN_QUEUE, True), (''a2'', ''t2'', AsgIN_PROGRESS, True), (''a3'', ''t3'', AsgAWAITING, True)]"
    by (simp add: report_simps view_def)
qed

theorem deletion_empties_row_witness:
  "(\<exists>db'. delete_stock_report_item ''r'' (Some ''u'') 9 sample_report = Inr db' \<and> report_sound [] db'
      \<and> views db' = [(''a1'', ''t1'', AsgIN_QUEUE, True), (''a2'', ''t2'', AsgIN_PROGRESS, True), (''a3'', ''t3'', AsgAWAITING, True)]
      \<and> shows_board (\<lambda>vid p. if p = PriorityHIGH \<and> vid = ''v'' then [''s2''] else if p = PriorityHIGH \<and> vid = ''d'' then [''d2''] else []) (snapshots db'))
   \<and> delete_stock_report_item ''x'' (Some ''u'') 9 sample_report = Inl (NotFound ''Stock report item not found.'')"
proof -
  have lists: "(\<lambda>vid p. filter (\<lambda>i. i \<notin> {''s1'', ''d1''}) (report_lists vid p))
      = (\<lambda>vid p. if p = PriorityHIGH \<and> vid = ''v'' then [''s2''] else if p = PriorityHIGH \<and> vid = ''d'' then [''d2''] else [])"
    by (intro ext) (simp add: report_lists_def)
  have ids: "''r'' \<in> live_ids (stock_rows sample_report)" "''x'' \<notin> live_ids (stock_rows sample_report)" by (simp_all add: sample_report_parts(1))
  note run = deletion_empties_row [OF sample_report_sound sample_report_board(3), where actor = "Some ''u''" and now = 9]
  show ?thesis
    using run [of "''r''", unfolded sample_report_parts(2,3) lists] run [of "''x''"] unfolding if_P [OF ids(1)] if_not_P [OF ids(2)] by blast
qed

end
