(* ===== verification/Spec2Isabelle.thy ===== *)
theory Spec2Isabelle
  imports Prelude PyDecimal Calculator PriceScenario TypicalFilters Apportionment BudgetDivision
    ProductionPressure BudgetSignal EconomicsConfiguration TimeSweep Concurrency LinearTimeline
    TaskStepEnums Upholstery StepStore StepReadiness TaskSideEffects StepSettlement StepTransition StepInvariants StepHistories StepRemoval
    PyJson StockStore StockMatching StockRequests StockLedger StockCreation StockProcessing StockTargets StockOrdering StockMerge StockVersions StockBoards StockActivation StockSchedules StockBoardHistory StockDemand StockReportSound StockDeletion
begin

text \<open>
  The manager backend of a furniture workshop, \<open>src/app/beyo_manager\<close>: a Python service over a SQL database that
  plans the work on the items of a workspace, measures and prices it, and keeps the report of the stock that still
  has to be produced. The library models its decision logic: the pure rules under \<open>domain/\<close> and the commands under
  \<open>services/commands/\<close> that change the tables these rules are about.

  \<^bold>\<open>How the model corresponds to the code.\<close> A value of a table row is a \<open>record\<close> with the columns the commands
  read and write, under the names of the ORM classes of \<open>models/tables/\<close>; an enumeration is a \<open>datatype\<close> with one
  constructor for each member. A store is a record of tables, lists in the order of insertion, and it holds the rows
  of one workspace: the filter by workspace that each query carries is therefore not repeated. A command is a
  function from its arguments and the store to \<open>exc + store\<close> (the type \<open>result\<close> of the theory Prelude): a raised
  exception is an \<open>Inl\<close> with the exception of the code, and the caller keeps the old store, as the session that
  rolls back does. A clock or a client id that the code generates is an argument of the definition. A row lock is a
  read of the locked row; commands that lock run one after the other, so interleavings are those of whole
  commands. Python's \<open>int\<close> is \<open>int\<close>; its \<open>Decimal\<close> is modelled in PyDecimal with the context's precision and
  \<open>ROUND_HALF_EVEN\<close>; sums of floating-point seconds are exact rationals.

  \<^bold>\<open>Item economics\<close> (\<open>domain/item_economics/\<close>). PyDecimal: the part of the module \<open>decimal\<close> the code uses.
  Calculator: \<open>calculator.py\<close>, its entry guards on dynamic values, its formulas and the re-derivation of a stored
  snapshot; re-derivation accepts exactly the consistent snapshots, and the one formula that can round an exact tie
  away from even has its counterexample. PriceScenario: \<open>price_scenario.py\<close>, the integer model of the price slider;
  the doubling and bisecting search returns the least price with the wanted property, proved in the locale
  \<open>monotone_threshold\<close>. TypicalFilters: \<open>typical_filters.py\<close>, which history a typical working time is read from.
  Apportionment and BudgetDivision: \<open>budget_division.py\<close>, the largest-remainder division of a production budget
  among sections and steps, which conserves the budget. ProductionPressure: \<open>remaining_production_pressure.py\<close>.
  BudgetSignal: \<open>budget_signal.py\<close>. EconomicsConfiguration: \<open>configuration.py\<close>.

  \<^bold>\<open>Analytics\<close> (\<open>domain/analytics/\<close>). TimeSweep: what the two sweeps share. Concurrency: \<open>concurrency.py\<close>, the time of
  overlapping records averaged so that no second counts twice. LinearTimeline: \<open>linear_timeline.py\<close>, whose segments
  refine the state of every instant.

  \<^bold>\<open>Task steps\<close> (\<open>domain/task_steps/\<close>, \<open>services/commands/task_steps/\<close>, \<open>services/commands/tasks/\<close>).
  TaskStepEnums: the vocabularies. StepStore: the tables. StepReadiness: the dependency graph and the counters that
  make a step ready (\<open>readiness.py\<close>, \<open>_cascade_completion.py\<close>, \<open>_wire_new_step_dependencies.py\<close>, the two commands on
  single edges). StepSettlement: the settlement of a step's time (\<open>averaged_time.py\<close>, \<open>_settle_step_time.py\<close>).
  Upholstery: the fabric stock and the bridge a step move crosses. TaskSideEffects: post-handling and customer
  coordination. StepTransition: the shared core of a transition and the endpoints over it; StepInvariants: the trail
  of state records; StepHistories: the batch, the pause of a deleted task and the forced completion, and what every
  sequence of the four step commands keeps (the two commands on single edges are not among them: they can break the
  counters, as StepReadiness shows). StepRemoval: the removal of steps. A transition calls, in this order, the
  cascade of StepReadiness, the settlement, the bridge of Upholstery and the side effects of its task, over one store.

  \<^bold>\<open>Stock report\<close> (\<open>domain/stock_report/\<close>, \<open>services/commands/stock_report/\<close>).
  StockStore: the tables and the pure rules over them. StockMatching: the criteria of a row, their matching with the
  properties of an item and the identity they give it (\<open>domain/stock_report/\<close>). StockRequests: the bodies of the webhooks.
  StockCreation: the checks, the preview and the batch creation of assignments. StockLedger: the ledger of assignments
  (\<open>_move_assignment.py\<close>, \<open>_goal_credit.py\<close>, \<open>_snapshot_resolved.py\<close>, \<open>_snapshot_missing.py\<close>, the sync of a task's
  assignments and their deletion); a move changes the counters of its row by a guarded statement, and the ledger is
  exact when the counters are the tallies of the assignments. StockProcessing: the webhook that resolves processed
  items. StockTargets: how a command finds the snapshot it edits. StockOrdering: priorities and positions on the board
  (\<open>_ordering.py\<close>), refining one list for each version and priority. StockMerge: the order of one version applied onto
  another. StockVersions: opening, planning, activating, refreshing and deleting a version, and the two quantities a
  user sets. StockBoards: what the statements of these commands do to a well-formed store. StockActivation: the store
  that an activation leaves. StockSchedules: the scheduled activations of several drafts, in any order of the workers.
  StockBoardHistory: every sequence of these commands and of the runner that fires the due schedulers
  (\<open>services/infra/schedulers/delayed_scheduler_runner.py\<close>). StockDemand: the demand webhook, which finds or creates
  the rows. StockReportSound: the invariant \<open>report_sound\<close> of the whole report, board and ledger together, and the steps
  of the ledger that keep it. StockDeletion: the deletion of a row (\<open>_delete_stock_report_item_cascade.py\<close>), by the
  application and by the webhook of the scanner.

  \<^bold>\<open>What the groups of lemmas show.\<close> For each store there is an invariant and a lemma for every operation that keeps it
  (\<open>store_ok\<close> with the trails and the counters for the step commands, \<open>board_ok\<close> for the ledger, \<open>snapshots_ok\<close>,
  \<open>covered\<close> and \<open>shows_board\<close> for the board), closed over histories by rule induction (\<open>command\<close> in StepHistories,
  \<open>board_history\<close> in StockBoardHistory). The ledger and the board have abstract specifications (the tally of the
  assignments, the lists of the board) that the statements refine. The loops of moves are an instance of the locale
  \<open>refining_loop\<close>, the mutations of the fabric stock of \<open>row_mutation\<close>, the apportionment of \<open>apportionment\<close>. The counters
  that a user's edges break, the worker whose credit breaks the one-active-step rule and the other deviations that
  the proofs met are stated as theorems with a concrete store.

  \<^bold>\<open>Bounds and termination.\<close> The search of PriceScenario stops at \<open>SEARCH_CAP_MINOR\<close>, \<open>2 ^ 40\<close> as in the code, so its
  doubling ends after 41 rounds, which the termination proof of \<open>double_high\<close> shows. The decimal contexts have 50 digits
  in the calculator and 28 in the costs, as the code sets them, and PyDecimal shows on which inputs an operation is
  exact: columns of money below \<open>10 ^ 19\<close> and of rates with at most 12 digits. All other loops are structural
  recursions or folds over the rows, so no definition has fuel.

  \<^bold>\<open>Not modelled.\<close> The routers, the serializers of responses and the read queries that only select and shape rows;
  the events, notifications and sockets that follow a commit (a function that returns whether or to whom something
  is published is modelled up to that value); the ORM mapping and the migrations; the clients of external services
  (mail, Shopify, Connecteam, storage, the upholstery providers), whose behaviour is not in the repository; the
  execution of background tasks, with the exception of the runner and the handler of a scheduled activation; the simple create,
  update and delete commands of users, customers, cases, images and files, which write the request to a row. The case folding and the
  stripping of strings are those of ASCII, and a JSON object is the list of its entries, without floating-point numbers.
  Commands that hold no lock can interleave inside one another in the database; the model orders whole commands only.
\<close>

end
